(* ===== verification/Prelude.thy ===== *)
theory Prelude
  imports Main "HOL-Library.Word" "HOL-Library.Monad_Syntax"
begin

unbundle bit_operations_syntax

text \<open>
  Shared material of the development: the C++ integer conventions, memory buffers of bytes with
  checked reads and writes, the little-endian encoding of the fixed-width integers, and list
  lemmas used by several components.

  Conventions. A C++ \<open>int\<close>, \<open>int32_t\<close> or \<open>qint64\<close> is an \<open>int\<close>; where the code can leave
  its range the model says so, either through \<open>wrap32\<close> (what a conversion to \<open>int\<close> does) or by
  a lemma that the range is kept (\<open>fits32\<close>). Unsigned integers that are read bitwise or that wrap
  are words. An access outside an allocation is undefined in C++ and \<open>None\<close> here.
\<close>

section \<open>Fact collections\<close>

named_theorems bytes_simps \<open>reading back what was written into a buffer\<close>
named_theorems wire_simps \<open>lengths and layouts of packet headers\<close>

section \<open>C++ integers\<close>

definition fits32 :: "int \<Rightarrow> bool" where
  "fits32 x \<longleftrightarrow> - (2 ^ 31) \<le> x \<and> x < 2 ^ 31"

definition wrap32 :: "int \<Rightarrow> int" where
  "wrap32 x = (x + 2 ^ 31) mod 2 ^ 32 - 2 ^ 31"

text \<open>C++ integer division truncates towards zero, and \<open>%\<close> has the sign of the dividend.\<close>

definition cdiv :: "int \<Rightarrow> int \<Rightarrow> int" where
  "cdiv a b = sgn a * sgn b * (\<bar>a\<bar> div \<bar>b\<bar>)"

definition crem :: "int \<Rightarrow> int \<Rightarrow> int" where
  "crem a b = a - cdiv a b * b"

definition INT_MAX :: int where
  "INT_MAX = 2147483647"

lemma wrap32_fits: "fits32 (wrap32 x)"
proof -
  have "0 \<le> (x + 2 ^ 31) mod 2 ^ 32" and "(x + 2 ^ 31) mod 2 ^ 32 < (2 ^ 32 :: int)"
    by simp_all
  then show ?thesis by (simp add: fits32_def wrap32_def)
qed

lemma wrap32_id: "fits32 x \<Longrightarrow> wrap32 x = x"
  by (simp add: fits32_def wrap32_def)

lemma cdiv_nonneg: "0 \<le> a \<Longrightarrow> 0 < b \<Longrightarrow> cdiv a b = a div b"
  by (cases "a = 0") (simp_all add: cdiv_def)

lemma crem_nonneg: "0 \<le> a \<Longrightarrow> 0 < b \<Longrightarrow> crem a b = a mod b"
  by (simp add: crem_def cdiv_nonneg minus_div_mult_eq_mod)

section \<open>Memory buffers\<close>

type_synonym byte = "8 word"

text \<open>\<open>memcpy(buffer + off, src, n)\<close> and \<open>memcpy(dst, buffer + off, n)\<close> on one allocation.\<close>

definition mem_write :: "byte list \<Rightarrow> nat \<Rightarrow> byte list \<Rightarrow> byte list option" where
  "mem_write buf off src =
     (if off + length src \<le> length buf
      then Some (take off buf @ src @ drop (off + length src) buf) else None)"

definition mem_read :: "byte list \<Rightarrow> nat \<Rightarrow> nat \<Rightarrow> byte list option" where
  "mem_read buf off n = (if off + n \<le> length buf then Some (take n (drop off buf)) else None)"

lemma mem_write_length: "mem_write buf off src = Some buf' \<Longrightarrow> length buf' = length buf"
  by (auto simp: mem_write_def split: if_splits)

lemma mem_write_None: "mem_write buf off src = None \<longleftrightarrow> length buf < off + length src"
  by (auto simp: mem_write_def)

lemma mem_read_length: "mem_read buf off n = Some bs \<Longrightarrow> length bs = n"
  by (auto simp: mem_read_def split: if_splits)

lemma mem_read_write_same [bytes_simps]:
  assumes "mem_write buf off src = Some buf'" and "n = length src"
  shows "mem_read buf' off n = Some src"
  using assms by (auto simp: mem_read_def mem_write_def split: if_splits)

lemma mem_read_write_before [bytes_simps]:
  assumes "mem_write buf off src = Some buf'" and "o2 + n \<le> off"
  shows "mem_read buf' o2 n = mem_read buf o2 n"
proof -
  from assms(1) have b: "buf' = take off buf @ src @ drop (off + length src) buf"
    and l: "off + length src \<le> length buf"
    by (auto simp: mem_write_def split: if_splits)
  have "take n (drop o2 buf') = take n (drop o2 (take off buf))"
    using assms(2) l by (simp add: b)
  also have "\<dots> = take n (drop o2 buf)"
    using assms(2) by (simp add: drop_take min_def)
  finally show ?thesis
    using l by (auto simp: mem_read_def b)
qed

lemma mem_read_write_after [bytes_simps]:
  assumes "mem_write buf off src = Some buf'" and "off + length src \<le> o2"
  shows "mem_read buf' o2 n = mem_read buf o2 n"
proof -
  from assms(1) have b: "buf' = take off buf @ src @ drop (off + length src) buf"
    and l: "off + length src \<le> length buf"
    by (auto simp: mem_write_def split: if_splits)
  have "drop o2 buf' = drop o2 buf"
    using assms(2) l by (simp add: b)
  then show ?thesis
    using mem_write_length [OF assms(1)] by (simp add: mem_read_def)
qed

lemma mem_write_drop:
  "mem_write buf off src = Some buf' \<Longrightarrow> off + length src \<le> k \<Longrightarrow> drop k buf' = drop k buf"
  by (auto simp: mem_write_def split: if_splits)

section \<open>Little-endian integers\<close>

text \<open>
  The code reads and writes integers in place through \<open>reinterpret_cast\<close> and \<open>memcpy\<close>, so their
  layout is the host's: little-endian on every platform the program is built for.
\<close>

definition le16 :: "16 word \<Rightarrow> byte list" where
  "le16 w = [ucast w, ucast (drop_bit 8 w)]"

definition le32 :: "32 word \<Rightarrow> byte list" where
  "le32 w = le16 (ucast w) @ le16 (ucast (drop_bit 16 w))"

definition le64 :: "64 word \<Rightarrow> byte list" where
  "le64 w = le32 (ucast w) @ le32 (ucast (drop_bit 32 w))"

fun un_le16 :: "byte list \<Rightarrow> 16 word" where
  "un_le16 [a, b] = ucast a OR push_bit 8 (ucast b)"
| "un_le16 _ = 0"

definition un_le32 :: "byte list \<Rightarrow> 32 word" where
  "un_le32 bs = ucast (un_le16 (take 2 bs)) OR push_bit 16 (ucast (un_le16 (drop 2 bs)))"

definition un_le64 :: "byte list \<Rightarrow> 64 word" where
  "un_le64 bs = ucast (un_le32 (take 4 bs)) OR push_bit 32 (ucast (un_le32 (drop 4 bs)))"

lemma length_le16 [wire_simps, simp]: "length (le16 w) = 2"
  by (simp add: le16_def)

lemma length_le32 [wire_simps, simp]: "length (le32 w) = 4"
  by (simp add: le32_def)

lemma length_le64 [wire_simps, simp]: "length (le64 w) = 8"
  by (simp add: le64_def)

lemma un_le16_le16 [bytes_simps, simp]: "un_le16 (le16 w) = w"
  by (rule bit_word_eqI) (auto simp: le16_def bit_simps)

lemma join_halves32: "ucast (ucast w :: 16 word) OR push_bit 16 (ucast (ucast (drop_bit 16 w) :: 16 word)) = (w :: 32 word)"
  by (rule bit_word_eqI) (auto simp: bit_simps)

lemma join_halves64: "ucast (ucast w :: 32 word) OR push_bit 32 (ucast (ucast (drop_bit 32 w) :: 32 word)) = (w :: 64 word)"
  by (rule bit_word_eqI) (auto simp: bit_simps)

lemma un_le32_le32 [bytes_simps, simp]: "un_le32 (le32 w) = w"
  by (simp add: un_le32_def le32_def join_halves32)

lemma un_le64_le64 [bytes_simps, simp]: "un_le64 (le64 w) = w"
  by (simp add: un_le64_def le64_def join_halves64)

definition read32 :: "byte list \<Rightarrow> nat \<Rightarrow> 32 word option" where
  "read32 buf off = map_option un_le32 (mem_read buf off 4)"

section \<open>UUIDs\<close>

text \<open>A \<open>QUuid\<close> is its 128 bits; its RFC 4122 form has the most significant byte first.\<close>

type_synonym uuid = "128 word"

definition toRfc4122 :: "uuid \<Rightarrow> byte list" where
  "toRfc4122 u = map (\<lambda>i. ucast (drop_bit (8 * (15 - i)) u)) [0..<16]"

definition fromRfc4122 :: "byte list \<Rightarrow> uuid" where
  "fromRfc4122 bytes = (if length bytes = 16 then word_rcat bytes else 0)"

lemma length_toRfc4122 [simp]: "length (toRfc4122 u) = 16"
  by (simp add: toRfc4122_def)

lemma fromRfc4122_toRfc4122 [bytes_simps, simp]: "fromRfc4122 (toRfc4122 u) = u"
proof (rule bit_word_eqI)
  fix n
  assume n: "n < LENGTH(128)"
  then have d: "n div 8 < 16" by simp
  have b: "bit (ucast (drop_bit (8 * m) u) :: byte) k \<longleftrightarrow> k < 8 \<and> bit u (8 * m + k)" for m k
    by (simp only: bit_ucast_iff bit_drop_bit_eq o_def) (simp add: bit_simps)
  have "[0..<16] ! (15 - n div 8) = 15 - n div 8" using nth_upt [of 0 "15 - n div 8" 16] by simp
  then have "rev (toRfc4122 u) ! (n div 8) = ucast (drop_bit (8 * (n div 8)) u)"
    using d by (simp add: rev_nth toRfc4122_def)
  then have "bit (rev (toRfc4122 u) ! (n div 8)) (n mod 8) = bit u n"
    using b [of "n div 8" "n mod 8"] by simp
  then show "bit (fromRfc4122 (toRfc4122 u)) n = bit u n"
    using n d bit_horner_sum_uint_exp_iff [of "rev (toRfc4122 u)" n]
    by (simp add: fromRfc4122_def word_rcat_def bit_word_of_int_iff)
qed

section \<open>Lists\<close>

text \<open>\<open>std::find_if\<close> splits a list at the first element that satisfies the predicate.\<close>

lemma dropWhile_Cons_split:
  assumes "dropWhile P xs = y # ys"
  shows "xs = takeWhile P xs @ y # ys" and "\<not> P y" and "\<forall>x \<in> set (takeWhile P xs). P x"
proof -
  show "xs = takeWhile P xs @ y # ys"
    using takeWhile_dropWhile_id [of P xs] assms by simp
  show "\<not> P y"
    using hd_dropWhile [of P xs] assms by simp
  show "\<forall>x \<in> set (takeWhile P xs). P x"
    by (auto dest: set_takeWhileD)
qed

lemma dropWhile_Nil_all: "dropWhile P xs = [] \<Longrightarrow> takeWhile P xs = xs \<and> (\<forall>x \<in> set xs. P x)"
  by (metis dropWhile_eq_Nil_conv takeWhile_eq_all_conv)

lemma butlast_last_id: "xs \<noteq> [] \<Longrightarrow> butlast xs @ [last xs] = xs"
  by simp

lemma take_drop_overwrite:
  assumes "s + k + length d \<le> length xs"
  shows "take (k + length d) (drop s (take (s + k) xs @ d @ ys)) = take k (drop s xs) @ d"
proof -
  have "drop s (take (s + k) xs @ d @ ys) = take k (drop s xs) @ d @ ys"
    using assms by (simp add: drop_take)
  then show ?thesis
    using assms by simp
qed

section \<open>Ordered maps\<close>

text \<open>A \<open>std::map\<close> is its list of entries in the order of the keys; \<open>map_of\<close> reads it.\<close>

fun omap_upd :: "'k :: linorder \<Rightarrow> 'v \<Rightarrow> ('k \<times> 'v) list \<Rightarrow> ('k \<times> 'v) list" where
  "omap_upd k v [] = [(k, v)]"
| "omap_upd k v ((k', v') # m) =
     (if k < k' then (k, v) # (k', v') # m
      else if k = k' then (k, v) # m else (k', v') # omap_upd k v m)"

definition omap_del :: "'k \<Rightarrow> ('k \<times> 'v) list \<Rightarrow> ('k \<times> 'v) list" where
  "omap_del k m = filter (\<lambda>e. fst e \<noteq> k) m"

lemma map_of_omap_upd [simp]: "map_of (omap_upd k v m) = (map_of m)(k \<mapsto> v)"
  by (induction k v m rule: omap_upd.induct) (auto simp: fun_eq_iff)

lemma map_of_omap_del [simp]: "map_of (omap_del k m) = (map_of m)(k := None)"
  by (induction m) (auto simp: omap_del_def fun_eq_iff)

lemma set_omap_upd: "set (map fst (omap_upd k v m)) = insert k (set (map fst m))"
  by (induction k v m rule: omap_upd.induct) auto

lemma sorted_omap_upd: "sorted_wrt (<) (map fst m) \<Longrightarrow> sorted_wrt (<) (map fst (omap_upd k v m))"
proof (induction k v m rule: omap_upd.induct)
  case (2 k v k' v' m)
  then show ?case
    using set_omap_upd [of k v m] by (auto dest: less_trans)
qed simp

lemma sorted_omap_del: "sorted_wrt (<) (map fst m) \<Longrightarrow> sorted_wrt (<) (map fst (omap_del k m))"
  by (induction m) (auto simp: omap_del_def)

end
