(* ===== verification/Udt_Sequence.thy ===== *)
theory Udt_Sequence
  imports Prelude
begin

text \<open>
  The 27-bit packet sequence numbers of \<open>udt/SequenceNumber.h\<close> and \<open>SequenceNumber.cpp\<close>: their
  constructors, increments, additions, the circular comparison and the two distances. The state
  of the class is its one field \<open>_value\<close>, an \<open>int32_t\<close>; a sequence number is that integer.

  The abstract specification is arithmetic modulo \<open>2 ^ 27\<close> (\<open>seq_abs\<close>). Every operation but one
  refines it: \<open>operator-=\<close> is two too small when it wraps below zero
  (\<open>SequenceNumber_minus_wraps_short\<close>), which the components that compute \<open>seq - 1\<close> inherit.
\<close>

section \<open>The class\<close>

type_synonym seqnum = int

(* @src libraries/networking/src/udt/SequenceNumber.h 28-28 SequenceNumber::THRESHOLD *)
definition SequenceNumber_THRESHOLD :: int where
  "SequenceNumber_THRESHOLD = 0x03FFFFFF"

(* @src libraries/networking/src/udt/SequenceNumber.h 29-29 SequenceNumber::MAX *)
definition SequenceNumber_MAX :: int where
  "SequenceNumber_MAX = 0x07FFFFFF"

(* @src libraries/networking/src/udt/SequenceNumber.h 31-32 SequenceNumber::SequenceNumber() *)
definition SequenceNumber_default :: seqnum where
  "SequenceNumber_default = 0"

text \<open>From the four bytes at a pointer, read as a little-endian integer.\<close>

(* @src libraries/networking/src/udt/SequenceNumber.h 34-35 SequenceNumber::SequenceNumber(char ptr) *)
definition SequenceNumber_of_bytes :: "32 word \<Rightarrow> seqnum" where
  "SequenceNumber_of_bytes w = uint (w AND word_of_int SequenceNumber_MAX)"

(* @src libraries/networking/src/udt/SequenceNumber.h 36-36 SequenceNumber::SequenceNumber(Type) *)
definition SequenceNumber_of_int :: "int \<Rightarrow> seqnum" where
  "SequenceNumber_of_int value =
     (if value \<le> SequenceNumber_MAX then (if 0 \<le> value then value else 0)
      else SequenceNumber_MAX)"

(* @src libraries/networking/src/udt/SequenceNumber.h 37-37 SequenceNumber::SequenceNumber(UType) *)
definition SequenceNumber_of_uint :: "32 word \<Rightarrow> seqnum" where
  "SequenceNumber_of_uint value =
     (if uint value \<le> SequenceNumber_MAX then uint value else SequenceNumber_MAX)"

(* @src libraries/networking/src/udt/SequenceNumber.h 38-39 SequenceNumber::operator UType() *)
definition SequenceNumber_to_uint :: "seqnum \<Rightarrow> 32 word" where
  "SequenceNumber_to_uint s = word_of_int s"

(* @src libraries/networking/src/udt/SequenceNumber.h 41-44 SequenceNumber::operator++ *)
definition SequenceNumber_inc :: "seqnum \<Rightarrow> seqnum" where
  "SequenceNumber_inc s = crem (s + 1) (SequenceNumber_MAX + 1)"

(* @src libraries/networking/src/udt/SequenceNumber.h 45-48 SequenceNumber::operator-- *)
definition SequenceNumber_dec :: "seqnum \<Rightarrow> seqnum" where
  "SequenceNumber_dec s = (if s = 0 then SequenceNumber_MAX else s - 1)"

text \<open>The postfix operators return the old value beside the new one.\<close>

(* @src libraries/networking/src/udt/SequenceNumber.h 49-53 SequenceNumber::operator++(int) *)
definition SequenceNumber_postinc :: "seqnum \<Rightarrow> seqnum \<times> seqnum" where
  "SequenceNumber_postinc s = (let before = s; s' = SequenceNumber_inc s in (before, s'))"

(* @src libraries/networking/src/udt/SequenceNumber.h 54-58 SequenceNumber::operator--(int) *)
definition SequenceNumber_postdec :: "seqnum \<Rightarrow> seqnum \<times> seqnum" where
  "SequenceNumber_postdec s = (let before = s; s' = SequenceNumber_dec s in (before, s'))"

(* @src libraries/networking/src/udt/SequenceNumber.h 64-67 SequenceNumber::operator+= *)
definition SequenceNumber_plus :: "seqnum \<Rightarrow> int \<Rightarrow> seqnum" where
  "SequenceNumber_plus s inc =
     (if s + inc > SequenceNumber_MAX then s + inc - (SequenceNumber_MAX + 1) else s + inc)"

(* @src libraries/networking/src/udt/SequenceNumber.h 68-71 SequenceNumber::operator-= *)
definition SequenceNumber_minus :: "seqnum \<Rightarrow> int \<Rightarrow> seqnum" where
  "SequenceNumber_minus s dec =
     (if s < dec then SequenceNumber_MAX - (dec - s + 1) else s - dec)"

(* @src libraries/networking/src/udt/SequenceNumber.h 101-103 operator< *)
definition SequenceNumber_lt :: "seqnum \<Rightarrow> seqnum \<Rightarrow> bool" where
  "SequenceNumber_lt a b = (if \<bar>a - b\<bar> < SequenceNumber_THRESHOLD then a < b else b < a)"

(* @src libraries/networking/src/udt/SequenceNumber.h 105-107 operator> *)
definition SequenceNumber_gt :: "seqnum \<Rightarrow> seqnum \<Rightarrow> bool" where
  "SequenceNumber_gt a b = (if \<bar>a - b\<bar> < SequenceNumber_THRESHOLD then a > b else b > a)"

(* @src libraries/networking/src/udt/SequenceNumber.h 109-111 operator<= *)
definition SequenceNumber_le :: "seqnum \<Rightarrow> seqnum \<Rightarrow> bool" where
  "SequenceNumber_le a b = (if \<bar>a - b\<bar> < SequenceNumber_THRESHOLD then a \<le> b else b \<le> a)"

(* @src libraries/networking/src/udt/SequenceNumber.h 113-115 operator>= *)
definition SequenceNumber_ge :: "seqnum \<Rightarrow> seqnum \<Rightarrow> bool" where
  "SequenceNumber_ge a b = (if \<bar>a - b\<bar> < SequenceNumber_THRESHOLD then a \<ge> b else b \<ge> a)"

(* @src libraries/networking/src/udt/SequenceNumber.cpp 22-25 udt::seqlen *)
definition seqlen :: "seqnum \<Rightarrow> seqnum \<Rightarrow> int" where
  "seqlen seq1 seq2 =
     (if seq1 \<le> seq2 then seq2 - seq1 + 1 else seq2 - seq1 + SequenceNumber_MAX + 2)"

(* @src libraries/networking/src/udt/SequenceNumber.cpp 27-37 udt::seqoff *)
definition seqoff :: "seqnum \<Rightarrow> seqnum \<Rightarrow> int" where
  "seqoff seq1 seq2 =
     (if \<bar>seq1 - seq2\<bar> < SequenceNumber_THRESHOLD then seq2 - seq1
      else if seq1 < seq2 then seq2 - seq1 - SequenceNumber_MAX - 1
      else seq2 - seq1 + SequenceNumber_MAX + 1)"

lemmas seq_consts = SequenceNumber_THRESHOLD_def SequenceNumber_MAX_def

lemmas seq_ops = SequenceNumber_plus_def SequenceNumber_minus_def SequenceNumber_dec_def
  SequenceNumber_lt_def SequenceNumber_gt_def SequenceNumber_le_def SequenceNumber_ge_def
  seqlen_def seqoff_def seq_consts

section \<open>Well-formed numbers and the abstract specification\<close>

definition seq_wf :: "seqnum \<Rightarrow> bool" where
  "seq_wf s \<longleftrightarrow> 0 \<le> s \<and> s \<le> SequenceNumber_MAX"

definition seq_abs :: "seqnum \<Rightarrow> 27 word" where
  "seq_abs s = word_of_int s"

lemma seq_abs_eq_iff:
  "seq_abs a = seq_abs b \<longleftrightarrow> a mod 2 ^ 27 = b mod 2 ^ 27"
  by (simp add: seq_abs_def word_of_int_eq_iff take_bit_eq_mod)

lemma seq_abs_inject: "seq_wf a \<Longrightarrow> seq_wf b \<Longrightarrow> seq_abs a = seq_abs b \<longleftrightarrow> a = b"
  by (simp add: seq_abs_eq_iff seq_wf_def seq_consts)

lemma seq_abs_add: "seq_abs (a + b) = seq_abs a + word_of_int b"
  by (simp add: seq_abs_def)

lemma seq_abs_period: "seq_abs (a + 134217728) = seq_abs a" "seq_abs (a - 134217728) = seq_abs a"
  by (simp_all add: seq_abs_eq_iff)

lemma seq_abs_inc_form: "seq_abs a + 1 = seq_abs (a + 1)"
  by (simp add: seq_abs_def)

lemma SequenceNumber_inc_eq:
  "seq_wf s \<Longrightarrow> SequenceNumber_inc s = (if s = SequenceNumber_MAX then 0 else s + 1)"
proof -
  assume "seq_wf s"
  then have "SequenceNumber_inc s = (s + 1) mod 134217728"
    by (simp add: SequenceNumber_inc_def crem_nonneg seq_wf_def seq_consts)
  then show ?thesis
    using \<open>seq_wf s\<close> by (simp add: seq_wf_def seq_consts)
qed

lemma SequenceNumber_constructors_wf:
  "seq_wf SequenceNumber_default" "seq_wf (SequenceNumber_of_int v)"
  "seq_wf (SequenceNumber_of_uint w)" "seq_wf (SequenceNumber_of_bytes w)"
proof -
  show "seq_wf SequenceNumber_default"
    by (simp add: seq_wf_def SequenceNumber_default_def seq_consts)
  show "seq_wf (SequenceNumber_of_int v)"
    by (simp add: seq_wf_def SequenceNumber_of_int_def seq_consts)
  show "seq_wf (SequenceNumber_of_uint w)"
    by (simp add: seq_wf_def SequenceNumber_of_uint_def seq_consts)
  have "uint (w AND 0x07FFFFFF) \<le> uint (0x07FFFFFF :: 32 word)"
    using word_and_le1 [of w "0x07FFFFFF"] unfolding word_le_def .
  then show "seq_wf (SequenceNumber_of_bytes w)"
    by (simp add: seq_wf_def SequenceNumber_of_bytes_def seq_consts)
qed

lemma SequenceNumber_of_to_uint: "seq_wf s \<Longrightarrow> SequenceNumber_of_uint (SequenceNumber_to_uint s) = s"
  by (simp add: seq_wf_def SequenceNumber_of_uint_def SequenceNumber_to_uint_def seq_consts
      unsigned_of_int take_bit_eq_mod)

section \<open>Refinement of arithmetic modulo \<open>2 ^ 27\<close>\<close>

lemma SequenceNumber_plus_refines:
  assumes "0 \<le> s + k" and "s + k \<le> 2 * SequenceNumber_MAX + 1"
  shows "seq_wf (SequenceNumber_plus s k)"
    and "seq_abs (SequenceNumber_plus s k) = seq_abs s + word_of_int k"
proof -
  show "seq_wf (SequenceNumber_plus s k)"
    using assms by (simp add: seq_wf_def SequenceNumber_plus_def seq_consts)
  show "seq_abs (SequenceNumber_plus s k) = seq_abs s + word_of_int k"
    by (simp add: SequenceNumber_plus_def seq_consts seq_abs_period flip: seq_abs_add)
qed

lemma SequenceNumber_inc_refines:
  "seq_wf s \<Longrightarrow> seq_wf (SequenceNumber_inc s) \<and> seq_abs (SequenceNumber_inc s) = seq_abs s + 1"
  by (auto simp: SequenceNumber_inc_eq seq_wf_def seq_abs_inc_form seq_abs_eq_iff seq_consts)

lemma SequenceNumber_dec_inc [simp]: "seq_wf s \<Longrightarrow> SequenceNumber_dec (SequenceNumber_inc s) = s"
  by (auto simp: SequenceNumber_inc_eq SequenceNumber_dec_def seq_wf_def)

lemma SequenceNumber_inc_dec [simp]: "seq_wf s \<Longrightarrow> SequenceNumber_inc (SequenceNumber_dec s) = s"
  by (auto simp: SequenceNumber_inc_eq SequenceNumber_dec_def seq_wf_def seq_consts)

lemma SequenceNumber_plus_one: "seq_wf s \<Longrightarrow> SequenceNumber_plus s 1 = SequenceNumber_inc s"
  by (auto simp: SequenceNumber_inc_eq SequenceNumber_plus_def seq_wf_def)

lemma SequenceNumber_minus_exact: "dec \<le> s \<Longrightarrow> SequenceNumber_minus s dec = s - dec"
  by (simp add: SequenceNumber_minus_def)

lemma seqlen_counts:
  assumes "seq_wf a" and "seq_wf b"
  shows "1 \<le> seqlen a b" and "seqlen a b \<le> SequenceNumber_MAX + 1"
    and "SequenceNumber_plus a (seqlen a b - 1) = b"
  using assms by (auto simp: seqlen_def SequenceNumber_plus_def seq_wf_def seq_consts)

section \<open>The circular order\<close>

lemma SequenceNumber_gt_lt: "SequenceNumber_gt a b = SequenceNumber_lt b a"
  by (auto simp: seq_ops)

lemma SequenceNumber_ge_le: "SequenceNumber_ge a b = SequenceNumber_le b a"
  by (auto simp: seq_ops)

lemma SequenceNumber_le_not_lt: "SequenceNumber_le a b = (\<not> SequenceNumber_lt b a)"
  by (auto simp: seq_ops)

lemma SequenceNumber_lt_asym: "SequenceNumber_lt a b \<Longrightarrow> \<not> SequenceNumber_lt b a"
  by (auto simp: seq_ops split: if_splits)

lemma SequenceNumber_trichotomy: "SequenceNumber_lt a b \<or> a = b \<or> SequenceNumber_lt b a"
  by (auto simp: seq_ops)

text \<open>
  In a window of less than \<open>THRESHOLD\<close> numbers that does not cross zero, all comparisons and
  distances are those of the integers. These are the facts the other components use.
\<close>

definition win :: "int \<times> int \<Rightarrow> int \<Rightarrow> bool" where
  "win W s \<longleftrightarrow> fst W \<le> s \<and> s \<le> snd W"

definition win_ok :: "int \<times> int \<Rightarrow> bool" where
  "win_ok W \<longleftrightarrow> 0 \<le> fst W \<and> snd W \<le> SequenceNumber_MAX
     \<and> snd W - fst W < SequenceNumber_THRESHOLD"

lemma win_wf: "win_ok W \<Longrightarrow> win W a \<Longrightarrow> seq_wf a"
  by (simp add: win_ok_def win_def seq_wf_def)

lemma win_diff: "win_ok W \<Longrightarrow> win W a \<Longrightarrow> win W b \<Longrightarrow> \<bar>a - b\<bar> < SequenceNumber_THRESHOLD"
  by (auto simp: win_ok_def win_def)

lemma win_lt: "win_ok W \<Longrightarrow> win W a \<Longrightarrow> win W b \<Longrightarrow> SequenceNumber_lt a b = (a < b)"
  by (simp add: win_diff SequenceNumber_lt_def)

lemma win_le: "win_ok W \<Longrightarrow> win W a \<Longrightarrow> win W b \<Longrightarrow> SequenceNumber_le a b = (a \<le> b)"
  by (simp add: win_diff SequenceNumber_le_def)

lemma win_gt: "win_ok W \<Longrightarrow> win W a \<Longrightarrow> win W b \<Longrightarrow> SequenceNumber_gt a b = (b < a)"
  by (simp add: win_diff SequenceNumber_gt_def)

lemma win_ge: "win_ok W \<Longrightarrow> win W a \<Longrightarrow> win W b \<Longrightarrow> SequenceNumber_ge a b = (b \<le> a)"
  by (simp add: win_diff SequenceNumber_ge_def)

lemmas win_cmp = win_lt win_le win_gt win_ge

lemma win_inc:
  "win_ok W \<Longrightarrow> win W a \<Longrightarrow> a < snd W \<Longrightarrow> SequenceNumber_inc a = a + 1"
  by (subst SequenceNumber_inc_eq) (auto simp: win_ok_def win_def seq_wf_def)

lemma win_plus:
  "win_ok W \<Longrightarrow> s + k \<le> snd W \<Longrightarrow> SequenceNumber_plus s k = s + k"
  by (auto simp: SequenceNumber_plus_def win_ok_def)

lemma win_minus: "win_ok W \<Longrightarrow> fst W \<le> s - k \<Longrightarrow> SequenceNumber_minus s k = s - k"
  by (auto simp: SequenceNumber_minus_def win_ok_def)

lemma win_seqlen: "a \<le> b \<Longrightarrow> seqlen a b = b - a + 1"
  by (simp add: seqlen_def)

lemma win_dec: "win_ok W \<Longrightarrow> fst W < s \<Longrightarrow> SequenceNumber_dec s = s - 1"
  by (auto simp: SequenceNumber_dec_def win_ok_def)

section \<open>No signed overflow\<close>

text \<open>
  Every intermediate result of the operations fits an \<open>int32_t\<close> for well-formed numbers and
  steps of at most \<open>MAX + 1\<close>, so the model's unbounded integers agree with the code's.
\<close>

lemma SequenceNumber_arith_fits:
  assumes "seq_wf a" and "seq_wf b" and "0 \<le> k" and "k \<le> SequenceNumber_MAX + 1"
  shows "fits32 (a + k)" and "fits32 (a - k)" and "fits32 (SequenceNumber_MAX - (k - a + 1))"
    and "fits32 (a - b)" and "fits32 (a - b + SequenceNumber_MAX + 2)"
    and "fits32 (a - b - SequenceNumber_MAX - 1)"
  using assms by (simp_all add: fits32_def seq_wf_def seq_consts)

section \<open>Properties\<close>

text \<open>
  Sequence numbers refine arithmetic modulo \<open>2 ^ 27\<close>: adding up to a whole period, the
  prefix increment and the prefix decrement keep the number well formed and compute the sum, the
  successor and the predecessor of the 27-bit value it stands for.
\<close>

theorem SequenceNumber_refines_word27:
  assumes "seq_wf s" and "0 \<le> k" and "k \<le> SequenceNumber_MAX + 1"
  shows "seq_wf (SequenceNumber_plus s k) \<and> seq_abs (SequenceNumber_plus s k) = seq_abs s + word_of_int k
    \<and> seq_wf (SequenceNumber_inc s) \<and> seq_abs (SequenceNumber_inc s) = seq_abs s + 1
    \<and> seq_wf (SequenceNumber_dec s) \<and> seq_abs (SequenceNumber_dec s) = seq_abs s - 1"
proof -
  have plus: "0 \<le> s + k" "s + k \<le> 2 * SequenceNumber_MAX + 1"
    using assms by (auto simp: seq_wf_def)
  have dec: "seq_wf (SequenceNumber_dec s)"
    using assms(1) by (auto simp: SequenceNumber_dec_def seq_wf_def)
  have "seq_abs (SequenceNumber_dec s) + 1 = seq_abs s"
    using SequenceNumber_inc_refines [OF dec] assms(1) by simp
  then have "seq_abs (SequenceNumber_dec s) = seq_abs s - 1"
    by (simp add: eq_diff_eq)
  with dec SequenceNumber_plus_refines [OF plus] SequenceNumber_inc_refines [OF assms(1)]
  show ?thesis by simp
qed

theorem SequenceNumber_refines_word27_witness:
  "seq_wf SequenceNumber_MAX \<and> seq_abs (SequenceNumber_plus SequenceNumber_MAX 5) = 4"
  using SequenceNumber_refines_word27 [of SequenceNumber_MAX 5]
  by (simp add: seq_wf_def seq_consts seq_abs_def)

text \<open>
  The circular comparison is a total, antisymmetric order test on any two numbers, and it
  answers correctly across the wrap: a number is below every number fewer than \<open>THRESHOLD\<close> steps
  ahead of it, wherever the step lands, and \<open>seqoff\<close> measures exactly that distance.
\<close>

theorem SequenceNumber_lt_ahead:
  assumes "seq_wf s" and "0 < k" and "k < SequenceNumber_THRESHOLD"
  shows "SequenceNumber_lt s (SequenceNumber_plus s k)
    \<and> \<not> SequenceNumber_lt (SequenceNumber_plus s k) s
    \<and> SequenceNumber_le s (SequenceNumber_plus s k)
    \<and> SequenceNumber_gt (SequenceNumber_plus s k) s
    \<and> seqoff s (SequenceNumber_plus s k) = k \<and> seqoff (SequenceNumber_plus s k) s = - k
    \<and> seqlen s (SequenceNumber_plus s k) = k + 1"
  using assms by (auto simp: seq_ops seq_wf_def)

theorem SequenceNumber_lt_ahead_witness:
  "SequenceNumber_lt SequenceNumber_MAX (SequenceNumber_plus SequenceNumber_MAX 1)
    \<and> seqoff SequenceNumber_MAX (SequenceNumber_plus SequenceNumber_MAX 1) = 1"
  using SequenceNumber_lt_ahead [of SequenceNumber_MAX 1] by (simp add: seq_wf_def seq_consts)

text \<open>
  \<open>operator-=\<close> subtracts correctly exactly when it does not pass zero. When it does, the
  result is two less than the difference modulo \<open>2 ^ 27\<close>: the expression
  \<open>MAX - (dec - _value + 1)\<close> should read \<open>MAX - (dec - _value - 1)\<close>. In particular
  \<open>SequenceNumber(0) - 1\<close> is \<open>MAX - 2\<close> while \<open>--SequenceNumber(0)\<close> is \<open>MAX\<close>.
\<close>

theorem SequenceNumber_minus_wraps_short:
  "(dec \<le> s \<longrightarrow> seq_abs (SequenceNumber_minus s dec) = seq_abs s - word_of_int dec)
    \<and> (s < dec \<longrightarrow> seq_abs (SequenceNumber_minus s dec) = seq_abs s - word_of_int dec - 2)
    \<and> SequenceNumber_minus 0 1 = SequenceNumber_MAX - 2
    \<and> SequenceNumber_dec 0 = SequenceNumber_MAX"
proof -
  have "seq_abs (SequenceNumber_MAX - (dec - s + 1)) = seq_abs (s - dec - 2)"
  proof -
    have "SequenceNumber_MAX - (dec - s + 1) = (s - dec - 2) + 134217728"
      by (simp add: seq_consts)
    then show ?thesis by (simp only: seq_abs_period)
  qed
  then show ?thesis
    by (simp add: SequenceNumber_minus_def SequenceNumber_dec_def seq_abs_def)
qed

theorem SequenceNumber_minus_wraps_short_witness:
  "seq_abs (SequenceNumber_minus 0 1) = seq_abs 0 - word_of_int 1 - 2"
  by (rule SequenceNumber_minus_wraps_short [THEN conjunct2, THEN conjunct1, rule_format]) simp

end
