(* ===== verification/Udt_Constants.thy ===== *)
theory Udt_Constants
  imports Udt_Sequence
begin

unbundle bit_operations_syntax

text \<open>
  The constants of \<open>udt/Constants.h\<close>: the sizes of packets, buffers and flight windows, and the
  layout of the three header words. The \<open>static_assert\<close>s of the file are the lemma
  \<open>Constants_static_asserts\<close>.
\<close>

section \<open>Sizes\<close>

(* @src libraries/networking/src/udt/Constants.h 21-21 udt::UDP_IPV4_HEADER_SIZE *)
definition UDP_IPV4_HEADER_SIZE :: int where
  "UDP_IPV4_HEADER_SIZE = 28"

(* @src libraries/networking/src/udt/Constants.h 22-22 udt::MAX_PACKET_SIZE_WITH_UDP_HEADER *)
definition MAX_PACKET_SIZE_WITH_UDP_HEADER :: int where
  "MAX_PACKET_SIZE_WITH_UDP_HEADER = 1452"

(* @src libraries/networking/src/udt/Constants.h 23-23 udt::MAX_PACKET_SIZE *)
definition MAX_PACKET_SIZE :: int where
  "MAX_PACKET_SIZE = MAX_PACKET_SIZE_WITH_UDP_HEADER - UDP_IPV4_HEADER_SIZE"

(* @src libraries/networking/src/udt/Constants.h 24-24 udt::MAX_PACKETS_IN_FLIGHT *)
definition MAX_PACKETS_IN_FLIGHT :: int where
  "MAX_PACKETS_IN_FLIGHT = 25600"

section \<open>The bit fields\<close>

(* @src libraries/networking/src/udt/Constants.h 41-41 udt::SEQUENCE_NUMBER_SIZE *)
definition SEQUENCE_NUMBER_SIZE :: nat where
  "SEQUENCE_NUMBER_SIZE = 27"

(* @src libraries/networking/src/udt/Constants.h 40-40 udt::OBFUSCATION_LEVEL_SIZE *)
definition OBFUSCATION_LEVEL_SIZE :: nat where
  "OBFUSCATION_LEVEL_SIZE = 2"

(* @src libraries/networking/src/udt/Constants.h 37-39 udt::MESSAGE_BIT_SIZE *)
definition MESSAGE_BIT_SIZE :: nat where
  "MESSAGE_BIT_SIZE = 1"

(* @src libraries/networking/src/udt/Constants.h 44-44 udt::MESSAGE_NUMBER_SIZE *)
definition MESSAGE_NUMBER_SIZE :: nat where
  "MESSAGE_NUMBER_SIZE = 30"

(* @src libraries/networking/src/udt/Constants.h 49-50 udt::OBFUSCATION_LEVEL_OFFSET *)
definition OBFUSCATION_LEVEL_OFFSET :: nat where
  "OBFUSCATION_LEVEL_OFFSET = 0 + SEQUENCE_NUMBER_SIZE"

(* @src libraries/networking/src/udt/Constants.h 51-51 udt::MESSAGE_BIT_OFFSET *)
definition MESSAGE_BIT_OFFSET :: nat where
  "MESSAGE_BIT_OFFSET = OBFUSCATION_LEVEL_OFFSET + OBFUSCATION_LEVEL_SIZE"

(* @src libraries/networking/src/udt/Constants.h 52-52 udt::RELIABILITY_BIT_OFFSET *)
definition RELIABILITY_BIT_OFFSET :: nat where
  "RELIABILITY_BIT_OFFSET = MESSAGE_BIT_OFFSET + MESSAGE_BIT_SIZE"

(* @src libraries/networking/src/udt/Constants.h 53-53 udt::CONTROL_BIT_OFFSET *)
definition CONTROL_BIT_OFFSET :: nat where
  "CONTROL_BIT_OFFSET = RELIABILITY_BIT_OFFSET + 1"

(* @src libraries/networking/src/udt/Constants.h 55-56 udt::PACKET_POSITION_OFFSET *)
definition PACKET_POSITION_OFFSET :: nat where
  "PACKET_POSITION_OFFSET = 0 + MESSAGE_NUMBER_SIZE"

(* @src libraries/networking/src/udt/Constants.h 61-61 udt::CONTROL_BIT_MASK *)
definition CONTROL_BIT_MASK :: "32 word" where
  "CONTROL_BIT_MASK = push_bit CONTROL_BIT_OFFSET 1"

(* @src libraries/networking/src/udt/Constants.h 62-62 udt::RELIABILITY_BIT_MASK *)
definition RELIABILITY_BIT_MASK :: "32 word" where
  "RELIABILITY_BIT_MASK = push_bit RELIABILITY_BIT_OFFSET 1"

(* @src libraries/networking/src/udt/Constants.h 63-63 udt::MESSAGE_BIT_MASK *)
definition MESSAGE_BIT_MASK :: "32 word" where
  "MESSAGE_BIT_MASK = push_bit MESSAGE_BIT_OFFSET 1"

(* @src libraries/networking/src/udt/Constants.h 64-64 udt::OBFUSCATION_LEVEL_MASK *)
definition OBFUSCATION_LEVEL_MASK :: "32 word" where
  "OBFUSCATION_LEVEL_MASK = push_bit OBFUSCATION_LEVEL_OFFSET 3"

(* @src libraries/networking/src/udt/Constants.h 65-65 udt::BIT_FIELD_MASK *)
definition BIT_FIELD_MASK :: "32 word" where
  "BIT_FIELD_MASK =
     CONTROL_BIT_MASK OR RELIABILITY_BIT_MASK OR MESSAGE_BIT_MASK OR OBFUSCATION_LEVEL_MASK"

(* @src libraries/networking/src/udt/Constants.h 66-66 udt::SEQUENCE_NUMBER_MASK *)
definition SEQUENCE_NUMBER_MASK :: "32 word" where
  "SEQUENCE_NUMBER_MASK = NOT BIT_FIELD_MASK"

(* @src libraries/networking/src/udt/Constants.h 68-68 udt::PACKET_POSITION_MASK *)
definition PACKET_POSITION_MASK :: "32 word" where
  "PACKET_POSITION_MASK = push_bit PACKET_POSITION_OFFSET 3"

(* @src libraries/networking/src/udt/Constants.h 69-69 udt::MESSAGE_NUMBER_MASK *)
definition MESSAGE_NUMBER_MASK :: "32 word" where
  "MESSAGE_NUMBER_MASK = NOT PACKET_POSITION_MASK"

(* @src libraries/networking/src/udt/Constants.h 71-71 udt::MESSAGE_PART_NUMBER_MASK *)
definition MESSAGE_PART_NUMBER_MASK :: "32 word" where
  "MESSAGE_PART_NUMBER_MASK = NOT 0"

lemmas header_offsets = SEQUENCE_NUMBER_SIZE_def OBFUSCATION_LEVEL_SIZE_def MESSAGE_BIT_SIZE_def
  MESSAGE_NUMBER_SIZE_def OBFUSCATION_LEVEL_OFFSET_def MESSAGE_BIT_OFFSET_def
  RELIABILITY_BIT_OFFSET_def CONTROL_BIT_OFFSET_def PACKET_POSITION_OFFSET_def

lemmas header_masks = CONTROL_BIT_MASK_def RELIABILITY_BIT_MASK_def MESSAGE_BIT_MASK_def
  OBFUSCATION_LEVEL_MASK_def BIT_FIELD_MASK_def SEQUENCE_NUMBER_MASK_def PACKET_POSITION_MASK_def
  MESSAGE_NUMBER_MASK_def MESSAGE_PART_NUMBER_MASK_def

lemma Constants_static_asserts:
  "CONTROL_BIT_MASK = 0x80000000" "RELIABILITY_BIT_MASK = 0x40000000" "MESSAGE_BIT_MASK = 0x20000000"
  "OBFUSCATION_LEVEL_MASK = 0x18000000" "BIT_FIELD_MASK = 0xF8000000" "SEQUENCE_NUMBER_MASK = 0x07FFFFFF"
  "PACKET_POSITION_MASK = 0xC0000000" "MESSAGE_NUMBER_MASK = 0x3FFFFFFF"
  "MESSAGE_PART_NUMBER_MASK = 0xFFFFFFFF"
  by (simp_all add: header_masks header_offsets push_bit_eq_mult)

lemma MAX_PACKET_SIZE_value: "MAX_PACKET_SIZE = 1424"
  by (simp add: MAX_PACKET_SIZE_def MAX_PACKET_SIZE_WITH_UDP_HEADER_def UDP_IPV4_HEADER_SIZE_def)

lemma SEQUENCE_NUMBER_MASK_is_MAX: "uint SEQUENCE_NUMBER_MASK = SequenceNumber_MAX"
  by (simp add: Constants_static_asserts SequenceNumber_MAX_def)

lemma SEQUENCE_NUMBER_MASK_mask: "SEQUENCE_NUMBER_MASK = mask 27"
  by (simp add: Constants_static_asserts mask_eq_exp_minus_1)

lemma MESSAGE_NUMBER_MASK_mask: "MESSAGE_NUMBER_MASK = mask 30"
  by (simp add: Constants_static_asserts mask_eq_exp_minus_1)

end
