(* ===== verification/Udt_Base_Packet.thy ===== *)
theory Udt_Base_Packet
  imports Udt_Constants
begin

text \<open>
  The packet buffer of \<open>udt/BasePacket.h\<close> and \<open>BasePacket.cpp\<close>: one allocation, the payload
  inside it, and the \<open>QIODevice\<close> position and open mode the class inherits. The subclasses extend
  the record, so every operation is polymorphic in the extension.

  \<open>QIODevice\<close> as documented: \<open>open\<close> rewinds to 0; \<open>seek\<close> and \<open>reset\<close> fail on a closed device;
  \<open>write\<close> fails (\<open>-1\<close>) on a device that is not writable, else it advances the position by what
  \<open>writeData\<close> wrote; \<open>read\<close> returns the bytes \<open>readData\<close> gives from the position, and advances by
  their number. A UTF-8 string is its list of bytes. The position is never negative, hence a \<open>nat\<close>;
  an access outside the allocation is \<open>None\<close>.
\<close>

section \<open>State\<close>

datatype open_mode = NotOpen | ReadOnly | ReadWrite

(* @src libraries/networking/src/udt/BasePacket.h 103-113 BasePacket *)
record 'addr base_packet =
  bp_packetSize :: int
  bp_packet :: "byte list"
  bp_payloadStart :: nat
  bp_payloadCapacity :: int
  bp_payloadSize :: int
  bp_senderSockAddr :: "'addr option"
  bp_receiveTime :: int
  bp_pos :: nat
  bp_mode :: open_mode

section \<open>The inherited device\<close>

definition QIODevice_open :: "open_mode \<Rightarrow> ('addr, 'm) base_packet_scheme \<Rightarrow> ('addr, 'm) base_packet_scheme" where
  "QIODevice_open mode p = p\<lparr>bp_mode := mode, bp_pos := 0\<rparr>"

definition QIODevice_isWritable :: "('addr, 'm) base_packet_scheme \<Rightarrow> bool" where
  "QIODevice_isWritable p \<longleftrightarrow> bp_mode p = ReadWrite"

definition QIODevice_seek :: "int \<Rightarrow> ('addr, 'm) base_packet_scheme \<Rightarrow> ('addr, 'm) base_packet_scheme" where
  "QIODevice_seek off p = (if bp_mode p = NotOpen \<or> off < 0 then p else p\<lparr>bp_pos := nat off\<rparr>)"

section \<open>Operations\<close>

(* @src libraries/networking/src/udt/BasePacket.cpp 19-19 BasePacket::PACKET_WRITE_ERROR *)
definition PACKET_WRITE_ERROR :: int where
  "PACKET_WRITE_ERROR = -1"

(* @src libraries/networking/src/udt/BasePacket.cpp 21-23 BasePacket::localHeaderSize *)
definition BasePacket_localHeaderSize :: int where
  "BasePacket_localHeaderSize = 0"

(* @src libraries/networking/src/udt/BasePacket.cpp 24-26 BasePacket::totalHeaderSize *)
definition BasePacket_totalHeaderSize :: int where
  "BasePacket_totalHeaderSize = 0"

(* @src libraries/networking/src/udt/BasePacket.cpp 27-29 BasePacket::maxPayloadSize *)
definition BasePacket_maxPayloadSize :: int where
  "BasePacket_maxPayloadSize = MAX_PACKET_SIZE"

(* @src libraries/networking/src/udt/BasePacket.h 53-53 BasePacket::getDataSize *)
definition BasePacket_getDataSize :: "('addr, 'm) base_packet_scheme \<Rightarrow> int" where
  "BasePacket_getDataSize p = int (bp_payloadStart p) + bp_payloadSize p"

(* @src libraries/networking/src/udt/BasePacket.h 56-56 BasePacket::getWireSize *)
definition BasePacket_getWireSize :: "('addr, 'm) base_packet_scheme \<Rightarrow> int" where
  "BasePacket_getWireSize p = BasePacket_getDataSize p + UDP_IPV4_HEADER_SIZE"

(* @src libraries/networking/src/udt/BasePacket.h 67-67 BasePacket::bytesLeftToRead *)
definition BasePacket_bytesLeftToRead :: "('addr, 'm) base_packet_scheme \<Rightarrow> int" where
  "BasePacket_bytesLeftToRead p = bp_payloadSize p - int (bp_pos p)"

(* @src libraries/networking/src/udt/BasePacket.h 68-68 BasePacket::bytesAvailableForWrite *)
definition BasePacket_bytesAvailableForWrite :: "('addr, 'm) base_packet_scheme \<Rightarrow> int" where
  "BasePacket_bytesAvailableForWrite p = bp_payloadCapacity p - int (bp_pos p)"

(* @src libraries/networking/src/udt/BasePacket.h 77-77 BasePacket::size *)
definition BasePacket_size :: "('addr, 'm) base_packet_scheme \<Rightarrow> int" where
  "BasePacket_size p = bp_payloadCapacity p"

text \<open>The data the packet stands for, up to its data size: what the socket sends.\<close>

definition BasePacket_wire :: "('addr, 'm) base_packet_scheme \<Rightarrow> byte list option" where
  "BasePacket_wire p = mem_read (bp_packet p) 0 (nat (BasePacket_getDataSize p))"

definition BasePacket_payload :: "('addr, 'm) base_packet_scheme \<Rightarrow> byte list" where
  "BasePacket_payload p = take (nat (bp_payloadSize p)) (drop (bp_payloadStart p) (bp_packet p))"

text \<open>The two constructors. A fresh buffer is zeroed; a received one is taken as it is.\<close>

(* @src libraries/networking/src/udt/BasePacket.cpp 52-68 BasePacket::BasePacket(qint64) *)
definition BasePacket_new :: "int \<Rightarrow> 'addr base_packet" where
  "BasePacket_new n =
     (let n' = (if n = -1 then BasePacket_maxPayloadSize else n) in
      \<lparr>bp_packetSize = n', bp_packet = replicate (nat n') 0, bp_payloadStart = 0,
       bp_payloadCapacity = n', bp_payloadSize = 0, bp_senderSockAddr = None,
       bp_receiveTime = 0, bp_pos = 0, bp_mode = NotOpen\<rparr>)"

(* @src libraries/networking/src/udt/BasePacket.cpp 70-79 BasePacket::BasePacket(unique_ptr,qint64,SockAddr) *)
definition BasePacket_of_data :: "byte list \<Rightarrow> int \<Rightarrow> 'addr \<Rightarrow> 'addr base_packet" where
  "BasePacket_of_data data dataSize sender =
     \<lparr>bp_packetSize = dataSize, bp_packet = data, bp_payloadStart = 0,
      bp_payloadCapacity = dataSize, bp_payloadSize = dataSize, bp_senderSockAddr = Some sender,
      bp_receiveTime = 0, bp_pos = 0, bp_mode = NotOpen\<rparr>"

(* @src libraries/networking/src/udt/BasePacket.cpp 31-37 BasePacket::create *)
definition BasePacket_create :: "int \<Rightarrow> 'addr base_packet" where
  "BasePacket_create n = QIODevice_open ReadWrite (BasePacket_new n)"

(* @src libraries/networking/src/udt/BasePacket.cpp 39-50 BasePacket::fromReceivedPacket *)
definition BasePacket_fromReceivedPacket :: "byte list \<Rightarrow> int \<Rightarrow> 'addr \<Rightarrow> 'addr base_packet" where
  "BasePacket_fromReceivedPacket data dataSize sender =
     QIODevice_open ReadOnly (BasePacket_of_data data dataSize sender)"

text \<open>Assignment. The copy reads \<open>_packetSize\<close> bytes; the receive time is not copied here.\<close>

(* @src libraries/networking/src/udt/BasePacket.cpp 81-100 BasePacket::operator= *)
definition BasePacket_assign ::
  "('addr, 'm) base_packet_scheme \<Rightarrow> ('addr, 'n) base_packet_scheme \<Rightarrow> ('addr, 'm) base_packet_scheme option" where
  "BasePacket_assign this other =
     do { data \<leftarrow> mem_read (bp_packet other) 0 (nat (bp_packetSize other));
          let this' = this\<lparr>bp_packetSize := bp_packetSize other, bp_packet := data,
            bp_payloadStart := bp_payloadStart other, bp_payloadCapacity := bp_payloadCapacity other,
            bp_payloadSize := bp_payloadSize other, bp_senderSockAddr := bp_senderSockAddr other\<rparr>;
          let this'' = (if bp_mode other \<noteq> NotOpen \<and> bp_mode this = NotOpen
                        then QIODevice_open (bp_mode other) this' else this');
          Some (QIODevice_seek (int (bp_pos other)) this'') }"

text \<open>A move takes the allocation over; the source is left without one.\<close>

(* @src libraries/networking/src/udt/BasePacket.cpp 106-124 BasePacket::operator=(move) *)
definition BasePacket_move_assign ::
  "('addr, 'm) base_packet_scheme \<Rightarrow> ('addr, 'n) base_packet_scheme
    \<Rightarrow> ('addr, 'm) base_packet_scheme \<times> ('addr, 'n) base_packet_scheme" where
  "BasePacket_move_assign this other =
     (let this' = this\<lparr>bp_packetSize := bp_packetSize other, bp_packet := bp_packet other,
            bp_payloadStart := bp_payloadStart other, bp_payloadCapacity := bp_payloadCapacity other,
            bp_payloadSize := bp_payloadSize other, bp_senderSockAddr := bp_senderSockAddr other\<rparr>;
          this'' = (if bp_mode other \<noteq> NotOpen \<and> bp_mode this = NotOpen
                    then QIODevice_open (bp_mode other) this' else this')
      in (QIODevice_seek (int (bp_pos other)) this'', other\<lparr>bp_packet := []\<rparr>))"

(* @src libraries/networking/src/udt/BasePacket.cpp 126-134 BasePacket::setPayloadSize *)
definition BasePacket_setPayloadSize :: "int \<Rightarrow> ('addr, 'm) base_packet_scheme \<Rightarrow> ('addr, 'm) base_packet_scheme" where
  "BasePacket_setPayloadSize n p = (if QIODevice_isWritable p then p\<lparr>bp_payloadSize := n\<rparr> else p)"

text \<open>
  \<open>read(maxSize)\<close> is bounded by the capacity, not by the payload size. A negative size, which
  \<open>QByteArray\<close> reads as a C string, is outside the model (\<open>None\<close>).
\<close>

(* @src libraries/networking/src/udt/BasePacket.cpp 136-141 BasePacket::read *)
definition BasePacket_read ::
  "int \<Rightarrow> ('addr, 'm) base_packet_scheme \<Rightarrow> (byte list \<times> ('addr, 'm) base_packet_scheme) option" where
  "BasePacket_read maxSize p =
     (let sizeToRead = min (BasePacket_size p - int (bp_pos p)) maxSize in
      if sizeToRead < 0 then None
      else do { data \<leftarrow> mem_read (bp_packet p) (bp_payloadStart p + bp_pos p) (nat sizeToRead);
                Some (data, QIODevice_seek (int (bp_pos p) + sizeToRead) p) })"

(* @src libraries/networking/src/udt/BasePacket.cpp 166-172 BasePacket::reset *)
definition BasePacket_reset :: "('addr, 'm) base_packet_scheme \<Rightarrow> ('addr, 'm) base_packet_scheme" where
  "BasePacket_reset p =
     QIODevice_seek 0 (if QIODevice_isWritable p then p\<lparr>bp_payloadSize := 0\<rparr> else p)"

(* @src libraries/networking/src/udt/BasePacket.cpp 174-193 BasePacket::writeData *)
definition BasePacket_writeData ::
  "byte list \<Rightarrow> ('addr, 'm) base_packet_scheme \<Rightarrow> (int \<times> ('addr, 'm) base_packet_scheme) option" where
  "BasePacket_writeData data p =
     (let maxSize = int (length data) in
      if maxSize \<le> BasePacket_bytesAvailableForWrite p then
        do { buf \<leftarrow> mem_write (bp_packet p) (bp_payloadStart p + bp_pos p) data;
             Some (maxSize, p\<lparr>bp_packet := buf,
                              bp_payloadSize := max (int (bp_pos p) + maxSize) (bp_payloadSize p)\<rparr>) }
      else Some (PACKET_WRITE_ERROR, p))"

(* @src libraries/networking/src/udt/BasePacket.cpp 195-207 BasePacket::readData *)
definition BasePacket_readData :: "nat \<Rightarrow> ('addr, 'm) base_packet_scheme \<Rightarrow> (int \<times> byte list) option" where
  "BasePacket_readData maxSize p =
     (let numBytesToRead = min (BasePacket_bytesLeftToRead p) (int maxSize) in
      if numBytesToRead > 0 then
        do { bs \<leftarrow> mem_read (bp_packet p) (bp_payloadStart p + bp_pos p) (nat numBytesToRead);
             Some (numBytesToRead, bs) }
      else Some (numBytesToRead, []))"

text \<open>\<open>QIODevice::write\<close> and \<open>QIODevice::read\<close> over the two virtual functions.\<close>

(* @src libraries/networking/src/ExtendedIODevice.h 34-37 ExtendedIODevice::writePrimitive *)
definition QIODevice_write ::
  "byte list \<Rightarrow> ('addr, 'm) base_packet_scheme \<Rightarrow> (int \<times> ('addr, 'm) base_packet_scheme) option" where
  "QIODevice_write data p =
     (if QIODevice_isWritable p then
        do { (n, p') \<leftarrow> BasePacket_writeData data p;
             Some (n, if n > 0 then p'\<lparr>bp_pos := bp_pos p' + nat n\<rparr> else p') }
      else Some (-1, p))"

(* @src libraries/networking/src/ExtendedIODevice.h 30-32 ExtendedIODevice::readPrimitive *)
definition QIODevice_read ::
  "nat \<Rightarrow> ('addr, 'm) base_packet_scheme \<Rightarrow> (byte list \<times> ('addr, 'm) base_packet_scheme) option" where
  "QIODevice_read n p =
     (if bp_mode p = NotOpen then Some ([], p)
      else do { (k, bs) \<leftarrow> BasePacket_readData n p;
                Some (bs, p\<lparr>bp_pos := bp_pos p + length bs\<rparr>) })"

(* @src libraries/networking/src/ExtendedIODevice.h 26-28 ExtendedIODevice::peekPrimitive *)
definition QIODevice_peek :: "nat \<Rightarrow> ('addr, 'm) base_packet_scheme \<Rightarrow> byte list option" where
  "QIODevice_peek n p =
     (if bp_mode p = NotOpen then Some [] else map_option snd (BasePacket_readData n p))"

text \<open>The results of the two writes are not looked at: the length is returned in any case.\<close>

(* @src libraries/networking/src/udt/BasePacket.cpp 150-156 BasePacket::writeString *)
definition BasePacket_writeString ::
  "byte list \<Rightarrow> ('addr, 'm) base_packet_scheme \<Rightarrow> (int \<times> ('addr, 'm) base_packet_scheme) option" where
  "BasePacket_writeString string p =
     do { (_, p1) \<leftarrow> QIODevice_write (le32 (word_of_nat (length string))) p;
          (_, p2) \<leftarrow> QIODevice_write string p1;
          Some (int (length string) + 4, p2) }"

text \<open>
  The size read from the packet is used unchecked: \<open>QString::fromUtf8\<close> reads that many bytes from
  the position, inside the payload or not. A size that could not be read is an uninitialised
  variable (\<open>None\<close>).
\<close>

(* @src libraries/networking/src/udt/BasePacket.cpp 158-164 BasePacket::readString *)
definition BasePacket_readString ::
  "('addr, 'm) base_packet_scheme \<Rightarrow> (byte list \<times> ('addr, 'm) base_packet_scheme) option" where
  "BasePacket_readString p =
     do { (sizeBytes, p1) \<leftarrow> QIODevice_read 4 p;
          n \<leftarrow> (if length sizeBytes < 4 then None else Some (un_le32 sizeBytes));
          string \<leftarrow> mem_read (bp_packet p1) (bp_payloadStart p1 + bp_pos p1) (unat n);
          Some (string, QIODevice_seek (int (bp_pos p1) + uint n) p1) }"

(* @src libraries/networking/src/udt/BasePacket.cpp 209-216 BasePacket::adjustPayloadStartAndCapacity *)
definition BasePacket_adjust :: "nat \<Rightarrow> bool \<Rightarrow> ('addr, 'm) base_packet_scheme \<Rightarrow> ('addr, 'm) base_packet_scheme" where
  "BasePacket_adjust headerSize shouldDecreasePayloadSize p =
     (let p' = p\<lparr>bp_payloadStart := bp_payloadStart p + headerSize,
                 bp_payloadCapacity := bp_payloadCapacity p - int headerSize\<rparr>
      in if shouldDecreasePayloadSize then p'\<lparr>bp_payloadSize := bp_payloadSize p' - int headerSize\<rparr>
         else p')"

lemmas BasePacket_sizes = BasePacket_getDataSize_def BasePacket_getWireSize_def
  BasePacket_bytesLeftToRead_def BasePacket_bytesAvailableForWrite_def BasePacket_size_def

section \<open>The buffer invariant\<close>

definition bp_inv :: "('addr, 'm) base_packet_scheme \<Rightarrow> bool" where
  "bp_inv p \<longleftrightarrow> int (length (bp_packet p)) = bp_packetSize p
     \<and> int (bp_payloadStart p) + bp_payloadCapacity p = bp_packetSize p
     \<and> 0 \<le> bp_payloadSize p \<and> bp_payloadSize p \<le> bp_payloadCapacity p"

named_theorems bp_inv_intros \<open>operations keep the buffer invariant\<close>

lemma bp_inv_new: "0 \<le> n \<or> n = -1 \<Longrightarrow> bp_inv (BasePacket_new n)"
  by (auto simp: bp_inv_def BasePacket_new_def Let_def BasePacket_maxPayloadSize_def MAX_PACKET_SIZE_value)

lemma bp_inv_of_data: "int (length data) = n \<Longrightarrow> bp_inv (BasePacket_of_data data n a)"
  by (auto simp: bp_inv_def BasePacket_of_data_def)

lemma bp_inv_open [bp_inv_intros]: "bp_inv p \<Longrightarrow> bp_inv (QIODevice_open m p)"
  by (simp add: bp_inv_def QIODevice_open_def)

lemma bp_inv_pos [bp_inv_intros]: "bp_inv p \<Longrightarrow> bp_inv (p\<lparr>bp_pos := k\<rparr>)"
  by (simp add: bp_inv_def)

lemma bp_inv_seek [bp_inv_intros]: "bp_inv p \<Longrightarrow> bp_inv (QIODevice_seek k p)"
  by (simp add: bp_inv_def QIODevice_seek_def)

lemma bp_inv_reset [bp_inv_intros]: "bp_inv p \<Longrightarrow> bp_inv (BasePacket_reset p)"
  by (simp add: bp_inv_def BasePacket_reset_def QIODevice_seek_def)

lemma bp_inv_setPayloadSize [bp_inv_intros]:
  "bp_inv p \<Longrightarrow> 0 \<le> n \<Longrightarrow> n \<le> bp_payloadCapacity p \<Longrightarrow> bp_inv (BasePacket_setPayloadSize n p)"
  by (simp add: bp_inv_def BasePacket_setPayloadSize_def)

lemma bp_inv_adjust [bp_inv_intros]:
  assumes "bp_inv p" and "if dec then int h \<le> bp_payloadSize p else bp_payloadSize p \<le> bp_payloadCapacity p - int h"
  shows "bp_inv (BasePacket_adjust h dec p)"
  using assms by (auto simp: bp_inv_def BasePacket_adjust_def Let_def split: if_splits)

lemma bp_payload_in_packet:
  "bp_inv p \<Longrightarrow> 0 \<le> k \<Longrightarrow> k \<le> bp_payloadCapacity p \<Longrightarrow> bp_payloadStart p + nat k \<le> length (bp_packet p)"
  by (auto simp: bp_inv_def)

text \<open>A write that fits goes into the allocation; one that does not changes nothing.\<close>

lemma BasePacket_writeData_total:
  assumes inv: "bp_inv p"
  shows "int (length data) \<le> BasePacket_bytesAvailableForWrite p \<Longrightarrow>
      \<exists>buf. mem_write (bp_packet p) (bp_payloadStart p + bp_pos p) data = Some buf
        \<and> BasePacket_writeData data p = Some (int (length data), p\<lparr>bp_packet := buf,
            bp_payloadSize := max (int (bp_pos p) + int (length data)) (bp_payloadSize p)\<rparr>)
        \<and> bp_inv (p\<lparr>bp_packet := buf,
            bp_payloadSize := max (int (bp_pos p) + int (length data)) (bp_payloadSize p)\<rparr>)"
    and "BasePacket_bytesAvailableForWrite p < int (length data) \<Longrightarrow>
      BasePacket_writeData data p = Some (PACKET_WRITE_ERROR, p)"
proof -
  assume fit: "int (length data) \<le> BasePacket_bytesAvailableForWrite p"
  then have "bp_payloadStart p + bp_pos p + length data \<le> length (bp_packet p)"
    using inv by (auto simp: bp_inv_def BasePacket_sizes)
  then obtain buf where buf: "mem_write (bp_packet p) (bp_payloadStart p + bp_pos p) data = Some buf"
    using mem_write_None by (metis not_None_eq not_le)
  show "\<exists>buf. mem_write (bp_packet p) (bp_payloadStart p + bp_pos p) data = Some buf
      \<and> BasePacket_writeData data p = Some (int (length data), p\<lparr>bp_packet := buf,
          bp_payloadSize := max (int (bp_pos p) + int (length data)) (bp_payloadSize p)\<rparr>)
      \<and> bp_inv (p\<lparr>bp_packet := buf,
          bp_payloadSize := max (int (bp_pos p) + int (length data)) (bp_payloadSize p)\<rparr>)"
    using buf fit inv mem_write_length [OF buf]
    by (simp add: BasePacket_writeData_def Let_def bp_inv_def BasePacket_sizes)
next
  assume "BasePacket_bytesAvailableForWrite p < int (length data)"
  then show "BasePacket_writeData data p = Some (PACKET_WRITE_ERROR, p)"
    by (simp add: BasePacket_writeData_def Let_def)
qed

lemma QIODevice_write_fits:
  assumes inv: "bp_inv p" and w: "QIODevice_isWritable p"
    and fit: "int (length data) \<le> BasePacket_bytesAvailableForWrite p"
  obtains buf p' where "mem_write (bp_packet p) (bp_payloadStart p + bp_pos p) data = Some buf"
    and "p' = p\<lparr>bp_packet := buf, bp_payloadSize := max (int (bp_pos p) + int (length data)) (bp_payloadSize p),
           bp_pos := bp_pos p + length data\<rparr>"
    and "QIODevice_write data p = Some (int (length data), p')" and "bp_inv p'"
proof -
  obtain buf where buf: "mem_write (bp_packet p) (bp_payloadStart p + bp_pos p) data = Some buf"
    and wr: "BasePacket_writeData data p = Some (int (length data), p\<lparr>bp_packet := buf,
          bp_payloadSize := max (int (bp_pos p) + int (length data)) (bp_payloadSize p)\<rparr>)"
    and inv': "bp_inv (p\<lparr>bp_packet := buf,
          bp_payloadSize := max (int (bp_pos p) + int (length data)) (bp_payloadSize p)\<rparr>)"
    using BasePacket_writeData_total(1) [OF inv fit] by blast
  let ?p' = "p\<lparr>bp_packet := buf, bp_payloadSize := max (int (bp_pos p) + int (length data)) (bp_payloadSize p),
           bp_pos := bp_pos p + length data\<rparr>"
  have "QIODevice_write data p = Some (int (length data), ?p')"
    using w wr by (simp add: QIODevice_write_def)
  moreover have "bp_inv ?p'"
    using inv' by (simp add: bp_inv_def)
  ultimately show ?thesis
    using buf that by blast
qed

lemma QIODevice_write_fails:
  assumes "bp_inv p" and "BasePacket_bytesAvailableForWrite p < int (length data) \<or> \<not> QIODevice_isWritable p"
  shows "QIODevice_write data p = Some (-1, p)"
  using assms BasePacket_writeData_total(2) [of p data]
  by (auto simp: QIODevice_write_def PACKET_WRITE_ERROR_def)

lemma QIODevice_read_within:
  assumes "bp_inv p" and "bp_mode p \<noteq> NotOpen" and "int n \<le> BasePacket_bytesLeftToRead p"
  shows "QIODevice_read n p
    = Some (take n (drop (bp_payloadStart p + bp_pos p) (bp_packet p)), p\<lparr>bp_pos := bp_pos p + n\<rparr>)"
  using assms
  by (cases "n = 0") (auto simp: QIODevice_read_def BasePacket_readData_def BasePacket_sizes mem_read_def
      Let_def bp_inv_def)

text \<open>Reads never leave the allocation, whatever the position.\<close>

lemma QIODevice_read_safe: "bp_inv p \<Longrightarrow> QIODevice_read n p \<noteq> None"
  by (auto simp: QIODevice_read_def BasePacket_readData_def BasePacket_sizes mem_read_def
      Let_def bp_inv_def)

section \<open>Properties\<close>

text \<open>
  Writing to a packet is memory safe and all-or-nothing: under the buffer invariant a write
  that fits stores exactly the data at the position, moves the position past it and grows the
  payload to cover it, leaving every other byte of the allocation as it was; one that does not fit
  (or a packet that is not writable) returns \<open>-1\<close> and changes nothing. The invariant is kept.
\<close>

theorem BasePacket_write_safe:
  assumes inv: "bp_inv p"
  shows "\<exists>n p'. QIODevice_write data p = Some (n, p') \<and> bp_inv p' \<and>
    (if QIODevice_isWritable p \<and> int (length data) \<le> BasePacket_bytesAvailableForWrite p
     then n = int (length data) \<and> bp_pos p' = bp_pos p + length data
       \<and> bp_payloadSize p' = max (int (bp_pos p + length data)) (bp_payloadSize p)
       \<and> mem_read (bp_packet p') (bp_payloadStart p + bp_pos p) (length data) = Some data
       \<and> take (bp_payloadStart p + bp_pos p) (bp_packet p') = take (bp_payloadStart p + bp_pos p) (bp_packet p)
       \<and> drop (bp_payloadStart p + bp_pos p + length data) (bp_packet p')
           = drop (bp_payloadStart p + bp_pos p + length data) (bp_packet p)
     else n = -1 \<and> p' = p)"
proof (cases "QIODevice_isWritable p \<and> int (length data) \<le> BasePacket_bytesAvailableForWrite p")
  case True
  then obtain buf p' where buf: "mem_write (bp_packet p) (bp_payloadStart p + bp_pos p) data = Some buf"
    and p': "p' = p\<lparr>bp_packet := buf, bp_payloadSize := max (int (bp_pos p) + int (length data)) (bp_payloadSize p),
           bp_pos := bp_pos p + length data\<rparr>"
    and wr: "QIODevice_write data p = Some (int (length data), p')" and "bp_inv p'"
    using QIODevice_write_fits [OF inv] by blast
  then show ?thesis
    using True mem_read_write_same [OF buf refl] mem_write_drop [OF buf order_refl] buf
    by (auto simp: mem_write_def split: if_splits)
next
  case False
  then have "QIODevice_write data p = Some (-1, p)"
    by (intro QIODevice_write_fails inv) auto
  with False inv show ?thesis by auto
qed

theorem BasePacket_write_safe_witness:
  "\<exists>n p'. QIODevice_write [1, 2, 3] (BasePacket_create 2 :: nat base_packet) = Some (n, p') \<and> n = -1"
proof -
  have "bp_inv (BasePacket_create 2 :: nat base_packet)"
    by (simp add: BasePacket_create_def bp_inv_new bp_inv_open)
  from BasePacket_write_safe [OF this, of "[1, 2, 3]"] show ?thesis
    by (auto simp: BasePacket_sizes BasePacket_create_def QIODevice_open_def BasePacket_new_def)
qed

text \<open>
  Strings round trip: what \<open>writeString\<close> puts at the position, \<open>readString\<close> at that position
  gives back, and both leave the position at the byte after the string.
\<close>

theorem BasePacket_string_roundtrip:
  assumes inv: "bp_inv p" and w: "QIODevice_isWritable p"
    and fit: "int (length str) + 4 \<le> BasePacket_bytesAvailableForWrite p" and small: "length str < 2 ^ 32"
  shows "\<exists>p'. BasePacket_writeString str p = Some (int (length str) + 4, p') \<and> bp_inv p'
    \<and> bp_pos p' = bp_pos p + 4 + length str
    \<and> BasePacket_readString (p'\<lparr>bp_pos := bp_pos p\<rparr>) = Some (str, p')"
proof -
  let ?n = "le32 (word_of_nat (length str))" and ?at = "bp_payloadStart p + bp_pos p"
  have "int (length ?n) \<le> BasePacket_bytesAvailableForWrite p"
    using fit by simp
  from QIODevice_write_fits [OF inv w this] obtain buf1 p1 where
    b1: "mem_write (bp_packet p) ?at ?n = Some buf1"
    and p1: "p1 = p\<lparr>bp_packet := buf1, bp_payloadSize := max (int (bp_pos p) + 4) (bp_payloadSize p),
           bp_pos := bp_pos p + 4\<rparr>"
    and w1: "QIODevice_write ?n p = Some (4, p1)" and inv1: "bp_inv p1"
    by auto
  have "QIODevice_isWritable p1" and "int (length str) \<le> BasePacket_bytesAvailableForWrite p1"
    using w fit by (simp_all add: p1 QIODevice_isWritable_def BasePacket_sizes)
  from QIODevice_write_fits [OF inv1 this] obtain buf2 p2 where
    b2: "mem_write buf1 (?at + 4) str = Some buf2"
    and p2: "p2 = p1\<lparr>bp_packet := buf2,
           bp_payloadSize := max (int (bp_pos p) + 4 + int (length str)) (bp_payloadSize p1),
           bp_pos := bp_pos p + 4 + length str\<rparr>"
    and w2: "QIODevice_write str p1 = Some (int (length str), p2)" and inv2: "bp_inv p2"
    by (auto simp: p1 add.assoc)
  have size: "mem_read buf2 ?at 4 = Some ?n"
    using mem_read_write_before [OF b2, of ?at 4] mem_read_write_same [OF b1, of 4] by simp
  have str: "mem_read buf2 (?at + 4) (length str) = Some str"
    using mem_read_write_same [OF b2 refl] .
  have mode: "bp_mode p2 = ReadWrite"
    using w by (simp add: p2 p1 QIODevice_isWritable_def)
  let ?q = "p2\<lparr>bp_pos := bp_pos p\<rparr>"
  have "QIODevice_read 4 ?q = Some (?n, ?q\<lparr>bp_pos := bp_pos p + 4\<rparr>)"
    using QIODevice_read_within [of ?q 4] size mode bp_inv_pos [OF inv2, of "bp_pos p"]
    by (simp add: BasePacket_sizes mem_read_def p2 p1 split: if_splits)
  moreover have unat: "unat (word_of_nat (length str) :: 32 word) = length str"
    using small by (simp add: unat_of_nat take_bit_nat_eq_self)
  moreover have "uint (word_of_nat (length str) :: 32 word) = int (length str)"
    by (simp only: uint_nat unat)
  ultimately have "BasePacket_readString ?q = Some (str, p2)"
    using str mode
    by (simp add: BasePacket_readString_def QIODevice_seek_def p2 p1 nat_add_distrib add.assoc)
  then show ?thesis
    using w1 w2 inv2 by (auto simp: BasePacket_writeString_def p2)
qed

theorem BasePacket_string_roundtrip_witness:
  "\<exists>p'. BasePacket_writeString [104, 105] (BasePacket_create 100 :: nat base_packet) = Some (6, p')
    \<and> BasePacket_readString (p'\<lparr>bp_pos := 0\<rparr>) = Some ([104, 105], p')"
proof -
  have "bp_inv (BasePacket_create 100 :: nat base_packet)"
    by (simp add: BasePacket_create_def bp_inv_new bp_inv_open)
  from BasePacket_string_roundtrip [OF this, of "[104, 105]"] show ?thesis
    by (auto simp: BasePacket_sizes BasePacket_create_def QIODevice_open_def QIODevice_isWritable_def
        BasePacket_new_def)
qed

text \<open>
  \<open>readString\<close> trusts the size it reads: when a received packet announces more bytes than its
  allocation holds past the position, the read leaves the allocation (undefined behaviour, \<open>None\<close>).
\<close>

theorem BasePacket_readString_overread:
  assumes "bp_inv p" and "bp_mode p \<noteq> NotOpen" and "4 \<le> BasePacket_bytesLeftToRead p"
    and "read32 (bp_packet p) (bp_payloadStart p + bp_pos p) = Some n"
    and "BasePacket_bytesAvailableForWrite p - 4 < uint n"
  shows "BasePacket_readString p = None"
proof -
  let ?bs = "take 4 (drop (bp_payloadStart p + bp_pos p) (bp_packet p))"
  have r: "QIODevice_read 4 p = Some (?bs, p\<lparr>bp_pos := bp_pos p + 4\<rparr>)"
    using QIODevice_read_within [of p 4] assms by simp
  have n: "un_le32 ?bs = n" and len: "length ?bs = 4"
    using assms(4) by (auto simp: read32_def mem_read_def split: if_splits)
  have "length (bp_packet p) < bp_payloadStart p + (bp_pos p + 4) + unat n"
  proof -
    have "uint n = int (unat n)" by simp
    then show ?thesis
      using assms(1,5) by (simp only: bp_inv_def BasePacket_sizes) linarith
  qed
  then show ?thesis
    using len by (simp add: BasePacket_readString_def r n mem_read_def)
qed

theorem BasePacket_readString_overread_witness:
  "BasePacket_readString (BasePacket_fromReceivedPacket [255, 0, 0, 0, 65] 5 (0 :: nat)) = None"
proof -
  have "bp_inv (BasePacket_fromReceivedPacket [255, 0, 0, 0, 65] 5 (0 :: nat))"
    by (simp add: BasePacket_fromReceivedPacket_def bp_inv_of_data bp_inv_open)
  from BasePacket_readString_overread [OF this, of 255] show ?thesis
    by (simp add: BasePacket_sizes BasePacket_fromReceivedPacket_def QIODevice_open_def
        BasePacket_of_data_def read32_def mem_read_def un_le32_def)
qed

end
