(* ===== verification/Udt_Packet.thy ===== *)
theory Udt_Packet
  imports Udt_Base_Packet
begin

unbundle bit_operations_syntax

text \<open>
  The data packet of \<open>udt/Packet.h\<close> and \<open>Packet.cpp\<close>: the header word with the control,
  reliability and message bits, the obfuscation level and the sequence number, the two optional
  words of a message packet, and the obfuscation of what follows the header. The record extends the
  packet buffer of \<open>Udt_Base_Packet\<close>, as the class extends \<open>BasePacket\<close>.
\<close>

section \<open>State\<close>

(* @src libraries/networking/src/udt/Packet.h 57-62 Packet::PacketPosition *)
datatype packet_position = ONLY | FIRST | MIDDLE | LAST

(* @src libraries/networking/src/udt/Packet.h 65-70 Packet::ObfuscationLevel *)
datatype obfuscation_level = NoObfuscation | ObfuscationL1 | ObfuscationL2 | ObfuscationL3

(* @src libraries/networking/src/udt/Packet.h 57-62 Packet::PacketPosition(value) *)
fun PacketPosition_value :: "packet_position \<Rightarrow> 32 word" where
  "PacketPosition_value ONLY = 0" | "PacketPosition_value FIRST = 2"
| "PacketPosition_value MIDDLE = 3" | "PacketPosition_value LAST = 1"

definition PacketPosition_of :: "32 word \<Rightarrow> packet_position" where
  "PacketPosition_of w = (if w = 0 then ONLY else if w = 2 then FIRST else if w = 3 then MIDDLE else LAST)"

(* @src libraries/networking/src/udt/Packet.h 65-70 Packet::ObfuscationLevel(value) *)
fun ObfuscationLevel_value :: "obfuscation_level \<Rightarrow> 32 word" where
  "ObfuscationLevel_value NoObfuscation = 0" | "ObfuscationLevel_value ObfuscationL1 = 1"
| "ObfuscationLevel_value ObfuscationL2 = 2" | "ObfuscationLevel_value ObfuscationL3 = 3"

definition ObfuscationLevel_of :: "32 word \<Rightarrow> obfuscation_level" where
  "ObfuscationLevel_of w = (if w = 0 then NoObfuscation else if w = 1 then ObfuscationL1
     else if w = 2 then ObfuscationL2 else ObfuscationL3)"

(* @src libraries/networking/src/udt/Packet.h 117-123 Packet *)
record 'addr packet = "'addr base_packet" +
  pkt_isReliable :: bool
  pkt_isPartOfMessage :: bool
  pkt_obfuscationLevel :: obfuscation_level
  pkt_sequenceNumber :: seqnum
  pkt_messageNumber :: "32 word"
  pkt_packetPosition :: packet_position
  pkt_messagePartNumber :: "32 word"

section \<open>Sizes\<close>

(* @src libraries/networking/src/udt/Packet.cpp 43-46 Packet::localHeaderSize *)
definition Packet_localHeaderSize :: "bool \<Rightarrow> nat" where
  "Packet_localHeaderSize isPartOfMessage = 4 + (if isPartOfMessage then 4 + 4 else 0)"

(* @src libraries/networking/src/udt/Packet.cpp 48-50 Packet::totalHeaderSize *)
definition Packet_totalHeaderSize :: "bool \<Rightarrow> int" where
  "Packet_totalHeaderSize isPartOfMessage =
     BasePacket_totalHeaderSize + int (Packet_localHeaderSize isPartOfMessage)"

(* @src libraries/networking/src/udt/Packet.cpp 52-54 Packet::maxPayloadSize *)
definition Packet_maxPayloadSize :: "bool \<Rightarrow> int" where
  "Packet_maxPayloadSize isPartOfMessage =
     BasePacket_maxPayloadSize - int (Packet_localHeaderSize isPartOfMessage)"

section \<open>Header\<close>

(* @src libraries/networking/src/udt/Packet.cpp 178-197 Packet::readHeader *)
definition Packet_readHeader :: "('addr, 'm) packet_scheme \<Rightarrow> ('addr, 'm) packet_scheme option" where
  "Packet_readHeader p =
     do { seqNumBitField \<leftarrow> read32 (bp_packet p) 0;
          let p1 = p\<lparr>
            pkt_isReliable := (seqNumBitField AND RELIABILITY_BIT_MASK) \<noteq> 0,
            pkt_isPartOfMessage := (seqNumBitField AND MESSAGE_BIT_MASK) \<noteq> 0,
            pkt_obfuscationLevel :=
              ObfuscationLevel_of (drop_bit OBFUSCATION_LEVEL_OFFSET (seqNumBitField AND OBFUSCATION_LEVEL_MASK)),
            pkt_sequenceNumber := SequenceNumber_of_uint (seqNumBitField AND SEQUENCE_NUMBER_MASK)\<rparr>;
          if pkt_isPartOfMessage p1 then
            do { messageNumberAndBitField \<leftarrow> read32 (bp_packet p) 4;
                 messagePartNumber \<leftarrow> read32 (bp_packet p) 8;
                 Some (p1\<lparr>
                   pkt_messageNumber := messageNumberAndBitField AND MESSAGE_NUMBER_MASK,
                   pkt_packetPosition :=
                     PacketPosition_of (drop_bit PACKET_POSITION_OFFSET messageNumberAndBitField),
                   pkt_messagePartNumber := messagePartNumber\<rparr>) }
          else Some p1 }"

text \<open>The word is assembled with \<open>|=\<close> in place; only its final value can be seen.\<close>

(* @src libraries/networking/src/udt/Packet.cpp 199-217 Packet::writeHeader(first word) *)
definition Packet_headerWord :: "('addr, 'm) packet_scheme \<Rightarrow> 32 word" where
  "Packet_headerWord p =
     (let w0 = SequenceNumber_to_uint (pkt_sequenceNumber p);
          w1 = (if pkt_isReliable p then w0 OR RELIABILITY_BIT_MASK else w0);
          w2 = (if pkt_obfuscationLevel p \<noteq> NoObfuscation
                then w1 OR push_bit OBFUSCATION_LEVEL_OFFSET (ObfuscationLevel_value (pkt_obfuscationLevel p))
                else w1)
      in if pkt_isPartOfMessage p then w2 OR MESSAGE_BIT_MASK else w2)"

(* @src libraries/networking/src/udt/Packet.cpp 199-229 Packet::writeHeader *)
definition Packet_writeHeader :: "('addr, 'm) packet_scheme \<Rightarrow> ('addr, 'm) packet_scheme option" where
  "Packet_writeHeader p =
     do { buf \<leftarrow> mem_write (bp_packet p) 0 (le32 (Packet_headerWord p));
          if pkt_isPartOfMessage p then
            do { buf1 \<leftarrow> mem_write buf 4
                   (le32 (pkt_messageNumber p
                          OR push_bit PACKET_POSITION_OFFSET (PacketPosition_value (pkt_packetPosition p))));
                 buf2 \<leftarrow> mem_write buf1 8 (le32 (pkt_messagePartNumber p));
                 Some (p\<lparr>bp_packet := buf2\<rparr>) }
          else Some (p\<lparr>bp_packet := buf\<rparr>) }"

(* @src libraries/networking/src/udt/Packet.cpp 142-148 Packet::writeMessageNumber *)
definition Packet_writeMessageNumber ::
  "32 word \<Rightarrow> packet_position \<Rightarrow> 32 word \<Rightarrow> ('addr, 'm) packet_scheme \<Rightarrow> ('addr, 'm) packet_scheme option" where
  "Packet_writeMessageNumber messageNumber position messagePartNumber p =
     Packet_writeHeader (p\<lparr>pkt_isPartOfMessage := True, pkt_messageNumber := messageNumber,
       pkt_packetPosition := position, pkt_messagePartNumber := messagePartNumber\<rparr>)"

(* @src libraries/networking/src/udt/Packet.cpp 150-153 Packet::writeSequenceNumber *)
definition Packet_writeSequenceNumber ::
  "seqnum \<Rightarrow> ('addr, 'm) packet_scheme \<Rightarrow> ('addr, 'm) packet_scheme option" where
  "Packet_writeSequenceNumber sequenceNumber p =
     Packet_writeHeader (p\<lparr>pkt_sequenceNumber := sequenceNumber\<rparr>)"

section \<open>Obfuscation\<close>

(* @src libraries/networking/src/udt/Packet.cpp 28-33 KEYS *)
fun obfuscation_KEYS :: "obfuscation_level \<Rightarrow> 64 word" where
  "obfuscation_KEYS NoObfuscation = 0x0"
| "obfuscation_KEYS ObfuscationL1 = 0x6362726973736574"
| "obfuscation_KEYS ObfuscationL2 = 0x7362697261726461"
| "obfuscation_KEYS ObfuscationL3 = 0x72687566666d616e"

(* @src libraries/networking/src/udt/Packet.cpp 35-41 xorHelper(loop) *)
fun xorHelper_loop :: "nat \<Rightarrow> byte list \<Rightarrow> 64 word \<Rightarrow> byte list" where
  "xorHelper_loop i [] key = []"
| "xorHelper_loop i (b # bs) key = (b XOR (le64 key ! (i mod 8))) # xorHelper_loop (Suc i) bs key"

(* @src libraries/networking/src/udt/Packet.cpp 35-41 xorHelper *)
definition xorHelper :: "byte list \<Rightarrow> nat \<Rightarrow> int \<Rightarrow> 64 word \<Rightarrow> byte list option" where
  "xorHelper buf start n key =
     do { bs \<leftarrow> mem_read buf start (nat n); mem_write buf start (xorHelper_loop 0 bs key) }"

(* @src libraries/networking/src/udt/Packet.cpp 155-165 Packet::obfuscate *)
definition Packet_obfuscate ::
  "obfuscation_level \<Rightarrow> ('addr, 'm) packet_scheme \<Rightarrow> ('addr, 'm) packet_scheme option" where
  "Packet_obfuscate level p =
     (let obfuscationKey = obfuscation_KEYS (pkt_obfuscationLevel p) XOR obfuscation_KEYS level;
          header = Packet_localHeaderSize (pkt_isPartOfMessage p)
      in if obfuscationKey \<noteq> 0 then
           do { buf \<leftarrow> xorHelper (bp_packet p) header (BasePacket_getDataSize p - int header) obfuscationKey;
                Packet_writeHeader (p\<lparr>bp_packet := buf, pkt_obfuscationLevel := level\<rparr>) }
         else Some p)"

section \<open>Construction and copies\<close>

definition Packet_default_fields :: "bool \<Rightarrow> bool \<Rightarrow> 'addr base_packet \<Rightarrow> 'addr packet" where
  "Packet_default_fields isReliable isPartOfMessage b =
     base_packet.extend b (packet.fields isReliable isPartOfMessage NoObfuscation 0 0 ONLY 0)"

text \<open>The allocation counts the short header even for a message packet.\<close>

(* @src libraries/networking/src/udt/Packet.cpp 81-89 Packet::Packet(qint64,bool,bool) *)
definition Packet_new :: "int \<Rightarrow> bool \<Rightarrow> bool \<Rightarrow> 'addr packet option" where
  "Packet_new n isReliable isPartOfMessage =
     Packet_writeHeader
       (BasePacket_adjust (Packet_localHeaderSize isPartOfMessage) False
         (Packet_default_fields isReliable isPartOfMessage
           (BasePacket_new (if n = -1 then -1 else int (Packet_localHeaderSize False) + n))))"

(* @src libraries/networking/src/udt/Packet.cpp 57-63 Packet::create *)
definition Packet_create :: "int \<Rightarrow> bool \<Rightarrow> bool \<Rightarrow> 'addr packet option" where
  "Packet_create n isReliable isPartOfMessage =
     map_option (QIODevice_open ReadWrite) (Packet_new n isReliable isPartOfMessage)"

(* @src libraries/networking/src/udt/Packet.cpp 91-116 Packet::Packet(unique_ptr,qint64,SockAddr) *)
definition Packet_of_data :: "byte list \<Rightarrow> int \<Rightarrow> 'addr \<Rightarrow> 'addr packet option" where
  "Packet_of_data data n sender =
     do { p \<leftarrow> Packet_readHeader (Packet_default_fields False False (BasePacket_of_data data n sender));
          let p1 = BasePacket_adjust (Packet_localHeaderSize (pkt_isPartOfMessage p)) (bp_payloadSize p > 0) p;
          if pkt_obfuscationLevel p1 \<noteq> NoObfuscation then Packet_obfuscate NoObfuscation p1
          else Some p1 }"

(* @src libraries/networking/src/udt/Packet.cpp 65-75 Packet::fromReceivedPacket *)
definition Packet_fromReceivedPacket :: "byte list \<Rightarrow> int \<Rightarrow> 'addr \<Rightarrow> 'addr packet option" where
  "Packet_fromReceivedPacket data n sender =
     map_option (QIODevice_open ReadOnly) (Packet_of_data data n sender)"

(* @src libraries/networking/src/udt/Packet.cpp 167-176 Packet::copyMembers *)
definition Packet_copyMembers ::
  "('addr, 'm) packet_scheme \<Rightarrow> ('addr, 'n) packet_scheme \<Rightarrow> ('addr, 'm) packet_scheme" where
  "Packet_copyMembers this other =
     this\<lparr>pkt_isReliable := pkt_isReliable other, pkt_isPartOfMessage := pkt_isPartOfMessage other,
       pkt_obfuscationLevel := pkt_obfuscationLevel other, pkt_sequenceNumber := pkt_sequenceNumber other,
       pkt_packetPosition := pkt_packetPosition other, pkt_messageNumber := pkt_messageNumber other,
       pkt_messagePartNumber := pkt_messagePartNumber other, bp_receiveTime := bp_receiveTime other\<rparr>"

(* @src libraries/networking/src/udt/Packet.cpp 122-128 Packet::operator= *)
definition Packet_assign ::
  "('addr, 'm) packet_scheme \<Rightarrow> ('addr, 'n) packet_scheme \<Rightarrow> ('addr, 'm) packet_scheme option" where
  "Packet_assign this other =
     map_option (\<lambda>p. Packet_copyMembers p other) (BasePacket_assign this other)"

(* @src libraries/networking/src/udt/Packet.cpp 77-79 Packet::createCopy *)
definition Packet_createCopy :: "('addr, 'n) packet_scheme \<Rightarrow> 'addr packet option" where
  "Packet_createCopy other =
     Packet_assign (Packet_default_fields False False
       \<lparr>bp_packetSize = 0, bp_packet = [], bp_payloadStart = 0, bp_payloadCapacity = 0,
        bp_payloadSize = 0, bp_senderSockAddr = None, bp_receiveTime = 0, bp_pos = 0, bp_mode = NotOpen\<rparr>) other"

section \<open>The header words\<close>

lemma PacketPosition_of_value [simp]: "PacketPosition_of (PacketPosition_value x) = x"
  by (cases x) (simp_all add: PacketPosition_of_def)

lemma ObfuscationLevel_of_value [simp]: "ObfuscationLevel_of (ObfuscationLevel_value x) = x"
  by (cases x) (simp_all add: ObfuscationLevel_of_def)

lemma seq_word_masked:
  assumes "seq_wf s"
  shows "SequenceNumber_to_uint s AND SEQUENCE_NUMBER_MASK = SequenceNumber_to_uint s"
proof -
  have "take_bit 27 s = s"
    using assms by (simp add: seq_wf_def SequenceNumber_MAX_def take_bit_int_eq_self)
  then have "take_bit 27 (word_of_int s :: 32 word) = word_of_int s"
    by (metis take_bit_of_int)
  then show ?thesis
    by (simp add: SequenceNumber_to_uint_def SEQUENCE_NUMBER_MASK_mask take_bit_eq_mask)
qed

lemma low_bits_disjoint:
  fixes w m :: "32 word"
  assumes "w AND SEQUENCE_NUMBER_MASK = w" and "SEQUENCE_NUMBER_MASK AND m = 0"
  shows "w AND m = 0"
proof -
  have "w AND m = (w AND SEQUENCE_NUMBER_MASK) AND m"
    by (simp add: assms(1))
  also have "\<dots> = w AND (SEQUENCE_NUMBER_MASK AND m)"
    by (simp only: and.assoc)
  finally show ?thesis by (simp add: assms(2))
qed

lemma Packet_headerWord_fields:
  assumes "seq_wf (pkt_sequenceNumber p)"
  shows "(Packet_headerWord p AND RELIABILITY_BIT_MASK \<noteq> 0) = pkt_isReliable p"
    and "(Packet_headerWord p AND MESSAGE_BIT_MASK \<noteq> 0) = pkt_isPartOfMessage p"
    and "ObfuscationLevel_of (drop_bit OBFUSCATION_LEVEL_OFFSET (Packet_headerWord p AND OBFUSCATION_LEVEL_MASK))
      = pkt_obfuscationLevel p"
    and "SequenceNumber_of_uint (Packet_headerWord p AND SEQUENCE_NUMBER_MASK) = pkt_sequenceNumber p"
proof -
  obtain w where w: "SequenceNumber_to_uint (pkt_sequenceNumber p) = w" by blast
  have low: "w AND SEQUENCE_NUMBER_MASK = w"
    using seq_word_masked [OF assms] by (simp add: w)
  note z = low_bits_disjoint [OF low, unfolded Constants_static_asserts]
  have zs: "w AND 0x40000000 = 0" "w AND 0x20000000 = 0" "w AND 0x18000000 = 0" "w AND 0x07FFFFFF = w"
    using z low by (simp_all add: Constants_static_asserts)
  note S = Packet_headerWord_def Let_def w Constants_static_asserts header_offsets word_ao_dist zs
  show "(Packet_headerWord p AND RELIABILITY_BIT_MASK \<noteq> 0) = pkt_isReliable p"
    by (cases "pkt_obfuscationLevel p") (simp_all add: S push_bit_eq_mult)
  show "(Packet_headerWord p AND MESSAGE_BIT_MASK \<noteq> 0) = pkt_isPartOfMessage p"
    by (cases "pkt_obfuscationLevel p") (simp_all add: S push_bit_eq_mult)
  show "ObfuscationLevel_of (drop_bit OBFUSCATION_LEVEL_OFFSET (Packet_headerWord p AND OBFUSCATION_LEVEL_MASK))
      = pkt_obfuscationLevel p"
    by (cases "pkt_obfuscationLevel p")
      (simp_all add: S push_bit_eq_mult drop_bit_eq_div ObfuscationLevel_of_def)
  have "Packet_headerWord p AND SEQUENCE_NUMBER_MASK = w"
    by (cases "pkt_obfuscationLevel p") (simp_all add: S push_bit_eq_mult)
  then show "SequenceNumber_of_uint (Packet_headerWord p AND SEQUENCE_NUMBER_MASK) = pkt_sequenceNumber p"
    using SequenceNumber_of_to_uint [OF assms] by (simp add: w)
qed

lemma Packet_messageWord_fields:
  assumes "m AND MESSAGE_NUMBER_MASK = m"
  shows "(m OR push_bit PACKET_POSITION_OFFSET (PacketPosition_value x)) AND MESSAGE_NUMBER_MASK = m"
    and "PacketPosition_of (drop_bit PACKET_POSITION_OFFSET
           (m OR push_bit PACKET_POSITION_OFFSET (PacketPosition_value x))) = x"
proof -
  show "(m OR push_bit PACKET_POSITION_OFFSET (PacketPosition_value x)) AND MESSAGE_NUMBER_MASK = m"
    using assms
    by (cases x) (simp_all add: word_ao_dist Constants_static_asserts header_offsets push_bit_eq_mult)
  have "drop_bit 30 (m AND mask 30) = 0"
    by (rule bit_word_eqI) (auto simp: bit_simps)
  then have m: "drop_bit 30 m = 0"
    by (simp only: assms [unfolded MESSAGE_NUMBER_MASK_mask])
  have "drop_bit 30 (push_bit 30 (PacketPosition_value x)) = PacketPosition_value x"
    by (cases x) (simp_all add: push_bit_eq_mult drop_bit_eq_div)
  then show "PacketPosition_of (drop_bit PACKET_POSITION_OFFSET
           (m OR push_bit PACKET_POSITION_OFFSET (PacketPosition_value x))) = x"
    by (simp add: header_offsets m)
qed

section \<open>The header round trip\<close>

text \<open>The bytes of a buffer that hold the header of a packet.\<close>

definition Packet_header_in :: "('addr, 'm) packet_scheme \<Rightarrow> byte list \<Rightarrow> bool" where
  "Packet_header_in p buf \<longleftrightarrow> mem_read buf 0 4 = Some (le32 (Packet_headerWord p))
     \<and> (pkt_isPartOfMessage p \<longrightarrow>
          mem_read buf 4 4 = Some (le32 (pkt_messageNumber p
            OR push_bit PACKET_POSITION_OFFSET (PacketPosition_value (pkt_packetPosition p))))
          \<and> mem_read buf 8 4 = Some (le32 (pkt_messagePartNumber p)))"

definition pkt_wf :: "('addr, 'm) packet_scheme \<Rightarrow> bool" where
  "pkt_wf p \<longleftrightarrow> seq_wf (pkt_sequenceNumber p) \<and> pkt_messageNumber p AND MESSAGE_NUMBER_MASK = pkt_messageNumber p"

lemma Packet_header_in_cong:
  assumes "Packet_header_in p buf" and "pkt_isReliable q = pkt_isReliable p"
    and "pkt_isPartOfMessage q = pkt_isPartOfMessage p" and "pkt_obfuscationLevel q = pkt_obfuscationLevel p"
    and "pkt_sequenceNumber q = pkt_sequenceNumber p"
    and "pkt_isPartOfMessage p \<longrightarrow> pkt_messageNumber q = pkt_messageNumber p
      \<and> pkt_packetPosition q = pkt_packetPosition p \<and> pkt_messagePartNumber q = pkt_messagePartNumber p"
  shows "Packet_header_in q buf"
proof -
  have "Packet_headerWord q = Packet_headerWord p"
    by (simp add: Packet_headerWord_def assms(2-5) cong: if_cong)
  then show ?thesis
    using assms(1,3,6) by (simp add: Packet_header_in_def)
qed

abbreviation pkt_header :: "('addr, 'm) packet_scheme \<Rightarrow> nat" where
  "pkt_header p \<equiv> Packet_localHeaderSize (pkt_isPartOfMessage p)"

text \<open>Only the header's bytes change, and writing succeeds exactly when they are allocated.\<close>

lemma Packet_writeHeader_cases:
  assumes "Packet_writeHeader p = Some p'"
  shows "\<exists>buf. p' = p\<lparr>bp_packet := buf\<rparr> \<and> length buf = length (bp_packet p) \<and> pkt_header p \<le> length buf
    \<and> drop (pkt_header p) buf = drop (pkt_header p) (bp_packet p) \<and> Packet_header_in p buf"
proof -
  obtain b0 where b0: "mem_write (bp_packet p) 0 (le32 (Packet_headerWord p)) = Some b0"
    using assms by (auto simp: Packet_writeHeader_def split: bind_splits)
  show ?thesis
  proof (cases "pkt_isPartOfMessage p")
    case False
    then have "p' = p\<lparr>bp_packet := b0\<rparr>"
      using assms b0 by (simp add: Packet_writeHeader_def)
    then show ?thesis
      using False mem_write_length [OF b0] mem_write_drop [OF b0, of 4] mem_read_write_same [OF b0, of 4]
      by (intro exI [of _ b0])
        (use b0 in \<open>auto simp: Packet_header_in_def Packet_localHeaderSize_def mem_write_def split: if_splits\<close>)
  next
    case True
    let ?m = "pkt_messageNumber p OR push_bit PACKET_POSITION_OFFSET (PacketPosition_value (pkt_packetPosition p))"
    from True assms b0 obtain b1 b2 where b1: "mem_write b0 4 (le32 ?m) = Some b1"
      and b2: "mem_write b1 8 (le32 (pkt_messagePartNumber p)) = Some b2"
      and p': "p' = p\<lparr>bp_packet := b2\<rparr>"
      by (auto simp: Packet_writeHeader_def split: bind_splits)
    have len: "length b2 = length (bp_packet p)"
      using mem_write_length [OF b0] mem_write_length [OF b1] mem_write_length [OF b2] by simp
    have "12 \<le> length b2"
      using b2 mem_write_length [OF b2] by (auto simp: mem_write_def split: if_splits)
    moreover have "drop 12 b2 = drop 12 (bp_packet p)"
      using mem_write_drop [OF b0, of 12] mem_write_drop [OF b1, of 12] mem_write_drop [OF b2, of 12] by simp
    moreover have "mem_read b2 0 4 = Some (le32 (Packet_headerWord p))"
      using mem_read_write_same [OF b0, of 4] mem_read_write_before [OF b1, of 0 4]
        mem_read_write_before [OF b2, of 0 4] by simp
    moreover have "mem_read b2 4 4 = Some (le32 ?m)"
      using mem_read_write_same [OF b1, of 4] mem_read_write_before [OF b2, of 4 4] by simp
    moreover have "mem_read b2 8 4 = Some (le32 (pkt_messagePartNumber p))"
      using mem_read_write_same [OF b2, of 4] by simp
    ultimately show ?thesis
      using p' len True by (intro exI [of _ b2]) (simp add: Packet_localHeaderSize_def Packet_header_in_def)
  qed
qed

lemma Packet_writeHeader_Some:
  assumes "pkt_header p \<le> length (bp_packet p)"
  shows "\<exists>p'. Packet_writeHeader p = Some p'"
  using assms
  by (auto simp: Packet_writeHeader_def mem_write_def Packet_localHeaderSize_def split: bind_splits if_splits)

lemma Packet_writeHeader_None: "Packet_writeHeader p = None \<longleftrightarrow> length (bp_packet p) < pkt_header p"
proof -
  have "pkt_header p \<le> length (bp_packet p)" if "Packet_writeHeader p = Some p'" for p'
    using Packet_writeHeader_cases [OF that] by auto
  then show ?thesis
    using Packet_writeHeader_Some [of p] by (metis not_le option.exhaust option.simps(3))
qed

lemma Packet_read_written:
  assumes "Packet_header_in p (bp_packet q)" and wf: "pkt_wf p"
  shows "\<exists>q'. Packet_readHeader q = Some q' \<and> base_packet.truncate q' = base_packet.truncate q
    \<and> pkt_isReliable q' = pkt_isReliable p \<and> pkt_isPartOfMessage q' = pkt_isPartOfMessage p
    \<and> pkt_obfuscationLevel q' = pkt_obfuscationLevel p \<and> pkt_sequenceNumber q' = pkt_sequenceNumber p
    \<and> (pkt_isPartOfMessage p \<longrightarrow> pkt_messageNumber q' = pkt_messageNumber p
        \<and> pkt_packetPosition q' = pkt_packetPosition p \<and> pkt_messagePartNumber q' = pkt_messagePartNumber p)"
proof -
  note f = Packet_headerWord_fields [of p] Packet_messageWord_fields [of "pkt_messageNumber p" "pkt_packetPosition p"]
  show ?thesis
    using assms
    by (auto simp: pkt_wf_def Packet_readHeader_def Packet_header_in_def read32_def f Let_def base_packet.defs
        simp del: drop_bit_and drop_bit_or)
qed

section \<open>Obfuscation undone\<close>

lemma length_xorHelper_loop [simp]: "length (xorHelper_loop i bs key) = length bs"
  by (induction i bs key rule: xorHelper_loop.induct) simp_all

lemma xorHelper_loop_involutive [simp]: "xorHelper_loop i (xorHelper_loop i bs key) key = bs"
  by (induction i bs key rule: xorHelper_loop.induct) (simp_all add: xor.assoc)

lemma le64_0: "le64 0 = replicate 8 0"
  by (simp add: le64_def le32_def le16_def numeral_eq_Suc)

lemma xorHelper_loop_0 [simp]: "xorHelper_loop i bs 0 = bs"
  by (induction i bs "0 :: 64 word" rule: xorHelper_loop.induct) (simp_all add: le64_0)

lemma obfuscation_KEYS_inject: "obfuscation_KEYS a XOR obfuscation_KEYS b = 0 \<longleftrightarrow> a = b"
  by (cases a; cases b) simp_all

text \<open>
  Changing the level rewrites the header and xors the bytes between the header and the end of
  the data with the difference of the keys; the rest of the buffer is kept.
\<close>

lemma Packet_obfuscate_shape:
  assumes D: "nat (BasePacket_getDataSize p) = D" "pkt_header p \<le> D" "D \<le> length (bp_packet p)"
    and hdr: "Packet_header_in p (bp_packet p)"
  shows "\<exists>buf. Packet_obfuscate level p = Some (p\<lparr>bp_packet := buf, pkt_obfuscationLevel := level\<rparr>)
    \<and> length buf = length (bp_packet p)
    \<and> Packet_header_in (p\<lparr>bp_packet := buf, pkt_obfuscationLevel := level\<rparr>) buf
    \<and> drop (pkt_header p) (take D buf) = xorHelper_loop 0 (drop (pkt_header p) (take D (bp_packet p)))
        (obfuscation_KEYS (pkt_obfuscationLevel p) XOR obfuscation_KEYS level)
    \<and> drop D buf = drop D (bp_packet p)"
proof (cases "pkt_obfuscationLevel p = level")
  case True
  have "Packet_header_in (p\<lparr>pkt_obfuscationLevel := level\<rparr>) (bp_packet p)"
    by (rule Packet_header_in_cong [OF hdr]) (simp_all add: True)
  then show ?thesis
    using True by (intro exI [of _ "bp_packet p"]) (simp add: Packet_obfuscate_def Let_def)
next
  case False
  let ?h = "pkt_header p" and ?key = "obfuscation_KEYS (pkt_obfuscationLevel p) XOR obfuscation_KEYS level"
  let ?bs = "drop ?h (take D (bp_packet p))"
  let ?b1 = "take ?h (bp_packet p) @ xorHelper_loop 0 ?bs ?key @ drop D (bp_packet p)"
  have n: "nat (BasePacket_getDataSize p - int ?h) = D - ?h"
    using D by simp
  have bs: "take (D - ?h) (drop ?h (bp_packet p)) = ?bs"
    by (simp add: drop_take)
  have len: "length ?bs = D - ?h" "length ?b1 = length (bp_packet p)"
    using D by simp_all
  have x: "xorHelper (bp_packet p) ?h (BasePacket_getDataSize p - int ?h) ?key = Some ?b1"
    using D by (simp add: xorHelper_def n mem_read_def mem_write_def bs len)
  let ?p1 = "p\<lparr>bp_packet := ?b1, pkt_obfuscationLevel := level\<rparr>"
  obtain p2 where p2: "Packet_writeHeader ?p1 = Some p2"
    using Packet_writeHeader_Some [of ?p1] D len by auto
  then obtain buf where buf: "p2 = ?p1\<lparr>bp_packet := buf\<rparr>" "length buf = length ?b1"
      "drop ?h buf = drop ?h ?b1" "Packet_header_in ?p1 buf"
    using Packet_writeHeader_cases [OF p2] by auto
  have "drop ?h (take D buf) = take (D - ?h) (drop ?h ?b1)"
    using buf(3) by (simp add: drop_take)
  also have "\<dots> = xorHelper_loop 0 ?bs ?key"
    using D len by (simp add: min_def)
  finally have mid: "drop ?h (take D buf) = xorHelper_loop 0 ?bs ?key" .
  have "drop D buf = drop (D - ?h) (drop ?h buf)"
    using D by simp
  also have "\<dots> = drop D (bp_packet p)"
    using D len by (simp add: buf(3) min_def)
  finally have tail: "drop D buf = drop D (bp_packet p)" .
  have "Packet_obfuscate level p = Some (p\<lparr>bp_packet := buf, pkt_obfuscationLevel := level\<rparr>)"
    using False x p2 buf(1) by (simp add: Packet_obfuscate_def Let_def obfuscation_KEYS_inject)
  moreover have "Packet_header_in (p\<lparr>bp_packet := buf, pkt_obfuscationLevel := level\<rparr>) buf"
    by (rule Packet_header_in_cong [OF buf(4)]) simp_all
  ultimately show ?thesis
    using mid tail buf(2) len(2) by metis
qed

section \<open>The packet invariant\<close>

text \<open>
  A packet in use: the buffer invariant, a header that fits and is written out, fields in range,
  and the data covering at least the header.
\<close>

definition pkt_inv :: "('addr, 'm) packet_scheme \<Rightarrow> bool" where
  "pkt_inv p \<longleftrightarrow> bp_inv p \<and> pkt_wf p \<and> pkt_header p \<le> bp_payloadStart p
     \<and> Packet_header_in p (bp_packet p)"

lemma pkt_inv_data:
  assumes "pkt_inv p"
  shows "pkt_header p \<le> nat (BasePacket_getDataSize p)"
    and "nat (BasePacket_getDataSize p) \<le> length (bp_packet p)"
    and "BasePacket_wire p = Some (take (nat (BasePacket_getDataSize p)) (bp_packet p))"
proof -
  show 1: "pkt_header p \<le> nat (BasePacket_getDataSize p)"
    using assms by (auto simp: pkt_inv_def bp_inv_def BasePacket_sizes)
  show 2: "nat (BasePacket_getDataSize p) \<le> length (bp_packet p)"
    using assms by (auto simp: pkt_inv_def bp_inv_def BasePacket_sizes)
  show "BasePacket_wire p = Some (take (nat (BasePacket_getDataSize p)) (bp_packet p))"
    using 2 by (simp add: BasePacket_wire_def mem_read_def)
qed

lemma Packet_header_in_take:
  assumes "Packet_header_in p buf" and "pkt_header p \<le> n" and "n \<le> length buf"
  shows "Packet_header_in p (take n buf)"
  using assms
  by (auto simp: Packet_header_in_def Packet_localHeaderSize_def mem_read_def drop_take min_def
      split: if_splits)

lemma pkt_inv_open:
  assumes "pkt_inv p"
  shows "pkt_inv (QIODevice_open mode p)"
proof -
  have "Packet_header_in (QIODevice_open mode p) (bp_packet p)"
    by (rule Packet_header_in_cong [of p]) (use assms in \<open>simp_all add: pkt_inv_def QIODevice_open_def\<close>)
  moreover have "bp_inv (QIODevice_open mode p)"
    using assms by (simp add: pkt_inv_def bp_inv_open)
  ultimately show ?thesis
    using assms unfolding pkt_inv_def pkt_wf_def QIODevice_open_def by simp
qed

lemma Packet_writeHeader_inv:
  assumes "bp_inv p" and "pkt_wf p" and "pkt_header p \<le> bp_payloadStart p"
  shows "\<exists>p'. Packet_writeHeader p = Some p' \<and> pkt_inv p'"
proof -
  have "pkt_header p \<le> length (bp_packet p)"
    using assms by (auto simp: bp_inv_def)
  then obtain p' where p': "Packet_writeHeader p = Some p'"
    using Packet_writeHeader_Some by blast
  then obtain buf where buf: "p' = p\<lparr>bp_packet := buf\<rparr>" "length buf = length (bp_packet p)"
      "Packet_header_in p buf"
    using Packet_writeHeader_cases by blast
  have "Packet_header_in p' buf"
    by (rule Packet_header_in_cong [OF buf(3)]) (simp_all add: buf(1))
  then show ?thesis
    using p' buf assms by (simp add: pkt_inv_def bp_inv_def pkt_wf_def)
qed

lemma Packet_writeSequenceNumber_inv:
  assumes "pkt_inv p" and "seq_wf s"
  shows "\<exists>p'. Packet_writeSequenceNumber s p = Some p' \<and> pkt_inv p'"
  unfolding Packet_writeSequenceNumber_def
  by (rule Packet_writeHeader_inv) (use assms in \<open>auto simp: pkt_inv_def bp_inv_def pkt_wf_def\<close>)

text \<open>What the receiver parses out of the datagram of a packet, obfuscated or not.\<close>

lemma Packet_obfuscate_parse:
  assumes inv: "pkt_inv p" and clear: "pkt_obfuscationLevel p = NoObfuscation"
  shows "\<exists>p1 wire q. Packet_obfuscate level p = Some p1 \<and> BasePacket_wire p1 = Some wire
    \<and> Packet_fromReceivedPacket wire (int (length wire)) a = Some q
    \<and> pkt_obfuscationLevel q = NoObfuscation
    \<and> pkt_isReliable q = pkt_isReliable p \<and> pkt_isPartOfMessage q = pkt_isPartOfMessage p
    \<and> pkt_sequenceNumber q = pkt_sequenceNumber p
    \<and> (pkt_isPartOfMessage p \<longrightarrow> pkt_messageNumber q = pkt_messageNumber p
        \<and> pkt_packetPosition q = pkt_packetPosition p \<and> pkt_messagePartNumber q = pkt_messagePartNumber p)
    \<and> BasePacket_payload q = drop (pkt_header p) (take (nat (BasePacket_getDataSize p)) (bp_packet p))
    \<and> bp_senderSockAddr q = Some a \<and> BasePacket_getDataSize q = BasePacket_getDataSize p
    \<and> bp_payloadStart q = pkt_header p \<and> length (bp_packet q) = nat (BasePacket_getDataSize p)
    \<and> drop (pkt_header p) (bp_packet q) = drop (pkt_header p) (take (nat (BasePacket_getDataSize p)) (bp_packet p))"
proof -
  let ?h = "pkt_header p"
  obtain D where D: "nat (BasePacket_getDataSize p) = D" by blast
  note data = pkt_inv_data [OF inv, unfolded D]
  have hdr: "Packet_header_in p (bp_packet p)" and wf: "pkt_wf p"
    using inv by (simp_all add: pkt_inv_def)
  obtain buf where p1: "Packet_obfuscate level p = Some (p\<lparr>bp_packet := buf, pkt_obfuscationLevel := level\<rparr>)"
    and len: "length buf = length (bp_packet p)"
    and hdr1: "Packet_header_in (p\<lparr>bp_packet := buf, pkt_obfuscationLevel := level\<rparr>) buf"
    and mid: "drop ?h (take D buf) = xorHelper_loop 0 (drop ?h (take D (bp_packet p))) (obfuscation_KEYS level)"
    using Packet_obfuscate_shape [OF D data(1,2) hdr, of level] by (auto simp: clear)
  let ?p1 = "p\<lparr>bp_packet := buf, pkt_obfuscationLevel := level\<rparr>" and ?wire = "take D buf"
  have wire: "BasePacket_wire ?p1 = Some ?wire" and lw: "length ?wire = D"
    using D data len by (simp_all add: BasePacket_wire_def mem_read_def BasePacket_sizes)
  let ?q0 = "Packet_default_fields False False (BasePacket_of_data ?wire (int D) a)"
  have q0: "bp_packet ?q0 = ?wire" "base_packet.truncate ?q0 = BasePacket_of_data ?wire (int D) a"
    by (simp_all add: Packet_default_fields_def BasePacket_of_data_def base_packet.defs packet.defs)
  have "Packet_header_in ?p1 (bp_packet ?q0)"
    using Packet_header_in_take [OF hdr1, of D] data len by (simp add: q0)
  moreover have "pkt_wf ?p1"
    using wf by (simp add: pkt_wf_def)
  ultimately obtain q1 where q1: "Packet_readHeader ?q0 = Some q1"
      "base_packet.truncate q1 = BasePacket_of_data ?wire (int D) a"
      "pkt_isReliable q1 = pkt_isReliable p" "pkt_isPartOfMessage q1 = pkt_isPartOfMessage p"
      "pkt_obfuscationLevel q1 = level" "pkt_sequenceNumber q1 = pkt_sequenceNumber p"
      "pkt_isPartOfMessage p \<longrightarrow> pkt_messageNumber q1 = pkt_messageNumber p
        \<and> pkt_packetPosition q1 = pkt_packetPosition p \<and> pkt_messagePartNumber q1 = pkt_messagePartNumber p"
    using Packet_read_written [of ?p1 ?q0] q0(2) by auto
  have b1: "bp_packet q1 = ?wire" "bp_payloadStart q1 = 0" "bp_payloadSize q1 = int D" "bp_senderSockAddr q1 = Some a"
    using q1(2) by (auto simp: base_packet.defs BasePacket_of_data_def)
  obtain q2 where q2: "BasePacket_adjust ?h True q1 = q2" by blast
  have Dpos: "0 < D" and hD: "?h \<le> D"
    using data(1) by (auto simp: Packet_localHeaderSize_def split: if_splits)
  have b2: "bp_packet q2 = ?wire" "pkt_isPartOfMessage q2 = pkt_isPartOfMessage p"
      "pkt_obfuscationLevel q2 = level" "bp_payloadStart q2 = ?h" "bp_payloadSize q2 = int D - int ?h"
      "pkt_isReliable q2 = pkt_isReliable p" "pkt_sequenceNumber q2 = pkt_sequenceNumber p"
      "pkt_messageNumber q2 = pkt_messageNumber q1" "pkt_packetPosition q2 = pkt_packetPosition q1"
      "pkt_messagePartNumber q2 = pkt_messagePartNumber q1" "bp_senderSockAddr q2 = Some a"
    using q1 b1 by (simp_all add: BasePacket_adjust_def Let_def flip: q2)
  have D2: "nat (BasePacket_getDataSize q2) = D" "pkt_header q2 \<le> D" "D \<le> length (bp_packet q2)"
    using b2 hD lw by (simp_all add: BasePacket_sizes)
  have "Packet_header_in ?p1 ?wire"
    using Packet_header_in_take [OF hdr1, of D] data len by simp
  then have "Packet_header_in q2 (bp_packet q2)"
    unfolding b2(1) by (rule Packet_header_in_cong) (use b2 q1(7) in simp_all)
  from Packet_obfuscate_shape [OF D2 this, of NoObfuscation] obtain buf2 where
    o2: "Packet_obfuscate NoObfuscation q2 = Some (q2\<lparr>bp_packet := buf2, pkt_obfuscationLevel := NoObfuscation\<rparr>)"
    and len2: "length buf2 = D"
    and mid2: "drop ?h (take D buf2) = xorHelper_loop 0 (drop ?h (take D ?wire)) (obfuscation_KEYS level)"
    using lw by (auto simp: b2)
  let ?q3 = "q2\<lparr>bp_packet := buf2, pkt_obfuscationLevel := NoObfuscation\<rparr>"
  have clear2: "drop ?h (take D buf2) = drop ?h (take D (bp_packet p))"
    using mid2 by (simp add: mid)
  have "Packet_fromReceivedPacket ?wire (int (length ?wire)) a = Some (QIODevice_open ReadOnly ?q3)"
  proof (cases "level = NoObfuscation")
    case True
    then have "Packet_obfuscate NoObfuscation q2 = Some q2"
      by (simp add: Packet_obfuscate_def Let_def b2)
    then have "?q3 = q2" using o2 by simp
    then show ?thesis
      using True q1 b1 b2(3) Dpos lw
      by (simp add: Packet_fromReceivedPacket_def Packet_of_data_def Let_def q2)
  next
    case False
    then show ?thesis
      using q1 b1 b2(3) Dpos lw o2
      by (simp add: Packet_fromReceivedPacket_def Packet_of_data_def Let_def q2)
  qed
  moreover have "BasePacket_payload (QIODevice_open ReadOnly ?q3) = drop ?h (take D (bp_packet p))"
    using b2(4,5) hD clear2
    by (simp add: BasePacket_payload_def QIODevice_open_def drop_take nat_diff_distrib)
  moreover have "BasePacket_getDataSize p = int D"
    using D Dpos by simp
  ultimately show ?thesis
    using p1 wire D b2 q1(7) len2 clear2 hD
    by (intro exI [of _ ?p1] exI [of _ ?wire] exI [of _ "QIODevice_open ReadOnly ?q3"])
      (simp add: QIODevice_open_def BasePacket_sizes)
qed

section \<open>Properties\<close>

text \<open>
  The packet header round trips: after \<open>writeHeader\<close>, reading the buffer as a received packet
  recovers the reliability and message bits, the obfuscation level and the sequence number, and for
  a message packet its number, position and part number; the bytes after the header are untouched.
\<close>

theorem Packet_header_roundtrip:
  assumes "Packet_writeHeader p = Some p'" and "pkt_wf p"
  shows "\<exists>q. Packet_readHeader (Packet_default_fields r m (BasePacket_of_data (bp_packet p') n a)) = Some q
    \<and> pkt_isReliable q = pkt_isReliable p \<and> pkt_isPartOfMessage q = pkt_isPartOfMessage p
    \<and> pkt_obfuscationLevel q = pkt_obfuscationLevel p \<and> pkt_sequenceNumber q = pkt_sequenceNumber p
    \<and> (pkt_isPartOfMessage p \<longrightarrow> pkt_messageNumber q = pkt_messageNumber p
        \<and> pkt_packetPosition q = pkt_packetPosition p \<and> pkt_messagePartNumber q = pkt_messagePartNumber p)
    \<and> drop (pkt_header p) (bp_packet p') = drop (pkt_header p) (bp_packet p)"
proof -
  obtain buf where buf: "p' = p\<lparr>bp_packet := buf\<rparr>" "Packet_header_in p buf"
      "drop (pkt_header p) buf = drop (pkt_header p) (bp_packet p)"
    using Packet_writeHeader_cases [OF assms(1)] by blast
  have "bp_packet (Packet_default_fields r m (BasePacket_of_data buf n a)) = buf"
    by (simp add: Packet_default_fields_def BasePacket_of_data_def base_packet.defs packet.defs)
  then show ?thesis
    using Packet_read_written [of p "Packet_default_fields r m (BasePacket_of_data buf n a)"] buf assms(2)
    by auto
qed

theorem Packet_header_roundtrip_witness:
  "\<exists>p' q. Packet_writeMessageNumber 77 LAST 3 (Packet_default_fields True True (BasePacket_new 20) :: nat packet)
      = Some p'
    \<and> Packet_readHeader (Packet_default_fields False False (BasePacket_of_data (bp_packet p') 20 (0 :: nat))) = Some q
    \<and> pkt_messageNumber q = 77 \<and> pkt_packetPosition q = LAST \<and> pkt_messagePartNumber q = 3"
proof -
  let ?p = "(Packet_default_fields True True (BasePacket_new 20) :: nat packet)
    \<lparr>pkt_isPartOfMessage := True, pkt_messageNumber := 77, pkt_packetPosition := LAST, pkt_messagePartNumber := 3\<rparr>"
  have "pkt_header ?p \<le> length (bp_packet ?p)" and wf: "pkt_wf ?p"
    by (simp_all add: Packet_default_fields_def BasePacket_new_def base_packet.defs packet.defs
        Packet_localHeaderSize_def pkt_wf_def seq_wf_def seq_consts Constants_static_asserts)
  then obtain p' where p': "Packet_writeHeader ?p = Some p'"
    using Packet_writeHeader_Some by blast
  from Packet_header_roundtrip [OF p' wf, of False False 20 0] p' show ?thesis
    by (auto simp: Packet_writeMessageNumber_def)
qed

text \<open>
  C21. Obfuscation is transparent end to end: whatever level the sender obfuscates a clear packet
  with, the receiver that parses the datagram undoes it. The receiver's packet has the sender's
  header fields, is not obfuscated, and the bytes after its header are those of the clear packet.
\<close>

theorem Packet_obfuscation_transparent:
  assumes inv: "pkt_inv p" and clear: "pkt_obfuscationLevel p = NoObfuscation"
  shows "\<exists>p1 wire q. Packet_obfuscate level p = Some p1 \<and> BasePacket_wire p1 = Some wire
    \<and> Packet_fromReceivedPacket wire (int (length wire)) a = Some q
    \<and> pkt_obfuscationLevel q = NoObfuscation
    \<and> pkt_isReliable q = pkt_isReliable p \<and> pkt_isPartOfMessage q = pkt_isPartOfMessage p
    \<and> pkt_sequenceNumber q = pkt_sequenceNumber p
    \<and> (pkt_isPartOfMessage p \<longrightarrow> pkt_messageNumber q = pkt_messageNumber p
        \<and> pkt_packetPosition q = pkt_packetPosition p \<and> pkt_messagePartNumber q = pkt_messagePartNumber p)
    \<and> BasePacket_payload q = drop (pkt_header p) (take (nat (BasePacket_getDataSize p)) (bp_packet p))"
  using Packet_obfuscate_parse [OF assms, of level a] by blast

text \<open>A new packet satisfies the invariant; what the constructor allocates decides its capacity.\<close>

lemma Packet_new_shape:
  assumes n: "n = -1 \<or> 0 \<le> n" and k: "k = (if n = -1 then MAX_PACKET_SIZE else n + 4)"
    and fits: "int (Packet_localHeaderSize m) \<le> k"
  shows "\<exists>p. Packet_create n r m = Some p \<and> pkt_inv p \<and> bp_payloadCapacity p = k - int (Packet_localHeaderSize m)
    \<and> bp_payloadSize p = 0 \<and> bp_pos p = 0 \<and> pkt_isReliable p = r \<and> pkt_isPartOfMessage p = m
    \<and> pkt_obfuscationLevel p = NoObfuscation \<and> QIODevice_isWritable p"
proof -
  let ?p = "BasePacket_adjust (Packet_localHeaderSize m) False (Packet_default_fields r m
      (BasePacket_new (if n = -1 then -1 else int (Packet_localHeaderSize False) + n)) :: 'a packet)"
  obtain p0 where p0: "?p = p0" by blast
  have k0: "0 \<le> k" using k n by (auto simp: MAX_PACKET_SIZE_value)
  have b: "bp_packetSize p0 = k" "length (bp_packet p0) = nat k" "bp_payloadStart p0 = Packet_localHeaderSize m"
      "bp_payloadCapacity p0 = k - int (Packet_localHeaderSize m)" "bp_payloadSize p0 = 0" "bp_pos p0 = 0"
      "pkt_isReliable p0 = r" "pkt_isPartOfMessage p0 = m" "pkt_obfuscationLevel p0 = NoObfuscation"
      "pkt_sequenceNumber p0 = 0" "pkt_messageNumber p0 = 0"
    unfolding p0 [symmetric] using n k
    by (auto simp: BasePacket_adjust_def Let_def Packet_default_fields_def BasePacket_new_def
        base_packet.defs packet.defs BasePacket_maxPayloadSize_def Packet_localHeaderSize_def)
  have "bp_inv p0" and "pkt_wf p0" and "pkt_header p0 \<le> bp_payloadStart p0"
    using b k0 fits by (simp_all add: bp_inv_def pkt_wf_def seq_wf_def seq_consts)
  from Packet_writeHeader_inv [OF this] obtain p' where
    p': "Packet_writeHeader p0 = Some p'" "pkt_inv p'" by blast
  obtain buf where buf: "p' = p0\<lparr>bp_packet := buf\<rparr>"
    using Packet_writeHeader_cases [OF p'(1)] by blast
  have "pkt_inv (QIODevice_open ReadWrite p')"
    using p'(2) by (rule pkt_inv_open)
  moreover have "Packet_create n r m = Some (QIODevice_open ReadWrite p')"
    using p'(1) by (simp add: Packet_create_def Packet_new_def p0)
  moreover have "bp_payloadCapacity (QIODevice_open ReadWrite p') = k - int (Packet_localHeaderSize m)"
    "bp_payloadSize (QIODevice_open ReadWrite p') = 0" "bp_pos (QIODevice_open ReadWrite p') = 0"
    "pkt_isReliable (QIODevice_open ReadWrite p') = r" "pkt_isPartOfMessage (QIODevice_open ReadWrite p') = m"
    "pkt_obfuscationLevel (QIODevice_open ReadWrite p') = NoObfuscation"
    "QIODevice_isWritable (QIODevice_open ReadWrite p')"
    unfolding buf QIODevice_open_def QIODevice_isWritable_def by (simp_all add: b)
  ultimately show ?thesis by blast
qed

theorem Packet_obfuscation_transparent_witness:
  "\<exists>p p1 wire q. Packet_create 10 True False = Some (p :: nat packet)
    \<and> Packet_obfuscate ObfuscationL2 p = Some p1 \<and> BasePacket_wire p1 = Some wire
    \<and> Packet_fromReceivedPacket wire (int (length wire)) 5 = Some q \<and> pkt_isReliable q"
proof -
  obtain p :: "nat packet" where "Packet_create 10 True False = Some p" "pkt_inv p"
      "pkt_obfuscationLevel p = NoObfuscation" "pkt_isReliable p"
    using Packet_new_shape [of 10 14 False True] by (auto simp: Packet_localHeaderSize_def)
  then show ?thesis
    using Packet_obfuscation_transparent [of p ObfuscationL2 5] by blast
qed

text \<open>
  \<open>create(size)\<close> gives an empty writable packet whose header is written and whose payload
  capacity is the size asked for, except for message packets: their 12 byte header is taken out of an
  allocation that counts only 4, so the capacity is 8 less than asked, and for less than 8 bytes the
  constructor writes its header past the end of the allocation (\<open>None\<close>).
\<close>

theorem Packet_create_capacity:
  assumes "0 \<le> n"
  shows "(\<not> m \<longrightarrow> (\<exists>p. Packet_create n r m = Some (p :: 'a packet) \<and> pkt_inv p \<and> QIODevice_isWritable p
          \<and> bp_payloadSize p = 0 \<and> bp_payloadCapacity p = n))
    \<and> (m \<and> 8 \<le> n \<longrightarrow> (\<exists>p. Packet_create n r m = Some (p :: 'a packet) \<and> pkt_inv p \<and> QIODevice_isWritable p
          \<and> bp_payloadSize p = 0 \<and> bp_payloadCapacity p = n - 8))
    \<and> (m \<and> n < 8 \<longrightarrow> Packet_create n r m = (None :: 'a packet option))"
proof -
  have "Packet_create n r m = (None :: 'a packet option)" if "m" "n < 8"
    using that assms
    by (simp add: Packet_create_def Packet_new_def Packet_writeHeader_None BasePacket_adjust_def Let_def
        Packet_default_fields_def BasePacket_new_def base_packet.defs packet.defs Packet_localHeaderSize_def)
  then show ?thesis
    using Packet_new_shape [of n "n + 4" m r] assms by (auto simp: Packet_localHeaderSize_def)
qed

theorem Packet_create_capacity_witness:
  "Packet_create 7 False True = (None :: nat packet option)
    \<and> (\<exists>p :: nat packet. Packet_create 7 False False = Some p \<and> bp_payloadCapacity p = 7)"
  using Packet_create_capacity [of 7 True False] Packet_create_capacity [of 7 False False] by auto

text \<open>
  Parsing does not check the length of the datagram: a data packet of fewer than 4 bytes, or
  one of fewer than 12 whose message bit is set, makes the constructor read past its allocation
  (\<open>None\<close>). Every longer datagram is parsed.
\<close>

theorem Packet_parse_needs_header:
  "(length data < 4 \<longrightarrow> Packet_fromReceivedPacket data (int (length data)) a = None)
    \<and> (read32 data 0 = Some w \<and> (w AND MESSAGE_BIT_MASK) \<noteq> 0 \<and> length data < 12
        \<longrightarrow> Packet_fromReceivedPacket data (int (length data)) a = None)"
proof -
  let ?q = "Packet_default_fields False False (BasePacket_of_data data (int (length data)) a)"
  have q: "bp_packet ?q = data"
    by (simp add: Packet_default_fields_def BasePacket_of_data_def base_packet.defs packet.defs)
  have 1: "Packet_readHeader ?q = None" if "length data < 4"
    using that by (simp add: Packet_readHeader_def q read32_def mem_read_def)
  have 2: "Packet_readHeader ?q = None"
    if "read32 data 0 = Some w" "(w AND MESSAGE_BIT_MASK) \<noteq> 0" "length data < 12"
  proof -
    have "read32 data 4 = None \<or> read32 data 8 = None"
      using that(3) by (auto simp: read32_def mem_read_def)
    then show ?thesis
      using that(1,2) by (auto simp: Packet_readHeader_def q Let_def split: bind_splits)
  qed
  show ?thesis
    using 1 2 by (simp add: Packet_fromReceivedPacket_def Packet_of_data_def)
qed

theorem Packet_parse_needs_header_witness:
  "Packet_fromReceivedPacket [1, 2, 3] 3 (0 :: nat) = None"
  using Packet_parse_needs_header [of "[1, 2, 3]" "0 :: nat" 0] by simp

end
