(* ===== verification/Udt_Packet_Queue.thy ===== *)
theory Udt_Packet_Queue
  imports Prelude "HOL-Library.Multiset"
begin

text \<open>
  The queue of packets to send, \<open>udt/PacketQueue.h\<close> and \<open>PacketQueue.cpp\<close>: a main channel for single
  packets, one more channel per packet list, and the round robin that takes from at most sixteen
  of them before it returns to the main one. The packets are a type variable. The iterator
  \<open>_currentChannel\<close> is an index into the channels (their number stands for \<open>end()\<close>); the mutex is
  held through every operation, which are therefore atomic steps.
\<close>

section \<open>State and operations\<close>

(* @src libraries/networking/src/udt/PacketQueue.h 52-58 PacketQueue *)
record 'p packet_queue =
  pq_currentMessageNumber :: "32 word"
  pq_channels :: "'p list list"
  pq_currentChannel :: nat
  pq_channelsVisitedCount :: nat

(* @src libraries/networking/src/udt/PacketQueue.cpp 18-21 PacketQueue::PacketQueue *)
definition PacketQueue_new :: "32 word \<Rightarrow> 'p packet_queue" where
  "PacketQueue_new messageNumber =
     \<lparr>pq_currentMessageNumber = messageNumber, pq_channels = [[]], pq_currentChannel = 0,
      pq_channelsVisitedCount = 0\<rparr>"

(* @src libraries/networking/src/udt/PacketQueue.cpp 23-27 PacketQueue::getNextMessageNumber *)
definition PacketQueue_getNextMessageNumber :: "'p packet_queue \<Rightarrow> 32 word \<times> 'p packet_queue" where
  "PacketQueue_getNextMessageNumber q =
     (let n = (pq_currentMessageNumber q + 1) mod (push_bit 30 1)
      in (n, q\<lparr>pq_currentMessageNumber := n\<rparr>))"

(* @src libraries/networking/src/udt/PacketQueue.cpp 29-34 PacketQueue::isEmpty *)
definition PacketQueue_isEmpty :: "'p packet_queue \<Rightarrow> bool" where
  "PacketQueue_isEmpty q \<longleftrightarrow> length (pq_channels q) = 1 \<and> hd (pq_channels q) = []"

(* @src libraries/networking/src/udt/PacketQueue.cpp 72-72 PacketQueue::takePacket(MAX_CHANNELS_SENT_CONCURRENTLY) *)
definition MAX_CHANNELS_SENT_CONCURRENTLY :: nat where
  "MAX_CHANNELS_SENT_CONCURRENTLY = 16"

text \<open>The channel a packet is taken from: the current one, or the second if that is the empty main one.\<close>

(* @src libraries/networking/src/udt/PacketQueue.cpp 43-46 PacketQueue::takePacket(select) *)
definition pq_next :: "'p packet_queue \<Rightarrow> nat" where
  "pq_next q = (if pq_currentChannel q = 0 \<and> hd (pq_channels q) = [] then 1 else pq_currentChannel q)"

text \<open>Take the front of channel \<open>i\<close>, drop the channel if that empties it, and move on.\<close>

(* @src libraries/networking/src/udt/PacketQueue.cpp 55-65 PacketQueue::takePacket(pop) *)
definition pq_cut :: "nat \<Rightarrow> 'p list list \<Rightarrow> 'p list list \<times> nat" where
  "pq_cut i cs =
     (let channel = tl (cs ! i) in
      if channel = [] \<and> i \<noteq> 0 then (take i cs @ drop (Suc i) cs, i) else (cs[i := channel], Suc i))"

text \<open>
  The packet taken (\<open>None\<close>: the null pointer, the queue is empty) and the queue after. The outer
  \<open>None\<close> is the front of an empty or missing channel, undefined in C++.
\<close>

(* @src libraries/networking/src/udt/PacketQueue.cpp 36-80 PacketQueue::takePacket *)
definition PacketQueue_takePacket :: "'p packet_queue \<Rightarrow> ('p option \<times> 'p packet_queue) option" where
  "PacketQueue_takePacket q =
     (if PacketQueue_isEmpty q then Some (None, q)
      else
        let cs = pq_channels q; i = pq_next q in
        if i \<ge> length cs \<or> cs ! i = [] then None
        else
          let packet = hd (cs ! i);
              (cs', i') = pq_cut i cs;
              visited = pq_channelsVisitedCount q + 1;
              restart = (i' = length cs' \<or> visited \<ge> MAX_CHANNELS_SENT_CONCURRENTLY)
          in Some (Some packet, q\<lparr>pq_channels := cs',
               pq_channelsVisitedCount := (if restart then 0 else visited),
               pq_currentChannel := (if restart then 0 else i')\<rparr>))"

(* @src libraries/networking/src/udt/PacketQueue.cpp 82-85 PacketQueue::queuePacket *)
definition PacketQueue_queuePacket :: "'p \<Rightarrow> 'p packet_queue \<Rightarrow> 'p packet_queue" where
  "PacketQueue_queuePacket p q =
     q\<lparr>pq_channels := (hd (pq_channels q) @ [p]) # tl (pq_channels q)\<rparr>"

text \<open>The second half of \<open>queuePacketList\<close>: the packets of the list become the last channel.\<close>

(* @src libraries/networking/src/udt/PacketQueue.cpp 92-94 PacketQueue::queuePacketList(channel) *)
definition PacketQueue_queueChannel :: "'p list \<Rightarrow> 'p packet_queue \<Rightarrow> 'p packet_queue" where
  "PacketQueue_queueChannel ps q = q\<lparr>pq_channels := pq_channels q @ [ps]\<rparr>"

section \<open>Invariant and laws\<close>

definition pq_inv :: "'p packet_queue \<Rightarrow> bool" where
  "pq_inv q \<longleftrightarrow> pq_channels q \<noteq> [] \<and> pq_currentChannel q < length (pq_channels q)
     \<and> (\<forall>c \<in> set (tl (pq_channels q)). c \<noteq> [])
     \<and> pq_channelsVisitedCount q < MAX_CHANNELS_SENT_CONCURRENTLY"

definition pq_items :: "'p packet_queue \<Rightarrow> 'p multiset" where
  "pq_items q = mset (concat (pq_channels q))"

lemma pq_inv_new: "pq_inv (PacketQueue_new n)" "pq_items (PacketQueue_new n) = {#}"
  by (simp_all add: pq_inv_def PacketQueue_new_def MAX_CHANNELS_SENT_CONCURRENTLY_def pq_items_def)

lemma pq_isEmpty_iff: "pq_inv q \<Longrightarrow> PacketQueue_isEmpty q \<longleftrightarrow> pq_items q = {#}"
  by (cases "pq_channels q"; cases "tl (pq_channels q)")
    (auto simp: pq_inv_def PacketQueue_isEmpty_def pq_items_def)

lemma pq_queuePacket:
  assumes "pq_inv q"
  shows "pq_inv (PacketQueue_queuePacket p q)" and "pq_items (PacketQueue_queuePacket p q) = add_mset p (pq_items q)"
  using assms
  by (cases "pq_channels q"; simp add: pq_inv_def PacketQueue_queuePacket_def pq_items_def)+

lemma pq_queueChannel:
  assumes "pq_inv q" and "ps \<noteq> []"
  shows "pq_inv (PacketQueue_queueChannel ps q)"
    and "pq_items (PacketQueue_queueChannel ps q) = pq_items q + mset ps"
  using assms
  by (cases "pq_channels q"; force simp: pq_inv_def PacketQueue_queueChannel_def pq_items_def)+

lemma pq_nextMessage:
  "pq_inv q \<Longrightarrow> PacketQueue_getNextMessageNumber q = (n, q')
    \<Longrightarrow> pq_inv q' \<and> pq_items q' = pq_items q \<and> pq_channels q' = pq_channels q"
  by (auto simp: PacketQueue_getNextMessageNumber_def Let_def pq_inv_def pq_items_def)

lemma pq_next_ok:
  assumes inv: "pq_inv q" and ne: "\<not> PacketQueue_isEmpty q"
  shows "pq_next q < length (pq_channels q)" and "pq_channels q ! pq_next q \<noteq> []"
proof -
  obtain m cs where cs: "pq_channels q = m # cs"
    using inv by (cases "pq_channels q") (auto simp: pq_inv_def)
  have all: "\<forall>c \<in> set cs. c \<noteq> []" and cur: "pq_currentChannel q < Suc (length cs)"
    using inv by (simp_all add: pq_inv_def cs)
  have "m = [] \<Longrightarrow> cs \<noteq> []"
    using ne by (auto simp: PacketQueue_isEmpty_def cs)
  then show "pq_next q < length (pq_channels q)" and "pq_channels q ! pq_next q \<noteq> []"
    using all cur by (auto simp: pq_next_def cs nth_Cons' split: if_splits)
qed

lemma takePacket_shape:
  assumes inv: "pq_inv q" and ne: "\<not> PacketQueue_isEmpty q"
    and cut: "pq_cut (pq_next q) (pq_channels q) = (cs', i')"
    and r: "restart = (i' = length cs' \<or> pq_channelsVisitedCount q + 1 \<ge> MAX_CHANNELS_SENT_CONCURRENTLY)"
  shows "PacketQueue_takePacket q = Some (Some (hd (pq_channels q ! pq_next q)),
      q\<lparr>pq_channels := cs', pq_channelsVisitedCount := (if restart then 0 else pq_channelsVisitedCount q + 1),
        pq_currentChannel := (if restart then 0 else i')\<rparr>)"
  using pq_next_ok [OF inv ne] ne by (simp add: PacketQueue_takePacket_def Let_def cut r not_le)

lemma pq_cut_laws:
  assumes "i < length cs" and "cs ! i \<noteq> []" and "\<forall>c \<in> set (tl cs). c \<noteq> []" and "pq_cut i cs = (cs', i')"
  shows "cs' \<noteq> [] \<and> i' \<le> length cs' \<and> (\<forall>c \<in> set (tl cs'). c \<noteq> [])
    \<and> mset (concat cs) = add_mset (hd (cs ! i)) (mset (concat cs'))"
proof -
  have split: "cs = take i cs @ (hd (cs ! i) # tl (cs ! i)) # drop (Suc i) cs"
    using assms(1,2) by (simp add: id_take_nth_drop [symmetric])
  then have m: "mset (concat cs) = mset (concat (take i cs)) + add_mset (hd (cs ! i)) (mset (tl (cs ! i)))
      + mset (concat (drop (Suc i) cs))"
    by (metis concat.simps(2) concat_append mset.simps(2) mset_append union_assoc)
  have upd: "cs[i := tl (cs ! i)] = take i cs @ tl (cs ! i) # drop (Suc i) cs"
    using assms(1) by (rule upd_conv_take_nth_drop)
  obtain m0 ms where cs: "cs = m0 # ms" using assms(1) by (cases cs) auto
  show ?thesis
  proof (cases "tl (cs ! i) = [] \<and> i \<noteq> 0")
    case True
    then obtain k where k: "i = Suc k" by (cases i) auto
    have "cs' = take i cs @ drop (Suc i) cs" "i' = i"
      using assms(4) True by (auto simp: pq_cut_def)
    then show ?thesis
      using m True assms(1,3) by (auto simp: cs k dest: in_set_takeD in_set_dropD)
  next
    case False
    have c: "cs' = cs[i := tl (cs ! i)]" "i' = Suc i"
      using assms(4) False by (auto simp: pq_cut_def Let_def split: if_splits)
    have "\<forall>c \<in> set (tl (cs[i := tl (cs ! i)])). c \<noteq> []"
      using False assms(3) by (cases i) (auto simp: cs dest: set_update_subset_insert [THEN subsetD])
    moreover have "mset (concat cs) = add_mset (hd (cs ! i)) (mset (concat (cs[i := tl (cs ! i)])))"
      using m by (simp add: upd)
    moreover have "cs \<noteq> []" by (simp add: cs)
    ultimately show ?thesis
      using assms(1) by (simp add: c)
  qed
qed

lemma takePacket_laws:
  assumes inv: "pq_inv q" and ne: "\<not> PacketQueue_isEmpty q"
  shows "\<exists>p q'. PacketQueue_takePacket q = Some (Some p, q') \<and> pq_inv q' \<and> pq_items q = add_mset p (pq_items q')"
proof -
  obtain cs' i' where cut: "pq_cut (pq_next q) (pq_channels q) = (cs', i')"
    by (metis surj_pair)
  have all: "\<forall>c \<in> set (tl (pq_channels q)). c \<noteq> []"
    using inv by (simp add: pq_inv_def)
  note C = pq_cut_laws [OF pq_next_ok [OF inv ne] all cut]
  note t = takePacket_shape [OF inv ne cut refl]
  show ?thesis
    using C by (auto simp: t pq_inv_def pq_items_def MAX_CHANNELS_SENT_CONCURRENTLY_def)
qed

lemma takePacket_empty: "PacketQueue_isEmpty q \<Longrightarrow> PacketQueue_takePacket q = Some (None, q)"
  by (simp add: PacketQueue_takePacket_def)

section \<open>The interface the send queue relies on\<close>

locale packet_source =
  fixes inv :: "'q \<Rightarrow> bool" and items :: "'q \<Rightarrow> 'p multiset" and emptyp :: "'q \<Rightarrow> bool"
    and take1 :: "'q \<Rightarrow> ('p option \<times> 'q) option" and put :: "'p \<Rightarrow> 'q \<Rightarrow> 'q"
    and put_all :: "'p list \<Rightarrow> 'q \<Rightarrow> 'q"
  assumes empty_iff: "inv q \<Longrightarrow> emptyp q \<longleftrightarrow> items q = {#}"
    and take_empty: "inv q \<Longrightarrow> emptyp q \<Longrightarrow> take1 q = Some (None, q)"
    and take_some: "inv q \<Longrightarrow> \<not> emptyp q
        \<Longrightarrow> \<exists>p q'. take1 q = Some (Some p, q') \<and> inv q' \<and> items q = add_mset p (items q')"
    and put_law: "inv q \<Longrightarrow> inv (put p q) \<and> items (put p q) = add_mset p (items q)"
    and put_all_law: "inv q \<Longrightarrow> ps \<noteq> [] \<Longrightarrow> inv (put_all ps q) \<and> items (put_all ps q) = items q + mset ps"
begin

lemma take_total: "inv q \<Longrightarrow> take1 q \<noteq> None"
  using take_empty [of q] take_some [of q] by fastforce

lemma take_inv: "inv q \<Longrightarrow> take1 q = Some (r, q') \<Longrightarrow> inv q'"
  using take_empty [of q] take_some [of q] by fastforce

lemma take_items:
  assumes "inv q" and "take1 q = Some (r, q')"
  shows "items q = (case r of None \<Rightarrow> items q' | Some p \<Rightarrow> add_mset p (items q'))"
    and "r = None \<longleftrightarrow> items q = {#}"
  using assms take_empty [of q] take_some [of q] empty_iff [of q] by fastforce+

lemma take_after_put: "inv q \<Longrightarrow> \<exists>p' q'. take1 (put p q) = Some (Some p', q')"
  using put_law [of q p] take_some [of "put p q"] empty_iff [of "put p q"] by fastforce

end

interpretation pq: packet_source pq_inv pq_items PacketQueue_isEmpty PacketQueue_takePacket
  PacketQueue_queuePacket PacketQueue_queueChannel
  by unfold_locales
    (simp_all add: pq_isEmpty_iff takePacket_empty takePacket_laws pq_queuePacket pq_queueChannel)

section \<open>Fairness\<close>

primrec PacketQueue_takes :: "nat \<Rightarrow> 'p packet_queue \<Rightarrow> 'p packet_queue option" where
  "PacketQueue_takes 0 q = Some q"
| "PacketQueue_takes (Suc n) q =
     (case PacketQueue_takePacket q of None \<Rightarrow> None | Some (_, q') \<Rightarrow> PacketQueue_takes n q')"

text \<open>Away from the main channel, a step leaves that channel alone and gets closer to it.\<close>

lemma takePacket_towards_main:
  assumes inv: "pq_inv q" and main: "hd (pq_channels q) = p # ps" and cur: "pq_currentChannel q \<noteq> 0"
  shows "\<exists>r q'. PacketQueue_takePacket q = Some (r, q') \<and> pq_inv q' \<and> hd (pq_channels q') = p # ps
    \<and> (pq_currentChannel q' = 0 \<or> pq_channelsVisitedCount q' = pq_channelsVisitedCount q + 1)"
proof -
  have ne: "\<not> PacketQueue_isEmpty q"
    using main by (auto simp: PacketQueue_isEmpty_def)
  obtain cs' i' where cut: "pq_cut (pq_next q) (pq_channels q) = (cs', i')"
    by (metis surj_pair)
  obtain k where k: "pq_currentChannel q = Suc k"
    using cur by (cases "pq_currentChannel q") auto
  then have nx: "pq_next q = Suc k" by (simp add: pq_next_def)
  obtain m cs where cs: "pq_channels q = m # cs"
    using inv by (cases "pq_channels q") (auto simp: pq_inv_def)
  have "hd cs' = p # ps"
    using cut main by (auto simp: nx pq_cut_def cs Let_def split: if_splits)
  with takePacket_shape [OF inv ne cut refl] takePacket_laws [OF inv ne] show ?thesis
    by auto
qed

lemma takePacket_at_main:
  assumes inv: "pq_inv q" and main: "hd (pq_channels q) = p # ps" and cur: "pq_currentChannel q = 0"
  shows "\<exists>q'. PacketQueue_takePacket q = Some (Some p, q')"
proof -
  have ne: "\<not> PacketQueue_isEmpty q"
    using main by (auto simp: PacketQueue_isEmpty_def)
  obtain cs' i' where cut: "pq_cut (pq_next q) (pq_channels q) = (cs', i')"
    by (metis surj_pair)
  have "pq_next q = 0" and "pq_channels q ! 0 = p # ps"
    using main cur inv by (auto simp: pq_next_def pq_inv_def hd_conv_nth)
  then show ?thesis
    using takePacket_shape [OF inv ne cut refl] by simp
qed

lemma takes_reach_main:
  assumes "pq_inv q" and "hd (pq_channels q) = p # ps"
    and "k = MAX_CHANNELS_SENT_CONCURRENTLY - pq_channelsVisitedCount q"
  shows "\<exists>n \<le> k. \<exists>q' q''. PacketQueue_takes n q = Some q' \<and> PacketQueue_takePacket q' = Some (Some p, q'')"
  using assms
proof (induction k arbitrary: q)
  case 0
  then show ?case by (simp add: pq_inv_def)
next
  case (Suc k)
  show ?case
  proof (cases "pq_currentChannel q = 0")
    case True
    then show ?thesis
      using takePacket_at_main [OF Suc.prems(1,2)] by (intro exI [of _ 0]) simp
  next
    case False
    then obtain r q' where t: "PacketQueue_takePacket q = Some (r, q')" "pq_inv q'"
        "hd (pq_channels q') = p # ps"
        "pq_currentChannel q' = 0 \<or> pq_channelsVisitedCount q' = pq_channelsVisitedCount q + 1"
      using takePacket_towards_main [OF Suc.prems(1,2)] by blast
    show ?thesis
    proof (cases "pq_currentChannel q' = 0")
      case True
      then show ?thesis
        using takePacket_at_main [OF t(2,3)] t(1) by (intro exI [of _ "Suc 0"]) simp
    next
      case False
      then have "k = MAX_CHANNELS_SENT_CONCURRENTLY - pq_channelsVisitedCount q'"
        using t(4) Suc.prems(3) by simp
      from Suc.IH [OF t(2,3) this] obtain n a b where
        "n \<le> k" "PacketQueue_takes n q' = Some a" "PacketQueue_takePacket a = Some (Some p, b)"
        by blast
      then show ?thesis
        using t(1) by (intro exI [of _ "Suc n"]) simp
    qed
  qed
qed

section \<open>Properties\<close>

text \<open>
  The packet queue loses and invents nothing and never touches an empty channel: under its
  invariant \<open>takePacket\<close> returns the null pointer exactly when the queue is empty, otherwise one
  packet, and the packets left with it are those that were queued; queueing a packet or a non-empty
  list adds exactly those packets. Every operation keeps the invariant.
\<close>

theorem PacketQueue_conserves_packets:
  assumes "pq_inv q" and "ps \<noteq> []"
  shows "(\<exists>r q'. PacketQueue_takePacket q = Some (r, q') \<and> pq_inv q'
      \<and> (r = None \<longleftrightarrow> PacketQueue_isEmpty q)
      \<and> pq_items q = (case r of None \<Rightarrow> pq_items q' | Some p \<Rightarrow> add_mset p (pq_items q')))
    \<and> pq_inv (PacketQueue_queuePacket p q) \<and> pq_items (PacketQueue_queuePacket p q) = add_mset p (pq_items q)
    \<and> pq_inv (PacketQueue_queueChannel ps q) \<and> pq_items (PacketQueue_queueChannel ps q) = pq_items q + mset ps"
proof -
  obtain r q' where t: "PacketQueue_takePacket q = Some (r, q')"
    using pq.take_total [OF assms(1)] by auto
  then show ?thesis
    using pq.take_inv [OF assms(1) t] pq.take_items [OF assms(1) t] pq.empty_iff [OF assms(1)]
      pq.put_law [OF assms(1)] pq.put_all_law [OF assms] by blast
qed

theorem PacketQueue_conserves_packets_witness:
  "pq_items (PacketQueue_queueChannel [2, 3 :: nat] (PacketQueue_queuePacket 1 (PacketQueue_new 0))) = {#1, 2, 3#}"
proof -
  note 1 = PacketQueue_conserves_packets [OF pq_inv_new(1), of "[2, 3 :: nat]" 0 1]
  have "pq_inv (PacketQueue_queuePacket (1 :: nat) (PacketQueue_new 0))"
    using 1 by blast
  from PacketQueue_conserves_packets [OF this, of "[2, 3]" 0] 1 show ?thesis
    by (simp add: pq_inv_new(2) add_mset_commute)
qed

text \<open>
  C23. The main channel is not starved by packet lists: whatever channels are queued and wherever the
  round robin stands, the packet at the front of the main channel is taken after at most sixteen
  other packets.
\<close>

theorem PacketQueue_main_channel_served:
  assumes "pq_inv q" and "hd (pq_channels q) = p # ps"
  shows "\<exists>n \<le> 16. \<exists>q' q''. PacketQueue_takes n q = Some q' \<and> PacketQueue_takePacket q' = Some (Some p, q'')"
proof -
  obtain n q' q'' where n: "n \<le> MAX_CHANNELS_SENT_CONCURRENTLY - pq_channelsVisitedCount q"
    and "PacketQueue_takes n q = Some q'" "PacketQueue_takePacket q' = Some (Some p, q'')"
    using takes_reach_main [OF assms refl] by blast
  moreover have "n \<le> 16"
    using n by (simp add: MAX_CHANNELS_SENT_CONCURRENTLY_def)
  ultimately show ?thesis by blast
qed

theorem PacketQueue_main_channel_served_witness:
  "\<exists>n \<le> 16. \<exists>q' q''. PacketQueue_takes n \<lparr>pq_currentMessageNumber = 0, pq_channels = [[7 :: nat], [1, 2], [3]],
      pq_currentChannel = 1, pq_channelsVisitedCount = 3\<rparr> = Some q'
    \<and> PacketQueue_takePacket q' = Some (Some 7, q'')"
  by (rule PacketQueue_main_channel_served)
    (simp_all add: pq_inv_def MAX_CHANNELS_SENT_CONCURRENTLY_def)

end
