(* ===== verification/Packet_Headers.thy ===== *)
theory Packet_Headers
  imports Prelude
begin

text \<open>
  The packet types and their versions: \<open>udt/PacketHeaders.h\<close> and \<open>PacketHeaders.cpp\<close>. The type is
  an \<open>enum class\<close> over one byte that is read from the wire by a cast, so a packet type is a byte;
  the enumerators are its first 106 values. A version enumeration is the list of its enumerators
  with their values. The MD5 digest of the protocol signature is a parameter.
\<close>

section \<open>Packet types\<close>

type_synonym packet_type = "8 word"
type_synonym packet_version = "8 word"

abbreviation PT_Unknown :: packet_type where "PT_Unknown \<equiv> 0"
abbreviation PT_DomainConnectRequestPending :: packet_type where "PT_DomainConnectRequestPending \<equiv> 1"
abbreviation PT_DomainList :: packet_type where "PT_DomainList \<equiv> 2"
abbreviation PT_Ping :: packet_type where "PT_Ping \<equiv> 3"
abbreviation PT_PingReply :: packet_type where "PT_PingReply \<equiv> 4"
abbreviation PT_KillAvatar :: packet_type where "PT_KillAvatar \<equiv> 5"
abbreviation PT_AvatarData :: packet_type where "PT_AvatarData \<equiv> 6"
abbreviation PT_InjectAudio :: packet_type where "PT_InjectAudio \<equiv> 7"
abbreviation PT_MixedAudio :: packet_type where "PT_MixedAudio \<equiv> 8"
abbreviation PT_MicrophoneAudioNoEcho :: packet_type where "PT_MicrophoneAudioNoEcho \<equiv> 9"
abbreviation PT_MicrophoneAudioWithEcho :: packet_type where "PT_MicrophoneAudioWithEcho \<equiv> 10"
abbreviation PT_BulkAvatarData :: packet_type where "PT_BulkAvatarData \<equiv> 11"
abbreviation PT_SilentAudioFrame :: packet_type where "PT_SilentAudioFrame \<equiv> 12"
abbreviation PT_DomainListRequest :: packet_type where "PT_DomainListRequest \<equiv> 13"
abbreviation PT_RequestAssignment :: packet_type where "PT_RequestAssignment \<equiv> 14"
abbreviation PT_CreateAssignment :: packet_type where "PT_CreateAssignment \<equiv> 15"
abbreviation PT_DomainConnectionDenied :: packet_type where "PT_DomainConnectionDenied \<equiv> 16"
abbreviation PT_MuteEnvironment :: packet_type where "PT_MuteEnvironment \<equiv> 17"
abbreviation PT_AudioStreamStats :: packet_type where "PT_AudioStreamStats \<equiv> 18"
abbreviation PT_DomainServerPathQuery :: packet_type where "PT_DomainServerPathQuery \<equiv> 19"
abbreviation PT_DomainServerPathResponse :: packet_type where "PT_DomainServerPathResponse \<equiv> 20"
abbreviation PT_DomainServerAddedNode :: packet_type where "PT_DomainServerAddedNode \<equiv> 21"
abbreviation PT_ICEServerPeerInformation :: packet_type where "PT_ICEServerPeerInformation \<equiv> 22"
abbreviation PT_ICEServerQuery :: packet_type where "PT_ICEServerQuery \<equiv> 23"
abbreviation PT_OctreeStats :: packet_type where "PT_OctreeStats \<equiv> 24"
abbreviation PT_SetAvatarTraits :: packet_type where "PT_SetAvatarTraits \<equiv> 25"
abbreviation PT_InjectorGainSet :: packet_type where "PT_InjectorGainSet \<equiv> 26"
abbreviation PT_AssignmentClientStatus :: packet_type where "PT_AssignmentClientStatus \<equiv> 27"
abbreviation PT_NoisyMute :: packet_type where "PT_NoisyMute \<equiv> 28"
abbreviation PT_AvatarIdentity :: packet_type where "PT_AvatarIdentity \<equiv> 29"
abbreviation PT_NodeIgnoreRequest :: packet_type where "PT_NodeIgnoreRequest \<equiv> 30"
abbreviation PT_DomainConnectRequest :: packet_type where "PT_DomainConnectRequest \<equiv> 31"
abbreviation PT_DomainServerRequireDTLS :: packet_type where "PT_DomainServerRequireDTLS \<equiv> 32"
abbreviation PT_NodeJsonStats :: packet_type where "PT_NodeJsonStats \<equiv> 33"
abbreviation PT_OctreeDataNack :: packet_type where "PT_OctreeDataNack \<equiv> 34"
abbreviation PT_StopNode :: packet_type where "PT_StopNode \<equiv> 35"
abbreviation PT_AudioEnvironment :: packet_type where "PT_AudioEnvironment \<equiv> 36"
abbreviation PT_EntityEditNack :: packet_type where "PT_EntityEditNack \<equiv> 37"
abbreviation PT_ICEServerHeartbeat :: packet_type where "PT_ICEServerHeartbeat \<equiv> 38"
abbreviation PT_ICEPing :: packet_type where "PT_ICEPing \<equiv> 39"
abbreviation PT_ICEPingReply :: packet_type where "PT_ICEPingReply \<equiv> 40"
abbreviation PT_EntityData :: packet_type where "PT_EntityData \<equiv> 41"
abbreviation PT_EntityQuery :: packet_type where "PT_EntityQuery \<equiv> 42"
abbreviation PT_EntityAdd :: packet_type where "PT_EntityAdd \<equiv> 43"
abbreviation PT_EntityErase :: packet_type where "PT_EntityErase \<equiv> 44"
abbreviation PT_EntityEdit :: packet_type where "PT_EntityEdit \<equiv> 45"
abbreviation PT_DomainServerConnectionToken :: packet_type where "PT_DomainServerConnectionToken \<equiv> 46"
abbreviation PT_DomainSettingsRequest :: packet_type where "PT_DomainSettingsRequest \<equiv> 47"
abbreviation PT_DomainSettings :: packet_type where "PT_DomainSettings \<equiv> 48"
abbreviation PT_AssetGet :: packet_type where "PT_AssetGet \<equiv> 49"
abbreviation PT_AssetGetReply :: packet_type where "PT_AssetGetReply \<equiv> 50"
abbreviation PT_AssetUpload :: packet_type where "PT_AssetUpload \<equiv> 51"
abbreviation PT_AssetUploadReply :: packet_type where "PT_AssetUploadReply \<equiv> 52"
abbreviation PT_AssetGetInfo :: packet_type where "PT_AssetGetInfo \<equiv> 53"
abbreviation PT_AssetGetInfoReply :: packet_type where "PT_AssetGetInfoReply \<equiv> 54"
abbreviation PT_DomainDisconnectRequest :: packet_type where "PT_DomainDisconnectRequest \<equiv> 55"
abbreviation PT_DomainServerRemovedNode :: packet_type where "PT_DomainServerRemovedNode \<equiv> 56"
abbreviation PT_MessagesData :: packet_type where "PT_MessagesData \<equiv> 57"
abbreviation PT_MessagesSubscribe :: packet_type where "PT_MessagesSubscribe \<equiv> 58"
abbreviation PT_MessagesUnsubscribe :: packet_type where "PT_MessagesUnsubscribe \<equiv> 59"
abbreviation PT_ICEServerHeartbeatDenied :: packet_type where "PT_ICEServerHeartbeatDenied \<equiv> 60"
abbreviation PT_AssetMappingOperation :: packet_type where "PT_AssetMappingOperation \<equiv> 61"
abbreviation PT_AssetMappingOperationReply :: packet_type where "PT_AssetMappingOperationReply \<equiv> 62"
abbreviation PT_ICEServerHeartbeatACK :: packet_type where "PT_ICEServerHeartbeatACK \<equiv> 63"
abbreviation PT_NegotiateAudioFormat :: packet_type where "PT_NegotiateAudioFormat \<equiv> 64"
abbreviation PT_SelectedAudioFormat :: packet_type where "PT_SelectedAudioFormat \<equiv> 65"
abbreviation PT_MoreEntityShapes :: packet_type where "PT_MoreEntityShapes \<equiv> 66"
abbreviation PT_NodeKickRequest :: packet_type where "PT_NodeKickRequest \<equiv> 67"
abbreviation PT_NodeMuteRequest :: packet_type where "PT_NodeMuteRequest \<equiv> 68"
abbreviation PT_RadiusIgnoreRequest :: packet_type where "PT_RadiusIgnoreRequest \<equiv> 69"
abbreviation PT_UsernameFromIDRequest :: packet_type where "PT_UsernameFromIDRequest \<equiv> 70"
abbreviation PT_UsernameFromIDReply :: packet_type where "PT_UsernameFromIDReply \<equiv> 71"
abbreviation PT_AvatarQuery :: packet_type where "PT_AvatarQuery \<equiv> 72"
abbreviation PT_RequestsDomainListData :: packet_type where "PT_RequestsDomainListData \<equiv> 73"
abbreviation PT_PerAvatarGainSet :: packet_type where "PT_PerAvatarGainSet \<equiv> 74"
abbreviation PT_EntityScriptGetStatus :: packet_type where "PT_EntityScriptGetStatus \<equiv> 75"
abbreviation PT_EntityScriptGetStatusReply :: packet_type where "PT_EntityScriptGetStatusReply \<equiv> 76"
abbreviation PT_ReloadEntityServerScript :: packet_type where "PT_ReloadEntityServerScript \<equiv> 77"
abbreviation PT_EntityPhysics :: packet_type where "PT_EntityPhysics \<equiv> 78"
abbreviation PT_EntityServerScriptLog :: packet_type where "PT_EntityServerScriptLog \<equiv> 79"
abbreviation PT_AdjustAvatarSorting :: packet_type where "PT_AdjustAvatarSorting \<equiv> 80"
abbreviation PT_OctreeFileReplacement :: packet_type where "PT_OctreeFileReplacement \<equiv> 81"
abbreviation PT_CollisionEventChanges :: packet_type where "PT_CollisionEventChanges \<equiv> 82"
abbreviation PT_ReplicatedMicrophoneAudioNoEcho :: packet_type where "PT_ReplicatedMicrophoneAudioNoEcho \<equiv> 83"
abbreviation PT_ReplicatedMicrophoneAudioWithEcho :: packet_type where "PT_ReplicatedMicrophoneAudioWithEcho \<equiv> 84"
abbreviation PT_ReplicatedInjectAudio :: packet_type where "PT_ReplicatedInjectAudio \<equiv> 85"
abbreviation PT_ReplicatedSilentAudioFrame :: packet_type where "PT_ReplicatedSilentAudioFrame \<equiv> 86"
abbreviation PT_ReplicatedAvatarIdentity :: packet_type where "PT_ReplicatedAvatarIdentity \<equiv> 87"
abbreviation PT_ReplicatedKillAvatar :: packet_type where "PT_ReplicatedKillAvatar \<equiv> 88"
abbreviation PT_ReplicatedBulkAvatarData :: packet_type where "PT_ReplicatedBulkAvatarData \<equiv> 89"
abbreviation PT_DomainContentReplacementFromUrl :: packet_type where "PT_DomainContentReplacementFromUrl \<equiv> 90"
abbreviation PT_DropOnNextProtocolChange_1 :: packet_type where "PT_DropOnNextProtocolChange_1 \<equiv> 91"
abbreviation PT_EntityScriptCallMethod :: packet_type where "PT_EntityScriptCallMethod \<equiv> 92"
abbreviation PT_DropOnNextProtocolChange_2 :: packet_type where "PT_DropOnNextProtocolChange_2 \<equiv> 93"
abbreviation PT_DropOnNextProtocolChange_3 :: packet_type where "PT_DropOnNextProtocolChange_3 \<equiv> 94"
abbreviation PT_OctreeDataFileRequest :: packet_type where "PT_OctreeDataFileRequest \<equiv> 95"
abbreviation PT_OctreeDataFileReply :: packet_type where "PT_OctreeDataFileReply \<equiv> 96"
abbreviation PT_OctreeDataPersist :: packet_type where "PT_OctreeDataPersist \<equiv> 97"
abbreviation PT_EntityClone :: packet_type where "PT_EntityClone \<equiv> 98"
abbreviation PT_EntityQueryInitialResultsComplete :: packet_type where "PT_EntityQueryInitialResultsComplete \<equiv> 99"
abbreviation PT_BulkAvatarTraits :: packet_type where "PT_BulkAvatarTraits \<equiv> 100"
abbreviation PT_AudioSoloRequest :: packet_type where "PT_AudioSoloRequest \<equiv> 101"
abbreviation PT_BulkAvatarTraitsAck :: packet_type where "PT_BulkAvatarTraitsAck \<equiv> 102"
abbreviation PT_StopInjector :: packet_type where "PT_StopInjector \<equiv> 103"
abbreviation PT_AvatarZonePresence :: packet_type where "PT_AvatarZonePresence \<equiv> 104"
abbreviation PT_WebRTCSignaling :: packet_type where "PT_WebRTCSignaling \<equiv> 105"

(* @src libraries/networking/src/udt/PacketHeaders.h 43-151 PacketTypeEnum::Value *)
definition PacketType_enumerators :: "(string \<times> packet_type) list" where
  "PacketType_enumerators = [
     (''Unknown'', PT_Unknown), (''DomainConnectRequestPending'', PT_DomainConnectRequestPending),
     (''DomainList'', PT_DomainList), (''Ping'', PT_Ping), (''PingReply'', PT_PingReply),
     (''KillAvatar'', PT_KillAvatar), (''AvatarData'', PT_AvatarData),
     (''InjectAudio'', PT_InjectAudio), (''MixedAudio'', PT_MixedAudio),
     (''MicrophoneAudioNoEcho'', PT_MicrophoneAudioNoEcho),
     (''MicrophoneAudioWithEcho'', PT_MicrophoneAudioWithEcho),
     (''BulkAvatarData'', PT_BulkAvatarData), (''SilentAudioFrame'', PT_SilentAudioFrame),
     (''DomainListRequest'', PT_DomainListRequest), (''RequestAssignment'', PT_RequestAssignment),
     (''CreateAssignment'', PT_CreateAssignment),
     (''DomainConnectionDenied'', PT_DomainConnectionDenied),
     (''MuteEnvironment'', PT_MuteEnvironment), (''AudioStreamStats'', PT_AudioStreamStats),
     (''DomainServerPathQuery'', PT_DomainServerPathQuery),
     (''DomainServerPathResponse'', PT_DomainServerPathResponse),
     (''DomainServerAddedNode'', PT_DomainServerAddedNode),
     (''ICEServerPeerInformation'', PT_ICEServerPeerInformation),
     (''ICEServerQuery'', PT_ICEServerQuery), (''OctreeStats'', PT_OctreeStats),
     (''SetAvatarTraits'', PT_SetAvatarTraits), (''InjectorGainSet'', PT_InjectorGainSet),
     (''AssignmentClientStatus'', PT_AssignmentClientStatus), (''NoisyMute'', PT_NoisyMute),
     (''AvatarIdentity'', PT_AvatarIdentity), (''NodeIgnoreRequest'', PT_NodeIgnoreRequest),
     (''DomainConnectRequest'', PT_DomainConnectRequest),
     (''DomainServerRequireDTLS'', PT_DomainServerRequireDTLS),
     (''NodeJsonStats'', PT_NodeJsonStats), (''OctreeDataNack'', PT_OctreeDataNack),
     (''StopNode'', PT_StopNode), (''AudioEnvironment'', PT_AudioEnvironment),
     (''EntityEditNack'', PT_EntityEditNack), (''ICEServerHeartbeat'', PT_ICEServerHeartbeat),
     (''ICEPing'', PT_ICEPing), (''ICEPingReply'', PT_ICEPingReply),
     (''EntityData'', PT_EntityData), (''EntityQuery'', PT_EntityQuery),
     (''EntityAdd'', PT_EntityAdd), (''EntityErase'', PT_EntityErase),
     (''EntityEdit'', PT_EntityEdit),
     (''DomainServerConnectionToken'', PT_DomainServerConnectionToken),
     (''DomainSettingsRequest'', PT_DomainSettingsRequest),
     (''DomainSettings'', PT_DomainSettings), (''AssetGet'', PT_AssetGet),
     (''AssetGetReply'', PT_AssetGetReply), (''AssetUpload'', PT_AssetUpload),
     (''AssetUploadReply'', PT_AssetUploadReply), (''AssetGetInfo'', PT_AssetGetInfo),
     (''AssetGetInfoReply'', PT_AssetGetInfoReply),
     (''DomainDisconnectRequest'', PT_DomainDisconnectRequest),
     (''DomainServerRemovedNode'', PT_DomainServerRemovedNode),
     (''MessagesData'', PT_MessagesData), (''MessagesSubscribe'', PT_MessagesSubscribe),
     (''MessagesUnsubscribe'', PT_MessagesUnsubscribe),
     (''ICEServerHeartbeatDenied'', PT_ICEServerHeartbeatDenied),
     (''AssetMappingOperation'', PT_AssetMappingOperation),
     (''AssetMappingOperationReply'', PT_AssetMappingOperationReply),
     (''ICEServerHeartbeatACK'', PT_ICEServerHeartbeatACK),
     (''NegotiateAudioFormat'', PT_NegotiateAudioFormat),
     (''SelectedAudioFormat'', PT_SelectedAudioFormat),
     (''MoreEntityShapes'', PT_MoreEntityShapes), (''NodeKickRequest'', PT_NodeKickRequest),
     (''NodeMuteRequest'', PT_NodeMuteRequest), (''RadiusIgnoreRequest'', PT_RadiusIgnoreRequest),
     (''UsernameFromIDRequest'', PT_UsernameFromIDRequest),
     (''UsernameFromIDReply'', PT_UsernameFromIDReply), (''AvatarQuery'', PT_AvatarQuery),
     (''RequestsDomainListData'', PT_RequestsDomainListData),
     (''PerAvatarGainSet'', PT_PerAvatarGainSet),
     (''EntityScriptGetStatus'', PT_EntityScriptGetStatus),
     (''EntityScriptGetStatusReply'', PT_EntityScriptGetStatusReply),
     (''ReloadEntityServerScript'', PT_ReloadEntityServerScript),
     (''EntityPhysics'', PT_EntityPhysics), (''EntityServerScriptLog'', PT_EntityServerScriptLog),
     (''AdjustAvatarSorting'', PT_AdjustAvatarSorting),
     (''OctreeFileReplacement'', PT_OctreeFileReplacement),
     (''CollisionEventChanges'', PT_CollisionEventChanges),
     (''ReplicatedMicrophoneAudioNoEcho'', PT_ReplicatedMicrophoneAudioNoEcho),
     (''ReplicatedMicrophoneAudioWithEcho'', PT_ReplicatedMicrophoneAudioWithEcho),
     (''ReplicatedInjectAudio'', PT_ReplicatedInjectAudio),
     (''ReplicatedSilentAudioFrame'', PT_ReplicatedSilentAudioFrame),
     (''ReplicatedAvatarIdentity'', PT_ReplicatedAvatarIdentity),
     (''ReplicatedKillAvatar'', PT_ReplicatedKillAvatar),
     (''ReplicatedBulkAvatarData'', PT_ReplicatedBulkAvatarData),
     (''DomainContentReplacementFromUrl'', PT_DomainContentReplacementFromUrl),
     (''DropOnNextProtocolChange_1'', PT_DropOnNextProtocolChange_1),
     (''EntityScriptCallMethod'', PT_EntityScriptCallMethod),
     (''DropOnNextProtocolChange_2'', PT_DropOnNextProtocolChange_2),
     (''DropOnNextProtocolChange_3'', PT_DropOnNextProtocolChange_3),
     (''OctreeDataFileRequest'', PT_OctreeDataFileRequest),
     (''OctreeDataFileReply'', PT_OctreeDataFileReply),
     (''OctreeDataPersist'', PT_OctreeDataPersist), (''EntityClone'', PT_EntityClone),
     (''EntityQueryInitialResultsComplete'', PT_EntityQueryInitialResultsComplete),
     (''BulkAvatarTraits'', PT_BulkAvatarTraits), (''AudioSoloRequest'', PT_AudioSoloRequest),
     (''BulkAvatarTraitsAck'', PT_BulkAvatarTraitsAck), (''StopInjector'', PT_StopInjector),
     (''AvatarZonePresence'', PT_AvatarZonePresence), (''WebRTCSignaling'', PT_WebRTCSignaling)]"

(* @src libraries/networking/src/udt/PacketHeaders.h 150-150 PacketTypeEnum::Value::NUM_PACKET_TYPE *)
definition NUM_PACKET_TYPE :: nat where
  "NUM_PACKET_TYPE = length PacketType_enumerators"

(* @src libraries/networking/src/udt/PacketHeaders.h 155-166 PacketTypeEnum::getReplicatedPacketMapping *)
definition getReplicatedPacketMapping :: "(packet_type \<times> packet_type) list" where
  "getReplicatedPacketMapping = [
     (PT_MicrophoneAudioNoEcho, PT_ReplicatedMicrophoneAudioNoEcho),
     (PT_MicrophoneAudioWithEcho, PT_ReplicatedMicrophoneAudioWithEcho),
     (PT_InjectAudio, PT_ReplicatedInjectAudio),
     (PT_SilentAudioFrame, PT_ReplicatedSilentAudioFrame),
     (PT_AvatarIdentity, PT_ReplicatedAvatarIdentity), (PT_KillAvatar, PT_ReplicatedKillAvatar),
     (PT_BulkAvatarData, PT_ReplicatedBulkAvatarData)]"

(* @src libraries/networking/src/udt/PacketHeaders.h 168-181 PacketTypeEnum::getNonVerifiedPackets *)
definition getNonVerifiedPackets :: "packet_type set" where
  "getNonVerifiedPackets = {
     PT_NodeJsonStats, PT_EntityQuery, PT_OctreeDataNack, PT_EntityEditNack, PT_DomainListRequest,
     PT_StopNode, PT_DomainDisconnectRequest, PT_UsernameFromIDRequest, PT_NodeKickRequest,
     PT_NodeMuteRequest}"

(* @src libraries/networking/src/udt/PacketHeaders.h 183-205 PacketTypeEnum::getNonSourcedPackets *)
definition getNonSourcedPackets :: "packet_type set" where
  "getNonSourcedPackets = {
     PT_DomainConnectRequestPending, PT_CreateAssignment, PT_RequestAssignment,
     PT_DomainServerRequireDTLS, PT_DomainConnectRequest, PT_DomainList, PT_DomainConnectionDenied,
     PT_DomainServerPathQuery, PT_DomainServerPathResponse, PT_DomainServerAddedNode,
     PT_DomainServerConnectionToken, PT_DomainSettingsRequest, PT_OctreeDataFileRequest,
     PT_OctreeDataFileReply, PT_OctreeDataPersist, PT_DomainContentReplacementFromUrl,
     PT_DomainSettings, PT_ICEServerPeerInformation, PT_ICEServerQuery, PT_ICEServerHeartbeat,
     PT_ICEServerHeartbeatACK, PT_ICEPing, PT_ICEPingReply, PT_ICEServerHeartbeatDenied,
     PT_AssignmentClientStatus, PT_StopNode, PT_DomainServerRemovedNode, PT_UsernameFromIDReply,
     PT_OctreeFileReplacement, PT_ReplicatedMicrophoneAudioNoEcho,
     PT_ReplicatedMicrophoneAudioWithEcho, PT_ReplicatedInjectAudio, PT_ReplicatedSilentAudioFrame,
     PT_ReplicatedAvatarIdentity, PT_ReplicatedKillAvatar, PT_ReplicatedBulkAvatarData,
     PT_AvatarZonePresence, PT_WebRTCSignaling}"

(* @src libraries/networking/src/udt/PacketHeaders.h 207-213 PacketTypeEnum::getDomainSourcedPackets *)
definition getDomainSourcedPackets :: "packet_type set" where
  "getDomainSourcedPackets = {
     PT_AssetMappingOperation, PT_AssetGet, PT_AssetUpload}"

(* @src libraries/networking/src/udt/PacketHeaders.h 215-221 PacketTypeEnum::getDomainIgnoredVerificationPackets *)
definition getDomainIgnoredVerificationPackets :: "packet_type set" where
  "getDomainIgnoredVerificationPackets = {
     PT_AssetMappingOperationReply, PT_AssetGetReply, PT_AssetUploadReply}"

section \<open>Versions\<close>

text \<open>An enumerator without a value is one more than the one before it.\<close>

primrec enum_from :: "nat \<Rightarrow> string list \<Rightarrow> (string \<times> nat) list" where
  "enum_from k [] = []"
| "enum_from k (n # ns) = (n, k) # enum_from (Suc k) ns"

definition enum_value :: "(string \<times> nat) list \<Rightarrow> string \<Rightarrow> packet_version" where
  "enum_value E n = (case map_of E n of Some k \<Rightarrow> of_nat k | None \<Rightarrow> 0)"

(* @src libraries/networking/src/udt/PacketHeaders.h 294-378 EntityVersion *)
definition EntityVersion :: "(string \<times> nat) list" where
  "EntityVersion = enum_from 0 [
     ''StrokeColorProperty'', ''HasDynamicOwnershipTests'', ''HazeEffect'',
     ''StaticCertJsonVersionOne'', ''OwnershipChallengeFix''] @ enum_from 82 [
     ''ZoneLightInheritModes'', ''ZoneStageRemoved'', ''SoftEntities'', ''MaterialEntities'',
     ''ShadowControl'', ''MaterialData'', ''CloneableData'', ''CollisionMask16Bytes'',
     ''YieldSimulationOwnership'', ''ParticleEntityFix'', ''ParticleSpin'', ''BloomEffect'',
     ''GrabProperties'', ''ScriptGlmVectors'', ''FixedLightSerialization'', ''MaterialRepeat'',
     ''EntityHostTypes'', ''CleanupProperties'', ''ImageEntities'', ''GridEntities'',
     ''MissingTextProperties'', ''GrabTraits'', ''MorePropertiesCleanup'',
     ''FixPropertiesFromCleanup'', ''UpdatedPolyLines'', ''FixProtocolVersionBumpMismatch'',
     ''MigrateOverlayRenderProperties'', ''MissingWebEntityProperties'', ''PulseProperties'',
     ''RingGizmoEntities'', ''AvatarPriorityZone'', ''ShowKeyboardFocusHighlight'',
     ''WebBillboardMode'', ''ModelScale'', ''ReOrderParentIDProperties'',
     ''CertificateTypeProperty'', ''DisableWebMedia'', ''ParticleShapeType'',
     ''ParticleShapeTypeDeadlockFix'', ''PrivateUserData'', ''TextUnlit'',
     ''ShadowBiasAndDistance'', ''TextEntityFonts'', ''ScriptServerKinematicMotion'',
     ''ScreenshareZoneUnused'', ''ZoneOcclusion'', ''ModelBlendshapes'', ''TransparentWeb'',
     ''UseOriginalPivot'', ''UserAgent'', ''AllBillboardMode'', ''TextAlignment'', ''Mirror'',
     ''EntityTags'', ''WantsKeyboardFocus'', ''AudioZones'', ''AnimationSmoothFrames'',
     ''ProceduralParticles'', ''ShapeUnlit'', ''AmbientColor'', ''SoundEntities'',
     ''TonemappingAndAmbientOcclusion'', ''ModelLoadPriority'', ''PropertyCleanup'',
     ''TextVerticalAlignment'', ''RemoveScreenshare'', ''TorusInnerRadius'',
     ''NormalMapAttenuation'', ''EmptyEntity'', ''ScriptEntities'', ''Fading'', ''Sampler'',
     ''CanvasEntity'', ''NUM_PACKET_TYPE'']"

(* @src libraries/networking/src/udt/PacketHeaders.h 377-377 EntityVersion::LAST_PACKET_TYPE *)
definition EntityVersion_LAST_PACKET_TYPE :: packet_version where
  "EntityVersion_LAST_PACKET_TYPE = enum_value EntityVersion ''NUM_PACKET_TYPE'' - 1"

(* @src libraries/networking/src/udt/PacketHeaders.h 380-383 EntityScriptCallMethodVersion *)
definition EntityScriptCallMethodVersion :: "(string \<times> nat) list" where
  "EntityScriptCallMethodVersion = enum_from 18 [
     ''ServerCallable'', ''ClientCallable'']"

(* @src libraries/networking/src/udt/PacketHeaders.h 385-393 EntityQueryPacketVersion *)
definition EntityQueryPacketVersion :: "(string \<times> nat) list" where
  "EntityQueryPacketVersion = enum_from 18 [
     ''JSONFilter'', ''JSONFilterWithFamilyTree'', ''ConnectionIdentifier'',
     ''RemovedJurisdictions'', ''MultiFrustumQuery'', ''ConicalFrustums'', ''CborData'']"

(* @src libraries/networking/src/udt/PacketHeaders.h 395-400 AssetServerPacketVersion *)
definition AssetServerPacketVersion :: "(string \<times> nat) list" where
  "AssetServerPacketVersion = enum_from 19 [
     ''VegasCongestionControl'', ''RangeRequestSupport'', ''RedirectedMappings'',
     ''BakingTextureMeta'']"

(* @src libraries/networking/src/udt/PacketHeaders.h 402-442 AvatarMixerPacketVersion *)
definition AvatarMixerPacketVersion :: "(string \<times> nat) list" where
  "AvatarMixerPacketVersion = enum_from 17 [
     ''TranslationSupport'', ''SoftAttachmentSupport'', ''AvatarEntities'',
     ''AbsoluteSixByteRotations'', ''SensorToWorldMat'', ''HandControllerJoints'',
     ''HasKillAvatarReason'', ''SessionDisplayName'', ''Unignore'',
     ''ImmediateSessionDisplayNameUpdates'', ''VariableAvatarData'', ''AvatarAsChildFixes'',
     ''StickAndBallDefaultAvatar'', ''IdentityPacketsIncludeUpdateTime'',
     ''AvatarIdentitySequenceId'', ''MannequinDefaultAvatar'', ''AvatarIdentitySequenceFront'',
     ''IsReplicatedInAvatarIdentity'', ''AvatarIdentityLookAtSnapping'',
     ''UpdatedMannequinDefaultAvatar'', ''AvatarJointDefaultPoseFlags'',
     ''FBXReaderNodeReparenting'', ''FixMannequinDefaultAvatarFeet'',
     ''ProceduralFaceMovementFlagsAndBlendshapes'', ''FarGrabJoints'',
     ''MigrateSkeletonURLToTraits'', ''MigrateAvatarEntitiesToTraits'', ''FarGrabJointsRedux'',
     ''JointTransScaled'', ''GrabTraits'', ''CollisionFlag'', ''AvatarTraitsAck'',
     ''FasterAvatarEntities'', ''SendMaxTranslationDimension'', ''FBXJointOrderChange'',
     ''HandControllerSection'', ''SendVerificationFailed'', ''ARKitBlendshapes'',
     ''RemoveAttachments'']"

(* @src libraries/networking/src/udt/PacketHeaders.h 444-456 DomainConnectRequestVersion *)
definition DomainConnectRequestVersion :: "(string \<times> nat) list" where
  "DomainConnectRequestVersion = enum_from 17 [
     ''NoHostname'', ''HasHostname'', ''HasProtocolVersions'', ''HasMACAddress'',
     ''HasMachineFingerprint'', ''AlwaysHasMachineFingerprint'', ''HasTimestamp'', ''HasReason'',
     ''HasSystemInfo'', ''HasCompressedSystemInfo'', ''SocketTypes'']"

(* @src libraries/networking/src/udt/PacketHeaders.h 458-461 DomainListRequestVersion *)
definition DomainListRequestVersion :: "(string \<times> nat) list" where
  "DomainListRequestVersion = enum_from 22 [
     ''PreSocketTypes'', ''SocketTypes'']"

(* @src libraries/networking/src/udt/PacketHeaders.h 463-467 DomainConnectionDeniedVersion *)
definition DomainConnectionDeniedVersion :: "(string \<times> nat) list" where
  "DomainConnectionDeniedVersion = enum_from 17 [
     ''ReasonMessageOnly'', ''IncludesReasonCode'', ''IncludesExtraInfo'']"

(* @src libraries/networking/src/udt/PacketHeaders.h 469-473 DomainServerAddedNodeVersion *)
definition DomainServerAddedNodeVersion :: "(string \<times> nat) list" where
  "DomainServerAddedNodeVersion = enum_from 17 [
     ''PrePermissionsGrid'', ''PermissionsGrid'', ''SocketTypes'']"

(* @src libraries/networking/src/udt/PacketHeaders.h 475-484 DomainListVersion *)
definition DomainListVersion :: "(string \<times> nat) list" where
  "DomainListVersion = enum_from 18 [
     ''PrePermissionsGrid'', ''PermissionsGrid'', ''GetUsernameFromUUIDSupport'',
     ''GetMachineFingerprintFromUUIDSupport'', ''AuthenticationOptional'', ''HasTimestamp'',
     ''HasConnectReason'', ''SocketTypes'']"

(* @src libraries/networking/src/udt/PacketHeaders.h 486-495 AudioVersion *)
definition AudioVersion :: "(string \<times> nat) list" where
  "AudioVersion = enum_from 17 [
     ''HasCompressedAudio'', ''CodecNameInAudioPackets'', ''Exactly10msAudioPackets'',
     ''TerminatingStreamStats'', ''SpaceBubbleChanges'', ''HasPersonalMute'',
     ''HighDynamicRangeVolume'', ''StopInjectors'']"

(* @src libraries/networking/src/udt/PacketHeaders.h 497-499 MessageDataVersion *)
definition MessageDataVersion :: "(string \<times> nat) list" where
  "MessageDataVersion = enum_from 18 [
     ''TextOrBinaryData'']"

(* @src libraries/networking/src/udt/PacketHeaders.h 501-503 IcePingVersion *)
definition IcePingVersion :: "(string \<times> nat) list" where
  "IcePingVersion = enum_from 18 [
     ''SendICEPeerID'']"

(* @src libraries/networking/src/udt/PacketHeaders.h 505-507 PingVersion *)
definition PingVersion :: "(string \<times> nat) list" where
  "PingVersion = enum_from 18 [
     ''IncludeConnectionID'']"

(* @src libraries/networking/src/udt/PacketHeaders.h 509-512 AvatarQueryVersion *)
definition AvatarQueryVersion :: "(string \<times> nat) list" where
  "AvatarQueryVersion = enum_from 21 [
     ''SendMultipleFrustums'', ''ConicalFrustums'']"

(* @src libraries/networking/src/udt/PacketHeaders.cpp 31-113 versionForPacketType *)
definition versionForPacketType :: "packet_type \<Rightarrow> packet_version" where
  "versionForPacketType t = (
      if t = PT_DomainConnectRequestPending
        then 17 else
      if t = PT_DomainList
        then enum_value DomainListVersion ''SocketTypes'' else
      if t \<in> {PT_EntityAdd, PT_EntityClone, PT_EntityEdit, PT_EntityData, PT_EntityPhysics}
        then EntityVersion_LAST_PACKET_TYPE else
      if t = PT_EntityQuery
        then enum_value EntityQueryPacketVersion ''CborData'' else
      if t \<in> {PT_AvatarIdentity, PT_AvatarData}
        then enum_value AvatarMixerPacketVersion ''RemoveAttachments'' else
      if t \<in> {PT_BulkAvatarData, PT_KillAvatar}
        then enum_value AvatarMixerPacketVersion ''RemoveAttachments'' else
      if t = PT_MessagesData
        then enum_value MessageDataVersion ''TextOrBinaryData'' else
      if t = PT_ICEServerPeerInformation
        then 17 else
      if t = PT_ICEServerHeartbeatACK
        then 17 else
      if t = PT_ICEServerQuery
        then 17 else
      if t = PT_ICEServerHeartbeat
        then 18 else
      if t = PT_ICEPing
        then enum_value IcePingVersion ''SendICEPeerID'' else
      if t = PT_ICEPingReply
        then 17 else
      if t = PT_ICEServerHeartbeatDenied
        then 17 else
      if t \<in> {PT_AssetMappingOperation, PT_AssetMappingOperationReply, PT_AssetGetInfo, PT_AssetGet, PT_AssetUpload}
        then enum_value AssetServerPacketVersion ''BakingTextureMeta'' else
      if t = PT_NodeIgnoreRequest
        then 18 else
      if t = PT_DomainConnectionDenied
        then enum_value DomainConnectionDeniedVersion ''IncludesExtraInfo'' else
      if t = PT_DomainConnectRequest
        then enum_value DomainConnectRequestVersion ''SocketTypes'' else
      if t = PT_DomainListRequest
        then enum_value DomainListRequestVersion ''SocketTypes'' else
      if t = PT_DomainServerAddedNode
        then enum_value DomainServerAddedNodeVersion ''SocketTypes'' else
      if t = PT_EntityScriptCallMethod
        then enum_value EntityScriptCallMethodVersion ''ClientCallable'' else
      if t \<in> {PT_MixedAudio, PT_SilentAudioFrame, PT_InjectAudio, PT_MicrophoneAudioNoEcho, PT_MicrophoneAudioWithEcho, PT_AudioStreamStats, PT_StopInjector}
        then enum_value AudioVersion ''StopInjectors'' else
      if t = PT_DomainSettings
        then 18 else
      if t = PT_Ping
        then enum_value PingVersion ''IncludeConnectionID'' else
      if t = PT_AvatarQuery
        then enum_value AvatarQueryVersion ''ConicalFrustums'' else
      if t = PT_EntityQueryInitialResultsComplete
        then enum_value EntityVersion ''ParticleSpin'' else
      if t \<in> {PT_BulkAvatarTraitsAck, PT_BulkAvatarTraits}
        then enum_value AvatarMixerPacketVersion ''AvatarTraitsAck'' else
      23)"
section \<open>The protocol signature\<close>

text \<open>
  What the MD5 digest is taken of: the number of types and then the version of each, in order. The
  loop variable is one byte and the number of types fits it. The version function is a parameter
  so that two builds can be compared; this build's is \<open>versionForPacketType\<close>.
\<close>

(* @src libraries/networking/src/udt/PacketHeaders.cpp 142-152 ensureProtocolVersionsSignature(buffer) *)
definition protocolSignatureBuffer :: "(packet_type \<Rightarrow> packet_version) \<Rightarrow> byte list" where
  "protocolSignatureBuffer version =
     (let numberOfProtocols = of_nat NUM_PACKET_TYPE :: 8 word
      in numberOfProtocols # map (\<lambda>packetType. version (of_nat packetType)) [0..<unat numberOfProtocols])"

(* @src libraries/networking/src/udt/PacketHeaders.cpp 139-157 ensureProtocolVersionsSignature *)
definition protocolVersionMap :: "packet_type \<Rightarrow> packet_version option" where
  "protocolVersionMap =
     map_of (map (\<lambda>packetType. (of_nat packetType, versionForPacketType (of_nat packetType)))
       [0..<unat (of_nat NUM_PACKET_TYPE :: 8 word)])"

(* @src libraries/networking/src/udt/PacketHeaders.cpp 158-167 protocolVersionsSignature *)
definition protocolVersionsSignature :: "(byte list \<Rightarrow> byte list) \<Rightarrow> byte list" where
  "protocolVersionsSignature digest = digest (protocolSignatureBuffer versionForPacketType)"

section \<open>Properties\<close>

lemma NUM_PACKET_TYPE_value: "NUM_PACKET_TYPE = 106"
  by (simp add: NUM_PACKET_TYPE_def PacketType_enumerators_def)

text \<open>
  The enumerators are numbered from 0 without gaps in the order of the source, all distinct,
  and \<open>NUM_PACKET_TYPE\<close> is their number, which fits the byte the type is stored in.
\<close>

theorem PacketType_numbering:
  "map snd PacketType_enumerators = map of_nat [0..<NUM_PACKET_TYPE]
    \<and> distinct (map snd PacketType_enumerators) \<and> NUM_PACKET_TYPE < 256"
proof -
  have 1: "map snd PacketType_enumerators = map of_nat [0..<NUM_PACKET_TYPE]"
    by (simp add: NUM_PACKET_TYPE_value PacketType_enumerators_def upt_rec)
  have "inj_on (of_nat :: nat \<Rightarrow> 8 word) {0..<NUM_PACKET_TYPE}"
    by (rule inj_onI) (auto simp: NUM_PACKET_TYPE_value word_of_nat_eq_iff take_bit_nat_eq_self)
  then have "distinct (map of_nat [0..<NUM_PACKET_TYPE] :: 8 word list)"
    by (simp add: distinct_map)
  with 1 show ?thesis
    by (simp add: NUM_PACKET_TYPE_value)
qed

text \<open>
  The classes of packets fit together: replication maps seven distinct types to seven distinct
  types, every replicated type is non-sourced (it comes from an upstream mixer, not from a node the
  receiver knows) while no original is, and the domain-sourced and the verification-exempt asset
  packets are all sourced and disjoint.
\<close>

theorem PacketType_classes:
  "distinct (map fst getReplicatedPacketMapping) \<and> distinct (map snd getReplicatedPacketMapping)
    \<and> set (map snd getReplicatedPacketMapping) \<subseteq> getNonSourcedPackets
    \<and> set (map fst getReplicatedPacketMapping) \<inter> getNonSourcedPackets = {}
    \<and> (getDomainSourcedPackets \<union> getDomainIgnoredVerificationPackets) \<inter> getNonSourcedPackets = {}
    \<and> getDomainSourcedPackets \<inter> getDomainIgnoredVerificationPackets = {}
    \<and> getNonVerifiedPackets \<inter> getNonSourcedPackets = {PT_StopNode}"
  by (simp add: getReplicatedPacketMapping_def getNonSourcedPackets_def getDomainSourcedPackets_def
      getDomainIgnoredVerificationPackets_def getNonVerifiedPackets_def)

lemma protocolSignatureBuffer_nth:
  "length (protocolSignatureBuffer v) = Suc NUM_PACKET_TYPE"
  "unat t < NUM_PACKET_TYPE \<Longrightarrow> protocolSignatureBuffer v ! Suc (unat t) = v t"
  by (simp_all add: protocolSignatureBuffer_def NUM_PACKET_TYPE_value Let_def)

text \<open>
  Equal signatures mean equal protocols: a peer built with any version function whose signature
  matches this build's agrees with it on the version of every packet type, unless the two buffers
  are an MD5 collision.
\<close>

theorem protocol_signature_decides_versions:
  assumes "protocolVersionsSignature digest = digest (protocolSignatureBuffer peer)"
    and no_collision: "digest (protocolSignatureBuffer versionForPacketType) = digest (protocolSignatureBuffer peer)
      \<Longrightarrow> protocolSignatureBuffer versionForPacketType = protocolSignatureBuffer peer"
    and "unat t < NUM_PACKET_TYPE"
  shows "peer t = versionForPacketType t"
proof -
  have "protocolSignatureBuffer versionForPacketType = protocolSignatureBuffer peer"
    using assms(1) by (intro no_collision) (simp add: protocolVersionsSignature_def)
  then show ?thesis
    using protocolSignatureBuffer_nth(2) [OF assms(3)] by metis
qed

theorem protocol_signature_decides_versions_witness:
  "(\<lambda>t. if unat t < 200 then versionForPacketType t else 0) PT_Ping = versionForPacketType PT_Ping"
proof -
  have "protocolSignatureBuffer versionForPacketType
      = protocolSignatureBuffer (\<lambda>t. if unat t < 200 then versionForPacketType t else 0)"
    by (auto simp: protocolSignatureBuffer_def NUM_PACKET_TYPE_value Let_def unat_of_nat take_bit_nat_eq_self)
  then show ?thesis
    by (intro protocol_signature_decides_versions [where digest = "\<lambda>b. b"])
      (simp_all add: protocolVersionsSignature_def NUM_PACKET_TYPE_value)
qed

lemma audio_version: "versionForPacketType PT_MixedAudio = 24" "versionForPacketType PT_Ping = 18"
  "versionForPacketType PT_Unknown = 23"
  by (simp_all add: versionForPacketType_def enum_value_def AudioVersion_def PingVersion_def)

end
