(* ===== verification/Udt_Packet_List.thy ===== *)
theory Udt_Packet_List
  imports Udt_Packet Udt_Packet_Queue Packet_Headers
begin

unbundle bit_operations_syntax

text \<open>
  The packet lists of \<open>udt/PacketList.h\<close> and \<open>PacketList.cpp\<close>: data written as a stream and cut into
  packets, either as one ordered message whose packets are numbered, or as unordered packets that
  each hold whole segments; and \<open>PacketQueue::queuePacketList\<close>, which numbers a message and queues it.

  The virtual \<open>createPacket\<close> is this class's, \<open>PacketList_createPacket\<close>. The write loop is a \<open>partial_function\<close>: \<open>None\<close> is a loop that does not
  end, or an access outside an allocation.
\<close>

section \<open>State\<close>

(* @src libraries/networking/src/udt/PacketList.h 77-104 PacketList *)
record 'addr packet_list =
  pl_packetType :: packet_type
  pl_packets :: "'addr packet list"
  pl_isOrdered :: bool
  pl_messageNumber :: "32 word"
  pl_isReliable :: bool
  pl_currentPacket :: "'addr packet option"
  pl_segmentStartIndex :: int
  pl_extendedHeader :: "byte list"
  pl_mode :: open_mode

(* @src libraries/networking/src/udt/PacketList.cpp 39-46 PacketList::PacketList *)
definition PacketList_new :: "packet_type \<Rightarrow> byte list \<Rightarrow> bool \<Rightarrow> bool \<Rightarrow> 'addr packet_list" where
  "PacketList_new packetType extendedHeader isReliable isOrdered =
     \<lparr>pl_packetType = packetType, pl_packets = [], pl_isOrdered = isOrdered, pl_messageNumber = 0,
      pl_isReliable = isReliable, pl_currentPacket = None, pl_segmentStartIndex = -1,
      pl_extendedHeader = extendedHeader, pl_mode = NotOpen\<rparr>"

(* @src libraries/networking/src/udt/PacketList.cpp 24-30 PacketList::create *)
definition PacketList_create :: "packet_type \<Rightarrow> byte list \<Rightarrow> bool \<Rightarrow> bool \<Rightarrow> 'addr packet_list" where
  "PacketList_create packetType extendedHeader isReliable isOrdered =
     (PacketList_new packetType extendedHeader isReliable isOrdered)\<lparr>pl_mode := ReadWrite\<rparr>"

(* @src libraries/networking/src/udt/PacketList.cpp 32-37 PacketList::fromReceivedPackets *)
definition PacketList_fromReceivedPackets :: "'addr packet list \<Rightarrow> 'addr packet_list" where
  "PacketList_fromReceivedPackets packets =
     (PacketList_new PT_Unknown [] True True)\<lparr>pl_packets := packets, pl_mode := ReadOnly\<rparr>"

section \<open>Sizes and contents\<close>

(* @src libraries/networking/src/udt/PacketList.h 42-42 PacketList::getNumPackets *)
definition PacketList_getNumPackets :: "'addr packet_list \<Rightarrow> nat" where
  "PacketList_getNumPackets l = length (pl_packets l) + (if pl_currentPacket l \<noteq> None then 1 else 0)"

(* @src libraries/networking/src/udt/PacketList.h 52-52 PacketList::getMaxSegmentSize *)
definition PacketList_getMaxSegmentSize :: "'addr packet_list \<Rightarrow> int" where
  "PacketList_getMaxSegmentSize l = Packet_maxPayloadSize (pl_isOrdered l)"

(* @src libraries/networking/src/udt/PacketList.cpp 57-59 PacketList::getSenderSockAddr *)
definition PacketList_getSenderSockAddr :: "'addr packet_list \<Rightarrow> 'addr option" where
  "PacketList_getSenderSockAddr l =
     (if pl_packets l \<noteq> [] then bp_senderSockAddr (hd (pl_packets l)) else None)"

(* @src libraries/networking/src/udt/PacketList.cpp 61-63 PacketList::startSegment *)
definition PacketList_startSegment :: "'addr packet_list \<Rightarrow> 'addr packet_list" where
  "PacketList_startSegment l =
     l\<lparr>pl_segmentStartIndex := (case pl_currentPacket l of Some p \<Rightarrow> int (bp_pos p)
                                | None \<Rightarrow> int (length (pl_extendedHeader l)))\<rparr>"

(* @src libraries/networking/src/udt/PacketList.cpp 65-67 PacketList::endSegment *)
definition PacketList_endSegment :: "'addr packet_list \<Rightarrow> 'addr packet_list" where
  "PacketList_endSegment l = l\<lparr>pl_segmentStartIndex := -1\<rparr>"

(* @src libraries/networking/src/udt/PacketList.cpp 69-80 PacketList::getDataSize *)
definition PacketList_getDataSize :: "'addr packet_list \<Rightarrow> int" where
  "PacketList_getDataSize l =
     (\<Sum>p \<leftarrow> pl_packets l. BasePacket_getDataSize p)
     + (case pl_currentPacket l of Some p \<Rightarrow> BasePacket_getDataSize p | None \<Rightarrow> 0)"

(* @src libraries/networking/src/udt/PacketList.cpp 82-93 PacketList::getMessageSize *)
definition PacketList_getMessageSize :: "'addr packet_list \<Rightarrow> int" where
  "PacketList_getMessageSize l =
     (\<Sum>p \<leftarrow> pl_packets l. bp_payloadSize p)
     + (case pl_currentPacket l of Some p \<Rightarrow> bp_payloadSize p | None \<Rightarrow> 0)"

(* @src libraries/networking/src/udt/PacketList.cpp 128-143 PacketList::getMessage *)
definition PacketList_getMessage :: "'addr packet_list \<Rightarrow> byte list" where
  "PacketList_getMessage l = concat (map BasePacket_payload (pl_packets l))"

(* @src libraries/networking/src/udt/PacketList.cpp 267-273 PacketList::getFirstPacketReceiveTime *)
definition PacketList_getFirstPacketReceiveTime :: "'addr packet_list \<Rightarrow> int" where
  "PacketList_getFirstPacketReceiveTime l =
     (if pl_packets l \<noteq> [] then bp_receiveTime (hd (pl_packets l)) else 0)"

section \<open>Writing\<close>

(* @src libraries/networking/src/udt/PacketList.cpp 95-100 PacketList::createPacket *)
definition PacketList_createPacket :: "'addr packet_list \<Rightarrow> 'addr packet option" where
  "PacketList_createPacket l = Packet_create (-1) (pl_isReliable l) (pl_isOrdered l)"

(* @src libraries/networking/src/udt/PacketList.cpp 102-115 PacketList::createPacketWithExtendedHeader *)
definition PacketList_createPacketWithExtendedHeader :: "'addr packet_list \<Rightarrow> 'addr packet option" where
  "PacketList_createPacketWithExtendedHeader l =
     do { packet \<leftarrow> PacketList_createPacket l;
          if pl_extendedHeader l \<noteq> []
          then map_option snd (QIODevice_write (pl_extendedHeader l) packet) else Some packet }"

(* @src libraries/networking/src/udt/PacketList.cpp 117-126 PacketList::closeCurrentPacket *)
definition PacketList_closeCurrentPacket :: "bool \<Rightarrow> 'addr packet_list \<Rightarrow> 'addr packet_list option" where
  "PacketList_closeCurrentPacket shouldSendEmpty l =
     do { l1 \<leftarrow> (if shouldSendEmpty \<and> pl_currentPacket l = None \<and> pl_packets l = []
                 then map_option (\<lambda>p. l\<lparr>pl_currentPacket := Some p\<rparr>) (PacketList_createPacketWithExtendedHeader l)
                 else Some l);
          Some (case pl_currentPacket l1 of
                  Some p \<Rightarrow> l1\<lparr>pl_packets := pl_packets l1 @ [p], pl_currentPacket := None\<rparr>
                | None \<Rightarrow> l1) }"

definition PACKET_LIST_WRITE_ERROR :: int where
  "PACKET_LIST_WRITE_ERROR = -1"

text \<open>The unordered branch: the block that does not fit goes to a new packet, with its segment.\<close>

(* @src libraries/networking/src/udt/PacketList.cpp 189-244 PacketList::writeData(unordered) *)
definition PacketList_write_unordered ::
  "byte list \<Rightarrow> 'addr packet \<Rightarrow> 'addr packet_list \<Rightarrow> (bool \<times> 'addr packet_list) option" where
  "PacketList_write_unordered data current l =
     (let sizeRemaining = int (length data); start = pl_segmentStartIndex l in
      do { newPacket \<leftarrow> PacketList_createPacketWithExtendedHeader l;
           let segmentSize = wrap32 (int (bp_pos current) - start);
           if start \<ge> 0 \<and> segmentSize + sizeRemaining > bp_payloadCapacity newPacket then
             Some (False, l\<lparr>pl_currentPacket :=
               Some (BasePacket_setPayloadSize start (QIODevice_seek start current))\<rparr>)
           else do {
             (newPacket1, current1, l1) \<leftarrow>
               (if start \<ge> 0 then
                  do { bs \<leftarrow> mem_read (bp_packet current) (bp_payloadStart current + nat start) (nat segmentSize);
                       (_, np) \<leftarrow> QIODevice_write bs newPacket;
                       Some (np, BasePacket_setPayloadSize start current,
                             l\<lparr>pl_segmentStartIndex := int (length (pl_extendedHeader l))\<rparr>) }
                else Some (newPacket, current, l));
             if sizeRemaining > bp_payloadCapacity newPacket1 then
               Some (False, l1\<lparr>pl_currentPacket := Some current1\<rparr>)
             else do {
               (_, newPacket2) \<leftarrow> QIODevice_write data newPacket1;
               Some (True, l1\<lparr>pl_packets := pl_packets l1 @ [current1],
                              pl_currentPacket := Some newPacket2\<rparr>) } } })"

text \<open>The loop. The flag says whether the data was accepted; the error code is given by the caller.\<close>

(* @src libraries/networking/src/udt/PacketList.cpp 172-262 PacketList::writeData(loop) *)
partial_function (option) PacketList_writeData_loop ::
  "byte list \<Rightarrow> 'addr packet_list \<Rightarrow> (bool \<times> 'addr packet_list) option" where
  "PacketList_writeData_loop data l =
     (if data = [] then Some (True, l)
      else
        Option.bind (case pl_currentPacket l of Some p \<Rightarrow> Some p
                     | None \<Rightarrow> PacketList_createPacketWithExtendedHeader l)
          (\<lambda>current.
             if int (length data) \<le> BasePacket_bytesAvailableForWrite current then
               Option.bind (QIODevice_write data current)
                 (\<lambda>r. Some (True, l\<lparr>pl_currentPacket := Some (snd r)\<rparr>))
             else if \<not> pl_isOrdered l then
               PacketList_write_unordered data current l
             else
               (let numBytesToEnd = nat (BasePacket_bytesAvailableForWrite current) in
                Option.bind (QIODevice_write (take numBytesToEnd data) current)
                  (\<lambda>r. PacketList_writeData_loop (drop numBytesToEnd data)
                     (l\<lparr>pl_packets := pl_packets l @ [snd r], pl_currentPacket := None\<rparr>)))))"

(* @src libraries/networking/src/udt/PacketList.cpp 171-265 PacketList::writeData *)
definition PacketList_writeData :: "byte list \<Rightarrow> 'addr packet_list \<Rightarrow> (int \<times> 'addr packet_list) option" where
  "PacketList_writeData data l =
     do { (ok, l') \<leftarrow> PacketList_writeData_loop data l;
          Some (if ok then int (length data) else PACKET_LIST_WRITE_ERROR, l') }"

(* @src libraries/networking/src/udt/PacketList.cpp 165-169 PacketList::writeString *)
definition PacketList_writeString :: "byte list \<Rightarrow> 'addr packet_list \<Rightarrow> (int \<times> 'addr packet_list) option" where
  "PacketList_writeString string l =
     do { (_, l1) \<leftarrow> PacketList_writeData (le32 (word_of_nat (length string))) l;
          PacketList_writeData string l1 }"

section \<open>Numbering a message\<close>

(* @src libraries/networking/src/udt/PacketList.cpp 151-156 PacketList::preparePackets(for_each) *)
fun PacketList_prepareMiddle ::
  "32 word \<Rightarrow> 32 word \<Rightarrow> 'addr packet list \<Rightarrow> (32 word \<times> 'addr packet list) option" where
  "PacketList_prepareMiddle messageNumber part [] = Some (part, [])"
| "PacketList_prepareMiddle messageNumber part (p # ps) =
     do { p' \<leftarrow> Packet_writeMessageNumber messageNumber MIDDLE (part + 1) p;
          (part', ps') \<leftarrow> PacketList_prepareMiddle messageNumber (part + 1) ps;
          Some (part', p' # ps') }"

(* @src libraries/networking/src/udt/PacketList.cpp 145-161 PacketList::preparePackets *)
fun PacketList_preparePackets :: "32 word \<Rightarrow> 'addr packet list \<Rightarrow> 'addr packet list option" where
  "PacketList_preparePackets messageNumber [] = None"
| "PacketList_preparePackets messageNumber [p] =
     map_option (\<lambda>p'. [p']) (Packet_writeMessageNumber messageNumber ONLY 0 p)"
| "PacketList_preparePackets messageNumber (p # q # ps) =
     do { (part, middle) \<leftarrow> PacketList_prepareMiddle messageNumber 0 (butlast (q # ps));
          front \<leftarrow> Packet_writeMessageNumber messageNumber FIRST 0 p;
          back \<leftarrow> Packet_writeMessageNumber messageNumber LAST (part + 1) (last (q # ps));
          Some (front # middle @ [back]) }"

text \<open>The list's packets move into the new channel and leave the list empty.\<close>

(* @src libraries/networking/src/udt/PacketQueue.cpp 87-95 PacketQueue::queuePacketList *)
definition PacketQueue_queuePacketList ::
  "'addr packet_list \<Rightarrow> 'addr packet packet_queue \<Rightarrow> ('addr packet_list \<times> 'addr packet packet_queue) option" where
  "PacketQueue_queuePacketList l q =
     do { (ps, q1) \<leftarrow>
            (if pl_isOrdered l then
               (let (n, q') = PacketQueue_getNextMessageNumber q in
                map_option (\<lambda>ps. (ps, q')) (PacketList_preparePackets n (pl_packets l)))
             else Some (pl_packets l, q));
          Some (l\<lparr>pl_packets := []\<rparr>, PacketQueue_queueChannel ps q1) }"

section \<open>Numbered messages\<close>

text \<open>What \<open>writeMessageNumber\<close> leaves of a packet.\<close>

lemma writeMessageNumber_fields:
  assumes "Packet_writeMessageNumber n pos part p = Some p'"
  shows "pkt_isPartOfMessage p' \<and> pkt_messageNumber p' = n \<and> pkt_packetPosition p' = pos
    \<and> pkt_messagePartNumber p' = part \<and> bp_payloadStart p' = bp_payloadStart p \<and> bp_payloadSize p' = bp_payloadSize p
    \<and> (12 \<le> bp_payloadStart p \<longrightarrow> BasePacket_payload p' = BasePacket_payload p)"
proof -
  obtain buf where buf: "p' = p\<lparr>pkt_isPartOfMessage := True, pkt_messageNumber := n,
       pkt_packetPosition := pos, pkt_messagePartNumber := part, bp_packet := buf\<rparr>"
      "drop 12 buf = drop 12 (bp_packet p)"
    using Packet_writeHeader_cases [OF assms [unfolded Packet_writeMessageNumber_def]]
    by (auto simp: Packet_localHeaderSize_def)
  have "drop (bp_payloadStart p) buf = drop (bp_payloadStart p) (bp_packet p)" if "12 \<le> bp_payloadStart p"
    using buf(2) that by (metis drop_drop le_add_diff_inverse2)
  then show ?thesis
    by (simp add: buf(1) BasePacket_payload_def)
qed

lemma writeMessageNumber_Some:
  "12 \<le> length (bp_packet p) \<Longrightarrow> \<exists>p'. Packet_writeMessageNumber n pos part p = Some p'"
  unfolding Packet_writeMessageNumber_def
  by (rule Packet_writeHeader_Some) (simp add: Packet_localHeaderSize_def)

lemma prepareMiddle_laws:
  assumes "PacketList_prepareMiddle n part ps = Some (part', ps')"
  shows "length ps' = length ps \<and> part' = part + of_nat (length ps)
    \<and> (\<forall>i < length ps. pkt_isPartOfMessage (ps' ! i) \<and> pkt_messageNumber (ps' ! i) = n
        \<and> pkt_packetPosition (ps' ! i) = MIDDLE \<and> pkt_messagePartNumber (ps' ! i) = part + 1 + of_nat i)
    \<and> ((\<forall>p \<in> set ps. 12 \<le> bp_payloadStart p) \<longrightarrow> map BasePacket_payload ps' = map BasePacket_payload ps)"
  using assms
proof (induction n part ps arbitrary: part' ps' rule: PacketList_prepareMiddle.induct)
  case (2 n part p ps)
  obtain p1 ps1 where p1: "Packet_writeMessageNumber n MIDDLE (part + 1) p = Some p1"
    and rec: "PacketList_prepareMiddle n (part + 1) ps = Some (part', ps1)" and ps': "ps' = p1 # ps1"
    using "2.prems" by (auto split: bind_splits)
  note ih = "2.IH" [OF p1 rec]
  note f = writeMessageNumber_fields [OF p1]
  show ?case
    using ih f by (auto simp: ps' nth_Cons' algebra_simps)
qed auto

lemma preparePackets_laws:
  assumes prep: "PacketList_preparePackets n ps = Some ps'"
  shows "length ps' = length ps \<and> ps \<noteq> []
    \<and> (\<forall>i < length ps. pkt_isPartOfMessage (ps' ! i) \<and> pkt_messageNumber (ps' ! i) = n
        \<and> pkt_messagePartNumber (ps' ! i) = of_nat i
        \<and> pkt_packetPosition (ps' ! i) = (if length ps = 1 then ONLY else if i = 0 then FIRST
            else if i = length ps - 1 then LAST else MIDDLE))
    \<and> ((\<forall>p \<in> set ps. 12 \<le> bp_payloadStart p) \<longrightarrow> map BasePacket_payload ps' = map BasePacket_payload ps)"
proof -
  consider (1) "ps = []" | (2) p where "ps = [p]" | (3) p q rest where "ps = p # q # rest"
    by (metis list.exhaust)
  then show ?thesis
  proof cases
  case 1
  with prep show ?thesis by simp
next
  case (2 p)
  then obtain p' where "Packet_writeMessageNumber n ONLY 0 p = Some p'" "ps' = [p']"
    using prep by auto
  with 2 writeMessageNumber_fields show ?thesis by fastforce
next
  case (3 p q rest)
  let ?qs = "q # rest"
  obtain part middle head tail where
    m: "PacketList_prepareMiddle n 0 (butlast ?qs) = Some (part, middle)"
    and f: "Packet_writeMessageNumber n FIRST 0 p = Some head"
    and b: "Packet_writeMessageNumber n LAST (part + 1) (last ?qs) = Some tail"
    and ps': "ps' = head # middle @ [tail]"
    using prep unfolding 3 by (auto split: bind_splits simp del: butlast.simps last.simps)
  note M = prepareMiddle_laws [OF m] and F = writeMessageNumber_fields [OF f] and B = writeMessageNumber_fields [OF b]
  have len: "length (butlast ?qs) = length rest" by simp
  have "map BasePacket_payload ps' = map BasePacket_payload ps" if "\<forall>p \<in> set ps. 12 \<le> bp_payloadStart p"
  proof -
    have "last ?qs \<in> set ps" and "set (butlast ?qs) \<subseteq> set ps"
      using in_set_butlastD [of _ rest] by (auto simp: 3)
    then have "map BasePacket_payload ps' = map BasePacket_payload (p # butlast ?qs @ [last ?qs])"
      using M F B that 3 by (auto simp: ps')
    moreover have "butlast ?qs @ [last ?qs] = ?qs"
      by (rule append_butlast_last_id) simp
    ultimately show ?thesis
      by (simp only: 3)
  qed
  moreover have "pkt_messagePartNumber (ps' ! i) = of_nat i \<and> pkt_isPartOfMessage (ps' ! i)
      \<and> pkt_messageNumber (ps' ! i) = n
      \<and> pkt_packetPosition (ps' ! i) = (if i = 0 then FIRST else if i = Suc (length rest) then LAST else MIDDLE)"
    if lt: "i < Suc (Suc (length rest))" for i
  proof -
    consider "i = 0" | "i \<noteq> 0" "i - 1 < length rest" | "i = Suc (length rest)"
      using lt by linarith
    then show ?thesis
      using M F B len by cases (auto simp: ps' nth_append nth_Cons')
  qed
  ultimately show ?thesis
    using M by (simp add: 3 ps')
  qed
qed

section \<open>Writing an ordered message\<close>

text \<open>A packet that is being filled: it is written at the end of what it holds.\<close>

definition filling :: "('addr, 'm) packet_scheme \<Rightarrow> bool" where
  "filling p \<longleftrightarrow> bp_inv p \<and> QIODevice_isWritable p \<and> bp_payloadSize p = int (bp_pos p)"

lemma bp_payload_length: "bp_inv p \<Longrightarrow> length (BasePacket_payload p) = nat (bp_payloadSize p)"
  by (auto simp: bp_inv_def BasePacket_payload_def)

lemma filling_write:
  assumes f: "filling p" and fits: "int (length data) \<le> BasePacket_bytesAvailableForWrite p"
  shows "\<exists>n p'. QIODevice_write data p = Some (n, p') \<and> filling p'
    \<and> BasePacket_payload p' = BasePacket_payload p @ data
    \<and> bp_payloadCapacity p' = bp_payloadCapacity p \<and> bp_payloadStart p' = bp_payloadStart p"
proof -
  have inv: "bp_inv p" and w: "QIODevice_isWritable p" and pos: "bp_payloadSize p = int (bp_pos p)"
    using f by (simp_all add: filling_def)
  obtain buf p' where buf: "mem_write (bp_packet p) (bp_payloadStart p + bp_pos p) data = Some buf"
    and p': "p' = p\<lparr>bp_packet := buf, bp_payloadSize := max (int (bp_pos p) + int (length data)) (bp_payloadSize p),
           bp_pos := bp_pos p + length data\<rparr>"
    and wr: "QIODevice_write data p = Some (int (length data), p')" and inv': "bp_inv p'"
    by (rule QIODevice_write_fits [OF inv w fits])
  have b: "buf = take (bp_payloadStart p + bp_pos p) (bp_packet p) @ data
      @ drop (bp_payloadStart p + bp_pos p + length data) (bp_packet p)"
    and l: "bp_payloadStart p + bp_pos p + length data \<le> length (bp_packet p)"
    using buf by (auto simp: mem_write_def split: if_splits)
  have size: "bp_payloadSize p' = int (bp_pos p + length data)"
    using pos by (simp add: p')
  have "BasePacket_payload p' = take (bp_pos p + length data) (drop (bp_payloadStart p) buf)"
    by (simp only: BasePacket_payload_def size nat_int) (simp add: p')
  also have "\<dots> = BasePacket_payload p @ data"
    using take_drop_overwrite [of "bp_payloadStart p" "bp_pos p" data "bp_packet p"] l
    by (simp add: b BasePacket_payload_def pos)
  finally have "BasePacket_payload p' = BasePacket_payload p @ data" .
  moreover have "filling p'"
    using inv' w size by (simp add: filling_def p' QIODevice_isWritable_def)
  ultimately show ?thesis
    using wr by (simp add: p')
qed

definition ordered_ok :: "'addr packet_list \<Rightarrow> bool" where
  "ordered_ok l \<longleftrightarrow> pl_isOrdered l \<and> pl_extendedHeader l = []
     \<and> (\<forall>p. pl_currentPacket l = Some p \<longrightarrow> filling p \<and> 12 \<le> bp_payloadStart p)
     \<and> (\<forall>p \<in> set (pl_packets l). 12 \<le> bp_payloadStart p)"

text \<open>What has been written so far, the packet being filled included.\<close>

definition written :: "'addr packet_list \<Rightarrow> byte list" where
  "written l = PacketList_getMessage l
     @ (case pl_currentPacket l of Some p \<Rightarrow> BasePacket_payload p | None \<Rightarrow> [])"

lemma new_message_packet:
  assumes "pl_extendedHeader l = []" and "pl_isOrdered l"
  shows "\<exists>p. PacketList_createPacketWithExtendedHeader l = Some p \<and> filling p \<and> BasePacket_payload p = []
    \<and> 12 \<le> bp_payloadStart p \<and> 0 < BasePacket_bytesAvailableForWrite p"
proof -
  obtain p :: "'a packet" where p: "Packet_create (-1) (pl_isReliable l) True = Some p" "pkt_inv p"
      "bp_payloadCapacity p = 1412" "bp_payloadSize p = 0" "bp_pos p = 0" "pkt_isPartOfMessage p"
      "QIODevice_isWritable p"
    using Packet_new_shape [of "-1" MAX_PACKET_SIZE True "pl_isReliable l"]
    by (auto simp: MAX_PACKET_SIZE_value Packet_localHeaderSize_def)
  have "filling p" and "12 \<le> bp_payloadStart p"
    using p by (simp_all add: filling_def pkt_inv_def Packet_localHeaderSize_def)
  then show ?thesis
    using p assms
    by (simp add: PacketList_createPacketWithExtendedHeader_def PacketList_createPacket_def
        BasePacket_payload_def BasePacket_sizes)
qed

lemma writeData_loop_ordered:
  assumes "ordered_ok l"
  shows "\<exists>l'. PacketList_writeData_loop data l = Some (True, l') \<and> ordered_ok l' \<and> written l' = written l @ data"
  using assms
proof (induction "2 * length data + (if pl_currentPacket l = None then 0 else 1)"
    arbitrary: data l rule: less_induct)
  case less
  note S = PacketList_writeData_loop.simps [of data l]
  show ?case
  proof (cases "data = []")
    case True
    then show ?thesis
      using less.prems by (simp add: PacketList_writeData_loop.simps [of "[]"])
  next
    case ne: False
    have ok: "pl_isOrdered l" "pl_extendedHeader l = []" "\<forall>p \<in> set (pl_packets l). 12 \<le> bp_payloadStart p"
      using less.prems by (simp_all add: ordered_ok_def)
    obtain cur where cur: "(case pl_currentPacket l of Some p \<Rightarrow> Some p
        | None \<Rightarrow> PacketList_createPacketWithExtendedHeader l) = Some cur"
      and f: "filling cur" "12 \<le> bp_payloadStart cur"
      and old: "written l = PacketList_getMessage l @ BasePacket_payload cur"
      and room: "pl_currentPacket l = None \<longrightarrow> 0 < BasePacket_bytesAvailableForWrite cur"
    proof (cases "pl_currentPacket l")
      case None
      then show thesis
        using new_message_packet [OF ok(2,1)] that by (auto simp: written_def)
    next
      case (Some p)
      then show thesis
        using less.prems that by (auto simp: written_def ordered_ok_def)
    qed
    let ?n = "nat (BasePacket_bytesAvailableForWrite cur)"
    have n0: "0 \<le> BasePacket_bytesAvailableForWrite cur"
      using f(1) by (auto simp: filling_def bp_inv_def BasePacket_sizes)
    show ?thesis
    proof (cases "int (length data) \<le> BasePacket_bytesAvailableForWrite cur")
      case True
      obtain k p' where w: "QIODevice_write data cur = Some (k, p')" "filling p'"
          "BasePacket_payload p' = BasePacket_payload cur @ data" "bp_payloadStart p' = bp_payloadStart cur"
        using filling_write [OF f(1) True] by blast
      let ?l = "l\<lparr>pl_currentPacket := Some p'\<rparr>"
      have "PacketList_writeData_loop data l = Some (True, ?l)"
        using ne cur True w(1) by (simp add: S)
      moreover have "ordered_ok ?l"
        using ok w f(2) by (simp add: ordered_ok_def)
      moreover have "written ?l = written l @ data"
        using old w(3) by (simp add: written_def PacketList_getMessage_def)
      ultimately show ?thesis by blast
    next
      case False
      have take_n: "int (length (take ?n data)) \<le> BasePacket_bytesAvailableForWrite cur"
        using n0 by simp
      obtain k p' where w: "QIODevice_write (take ?n data) cur = Some (k, p')" "filling p'"
          "BasePacket_payload p' = BasePacket_payload cur @ take ?n data" "bp_payloadStart p' = bp_payloadStart cur"
        using filling_write [OF f(1) take_n] by blast
      let ?l = "l\<lparr>pl_packets := pl_packets l @ [p'], pl_currentPacket := None\<rparr>"
      have step: "PacketList_writeData_loop data l = PacketList_writeData_loop (drop ?n data) ?l"
        using ne cur False w(1) ok(1) by (simp add: S)
      have ok': "ordered_ok ?l"
        using ok w f(2) by (simp add: ordered_ok_def)
      have "2 * length (drop ?n data) + (if pl_currentPacket ?l = None then 0 else 1)
          < 2 * length data + (if pl_currentPacket l = None then 0 else 1)"
        using ne room n0 by (cases "pl_currentPacket l = None") (auto simp: nat_less_iff)
      from less.hyps [OF this ok'] obtain l' where
        "PacketList_writeData_loop (drop ?n data) ?l = Some (True, l')" "ordered_ok l'"
        "written l' = written ?l @ drop ?n data"
        by blast
      moreover have "written ?l @ drop ?n data = written l @ data"
        using old w(3) by (simp add: written_def PacketList_getMessage_def)
      ultimately show ?thesis
        using step by auto
    qed
  qed
qed

section \<open>Properties\<close>

text \<open>
  Numbering a message: \<open>preparePackets\<close> gives every packet of a list the message's number,
  part numbers 0, 1, 2 ... in order, and the positions FIRST, MIDDLE ..., LAST (ONLY for a single
  packet), without touching the payloads.
\<close>

theorem PacketList_preparePackets_numbers_parts:
  assumes "PacketList_preparePackets n ps = Some ps'" and "\<forall>p \<in> set ps. 12 \<le> bp_payloadStart p"
  shows "length ps' = length ps \<and> map BasePacket_payload ps' = map BasePacket_payload ps
    \<and> (\<forall>i < length ps. pkt_messageNumber (ps' ! i) = n \<and> pkt_isPartOfMessage (ps' ! i)
        \<and> pkt_messagePartNumber (ps' ! i) = of_nat i
        \<and> pkt_packetPosition (ps' ! i) = (if length ps = 1 then ONLY else if i = 0 then FIRST
            else if i = length ps - 1 then LAST else MIDDLE))"
  using preparePackets_laws [OF assms(1)] assms(2) by simp

theorem PacketList_preparePackets_numbers_parts_witness:
  "\<exists>p ps'. Packet_create 20 True True = Some (p :: nat packet)
    \<and> PacketList_preparePackets 5 [p, p, p] = Some ps' \<and> pkt_packetPosition (ps' ! 1) = MIDDLE
    \<and> pkt_messagePartNumber (ps' ! 2) = 2"
proof -
  obtain p :: "nat packet" where p: "Packet_create 20 True True = Some p" "pkt_inv p" "pkt_isPartOfMessage p"
    using Packet_new_shape [of 20 24 True True] by (auto simp: Packet_localHeaderSize_def)
  have start: "12 \<le> bp_payloadStart p" and "12 \<le> length (bp_packet p)"
    using p(2,3) pkt_inv_data [OF p(2)] by (auto simp: pkt_inv_def Packet_localHeaderSize_def)
  then obtain p1 p2 p3 where "Packet_writeMessageNumber 5 FIRST 0 p = Some p1"
      "Packet_writeMessageNumber 5 MIDDLE 1 p = Some p2" "Packet_writeMessageNumber 5 LAST 2 p = Some p3"
    using writeMessageNumber_Some [of p] by metis
  then have "\<exists>ps'. PacketList_preparePackets 5 [p, p, p] = Some ps'"
    by simp
  then obtain ps' where "PacketList_preparePackets 5 [p, p, p] = Some ps'" by blast
  with PacketList_preparePackets_numbers_parts [OF this] p(1) start show ?thesis
    by auto
qed

text \<open>
  Writing to an ordered list terminates, accepts all the data, and the message grows by exactly
  that data, however it falls across packets (for a list without an extended header).
\<close>

theorem PacketList_ordered_write_appends:
  assumes "ordered_ok l"
  shows "\<exists>l'. PacketList_writeData data l = Some (int (length data), l') \<and> ordered_ok l'
    \<and> written l' = written l @ data"
  using writeData_loop_ordered [OF assms, of data] by (auto simp: PacketList_writeData_def)

theorem PacketList_ordered_write_appends_witness:
  "\<exists>l'. PacketList_writeData (replicate 3000 7) (PacketList_create PT_Unknown [] True True :: nat packet_list)
      = Some (3000, l') \<and> written l' = replicate 3000 7"
proof -
  have "ordered_ok (PacketList_create PT_Unknown [] True True :: nat packet_list)"
    by (simp add: ordered_ok_def PacketList_create_def PacketList_new_def)
  from PacketList_ordered_write_appends [OF this, of "replicate 3000 7"] show ?thesis
    by (auto simp: written_def PacketList_create_def PacketList_new_def PacketList_getMessage_def)
qed

lemma new_plain_packet:
  assumes "\<not> pl_isOrdered l" and "pl_extendedHeader l \<noteq> []" and "length (pl_extendedHeader l) \<le> 1420"
  shows "\<exists>p. PacketList_createPacketWithExtendedHeader l = Some p \<and> filling p
    \<and> BasePacket_payload p = pl_extendedHeader l \<and> bp_payloadCapacity p = 1420
    \<and> int (bp_pos p) = int (length (pl_extendedHeader l))"
proof -
  obtain p :: "'a packet" where p: "Packet_create (-1) (pl_isReliable l) False = Some p" "pkt_inv p"
      "bp_payloadCapacity p = 1420" "bp_payloadSize p = 0" "bp_pos p = 0" "QIODevice_isWritable p"
    using Packet_new_shape [of "-1" MAX_PACKET_SIZE False "pl_isReliable l"]
    by (auto simp: MAX_PACKET_SIZE_value Packet_localHeaderSize_def)
  have f: "filling p"
    using p by (simp add: filling_def pkt_inv_def)
  have "int (length (pl_extendedHeader l)) \<le> BasePacket_bytesAvailableForWrite p"
    using p assms(3) by (simp add: BasePacket_sizes)
  from filling_write [OF f this] obtain n p' where
    w: "QIODevice_write (pl_extendedHeader l) p = Some (n, p')" "filling p'"
      "BasePacket_payload p' = BasePacket_payload p @ pl_extendedHeader l" "bp_payloadCapacity p' = bp_payloadCapacity p"
    by blast
  have "BasePacket_payload p' = pl_extendedHeader l"
    using w(3) p(4) by (simp add: BasePacket_payload_def)
  moreover have "int (bp_pos p') = int (length (pl_extendedHeader l))"
  proof -
    have "int (bp_pos p') = bp_payloadSize p'" and "0 \<le> bp_payloadSize p'" and "bp_inv p'"
      using w(2) by (auto simp: filling_def bp_inv_def)
    then show ?thesis
      using bp_payload_length [of p'] calculation by simp
  qed
  ultimately show ?thesis
    using w p(1,3) assms(1,2)
    by (simp add: PacketList_createPacketWithExtendedHeader_def PacketList_createPacket_def)
qed

text \<open>
  An unordered list with an extended header can lose a block silently. The size check compares
  the block with the whole payload capacity of the new packet (1420 bytes) although the extended
  header already occupies its front: a block that fits the capacity but not what is left of it is
  reported as written in full, while neither the packet that is queued nor the new one holds it.
\<close>

theorem PacketList_unordered_drops_block:
  assumes "\<not> pl_isOrdered l" and "pl_currentPacket l = None" and "pl_segmentStartIndex l = -1"
    and h: "pl_extendedHeader l \<noteq> []" "length (pl_extendedHeader l) \<le> 1420"
    and d: "1420 - length (pl_extendedHeader l) < length data" "length data \<le> 1420"
  shows "\<exists>l' p. PacketList_writeData data l = Some (int (length data), l')
    \<and> pl_packets l' = pl_packets l @ [p] \<and> BasePacket_payload p = pl_extendedHeader l
    \<and> pl_currentPacket l' = Some p"
proof -
  obtain p where p: "PacketList_createPacketWithExtendedHeader l = Some p" "filling p"
      "BasePacket_payload p = pl_extendedHeader l" "bp_payloadCapacity p = 1420"
      "int (bp_pos p) = int (length (pl_extendedHeader l))"
    using new_plain_packet [OF assms(1) h] by blast
  have small: "BasePacket_bytesAvailableForWrite p < int (length data)"
    using p d h by (simp add: BasePacket_sizes)
  have w: "QIODevice_write data p = Some (-1, p)"
    using p(2) small by (intro QIODevice_write_fails) (auto simp: filling_def)
  let ?l = "l\<lparr>pl_packets := pl_packets l @ [p], pl_currentPacket := Some p\<rparr>"
  have "PacketList_write_unordered data p l = Some (True, ?l)"
    using p assms d w by (simp add: PacketList_write_unordered_def Let_def)
  then have "PacketList_writeData_loop data l = Some (True, ?l)"
    using assms p(1) small d by (subst PacketList_writeData_loop.simps) auto
  then show ?thesis
    using p(3) by (simp add: PacketList_writeData_def)
qed

theorem PacketList_unordered_drops_block_witness:
  "\<exists>l' p. PacketList_writeData (replicate 1420 1) (PacketList_create PT_Unknown [9] True False :: nat packet_list)
      = Some (1420, l') \<and> pl_currentPacket l' = Some p \<and> BasePacket_payload p = [9]"
  using PacketList_unordered_drops_block
    [of "PacketList_create PT_Unknown [9] True False :: nat packet_list" "replicate 1420 1"]
  by (auto simp: PacketList_create_def PacketList_new_def)

end
