(* ===== verification/Udt_Loss.thy ===== *)
theory Udt_Loss
  imports Udt_Sequence
begin

text \<open>
  The loss list of \<open>udt/LossList.h\<close> and \<open>LossList.cpp\<close>: the sequence numbers a peer is still
  waiting for, kept as a list of closed ranges with a running count. The receiving
  \<open>Connection\<close> and the sending \<open>SendQueue\<close> use it as a set of numbers; the locale
  \<open>loss_set\<close> states that contract and the theory interprets it on the code's operations.

  The asserts of the code (\<open>Q_ASSERT_X\<close>, absent from release builds) are not part of the model;
  they appear as premises of the laws.
\<close>

section \<open>State and operations\<close>

(* @src libraries/networking/src/udt/LossList.h 47-48 LossList *)
record loss_list =
  ll_list :: "(seqnum \<times> seqnum) list"
  ll_length :: int

(* @src libraries/networking/src/udt/LossList.h 25-25 LossList::LossList *)
definition LossList_new :: loss_list where
  "LossList_new = \<lparr>ll_list = [], ll_length = 0\<rparr>"

(* @src libraries/networking/src/udt/LossList.h 27-27 LossList::clear *)
definition LossList_clear :: "loss_list \<Rightarrow> loss_list" where
  "LossList_clear l = l\<lparr>ll_length := 0, ll_list := []\<rparr>"

(* @src libraries/networking/src/udt/LossList.h 39-39 LossList::getLength *)
definition LossList_getLength :: "loss_list \<Rightarrow> int" where
  "LossList_getLength l = ll_length l"

(* @src libraries/networking/src/udt/LossList.h 40-40 LossList::isEmpty *)
definition LossList_isEmpty :: "loss_list \<Rightarrow> bool" where
  "LossList_isEmpty l \<longleftrightarrow> ll_length l = 0"

(* @src libraries/networking/src/udt/LossList.cpp 19-29 LossList::append(SequenceNumber) *)
definition LossList_append :: "loss_list \<Rightarrow> seqnum \<Rightarrow> loss_list" where
  "LossList_append l seq =
     (let xs = ll_list l in
      l\<lparr>ll_list :=
          (if LossList_getLength l > 0 \<and> SequenceNumber_plus (snd (last xs)) 1 = seq
           then butlast xs @ [(fst (last xs), SequenceNumber_inc (snd (last xs)))]
           else xs @ [(seq, seq)]),
        ll_length := ll_length l + 1\<rparr>)"

(* @src libraries/networking/src/udt/LossList.cpp 31-44 LossList::append(SequenceNumber,SequenceNumber) *)
definition LossList_append_range :: "loss_list \<Rightarrow> seqnum \<Rightarrow> seqnum \<Rightarrow> loss_list" where
  "LossList_append_range l start end' =
     (let xs = ll_list l in
      l\<lparr>ll_list :=
          (if LossList_getLength l > 0 \<and> SequenceNumber_plus (snd (last xs)) 1 = start
           then butlast xs @ [(fst (last xs), end')]
           else xs @ [(start, end')]),
        ll_length := ll_length l + seqlen start end'\<rparr>)"

text \<open>The \<open>while\<close> loop of \<open>insert\<close>: swallow the ranges that touch the current one.\<close>

(* @src libraries/networking/src/udt/LossList.cpp 71-84 LossList::insert(while) *)
fun LossList_insert_merge ::
  "seqnum \<times> seqnum \<Rightarrow> (seqnum \<times> seqnum) list \<Rightarrow> int
    \<Rightarrow> (seqnum \<times> seqnum) \<times> (seqnum \<times> seqnum) list \<times> int" where
  "LossList_insert_merge it [] len = (it, [], len)"
| "LossList_insert_merge (f, s) ((f2, s2) # rest) len =
     (if SequenceNumber_ge s (SequenceNumber_minus f2 1) then
        (let (s', len') =
           (if SequenceNumber_lt s s2
            then (s2, len + seqlen (SequenceNumber_plus s 1) s2) else (s, len))
         in LossList_insert_merge (f, s') rest (len' - seqlen f2 s2))
      else ((f, s), (f2, s2) # rest, len))"

(* @src libraries/networking/src/udt/LossList.cpp 46-86 LossList::insert *)
definition LossList_insert :: "loss_list \<Rightarrow> seqnum \<Rightarrow> seqnum \<Rightarrow> loss_list" where
  "LossList_insert l start end' =
     (let pre = takeWhile (\<lambda>p. SequenceNumber_lt (snd p) start) (ll_list l);
          rest = dropWhile (\<lambda>p. SequenceNumber_lt (snd p) start) (ll_list l);
          len = ll_length l
      in case rest of
           [] \<Rightarrow> l\<lparr>ll_list := pre @ [(start, end')], ll_length := len + seqlen start end'\<rparr>
         | (f, s) # rest' \<Rightarrow>
             (if SequenceNumber_lt end' f then
                l\<lparr>ll_list := pre @ (start, end') # rest, ll_length := len + seqlen start end'\<rparr>
              else
                (let (f1, len1) =
                   (if SequenceNumber_lt start f
                    then (start, len + seqlen start (SequenceNumber_minus f 1)) else (f, len));
                     (s1, len2) =
                   (if SequenceNumber_gt end' s
                    then (end', len1 + seqlen (SequenceNumber_plus s 1) end') else (s, len1));
                     (it, rest2, len3) = LossList_insert_merge (f1, s1) rest' len2
                 in l\<lparr>ll_list := pre @ it # rest2, ll_length := len3\<rparr>)))"

(* @src libraries/networking/src/udt/LossList.cpp 88-113 LossList::remove(SequenceNumber) *)
definition LossList_remove :: "loss_list \<Rightarrow> seqnum \<Rightarrow> bool \<times> loss_list" where
  "LossList_remove l seq =
     (let miss = (\<lambda>p. \<not> (SequenceNumber_le (fst p) seq \<and> SequenceNumber_le seq (snd p)));
          pre = takeWhile miss (ll_list l)
      in case dropWhile miss (ll_list l) of
           [] \<Rightarrow> (False, l)
         | (f, s) # rest \<Rightarrow>
             (True, l\<lparr>ll_list :=
                 (if f = s then pre @ rest
                  else if seq = f then pre @ (SequenceNumber_inc f, s) # rest
                  else if seq = s then pre @ (f, SequenceNumber_dec s) # rest
                  else pre @ (f, SequenceNumber_minus seq 1) # (SequenceNumber_plus seq 1, s) # rest),
               ll_length := ll_length l - 1\<rparr>))"

text \<open>The \<open>while\<close> loop of the range \<open>remove\<close>: the ranges passed, the ranges left, the count.\<close>

(* @src libraries/networking/src/udt/LossList.cpp 126-140 LossList::remove(while) *)
fun LossList_remove_loop ::
  "seqnum \<Rightarrow> seqnum \<Rightarrow> (seqnum \<times> seqnum) list \<Rightarrow> int
    \<Rightarrow> (seqnum \<times> seqnum) list \<times> (seqnum \<times> seqnum) list \<times> int" where
  "LossList_remove_loop start end' [] len = ([], [], len)"
| "LossList_remove_loop start end' ((f, s) # rest) len =
     (if SequenceNumber_ge end' s then
        (if SequenceNumber_le start f then
           LossList_remove_loop start end' rest (len - seqlen f s)
         else
           (let (passed, left, len') =
              LossList_remove_loop start end' rest (len - seqlen start s)
            in ((f, SequenceNumber_minus start 1) # passed, left, len')))
      else ([], (f, s) # rest, len))"

text \<open>What is done with the range the loop stopped at.\<close>

(* @src libraries/networking/src/udt/LossList.cpp 142-155 LossList::remove(tail) *)
fun LossList_remove_tail ::
  "seqnum \<Rightarrow> seqnum \<Rightarrow> (seqnum \<times> seqnum) list \<Rightarrow> int \<Rightarrow> (seqnum \<times> seqnum) list \<times> int" where
  "LossList_remove_tail start end' [] len = ([], len)"
| "LossList_remove_tail start end' ((f, s) # left) len =
     (if SequenceNumber_le f end' then
        (if SequenceNumber_le start f then
           ((SequenceNumber_plus end' 1, s) # left, len - seqlen f end')
         else
           ((f, SequenceNumber_minus start 1) # (SequenceNumber_plus end' 1, s) # left,
            len - seqlen start end'))
      else ((f, s) # left, len))"

(* @src libraries/networking/src/udt/LossList.cpp 115-157 LossList::remove(SequenceNumber,SequenceNumber) *)
definition LossList_remove_range :: "loss_list \<Rightarrow> seqnum \<Rightarrow> seqnum \<Rightarrow> loss_list" where
  "LossList_remove_range l start end' =
     (let miss = (\<lambda>p. \<not> ((SequenceNumber_le (fst p) start \<and> SequenceNumber_le start (snd p))
                      \<or> (SequenceNumber_le start (fst p) \<and> SequenceNumber_le (fst p) end')));
          pre = takeWhile miss (ll_list l);
          rest = dropWhile miss (ll_list l)
      in if rest = [] then l
         else
           (let (passed, left, len) = LossList_remove_loop start end' rest (ll_length l);
                (left', len') = LossList_remove_tail start end' left len
            in l\<lparr>ll_list := pre @ passed @ left', ll_length := len'\<rparr>))"

(* @src libraries/networking/src/udt/LossList.cpp 159-162 LossList::getFirstSequenceNumber *)
definition LossList_getFirstSequenceNumber :: "loss_list \<Rightarrow> seqnum" where
  "LossList_getFirstSequenceNumber l = fst (hd (ll_list l))"

(* @src libraries/networking/src/udt/LossList.cpp 164-168 LossList::popFirstSequenceNumber *)
definition LossList_popFirstSequenceNumber :: "loss_list \<Rightarrow> seqnum \<times> loss_list" where
  "LossList_popFirstSequenceNumber l =
     (let front = LossList_getFirstSequenceNumber l in (front, snd (LossList_remove l front)))"

section \<open>Range lists as sets\<close>

definition iv_set :: "(int \<times> int) list \<Rightarrow> int set" where
  "iv_set xs = (\<Union>p \<in> set xs. {fst p..snd p})"

definition iv_len :: "(int \<times> int) list \<Rightarrow> int" where
  "iv_len xs = (\<Sum>p \<leftarrow> xs. snd p - fst p + 1)"

fun iv_ok :: "int \<Rightarrow> int \<Rightarrow> (int \<times> int) list \<Rightarrow> bool" where
  "iv_ok lo hi [] = True"
| "iv_ok lo hi ((a, b) # xs) = (lo \<le> a \<and> a \<le> b \<and> b \<le> hi \<and> iv_ok (b + 1) hi xs)"

lemma iv_set_simps [simp]:
  "iv_set [] = {}" "iv_set (p # xs) = {fst p..snd p} \<union> iv_set xs"
  "iv_set (xs @ ys) = iv_set xs \<union> iv_set ys"
  by (auto simp: iv_set_def)

lemma iv_len_simps [simp]:
  "iv_len [] = 0" "iv_len (p # xs) = snd p - fst p + 1 + iv_len xs"
  "iv_len (xs @ ys) = iv_len xs + iv_len ys"
  by (simp_all add: iv_len_def)

lemma iv_ok_lower: "iv_ok lo hi xs \<Longrightarrow> lo' \<le> lo \<Longrightarrow> iv_ok lo' hi xs"
  by (cases xs rule: list.exhaust) (auto split: prod.splits)

lemma iv_ok_upper: "iv_ok lo hi xs \<Longrightarrow> hi \<le> hi' \<Longrightarrow> iv_ok lo hi' xs"
  by (induction lo hi xs rule: iv_ok.induct) auto

lemma iv_ok_set: "iv_ok lo hi xs \<Longrightarrow> x \<in> iv_set xs \<Longrightarrow> lo \<le> x \<and> x \<le> hi"
  by (induction lo hi xs rule: iv_ok.induct) fastforce+

lemma iv_ok_mem:
  "iv_ok lo hi xs \<Longrightarrow> p \<in> set xs \<Longrightarrow> lo \<le> fst p \<and> fst p \<le> snd p \<and> snd p \<le> hi"
  by (induction lo hi xs rule: iv_ok.induct) fastforce+

lemma iv_ok_append:
  "iv_ok lo hi (xs @ (a, b) # ys)
    \<longleftrightarrow> iv_ok lo (a - 1) xs \<and> lo \<le> a \<and> a \<le> b \<and> b \<le> hi \<and> iv_ok (b + 1) hi ys"
proof (induction xs arbitrary: lo)
  case (Cons p xs)
  obtain c d where "p = (c, d)" by (cases p)
  with Cons.IH [of "d + 1"] show ?case by auto
qed simp

lemma iv_ok_snocI:
  assumes "iv_ok lo hi xs" and "\<forall>x \<in> iv_set xs. x < a" and "lo \<le> a" and "a \<le> b" and "b \<le> hi"
  shows "iv_ok lo hi (xs @ [(a, b)])"
  using assms
proof (induction lo hi xs rule: iv_ok.induct)
  case (2 lo hi c d xs)
  have "c \<le> d" and rest: "iv_ok (d + 1) hi xs"
    using "2.prems" by auto
  then have da: "d < a"
    using "2.prems"(2) by simp
  have "iv_ok (d + 1) hi (xs @ [(a, b)])"
    using "2.IH" [OF rest] "2.prems" da by auto
  moreover have "d \<le> hi"
    using da "2.prems"(4,5) by linarith
  ultimately show ?case
    using "2.prems" by simp
qed simp

lemma iv_ok_butlast_last:
  assumes "iv_ok lo hi xs" and "xs \<noteq> []"
  shows "xs = butlast xs @ [last xs] \<and> iv_ok lo (fst (last xs) - 1) (butlast xs)
    \<and> lo \<le> fst (last xs) \<and> fst (last xs) \<le> snd (last xs) \<and> snd (last xs) \<le> hi"
proof -
  have eq: "butlast xs @ [last xs] = xs"
    using assms(2) by simp
  obtain c d where "last xs = (c, d)" by (cases "last xs")
  with assms(1) eq iv_ok_append [of lo hi "butlast xs" c d "[]"] show ?thesis
    by (metis fst_conv snd_conv)
qed

lemma iv_finite [simp]: "finite (iv_set xs)"
  by (simp add: iv_set_def)

lemma iv_card: "iv_ok lo hi xs \<Longrightarrow> iv_len xs = int (card (iv_set xs))"
proof (induction lo hi xs rule: iv_ok.induct)
  case (2 lo hi a b xs)
  have "{a..b} \<inter> iv_set xs = {}"
    using iv_ok_set [of "b + 1" hi xs] "2.prems" by force
  then have "card ({a..b} \<union> iv_set xs) = card {a..b} + card (iv_set xs)"
    by (intro card_Un_disjoint) simp_all
  with 2 show ?case by simp
qed simp

lemma iv_set_empty_iff: "iv_ok lo hi xs \<Longrightarrow> iv_set xs = {} \<longleftrightarrow> xs = []"
  by (cases xs) (auto split: prod.splits)

lemma iv_Min: "iv_ok lo hi ((a, b) # xs) \<Longrightarrow> x \<in> iv_set ((a, b) # xs) \<Longrightarrow> a \<le> x"
  using iv_ok_set [of "b + 1" hi xs x] by fastforce

section \<open>The invariant and the laws\<close>

definition ll_inv :: "int \<times> int \<Rightarrow> loss_list \<Rightarrow> bool" where
  "ll_inv W l \<longleftrightarrow> win_ok W \<and> iv_ok (fst W) (snd W) (ll_list l) \<and> ll_length l = iv_len (ll_list l)"

definition ll_set :: "loss_list \<Rightarrow> seqnum set" where
  "ll_set l = iv_set (ll_list l)"

lemma ll_invD:
  assumes "ll_inv W l"
  shows "win_ok W" and "iv_ok (fst W) (snd W) (ll_list l)" and "ll_length l = iv_len (ll_list l)"
  using assms by (simp_all add: ll_inv_def)

lemma ll_inv_new: "win_ok W \<Longrightarrow> ll_inv W LossList_new"
  by (simp add: ll_inv_def LossList_new_def)

lemma ll_set_new [simp]: "ll_set LossList_new = {}"
  by (simp add: ll_set_def LossList_new_def)

lemma ll_length_card: "ll_inv W l \<Longrightarrow> LossList_getLength l = int (card (ll_set l))"
  using iv_card [OF ll_invD(2)] by (simp add: ll_invD(3) ll_set_def LossList_getLength_def)

lemma ll_length_pos: "ll_inv W l \<Longrightarrow> LossList_getLength l > 0 \<longleftrightarrow> ll_list l \<noteq> []"
proof -
  assume inv: "ll_inv W l"
  have "finite (ll_set l)" by (simp add: ll_set_def)
  then have "LossList_getLength l > 0 \<longleftrightarrow> ll_set l \<noteq> {}"
    using ll_length_card [OF inv] by (simp add: card_gt_0_iff)
  then show ?thesis
    using iv_set_empty_iff [OF ll_invD(2) [OF inv]] by (simp add: ll_set_def)
qed

lemma ll_win:
  assumes "ll_inv W l" and "p \<in> set (ll_list l)"
  shows "win W (fst p)" and "win W (snd p)" and "fst p \<le> snd p"
  using iv_ok_mem [OF ll_invD(2) [OF assms(1)] assms(2)] by (simp_all add: win_def)


lemma ll_invI:
  assumes "ll_inv W l" and "iv_ok (fst W) (snd W) xs" and "n = iv_len xs"
  shows "ll_inv W (l\<lparr>ll_list := xs, ll_length := n\<rparr>)"
  using assms by (simp add: ll_inv_def)

lemma ll_set_update [simp]: "ll_set (l\<lparr>ll_list := xs, ll_length := n\<rparr>) = iv_set xs"
  by (simp add: ll_set_def)

subsection \<open>Appending\<close>

lemma LossList_append_range_laws:
  assumes inv: "ll_inv W l" and s: "win W s" and e: "win W e" and le: "s \<le> e"
    and above: "\<forall>x \<in> ll_set l. x < s"
  shows "ll_inv W (LossList_append_range l s e) \<and> ll_set (LossList_append_range l s e) = ll_set l \<union> {s..e}"
proof -
  note ok = ll_invD(1) [OF inv]
  let ?xs = "ll_list l"
  have len: "ll_length l = iv_len ?xs" and iv: "iv_ok (fst W) (snd W) ?xs"
    using inv by (simp_all add: ll_inv_def)
  have sl: "seqlen s e = e - s + 1"
    using le by (rule win_seqlen)
  show ?thesis
  proof (cases "LossList_getLength l > 0 \<and> SequenceNumber_plus (snd (last ?xs)) 1 = s")
    case True
    then have ne: "?xs \<noteq> []"
      using ll_length_pos [OF inv] by simp
    obtain f d where last: "last ?xs = (f, d)" by (cases "last ?xs")
    have xs: "?xs = butlast ?xs @ [(f, d)]"
      and split: "iv_ok (fst W) (f - 1) (butlast ?xs)" "fst W \<le> f" "f \<le> d" "d \<le> snd W"
      using iv_ok_butlast_last [OF iv ne] unfolding last by simp_all
    have "(f, d) \<in> set ?xs"
      using last_in_set [OF ne] by (simp add: last)
    then have "d \<in> ll_set l"
      using split unfolding ll_set_def iv_set_def by (intro UN_I [of "(f, d)"]) simp_all
    with above have "d < s" by blast
    then have ds: "d + 1 = s"
      using True win_plus [OF ok, of d 1] s by (auto simp: last win_def)
    have eq: "LossList_append_range l s e
        = l\<lparr>ll_list := butlast ?xs @ [(f, e)], ll_length := ll_length l + seqlen s e\<rparr>"
      using True by (simp add: LossList_append_range_def last Let_def)
    have "iv_ok (fst W) (snd W) (butlast ?xs @ [(f, e)])"
      using split e ds le by (simp add: iv_ok_append win_def)
    moreover have "iv_len ?xs = iv_len (butlast ?xs) + (d - f + 1)"
      using arg_cong [OF xs, of iv_len] by simp
    moreover have "iv_set ?xs = iv_set (butlast ?xs) \<union> {f..d}"
      using arg_cong [OF xs, of iv_set] by simp
    moreover have "{f..d} \<union> {s..e} = {f..e}"
      using ds le split by auto
    ultimately show ?thesis
      using ds len ok by (simp add: eq ll_inv_def sl ll_set_def Un_assoc)
  next
    case False
    then have eq: "LossList_append_range l s e
        = l\<lparr>ll_list := ?xs @ [(s, e)], ll_length := ll_length l + seqlen s e\<rparr>"
      by (auto simp: LossList_append_range_def Let_def)
    have "iv_ok (fst W) (snd W) (?xs @ [(s, e)])"
      using iv above s e le by (intro iv_ok_snocI) (auto simp: win_def ll_set_def)
    then show ?thesis
      using len ok by (simp add: eq ll_inv_def sl ll_set_def)
  qed
qed

lemma LossList_append_eq_range:
  assumes inv: "ll_inv W l" and s: "win W s" and above: "\<forall>x \<in> ll_set l. x < s"
  shows "LossList_append l s = LossList_append_range l s s"
proof -
  note ok = ll_invD(1) [OF inv]
  have "SequenceNumber_inc (snd (last (ll_list l))) = s"
    if *: "LossList_getLength l > 0" "SequenceNumber_plus (snd (last (ll_list l))) 1 = s"
  proof -
    have ne: "ll_list l \<noteq> []"
      using *(1) ll_length_pos [OF inv] by simp
    then have "last (ll_list l) \<in> set (ll_list l)" by simp
    then have "win W (snd (last (ll_list l)))"
      by (rule ll_win(2) [OF inv])
    then show ?thesis
      using *(2) SequenceNumber_plus_one [OF win_wf [OF ok]] by simp
  qed
  then show ?thesis
    by (auto simp: LossList_append_def LossList_append_range_def Let_def seqlen_def)
qed

lemma LossList_append_laws:
  assumes "ll_inv W l" and "win W s" and "\<forall>x \<in> ll_set l. x < s"
  shows "ll_inv W (LossList_append l s) \<and> ll_set (LossList_append l s) = insert s (ll_set l)"
  using LossList_append_range_laws [of W l s s] LossList_append_eq_range [of W l s] assms by auto

subsection \<open>Inserting\<close>

lemma LossList_insert_merge_laws:
  assumes ok: "win_ok W"
  shows "\<lbrakk>fst W \<le> f; f \<le> s; s \<le> snd W; iv_ok (f + 1) (snd W) rest;
     LossList_insert_merge (f, s) rest len = (it, rest', len')\<rbrakk>
   \<Longrightarrow> fst it = f \<and> s \<le> snd it \<and> snd it \<le> snd W \<and> iv_ok (snd it + 1) (snd W) rest'
     \<and> {f..snd it} \<union> iv_set rest' = {f..s} \<union> iv_set rest
     \<and> len' - len = snd it - s + iv_len rest' - iv_len rest"
proof (induction rest arbitrary: s len)
  case (Cons p rest)
  obtain f2 s2 where p: "p = (f2, s2)" by (cases p)
  from Cons.prems p have b: "f + 1 \<le> f2" "f2 \<le> s2" "s2 \<le> snd W" "iv_ok (s2 + 1) (snd W) rest"
    by auto
  have minus: "SequenceNumber_minus f2 1 = f2 - 1"
    using b Cons.prems by (intro win_minus [OF ok]) simp
  have w: "win W s" "win W s2" "win W (f2 - 1)"
    using b Cons.prems by (auto simp: win_def)
  have ge: "SequenceNumber_ge s (SequenceNumber_minus f2 1) \<longleftrightarrow> f2 - 1 \<le> s"
    using w by (simp add: minus win_cmp [OF ok])
  have lt: "SequenceNumber_lt s s2 \<longleftrightarrow> s < s2"
    using w by (simp add: win_cmp [OF ok])
  have low: "iv_ok (f + 1) (snd W) rest"
    using b(4) by (rule iv_ok_lower) (use b in simp)
  have sl2: "seqlen f2 s2 = s2 - f2 + 1"
    using b(2) by (rule win_seqlen)
  show ?case
  proof (cases "f2 - 1 \<le> s")
    case touch: True
    show ?thesis
    proof (cases "s < s2")
      case True
      then have "seqlen (SequenceNumber_plus s 1) s2 = s2 - s"
        using b w by (subst win_plus [OF ok]) (auto simp: win_seqlen)
      then have "LossList_insert_merge (f, s2) rest (len + (s2 - s) - (s2 - f2 + 1)) = (it, rest', len')"
        using Cons.prems(5) touch True by (simp add: p ge lt sl2)
      then have ih: "fst it = f \<and> s2 \<le> snd it \<and> snd it \<le> snd W \<and> iv_ok (snd it + 1) (snd W) rest'
          \<and> {f..snd it} \<union> iv_set rest' = {f..s2} \<union> iv_set rest
          \<and> len' - (len + (s2 - s) - (s2 - f2 + 1)) = snd it - s2 + iv_len rest' - iv_len rest"
        using Cons.prems b low by (intro Cons.IH) auto
      have "{f..s2} = {f..s} \<union> {f2..s2}"
        using b Cons.prems touch True by auto
      with ih True show ?thesis by (simp add: p Un_assoc)
    next
      case False
      then have "LossList_insert_merge (f, s) rest (len - (s2 - f2 + 1)) = (it, rest', len')"
        using Cons.prems(5) touch by (simp add: p ge lt sl2)
      then have ih: "fst it = f \<and> s \<le> snd it \<and> snd it \<le> snd W \<and> iv_ok (snd it + 1) (snd W) rest'
          \<and> {f..snd it} \<union> iv_set rest' = {f..s} \<union> iv_set rest
          \<and> len' - (len - (s2 - f2 + 1)) = snd it - s + iv_len rest' - iv_len rest"
        using Cons.prems b low by (intro Cons.IH) auto
      have "{f..s} = {f..s} \<union> {f2..s2}"
        using b Cons.prems False by auto
      with ih show ?thesis by (simp add: p Un_assoc [symmetric])
    qed
  next
    case False
    then show ?thesis
      using Cons.prems b by (auto simp: p ge)
  qed
qed auto

lemma takeWhile_lt_cong:
  assumes "ll_inv W l" and "win W s"
  shows "takeWhile (\<lambda>p. SequenceNumber_lt (snd p) s) (ll_list l) = takeWhile (\<lambda>p. snd p < s) (ll_list l)"
    and "dropWhile (\<lambda>p. SequenceNumber_lt (snd p) s) (ll_list l) = dropWhile (\<lambda>p. snd p < s) (ll_list l)"
  using assms ll_win [OF assms(1)] win_lt [OF ll_invD(1) [OF assms(1)]]
  by (auto intro: takeWhile_cong dropWhile_cong)

lemma iv_ok_tighten: "iv_ok lo hi xs \<Longrightarrow> \<forall>p \<in> set xs. snd p < a \<Longrightarrow> iv_ok lo (a - 1) xs"
  by (induction lo hi xs rule: iv_ok.induct) auto

lemma LossList_insert_laws:
  assumes inv: "ll_inv W l" and s: "win W s" and e: "win W e" and le: "s \<le> e"
  shows "ll_inv W (LossList_insert l s e) \<and> ll_set (LossList_insert l s e) = ll_set l \<union> {s..e}"
proof -
  note ok = ll_invD(1) [OF inv]
  have len: "ll_length l = iv_len (ll_list l)" and iv: "iv_ok (fst W) (snd W) (ll_list l)"
    using inv by (simp_all add: ll_inv_def)
  let ?pre = "takeWhile (\<lambda>p. snd p < s) (ll_list l)"
  have sw: "fst W \<le> s" "e \<le> snd W"
    using s e by (auto simp: win_def)
  have pre: "iv_ok (fst W) (a - 1) ?pre" if "s \<le> a" "iv_ok (fst W) h ?pre" for a h
    using that iv_ok_tighten [OF that(2), of s] iv_ok_upper [of "fst W" "s - 1" ?pre "a - 1"]
    by (auto dest: set_takeWhileD)
  show ?thesis
  proof (cases "dropWhile (\<lambda>p. snd p < s) (ll_list l)")
    case Nil
    have eq: "LossList_insert l s e = l\<lparr>ll_list := ?pre @ [(s, e)], ll_length := ll_length l + seqlen s e\<rparr>"
      unfolding LossList_insert_def takeWhile_lt_cong [OF inv s] Let_def Nil by simp
    have all: "?pre = ll_list l"
      using dropWhile_Nil_all [OF Nil] by simp
    have "iv_ok (fst W) (s - 1) ?pre"
      using iv pre [of s "snd W"] by (simp add: all)
    then have "iv_ok (fst W) (snd W) (?pre @ [(s, e)])"
      using le sw by (simp add: iv_ok_append)
    then show ?thesis
      using len ok le by (simp add: eq ll_inv_def ll_set_def win_seqlen all)
  next
    case (Cons p rest)
    obtain f t where p: "p = (f, t)" by (cases p)
    note split = dropWhile_Cons_split [OF Cons, unfolded p]
    have ivs: "iv_ok (fst W) (f - 1) ?pre" "fst W \<le> f" "f \<le> t" "t \<le> snd W" "iv_ok (t + 1) (snd W) rest"
      using iv split(1) iv_ok_append [of "fst W" "snd W" ?pre f t rest] by simp_all
    have len': "ll_length l = iv_len ?pre + (t - f + 1) + iv_len rest"
      using len arg_cong [OF split(1), of iv_len] by simp
    have set': "ll_set l = iv_set ?pre \<union> {f..t} \<union> iv_set rest"
      using arg_cong [OF split(1), of iv_set] by (simp add: ll_set_def Un_assoc)
    have tb: "s \<le> t" using split(2) by simp
    have wft: "win W f" "win W t" using ivs by (auto simp: win_def)
    show ?thesis
    proof (cases "e < f")
      case True
      then have eq: "LossList_insert l s e
          = l\<lparr>ll_list := ?pre @ (s, e) # (f, t) # rest, ll_length := ll_length l + seqlen s e\<rparr>"
        unfolding LossList_insert_def takeWhile_lt_cong [OF inv s] Let_def Cons p
        using wft e by (simp add: win_cmp [OF ok])
      have "iv_ok (fst W) (snd W) (?pre @ (s, e) # (f, t) # rest)"
        using pre [of s, OF _ ivs(1)] True sw le ivs by (simp add: iv_ok_append)
      then show ?thesis
        using len' ok le set' by (auto simp: eq ll_inv_def win_seqlen)
    next
      case False
      let ?f = "min s f" and ?t = "max e t"
      let ?len = "ll_length l + (f - ?f) + (?t - t)"
      obtain it rest2 len3 where
        m: "LossList_insert_merge (?f, ?t) rest ?len = (it, rest2, len3)"
        by (metis prod_cases3)
      have lt: "\<not> SequenceNumber_lt e f"
        using False wft e by (simp add: win_cmp [OF ok])
      have l1: "(if SequenceNumber_lt s f then (s, ll_length l + seqlen s (SequenceNumber_minus f 1))
          else (f, ll_length l)) = (?f, ll_length l + (f - ?f))"
        using wft s sw by (auto simp: win_cmp [OF ok] win_minus [OF ok] win_seqlen)
      have l2: "(if SequenceNumber_gt e t then (e, k + seqlen (SequenceNumber_plus t 1) e)
          else (t, k)) = (?t, k + (?t - t))" for k
        using wft e sw by (auto simp: win_cmp [OF ok] win_plus [OF ok] win_seqlen)
      have eq: "LossList_insert l s e = l\<lparr>ll_list := ?pre @ it # rest2, ll_length := len3\<rparr>"
        unfolding LossList_insert_def takeWhile_lt_cong [OF inv s] Cons p
        using lt m by (simp add: l1 l2 Let_def)
      have "iv_ok (?f + 1) (snd W) rest"
        using ivs by (intro iv_ok_lower [OF ivs(5)]) auto
      from LossList_insert_merge_laws [OF ok _ _ _ this m] sw ivs le
      have M: "fst it = ?f" "?t \<le> snd it" "snd it \<le> snd W" "iv_ok (snd it + 1) (snd W) rest2"
          "{?f..snd it} \<union> iv_set rest2 = {?f..?t} \<union> iv_set rest"
          "len3 - ?len = snd it - ?t + iv_len rest2 - iv_len rest"
        by auto
      have it: "it = (?f, snd it)"
        using M(1) by (metis prod.collapse)
      have "iv_ok (fst W) (?f - 1) ?pre"
        using ivs(1) pre [of s, OF _ ivs(1)] by (simp add: min_def)
      then have "iv_ok (fst W) (snd W) (?pre @ it # rest2)"
        using M sw ivs le by (subst it, subst iv_ok_append) auto
      moreover have "len3 = iv_len (?pre @ it # rest2)"
        using M len' by simp
      moreover have "{?f..?t} = {f..t} \<union> {s..e}"
        using tb False le ivs by auto
      ultimately show ?thesis
        using ok M(1,5) set' by (auto simp: eq ll_inv_def)
    qed
  qed
qed

subsection \<open>Removing\<close>

lemma iv_ok_join:
  "iv_ok lo (m - 1) xs \<Longrightarrow> iv_ok m hi ys \<Longrightarrow> lo \<le> m \<Longrightarrow> m - 1 \<le> hi \<Longrightarrow> iv_ok lo hi (xs @ ys)"
proof (induction xs arbitrary: lo)
  case (Cons p xs)
  then show ?case by (cases p) auto
qed (auto intro: iv_ok_lower)

lemma LossList_remove_laws:
  assumes inv: "ll_inv W l" and x: "win W x" and r: "LossList_remove l x = (b, l')"
  shows "ll_inv W l' \<and> (b \<longleftrightarrow> x \<in> ll_set l) \<and> ll_set l' = ll_set l - {x}"
proof -
  note ok = ll_invD(1) [OF inv]
  have len: "ll_length l = iv_len (ll_list l)" and iv: "iv_ok (fst W) (snd W) (ll_list l)"
    using inv by (simp_all add: ll_inv_def)
  let ?miss = "\<lambda>p. \<not> (fst p \<le> x \<and> x \<le> snd p)"
  let ?code = "\<lambda>p. \<not> (SequenceNumber_le (fst p) x \<and> SequenceNumber_le x (snd p))"
  have cong: "takeWhile ?code (ll_list l) = takeWhile ?miss (ll_list l)"
    "dropWhile ?code (ll_list l) = dropWhile ?miss (ll_list l)"
    using ll_win [OF inv] x by (auto simp: win_le [OF ok] intro: takeWhile_cong dropWhile_cong)
  obtain pre where pre: "takeWhile ?miss (ll_list l) = pre" by blast
  show ?thesis
  proof (cases "dropWhile ?miss (ll_list l)")
    case Nil
    then have "x \<notin> ll_set l"
      using dropWhile_Nil_all [OF Nil] by (auto simp: ll_set_def iv_set_def)
    moreover have "(b, l') = (False, l)"
      using r unfolding LossList_remove_def Let_def cong Nil by simp
    ultimately show ?thesis
      using inv by simp
  next
    case (Cons p rest)
    obtain f t where p: "p = (f, t)" by (cases p)
    note split = dropWhile_Cons_split [OF Cons, unfolded p pre]
    have ivs: "iv_ok (fst W) (f - 1) pre" "fst W \<le> f" "f \<le> t" "t \<le> snd W" "iv_ok (t + 1) (snd W) rest"
      using iv split(1) iv_ok_append [of "fst W" "snd W" pre f t rest] by simp_all
    have fx: "f \<le> x" "x \<le> t"
      using split(2) by simp_all
    have set': "ll_set l = iv_set pre \<union> {f..t} \<union> iv_set rest"
      using arg_cong [OF split(1), of iv_set] by (simp add: ll_set_def Un_assoc)
    have len': "ll_length l = iv_len pre + (t - f + 1) + iv_len rest"
      using len arg_cong [OF split(1), of iv_len] by simp
    have out: "x \<notin> iv_set pre" "x \<notin> iv_set rest"
      using iv_ok_set [OF ivs(1)] iv_ok_set [OF ivs(5)] fx by fastforce+
    let ?mid = "if f = t then [] else if x = f then [(SequenceNumber_inc f, t)]
      else if x = t then [(f, SequenceNumber_dec t)]
      else [(f, SequenceNumber_minus x 1), (SequenceNumber_plus x 1, t)]"
    let ?mid' = "if f = t then [] else if x = f then [(f + 1, t)] else if x = t then [(f, t - 1)]
      else [(f, x - 1), (x + 1, t)]"
    have "?mid = ?mid'"
      using fx ivs by (auto simp: win_dec [OF ok] win_minus [OF ok] win_plus [OF ok] win_inc [OF ok] win_def)
    then have eq: "(b, l') = (True, l\<lparr>ll_list := pre @ ?mid' @ rest, ll_length := ll_length l - 1\<rparr>)"
      using r unfolding LossList_remove_def Let_def cong pre Cons p by (simp split: if_splits)
    have up: "iv_ok (fst W) (snd W) (pre @ ?mid' @ rest)"
    proof (cases "f = t")
      case True
      have "iv_ok (fst W) (snd W) (pre @ rest)"
        using ivs True by (intro iv_ok_join [of _ f] iv_ok_lower [OF ivs(5)]) auto
      with True show ?thesis by simp
    next
      case False
      have "iv_ok (fst W) f pre"
        using ivs(1) by (rule iv_ok_upper) simp
      with False show ?thesis
        using ivs fx by (auto simp: iv_ok_append intro: iv_ok_lower)
    qed
    have "iv_set ?mid' = {f..t} - {x}" and "iv_len ?mid' = t - f"
      using fx by auto
    then show ?thesis
      using eq up ok len' set' out fx by (simp add: ll_inv_def Un_Diff Un_assoc)
  qed
qed

lemma LossList_remove_loop_laws:
  assumes ok: "win_ok W" and a: "win W a" and e: "win W e" and ae: "a \<le> e"
  shows "\<lbrakk>fst W \<le> lo; iv_ok lo (snd W) xs; \<forall>p \<in> set xs. a \<le> snd p;
     LossList_remove_loop a e xs len = (passed, left, len');
     LossList_remove_tail a e left len' = (left', len'')\<rbrakk>
   \<Longrightarrow> iv_ok lo (snd W) (passed @ left') \<and> iv_set (passed @ left') = iv_set xs - {a..e}
     \<and> len'' - len = iv_len (passed @ left') - iv_len xs"
proof (induction xs arbitrary: lo len passed left len')
  case (Cons p xs)
  obtain f t where p: "p = (f, t)" by (cases p)
  have b: "lo \<le> f" "f \<le> t" "t \<le> snd W" "iv_ok (t + 1) (snd W) xs" "a \<le> t"
    and all: "\<forall>p \<in> set xs. a \<le> snd p"
    using Cons.prems by (auto simp: p)
  have w: "win W f" "win W t"
    using b Cons.prems(1) by (auto simp: win_def)
  have cmp: "SequenceNumber_ge e t = (t \<le> e)" "SequenceNumber_le a f = (a \<le> f)" "SequenceNumber_le f e = (f \<le> e)"
    using w a e by (auto simp: win_cmp [OF ok])
  have low: "iv_ok f (snd W) xs" "iv_ok lo (snd W) xs"
    using b by (auto intro: iv_ok_lower)
  have above: "y \<in> iv_set xs \<Longrightarrow> t < y" for y
    using iv_ok_set [OF b(4)] by force
  show ?case
  proof (cases "t \<le> e")
    case within: True
    show ?thesis
    proof (cases "a \<le> f")
      case True
      have "LossList_remove_loop a e xs (len - (t - f + 1)) = (passed, left, len')"
        using Cons.prems(4) within True b by (simp add: p cmp win_seqlen)
      from Cons.IH [OF _ low(2) all this Cons.prems(5)] Cons.prems(1)
      have ih: "iv_ok lo (snd W) (passed @ left') \<and> iv_set (passed @ left') = iv_set xs - {a..e}
          \<and> len'' - (len - (t - f + 1)) = iv_len (passed @ left') - iv_len xs"
        by simp
      have "{f..t} \<union> iv_set xs - {a..e} = iv_set xs - {a..e}"
        using within True by auto
      with ih show ?thesis by (simp add: p)
    next
      case False
      then have minus: "SequenceNumber_minus a 1 = a - 1"
        using b Cons.prems(1) by (intro win_minus [OF ok]) simp
      obtain passed1 where rec: "LossList_remove_loop a e xs (len - (t - a + 1)) = (passed1, left, len')"
        and passed: "passed = (f, a - 1) # passed1"
        using Cons.prems(4) within False b by (auto simp: p cmp win_seqlen minus split: prod.splits)
      have "iv_ok a (snd W) xs" and "fst W \<le> a"
        using b a by (auto simp: win_def intro: iv_ok_lower)
      from Cons.IH [OF this(2,1) all rec Cons.prems(5)]
      have ih: "iv_ok a (snd W) (passed1 @ left') \<and> iv_set (passed1 @ left') = iv_set xs - {a..e}
          \<and> len'' - (len - (t - a + 1)) = iv_len (passed1 @ left') - iv_len xs" .
      have "{f..t} - {a..e} = {f..a - 1}"
        using within False b by auto
      with ih b False show ?thesis by (simp add: p passed Un_Diff)
    qed
  next
    case beyond: False
    then have stop: "passed = []" "left = (f, t) # xs" "len' = len"
      using Cons.prems(4) by (auto simp: p cmp)
    have plus: "SequenceNumber_plus e 1 = e + 1"
      using beyond b by (intro win_plus [OF ok]) simp
    have rest: "iv_set xs - {a..e} = iv_set xs"
      using above beyond by fastforce
    show ?thesis
    proof (cases "a \<le> f")
      case True
      then have "{f..t} - {a..e} = (if f \<le> e then {e + 1..t} else {f..t})"
        using beyond by auto
      moreover have "left' = (if f \<le> e then (e + 1, t) # xs else (f, t) # xs)"
        "len'' = (if f \<le> e then len - (e - f + 1) else len)"
        using Cons.prems(5) True by (auto simp: stop cmp plus win_seqlen)
      ultimately show ?thesis
        using b beyond True ae by (simp add: stop p Un_Diff rest)
    next
      case False
      then have minus: "SequenceNumber_minus a 1 = a - 1"
        using b Cons.prems(1) by (intro win_minus [OF ok]) simp
      have "{f..t} - {a..e} = {f..a - 1} \<union> {e + 1..t}"
        using False beyond ae by auto
      moreover have "left' = (f, a - 1) # (e + 1, t) # xs" "len'' = len - (e - a + 1)"
        using Cons.prems(5) False ae by (auto simp: stop cmp plus minus win_seqlen)
      ultimately show ?thesis
        using b beyond False ae by (simp add: stop p Un_Diff rest Un_assoc)
    qed
  qed
qed auto

lemma LossList_remove_range_laws:
  assumes inv: "ll_inv W l" and a: "win W a" and e: "win W e" and ae: "a \<le> e"
  shows "ll_inv W (LossList_remove_range l a e) \<and> ll_set (LossList_remove_range l a e) = ll_set l - {a..e}"
proof -
  note ok = ll_invD(1) [OF inv]
  have len: "ll_length l = iv_len (ll_list l)" and iv: "iv_ok (fst W) (snd W) (ll_list l)"
    using inv by (simp_all add: ll_inv_def)
  let ?miss = "\<lambda>p. \<not> ((fst p \<le> a \<and> a \<le> snd p) \<or> (a \<le> fst p \<and> fst p \<le> e))"
  let ?code = "\<lambda>p. \<not> ((SequenceNumber_le (fst p) a \<and> SequenceNumber_le a (snd p))
    \<or> (SequenceNumber_le a (fst p) \<and> SequenceNumber_le (fst p) e))"
  have cong: "takeWhile ?code (ll_list l) = takeWhile ?miss (ll_list l)"
    "dropWhile ?code (ll_list l) = dropWhile ?miss (ll_list l)"
    using ll_win [OF inv] a e by (auto simp: win_le [OF ok] intro: takeWhile_cong dropWhile_cong)
  obtain pre where pre: "takeWhile ?miss (ll_list l) = pre" by blast
  have miss: "{fst p..snd p} \<inter> {a..e} = {}" if "?miss p" for p
    using that ae by auto
  show ?thesis
  proof (cases "dropWhile ?miss (ll_list l)")
    case Nil
    then have "ll_set l \<inter> {a..e} = {}"
      using dropWhile_Nil_all [OF Nil] miss unfolding ll_set_def iv_set_def by blast
    moreover have "LossList_remove_range l a e = l"
      unfolding LossList_remove_range_def Let_def cong Nil by simp
    ultimately show ?thesis
      using inv by auto
  next
    case (Cons p rest)
    obtain f t where p: "p = (f, t)" by (cases p)
    note split = dropWhile_Cons_split [OF Cons, unfolded p pre]
    have ivs: "iv_ok (fst W) (f - 1) pre" "fst W \<le> f" "f \<le> t" "iv_ok (t + 1) (snd W) rest"
      "iv_ok f (snd W) ((f, t) # rest)"
      using iv split(1) iv_ok_append [of "fst W" "snd W" pre f t rest] by simp_all
    have "a \<le> t" using split(2) ivs(3) by auto
    then have all: "\<forall>p \<in> set ((f, t) # rest). a \<le> snd p"
      using iv_ok_mem [OF ivs(4)] by fastforce
    obtain passed left n where loop: "LossList_remove_loop a e ((f, t) # rest) (ll_length l) = (passed, left, n)"
      by (metis prod_cases3)
    obtain left' n' where tail: "LossList_remove_tail a e left n = (left', n')"
      by (metis surj_pair)
    have eq: "LossList_remove_range l a e = l\<lparr>ll_list := pre @ passed @ left', ll_length := n'\<rparr>"
      unfolding LossList_remove_range_def Let_def cong pre Cons p using loop tail by simp
    note L = LossList_remove_loop_laws [OF ok a e ae ivs(2,5) all loop tail]
    have "iv_set pre - {a..e} = iv_set pre"
      using split(3) miss unfolding iv_set_def by blast
    moreover have "iv_ok (fst W) (snd W) (pre @ passed @ left')"
      using L ivs iv_ok_mem [OF ivs(5), of "(f, t)"] by (intro iv_ok_join [OF ivs(1)]) auto
    moreover have "ll_set l = iv_set pre \<union> iv_set ((f, t) # rest)"
      "ll_length l = iv_len pre + iv_len ((f, t) # rest)"
      using arg_cong [OF split(1), of iv_set] arg_cong [OF split(1), of iv_len] len
      by (simp_all add: ll_set_def)
    ultimately show ?thesis
      using L ok by (simp add: eq ll_inv_def Un_Diff del: iv_set_simps(2))
  qed
qed

subsection \<open>The first number\<close>

lemma LossList_first_laws:
  assumes inv: "ll_inv W l" and ne: "ll_set l \<noteq> {}"
  shows "LossList_getFirstSequenceNumber l = Min (ll_set l)" and "win W (Min (ll_set l))"
proof -
  obtain f t xs where xs: "ll_list l = (f, t) # xs"
    using ne by (cases "ll_list l") (auto simp: ll_set_def)
  have iv: "iv_ok (fst W) (snd W) ((f, t) # xs)"
    using ll_invD(2) [OF inv] by (simp add: xs)
  then have "f \<in> ll_set l" by (simp add: ll_set_def xs)
  moreover have "\<forall>x \<in> ll_set l. f \<le> x"
    using iv_Min [OF iv] by (auto simp: ll_set_def xs)
  ultimately have "Min (ll_set l) = f"
    by (intro Min_eqI) (simp_all add: ll_set_def)
  then show "LossList_getFirstSequenceNumber l = Min (ll_set l)" and "win W (Min (ll_set l))"
    using iv by (simp_all add: LossList_getFirstSequenceNumber_def xs win_def)
qed

lemma LossList_pop_laws:
  assumes "ll_inv W l" and "ll_set l \<noteq> {}" and "LossList_popFirstSequenceNumber l = (x, l')"
  shows "x = Min (ll_set l) \<and> ll_inv W l' \<and> ll_set l' = ll_set l - {x}"
proof -
  have x: "x = Min (ll_set l)" and r: "LossList_remove l x = (fst (LossList_remove l x), l')"
    using assms(3) LossList_first_laws(1) [OF assms(1,2)]
    by (auto simp: LossList_popFirstSequenceNumber_def Let_def)
  have "win W x"
    unfolding x by (rule LossList_first_laws(2) [OF assms(1,2)])
  from LossList_remove_laws [OF assms(1) this r] x show ?thesis by blast
qed

section \<open>The interface the connection and the send queue rely on\<close>

text \<open>
  A store of sequence numbers inside a window: \<open>inv W l\<close> says that \<open>l\<close> is a legal state for the
  window \<open>W\<close>, \<open>elems\<close> reads the set it stands for. The last section of the locale is the
  bookkeeping of a receiver, proved from the contract alone: after every arrival the store holds
  exactly the numbers of \<open>{base + 1..last}\<close> that have not arrived.
\<close>

locale loss_set =
  fixes good :: "'w \<Rightarrow> bool" and inside :: "'w \<Rightarrow> int \<Rightarrow> bool" and inv :: "'w \<Rightarrow> 'l \<Rightarrow> bool"
    and elems :: "'l \<Rightarrow> int set" and len :: "'l \<Rightarrow> int" and emptyp :: "'l \<Rightarrow> bool" and new :: 'l
    and app :: "'l \<Rightarrow> int \<Rightarrow> 'l" and app_range :: "'l \<Rightarrow> int \<Rightarrow> int \<Rightarrow> 'l"
    and ins :: "'l \<Rightarrow> int \<Rightarrow> int \<Rightarrow> 'l" and rem :: "'l \<Rightarrow> int \<Rightarrow> bool \<times> 'l"
    and rem_range :: "'l \<Rightarrow> int \<Rightarrow> int \<Rightarrow> 'l" and first :: "'l \<Rightarrow> int" and pop :: "'l \<Rightarrow> int \<times> 'l"
  assumes inv_new: "good W \<Longrightarrow> inv W new"
    and elems_new: "elems new = {}"
    and len_card: "inv W l \<Longrightarrow> finite (elems l) \<and> len l = int (card (elems l))"
    and empty_iff: "inv W l \<Longrightarrow> emptyp l \<longleftrightarrow> elems l = {}"
    and elems_inside: "inv W l \<Longrightarrow> x \<in> elems l \<Longrightarrow> inside W x"
    and app_law: "\<lbrakk>inv W l; inside W s; \<forall>x \<in> elems l. x < s\<rbrakk>
        \<Longrightarrow> inv W (app l s) \<and> elems (app l s) = insert s (elems l)"
    and app_range_law: "\<lbrakk>inv W l; inside W s; inside W e; s \<le> e; \<forall>x \<in> elems l. x < s\<rbrakk>
        \<Longrightarrow> inv W (app_range l s e) \<and> elems (app_range l s e) = elems l \<union> {s..e}"
    and ins_law: "\<lbrakk>inv W l; inside W s; inside W e; s \<le> e\<rbrakk>
        \<Longrightarrow> inv W (ins l s e) \<and> elems (ins l s e) = elems l \<union> {s..e}"
    and rem_law: "\<lbrakk>inv W l; inside W s; rem l s = (b, l')\<rbrakk>
        \<Longrightarrow> inv W l' \<and> (b \<longleftrightarrow> s \<in> elems l) \<and> elems l' = elems l - {s}"
    and rem_range_law: "\<lbrakk>inv W l; inside W s; inside W e; s \<le> e\<rbrakk>
        \<Longrightarrow> inv W (rem_range l s e) \<and> elems (rem_range l s e) = elems l - {s..e}"
    and first_law: "\<lbrakk>inv W l; elems l \<noteq> {}\<rbrakk> \<Longrightarrow> first l = Min (elems l)"
    and pop_law: "\<lbrakk>inv W l; elems l \<noteq> {}; pop l = (x, l')\<rbrakk>
        \<Longrightarrow> x = Min (elems l) \<and> inv W l' \<and> elems l' = elems l - {x}"
begin

lemma first_in: "inv W l \<Longrightarrow> \<not> emptyp l \<Longrightarrow> first l \<in> elems l \<and> (\<forall>x \<in> elems l. first l \<le> x)"
  using first_law [of W l] empty_iff [of W l] len_card [of W l] by simp

lemma pop_len:
  assumes "inv W l" and "\<not> emptyp l" and "pop l = (x, l')"
  shows "len l' = len l - 1"
proof -
  have ne: "elems l \<noteq> {}" using assms by (simp add: empty_iff)
  have "x \<in> elems l" and l': "inv W l'" "elems l' = elems l - {x}"
    using pop_law [OF assms(1) ne assms(3)] len_card [OF assms(1)] ne by auto
  then have "card (elems l) = Suc (card (elems l'))"
    using card_Suc_Diff1 [of "elems l" x] len_card [OF assms(1)] by simp
  then show ?thesis
    using len_card [OF assms(1)] len_card [OF l'(1)] by simp
qed

text \<open>Arrivals above the highest number seen.\<close>

lemma gap_single:
  assumes "inv W l" and "elems l = {base + 1..recent} - R" and "inside W (recent + 1)" and "base \<le> recent"
    and "\<forall>x \<in> R. x \<le> recent"
  shows "inv W (app l (recent + 1)) \<and> elems (app l (recent + 1)) = {base + 1..recent + 2} - insert (recent + 2) R"
proof -
  have "\<forall>x \<in> elems l. x < recent + 1"
    by (simp add: assms(2))
  then have "inv W (app l (recent + 1)) \<and> elems (app l (recent + 1)) = insert (recent + 1) (elems l)"
    by (intro app_law assms(1,3))
  moreover have "recent + 1 \<notin> R" using assms(5) by force
  moreover have "{base + 1..recent + 2} - insert (recent + 2) R = insert (recent + 1) ({base + 1..recent} - R)"
    if "recent + 1 \<notin> R"
    using that assms(4) by auto
  ultimately show ?thesis
    by (simp add: assms(2))
qed

lemma gap_range:
  assumes "inv W l" and "elems l = {base + 1..recent} - R" and "inside W (recent + 1)" and "inside W (s - 1)"
    and "recent + 1 < s" and "base \<le> recent" and "\<forall>x \<in> R. x \<le> recent"
  shows "inv W (app_range l (recent + 1) (s - 1))
    \<and> elems (app_range l (recent + 1) (s - 1)) = {base + 1..s} - insert s R"
proof -
  have "inv W (app_range l (recent + 1) (s - 1))
      \<and> elems (app_range l (recent + 1) (s - 1)) = elems l \<union> {recent + 1..s - 1}"
    using assms(5) by (intro app_range_law assms(1,3,4)) (simp_all add: assms(2))
  moreover have "{recent + 1..s - 1} \<inter> R = {}" using assms(7) by force
  moreover have "{base + 1..s} - insert s R = {base + 1..recent} - R \<union> {recent + 1..s - 1}"
    if "{recent + 1..s - 1} \<inter> R = {}"
    using that assms(5,6) by auto
  ultimately show ?thesis
    by (simp add: assms(2))
qed

text \<open>An arrival at or below it is a retransmission that fills a hole, or a duplicate.\<close>

lemma fill_hole:
  assumes "inv W l" and "elems l = {base + 1..recent} - R" and "inside W s" and "base < s" and "s \<le> recent"
    and "rem l s = (b, l')"
  shows "inv W l' \<and> (b \<longleftrightarrow> s \<notin> R) \<and> elems l' = {base + 1..recent} - insert s R"
  using rem_law [OF assms(1,3,6)] assms(2,4,5) by auto

text \<open>The number acknowledged is the end of the longest prefix that has arrived.\<close>

lemma cumulative_ack:
  assumes "inv W l" and "elems l = {base + 1..recent} - R" and "base \<le> recent"
    and ack: "a = (if emptyp l then recent else first l - 1)"
  shows "base \<le> a \<and> a \<le> recent \<and> {base + 1..a} \<subseteq> R \<and> (a < recent \<longrightarrow> a + 1 \<notin> R)"
proof (cases "emptyp l")
  case True
  then show ?thesis
    using assms empty_iff [OF assms(1)] by auto
next
  case False
  then have "first l \<in> elems l" and "\<forall>x \<in> elems l. first l \<le> x"
    using first_in [OF assms(1)] by auto
  with False assms(2,3) ack show ?thesis by force
qed

end

interpretation ll: loss_set win_ok win ll_inv ll_set LossList_getLength LossList_isEmpty LossList_new
  LossList_append LossList_append_range LossList_insert LossList_remove LossList_remove_range
  LossList_getFirstSequenceNumber LossList_popFirstSequenceNumber
proof
  fix W l s e b l' x
  show "win_ok W \<Longrightarrow> ll_inv W LossList_new" by (rule ll_inv_new)
  show "ll_set LossList_new = {}" by simp
  show "ll_inv W l \<Longrightarrow> finite (ll_set l) \<and> LossList_getLength l = int (card (ll_set l))"
    by (simp add: ll_length_card) (simp add: ll_set_def)
  show "ll_inv W l \<Longrightarrow> LossList_isEmpty l \<longleftrightarrow> ll_set l = {}"
    using ll_length_card [of W l]
    by (auto simp: LossList_isEmpty_def LossList_getLength_def ll_set_def)
  show "ll_inv W l \<Longrightarrow> x \<in> ll_set l \<Longrightarrow> win W x"
    using iv_ok_set by (auto simp: ll_inv_def ll_set_def win_def)
  show "\<lbrakk>ll_inv W l; win W s; \<forall>x \<in> ll_set l. x < s\<rbrakk>
      \<Longrightarrow> ll_inv W (LossList_append l s) \<and> ll_set (LossList_append l s) = insert s (ll_set l)"
    by (rule LossList_append_laws)
  show "\<lbrakk>ll_inv W l; win W s; win W e; s \<le> e; \<forall>x \<in> ll_set l. x < s\<rbrakk>
      \<Longrightarrow> ll_inv W (LossList_append_range l s e) \<and> ll_set (LossList_append_range l s e) = ll_set l \<union> {s..e}"
    by (rule LossList_append_range_laws)
  show "\<lbrakk>ll_inv W l; win W s; win W e; s \<le> e\<rbrakk>
      \<Longrightarrow> ll_inv W (LossList_insert l s e) \<and> ll_set (LossList_insert l s e) = ll_set l \<union> {s..e}"
    by (rule LossList_insert_laws)
  show "\<lbrakk>ll_inv W l; win W s; LossList_remove l s = (b, l')\<rbrakk>
      \<Longrightarrow> ll_inv W l' \<and> (b \<longleftrightarrow> s \<in> ll_set l) \<and> ll_set l' = ll_set l - {s}"
    by (rule LossList_remove_laws)
  show "\<lbrakk>ll_inv W l; win W s; win W e; s \<le> e\<rbrakk>
      \<Longrightarrow> ll_inv W (LossList_remove_range l s e) \<and> ll_set (LossList_remove_range l s e) = ll_set l - {s..e}"
    by (rule LossList_remove_range_laws)
  show "\<lbrakk>ll_inv W l; ll_set l \<noteq> {}\<rbrakk> \<Longrightarrow> LossList_getFirstSequenceNumber l = Min (ll_set l)"
    by (rule LossList_first_laws)
  show "\<lbrakk>ll_inv W l; ll_set l \<noteq> {}; LossList_popFirstSequenceNumber l = (x, l')\<rbrakk>
      \<Longrightarrow> x = Min (ll_set l) \<and> ll_inv W l' \<and> ll_set l' = ll_set l - {x}"
    by (rule LossList_pop_laws)
qed

section \<open>Properties\<close>

text \<open>
  C20. The loss list is a set of sequence numbers, kept as sorted disjoint ranges with an exact
  count: inserting a range (merging every range it reaches) adds exactly its numbers, removing a
  range (deleting, truncating or splitting ranges) takes exactly its numbers away, and both keep
  the ranges sorted, disjoint and inside the window and the count equal to the number of elements.
\<close>

theorem LossList_ranges_refine_set:
  assumes "ll_inv W l" and "win W s" and "win W e" and "s \<le> e"
  shows "ll_inv W (LossList_insert l s e) \<and> ll_set (LossList_insert l s e) = ll_set l \<union> {s..e}
    \<and> LossList_getLength (LossList_insert l s e) = int (card (ll_set l \<union> {s..e}))
    \<and> ll_inv W (LossList_remove_range l s e) \<and> ll_set (LossList_remove_range l s e) = ll_set l - {s..e}
    \<and> LossList_getLength (LossList_remove_range l s e) = int (card (ll_set l - {s..e}))"
  using ll.ins_law [OF assms] ll.rem_range_law [OF assms] ll.len_card by metis

theorem LossList_ranges_refine_set_witness:
  "ll_set (LossList_insert (LossList_insert LossList_new 5 9) 2 6) = {5..9} \<union> {2..6}"
proof -
  have ok: "ll_inv (0, 100) LossList_new"
    by (simp add: ll_inv_new win_ok_def seq_consts)
  have 1: "ll_inv (0, 100) (LossList_insert LossList_new 5 9)" "ll_set (LossList_insert LossList_new 5 9) = {5..9}"
    using LossList_ranges_refine_set [OF ok, of 5 9] by (simp_all add: win_def)
  show ?thesis
    using LossList_ranges_refine_set [OF 1(1), of 2 6] by (simp add: win_def 1(2))
qed

text \<open>
  Removing one number reports whether it was in the list and takes exactly that number away;
  the first number is the least one, and popping it leaves the others, one fewer.
\<close>

theorem LossList_remove_pop_correct:
  assumes "ll_inv W l" and "win W s"
  shows "(fst (LossList_remove l s) \<longleftrightarrow> s \<in> ll_set l)
    \<and> ll_inv W (snd (LossList_remove l s)) \<and> ll_set (snd (LossList_remove l s)) = ll_set l - {s}
    \<and> (ll_set l \<noteq> {} \<longrightarrow>
        fst (LossList_popFirstSequenceNumber l) = Min (ll_set l)
        \<and> ll_set (snd (LossList_popFirstSequenceNumber l)) = ll_set l - {Min (ll_set l)}
        \<and> LossList_getLength (snd (LossList_popFirstSequenceNumber l)) = LossList_getLength l - 1)"
  using ll.rem_law [OF assms surjective_pairing] ll.pop_law [OF assms(1) _ surjective_pairing]
    ll.pop_len [OF assms(1) _ surjective_pairing] ll.empty_iff [OF assms(1)] by simp

theorem LossList_remove_pop_correct_witness:
  "fst (LossList_remove \<lparr>ll_list = [(2, 4), (7, 7)], ll_length = 4\<rparr> 3)
    \<and> snd (LossList_remove \<lparr>ll_list = [(2, 4), (7, 7)], ll_length = 4\<rparr> 3)
        = \<lparr>ll_list = [(2, 2), (4, 4), (7, 7)], ll_length = 3\<rparr>"
proof -
  have "ll_inv (0, 100) \<lparr>ll_list = [(2, 4), (7, 7)], ll_length = 4\<rparr>"
    by (simp add: ll_inv_def win_ok_def seq_consts)
  from LossList_remove_pop_correct [OF this, of 3] show ?thesis
    by (simp add: win_def ll_set_def LossList_remove_def seq_ops)
qed

end
