(* ===== verification/Udt_Control.thy ===== *)
theory Udt_Control
  imports Udt_Packet Udt_Loss
begin

unbundle bit_operations_syntax

text \<open>
  The control packet of \<open>udt/ControlPacket.h\<close> and \<open>ControlPacket.cpp\<close>: one header word with the
  control bit and the type, over the packet buffer; and the loss list's \<open>write\<close>, which fills a
  control packet with ranges.
\<close>

section \<open>State and operations\<close>

(* @src libraries/networking/src/udt/ControlPacket.h 30-35 ControlPacket::Type *)
datatype control_type = ACK | Handshake | HandshakeACK | HandshakeRequest

(* @src libraries/networking/src/udt/ControlPacket.h 30-35 ControlPacket::Type(value) *)
fun ControlType_value :: "control_type \<Rightarrow> 32 word" where
  "ControlType_value ACK = 0" | "ControlType_value Handshake = 1"
| "ControlType_value HandshakeACK = 2" | "ControlType_value HandshakeRequest = 3"

text \<open>
  The cast from the wire keeps any 16 bit value, so the type a packet carries is that value; it is
  one of the enumerators (\<open>ControlType_of\<close>) or none of them.
\<close>

(* @src libraries/networking/src/udt/ControlPacket.h 62-62 ControlPacket *)
record 'addr control_packet = "'addr base_packet" +
  ctl_type :: "16 word"

definition ControlType_of :: "16 word \<Rightarrow> control_type option" where
  "ControlType_of w = (if w = 0 then Some ACK else if w = 1 then Some Handshake
     else if w = 2 then Some HandshakeACK else if w = 3 then Some HandshakeRequest else None)"

(* @src libraries/networking/src/udt/ControlPacket.cpp 19-21 ControlPacket::localHeaderSize *)
definition ControlPacket_localHeaderSize :: nat where
  "ControlPacket_localHeaderSize = 4"

(* @src libraries/networking/src/udt/ControlPacket.cpp 22-24 ControlPacket::totalHeaderSize *)
definition ControlPacket_totalHeaderSize :: int where
  "ControlPacket_totalHeaderSize = BasePacket_totalHeaderSize + int ControlPacket_localHeaderSize"

(* @src libraries/networking/src/udt/ControlPacket.cpp 25-27 ControlPacket::maxPayloadSize *)
definition ControlPacket_maxPayloadSize :: int where
  "ControlPacket_maxPayloadSize = BasePacket_maxPayloadSize - int ControlPacket_localHeaderSize"

(* @src libraries/networking/src/udt/ControlPacket.cpp 91-96 ControlPacket::writeType *)
definition ControlPacket_writeType :: "('addr, 'm) control_packet_scheme \<Rightarrow> ('addr, 'm) control_packet_scheme option" where
  "ControlPacket_writeType p =
     do { buf \<leftarrow> mem_write (bp_packet p) 0 (le32 (CONTROL_BIT_MASK OR push_bit (8 * 2) (ucast (ctl_type p))));
          Some (p\<lparr>bp_packet := buf\<rparr>) }"

(* @src libraries/networking/src/udt/ControlPacket.cpp 98-109 ControlPacket::readType *)
definition ControlPacket_readType :: "('addr, 'm) control_packet_scheme \<Rightarrow> ('addr, 'm) control_packet_scheme option" where
  "ControlPacket_readType p =
     do { bitAndType \<leftarrow> read32 (bp_packet p) 0;
          Some (p\<lparr>ctl_type := ucast (drop_bit (8 * 2) (bitAndType AND NOT CONTROL_BIT_MASK))\<rparr>) }"

(* @src libraries/networking/src/udt/ControlPacket.cpp 85-89 ControlPacket::setType *)
definition ControlPacket_setType ::
  "control_type \<Rightarrow> ('addr, 'm) control_packet_scheme \<Rightarrow> ('addr, 'm) control_packet_scheme option" where
  "ControlPacket_setType type p = ControlPacket_writeType (p\<lparr>ctl_type := ucast (ControlType_value type)\<rparr>)"

(* @src libraries/networking/src/udt/ControlPacket.cpp 49-58 ControlPacket::ControlPacket(Type,qint64) *)
definition ControlPacket_new :: "control_type \<Rightarrow> int \<Rightarrow> 'addr control_packet option" where
  "ControlPacket_new type n =
     ControlPacket_writeType
       (QIODevice_open ReadWrite
         (BasePacket_adjust ControlPacket_localHeaderSize False
           (base_packet.extend
             (BasePacket_new (if n = -1 then -1 else int ControlPacket_localHeaderSize + n))
             (control_packet.fields (ucast (ControlType_value type))))))"

(* @src libraries/networking/src/udt/ControlPacket.cpp 45-47 ControlPacket::create *)
definition ControlPacket_create :: "control_type \<Rightarrow> int \<Rightarrow> 'addr control_packet option" where
  "ControlPacket_create type n = ControlPacket_new type n"

(* @src libraries/networking/src/udt/ControlPacket.cpp 60-70 ControlPacket::ControlPacket(unique_ptr,qint64,SockAddr) *)
definition ControlPacket_of_data :: "byte list \<Rightarrow> int \<Rightarrow> 'addr \<Rightarrow> 'addr control_packet option" where
  "ControlPacket_of_data data n sender =
     (let b = BasePacket_of_data data n sender in
      ControlPacket_readType
        (BasePacket_adjust ControlPacket_localHeaderSize (bp_payloadSize b > 0)
          (base_packet.extend b (control_packet.fields 0))))"

(* @src libraries/networking/src/udt/ControlPacket.cpp 29-43 ControlPacket::fromReceivedPacket *)
definition ControlPacket_fromReceivedPacket :: "byte list \<Rightarrow> int \<Rightarrow> 'addr \<Rightarrow> 'addr control_packet option" where
  "ControlPacket_fromReceivedPacket data n sender =
     map_option (QIODevice_open ReadOnly) (ControlPacket_of_data data n sender)"

text \<open>The value of a sequence number as it is written: four bytes.\<close>

definition seq_bytes :: "seqnum \<Rightarrow> byte list" where
  "seq_bytes s = le32 (SequenceNumber_to_uint s)"

(* @src libraries/networking/src/udt/LossList.cpp 170-184 LossList::write(loop) *)
fun LossList_write_loop ::
  "(seqnum \<times> seqnum) list \<Rightarrow> int \<Rightarrow> int \<Rightarrow> ('addr, 'm) base_packet_scheme
    \<Rightarrow> ('addr, 'm) base_packet_scheme option" where
  "LossList_write_loop [] maxPairs writtenPairs packet = Some packet"
| "LossList_write_loop (pair # rest) maxPairs writtenPairs packet =
     do { (_, p1) \<leftarrow> QIODevice_write (seq_bytes (fst pair)) packet;
          (_, p2) \<leftarrow> QIODevice_write (seq_bytes (snd pair)) p1;
          let writtenPairs' = writtenPairs + 1;
          if maxPairs \<noteq> -1 \<and> writtenPairs' \<ge> maxPairs then Some p2
          else LossList_write_loop rest maxPairs writtenPairs' p2 }"

(* @src libraries/networking/src/udt/LossList.cpp 170-184 LossList::write *)
definition LossList_write ::
  "loss_list \<Rightarrow> int \<Rightarrow> ('addr, 'm) base_packet_scheme \<Rightarrow> ('addr, 'm) base_packet_scheme option" where
  "LossList_write l maxPairs packet = LossList_write_loop (ll_list l) maxPairs 0 packet"

section \<open>Control packets that carry a sequence number\<close>

text \<open>The datagram, and the packets that are reused to write it.\<close>

definition ctl_word :: "control_type \<Rightarrow> 32 word" where
  "ctl_word t = CONTROL_BIT_MASK OR push_bit 16 (ucast (ucast (ControlType_value t) :: 16 word))"

definition ctl_wire :: "control_type \<Rightarrow> seqnum \<Rightarrow> byte list" where
  "ctl_wire t s = le32 (ctl_word t) @ seq_bytes s"

definition ctl_ok :: "control_type \<Rightarrow> 'addr control_packet \<Rightarrow> bool" where
  "ctl_ok t p \<longleftrightarrow> bp_inv p \<and> QIODevice_isWritable p \<and> bp_payloadStart p = 4 \<and> bp_payloadCapacity p = 4
     \<and> take 4 (bp_packet p) = le32 (ctl_word t)"

lemma length_seq_bytes [simp]: "length (seq_bytes s) = 4"
  by (simp add: seq_bytes_def)

lemma length_ctl_wire [simp]: "length (ctl_wire t s) = 8"
  by (simp add: ctl_wire_def)

lemma ctl_create:
  "\<exists>p :: 'a control_packet. ControlPacket_create t 4 = Some p \<and> ctl_ok t p \<and> bp_payloadSize p = 0 \<and> bp_pos p = 0"
  by (simp add: ControlPacket_create_def ControlPacket_new_def ControlPacket_writeType_def ctl_ok_def ctl_word_def
      BasePacket_new_def QIODevice_open_def BasePacket_adjust_def base_packet.defs control_packet.defs Let_def
      ControlPacket_localHeaderSize_def mem_write_def bp_inv_def QIODevice_isWritable_def)

lemma ctl_write:
  assumes ok: "ctl_ok t p" and z: "bp_payloadSize p = 0" "bp_pos p = 0"
  shows "\<exists>p'. QIODevice_write (seq_bytes s) p = Some (4, p') \<and> ctl_ok t p' \<and> BasePacket_wire p' = Some (ctl_wire t s)"
proof -
  have inv: "bp_inv p" and st: "bp_payloadStart p = 4" and cap: "bp_payloadCapacity p = 4"
    and w: "QIODevice_isWritable p" and hd: "take 4 (bp_packet p) = le32 (ctl_word t)"
    using ok by (auto simp: ctl_ok_def)
  have len: "length (bp_packet p) = 8"
    using inv st cap by (auto simp: bp_inv_def)
  have "int (length (seq_bytes s)) \<le> BasePacket_bytesAvailableForWrite p"
    using cap z by (simp add: BasePacket_sizes)
  then obtain buf p' where buf: "mem_write (bp_packet p) (bp_payloadStart p + bp_pos p) (seq_bytes s) = Some buf"
    and p': "p' = p\<lparr>bp_packet := buf, bp_payloadSize := max (int (bp_pos p) + int (length (seq_bytes s))) (bp_payloadSize p),
           bp_pos := bp_pos p + length (seq_bytes s)\<rparr>"
    and wr: "QIODevice_write (seq_bytes s) p = Some (int (length (seq_bytes s)), p')" and inv': "bp_inv p'"
    using QIODevice_write_fits [OF inv w] by metis
  have b: "buf = le32 (ctl_word t) @ seq_bytes s"
    using buf by (simp add: mem_write_def st z hd len)
  have "ctl_ok t p'"
    using ok inv' by (simp add: ctl_ok_def p' b QIODevice_isWritable_def)
  moreover have "BasePacket_wire p' = Some (ctl_wire t s)"
    using z by (simp add: BasePacket_wire_def mem_read_def p' b st ctl_wire_def BasePacket_sizes)
  ultimately show ?thesis
    using wr by simp
qed

lemma ctl_reset_write:
  assumes "ctl_ok t p"
  shows "\<exists>p'. QIODevice_write (seq_bytes s) (BasePacket_reset p) = Some (4, p') \<and> ctl_ok t p'
    \<and> BasePacket_wire p' = Some (ctl_wire t s)"
proof (rule ctl_write)
  have w: "bp_mode p = ReadWrite"
    using assms by (simp add: ctl_ok_def QIODevice_isWritable_def)
  show "ctl_ok t (BasePacket_reset p)"
    using assms bp_inv_reset [of p] w
    by (simp add: ctl_ok_def BasePacket_reset_def QIODevice_seek_def QIODevice_isWritable_def)
  show "bp_payloadSize (BasePacket_reset p) = 0" "bp_pos (BasePacket_reset p) = 0"
    using w by (simp_all add: BasePacket_reset_def QIODevice_seek_def QIODevice_isWritable_def)
qed

text \<open>
  \<open>readPrimitive(&seq)\<close> copies at most four bytes over a fresh sequence number, whose value is then
  whatever the peer sent, as a signed integer.
\<close>

(* @src libraries/networking/src/ExtendedIODevice.h 30-32 ExtendedIODevice::readPrimitive(SequenceNumber) *)
definition readSequenceNumber :: "'addr control_packet \<Rightarrow> (seqnum \<times> 'addr control_packet) option" where
  "readSequenceNumber p =
     do { (bs, p') \<leftarrow> QIODevice_read 4 p;
          Some (sint (un_le32 (bs @ replicate (4 - length bs) 0)), p') }"

lemma sint_to_uint: "seq_wf s \<Longrightarrow> sint (SequenceNumber_to_uint s) = s"
  by (simp add: seq_wf_def seq_consts SequenceNumber_to_uint_def signed_of_int signed_take_bit_int_eq_self)

text \<open>What a peer makes of such a datagram.\<close>

lemma ctl_parse:
  assumes "seq_wf s"
  shows "\<exists>q q'. ControlPacket_fromReceivedPacket (ctl_wire t s) 8 a = Some q
    \<and> ControlType_of (ctl_type q) = Some t \<and> readSequenceNumber q = Some (s, q')
    \<and> bp_receiveTime q' = bp_receiveTime q"
proof -
  have r: "read32 (ctl_wire t s) 0 = Some (ctl_word t)"
    by (simp add: read32_def mem_read_def ctl_wire_def)
  have t: "ControlType_of (ucast (drop_bit 16 (ctl_word t AND NOT CONTROL_BIT_MASK))) = Some t"
    by (cases t) (simp_all add: ctl_word_def Constants_static_asserts push_bit_eq_mult drop_bit_eq_div ControlType_of_def)
  have d: "take 4 (drop 4 (ctl_wire t s)) = seq_bytes s"
    by (simp add: ctl_wire_def)
  show ?thesis
    using t sint_to_uint [OF assms]
    by (simp add: ControlPacket_fromReceivedPacket_def ControlPacket_of_data_def ControlPacket_readType_def r Let_def
        BasePacket_adjust_def BasePacket_of_data_def base_packet.defs control_packet.defs QIODevice_open_def
        ControlPacket_localHeaderSize_def readSequenceNumber_def QIODevice_read_def BasePacket_readData_def
        BasePacket_sizes mem_read_def d seq_bytes_def)
qed

section \<open>Properties\<close>


text \<open>
  The type of a control packet survives the wire, and its first word has the control bit, by
  which the receiving socket tells it from a data packet.
\<close>

theorem ControlPacket_type_roundtrip:
  assumes "int (length data) = n" and "4 \<le> n"
    and "ControlPacket_setType type (base_packet.extend (BasePacket_of_data data n a) (control_packet.fields t0)) = Some p"
  shows "\<exists>q w. ControlPacket_fromReceivedPacket (bp_packet p) n b = Some q
    \<and> ControlType_of (ctl_type q) = Some type
    \<and> read32 (bp_packet p) 0 = Some w \<and> (w AND CONTROL_BIT_MASK) \<noteq> 0
    \<and> BasePacket_payload q = drop 4 data"
proof -
  let ?w = "CONTROL_BIT_MASK OR push_bit 16 (ucast (ucast (ControlType_value type) :: 16 word)) :: 32 word"
  obtain buf where buf: "mem_write data 0 (le32 ?w) = Some buf" "bp_packet p = buf"
    using assms(3)
    by (auto simp: ControlPacket_setType_def ControlPacket_writeType_def base_packet.defs
        control_packet.defs BasePacket_of_data_def split: bind_splits)
  have r: "read32 buf 0 = Some ?w"
    using mem_read_write_same [OF buf(1), of 4] by (simp add: read32_def)
  have len: "length buf = length data" and rest: "drop 4 buf = drop 4 data"
    using mem_write_length [OF buf(1)] mem_write_drop [OF buf(1), of 4] by simp_all
  have t: "ControlType_of (ucast (drop_bit 16 (?w AND NOT CONTROL_BIT_MASK))) = Some type"
    by (cases type) (simp_all add: Constants_static_asserts push_bit_eq_mult drop_bit_eq_div ControlType_of_def)
  have c: "(?w AND CONTROL_BIT_MASK) \<noteq> 0"
    by (cases type) (simp_all add: Constants_static_asserts push_bit_eq_mult)
  show ?thesis
    using r t c len rest assms(1,2)
    by (simp add: ControlPacket_fromReceivedPacket_def ControlPacket_of_data_def ControlPacket_readType_def
        buf(2) Let_def BasePacket_adjust_def BasePacket_of_data_def base_packet.defs control_packet.defs
        QIODevice_open_def BasePacket_payload_def ControlPacket_localHeaderSize_def nat_diff_distrib)
qed

theorem ControlPacket_type_roundtrip_witness:
  "\<exists>p q. ControlPacket_setType HandshakeACK
      (base_packet.extend (BasePacket_of_data [0, 0, 0, 0, 9] 5 (0 :: nat)) (control_packet.fields 0)) = Some p
    \<and> ControlPacket_fromReceivedPacket (bp_packet p) 5 (0 :: nat) = Some q \<and> BasePacket_payload q = [9]"
proof -
  let ?p = "base_packet.extend (BasePacket_of_data [0, 0, 0, 0, 9] 5 (0 :: nat)) (control_packet.fields 0)"
  have "\<exists>p. ControlPacket_setType HandshakeACK ?p = Some p"
    by (simp add: ControlPacket_setType_def ControlPacket_writeType_def base_packet.defs
        control_packet.defs BasePacket_of_data_def mem_write_def)
  then obtain p where "ControlPacket_setType HandshakeACK ?p = Some p" by blast
  with ControlPacket_type_roundtrip [of "[0, 0, 0, 0, 9]" 5 HandshakeACK 0 0 p 0] show ?thesis
    by auto
qed

end
