(* ===== verification/Udt_Send_Queue.thy ===== *)
theory Udt_Send_Queue
  imports Udt_Packet_List Udt_Control
begin

text \<open>
  The sending side of a connection, \<open>udt/SendQueue.h\<close> and \<open>SendQueue.cpp\<close>: the packets waiting to be
  sent, the packets sent and not yet acknowledged, the numbers to send again, the handshake, and the
  steps of the sending thread.

  The queue runs on a thread of its own; its shared members are guarded by locks and atomics, and
  every method is modelled as one atomic step on the state. What leaves the object is a list of
  \<open>sq_event\<close>s: datagrams handed to the socket and the signals emitted. What the environment decides is
  an argument: the current time, the number of bytes the socket wrote, and, for the two waits of
  \<open>isInactive\<close>, whether the wait timed out; the state may have changed during a wait, so the code
  before and after it are two steps. The atomics hold a sequence number as a \<open>uint32_t\<close>, from which
  \<open>SequenceNumber_of_to_uint\<close> recovers it.
\<close>

section \<open>State\<close>

(* @src libraries/networking/src/udt/SendQueue.h 48-52 SendQueue::State *)
datatype sq_state = NotStarted | Running | Stopped

(* @src libraries/networking/src/udt/SendQueue.h 113-143 SendQueue *)
record 'addr send_queue =
  sq_packets :: "'addr packet packet_queue"
  sq_destination :: 'addr
  sq_lastACKSequenceNumber :: seqnum
  sq_currentSequenceNumber :: seqnum
  sq_atomicCurrentSequenceNumber :: seqnum
  sq_packetSendPeriod :: int
  sq_state :: sq_state
  sq_estimatedTimeout :: int
  sq_flowWindowSize :: int
  sq_naks :: loss_list
  sq_sentPackets :: "seqnum \<rightharpoonup> 8 word \<times> 'addr packet"
  sq_hasReceivedHandshakeACK :: bool
  sq_lastPacketSentAt :: int

(* @src libraries/networking/src/udt/SendQueue.h 81-87 SendQueue(signals) *)
datatype 'addr sq_event =
  Datagram "byte list" 'addr
| PacketSent int int seqnum int
| PacketRetransmitted int int seqnum int
| QueueInactive
| TimeoutSignal

(* @src libraries/networking/src/udt/SendQueue.cpp 66-66 SendQueue::MAXIMUM_ESTIMATED_TIMEOUT *)
definition MAXIMUM_ESTIMATED_TIMEOUT :: int where
  "MAXIMUM_ESTIMATED_TIMEOUT = 5000000"

(* @src libraries/networking/src/udt/SendQueue.cpp 67-67 SendQueue::MINIMUM_ESTIMATED_TIMEOUT *)
definition MINIMUM_ESTIMATED_TIMEOUT :: int where
  "MINIMUM_ESTIMATED_TIMEOUT = 10000"

(* @src libraries/networking/src/udt/SendQueue.cpp 95-107 SendQueue::SendQueue *)
definition SendQueue_new :: "'addr \<Rightarrow> seqnum \<Rightarrow> 32 word \<Rightarrow> bool \<Rightarrow> 'addr send_queue" where
  "SendQueue_new dest currentSequenceNumber currentMessageNumber hasReceivedHandshakeACK =
     \<lparr>sq_packets = PacketQueue_new currentMessageNumber, sq_destination = dest,
      sq_lastACKSequenceNumber = currentSequenceNumber,
      sq_currentSequenceNumber = currentSequenceNumber,
      sq_atomicCurrentSequenceNumber = currentSequenceNumber,
      sq_packetSendPeriod = 0, sq_state = NotStarted, sq_estimatedTimeout = 0, sq_flowWindowSize = 0,
      sq_naks = LossList_new, sq_sentPackets = Map.empty,
      sq_hasReceivedHandshakeACK = hasReceivedHandshakeACK, sq_lastPacketSentAt = 0\<rparr>"

section \<open>Requests from other threads\<close>

(* @src libraries/networking/src/udt/SendQueue.cpp 112-121 SendQueue::queuePacket *)
definition SendQueue_queuePacket :: "'addr packet \<Rightarrow> 'addr send_queue \<Rightarrow> 'addr send_queue" where
  "SendQueue_queuePacket packet q = q\<lparr>sq_packets := PacketQueue_queuePacket packet (sq_packets q)\<rparr>"

(* @src libraries/networking/src/udt/SendQueue.cpp 123-132 SendQueue::queuePacketList *)
definition SendQueue_queuePacketList ::
  "'addr packet_list \<Rightarrow> 'addr send_queue \<Rightarrow> ('addr packet_list \<times> 'addr send_queue) option" where
  "SendQueue_queuePacketList l q =
     map_option (\<lambda>(l', ps). (l', q\<lparr>sq_packets := ps\<rparr>)) (PacketQueue_queuePacketList l (sq_packets q))"

(* @src libraries/networking/src/udt/SendQueue.cpp 134-141 SendQueue::stop *)
definition SendQueue_stop :: "'addr send_queue \<Rightarrow> 'addr send_queue" where
  "SendQueue_stop q = q\<lparr>sq_state := Stopped\<rparr>"

text \<open>The loop over the acknowledged numbers.\<close>

(* @src libraries/networking/src/udt/SendQueue.cpp 156-158 SendQueue::ack(for) *)
partial_function (option) SendQueue_ack_erase ::
  "seqnum \<Rightarrow> seqnum \<Rightarrow> (seqnum \<rightharpoonup> 'p) \<Rightarrow> (seqnum \<rightharpoonup> 'p) option" where
  "SendQueue_ack_erase seq ack sent =
     (if SequenceNumber_le seq ack
      then SendQueue_ack_erase (SequenceNumber_inc seq) ack (sent(seq := None))
      else Some sent)"

(* @src libraries/networking/src/udt/SendQueue.cpp 148-173 SendQueue::ack *)
definition SendQueue_ack :: "seqnum \<Rightarrow> 'addr send_queue \<Rightarrow> 'addr send_queue option" where
  "SendQueue_ack ack q =
     (if sq_lastACKSequenceNumber q = ack then Some q
      else do {
        sent \<leftarrow> SendQueue_ack_erase (sq_lastACKSequenceNumber q) ack (sq_sentPackets q);
        let naks = sq_naks q;
        let naks' = (if \<not> LossList_isEmpty naks
                        \<and> SequenceNumber_le (LossList_getFirstSequenceNumber naks) ack
                     then LossList_remove_range naks (LossList_getFirstSequenceNumber naks) ack
                     else naks);
        Some (q\<lparr>sq_sentPackets := sent, sq_naks := naks', sq_lastACKSequenceNumber := ack\<rparr>) })"

(* @src libraries/networking/src/udt/SendQueue.cpp 175-183 SendQueue::fastRetransmit *)
definition SendQueue_fastRetransmit :: "seqnum \<Rightarrow> 'addr send_queue \<Rightarrow> 'addr send_queue" where
  "SendQueue_fastRetransmit ack q = q\<lparr>sq_naks := LossList_insert (sq_naks q) ack ack\<rparr>"

(* @src libraries/networking/src/udt/SendQueue.cpp 202-210 SendQueue::handshakeACK *)
definition SendQueue_handshakeACK :: "'addr send_queue \<Rightarrow> 'addr send_queue" where
  "SendQueue_handshakeACK q = q\<lparr>sq_hasReceivedHandshakeACK := True\<rparr>"

(* @src libraries/networking/src/udt/SendQueue.cpp 565-567 SendQueue::updateDestinationAddress *)
definition SendQueue_updateDestinationAddress :: "'addr \<Rightarrow> 'addr send_queue \<Rightarrow> 'addr send_queue" where
  "SendQueue_updateDestinationAddress newAddress q = q\<lparr>sq_destination := newAddress\<rparr>"

(* @src libraries/networking/src/udt/SendQueue.h 66-66 SendQueue::setFlowWindowSize *)
definition SendQueue_setFlowWindowSize :: "int \<Rightarrow> 'addr send_queue \<Rightarrow> 'addr send_queue" where
  "SendQueue_setFlowWindowSize n q = q\<lparr>sq_flowWindowSize := n\<rparr>"

(* @src libraries/networking/src/udt/SendQueue.h 69-69 SendQueue::setPacketSendPeriod *)
definition SendQueue_setPacketSendPeriod :: "int \<Rightarrow> 'addr send_queue \<Rightarrow> 'addr send_queue" where
  "SendQueue_setPacketSendPeriod n q = q\<lparr>sq_packetSendPeriod := n\<rparr>"

(* @src libraries/networking/src/udt/SendQueue.h 71-71 SendQueue::setEstimatedTimeout *)
definition SendQueue_setEstimatedTimeout :: "int \<Rightarrow> 'addr send_queue \<Rightarrow> 'addr send_queue" where
  "SendQueue_setEstimatedTimeout n q = q\<lparr>sq_estimatedTimeout := n\<rparr>"

(* @src libraries/networking/src/udt/SendQueue.h 63-63 SendQueue::getCurrentSequenceNumber *)
definition SendQueue_getCurrentSequenceNumber :: "'addr send_queue \<Rightarrow> seqnum" where
  "SendQueue_getCurrentSequenceNumber q = sq_atomicCurrentSequenceNumber q"

(* @src libraries/networking/src/udt/SendQueue.h 64-64 SendQueue::getCurrentMessageNumber *)
definition SendQueue_getCurrentMessageNumber :: "'addr send_queue \<Rightarrow> 32 word" where
  "SendQueue_getCurrentMessageNumber q = pq_currentMessageNumber (sq_packets q)"

section \<open>The sending thread\<close>

text \<open>The control packet \<open>sendHandshake\<close> builds, as a datagram.\<close>

(* @src libraries/networking/src/udt/SendQueue.cpp 185-200 SendQueue::sendHandshake *)
definition SendQueue_sendHandshake :: "'addr send_queue \<Rightarrow> 'addr sq_event list option" where
  "SendQueue_sendHandshake q =
     (if \<not> sq_hasReceivedHandshakeACK q then
        do { let initialSequenceNumber = SequenceNumber_plus (sq_currentSequenceNumber q) 1;
             p0 \<leftarrow> (ControlPacket_create Handshake 4 :: 'addr control_packet option);
             (_, p1) \<leftarrow> QIODevice_write (seq_bytes initialSequenceNumber) p0;
             wire \<leftarrow> BasePacket_wire p1;
             Some [Datagram wire (sq_destination q)] }
      else Some [])"

(* @src libraries/networking/src/udt/SendQueue.cpp 212-215 SendQueue::getNextSequenceNumber *)
definition SendQueue_getNextSequenceNumber :: "'addr send_queue \<Rightarrow> seqnum \<times> 'addr send_queue" where
  "SendQueue_getNextSequenceNumber q =
     (let n = SequenceNumber_inc (sq_currentSequenceNumber q)
      in (n, q\<lparr>sq_currentSequenceNumber := n, sq_atomicCurrentSequenceNumber := n\<rparr>))"

(* @src libraries/networking/src/udt/SendQueue.cpp 561-563 SendQueue::isFlowWindowFull *)
definition SendQueue_isFlowWindowFull :: "'addr send_queue \<Rightarrow> bool" where
  "SendQueue_isFlowWindowFull q \<longleftrightarrow>
     seqlen (sq_lastACKSequenceNumber q) (sq_currentSequenceNumber q) > sq_flowWindowSize q"

(* @src libraries/networking/src/udt/SendQueue.cpp 143-146 SendQueue::sendPacket *)
definition SendQueue_sendPacket ::
  "int \<Rightarrow> 'addr packet \<Rightarrow> 'addr send_queue \<Rightarrow> ('addr send_queue \<times> 'addr sq_event list) option" where
  "SendQueue_sendPacket now packet q =
     do { wire \<leftarrow> BasePacket_wire packet;
          Some (q\<lparr>sq_lastPacketSentAt := now\<rparr>, [Datagram wire (sq_destination q)]) }"

(* @src libraries/networking/src/udt/SendQueue.cpp 217-251 SendQueue::sendNewPacketAndAddToSentList *)
definition SendQueue_sendNewPacketAndAddToSentList ::
  "int \<Rightarrow> int \<Rightarrow> 'addr packet \<Rightarrow> seqnum \<Rightarrow> 'addr send_queue
    \<Rightarrow> (bool \<times> 'addr send_queue \<times> 'addr sq_event list) option" where
  "SendQueue_sendNewPacketAndAddToSentList now bytesWritten newPacket sequenceNumber q =
     do { p \<leftarrow> Packet_writeSequenceNumber sequenceNumber newPacket;
          let packetSize = BasePacket_getWireSize p;
          let payloadSize = bp_payloadSize p;
          (q1, out) \<leftarrow> SendQueue_sendPacket now p q;
          let q2 = q1\<lparr>sq_sentPackets := (sq_sentPackets q1)(pkt_sequenceNumber p \<mapsto> (0, p))\<rparr>;
          let out' = out @ [PacketSent packetSize payloadSize sequenceNumber now];
          Some (if bytesWritten < 0
                then (False, q2\<lparr>sq_naks := LossList_append (sq_naks q2) sequenceNumber\<rparr>, out')
                else (True, q2, out')) }"

(* @src libraries/networking/src/udt/SendQueue.cpp 362-384 SendQueue::maybeSendNewPacket *)
definition SendQueue_maybeSendNewPacket ::
  "int \<Rightarrow> int \<Rightarrow> 'addr send_queue \<Rightarrow> (int \<times> 'addr send_queue \<times> 'addr sq_event list) option" where
  "SendQueue_maybeSendNewPacket now bytesWritten q =
     (if \<not> SendQueue_isFlowWindowFull q \<and> \<not> PacketQueue_isEmpty (sq_packets q) then
        do { let (nextNumber, q1) = SendQueue_getNextSequenceNumber q;
             (taken, ps) \<leftarrow> PacketQueue_takePacket (sq_packets q1);
             packet \<leftarrow> taken;
             (_, q2, out) \<leftarrow> SendQueue_sendNewPacketAndAddToSentList now bytesWritten packet nextNumber
                (q1\<lparr>sq_packets := ps\<rparr>);
             Some (1, q2, out) }
      else Some (0, q, []))"

text \<open>The obfuscation level of a packet that has been resent \<open>n\<close> times (an 8 bit counter).\<close>

(* @src libraries/networking/src/udt/SendQueue.cpp 411-411 SendQueue::maybeResendPacket(level) *)
definition SendQueue_resendLevel :: "8 word \<Rightarrow> obfuscation_level" where
  "SendQueue_resendLevel n =
     ObfuscationLevel_of (if n < 2 then 0 else word_of_nat ((unat n - 2) mod 4))"

text \<open>The body of the loop once a sent packet has been found: it is counted, maybe obfuscated, and sent.\<close>

(* @src libraries/networking/src/udt/SendQueue.cpp 406-454 SendQueue::maybeResendPacket(send) *)
definition SendQueue_resend ::
  "int \<Rightarrow> seqnum \<Rightarrow> 8 word \<times> 'addr packet \<Rightarrow> 'addr send_queue
    \<Rightarrow> ('addr send_queue \<times> 'addr sq_event list) option" where
  "SendQueue_resend now resendNumber entry q =
     (let resends = fst entry + 1;
          resendPacket = snd entry;
          q1 = q\<lparr>sq_sentPackets := (sq_sentPackets q)(resendNumber \<mapsto> (resends, resendPacket))\<rparr>;
          level = SendQueue_resendLevel resends;
          wireSize = BasePacket_getWireSize resendPacket;
          payloadSize = bp_payloadSize resendPacket
      in do {
        packet \<leftarrow> (if level \<noteq> NoObfuscation
                   then do { copy \<leftarrow> Packet_createCopy resendPacket; Packet_obfuscate level copy }
                   else Some resendPacket);
        (q2, out) \<leftarrow> SendQueue_sendPacket now packet q1;
        Some (q2, out @ [PacketRetransmitted wireSize payloadSize resendNumber now]) })"

(* @src libraries/networking/src/udt/SendQueue.cpp 386-468 SendQueue::maybeResendPacket *)
partial_function (option) SendQueue_maybeResendPacket ::
  "int \<Rightarrow> 'addr send_queue \<Rightarrow> (bool \<times> 'addr send_queue \<times> 'addr sq_event list) option" where
  "SendQueue_maybeResendPacket now q =
     (if LossList_isEmpty (sq_naks q) then Some (False, q, [])
      else
        (let popped = LossList_popFirstSequenceNumber (sq_naks q);
             resendNumber = fst popped;
             q1 = q\<lparr>sq_naks := snd popped\<rparr>
         in case sq_sentPackets q1 resendNumber of
              Some entry \<Rightarrow>
                Option.bind (SendQueue_resend now resendNumber entry q1)
                  (\<lambda>r. Some (True, fst r, snd r))
            | None \<Rightarrow> SendQueue_maybeResendPacket now q1))"

text \<open>
  \<open>isInactive\<close> up to its wait: which wait it enters, if any. \<open>lock\<close> says whether \<open>try_to_lock\<close> got
  both locks. The first wait is for new data, the second for an acknowledgement.
\<close>

datatype sq_wait = EmptyWait int | StuckWait int

(* @src libraries/networking/src/udt/SendQueue.cpp 470-521 SendQueue::isInactive(before wait) *)
definition SendQueue_isInactive_wait :: "bool \<Rightarrow> bool \<Rightarrow> 'addr send_queue \<Rightarrow> sq_wait option" where
  "SendQueue_isInactive_wait attemptedToSendPacket lock q =
     (if \<not> attemptedToSendPacket \<and> lock
         \<and> (PacketQueue_isEmpty (sq_packets q) \<or> SendQueue_isFlowWindowFull q)
         \<and> LossList_isEmpty (sq_naks q)
      then
        if sq_lastACKSequenceNumber q = sq_currentSequenceNumber q then Some (EmptyWait 5000000)
        else Some (StuckWait (min MAXIMUM_ESTIMATED_TIMEOUT
                                (max MINIMUM_ESTIMATED_TIMEOUT (sq_estimatedTimeout q))))
      else None)"

(* @src libraries/networking/src/udt/SendQueue.cpp 554-559 SendQueue::deactivate *)
definition SendQueue_deactivate :: "'addr send_queue \<Rightarrow> 'addr send_queue \<times> 'addr sq_event list" where
  "SendQueue_deactivate q = (q\<lparr>sq_state := Stopped\<rparr>, [QueueInactive])"

text \<open>After the wait: \<open>timedOut\<close> is its status, \<open>q\<close> the state found on waking.\<close>

(* @src libraries/networking/src/udt/SendQueue.cpp 493-552 SendQueue::isInactive(after wait) *)
fun SendQueue_isInactive_wake ::
  "sq_wait \<Rightarrow> bool \<Rightarrow> int \<Rightarrow> 'addr send_queue \<Rightarrow> bool \<times> 'addr send_queue \<times> 'addr sq_event list" where
  "SendQueue_isInactive_wake (EmptyWait t) timedOut now q =
     (if timedOut \<and> (PacketQueue_isEmpty (sq_packets q) \<or> SendQueue_isFlowWindowFull q)
         \<and> LossList_isEmpty (sq_naks q)
      then (True, SendQueue_deactivate q) else (False, q, []))"
| "SendQueue_isInactive_wake (StuckWait estimatedTimeout) timedOut now q =
     (if (timedOut \<or> now - sq_lastPacketSentAt q > estimatedTimeout)
         \<and> (PacketQueue_isEmpty (sq_packets q) \<or> SendQueue_isFlowWindowFull q)
         \<and> LossList_isEmpty (sq_naks q)
         \<and> SequenceNumber_lt (sq_lastACKSequenceNumber q) (sq_currentSequenceNumber q)
      then (False,
            q\<lparr>sq_naks := LossList_append_range (sq_naks q)
                (SequenceNumber_plus (sq_lastACKSequenceNumber q) 1) (sq_currentSequenceNumber q)\<rparr>,
            [TimeoutSignal])
      else (False, q, []))"

text \<open>The start of \<open>run\<close>: the loops run only from \<open>NotStarted\<close>.\<close>

(* @src libraries/networking/src/udt/SendQueue.cpp 253-268 SendQueue::run(start) *)
definition SendQueue_run_start :: "'addr send_queue \<Rightarrow> bool \<times> 'addr send_queue" where
  "SendQueue_run_start q =
     (if sq_state q = Stopped then (False, q)
      else if sq_state q = Running then (False, q)
      else (True, q\<lparr>sq_state := Running\<rparr>))"

text \<open>One iteration of the sending loop up to the events; the number of new packets sent.\<close>

(* @src libraries/networking/src/udt/SendQueue.cpp 285-293 SendQueue::run(iteration) *)
definition SendQueue_run_send ::
  "int \<Rightarrow> int \<Rightarrow> 'addr send_queue \<Rightarrow> (int \<times> bool \<times> 'addr send_queue \<times> 'addr sq_event list) option" where
  "SendQueue_run_send now bytesWritten q =
     do { (attempted, q1, out) \<leftarrow> SendQueue_maybeResendPacket now q;
          if attempted then Some (0, True, q1, out)
          else do { (n, q2, out2) \<leftarrow> SendQueue_maybeSendNewPacket now bytesWritten q1;
                    Some (n, n > 0, q2, out @ out2) } }"

(* @src libraries/networking/src/udt/SendQueue.cpp 330-330 MAX_SEND_QUEUE_SLEEP_USECS *)
definition MAX_SEND_QUEUE_SLEEP_USECS :: int where
  "MAX_SEND_QUEUE_SLEEP_USECS = 2000000"

text \<open>The pacing: the next time stamp and, when there is a send period, how long to sleep.\<close>

(* @src libraries/networking/src/udt/SendQueue.cpp 306-358 SendQueue::run(pacing) *)
definition SendQueue_run_pace :: "int \<Rightarrow> int \<Rightarrow> int \<Rightarrow> int \<Rightarrow> int \<times> int option" where
  "SendQueue_run_pace newPacketCount packetSendPeriod nextPacketTimestamp now =
     (if packetSendPeriod > 0 then
        let nextPacketDelta = (if newPacketCount = 2 then 2 else 1) * packetSendPeriod;
            timestamp = nextPacketTimestamp + nextPacketDelta;
            timeToSleep = timestamp - now;
            (timestamp', timeToSleep') =
              (if timeToSleep > nextPacketDelta then (now + nextPacketDelta, nextPacketDelta)
               else (timestamp, timeToSleep))
        in (timestamp', Some (if timeToSleep' > MAX_SEND_QUEUE_SLEEP_USECS
                              then MAX_SEND_QUEUE_SLEEP_USECS else timeToSleep'))
      else (nextPacketTimestamp, None))"


section \<open>Copies and retransmissions of a sent packet\<close>

text \<open>The copy of a packet is the packet, but for its device state.\<close>

lemma Packet_createCopy_inv:
  fixes p :: "('a, 'm) packet_scheme"
  assumes "pkt_inv p"
  shows "\<exists>c :: 'a packet. Packet_createCopy p = Some c \<and> pkt_inv c
    \<and> pkt_sequenceNumber c = pkt_sequenceNumber p"
proof -
  have inv: "bp_inv p" using assms by (simp add: pkt_inv_def)
  then have "nat (bp_packetSize p) = length (bp_packet p)"
    by (auto simp: bp_inv_def)
  then have "mem_read (bp_packet p) 0 (nat (bp_packetSize p)) = Some (bp_packet p)"
    by (simp add: mem_read_def)
  then obtain c :: "'a packet" where c: "Packet_createCopy p = Some c"
    and eqs: "bp_packet c = bp_packet p" "bp_packetSize c = bp_packetSize p"
      "bp_payloadStart c = bp_payloadStart p" "bp_payloadCapacity c = bp_payloadCapacity p"
      "bp_payloadSize c = bp_payloadSize p" "pkt_isReliable c = pkt_isReliable p"
      "pkt_isPartOfMessage c = pkt_isPartOfMessage p" "pkt_obfuscationLevel c = pkt_obfuscationLevel p"
      "pkt_sequenceNumber c = pkt_sequenceNumber p" "pkt_messageNumber c = pkt_messageNumber p"
      "pkt_packetPosition c = pkt_packetPosition p" "pkt_messagePartNumber c = pkt_messagePartNumber p"
    by (auto simp: Packet_createCopy_def Packet_assign_def BasePacket_assign_def Packet_copyMembers_def
        Packet_default_fields_def base_packet.defs packet.defs QIODevice_open_def QIODevice_seek_def Let_def)
  have "Packet_header_in c (bp_packet p)"
    by (rule Packet_header_in_cong [of p]) (use assms in \<open>simp_all add: pkt_inv_def eqs\<close>)
  then have "pkt_inv c"
    using assms by (simp add: pkt_inv_def pkt_wf_def bp_inv_def eqs)
  then show ?thesis
    using c eqs by blast
qed

lemma Packet_obfuscate_inv:
  assumes "pkt_inv p"
  shows "\<exists>p'. Packet_obfuscate level p = Some p' \<and> BasePacket_wire p' \<noteq> None"
proof -
  obtain buf where "Packet_obfuscate level p = Some (p\<lparr>bp_packet := buf, pkt_obfuscationLevel := level\<rparr>)"
    and "length buf = length (bp_packet p)"
    using Packet_obfuscate_shape [OF refl pkt_inv_data(1,2) [OF assms]] assms by (auto simp: pkt_inv_def)
  then show ?thesis
    using pkt_inv_data(2) [OF assms]
    by (simp add: BasePacket_wire_def mem_read_def BasePacket_sizes)
qed

text \<open>Sending a stored packet again always gets as far as the socket and keeps the packet as it was.\<close>

lemma SendQueue_resend_total:
  assumes "pkt_inv (snd entry)"
  shows "\<exists>wire. SendQueue_resend now s entry q
    = Some (q\<lparr>sq_sentPackets := (sq_sentPackets q)(s \<mapsto> (fst entry + 1, snd entry)), sq_lastPacketSentAt := now\<rparr>,
        [Datagram wire (sq_destination q),
         PacketRetransmitted (BasePacket_getWireSize (snd entry)) (bp_payloadSize (snd entry)) s now])"
proof -
  obtain c where c: "Packet_createCopy (snd entry) = Some c" "pkt_inv c"
    using Packet_createCopy_inv [OF assms] by blast
  obtain p wire where "Packet_obfuscate (SendQueue_resendLevel (fst entry + 1)) c = Some p" "BasePacket_wire p = Some wire"
    using Packet_obfuscate_inv [OF c(2)] by blast
  moreover obtain wire' where "BasePacket_wire (snd entry) = Some wire'"
    using pkt_inv_data(3) [OF assms] by blast
  ultimately show ?thesis
    using c(1) by (simp add: SendQueue_resend_def SendQueue_sendPacket_def Let_def)
qed

section \<open>Invariant\<close>

text \<open>
  \<open>W\<close> is a window of sequence numbers around the connection's traffic (the circular order is the
  integers' inside it); one number is kept free above \<open>_currentSequenceNumber\<close>. The packets kept for
  retransmission are exactly those sent and not acknowledged. The loss list holds only such numbers and possibly the next
  one to be sent: a fast retransmission asks for the number after the last acknowledged, which need not have been sent.
\<close>

definition sq_inv :: "int \<times> int \<Rightarrow> 'addr send_queue \<Rightarrow> bool" where
  "sq_inv W q \<longleftrightarrow> win_ok W \<and> fst W \<le> sq_lastACKSequenceNumber q
     \<and> sq_lastACKSequenceNumber q \<le> sq_currentSequenceNumber q \<and> sq_currentSequenceNumber q < snd W
     \<and> sq_atomicCurrentSequenceNumber q = sq_currentSequenceNumber q
     \<and> pq_inv (sq_packets q) \<and> (\<forall>p \<in># pq_items (sq_packets q). pkt_inv p)
     \<and> dom (sq_sentPackets q) = {sq_lastACKSequenceNumber q + 1..sq_currentSequenceNumber q}
     \<and> (\<forall>e \<in> ran (sq_sentPackets q). pkt_inv (snd e))
     \<and> ll_inv W (sq_naks q)
     \<and> ll_set (sq_naks q) \<subseteq> {sq_lastACKSequenceNumber q + 1..sq_currentSequenceNumber q + 1}"

lemma sq_invD:
  assumes "sq_inv W q"
  shows "win_ok W" and "win W (sq_lastACKSequenceNumber q)" and "win W (sq_currentSequenceNumber q)"
    and "sq_lastACKSequenceNumber q \<le> sq_currentSequenceNumber q" and "sq_currentSequenceNumber q < snd W"
    and "pq_inv (sq_packets q)" and "ll_inv W (sq_naks q)"
    and "dom (sq_sentPackets q) = {sq_lastACKSequenceNumber q + 1..sq_currentSequenceNumber q}"
    and "ll_set (sq_naks q) \<subseteq> {sq_lastACKSequenceNumber q + 1..sq_currentSequenceNumber q + 1}"
  using assms by (auto simp: sq_inv_def win_def)

lemma sq_inv_sent: "sq_inv W q \<Longrightarrow> sq_sentPackets q s = Some e \<Longrightarrow> pkt_inv (snd e)"
  unfolding sq_inv_def by (blast intro: ranI)

lemma sq_inv_new:
  assumes "win_ok W" and "win W s" and "s < snd W"
  shows "sq_inv W (SendQueue_new dest s m ack)"
  using assms
  by (simp add: sq_inv_def SendQueue_new_def win_def pq_inv_new ll_inv_new)

lemma SendQueue_isFlowWindowFull_iff:
  "sq_inv W q \<Longrightarrow> SendQueue_isFlowWindowFull q
    \<longleftrightarrow> sq_currentSequenceNumber q - sq_lastACKSequenceNumber q \<ge> sq_flowWindowSize q"
  using sq_invD(4) [of W q] by (auto simp: SendQueue_isFlowWindowFull_def win_seqlen)

lemma sq_inv_queuePacket: "sq_inv W q \<Longrightarrow> pkt_inv p \<Longrightarrow> sq_inv W (SendQueue_queuePacket p q)"
  by (simp add: sq_inv_def SendQueue_queuePacket_def pq.put_law)

subsection \<open>Acknowledgements\<close>

lemma SendQueue_ack_erase_result:
  assumes "win_ok W" and "win W a" and "win W ack" and "ack < snd W"
  shows "SendQueue_ack_erase a ack sent = Some (sent |` (- {a..ack}))"
  using assms
proof (induction "nat (ack + 1 - a)" arbitrary: a sent)
  case 0
  then have "sent |` (- {a..ack}) = sent"
    by (simp add: restrict_map_def)
  with 0 show ?case
    by (subst SendQueue_ack_erase.simps) (simp add: win_le)
next
  case (Suc n)
  then have le: "a \<le> ack" by simp
  then have inc: "SequenceNumber_inc a = a + 1" and "win W (a + 1)"
    using Suc.prems win_inc [of W a] by (auto simp: win_def)
  then have "SendQueue_ack_erase (a + 1) ack (sent(a := None)) = Some (sent(a := None) |` (- {a + 1..ack}))"
    using Suc by (intro Suc.hyps(1)) auto
  moreover have "sent(a := None) |` (- {a + 1..ack}) = sent |` (- {a..ack})"
    using le by (auto simp: fun_eq_iff restrict_map_def)
  ultimately show ?case
    using le Suc.prems inc by (subst SendQueue_ack_erase.simps) (simp add: win_le)
qed

lemma SendQueue_ack_naks:
  assumes "ll_inv W l" and "ll_set l \<subseteq> {b + 1..c}" and "win W ack"
  shows "ll_inv W (if \<not> LossList_isEmpty l \<and> SequenceNumber_le (LossList_getFirstSequenceNumber l) ack
        then LossList_remove_range l (LossList_getFirstSequenceNumber l) ack else l)"
    and "ll_set (if \<not> LossList_isEmpty l \<and> SequenceNumber_le (LossList_getFirstSequenceNumber l) ack
        then LossList_remove_range l (LossList_getFirstSequenceNumber l) ack else l) = ll_set l - {..ack}"
proof -
  have ok: "win_ok W" using assms(1) by (simp add: ll_inv_def)
  have e: "LossList_isEmpty l \<longleftrightarrow> ll_set l = {}"
    by (rule ll.empty_iff [OF assms(1)])
  show "ll_inv W (if \<not> LossList_isEmpty l \<and> SequenceNumber_le (LossList_getFirstSequenceNumber l) ack
        then LossList_remove_range l (LossList_getFirstSequenceNumber l) ack else l)"
    and "ll_set (if \<not> LossList_isEmpty l \<and> SequenceNumber_le (LossList_getFirstSequenceNumber l) ack
        then LossList_remove_range l (LossList_getFirstSequenceNumber l) ack else l) = ll_set l - {..ack}"
  proof (atomize (full), cases "LossList_isEmpty l")
    case False
    note f = ll.first_in [OF assms(1) False]
    have w: "win W (LossList_getFirstSequenceNumber l)"
      using f ll.elems_inside [OF assms(1)] by blast
    show "ll_inv W (if \<not> LossList_isEmpty l \<and> SequenceNumber_le (LossList_getFirstSequenceNumber l) ack
        then LossList_remove_range l (LossList_getFirstSequenceNumber l) ack else l) \<and>
      ll_set (if \<not> LossList_isEmpty l \<and> SequenceNumber_le (LossList_getFirstSequenceNumber l) ack
        then LossList_remove_range l (LossList_getFirstSequenceNumber l) ack else l) = ll_set l - {..ack}"
    proof (cases "LossList_getFirstSequenceNumber l \<le> ack")
      case True
      with f ll.rem_range_law [OF assms(1) w assms(3) True] False win_le [OF ok w assms(3)] show ?thesis
        by auto
    next
      case F: False
      with f assms(1) win_le [OF ok w assms(3)] show ?thesis by fastforce
    qed
  qed (use assms e in auto)
qed

lemma restrict_map_cong_dom:
  assumes "dom m \<inter> A = dom m \<inter> B"
  shows "m |` A = m |` B"
proof (rule ext)
  fix x
  have "x \<in> dom m \<Longrightarrow> x \<in> A \<longleftrightarrow> x \<in> B"
    using assms by blast
  then show "(m |` A) x = (m |` B) x"
    by (cases "m x") (auto simp: restrict_map_def)
qed

lemma restrict_map_superset: "dom m \<subseteq> A \<Longrightarrow> m |` A = m"
  using restrict_map_cong_dom [of m A UNIV] by (simp add: Int_absorb2) (simp add: restrict_map_def)

lemma ball_ran_upd: "\<forall>x \<in> ran m. P x \<Longrightarrow> P b \<Longrightarrow> \<forall>x \<in> ran (m(a \<mapsto> b)). P x"
  by (auto simp: ran_def)

lemma SendQueue_ack_laws:
  assumes inv: "sq_inv W q" and lo: "sq_lastACKSequenceNumber q \<le> ack" and hi: "ack \<le> sq_currentSequenceNumber q"
  shows "\<exists>q'. SendQueue_ack ack q = Some q' \<and> sq_inv W q' \<and> sq_lastACKSequenceNumber q' = ack
    \<and> sq_currentSequenceNumber q' = sq_currentSequenceNumber q
    \<and> sq_sentPackets q' = sq_sentPackets q |` {ack<..}
    \<and> ll_set (sq_naks q') = ll_set (sq_naks q) - {..ack}
    \<and> sq_packets q' = sq_packets q \<and> sq_flowWindowSize q' = sq_flowWindowSize q"
proof (cases "sq_lastACKSequenceNumber q = ack")
  case True
  have "x \<in> dom (sq_sentPackets q) \<Longrightarrow> ack < x" for x
    using sq_invD(8) [OF inv] True by simp
  then have "sq_sentPackets q |` {ack<..} = sq_sentPackets q"
    by (intro restrict_map_superset) auto
  moreover have "ll_set (sq_naks q) - {..ack} = ll_set (sq_naks q)"
    using sq_invD(9) [OF inv] True by auto
  ultimately show ?thesis
    using inv True by (simp add: SendQueue_ack_def)
next
  case False
  note I = sq_invD [OF inv]
  have w: "win W ack" and sm: "ack < snd W"
    using lo hi I(2,3,5) by (auto simp: win_def)
  note e = SendQueue_ack_erase_result [OF I(1,2) w sm]
  note n = SendQueue_ack_naks [OF I(7,9) w]
  have r: "sq_sentPackets q |` (- {sq_lastACKSequenceNumber q..ack}) = sq_sentPackets q |` {ack<..}"
    by (rule restrict_map_cong_dom) (use lo in \<open>auto simp: I(8)\<close>)
  obtain naks where naks: "(if \<not> LossList_isEmpty (sq_naks q)
        \<and> SequenceNumber_le (LossList_getFirstSequenceNumber (sq_naks q)) ack
      then LossList_remove_range (sq_naks q) (LossList_getFirstSequenceNumber (sq_naks q)) ack
      else sq_naks q) = naks" by blast
  have q': "SendQueue_ack ack q = Some (q\<lparr>sq_sentPackets := sq_sentPackets q |` {ack<..}, sq_naks := naks,
      sq_lastACKSequenceNumber := ack\<rparr>)"
    using False by (simp add: SendQueue_ack_def e r naks)
  have "ran (sq_sentPackets q |` {ack<..}) \<subseteq> ran (sq_sentPackets q)"
    by (auto simp: ran_def restrict_map_def split: if_splits)
  moreover have "dom (sq_sentPackets q |` {ack<..}) = {ack + 1..sq_currentSequenceNumber q}"
    using I(8) lo hi by auto
  ultimately show ?thesis
    using inv lo hi I(9) n by (auto simp: q' sq_inv_def naks)
qed

subsection \<open>Losses\<close>

lemma SendQueue_fastRetransmit_laws:
  assumes inv: "sq_inv W q" and s: "sq_lastACKSequenceNumber q < s" "s \<le> sq_currentSequenceNumber q + 1"
  shows "sq_inv W (SendQueue_fastRetransmit s q)"
    and "ll_set (sq_naks (SendQueue_fastRetransmit s q)) = insert s (ll_set (sq_naks q))"
proof -
  note I = sq_invD [OF inv]
  have "win W s"
    using s I(2,5) by (auto simp: win_def)
  then have n: "ll_inv W (LossList_insert (sq_naks q) s s)
      \<and> ll_set (LossList_insert (sq_naks q) s s) = ll_set (sq_naks q) \<union> {s..s}"
    by (intro ll.ins_law [OF I(7)]) auto
  then show "sq_inv W (SendQueue_fastRetransmit s q)"
    and "ll_set (sq_naks (SendQueue_fastRetransmit s q)) = insert s (ll_set (sq_naks q))"
    using inv s by (auto simp: sq_inv_def SendQueue_fastRetransmit_def)
qed

text \<open>The numbers of the loss list that have been sent; the other one it may hold is the next to be sent.\<close>

definition sq_lost :: "'addr send_queue \<Rightarrow> int set" where
  "sq_lost q = ll_set (sq_naks q) \<inter> {..sq_currentSequenceNumber q}"

lemma sq_lost_empty: "sq_inv W q \<Longrightarrow> sq_lost q = {} \<Longrightarrow> ll_set (sq_naks q) \<subseteq> {sq_currentSequenceNumber q + 1}"
  using sq_invD(9) [of W q] by (fastforce simp: sq_lost_def)

lemma sq_lost_dom: "sq_inv W q \<Longrightarrow> sq_lost q = ll_set (sq_naks q) \<inter> dom (sq_sentPackets q)"
  using sq_invD(8,9) [of W q] by (auto simp: sq_lost_def)

lemma sq_lost_Min:
  assumes inv: "sq_inv W q" and ne: "sq_lost q \<noteq> {}"
  shows "Min (ll_set (sq_naks q)) = Min (sq_lost q)" and "Min (ll_set (sq_naks q)) \<in> dom (sq_sentPackets q)"
proof -
  have fin: "finite (ll_set (sq_naks q))" using ll.len_card [OF sq_invD(7) [OF inv]] by simp
  obtain x where x: "x \<in> ll_set (sq_naks q)" "x \<le> sq_currentSequenceNumber q" using ne by (auto simp: sq_lost_def)
  have m: "Min (ll_set (sq_naks q)) \<in> ll_set (sq_naks q)" using fin x(1) by (intro Min_in) auto
  moreover have "Min (ll_set (sq_naks q)) \<le> x" by (rule Min_le [OF fin x(1)])
  ultimately have l: "Min (ll_set (sq_naks q)) \<in> sq_lost q" using x(2) by (simp add: sq_lost_def)
  then show "Min (ll_set (sq_naks q)) \<in> dom (sq_sentPackets q)" using sq_lost_dom [OF inv] by blast
  have "Min (sq_lost q) = Min (ll_set (sq_naks q))"
    by (rule Min_eqI) (use fin l in \<open>auto simp: sq_lost_def\<close>)
  then show "Min (ll_set (sq_naks q)) = Min (sq_lost q)" by simp
qed

text \<open>Popping the loss list: the least number goes.\<close>

lemma sq_pop:
  assumes inv: "sq_inv W q" and ne: "ll_set (sq_naks q) \<noteq> {}"
  shows "\<exists>s l. \<not> LossList_isEmpty (sq_naks q) \<and> LossList_popFirstSequenceNumber (sq_naks q) = (s, l)
    \<and> s = Min (ll_set (sq_naks q)) \<and> s \<in> ll_set (sq_naks q) \<and> ll_inv W l \<and> ll_set l = ll_set (sq_naks q) - {s}"
proof -
  note I = sq_invD [OF inv]
  obtain s l where p: "LossList_popFirstSequenceNumber (sq_naks q) = (s, l)"
    by (metis surj_pair)
  note pop = ll.pop_law [OF I(7) ne p]
  have "s \<in> ll_set (sq_naks q)"
    using pop ne ll.len_card [OF I(7)] by simp
  then show ?thesis
    using p pop ne ll.empty_iff [OF I(7)] by blast
qed

lemma SendQueue_maybeResendPacket_laws:
  assumes inv: "sq_inv W q" and ne: "sq_lost q \<noteq> {}"
  shows "\<exists>q' wire w p. SendQueue_maybeResendPacket now q = Some (True, q', [Datagram wire (sq_destination q),
        PacketRetransmitted w p (Min (sq_lost q)) now])
    \<and> sq_inv W q' \<and> ll_set (sq_naks q') = ll_set (sq_naks q) - {Min (sq_lost q)}
    \<and> dom (sq_sentPackets q') = dom (sq_sentPackets q)
    \<and> (\<forall>s. map_option snd (sq_sentPackets q' s) = map_option snd (sq_sentPackets q s))
    \<and> sq_packets q' = sq_packets q \<and> sq_currentSequenceNumber q' = sq_currentSequenceNumber q
    \<and> sq_lastACKSequenceNumber q' = sq_lastACKSequenceNumber q"
proof -
  have "ll_set (sq_naks q) \<noteq> {}" using ne by (auto simp: sq_lost_def)
  from sq_pop [OF inv this] obtain s l where p0: "\<not> LossList_isEmpty (sq_naks q)"
    "LossList_popFirstSequenceNumber (sq_naks q) = (s, l)" "s = Min (ll_set (sq_naks q))"
    "ll_inv W l" "ll_set l = ll_set (sq_naks q) - {s}" by blast
  obtain e where e: "sq_sentPackets q s = Some e" using sq_lost_Min(2) [OF inv ne] p0(3) by blast
  have s: "s = Min (sq_lost q)" using sq_lost_Min(1) [OF inv ne] p0(3) by simp
  note p = p0(2) s e sq_inv_sent [OF inv e] p0(4,5)
  obtain wire where r: "SendQueue_resend now s e (q\<lparr>sq_naks := l\<rparr>)
    = Some (q\<lparr>sq_naks := l, sq_sentPackets := (sq_sentPackets q)(s \<mapsto> (fst e + 1, snd e)), sq_lastPacketSentAt := now\<rparr>,
        [Datagram wire (sq_destination q),
         PacketRetransmitted (BasePacket_getWireSize (snd e)) (bp_payloadSize (snd e)) s now])"
    using SendQueue_resend_total [OF p(4), of now s "q\<lparr>sq_naks := l\<rparr>"] by auto
  have "SendQueue_maybeResendPacket now q = Some (True,
      q\<lparr>sq_naks := l, sq_sentPackets := (sq_sentPackets q)(s \<mapsto> (fst e + 1, snd e)), sq_lastPacketSentAt := now\<rparr>,
        [Datagram wire (sq_destination q),
         PacketRetransmitted (BasePacket_getWireSize (snd e)) (bp_payloadSize (snd e)) s now])"
    using p0(1) p(3) by (subst SendQueue_maybeResendPacket.simps) (simp add: p(1) r)
  moreover have "dom ((sq_sentPackets q)(s \<mapsto> (fst e + 1, snd e))) = dom (sq_sentPackets q)"
    using p(3) by auto
  moreover have "\<forall>x \<in> ran ((sq_sentPackets q)(s \<mapsto> (fst e + 1, snd e))). pkt_inv (snd x)"
    by (rule ball_ran_upd) (use inv p(4) in \<open>simp_all add: sq_inv_def\<close>)
  ultimately show ?thesis
    using inv p by (auto simp: sq_inv_def)
qed

text \<open>With nothing to send again the loss list is emptied: the loop drops the number that was never sent.\<close>

lemma SendQueue_maybeResendPacket_idle:
  assumes inv: "sq_inv W q" and none: "sq_lost q = {}"
  shows "\<exists>l. SendQueue_maybeResendPacket now q = Some (False, q\<lparr>sq_naks := l\<rparr>, []) \<and> ll_set l = {}
    \<and> sq_inv W (q\<lparr>sq_naks := l\<rparr>)"
proof (cases "ll_set (sq_naks q) = {}")
  case True
  then have "LossList_isEmpty (sq_naks q)" using ll.empty_iff [OF sq_invD(7) [OF inv]] by simp
  then have "SendQueue_maybeResendPacket now q = Some (False, q\<lparr>sq_naks := sq_naks q\<rparr>, [])"
    by (subst SendQueue_maybeResendPacket.simps) simp
  then show ?thesis using True inv by (intro exI [of _ "sq_naks q"]) simp
next
  case False
  note I = sq_invD [OF inv]
  obtain s l where p: "\<not> LossList_isEmpty (sq_naks q)" "LossList_popFirstSequenceNumber (sq_naks q) = (s, l)"
    "s \<in> ll_set (sq_naks q)" "ll_inv W l" "ll_set l = ll_set (sq_naks q) - {s}" using sq_pop [OF inv False] by blast
  have s: "s = sq_currentSequenceNumber q + 1" "ll_set l = {}" using sq_lost_empty [OF inv none] p(3,5) by auto
  have "s \<notin> dom (sq_sentPackets q)" using I(8) s(1) by simp
  then have "sq_sentPackets q s = None" by blast
  moreover have "SendQueue_maybeResendPacket now (q\<lparr>sq_naks := l\<rparr>) = Some (False, q\<lparr>sq_naks := l\<rparr>, [])"
    using ll.empty_iff [OF p(4)] s(2) by (subst SendQueue_maybeResendPacket.simps) simp
  ultimately have "SendQueue_maybeResendPacket now q = Some (False, q\<lparr>sq_naks := l\<rparr>, [])"
    using p(1) by (subst SendQueue_maybeResendPacket.simps) (simp add: p(2))
  moreover have "sq_inv W (q\<lparr>sq_naks := l\<rparr>)" using inv p(4) s(2) by (simp add: sq_inv_def)
  ultimately show ?thesis using s(2) by blast
qed

subsection \<open>New packets\<close>

lemma SendQueue_sendNewPacket_laws:
  assumes p: "pkt_inv p" and s: "seq_wf s"
  shows "\<exists>p' wire w n. pkt_inv p' \<and> pkt_sequenceNumber p' = s
    \<and> SendQueue_sendNewPacketAndAddToSentList now bytesWritten p s q
      = Some (0 \<le> bytesWritten, q\<lparr>sq_lastPacketSentAt := now, sq_sentPackets := (sq_sentPackets q)(s \<mapsto> (0, p')),
          sq_naks := (if bytesWritten < 0 then LossList_append (sq_naks q) s else sq_naks q)\<rparr>,
          [Datagram wire (sq_destination q), PacketSent w n s now])"
proof -
  obtain p' where p': "Packet_writeSequenceNumber s p = Some p'" "pkt_inv p'"
    using Packet_writeSequenceNumber_inv [OF p s] by blast
  have "pkt_sequenceNumber p' = s"
    using Packet_writeHeader_cases [OF p'(1) [unfolded Packet_writeSequenceNumber_def]] by auto
  moreover obtain wire where "BasePacket_wire p' = Some wire"
    using pkt_inv_data(3) [OF p'(2)] by blast
  ultimately show ?thesis
    using p' by (intro exI [of _ p'])
      (auto simp: SendQueue_sendNewPacketAndAddToSentList_def SendQueue_sendPacket_def Let_def)
qed

lemma SendQueue_maybeSendNewPacket_laws:
  assumes inv: "sq_inv W q" and room: "sq_currentSequenceNumber q + 1 < snd W"
    and open': "\<not> SendQueue_isFlowWindowFull q" and ne: "\<not> PacketQueue_isEmpty (sq_packets q)"
    and early: "sq_currentSequenceNumber q + 1 \<notin> ll_set (sq_naks q)"
  shows "\<exists>q' p p' wire w n. SendQueue_maybeSendNewPacket now bytesWritten q = Some (1, q',
        [Datagram wire (sq_destination q), PacketSent w n (sq_currentSequenceNumber q + 1) now])
    \<and> sq_inv W q' \<and> sq_currentSequenceNumber q' = sq_currentSequenceNumber q + 1
    \<and> sq_lastACKSequenceNumber q' = sq_lastACKSequenceNumber q
    \<and> pq_items (sq_packets q) = add_mset p (pq_items (sq_packets q'))
    \<and> sq_sentPackets q' = (sq_sentPackets q)(sq_currentSequenceNumber q + 1 \<mapsto> (0, p'))
    \<and> ll_set (sq_naks q') = (if bytesWritten < 0 then insert (sq_currentSequenceNumber q + 1) (ll_set (sq_naks q))
        else ll_set (sq_naks q))"
proof -
  note I = sq_invD [OF inv]
  let ?s = "sq_currentSequenceNumber q + 1"
  have nxt: "SequenceNumber_inc (sq_currentSequenceNumber q) = ?s"
    by (rule win_inc [OF I(1,3,5)])
  have ws: "win W ?s" using I(3,5) by (simp add: win_def)
  have wf: "seq_wf ?s" by (rule win_wf [OF I(1) ws])
  obtain p ps where t: "PacketQueue_takePacket (sq_packets q) = Some (Some p, ps)" "pq_inv ps"
      "pq_items (sq_packets q) = add_mset p (pq_items ps)"
    using pq.take_some [OF I(6) ne] by blast
  have pinv: "pkt_inv p" and rest: "\<forall>x \<in># pq_items ps. pkt_inv x"
    using inv t(3) by (simp_all add: sq_inv_def)
  obtain q1 where q1: "q\<lparr>sq_currentSequenceNumber := ?s, sq_atomicCurrentSequenceNumber := ?s, sq_packets := ps\<rparr> = q1"
    by blast
  obtain l where l: "(if bytesWritten < 0 then LossList_append (sq_naks q) ?s else sq_naks q) = l"
    by blast
  have naks: "sq_naks q1 = sq_naks q" and sent: "sq_sentPackets q1 = sq_sentPackets q"
    and dest: "sq_destination q1 = sq_destination q"
    by (simp_all flip: q1)
  obtain p' wire w n where p': "pkt_inv p'" and send: "SendQueue_sendNewPacketAndAddToSentList now bytesWritten p ?s q1
      = Some (0 \<le> bytesWritten, q1\<lparr>sq_lastPacketSentAt := now, sq_sentPackets := (sq_sentPackets q)(?s \<mapsto> (0, p')),
          sq_naks := l\<rparr>, [Datagram wire (sq_destination q), PacketSent w n ?s now])"
    using SendQueue_sendNewPacket_laws [OF pinv wf, of now bytesWritten q1] unfolding naks sent dest l by blast
  have q': "SendQueue_maybeSendNewPacket now bytesWritten q = Some (1,
      q1\<lparr>sq_lastPacketSentAt := now, sq_sentPackets := (sq_sentPackets q)(?s \<mapsto> (0, p')), sq_naks := l\<rparr>,
      [Datagram wire (sq_destination q), PacketSent w n ?s now])"
    using open' ne t(1) send
    by (simp add: SendQueue_maybeSendNewPacket_def SendQueue_getNextSequenceNumber_def Let_def nxt q1)
  have "\<forall>x \<in> ll_set (sq_naks q). x < ?s"
  proof
    fix x assume x: "x \<in> ll_set (sq_naks q)"
    then have "x \<le> ?s" "x \<noteq> ?s" using I(9) early by auto
    then show "x < ?s" by simp
  qed
  from ll.app_law [OF I(7) ws this]
  have lset: "ll_inv W l" "ll_set l = (if bytesWritten < 0 then insert ?s (ll_set (sq_naks q)) else ll_set (sq_naks q))"
    using I(7) by (auto simp flip: l)
  have lsub: "ll_set l \<subseteq> {sq_lastACKSequenceNumber q + 1..?s + 1}"
    unfolding lset(2) using I(4,9) by auto
  have ran: "\<forall>x \<in> ran ((sq_sentPackets q)(?s \<mapsto> (0, p'))). pkt_inv (snd x)"
    by (rule ball_ran_upd) (use inv p' in \<open>simp_all add: sq_inv_def\<close>)
  have dom: "dom ((sq_sentPackets q)(?s \<mapsto> (0, p'))) = {sq_lastACKSequenceNumber q + 1..?s}"
    unfolding dom_fun_upd using I(4) by (auto simp: I(8))
  have "sq_inv W (q1\<lparr>sq_lastPacketSentAt := now, sq_sentPackets := (sq_sentPackets q)(?s \<mapsto> (0, p')), sq_naks := l\<rparr>)"
    using inv I(4) t(2) rest room lset(1) lsub ran dom
    unfolding sq_inv_def by (simp del: dom_fun_upd flip: q1)
  with t(3) lset(2) show ?thesis
    by - (intro exI conjI, rule q', simp_all flip: q1)
qed

lemma SendQueue_maybeSendNewPacket_idle:
  "SendQueue_isFlowWindowFull q \<or> PacketQueue_isEmpty (sq_packets q)
    \<Longrightarrow> SendQueue_maybeSendNewPacket now bytesWritten q = Some (0, q, [])"
  by (auto simp: SendQueue_maybeSendNewPacket_def)

subsection \<open>Timeouts\<close>

lemma SendQueue_isInactive_wake_laws:
  assumes inv: "sq_inv W q"
  shows "\<exists>b q' out. SendQueue_isInactive_wake w timedOut now q = (b, q', out) \<and> sq_inv W q'
    \<and> sq_currentSequenceNumber q' = sq_currentSequenceNumber q
    \<and> sq_lastACKSequenceNumber q' = sq_lastACKSequenceNumber q \<and> sq_packets q' = sq_packets q
    \<and> sq_sentPackets q' = sq_sentPackets q
    \<and> (TimeoutSignal \<in> set out \<longrightarrow> ll_set (sq_naks q') = dom (sq_sentPackets q'))
    \<and> (b \<longleftrightarrow> QueueInactive \<in> set out)"
proof (cases w)
  case (EmptyWait t)
  then show ?thesis
    using inv by (auto simp: SendQueue_deactivate_def sq_inv_def)
next
  case (StuckWait t)
  note I = sq_invD [OF inv]
  show ?thesis
  proof (cases "(timedOut \<or> now - sq_lastPacketSentAt q > t)
         \<and> (PacketQueue_isEmpty (sq_packets q) \<or> SendQueue_isFlowWindowFull q)
         \<and> LossList_isEmpty (sq_naks q)
         \<and> SequenceNumber_lt (sq_lastACKSequenceNumber q) (sq_currentSequenceNumber q)")
    case True
    have lt: "sq_lastACKSequenceNumber q + 1 \<le> sq_currentSequenceNumber q"
      using True win_lt [OF I(1,2,3)] by simp
    have w1: "win W (sq_lastACKSequenceNumber q + 1)"
      using I(2,5) lt by (simp add: win_def)
    have plus: "SequenceNumber_plus (sq_lastACKSequenceNumber q) 1 = sq_lastACKSequenceNumber q + 1"
      by (rule win_plus [OF I(1)]) (use I(5) lt in simp)
    have e: "ll_set (sq_naks q) = {}"
      using True ll.empty_iff [OF I(7)] by simp
    have "ll_inv W (LossList_append_range (sq_naks q) (sq_lastACKSequenceNumber q + 1) (sq_currentSequenceNumber q))
      \<and> ll_set (LossList_append_range (sq_naks q) (sq_lastACKSequenceNumber q + 1) (sq_currentSequenceNumber q))
        = ll_set (sq_naks q) \<union> {sq_lastACKSequenceNumber q + 1..sq_currentSequenceNumber q}"
      using e by (intro ll.app_range_law [OF I(7) w1 I(3) lt]) simp
    then show ?thesis
      using True inv e I(8) unfolding StuckWait SendQueue_isInactive_wake.simps if_P [OF True]
      by - (intro exI conjI, rule refl, simp_all add: plus sq_inv_def)
  next
    case False
    have "SendQueue_isInactive_wake w timedOut now q = (False, q, [])"
      unfolding StuckWait SendQueue_isInactive_wake.simps by (rule if_not_P [OF False])
    then show ?thesis
      using inv by auto
  qed
qed

section \<open>The running queue\<close>

text \<open>
  The states a queue reaches: any thread may queue packets, acknowledge a number between the last
  acknowledged and the last sent, ask for a number after the last acknowledged and up to the next one to
  be sent again (\<open>Connection_ack_validated\<close> shows that the connection asks for the one after the last
  acknowledged), or change the window; the sending thread runs its steps. \<open>W\<close> bounds the numbers used
  (the sender stops one short of its end).
\<close>

inductive sq_reachable :: "int \<times> int \<Rightarrow> 'addr send_queue \<Rightarrow> bool" for W :: "int \<times> int" where
  new: "win_ok W \<Longrightarrow> win W s \<Longrightarrow> s < snd W \<Longrightarrow> sq_reachable W (SendQueue_new dest s m ack)"
| queuePacket: "sq_reachable W q \<Longrightarrow> pkt_inv p \<Longrightarrow> sq_reachable W (SendQueue_queuePacket p q)"
| ack: "sq_reachable W q \<Longrightarrow> sq_lastACKSequenceNumber q \<le> n \<Longrightarrow> n \<le> sq_currentSequenceNumber q
    \<Longrightarrow> SendQueue_ack n q = Some q' \<Longrightarrow> sq_reachable W q'"
| fastRetransmit: "sq_reachable W q \<Longrightarrow> sq_lastACKSequenceNumber q < n \<Longrightarrow> n \<le> sq_currentSequenceNumber q + 1
    \<Longrightarrow> sq_reachable W (SendQueue_fastRetransmit n q)"
| setFlowWindowSize: "sq_reachable W q \<Longrightarrow> sq_reachable W (SendQueue_setFlowWindowSize n q)"
| setPacketSendPeriod: "sq_reachable W q \<Longrightarrow> sq_reachable W (SendQueue_setPacketSendPeriod n q)"
| setEstimatedTimeout: "sq_reachable W q \<Longrightarrow> sq_reachable W (SendQueue_setEstimatedTimeout n q)"
| handshakeACK: "sq_reachable W q \<Longrightarrow> sq_reachable W (SendQueue_handshakeACK q)"
| updateDestination: "sq_reachable W q \<Longrightarrow> sq_reachable W (SendQueue_updateDestinationAddress d q)"
| stop: "sq_reachable W q \<Longrightarrow> sq_reachable W (SendQueue_stop q)"
| run_start: "sq_reachable W q \<Longrightarrow> sq_reachable W (snd (SendQueue_run_start q))"
| run_send: "sq_reachable W q \<Longrightarrow> sq_currentSequenceNumber q + 1 < snd W
    \<Longrightarrow> SendQueue_run_send now bytesWritten q = Some (n, b, q', out) \<Longrightarrow> sq_reachable W q'"
| wake: "sq_reachable W q \<Longrightarrow> SendQueue_isInactive_wake w t now q = (b, q', out) \<Longrightarrow> sq_reachable W q'"

text \<open>An iteration of the sending loop: what is lost goes first, then a new packet if the window is open, else nothing.\<close>

definition sq_sends :: "int \<Rightarrow> 'addr send_queue \<Rightarrow> 'addr sq_event list \<Rightarrow> bool" where
  "sq_sends now q out \<longleftrightarrow>
     (if sq_lost q \<noteq> {}
      then \<exists>wire w p. out = [Datagram wire (sq_destination q), PacketRetransmitted w p (Min (sq_lost q)) now]
      else if SendQueue_isFlowWindowFull q \<or> PacketQueue_isEmpty (sq_packets q) then out = []
      else \<exists>wire w p. out = [Datagram wire (sq_destination q), PacketSent w p (sq_currentSequenceNumber q + 1) now])"

lemma SendQueue_run_send_laws:
  assumes inv: "sq_inv W q" and room: "sq_currentSequenceNumber q + 1 < snd W"
  shows "\<exists>n b q' out. SendQueue_run_send now bytesWritten q = Some (n, b, q', out) \<and> sq_inv W q' \<and> sq_sends now q out
    \<and> sq_lastACKSequenceNumber q' = sq_lastACKSequenceNumber q
    \<and> sq_currentSequenceNumber q' = sq_currentSequenceNumber q + n \<and> n = (if b \<and> sq_lost q = {} then 1 else 0)
    \<and> (b \<longleftrightarrow> out \<noteq> [])"
proof (cases "sq_lost q = {}")
  case False
  then show ?thesis
    using SendQueue_maybeResendPacket_laws [OF inv False, of now] by (fastforce simp: SendQueue_run_send_def sq_sends_def)
next
  case True
  obtain l q0 where l: "SendQueue_maybeResendPacket now q = Some (False, q0, [])" "q\<lparr>sq_naks := l\<rparr> = q0" "ll_set l = {}"
    "sq_inv W q0"
    using SendQueue_maybeResendPacket_idle [OF inv True, of now] by blast
  have f: "sq_packets q0 = sq_packets q" "sq_currentSequenceNumber q0 = sq_currentSequenceNumber q"
    "sq_lastACKSequenceNumber q0 = sq_lastACKSequenceNumber q" "sq_destination q0 = sq_destination q" "ll_set (sq_naks q0) = {}"
    "SendQueue_isFlowWindowFull q0 = SendQueue_isFlowWindowFull q"
    using l(3) by (simp_all add: SendQueue_isFlowWindowFull_def flip: l(2))
  show ?thesis
  proof (cases "SendQueue_isFlowWindowFull q \<or> PacketQueue_isEmpty (sq_packets q)")
    case idle: True
    then have "SendQueue_maybeSendNewPacket now bytesWritten q0 = Some (0, q0, [])"
      by (intro SendQueue_maybeSendNewPacket_idle) (simp add: f)
    then have "SendQueue_run_send now bytesWritten q = Some (0, False, q0, [])"
      by (simp add: SendQueue_run_send_def l(1))
    then show ?thesis using l(4) f idle True by (auto simp: sq_sends_def)
  next
    case False
    then obtain q' wire w p where "SendQueue_maybeSendNewPacket now bytesWritten q0 = Some (1, q',
        [Datagram wire (sq_destination q0), PacketSent w p (sq_currentSequenceNumber q0 + 1) now])" "sq_inv W q'"
      "sq_currentSequenceNumber q' = sq_currentSequenceNumber q0 + 1" "sq_lastACKSequenceNumber q' = sq_lastACKSequenceNumber q0"
      using SendQueue_maybeSendNewPacket_laws [OF l(4), of now bytesWritten] room f by auto
    then show ?thesis using f False True l(1)
      by (intro exI [of _ 1] exI [of _ True] exI [of _ q']) (simp add: SendQueue_run_send_def sq_sends_def)
  qed
qed

lemma sq_reachable_inv: "sq_reachable W q \<Longrightarrow> sq_inv W q"
proof (induction rule: sq_reachable.induct)
  case (ack q n q')
  then show ?case
    using SendQueue_ack_laws [OF ack.IH] by fastforce
next
  case (run_send q now bytesWritten n b q' out)
  then show ?case
    using SendQueue_run_send_laws [OF run_send.IH run_send.hyps(2), of now bytesWritten] by auto
next
  case (fastRetransmit q n)
  then show ?case by (intro SendQueue_fastRetransmit_laws(1))
next
  case (wake q w t now b q' out)
  then show ?case
    using SendQueue_isInactive_wake_laws [OF wake.IH, of w t now] by simp
qed (simp_all add: sq_inv_new sq_inv_queuePacket,
  simp_all add: sq_inv_def SendQueue_setFlowWindowSize_def SendQueue_setPacketSendPeriod_def
    SendQueue_setEstimatedTimeout_def SendQueue_handshakeACK_def
    SendQueue_updateDestinationAddress_def SendQueue_stop_def SendQueue_run_start_def)

section \<open>Properties\<close>

text \<open>
  C12. While the numbers stay in a window \<open>W\<close> of less than half the number space that does not cross zero, in every state
  the send queue reaches the packets kept are exactly those sent and not yet acknowledged, each a well-formed packet; the
  loss list holds none that is acknowledged and, of those not sent, at most the next one. While a number is left
  in the window an iteration of the sending loop returns and keeps this so: it sends the least lost packet again if one is lost,
  else a new packet if the flow window is open and one waits, else nothing.
\<close>

theorem SendQueue_keeps_unacknowledged:
  assumes "sq_reachable W q"
  shows "dom (sq_sentPackets q) = {sq_lastACKSequenceNumber q + 1..sq_currentSequenceNumber q}
    \<and> (\<forall>s e. sq_sentPackets q s = Some e \<longrightarrow> pkt_inv (snd e))
    \<and> ll_set (sq_naks q) \<subseteq> insert (sq_currentSequenceNumber q + 1) (dom (sq_sentPackets q))
    \<and> (sq_currentSequenceNumber q + 1 < snd W \<longrightarrow>
        (\<exists>n b q' out. SendQueue_run_send now bytesWritten q = Some (n, b, q', out) \<and> sq_inv W q' \<and> sq_sends now q out))"
proof -
  note inv = sq_reachable_inv [OF assms]
  have "ll_set (sq_naks q) \<subseteq> insert (sq_currentSequenceNumber q + 1) (dom (sq_sentPackets q))"
    using sq_invD(9) [OF inv] unfolding sq_invD(8) [OF inv] by fastforce
  with sq_invD(8) [OF inv] sq_inv_sent [OF inv] SendQueue_run_send_laws [OF inv] show ?thesis
    by meson
qed

theorem SendQueue_keeps_unacknowledged_witness:
  "\<exists>q n b q' out. sq_reachable (10, 20) (q :: nat send_queue) \<and> sq_currentSequenceNumber q = 11
    \<and> dom (sq_sentPackets q) = {11} \<and> SendQueue_run_send 6 4 q = Some (n, b, q', out)"
proof -
  obtain p :: "nat packet" where p: "pkt_inv p"
    using Packet_new_shape [of 10 14 False True] by (auto simp: Packet_localHeaderSize_def)
  let ?q0 = "SendQueue_setFlowWindowSize 8 (SendQueue_new (0 :: nat) 10 0 True)"
  have r0: "sq_reachable (10, 20) ?q0"
    by (intro sq_reachable.setFlowWindowSize sq_reachable.new) (simp_all add: win_ok_def win_def seq_consts)
  then have r1: "sq_reachable (10, 20) (SendQueue_queuePacket p ?q0)"
    using p by (rule sq_reachable.queuePacket)
  let ?q1 = "SendQueue_queuePacket p ?q0"
  have c1: "sq_currentSequenceNumber ?q1 = 10" "sq_lastACKSequenceNumber ?q1 = 10" "sq_lost ?q1 = {}"
      "\<not> SendQueue_isFlowWindowFull ?q1" "\<not> PacketQueue_isEmpty (sq_packets ?q1)"
    by (simp_all add: sq_lost_def SendQueue_queuePacket_def SendQueue_setFlowWindowSize_def SendQueue_new_def
        SendQueue_isFlowWindowFull_def seqlen_def PacketQueue_isEmpty_def PacketQueue_queuePacket_def PacketQueue_new_def)
  note inv = sq_reachable_inv [OF r1]
  obtain n b q2 out where q2: "SendQueue_run_send 5 4 ?q1 = Some (n, b, q2, out)" "sq_sends 5 ?q1 out"
      "sq_lastACKSequenceNumber q2 = 10" "sq_currentSequenceNumber q2 = 10 + n" "n = (if b then 1 else 0)"
      "b \<longleftrightarrow> out \<noteq> []"
    using SendQueue_run_send_laws [OF inv, of 5 4] c1(1-3) by auto
  have b: b using q2(2,6) c1(3-5) by (auto simp: sq_sends_def)
  have "sq_reachable (10, 20) q2"
    using sq_reachable.run_send [OF r1 _ q2(1)] c1(1) by simp
  note r2 = this
  from SendQueue_keeps_unacknowledged [OF r2, of 6 4] obtain n b q' out
    where "SendQueue_run_send 6 4 q2 = Some (n, b, q', out)" "dom (sq_sentPackets q2) = {11}"
    using q2(3-5) b by auto
  with r2 q2(4,5) b show ?thesis by auto
qed

text \<open>
  Acknowledging a number between the last one acknowledged and the last one sent always returns (the
  loop over the numbers ends); afterwards the queue keeps exactly the packets above it, forgets every
  loss at or below it, and has not touched the packets waiting to be sent.
\<close>

theorem SendQueue_ack_releases:
  assumes "sq_inv W q" and "sq_lastACKSequenceNumber q \<le> n" and "n \<le> sq_currentSequenceNumber q"
  shows "\<exists>q'. SendQueue_ack n q = Some q' \<and> sq_inv W q' \<and> sq_lastACKSequenceNumber q' = n
    \<and> dom (sq_sentPackets q') = {n + 1..sq_currentSequenceNumber q}
    \<and> (\<forall>s > n. sq_sentPackets q' s = sq_sentPackets q s)
    \<and> ll_set (sq_naks q') = {s \<in> ll_set (sq_naks q). n < s} \<and> sq_packets q' = sq_packets q"
proof -
  obtain q' where q': "SendQueue_ack n q = Some q'" "sq_inv W q'" "sq_lastACKSequenceNumber q' = n"
      "sq_currentSequenceNumber q' = sq_currentSequenceNumber q"
      "sq_sentPackets q' = sq_sentPackets q |` {n<..}" "ll_set (sq_naks q') = ll_set (sq_naks q) - {..n}"
      "sq_packets q' = sq_packets q"
    using SendQueue_ack_laws [OF assms] by blast
  moreover have "ll_set (sq_naks q) - {..n} = {s \<in> ll_set (sq_naks q). n < s}"
    by auto
  ultimately show ?thesis
    using sq_invD(8) [OF q'(2)] by (intro exI [of _ q']) simp
qed

theorem SendQueue_ack_releases_witness:
  "\<exists>q' :: nat send_queue. SendQueue_ack 12 (SendQueue_new 0 12 0 True) = Some q' \<and> sq_sentPackets q' = Map.empty"
proof -
  have "sq_inv (10, 20) (SendQueue_new (0 :: nat) 12 0 True)"
    by (rule sq_inv_new) (simp_all add: win_ok_def win_def seq_consts)
  from SendQueue_ack_releases [OF this, of 12] show ?thesis
    by (auto simp: SendQueue_new_def)
qed

text \<open>
  \<open>maybeResendPacket\<close> always returns. With no sent packet lost it sends nothing and says so; otherwise it sends the
  packet with the least lost number to the peer, takes exactly that number off the loss list, and keeps
  the packet (whose contents are unchanged) for the next time.
\<close>

theorem SendQueue_resends_least_lost:
  assumes "sq_inv W q"
  shows "if sq_lost q = {} then \<exists>l. SendQueue_maybeResendPacket now q = Some (False, q\<lparr>sq_naks := l\<rparr>, []) \<and> ll_set l = {}
    else \<exists>q' wire w p. SendQueue_maybeResendPacket now q = Some (True, q', [Datagram wire (sq_destination q),
          PacketRetransmitted w p (Min (sq_lost q)) now])
      \<and> sq_inv W q' \<and> ll_set (sq_naks q') = ll_set (sq_naks q) - {Min (sq_lost q)}
      \<and> (\<forall>s. map_option snd (sq_sentPackets q' s) = map_option snd (sq_sentPackets q s))"
proof (cases "sq_lost q = {}")
  case True
  then show ?thesis
    using SendQueue_maybeResendPacket_idle [OF assms True, of now] by auto
next
  case False
  show ?thesis
    unfolding if_not_P [OF False] using SendQueue_maybeResendPacket_laws [OF assms False, of now] by blast
qed

theorem SendQueue_resends_least_lost_witness:
  "\<exists>l. SendQueue_maybeResendPacket 3 (SendQueue_new (0 :: nat) 12 0 True) = Some (False, SendQueue_new 0 12 0 True\<lparr>sq_naks := l\<rparr>, [])"
proof -
  have "sq_inv (10, 20) (SendQueue_new (0 :: nat) 12 0 True)"
    by (rule sq_inv_new) (simp_all add: win_ok_def win_def seq_consts)
  from SendQueue_resends_least_lost [OF this, of 3] show ?thesis
    by (auto simp: SendQueue_new_def sq_lost_def)
qed

text \<open>
  Flow control, when the loop has dealt with the losses: a new packet is sent exactly when fewer packets than the flow window are unacknowledged
  and one is queued; it gets the next sequence number, is kept, is put on the loss list only if the
  socket refused it, and leaves at most a window of unacknowledged packets.
\<close>

theorem SendQueue_flow_window:
  assumes "sq_inv W q" and "sq_currentSequenceNumber q + 1 < snd W" and "sq_currentSequenceNumber q + 1 \<notin> ll_set (sq_naks q)"
  shows "\<exists>n q' out. SendQueue_maybeSendNewPacket now bytesWritten q = Some (n, q', out)
    \<and> (if sq_currentSequenceNumber q - sq_lastACKSequenceNumber q < sq_flowWindowSize q
          \<and> \<not> PacketQueue_isEmpty (sq_packets q)
       then n = 1 \<and> sq_inv W q' \<and> sq_currentSequenceNumber q' = sq_currentSequenceNumber q + 1
          \<and> sq_currentSequenceNumber q' - sq_lastACKSequenceNumber q' \<le> sq_flowWindowSize q
          \<and> size (pq_items (sq_packets q)) = Suc (size (pq_items (sq_packets q')))
          \<and> (sq_currentSequenceNumber q' \<in> ll_set (sq_naks q') \<longleftrightarrow> bytesWritten < 0)
       else n = 0 \<and> q' = q \<and> out = [])"
proof (cases "SendQueue_isFlowWindowFull q \<or> PacketQueue_isEmpty (sq_packets q)")
  case True
  then show ?thesis
    using SendQueue_maybeSendNewPacket_idle [OF True] SendQueue_isFlowWindowFull_iff [OF assms(1)] by auto
next
  case False
  then obtain q' p out where
    "SendQueue_maybeSendNewPacket now bytesWritten q = Some (1, q', out)"
    "sq_inv W q'" "sq_currentSequenceNumber q' = sq_currentSequenceNumber q + 1"
    "sq_lastACKSequenceNumber q' = sq_lastACKSequenceNumber q"
    "pq_items (sq_packets q) = add_mset p (pq_items (sq_packets q'))"
    "ll_set (sq_naks q') = (if bytesWritten < 0 then insert (sq_currentSequenceNumber q + 1) (ll_set (sq_naks q))
        else ll_set (sq_naks q))"
    using SendQueue_maybeSendNewPacket_laws [OF assms(1,2) _ _ assms(3), of now bytesWritten] by blast
  moreover note assms(3)
  ultimately show ?thesis
    using False SendQueue_isFlowWindowFull_iff [OF assms(1)] by auto
qed

theorem SendQueue_flow_window_witness:
  "SendQueue_maybeSendNewPacket 3 4 (SendQueue_new (0 :: nat) 12 0 True) = Some (0, SendQueue_new 0 12 0 True, [])"
proof -
  have "sq_inv (10, 20) (SendQueue_new (0 :: nat) 12 0 True)"
    by (rule sq_inv_new) (simp_all add: win_ok_def win_def seq_consts)
  from SendQueue_flow_window [OF this, of 3 4] show ?thesis
    by (simp add: SendQueue_new_def PacketQueue_isEmpty_def PacketQueue_new_def)
qed

text \<open>
  The pacing never waits longer than one packet interval (two when two packets went out) nor longer than
  two seconds, and the next time stamp is never further than that interval from the present.
\<close>

theorem SendQueue_pacing_bounded:
  assumes "0 < period"
  shows "\<exists>next sleep. SendQueue_run_pace n period timestamp now = (next, Some sleep)
    \<and> sleep \<le> (if n = 2 then 2 * period else period) \<and> sleep \<le> 2000000
    \<and> next \<le> now + (if n = 2 then 2 * period else period) \<and> next \<le> timestamp + (if n = 2 then 2 * period else period)"
  using assms by (auto simp: SendQueue_run_pace_def Let_def MAX_SEND_QUEUE_SLEEP_USECS_def)

theorem SendQueue_pacing_bounded_witness:
  "\<exists>next sleep. SendQueue_run_pace 1 500 90000 1000 = (next, Some sleep) \<and> sleep \<le> 500 \<and> next \<le> 1500"
  using SendQueue_pacing_bounded [of 500 1 90000 1000] by auto

end
