(* ===== verification/Udt_Stats.thy ===== *)
theory Udt_Stats
  imports Prelude
begin

text \<open>
  The counters of \<open>udt/ConnectionStats.h\<close> and \<open>ConnectionStats.cpp\<close>. The packet and byte counters are
  unsigned and wrap at their width; the events and the trailing values are \<open>int\<close>s. The current time,
  in microseconds, is an argument.
\<close>

section \<open>State\<close>

(* @src libraries/networking/src/udt/ConnectionStats.h 24-30 ConnectionStats::Stats::Event *)
datatype stats_event = SentACK | ReceivedACK | ProcessedACK

(* @src libraries/networking/src/udt/ConnectionStats.h 23-74 ConnectionStats::Stats *)
record stats =
  st_startTime :: int
  st_endTime :: int
  st_events :: "stats_event \<Rightarrow> int"
  st_sentPackets :: "32 word"
  st_receivedPackets :: "32 word"
  st_retransmittedPackets :: "32 word"
  st_duplicatePackets :: "32 word"
  st_sentUtilBytes :: "64 word"
  st_receivedUtilBytes :: "64 word"
  st_retransmittedUtilBytes :: "64 word"
  st_duplicateUtilBytes :: "64 word"
  st_sentBytes :: "64 word"
  st_receivedBytes :: "64 word"
  st_retransmittedBytes :: "64 word"
  st_duplicateBytes :: "64 word"
  st_sentUnreliablePackets :: "32 word"
  st_receivedUnreliablePackets :: "32 word"
  st_sentUnreliableUtilBytes :: "64 word"
  st_receivedUnreliableUtilBytes :: "64 word"
  st_sentUnreliableBytes :: "64 word"
  st_receivedUnreliableBytes :: "64 word"
  st_sendRate :: int
  st_receiveRate :: int
  st_estimatedBandwith :: int
  st_rtt :: int
  st_congestionWindowSize :: int
  st_packetSendPeriod :: int

(* @src libraries/networking/src/udt/ConnectionStats.h 72-73 ConnectionStats::Stats::Stats *)
definition Stats_new :: stats where
  "Stats_new = \<lparr>st_startTime = 0, st_endTime = 0, st_events = (\<lambda>_. 0),
     st_sentPackets = 0, st_receivedPackets = 0, st_retransmittedPackets = 0, st_duplicatePackets = 0,
     st_sentUtilBytes = 0, st_receivedUtilBytes = 0, st_retransmittedUtilBytes = 0, st_duplicateUtilBytes = 0,
     st_sentBytes = 0, st_receivedBytes = 0, st_retransmittedBytes = 0, st_duplicateBytes = 0,
     st_sentUnreliablePackets = 0, st_receivedUnreliablePackets = 0,
     st_sentUnreliableUtilBytes = 0, st_receivedUnreliableUtilBytes = 0,
     st_sentUnreliableBytes = 0, st_receivedUnreliableBytes = 0,
     st_sendRate = 0, st_receiveRate = 0, st_estimatedBandwith = 0, st_rtt = 0,
     st_congestionWindowSize = 0, st_packetSendPeriod = 0\<rparr>"

section \<open>Operations\<close>

(* @src libraries/networking/src/udt/ConnectionStats.cpp 19-22 ConnectionStats::ConnectionStats *)
definition ConnectionStats_new :: "int \<Rightarrow> stats" where
  "ConnectionStats_new now = Stats_new\<lparr>st_startTime := now\<rparr>"

(* @src libraries/networking/src/udt/ConnectionStats.cpp 24-33 ConnectionStats::sample *)
definition ConnectionStats_sample :: "int \<Rightarrow> stats \<Rightarrow> stats \<times> stats" where
  "ConnectionStats_sample now s = (s\<lparr>st_endTime := now\<rparr>, Stats_new\<lparr>st_startTime := now\<rparr>)"

(* @src libraries/networking/src/udt/ConnectionStats.cpp 35-37 ConnectionStats::record *)
definition ConnectionStats_record :: "stats_event \<Rightarrow> stats \<Rightarrow> stats" where
  "ConnectionStats_record ev s = s\<lparr>st_events := (st_events s)(ev := st_events s ev + 1)\<rparr>"

(* @src libraries/networking/src/udt/ConnectionStats.cpp 49-53 ConnectionStats::recordSentPackets *)
definition ConnectionStats_recordSentPackets :: "int \<Rightarrow> int \<Rightarrow> stats \<Rightarrow> stats" where
  "ConnectionStats_recordSentPackets payload wire s =
     s\<lparr>st_sentPackets := st_sentPackets s + 1,
       st_sentUtilBytes := st_sentUtilBytes s + word_of_int payload,
       st_sentBytes := st_sentBytes s + word_of_int wire\<rparr>"

(* @src libraries/networking/src/udt/ConnectionStats.cpp 55-59 ConnectionStats::recordReceivedPackets *)
definition ConnectionStats_recordReceivedPackets :: "int \<Rightarrow> int \<Rightarrow> stats \<Rightarrow> stats" where
  "ConnectionStats_recordReceivedPackets payload wire s =
     s\<lparr>st_receivedPackets := st_receivedPackets s + 1,
       st_receivedUtilBytes := st_receivedUtilBytes s + word_of_int payload,
       st_receivedBytes := st_receivedBytes s + word_of_int wire\<rparr>"

(* @src libraries/networking/src/udt/ConnectionStats.cpp 39-42 ConnectionStats::recordSentACK *)
definition ConnectionStats_recordSentACK :: "int \<Rightarrow> stats \<Rightarrow> stats" where
  "ConnectionStats_recordSentACK n s =
     ConnectionStats_recordSentPackets 0 n (ConnectionStats_record SentACK s)"

(* @src libraries/networking/src/udt/ConnectionStats.cpp 44-47 ConnectionStats::recordReceivedACK *)
definition ConnectionStats_recordReceivedACK :: "int \<Rightarrow> stats \<Rightarrow> stats" where
  "ConnectionStats_recordReceivedACK n s =
     ConnectionStats_recordReceivedPackets 0 n (ConnectionStats_record ReceivedACK s)"

(* @src libraries/networking/src/udt/ConnectionStats.cpp 61-65 ConnectionStats::recordRetransmittedPackets *)
definition ConnectionStats_recordRetransmittedPackets :: "int \<Rightarrow> int \<Rightarrow> stats \<Rightarrow> stats" where
  "ConnectionStats_recordRetransmittedPackets payload wire s =
     s\<lparr>st_retransmittedPackets := st_retransmittedPackets s + 1,
       st_retransmittedUtilBytes := st_retransmittedUtilBytes s + word_of_int payload,
       st_retransmittedBytes := st_retransmittedBytes s + word_of_int wire\<rparr>"

(* @src libraries/networking/src/udt/ConnectionStats.cpp 67-71 ConnectionStats::recordDuplicatePackets *)
definition ConnectionStats_recordDuplicatePackets :: "int \<Rightarrow> int \<Rightarrow> stats \<Rightarrow> stats" where
  "ConnectionStats_recordDuplicatePackets payload wire s =
     s\<lparr>st_duplicatePackets := st_duplicatePackets s + 1,
       st_duplicateUtilBytes := st_duplicateUtilBytes s + word_of_int payload,
       st_duplicateBytes := st_duplicateBytes s + word_of_int wire\<rparr>"

(* @src libraries/networking/src/udt/ConnectionStats.cpp 73-77 ConnectionStats::recordUnreliableSentPackets *)
definition ConnectionStats_recordUnreliableSentPackets :: "int \<Rightarrow> int \<Rightarrow> stats \<Rightarrow> stats" where
  "ConnectionStats_recordUnreliableSentPackets payload wire s =
     s\<lparr>st_sentUnreliablePackets := st_sentUnreliablePackets s + 1,
       st_sentUnreliableUtilBytes := st_sentUnreliableUtilBytes s + word_of_int payload,
       st_sentUnreliableBytes := st_sentUnreliableBytes s + word_of_int wire\<rparr>"

(* @src libraries/networking/src/udt/ConnectionStats.cpp 79-83 ConnectionStats::recordUnreliableReceivedPackets *)
definition ConnectionStats_recordUnreliableReceivedPackets :: "int \<Rightarrow> int \<Rightarrow> stats \<Rightarrow> stats" where
  "ConnectionStats_recordUnreliableReceivedPackets payload wire s =
     s\<lparr>st_receivedUnreliablePackets := st_receivedUnreliablePackets s + 1,
       st_receivedUnreliableUtilBytes := st_receivedUnreliableUtilBytes s + word_of_int payload,
       st_receivedUnreliableBytes := st_receivedUnreliableBytes s + word_of_int wire\<rparr>"

(* @src libraries/networking/src/udt/ConnectionStats.cpp 85-87 ConnectionStats::recordRoundTripTime *)
definition ConnectionStats_recordRoundTripTime :: "int \<Rightarrow> stats \<Rightarrow> stats" where
  "ConnectionStats_recordRoundTripTime sample s = s\<lparr>st_rtt := sample\<rparr>"

(* @src libraries/networking/src/udt/ConnectionStats.cpp 89-91 ConnectionStats::recordCongestionWindowSize *)
definition ConnectionStats_recordCongestionWindowSize :: "int \<Rightarrow> stats \<Rightarrow> stats" where
  "ConnectionStats_recordCongestionWindowSize sample s = s\<lparr>st_congestionWindowSize := sample\<rparr>"

(* @src libraries/networking/src/udt/ConnectionStats.cpp 93-95 ConnectionStats::recordPacketSendPeriod *)
definition ConnectionStats_recordPacketSendPeriod :: "int \<Rightarrow> stats \<Rightarrow> stats" where
  "ConnectionStats_recordPacketSendPeriod sample s = s\<lparr>st_packetSendPeriod := sample\<rparr>"

lemmas stats_ops = ConnectionStats_record_def ConnectionStats_recordSentPackets_def
  ConnectionStats_recordReceivedPackets_def ConnectionStats_recordSentACK_def
  ConnectionStats_recordReceivedACK_def ConnectionStats_recordRetransmittedPackets_def
  ConnectionStats_recordDuplicatePackets_def ConnectionStats_recordUnreliableSentPackets_def
  ConnectionStats_recordUnreliableReceivedPackets_def

section \<open>Properties\<close>

text \<open>
  Sampling loses no event: what is sampled now and what the fresh sample has counted after any
  further received packets add up, in the width of the counters, to what one unsampled counter
  would hold, and the two intervals meet at the time of the sample.
\<close>

theorem ConnectionStats_sample_additive:
  assumes "ConnectionStats_sample now s = (out, s')"
    and "step = (\<lambda>(payload, wire). ConnectionStats_recordReceivedPackets payload wire)"
  shows "st_receivedPackets out + st_receivedPackets (fold step xs s') = st_receivedPackets (fold step xs s)
    \<and> st_receivedBytes out + st_receivedBytes (fold step xs s') = st_receivedBytes (fold step xs s)
    \<and> st_receivedUtilBytes out + st_receivedUtilBytes (fold step xs s') = st_receivedUtilBytes (fold step xs s)
    \<and> st_endTime out = now \<and> st_startTime (fold step xs s') = now"
proof -
  have step: "st_receivedPackets (fold step xs u) = st_receivedPackets u + of_nat (length xs)
      \<and> st_receivedBytes (fold step xs u) = st_receivedBytes u + word_of_int (\<Sum>x \<leftarrow> xs. snd x)
      \<and> st_receivedUtilBytes (fold step xs u) = st_receivedUtilBytes u + word_of_int (\<Sum>x \<leftarrow> xs. fst x)
      \<and> st_startTime (fold step xs u) = st_startTime u" for u xs
    by (induction xs arbitrary: u)
      (auto simp: assms(2) ConnectionStats_recordReceivedPackets_def split: prod.splits)
  show ?thesis
    using assms(1) by (auto simp: ConnectionStats_sample_def Stats_new_def step)
qed

theorem ConnectionStats_sample_additive_witness:
  "st_receivedPackets (ConnectionStats_recordReceivedPackets 10 14 (ConnectionStats_new 5)) = 1"
  using ConnectionStats_sample_additive [OF _ refl, of 9 "ConnectionStats_new 5"
      "fst (ConnectionStats_sample 9 (ConnectionStats_new 5))" "snd (ConnectionStats_sample 9 (ConnectionStats_new 5))"
      "[(10, 14)]"]
  by (simp add: ConnectionStats_sample_def ConnectionStats_new_def Stats_new_def
      ConnectionStats_recordReceivedPackets_def)

end
