(* ===== verification/Udt_Vegas.thy ===== *)
theory Udt_Vegas
  imports Udt_Constants Complex_Main
begin

text \<open>
  Congestion control: the base class of \<open>udt/CongestionControl.h\<close> and \<open>CongestionControl.cpp\<close> and
  the TCP Vegas variant of \<open>TCPVegasCC.h\<close> and \<open>TCPVegasCC.cpp\<close>, which decides the congestion window,
  the retransmission timeout and when to retransmit at once.

  Times are microseconds and the current time is an argument. A count of microseconds that is stored
  in an \<open>int\<close> goes through \<open>wrap32\<close>. A \<open>double\<close> is a \<open>real\<close>. The one product that can leave the range
  of \<open>int\<close> (\<open>expectedWindowSize\<close>) also goes through \<open>wrap32\<close>, what the hardware does with an overflow
  that C++ leaves undefined.
\<close>

section \<open>The base class\<close>

(* @src libraries/networking/src/udt/CongestionControl.h 26-26 udt::DEFAULT_SYN_INTERVAL *)
definition DEFAULT_SYN_INTERVAL :: int where
  "DEFAULT_SYN_INTERVAL = 2000000"

(* @src libraries/networking/src/udt/CongestionControl.h 60-67 CongestionControl *)
record congestion_control =
  cc_packetSendPeriod :: real
  cc_roundTripTime :: int
  cc_congestionWindowSize :: int
  cc_maxBandwidth :: int
  cc_mss :: int
  cc_sendCurrSeqNum :: seqnum

(* @src libraries/networking/src/udt/CongestionControl.cpp 29-41 CongestionControl::setPacketSendPeriod *)
definition CongestionControl_setPacketSendPeriod ::
  "real \<Rightarrow> 'm congestion_control_scheme \<Rightarrow> 'm congestion_control_scheme" where
  "CongestionControl_setPacketSendPeriod newSendPeriod c =
     (let packetsPerSecond = (if cc_mss c > 0 then real_of_int (cc_maxBandwidth c) / real_of_int (8 * cc_mss c) else -1)
      in if packetsPerSecond > 0
         then c\<lparr>cc_packetSendPeriod := max newSendPeriod (1000000 / packetsPerSecond)\<rparr>
         else c\<lparr>cc_packetSendPeriod := newSendPeriod\<rparr>)"

(* @src libraries/networking/src/udt/CongestionControl.cpp 24-27 CongestionControl::setMaxBandwidth *)
definition CongestionControl_setMaxBandwidth ::
  "int \<Rightarrow> 'm congestion_control_scheme \<Rightarrow> 'm congestion_control_scheme" where
  "CongestionControl_setMaxBandwidth maxBandwidth c =
     CongestionControl_setPacketSendPeriod (cc_packetSendPeriod c) (c\<lparr>cc_maxBandwidth := maxBandwidth\<rparr>)"

(* @src libraries/networking/src/udt/CongestionControl.h 55-55 CongestionControl::setMSS *)
definition CongestionControl_setMSS :: "int \<Rightarrow> 'm congestion_control_scheme \<Rightarrow> 'm congestion_control_scheme" where
  "CongestionControl_setMSS mss c = c\<lparr>cc_mss := mss\<rparr>"

(* @src libraries/networking/src/udt/CongestionControl.h 57-57 CongestionControl::setSendCurrentSequenceNumber *)
definition CongestionControl_setSendCurrentSequenceNumber ::
  "seqnum \<Rightarrow> 'm congestion_control_scheme \<Rightarrow> 'm congestion_control_scheme" where
  "CongestionControl_setSendCurrentSequenceNumber seqNum c = c\<lparr>cc_sendCurrSeqNum := seqNum\<rparr>"

section \<open>TCP Vegas\<close>

(* @src libraries/networking/src/udt/TCPVegasCC.h 47-54 TCPVegasCC::SentPacketData *)
record sent_packet_data =
  spd_sequenceNumber :: seqnum
  spd_timePoint :: int
  spd_wasResent :: bool

(* @src libraries/networking/src/udt/TCPVegasCC.h 56-78 TCPVegasCC *)
record vegas = congestion_control +
  vg_sentPacketDatas :: "sent_packet_data list"
  vg_lastAdjustmentTime :: int
  vg_slowStart :: bool
  vg_lastACK :: seqnum
  vg_numACKSinceFastRetransmit :: int
  vg_currentMinRTT :: int
  vg_baseRTT :: int
  vg_ewmaRTT :: int
  vg_rttVariance :: int
  vg_numRTTs :: int
  vg_ackAICount :: int
  vg_duplicateACKCount :: int
  vg_slowStartOddAdjust :: int

(* @src libraries/networking/src/udt/TCPVegasCC.cpp 20-28 TCPVegasCC::TCPVegasCC *)
definition TCPVegasCC_new :: vegas where
  "TCPVegasCC_new =
     \<lparr>cc_packetSendPeriod = 0, cc_roundTripTime = -1, cc_congestionWindowSize = 2, cc_maxBandwidth = -1,
      cc_mss = 0, cc_sendCurrSeqNum = SequenceNumber_default,
      vg_sentPacketDatas = [], vg_lastAdjustmentTime = 0, vg_slowStart = True,
      vg_lastACK = SequenceNumber_default, vg_numACKSinceFastRetransmit = 3,
      vg_currentMinRTT = INT_MAX, vg_baseRTT = INT_MAX, vg_ewmaRTT = -1, vg_rttVariance = 0,
      vg_numRTTs = 0, vg_ackAICount = 0, vg_duplicateACKCount = 0, vg_slowStartOddAdjust = 0\<rparr>"

(* @src libraries/networking/src/udt/TCPVegasCC.h 39-39 TCPVegasCC::setInitialSendSequenceNumber *)
definition TCPVegasCC_setInitialSendSequenceNumber :: "seqnum \<Rightarrow> vegas \<Rightarrow> vegas" where
  "TCPVegasCC_setInitialSendSequenceNumber seqNum c = c\<lparr>vg_lastACK := SequenceNumber_minus seqNum 1\<rparr>"

(* @src libraries/networking/src/udt/TCPVegasCC.cpp 34-34 TCPVegasCC::calculateRTT(MAX_RTT_SAMPLE_MICROSECONDS) *)
definition MAX_RTT_SAMPLE_MICROSECONDS :: int where
  "MAX_RTT_SAMPLE_MICROSECONDS = 10000000"

(* @src libraries/networking/src/udt/TCPVegasCC.cpp 30-81 TCPVegasCC::calculateRTT *)
definition TCPVegasCC_calculateRTT :: "int \<Rightarrow> int \<Rightarrow> vegas \<Rightarrow> bool \<times> vegas" where
  "TCPVegasCC_calculateRTT sendTime receiveTime c =
     (let sample = wrap32 (receiveTime - sendTime) in
      if sample < 0 then (False, c)
      else
        let lastRTT = (if sample = 0 then 1
                       else if sample > MAX_RTT_SAMPLE_MICROSECONDS then MAX_RTT_SAMPLE_MICROSECONDS
                       else sample);
            c1 = (if vg_ewmaRTT c = -1
                  then c\<lparr>vg_ewmaRTT := lastRTT, vg_rttVariance := cdiv lastRTT 2\<rparr>
                  else
                    let ewma = cdiv (vg_ewmaRTT c * (8 - 1) + lastRTT) 8
                    in c\<lparr>vg_ewmaRTT := ewma,
                         vg_rttVariance := cdiv (vg_rttVariance c * (4 - 1) + \<bar>lastRTT - ewma\<bar>) 4\<rparr>)
        in (True, c1\<lparr>vg_baseRTT := min (vg_baseRTT c1) lastRTT,
                     vg_currentMinRTT := min (vg_currentMinRTT c1) lastRTT,
                     vg_numRTTs := vg_numRTTs c1 + 1, cc_roundTripTime := vg_ewmaRTT c1\<rparr>))"

(* @src libraries/networking/src/udt/TCPVegasCC.cpp 254-256 TCPVegasCC::estimatedTimeout *)
definition TCPVegasCC_estimatedTimeout :: "vegas \<Rightarrow> int" where
  "TCPVegasCC_estimatedTimeout c =
     (if vg_ewmaRTT c = -1 then DEFAULT_SYN_INTERVAL else vg_ewmaRTT c + vg_rttVariance c * 4)"

(* @src libraries/networking/src/udt/TCPVegasCC.cpp 258-264 TCPVegasCC::isCongestionWindowLimited *)
definition TCPVegasCC_isCongestionWindowLimited :: "vegas \<Rightarrow> bool" where
  "TCPVegasCC_isCongestionWindowLimited c =
     (if vg_slowStart c then True
      else seqlen (cc_sendCurrSeqNum c) (vg_lastACK c) < cc_congestionWindowSize c)"

text \<open>The additive increase at the end of the Reno step.\<close>

(* @src libraries/networking/src/udt/TCPVegasCC.cpp 290-314 TCPVegasCC::performRenoCongestionAvoidance(additive increase) *)
definition TCPVegasCC_renoAdditiveIncrease :: "int \<Rightarrow> vegas \<Rightarrow> vegas" where
  "TCPVegasCC_renoAdditiveIncrease numRTTCollected c =
     (let preAIWindowSize = cc_congestionWindowSize c in
      if numRTTCollected > 0 then
        let c1 = (if vg_ackAICount c \<ge> preAIWindowSize
                  then c\<lparr>vg_ackAICount := 0, cc_congestionWindowSize := cc_congestionWindowSize c + 1\<rparr> else c);
            count = vg_ackAICount c1 + numRTTCollected
        in if count \<ge> preAIWindowSize
           then let delta = cdiv count preAIWindowSize
                in c1\<lparr>vg_ackAICount := count - delta * preAIWindowSize,
                      cc_congestionWindowSize := cc_congestionWindowSize c1 + delta\<rparr>
           else c1\<lparr>vg_ackAICount := count\<rparr>
      else c)"

(* @src libraries/networking/src/udt/TCPVegasCC.cpp 266-315 TCPVegasCC::performRenoCongestionAvoidance *)
definition TCPVegasCC_performRenoCongestionAvoidance :: "vegas \<Rightarrow> vegas" where
  "TCPVegasCC_performRenoCongestionAvoidance c =
     (if \<not> TCPVegasCC_isCongestionWindowLimited c then c
      else
        let (c1, numRTTCollected) =
          (if vg_slowStart c then
             let congestionWindow = cc_congestionWindowSize c + vg_numRTTs c in
             if congestionWindow > MAX_PACKETS_IN_FLIGHT
             then (c\<lparr>cc_congestionWindowSize := MAX_PACKETS_IN_FLIGHT\<rparr>, congestionWindow - MAX_PACKETS_IN_FLIGHT)
             else (c\<lparr>cc_congestionWindowSize := congestionWindow\<rparr>, 0)
           else (c, vg_numRTTs c))
        in TCPVegasCC_renoAdditiveIncrease numRTTCollected c1)"

text \<open>The adjustment proper: Reno with at most two samples, otherwise Vegas.\<close>

(* @src libraries/networking/src/udt/TCPVegasCC.cpp 195-233 TCPVegasCC::performCongestionAvoidance(adjust) *)
definition TCPVegasCC_adjustWindow :: "vegas \<Rightarrow> vegas" where
  "TCPVegasCC_adjustWindow c =
     (let rtt = vg_currentMinRTT c;
          windowSizeDiff = cdiv (cc_congestionWindowSize c * (rtt - vg_baseRTT c)) (vg_baseRTT c)
      in if vg_numRTTs c \<le> 2 then TCPVegasCC_performRenoCongestionAvoidance c
         else if vg_slowStart c then
           if windowSizeDiff > 1 then
             let expectedWindowSize = cdiv (wrap32 (cc_congestionWindowSize c * vg_baseRTT c)) rtt
             in c\<lparr>vg_slowStart := False, vg_baseRTT := INT_MAX,
                  cc_congestionWindowSize := min (cc_congestionWindowSize c) (expectedWindowSize + 1)\<rparr>
           else
             let odd = vg_slowStartOddAdjust c + 1
             in if crem odd 2 \<noteq> 0
                then c\<lparr>vg_slowStartOddAdjust := odd, cc_congestionWindowSize := cc_congestionWindowSize c * 2\<rparr>
                else c\<lparr>vg_slowStartOddAdjust := odd\<rparr>
         else if windowSizeDiff > 6 then c\<lparr>cc_congestionWindowSize := cc_congestionWindowSize c - 1\<rparr>
         else if windowSizeDiff < 4 then c\<lparr>cc_congestionWindowSize := cc_congestionWindowSize c + 1\<rparr>
         else c)"

(* @src libraries/networking/src/udt/TCPVegasCC.cpp 182-251 TCPVegasCC::performCongestionAvoidance *)
definition TCPVegasCC_performCongestionAvoidance :: "int \<Rightarrow> vegas \<Rightarrow> vegas" where
  "TCPVegasCC_performCongestionAvoidance now c =
     (let c1 = TCPVegasCC_adjustWindow c;
          c2 = (if cc_congestionWindowSize c1 < 2 then c1\<lparr>cc_congestionWindowSize := 2\<rparr>
                else if cc_congestionWindowSize c1 > MAX_PACKETS_IN_FLIGHT
                then c1\<lparr>cc_congestionWindowSize := MAX_PACKETS_IN_FLIGHT\<rparr> else c1)
      in c2\<lparr>vg_lastAdjustmentTime := now, vg_currentMinRTT := INT_MAX, vg_numRTTs := 0\<rparr>)"

text \<open>Three duplicates in a row: the fallback of \<open>needsFastRetransmit\<close>.\<close>

(* @src libraries/networking/src/udt/TCPVegasCC.cpp 162-179 TCPVegasCC::needsFastRetransmit(Reno fallback) *)
definition TCPVegasCC_renoFastRetransmit :: "bool \<Rightarrow> vegas \<Rightarrow> bool \<times> vegas" where
  "TCPVegasCC_renoFastRetransmit wasDuplicateACK c =
     (let count = vg_duplicateACKCount c + 1 in
      if wasDuplicateACK \<and> count = 3
      then (True, c\<lparr>vg_slowStart := False, vg_numACKSinceFastRetransmit := 0, vg_duplicateACKCount := 0\<rparr>)
      else (False, c\<lparr>vg_duplicateACKCount := count\<rparr>))"

(* @src libraries/networking/src/udt/TCPVegasCC.cpp 139-180 TCPVegasCC::needsFastRetransmit *)
definition TCPVegasCC_needsFastRetransmit :: "int \<Rightarrow> seqnum \<Rightarrow> bool \<Rightarrow> vegas \<Rightarrow> bool \<times> vegas" where
  "TCPVegasCC_needsFastRetransmit now ack wasDuplicateACK c =
     (case find (\<lambda>d. spd_sequenceNumber d = SequenceNumber_plus ack 1) (vg_sentPacketDatas c) of
        Some d \<Rightarrow>
          if now - spd_timePoint d \<ge> TCPVegasCC_estimatedTimeout c
          then (True, c\<lparr>vg_slowStart := False, vg_numACKSinceFastRetransmit := 0\<rparr>)
          else TCPVegasCC_renoFastRetransmit wasDuplicateACK c
      | None \<Rightarrow> TCPVegasCC_renoFastRetransmit wasDuplicateACK c)"

text \<open>
  The first half of \<open>onACK\<close>: the sample, if this ACK gives one. The flag is \<open>False\<close> when the RTT is
  invalid, in which case \<open>onACK\<close> returns at once.
\<close>

(* @src libraries/networking/src/udt/TCPVegasCC.cpp 85-118 TCPVegasCC::onACK(sample) *)
definition TCPVegasCC_onACK_sample :: "seqnum \<Rightarrow> int \<Rightarrow> vegas \<Rightarrow> bool \<times> vegas" where
  "TCPVegasCC_onACK_sample ack receiveTime c =
     (let previousAck = vg_lastACK c;
          c1 = c\<lparr>vg_lastACK := ack\<rparr>;
          datas = vg_sentPacketDatas c
      in case dropWhile (\<lambda>d. spd_sequenceNumber d \<noteq> ack) datas of
           [] \<Rightarrow> (True, c1)
         | it # rest \<Rightarrow>
             if ack = previousAck then (True, c1)
             else
               let canBeUsedForRTT =
                     \<not> list_ex (\<lambda>d. SequenceNumber_gt (spd_sequenceNumber d) previousAck
                                   \<and> SequenceNumber_le (spd_sequenceNumber d) ack \<and> spd_wasResent d) datas;
                   c2 = c1\<lparr>vg_sentPacketDatas := rest\<rparr>
               in if canBeUsedForRTT then TCPVegasCC_calculateRTT (spd_timePoint it) receiveTime c2
                  else (True, c2))"

(* @src libraries/networking/src/udt/TCPVegasCC.cpp 83-137 TCPVegasCC::onACK *)
definition TCPVegasCC_onACK :: "int \<Rightarrow> seqnum \<Rightarrow> int \<Rightarrow> vegas \<Rightarrow> bool \<times> vegas" where
  "TCPVegasCC_onACK now ack receiveTime c =
     (let wasDuplicateACK = (ack = vg_lastACK c);
          (ok, c1) = TCPVegasCC_onACK_sample ack receiveTime c
      in if \<not> ok then (False, c1)
         else
           let c2 = (if now - vg_lastAdjustmentTime c1 \<ge> vg_ewmaRTT c1
                     then TCPVegasCC_performCongestionAvoidance now c1 else c1);
               c3 = c2\<lparr>vg_numACKSinceFastRetransmit := vg_numACKSinceFastRetransmit c2 + 1\<rparr>
           in if wasDuplicateACK \<or> vg_numACKSinceFastRetransmit c3 < 3
              then TCPVegasCC_needsFastRetransmit now ack wasDuplicateACK c3
              else (False, c3\<lparr>vg_duplicateACKCount := 0\<rparr>))"

(* @src libraries/networking/src/udt/TCPVegasCC.cpp 317-319 TCPVegasCC::onPacketSent *)
definition TCPVegasCC_onPacketSent :: "seqnum \<Rightarrow> int \<Rightarrow> vegas \<Rightarrow> vegas" where
  "TCPVegasCC_onPacketSent seqNum timePoint c =
     c\<lparr>vg_sentPacketDatas := vg_sentPacketDatas c
         @ [\<lparr>spd_sequenceNumber = seqNum, spd_timePoint = timePoint, spd_wasResent = False\<rparr>]\<rparr>"

text \<open>The first entry with the number, and only it, is marked.\<close>

(* @src libraries/networking/src/udt/TCPVegasCC.cpp 321-332 TCPVegasCC::onPacketReSent *)
definition TCPVegasCC_onPacketReSent :: "seqnum \<Rightarrow> vegas \<Rightarrow> vegas" where
  "TCPVegasCC_onPacketReSent seqNum c =
     c\<lparr>vg_sentPacketDatas :=
         (let datas = vg_sentPacketDatas c; miss = (\<lambda>d. spd_sequenceNumber d \<noteq> seqNum) in
          case dropWhile miss datas of
            [] \<Rightarrow> datas
          | it # rest \<Rightarrow> takeWhile miss datas @ it\<lparr>spd_wasResent := True\<rparr> # rest)\<rparr>"

section \<open>The invariant\<close>

definition vegas_inv :: "vegas \<Rightarrow> bool" where
  "vegas_inv c \<longleftrightarrow> 2 \<le> cc_congestionWindowSize c \<and> cc_congestionWindowSize c \<le> MAX_PACKETS_IN_FLIGHT
     \<and> 1 \<le> vg_baseRTT c \<and> vg_baseRTT c \<le> vg_currentMinRTT c \<and> vg_currentMinRTT c \<le> INT_MAX
     \<and> (vg_ewmaRTT c = -1 \<or> 1 \<le> vg_ewmaRTT c \<and> vg_ewmaRTT c \<le> MAX_RTT_SAMPLE_MICROSECONDS)
     \<and> 0 \<le> vg_rttVariance c \<and> vg_rttVariance c \<le> MAX_RTT_SAMPLE_MICROSECONDS
     \<and> 0 \<le> vg_numRTTs c \<and> 0 \<le> vg_ackAICount c"

lemmas vegas_consts = MAX_PACKETS_IN_FLIGHT_def MAX_RTT_SAMPLE_MICROSECONDS_def INT_MAX_def

lemma vegas_inv_new: "vegas_inv TCPVegasCC_new"
  by (simp add: vegas_inv_def TCPVegasCC_new_def vegas_consts)

lemma calculateRTT_inv:
  assumes inv: "vegas_inv c" and r: "TCPVegasCC_calculateRTT sendTime receiveTime c = (ok, c')"
  shows "vegas_inv c'"
proof (cases "wrap32 (receiveTime - sendTime) < 0")
  case True
  then show ?thesis
    using r inv by (simp add: TCPVegasCC_calculateRTT_def)
next
  case False
  obtain m where m: "m = (if wrap32 (receiveTime - sendTime) = 0 then 1
      else if wrap32 (receiveTime - sendTime) > MAX_RTT_SAMPLE_MICROSECONDS then MAX_RTT_SAMPLE_MICROSECONDS
      else wrap32 (receiveTime - sendTime))"
    by blast
  have b: "1 \<le> m" "m \<le> 10000000"
    using False by (auto simp: m vegas_consts)
  show ?thesis
  proof (cases "vg_ewmaRTT c = -1")
    case True
    then have "c' = c\<lparr>vg_ewmaRTT := m, vg_rttVariance := cdiv m 2, vg_baseRTT := min (vg_baseRTT c) m,
        vg_currentMinRTT := min (vg_currentMinRTT c) m, vg_numRTTs := vg_numRTTs c + 1, cc_roundTripTime := m\<rparr>"
      using False r by (simp add: TCPVegasCC_calculateRTT_def Let_def flip: m)
    then show ?thesis
      using inv b by (auto simp: vegas_inv_def cdiv_nonneg vegas_consts min_def)
  next
    case old: False
    obtain e where e: "e = cdiv (vg_ewmaRTT c * 7 + m) 8" by blast
    have c': "c' = c\<lparr>vg_ewmaRTT := e, vg_rttVariance := cdiv (vg_rttVariance c * 3 + \<bar>m - e\<bar>) 4,
        vg_baseRTT := min (vg_baseRTT c) m, vg_currentMinRTT := min (vg_currentMinRTT c) m,
        vg_numRTTs := vg_numRTTs c + 1, cc_roundTripTime := e\<rparr>"
      using False r old by (simp add: TCPVegasCC_calculateRTT_def Let_def e flip: m)
    have "1 \<le> vg_ewmaRTT c" "vg_ewmaRTT c \<le> 10000000"
      using inv old by (auto simp: vegas_inv_def vegas_consts)
    then have eb: "1 \<le> e" "e \<le> 10000000"
      using b by (auto simp: e cdiv_nonneg)
    then have "0 \<le> vg_rttVariance c * 3 + \<bar>m - e\<bar>" "vg_rttVariance c * 3 + \<bar>m - e\<bar> \<le> 40000000"
      using b inv by (auto simp: vegas_inv_def vegas_consts)
    then show ?thesis
      using inv b eb by (auto simp: c' vegas_inv_def cdiv_nonneg vegas_consts min_def)
  qed
qed

lemma additive_increase_count:
  assumes "0 \<le> vg_ackAICount c" and "0 < cc_congestionWindowSize c"
  shows "0 \<le> vg_ackAICount (TCPVegasCC_renoAdditiveIncrease n c)
    \<and> vg_baseRTT (TCPVegasCC_renoAdditiveIncrease n c) = vg_baseRTT c
    \<and> vg_ewmaRTT (TCPVegasCC_renoAdditiveIncrease n c) = vg_ewmaRTT c
    \<and> vg_rttVariance (TCPVegasCC_renoAdditiveIncrease n c) = vg_rttVariance c"
proof -
  have "0 \<le> k - cdiv k w * w" if "0 \<le> k" "0 < w" for k w
    using that by (simp add: cdiv_nonneg minus_div_mult_eq_mod)
  then show ?thesis
    using assms by (auto simp: TCPVegasCC_renoAdditiveIncrease_def Let_def)
qed

text \<open>What the adjustment may change: the window, slow start, the base RTT (only to \<open>INT_MAX\<close>), the credits.\<close>

lemma adjustWindow_frame:
  assumes inv: "vegas_inv c"
  shows "0 \<le> vg_ackAICount (TCPVegasCC_adjustWindow c)
    \<and> (vg_baseRTT (TCPVegasCC_adjustWindow c) = vg_baseRTT c \<or> vg_baseRTT (TCPVegasCC_adjustWindow c) = INT_MAX)
    \<and> vg_ewmaRTT (TCPVegasCC_adjustWindow c) = vg_ewmaRTT c
    \<and> vg_rttVariance (TCPVegasCC_adjustWindow c) = vg_rttVariance c"
proof -
  have c: "0 \<le> vg_ackAICount c" "0 < cc_congestionWindowSize c" "0 \<le> vg_numRTTs c"
    using inv by (auto simp: vegas_inv_def)
  let ?r = "TCPVegasCC_performRenoCongestionAvoidance c"
  have reno: "0 \<le> vg_ackAICount ?r \<and> vg_baseRTT ?r = vg_baseRTT c \<and> vg_ewmaRTT ?r = vg_ewmaRTT c
      \<and> vg_rttVariance ?r = vg_rttVariance c"
  proof -
    have "0 \<le> vg_ackAICount (c\<lparr>cc_congestionWindowSize := w\<rparr>)" for w
      using c(1) by simp
    then show ?thesis
      using c additive_increase_count [of "c\<lparr>cc_congestionWindowSize := w\<rparr>" for w] additive_increase_count [of c]
      by (auto simp: TCPVegasCC_performRenoCongestionAvoidance_def Let_def vegas_consts)
  qed
  show ?thesis
    using reno c(1) by (simp add: TCPVegasCC_adjustWindow_def Let_def)
qed

lemma performCongestionAvoidance_inv:
  assumes inv: "vegas_inv c"
  shows "vegas_inv (TCPVegasCC_performCongestionAvoidance now c)"
    and "vg_ewmaRTT (TCPVegasCC_performCongestionAvoidance now c) = vg_ewmaRTT c"
    and "vg_rttVariance (TCPVegasCC_performCongestionAvoidance now c) = vg_rttVariance c"
proof -
  note F = adjustWindow_frame [OF inv]
  show "vegas_inv (TCPVegasCC_performCongestionAvoidance now c)"
    using F inv by (auto simp: TCPVegasCC_performCongestionAvoidance_def Let_def vegas_inv_def vegas_consts)
  show "vg_ewmaRTT (TCPVegasCC_performCongestionAvoidance now c) = vg_ewmaRTT c"
    and "vg_rttVariance (TCPVegasCC_performCongestionAvoidance now c) = vg_rttVariance c"
    using F by (simp_all add: TCPVegasCC_performCongestionAvoidance_def Let_def)
qed

lemma vegas_inv_cong:
  assumes "vegas_inv c" and "cc_congestionWindowSize d = cc_congestionWindowSize c" and "vg_baseRTT d = vg_baseRTT c"
    and "vg_currentMinRTT d = vg_currentMinRTT c" and "vg_ewmaRTT d = vg_ewmaRTT c"
    and "vg_rttVariance d = vg_rttVariance c" and "vg_numRTTs d = vg_numRTTs c" and "vg_ackAICount d = vg_ackAICount c"
  shows "vegas_inv d"
  using assms by (simp add: vegas_inv_def)

lemma needsFastRetransmit_frame:
  assumes "TCPVegasCC_needsFastRetransmit now ack dup c = (b, c')"
  shows "cc_congestionWindowSize c' = cc_congestionWindowSize c \<and> vg_baseRTT c' = vg_baseRTT c
    \<and> vg_currentMinRTT c' = vg_currentMinRTT c \<and> vg_ewmaRTT c' = vg_ewmaRTT c
    \<and> vg_rttVariance c' = vg_rttVariance c \<and> vg_numRTTs c' = vg_numRTTs c \<and> vg_ackAICount c' = vg_ackAICount c"
  using assms
  by (auto simp: TCPVegasCC_needsFastRetransmit_def TCPVegasCC_renoFastRetransmit_def Let_def
      split: option.splits if_splits)

lemma onACK_sample_inv:
  assumes inv: "vegas_inv c" and r: "TCPVegasCC_onACK_sample ack t c = (ok, c')"
  shows "vegas_inv c'"
proof -
  have up: "vegas_inv (c\<lparr>vg_lastACK := a\<rparr>)" "vegas_inv (c\<lparr>vg_lastACK := a, vg_sentPacketDatas := ds\<rparr>)" for a ds
    by (rule vegas_inv_cong [OF inv]; simp)+
  show ?thesis
    using r inv up calculateRTT_inv [OF up(2)]
    by (auto simp: TCPVegasCC_onACK_sample_def Let_def split: list.splits if_splits)
qed

lemma onACK_inv:
  assumes inv: "vegas_inv c" and r: "TCPVegasCC_onACK now ack t c = (b, c')"
  shows "vegas_inv c'"
proof -
  obtain ok c1 where s: "TCPVegasCC_onACK_sample ack t c = (ok, c1)"
    by (metis surj_pair)
  have 1: "vegas_inv c1" by (rule onACK_sample_inv [OF inv s])
  show ?thesis
  proof (cases ok)
    case False
    then show ?thesis
      using r s 1 by (simp add: TCPVegasCC_onACK_def Let_def)
  next
    case True
    let ?c2 = "if now - vg_lastAdjustmentTime c1 \<ge> vg_ewmaRTT c1
      then TCPVegasCC_performCongestionAvoidance now c1 else c1"
    obtain c2 where c2: "?c2 = c2" by blast
    let ?c3 = "c2\<lparr>vg_numACKSinceFastRetransmit := vg_numACKSinceFastRetransmit c2 + 1\<rparr>"
    have 2: "vegas_inv c2"
      using 1 performCongestionAvoidance_inv(1) [OF 1] by (simp flip: c2)
    have 3: "vegas_inv ?c3" "vegas_inv (?c3\<lparr>vg_duplicateACKCount := 0\<rparr>)"
      by (rule vegas_inv_cong [OF 2]; simp)+
    have "TCPVegasCC_onACK now ack t c = (if ack = vg_lastACK c \<or> vg_numACKSinceFastRetransmit ?c3 < 3
        then TCPVegasCC_needsFastRetransmit now ack (ack = vg_lastACK c) ?c3
        else (False, ?c3\<lparr>vg_duplicateACKCount := 0\<rparr>))"
      by (simp only: TCPVegasCC_onACK_def Let_def s prod.case True not_True_eq_False if_False c2)
    then show ?thesis
      using r 3 needsFastRetransmit_frame [of now ack "ack = vg_lastACK c" ?c3 b c'] vegas_inv_cong [of ?c3 c']
      by (auto split: if_splits)
  qed
qed

section \<open>Reachable states\<close>

inductive vegas_reachable :: "vegas \<Rightarrow> bool" where
  init: "vegas_reachable TCPVegasCC_new"
| onACK: "vegas_reachable c \<Longrightarrow> TCPVegasCC_onACK now ack t c = (b, c') \<Longrightarrow> vegas_reachable c'"
| sent: "vegas_reachable c \<Longrightarrow> vegas_reachable (TCPVegasCC_onPacketSent s t c)"
| resent: "vegas_reachable c \<Longrightarrow> vegas_reachable (TCPVegasCC_onPacketReSent s c)"
| initial: "vegas_reachable c \<Longrightarrow> vegas_reachable (TCPVegasCC_setInitialSendSequenceNumber s c)"
| mss: "vegas_reachable c \<Longrightarrow> vegas_reachable (CongestionControl_setMSS m c)"
| current: "vegas_reachable c \<Longrightarrow> vegas_reachable (CongestionControl_setSendCurrentSequenceNumber s c)"
| bandwidth: "vegas_reachable c \<Longrightarrow> vegas_reachable (CongestionControl_setMaxBandwidth w c)"

lemma vegas_reachable_inv: "vegas_reachable c \<Longrightarrow> vegas_inv c"
proof (induction rule: vegas_reachable.induct)
  case (onACK c now ack t b c')
  then show ?case by (simp add: onACK_inv)
next
  case (bandwidth c w)
  then show ?case
    by (intro vegas_inv_cong [OF bandwidth.IH])
      (simp_all add: CongestionControl_setMaxBandwidth_def CongestionControl_setPacketSendPeriod_def Let_def)
qed (erule vegas_inv_cong;
    simp add: TCPVegasCC_onPacketSent_def TCPVegasCC_onPacketReSent_def TCPVegasCC_setInitialSendSequenceNumber_def
      CongestionControl_setMSS_def CongestionControl_setSendCurrentSequenceNumber_def | rule vegas_inv_new)+

section \<open>Properties\<close>

text \<open>
  C24. In every reachable state of TCP Vegas the congestion window is between 2 packets and the flight
  limit, the base RTT is at most the current minimum and at least one microsecond (so no division is
  by zero), the smoothed RTT is unset or between 1 microsecond and 10 seconds, and the estimated
  timeout is positive and at most 50 seconds.
\<close>

theorem Vegas_window_and_timeout_bounds:
  assumes "vegas_reachable c"
  shows "2 \<le> cc_congestionWindowSize c \<and> cc_congestionWindowSize c \<le> MAX_PACKETS_IN_FLIGHT
    \<and> 1 \<le> vg_baseRTT c \<and> vg_baseRTT c \<le> vg_currentMinRTT c
    \<and> (vg_ewmaRTT c = -1 \<or> 1 \<le> vg_ewmaRTT c \<and> vg_ewmaRTT c \<le> MAX_RTT_SAMPLE_MICROSECONDS)
    \<and> 0 < TCPVegasCC_estimatedTimeout c \<and> TCPVegasCC_estimatedTimeout c \<le> 50000000"
  using vegas_reachable_inv [OF assms]
  by (auto simp: vegas_inv_def TCPVegasCC_estimatedTimeout_def DEFAULT_SYN_INTERVAL_def vegas_consts)

theorem Vegas_window_and_timeout_bounds_witness:
  "2 \<le> cc_congestionWindowSize (TCPVegasCC_onPacketSent 5 0 TCPVegasCC_new)"
  using Vegas_window_and_timeout_bounds [OF vegas_reachable.sent [OF vegas_reachable.init, of 5 0]] by simp

text \<open>
  Karn's rule: an ACK that covers a packet that was retransmitted gives no RTT sample; the
  smoothed RTT and its variance are left as they were.
\<close>

theorem Vegas_no_sample_from_resent:
  assumes inv: "vegas_inv c" and d: "d \<in> set (vg_sentPacketDatas c)" "spd_wasResent d"
    and covered: "SequenceNumber_gt (spd_sequenceNumber d) (vg_lastACK c)" "SequenceNumber_le (spd_sequenceNumber d) ack"
    and r: "TCPVegasCC_onACK now ack t c = (b, c')"
  shows "vg_ewmaRTT c' = vg_ewmaRTT c \<and> vg_rttVariance c' = vg_rttVariance c"
proof -
  have amb: "list_ex (\<lambda>d. SequenceNumber_gt (spd_sequenceNumber d) (vg_lastACK c)
      \<and> SequenceNumber_le (spd_sequenceNumber d) ack \<and> spd_wasResent d) (vg_sentPacketDatas c)"
    using d covered by (auto simp: list_ex_iff)
  obtain ok c1 where s: "TCPVegasCC_onACK_sample ack t c = (ok, c1)"
    by (metis surj_pair)
  have 1: "ok" "vg_ewmaRTT c1 = vg_ewmaRTT c" "vg_rttVariance c1 = vg_rttVariance c"
  proof -
    have "(ok, c1) = (True, c\<lparr>vg_lastACK := ack\<rparr>)
        \<or> (\<exists>ds. (ok, c1) = (True, c\<lparr>vg_lastACK := ack, vg_sentPacketDatas := ds\<rparr>))"
      unfolding s [symmetric] TCPVegasCC_onACK_sample_def Let_def using amb
      by (auto split: list.split)
    then show "ok" "vg_ewmaRTT c1 = vg_ewmaRTT c" "vg_rttVariance c1 = vg_rttVariance c"
      by auto
  qed
  have inv1: "vegas_inv c1" by (rule onACK_sample_inv [OF inv s])
  obtain c2 where c2: "(if now - vg_lastAdjustmentTime c1 \<ge> vg_ewmaRTT c1
      then TCPVegasCC_performCongestionAvoidance now c1 else c1) = c2" by blast
  have 2: "vg_ewmaRTT c2 = vg_ewmaRTT c" "vg_rttVariance c2 = vg_rttVariance c"
    using 1 performCongestionAvoidance_inv(2,3) [OF inv1] by (simp_all flip: c2)
  let ?c3 = "c2\<lparr>vg_numACKSinceFastRetransmit := vg_numACKSinceFastRetransmit c2 + 1\<rparr>"
  have "TCPVegasCC_onACK now ack t c = (if ack = vg_lastACK c \<or> vg_numACKSinceFastRetransmit ?c3 < 3
      then TCPVegasCC_needsFastRetransmit now ack (ack = vg_lastACK c) ?c3
      else (False, ?c3\<lparr>vg_duplicateACKCount := 0\<rparr>))"
    by (simp only: TCPVegasCC_onACK_def Let_def s prod.case 1(1) not_True_eq_False if_False c2)
  then show ?thesis
    using r 2 needsFastRetransmit_frame [of now ack "ack = vg_lastACK c" ?c3 b c'] by (auto split: if_splits)
qed

theorem Vegas_no_sample_from_resent_witness:
  "vg_ewmaRTT (snd (TCPVegasCC_onACK 100 6 90 (TCPVegasCC_onPacketReSent 6
      (TCPVegasCC_onPacketSent 6 10 TCPVegasCC_new)))) = -1"
proof -
  let ?c = "TCPVegasCC_onPacketReSent 6 (TCPVegasCC_onPacketSent 6 10 TCPVegasCC_new)"
  have inv: "vegas_inv ?c"
    by (intro vegas_reachable_inv vegas_reachable.resent vegas_reachable.sent vegas_reachable.init)
  have datas: "vg_sentPacketDatas ?c = [\<lparr>spd_sequenceNumber = 6, spd_timePoint = 10, spd_wasResent = True\<rparr>]"
    and "vg_lastACK ?c = 0" "vg_ewmaRTT ?c = -1"
    by (simp_all add: TCPVegasCC_onPacketReSent_def TCPVegasCC_onPacketSent_def TCPVegasCC_new_def
        SequenceNumber_default_def)
  then show ?thesis
    using Vegas_no_sample_from_resent [OF inv, of "\<lparr>spd_sequenceNumber = 6, spd_timePoint = 10, spd_wasResent = True\<rparr>"
        6 100 90 "fst (TCPVegasCC_onACK 100 6 90 ?c)" "snd (TCPVegasCC_onACK 100 6 90 ?c)"]
    by (simp add: seq_ops)
qed

text \<open>
  Leaving slow start can collapse the window. The product \<open>_congestionWindowSize * _baseRTT\<close> is
  computed in \<open>int\<close>; when it is between \<open>2 ^ 31\<close> and \<open>2 ^ 32\<close> (a window of 21,475 packets at a base RTT
  of 100 ms suffices, well inside the 10 s cap that the code says avoids overflows) it comes out
  negative, and the window drops to the minimum of 2 packets.
\<close>

theorem Vegas_overflow_collapses_window:
  assumes inv: "vegas_inv c" and "vg_slowStart c" and "2 < vg_numRTTs c"
    and fast: "1 < cdiv (cc_congestionWindowSize c * (vg_currentMinRTT c - vg_baseRTT c)) (vg_baseRTT c)"
    and over: "2 ^ 31 \<le> cc_congestionWindowSize c * vg_baseRTT c" "cc_congestionWindowSize c * vg_baseRTT c < 2 ^ 32"
  shows "cc_congestionWindowSize (TCPVegasCC_performCongestionAvoidance now c) = 2"
proof -
  let ?x = "cc_congestionWindowSize c * vg_baseRTT c" and ?r = "vg_currentMinRTT c"
  have "(?x + 2 ^ 31) mod 2 ^ 32 = (?x - 2 ^ 31) mod 2 ^ 32"
    using mod_add_self2 [of "?x - 2 ^ 31" "2 ^ 32"] by (simp add: add.commute)
  also have "\<dots> = ?x - 2 ^ 31"
    using over by (simp add: mod_pos_pos_trivial)
  finally have neg: "wrap32 ?x < 0"
    using over by (simp add: wrap32_def)
  have "0 < ?r"
    using inv by (simp add: vegas_inv_def)
  then have "cdiv (wrap32 ?x) ?r \<le> 0"
    using neg by (simp add: cdiv_def pos_imp_zdiv_nonneg_iff)
  then show ?thesis
    using assms by (simp add: TCPVegasCC_performCongestionAvoidance_def TCPVegasCC_adjustWindow_def Let_def min_def)
qed

theorem Vegas_overflow_collapses_window_witness:
  "cc_congestionWindowSize (TCPVegasCC_performCongestionAvoidance 0
    (TCPVegasCC_new\<lparr>cc_congestionWindowSize := 25600, vg_baseRTT := 100000, vg_currentMinRTT := 110000,
      vg_numRTTs := 3\<rparr>)) = 2"
  by (rule Vegas_overflow_collapses_window)
    (simp_all add: vegas_inv_def TCPVegasCC_new_def vegas_consts cdiv_def)

text \<open>
  Outside slow start the Reno fallback never grows the window while packets are in flight:
  \<open>isCongestionWindowLimited\<close> passes the arguments of \<open>seqlen\<close> in the wrong order, so with any packet
  outstanding the length it compares with the window is almost the whole number space.
\<close>

theorem Vegas_reno_never_grows_in_flight:
  assumes "\<not> vg_slowStart c" and "seq_wf (vg_lastACK c)" and "vg_lastACK c < cc_sendCurrSeqNum c"
    and "cc_sendCurrSeqNum c - vg_lastACK c < SequenceNumber_THRESHOLD"
    and "cc_congestionWindowSize c \<le> MAX_PACKETS_IN_FLIGHT"
  shows "\<not> TCPVegasCC_isCongestionWindowLimited c \<and> TCPVegasCC_performRenoCongestionAvoidance c = c
    \<and> seqlen (vg_lastACK c) (cc_sendCurrSeqNum c) = cc_sendCurrSeqNum c - vg_lastACK c + 1"
proof -
  have "\<not> TCPVegasCC_isCongestionWindowLimited c"
    using assms by (simp add: TCPVegasCC_isCongestionWindowLimited_def seqlen_def seq_consts MAX_PACKETS_IN_FLIGHT_def)
  then show ?thesis
    using assms(3) by (simp add: TCPVegasCC_performRenoCongestionAvoidance_def seqlen_def)
qed

theorem Vegas_reno_never_grows_in_flight_witness:
  "\<not> TCPVegasCC_isCongestionWindowLimited
     (TCPVegasCC_new\<lparr>vg_slowStart := False, cc_sendCurrSeqNum := 11, vg_lastACK := 10\<rparr>)"
  using Vegas_reno_never_grows_in_flight
    [of "TCPVegasCC_new\<lparr>vg_slowStart := False, cc_sendCurrSeqNum := 11, vg_lastACK := 10\<rparr>"]
  by (simp add: TCPVegasCC_new_def seq_wf_def seq_consts vegas_consts)

end
