(* ===== verification/Udt_Connection.thy ===== *)
theory Udt_Connection
  imports Udt_Send_Queue Udt_Stats Udt_Vegas
begin

text \<open>
  A connection to one peer, \<open>udt/Connection.h\<close> and \<open>Connection.cpp\<close>: the handshake state machine, the
  bookkeeping of the sequence numbers received and the acknowledgements sent for them, the processing
  of acknowledgements received, the reassembly of messages, and the send queue the connection creates
  and drops.

  A handler returns the new state and the list of what it caused (\<open>cn_event\<close>): datagrams written
  through the parent socket, calls back into the socket, and signals. The congestion control is TCP
  Vegas, which the socket creates by default. The signals of the send queue reach the connection
  through \<open>Connection_onQueueSignal\<close>, in the order the queue emitted them. The initial sequence number
  the constructor draws at random and the time are arguments.
\<close>

section \<open>Reassembly of a message\<close>

(* @src libraries/networking/src/udt/Connection.h 37-47 PendingReceivedMessage *)
record 'addr pending_message =
  pm_packets :: "'addr packet list"
  pm_nextPartNumber :: "32 word"

definition PendingReceivedMessage_new :: "'addr pending_message" where
  "PendingReceivedMessage_new = \<lparr>pm_packets = [], pm_nextPartNumber = 0\<rparr>"

text \<open>The search runs from the back; the packet goes after the first one with a part number no larger.\<close>

(* @src libraries/networking/src/udt/Connection.cpp 444-461 PendingReceivedMessage::enqueuePacket *)
definition PendingReceivedMessage_enqueuePacket ::
  "'addr packet \<Rightarrow> 'addr pending_message \<Rightarrow> 'addr pending_message" where
  "PendingReceivedMessage_enqueuePacket packet m =
     (let messagePartNumber = pkt_messagePartNumber packet;
          larger = (\<lambda>value. \<not> messagePartNumber \<ge> pkt_messagePartNumber value);
          passed = takeWhile larger (rev (pm_packets m));
          it = dropWhile larger (rev (pm_packets m))
      in if it \<noteq> [] \<and> pkt_messagePartNumber (hd it) = messagePartNumber then m
         else m\<lparr>pm_packets := rev it @ packet # rev passed\<rparr>)"

(* @src libraries/networking/src/udt/Connection.cpp 463-466 PendingReceivedMessage::hasAvailablePackets *)
definition PendingReceivedMessage_hasAvailablePackets :: "'addr pending_message \<Rightarrow> bool" where
  "PendingReceivedMessage_hasAvailablePackets m \<longleftrightarrow>
     length (pm_packets m) > 0 \<and> pm_nextPartNumber m = pkt_messagePartNumber (hd (pm_packets m))"

(* @src libraries/networking/src/udt/Connection.cpp 468-476 PendingReceivedMessage::removeNextPacket *)
definition PendingReceivedMessage_removeNextPacket ::
  "'addr pending_message \<Rightarrow> 'addr packet option \<times> 'addr pending_message" where
  "PendingReceivedMessage_removeNextPacket m =
     (if PendingReceivedMessage_hasAvailablePackets m
      then (Some (hd (pm_packets m)),
            m\<lparr>pm_packets := tl (pm_packets m), pm_nextPartNumber := pm_nextPartNumber m + 1\<rparr>)
      else (None, m))"

text \<open>The \<open>while\<close> loop of \<open>queueReceivedMessagePacket\<close>: the packets handed up, in order.\<close>

(* @src libraries/networking/src/udt/Connection.cpp 168-180 Connection::queueReceivedMessagePacket(while) *)
function PendingReceivedMessage_drain ::
  "'addr pending_message \<Rightarrow> 'addr packet list \<times> 'addr pending_message" where
  "PendingReceivedMessage_drain m =
     (case PendingReceivedMessage_removeNextPacket m of
        (None, m') \<Rightarrow> ([], m')
      | (Some packet, m') \<Rightarrow>
          (let (rest, m'') = PendingReceivedMessage_drain m' in (packet # rest, m'')))"
  by pat_completeness auto

termination
  by (relation "measure (\<lambda>m. length (pm_packets m))")
    (auto simp: PendingReceivedMessage_removeNextPacket_def PendingReceivedMessage_hasAvailablePackets_def
      split: if_splits)

declare PendingReceivedMessage_drain.simps [simp del]

section \<open>State\<close>

(* @src libraries/networking/src/udt/Connection.h 109-135 Connection *)
record 'addr connection =
  cn_hasReceivedHandshake :: bool
  cn_hasReceivedHandshakeACK :: bool
  cn_didRequestHandshake :: bool
  cn_initialSequenceNumber :: seqnum
  cn_initialReceiveSequenceNumber :: seqnum
  cn_lastMessageNumber :: "32 word"
  cn_lossList :: loss_list
  cn_lastReceivedSequenceNumber :: seqnum
  cn_lastReceivedACK :: seqnum
  cn_destination :: 'addr
  cn_congestionControl :: vegas
  cn_sendQueue :: "'addr send_queue option"
  cn_pendingReceivedMessages :: "(32 word \<times> 'addr pending_message) list"
  cn_ackPacket :: "'addr control_packet"
  cn_handshakeACK :: "'addr control_packet"
  cn_stats :: stats

(* @src libraries/networking/src/udt/Connection.h 81-84 Connection(signals) *)
datatype 'addr cn_event =
  CnDatagram "byte list" 'addr
| CnMessageReceived "'addr packet"
| CnMessageFailed "32 word"
| CnPacketSent
| CnHandshakeRequestComplete 'addr
| CnDestinationChange 'addr

(* @src libraries/networking/src/udt/Connection.cpp 34-59 Connection::Connection *)
definition Connection_new :: "'addr \<Rightarrow> int \<Rightarrow> int \<Rightarrow> 'addr connection option" where
  "Connection_new destination random now =
     do { ack \<leftarrow> ControlPacket_create ACK 4;
          handshakeACK \<leftarrow> ControlPacket_create HandshakeACK 4;
          Some \<lparr>cn_hasReceivedHandshake = False, cn_hasReceivedHandshakeACK = False,
            cn_didRequestHandshake = False, cn_initialSequenceNumber = SequenceNumber_of_int random,
            cn_initialReceiveSequenceNumber = SequenceNumber_default, cn_lastMessageNumber = 0,
            cn_lossList = LossList_new, cn_lastReceivedSequenceNumber = SequenceNumber_default,
            cn_lastReceivedACK = SequenceNumber_default, cn_destination = destination,
            cn_congestionControl = TCPVegasCC_new, cn_sendQueue = None,
            cn_pendingReceivedMessages = [], cn_ackPacket = ack, cn_handshakeACK = handshakeACK,
            cn_stats = ConnectionStats_new now\<rparr> }"

section \<open>The send queue of the connection\<close>

(* @src libraries/networking/src/udt/Connection.cpp 70-87 Connection::stopSendQueue *)
definition Connection_stopSendQueue :: "'addr connection \<Rightarrow> 'addr connection" where
  "Connection_stopSendQueue c =
     (case cn_sendQueue c of None \<Rightarrow> c
      | Some q \<Rightarrow> c\<lparr>cn_sendQueue := None, cn_lastMessageNumber := SendQueue_getCurrentMessageNumber q\<rparr>)"

(* @src libraries/networking/src/udt/Connection.cpp 61-68 Connection::~Connection *)
definition Connection_destroy :: "'addr connection \<Rightarrow> 'addr cn_event list" where
  "Connection_destroy c =
     map (\<lambda>m. CnMessageFailed (fst m)) (cn_pendingReceivedMessages (Connection_stopSendQueue c))"

(* @src libraries/networking/src/udt/Connection.cpp 89-91 Connection::setMaxBandwidth *)
definition Connection_setMaxBandwidth :: "int \<Rightarrow> 'addr connection \<Rightarrow> 'addr connection" where
  "Connection_setMaxBandwidth maxBandwidth c =
     c\<lparr>cn_congestionControl := CongestionControl_setMaxBandwidth maxBandwidth (cn_congestionControl c)\<rparr>"

text \<open>The conversion of the \<open>double\<close> period to \<open>int\<close> truncates.\<close>

definition real_to_int :: "real \<Rightarrow> int" where
  "real_to_int x = (if 0 \<le> x then \<lfloor>x\<rfloor> else \<lceil>x\<rceil>)"

(* @src libraries/networking/src/udt/Connection.cpp 433-436 Connection::getSendQueue(defaults) *)
definition Connection_tuneQueue :: "vegas \<Rightarrow> 'addr send_queue \<Rightarrow> 'addr send_queue" where
  "Connection_tuneQueue cc q =
     SendQueue_setFlowWindowSize (cc_congestionWindowSize cc)
       (SendQueue_setEstimatedTimeout (TCPVegasCC_estimatedTimeout cc)
         (SendQueue_setPacketSendPeriod (real_to_int (cc_packetSendPeriod cc)) q))"

(* @src libraries/networking/src/udt/Connection.cpp 93-131 Connection::getSendQueue *)
definition Connection_getSendQueue :: "'addr connection \<Rightarrow> 'addr send_queue \<times> 'addr connection" where
  "Connection_getSendQueue c =
     (case cn_sendQueue c of Some q \<Rightarrow> (q, c)
      | None \<Rightarrow>
          (let (q, c1) =
             (if \<not> cn_hasReceivedHandshakeACK c
              then let q = SendQueue_new (cn_destination c) (SequenceNumber_minus (cn_initialSequenceNumber c) 1)
                             (cn_lastMessageNumber c) (cn_hasReceivedHandshakeACK c)
                   in (q, c\<lparr>cn_lastReceivedACK := SendQueue_getCurrentSequenceNumber q\<rparr>)
              else (SendQueue_new (cn_destination c) (cn_lastReceivedACK c)
                      (cn_lastMessageNumber c) (cn_hasReceivedHandshakeACK c), c));
               q' = Connection_tuneQueue (cn_congestionControl c1) q;
               cc = TCPVegasCC_setInitialSendSequenceNumber (SendQueue_getCurrentSequenceNumber q')
                      (cn_congestionControl c1)
           in (q', c1\<lparr>cn_sendQueue := Some q', cn_congestionControl := cc\<rparr>)))"

(* @src libraries/networking/src/udt/Connection.cpp 148-151 Connection::sendReliablePacket *)
definition Connection_sendReliablePacket :: "'addr packet \<Rightarrow> 'addr connection \<Rightarrow> 'addr connection" where
  "Connection_sendReliablePacket packet c =
     (let (q, c1) = Connection_getSendQueue c
      in c1\<lparr>cn_sendQueue := Some (SendQueue_queuePacket packet q)\<rparr>)"

(* @src libraries/networking/src/udt/Connection.cpp 153-156 Connection::sendReliablePacketList *)
definition Connection_sendReliablePacketList ::
  "'addr packet_list \<Rightarrow> 'addr connection \<Rightarrow> ('addr packet_list \<times> 'addr connection) option" where
  "Connection_sendReliablePacketList packetList c =
     (let (q, c1) = Connection_getSendQueue c
      in do { (l, q') \<leftarrow> SendQueue_queuePacketList packetList q;
              Some (l, c1\<lparr>cn_sendQueue := Some q'\<rparr>) })"

(* @src libraries/networking/src/udt/Connection.cpp 424-442 Connection::updateCongestionControlAndSendQueue *)
definition Connection_updateCongestionControlAndSendQueue ::
  "('addr connection \<Rightarrow> 'addr connection) \<Rightarrow> 'addr connection \<Rightarrow> 'addr connection" where
  "Connection_updateCongestionControlAndSendQueue congestionCallback c =
     (let (q, c1) = Connection_getSendQueue c;
          c2 = c1\<lparr>cn_congestionControl := CongestionControl_setSendCurrentSequenceNumber
                    (SendQueue_getCurrentSequenceNumber q) (cn_congestionControl c1)\<rparr>;
          c3 = congestionCallback c2;
          (sendQueue, c4) = Connection_getSendQueue c3;
          cc = cn_congestionControl c4
      in c4\<lparr>cn_sendQueue := Some (Connection_tuneQueue cc sendQueue),
           cn_stats := ConnectionStats_recordCongestionWindowSize (cc_congestionWindowSize cc)
             (ConnectionStats_recordRoundTripTime (cdiv (cc_roundTripTime cc) 1000)
               (ConnectionStats_recordPacketSendPeriod (real_to_int (cc_packetSendPeriod cc)) (cn_stats c4)))\<rparr>)"

(* @src libraries/networking/src/udt/Connection.cpp 133-140 Connection::queueInactive *)
definition Connection_queueInactive :: "'addr connection \<Rightarrow> 'addr connection" where
  "Connection_queueInactive c = Connection_stopSendQueue c"

text \<open>\<open>onTimeout\<close> of TCP Vegas is empty.\<close>

(* @src libraries/networking/src/udt/Connection.cpp 142-146 Connection::queueTimeout *)
definition Connection_queueTimeout :: "'addr connection \<Rightarrow> 'addr connection" where
  "Connection_queueTimeout c = Connection_updateCongestionControlAndSendQueue (\<lambda>c. c) c"

(* @src libraries/networking/src/udt/Connection.cpp 190-195 Connection::recordSentPackets *)
definition Connection_recordSentPackets ::
  "int \<Rightarrow> int \<Rightarrow> seqnum \<Rightarrow> int \<Rightarrow> 'addr connection \<Rightarrow> 'addr connection" where
  "Connection_recordSentPackets wireSize payloadSize seqNum timePoint c =
     c\<lparr>cn_stats := ConnectionStats_recordSentPackets payloadSize wireSize (cn_stats c),
       cn_congestionControl := TCPVegasCC_onPacketSent seqNum timePoint (cn_congestionControl c)\<rparr>"

(* @src libraries/networking/src/udt/Connection.cpp 197-202 Connection::recordRetransmission *)
definition Connection_recordRetransmission ::
  "int \<Rightarrow> int \<Rightarrow> seqnum \<Rightarrow> int \<Rightarrow> 'addr connection \<Rightarrow> 'addr connection" where
  "Connection_recordRetransmission wireSize payloadSize seqNum timePoint c =
     c\<lparr>cn_stats := ConnectionStats_recordRetransmittedPackets payloadSize wireSize (cn_stats c),
       cn_congestionControl := TCPVegasCC_onPacketReSent seqNum (cn_congestionControl c)\<rparr>"

(* @src libraries/networking/src/udt/Connection.cpp 204-206 Connection::recordSentUnreliablePackets *)
definition Connection_recordSentUnreliablePackets :: "int \<Rightarrow> int \<Rightarrow> 'addr connection \<Rightarrow> 'addr connection" where
  "Connection_recordSentUnreliablePackets wireSize payloadSize c =
     c\<lparr>cn_stats := ConnectionStats_recordUnreliableSentPackets payloadSize wireSize (cn_stats c)\<rparr>"

(* @src libraries/networking/src/udt/Connection.cpp 208-210 Connection::recordReceivedUnreliablePackets *)
definition Connection_recordReceivedUnreliablePackets :: "int \<Rightarrow> int \<Rightarrow> 'addr connection \<Rightarrow> 'addr connection" where
  "Connection_recordReceivedUnreliablePackets wireSize payloadSize c =
     c\<lparr>cn_stats := ConnectionStats_recordUnreliableReceivedPackets payloadSize wireSize (cn_stats c)\<rparr>"

text \<open>The slots connected to the signals of the send queue; a datagram is the socket's business.\<close>

(* @src libraries/networking/src/udt/Connection.cpp 113-117 Connection::getSendQueue(connect) *)
fun Connection_onQueueSignal ::
  "'addr sq_event \<Rightarrow> 'addr connection \<Rightarrow> 'addr connection \<times> 'addr cn_event list" where
  "Connection_onQueueSignal (Datagram wire a) c = (c, [CnDatagram wire a])"
| "Connection_onQueueSignal (PacketSent w p s t) c = (Connection_recordSentPackets w p s t c, [CnPacketSent])"
| "Connection_onQueueSignal (PacketRetransmitted w p s t) c = (Connection_recordRetransmission w p s t c, [])"
| "Connection_onQueueSignal QueueInactive c = (Connection_queueInactive c, [])"
| "Connection_onQueueSignal TimeoutSignal c = (Connection_queueTimeout c, [])"

section \<open>Receiving\<close>

text \<open>The pending message is created by the lookup; it is dropped after its last packet was handed up.\<close>

(* @src libraries/networking/src/udt/Connection.cpp 158-185 Connection::queueReceivedMessagePacket *)
definition Connection_queueReceivedMessagePacket ::
  "'addr packet \<Rightarrow> 'addr connection \<Rightarrow> 'addr connection \<times> 'addr cn_event list" where
  "Connection_queueReceivedMessagePacket packet c =
     (let messageNumber = pkt_messageNumber packet;
          pendingMessage = (case map_of (cn_pendingReceivedMessages c) messageNumber of
              None \<Rightarrow> PendingReceivedMessage_new | Some m \<Rightarrow> m);
          (received, m) = PendingReceivedMessage_drain
              (PendingReceivedMessage_enqueuePacket packet pendingMessage);
          processedLastOrOnly = (\<exists>p \<in> set received. pkt_packetPosition p = LAST \<or> pkt_packetPosition p = ONLY);
          pending = omap_upd messageNumber m (cn_pendingReceivedMessages c)
      in (c\<lparr>cn_pendingReceivedMessages := (if processedLastOrOnly then omap_del messageNumber pending else pending)\<rparr>,
          map CnMessageReceived received))"

(* @src libraries/networking/src/udt/Connection.cpp 229-235 Connection::nextACK *)
definition Connection_nextACK :: "'addr connection \<Rightarrow> seqnum" where
  "Connection_nextACK c =
     (if LossList_getLength (cn_lossList c) > 0
      then SequenceNumber_minus (LossList_getFirstSequenceNumber (cn_lossList c)) 1
      else cn_lastReceivedSequenceNumber c)"

(* @src libraries/networking/src/udt/Connection.cpp 212-227 Connection::sendACK *)
definition Connection_sendACK :: "'addr connection \<Rightarrow> ('addr connection \<times> 'addr cn_event list) option" where
  "Connection_sendACK c =
     do { let nextACKNumber = Connection_nextACK c;
          (_, p) \<leftarrow> QIODevice_write (seq_bytes nextACKNumber) (BasePacket_reset (cn_ackPacket c));
          wire \<leftarrow> BasePacket_wire p;
          Some (c\<lparr>cn_ackPacket := p, cn_stats := ConnectionStats_recordSentACK (BasePacket_getWireSize p) (cn_stats c)\<rparr>,
                [CnDatagram wire (cn_destination c)]) }"

(* @src libraries/networking/src/udt/Connection.cpp 237-242 Connection::sendHandshakeRequest *)
definition Connection_sendHandshakeRequest ::
  "'addr connection \<Rightarrow> ('addr connection \<times> 'addr cn_event list) option" where
  "Connection_sendHandshakeRequest c =
     do { p \<leftarrow> (ControlPacket_create HandshakeRequest 0 :: 'addr control_packet option);
          wire \<leftarrow> BasePacket_wire p;
          Some (c\<lparr>cn_didRequestHandshake := True\<rparr>, [CnDatagram wire (cn_destination c)]) }"

text \<open>The loss list and the largest number received after an arrival; whether it was a duplicate.\<close>

(* @src libraries/networking/src/udt/Connection.cpp 258-275 Connection::processReceivedSequenceNumber(track) *)
definition Connection_trackSequenceNumber :: "seqnum \<Rightarrow> 'addr connection \<Rightarrow> bool \<times> 'addr connection" where
  "Connection_trackSequenceNumber sequenceNumber c =
     (let recent = cn_lastReceivedSequenceNumber c;
          expected = SequenceNumber_plus recent 1;
          before = SequenceNumber_minus sequenceNumber 1;
          losses = (if SequenceNumber_gt sequenceNumber expected
                    then (if expected = before then LossList_append (cn_lossList c) expected
                          else LossList_append_range (cn_lossList c) expected before)
                    else cn_lossList c)
      in if SequenceNumber_gt sequenceNumber recent
         then (False, c\<lparr>cn_lossList := losses, cn_lastReceivedSequenceNumber := sequenceNumber\<rparr>)
         else (let (found, losses') = LossList_remove losses sequenceNumber
               in (\<not> found, c\<lparr>cn_lossList := losses'\<rparr>)))"

(* @src libraries/networking/src/udt/Connection.cpp 244-287 Connection::processReceivedSequenceNumber *)
definition Connection_processReceivedSequenceNumber ::
  "seqnum \<Rightarrow> int \<Rightarrow> int \<Rightarrow> 'addr connection \<Rightarrow> (bool \<times> 'addr connection \<times> 'addr cn_event list) option" where
  "Connection_processReceivedSequenceNumber sequenceNumber packetSize payloadSize c =
     (if \<not> cn_hasReceivedHandshake c then
        do { (c', out) \<leftarrow> Connection_sendHandshakeRequest c; Some (False, c', out) }
      else
        (let (wasDuplicate, c1) = Connection_trackSequenceNumber sequenceNumber c in
         do { (c2, out) \<leftarrow> Connection_sendACK c1;
              Some (\<not> wasDuplicate,
                c2\<lparr>cn_stats := (if wasDuplicate
                     then ConnectionStats_recordDuplicatePackets payloadSize packetSize (cn_stats c2)
                     else ConnectionStats_recordReceivedPackets payloadSize packetSize (cn_stats c2))\<rparr>,
                out) }))"

section \<open>Control packets\<close>

(* @src libraries/networking/src/udt/Connection.cpp 407-422 Connection::resetReceiveState *)
definition Connection_resetReceiveState :: "'addr connection \<Rightarrow> 'addr connection \<times> 'addr cn_event list" where
  "Connection_resetReceiveState c =
     (c\<lparr>cn_lastReceivedSequenceNumber := SequenceNumber_default,
        cn_lossList := LossList_clear (cn_lossList c), cn_pendingReceivedMessages := []\<rparr>,
      map (\<lambda>m. CnMessageFailed (fst m)) (cn_pendingReceivedMessages c))"

(* @src libraries/networking/src/udt/Connection.cpp 360-389 Connection::processHandshake *)
definition Connection_processHandshake ::
  "'addr control_packet \<Rightarrow> 'addr connection \<Rightarrow> ('addr connection \<times> 'addr cn_event list) option" where
  "Connection_processHandshake controlPacket c =
     do { (initialSequenceNumber, _) \<leftarrow> readSequenceNumber controlPacket;
          let (c1, failed) =
            (if \<not> cn_hasReceivedHandshake c \<or> initialSequenceNumber \<noteq> cn_initialReceiveSequenceNumber c
             then let (c', failed) = Connection_resetReceiveState c
                  in (c'\<lparr>cn_initialReceiveSequenceNumber := initialSequenceNumber,
                        cn_lastReceivedSequenceNumber := SequenceNumber_minus initialSequenceNumber 1\<rparr>, failed)
             else (c, []));
          (_, p) \<leftarrow> QIODevice_write (seq_bytes initialSequenceNumber) (BasePacket_reset (cn_handshakeACK c1));
          wire \<leftarrow> BasePacket_wire p;
          Some (c1\<lparr>cn_handshakeACK := p, cn_hasReceivedHandshake := True, cn_didRequestHandshake := False\<rparr>,
            failed @ [CnDatagram wire (cn_destination c1)]
              @ (if cn_didRequestHandshake c1 then [CnHandshakeRequestComplete (cn_destination c1)] else [])) }"

(* @src libraries/networking/src/udt/Connection.cpp 391-405 Connection::processHandshakeACK *)
definition Connection_processHandshakeACK ::
  "'addr control_packet \<Rightarrow> 'addr connection \<Rightarrow> 'addr connection option" where
  "Connection_processHandshakeACK controlPacket c =
     (case cn_sendQueue c of None \<Rightarrow> Some c
      | Some q \<Rightarrow>
          do { (initialSequenceNumber, _) \<leftarrow> readSequenceNumber controlPacket;
               Some (if initialSequenceNumber = cn_initialSequenceNumber c
                     then c\<lparr>cn_sendQueue := Some (SendQueue_handshakeACK q), cn_hasReceivedHandshakeACK := True\<rparr>
                     else c) })"

text \<open>The callback \<open>processACK\<close> passes on: fast retransmission of the packet after the one acknowledged.\<close>

(* @src libraries/networking/src/udt/Connection.cpp 350-355 Connection::processACK(callback) *)
definition Connection_ackCallback :: "int \<Rightarrow> seqnum \<Rightarrow> int \<Rightarrow> 'addr connection \<Rightarrow> 'addr connection" where
  "Connection_ackCallback now ack receiveTime c =
     (let (fast, cc) = TCPVegasCC_onACK now ack receiveTime (cn_congestionControl c);
          c1 = c\<lparr>cn_congestionControl := cc\<rparr>
      in if fast
         then c1\<lparr>cn_sendQueue := map_option (SendQueue_fastRetransmit (SequenceNumber_plus ack 1)) (cn_sendQueue c1)\<rparr>
         else c1)"

(* @src libraries/networking/src/udt/Connection.cpp 321-358 Connection::processACK *)
definition Connection_processACK ::
  "int \<Rightarrow> 'addr control_packet \<Rightarrow> 'addr connection \<Rightarrow> 'addr connection option" where
  "Connection_processACK now controlPacket c =
     do { (ack, p) \<leftarrow> readSequenceNumber controlPacket;
          let c1 = c\<lparr>cn_stats := ConnectionStats_recordReceivedACK (BasePacket_getWireSize p) (cn_stats c)\<rparr>;
          let (q, c2) = Connection_getSendQueue c1;
          if SequenceNumber_gt ack (SendQueue_getCurrentSequenceNumber q) then Some c2
          else if SequenceNumber_lt ack (cn_lastReceivedACK c2) then Some c2
          else do {
            c3 \<leftarrow> (if SequenceNumber_gt ack (cn_lastReceivedACK c2)
                   then do { q' \<leftarrow> SendQueue_ack ack q;
                             Some (c2\<lparr>cn_lastReceivedACK := ack, cn_sendQueue := Some q'\<rparr>) }
                   else Some c2);
            let c4 = Connection_updateCongestionControlAndSendQueue
                       (Connection_ackCallback now ack (bp_receiveTime p)) c3;
            Some (c4\<lparr>cn_stats := ConnectionStats_record ProcessedACK (cn_stats c4)\<rparr>) } }"

(* @src libraries/networking/src/udt/Connection.cpp 289-319 Connection::processControl *)
definition Connection_processControl ::
  "int \<Rightarrow> 'addr control_packet \<Rightarrow> 'addr connection \<Rightarrow> ('addr connection \<times> 'addr cn_event list) option" where
  "Connection_processControl now controlPacket c =
     (case ControlType_of (ctl_type controlPacket) of
        Some ACK \<Rightarrow>
          (if cn_hasReceivedHandshakeACK c
           then map_option (\<lambda>c'. (c', [])) (Connection_processACK now controlPacket c) else Some (c, []))
      | Some Handshake \<Rightarrow> Connection_processHandshake controlPacket c
      | Some HandshakeACK \<Rightarrow> map_option (\<lambda>c'. (c', [])) (Connection_processHandshakeACK controlPacket c)
      | Some HandshakeRequest \<Rightarrow>
          Some (if cn_hasReceivedHandshakeACK c
                then Connection_stopSendQueue (c\<lparr>cn_hasReceivedHandshakeACK := False\<rparr>) else c, [])
      | None \<Rightarrow> Some (c, []))"

text \<open>The send queue learns of the new address through the signal.\<close>

(* @src libraries/networking/src/udt/Connection.cpp 478-483 Connection::setDestinationAddress *)
definition Connection_setDestinationAddress :: "'addr \<Rightarrow> 'addr connection \<Rightarrow> 'addr connection \<times> 'addr cn_event list" where
  "Connection_setDestinationAddress destination c =
     (if cn_destination c \<noteq> destination
      then (c\<lparr>cn_destination := destination,
              cn_sendQueue := map_option (SendQueue_updateDestinationAddress destination) (cn_sendQueue c)\<rparr>,
            [CnDestinationChange destination])
      else (c, []))"

section \<open>Reassembly delivers in order\<close>

abbreviation pkt_part :: "('a, 'm) packet_scheme \<Rightarrow> nat" where
  "pkt_part p \<equiv> unat (pkt_messagePartNumber p)"

definition pm_inv :: "'addr pending_message \<Rightarrow> bool" where
  "pm_inv m \<longleftrightarrow> sorted_wrt (<) (map pkt_part (pm_packets m))
     \<and> (\<forall>p \<in> set (pm_packets m). unat (pm_nextPartNumber m) \<le> pkt_part p)"

lemma pm_inv_new: "pm_inv PendingReceivedMessage_new"
  by (simp add: pm_inv_def PendingReceivedMessage_new_def)

lemma pm_enqueue_laws:
  assumes inv: "pm_inv m" and new: "pkt_part p \<notin> pkt_part ` set (pm_packets m)"
    and low: "unat (pm_nextPartNumber m) \<le> pkt_part p"
  shows "pm_inv (PendingReceivedMessage_enqueuePacket p m)
    \<and> set (pm_packets (PendingReceivedMessage_enqueuePacket p m)) = insert p (set (pm_packets m))
    \<and> pm_nextPartNumber (PendingReceivedMessage_enqueuePacket p m) = pm_nextPartNumber m"
proof -
  let ?larger = "\<lambda>v. \<not> pkt_messagePartNumber p \<ge> pkt_messagePartNumber v"
  obtain passed it where d: "takeWhile ?larger (rev (pm_packets m)) = passed"
      "dropWhile ?larger (rev (pm_packets m)) = it"
    by blast
  have "rev (pm_packets m) = passed @ it"
    using takeWhile_dropWhile_id [of ?larger "rev (pm_packets m)"] by (simp add: d)
  then have xs: "pm_packets m = rev it @ rev passed"
    by (metis rev_append rev_rev_ident)
  have pl: "\<forall>v \<in> set passed. pkt_part p < pkt_part v"
    by (auto simp: word_less_nat_alt not_le dest!: set_takeWhileD simp flip: d(1))
  have il: "\<forall>v \<in> set it. pkt_part v < pkt_part p"
  proof (cases it)
    case (Cons v vs)
    have "\<not> ?larger v"
      using dropWhile_Cons_split(2) [of ?larger "rev (pm_packets m)" v vs] d(2) Cons by simp
    then have "pkt_part v \<le> pkt_part p" by (simp add: word_le_nat_alt)
    moreover have "pkt_part v \<noteq> pkt_part p" using new by (auto simp: xs Cons)
    moreover have "\<forall>u \<in> set vs. pkt_part u < pkt_part v"
      using inv by (auto simp: pm_inv_def xs Cons sorted_wrt_append)
    ultimately show ?thesis by (auto simp: Cons)
  qed simp
  have "\<not> (it \<noteq> [] \<and> pkt_messagePartNumber (hd it) = pkt_messagePartNumber p)"
    using il by (cases it) auto
  then have e: "PendingReceivedMessage_enqueuePacket p m = m\<lparr>pm_packets := rev it @ p # rev passed\<rparr>"
    unfolding PendingReceivedMessage_enqueuePacket_def Let_def d by (rule if_not_P)
  show ?thesis
    using inv pl il low by (auto simp: e pm_inv_def xs sorted_wrt_append)
qed

text \<open>Draining hands up a run of consecutive parts and stops before the first missing one.\<close>

lemma pm_drain_laws:
  assumes "pm_inv m" and "\<forall>p \<in> set (pm_packets m). pkt_part p < 2 ^ 32 - 1"
    and "PendingReceivedMessage_drain m = (ds, m')"
  shows "pm_inv m' \<and> map pkt_part ds = [unat (pm_nextPartNumber m)..<unat (pm_nextPartNumber m')]
    \<and> unat (pm_nextPartNumber m) \<le> unat (pm_nextPartNumber m')
    \<and> pm_packets m = ds @ pm_packets m'
    \<and> (\<forall>p \<in> set (pm_packets m'). unat (pm_nextPartNumber m') < pkt_part p)"
  using assms
proof (induction m arbitrary: ds m' rule: PendingReceivedMessage_drain.induct)
  case (1 m)
  show ?case
  proof (cases "PendingReceivedMessage_hasAvailablePackets m")
    case False
    then have r: "ds = []" "m' = m"
      using "1.prems"(3) by (auto simp: PendingReceivedMessage_drain.simps [of m] PendingReceivedMessage_removeNextPacket_def)
    have "\<forall>p \<in> set (pm_packets m). unat (pm_nextPartNumber m) < pkt_part p"
    proof (cases "pm_packets m")
      case (Cons q qs)
      then have "pm_nextPartNumber m \<noteq> pkt_messagePartNumber q"
        using False by (simp add: PendingReceivedMessage_hasAvailablePackets_def)
      then have "unat (pm_nextPartNumber m) < pkt_part q"
        using "1.prems"(1) by (simp add: pm_inv_def Cons word_unat_eq_iff)
      with "1.prems"(1) show ?thesis by (auto simp: pm_inv_def Cons)
    qed simp
    then show ?thesis using r "1.prems"(1) by simp
  next
    case True
    then obtain q qs where q: "pm_packets m = q # qs" "pkt_messagePartNumber q = pm_nextPartNumber m"
      by (cases "pm_packets m") (auto simp: PendingReceivedMessage_hasAvailablePackets_def)
    let ?m1 = "m\<lparr>pm_packets := qs, pm_nextPartNumber := pm_nextPartNumber m + 1\<rparr>"
    have rem: "PendingReceivedMessage_removeNextPacket m = (Some q, ?m1)"
      using True by (simp add: PendingReceivedMessage_removeNextPacket_def q)
    obtain ds1 m1 where d1: "PendingReceivedMessage_drain ?m1 = (ds1, m1)" by (metis surj_pair)
    have r: "ds = q # ds1" "m' = m1"
      using "1.prems"(3) by (auto simp: PendingReceivedMessage_drain.simps [of m] rem d1)
    have "unat (pm_nextPartNumber m) < 2 ^ 32 - 1"
      using "1.prems"(2) q by auto
    then have nx: "unat (pm_nextPartNumber m + 1) = unat (pm_nextPartNumber m) + 1"
      by (simp add: unat_word_ariths)
    have "pm_inv ?m1"
      using "1.prems"(1) q nx by (auto simp: pm_inv_def)
    moreover have "\<forall>p \<in> set (pm_packets ?m1). pkt_part p < 2 ^ 32 - 1"
      using "1.prems"(2) q by simp
    ultimately have "pm_inv m1 \<and> map pkt_part ds1 = [unat (pm_nextPartNumber m) + 1..<unat (pm_nextPartNumber m1)]
        \<and> unat (pm_nextPartNumber m) + 1 \<le> unat (pm_nextPartNumber m1) \<and> qs = ds1 @ pm_packets m1
        \<and> (\<forall>p \<in> set (pm_packets m1). unat (pm_nextPartNumber m1) < pkt_part p)"
      using "1.IH" [OF rem [symmetric] refl _ _ d1] by (simp add: nx)
    then show ?thesis
      using q by (simp add: r upt_conv_Cons)
  qed
qed

text \<open>What has been handed up and what waits, after any packets of one message in any order.\<close>

definition pm_state :: "'addr packet set \<Rightarrow> 'addr packet list \<Rightarrow> 'addr pending_message \<Rightarrow> bool" where
  "pm_state arrived ds m \<longleftrightarrow> pm_inv m \<and> map pkt_part ds = [0..<unat (pm_nextPartNumber m)]
     \<and> set ds \<union> set (pm_packets m) = arrived
     \<and> (\<forall>p \<in> set (pm_packets m). unat (pm_nextPartNumber m) < pkt_part p)"

lemma pm_state_new: "pm_state {} [] PendingReceivedMessage_new"
  by (simp add: pm_state_def pm_inv_new) (simp add: PendingReceivedMessage_new_def)

lemma parts_image: "map f ds = [0..<n] \<Longrightarrow> f ` set ds = {..<n}"
  by (drule arg_cong [where f = set]) (simp add: lessThan_atLeast0)

lemma upt_join: "a \<le> b \<Longrightarrow> [0..<a] @ [a..<b] = [0..<b]"
  by (metis le_Suc_ex upt_add_eq_append zero_le)

lemma pm_state_step:
  assumes st: "pm_state A ds m" and new: "pkt_part p \<notin> pkt_part ` A"
    and bound: "\<forall>q \<in> insert p A. pkt_part q < 2 ^ 32 - 1"
    and d: "PendingReceivedMessage_drain (PendingReceivedMessage_enqueuePacket p m) = (d1, m')"
  shows "pm_state (insert p A) (ds @ d1) m'"
proof -
  have inv: "pm_inv m" and parts: "map pkt_part ds = [0..<unat (pm_nextPartNumber m)]"
    and A: "set ds \<union> set (pm_packets m) = A"
    using st by (auto simp: pm_state_def)
  have "pkt_part ` set ds \<subseteq> pkt_part ` A"
    using A by auto
  then have low: "unat (pm_nextPartNumber m) \<le> pkt_part p"
    using new parts_image [OF parts] by (metis lessThan_iff not_le subsetD)
  have fresh: "pkt_part p \<notin> pkt_part ` set (pm_packets m)"
    using new A by auto
  note e = pm_enqueue_laws [OF inv fresh low]
  then have b: "\<forall>q \<in> set (pm_packets (PendingReceivedMessage_enqueuePacket p m)). pkt_part q < 2 ^ 32 - 1"
    using bound A by auto
  have "set (pm_packets (PendingReceivedMessage_enqueuePacket p m)) = set d1 \<union> set (pm_packets m')"
    using pm_drain_laws [OF _ b d] e by simp
  with pm_drain_laws [OF _ b d] e parts A show ?thesis
    by (auto simp: pm_state_def upt_join)
qed

lemma pm_state_first_missing:
  assumes "pm_state A ds m"
  shows "unat (pm_nextPartNumber m) \<notin> pkt_part ` A" and "{..<unat (pm_nextPartNumber m)} \<subseteq> pkt_part ` A"
proof -
  have parts: "pkt_part ` set ds = {..<unat (pm_nextPartNumber m)}"
    using assms by (intro parts_image) (simp add: pm_state_def)
  show "{..<unat (pm_nextPartNumber m)} \<subseteq> pkt_part ` A"
    using parts assms by (auto simp: pm_state_def)
  show "unat (pm_nextPartNumber m) \<notin> pkt_part ` A"
    using parts assms by (fastforce simp: pm_state_def)
qed

text \<open>The handler of the connection, over a whole sequence of packets.\<close>

primrec Connection_queueAll ::
  "'addr packet list \<Rightarrow> 'addr connection \<Rightarrow> 'addr connection \<times> 'addr cn_event list" where
  "Connection_queueAll [] c = (c, [])"
| "Connection_queueAll (p # ps) c =
     (let (c1, out) = Connection_queueReceivedMessagePacket p c;
          (c2, out') = Connection_queueAll ps c1
      in (c2, out @ out'))"

definition cn_pending :: "32 word \<Rightarrow> 'addr connection \<Rightarrow> 'addr pending_message" where
  "cn_pending n c = (case map_of (cn_pendingReceivedMessages c) n of
     None \<Rightarrow> PendingReceivedMessage_new | Some m \<Rightarrow> m)"

lemma queueReceived_pending:
  assumes "pkt_messageNumber p = n"
    and d: "PendingReceivedMessage_drain (PendingReceivedMessage_enqueuePacket p (cn_pending n c)) = (ds, m)"
  shows "\<exists>c'. Connection_queueReceivedMessagePacket p c = (c', map CnMessageReceived ds)
    \<and> map_of (cn_pendingReceivedMessages c')
      = (map_of (cn_pendingReceivedMessages c))
        (n := if \<exists>q \<in> set ds. pkt_packetPosition q = LAST \<or> pkt_packetPosition q = ONLY then None else Some m)"
  using assms by (simp add: Connection_queueReceivedMessagePacket_def Let_def flip: cn_pending_def)

text \<open>
  The packets of one message with parts \<open>0..K - 1\<close>, in any order: until the last of them arrives the
  complete prefix has been handed up; then everything has, and the message is forgotten.
\<close>

lemma pm_state_complete:
  assumes "pm_state A ds m" and "pkt_part ` A = {..<K}"
  shows "unat (pm_nextPartNumber m) = K" and "set ds = A"
proof -
  note f = pm_state_first_missing [OF assms(1)]
  show k: "unat (pm_nextPartNumber m) = K"
    using f unfolding assms(2) by (metis lessThan_iff lessThan_subset_iff not_le order_antisym)
  have "q \<notin> set (pm_packets m)" for q
  proof
    assume "q \<in> set (pm_packets m)"
    then have "pkt_part q \<in> pkt_part ` A" and "K < pkt_part q"
      using assms(1) k by (auto simp: pm_state_def)
    then show False unfolding assms(2) by simp
  qed
  then show "set ds = A"
    using assms(1) by (auto simp: pm_state_def)
qed

definition ends_message :: "('a, 'm) packet_scheme \<Rightarrow> bool" where
  "ends_message p \<longleftrightarrow> pkt_packetPosition p = LAST \<or> pkt_packetPosition p = ONLY"

lemma pm_state_delivers_end:
  assumes st: "pm_state A ds m" and st': "pm_state (insert p A) (ds @ d1) m'" and new: "pkt_part p \<notin> pkt_part ` A"
    and parts: "pkt_part ` insert p A \<subseteq> {..<K}" and ends: "\<forall>q \<in> insert p A. ends_message q \<longleftrightarrow> pkt_part q = K - 1"
  shows "(\<exists>q \<in> set d1. ends_message q) \<longleftrightarrow> pkt_part ` insert p A = {..<K}"
proof
  assume "\<exists>q \<in> set d1. ends_message q"
  then obtain q where q: "q \<in> set (ds @ d1)" "ends_message q" by auto
  then have "q \<in> insert p A" using st' by (auto simp: pm_state_def)
  then have "pkt_part q = K - 1" using ends q(2) by blast
  moreover have "pkt_part q \<in> pkt_part ` set (ds @ d1)" using q(1) by blast
  ultimately have "K - 1 < unat (pm_nextPartNumber m')"
    using st' parts_image [of pkt_part "ds @ d1"] by (auto simp: pm_state_def)
  then have "{..<K} \<subseteq> {..<unat (pm_nextPartNumber m')}" by auto
  then have "{..<K} \<subseteq> pkt_part ` insert p A"
    using pm_state_first_missing(2) [OF st'] by (rule order_trans)
  with parts show "pkt_part ` insert p A = {..<K}"
    by (rule equalityI)
next
  assume full: "pkt_part ` insert p A = {..<K}"
  have "pkt_part p < K" using parts by simp
  moreover have "unat (pm_nextPartNumber m) \<le> pkt_part p"
    using pm_state_first_missing(2) [OF st] new by (meson lessThan_iff not_le subsetD)
  ultimately have "K - 1 \<notin> pkt_part ` set ds" and K: "0 < K"
    using st parts_image [of pkt_part ds] by (auto simp: pm_state_def)
  moreover have "pkt_part ` set (ds @ d1) = {..<K}"
    using pm_state_complete(2) [OF st' full] full by simp
  ultimately obtain q where "q \<in> set d1" "pkt_part q = K - 1"
    by (metis (no_types, lifting) UnE diff_less image_iff lessThan_iff set_append zero_less_one)
  moreover have "set d1 \<subseteq> insert p A"
    using st' by (auto simp: pm_state_def)
  ultimately show "\<exists>q \<in> set d1. ends_message q"
    using ends by blast
qed

lemma queueAll_state:
  assumes "pm_state A ds (cn_pending n c)"
    and "\<forall>p \<in> set ps. pkt_messageNumber p = n"
    and "\<forall>p \<in> A \<union> set ps. ends_message p \<longleftrightarrow> pkt_part p = K - 1"
    and "pkt_part ` (A \<union> set ps) \<subseteq> {..<K}" and "K \<le> 2 ^ 32 - 1"
    and "distinct (map pkt_part ps)" and "pkt_part ` set ps \<inter> pkt_part ` A = {}"
  shows "\<exists>c' ds'. Connection_queueAll ps c = (c', map CnMessageReceived ds')
    \<and> (if ps \<noteq> [] \<and> pkt_part ` (A \<union> set ps) = {..<K}
       then map pkt_part (ds @ ds') = [0..<K] \<and> set (ds @ ds') = A \<union> set ps
         \<and> map_of (cn_pendingReceivedMessages c') n = None
       else pm_state (A \<union> set ps) (ds @ ds') (cn_pending n c'))"
  using assms
proof (induction ps arbitrary: A ds c)
  case Nil
  then show ?case by (intro exI [of _ c] exI [of _ "[]"]) simp
next
  case (Cons p ps)
  obtain d1 m where d: "PendingReceivedMessage_drain (PendingReceivedMessage_enqueuePacket p (cn_pending n c)) = (d1, m)"
    by (metis surj_pair)
  have new: "pkt_part p \<notin> pkt_part ` A" using Cons.prems(7) by auto
  have st: "pm_state (insert p A) (ds @ d1) m"
    by (rule pm_state_step [OF Cons.prems(1) new _ d]) (use Cons.prems(4,5) in fastforce)
  have e: "(\<exists>q \<in> set d1. ends_message q) \<longleftrightarrow> pkt_part ` insert p A = {..<K}"
    by (rule pm_state_delivers_end [OF Cons.prems(1) st new]) (use Cons.prems(3,4) in auto)
  obtain c1 where c1: "Connection_queueReceivedMessagePacket p c = (c1, map CnMessageReceived d1)"
      "map_of (cn_pendingReceivedMessages c1) n = (if pkt_part ` insert p A = {..<K} then None else Some m)"
    using queueReceived_pending [OF _ d] Cons.prems(2) e by (auto simp: ends_message_def)
  show ?case
  proof (cases "pkt_part ` insert p A = {..<K}")
    case True
    have "pkt_part ` set ps \<inter> pkt_part ` insert p A = {}"
      using Cons.prems(6,7) by auto
    moreover have "pkt_part ` set ps \<subseteq> {..<K}"
      using Cons.prems(4) by auto
    ultimately have ps: "ps = []"
      unfolding True by (cases ps) auto
    show ?thesis
      using pm_state_complete [OF st True] st True c1 by (auto simp: ps pm_state_def)
  next
    case False
    then have "cn_pending n c1 = m" by (simp add: cn_pending_def c1(2))
    then have "\<exists>c' ds'. Connection_queueAll ps c1 = (c', map CnMessageReceived ds')
      \<and> (if ps \<noteq> [] \<and> pkt_part ` (insert p A \<union> set ps) = {..<K}
         then map pkt_part ((ds @ d1) @ ds') = [0..<K] \<and> set ((ds @ d1) @ ds') = insert p A \<union> set ps
           \<and> map_of (cn_pendingReceivedMessages c') n = None
         else pm_state (insert p A \<union> set ps) ((ds @ d1) @ ds') (cn_pending n c'))"
      by (intro Cons.IH) (use st Cons.prems in auto)
    then obtain c' ds' where "Connection_queueAll ps c1 = (c', map CnMessageReceived ds')"
      "if ps \<noteq> [] \<and> pkt_part ` (insert p A \<union> set ps) = {..<K}
         then map pkt_part ((ds @ d1) @ ds') = [0..<K] \<and> set ((ds @ d1) @ ds') = insert p A \<union> set ps
           \<and> map_of (cn_pendingReceivedMessages c') n = None
         else pm_state (insert p A \<union> set ps) ((ds @ d1) @ ds') (cn_pending n c')"
      by blast
    with False c1(1) show ?thesis
      by (intro exI [of _ c'] exI [of _ "d1 @ ds'"]) (auto split: if_splits)
  qed
qed

section \<open>The receiver's bookkeeping\<close>

text \<open>
  After a handshake that starts at \<open>base + 1\<close>, when the numbers of \<open>R\<close> (all above \<open>base\<close>) have arrived:
  the loss list holds what is missing up to the largest arrival. \<open>W\<close> is a window around the traffic.
\<close>

definition cn_recv :: "int \<times> int \<Rightarrow> int \<Rightarrow> int set \<Rightarrow> 'addr connection \<Rightarrow> bool" where
  "cn_recv W base R c \<longleftrightarrow> cn_hasReceivedHandshake c \<and> ll_inv W (cn_lossList c) \<and> win W base
     \<and> base \<le> cn_lastReceivedSequenceNumber c \<and> cn_lastReceivedSequenceNumber c < snd W
     \<and> ll_set (cn_lossList c) = {base + 1..cn_lastReceivedSequenceNumber c} - R
     \<and> R \<subseteq> {base + 1..cn_lastReceivedSequenceNumber c}
     \<and> (base < cn_lastReceivedSequenceNumber c \<longrightarrow> cn_lastReceivedSequenceNumber c \<in> R)
     \<and> ctl_ok ACK (cn_ackPacket c)"

lemma cn_recvD:
  assumes "cn_recv W base R c"
  shows "win_ok W" and "ll_inv W (cn_lossList c)" and "win W base" and "base \<le> cn_lastReceivedSequenceNumber c"
    and "cn_lastReceivedSequenceNumber c < snd W" and "win W (cn_lastReceivedSequenceNumber c)"
    and "ll_set (cn_lossList c) = {base + 1..cn_lastReceivedSequenceNumber c} - R"
    and "\<forall>x \<in> R. x \<le> cn_lastReceivedSequenceNumber c" and "\<forall>x \<in> R. base < x"
    and "ctl_ok ACK (cn_ackPacket c)"
  using assms by (auto simp: cn_recv_def ll_inv_def win_def)

lemma track_above:
  assumes r: "cn_recv W base R c" and s: "s < snd W" and above: "cn_lastReceivedSequenceNumber c < s"
  shows "\<exists>c'. Connection_trackSequenceNumber s c = (False, c') \<and> cn_recv W base (insert s R) c'
    \<and> cn_destination c' = cn_destination c"
proof -
  note I = cn_recvD [OF r]
  obtain recent where n: "cn_lastReceivedSequenceNumber c = recent" by blast
  note I' = I [unfolded n]
  have ws: "win W s" and w1: "win W (recent + 1)" and wb: "win W (s - 1)"
    using s above I'(3,4) by (auto simp: win_def n)
  have e: "SequenceNumber_plus recent 1 = recent + 1" "SequenceNumber_minus s 1 = s - 1"
    using win_plus [OF I'(1), of recent 1] win_minus [OF I'(1), of s 1] I'(5) wb by (auto simp: win_def)
  have gt: "SequenceNumber_gt s recent" "SequenceNumber_gt s (recent + 1) \<longleftrightarrow> recent + 1 < s"
    using above by (simp_all add: win_gt [OF I'(1) ws I'(6)] win_gt [OF I'(1) ws w1] n)
  obtain l where l: "(if recent + 1 < s
        then (if recent + 1 = s - 1 then LossList_append (cn_lossList c) (recent + 1)
              else LossList_append_range (cn_lossList c) (recent + 1) (s - 1)) else cn_lossList c) = l" by blast
  have t: "Connection_trackSequenceNumber s c = (False, c\<lparr>cn_lossList := l, cn_lastReceivedSequenceNumber := s\<rparr>)"
    unfolding Connection_trackSequenceNumber_def Let_def n e gt(2) l by (simp add: gt(1))
  have h: "cn_hasReceivedHandshake c" and sub: "R \<subseteq> {base + 1..s}"
    using r above by (auto simp: cn_recv_def)
  have "ll_inv W l \<and> ll_set l = {base + 1..s} - insert s R"
  proof (cases "recent + 1 < s")
    case False
    then have "s = recent + 1" using above n by simp
    moreover have "s \<notin> R" using I'(8) above by (auto simp: n)
    moreover have "{base + 1..recent + 1} - insert (recent + 1) R = {base + 1..recent} - R"
      by force
    moreover have "l = cn_lossList c"
      unfolding l [symmetric] if_not_P [OF False] ..
    ultimately show ?thesis
      using I'(2,7) by simp
  next
    case True
    show ?thesis
    proof (cases "recent + 1 = s - 1")
      case eq: True
      then have s2: "s = recent + 2" by simp
      have "l = LossList_append (cn_lossList c) (recent + 1)"
        unfolding l [symmetric] if_P [OF True] if_P [OF eq] ..
      then show ?thesis
        unfolding s2 by (simp only: ll.gap_single [of W "cn_lossList c" base recent R, OF I'(2,7) w1 I'(4,8)])
    next
      case False
      have "l = LossList_append_range (cn_lossList c) (recent + 1) (s - 1)"
        unfolding l [symmetric] if_P [OF True] if_not_P [OF False] ..
      then show ?thesis
        by (simp only: ll.gap_range [of W "cn_lossList c" base recent R s, OF I'(2,7) w1 wb True I'(4,8)])
    qed
  qed
  then have "cn_recv W base (insert s R) (c\<lparr>cn_lossList := l, cn_lastReceivedSequenceNumber := s\<rparr>)"
    unfolding cn_recv_def using h sub s above n I'(3,4,10) by simp
  then show ?thesis by (simp add: t)
qed

lemma track_below:
  assumes r: "cn_recv W base R c" and s: "win W s" and below: "s \<le> cn_lastReceivedSequenceNumber c"
  shows "\<exists>c'. Connection_trackSequenceNumber s c = (s \<le> base \<or> s \<in> R, c')
    \<and> cn_recv W base (if base < s then insert s R else R) c' \<and> cn_destination c' = cn_destination c"
proof -
  note I = cn_recvD [OF r]
  obtain recent where n: "cn_lastReceivedSequenceNumber c = recent" by blast
  note I' = I [unfolded n]
  have w1: "win W (recent + 1)"
    using I'(3,4,5) by (auto simp: win_def)
  have e: "SequenceNumber_plus recent 1 = recent + 1"
    by (rule win_plus [OF I'(1)]) (use I'(5) in simp)
  have ng: "\<not> SequenceNumber_gt s recent" "\<not> SequenceNumber_gt s (recent + 1)"
    using below by (simp_all add: win_gt [OF I'(1) s I'(6)] win_gt [OF I'(1) s w1] n)
  obtain b l where rem: "LossList_remove (cn_lossList c) s = (b, l)" by (metis surj_pair)
  have t: "Connection_trackSequenceNumber s c = (\<not> b, c\<lparr>cn_lossList := l\<rparr>)"
    by (simp add: Connection_trackSequenceNumber_def Let_def n e ng rem)
  have "ll_inv W l \<and> (b \<longleftrightarrow> base < s \<and> s \<notin> R)
      \<and> ll_set l = {base + 1..recent} - (if base < s then insert s R else R)"
  proof (cases "base < s")
    case True
    with ll.fill_hole [OF I'(2,7) s True below [unfolded n] rem] show ?thesis by simp
  next
    case False
    with ll.rem_law [OF I'(2) s rem] I'(7) show ?thesis by auto
  qed
  then have b: "\<not> b \<longleftrightarrow> s \<le> base \<or> s \<in> R"
    and "cn_recv W base (if base < s then insert s R else R) (c\<lparr>cn_lossList := l\<rparr>)"
    using r below by (auto simp: cn_recv_def n not_less)
  then show ?thesis by (simp add: t b)
qed

lemma track_laws:
  assumes "cn_recv W base R c" and "win W s" and "s < snd W"
  shows "\<exists>c'. Connection_trackSequenceNumber s c = (s \<le> base \<or> s \<in> R, c')
    \<and> cn_recv W base (if base < s then insert s R else R) c' \<and> cn_destination c' = cn_destination c"
proof (cases "s \<le> cn_lastReceivedSequenceNumber c")
  case True
  then show ?thesis by (rule track_below [OF assms(1,2)])
next
  case False
  then have "base < s" and "s \<notin> R"
    using cn_recvD(4,8) [OF assms(1)] by auto
  then show ?thesis
    using track_above [OF assms(1,3)] False by auto
qed

text \<open>The number acknowledged.\<close>

lemma nextACK_prefix:
  assumes r: "cn_recv W base R c"
  shows "base \<le> Connection_nextACK c \<and> {base + 1..Connection_nextACK c} \<subseteq> R \<and> Connection_nextACK c + 1 \<notin> R
    \<and> win W (Connection_nextACK c)"
proof -
  note I = cn_recvD [OF r]
  have len: "LossList_getLength (cn_lossList c) > 0 \<longleftrightarrow> \<not> LossList_isEmpty (cn_lossList c)"
    using ll_length_card [OF I(2)] ll.empty_iff [OF I(2)] ll.len_card [OF I(2)] by (auto simp: card_gt_0_iff)
  have m: "SequenceNumber_minus (LossList_getFirstSequenceNumber (cn_lossList c)) 1
      = LossList_getFirstSequenceNumber (cn_lossList c) - 1" if "\<not> LossList_isEmpty (cn_lossList c)"
    using ll.first_in [OF I(2) that] I(3,7) by (intro win_minus [OF I(1)]) (auto simp: win_def)
  have a: "Connection_nextACK c = (if LossList_isEmpty (cn_lossList c) then cn_lastReceivedSequenceNumber c
      else LossList_getFirstSequenceNumber (cn_lossList c) - 1)"
    using m by (simp add: Connection_nextACK_def len)
  have "cn_lastReceivedSequenceNumber c + 1 \<notin> R"
    using I(8) by fastforce
  with ll.cumulative_ack [OF I(2,7,4) a] I(3,5) show ?thesis
    by (cases "Connection_nextACK c < cn_lastReceivedSequenceNumber c") (auto simp: win_def)
qed

lemma sendACK_laws:
  assumes "ctl_ok ACK (cn_ackPacket c)"
  shows "\<exists>p st. Connection_sendACK c = Some (c\<lparr>cn_ackPacket := p, cn_stats := st\<rparr>,
      [CnDatagram (ctl_wire ACK (Connection_nextACK c)) (cn_destination c)]) \<and> ctl_ok ACK p"
proof -
  obtain p where "QIODevice_write (seq_bytes (Connection_nextACK c)) (BasePacket_reset (cn_ackPacket c)) = Some (4, p)"
      "ctl_ok ACK p" "BasePacket_wire p = Some (ctl_wire ACK (Connection_nextACK c))"
    using ctl_reset_write [OF assms] by blast
  then show ?thesis
    by (auto simp: Connection_sendACK_def)
qed

lemma processReceived_laws:
  assumes r: "cn_recv W base R c" and s: "win W s" "s < snd W"
  shows "\<exists>c'. Connection_processReceivedSequenceNumber s packetSize payloadSize c
      = Some (base < s \<and> s \<notin> R, c', [CnDatagram (ctl_wire ACK (Connection_nextACK c')) (cn_destination c)])
    \<and> cn_recv W base (if base < s then insert s R else R) c' \<and> cn_destination c' = cn_destination c"
proof -
  obtain c1 where t: "Connection_trackSequenceNumber s c = (s \<le> base \<or> s \<in> R, c1)"
    and c1: "cn_recv W base (if base < s then insert s R else R) c1" "cn_destination c1 = cn_destination c"
    using track_laws [OF r s] by blast
  obtain p st where a: "Connection_sendACK c1 = Some (c1\<lparr>cn_ackPacket := p, cn_stats := st\<rparr>,
      [CnDatagram (ctl_wire ACK (Connection_nextACK c1)) (cn_destination c1)])" "ctl_ok ACK p"
    using sendACK_laws [OF cn_recvD(10) [OF c1(1)]] by blast
  have h: "cn_hasReceivedHandshake c" using r by (simp add: cn_recv_def)
  have nx: "Connection_nextACK (c1\<lparr>cn_ackPacket := p, cn_stats := st'\<rparr>) = Connection_nextACK c1" for st'
    by (simp add: Connection_nextACK_def)
  have rec: "cn_recv W base (if base < s then insert s R else R) (c1\<lparr>cn_ackPacket := p, cn_stats := st'\<rparr>)" for st'
    using c1(1) a(2) by (simp add: cn_recv_def)
  show ?thesis
    using c1(2) rec nx by (auto simp: Connection_processReceivedSequenceNumber_def h t a(1) not_le)
qed

text \<open>The handler over a whole sequence of arrivals: what it answered for each, and the datagrams sent.\<close>

primrec Connection_receiveAll ::
  "seqnum list \<Rightarrow> 'addr connection \<Rightarrow> (bool list \<times> 'addr connection \<times> 'addr cn_event list) option" where
  "Connection_receiveAll [] c = Some ([], c, [])"
| "Connection_receiveAll (s # ss) c =
     do { (ok, c1, out) \<leftarrow> Connection_processReceivedSequenceNumber s 0 0 c;
          (oks, c2, out') \<leftarrow> Connection_receiveAll ss c1;
          Some (ok # oks, c2, out @ out') }"

fun first_seen :: "int set \<Rightarrow> int \<Rightarrow> int list \<Rightarrow> bool list" where
  "first_seen R base [] = []"
| "first_seen R base (s # ss) =
     ((base < s \<and> s \<notin> R) # first_seen (if base < s then insert s R else R) base ss)"

lemma receiveAll_laws:
  assumes "cn_recv W base R c" and "\<forall>s \<in> set ss. win W s \<and> s < snd W"
  shows "\<exists>c' out. Connection_receiveAll ss c = Some (first_seen R base ss, c', out)
    \<and> cn_recv W base (R \<union> {s \<in> set ss. base < s}) c' \<and> cn_destination c' = cn_destination c"
  using assms
proof (induction ss arbitrary: R c)
  case Nil
  then show ?case by simp
next
  case (Cons s ss)
  then obtain c1 where c1: "Connection_processReceivedSequenceNumber s 0 0 c
      = Some (base < s \<and> s \<notin> R, c1, [CnDatagram (ctl_wire ACK (Connection_nextACK c1)) (cn_destination c)])"
    "cn_recv W base (if base < s then insert s R else R) c1" "cn_destination c1 = cn_destination c"
    using processReceived_laws [of W base R c s 0 0] by auto
  obtain c2 out where c2: "Connection_receiveAll ss c1 = Some (first_seen (if base < s then insert s R else R) base ss, c2, out)"
    "cn_recv W base ((if base < s then insert s R else R) \<union> {s \<in> set ss. base < s}) c2"
    "cn_destination c2 = cn_destination c1"
    using Cons.IH [OF c1(2)] Cons.prems(2) by auto
  have "(if base < s then insert s R else R) \<union> {s \<in> set ss. base < s} = R \<union> {x \<in> set (s # ss). base < x}"
    by auto
  with c1 c2 show ?case by auto
qed

lemma first_seen_nth:
  "i < length ss \<Longrightarrow> first_seen R base ss ! i \<longleftrightarrow> base < ss ! i \<and> ss ! i \<notin> R \<union> set (take i ss)"
  by (induction ss arbitrary: i R) (auto simp: nth_Cons' less_Suc_eq_0_disj take_Cons')

lemma length_first_seen [simp]: "length (first_seen R base ss) = length ss"
  by (induction ss arbitrary: R) auto

section \<open>Handshakes\<close>

text \<open>A control packet that a connection reads as carrying the number \<open>s\<close>.\<close>

definition carries :: "'addr control_packet \<Rightarrow> control_type \<Rightarrow> seqnum \<Rightarrow> bool" where
  "carries p t s \<longleftrightarrow> ControlType_of (ctl_type p) = Some t \<and> (\<exists>p'. readSequenceNumber p = Some (s, p'))"

lemma carries_wire:
  "seq_wf s \<Longrightarrow> \<exists>q. ControlPacket_fromReceivedPacket (ctl_wire t s) 8 a = Some q \<and> carries q t s"
  using ctl_parse [of s t a] by (auto simp: carries_def)

lemma processHandshake_laws:
  assumes h: "ctl_ok HandshakeACK (cn_handshakeACK c)" and p: "carries p Handshake s"
  shows "\<exists>c' failed done. Connection_processControl now p c
      = Some (c', failed @ [CnDatagram (ctl_wire HandshakeACK s) (cn_destination c)] @ done)
    \<and> cn_hasReceivedHandshake c' \<and> \<not> cn_didRequestHandshake c'
    \<and> ctl_ok HandshakeACK (cn_handshakeACK c') \<and> cn_ackPacket c' = cn_ackPacket c
    \<and> done = (if cn_didRequestHandshake c then [CnHandshakeRequestComplete (cn_destination c)] else [])
    \<and> (if cn_hasReceivedHandshake c \<and> s = cn_initialReceiveSequenceNumber c
       then failed = [] \<and> cn_lossList c' = cn_lossList c
         \<and> cn_lastReceivedSequenceNumber c' = cn_lastReceivedSequenceNumber c
         \<and> cn_pendingReceivedMessages c' = cn_pendingReceivedMessages c
         \<and> cn_initialReceiveSequenceNumber c' = cn_initialReceiveSequenceNumber c
       else failed = map (\<lambda>m. CnMessageFailed (fst m)) (cn_pendingReceivedMessages c)
         \<and> cn_lossList c' = LossList_new \<and> cn_lastReceivedSequenceNumber c' = SequenceNumber_minus s 1
         \<and> cn_pendingReceivedMessages c' = [] \<and> cn_initialReceiveSequenceNumber c' = s)"
proof -
  obtain p' where r: "readSequenceNumber p = Some (s, p')" and t: "ControlType_of (ctl_type p) = Some Handshake"
    using p by (auto simp: carries_def)
  obtain b where b: "QIODevice_write (seq_bytes s) (BasePacket_reset (cn_handshakeACK c)) = Some (4, b)"
      "ctl_ok HandshakeACK b" "BasePacket_wire b = Some (ctl_wire HandshakeACK s)"
    using ctl_reset_write [OF h] by blast
  have "LossList_clear (cn_lossList c) = LossList_new"
    by (simp add: LossList_clear_def LossList_new_def)
  then show ?thesis
    using b by (auto simp: Connection_processControl_def t Connection_processHandshake_def r Connection_resetReceiveState_def)
qed

lemma Connection_new_laws:
  "\<exists>c :: 'a connection. Connection_new d r now = Some c \<and> ctl_ok ACK (cn_ackPacket c)
    \<and> ctl_ok HandshakeACK (cn_handshakeACK c) \<and> \<not> cn_hasReceivedHandshake c \<and> \<not> cn_hasReceivedHandshakeACK c
    \<and> \<not> cn_didRequestHandshake c
    \<and> cn_initialSequenceNumber c = SequenceNumber_of_int r \<and> cn_sendQueue c = None \<and> cn_destination c = d
    \<and> cn_pendingReceivedMessages c = [] \<and> cn_congestionControl c = TCPVegasCC_new \<and> cn_lastMessageNumber c = 0"
proof -
  obtain a h :: "'a control_packet" where "ControlPacket_create ACK 4 = Some a" "ctl_ok ACK a"
      "ControlPacket_create HandshakeACK 4 = Some h" "ctl_ok HandshakeACK h"
    using ctl_create [of ACK] ctl_create [of HandshakeACK] by blast
  then show ?thesis by (simp add: Connection_new_def)
qed

text \<open>The handshake a fresh send queue repeats until it is answered.\<close>

lemma sendHandshake_laws:
  assumes "\<not> sq_hasReceivedHandshakeACK q"
  shows "SendQueue_sendHandshake q
    = Some [Datagram (ctl_wire Handshake (SequenceNumber_plus (sq_currentSequenceNumber q) 1)) (sq_destination q)]"
proof -
  obtain p :: "'a control_packet" where p: "ControlPacket_create Handshake 4 = Some p" "ctl_ok Handshake p"
      "bp_payloadSize p = 0" "bp_pos p = 0"
    using ctl_create by blast
  from ctl_write [OF p(2-4)] obtain p' where
    "QIODevice_write (seq_bytes (SequenceNumber_plus (sq_currentSequenceNumber q) 1)) p = Some (4, p')"
    "BasePacket_wire p' = Some (ctl_wire Handshake (SequenceNumber_plus (sq_currentSequenceNumber q) 1))"
    by blast
  then show ?thesis
    using assms p(1) by (simp add: SendQueue_sendHandshake_def)
qed

lemma getSendQueue_fresh:
  assumes "cn_sendQueue c = None" and "\<not> cn_hasReceivedHandshakeACK c"
  shows "\<exists>q c'. Connection_getSendQueue c = (q, c') \<and> cn_sendQueue c' = Some q
    \<and> sq_currentSequenceNumber q = SequenceNumber_minus (cn_initialSequenceNumber c) 1
    \<and> sq_lastACKSequenceNumber q = sq_currentSequenceNumber q
    \<and> sq_atomicCurrentSequenceNumber q = sq_currentSequenceNumber q
    \<and> cn_lastReceivedACK c' = sq_currentSequenceNumber q
    \<and> \<not> sq_hasReceivedHandshakeACK q \<and> sq_destination q = cn_destination c
    \<and> cn_initialSequenceNumber c' = cn_initialSequenceNumber c \<and> \<not> cn_hasReceivedHandshakeACK c'"
  using assms
  by (simp add: Connection_getSendQueue_def Let_def Connection_tuneQueue_def SendQueue_new_def
      SendQueue_setFlowWindowSize_def SendQueue_setEstimatedTimeout_def SendQueue_setPacketSendPeriod_def
      SendQueue_getCurrentSequenceNumber_def)

lemma processHandshake_recv:
  assumes "ctl_ok HandshakeACK (cn_handshakeACK c)" and "ctl_ok ACK (cn_ackPacket c)" and "carries p Handshake s"
    and "win_ok W" and "win W (s - 1)" and "s < snd W"
  shows "\<exists>c' failed done. Connection_processControl now p c
      = Some (c', failed @ [CnDatagram (ctl_wire HandshakeACK s) (cn_destination c)] @ done)
    \<and> (if cn_hasReceivedHandshake c \<and> s = cn_initialReceiveSequenceNumber c
       then failed = [] \<and> (cn_recv W base R c \<longrightarrow> cn_recv W base R c')
       else cn_recv W (s - 1) {} c' \<and> map CnMessageFailed (map fst (cn_pendingReceivedMessages c)) = failed)"
proof -
  obtain c' failed don where h: "Connection_processControl now p c
      = Some (c', failed @ [CnDatagram (ctl_wire HandshakeACK s) (cn_destination c)] @ don)"
    "cn_hasReceivedHandshake c'" "cn_ackPacket c' = cn_ackPacket c"
    "if cn_hasReceivedHandshake c \<and> s = cn_initialReceiveSequenceNumber c
       then failed = [] \<and> cn_lossList c' = cn_lossList c
         \<and> cn_lastReceivedSequenceNumber c' = cn_lastReceivedSequenceNumber c
         \<and> cn_pendingReceivedMessages c' = cn_pendingReceivedMessages c
         \<and> cn_initialReceiveSequenceNumber c' = cn_initialReceiveSequenceNumber c
       else failed = map (\<lambda>m. CnMessageFailed (fst m)) (cn_pendingReceivedMessages c)
         \<and> cn_lossList c' = LossList_new \<and> cn_lastReceivedSequenceNumber c' = SequenceNumber_minus s 1
         \<and> cn_pendingReceivedMessages c' = [] \<and> cn_initialReceiveSequenceNumber c' = s"
    using processHandshake_laws [OF assms(1,3), of now] by blast
  have "SequenceNumber_minus s 1 = s - 1"
    by (rule win_minus [OF assms(4)]) (use assms(5) in \<open>simp add: win_def\<close>)
  with h assms ll_inv_new [OF assms(4)] show ?thesis
    by (intro exI [of _ c'] exI [of _ failed] exI [of _ don]) (auto simp: cn_recv_def)
qed

lemma cn_recv_start:
  assumes "ctl_ok HandshakeACK (cn_handshakeACK c)" and "ctl_ok ACK (cn_ackPacket c)" and "\<not> cn_hasReceivedHandshake c"
    and "carries p Handshake s" and "win_ok W" and "win W (s - 1)" and "s < snd W"
  shows "\<exists>c' out. Connection_processControl now p c = Some (c', out) \<and> cn_recv W (s - 1) {} c'"
proof -
  have n: "\<not> (cn_hasReceivedHandshake c \<and> s = cn_initialReceiveSequenceNumber c)"
    using assms(3) by simp
  from processHandshake_recv [OF assms(1,2,4-7), of now undefined undefined] show ?thesis
    unfolding if_not_P [OF n] by blast
qed

lemma cn_recv_example: "\<exists>c :: nat connection. cn_recv (0, 100) 9 {} c"
proof -
  obtain c :: "nat connection" where "ctl_ok ACK (cn_ackPacket c)" "ctl_ok HandshakeACK (cn_handshakeACK c)"
      "\<not> cn_hasReceivedHandshake c"
    using Connection_new_laws [where 'a = nat, of 0 0 0] by blast
  moreover obtain p :: "nat control_packet" where "carries p Handshake 10"
    using carries_wire [of 10 Handshake "0 :: nat"] by (auto simp: seq_wf_def seq_consts)
  moreover have "win_ok (0, 100)" "win (0, 100) (10 - 1)" "(10 :: int) < snd (0 :: int, 100)"
    by (simp_all add: win_ok_def win_def seq_consts)
  ultimately obtain c' :: "nat connection" where "cn_recv (0, 100) (10 - 1) {} c'"
    using cn_recv_start [of c p 10 "(0, 100)" 0] by blast
  then show ?thesis by (intro exI [of _ c']) simp
qed

section \<open>Acknowledgements received\<close>

text \<open>Tuning the queue and a fast retransmission leave what has been sent and acknowledged alone.\<close>

definition same_traffic :: "'addr send_queue \<Rightarrow> 'addr send_queue \<Rightarrow> bool" where
  "same_traffic q q' \<longleftrightarrow> sq_lastACKSequenceNumber q' = sq_lastACKSequenceNumber q
     \<and> sq_currentSequenceNumber q' = sq_currentSequenceNumber q
     \<and> sq_sentPackets q' = sq_sentPackets q \<and> sq_packets q' = sq_packets q
     \<and> sq_atomicCurrentSequenceNumber q' = sq_atomicCurrentSequenceNumber q"

lemma same_traffic_tune [simp]: "same_traffic q (Connection_tuneQueue cc q') \<longleftrightarrow> same_traffic q q'"
  by (simp add: same_traffic_def Connection_tuneQueue_def SendQueue_setFlowWindowSize_def
      SendQueue_setEstimatedTimeout_def SendQueue_setPacketSendPeriod_def)

lemma naks_tune [simp]: "sq_naks (Connection_tuneQueue cc q') = sq_naks q'"
  by (simp add: Connection_tuneQueue_def SendQueue_setFlowWindowSize_def SendQueue_setEstimatedTimeout_def
      SendQueue_setPacketSendPeriod_def)

lemma same_traffic_fast [simp]: "same_traffic q (SendQueue_fastRetransmit n q') \<longleftrightarrow> same_traffic q q'"
  by (simp add: same_traffic_def SendQueue_fastRetransmit_def)

lemma same_traffic_refl [simp]: "same_traffic q q"
  by (simp add: same_traffic_def)

lemma sq_inv_same_traffic: "sq_inv W q \<Longrightarrow> same_traffic q q' \<Longrightarrow> sq_naks q' = sq_naks q \<Longrightarrow> sq_inv W q'"
  by (simp add: sq_inv_def same_traffic_def)

text \<open>The congestion control may ask for the number after the acknowledged one again, sent or not.\<close>

lemma update_after_ack:
  assumes "cn_sendQueue c = Some q" "sq_inv W q" "sq_lastACKSequenceNumber q = a"
  shows "\<exists>q'. cn_sendQueue (Connection_updateCongestionControlAndSendQueue (Connection_ackCallback now a t) c) = Some q'
    \<and> same_traffic q q' \<and> sq_inv W q'
    \<and> (ll_set (sq_naks q') = ll_set (sq_naks q) \<or> ll_set (sq_naks q') = insert (a + 1) (ll_set (sq_naks q)))
    \<and> cn_lastReceivedACK (Connection_updateCongestionControlAndSendQueue (Connection_ackCallback now a t) c)
      = cn_lastReceivedACK c"
proof -
  obtain fast cc where cc: "TCPVegasCC_onACK now a t (CongestionControl_setSendCurrentSequenceNumber
      (SendQueue_getCurrentSequenceNumber q) (cn_congestionControl c)) = (fast, cc)"
    by (metis surj_pair)
  note I = sq_invD [OF assms(2)]
  have plus: "SequenceNumber_plus a 1 = a + 1"
    using win_plus [OF I(1), of a 1] I(2,4,5) assms(3) by (simp add: win_def)
  have f: "sq_inv W (SendQueue_fastRetransmit (a + 1) q)"
      "ll_set (sq_naks (SendQueue_fastRetransmit (a + 1) q)) = insert (a + 1) (ll_set (sq_naks q))"
    using SendQueue_fastRetransmit_laws [OF assms(2), of "a + 1"] I(4) assms(3) by simp_all
  obtain q0 where q0: "(if fast then SendQueue_fastRetransmit (a + 1) q else q) = q0" by blast
  have i0: "sq_inv W q0" "same_traffic q q0"
      "ll_set (sq_naks q0) = ll_set (sq_naks q) \<or> ll_set (sq_naks q0) = insert (a + 1) (ll_set (sq_naks q))"
    using f assms(2) by (auto simp flip: q0)
  have i1: "sq_inv W (Connection_tuneQueue cc' q0)" for cc'
    by (rule sq_inv_same_traffic [OF i0(1)]) simp_all
  show ?thesis
  proof (cases fast)
    case True
    then show ?thesis using assms(1) i0 i1 q0
      by (simp add: Connection_updateCongestionControlAndSendQueue_def Connection_ackCallback_def
        Connection_getSendQueue_def Let_def cc plus)
  next
    case False
    then have "q0 = q" using q0 by simp
    note i = i1 [unfolded this]
    show ?thesis using assms(1) i False
      by (simp add: Connection_updateCongestionControlAndSendQueue_def Connection_ackCallback_def
        Connection_getSendQueue_def Let_def cc)
  qed
qed

section \<open>Properties\<close>

text \<open>
  C2. Reliable delivery happens at most once and acknowledgements are honest, within a window \<open>W\<close> of less than half the
  number space that does not cross zero. After a handshake that starts at \<open>base + 1\<close>, whatever numbers of the window
  arrive, in whatever order and however often: the handler never fails, it accepts exactly the first arrival of every number
  above \<open>base\<close>, and the number it acknowledges at the end is the end of the longest run from \<open>base + 1\<close> that has
  arrived completely. (Across zero this is false: see \<open>Connection_refuses_new_number_after_wrap\<close>.)
\<close>

theorem Connection_accepts_each_number_once:
  assumes "cn_recv W base {} c" and "\<forall>s \<in> set ss. win W s \<and> s < snd W"
  shows "\<exists>oks c' out. Connection_receiveAll ss c = Some (oks, c', out) \<and> length oks = length ss
    \<and> (\<forall>i < length ss. oks ! i \<longleftrightarrow> base < ss ! i \<and> ss ! i \<notin> set (take i ss))
    \<and> base \<le> Connection_nextACK c' \<and> {base + 1..Connection_nextACK c'} \<subseteq> set ss
    \<and> Connection_nextACK c' + 1 \<notin> set ss"
proof -
  obtain c' out where r: "Connection_receiveAll ss c = Some (first_seen {} base ss, c', out)"
      "cn_recv W base ({} \<union> {s \<in> set ss. base < s}) c'"
    using receiveAll_laws [OF assms] by blast
  have "base \<le> Connection_nextACK c'" "{base + 1..Connection_nextACK c'} \<subseteq> {s \<in> set ss. base < s}"
    "Connection_nextACK c' + 1 \<notin> {s \<in> set ss. base < s}"
    using nextACK_prefix [OF r(2)] by auto
  with r(1) show ?thesis
    by (auto simp: first_seen_nth)
qed

theorem Connection_accepts_each_number_once_witness:
  "\<exists>(c :: nat connection) c' out. Connection_receiveAll [10, 12, 10] c = Some ([True, True, False], c', out)
    \<and> Connection_nextACK c' = 10"
proof -
  obtain c :: "nat connection" where "cn_recv (0, 100) 9 {} c" using cn_recv_example by blast
  moreover obtain ss where ss: "ss = [10, 12, 10 :: int]" by blast
  moreover have "\<forall>s \<in> set ss. win (0, 100) s \<and> s < snd (0 :: int, 100)"
    by (simp add: win_def ss)
  ultimately obtain oks c' out where r0: "Connection_receiveAll ss c = Some (oks, c', out)" "length oks = length ss"
      "\<forall>i < length ss. oks ! i \<longleftrightarrow> 9 < ss ! i \<and> ss ! i \<notin> set (take i ss)"
      "9 \<le> Connection_nextACK c'" "{9 + 1..Connection_nextACK c'} \<subseteq> set ss" "Connection_nextACK c' + 1 \<notin> set ss"
    using Connection_accepts_each_number_once [of "(0, 100)" 9 c ss] by blast
  have r: "Connection_receiveAll [10, 12, 10] c = Some (oks, c', out)" "length oks = 3"
      "9 \<le> Connection_nextACK c'" "{10..Connection_nextACK c'} \<subseteq> {10, 12, 10}" "Connection_nextACK c' + 1 \<notin> {10, 12, 10}"
    using r0 unfolding ss by (simp_all del: Connection_receiveAll.simps)
  have "oks = [oks ! 0, oks ! 1, oks ! 2]"
    using r(2) by (intro nth_equalityI) (auto simp: less_Suc_eq numeral_eq_Suc)
  also have "\<dots> = [True, True, False]"
    using r0(3) by (simp add: ss less_Suc_eq numeral_eq_Suc)
  finally have "oks = [True, True, False]" .
  moreover have "Connection_nextACK c' = 10"
  proof (rule ccontr)
    assume "Connection_nextACK c' \<noteq> 10"
    with r(3,5) have "11 \<in> {10..Connection_nextACK c'}" by auto
    with r(4) have "(11 :: int) \<in> {10, 12, 10}" by blast
    then show False by simp
  qed
  ultimately show ?thesis using r(1) by blast
qed

text \<open>
  C25. Every arrival of a number above \<open>base\<close>, in a window \<open>W\<close> of less than half the number space that does not cross zero, is
  answered with one acknowledgement. For a connection that has received exactly the numbers of \<open>R\<close> since the
  handshake that starts at \<open>base + 1\<close>, the handler keeps the bookkeeping right and sends the peer one ACK datagram,
  whose number the peer reads back as the end of the longest complete run.
\<close>

theorem Connection_acknowledges_prefix:
  assumes "cn_recv W base R c" and "win W s" and "base < s" and "s < snd W"
  shows "\<exists>c' a q. Connection_processReceivedSequenceNumber s packetSize payloadSize c
      = Some (s \<notin> R, c', [CnDatagram (ctl_wire ACK a) (cn_destination c)])
    \<and> cn_recv W base (insert s R) c'
    \<and> base \<le> a \<and> {base + 1..a} \<subseteq> insert s R \<and> a + 1 \<notin> insert s R
    \<and> ControlPacket_fromReceivedPacket (ctl_wire ACK a) 8 peer = Some q \<and> carries q ACK a"
proof -
  obtain c' where c': "Connection_processReceivedSequenceNumber s packetSize payloadSize c
      = Some (s \<notin> R, c', [CnDatagram (ctl_wire ACK (Connection_nextACK c')) (cn_destination c)])"
    "cn_recv W base (insert s R) c'"
    using processReceived_laws [OF assms(1,2,4), of packetSize payloadSize] assms(3) by auto
  note a = nextACK_prefix [OF c'(2)]
  then have "seq_wf (Connection_nextACK c')"
    using win_wf [OF cn_recvD(1) [OF c'(2)]] by blast
  from carries_wire [OF this, of ACK peer] c' a show ?thesis by blast
qed

theorem Connection_acknowledges_prefix_witness:
  "\<exists>(c :: nat connection) c' out. Connection_processReceivedSequenceNumber 12 0 0 c = Some (True, c', out)
    \<and> cn_recv (0, 100) 9 {12} c'"
proof -
  obtain c :: "nat connection" where "cn_recv (0, 100) 9 {} c" using cn_recv_example by blast
  moreover have "win (0, 100) 12" "(9 :: int) < 12" "(12 :: int) < snd (0 :: int, 100)"
    by (simp_all add: win_def)
  ultimately obtain c' a where "Connection_processReceivedSequenceNumber 12 0 0 c
      = Some ((12 :: int) \<notin> {}, c', [CnDatagram (ctl_wire ACK a) (cn_destination c)])" "cn_recv (0, 100) 9 (insert 12 {}) c'"
    using Connection_acknowledges_prefix [of "(0, 100)" 9 "{}" c 12 0 0 0] by blast
  then show ?thesis by auto
qed

text \<open>
  Across zero packets are lost for good. When the last number received is between 3 and half the number space below the
  largest and nothing is missing, and then number 0 arrives, the receiver should note all numbers in between as missing. It
  leaves out the last two: \<open>sequenceNumber - 1\<close> is two too small when it wraps. The largest number and the one before it, never
  received, are refused as duplicates when they arrive, while every other number of the gap is accepted.
\<close>

theorem Connection_refuses_new_number_after_wrap:
  assumes "cn_hasReceivedHandshake c" "ctl_ok ACK (cn_ackPacket c)" "cn_lossList c = LossList_new"
    and "SequenceNumber_MAX - SequenceNumber_THRESHOLD + 2 < cn_lastReceivedSequenceNumber c"
    and "cn_lastReceivedSequenceNumber c \<le> SequenceNumber_MAX - 3"
    and "cn_lastReceivedSequenceNumber c < s" "s \<le> SequenceNumber_MAX"
  shows "\<exists>c' out. Connection_receiveAll [0, s] c = Some ([True, s \<le> SequenceNumber_MAX - 2], c', out)"
proof -
  let ?m = "cn_lastReceivedSequenceNumber c"
  obtain l where l: "l = \<lparr>ll_list = [(?m + 1, SequenceNumber_MAX - 2)], ll_length = SequenceNumber_MAX - 2 - ?m\<rparr>" by blast
  have t0: "Connection_trackSequenceNumber 0 c = (False, c\<lparr>cn_lossList := l, cn_lastReceivedSequenceNumber := 0\<rparr>)"
    using assms(3-5) by (auto simp: Connection_trackSequenceNumber_def SequenceNumber_gt_def SequenceNumber_plus_def
        SequenceNumber_minus_def LossList_append_def LossList_append_range_def LossList_new_def LossList_getLength_def
        seqlen_def seq_consts Let_def l)
  obtain p0 st0 wire0 where a0: "Connection_sendACK (c\<lparr>cn_lossList := l, cn_lastReceivedSequenceNumber := 0\<rparr>)
      = Some (c\<lparr>cn_lossList := l, cn_lastReceivedSequenceNumber := 0, cn_ackPacket := p0, cn_stats := st0\<rparr>, wire0)" "ctl_ok ACK p0"
    using sendACK_laws [of "c\<lparr>cn_lossList := l, cn_lastReceivedSequenceNumber := 0\<rparr>"] assms(2) by auto
  obtain c1 where c1: "Connection_processReceivedSequenceNumber 0 0 0 c = Some (True, c1, wire0)" "cn_hasReceivedHandshake c1"
      "ctl_ok ACK (cn_ackPacket c1)" "cn_lossList c1 = l" "cn_lastReceivedSequenceNumber c1 = 0"
    using assms(1) a0 by (simp add: Connection_processReceivedSequenceNumber_def t0)
  have r: "fst (LossList_remove l s) \<longleftrightarrow> s \<le> SequenceNumber_MAX - 2"
    using assms(4-7) by (auto simp: LossList_remove_def l SequenceNumber_le_def seq_consts Let_def)
  have g: "\<not> SequenceNumber_gt s (SequenceNumber_plus 0 1)" "\<not> SequenceNumber_gt s 0"
    using assms(4-7) by (auto simp: SequenceNumber_gt_def SequenceNumber_plus_def seq_consts)
  obtain found l' where "LossList_remove l s = (found, l')" by (rule prod.exhaust)
  with r have l': "LossList_remove l s = (s \<le> SequenceNumber_MAX - 2, l')" by simp
  have t1: "Connection_trackSequenceNumber s c1 = (\<not> s \<le> SequenceNumber_MAX - 2, c1\<lparr>cn_lossList := l'\<rparr>)"
    using g by (simp add: Connection_trackSequenceNumber_def c1(4,5) Let_def l')
  obtain p1 st1 wire1 where a1: "Connection_sendACK (c1\<lparr>cn_lossList := l'\<rparr>)
      = Some (c1\<lparr>cn_lossList := l', cn_ackPacket := p1, cn_stats := st1\<rparr>, wire1)"
    using sendACK_laws [of "c1\<lparr>cn_lossList := l'\<rparr>"] c1(3) by auto
  have "\<exists>c2. Connection_processReceivedSequenceNumber s 0 0 c1 = Some (s \<le> SequenceNumber_MAX - 2, c2, wire1)"
    using c1(2) a1 by (simp add: Connection_processReceivedSequenceNumber_def t1)
  then show ?thesis using c1(1) by auto
qed

theorem Connection_refuses_new_number_after_wrap_witness:
  "\<exists>(c :: nat connection) c' out. cn_lastReceivedSequenceNumber c = 134217724
    \<and> Connection_receiveAll [0, 134217727] c = Some ([True, False], c', out)"
proof -
  obtain c0 :: "nat connection" where c0: "ctl_ok ACK (cn_ackPacket c0)"
    using Connection_new_laws [where 'a = nat, of 0 0 0] by blast
  obtain c where "c = c0\<lparr>cn_hasReceivedHandshake := True, cn_lossList := LossList_new, cn_lastReceivedSequenceNumber := 134217724\<rparr>"
    by blast
  then have c: "cn_hasReceivedHandshake c" "ctl_ok ACK (cn_ackPacket c)" "cn_lossList c = LossList_new"
    "cn_lastReceivedSequenceNumber c = 134217724" using c0 by simp_all
  have "\<exists>c' out. Connection_receiveAll [0, 134217727] c = Some ([True, 134217727 \<le> SequenceNumber_MAX - 2], c', out)"
    by (rule Connection_refuses_new_number_after_wrap) (simp_all add: c seq_consts)
  moreover have "(134217727 \<le> SequenceNumber_MAX - 2) = False" by (simp add: seq_consts)
  ultimately show ?thesis using c(4) by metis
qed

text \<open>
  A handshake with a new number starts the receiving side over: what was pending is failed, the
  peer gets a HandshakeACK with the same number, and the connection then expects that number first.
  The same handshake again is only answered.
\<close>

theorem Connection_handshake_starts_receiving:
  assumes "ctl_ok HandshakeACK (cn_handshakeACK c)" and "ctl_ok ACK (cn_ackPacket c)" and "carries p Handshake s"
    and "win_ok W" and "win W (s - 1)" and "s < snd W"
  shows "\<exists>c' failed done. Connection_processControl now p c
      = Some (c', failed @ [CnDatagram (ctl_wire HandshakeACK s) (cn_destination c)] @ done)
    \<and> (if cn_hasReceivedHandshake c \<and> s = cn_initialReceiveSequenceNumber c
       then failed = [] \<and> (cn_recv W base R c \<longrightarrow> cn_recv W base R c')
       else cn_recv W (s - 1) {} c' \<and> map CnMessageFailed (map fst (cn_pendingReceivedMessages c)) = failed)"
  by (rule processHandshake_recv [OF assms])

theorem Connection_handshake_starts_receiving_witness:
  "\<exists>(c :: nat connection) p c' out. carries p Handshake 10 \<and> Connection_processControl 0 p c = Some (c', out)
    \<and> cn_recv (0, 100) 9 {} c'"
proof -
  obtain c :: "nat connection" where c: "ctl_ok ACK (cn_ackPacket c)" "ctl_ok HandshakeACK (cn_handshakeACK c)"
      "\<not> cn_hasReceivedHandshake c"
    using Connection_new_laws [where 'a = nat, of 0 0 0] by blast
  obtain p :: "nat control_packet" where p: "carries p Handshake 10"
    using carries_wire [of 10 Handshake "0 :: nat"] by (auto simp: seq_wf_def seq_consts)
  have "win_ok (0, 100)" "win (0, 100) (10 - 1)" "(10 :: int) < snd (0 :: int, 100)"
    by (simp_all add: win_ok_def win_def seq_consts)
  note t = Connection_handshake_starts_receiving [OF c(2,1) p this, of 0 0 "{}"]
  have n: "\<not> (cn_hasReceivedHandshake c \<and> 10 = cn_initialReceiveSequenceNumber c)"
    using c(3) by simp
  obtain c' out where "Connection_processControl 0 p c = Some (c', out)" "cn_recv (0, 100) (10 - 1) {} c'"
    using t unfolding if_not_P [OF n] by blast
  with p show ?thesis
    by (intro exI [of _ c] exI [of _ p] exI [of _ c'] exI [of _ out]) simp
qed

text \<open>
  C28. A connection whose random initial sequence number is 0 never gets its handshake through. The
  send queue is created at \<open>_initialSequenceNumber - 1\<close>, which wraps to \<open>MAX - 2\<close>; the handshake it
  keeps sending therefore carries \<open>MAX - 1\<close>, and the HandshakeACK that echoes it is not the number the
  connection compares with, so it is ignored. Every other initial number is sent as it is, and the
  echo completes the handshake.
\<close>

theorem Connection_zero_start_never_connects:
  assumes "cn_sendQueue c = None" and "\<not> cn_hasReceivedHandshakeACK c"
    and "seq_wf (cn_initialSequenceNumber c)"
  shows "\<exists>q c' n. Connection_getSendQueue c = (q, c')
    \<and> n = (if cn_initialSequenceNumber c = 0 then SequenceNumber_MAX - 1 else cn_initialSequenceNumber c)
    \<and> SendQueue_sendHandshake q = Some [Datagram (ctl_wire Handshake n) (cn_destination c)]
    \<and> (\<forall>p now. carries p HandshakeACK n \<longrightarrow>
        (if cn_initialSequenceNumber c = 0 then Connection_processControl now p c' = Some (c', [])
         else \<exists>c''. Connection_processControl now p c' = Some (c'', []) \<and> cn_hasReceivedHandshakeACK c''))"
proof -
  obtain q c' where q: "Connection_getSendQueue c = (q, c')" "cn_sendQueue c' = Some q"
    "sq_currentSequenceNumber q = SequenceNumber_minus (cn_initialSequenceNumber c) 1"
    "\<not> sq_hasReceivedHandshakeACK q" "sq_destination q = cn_destination c"
    "cn_initialSequenceNumber c' = cn_initialSequenceNumber c"
    using getSendQueue_fresh [OF assms(1,2)] by blast
  obtain n where n: "n = (if cn_initialSequenceNumber c = 0 then SequenceNumber_MAX - 1 else cn_initialSequenceNumber c)"
    by blast
  have "SequenceNumber_plus (SequenceNumber_minus (cn_initialSequenceNumber c) 1) 1 = n"
    using assms(3) by (auto simp: n seq_wf_def SequenceNumber_minus_def SequenceNumber_plus_def seq_consts)
  then have hs: "SendQueue_sendHandshake q = Some [Datagram (ctl_wire Handshake n) (cn_destination c)]"
    using sendHandshake_laws [OF q(4)] q(3,5) by simp
  have "if cn_initialSequenceNumber c = 0 then Connection_processControl now p c' = Some (c', [])
      else \<exists>c''. Connection_processControl now p c' = Some (c'', []) \<and> cn_hasReceivedHandshakeACK c''"
    if p: "carries p HandshakeACK n" for p now
  proof -
    obtain p' where "readSequenceNumber p = Some (n, p')" "ControlType_of (ctl_type p) = Some HandshakeACK"
      using p by (auto simp: carries_def)
    then show ?thesis
      using q(2,6) by (simp add: Connection_processControl_def Connection_processHandshakeACK_def n seq_consts)
  qed
  with q(1) n hs show ?thesis by blast
qed

theorem Connection_zero_start_never_connects_witness:
  "\<exists>(c :: nat connection) q c'. Connection_new 7 0 0 = Some c \<and> Connection_getSendQueue c = (q, c')
    \<and> SendQueue_sendHandshake q = Some [Datagram (ctl_wire Handshake 134217726) 7]"
proof -
  obtain c :: "nat connection" where c: "Connection_new 7 0 0 = Some c" "cn_sendQueue c = None"
      "\<not> cn_hasReceivedHandshakeACK c" "cn_initialSequenceNumber c = SequenceNumber_of_int 0" "cn_destination c = 7"
    using Connection_new_laws [where 'a = nat, of 7 0 0] by blast
  then have i: "cn_initialSequenceNumber c = 0" by (simp add: SequenceNumber_of_int_def seq_consts)
  have wf: "seq_wf (cn_initialSequenceNumber c)" by (simp add: i seq_wf_def seq_consts)
  obtain q c' where "Connection_getSendQueue c = (q, c')"
      "SendQueue_sendHandshake q = Some [Datagram (ctl_wire Handshake (SequenceNumber_MAX - 1)) (cn_destination c)]"
    using Connection_zero_start_never_connects [OF c(2,3) wf] unfolding if_P [OF i] by blast
  with c(1,5) show ?thesis
    by (intro exI [of _ c] exI [of _ q] exI [of _ c']) (simp add: seq_consts)
qed

text \<open>
  C19. Messages are reassembled. When the packets of one message (parts \<open>0..K - 1\<close>, the last one marked
  \<open>LAST\<close> or \<open>ONLY\<close>) arrive in any order at a connection that holds nothing of it, they are handed up
  exactly once each and in the order of their parts, and the connection then holds nothing of it. As long
  as they have not all arrived, exactly the complete prefix has been handed up.
\<close>

theorem Connection_message_reassembled:
  assumes "map_of (cn_pendingReceivedMessages c) n = None"
    and "\<forall>p \<in> set ps. pkt_messageNumber p = n" and "\<forall>p \<in> set ps. ends_message p \<longleftrightarrow> pkt_part p = K - 1"
    and "pkt_part ` set ps \<subseteq> {..<K}" and "K \<le> 2 ^ 32 - 1" and "distinct (map pkt_part ps)"
  shows "\<exists>c' ds. Connection_queueAll ps c = (c', map CnMessageReceived ds) \<and> set ds \<subseteq> set ps
    \<and> (if ps \<noteq> [] \<and> length ps = K
       then map pkt_part ds = [0..<K] \<and> set ds = set ps \<and> map_of (cn_pendingReceivedMessages c') n = None
       else \<exists>k. map pkt_part ds = [0..<k] \<and> k \<notin> pkt_part ` set ps)"
proof -
  have st: "pm_state {} [] (cn_pending n c)"
    using pm_state_new by (simp add: cn_pending_def assms(1))
  have card: "length ps = card (pkt_part ` set ps)"
    using distinct_card [OF assms(6)] by simp
  have full: "pkt_part ` set ps = {..<K} \<longleftrightarrow> length ps = K"
    using card_subset_eq [OF _ assms(4)] card by auto
  obtain c' ds where r: "Connection_queueAll ps c = (c', map CnMessageReceived ds)"
    "if ps \<noteq> [] \<and> pkt_part ` ({} \<union> set ps) = {..<K}
       then map pkt_part ([] @ ds) = [0..<K] \<and> set ([] @ ds) = {} \<union> set ps
         \<and> map_of (cn_pendingReceivedMessages c') n = None
       else pm_state ({} \<union> set ps) ([] @ ds) (cn_pending n c')"
    using queueAll_state [OF st assms(2) _ _ assms(5,6)] assms(3,4) by auto
  show ?thesis
  proof (cases "ps \<noteq> [] \<and> length ps = K")
    case True
    then show ?thesis using r full by auto
  next
    case False
    then have s: "pm_state (set ps) ds (cn_pending n c')"
      using r(2) full by (simp split: if_splits)
    then have "set ds \<subseteq> set ps" and "map pkt_part ds = [0..<unat (pm_nextPartNumber (cn_pending n c'))]"
      by (auto simp: pm_state_def)
    with False r(1) pm_state_first_missing(1) [OF s] show ?thesis by auto
  qed
qed

theorem Connection_message_reassembled_witness:
  "\<exists>(c :: nat connection) p0 p1 c'. pkt_messagePartNumber p0 = 0 \<and> pkt_messagePartNumber p1 = 1
    \<and> Connection_queueAll [p1, p0] c = (c', [CnMessageReceived p0, CnMessageReceived p1])"
proof -
  obtain c :: "nat connection" where c: "cn_pendingReceivedMessages c = []"
    using Connection_new_laws [where 'a = nat, of 0 0 0] by blast
  obtain p :: "nat packet" where "Packet_create 10 True False = Some p"
    using Packet_new_shape [of 10 14 False True] by (auto simp: Packet_localHeaderSize_def)
  obtain p0 where p0: "p0 = p\<lparr>pkt_messageNumber := 5, pkt_messagePartNumber := 0, pkt_packetPosition := FIRST\<rparr>"
    by blast
  obtain p1 where p1: "p1 = p\<lparr>pkt_messageNumber := 5, pkt_messagePartNumber := 1, pkt_packetPosition := LAST\<rparr>"
    by blast
  have f: "pkt_messageNumber p0 = 5" "pkt_messageNumber p1 = 5" "pkt_messagePartNumber p0 = 0"
      "pkt_messagePartNumber p1 = 1" "ends_message p1" "\<not> ends_message p0"
    by (simp_all add: p0 p1 ends_message_def)
  have h: "map_of (cn_pendingReceivedMessages c) 5 = None" "\<forall>p \<in> set [p1, p0]. pkt_messageNumber p = 5"
    "\<forall>p \<in> set [p1, p0]. ends_message p \<longleftrightarrow> pkt_part p = 2 - 1" "pkt_part ` set [p1, p0] \<subseteq> {..<2}"
    "2 \<le> (2 :: nat) ^ 32 - 1" "distinct (map pkt_part [p1, p0])"
    by (simp_all add: c f)
  have two: "[p1, p0] \<noteq> [] \<and> length [p1, p0] = 2" by simp
  obtain c' ds where r: "Connection_queueAll [p1, p0] c = (c', map CnMessageReceived ds)"
    "map pkt_part ds = [0..<2]" "set ds = set [p1, p0]"
    using Connection_message_reassembled [OF h] unfolding if_P [OF two] by blast
  have "length ds = 2" using arg_cong [OF r(2), of length] by simp
  then obtain a b where ds: "ds = [a, b]" by (auto simp: numeral_2_eq_2 length_Suc_conv)
  have "pkt_part a = 0" "pkt_part b = 1" using r(2) by (simp_all add: ds numeral_2_eq_2)
  moreover have "a = p1 \<or> a = p0" "b = p1 \<or> b = p0" using r(3) by (auto simp: ds)
  ultimately have "ds = [p0, p1]" using f(3,4) by (auto simp: ds)
  then show ?thesis
    using r(1) f(3,4) by (intro exI [of _ c] exI [of _ p0] exI [of _ p1] exI [of _ c']) simp
qed

text \<open>
  C22. Acknowledgements received are checked before they are believed, on a connection whose handshake is completed and
  whose queue's numbers lie in a window of less than half the number space that does not cross zero: one for a number that was
  never sent, or older than the last one, changes the statistics and nothing else of the connection, so neither the send queue
  nor the congestion control. Any other one moves the last acknowledged number to it; the queue keeps exactly the packets
  above it, forgets the losses up to it, is asked for no number again but the one after it, and is consistent
  afterwards. The number the connection remembers stays the queue's.
\<close>

theorem Connection_ack_validated:
  assumes q: "cn_sendQueue c = Some q" "sq_inv W q" "cn_hasReceivedHandshakeACK c"
    and same: "cn_lastReceivedACK c = sq_lastACKSequenceNumber q"
    and p: "carries p ACK a" "win W a"
  shows "\<exists>c' q'. Connection_processControl now p c = Some (c', []) \<and> cn_sendQueue c' = Some q' \<and> sq_inv W q'
    \<and> cn_lastReceivedACK c' = sq_lastACKSequenceNumber q'
    \<and> (if sq_lastACKSequenceNumber q \<le> a \<and> a \<le> sq_currentSequenceNumber q
       then sq_lastACKSequenceNumber q' = a \<and> sq_sentPackets q' = sq_sentPackets q |` {a<..}
         \<and> dom (sq_sentPackets q') = {a + 1..sq_currentSequenceNumber q'}
         \<and> (ll_set (sq_naks q') = ll_set (sq_naks q) - {..a} \<or> ll_set (sq_naks q') = insert (a + 1) (ll_set (sq_naks q) - {..a}))
         \<and> sq_currentSequenceNumber q' = sq_currentSequenceNumber q \<and> sq_packets q' = sq_packets q
       else q' = q \<and> c' = c\<lparr>cn_stats := cn_stats c'\<rparr>)"
proof -
  obtain p' where r: "readSequenceNumber p = Some (a, p')" and t: "ControlType_of (ctl_type p) = Some ACK"
    using p(1) by (auto simp: carries_def)
  note I = sq_invD [OF q(2)]
  have cur: "SendQueue_getCurrentSequenceNumber q = sq_currentSequenceNumber q"
    using q(2) by (simp add: SendQueue_getCurrentSequenceNumber_def sq_inv_def)
  have gt: "SequenceNumber_gt a (sq_currentSequenceNumber q) \<longleftrightarrow> sq_currentSequenceNumber q < a"
    "SequenceNumber_lt a (sq_lastACKSequenceNumber q) \<longleftrightarrow> a < sq_lastACKSequenceNumber q"
    "SequenceNumber_gt a (sq_lastACKSequenceNumber q) \<longleftrightarrow> sq_lastACKSequenceNumber q < a"
    by (rule win_cmp [OF I(1) p(2)], rule I(2,3))+
  note P = Connection_processControl_def t q(3) Connection_processACK_def r Connection_getSendQueue_def q(1) cur gt same
  show ?thesis
  proof (cases "sq_lastACKSequenceNumber q \<le> a \<and> a \<le> sq_currentSequenceNumber q")
    case False
    then consider "sq_currentSequenceNumber q < a" | "\<not> sq_currentSequenceNumber q < a" "a < sq_lastACKSequenceNumber q"
      by linarith
    then have "\<exists>st. Connection_processControl now p c = Some (c\<lparr>cn_stats := st\<rparr>, [])"
      by cases (auto simp: P Let_def)
    then obtain st where "Connection_processControl now p c = Some (c\<lparr>cn_stats := st\<rparr>, [])" by blast
    then show ?thesis
      unfolding if_not_P [OF False] using q(1,2) same by (intro exI [of _ "c\<lparr>cn_stats := st\<rparr>"] exI [of _ q]) simp
  next
    case True
    obtain q1 where q1: "SendQueue_ack a q = Some q1" "sq_inv W q1" "sq_lastACKSequenceNumber q1 = a"
      "sq_currentSequenceNumber q1 = sq_currentSequenceNumber q" "sq_sentPackets q1 = sq_sentPackets q |` {a<..}"
      "ll_set (sq_naks q1) = ll_set (sq_naks q) - {..a}" "sq_packets q1 = sq_packets q"
      using SendQueue_ack_laws [OF q(2)] True by blast
    have d1: "dom (sq_sentPackets q1) = {a + 1..sq_currentSequenceNumber q}" using sq_invD(8) [OF q1(2)] q1(3,4) by simp
    let ?c1 = "c\<lparr>cn_stats := ConnectionStats_recordReceivedACK (BasePacket_getWireSize p') (cn_stats c)\<rparr>"
    have no: "\<not> sq_currentSequenceNumber q < a" "\<not> a < sq_lastACKSequenceNumber q" using True by simp_all
    show ?thesis
    proof (cases "sq_lastACKSequenceNumber q < a")
      case lt: True
      show ?thesis
        using update_after_ack [of "?c1\<lparr>cn_lastReceivedACK := a, cn_sendQueue := Some q1\<rparr>" q1 W a now "bp_receiveTime p'"]
          True q1(2-7) d1 by (auto simp: P Let_def no lt q1(1) same_traffic_def)
    next
      case False
      then have a: "a = sq_lastACKSequenceNumber q" using True by simp
      have g: "\<not> SequenceNumber_gt a (sq_currentSequenceNumber q)" "\<not> SequenceNumber_lt a (sq_lastACKSequenceNumber q)"
        "\<not> SequenceNumber_gt a (sq_lastACKSequenceNumber q)"
        using gt no False by simp_all
      have "Connection_processControl now p c = Some ((\<lambda>c4. c4\<lparr>cn_stats := ConnectionStats_record ProcessedACK (cn_stats c4)\<rparr>)
          (Connection_updateCongestionControlAndSendQueue (Connection_ackCallback now a (bp_receiveTime p')) ?c1), [])"
        by (simp add: Connection_processControl_def t q(3) Connection_processACK_def r Connection_getSendQueue_def
            q(1) cur g same Let_def)
      moreover have "q1 = q" using q1(1) a by (simp add: SendQueue_ack_def)
      ultimately show ?thesis
        using update_after_ack [of ?c1 q W a now "bp_receiveTime p'"] True q(1,2) same a q1(5,6) d1
        by (auto simp: same_traffic_def)
    qed
  qed
qed

theorem Connection_ack_validated_witness:
  "\<exists>(c :: nat connection) c' q' p. carries p ACK 15 \<and> Connection_processControl 0 p c = Some (c', [])
    \<and> cn_sendQueue c' = Some q' \<and> sq_lastACKSequenceNumber q' = 12"
proof -
  obtain c0 :: "nat connection" where "Connection_new 0 0 0 = Some c0"
    using Connection_new_laws [where 'a = nat, of 0 0 0] by blast
  let ?q = "SendQueue_new (0 :: nat) 12 0 True"
  let ?c = "c0\<lparr>cn_sendQueue := Some ?q, cn_hasReceivedHandshakeACK := True, cn_lastReceivedACK := 12\<rparr>"
  obtain p :: "nat control_packet" where p: "carries p ACK 15"
    using carries_wire [of 15 ACK "0 :: nat"] by (auto simp: seq_wf_def seq_consts)
  have inv: "sq_inv (10, 20) ?q"
    by (rule sq_inv_new) (simp_all add: win_ok_def win_def seq_consts)
  have "sq_lastACKSequenceNumber ?q = 12" "sq_currentSequenceNumber ?q = 12"
    by (simp_all add: SendQueue_new_def)
  with Connection_ack_validated [of ?c ?q "(10, 20)" p 15 0] inv p
  obtain c' q' where "Connection_processControl 0 p ?c = Some (c', [])" "cn_sendQueue c' = Some q'"
      "sq_lastACKSequenceNumber q' = 12"
    by (auto simp: win_def)
  with p show ?thesis by blast
qed

end
