(* ===== verification/Udt_Transfer.thy ===== *)
theory Udt_Transfer
  imports Udt_Connection
begin

text \<open>
  Two peers together: the handshake between a connection that starts a send queue and one that
  receives, and the transfer of packets from the queue to the receiver over a network that may lose,
  duplicate and reorder every datagram. The steps are the handlers of \<open>Udt_Send_Queue\<close> and
  \<open>Udt_Connection\<close>; nothing is modelled again here.
\<close>

section \<open>The transfer\<close>

text \<open>The sequence numbers a step of the queue put on the wire.\<close>

fun wire_numbers :: "'addr sq_event \<Rightarrow> seqnum set" where
  "wire_numbers (PacketSent w p s t) = {s}"
| "wire_numbers (PacketRetransmitted w p s t) = {s}"
| "wire_numbers _ = {}"

definition wire_set :: "'addr sq_event list \<Rightarrow> seqnum set" where
  "wire_set out = (\<Union>e \<in> set out. wire_numbers e)"

text \<open>
  A state: the sender's queue, the receiver, the data and the acknowledgements that were ever put on
  the network (any of them may arrive, any number of times, or never), and the numbers that have
  reached the receiver. An acknowledgement reaches the queue only when it lies between the last one
  and the last number sent, which is what \<open>Connection_ack_validated\<close> shows of the sender's connection. A fast retransmission may ask for any number
  after the last acknowledged, even for the next one, which has not been sent.
\<close>

inductive transfer ::
  "int \<times> int \<Rightarrow> int \<Rightarrow> 'addr send_queue \<Rightarrow> 'addr connection \<Rightarrow> int set \<Rightarrow> int set \<Rightarrow> int set \<Rightarrow> bool"
  for W :: "int \<times> int" and base :: int where
  start: "win_ok W \<Longrightarrow> win W base \<Longrightarrow> base < snd W \<Longrightarrow> cn_recv W base {} c
    \<Longrightarrow> transfer W base (SendQueue_new d base m h) c {} {} {}"
| queue: "transfer W base q c data acks R \<Longrightarrow> pkt_inv p
    \<Longrightarrow> transfer W base (SendQueue_queuePacket p q) c data acks R"
| window: "transfer W base q c data acks R \<Longrightarrow> transfer W base (SendQueue_setFlowWindowSize n q) c data acks R"
| send: "transfer W base q c data acks R \<Longrightarrow> sq_currentSequenceNumber q + 1 < snd W
    \<Longrightarrow> SendQueue_run_send now bytesWritten q = Some (n, b, q', out)
    \<Longrightarrow> transfer W base q' c (data \<union> wire_set out) acks R"
| wake: "transfer W base q c data acks R \<Longrightarrow> SendQueue_isInactive_wake w t now q = (b, q', out)
    \<Longrightarrow> transfer W base q' c data acks R"
| arrive: "transfer W base q c data acks R \<Longrightarrow> s \<in> data
    \<Longrightarrow> Connection_processReceivedSequenceNumber s packetSize payloadSize c = Some (ok, c', out)
    \<Longrightarrow> transfer W base q c' data (insert (Connection_nextACK c') acks) (insert s R)"
| ack: "transfer W base q c data acks R \<Longrightarrow> a \<in> acks
    \<Longrightarrow> sq_lastACKSequenceNumber q \<le> a \<Longrightarrow> a \<le> sq_currentSequenceNumber q \<Longrightarrow> SendQueue_ack a q = Some q'
    \<Longrightarrow> transfer W base q' c data acks R"
| retransmit: "transfer W base q c data acks R \<Longrightarrow> sq_lastACKSequenceNumber q < n \<Longrightarrow> n \<le> sq_currentSequenceNumber q + 1
    \<Longrightarrow> transfer W base (SendQueue_fastRetransmit n q) c data acks R"

text \<open>What a step of the sending loop puts on the wire has been numbered by it or before it.\<close>

lemma run_send_numbers:
  assumes inv: "sq_inv W q" and room: "sq_currentSequenceNumber q + 1 < snd W"
    and r: "SendQueue_run_send now bytesWritten q = Some (n, b, q', out)"
  shows "sq_inv W q' \<and> sq_lastACKSequenceNumber q' = sq_lastACKSequenceNumber q
    \<and> sq_currentSequenceNumber q \<le> sq_currentSequenceNumber q'
    \<and> wire_set out \<subseteq> {sq_lastACKSequenceNumber q + 1..sq_currentSequenceNumber q'}"
proof -
  obtain n1 b1 q1 out1 where m: "SendQueue_run_send now bytesWritten q = Some (n1, b1, q1, out1)" "sq_inv W q1" "sq_sends now q out1"
      "sq_lastACKSequenceNumber q1 = sq_lastACKSequenceNumber q" "sq_currentSequenceNumber q1 = sq_currentSequenceNumber q + n1"
      "n1 = (if b1 \<and> sq_lost q = {} then 1 else 0)" "b1 \<longleftrightarrow> out1 \<noteq> []"
    using SendQueue_run_send_laws [OF inv room, of now bytesWritten] by blast
  have e: "q1 = q'" "out1 = out" using m(1) r by simp_all
  have "Min (sq_lost q) \<in> {sq_lastACKSequenceNumber q + 1..sq_currentSequenceNumber q}" if "sq_lost q \<noteq> {}"
    using sq_lost_Min [OF inv that] sq_invD(8) [OF inv] by simp
  moreover have "sq_lastACKSequenceNumber q \<le> sq_currentSequenceNumber q" by (rule sq_invD(4) [OF inv])
  ultimately have "wire_set out1 \<subseteq> {sq_lastACKSequenceNumber q + 1..sq_currentSequenceNumber q1}"
    using m(3,5-7) by (auto simp: sq_sends_def wire_set_def split: if_splits)
  then show ?thesis using m(2,4,5,6) e by auto
qed

definition transfer_inv ::
  "int \<times> int \<Rightarrow> int \<Rightarrow> 'addr send_queue \<Rightarrow> 'addr connection \<Rightarrow> int set \<Rightarrow> int set \<Rightarrow> int set \<Rightarrow> bool" where
  "transfer_inv W base q c data acks R \<longleftrightarrow> sq_inv W q \<and> cn_recv W base R c
     \<and> base \<le> sq_lastACKSequenceNumber q \<and> {base + 1..sq_lastACKSequenceNumber q} \<subseteq> R
     \<and> R \<subseteq> data \<and> data \<subseteq> {base + 1..sq_currentSequenceNumber q}
     \<and> (\<forall>a \<in> acks. base \<le> a \<and> {base + 1..a} \<subseteq> R)"

lemma transfer_inv_arrive:
  assumes inv: "transfer_inv W base q c data acks R" and s: "s \<in> data"
    and r: "Connection_processReceivedSequenceNumber s packetSize payloadSize c = Some (ok, c', out)"
  shows "transfer_inv W base q c' data (insert (Connection_nextACK c') acks) (insert s R)
    \<and> (ok \<longleftrightarrow> s \<notin> R)"
proof -
  have c: "cn_recv W base R c" and q: "sq_inv W q" and b: "base < s" "s \<le> sq_currentSequenceNumber q"
    using inv s by (auto simp: transfer_inv_def)
  have w: "win W s" "s < snd W"
    using b cn_recvD(3) [OF c] sq_invD(5) [OF q] by (auto simp: win_def)
  have c': "cn_recv W base (insert s R) c'" "ok \<longleftrightarrow> s \<notin> R"
    using processReceived_laws [OF c w, of packetSize payloadSize] r b(1) by auto
  from inv s nextACK_prefix [OF c'(1)] c' show ?thesis
    by (auto simp: transfer_inv_def)
qed

lemma transfer_invariant: "transfer W base q c data acks R \<Longrightarrow> transfer_inv W base q c data acks R"
proof (induction rule: transfer.induct)
  case (start c d m h)
  then show ?case
    using sq_inv_new [of W base d m h] by (simp add: transfer_inv_def) (simp add: SendQueue_new_def)
next
  case (queue q c data acks R p)
  then show ?case
    using sq_inv_queuePacket [of W q p] by (simp add: transfer_inv_def SendQueue_queuePacket_def)
next
  case (window q c data acks R n)
  then show ?case by (simp add: transfer_inv_def sq_inv_def SendQueue_setFlowWindowSize_def)
next
  case (send q c data acks R now bytesWritten n b q' out)
  have q: "sq_inv W q" and l: "base \<le> sq_lastACKSequenceNumber q"
    using send.IH by (simp_all add: transfer_inv_def)
  note n = run_send_numbers [OF q send.hyps(2,3)]
  then have "wire_set out \<subseteq> {base + 1..sq_currentSequenceNumber q'}"
    using l by fastforce
  with send.IH n show ?case by (auto simp: transfer_inv_def)
next
  case (wake q c data acks R w t now b q' out)
  have "sq_inv W q" using wake.IH by (simp add: transfer_inv_def)
  from SendQueue_isInactive_wake_laws [OF this, of w t now] wake show ?case
    by (simp add: transfer_inv_def)
next
  case (arrive q c data acks R s packetSize payloadSize ok c' out)
  then show ?case using transfer_inv_arrive by blast
next
  case (ack q c data acks R a q')
  have "sq_inv W q" using ack.IH by (simp add: transfer_inv_def)
  from SendQueue_ack_laws [OF this ack.hyps(3,4)] ack.IH ack.hyps show ?case
    by (auto simp: transfer_inv_def)
next
  case (retransmit q c data acks R n)
  have "sq_inv W q" using retransmit.IH by (simp add: transfer_inv_def)
  from SendQueue_fastRetransmit_laws(1) [OF this retransmit.hyps(2,3)] retransmit.IH show ?case
    by (simp add: transfer_inv_def SendQueue_fastRetransmit_def)
qed

section \<open>Properties\<close>

text \<open>
  C1. The transport loses nothing, as long as the numbers sent stay in a window \<open>W\<close> of less than half the number space that
  does not cross zero. Whatever the network loses, repeats or reorders, and whatever the sender's threads do in between: the
  sender has forgotten only packets the receiver has, so every packet sent and not yet received is still kept for
  retransmission; the receiver has only what was sent; and an arrival is accepted exactly when it is the first of its number.
  (Across zero this is false: see \<open>Connection_refuses_new_number_after_wrap\<close>.)
\<close>

theorem transfer_keeps_undelivered:
  assumes "transfer W base q c data acks R"
  shows "{base + 1..sq_currentSequenceNumber q} - R \<subseteq> dom (sq_sentPackets q)
    \<and> {base + 1..sq_lastACKSequenceNumber q} \<subseteq> R \<and> R \<subseteq> {base + 1..sq_currentSequenceNumber q}
    \<and> (\<forall>s \<in> data. \<exists>c' out. Connection_processReceivedSequenceNumber s packetSize payloadSize c = Some (s \<notin> R, c', out))"
proof -
  have inv: "transfer_inv W base q c data acks R"
    by (rule transfer_invariant [OF assms])
  then have q: "sq_inv W q" and c: "cn_recv W base R c" and l: "{base + 1..sq_lastACKSequenceNumber q} \<subseteq> R"
    and d: "R \<subseteq> data" "data \<subseteq> {base + 1..sq_currentSequenceNumber q}"
    by (simp_all add: transfer_inv_def)
  have "{base + 1..sq_currentSequenceNumber q} - R
      \<subseteq> {sq_lastACKSequenceNumber q + 1..sq_currentSequenceNumber q}"
    using l by fastforce
  then have "{base + 1..sq_currentSequenceNumber q} - R \<subseteq> dom (sq_sentPackets q)"
    by (simp add: sq_invD(8) [OF q])
  moreover have "\<exists>c' out. Connection_processReceivedSequenceNumber s packetSize payloadSize c = Some (s \<notin> R, c', out)"
    if "s \<in> data" for s
  proof -
    have b: "base < s" "s \<le> sq_currentSequenceNumber q" using that d(2) by auto
    have w: "win W s" "s < snd W"
      using b cn_recvD(3) [OF c] sq_invD(5) [OF q] by (auto simp: win_def)
    show ?thesis
      using processReceived_laws [OF c w, of packetSize payloadSize] b(1) by auto
  qed
  ultimately show ?thesis
    using l d by blast
qed

theorem transfer_keeps_undelivered_witness:
  "\<exists>(q :: nat send_queue) c data. transfer (0, 100) 9 q c data {} {} \<and> sq_currentSequenceNumber q = 10
    \<and> 10 \<in> dom (sq_sentPackets q)"
proof -
  obtain c :: "nat connection" where c: "cn_recv (0, 100) 9 {} c"
    using cn_recv_example by blast
  obtain p :: "nat packet" where p: "pkt_inv p"
    using Packet_new_shape [of 10 14 False True] by (auto simp: Packet_localHeaderSize_def)
  let ?q0 = "SendQueue_setFlowWindowSize 8 (SendQueue_new (0 :: nat) 9 0 True)"
  let ?q1 = "SendQueue_queuePacket p ?q0"
  have t1: "transfer (0, 100) 9 ?q1 c {} {} {}"
    by (rule transfer.queue [OF transfer.window [OF transfer.start [OF _ _ _ c]] p])
      (simp_all add: win_ok_def win_def seq_consts)
  have c1: "sq_currentSequenceNumber ?q1 = 9" "sq_lastACKSequenceNumber ?q1 = 9" "sq_lost ?q1 = {}"
      "\<not> SendQueue_isFlowWindowFull ?q1" "\<not> PacketQueue_isEmpty (sq_packets ?q1)"
    by (simp_all add: sq_lost_def SendQueue_queuePacket_def SendQueue_setFlowWindowSize_def SendQueue_new_def
        SendQueue_isFlowWindowFull_def seqlen_def PacketQueue_isEmpty_def PacketQueue_queuePacket_def PacketQueue_new_def)
  have inv: "sq_inv (0, 100) ?q1" using transfer_invariant [OF t1] by (simp add: transfer_inv_def)
  have room: "sq_currentSequenceNumber ?q1 + 1 < snd (0 :: int, 100)" by (simp add: c1)
  obtain n b q2 out where q2: "SendQueue_run_send 5 4 ?q1 = Some (n, b, q2, out)" "sq_sends 5 ?q1 out"
      "sq_currentSequenceNumber q2 = 9 + n" "n = (if b then 1 else 0)" "b \<longleftrightarrow> out \<noteq> []"
    using SendQueue_run_send_laws [OF inv room, of 5 4] c1(1,3) by auto
  have b: b using q2(2,5) c1(3-5) by (auto simp: sq_sends_def)
  note t2 = transfer.send [OF t1 room q2(1)]
  have n: "sq_currentSequenceNumber q2 = 10" using q2(3,4) b by simp
  have "10 \<in> dom (sq_sentPackets q2)"
    using transfer_keeps_undelivered [OF t2, of 0 0] by (auto simp: n)
  with t2 n show ?thesis by blast
qed

lemma UnI_mid: "x \<in> set (ys @ [x] @ zs)"
  by simp

text \<open>
  C3. The handshake brings the two ends into step. A connection with a fresh queue and a positive
  initial number \<open>i\<close> sends a handshake; a peer that has seen none answers it; the answer opens the
  queue. The queue's next number is then \<open>i\<close>, which is the first one the peer expects.
\<close>

theorem handshake_establishes_connection:
  assumes a: "cn_sendQueue a = None" "\<not> cn_hasReceivedHandshakeACK a" "cn_initialSequenceNumber a = i" "0 < i"
    and b: "ctl_ok HandshakeACK (cn_handshakeACK b)" "ctl_ok ACK (cn_ackPacket b)" "\<not> cn_hasReceivedHandshake b"
    and W: "win_ok W" "win W (i - 1)" "i < snd W"
  shows "\<exists>q a' h hp b' out k kp a'' q'. Connection_getSendQueue a = (q, a')
    \<and> SendQueue_sendHandshake q = Some [Datagram h (cn_destination a)]
    \<and> ControlPacket_fromReceivedPacket h 8 addrA = Some hp
    \<and> Connection_processControl now hp b = Some (b', out) \<and> CnDatagram k (cn_destination b) \<in> set out
    \<and> ControlPacket_fromReceivedPacket k 8 addrB = Some kp
    \<and> Connection_processControl now' kp a' = Some (a'', [])
    \<and> cn_hasReceivedHandshakeACK a'' \<and> cn_sendQueue a'' = Some q' \<and> sq_hasReceivedHandshakeACK q'
    \<and> SequenceNumber_inc (sq_currentSequenceNumber q') = i \<and> cn_recv W (i - 1) {} b'"
proof -
  obtain q a' where q: "Connection_getSendQueue a = (q, a')" "cn_sendQueue a' = Some q"
    "sq_currentSequenceNumber q = SequenceNumber_minus i 1" "\<not> sq_hasReceivedHandshakeACK q"
    "sq_destination q = cn_destination a" "cn_initialSequenceNumber a' = i"
    using getSendQueue_fresh [OF a(1,2)] unfolding a(3) by blast
  have wi: "win W i" using W by (auto simp: win_def)
  have cur: "sq_currentSequenceNumber q = i - 1"
    using q(3) win_minus [OF W(1), of i 1] W(2) by (simp add: win_def)
  have plus: "SequenceNumber_plus (i - 1) 1 = i" and inc: "SequenceNumber_inc (i - 1) = i"
    using win_plus [OF W(1), of "i - 1" 1] win_inc [OF W(1,2)] W(3) by simp_all
  obtain hp where hp: "ControlPacket_fromReceivedPacket (ctl_wire Handshake i) 8 addrA = Some hp" "carries hp Handshake i"
    using carries_wire [OF win_wf [OF W(1) wi], of Handshake addrA] by blast
  obtain kp where kp: "ControlPacket_fromReceivedPacket (ctl_wire HandshakeACK i) 8 addrB = Some kp"
      "carries kp HandshakeACK i"
    using carries_wire [OF win_wf [OF W(1) wi], of HandshakeACK addrB] by blast
  have n: "\<not> (cn_hasReceivedHandshake b \<and> i = cn_initialReceiveSequenceNumber b)"
    using b(3) by simp
  obtain b' failed don where b': "Connection_processControl now hp b
      = Some (b', failed @ [CnDatagram (ctl_wire HandshakeACK i) (cn_destination b)] @ don)" "cn_recv W (i - 1) {} b'"
    using processHandshake_recv [OF b(1,2) hp(2) W, of now] unfolding if_not_P [OF n] by blast
  obtain p' where "readSequenceNumber kp = Some (i, p')" "ControlType_of (ctl_type kp) = Some HandshakeACK"
    using kp(2) by (auto simp: carries_def)
  then have a'': "Connection_processControl now' kp a'
      = Some (a'\<lparr>cn_sendQueue := Some (SendQueue_handshakeACK q), cn_hasReceivedHandshakeACK := True\<rparr>, [])"
    using q(2,6) by (simp add: Connection_processControl_def Connection_processHandshakeACK_def)
  have h: "SendQueue_sendHandshake q = Some [Datagram (ctl_wire Handshake i) (cn_destination a)]"
    using sendHandshake_laws [OF q(4)] q(5) by (simp add: cur plus)
  show ?thesis
    by (intro exI conjI, rule q(1), rule h, rule hp(1), rule b'(1), rule UnI_mid, rule kp(1), rule a'')
      (simp_all add: SendQueue_handshakeACK_def b'(2), simp_all add: cur inc)
qed

theorem handshake_establishes_connection_witness:
  "\<exists>(a :: nat connection) (a' :: nat connection) (b' :: nat connection). cn_initialSequenceNumber a = 10
    \<and> cn_hasReceivedHandshakeACK a' \<and> cn_recv (0, 100) 9 {} b'"
proof -
  obtain a :: "nat connection" where a: "cn_sendQueue a = None" "\<not> cn_hasReceivedHandshakeACK a"
      "cn_initialSequenceNumber a = SequenceNumber_of_int 10"
    using Connection_new_laws [where 'a = nat, of 0 10 0] by blast
  obtain b :: "nat connection" where b: "ctl_ok HandshakeACK (cn_handshakeACK b)" "ctl_ok ACK (cn_ackPacket b)"
      "\<not> cn_hasReceivedHandshake b"
    using Connection_new_laws [where 'a = nat, of 0 0 0] by blast
  have i: "cn_initialSequenceNumber a = 10"
    using a(3) by (simp add: SequenceNumber_of_int_def seq_consts)
  have W: "win_ok (0, 100)" "win (0, 100) (10 - 1)" "(10 :: int) < snd (0 :: int, 100)" "(0 :: int) < 10"
    by (simp_all add: win_ok_def win_def seq_consts)
  obtain a'' :: "nat connection" and b' :: "nat connection" where "cn_hasReceivedHandshakeACK a''" "cn_recv (0, 100) (10 - 1) {} b'"
    using handshake_establishes_connection [OF a(1,2) i W(4) b W(1-3), of 0 0 0 0] by blast
  moreover have "(10 :: int) - 1 = 9" by simp
  ultimately have "cn_hasReceivedHandshakeACK a''" and "cn_recv (0, 100) 9 {} b'" by metis+
  with i show ?thesis by blast
qed

end
