(* ===== verification/Udt_Socket.thy ===== *)
theory Udt_Socket
  imports Udt_Transfer "HOL-Library.AList" "HOL-Library.Sublist"
begin

text \<open>
  The socket of \<open>udt/Socket.h\<close> and \<open>Socket.cpp\<close>: the connections by peer address, the dispatch of what
  arrives (unfiltered handlers, control packets, data packets with the packet filter, reliable and
  message packets), and the writes of reliable and unreliable packets.

  Hash maps are association lists with distinct keys (the order in which the code visits them is
  unspecified; it is the order of insertion here). The filter operators the node list installs are
  functions; of a handler only its presence counts, its calls are the events (\<open>sk_event\<close>) an operation
  returns. \<open>sk_network\<close> stands for the transport of an address: \<open>None\<close> while it is not bound, else the
  number of bytes it reports for a datagram. The random initial sequence number of a connection that
  may be created and the clocks are arguments. Locks and the hand-over to the socket's thread are left
  out: an operation is one atomic step.
\<close>

section \<open>State\<close>

datatype 'addr sk_event =
  SkDatagram "byte list" 'addr
| SkUnfiltered "'addr base_packet"
| SkPacket "'addr packet"
| SkMessage "'addr packet"
| SkMessageFailed 'addr "32 word"
| SkHandshakeRequestComplete 'addr

(* @src libraries/networking/src/udt/Socket.h 129-153 Socket *)
record 'addr socket =
  sk_network :: "'addr \<Rightarrow> (byte list \<Rightarrow> int) option"
  sk_packetFilterOperator :: "('addr packet \<Rightarrow> bool) option"
  sk_packetHandler :: bool
  sk_messageHandler :: bool
  sk_messageFailureHandler :: bool
  sk_connectionCreationFilterOperator :: "('addr \<Rightarrow> bool) option"
  sk_unfilteredHandlers :: "('addr \<times> bool) list"
  sk_unreliableSequenceNumbers :: "('addr \<times> seqnum) list"
  sk_connectionsHash :: "('addr \<times> 'addr connection) list"
  sk_maxBandwidth :: int
  sk_lastPacketSizeRead :: int
  sk_lastReceivedSequenceNumber :: seqnum
  sk_lastPacketSockAddr :: "'addr option"

definition Socket_new :: "('addr \<Rightarrow> (byte list \<Rightarrow> int) option) \<Rightarrow> 'addr socket" where
  "Socket_new network = \<lparr>sk_network = network, sk_packetFilterOperator = None, sk_packetHandler = False,
     sk_messageHandler = False, sk_messageFailureHandler = False,
     sk_connectionCreationFilterOperator = None, sk_unfilteredHandlers = [],
     sk_unreliableSequenceNumbers = [], sk_connectionsHash = [], sk_maxBandwidth = -1,
     sk_lastPacketSizeRead = 0, sk_lastReceivedSequenceNumber = SequenceNumber_default,
     sk_lastPacketSockAddr = None\<rparr>"

(* @src libraries/networking/src/udt/Socket.h 82-83 Socket::addUnfilteredHandler *)
definition Socket_addUnfilteredHandler :: "'addr \<Rightarrow> bool \<Rightarrow> 'addr socket \<Rightarrow> 'addr socket" where
  "Socket_addUnfilteredHandler senderSockAddr handler s =
     s\<lparr>sk_unfilteredHandlers := AList.update senderSockAddr handler (sk_unfilteredHandlers s)\<rparr>"

text \<open>A connection is changed through the pointer the hash holds.\<close>

definition Socket_setConnection :: "'addr \<Rightarrow> 'addr connection \<Rightarrow> 'addr socket \<Rightarrow> 'addr socket" where
  "Socket_setConnection sockAddr c s =
     s\<lparr>sk_connectionsHash := AList.update sockAddr c (sk_connectionsHash s)\<rparr>"

section \<open>Datagrams and the callbacks of a connection\<close>

(* @src libraries/networking/src/udt/Socket.cpp 254-290 Socket::writeDatagram *)
definition Socket_writeDatagram :: "byte list \<Rightarrow> 'addr \<Rightarrow> 'addr socket \<Rightarrow> int \<times> 'addr sk_event list" where
  "Socket_writeDatagram datagram sockAddr s =
     (case sk_network s sockAddr of None \<Rightarrow> (-1, [])
      | Some send \<Rightarrow> (send datagram, [SkDatagram datagram sockAddr]))"

(* @src libraries/networking/src/udt/Socket.cpp 142-150 Socket::writeBasePacket *)
definition Socket_writeBasePacket ::
  "('addr, 'm) base_packet_scheme \<Rightarrow> 'addr \<Rightarrow> 'addr socket \<Rightarrow> (int \<times> 'addr sk_event list) option" where
  "Socket_writeBasePacket packet sockAddr s =
     map_option (\<lambda>wire. Socket_writeDatagram wire sockAddr s) (BasePacket_wire packet)"

(* @src libraries/networking/src/udt/Socket.cpp 352-356 Socket::messageReceived *)
definition Socket_messageReceived :: "'addr packet \<Rightarrow> 'addr socket \<Rightarrow> 'addr sk_event list" where
  "Socket_messageReceived packet s = (if sk_messageHandler s then [SkMessage packet] else [])"

(* @src libraries/networking/src/udt/Socket.cpp 358-362 Socket::messageFailed *)
definition Socket_messageFailed :: "'addr connection \<Rightarrow> 32 word \<Rightarrow> 'addr socket \<Rightarrow> 'addr sk_event list" where
  "Socket_messageFailed connection messageNumber s =
     (if sk_messageFailureHandler s then [SkMessageFailed (cn_destination connection) messageNumber] else [])"

text \<open>
  What a connection causes becomes what the socket does. The signals \<open>packetSent\<close> (connected by a test
  tool only) and \<open>destinationAddressChange\<close> (to the send queue) do not leave the transport.
\<close>

fun Socket_route :: "'addr socket \<Rightarrow> 'addr connection \<Rightarrow> 'addr cn_event \<Rightarrow> 'addr sk_event list" where
  "Socket_route s c (CnDatagram wire a) = snd (Socket_writeDatagram wire a s)"
| "Socket_route s c (CnMessageReceived p) = Socket_messageReceived p s"
| "Socket_route s c (CnMessageFailed n) = Socket_messageFailed c n s"
| "Socket_route s c CnPacketSent = []"
| "Socket_route s c (CnHandshakeRequestComplete a) = [SkHandshakeRequestComplete a]"
| "Socket_route s c (CnDestinationChange a) = []"

definition Socket_routeAll :: "'addr socket \<Rightarrow> 'addr connection \<Rightarrow> 'addr cn_event list \<Rightarrow> 'addr sk_event list" where
  "Socket_routeAll s c es = concat (map (Socket_route s c) es)"

section \<open>Connections\<close>

(* @src libraries/networking/src/udt/Socket.cpp 292-325 Socket::findOrCreateConnection *)
definition Socket_findOrCreateConnection ::
  "int \<Rightarrow> int \<Rightarrow> 'addr \<Rightarrow> bool \<Rightarrow> 'addr socket \<Rightarrow> ('addr connection option \<times> 'addr socket) option" where
  "Socket_findOrCreateConnection random now sockAddr filterCreate s =
     (case map_of (sk_connectionsHash s) sockAddr of
        Some c \<Rightarrow> Some (Some c, s)
      | None \<Rightarrow>
          if filterCreate \<and> (case sk_connectionCreationFilterOperator s of None \<Rightarrow> False | Some f \<Rightarrow> \<not> f sockAddr)
          then Some (None, s)
          else do { c \<leftarrow> Connection_new sockAddr random now;
                    let c' = Connection_setMaxBandwidth (sk_maxBandwidth s) c;
                    Some (Some c', s\<lparr>sk_connectionsHash := sk_connectionsHash s @ [(sockAddr, c')]\<rparr>) })"

text \<open>Destroying a connection fails its pending messages.\<close>

(* @src libraries/networking/src/udt/Socket.cpp 327-339 Socket::clearConnections *)
definition Socket_clearConnections :: "'addr socket \<Rightarrow> 'addr sk_event list \<times> 'addr socket" where
  "Socket_clearConnections s =
     (concat (map (\<lambda>(_, c). Socket_routeAll s c (Connection_destroy c)) (sk_connectionsHash s)),
      s\<lparr>sk_connectionsHash := []\<rparr>)"

(* @src libraries/networking/src/udt/Socket.cpp 341-350 Socket::cleanupConnection *)
definition Socket_cleanupConnection :: "'addr \<Rightarrow> 'addr socket \<Rightarrow> 'addr sk_event list \<times> 'addr socket" where
  "Socket_cleanupConnection sockAddr s =
     ((case map_of (sk_connectionsHash s) sockAddr of None \<Rightarrow> []
       | Some c \<Rightarrow> Socket_routeAll s c (Connection_destroy c)),
      s\<lparr>sk_connectionsHash := AList.delete sockAddr (sk_connectionsHash s)\<rparr>)"

(* @src libraries/networking/src/udt/Socket.cpp 517-526 Socket::setConnectionMaxBandwidth *)
definition Socket_setConnectionMaxBandwidth :: "int \<Rightarrow> 'addr socket \<Rightarrow> 'addr socket" where
  "Socket_setConnectionMaxBandwidth maxBandwidth s =
     s\<lparr>sk_maxBandwidth := maxBandwidth,
       sk_connectionsHash := map (\<lambda>(a, c). (a, Connection_setMaxBandwidth maxBandwidth c)) (sk_connectionsHash s)\<rparr>"

(* @src libraries/networking/src/udt/Socket.cpp 528-535 Socket::sampleStatsForConnection *)
definition Socket_sampleStatsForConnection :: "int \<Rightarrow> 'addr \<Rightarrow> 'addr socket \<Rightarrow> stats \<times> 'addr socket" where
  "Socket_sampleStatsForConnection now destination s =
     (case map_of (sk_connectionsHash s) destination of
        Some c \<Rightarrow> (let (sample, stats) = ConnectionStats_sample now (cn_stats c)
                   in (sample, Socket_setConnection destination (c\<lparr>cn_stats := stats\<rparr>) s))
      | None \<Rightarrow> (Stats_new, s))"

(* @src libraries/networking/src/udt/Socket.cpp 537-546 Socket::sampleStatsForAllConnections *)
definition Socket_sampleStatsForAllConnections ::
  "int \<Rightarrow> 'addr socket \<Rightarrow> ('addr \<times> stats) list \<times> 'addr socket" where
  "Socket_sampleStatsForAllConnections now s =
     (map (\<lambda>(a, c). (a, fst (ConnectionStats_sample now (cn_stats c)))) (sk_connectionsHash s),
      s\<lparr>sk_connectionsHash := map (\<lambda>(a, c). (a, c\<lparr>cn_stats := snd (ConnectionStats_sample now (cn_stats c))\<rparr>))
          (sk_connectionsHash s)\<rparr>)"

(* @src libraries/networking/src/udt/Socket.cpp 549-559 Socket::getConnectionSockAddrs *)
definition Socket_getConnectionSockAddrs :: "'addr socket \<Rightarrow> 'addr list" where
  "Socket_getConnectionSockAddrs s = map fst (sk_connectionsHash s)"

text \<open>
  A peer that changed its address. A connection already filed under the new address is destroyed by the
  assignment; the unreliable sequence number follows only when the connection moved.
\<close>

(* @src libraries/networking/src/udt/Socket.cpp 590-614 Socket::handleRemoteAddressChange *)
definition Socket_handleRemoteAddressChange ::
  "'addr \<Rightarrow> 'addr \<Rightarrow> 'addr socket \<Rightarrow> 'addr sk_event list \<times> 'addr socket" where
  "Socket_handleRemoteAddressChange previousAddress currentAddress s =
     (case map_of (sk_connectionsHash s) previousAddress of None \<Rightarrow> ([], s)
      | Some connection \<Rightarrow>
          if \<not> cn_hasReceivedHandshake connection then ([], s)
          else
            (let hash = AList.delete previousAddress (sk_connectionsHash s);
                 (connection', out) = Connection_setDestinationAddress currentAddress connection;
                 replaced = (case map_of hash currentAddress of None \<Rightarrow> []
                             | Some c \<Rightarrow> Socket_routeAll s c (Connection_destroy c));
                 s1 = s\<lparr>sk_connectionsHash := AList.update currentAddress connection' hash\<rparr>;
                 numbers = sk_unreliableSequenceNumbers s1
             in (Socket_routeAll s connection' out @ replaced,
                 case map_of numbers previousAddress of None \<Rightarrow> s1
                 | Some n \<Rightarrow> s1\<lparr>sk_unreliableSequenceNumbers :=
                     AList.update currentAddress n (AList.delete previousAddress numbers)\<rparr>)))"

section \<open>Writing\<close>

(* @src libraries/networking/src/udt/Socket.cpp 152-171 Socket::writePacket(const Packet&) *)
definition Socket_writePacket ::
  "int \<Rightarrow> int \<Rightarrow> 'addr packet \<Rightarrow> 'addr \<Rightarrow> 'addr socket \<Rightarrow> (int \<times> 'addr sk_event list \<times> 'addr socket) option" where
  "Socket_writePacket random now packet sockAddr s =
     do { let numbers = sk_unreliableSequenceNumbers s;
          let sequenceNumber = SequenceNumber_inc
                (case map_of numbers sockAddr of None \<Rightarrow> SequenceNumber_default | Some n \<Rightarrow> n);
          let s1 = s\<lparr>sk_unreliableSequenceNumbers := AList.update sockAddr sequenceNumber numbers\<rparr>;
          (connection, s2) \<leftarrow> Socket_findOrCreateConnection random now sockAddr True s1;
          let s3 = (case connection of None \<Rightarrow> s2
                    | Some c \<Rightarrow> Socket_setConnection sockAddr
                        (Connection_recordSentUnreliablePackets (BasePacket_getWireSize packet) (bp_payloadSize packet) c) s2);
          packet' \<leftarrow> Packet_writeSequenceNumber sequenceNumber packet;
          wire \<leftarrow> BasePacket_wire packet';
          let (bytes, out) = Socket_writeDatagram wire sockAddr s3;
          Some (bytes, out, s3) }"

(* @src libraries/networking/src/udt/Socket.cpp 225-236 Socket::writeReliablePacket *)
definition Socket_writeReliablePacket ::
  "int \<Rightarrow> int \<Rightarrow> 'addr packet \<Rightarrow> 'addr \<Rightarrow> 'addr socket \<Rightarrow> 'addr socket option" where
  "Socket_writeReliablePacket random now packet sockAddr s =
     do { (connection, s1) \<leftarrow> Socket_findOrCreateConnection random now sockAddr False s;
          Some (case connection of None \<Rightarrow> s1
                | Some c \<Rightarrow> Socket_setConnection sockAddr (Connection_sendReliablePacket packet c) s1) }"

(* @src libraries/networking/src/udt/Socket.cpp 173-192 Socket::writePacket(unique_ptr) *)
definition Socket_writeOwnedPacket ::
  "int \<Rightarrow> int \<Rightarrow> 'addr packet \<Rightarrow> 'addr \<Rightarrow> 'addr socket \<Rightarrow> (int \<times> 'addr sk_event list \<times> 'addr socket) option" where
  "Socket_writeOwnedPacket random now packet sockAddr s =
     (if pkt_isReliable packet
      then map_option (\<lambda>s'. (0, [], s')) (Socket_writeReliablePacket random now packet sockAddr s)
      else Socket_writePacket random now packet sockAddr s)"

(* @src libraries/networking/src/udt/Socket.cpp 238-248 Socket::writeReliablePacketList *)
definition Socket_writeReliablePacketList ::
  "int \<Rightarrow> int \<Rightarrow> 'addr packet_list \<Rightarrow> 'addr \<Rightarrow> 'addr socket \<Rightarrow> 'addr socket option" where
  "Socket_writeReliablePacketList random now packetList sockAddr s =
     do { (connection, s1) \<leftarrow> Socket_findOrCreateConnection random now sockAddr False s;
          case connection of None \<Rightarrow> Some s1
          | Some c \<Rightarrow> do { (_, c') \<leftarrow> Connection_sendReliablePacketList packetList c;
                           Some (Socket_setConnection sockAddr c' s1) } }"

(* @src libraries/networking/src/udt/Socket.cpp 219-221 Socket::writePacketList(while) *)
primrec Socket_writePackets ::
  "int \<Rightarrow> int \<Rightarrow> 'addr packet list \<Rightarrow> 'addr \<Rightarrow> 'addr socket \<Rightarrow> (int \<times> 'addr sk_event list \<times> 'addr socket) option" where
  "Socket_writePackets random now [] sockAddr s = Some (0, [], s)"
| "Socket_writePackets random now (p # ps) sockAddr s =
     do { (bytes, out, s1) \<leftarrow> Socket_writeOwnedPacket random now p sockAddr s;
          (bytes', out', s2) \<leftarrow> Socket_writePackets random now ps sockAddr s1;
          Some (bytes + bytes', out @ out', s2) }"

(* @src libraries/networking/src/udt/Socket.cpp 194-223 Socket::writePacketList *)
definition Socket_writePacketList ::
  "int \<Rightarrow> int \<Rightarrow> 'addr packet_list \<Rightarrow> 'addr \<Rightarrow> 'addr socket \<Rightarrow> (int \<times> 'addr sk_event list \<times> 'addr socket) option" where
  "Socket_writePacketList random now packetList sockAddr s =
     (if PacketList_getNumPackets packetList = 0 then Some (0, [], s)
      else if pl_isReliable packetList
      then map_option (\<lambda>s'. (0, [], s')) (Socket_writeReliablePacketList random now packetList sockAddr s)
      else Socket_writePackets random now (pl_packets packetList) sockAddr s)"

(* @src libraries/networking/src/udt/Socket.cpp 618-623 Socket::sendFakedHandshakeRequest *)
definition Socket_sendFakedHandshakeRequest ::
  "int \<Rightarrow> int \<Rightarrow> 'addr \<Rightarrow> 'addr socket \<Rightarrow> ('addr sk_event list \<times> 'addr socket) option" where
  "Socket_sendFakedHandshakeRequest random now sockAddr s =
     do { (connection, s1) \<leftarrow> Socket_findOrCreateConnection random now sockAddr False s;
          case connection of None \<Rightarrow> Some ([], s1)
          | Some c \<Rightarrow> do { (c', out) \<leftarrow> Connection_sendHandshakeRequest c;
                           Some (Socket_routeAll s1 c' out, Socket_setConnection sockAddr c' s1) } }"

text \<open>A signal of the send queue of the connection to \<open>sockAddr\<close>.\<close>

definition Socket_onQueueSignal ::
  "'addr \<Rightarrow> 'addr sq_event \<Rightarrow> 'addr socket \<Rightarrow> 'addr sk_event list \<times> 'addr socket" where
  "Socket_onQueueSignal sockAddr e s =
     (case map_of (sk_connectionsHash s) sockAddr of None \<Rightarrow> ([], s)
      | Some c \<Rightarrow> (let (c', out) = Connection_onQueueSignal e c
                   in (Socket_routeAll s c' out, Socket_setConnection sockAddr c' s)))"

section \<open>Reading\<close>

text \<open>
  A datagram on its way up: what \<open>pendingDatagramSize\<close> announced, the buffer after the read, the size
  the read returned, and the clocks and the random number the code would see while handling it.
\<close>

record 'addr arrival =
  ar_size :: int
  ar_buffer :: "byte list"
  ar_sizeRead :: int
  ar_sender :: 'addr
  ar_clock :: int
  ar_receiveTime :: int
  ar_now :: int
  ar_random :: int

(* @src libraries/networking/src/udt/Socket.cpp 447-458 Socket::readPendingDatagrams(control) *)
definition Socket_readControl ::
  "'addr arrival \<Rightarrow> 'addr socket \<Rightarrow> ('addr sk_event list \<times> 'addr socket) option" where
  "Socket_readControl d s =
     do { p \<leftarrow> ControlPacket_fromReceivedPacket (ar_buffer d) (ar_size d) (ar_sender d);
          let controlPacket = p\<lparr>bp_receiveTime := ar_receiveTime d\<rparr>;
          (connection, s1) \<leftarrow> Socket_findOrCreateConnection (ar_random d) (ar_now d) (ar_sender d) True s;
          case connection of None \<Rightarrow> Some ([], s1)
          | Some c \<Rightarrow> do { (c', out) \<leftarrow> Connection_processControl (ar_now d) controlPacket c;
                           Some (Socket_routeAll s1 c' out, Socket_setConnection (ar_sender d) c' s1) } }"

text \<open>The part before the handlers: whether the packet goes on to them.\<close>

(* @src libraries/networking/src/udt/Socket.cpp 469-487 Socket::readPendingDatagrams(connection) *)
definition Socket_acceptPacket ::
  "'addr arrival \<Rightarrow> 'addr packet \<Rightarrow> 'addr socket \<Rightarrow> (bool \<times> 'addr sk_event list \<times> 'addr socket) option" where
  "Socket_acceptPacket d packet s =
     do { (connection, s1) \<leftarrow> Socket_findOrCreateConnection (ar_random d) (ar_now d) (ar_sender d) True s;
          if pkt_isReliable packet then
            (case connection of None \<Rightarrow> Some (False, [], s1)
             | Some c \<Rightarrow> do { (ok, c', out) \<leftarrow> Connection_processReceivedSequenceNumber (pkt_sequenceNumber packet)
                                (BasePacket_getDataSize packet) (bp_payloadSize packet) c;
                              Some (ok, Socket_routeAll s1 c' out, Socket_setConnection (ar_sender d) c' s1) })
          else
            (case connection of None \<Rightarrow> Some (True, [], s1)
             | Some c \<Rightarrow> Some (True, [], Socket_setConnection (ar_sender d)
                 (Connection_recordReceivedUnreliablePackets (BasePacket_getWireSize packet) (bp_payloadSize packet) c) s1)) }"

(* @src libraries/networking/src/udt/Socket.cpp 460-499 Socket::readPendingDatagrams(data) *)
definition Socket_readData ::
  "'addr arrival \<Rightarrow> 'addr socket \<Rightarrow> ('addr sk_event list \<times> 'addr socket) option" where
  "Socket_readData d s =
     do { p \<leftarrow> Packet_fromReceivedPacket (ar_buffer d) (ar_size d) (ar_sender d);
          let packet = p\<lparr>bp_receiveTime := ar_receiveTime d\<rparr>;
          let s1 = s\<lparr>sk_lastReceivedSequenceNumber := pkt_sequenceNumber packet\<rparr>;
          if (case sk_packetFilterOperator s1 of None \<Rightarrow> True | Some f \<Rightarrow> f packet) then
            do { (goOn, out, s2) \<leftarrow> Socket_acceptPacket d packet s1;
                 if \<not> goOn then Some (out, s2)
                 else if pkt_isPartOfMessage packet then
                   do { (connection, s3) \<leftarrow> Socket_findOrCreateConnection (ar_random d) (ar_now d) (ar_sender d) True s2;
                        case connection of None \<Rightarrow> Some (out, s3)
                        | Some c \<Rightarrow>
                            (let (c', out') = Connection_queueReceivedMessagePacket packet c
                             in Some (out @ Socket_routeAll s3 c' out', Socket_setConnection (ar_sender d) c' s3)) }
                 else Some (out @ (if sk_packetHandler s2 then [SkPacket packet] else []), s2) }
          else Some ([], s1) }"

(* @src libraries/networking/src/udt/Socket.cpp 407-500 Socket::readPendingDatagrams(body) *)
definition Socket_readDatagram ::
  "'addr arrival \<Rightarrow> 'addr socket \<Rightarrow> ('addr sk_event list \<times> 'addr socket) option" where
  "Socket_readDatagram d s =
     (let s1 = s\<lparr>sk_lastPacketSizeRead := ar_sizeRead d, sk_lastPacketSockAddr := Some (ar_sender d)\<rparr>
      in if ar_sizeRead d \<le> 0 then Some ([], s1)
         else case map_of (sk_unfilteredHandlers s1) (ar_sender d) of
           Some handler \<Rightarrow>
             Some (if handler
                   then [SkUnfiltered ((BasePacket_fromReceivedPacket (ar_buffer d) (ar_size d) (ar_sender d))
                           \<lparr>bp_receiveTime := ar_receiveTime d\<rparr>)]
                   else [], s1)
         | None \<Rightarrow>
             do { bitField \<leftarrow> read32 (ar_buffer d) 0;
                  if bitField AND CONTROL_BIT_MASK \<noteq> 0 then Socket_readControl d s1
                  else Socket_readData d s1 })"

(* @src libraries/networking/src/udt/Socket.cpp 389-389 MAX_PROCESS_TIME *)
definition MAX_PROCESS_TIME :: int where
  "MAX_PROCESS_TIME = 100000"

text \<open>The loop over what is pending; the datagrams left are read by a later call. Clocks in microseconds.\<close>

(* @src libraries/networking/src/udt/Socket.cpp 387-501 Socket::readPendingDatagrams *)
fun Socket_readPendingDatagrams ::
  "int \<Rightarrow> 'addr arrival list \<Rightarrow> 'addr socket \<Rightarrow> ('addr arrival list \<times> 'addr sk_event list \<times> 'addr socket) option" where
  "Socket_readPendingDatagrams start [] s = Some ([], [], s)"
| "Socket_readPendingDatagrams start (d # ds) s =
     (if ar_size d = -1 \<or> ar_clock d > start + MAX_PROCESS_TIME then Some (d # ds, [], s)
      else do { (out, s1) \<leftarrow> Socket_readDatagram d s;
                (rest, out', s2) \<leftarrow> Socket_readPendingDatagrams start ds s1;
                Some (rest, out @ out', s2) })"

(* @src libraries/networking/src/udt/Socket.cpp 364-385 Socket::checkForReadyReadBackup *)
primrec Socket_checkForReadyReadBackup :: "'addr arrival list \<Rightarrow> nat \<times> 'addr arrival list" where
  "Socket_checkForReadyReadBackup [] = (0, [])"
| "Socket_checkForReadyReadBackup (d # ds) =
     (let (droppedCount, rest) = Socket_checkForReadyReadBackup ds in (droppedCount + 1, rest))"

section \<open>Tables keyed by address\<close>

definition filed :: "('k \<Rightarrow> 'v \<Rightarrow> bool) \<Rightarrow> ('k \<times> 'v) list \<Rightarrow> bool" where
  "filed ok m \<longleftrightarrow> distinct (map fst m) \<and> (\<forall>k v. map_of m k = Some v \<longrightarrow> ok k v)"

lemma filed_Nil [simp]: "filed ok []"
  by (simp add: filed_def)

lemma filed_lookup: "filed ok m \<Longrightarrow> map_of m k = Some v \<Longrightarrow> ok k v"
  by (simp add: filed_def)

lemma filed_update: "filed ok m \<Longrightarrow> ok k v \<Longrightarrow> filed ok (AList.update k v m)"
  by (simp add: filed_def AList.update_conv' AList.distinct_update)

lemma filed_delete: "filed ok m \<Longrightarrow> filed ok (AList.delete k m)"
  by (simp add: filed_def AList.delete_conv' AList.distinct_delete)

lemma filed_append: "filed ok m \<Longrightarrow> map_of m k = None \<Longrightarrow> ok k v \<Longrightarrow> filed ok (m @ [(k, v)])"
  by (auto simp: filed_def map_of_eq_None_iff map_add_Some_iff split: if_splits)

lemma filed_map:
  assumes "filed ok m" and "\<And>k v. ok k v \<Longrightarrow> ok k (f v)"
  shows "filed ok (map (\<lambda>(k, v). (k, f v)) m)"
proof -
  have "map_of (map (\<lambda>(k, v). (k, f v)) m) k = map_option f (map_of m k)" for k
    by (induction m) auto
  then show ?thesis
    using assms by (auto simp: filed_def case_prod_beta comp_def)
qed

section \<open>What a connection keeps of its identity\<close>

text \<open>
  A connection filed under \<open>a\<close> has \<open>a\<close> as its destination and its two reply packets in order; what it
  sends goes to \<open>a\<close>.
\<close>

definition cn_ok :: "'addr \<Rightarrow> 'addr connection \<Rightarrow> bool" where
  "cn_ok a c \<longleftrightarrow> cn_destination c = a \<and> ctl_ok ACK (cn_ackPacket c) \<and> ctl_ok HandshakeACK (cn_handshakeACK c)"

fun cn_target :: "'addr cn_event \<Rightarrow> 'addr set" where
  "cn_target (CnDatagram wire a) = {a}"
| "cn_target (CnHandshakeRequestComplete a) = {a}"
| "cn_target _ = {}"

definition cn_answers :: "'addr \<Rightarrow> 'addr cn_event list \<Rightarrow> bool" where
  "cn_answers a es \<longleftrightarrow> (\<forall>e \<in> set es. cn_target e \<subseteq> {a})"

lemma cn_answers_simps [simp]:
  "cn_answers a []" "cn_answers a (e # es) \<longleftrightarrow> cn_target e \<subseteq> {a} \<and> cn_answers a es"
  "cn_answers a (es @ es') \<longleftrightarrow> cn_answers a es \<and> cn_answers a es'"
  by (auto simp: cn_answers_def)

lemma cn_answers_quiet: "(\<And>e. e \<in> set es \<Longrightarrow> cn_target e = {}) \<Longrightarrow> cn_answers a es"
  by (simp add: cn_answers_def)

lemma cn_ok_new:
  assumes "Connection_new a random now = Some c"
  shows "cn_ok a (Connection_setMaxBandwidth b c)"
proof -
  from Connection_new_laws [of a random now] assms show ?thesis
    by (auto simp: cn_ok_def Connection_setMaxBandwidth_def)
qed

named_theorems cn_frame \<open>operations that leave the identity of a connection alone\<close>

lemma cn_ok_cong:
  "cn_destination c' = cn_destination c \<Longrightarrow> cn_ackPacket c' = cn_ackPacket c
    \<Longrightarrow> cn_handshakeACK c' = cn_handshakeACK c \<Longrightarrow> cn_ok a c' \<longleftrightarrow> cn_ok a c"
  by (simp add: cn_ok_def)

lemma cn_ok_getSendQueue [cn_frame]: "Connection_getSendQueue c = (q, c') \<Longrightarrow> cn_ok a c' \<longleftrightarrow> cn_ok a c"
  by (intro cn_ok_cong) (auto simp: Connection_getSendQueue_def Let_def split: option.splits if_splits prod.splits)

lemma cn_ok_stop [cn_frame, simp]: "cn_ok a (Connection_stopSendQueue c) \<longleftrightarrow> cn_ok a c"
  by (intro cn_ok_cong) (auto simp: Connection_stopSendQueue_def split: option.splits)

lemma cn_ok_update:
  assumes "\<And>c. cn_ok a (f c) \<longleftrightarrow> cn_ok a c"
  shows "cn_ok a (Connection_updateCongestionControlAndSendQueue f c) \<longleftrightarrow> cn_ok a c"
proof -
  obtain q c1 where 1: "Connection_getSendQueue c = (q, c1)" by fastforce
  obtain c2 where 2: "c1\<lparr>cn_congestionControl := CongestionControl_setSendCurrentSequenceNumber
                    (SendQueue_getCurrentSequenceNumber q) (cn_congestionControl c1)\<rparr> = c2" by blast
  obtain q' c4 where 4: "Connection_getSendQueue (f c2) = (q', c4)" by fastforce
  have "cn_ok a c2 \<longleftrightarrow> cn_ok a c1" by (intro cn_ok_cong) (auto simp flip: 2)
  then have "cn_ok a c4 \<longleftrightarrow> cn_ok a c"
    using cn_ok_getSendQueue [OF 1] cn_ok_getSendQueue [OF 4] assms by blast
  moreover have "cn_ok a (Connection_updateCongestionControlAndSendQueue f c) \<longleftrightarrow> cn_ok a c4"
    by (intro cn_ok_cong) (simp_all add: Connection_updateCongestionControlAndSendQueue_def Let_def 1 2 4)
  ultimately show ?thesis by blast
qed

lemma cn_ok_ackCallback [simp]: "cn_ok a (Connection_ackCallback now n t c) \<longleftrightarrow> cn_ok a c"
  by (intro cn_ok_cong) (auto simp: Connection_ackCallback_def Let_def split: prod.splits)

lemma cn_ok_fields [simp]:
  "cn_ok a (c\<lparr>cn_stats := st\<rparr>) \<longleftrightarrow> cn_ok a c"
  "cn_ok a (c\<lparr>cn_sendQueue := q\<rparr>) \<longleftrightarrow> cn_ok a c"
  "cn_ok a (c\<lparr>cn_congestionControl := cc\<rparr>) \<longleftrightarrow> cn_ok a c"
  "cn_ok a (c\<lparr>cn_lastReceivedACK := n\<rparr>) \<longleftrightarrow> cn_ok a c"
  "cn_ok a (c\<lparr>cn_hasReceivedHandshakeACK := h\<rparr>) \<longleftrightarrow> cn_ok a c"
  "cn_ok a (c\<lparr>cn_didRequestHandshake := h\<rparr>) \<longleftrightarrow> cn_ok a c"
  "cn_ok a (c\<lparr>cn_pendingReceivedMessages := ms\<rparr>) \<longleftrightarrow> cn_ok a c"
  "cn_ok a (c\<lparr>cn_ackPacket := p\<rparr>) \<longleftrightarrow> cn_destination c = a \<and> ctl_ok ACK p \<and> ctl_ok HandshakeACK (cn_handshakeACK c)"
  by (simp_all add: cn_ok_def)

lemma cn_ok_processACK:
  assumes "Connection_processACK now p c = Some c'"
  shows "cn_ok a c' \<longleftrightarrow> cn_ok a c"
proof -
  obtain ack p' where r: "readSequenceNumber p = Some (ack, p')"
    using assms by (auto simp: Connection_processACK_def split: bind_splits)
  obtain st where st: "ConnectionStats_recordReceivedACK (BasePacket_getWireSize p') (cn_stats c) = st" by blast
  obtain q c2 where g: "Connection_getSendQueue (c\<lparr>cn_stats := st\<rparr>) = (q, c2)" by fastforce
  have 2: "cn_ok a c2 \<longleftrightarrow> cn_ok a c"
    using cn_ok_getSendQueue [OF g] by simp
  have u: "cn_ok a (Connection_updateCongestionControlAndSendQueue (Connection_ackCallback now ack t) c3) \<longleftrightarrow> cn_ok a c3"
    for t c3 by (intro cn_ok_update) simp
  from assms 2 show ?thesis
    unfolding Connection_processACK_def r Let_def
    by (auto simp: st g u split: if_splits bind_splits)
qed

lemma cn_ok_handshake:
  fixes c :: "'a connection"
  assumes "Connection_processHandshake p c = Some (c', out)" and "cn_ok a c"
  shows "cn_ok a c' \<and> cn_answers a out"
proof -
  obtain s p' where r: "readSequenceNumber p = Some (s, p')"
    using assms by (auto simp: Connection_processHandshake_def split: bind_splits)
  obtain b where b: "QIODevice_write (seq_bytes s) (BasePacket_reset (cn_handshakeACK c)) = Some (4, b)"
      "ctl_ok HandshakeACK b" "BasePacket_wire b = Some (ctl_wire HandshakeACK s)"
    using ctl_reset_write assms(2) by (fastforce simp: cn_ok_def)
  have q: "cn_answers (b :: 'a) (map (\<lambda>m. CnMessageFailed (fst m)) ms)"
    for b and ms :: "(32 word \<times> 'a pending_message) list"
    by (rule cn_answers_quiet) auto
  show ?thesis
    using assms b
    by (cases "\<not> cn_hasReceivedHandshake c \<or> s \<noteq> cn_initialReceiveSequenceNumber c")
      (auto simp: Connection_processHandshake_def r Connection_resetReceiveState_def cn_ok_def q split: if_splits)
qed

lemma cn_ok_handshakeACK:
  assumes "Connection_processHandshakeACK p c = Some c'"
  shows "cn_ok a c' \<longleftrightarrow> cn_ok a c"
  by (intro cn_ok_cong)
    (use assms in \<open>auto simp: Connection_processHandshakeACK_def split: option.splits bind_splits if_splits\<close>)

lemma cn_ok_track:
  assumes "Connection_trackSequenceNumber n c = (dup, c')"
  shows "cn_ok a c' \<longleftrightarrow> cn_ok a c"
  by (intro cn_ok_cong)
    (use assms in \<open>auto simp: Connection_trackSequenceNumber_def Let_def split: prod.splits if_splits\<close>)

text \<open>
  What the socket asks of a handler of a connection: it keeps the connection in order and answers the
  peer only. Each handler the socket calls meets it.
\<close>

locale peer_handler =
  fixes handle :: "'addr connection \<Rightarrow> ('addr connection \<times> 'addr cn_event list) option"
  assumes keeps: "handle c = Some (c', out) \<Longrightarrow> cn_ok a c \<Longrightarrow> cn_ok a c' \<and> cn_answers a out"

definition sk_inv :: "'addr socket \<Rightarrow> bool" where
  "sk_inv s \<longleftrightarrow> filed cn_ok (sk_connectionsHash s)"

fun sk_target :: "'addr sk_event \<Rightarrow> 'addr set" where
  "sk_target (SkDatagram wire a) = {a}"
| "sk_target (SkHandshakeRequestComplete a) = {a}"
| "sk_target _ = {}"

definition sk_answers :: "'addr \<Rightarrow> 'addr sk_event list \<Rightarrow> bool" where
  "sk_answers a es \<longleftrightarrow> (\<forall>e \<in> set es. sk_target e \<subseteq> {a})"

lemma sk_answers_simps [simp]:
  "sk_answers a []" "sk_answers a (e # es) \<longleftrightarrow> sk_target e \<subseteq> {a} \<and> sk_answers a es"
  "sk_answers a (es @ es') \<longleftrightarrow> sk_answers a es \<and> sk_answers a es'"
  by (auto simp: sk_answers_def)

lemma sk_target_route: "sk_target ` set (Socket_route s c e) \<subseteq> {cn_target e}"
  by (cases e)
    (auto simp: Socket_writeDatagram_def Socket_messageReceived_def Socket_messageFailed_def split: option.splits)

lemma sk_answers_route: "cn_answers a es \<Longrightarrow> sk_answers a (Socket_routeAll s c es)"
  using sk_target_route [of s c] by (fastforce simp: cn_answers_def sk_answers_def Socket_routeAll_def)

lemma sk_inv_set: "sk_inv s \<Longrightarrow> cn_ok a c \<Longrightarrow> sk_inv (Socket_setConnection a c s)"
  by (simp add: sk_inv_def Socket_setConnection_def filed_update)

lemma sk_inv_lookup: "sk_inv s \<Longrightarrow> map_of (sk_connectionsHash s) a = Some c \<Longrightarrow> cn_ok a c"
  unfolding sk_inv_def by (rule filed_lookup)

lemma sk_inv_cong: "sk_connectionsHash s' = sk_connectionsHash s \<Longrightarrow> sk_inv s' \<longleftrightarrow> sk_inv s"
  by (simp add: sk_inv_def)

context peer_handler
begin

lemma on_socket:
  assumes "sk_inv s" and "cn_ok a c" and "handle c = Some (c', out)"
  shows "sk_inv (Socket_setConnection a c' s)" and "sk_answers a (Socket_routeAll s' c'' out)"
  using keeps [OF assms(3,2)] assms(1) by (simp_all add: sk_inv_set sk_answers_route)

end

interpretation processControl: peer_handler "Connection_processControl now p" for now p
proof (unfold_locales)
  fix c c' :: "'a connection" and out a
  assume "Connection_processControl now p c = Some (c', out)" and "cn_ok a c"
  then show "cn_ok a c' \<and> cn_answers a out"
    by (auto simp: Connection_processControl_def cn_ok_processACK cn_ok_handshake cn_ok_handshakeACK
        split: option.splits control_type.splits if_splits)
qed

interpretation processReceived: peer_handler
  "\<lambda>c. map_option snd (Connection_processReceivedSequenceNumber n size payload c)" for n size payload
proof (unfold_locales)
  fix c c' :: "'a connection" and out a
  assume h: "map_option snd (Connection_processReceivedSequenceNumber n size payload c) = Some (c', out)" and ok: "cn_ok a c"
  show "cn_ok a c' \<and> cn_answers a out"
  proof (cases "cn_hasReceivedHandshake c")
    case False
    then show ?thesis
      using h ok by (auto simp: Connection_processReceivedSequenceNumber_def Connection_sendHandshakeRequest_def
          split: bind_splits) (simp_all add: cn_ok_def)
  next
    case True
    obtain dup c1 where t: "Connection_trackSequenceNumber n c = (dup, c1)" by (rule prod.exhaust)
    then have ok1: "cn_ok a c1" using cn_ok_track [of n c dup c1 a] ok by simp
    then have "ctl_ok ACK (cn_ackPacket c1)" by (simp add: cn_ok_def)
    then obtain p st where "Connection_sendACK c1 = Some (c1\<lparr>cn_ackPacket := p, cn_stats := st\<rparr>,
      [CnDatagram (ctl_wire ACK (Connection_nextACK c1)) (cn_destination c1)])" and p: "ctl_ok ACK p"
      using sendACK_laws by blast
    then have "c' = c1\<lparr>cn_ackPacket := p, cn_stats := if dup then ConnectionStats_recordDuplicatePackets payload size st
          else ConnectionStats_recordReceivedPackets payload size st\<rparr>
      \<and> out = [CnDatagram (ctl_wire ACK (Connection_nextACK c1)) (cn_destination c1)]"
      using h True t by (auto simp: Connection_processReceivedSequenceNumber_def)
    then show ?thesis
      using ok1 p by (simp add: cn_ok_def)
  qed
qed

interpretation queueReceived: peer_handler "\<lambda>c. Some (Connection_queueReceivedMessagePacket p c)" for p
  by unfold_locales
    (auto simp: Connection_queueReceivedMessagePacket_def Let_def cn_ok_def cn_answers_def split: prod.splits)

interpretation handshakeRequest: peer_handler Connection_sendHandshakeRequest
  by unfold_locales (auto simp: Connection_sendHandshakeRequest_def cn_ok_def split: bind_splits)

text \<open>A move files the connection under its new address: the handler that changes what it answers to.\<close>

lemma cn_ok_move:
  "cn_ok a c \<Longrightarrow> Connection_setDestinationAddress b c = (c', out) \<Longrightarrow> cn_ok b c' \<and> cn_answers b out"
  by (auto simp: Connection_setDestinationAddress_def cn_ok_def split: if_splits)

lemma cn_ok_send [simp]: "cn_ok a (Connection_sendReliablePacket p c) \<longleftrightarrow> cn_ok a c"
  by (auto simp: Connection_sendReliablePacket_def cn_ok_getSendQueue split: prod.splits)

lemma cn_ok_sendList:
  "Connection_sendReliablePacketList l c = Some (l', c') \<Longrightarrow> cn_ok a c' \<longleftrightarrow> cn_ok a c"
  by (auto simp: Connection_sendReliablePacketList_def cn_ok_getSendQueue split: prod.splits bind_splits)

lemma cn_ok_others [simp]:
  "cn_ok a (Connection_recordSentUnreliablePackets w p c) \<longleftrightarrow> cn_ok a c"
  "cn_ok a (Connection_recordReceivedUnreliablePackets w p c) \<longleftrightarrow> cn_ok a c"
  "cn_ok a (Connection_setMaxBandwidth b c) \<longleftrightarrow> cn_ok a c"
  by (simp_all add: cn_ok_def Connection_recordSentUnreliablePackets_def
      Connection_recordReceivedUnreliablePackets_def Connection_setMaxBandwidth_def)

lemma cn_ok_signal: "Connection_onQueueSignal e c = (c', out) \<Longrightarrow> cn_ok a c' \<longleftrightarrow> cn_ok a c"
  by (cases e) (auto simp: Connection_queueInactive_def Connection_queueTimeout_def cn_ok_update
      Connection_recordSentPackets_def Connection_recordRetransmission_def)

section \<open>The invariant of the socket\<close>

lemma findOrCreate_laws:
  assumes "Socket_findOrCreateConnection random now a filtered s = Some (conn, s')"
  shows "sk_inv s \<Longrightarrow> sk_inv s'"
    and "sk_inv s \<Longrightarrow> conn = Some c \<Longrightarrow> cn_ok a c"
    and "sk_connectionsHash s' = sk_connectionsHash s \<or> map_of (sk_connectionsHash s) a = None
      \<and> (\<exists>c. conn = Some c \<and> sk_connectionsHash s' = sk_connectionsHash s @ [(a, c)])"
    and "\<exists>hash. s' = s\<lparr>sk_connectionsHash := hash\<rparr>"
proof -
  consider c0 where "map_of (sk_connectionsHash s) a = Some c0" "conn = Some c0" "s' = s"
    | "conn = None" "s' = s"
    | c0 where "map_of (sk_connectionsHash s) a = None" "Connection_new a random now = Some c0"
      "conn = Some (Connection_setMaxBandwidth (sk_maxBandwidth s) c0)"
      "s' = s\<lparr>sk_connectionsHash := sk_connectionsHash s @ [(a, Connection_setMaxBandwidth (sk_maxBandwidth s) c0)]\<rparr>"
  proof (cases "map_of (sk_connectionsHash s) a")
    case None
    show thesis
    proof (cases "filtered \<and> (case sk_connectionCreationFilterOperator s of None \<Rightarrow> False | Some f \<Rightarrow> \<not> f a)")
      case True
      then show thesis using that(2) None assms by (simp add: Socket_findOrCreateConnection_def)
    next
      case False
      then obtain c0 where "Connection_new a random now = Some c0"
        using None assms unfolding Socket_findOrCreateConnection_def if_not_P [OF False] by (auto split: bind_splits)
      then show thesis
        using that(3) None assms unfolding Socket_findOrCreateConnection_def if_not_P [OF False] by (simp add: Let_def)
    qed
  next
    case (Some c0)
    then show thesis using that(1) assms by (simp add: Socket_findOrCreateConnection_def)
  qed
  note cases = this
  show "sk_inv s'" if "sk_inv s"
    using cases
  proof cases
    case 3
    then show ?thesis
      using that filed_append [of cn_ok "sk_connectionsHash s" a] cn_ok_new [OF 3(2)] by (simp add: sk_inv_def)
  qed (use that in simp_all)
  show "cn_ok a c" if "sk_inv s" "conn = Some c"
    using cases by cases (use that cn_ok_new in \<open>auto simp: sk_inv_def dest: filed_lookup\<close>)
  show "sk_connectionsHash s' = sk_connectionsHash s \<or> map_of (sk_connectionsHash s) a = None
      \<and> (\<exists>c. conn = Some c \<and> sk_connectionsHash s' = sk_connectionsHash s @ [(a, c)])"
    using cases by cases simp_all
  show "\<exists>hash. s' = s\<lparr>sk_connectionsHash := hash\<rparr>"
    using cases
  proof cases
    case 3
    then show ?thesis by blast
  qed (intro exI [of _ "sk_connectionsHash s"], simp)+
qed

text \<open>Each of the branches of a read keeps the invariant and answers the sender only.\<close>

lemma sk_readControl:
  assumes i: "sk_inv s" and r: "Socket_readControl d s = Some (out, s')"
  shows "sk_inv s' \<and> sk_answers (ar_sender d) out"
proof -
  obtain p conn s1 where f: "Socket_findOrCreateConnection (ar_random d) (ar_now d) (ar_sender d) True s = Some (conn, s1)"
    and c: "(case conn of None \<Rightarrow> Some ([], s1)
        | Some c \<Rightarrow> do { (c', out) \<leftarrow> Connection_processControl (ar_now d) p c;
                         Some (Socket_routeAll s1 c' out, Socket_setConnection (ar_sender d) c' s1) }) = Some (out, s')"
    using r unfolding Socket_readControl_def by (auto simp: Let_def split: bind_splits)
  note l = findOrCreate_laws(1,2) [OF f i]
  show ?thesis
  proof (cases conn)
    case (Some k)
    then obtain c' o' where h: "Connection_processControl (ar_now d) p k = Some (c', o')"
      and "out = Socket_routeAll s1 c' o'" "s' = Socket_setConnection (ar_sender d) c' s1"
      using c by (auto split: bind_splits)
    with processControl.on_socket [OF l(1) l(2) h] Some show ?thesis by blast
  qed (use c l(1) in simp)
qed

lemma sk_acceptPacket:
  assumes i: "sk_inv s" and r: "Socket_acceptPacket d p s = Some (ok, out, s')"
  shows "sk_inv s' \<and> sk_answers (ar_sender d) out"
proof -
  obtain conn s1 where f: "Socket_findOrCreateConnection (ar_random d) (ar_now d) (ar_sender d) True s = Some (conn, s1)"
    using r unfolding Socket_acceptPacket_def by (auto split: bind_splits)
  note l = findOrCreate_laws(1,2) [OF f i]
  show ?thesis
  proof (cases conn)
    case None
    then show ?thesis using r l(1) by (auto simp: Socket_acceptPacket_def f split: if_splits)
  next
    case (Some k)
    show ?thesis
    proof (cases "pkt_isReliable p")
      case True
      then obtain c' o' where h: "map_option snd (Connection_processReceivedSequenceNumber (pkt_sequenceNumber p)
            (BasePacket_getDataSize p) (bp_payloadSize p) k) = Some (c', o')"
        and "out = Socket_routeAll s1 c' o'" "s' = Socket_setConnection (ar_sender d) c' s1"
        using r Some by (auto simp: Socket_acceptPacket_def f split: bind_splits)
      with processReceived.on_socket [OF l(1) l(2) h] Some show ?thesis by blast
    next
      case False
      then show ?thesis
        using r Some l by (auto simp: Socket_acceptPacket_def f intro: sk_inv_set)
    qed
  qed
qed

lemma sk_readData:
  assumes i: "sk_inv s" and r: "Socket_readData d s = Some (out, s')"
  shows "sk_inv s' \<and> sk_answers (ar_sender d) out"
proof -
  obtain p s1 where p: "s1 = s\<lparr>sk_lastReceivedSequenceNumber := pkt_sequenceNumber p\<rparr>" and
    cs: "(if (case sk_packetFilterOperator s1 of None \<Rightarrow> True | Some f \<Rightarrow> f p) then
            do { (goOn, out, s2) \<leftarrow> Socket_acceptPacket d p s1;
                 if \<not> goOn then Some (out, s2)
                 else if pkt_isPartOfMessage p then
                   do { (connection, s3) \<leftarrow> Socket_findOrCreateConnection (ar_random d) (ar_now d) (ar_sender d) True s2;
                        case connection of None \<Rightarrow> Some (out, s3)
                        | Some c \<Rightarrow>
                            (let (c', out') = Connection_queueReceivedMessagePacket p c
                             in Some (out @ Socket_routeAll s3 c' out', Socket_setConnection (ar_sender d) c' s3)) }
                 else Some (out @ (if sk_packetHandler s2 then [SkPacket p] else []), s2) }
          else Some ([], s1)) = Some (out, s')"
    using r unfolding Socket_readData_def Let_def by (auto split: bind_splits)
  have i1: "sk_inv s1" using i by (simp add: p sk_inv_def)
  show ?thesis
  proof (cases "case sk_packetFilterOperator s1 of None \<Rightarrow> True | Some f \<Rightarrow> f p")
    case False
    then show ?thesis using cs i1 by simp
  next
    case True
    then obtain goOn o1 s2 where a: "Socket_acceptPacket d p s1 = Some (goOn, o1, s2)"
      using cs by (auto split: bind_splits)
    note l = sk_acceptPacket [OF i1 a]
    show ?thesis
    proof (cases "goOn \<and> pkt_isPartOfMessage p")
      case False
      then show ?thesis using cs True a l by (auto split: if_splits)
    next
      case part: True
      then obtain conn s3 where f: "Socket_findOrCreateConnection (ar_random d) (ar_now d) (ar_sender d) True s2 = Some (conn, s3)"
        using cs True a by (auto split: bind_splits)
      note m = findOrCreate_laws(1,2) [OF f conjunct1 [OF l]]
      show ?thesis
      proof (cases conn)
        case None
        then show ?thesis using cs True a part f l m by simp
      next
        case (Some k)
        obtain c' o' where h: "Connection_queueReceivedMessagePacket p k = (c', o')" by fastforce
        then show ?thesis
          using cs True a part f l Some queueReceived.on_socket [OF m(1) m(2), of k p c' o'] by auto
      qed
    qed
  qed
qed

lemma sk_readDatagram:
  assumes i: "sk_inv s" and r: "Socket_readDatagram d s = Some (out, s')"
  shows "sk_inv s' \<and> sk_answers (ar_sender d) out"
proof -
  let ?s = "s\<lparr>sk_lastPacketSizeRead := ar_sizeRead d, sk_lastPacketSockAddr := Some (ar_sender d)\<rparr>"
  have "sk_inv ?s" using i by (simp add: sk_inv_def)
  then show ?thesis
    using r sk_readControl [of ?s d out s'] sk_readData [of ?s d out s']
    by (auto simp: Socket_readDatagram_def Let_def split: if_splits option.splits bind_splits)
qed

text \<open>Everything that can happen to a socket.\<close>

inductive sk_reachable :: "'addr socket \<Rightarrow> bool" where
  start: "sk_reachable (Socket_new network)"
| configure: "sk_reachable s \<Longrightarrow> sk_reachable (s\<lparr>sk_packetFilterOperator := pf, sk_packetHandler := ph,
    sk_messageHandler := mh, sk_messageFailureHandler := mf, sk_connectionCreationFilterOperator := cf\<rparr>)"
| unfiltered: "sk_reachable s \<Longrightarrow> sk_reachable (Socket_addUnfilteredHandler a h s)"
| read: "sk_reachable s \<Longrightarrow> Socket_readDatagram d s = Some (out, s') \<Longrightarrow> sk_reachable s'"
| written: "sk_reachable s \<Longrightarrow> Socket_writePacket random now p a s = Some (bytes, out, s') \<Longrightarrow> sk_reachable s'"
| reliable: "sk_reachable s \<Longrightarrow> Socket_writeReliablePacket random now p a s = Some s' \<Longrightarrow> sk_reachable s'"
| write_list: "sk_reachable s \<Longrightarrow> Socket_writeReliablePacketList random now l a s = Some s' \<Longrightarrow> sk_reachable s'"
| request: "sk_reachable s \<Longrightarrow> Socket_sendFakedHandshakeRequest random now a s = Some (out, s') \<Longrightarrow> sk_reachable s'"
| signal: "sk_reachable s \<Longrightarrow> Socket_onQueueSignal a e s = (out, s') \<Longrightarrow> sk_reachable s'"
| move: "sk_reachable s \<Longrightarrow> Socket_handleRemoteAddressChange a b s = (out, s') \<Longrightarrow> sk_reachable s'"
| cleanup: "sk_reachable s \<Longrightarrow> Socket_cleanupConnection a s = (out, s') \<Longrightarrow> sk_reachable s'"
| clear: "sk_reachable s \<Longrightarrow> Socket_clearConnections s = (out, s') \<Longrightarrow> sk_reachable s'"
| bandwidth: "sk_reachable s \<Longrightarrow> sk_reachable (Socket_setConnectionMaxBandwidth b s)"
| sample: "sk_reachable s \<Longrightarrow> Socket_sampleStatsForAllConnections now s = (st, s') \<Longrightarrow> sk_reachable s'"
| sample_one: "sk_reachable s \<Longrightarrow> Socket_sampleStatsForConnection now a s = (st1, s') \<Longrightarrow> sk_reachable s'"

lemma sk_writePacket:
  assumes i: "sk_inv s" and w: "Socket_writePacket random now p a s = Some (bytes, out, s')"
  shows "sk_inv s'"
proof -
  obtain n conn s2 where "Socket_findOrCreateConnection random now a True
        (s\<lparr>sk_unreliableSequenceNumbers := n\<rparr>) = Some (conn, s2)"
    and s': "s' = (case conn of None \<Rightarrow> s2
                    | Some c \<Rightarrow> Socket_setConnection a
                        (Connection_recordSentUnreliablePackets (BasePacket_getWireSize p) (bp_payloadSize p) c) s2)"
    using w unfolding Socket_writePacket_def Let_def by (auto split: bind_splits prod.splits)
  moreover have "sk_inv (s\<lparr>sk_unreliableSequenceNumbers := n\<rparr>)" using i by (simp add: sk_inv_def)
  ultimately show ?thesis
    using findOrCreate_laws(1,2) by (fastforce split: option.splits intro!: sk_inv_set)
qed

lemma sk_writeReliable:
  assumes i: "sk_inv s" and w: "Socket_writeReliablePacket random now p a s = Some s'"
  shows "sk_inv s'"
proof -
  obtain conn s1 where f: "Socket_findOrCreateConnection random now a False s = Some (conn, s1)"
    using w by (auto simp: Socket_writeReliablePacket_def split: bind_splits)
  note l = findOrCreate_laws(1,2) [OF f i]
  show ?thesis
    using w l by (auto simp: Socket_writeReliablePacket_def f split: option.splits intro: sk_inv_set)
qed

lemma sk_writeReliableList:
  assumes i: "sk_inv s" and w: "Socket_writeReliablePacketList random now pl a s = Some s'"
  shows "sk_inv s'"
proof -
  obtain conn s1 where f: "Socket_findOrCreateConnection random now a False s = Some (conn, s1)"
    using w by (auto simp: Socket_writeReliablePacketList_def split: bind_splits)
  note l = findOrCreate_laws(1,2) [OF f i]
  show ?thesis
  proof (cases conn)
    case None
    then show ?thesis using w l by (simp add: Socket_writeReliablePacketList_def f)
  next
    case (Some c)
    then obtain x c' where "Connection_sendReliablePacketList pl c = Some (x, c')" "s' = Socket_setConnection a c' s1"
      using w by (auto simp: Socket_writeReliablePacketList_def f split: bind_splits)
    then show ?thesis
      using l Some cn_ok_sendList [of pl c x c' a] by (simp add: sk_inv_set)
  qed
qed

lemma sk_request:
  assumes i: "sk_inv s" and w: "Socket_sendFakedHandshakeRequest random now a s = Some (out, s')"
  shows "sk_inv s'"
proof -
  obtain conn s1 where f: "Socket_findOrCreateConnection random now a False s = Some (conn, s1)"
    using w by (auto simp: Socket_sendFakedHandshakeRequest_def split: bind_splits)
  note l = findOrCreate_laws(1,2) [OF f i]
  show ?thesis
  proof (cases conn)
    case None
    then show ?thesis using w l by (simp add: Socket_sendFakedHandshakeRequest_def f)
  next
    case (Some c)
    then obtain o' c' where "Connection_sendHandshakeRequest c = Some (c', o')" "s' = Socket_setConnection a c' s1"
      using w by (auto simp: Socket_sendFakedHandshakeRequest_def f split: bind_splits)
    with handshakeRequest.on_socket [OF l(1) l(2)] Some show ?thesis by blast
  qed
qed

lemma sk_signal:
  assumes i: "sk_inv s" and w: "Socket_onQueueSignal a e s = (out, s')"
  shows "sk_inv s'"
proof (cases "map_of (sk_connectionsHash s) a")
  case None
  then show ?thesis using w i by (simp add: Socket_onQueueSignal_def)
next
  case (Some c)
  obtain c' o' where h: "Connection_onQueueSignal e c = (c', o')" by (rule prod.exhaust)
  have "cn_ok a c'" using sk_inv_lookup [OF i Some] cn_ok_signal [OF h, of a] by simp
  then show ?thesis
    using w Some h sk_inv_set [OF i, of a c'] by (simp add: Socket_onQueueSignal_def)
qed

lemma sk_move:
  assumes i: "sk_inv s" and w: "Socket_handleRemoteAddressChange a b s = (out, s')"
  shows "sk_inv s'"
proof (cases "map_of (sk_connectionsHash s) a")
  case None
  then show ?thesis using w i by (simp add: Socket_handleRemoteAddressChange_def)
next
  case (Some c)
  obtain c' o' where h: "Connection_setDestinationAddress b c = (c', o')" by (rule prod.exhaust)
  have "cn_ok b c'"
    using cn_ok_move [OF sk_inv_lookup [OF i Some] h] by simp
  then have "filed cn_ok (AList.update b c' (AList.delete a (sk_connectionsHash s)))"
    using i by (simp add: sk_inv_def filed_update filed_delete)
  then show ?thesis
    using w Some h i
    by (cases "cn_hasReceivedHandshake c")
      (auto simp: Socket_handleRemoteAddressChange_def Let_def sk_inv_def split: option.splits)
qed

lemma sk_reachable_inv: "sk_reachable s \<Longrightarrow> sk_inv s"
proof (induction rule: sk_reachable.induct)
  case (sample s now st s')
  then show ?case
    using filed_map [of cn_ok "sk_connectionsHash s" "\<lambda>c. c\<lparr>cn_stats := snd (ConnectionStats_sample now (cn_stats c))\<rparr>"]
    by (auto simp: Socket_sampleStatsForAllConnections_def sk_inv_def)
next
  case (sample_one s now a st1 s')
  then show ?case
    using sk_inv_lookup [of s a]
    by (auto simp: Socket_sampleStatsForConnection_def split: option.splits prod.splits intro!: sk_inv_set)
next
  case (bandwidth s b)
  then show ?case
    using filed_map [of cn_ok "sk_connectionsHash s" "Connection_setMaxBandwidth b"]
    by (simp add: Socket_setConnectionMaxBandwidth_def sk_inv_def)
next
  case (read s d out s')
  then show ?case using sk_readDatagram by blast
next
  case (cleanup s a out s')
  then show ?case by (auto simp: Socket_cleanupConnection_def sk_inv_def filed_delete)
qed (auto simp: Socket_new_def sk_inv_def Socket_addUnfilteredHandler_def Socket_clearConnections_def
    dest: sk_writePacket [unfolded sk_inv_def] sk_writeReliable [unfolded sk_inv_def]
      sk_writeReliableList [unfolded sk_inv_def] sk_request [unfolded sk_inv_def]
      sk_signal [unfolded sk_inv_def] sk_move [unfolded sk_inv_def])

section \<open>What an operation leaves alone\<close>

text \<open>Handling the peer \<open>a\<close> changes no setting of the socket and no other peer's connection.\<close>

definition sk_frame :: "'addr \<Rightarrow> 'addr socket \<Rightarrow> 'addr socket \<Rightarrow> bool" where
  "sk_frame a s s' \<longleftrightarrow> sk_network s' = sk_network s \<and> sk_packetFilterOperator s' = sk_packetFilterOperator s
     \<and> sk_packetHandler s' = sk_packetHandler s
     \<and> sk_connectionCreationFilterOperator s' = sk_connectionCreationFilterOperator s
     \<and> sk_unfilteredHandlers s' = sk_unfilteredHandlers s
     \<and> (\<forall>b. b \<noteq> a \<longrightarrow> map_of (sk_connectionsHash s') b = map_of (sk_connectionsHash s) b)"

lemma sk_frame_refl [simp]: "sk_frame a s s"
  by (simp add: sk_frame_def)

lemma sk_frame_trans: "sk_frame a s s1 \<Longrightarrow> sk_frame a s1 s' \<Longrightarrow> sk_frame a s s'"
  by (simp add: sk_frame_def)

lemma sk_frame_set [simp]: "sk_frame a s (Socket_setConnection a c s') \<longleftrightarrow> sk_frame a s s'"
  by (simp add: sk_frame_def Socket_setConnection_def AList.update_conv')

lemma sk_frame_last [simp]:
  "sk_frame a s (s'\<lparr>sk_lastReceivedSequenceNumber := n\<rparr>) \<longleftrightarrow> sk_frame a s s'"
  "sk_frame a (s\<lparr>sk_lastReceivedSequenceNumber := n\<rparr>) s' \<longleftrightarrow> sk_frame a s s'"
  "sk_frame a (s\<lparr>sk_lastPacketSizeRead := z, sk_lastPacketSockAddr := b\<rparr>) s' \<longleftrightarrow> sk_frame a s s'"
  "sk_frame a s (s'\<lparr>sk_lastPacketSizeRead := z, sk_lastPacketSockAddr := b\<rparr>) \<longleftrightarrow> sk_frame a s s'"
  by (simp_all add: sk_frame_def)

lemma sk_frame_find:
  assumes "Socket_findOrCreateConnection random now a filtered s = Some (conn, s')"
  shows "sk_frame a s s'"
proof -
  obtain hash where "s' = s\<lparr>sk_connectionsHash := hash\<rparr>"
    using findOrCreate_laws(4) [OF assms] by blast
  with findOrCreate_laws(3) [OF assms] show ?thesis
    by (auto simp: sk_frame_def map_add_def split: option.splits)
qed

lemma fromReceived_sender:
  assumes "Packet_fromReceivedPacket buf n a = Some p"
  shows "bp_senderSockAddr p = Some a"
proof -
  have o: "bp_senderSockAddr q' = bp_senderSockAddr q" if "Packet_obfuscate l q = Some q'" for l and q q' :: "'a packet"
    using that by (auto simp: Packet_obfuscate_def Let_def split: if_splits bind_splits dest!: Packet_writeHeader_cases)
  have r: "bp_senderSockAddr q' = bp_senderSockAddr q" if "Packet_readHeader q = Some q'" for q q' :: "'a packet"
    using that by (auto simp: Packet_readHeader_def Let_def split: if_splits bind_splits)
  obtain q where "Packet_of_data buf n a = Some q" "p = QIODevice_open ReadOnly q"
    using assms by (auto simp: Packet_fromReceivedPacket_def)
  then show ?thesis
    unfolding Packet_of_data_def
    by (auto simp: QIODevice_open_def BasePacket_adjust_def Let_def Packet_default_fields_def BasePacket_of_data_def
        base_packet.defs packet.defs dest!: o r split: if_splits bind_splits)
qed

lemma sk_no_packet [simp]: "SkPacket q \<notin> set (Socket_route s c e)"
  by (cases e) (auto simp: Socket_writeDatagram_def Socket_messageReceived_def Socket_messageFailed_def
      split: option.splits)

lemma sk_frame_readControl:
  assumes "Socket_readControl d s = Some (out, s')"
  shows "sk_frame (ar_sender d) s s'" and "SkPacket q \<notin> set out"
proof -
  obtain conn s1 where f: "Socket_findOrCreateConnection (ar_random d) (ar_now d) (ar_sender d) True s = Some (conn, s1)"
    using assms unfolding Socket_readControl_def Let_def by (auto split: bind_splits)
  show "sk_frame (ar_sender d) s s'" and "SkPacket q \<notin> set out"
    using assms sk_frame_find [OF f] unfolding Socket_readControl_def Socket_routeAll_def f Let_def
    by (auto split: bind_splits option.splits)
qed

lemma sk_frame_acceptPacket:
  assumes "Socket_acceptPacket d p s = Some (ok, out, s')"
  shows "sk_frame (ar_sender d) s s'" and "SkPacket q \<notin> set out"
proof -
  obtain conn s1 where f: "Socket_findOrCreateConnection (ar_random d) (ar_now d) (ar_sender d) True s = Some (conn, s1)"
    using assms unfolding Socket_acceptPacket_def by (auto split: bind_splits)
  note fr = sk_frame_find [OF f]
  show "sk_frame (ar_sender d) s s'"
    using assms fr unfolding Socket_acceptPacket_def f
    by (auto split: bind_splits option.splits if_splits)
  show "SkPacket q \<notin> set out"
    using assms unfolding Socket_acceptPacket_def Socket_routeAll_def f
    by (auto split: bind_splits option.splits if_splits)
qed

lemma sk_frame_readData:
  assumes r: "Socket_readData d s = Some (out, s')"
  shows "sk_frame (ar_sender d) s s'"
    and "SkPacket q \<in> set out \<Longrightarrow> bp_senderSockAddr q = Some (ar_sender d)"
proof -
  obtain p0 where p0: "Packet_fromReceivedPacket (ar_buffer d) (ar_size d) (ar_sender d) = Some p0"
    using r unfolding Socket_readData_def by (auto split: bind_splits)
  obtain p where p: "p0\<lparr>bp_receiveTime := ar_receiveTime d\<rparr> = p" by blast
  obtain s1 where s1: "s\<lparr>sk_lastReceivedSequenceNumber := pkt_sequenceNumber p\<rparr> = s1" by blast
  have cs: "(if (case sk_packetFilterOperator s1 of None \<Rightarrow> True | Some f \<Rightarrow> f p) then
            do { (goOn, out, s2) \<leftarrow> Socket_acceptPacket d p s1;
                 if \<not> goOn then Some (out, s2)
                 else if pkt_isPartOfMessage p then
                   do { (connection, s3) \<leftarrow> Socket_findOrCreateConnection (ar_random d) (ar_now d) (ar_sender d) True s2;
                        case connection of None \<Rightarrow> Some (out, s3)
                        | Some c \<Rightarrow>
                            (let (c', out') = Connection_queueReceivedMessagePacket p c
                             in Some (out @ Socket_routeAll s3 c' out', Socket_setConnection (ar_sender d) c' s3)) }
                 else Some (out @ (if sk_packetHandler s2 then [SkPacket p] else []), s2) }
          else Some ([], s1)) = Some (out, s')"
    using r unfolding Socket_readData_def p0 Option.bind.bind_lunit Let_def p s1 .
  have sender: "bp_senderSockAddr p = Some (ar_sender d)"
    using fromReceived_sender [OF p0] by (simp flip: p)
  have "sk_frame (ar_sender d) s s' \<and> (\<forall>q. SkPacket q \<in> set out \<longrightarrow> bp_senderSockAddr q = Some (ar_sender d))"
  proof (cases "case sk_packetFilterOperator s1 of None \<Rightarrow> True | Some f \<Rightarrow> f p")
    case False
    then show ?thesis using cs by (auto simp flip: s1)
  next
    case True
    then obtain goOn o1 s2 where a: "Socket_acceptPacket d p s1 = Some (goOn, o1, s2)"
      using cs by (auto split: bind_splits)
    have fr: "sk_frame (ar_sender d) s s2"
      using sk_frame_acceptPacket(1) [OF a] by (simp flip: s1)
    note no = sk_frame_acceptPacket(2) [OF a]
    show ?thesis
    proof (cases "goOn \<and> pkt_isPartOfMessage p")
      case False
      then show ?thesis using cs True a fr no sender by (auto split: if_splits)
    next
      case part: True
      then obtain conn s3 where f: "Socket_findOrCreateConnection (ar_random d) (ar_now d) (ar_sender d) True s2 = Some (conn, s3)"
        using cs True a by (auto split: bind_splits)
      have fr3: "sk_frame (ar_sender d) s s3" by (rule sk_frame_trans [OF fr sk_frame_find [OF f]])
      show ?thesis
      proof (cases conn)
        case None
        then show ?thesis using cs True a part f fr3 no by simp
      next
        case (Some k)
        obtain c' o' where h: "Connection_queueReceivedMessagePacket p k = (c', o')" by (rule prod.exhaust)
        then show ?thesis
          using cs True a part f fr3 no Some by (auto simp: Socket_routeAll_def)
      qed
    qed
  qed
  then show "sk_frame (ar_sender d) s s'"
    and "SkPacket q \<in> set out \<Longrightarrow> bp_senderSockAddr q = Some (ar_sender d)"
    by blast+
qed

lemma sk_frame_readDatagram:
  assumes "Socket_readDatagram d s = Some (out, s')"
  shows "sk_frame (ar_sender d) s s'"
    and "SkPacket q \<in> set out \<Longrightarrow> bp_senderSockAddr q = Some (ar_sender d)"
proof -
  let ?s = "s\<lparr>sk_lastPacketSizeRead := ar_sizeRead d, sk_lastPacketSockAddr := Some (ar_sender d)\<rparr>"
  have "sk_frame (ar_sender d) ?s s' \<and> (SkPacket q \<in> set out \<longrightarrow> bp_senderSockAddr q = Some (ar_sender d))"
    using assms sk_frame_readControl(1) [of d ?s out s'] sk_frame_readControl(2) [of d ?s out s' q]
      sk_frame_readData(1) [of d ?s out s'] sk_frame_readData(2) [of d ?s out s' q]
    by (auto simp: Socket_readDatagram_def Let_def split: if_splits option.splits bind_splits)
  then show "sk_frame (ar_sender d) s s'"
    and "SkPacket q \<in> set out \<Longrightarrow> bp_senderSockAddr q = Some (ar_sender d)"
    by simp_all
qed

section \<open>A peer the creation filter refuses\<close>

definition sk_refuses :: "'addr \<Rightarrow> 'addr socket \<Rightarrow> bool" where
  "sk_refuses a s \<longleftrightarrow> (\<exists>f. sk_connectionCreationFilterOperator s = Some f \<and> \<not> f a)
     \<and> map_of (sk_connectionsHash s) a = None"

lemma sk_refuses_find:
  "sk_refuses a s \<Longrightarrow> Socket_findOrCreateConnection random now a True s = Some (None, s)"
  by (auto simp: sk_refuses_def Socket_findOrCreateConnection_def)

lemma sk_refuses_readDatagram:
  assumes i: "sk_refuses (ar_sender d) s" and r: "Socket_readDatagram d s = Some (out, s')"
  shows "sk_refuses (ar_sender d) s'" and "SkPacket q \<in> set out \<Longrightarrow> \<not> pkt_isReliable q \<and> \<not> pkt_isPartOfMessage q"
    and "SkDatagram wire b \<notin> set out"
proof -
  let ?s = "s\<lparr>sk_lastPacketSizeRead := ar_sizeRead d, sk_lastPacketSockAddr := Some (ar_sender d)\<rparr>"
  have f1: "Socket_findOrCreateConnection random now (ar_sender d) True ?s = Some (None, ?s)" for random now
    by (rule sk_refuses_find) (use i in \<open>simp add: sk_refuses_def\<close>)
  have f2: "Socket_findOrCreateConnection random now (ar_sender d) True (?s\<lparr>sk_lastReceivedSequenceNumber := n\<rparr>)
      = Some (None, ?s\<lparr>sk_lastReceivedSequenceNumber := n\<rparr>)" for random now n
    by (rule sk_refuses_find) (use i in \<open>simp add: sk_refuses_def\<close>)
  have "sk_connectionsHash s' = sk_connectionsHash s
    \<and> sk_connectionCreationFilterOperator s' = sk_connectionCreationFilterOperator s
    \<and> (\<forall>e \<in> set out. (\<exists>q. e = SkPacket q \<and> \<not> pkt_isReliable q \<and> \<not> pkt_isPartOfMessage q) \<or> (\<exists>q. e = SkUnfiltered q))"
    using r
    by (auto simp: Socket_readDatagram_def Socket_readControl_def Socket_readData_def Socket_acceptPacket_def f1 f2 Let_def
        split: if_splits option.splits bind_splits)
  then show "sk_refuses (ar_sender d) s'"
    and "SkPacket q \<in> set out \<Longrightarrow> \<not> pkt_isReliable q \<and> \<not> pkt_isPartOfMessage q"
    and "SkDatagram wire b \<notin> set out"
    using i by (auto simp: sk_refuses_def)
qed

section \<open>Properties\<close>

text \<open>
  C6. A socket keeps one connection per peer, filed under the address the connection sends to, whatever
  is read, written, moved or cleaned up; and what reading a datagram sends or signals concerns the
  sender of that datagram only.
\<close>

theorem Socket_answers_only_sender:
  assumes "sk_reachable s"
  shows "distinct (Socket_getConnectionSockAddrs s)
    \<and> (\<forall>a c. map_of (sk_connectionsHash s) a = Some c \<longrightarrow> cn_destination c = a)
    \<and> (\<forall>d out s' wire b. Socket_readDatagram d s = Some (out, s') \<longrightarrow>
        SkDatagram wire b \<in> set out \<or> SkHandshakeRequestComplete b \<in> set out \<longrightarrow> b = ar_sender d)"
proof -
  have i: "sk_inv s" using assms by (rule sk_reachable_inv)
  have "b = ar_sender d" if "Socket_readDatagram d s = Some (out, s')"
    "SkDatagram wire b \<in> set out \<or> SkHandshakeRequestComplete b \<in> set out" for d out s' wire b
    using sk_readDatagram [OF i that(1)] that(2) by (auto simp: sk_answers_def)
  moreover have "cn_destination c = a" if "map_of (sk_connectionsHash s) a = Some c" for a c
    using sk_inv_lookup [OF i that] by (simp add: cn_ok_def)
  moreover have "distinct (Socket_getConnectionSockAddrs s)"
    using i by (simp add: sk_inv_def filed_def Socket_getConnectionSockAddrs_def)
  ultimately show ?thesis by blast
qed

theorem Socket_answers_only_sender_witness:
  "\<exists>p (s' :: nat socket) c. Socket_writeReliablePacket 5 0 p 7 (Socket_new (\<lambda>_. None)) = Some s'
    \<and> Socket_getConnectionSockAddrs s' = [7] \<and> map_of (sk_connectionsHash s') 7 = Some c \<and> cn_destination c = 7"
proof -
  obtain p :: "nat packet" where True by blast
  obtain c :: "nat connection" where c: "Connection_new 7 5 0 = Some c"
    using Connection_new_laws [where 'a = nat, of 7 5 0] by blast
  obtain c1 where c1: "Connection_sendReliablePacket p (Connection_setMaxBandwidth (-1) c) = c1" by blast
  let ?s = "(Socket_new (\<lambda>_. None))\<lparr>sk_connectionsHash := [(7, c1)]\<rparr> :: nat socket"
  have w: "Socket_writeReliablePacket 5 0 p 7 (Socket_new (\<lambda>_. None)) = Some ?s"
    by (simp add: Socket_writeReliablePacket_def Socket_findOrCreateConnection_def c c1 Let_def
        Socket_new_def Socket_setConnection_def)
  have "sk_reachable ?s"
    by (rule sk_reachable.reliable [OF sk_reachable.start w])
  from Socket_answers_only_sender [OF this] have "cn_destination c1 = 7"
    by simp
  with w show ?thesis
    by (intro exI [of _ p] exI [of _ ?s] exI [of _ c1]) (simp add: Socket_getConnectionSockAddrs_def)
qed

text \<open>
  C5. A peer the connection creation filter refuses stays out: whatever datagrams are read, from it and
  from others, it never gets a connection, nothing is sent to it, and the packet handler sees none of its
  reliable packets or message parts.
\<close>

theorem Socket_refused_peer_stays_out:
  assumes "sk_reachable s" and "sk_connectionCreationFilterOperator s = Some f" and "\<not> f a"
    and "map_of (sk_connectionsHash s) a = None"
    and "Socket_readPendingDatagrams start ds s = Some (rest, out, s')"
  shows "map_of (sk_connectionsHash s') a = None \<and> (\<forall>wire. SkDatagram wire a \<notin> set out)
    \<and> (\<forall>p. SkPacket p \<in> set out \<and> bp_senderSockAddr p = Some a \<longrightarrow> \<not> pkt_isReliable p \<and> \<not> pkt_isPartOfMessage p)"
proof -
  have "sk_refuses a s" using assms(2-4) by (simp add: sk_refuses_def)
  then have "sk_refuses a s' \<and> (\<forall>wire. SkDatagram wire a \<notin> set out)
    \<and> (\<forall>p. SkPacket p \<in> set out \<and> bp_senderSockAddr p = Some a \<longrightarrow> \<not> pkt_isReliable p \<and> \<not> pkt_isPartOfMessage p)"
    using sk_reachable_inv [OF assms(1)] assms(5)
  proof (induction ds arbitrary: s out)
    case Nil
    then show ?case by simp
  next
    case (Cons d ds)
    show ?case
    proof (cases "ar_size d = -1 \<or> ar_clock d > start + MAX_PROCESS_TIME")
      case True
      then show ?thesis using Cons.prems by simp
    next
      case False
      then obtain o1 s1 o2 where 1: "Socket_readDatagram d s = Some (o1, s1)"
        and 2: "Socket_readPendingDatagrams start ds s1 = Some (rest, o2, s')" and out: "out = o1 @ o2"
        using Cons.prems(3) by (auto split: bind_splits)
      have inv: "sk_inv s1" "sk_answers (ar_sender d) o1"
        using sk_readDatagram [OF Cons.prems(2) 1] by blast+
      note fr = sk_frame_readDatagram [OF 1]
      have "sk_refuses a s1 \<and> (\<forall>wire. SkDatagram wire a \<notin> set o1)
        \<and> (\<forall>p. SkPacket p \<in> set o1 \<and> bp_senderSockAddr p = Some a \<longrightarrow> \<not> pkt_isReliable p \<and> \<not> pkt_isPartOfMessage p)"
      proof (cases "ar_sender d = a")
        case True
        then show ?thesis
          using sk_refuses_readDatagram [OF _ 1] Cons.prems(1) by blast
      next
        case False
        then have "sk_refuses a s1"
          using fr(1) Cons.prems(1) by (auto simp: sk_frame_def sk_refuses_def)
        moreover have "SkDatagram wire a \<notin> set o1" for wire
          using inv(2) False by (auto simp: sk_answers_def)
        moreover have "bp_senderSockAddr p \<noteq> Some a" if "SkPacket p \<in> set o1" for p
          using fr(2) [OF that] False by simp
        ultimately show ?thesis by blast
      qed
      with Cons.IH [OF _ inv(1) 2] show ?thesis by (auto simp: out)
    qed
  qed
  then show ?thesis by (simp add: sk_refuses_def)
qed

theorem Socket_refused_peer_stays_out_witness:
  "\<exists>s s' :: nat socket. \<exists>d out. ar_sender d = 5 \<and> Socket_readPendingDatagrams 0 [d] s = Some ([], out, s')
    \<and> map_of (sk_connectionsHash s') 5 = None \<and> (\<forall>wire. SkDatagram wire 5 \<notin> set out)"
proof -
  let ?s = "(Socket_new (\<lambda>_. Some (\<lambda>d. 8)))\<lparr>sk_packetFilterOperator := None, sk_packetHandler := True,
    sk_messageHandler := True, sk_messageFailureHandler := True,
    sk_connectionCreationFilterOperator := Some (\<lambda>a. a \<noteq> (5 :: nat))\<rparr>"
  let ?d = "\<lparr>ar_size = 8, ar_buffer = ctl_wire Handshake 10, ar_sizeRead = 8, ar_sender = (5 :: nat), ar_clock = 3,
    ar_receiveTime = 4, ar_now = 5, ar_random = 6\<rparr>"
  obtain q :: "nat control_packet" where q: "ControlPacket_fromReceivedPacket (ctl_wire Handshake 10) 8 5 = Some q"
    using carries_wire [of 10 Handshake "5 :: nat"] by (auto simp: seq_wf_def seq_consts)
  have w: "read32 (ctl_wire Handshake 10) 0 = Some (ctl_word Handshake)"
    by (simp add: ctl_wire_def read32_def mem_read_def)
  have b: "ctl_word Handshake AND CONTROL_BIT_MASK \<noteq> 0"
    by (simp add: ctl_word_def Constants_static_asserts push_bit_eq_mult)
  have "\<exists>out s'. Socket_readPendingDatagrams 0 [?d] ?s = Some ([], out, s')"
    by (simp add: Socket_readDatagram_def w b Socket_readControl_def q Socket_findOrCreateConnection_def Let_def
        Socket_new_def MAX_PROCESS_TIME_def)
  then obtain out s' where r: "Socket_readPendingDatagrams 0 [?d] ?s = Some ([], out, s')" by blast
  have "map_of (sk_connectionsHash s') 5 = None \<and> (\<forall>wire. SkDatagram wire 5 \<notin> set out)"
    using Socket_refused_peer_stays_out [OF sk_reachable.configure [OF sk_reachable.start] _ _ _ r, of "\<lambda>a. a \<noteq> 5" 5]
    by (simp add: Socket_new_def)
  with r show ?thesis
    by (intro exI [of _ ?s] exI [of _ s'] exI [of _ ?d] exI [of _ out]) simp
qed

text \<open>
  C7. A peer that changes its address keeps its connection: under the new address the socket has the same
  connection with only its destination changed, the old address is forgotten, and the receiver goes on where
  it was. Numbers that had arrived before the move are still duplicates, and acknowledgements go to the new
  address. The numbering of unreliable packets moves with it, and other peers are not touched.
\<close>

theorem Socket_move_keeps_stream:
  assumes "sk_reachable s" and c: "map_of (sk_connectionsHash s) a = Some c" and r: "cn_recv W base R c" and "a \<noteq> b"
    and m: "Socket_handleRemoteAddressChange a b s = (out, s')"
  shows "\<exists>c'. map_of (sk_connectionsHash s') = (map_of (sk_connectionsHash s))(a := None, b \<mapsto> c')
    \<and> c' = c\<lparr>cn_destination := b, cn_sendQueue := map_option (SendQueue_updateDestinationAddress b) (cn_sendQueue c)\<rparr>
    \<and> map_of (sk_unreliableSequenceNumbers s') = (case map_of (sk_unreliableSequenceNumbers s) a of
          None \<Rightarrow> map_of (sk_unreliableSequenceNumbers s)
        | Some n \<Rightarrow> (map_of (sk_unreliableSequenceNumbers s))(a := None, b \<mapsto> n))
    \<and> (\<forall>n size payload. win W n \<and> n < snd W \<longrightarrow>
        (\<exists>c'' wire. Connection_processReceivedSequenceNumber n size payload c'
            = Some (base < n \<and> n \<notin> R, c'', [CnDatagram wire b])))"
proof -
  have d: "cn_destination c = a"
    using sk_inv_lookup [OF sk_reachable_inv [OF assms(1)] c] by (simp add: cn_ok_def)
  have h: "cn_hasReceivedHandshake c" using r by (simp add: cn_recv_def)
  let ?c = "c\<lparr>cn_destination := b, cn_sendQueue := map_option (SendQueue_updateDestinationAddress b) (cn_sendQueue c)\<rparr>"
  have r': "cn_recv W base R ?c" using r by (simp add: cn_recv_def)
  have "map_of (sk_connectionsHash s') = (map_of (sk_connectionsHash s))(a := None, b \<mapsto> ?c)"
    and "map_of (sk_unreliableSequenceNumbers s') = (case map_of (sk_unreliableSequenceNumbers s) a of
          None \<Rightarrow> map_of (sk_unreliableSequenceNumbers s)
        | Some n \<Rightarrow> (map_of (sk_unreliableSequenceNumbers s))(a := None, b \<mapsto> n))"
    using m d \<open>a \<noteq> b\<close>
    by (auto simp: Socket_handleRemoteAddressChange_def c h Connection_setDestinationAddress_def Let_def
        AList.update_conv' AList.delete_conv' split: option.splits)
  moreover have "\<exists>c'' wire. Connection_processReceivedSequenceNumber n size payload ?c
            = Some (base < n \<and> n \<notin> R, c'', [CnDatagram wire b])" if "win W n \<and> n < snd W" for n size payload
    using processReceived_laws [OF r', of n size payload] that by auto
  ultimately show ?thesis by blast
qed

text \<open>For the witnesses: a socket with one peer whose handshake has arrived.\<close>

lemma sk_example:
  "\<exists>(s :: nat socket) c. sk_reachable s \<and> map_of (sk_connectionsHash s) 7 = Some c \<and> cn_recv (0, 100) 9 {} c
    \<and> sk_unfilteredHandlers s = [] \<and> sk_packetFilterOperator s = None \<and> sk_packetHandler s
    \<and> sk_network s = (\<lambda>_. Some (\<lambda>d. 8))"
proof -
  let ?s = "(Socket_new (\<lambda>_. Some (\<lambda>d. 8)) :: nat socket)\<lparr>sk_packetFilterOperator := None, sk_packetHandler := True,
    sk_messageHandler := True, sk_messageFailureHandler := True, sk_connectionCreationFilterOperator := None\<rparr>"
  let ?d = "\<lparr>ar_size = 8, ar_buffer = ctl_wire Handshake 10, ar_sizeRead = 8, ar_sender = (7 :: nat), ar_clock = 3,
    ar_receiveTime = 4, ar_now = 5, ar_random = 6\<rparr>"
  have s: "sk_reachable ?s" by (rule sk_reachable.configure [OF sk_reachable.start])
  obtain q :: "nat control_packet" where q: "ControlPacket_fromReceivedPacket (ctl_wire Handshake 10) 8 7 = Some q"
    "carries q Handshake 10"
    using carries_wire [of 10 Handshake "7 :: nat"] by (auto simp: seq_wf_def seq_consts)
  have q4: "carries (q\<lparr>bp_receiveTime := 4\<rparr>) Handshake 10"
    using q(2) by (auto simp: carries_def readSequenceNumber_def QIODevice_read_def BasePacket_readData_def
        BasePacket_bytesLeftToRead_def Let_def split: if_splits bind_splits)
  obtain c0 :: "nat connection" where c0: "Connection_new 7 6 5 = Some c0" "ctl_ok ACK (cn_ackPacket c0)"
    "ctl_ok HandshakeACK (cn_handshakeACK c0)" "\<not> cn_hasReceivedHandshake c0"
    using Connection_new_laws [where 'a = nat, of 7 6 5] by blast
  let ?c = "Connection_setMaxBandwidth (-1) c0"
  have "ctl_ok ACK (cn_ackPacket ?c)" "ctl_ok HandshakeACK (cn_handshakeACK ?c)" "\<not> cn_hasReceivedHandshake ?c"
    using c0 by (simp_all add: Connection_setMaxBandwidth_def)
  moreover have "win_ok (0, 100)" "win (0, 100) (10 - 1)" "(10 :: int) < snd (0 :: int, 100)"
    by (simp_all add: win_ok_def win_def seq_consts)
  ultimately obtain c' out where c': "Connection_processControl 5 (q\<lparr>bp_receiveTime := 4\<rparr>) ?c = Some (c', out)"
    "cn_recv (0, 100) (10 - 1) {} c'"
    using cn_recv_start [of ?c "q\<lparr>bp_receiveTime := 4\<rparr>" 10 "(0, 100)" 5] q4 by blast
  have w: "read32 (ctl_wire Handshake 10) 0 = Some (ctl_word Handshake)"
    by (simp add: ctl_wire_def read32_def mem_read_def)
  have b: "ctl_word Handshake AND CONTROL_BIT_MASK \<noteq> 0"
    by (simp add: ctl_word_def Constants_static_asserts push_bit_eq_mult)
  have e: "\<exists>out s'. Socket_readDatagram ?d ?s = Some (out, s') \<and> map_of (sk_connectionsHash s') 7 = Some c'
    \<and> sk_unfilteredHandlers s' = [] \<and> sk_packetFilterOperator s' = None \<and> sk_packetHandler s'
    \<and> sk_network s' = (\<lambda>_. Some (\<lambda>d. 8))"
    by (simp add: Socket_readDatagram_def w b Socket_readControl_def q(1) Socket_findOrCreateConnection_def Let_def
        c0(1) c'(1) Socket_new_def Socket_setConnection_def)
  then obtain out s' where "Socket_readDatagram ?d ?s = Some (out, s')" "map_of (sk_connectionsHash s') 7 = Some c'"
    "sk_unfilteredHandlers s' = []" "sk_packetFilterOperator s' = None" "sk_packetHandler s'"
    "sk_network s' = (\<lambda>_. Some (\<lambda>d. 8))" by blast
  with sk_reachable.read [OF s] c'(2) show ?thesis
    by (intro exI [of _ s'] exI [of _ c']) simp
qed

theorem Socket_move_keeps_stream_witness:
  "\<exists>(s :: nat socket) out s'. Socket_handleRemoteAddressChange 7 8 s = (out, s')
    \<and> (\<exists>c. map_of (sk_connectionsHash s) 7 = Some c) \<and> map_of (sk_connectionsHash s') 7 = None
    \<and> (\<exists>c'. map_of (sk_connectionsHash s') 8 = Some c' \<and> cn_destination c' = 8)"
proof -
  obtain s :: "nat socket" and c where s: "sk_reachable s" "map_of (sk_connectionsHash s) 7 = Some c" "cn_recv (0, 100) 9 {} c"
    using sk_example by blast
  obtain out s' where m: "Socket_handleRemoteAddressChange 7 8 s = (out, s')" by (rule prod.exhaust)
  from Socket_move_keeps_stream [OF s _ m] show ?thesis
    using m s(2) by (intro exI [of _ s] exI [of _ out] exI [of _ s']) auto
qed

section \<open>The numbers of unreliable packets\<close>

text \<open>The number the receiver of a datagram reads in it, and the last one used for a peer.\<close>

definition wire_number :: "byte list \<Rightarrow> seqnum option" where
  "wire_number wire = map_option (\<lambda>w. SequenceNumber_of_uint (w AND SEQUENCE_NUMBER_MASK)) (read32 wire 0)"

definition sk_number :: "'addr socket \<Rightarrow> 'addr \<Rightarrow> seqnum" where
  "sk_number s a = (case map_of (sk_unreliableSequenceNumbers s) a of None \<Rightarrow> SequenceNumber_default | Some n \<Rightarrow> n)"

lemma seq_wf_inc: "seq_wf n \<Longrightarrow> seq_wf (SequenceNumber_inc n)"
  by (auto simp: SequenceNumber_inc_eq seq_wf_def seq_consts)

lemma wire_number_packet:
  assumes "pkt_inv p" and "BasePacket_wire p = Some wire"
  shows "wire_number wire = Some (pkt_sequenceNumber p)"
proof -
  note d = pkt_inv_data [OF assms(1)]
  have "Packet_header_in p (take (nat (BasePacket_getDataSize p)) (bp_packet p))"
    using Packet_header_in_take [OF _ d(1,2)] assms(1) by (simp add: pkt_inv_def)
  then have "mem_read wire 0 4 = Some (le32 (Packet_headerWord p))"
    using assms(2) d(3) by (simp add: Packet_header_in_def)
  moreover have "seq_wf (pkt_sequenceNumber p)"
    using assms(1) by (simp add: pkt_inv_def pkt_wf_def)
  ultimately show ?thesis
    using Packet_headerWord_fields(4) by (simp add: wire_number_def read32_def)
qed

lemma findOrCreate_total: "\<exists>conn s'. Socket_findOrCreateConnection random now a filtered s = Some (conn, s')"
proof -
  obtain c where "Connection_new a random now = Some c"
    using Connection_new_laws [of a random now] by blast
  then show ?thesis
    by (cases "map_of (sk_connectionsHash s) a")
      (simp_all add: Socket_findOrCreateConnection_def Let_def split: option.splits)
qed

lemma writePacket_laws:
  assumes p: "pkt_inv p" and n: "seq_wf (sk_number s a)" and b: "sk_network s a \<noteq> None"
  shows "\<exists>bytes wire s'. Socket_writePacket random now p a s = Some (bytes, [SkDatagram wire a], s')
    \<and> wire_number wire = Some (SequenceNumber_inc (sk_number s a)) \<and> sk_network s' = sk_network s
    \<and> sk_number s' = (sk_number s)(a := SequenceNumber_inc (sk_number s a))"
proof -
  let ?n = "SequenceNumber_inc (sk_number s a)"
  let ?s1 = "s\<lparr>sk_unreliableSequenceNumbers := AList.update a ?n (sk_unreliableSequenceNumbers s)\<rparr>"
  obtain conn s2 where f: "Socket_findOrCreateConnection random now a True ?s1 = Some (conn, s2)"
    using findOrCreate_total [of random now a True ?s1] by blast
  obtain hash where s2: "s2 = ?s1\<lparr>sk_connectionsHash := hash\<rparr>"
    using findOrCreate_laws(4) [OF f] by blast
  obtain s3 where s3: "(case conn of None \<Rightarrow> s2
      | Some c \<Rightarrow> Socket_setConnection a
          (Connection_recordSentUnreliablePackets (BasePacket_getWireSize p) (bp_payloadSize p) c) s2) = s3" by blast
  have k: "sk_network s3 = sk_network s" "sk_unreliableSequenceNumbers s3 = sk_unreliableSequenceNumbers ?s1"
    by (auto simp flip: s3 simp: s2 Socket_setConnection_def split: option.splits)
  obtain p' where p': "Packet_writeSequenceNumber ?n p = Some p'" "pkt_inv p'"
    using Packet_writeSequenceNumber_inv [OF p seq_wf_inc [OF n]] by blast
  obtain wire where w: "BasePacket_wire p' = Some wire" using pkt_inv_data(3) [OF p'(2)] by blast
  have "pkt_sequenceNumber p' = ?n"
    using p'(1) by (auto simp: Packet_writeSequenceNumber_def dest!: Packet_writeHeader_cases)
  then have "wire_number wire = Some ?n" using wire_number_packet [OF p'(2) w] by simp
  moreover have "sk_number s3 = (sk_number s)(a := ?n)"
    by (auto simp: fun_eq_iff sk_number_def k(2) AList.update_conv')
  moreover obtain send where "sk_network s3 a = Some send" using b k(1) by auto
  moreover from this have "Socket_writePacket random now p a s = Some (send wire, [SkDatagram wire a], s3)"
    unfolding Socket_writePacket_def Let_def sk_number_def [symmetric] f
    by (simp add: s3 p'(1) w Socket_writeDatagram_def)
  ultimately show ?thesis using k(1) by auto
qed

primrec Socket_writeAll ::
  "int \<Rightarrow> int \<Rightarrow> ('addr packet \<times> 'addr) list \<Rightarrow> 'addr socket \<Rightarrow> ('addr sk_event list \<times> 'addr socket) option" where
  "Socket_writeAll random now [] s = Some ([], s)"
| "Socket_writeAll random now (w # ws) s =
     do { (bytes, out, s1) \<leftarrow> Socket_writePacket random now (fst w) (snd w) s;
          (out', s2) \<leftarrow> Socket_writeAll random now ws s1;
          Some (out @ out', s2) }"

text \<open>
  Unreliable packets are numbered per peer: whatever the order in which packets to several peers are
  written, the datagram of the \<open>k\<close>-th packet written to a peer carries the \<open>k\<close>-th successor of the number
  last used for that peer, so that a receiver sees every number once and in order.
\<close>

theorem Socket_numbers_per_peer:
  assumes "\<forall>w \<in> set ws. pkt_inv (fst w)" and "\<forall>a. seq_wf (sk_number s a)" and "\<forall>a. sk_network s a \<noteq> None"
  shows "\<exists>out s'. Socket_writeAll random now ws s = Some (out, s') \<and> length out = length ws
    \<and> (\<forall>i < length ws. \<exists>wire. out ! i = SkDatagram wire (snd (ws ! i))
        \<and> wire_number wire = Some ((SequenceNumber_inc ^^ Suc (length (filter (\<lambda>w. snd w = snd (ws ! i)) (take i ws))))
             (sk_number s (snd (ws ! i)))))"
  using assms
proof (induction ws arbitrary: s)
  case Nil
  then show ?case by simp
next
  case (Cons w ws)
  obtain bytes wire s1 where 1: "Socket_writePacket random now (fst w) (snd w) s = Some (bytes, [SkDatagram wire (snd w)], s1)"
    "wire_number wire = Some (SequenceNumber_inc (sk_number s (snd w)))" "sk_network s1 = sk_network s"
    "sk_number s1 = (sk_number s)(snd w := SequenceNumber_inc (sk_number s (snd w)))"
    using writePacket_laws [of "fst w" s "snd w" random now] Cons.prems by auto
  have "\<forall>a. seq_wf (sk_number s1 a)" using Cons.prems(2) by (simp add: 1(4) seq_wf_inc)
  then obtain out s' where 2: "Socket_writeAll random now ws s1 = Some (out, s')" "length out = length ws"
    "\<forall>i < length ws. \<exists>wire. out ! i = SkDatagram wire (snd (ws ! i))
        \<and> wire_number wire = Some ((SequenceNumber_inc ^^ Suc (length (filter (\<lambda>w. snd w = snd (ws ! i)) (take i ws))))
             (sk_number s1 (snd (ws ! i))))"
    using Cons.IH [of s1] Cons.prems(1,3) 1(3) by auto
  have "\<exists>wire'. (SkDatagram wire (snd w) # out) ! i = SkDatagram wire' (snd ((w # ws) ! i))
        \<and> wire_number wire' = Some ((SequenceNumber_inc ^^ Suc (length (filter (\<lambda>x. snd x = snd ((w # ws) ! i)) (take i (w # ws)))))
             (sk_number s (snd ((w # ws) ! i))))" if i: "i < length (w # ws)" for i
  proof (cases i)
    case 0
    then show ?thesis using 1(2) by simp
  next
    case (Suc j)
    then have "j < length ws" using i by simp
    then obtain wire' where "out ! j = SkDatagram wire' (snd (ws ! j))"
        "wire_number wire' = Some ((SequenceNumber_inc ^^ Suc (length (filter (\<lambda>w. snd w = snd (ws ! j)) (take j ws))))
             (sk_number s1 (snd (ws ! j))))"
      using 2(3) by blast
    then show ?thesis
      by (cases "snd w = snd (ws ! j)") (auto simp: Suc 1(4) funpow_swap1)
  qed
  with 1(1) 2(1,2) show ?case by simp
qed

theorem Socket_numbers_per_peer_witness:
  "\<exists>(p :: nat packet) out s'. Socket_writeAll 5 0 [(p, 7), (p, 8), (p, 7)] (Socket_new (\<lambda>_. Some (\<lambda>d. 14))) = Some (out, s')
    \<and> (\<exists>wire. out ! 2 = SkDatagram wire 7 \<and> wire_number wire = Some 2)
    \<and> (\<exists>wire. out ! 1 = SkDatagram wire 8 \<and> wire_number wire = Some 1)"
proof -
  obtain p :: "nat packet" where p: "pkt_inv p"
    using Packet_writeHeader_inv [of "(BasePacket_adjust 4 False (Packet_default_fields False False (BasePacket_new 14)) :: nat packet)"]
    by (auto simp: Packet_default_fields_def BasePacket_new_def base_packet.defs packet.defs bp_inv_def
        Packet_localHeaderSize_def pkt_wf_def seq_wf_def seq_consts Constants_static_asserts BasePacket_adjust_def)
  have n: "sk_number (Socket_new (\<lambda>_. Some (\<lambda>d. 14)) :: nat socket) a = 0" for a
    by (simp add: sk_number_def Socket_new_def SequenceNumber_default_def)
  have i: "SequenceNumber_inc 0 = 1" "SequenceNumber_inc 1 = 2"
    by (simp_all add: SequenceNumber_inc_eq seq_wf_def seq_consts)
  let ?ws = "[(p, 7 :: nat), (p, 8), (p, 7)]"
  have h: "\<forall>w \<in> set ?ws. pkt_inv (fst w)"
    "\<forall>a. seq_wf (sk_number (Socket_new (\<lambda>_. Some (\<lambda>d. 14)) :: nat socket) a)"
    "\<forall>a. sk_network (Socket_new (\<lambda>_. Some (\<lambda>d. 14)) :: nat socket) a \<noteq> None"
    using p by (simp_all add: n seq_wf_def seq_consts) (simp add: Socket_new_def)
  from Socket_numbers_per_peer [OF h, of 5 0] obtain out s' where
    r: "Socket_writeAll 5 0 ?ws (Socket_new (\<lambda>_. Some (\<lambda>d. 14))) = Some (out, s')"
    "\<forall>i < length ?ws. \<exists>wire. out ! i = SkDatagram wire (snd (?ws ! i))
        \<and> wire_number wire = Some ((SequenceNumber_inc ^^ Suc (length (filter (\<lambda>w. snd w = snd (?ws ! i))
             (take i ?ws)))) 0)"
    unfolding n by blast
  from r(2) [rule_format, of 2] r(2) [rule_format, of 1] r(1) show ?thesis
    by (intro exI [of _ p] exI [of _ out] exI [of _ s']) (simp add: i numeral_2_eq_2)
qed

section \<open>Every reliable packet once\<close>

text \<open>
  A reliable packet as it arrives: a datagram from a peer without an unfiltered handler, parsed to a
  data packet outside any message that passes the packet filter, its number inside the window of its sender.
\<close>

definition reliable_arrival :: "('addr \<Rightarrow> int \<times> int) \<Rightarrow> 'addr socket \<Rightarrow> 'addr arrival \<Rightarrow> 'addr packet \<Rightarrow> bool" where
  "reliable_arrival W s d p \<longleftrightarrow> 0 < ar_sizeRead d \<and> map_of (sk_unfilteredHandlers s) (ar_sender d) = None
     \<and> (\<exists>w. read32 (ar_buffer d) 0 = Some w \<and> w AND CONTROL_BIT_MASK = 0)
     \<and> map_option (\<lambda>p. p\<lparr>bp_receiveTime := ar_receiveTime d\<rparr>)
          (Packet_fromReceivedPacket (ar_buffer d) (ar_size d) (ar_sender d)) = Some p
     \<and> pkt_isReliable p \<and> \<not> pkt_isPartOfMessage p
     \<and> (case sk_packetFilterOperator s of None \<Rightarrow> True | Some f \<Rightarrow> f p)
     \<and> win (W (ar_sender d)) (pkt_sequenceNumber p) \<and> pkt_sequenceNumber p < snd (W (ar_sender d))"

lemma read_reliable:
  assumes r: "reliable_arrival W s d p" and c: "map_of (sk_connectionsHash s) (ar_sender d) = Some c"
    and i: "cn_recv (W (ar_sender d)) base R c" and h: "sk_packetHandler s"
  shows "\<exists>c' s' acks. Socket_readDatagram d s
      = Some (acks @ (if base < pkt_sequenceNumber p \<and> pkt_sequenceNumber p \<notin> R then [SkPacket p] else []), s')
    \<and> map_of (sk_connectionsHash s') = (map_of (sk_connectionsHash s))(ar_sender d \<mapsto> c')
    \<and> cn_recv (W (ar_sender d)) base (if base < pkt_sequenceNumber p then insert (pkt_sequenceNumber p) R else R) c'
    \<and> (\<forall>q. SkPacket q \<notin> set acks)"
proof -
  obtain w where w: "read32 (ar_buffer d) 0 = Some w" "w AND CONTROL_BIT_MASK = 0"
    using r by (auto simp: reliable_arrival_def)
  obtain p0 where p: "Packet_fromReceivedPacket (ar_buffer d) (ar_size d) (ar_sender d) = Some p0"
      "p0\<lparr>bp_receiveTime := ar_receiveTime d\<rparr> = p"
    using r by (auto simp: reliable_arrival_def)
  obtain s1 where s1: "s\<lparr>sk_lastPacketSizeRead := ar_sizeRead d, sk_lastPacketSockAddr := Some (ar_sender d),
      sk_lastReceivedSequenceNumber := pkt_sequenceNumber p\<rparr> = s1" by blast
  have s1f: "map_of (sk_connectionsHash s1) (ar_sender d) = Some c" "sk_packetFilterOperator s1 = sk_packetFilterOperator s"
    "sk_packetHandler s1" "sk_connectionsHash s1 = sk_connectionsHash s"
    using c h by (simp_all flip: s1)
  have f: "Socket_findOrCreateConnection (ar_random d) (ar_now d) (ar_sender d) True s1 = Some (Some c, s1)"
    by (simp add: Socket_findOrCreateConnection_def s1f(1))
  have win: "win (W (ar_sender d)) (pkt_sequenceNumber p)" "pkt_sequenceNumber p < snd (W (ar_sender d))"
    using r by (auto simp: reliable_arrival_def)
  obtain c' where c': "Connection_processReceivedSequenceNumber (pkt_sequenceNumber p) (BasePacket_getDataSize p)
        (bp_payloadSize p) c = Some (base < pkt_sequenceNumber p \<and> pkt_sequenceNumber p \<notin> R, c',
          [CnDatagram (ctl_wire ACK (Connection_nextACK c')) (cn_destination c)])"
      "cn_recv (W (ar_sender d)) base (if base < pkt_sequenceNumber p then insert (pkt_sequenceNumber p) R else R) c'"
    using processReceived_laws [OF i win] by blast
  let ?acks = "Socket_routeAll s1 c' [CnDatagram (ctl_wire ACK (Connection_nextACK c')) (cn_destination c)]"
  let ?s' = "Socket_setConnection (ar_sender d) c' s1"
  have a: "Socket_acceptPacket d p s1 = Some (base < pkt_sequenceNumber p \<and> pkt_sequenceNumber p \<notin> R, ?acks, ?s')"
    using r by (simp add: Socket_acceptPacket_def f c'(1) reliable_arrival_def)
  have flt: "case sk_packetFilterOperator s of None \<Rightarrow> True | Some f \<Rightarrow> f (p0\<lparr>bp_receiveTime := ar_receiveTime d\<rparr>)"
    using r unfolding reliable_arrival_def p(2) by blast
  have k: "sk_packetHandler ?s'" using s1f(3) by (simp add: Socket_setConnection_def)
  have "Socket_readDatagram d s
      = Some (?acks @ (if base < pkt_sequenceNumber p \<and> pkt_sequenceNumber p \<notin> R then [SkPacket p] else []), ?s')"
    using r k by (simp add: Socket_readDatagram_def w Socket_readData_def p Let_def s1 s1f(2) a flt reliable_arrival_def)
  moreover have "map_of (sk_connectionsHash ?s') = (map_of (sk_connectionsHash s))(ar_sender d \<mapsto> c')"
    by (simp add: Socket_setConnection_def AList.update_conv' s1f(4))
  moreover have "SkPacket q \<notin> set ?acks" for q
    by (simp add: Socket_routeAll_def del: Socket_route.simps)
  ultimately show ?thesis using c'(2) by blast
qed

text \<open>The packets handed to the packet handler, and what identifies a packet: its sender and number.\<close>

fun sk_handed :: "'addr sk_event list \<Rightarrow> 'addr packet list" where
  "sk_handed [] = []"
| "sk_handed (SkPacket p # es) = p # sk_handed es"
| "sk_handed (_ # es) = sk_handed es"

lemma sk_handed_append [simp]: "sk_handed (es @ es') = sk_handed es @ sk_handed es'"
  by (induction es rule: sk_handed.induct) simp_all

lemma sk_handed_none: "(\<And>p. SkPacket p \<notin> set es) \<Longrightarrow> sk_handed es = []"
  by (induction es rule: sk_handed.induct) auto

definition pkt_key :: "'addr packet \<Rightarrow> 'addr \<times> seqnum" where
  "pkt_key p = (the (bp_senderSockAddr p), pkt_sequenceNumber p)"

lemma reliable_arrival_key: "reliable_arrival W s d p \<Longrightarrow> pkt_key p = (ar_sender d, pkt_sequenceNumber p)"
  using fromReceived_sender [of "ar_buffer d" "ar_size d" "ar_sender d"] by (auto simp: reliable_arrival_def pkt_key_def)

lemma reliable_arrival_cong:
  "sk_frame a s s' \<Longrightarrow> reliable_arrival W s' d p \<longleftrightarrow> reliable_arrival W s d p"
  by (simp add: reliable_arrival_def sk_frame_def)

text \<open>The keys that count as new, given what had arrived from each peer.\<close>

definition fresh_keys :: "('addr \<Rightarrow> int) \<Rightarrow> ('addr \<Rightarrow> int set) \<Rightarrow> ('addr \<times> seqnum) set \<Rightarrow> ('addr \<times> seqnum) set" where
  "fresh_keys base R K = {k \<in> K. base (fst k) < snd k \<and> snd k \<notin> R (fst k)}"

lemma distinct_singleton: "distinct xs \<Longrightarrow> set xs = {x} \<Longrightarrow> xs = [x]"
  by (cases xs) (auto simp: subset_singleton_iff)

lemma read_stream:
  assumes "list_all2 (reliable_arrival W s) ds ps"
    and "\<forall>d \<in> set ds. \<exists>c. map_of (sk_connectionsHash s) (ar_sender d) = Some c \<and> cn_recv (W (ar_sender d)) (base (ar_sender d)) (R (ar_sender d)) c"
    and "sk_packetHandler s" and "\<forall>d \<in> set ds. ar_size d \<noteq> -1 \<and> ar_clock d \<le> start + MAX_PROCESS_TIME"
  shows "\<exists>out s'. Socket_readPendingDatagrams start ds s = Some ([], out, s')
    \<and> subseq (sk_handed out) ps \<and> distinct (map pkt_key (sk_handed out))
    \<and> set (map pkt_key (sk_handed out)) = fresh_keys base R (pkt_key ` set ps)"
  using assms
proof (induction ds arbitrary: ps s R)
  case Nil
  then show ?case by (auto simp: fresh_keys_def)
next
  case (Cons d ds)
  then obtain p ps' where ps: "ps = p # ps'" and ra: "reliable_arrival W s d p"
    and ras: "list_all2 (reliable_arrival W s) ds ps'" by (auto simp: list_all2_Cons1)
  let ?a = "ar_sender d" and ?n = "pkt_sequenceNumber p"
  let ?R' = "R(?a := if base ?a < ?n then insert ?n (R ?a) else R ?a)"
  obtain c where c: "map_of (sk_connectionsHash s) ?a = Some c" "cn_recv (W ?a) (base ?a) (R ?a) c"
    using Cons.prems(2) by auto
  from read_reliable [OF ra c Cons.prems(3)] obtain c' s1 acks where
    1: "Socket_readDatagram d s = Some (acks @ (if base ?a < ?n \<and> ?n \<notin> R ?a then [SkPacket p] else []), s1)"
    and h: "map_of (sk_connectionsHash s1) = (map_of (sk_connectionsHash s))(?a \<mapsto> c')"
    and c': "cn_recv (W ?a) (base ?a) (if base ?a < ?n then insert ?n (R ?a) else R ?a) c'"
    and ak: "\<forall>q. SkPacket q \<notin> set acks" by blast
  note fr = sk_frame_readDatagram(1) [OF 1]
  have A: "list_all2 (reliable_arrival W s1) ds ps'"
    using ras unfolding reliable_arrival_cong [OF fr] .
  have B: "\<forall>e \<in> set ds. \<exists>c. map_of (sk_connectionsHash s1) (ar_sender e) = Some c
      \<and> cn_recv (W (ar_sender e)) (base (ar_sender e)) (?R' (ar_sender e)) c"
    using Cons.prems(2) c' by (auto simp: h)
  have C: "sk_packetHandler s1" using Cons.prems(3) fr by (simp add: sk_frame_def)
  have D: "\<forall>d \<in> set ds. ar_size d \<noteq> -1 \<and> ar_clock d \<le> start + MAX_PROCESS_TIME"
    using Cons.prems(4) by simp
  obtain out s' where 2: "Socket_readPendingDatagrams start ds s1 = Some ([], out, s')"
    "subseq (sk_handed out) ps'" "distinct (map pkt_key (sk_handed out))"
    "set (map pkt_key (sk_handed out)) = fresh_keys base ?R' (pkt_key ` set ps')"
    using Cons.IH [OF A B C D] by blast
  obtain F where F: "fresh_keys base ?R' (pkt_key ` set ps') = F" by blast
  note 2 = 2(1-3) 2(4) [unfolded F]
  let ?o = "(acks @ (if base ?a < ?n \<and> ?n \<notin> R ?a then [SkPacket p] else [])) @ out"
  have r: "Socket_readPendingDatagrams start (d # ds) s = Some ([], ?o, s')"
    using Cons.prems(4) 1 2(1) by auto
  have ho: "sk_handed ?o = (if base ?a < ?n \<and> ?n \<notin> R ?a then p # sk_handed out else sk_handed out)"
    using sk_handed_none [of acks] ak by simp
  note key = reliable_arrival_key [OF ra]
  have new: "pkt_key p \<notin> set (map pkt_key (sk_handed out))" if "base ?a < ?n"
    unfolding 2(4) using that by (simp add: key fresh_keys_def flip: F)
  have fk: "fresh_keys base R (pkt_key ` set ps)
    = (if base ?a < ?n \<and> ?n \<notin> R ?a then insert (pkt_key p) F else F)"
    by (auto simp: fresh_keys_def ps key simp flip: F) (metis fst_conv snd_conv)+
  obtain h where h: "sk_handed ?o = h" by blast
  have "subseq h ps \<and> distinct (map pkt_key h) \<and> set (map pkt_key h) = fresh_keys base R (pkt_key ` set ps)"
  proof (cases "base ?a < ?n \<and> ?n \<notin> R ?a")
    case True
    then show ?thesis unfolding fk unfolding ho [unfolded h] ps if_P [OF True] using 2(2-4) new by simp
  next
    case False
    then show ?thesis unfolding fk unfolding ho [unfolded h] ps if_not_P [OF False] using 2(2-4) by (simp add: list_emb_Cons)
  qed
  with r h show ?case by blast
qed

text \<open>
  C4. Every reliable packet that is not part of a message reaches the packet handler exactly once. Take a batch of such
  packets that pass the packet filter, read within the time one batch may take, from any number of peers without an
  unfiltered handler, each with a connection whose handshake is completed and with numbers in a window of its own, of less than
  half the number space and not crossing zero. In any order and with any repetition, reading the batch hands up one packet for each
  sender and number that had not arrived from that sender before (and none at or below the number its handshake started
  from), in the order of arrival; every datagram is consumed.
\<close>

theorem Socket_hands_up_once:
  assumes "list_all2 (reliable_arrival W s) ds ps"
    and "\<forall>d \<in> set ds. \<exists>c. map_of (sk_connectionsHash s) (ar_sender d) = Some c \<and> cn_recv (W (ar_sender d)) (base (ar_sender d)) (R (ar_sender d)) c"
    and "sk_packetHandler s" and "\<forall>d \<in> set ds. ar_size d \<noteq> -1 \<and> ar_clock d \<le> start + MAX_PROCESS_TIME"
  shows "\<exists>out s'. Socket_readPendingDatagrams start ds s = Some ([], out, s')
    \<and> subseq (sk_handed out) ps \<and> distinct (map pkt_key (sk_handed out))
    \<and> set (map pkt_key (sk_handed out))
      = {k \<in> pkt_key ` set ps. base (fst k) < snd k \<and> snd k \<notin> R (fst k)}"
  using read_stream [OF assms] unfolding fresh_keys_def .

theorem Socket_hands_up_once_witness:
  "\<exists>(s :: nat socket) d out s'. Socket_readPendingDatagrams 0 [d, d, d] s = Some ([], out, s')
    \<and> map pkt_key (sk_handed out) = [(7, 12)]"
proof -
  obtain s :: "nat socket" and c where s: "map_of (sk_connectionsHash s) 7 = Some c" "cn_recv (0, 100) 9 {} c"
    "sk_unfilteredHandlers s = []" "sk_packetFilterOperator s = None" "sk_packetHandler s"
    using sk_example by blast
  let ?d = "\<lparr>ar_size = 5, ar_buffer = [12, 0, 0, 0x40, 99], ar_sizeRead = 5, ar_sender = (7 :: nat), ar_clock = 3,
    ar_receiveTime = 4, ar_now = 5, ar_random = 6\<rparr>"
  have w: "read32 [12, 0, 0, 0x40, 99] 0 = Some 0x4000000C"
    by (simp add: read32_def mem_read_def un_le32_def word_rcat_def)
  have "\<exists>p. reliable_arrival (\<lambda>_. (0, 100)) s ?d p \<and> pkt_sequenceNumber p = 12"
    by (simp add: reliable_arrival_def s(3,4) w Constants_static_asserts Packet_fromReceivedPacket_def Packet_of_data_def
        Packet_readHeader_def Packet_default_fields_def BasePacket_of_data_def base_packet.defs packet.defs
        Let_def BasePacket_adjust_def Packet_localHeaderSize_def ObfuscationLevel_of_def header_offsets
        SequenceNumber_of_uint_def QIODevice_open_def win_def seq_consts)
  then obtain p where p: "reliable_arrival (\<lambda>_. (0, 100)) s ?d p" "pkt_sequenceNumber p = 12" by blast
  obtain out s' where o: "Socket_readPendingDatagrams 0 [?d, ?d, ?d] s = Some ([], out, s')"
    "subseq (sk_handed out) [p, p, p]" "distinct (map pkt_key (sk_handed out))"
    "set (map pkt_key (sk_handed out)) = {k \<in> pkt_key ` set [p, p, p]. 9 < snd k \<and> snd k \<notin> {}}"
    using Socket_hands_up_once [of "\<lambda>_. (0, 100)" s "[?d, ?d, ?d]" "[p, p, p]" "\<lambda>_. 9" "\<lambda>_. {}" 0] p(1) s
    by (auto simp: MAX_PROCESS_TIME_def)
  have "pkt_key p = (7, 12)" using reliable_arrival_key [OF p(1)] p(2) by simp
  then have "set (map pkt_key (sk_handed out)) = {(7, 12)}" unfolding o(4) by auto
  then have "map pkt_key (sk_handed out) = [(7, 12)]"
    by (rule distinct_singleton [OF o(3)])
  with o(1) show ?thesis
    by (intro exI [of _ s] exI [of _ ?d] exI [of _ out] exI [of _ s'] conjI)
qed

end
