(* ===== verification/Nl_Packet.thy ===== *)
theory Nl_Packet
  imports Udt_Packet Packet_Headers
begin

text \<open>
  The packets of the node list, \<open>NLPacket.h\<close> and \<open>NLPacket.cpp\<close>: a type, a protocol version, the local id
  of the source and a verification hash between the transport header and the payload; and \<open>HMACAuth\<close>, the
  keyed hash behind the verification.

  \<open>mac\<close> stands for the HMAC-MD5 of OpenSSL: the hash of a message under a key. Its documented behaviour
  is that \<open>HMAC_Update\<close> fails before a key is set, appends otherwise, and that \<open>HMAC_Init_ex\<close> without a key
  starts a new message under the same key. An access outside the packet's allocation is \<open>None\<close>.
\<close>

section \<open>HMACAuth\<close>

type_synonym mac = "byte list \<Rightarrow> byte list \<Rightarrow> byte list"

(* @src libraries/networking/src/HMACAuth.h 42-44 HMACAuth *)
record hmac_auth =
  ha_key :: "byte list option"
  ha_data :: "byte list"

(* @src libraries/networking/src/HMACAuth.h 26-26 HMACAuth::HMACAuth *)
definition HMACAuth_new :: hmac_auth where
  "HMACAuth_new = \<lparr>ha_key = None, ha_data = []\<rparr>"

(* @src libraries/networking/src/HMACAuth.cpp 51-81 HMACAuth::setKey *)
definition HMACAuth_setKey :: "byte list \<Rightarrow> hmac_auth \<Rightarrow> hmac_auth" where
  "HMACAuth_setKey key h = \<lparr>ha_key = Some key, ha_data = []\<rparr>"

(* @src libraries/networking/src/HMACAuth.cpp 88-91 HMACAuth::addData *)
definition HMACAuth_addData :: "byte list \<Rightarrow> hmac_auth \<Rightarrow> bool \<times> hmac_auth" where
  "HMACAuth_addData data h =
     (if ha_key h = None then (False, h) else (True, h\<lparr>ha_data := ha_data h @ data\<rparr>))"

(* @src libraries/networking/src/HMACAuth.cpp 93-111 HMACAuth::result *)
definition HMACAuth_result :: "mac \<Rightarrow> hmac_auth \<Rightarrow> byte list \<times> hmac_auth" where
  "HMACAuth_result mac h =
     ((case ha_key h of None \<Rightarrow> [] | Some key \<Rightarrow> mac key (ha_data h)), h\<lparr>ha_data := []\<rparr>)"

(* @src libraries/networking/src/HMACAuth.cpp 113-123 HMACAuth::calculateHash *)
definition HMACAuth_calculateHash :: "mac \<Rightarrow> byte list \<Rightarrow> hmac_auth \<Rightarrow> byte list option \<times> hmac_auth" where
  "HMACAuth_calculateHash mac data h =
     (let (ok, h1) = HMACAuth_addData data h
      in if \<not> ok then (None, h1)
         else (let (hashResult, h2) = HMACAuth_result mac h1 in (Some hashResult, h2)))"

section \<open>Sizes\<close>

(* @src libraries/networking/src/NLPacket.h 41-44 NLPacket::NUM_BYTES_LOCALID *)
definition NUM_BYTES_LOCALID :: nat where
  "NUM_BYTES_LOCALID = 2"

(* @src libraries/networking/src/udt/PacketHeaders.h 226-226 NUM_BYTES_MD5_HASH *)
definition NUM_BYTES_MD5_HASH :: nat where
  "NUM_BYTES_MD5_HASH = 16"

(* @src libraries/networking/src/NLPacket.cpp 17-22 NLPacket::localHeaderSize *)
definition NLPacket_localHeaderSize :: "packet_type \<Rightarrow> nat" where
  "NLPacket_localHeaderSize type =
     (let nonSourced = type \<in> getNonSourcedPackets;
          nonVerified = type \<in> getNonVerifiedPackets;
          optionalSize = (if nonSourced then 0 else NUM_BYTES_LOCALID)
            + (if nonSourced \<or> nonVerified then 0 else NUM_BYTES_MD5_HASH)
      in 1 + 1 + optionalSize)"

(* @src libraries/networking/src/NLPacket.cpp 23-25 NLPacket::totalHeaderSize *)
definition NLPacket_totalHeaderSize :: "packet_type \<Rightarrow> bool \<Rightarrow> int" where
  "NLPacket_totalHeaderSize type isPartOfMessage =
     Packet_totalHeaderSize isPartOfMessage + int (NLPacket_localHeaderSize type)"

(* @src libraries/networking/src/NLPacket.cpp 26-28 NLPacket::maxPayloadSize *)
definition NLPacket_maxPayloadSize :: "packet_type \<Rightarrow> bool \<Rightarrow> int" where
  "NLPacket_maxPayloadSize type isPartOfMessage =
     Packet_maxPayloadSize isPartOfMessage - int (NLPacket_localHeaderSize type)"

section \<open>The fields in the buffer of any packet\<close>

text \<open>The offset of the type, after the transport header.\<close>

definition nl_offset :: "('addr, 'm) packet_scheme \<Rightarrow> nat" where
  "nl_offset p = nat (Packet_totalHeaderSize (pkt_isPartOfMessage p))"

(* @src libraries/networking/src/NLPacket.cpp 135-138 NLPacket::typeInHeader *)
definition NLPacket_typeInHeader :: "('addr, 'm) packet_scheme \<Rightarrow> packet_type option" where
  "NLPacket_typeInHeader packet = map_option hd (mem_read (bp_packet packet) (nl_offset packet) 1)"

(* @src libraries/networking/src/NLPacket.cpp 140-143 NLPacket::versionInHeader *)
definition NLPacket_versionInHeader :: "('addr, 'm) packet_scheme \<Rightarrow> packet_version option" where
  "NLPacket_versionInHeader packet = map_option hd (mem_read (bp_packet packet) (nl_offset packet + 1) 1)"

(* @src libraries/networking/src/NLPacket.cpp 145-148 NLPacket::sourceIDInHeader *)
definition NLPacket_sourceIDInHeader :: "('addr, 'm) packet_scheme \<Rightarrow> 16 word option" where
  "NLPacket_sourceIDInHeader packet = map_option un_le16 (mem_read (bp_packet packet) (nl_offset packet + 1 + 1) 2)"

(* @src libraries/networking/src/NLPacket.cpp 150-154 NLPacket::verificationHashInHeader *)
definition NLPacket_verificationHashInHeader :: "('addr, 'm) packet_scheme \<Rightarrow> byte list option" where
  "NLPacket_verificationHashInHeader packet =
     mem_read (bp_packet packet) (nl_offset packet + 1 + 1 + NUM_BYTES_LOCALID) NUM_BYTES_MD5_HASH"

text \<open>The hash covers what follows the hash; a negative length is outside the model.\<close>

(* @src libraries/networking/src/NLPacket.cpp 156-166 NLPacket::hashForPacketAndHMAC *)
definition NLPacket_hashForPacketAndHMAC ::
  "mac \<Rightarrow> ('addr, 'm) packet_scheme \<Rightarrow> hmac_auth \<Rightarrow> (byte list \<times> hmac_auth) option" where
  "NLPacket_hashForPacketAndHMAC mac packet hash =
     (let offset = nl_offset packet + 1 + 1 + NUM_BYTES_LOCALID + NUM_BYTES_MD5_HASH;
          length = BasePacket_getDataSize packet - int offset
      in if length < 0 then None
         else do { data \<leftarrow> mem_read (bp_packet packet) offset (nat length);
                   let (hashResult, h) = HMACAuth_calculateHash mac data hash;
                   Some (case hashResult of None \<Rightarrow> [] | Some r \<Rightarrow> r, h) })"

section \<open>NLPacket\<close>

text \<open>The source id of a packet that was created here is not set until it is written.\<close>

(* @src libraries/networking/src/NLPacket.h 106-108 NLPacket *)
record 'addr nl_packet = "'addr packet" +
  nl_type :: packet_type
  nl_version :: packet_version
  nl_sourceID :: "16 word option"

(* @src libraries/networking/src/NLPacket.cpp 168-176 NLPacket::writeTypeAndVersion *)
definition NLPacket_writeTypeAndVersion :: "'addr nl_packet \<Rightarrow> 'addr nl_packet option" where
  "NLPacket_writeTypeAndVersion p =
     do { let headerOffset = nl_offset p;
          buf \<leftarrow> mem_write (bp_packet p) headerOffset [nl_type p];
          buf' \<leftarrow> mem_write buf (headerOffset + 1) [nl_version p];
          Some (p\<lparr>bp_packet := buf'\<rparr>) }"

(* @src libraries/networking/src/NLPacket.cpp 67-75 NLPacket::NLPacket(PacketType,qint64,bool,bool,PacketVersion) *)
definition NLPacket_new ::
  "packet_type \<Rightarrow> int \<Rightarrow> bool \<Rightarrow> bool \<Rightarrow> packet_version \<Rightarrow> 'addr nl_packet option" where
  "NLPacket_new type n isReliable isPartOfMessage version =
     do { base \<leftarrow> Packet_new (if n = -1 then -1 else int (NLPacket_localHeaderSize type) + n) isReliable isPartOfMessage;
          let p = packet.extend base (nl_packet.fields type
                (if version = 0 then versionForPacketType type else version) None);
          NLPacket_writeTypeAndVersion (BasePacket_adjust (NLPacket_localHeaderSize type) False p) }"

(* @src libraries/networking/src/NLPacket.cpp 30-36 NLPacket::create *)
definition NLPacket_create ::
  "packet_type \<Rightarrow> int \<Rightarrow> bool \<Rightarrow> bool \<Rightarrow> packet_version \<Rightarrow> 'addr nl_packet option" where
  "NLPacket_create type n isReliable isPartOfMessage version =
     map_option (QIODevice_open ReadWrite) (NLPacket_new type n isReliable isPartOfMessage version)"

(* @src libraries/networking/src/NLPacket.cpp 194-196 NLPacket::readType *)
definition NLPacket_readType :: "'addr nl_packet \<Rightarrow> 'addr nl_packet option" where
  "NLPacket_readType p = map_option (\<lambda>t. p\<lparr>nl_type := t\<rparr>) (NLPacket_typeInHeader p)"

(* @src libraries/networking/src/NLPacket.cpp 198-200 NLPacket::readVersion *)
definition NLPacket_readVersion :: "'addr nl_packet \<Rightarrow> 'addr nl_packet option" where
  "NLPacket_readVersion p = map_option (\<lambda>v. p\<lparr>nl_version := v\<rparr>) (NLPacket_versionInHeader p)"

(* @src libraries/networking/src/NLPacket.cpp 202-208 NLPacket::readSourceID *)
definition NLPacket_readSourceID :: "'addr nl_packet \<Rightarrow> 'addr nl_packet option" where
  "NLPacket_readSourceID p =
     (if nl_type p \<in> getNonSourcedPackets then Some (p\<lparr>nl_sourceID := Some 0\<rparr>)
      else map_option (\<lambda>i. p\<lparr>nl_sourceID := Some i\<rparr>) (NLPacket_sourceIDInHeader p))"

text \<open>What both constructors from a received packet do after the transport part is in place.\<close>

(* @src libraries/networking/src/NLPacket.cpp 77-85 NLPacket::NLPacket(Packet&&) *)
definition NLPacket_of_packet :: "'addr packet \<Rightarrow> 'addr nl_packet option" where
  "NLPacket_of_packet packet =
     do { p1 \<leftarrow> NLPacket_readType (packet.extend packet (nl_packet.fields 0 0 None));
          p2 \<leftarrow> NLPacket_readVersion p1;
          p3 \<leftarrow> NLPacket_readSourceID p2;
          Some (BasePacket_adjust (NLPacket_localHeaderSize (nl_type p3)) (bp_payloadSize p3 > 0) p3) }"

(* @src libraries/networking/src/NLPacket.cpp 93-104 NLPacket::NLPacket(unique_ptr,qint64,SockAddr) *)
definition NLPacket_of_data :: "byte list \<Rightarrow> int \<Rightarrow> 'addr \<Rightarrow> 'addr nl_packet option" where
  "NLPacket_of_data data n sender = Option.bind (Packet_of_data data n sender) NLPacket_of_packet"

(* @src libraries/networking/src/NLPacket.cpp 38-53 NLPacket::fromReceivedPacket *)
definition NLPacket_fromReceivedPacket :: "byte list \<Rightarrow> int \<Rightarrow> 'addr \<Rightarrow> 'addr nl_packet option" where
  "NLPacket_fromReceivedPacket data n sender =
     map_option (QIODevice_open ReadOnly) (NLPacket_of_data data n sender)"

text \<open>The move keeps the position and the open mode of the packet it takes over.\<close>

(* @src libraries/networking/src/NLPacket.cpp 55-61 NLPacket::fromBase *)
definition NLPacket_fromBase :: "'addr packet \<Rightarrow> 'addr nl_packet option" where
  "NLPacket_fromBase packet = NLPacket_of_packet packet"

(* @src libraries/networking/src/NLPacket.cpp 114-122 NLPacket::operator= *)
definition NLPacket_assign :: "'addr nl_packet \<Rightarrow> 'addr nl_packet \<Rightarrow> 'addr nl_packet option" where
  "NLPacket_assign this other =
     map_option (\<lambda>p. p\<lparr>nl_type := nl_type other, nl_version := nl_version other, nl_sourceID := nl_sourceID other\<rparr>)
       (Packet_assign this other)"

(* @src libraries/networking/src/NLPacket.cpp 63-65 NLPacket::createCopy *)
definition NLPacket_createCopy :: "'addr nl_packet \<Rightarrow> 'addr nl_packet option" where
  "NLPacket_createCopy other =
     map_option (\<lambda>p. packet.extend p (nl_packet.fields (nl_type other) (nl_version other) (nl_sourceID other)))
       (Packet_createCopy other)"

(* @src libraries/networking/src/NLPacket.cpp 178-187 NLPacket::setType *)
definition NLPacket_setType :: "packet_type \<Rightarrow> 'addr nl_packet \<Rightarrow> 'addr nl_packet option" where
  "NLPacket_setType type p =
     NLPacket_writeTypeAndVersion (p\<lparr>nl_type := type, nl_version := versionForPacketType type\<rparr>)"

(* @src libraries/networking/src/NLPacket.cpp 189-192 NLPacket::setVersion *)
definition NLPacket_setVersion :: "packet_version \<Rightarrow> 'addr nl_packet \<Rightarrow> 'addr nl_packet option" where
  "NLPacket_setVersion version p = NLPacket_writeTypeAndVersion (p\<lparr>nl_version := version\<rparr>)"

(* @src libraries/networking/src/NLPacket.cpp 210-218 NLPacket::writeSourceID *)
definition NLPacket_writeSourceID :: "16 word \<Rightarrow> 'addr nl_packet \<Rightarrow> 'addr nl_packet option" where
  "NLPacket_writeSourceID sourceID p =
     map_option (\<lambda>buf. p\<lparr>bp_packet := buf, nl_sourceID := Some sourceID\<rparr>)
       (mem_write (bp_packet p) (nl_offset p + 1 + 1) (le16 sourceID))"

(* @src libraries/networking/src/NLPacket.cpp 220-230 NLPacket::writeVerificationHash *)
definition NLPacket_writeVerificationHash ::
  "mac \<Rightarrow> hmac_auth \<Rightarrow> 'addr nl_packet \<Rightarrow> ('addr nl_packet \<times> hmac_auth) option" where
  "NLPacket_writeVerificationHash mac hmacAuth p =
     do { let offset = nl_offset p + 1 + 1 + NUM_BYTES_LOCALID;
          (verificationHash, h) \<leftarrow> NLPacket_hashForPacketAndHMAC mac p hmacAuth;
          buf \<leftarrow> mem_write (bp_packet p) offset verificationHash;
          Some (p\<lparr>bp_packet := buf\<rparr>, h) }"

end
