(* ===== verification/Node_List.thy ===== *)
theory Node_List
  imports Nl_Packet Udt_Socket
begin

text \<open>
  The node list: \<open>NetworkPeer\<close>, \<open>Node\<close> and \<open>LimitedNodeList\<close>. It knows the other nodes of the domain by
  UUID and by the local id the domain server gave them, verifies every packet before the socket hands it up,
  fills in the headers of what is sent, and keeps the socket's connections in step with the nodes.

  Nodes are shared objects: they live in a heap (\<open>nl_heap\<close>), and the two tables of the list hold references
  into it. A UUID is its 128 bits. A socket address that is null is \<open>None\<close>; the active socket of a node is a
  pointer to one of its own three addresses. Hash maps are association lists (\<open>insert\<close> of a concurrent map
  leaves an existing entry alone). The time, the random numbers and the keyed hash are arguments; log output,
  locks, linked data, clock skew and ping times are left out.
\<close>

section \<open>Peers\<close>

datatype active_socket = NoSocket | PublicSocket | LocalSocket | SymmetricSocket

text \<open>The members of \<open>NetworkPeer\<close> and of \<open>Node\<close>, and whether \<open>nodeActivated\<close> still waits for a socket.\<close>

(* @src libraries/networking/src/NetworkPeer.h 104-119 NetworkPeer *)
record 'addr peer =
  np_uuid :: uuid
  np_localID :: "16 word"
  np_publicSocket :: "'addr option"
  np_localSocket :: "'addr option"
  np_symmetricSocket :: "'addr option"
  np_activeSocket :: active_socket
  np_lastHeardMicrostamp :: int
  np_pingTimer :: bool
  np_connectionAttempts :: int
  np_isForcedNeverSilent :: bool

(* @src libraries/networking/src/Node.h 113-126 Node *)
record 'addr node = "'addr peer" +
  nd_type :: byte
  nd_connectionSecret :: uuid
  nd_authenticateHash :: "hmac_auth option"
  nd_isReplicated :: bool
  nd_permissions :: "32 word"
  nd_isUpstream :: bool
  nd_ignoredNodeIDs :: "uuid list"
  nd_awaitsActivation :: bool

(* @src libraries/networking/src/NetworkPeer.h 62-62 NetworkPeer::getActiveSocket *)
definition NetworkPeer_getActiveSocket :: "('addr, 'm) peer_scheme \<Rightarrow> 'addr option option" where
  "NetworkPeer_getActiveSocket p =
     (case np_activeSocket p of NoSocket \<Rightarrow> None | PublicSocket \<Rightarrow> Some (np_publicSocket p)
      | LocalSocket \<Rightarrow> Some (np_localSocket p) | SymmetricSocket \<Rightarrow> Some (np_symmetricSocket p))"

text \<open>
  The setters return the \<open>socketUpdated\<close> signals: the previous address, which is never null, and the new one.
\<close>

(* @src libraries/networking/src/NetworkPeer.cpp 54-72 NetworkPeer::setPublicSocket *)
definition NetworkPeer_setPublicSocket ::
  "'addr option \<Rightarrow> ('addr, 'm) peer_scheme \<Rightarrow> ('addr, 'm) peer_scheme \<times> ('addr \<times> 'addr option) list" where
  "NetworkPeer_setPublicSocket publicSocket p =
     (if publicSocket \<noteq> np_publicSocket p
      then (p\<lparr>np_activeSocket := (if np_activeSocket p = PublicSocket then NoSocket else np_activeSocket p),
              np_publicSocket := publicSocket\<rparr>,
            case np_publicSocket p of None \<Rightarrow> [] | Some previous \<Rightarrow> [(previous, publicSocket)])
      else (p, []))"

(* @src libraries/networking/src/NetworkPeer.cpp 74-92 NetworkPeer::setLocalSocket *)
definition NetworkPeer_setLocalSocket ::
  "'addr option \<Rightarrow> ('addr, 'm) peer_scheme \<Rightarrow> ('addr, 'm) peer_scheme \<times> ('addr \<times> 'addr option) list" where
  "NetworkPeer_setLocalSocket localSocket p =
     (if localSocket \<noteq> np_localSocket p
      then (p\<lparr>np_activeSocket := (if np_activeSocket p = LocalSocket then NoSocket else np_activeSocket p),
              np_localSocket := localSocket\<rparr>,
            case np_localSocket p of None \<Rightarrow> [] | Some previous \<Rightarrow> [(previous, localSocket)])
      else (p, []))"

(* @src libraries/networking/src/NetworkPeer.cpp 94-112 NetworkPeer::setSymmetricSocket *)
definition NetworkPeer_setSymmetricSocket ::
  "'addr option \<Rightarrow> ('addr, 'm) peer_scheme \<Rightarrow> ('addr, 'm) peer_scheme \<times> ('addr \<times> 'addr option) list" where
  "NetworkPeer_setSymmetricSocket symmetricSocket p =
     (if symmetricSocket \<noteq> np_symmetricSocket p
      then (p\<lparr>np_activeSocket := (if np_activeSocket p = SymmetricSocket then NoSocket else np_activeSocket p),
              np_symmetricSocket := symmetricSocket\<rparr>,
            case np_symmetricSocket p of None \<Rightarrow> [] | Some previous \<Rightarrow> [(previous, symmetricSocket)])
      else (p, []))"

(* @src libraries/networking/src/NetworkPeer.cpp 114-126 NetworkPeer::setActiveSocket *)
definition NetworkPeer_setActiveSocket :: "active_socket \<Rightarrow> ('addr, 'm) peer_scheme \<Rightarrow> ('addr, 'm) peer_scheme \<times> bool" where
  "NetworkPeer_setActiveSocket discoveredSocket p =
     (p\<lparr>np_activeSocket := discoveredSocket, np_pingTimer := False, np_connectionAttempts := 0\<rparr>,
      discoveredSocket \<noteq> NoSocket)"

text \<open>The activations return whether \<open>socketActivated\<close> was emitted.\<close>

(* @src libraries/networking/src/NetworkPeer.cpp 128-133 NetworkPeer::activateLocalSocket *)
definition NetworkPeer_activateLocalSocket :: "('addr, 'm) peer_scheme \<Rightarrow> ('addr, 'm) peer_scheme \<times> bool" where
  "NetworkPeer_activateLocalSocket p =
     (if np_activeSocket p \<noteq> LocalSocket then NetworkPeer_setActiveSocket LocalSocket p else (p, False))"

(* @src libraries/networking/src/NetworkPeer.cpp 135-140 NetworkPeer::activatePublicSocket *)
definition NetworkPeer_activatePublicSocket :: "('addr, 'm) peer_scheme \<Rightarrow> ('addr, 'm) peer_scheme \<times> bool" where
  "NetworkPeer_activatePublicSocket p =
     (if np_activeSocket p \<noteq> PublicSocket then NetworkPeer_setActiveSocket PublicSocket p else (p, False))"

(* @src libraries/networking/src/NetworkPeer.cpp 142-147 NetworkPeer::activateSymmetricSocket *)
definition NetworkPeer_activateSymmetricSocket :: "('addr, 'm) peer_scheme \<Rightarrow> ('addr, 'm) peer_scheme \<times> bool" where
  "NetworkPeer_activateSymmetricSocket p =
     (if np_activeSocket p \<noteq> SymmetricSocket then NetworkPeer_setActiveSocket SymmetricSocket p else (p, False))"

(* @src libraries/networking/src/NetworkPeer.cpp 149-159 NetworkPeer::activateMatchingOrNewSymmetricSocket *)
definition NetworkPeer_activateMatchingOrNewSymmetricSocket ::
  "'addr option \<Rightarrow> ('addr, 'm) peer_scheme \<Rightarrow> ('addr, 'm) peer_scheme \<times> ('addr \<times> 'addr option) list \<times> bool" where
  "NetworkPeer_activateMatchingOrNewSymmetricSocket matchableSockAddr p =
     (if matchableSockAddr = np_publicSocket p
      then (let (p', activated) = NetworkPeer_activatePublicSocket p in (p', [], activated))
      else if matchableSockAddr = np_localSocket p
      then (let (p', activated) = NetworkPeer_activateLocalSocket p in (p', [], activated))
      else (let (p1, updated) = NetworkPeer_setSymmetricSocket matchableSockAddr p;
                (p', activated) = NetworkPeer_activateSymmetricSocket p1 in (p', updated, activated)))"

(* @src libraries/networking/src/NetworkPeer.cpp 161-173 NetworkPeer::softReset *)
definition NetworkPeer_softReset :: "('addr, 'm) peer_scheme \<Rightarrow> ('addr, 'm) peer_scheme" where
  "NetworkPeer_softReset p =
     p\<lparr>np_localSocket := None, np_publicSocket := None, np_symmetricSocket := None, np_activeSocket := NoSocket,
       np_pingTimer := False, np_connectionAttempts := 0\<rparr>"

(* @src libraries/networking/src/NetworkPeer.cpp 175-181 NetworkPeer::reset *)
definition NetworkPeer_reset :: "int \<Rightarrow> ('addr, 'm) peer_scheme \<Rightarrow> ('addr, 'm) peer_scheme" where
  "NetworkPeer_reset now p = (NetworkPeer_softReset p)\<lparr>np_uuid := 0, np_lastHeardMicrostamp := now\<rparr>"

section \<open>Nodes\<close>

(* @src libraries/networking/src/NodeType.h 25-25 NodeType::DomainServer *)
definition NodeType_DomainServer :: byte where
  "NodeType_DomainServer = 68"

(* @src libraries/networking/src/NodeType.h 26-26 NodeType::EntityServer *)
definition NodeType_EntityServer :: byte where
  "NodeType_EntityServer = 111"

(* @src libraries/networking/src/NodeType.h 27-27 NodeType::Agent *)
definition NodeType_Agent :: byte where
  "NodeType_Agent = 73"

(* @src libraries/networking/src/NodeType.h 28-28 NodeType::AudioMixer *)
definition NodeType_AudioMixer :: byte where
  "NodeType_AudioMixer = 77"

(* @src libraries/networking/src/NodeType.h 29-29 NodeType::AvatarMixer *)
definition NodeType_AvatarMixer :: byte where
  "NodeType_AvatarMixer = 87"

(* @src libraries/networking/src/NodeType.h 30-30 NodeType::AssetServer *)
definition NodeType_AssetServer :: byte where
  "NodeType_AssetServer = 65"

(* @src libraries/networking/src/NodeType.h 31-31 NodeType::MessagesMixer *)
definition NodeType_MessagesMixer :: byte where
  "NodeType_MessagesMixer = 109"

(* @src libraries/networking/src/NodeType.h 32-32 NodeType::EntityScriptServer *)
definition NodeType_EntityScriptServer :: byte where
  "NodeType_EntityScriptServer = 83"

(* @src libraries/networking/src/NodeType.h 33-33 NodeType::UpstreamAudioMixer *)
definition NodeType_UpstreamAudioMixer :: byte where
  "NodeType_UpstreamAudioMixer = 66"

(* @src libraries/networking/src/NodeType.h 34-34 NodeType::UpstreamAvatarMixer *)
definition NodeType_UpstreamAvatarMixer :: byte where
  "NodeType_UpstreamAvatarMixer = 67"

(* @src libraries/networking/src/NodeType.h 35-35 NodeType::DownstreamAudioMixer *)
definition NodeType_DownstreamAudioMixer :: byte where
  "NodeType_DownstreamAudioMixer = 97"

(* @src libraries/networking/src/NodeType.h 36-36 NodeType::DownstreamAvatarMixer *)
definition NodeType_DownstreamAvatarMixer :: byte where
  "NodeType_DownstreamAvatarMixer = 119"

(* @src libraries/networking/src/NodeType.h 37-37 NodeType::Unassigned *)
definition NodeType_Unassigned :: byte where
  "NodeType_Unassigned = 1"

lemmas NodeType_values = NodeType_DomainServer_def NodeType_EntityServer_def NodeType_Agent_def
  NodeType_AudioMixer_def NodeType_AvatarMixer_def NodeType_AssetServer_def NodeType_MessagesMixer_def
  NodeType_EntityScriptServer_def NodeType_UpstreamAudioMixer_def NodeType_UpstreamAvatarMixer_def
  NodeType_DownstreamAudioMixer_def NodeType_DownstreamAvatarMixer_def NodeType_Unassigned_def

(* @src libraries/networking/src/Node.cpp 76-78 NodeType::isUpstream *)
definition NodeType_isUpstream :: "byte \<Rightarrow> bool" where
  "NodeType_isUpstream nodeType \<longleftrightarrow> nodeType = NodeType_UpstreamAudioMixer \<or> nodeType = NodeType_UpstreamAvatarMixer"

(* @src libraries/networking/src/Node.cpp 80-82 NodeType::isDownstream *)
definition NodeType_isDownstream :: "byte \<Rightarrow> bool" where
  "NodeType_isDownstream nodeType \<longleftrightarrow> nodeType = NodeType_DownstreamAudioMixer \<or> nodeType = NodeType_DownstreamAvatarMixer"

(* @src libraries/networking/src/Node.cpp 84-93 NodeType::upstreamType *)
definition NodeType_upstreamType :: "byte \<Rightarrow> byte" where
  "NodeType_upstreamType primaryType =
     (if primaryType = NodeType_AudioMixer then NodeType_UpstreamAudioMixer
      else if primaryType = NodeType_AvatarMixer then NodeType_UpstreamAvatarMixer
      else NodeType_Unassigned)"

(* @src libraries/networking/src/Node.cpp 95-104 NodeType::downstreamType *)
definition NodeType_downstreamType :: "byte \<Rightarrow> byte" where
  "NodeType_downstreamType primaryType =
     (if primaryType = NodeType_AudioMixer then NodeType_DownstreamAudioMixer
      else if primaryType = NodeType_AvatarMixer then NodeType_DownstreamAvatarMixer
      else NodeType_Unassigned)"

(* @src libraries/networking/src/Node.cpp 114-125 Node::Node *)
definition Node_new :: "int \<Rightarrow> uuid \<Rightarrow> byte \<Rightarrow> 'addr option \<Rightarrow> 'addr option \<Rightarrow> 'addr node" where
  "Node_new now uuid type publicSocket localSocket =
     \<lparr>np_uuid = uuid, np_localID = 0, np_publicSocket = publicSocket, np_localSocket = localSocket,
      np_symmetricSocket = None, np_activeSocket = NoSocket, np_lastHeardMicrostamp = now, np_pingTimer = False,
      np_connectionAttempts = 0, np_isForcedNeverSilent = False, nd_type = type, nd_connectionSecret = 0,
      nd_authenticateHash = None, nd_isReplicated = False, nd_permissions = 0, nd_isUpstream = False,
      nd_ignoredNodeIDs = [], nd_awaitsActivation = False\<rparr>"

(* @src libraries/networking/src/Node.cpp 243-254 Node::setConnectionSecret *)
definition Node_setConnectionSecret :: "uuid \<Rightarrow> 'addr node \<Rightarrow> 'addr node" where
  "Node_setConnectionSecret connectionSecret n =
     (if nd_connectionSecret n = connectionSecret then n
      else n\<lparr>nd_connectionSecret := connectionSecret,
             nd_authenticateHash := Some (HMACAuth_setKey (toRfc4122 connectionSecret)
               (case nd_authenticateHash n of None \<Rightarrow> HMACAuth_new | Some h \<Rightarrow> h))\<rparr>)"

(* @src libraries/networking/src/Node.cpp 164-177 Node::addIgnoredNode *)
definition Node_addIgnoredNode :: "uuid \<Rightarrow> 'addr node \<Rightarrow> 'addr node" where
  "Node_addIgnoredNode otherNodeID n =
     (if otherNodeID \<noteq> 0 \<and> otherNodeID \<noteq> np_uuid n
      then (if otherNodeID \<in> set (nd_ignoredNodeIDs n) then n
            else n\<lparr>nd_ignoredNodeIDs := nd_ignoredNodeIDs n @ [otherNodeID]\<rparr>)
      else n)"

text \<open>\<open>std::remove\<close> moves the others up; \<open>erase(it)\<close> then drops the one element after them.\<close>

(* @src libraries/networking/src/Node.cpp 179-193 Node::removeIgnoredNode *)
definition Node_removeIgnoredNode :: "uuid \<Rightarrow> 'addr node \<Rightarrow> 'addr node" where
  "Node_removeIgnoredNode otherNodeID n =
     (if otherNodeID \<noteq> 0 \<and> otherNodeID \<noteq> np_uuid n
      then (let kept = filter (\<lambda>i. i \<noteq> otherNodeID) (nd_ignoredNodeIDs n);
                k = length kept
            in if k < length (nd_ignoredNodeIDs n)
               then n\<lparr>nd_ignoredNodeIDs := kept @ drop (Suc k) (nd_ignoredNodeIDs n)\<rparr>
               else n)
      else n)"

(* @src libraries/networking/src/Node.cpp 195-200 Node::isIgnoringNodeWithID *)
definition Node_isIgnoringNodeWithID :: "uuid \<Rightarrow> 'addr node \<Rightarrow> bool" where
  "Node_isIgnoringNodeWithID nodeID n \<longleftrightarrow> nodeID \<in> set (nd_ignoredNodeIDs n)"

section \<open>The node list\<close>

(* @src libraries/networking/src/LimitedNodeList.h 393-402 LimitedNodeList::NewNodeInfo *)
record 'addr new_node_info =
  ni_type :: byte
  ni_uuid :: uuid
  ni_publicSocket :: "'addr option"
  ni_localSocket :: "'addr option"
  ni_permissions :: "32 word"
  ni_isReplicated :: bool
  ni_sessionLocalID :: "16 word"
  ni_connectionSecretUUID :: uuid

text \<open>
  The members of the list, and the answers of the virtual functions a subclass overrides:
  \<open>isDomainServer\<close>, \<open>getDomainLocalID\<close> and \<open>getDomainSockAddr\<close>. The last two members are the static tables
  of \<open>packetVersionMatch\<close>, which announce a mismatch once.
\<close>

(* @src libraries/networking/src/LimitedNodeList.h 427-478 LimitedNodeList *)
record 'addr node_list =
  nl_heap :: "'addr node list"
  nl_nodeHash :: "(uuid \<times> nat) list"
  nl_localIDMap :: "(16 word \<times> nat) list"
  nl_nodeSocket :: "'addr option socket"
  nl_connectionIDs :: "(uuid \<times> int) list"
  nl_useAuthentication :: bool
  nl_sessionLocalID :: "16 word"
  nl_maxConnectionRate :: nat
  nl_nodesAddedInCurrentTimeSlice :: nat
  nl_delayedNodeAdds :: "'addr new_node_info list"
  nl_dropOutgoingNodeTraffic :: bool
  nl_nodeDisconnectTimestamp :: int
  nl_isDomainServer :: bool
  nl_domainLocalID :: "16 word"
  nl_domainSockAddr :: "'addr option"
  nl_versionDebugSuppress :: "('addr option \<times> packet_type) list"
  nl_sourcedVersionDebugSuppress :: "(uuid \<times> packet_type) list"

text \<open>
  The constructor. The binding of ports and the timers are left out; the handlers it installs are those of
  the packet receiver. The two filters it installs are closures over the list: \<open>nl_socket\<close> puts the one in
  place, \<open>LimitedNodeList_readDatagram\<close> the other.
\<close>

(* @src libraries/networking/src/LimitedNodeList.cpp 59-134 LimitedNodeList::LimitedNodeList *)
definition LimitedNodeList_new :: "('addr option \<Rightarrow> (byte list \<Rightarrow> int) option) \<Rightarrow> 'addr node_list" where
  "LimitedNodeList_new network =
     \<lparr>nl_heap = [], nl_nodeHash = [], nl_localIDMap = [],
      nl_nodeSocket = (Socket_new network)\<lparr>sk_packetHandler := True, sk_messageHandler := True,
        sk_messageFailureHandler := True\<rparr>,
      nl_connectionIDs = [], nl_useAuthentication = True, nl_sessionLocalID = 0,
      nl_maxConnectionRate = 2 ^ 64 - 1, nl_nodesAddedInCurrentTimeSlice = 0, nl_delayedNodeAdds = [],
      nl_dropOutgoingNodeTraffic = False, nl_nodeDisconnectTimestamp = 0, nl_isDomainServer = False,
      nl_domainLocalID = 0, nl_domainSockAddr = None, nl_versionDebugSuppress = [],
      nl_sourcedVersionDebugSuppress = []\<rparr>"

datatype 'addr nl_event =
  NlSocket "'addr option sk_event"
| NlNodeAdded nat
| NlNodeKilled nat
| NlNodeActivated nat
| NlNodeSocketUpdated nat
| NlPacketVersionMismatch packet_type "'addr option" uuid

abbreviation nl_node :: "'addr node_list \<Rightarrow> nat \<Rightarrow> 'addr node" where
  "nl_node l r \<equiv> nl_heap l ! r"

definition nl_setNode :: "nat \<Rightarrow> 'addr node \<Rightarrow> 'addr node_list \<Rightarrow> 'addr node_list" where
  "nl_setNode r n l = l\<lparr>nl_heap := (nl_heap l)[r := n]\<rparr>"

text \<open>\<open>insert\<close> of a concurrent map does nothing when the key is present.\<close>

definition cmap_insert :: "'k \<Rightarrow> 'v \<Rightarrow> ('k \<times> 'v) list \<Rightarrow> ('k \<times> 'v) list" where
  "cmap_insert k v m = (if map_of m k = None then m @ [(k, v)] else m)"

section \<open>Looking nodes up\<close>

(* @src libraries/networking/src/LimitedNodeList.cpp 596-601 LimitedNodeList::nodeWithUUID *)
definition LimitedNodeList_nodeWithUUID :: "uuid \<Rightarrow> 'addr node_list \<Rightarrow> nat option" where
  "LimitedNodeList_nodeWithUUID nodeUUID l = map_of (nl_nodeHash l) nodeUUID"

(* @src libraries/networking/src/LimitedNodeList.cpp 603-608 LimitedNodeList::nodeWithLocalID *)
definition LimitedNodeList_nodeWithLocalID :: "16 word \<Rightarrow> 'addr node_list \<Rightarrow> nat option" where
  "LimitedNodeList_nodeWithLocalID localID l = map_of (nl_localIDMap l) localID"

text \<open>A null address equals the null symmetric socket of a node.\<close>

definition nl_hasAddr :: "'addr option \<Rightarrow> 'addr node \<Rightarrow> bool" where
  "nl_hasAddr addr n \<longleftrightarrow> np_publicSocket n = addr \<or> np_localSocket n = addr \<or> np_symmetricSocket n = addr"

(* @src libraries/networking/src/LimitedNodeList.h 279-291 LimitedNodeList::nodeMatchingPredicate *)
definition LimitedNodeList_nodeMatchingPredicate :: "('addr node \<Rightarrow> bool) \<Rightarrow> 'addr node_list \<Rightarrow> nat option" where
  "LimitedNodeList_nodeMatchingPredicate predicate l =
     map_option snd (find (\<lambda>(_, r). predicate (nl_node l r)) (nl_nodeHash l))"

(* @src libraries/networking/src/LimitedNodeList.cpp 1126-1134 LimitedNodeList::findNodeWithAddr *)
definition LimitedNodeList_findNodeWithAddr :: "'addr option \<Rightarrow> 'addr node_list \<Rightarrow> nat option" where
  "LimitedNodeList_findNodeWithAddr addr l = LimitedNodeList_nodeMatchingPredicate (nl_hasAddr addr) l"

(* @src libraries/networking/src/LimitedNodeList.cpp 1136-1144 LimitedNodeList::sockAddrBelongsToNode *)
definition LimitedNodeList_sockAddrBelongsToNode :: "'addr option \<Rightarrow> 'addr node_list \<Rightarrow> bool" where
  "LimitedNodeList_sockAddrBelongsToNode sockAddr l \<longleftrightarrow>
     (\<exists>(_, r) \<in> set (nl_nodeHash l). nl_hasAddr sockAddr (nl_node l r))"

text \<open>The socket of the list, with its filter of new connections looking at the nodes there are now.\<close>

(* @src libraries/networking/src/LimitedNodeList.cpp 129-130 LimitedNodeList::LimitedNodeList(filter) *)
definition nl_socket :: "'addr node_list \<Rightarrow> 'addr option socket" where
  "nl_socket l = (nl_nodeSocket l)\<lparr>sk_connectionCreationFilterOperator :=
     Some (\<lambda>sockAddr. LimitedNodeList_sockAddrBelongsToNode sockAddr l)\<rparr>"

(* @src libraries/networking/src/LimitedNodeList.cpp 902-906 LimitedNodeList::soloNodeOfType *)
definition LimitedNodeList_soloNodeOfType :: "byte \<Rightarrow> 'addr node_list \<Rightarrow> nat option" where
  "LimitedNodeList_soloNodeOfType nodeType l =
     LimitedNodeList_nodeMatchingPredicate (\<lambda>n. nd_type n = nodeType) l"

(* @src libraries/networking/src/LimitedNodeList.h 335-342 LimitedNodeList::SOLO_NODE_TYPES *)
definition SOLO_NODE_TYPES :: "byte set" where
  "SOLO_NODE_TYPES = {NodeType_AvatarMixer, NodeType_AudioMixer, NodeType_AssetServer, NodeType_EntityServer,
     NodeType_MessagesMixer, NodeType_EntityScriptServer}"

section \<open>Nodes that leave\<close>

definition NULL_CONNECTION_ID :: int where
  "NULL_CONNECTION_ID = -1"

definition nl_cleanupConnection :: "'addr option \<Rightarrow> 'addr node_list \<Rightarrow> 'addr nl_event list \<times> 'addr node_list" where
  "nl_cleanupConnection addr l =
     (let (out, s) = Socket_cleanupConnection addr (nl_nodeSocket l) in (map NlSocket out, l\<lparr>nl_nodeSocket := s\<rparr>))"

(* @src libraries/networking/src/LimitedNodeList.cpp 670-688 LimitedNodeList::handleNodeKill *)
definition LimitedNodeList_handleNodeKill ::
  "int \<Rightarrow> nat \<Rightarrow> int \<Rightarrow> 'addr node_list \<Rightarrow> 'addr nl_event list \<times> 'addr node_list" where
  "LimitedNodeList_handleNodeKill now r nextConnectionID l =
     (let l1 = nl_setNode r ((nl_node l r)\<lparr>np_pingTimer := False\<rparr>) (l\<lparr>nl_nodeDisconnectTimestamp := now\<rparr>);
          (out, l2) = (case NetworkPeer_getActiveSocket (nl_node l1 r) of None \<Rightarrow> ([], l1)
                       | Some a \<Rightarrow> nl_cleanupConnection a l1);
          uuid = np_uuid (nl_node l2 r)
      in (NlNodeKilled r # out,
          case map_of (nl_connectionIDs l2) uuid of None \<Rightarrow> l2
          | Some i \<Rightarrow> l2\<lparr>nl_connectionIDs := AList.update uuid
              (if nextConnectionID = NULL_CONNECTION_ID then i + 1 else nextConnectionID) (nl_connectionIDs l2)\<rparr>))"

text \<open>Both tables lose the entry the node has now: the one of its current local id.\<close>

(* @src libraries/networking/src/LimitedNodeList.cpp 709-713 LimitedNodeList::addOrUpdateNode(erase) *)
definition nl_eraseNode :: "nat \<Rightarrow> 'addr node_list \<Rightarrow> 'addr node_list" where
  "nl_eraseNode r l =
     l\<lparr>nl_localIDMap := AList.delete (np_localID (nl_node l r)) (nl_localIDMap l),
       nl_nodeHash := AList.delete (np_uuid (nl_node l r)) (nl_nodeHash l)\<rparr>"

(* @src libraries/networking/src/LimitedNodeList.cpp 645-660 LimitedNodeList::killNodeWithUUID *)
definition LimitedNodeList_killNodeWithUUID ::
  "int \<Rightarrow> uuid \<Rightarrow> int \<Rightarrow> 'addr node_list \<Rightarrow> bool \<times> 'addr nl_event list \<times> 'addr node_list" where
  "LimitedNodeList_killNodeWithUUID now nodeUUID newConnectionID l =
     (case LimitedNodeList_nodeWithUUID nodeUUID l of None \<Rightarrow> (False, [], l)
      | Some r \<Rightarrow> (True, LimitedNodeList_handleNodeKill now r newConnectionID (nl_eraseNode r l)))"

(* @src libraries/networking/src/LimitedNodeList.cpp 662-668 LimitedNodeList::processKillNode *)
definition LimitedNodeList_processKillNode ::
  "int \<Rightarrow> byte list \<Rightarrow> 'addr node_list \<Rightarrow> 'addr nl_event list \<times> 'addr node_list" where
  "LimitedNodeList_processKillNode now bytes l =
     snd (LimitedNodeList_killNodeWithUUID now (fromRfc4122 bytes) NULL_CONNECTION_ID l)"

text \<open>The nodes that were removed are handled one after the other.\<close>

(* @src libraries/networking/src/LimitedNodeList.cpp 630-632 LimitedNodeList::eraseAllNodes(for) *)
primrec nl_handleKills :: "int \<Rightarrow> nat list \<Rightarrow> 'addr node_list \<Rightarrow> 'addr nl_event list \<times> 'addr node_list" where
  "nl_handleKills now [] l = ([], l)"
| "nl_handleKills now (r # rs) l =
     (let (out, l1) = LimitedNodeList_handleNodeKill now r NULL_CONNECTION_ID l;
          (out', l2) = nl_handleKills now rs l1
      in (out @ out', l2))"

(* @src libraries/networking/src/LimitedNodeList.cpp 610-635 LimitedNodeList::eraseAllNodes *)
definition LimitedNodeList_eraseAllNodes :: "int \<Rightarrow> 'addr node_list \<Rightarrow> 'addr nl_event list \<times> 'addr node_list" where
  "LimitedNodeList_eraseAllNodes now l =
     (let killedNodes = map snd (nl_nodeHash l);
          (out, l1) = nl_handleKills now killedNodes (l\<lparr>nl_localIDMap := [], nl_nodeHash := []\<rparr>)
      in (out, l1\<lparr>nl_delayedNodeAdds := []\<rparr>))"

(* @src libraries/networking/src/LimitedNodeList.cpp 637-643 LimitedNodeList::reset *)
definition LimitedNodeList_reset :: "int \<Rightarrow> 'addr node_list \<Rightarrow> 'addr nl_event list \<times> 'addr node_list" where
  "LimitedNodeList_reset now l =
     (let (out, l1) = LimitedNodeList_eraseAllNodes now l;
          (out', s) = Socket_clearConnections (nl_nodeSocket l1)
      in (out @ map NlSocket out', l1\<lparr>nl_nodeSocket := s, nl_connectionIDs := []\<rparr>))"

(* @src libraries/networking/src/LimitedNodeList.h 60-60 NODE_SILENCE_THRESHOLD_MSECS *)
definition NODE_SILENCE_THRESHOLD_MSECS :: int where
  "NODE_SILENCE_THRESHOLD_MSECS = 10 * 1000"

text \<open>Unsigned microseconds: a node heard from after \<open>now\<close> was read counts as silent.\<close>

definition nl_isSilent :: "int \<Rightarrow> 'addr node \<Rightarrow> bool" where
  "nl_isSilent now n \<longleftrightarrow> \<not> np_isForcedNeverSilent n
     \<and> (now - np_lastHeardMicrostamp n) mod 2 ^ 64 > NODE_SILENCE_THRESHOLD_MSECS * 1000"

(* @src libraries/networking/src/LimitedNodeList.cpp 914-931 LimitedNodeList::removeSilentNodes(each) *)
fun nl_removeSilent :: "int \<Rightarrow> (uuid \<times> nat) list \<Rightarrow> 'addr node_list \<Rightarrow> nat list \<times> 'addr node_list" where
  "nl_removeSilent now [] l = ([], l)"
| "nl_removeSilent now ((u, r) # es) l =
     (if nl_isSilent now (nl_node l r)
      then (let (killed, l') = nl_removeSilent now es
                  (l\<lparr>nl_localIDMap := AList.delete (np_localID (nl_node l r)) (nl_localIDMap l),
                     nl_nodeHash := AList.delete u (nl_nodeHash l)\<rparr>)
            in (r # killed, l'))
      else nl_removeSilent now es l)"

(* @src libraries/networking/src/LimitedNodeList.cpp 908-945 LimitedNodeList::removeSilentNodes *)
definition LimitedNodeList_removeSilentNodes :: "int \<Rightarrow> 'addr node_list \<Rightarrow> 'addr nl_event list \<times> 'addr node_list" where
  "LimitedNodeList_removeSilentNodes now l =
     (let (killedNodes, l1) = nl_removeSilent now (nl_nodeHash l) l in nl_handleKills now killedNodes l1)"

section \<open>Nodes that join\<close>

text \<open>The slots of \<open>socketUpdated\<close>: the socket follows a node to its new address.\<close>

(* @src libraries/networking/src/LimitedNodeList.cpp 776-780 LimitedNodeList::addOrUpdateNode(socketUpdated) *)
definition nl_socketUpdated ::
  "nat \<Rightarrow> ('addr \<times> 'addr option) list \<Rightarrow> 'addr node_list \<Rightarrow> 'addr nl_event list \<times> 'addr node_list" where
  "nl_socketUpdated r updated l =
     (case updated of [] \<Rightarrow> ([], l)
      | (previous, current) # _ \<Rightarrow>
          (let (out, s) = Socket_handleRemoteAddressChange (Some previous) current (nl_nodeSocket l)
           in (NlNodeSocketUpdated r # map NlSocket out, l\<lparr>nl_nodeSocket := s\<rparr>)))"

(* @src libraries/networking/src/LimitedNodeList.cpp 707-716 LimitedNodeList::addOrUpdateNode(removeOldNode) *)
definition nl_removeOldNode :: "int \<Rightarrow> nat option \<Rightarrow> 'addr node_list \<Rightarrow> 'addr nl_event list \<times> 'addr node_list" where
  "nl_removeOldNode now node l =
     (case node of None \<Rightarrow> ([], l)
      | Some r \<Rightarrow> LimitedNodeList_handleNodeKill now r NULL_CONNECTION_ID (nl_eraseNode r l))"

text \<open>A node that is known: its entry in the table of local ids is not changed.\<close>

(* @src libraries/networking/src/LimitedNodeList.cpp 694-705 LimitedNodeList::addOrUpdateNode(update) *)
definition LimitedNodeList_updateNode ::
  "nat \<Rightarrow> 'addr new_node_info \<Rightarrow> bool \<Rightarrow> 'addr node_list \<Rightarrow> 'addr nl_event list \<times> 'addr node_list" where
  "LimitedNodeList_updateNode r info isUpstream l =
     (let (n1, updated1) = NetworkPeer_setPublicSocket (ni_publicSocket info) (nl_node l r);
          (out1, l1) = nl_socketUpdated r updated1 (nl_setNode r n1 l);
          (n2, updated2) = NetworkPeer_setLocalSocket (ni_localSocket info) (nl_node l1 r);
          (out2, l2) = nl_socketUpdated r updated2 (nl_setNode r n2 l1);
          n3 = Node_setConnectionSecret (ni_connectionSecretUUID info) ((nl_node l2 r)\<lparr>nd_permissions := ni_permissions info\<rparr>);
          n4 = n3\<lparr>nd_isReplicated := ni_isReplicated info,
                  nd_isUpstream := isUpstream \<or> NodeType_isUpstream (ni_type info),
                  np_localID := ni_sessionLocalID info\<rparr>
      in (out1 @ out2, nl_setNode r n4 l2))"

text \<open>A node that is not: old nodes in its place are removed first.\<close>

(* @src libraries/networking/src/LimitedNodeList.cpp 718-782 LimitedNodeList::addOrUpdateNode(add) *)
definition LimitedNodeList_insertNode ::
  "int \<Rightarrow> 'addr new_node_info \<Rightarrow> bool \<Rightarrow> 'addr node_list \<Rightarrow> nat \<times> 'addr nl_event list \<times> 'addr node_list" where
  "LimitedNodeList_insertNode now info isUpstream l =
     (let (out1, l1) = (if ni_type info \<in> SOLO_NODE_TYPES
                        then nl_removeOldNode now (LimitedNodeList_soloNodeOfType (ni_type info) l) l else ([], l));
          (out2, l2) = nl_removeOldNode now (LimitedNodeList_findNodeWithAddr (ni_publicSocket info) l1) l1;
          (out3, l3) = nl_removeOldNode now (LimitedNodeList_findNodeWithAddr (ni_localSocket info) l2) l2;
          (out4, l4) = nl_cleanupConnection (ni_publicSocket info) l3;
          (out5, l5) = nl_cleanupConnection (ni_localSocket info) l4;
          l6 = l5\<lparr>nl_connectionIDs := cmap_insert (ni_uuid info) 0 (nl_connectionIDs l5)\<rparr>;
          n0 = Node_new now (ni_uuid info) (ni_type info) (ni_publicSocket info) (ni_localSocket info);
          n1 = Node_setConnectionSecret (ni_connectionSecretUUID info)
                 (n0\<lparr>nd_isReplicated := ni_isReplicated info,
                     nd_isUpstream := isUpstream \<or> NodeType_isUpstream (ni_type info)\<rparr>);
          n2 = n1\<lparr>nd_permissions := ni_permissions info, np_localID := ni_sessionLocalID info, nd_awaitsActivation := True\<rparr>;
          r = length (nl_heap l6)
      in (r, out1 @ out2 @ out3 @ out4 @ out5 @ [NlNodeAdded r],
          l6\<lparr>nl_heap := nl_heap l6 @ [n2], nl_nodeHash := cmap_insert (ni_uuid info) r (nl_nodeHash l6),
             nl_localIDMap := cmap_insert (ni_sessionLocalID info) r (nl_localIDMap l6)\<rparr>))"

(* @src libraries/networking/src/LimitedNodeList.cpp 690-783 LimitedNodeList::addOrUpdateNode *)
definition LimitedNodeList_addOrUpdateNode ::
  "int \<Rightarrow> 'addr new_node_info \<Rightarrow> bool \<Rightarrow> 'addr node_list \<Rightarrow> nat \<times> 'addr nl_event list \<times> 'addr node_list" where
  "LimitedNodeList_addOrUpdateNode now info isUpstream l =
     (case LimitedNodeList_nodeWithUUID (ni_uuid info) l of
        Some r \<Rightarrow> (r, LimitedNodeList_updateNode r info isUpstream l)
      | None \<Rightarrow> LimitedNodeList_insertNode now info isUpstream l)"

text \<open>An activation on a node of the list; the first one is announced.\<close>

(* @src libraries/networking/src/LimitedNodeList.cpp 763-774 LimitedNodeList::addOrUpdateNode(socketActivated) *)
definition nl_activated :: "nat \<Rightarrow> 'addr node \<times> bool \<Rightarrow> 'addr node_list \<Rightarrow> 'addr nl_event list \<times> 'addr node_list" where
  "nl_activated r activation l =
     (let (n, activated) = activation
      in if activated \<and> nd_awaitsActivation n
         then ([NlNodeActivated r], nl_setNode r (n\<lparr>nd_awaitsActivation := False\<rparr>) l)
         else ([], nl_setNode r n l))"

section \<open>The rate of new agents\<close>

(* @src libraries/networking/src/LimitedNodeList.cpp 799-801 LimitedNodeList::delayNodeAdd *)
definition LimitedNodeList_delayNodeAdd :: "'addr new_node_info \<Rightarrow> 'addr node_list \<Rightarrow> 'addr node_list" where
  "LimitedNodeList_delayNodeAdd info l = l\<lparr>nl_delayedNodeAdds := nl_delayedNodeAdds l @ [info]\<rparr>"

(* @src libraries/networking/src/LimitedNodeList.cpp 785-797 LimitedNodeList::addNewNode *)
definition LimitedNodeList_addNewNode ::
  "int \<Rightarrow> 'addr new_node_info \<Rightarrow> 'addr node_list \<Rightarrow> 'addr nl_event list \<times> 'addr node_list" where
  "LimitedNodeList_addNewNode now info l =
     (if ni_type info = NodeType_Agent \<and> nl_nodesAddedInCurrentTimeSlice l \<ge> nl_maxConnectionRate l
      then ([], LimitedNodeList_delayNodeAdd info l)
      else (let (_, out, l1) = LimitedNodeList_addOrUpdateNode now info False l
            in (out, l1\<lparr>nl_nodesAddedInCurrentTimeSlice := nl_nodesAddedInCurrentTimeSlice l1 + 1\<rparr>)))"

(* @src libraries/networking/src/LimitedNodeList.cpp 803-810 LimitedNodeList::removeDelayedAdd *)
definition LimitedNodeList_removeDelayedAdd :: "uuid \<Rightarrow> 'addr node_list \<Rightarrow> 'addr node_list" where
  "LimitedNodeList_removeDelayedAdd nodeUUID l =
     l\<lparr>nl_delayedNodeAdds := takeWhile (\<lambda>i. ni_uuid i \<noteq> nodeUUID) (nl_delayedNodeAdds l)
          @ drop 1 (dropWhile (\<lambda>i. ni_uuid i \<noteq> nodeUUID) (nl_delayedNodeAdds l))\<rparr>"

(* @src libraries/networking/src/LimitedNodeList.cpp 812-817 LimitedNodeList::isDelayedNode *)
definition LimitedNodeList_isDelayedNode :: "uuid \<Rightarrow> 'addr node_list \<Rightarrow> bool" where
  "LimitedNodeList_isDelayedNode nodeUUID l \<longleftrightarrow> (\<exists>i \<in> set (nl_delayedNodeAdds l). ni_uuid i = nodeUUID)"

(* @src libraries/networking/src/LimitedNodeList.cpp 826-828 LimitedNodeList::processDelayedAdds(for) *)
primrec nl_addNewNodes :: "int \<Rightarrow> 'addr new_node_info list \<Rightarrow> 'addr node_list \<Rightarrow> 'addr nl_event list \<times> 'addr node_list" where
  "nl_addNewNodes now [] l = ([], l)"
| "nl_addNewNodes now (i # is) l =
     (let (out, l1) = LimitedNodeList_addNewNode now i l;
          (out', l2) = nl_addNewNodes now is l1
      in (out @ out', l2))"

(* @src libraries/networking/src/LimitedNodeList.cpp 819-830 LimitedNodeList::processDelayedAdds *)
definition LimitedNodeList_processDelayedAdds :: "int \<Rightarrow> 'addr node_list \<Rightarrow> 'addr nl_event list \<times> 'addr node_list" where
  "LimitedNodeList_processDelayedAdds now l =
     (let l0 = l\<lparr>nl_nodesAddedInCurrentTimeSlice := 0\<rparr>;
          nodesToAdd = min (length (nl_delayedNodeAdds l0)) (nl_maxConnectionRate l0);
          (out, l1) = nl_addNewNodes now (take nodesToAdd (nl_delayedNodeAdds l0)) l0
      in (out, l1\<lparr>nl_delayedNodeAdds := drop nodesToAdd (nl_delayedNodeAdds l1)\<rparr>))"

section \<open>Verification of what arrives\<close>

definition nl_sender :: "('addr option, 'm) packet_scheme \<Rightarrow> 'addr option" where
  "nl_sender packet = (case bp_senderSockAddr packet of None \<Rightarrow> None | Some a \<Rightarrow> a)"

(* @src libraries/networking/src/LimitedNodeList.cpp 257-304 LimitedNodeList::packetVersionMatch *)
definition LimitedNodeList_packetVersionMatch ::
  "('addr option, 'm) packet_scheme \<Rightarrow> 'addr node_list \<Rightarrow> (bool \<times> 'addr nl_event list \<times> 'addr node_list) option" where
  "LimitedNodeList_packetVersionMatch packet l =
     do { headerType \<leftarrow> NLPacket_typeInHeader packet;
          headerVersion \<leftarrow> NLPacket_versionInHeader packet;
          if headerVersion = versionForPacketType headerType then Some (True, [], l)
          else if headerType \<in> getNonSourcedPackets then
            Some (if (nl_sender packet, headerType) \<in> set (nl_versionDebugSuppress l) then (False, [], l)
                  else (False, [NlPacketVersionMismatch headerType (nl_sender packet) 0],
                        l\<lparr>nl_versionDebugSuppress := (nl_sender packet, headerType) # nl_versionDebugSuppress l\<rparr>))
          else do {
            sourceLocalID \<leftarrow> NLPacket_sourceIDInHeader packet;
            Some (case LimitedNodeList_nodeWithLocalID sourceLocalID l of
                None \<Rightarrow> (False, [NlPacketVersionMismatch headerType (nl_sender packet) 0], l)
              | Some r \<Rightarrow>
                  (let sourceID = np_uuid (nl_node l r)
                   in if (sourceID, headerType) \<in> set (nl_sourcedVersionDebugSuppress l) then (False, [], l)
                      else (False, [NlPacketVersionMismatch headerType (nl_sender packet) sourceID],
                            l\<lparr>nl_sourcedVersionDebugSuppress :=
                                (sourceID, headerType) # nl_sourcedVersionDebugSuppress l\<rparr>))) } }"

text \<open>The original of a replicated type; \<open>PT_Unknown\<close> when there is none.\<close>

definition replicatedKey :: "packet_type \<Rightarrow> packet_type" where
  "replicatedKey type = (case find (\<lambda>(_, v). v = type) getReplicatedPacketMapping of
     None \<Rightarrow> PT_Unknown | Some (k, _) \<Rightarrow> k)"

text \<open>The hash of a packet against the one a source should have written; the source's hash context is threaded.\<close>

(* @src libraries/networking/src/LimitedNodeList.cpp 365-388 LimitedNodeList::packetSourceAndHashMatchAndTrackBandwidth(hash) *)
definition nl_hashMatches ::
  "mac \<Rightarrow> ('addr option, 'm) packet_scheme \<Rightarrow> nat \<Rightarrow> 'addr node_list \<Rightarrow> (bool \<times> 'addr node_list) option" where
  "nl_hashMatches mac packet r l =
     do { packetHeaderHash \<leftarrow> NLPacket_verificationHashInHeader packet;
          case nd_authenticateHash (nl_node l r) of
            None \<Rightarrow> Some (False, l)
          | Some auth \<Rightarrow>
              do { (expectedHash, auth') \<leftarrow> NLPacket_hashForPacketAndHMAC mac packet auth;
                   Some (packetHeaderHash = expectedHash,
                     nl_setNode r ((nl_node l r)\<lparr>nd_authenticateHash := Some auth'\<rparr>) l) } }"

(* @src libraries/networking/src/LimitedNodeList.cpp 306-403 LimitedNodeList::packetSourceAndHashMatchAndTrackBandwidth *)
definition LimitedNodeList_packetSourceAndHashMatch ::
  "mac \<Rightarrow> int \<Rightarrow> ('addr option, 'm) packet_scheme \<Rightarrow> nat option \<Rightarrow> 'addr node_list
    \<Rightarrow> (bool \<times> 'addr node_list) option" where
  "LimitedNodeList_packetSourceAndHashMatch mac now packet sourceNode l =
     do { headerType \<leftarrow> NLPacket_typeInHeader packet;
          if headerType \<in> getNonSourcedPackets then
            Some (if replicatedKey headerType \<noteq> PT_Unknown
                  then \<exists>(_, r) \<in> set (nl_nodeHash l). NodeType_isUpstream (nd_type (nl_node l r))
                         \<and> np_publicSocket (nl_node l r) = nl_sender packet
                  else True, l)
          else do {
            (sourceLocalID, source) \<leftarrow>
              (case sourceNode of
                 Some r \<Rightarrow> Some (0, Some r)
               | None \<Rightarrow> map_option (\<lambda>i. (i, LimitedNodeList_nodeWithLocalID i l)) (NLPacket_sourceIDInHeader packet));
            case source of
              None \<Rightarrow>
                Some (\<not> nl_isDomainServer l \<and> sourceLocalID = nl_domainLocalID l
                  \<and> nl_sender packet = nl_domainSockAddr l \<and> headerType \<in> getDomainSourcedPackets, l)
            | Some r \<Rightarrow>
                do { let verifiedPacket = headerType \<notin> getNonVerifiedPackets;
                     let verificationEnabled =
                       \<not> (nl_isDomainServer l \<and> headerType \<in> getDomainIgnoredVerificationPackets) \<and> nl_useAuthentication l;
                     (ok, l1) \<leftarrow> (if verifiedPacket \<and> verificationEnabled then nl_hashMatches mac packet r l
                                 else Some (True, l));
                     Some (if \<not> ok then (False, l1)
                           else (True, nl_setNode r ((nl_node l1 r)\<lparr>np_lastHeardMicrostamp := now\<rparr>) l1)) } } }"

(* @src libraries/networking/src/LimitedNodeList.cpp 249-255 LimitedNodeList::isPacketVerifiedWithSource *)
definition LimitedNodeList_isPacketVerifiedWithSource ::
  "mac \<Rightarrow> int \<Rightarrow> ('addr option, 'm) packet_scheme \<Rightarrow> nat option \<Rightarrow> 'addr node_list
    \<Rightarrow> (bool \<times> 'addr nl_event list \<times> 'addr node_list) option" where
  "LimitedNodeList_isPacketVerifiedWithSource mac now packet sourceNode l =
     do { (versionOk, out, l1) \<leftarrow> LimitedNodeList_packetVersionMatch packet l;
          if \<not> versionOk then Some (False, out, l1)
          else do { (ok, l2) \<leftarrow> LimitedNodeList_packetSourceAndHashMatch mac now packet sourceNode l1;
                    Some (ok, out, l2) } }"

(* @src libraries/networking/src/LimitedNodeList.h 314-314 LimitedNodeList::isPacketVerified *)
definition LimitedNodeList_isPacketVerified ::
  "mac \<Rightarrow> int \<Rightarrow> ('addr option, 'm) packet_scheme \<Rightarrow> 'addr node_list \<Rightarrow> (bool \<times> 'addr nl_event list \<times> 'addr node_list) option" where
  "LimitedNodeList_isPacketVerified mac now packet l = LimitedNodeList_isPacketVerifiedWithSource mac now packet None l"

text \<open>
  A datagram that is read: the packet the socket asks the list to verify, if it is a data packet of a peer
  without an unfiltered handler, and the reading itself with the verdict as the socket's filter.
\<close>

definition nl_asked :: "'addr option arrival \<Rightarrow> 'addr node_list \<Rightarrow> 'addr option packet option" where
  "nl_asked d l =
     (if ar_sizeRead d \<le> 0 \<or> map_of (sk_unfilteredHandlers (nl_nodeSocket l)) (ar_sender d) \<noteq> None then None
      else case read32 (ar_buffer d) 0 of
        Some bitField \<Rightarrow> if bitField AND CONTROL_BIT_MASK \<noteq> 0 then None
          else map_option (\<lambda>p. p\<lparr>bp_receiveTime := ar_receiveTime d\<rparr>)
                 (Packet_fromReceivedPacket (ar_buffer d) (ar_size d) (ar_sender d))
      | None \<Rightarrow> None)"

(* @src libraries/networking/src/LimitedNodeList.cpp 112-130 LimitedNodeList::LimitedNodeList(operators) *)
definition LimitedNodeList_readDatagram ::
  "mac \<Rightarrow> 'addr option arrival \<Rightarrow> 'addr node_list \<Rightarrow> ('addr nl_event list \<times> 'addr node_list) option" where
  "LimitedNodeList_readDatagram mac d l =
     do { (verdict, events, l1) \<leftarrow> (case nl_asked d l of None \<Rightarrow> Some (False, [], l)
            | Some packet \<Rightarrow> LimitedNodeList_isPacketVerified mac (ar_now d) packet l);
          (out, s) \<leftarrow> Socket_readDatagram d ((nl_socket l)\<lparr>sk_packetFilterOperator := Some (\<lambda>_. verdict)\<rparr>);
          Some (events @ map NlSocket out, l1\<lparr>nl_nodeSocket := s\<rparr>) }"

section \<open>Sending\<close>

text \<open>
  \<open>auth\<close> is the node whose hash context is passed, if any. A packet that is sent unreliably stays with the
  caller, with what was filled into its header; the socket writes the sequence number anew for each datagram.
\<close>

(* @src libraries/networking/src/LimitedNodeList.cpp 405-415 LimitedNodeList::fillPacketHeader *)
definition LimitedNodeList_fillPacketHeader ::
  "mac \<Rightarrow> 'addr option nl_packet \<Rightarrow> nat option \<Rightarrow> 'addr node_list \<Rightarrow> ('addr option nl_packet \<times> 'addr node_list) option" where
  "LimitedNodeList_fillPacketHeader mac packet auth l =
     do { p1 \<leftarrow> (if nl_type packet \<notin> getNonSourcedPackets
                then NLPacket_writeSourceID (nl_sessionLocalID l) packet else Some packet);
          case (auth, Option.bind auth (\<lambda>r. nd_authenticateHash (nl_node l r))) of
            (Some r, Some hmacAuth) \<Rightarrow>
              if nl_useAuthentication l \<and> nl_type packet \<notin> getNonSourcedPackets \<and> nl_type packet \<notin> getNonVerifiedPackets
              then do { (p2, h) \<leftarrow> NLPacket_writeVerificationHash mac hmacAuth p1;
                        Some (p2, nl_setNode r ((nl_node l r)\<lparr>nd_authenticateHash := Some h\<rparr>) l) }
              else Some (p1, l)
          | _ \<Rightarrow> Some (p1, l) }"

(* @src libraries/networking/src/LimitedNodeList.cpp 417-417 ERROR_SENDING_PACKET_BYTES *)
definition ERROR_SENDING_PACKET_BYTES :: int where
  "ERROR_SENDING_PACKET_BYTES = -1"

(* @src libraries/networking/src/LimitedNodeList.cpp 429-448 LimitedNodeList::sendUnreliablePacket(SockAddr) *)
definition LimitedNodeList_sendUnreliablePacketTo ::
  "mac \<Rightarrow> int \<Rightarrow> int \<Rightarrow> 'addr option nl_packet \<Rightarrow> 'addr option \<Rightarrow> nat option \<Rightarrow> 'addr node_list
    \<Rightarrow> (int \<times> 'addr option nl_packet \<times> 'addr nl_event list \<times> 'addr node_list) option" where
  "LimitedNodeList_sendUnreliablePacketTo mac random now packet sockAddr auth l =
     (if nl_dropOutgoingNodeTraffic l \<and> LimitedNodeList_findNodeWithAddr sockAddr l \<noteq> None
      then Some (ERROR_SENDING_PACKET_BYTES, packet, [], l)
      else do { (p, l1) \<leftarrow> LimitedNodeList_fillPacketHeader mac packet auth l;
                (bytes, out, s) \<leftarrow> Socket_writePacket random now (packet.truncate p) sockAddr (nl_socket l1);
                Some (bytes, p, map NlSocket out, l1\<lparr>nl_nodeSocket := s\<rparr>) })"

(* @src libraries/networking/src/LimitedNodeList.cpp 419-427 LimitedNodeList::sendUnreliablePacket(Node) *)
definition LimitedNodeList_sendUnreliablePacket ::
  "mac \<Rightarrow> int \<Rightarrow> int \<Rightarrow> 'addr option nl_packet \<Rightarrow> nat \<Rightarrow> 'addr node_list
    \<Rightarrow> (int \<times> 'addr option nl_packet \<times> 'addr nl_event list \<times> 'addr node_list) option" where
  "LimitedNodeList_sendUnreliablePacket mac random now packet r l =
     (case NetworkPeer_getActiveSocket (nl_node l r) of None \<Rightarrow> Some (0, packet, [], l)
      | Some a \<Rightarrow> LimitedNodeList_sendUnreliablePacketTo mac random now packet a (Some r) l)"

text \<open>The statistics logged after an error are left out.\<close>

(* @src libraries/networking/src/LimitedNodeList.cpp 462-489 LimitedNodeList::sendPacket(SockAddr) *)
definition LimitedNodeList_sendPacketTo ::
  "mac \<Rightarrow> int \<Rightarrow> int \<Rightarrow> 'addr option nl_packet \<Rightarrow> 'addr option \<Rightarrow> nat option \<Rightarrow> 'addr node_list
    \<Rightarrow> (int \<times> 'addr nl_event list \<times> 'addr node_list) option" where
  "LimitedNodeList_sendPacketTo mac random now packet sockAddr auth l =
     (if pkt_isReliable packet then
        do { (p, l1) \<leftarrow> LimitedNodeList_fillPacketHeader mac packet auth l;
             (_, out, s) \<leftarrow> Socket_writeOwnedPacket random now (packet.truncate p) sockAddr (nl_socket l1);
             Some (BasePacket_getDataSize p, map NlSocket out, l1\<lparr>nl_nodeSocket := s\<rparr>) }
      else map_option (\<lambda>(bytes, _, out, l'). (bytes, out, l'))
             (LimitedNodeList_sendUnreliablePacketTo mac random now packet sockAddr auth l))"

(* @src libraries/networking/src/LimitedNodeList.cpp 450-460 LimitedNodeList::sendPacket(Node) *)
definition LimitedNodeList_sendPacket ::
  "mac \<Rightarrow> int \<Rightarrow> int \<Rightarrow> 'addr option nl_packet \<Rightarrow> nat \<Rightarrow> 'addr node_list
    \<Rightarrow> (int \<times> 'addr nl_event list \<times> 'addr node_list) option" where
  "LimitedNodeList_sendPacket mac random now packet r l =
     (case NetworkPeer_getActiveSocket (nl_node l r) of None \<Rightarrow> Some (ERROR_SENDING_PACKET_BYTES, [], l)
      | Some a \<Rightarrow> LimitedNodeList_sendPacketTo mac random now packet a (Some r) l)"

(* @src libraries/networking/src/LimitedNodeList.cpp 558-571 LimitedNodeList::sendPacket(override) *)
definition LimitedNodeList_sendPacketOverride ::
  "mac \<Rightarrow> int \<Rightarrow> int \<Rightarrow> 'addr option nl_packet \<Rightarrow> nat \<Rightarrow> 'addr option \<Rightarrow> 'addr node_list
    \<Rightarrow> (int \<times> 'addr nl_event list \<times> 'addr node_list) option" where
  "LimitedNodeList_sendPacketOverride mac random now packet r overridenSockAddr l =
     (if overridenSockAddr = None then
        (case NetworkPeer_getActiveSocket (nl_node l r) of None \<Rightarrow> Some (ERROR_SENDING_PACKET_BYTES, [], l)
         | Some a \<Rightarrow> LimitedNodeList_sendPacketTo mac random now packet a (Some r) l)
      else LimitedNodeList_sendPacketTo mac random now packet overridenSockAddr (Some r) l)"

text \<open>The packet goes to every node of the types; a reliable one is copied for each.\<close>

(* @src libraries/networking/src/LimitedNodeList.cpp 887-897 LimitedNodeList::broadcastToNodes(each) *)
primrec nl_broadcast ::
  "mac \<Rightarrow> int \<Rightarrow> int \<Rightarrow> 'addr option nl_packet \<Rightarrow> byte set \<Rightarrow> (uuid \<times> nat) list \<Rightarrow> 'addr node_list
    \<Rightarrow> (nat \<times> 'addr nl_event list \<times> 'addr node_list) option" where
  "nl_broadcast mac random now packet types [] l = Some (0, [], l)"
| "nl_broadcast mac random now packet types (e # es) l =
     (if nd_type (nl_node l (snd e)) \<in> types
      then do { (packet', out, l1) \<leftarrow>
                  (if pkt_isReliable packet
                   then do { packetCopy \<leftarrow> NLPacket_createCopy packet;
                             (_, out, l1) \<leftarrow> LimitedNodeList_sendPacket mac random now packetCopy (snd e) l;
                             Some (packet, out, l1) }
                   else map_option snd (LimitedNodeList_sendUnreliablePacket mac random now packet (snd e) l));
                (n, out', l2) \<leftarrow> nl_broadcast mac random now packet' types es l1;
                Some (n + 1, out @ out', l2) }
      else nl_broadcast mac random now packet types es l)"

(* @src libraries/networking/src/LimitedNodeList.cpp 884-900 LimitedNodeList::broadcastToNodes *)
definition LimitedNodeList_broadcastToNodes ::
  "mac \<Rightarrow> int \<Rightarrow> int \<Rightarrow> 'addr option nl_packet \<Rightarrow> byte set \<Rightarrow> 'addr node_list
    \<Rightarrow> (nat \<times> 'addr nl_event list \<times> 'addr node_list) option" where
  "LimitedNodeList_broadcastToNodes mac random now packet destinationNodeTypes l =
     nl_broadcast mac random now packet destinationNodeTypes (nl_nodeHash l) l"

end
