(* ===== verification/Nl_Wire.thy ===== *)
theory Nl_Wire
  imports Nl_Packet
begin

text \<open>
  Node list packets on the wire: the keyed hash as an interface and \<open>HMACAuth\<close> as its provider, the header
  fields of a packet in use, and what the receiver of a datagram finds in them.
\<close>

section \<open>The interface of a keyed hash\<close>

text \<open>
  What the verification relies on: a context that is ready for a key yields the tag of the data alone and is
  ready again, so one context serves any number of packets.
\<close>

locale keyed_hash =
  fixes calculate :: "byte list \<Rightarrow> 'h \<Rightarrow> byte list option \<times> 'h"
    and ready :: "byte list \<Rightarrow> 'h \<Rightarrow> bool"
    and tag :: "byte list \<Rightarrow> byte list \<Rightarrow> byte list"
  assumes calculate_ready: "ready key h \<Longrightarrow> \<exists>h'. calculate data h = (Some (tag key data), h') \<and> ready key h'"
begin

primrec calculate_all :: "byte list list \<Rightarrow> 'h \<Rightarrow> byte list option list \<times> 'h" where
  "calculate_all [] h = ([], h)"
| "calculate_all (d # ds) h =
     (let (t, h1) = calculate d h; (ts, h2) = calculate_all ds h1 in (t # ts, h2))"

lemma calculate_all_ready:
  assumes "ready key h"
  shows "\<exists>h'. calculate_all ds h = (map (\<lambda>d. Some (tag key d)) ds, h') \<and> ready key h'"
  using assms
proof (induction ds arbitrary: h)
  case (Cons d ds)
  obtain h1 where h1: "calculate d h = (Some (tag key d), h1)" "ready key h1"
    using calculate_ready [OF Cons.prems] by blast
  then show ?case
    using Cons.IH [OF h1(2)] by auto
qed simp

lemma calculate_tag: "ready key h \<Longrightarrow> fst (calculate data h) = Some (tag key data)"
  using calculate_ready [of key h data] by auto

lemma calculate_stays: "ready key h \<Longrightarrow> ready key (snd (calculate data h))"
  using calculate_ready [of key h data] by auto

end

definition ha_ready :: "byte list \<Rightarrow> hmac_auth \<Rightarrow> bool" where
  "ha_ready key h \<longleftrightarrow> ha_key h = Some key \<and> ha_data h = []"

lemma ha_ready_setKey [simp]: "ha_ready key (HMACAuth_setKey key h)"
  by (simp add: ha_ready_def HMACAuth_setKey_def)

lemma ha_ready_key: "ha_ready key h \<Longrightarrow> ha_ready key' h \<Longrightarrow> key' = key"
  by (simp add: ha_ready_def)

interpretation hmac: keyed_hash "HMACAuth_calculateHash mac" ha_ready mac for mac
proof
  fix key data h
  assume "ha_ready key h"
  then show "\<exists>h'. HMACAuth_calculateHash mac data h = (Some (mac key data), h') \<and> ha_ready key h'"
    by (simp add: ha_ready_def HMACAuth_calculateHash_def HMACAuth_addData_def HMACAuth_result_def)
qed

section \<open>The fields of the header\<close>

lemma nl_offset_eq: "nl_offset p = pkt_header p"
  by (simp add: nl_offset_def Packet_totalHeaderSize_def BasePacket_totalHeaderSize_def BasePacket_localHeaderSize_def)

text \<open>The bytes the hash covers, and where they begin.\<close>

definition nl_hashed_from :: "('addr, 'm) packet_scheme \<Rightarrow> nat" where
  "nl_hashed_from p = pkt_header p + 1 + 1 + NUM_BYTES_LOCALID + NUM_BYTES_MD5_HASH"

definition nl_hashed :: "('addr, 'm) packet_scheme \<Rightarrow> byte list" where
  "nl_hashed p = drop (nl_hashed_from p) (take (nat (BasePacket_getDataSize p)) (bp_packet p))"

lemma mem_read_same_rest:
  assumes "drop k buf' = drop k buf" and "length buf' = length buf" and "k \<le> off"
  shows "mem_read buf' off n = mem_read buf off n"
proof -
  have "drop off buf' = drop (off - k) (drop k buf')" and "drop off buf = drop (off - k) (drop k buf)"
    using assms(3) by simp_all
  then show ?thesis
    using assms(1,2) by (simp add: mem_read_def)
qed

lemma mem_read_take: "off + n \<le> k \<Longrightarrow> k \<le> length buf \<Longrightarrow> mem_read (take k buf) off n = mem_read buf off n"
  by (simp add: mem_read_def drop_take min_def)

lemma nl_hash_is:
  assumes "ha_ready key h" and "nl_hashed_from p \<le> nat (BasePacket_getDataSize p)"
    and "nat (BasePacket_getDataSize p) \<le> length (bp_packet p)"
  shows "\<exists>h'. NLPacket_hashForPacketAndHMAC mac p h = Some (mac key (nl_hashed p), h') \<and> ha_ready key h'"
proof -
  have f: "nl_offset p + 1 + 1 + NUM_BYTES_LOCALID + NUM_BYTES_MD5_HASH = nl_hashed_from p"
    by (simp add: nl_offset_eq nl_hashed_from_def)
  have l: "\<not> BasePacket_getDataSize p - int (nl_hashed_from p) < 0"
    using assms(2) by (simp add: nl_hashed_from_def)
  have n: "nat (BasePacket_getDataSize p - int (nl_hashed_from p)) = nat (BasePacket_getDataSize p) - nl_hashed_from p"
    by simp
  have r: "mem_read (bp_packet p) (nl_hashed_from p) (nat (BasePacket_getDataSize p) - nl_hashed_from p) = Some (nl_hashed p)"
    using assms(2,3) by (simp add: mem_read_def nl_hashed_def drop_take)
  obtain h' where "HMACAuth_calculateHash mac (nl_hashed p) h = (Some (mac key (nl_hashed p)), h')" "ha_ready key h'"
    using hmac.calculate_ready [OF assms(1)] by blast
  then show ?thesis
    using l unfolding NLPacket_hashForPacketAndHMAC_def Let_def f n r by simp
qed

section \<open>Packets in use\<close>

text \<open>
  The invariant of a node list packet: that of the transport packet, the payload right after the header,
  and type and version written out.
\<close>

definition nl_inv :: "'addr nl_packet \<Rightarrow> bool" where
  "nl_inv p \<longleftrightarrow> pkt_inv p \<and> bp_payloadStart p = pkt_header p + NLPacket_localHeaderSize (nl_type p)
     \<and> NLPacket_typeInHeader p = Some (nl_type p) \<and> NLPacket_versionInHeader p = Some (nl_version p)"

abbreviation nl_sourced :: "packet_type \<Rightarrow> bool" where
  "nl_sourced type \<equiv> type \<notin> getNonSourcedPackets"

abbreviation nl_signed :: "packet_type \<Rightarrow> bool" where
  "nl_signed type \<equiv> type \<notin> getNonSourcedPackets \<and> type \<notin> getNonVerifiedPackets"

lemma nl_header_size:
  "nl_sourced type \<Longrightarrow> 1 + 1 + NUM_BYTES_LOCALID \<le> NLPacket_localHeaderSize type"
  "nl_signed type \<Longrightarrow> NLPacket_localHeaderSize type = 1 + 1 + NUM_BYTES_LOCALID + NUM_BYTES_MD5_HASH"
  "1 + 1 \<le> NLPacket_localHeaderSize type"
  by (simp_all add: NLPacket_localHeaderSize_def Let_def)

lemma nl_inv_sizes:
  assumes "nl_inv p"
  shows "bp_payloadStart p \<le> nat (BasePacket_getDataSize p)" and "nat (BasePacket_getDataSize p) \<le> length (bp_packet p)"
    and "BasePacket_getDataSize p = int (nat (BasePacket_getDataSize p))"
  using assms by (auto simp: nl_inv_def pkt_inv_def bp_inv_def BasePacket_sizes)

lemma pkt_inv_written:
  assumes p: "pkt_inv p" and o: "pkt_header p \<le> off" "off + length src \<le> length (bp_packet p)"
  shows "\<exists>buf. mem_write (bp_packet p) off src = Some buf \<and> length buf = length (bp_packet p)
    \<and> pkt_inv (p\<lparr>bp_packet := buf\<rparr>)"
proof -
  obtain buf where w: "mem_write (bp_packet p) off src = Some buf"
    using o(2) by (auto simp: mem_write_def)
  note l = mem_write_length [OF w]
  have "Packet_header_in p buf"
    using p o(1) mem_read_write_before [OF w]
    by (auto simp: pkt_inv_def Packet_header_in_def Packet_localHeaderSize_def split: if_splits)
  then have "Packet_header_in (p\<lparr>bp_packet := buf\<rparr>) buf"
    by (rule Packet_header_in_cong) simp_all
  then have "pkt_inv (p\<lparr>bp_packet := buf\<rparr>)"
    using p l by (simp add: pkt_inv_def bp_inv_def pkt_wf_def)
  with w l show ?thesis by blast
qed

lemma nl_inv_written:
  assumes p: "nl_inv p" and o: "pkt_header p + 2 \<le> off" "off + length src \<le> length (bp_packet p)"
  shows "\<exists>buf. mem_write (bp_packet p) off src = Some buf \<and> length buf = length (bp_packet p)
    \<and> nl_inv (p\<lparr>bp_packet := buf\<rparr>)"
proof -
  obtain buf where w: "mem_write (bp_packet p) off src = Some buf" "length buf = length (bp_packet p)"
      "pkt_inv (p\<lparr>bp_packet := buf\<rparr>)"
    using pkt_inv_written [of p off src] p o by (auto simp: nl_inv_def)
  moreover have "NLPacket_typeInHeader (p\<lparr>bp_packet := buf\<rparr>) = NLPacket_typeInHeader p"
      "NLPacket_versionInHeader (p\<lparr>bp_packet := buf\<rparr>) = NLPacket_versionInHeader p"
    using mem_read_write_before [OF w(1)] o(1)
    by (simp_all add: NLPacket_typeInHeader_def NLPacket_versionInHeader_def nl_offset_eq)
  ultimately show ?thesis
    using p by (auto simp: nl_inv_def)
qed

lemma writeTypeAndVersion_laws:
  assumes p: "pkt_inv p" and st: "bp_payloadStart p = pkt_header p + NLPacket_localHeaderSize (nl_type p)"
  shows "\<exists>buf. NLPacket_writeTypeAndVersion p = Some (p\<lparr>bp_packet := buf\<rparr>) \<and> nl_inv (p\<lparr>bp_packet := buf\<rparr>)"
proof -
  have o: "pkt_header p + 2 \<le> length (bp_packet p)"
    using p st nl_header_size(3) [of "nl_type p"] by (auto simp: pkt_inv_def bp_inv_def)
  obtain b1 where 1: "mem_write (bp_packet p) (pkt_header p) [nl_type p] = Some b1" "length b1 = length (bp_packet p)"
      "pkt_inv (p\<lparr>bp_packet := b1\<rparr>)"
    using pkt_inv_written [OF p, of "pkt_header p" "[nl_type p]"] o by auto
  obtain b2 where 2: "mem_write b1 (pkt_header p + 1) [nl_version p] = Some b2"
      "pkt_inv (p\<lparr>bp_packet := b2\<rparr>)"
    using pkt_inv_written [OF 1(3), of "pkt_header p + 1" "[nl_version p]"] o 1(2) by auto
  have "mem_read b2 (pkt_header p) 1 = Some [nl_type p]" "mem_read b2 (pkt_header p + 1) 1 = Some [nl_version p]"
    using mem_read_write_before [OF 2(1), of "pkt_header p" 1] mem_read_write_same [OF 1(1), of 1]
      mem_read_write_same [OF 2(1), of 1] by simp_all
  then have "nl_inv (p\<lparr>bp_packet := b2\<rparr>)"
    using 2(2) st by (simp add: nl_inv_def NLPacket_typeInHeader_def NLPacket_versionInHeader_def nl_offset_eq)
  then show ?thesis
    using 1(1) 2(1) by (intro exI [of _ b2]) (simp add: NLPacket_writeTypeAndVersion_def nl_offset_eq)
qed

lemma nl_inv_sourceField: "nl_inv (p\<lparr>nl_sourceID := i\<rparr>) \<longleftrightarrow> nl_inv p"
proof -
  have "Packet_header_in (p\<lparr>nl_sourceID := i\<rparr>) (bp_packet p) \<longleftrightarrow> Packet_header_in p (bp_packet p)"
    by (simp add: Packet_header_in_def Packet_headerWord_def cong: if_cong)
  then show ?thesis
    by (simp add: nl_inv_def pkt_inv_def bp_inv_def pkt_wf_def NLPacket_typeInHeader_def NLPacket_versionInHeader_def
        nl_offset_eq)
qed

lemma nl_hashed_written:
  assumes "mem_write (bp_packet p) off src = Some buf" and "off + length src \<le> nl_hashed_from p"
  shows "nl_hashed (p\<lparr>bp_packet := buf\<rparr>) = nl_hashed p"
proof -
  have "drop (nl_hashed_from p) buf = drop (nl_hashed_from p) (bp_packet p)"
    by (rule mem_write_drop [OF assms])
  then show ?thesis
    by (simp add: nl_hashed_def nl_hashed_from_def drop_take BasePacket_sizes)
qed

lemma writeSourceID_laws:
  assumes p: "nl_inv p" and t: "nl_sourced (nl_type p)"
  shows "\<exists>buf. NLPacket_writeSourceID i p = Some (p\<lparr>bp_packet := buf, nl_sourceID := Some i\<rparr>)
    \<and> nl_inv (p\<lparr>bp_packet := buf, nl_sourceID := Some i\<rparr>) \<and> nl_hashed (p\<lparr>bp_packet := buf\<rparr>) = nl_hashed p
    \<and> NLPacket_sourceIDInHeader (p\<lparr>bp_packet := buf\<rparr>) = Some i
    \<and> drop (bp_payloadStart p) buf = drop (bp_payloadStart p) (bp_packet p)"
proof -
  have o: "pkt_header p + 1 + 1 + length (le16 i) \<le> bp_payloadStart p"
    using p nl_header_size(1) [OF t] by (simp add: nl_inv_def NUM_BYTES_LOCALID_def)
  then obtain buf where w: "mem_write (bp_packet p) (pkt_header p + 1 + 1) (le16 i) = Some buf"
      and q: "nl_inv (p\<lparr>bp_packet := buf\<rparr>)"
    using nl_inv_written [OF p, of "pkt_header p + 1 + 1" "le16 i"] nl_inv_sizes [OF p] o by auto
  have "NLPacket_sourceIDInHeader (p\<lparr>bp_packet := buf\<rparr>) = Some i"
    using mem_read_write_same [OF w, of 2] by (simp add: NLPacket_sourceIDInHeader_def nl_offset_eq)
  moreover have "nl_hashed (p\<lparr>bp_packet := buf\<rparr>) = nl_hashed p"
    by (rule nl_hashed_written [OF w]) (simp add: nl_hashed_from_def NUM_BYTES_LOCALID_def)
  moreover have "drop (bp_payloadStart p) buf = drop (bp_payloadStart p) (bp_packet p)"
    by (rule mem_write_drop [OF w o])
  moreover have "nl_inv (p\<lparr>bp_packet := buf, nl_sourceID := Some i\<rparr>)"
    using q nl_inv_sourceField [where p = "p\<lparr>bp_packet := buf\<rparr>" and i = "Some i"] by simp
  ultimately show ?thesis
    using w by (intro exI [of _ buf]) (simp add: NLPacket_writeSourceID_def nl_offset_eq)
qed

lemma writeVerificationHash_laws:
  assumes p: "nl_inv p" and t: "nl_signed (nl_type p)" and h: "ha_ready key h" and m: "\<And>d. length (mac key d) = 16"
  shows "\<exists>buf h'. NLPacket_writeVerificationHash mac h p = Some (p\<lparr>bp_packet := buf\<rparr>, h') \<and> ha_ready key h'
    \<and> nl_inv (p\<lparr>bp_packet := buf\<rparr>) \<and> nl_hashed (p\<lparr>bp_packet := buf\<rparr>) = nl_hashed p
    \<and> NLPacket_sourceIDInHeader (p\<lparr>bp_packet := buf\<rparr>) = NLPacket_sourceIDInHeader p
    \<and> NLPacket_verificationHashInHeader (p\<lparr>bp_packet := buf\<rparr>) = Some (mac key (nl_hashed p))
    \<and> drop (bp_payloadStart p) buf = drop (bp_payloadStart p) (bp_packet p)"
proof -
  let ?off = "pkt_header p + 1 + 1 + NUM_BYTES_LOCALID" and ?tag = "mac key (nl_hashed p)"
  have o: "?off + length ?tag \<le> bp_payloadStart p" and f: "?off + length ?tag = nl_hashed_from p"
    using p nl_header_size(2) [OF t]
    by (simp_all add: nl_inv_def m nl_hashed_from_def NUM_BYTES_LOCALID_def NUM_BYTES_MD5_HASH_def)
  obtain h' where h': "NLPacket_hashForPacketAndHMAC mac p h = Some (?tag, h')" "ha_ready key h'"
    using nl_hash_is [OF h, of p mac] o nl_inv_sizes [OF p] unfolding f by auto
  obtain buf where w: "mem_write (bp_packet p) ?off ?tag = Some buf" and q: "nl_inv (p\<lparr>bp_packet := buf\<rparr>)"
    using nl_inv_written [OF p, of ?off ?tag] o nl_inv_sizes [OF p] by auto
  have "NLPacket_verificationHashInHeader (p\<lparr>bp_packet := buf\<rparr>) = Some ?tag"
    using mem_read_write_same [OF w, of 16]
    by (simp add: NLPacket_verificationHashInHeader_def nl_offset_eq m NUM_BYTES_MD5_HASH_def)
  moreover have "NLPacket_sourceIDInHeader (p\<lparr>bp_packet := buf\<rparr>) = NLPacket_sourceIDInHeader p"
    using mem_read_write_before [OF w, of "pkt_header p + 1 + 1" 2]
    by (simp add: NLPacket_sourceIDInHeader_def nl_offset_eq NUM_BYTES_LOCALID_def)
  moreover have "nl_hashed (p\<lparr>bp_packet := buf\<rparr>) = nl_hashed p"
    by (rule nl_hashed_written [OF w]) (use f in simp)
  moreover have "drop (bp_payloadStart p) buf = drop (bp_payloadStart p) (bp_packet p)"
    by (rule mem_write_drop [OF w o])
  ultimately show ?thesis
    using q w h' by (intro exI [of _ buf] exI [of _ h']) (simp add: NLPacket_writeVerificationHash_def nl_offset_eq)
qed

section \<open>What the receiver finds\<close>

text \<open>
  A packet \<open>q\<close> that arrived holds, after the transport header, the bytes of the packet \<open>p\<close> that was sent.
\<close>

definition nl_arrived :: "'addr nl_packet \<Rightarrow> 'b packet \<Rightarrow> bool" where
  "nl_arrived p q \<longleftrightarrow> pkt_isPartOfMessage q = pkt_isPartOfMessage p
     \<and> drop (pkt_header p) (bp_packet q) = drop (pkt_header p) (take (nat (BasePacket_getDataSize p)) (bp_packet p))
     \<and> length (bp_packet q) = nat (BasePacket_getDataSize p) \<and> BasePacket_getDataSize q = BasePacket_getDataSize p
     \<and> bp_payloadStart q = pkt_header p"

lemma nl_arrived_fields:
  assumes p: "nl_inv p" and arr: "nl_arrived p q"
  shows "NLPacket_typeInHeader q = Some (nl_type p)" and "NLPacket_versionInHeader q = Some (nl_version p)"
    and "nl_sourced (nl_type p) \<Longrightarrow> NLPacket_sourceIDInHeader q = NLPacket_sourceIDInHeader p"
    and "nl_signed (nl_type p) \<Longrightarrow> NLPacket_verificationHashInHeader q = NLPacket_verificationHashInHeader p"
    and "nl_signed (nl_type p) \<Longrightarrow> nl_hashed_from q \<le> nat (BasePacket_getDataSize q)"
    and "nl_hashed q = nl_hashed p" and "nat (BasePacket_getDataSize q) \<le> length (bp_packet q)"
proof -
  obtain D where D: "nat (BasePacket_getDataSize p) = D" by blast
  have q: "pkt_isPartOfMessage q = pkt_isPartOfMessage p"
    "drop (pkt_header p) (bp_packet q) = drop (pkt_header p) (take D (bp_packet p))"
    "length (bp_packet q) = D" "BasePacket_getDataSize q = int D"
    using arr D nl_inv_sizes(3) [OF p] by (simp_all add: nl_arrived_def)
  note s = nl_inv_sizes [OF p, unfolded D]
  have start: "bp_payloadStart p = pkt_header p + NLPacket_localHeaderSize (nl_type p)"
    and f: "NLPacket_typeInHeader p = Some (nl_type p)" "NLPacket_versionInHeader p = Some (nl_version p)"
    using p by (simp_all add: nl_inv_def)
  have r: "mem_read (bp_packet q) (pkt_header p + i) n = mem_read (bp_packet p) (pkt_header p + i) n"
    if "i + n \<le> NLPacket_localHeaderSize (nl_type p)" for i n
  proof -
    have "mem_read (bp_packet q) (pkt_header p + i) n = mem_read (take D (bp_packet p)) (pkt_header p + i) n"
      by (rule mem_read_same_rest [OF q(2)]) (use q(3) s in simp_all)
    also have "\<dots> = mem_read (bp_packet p) (pkt_header p + i) n"
      by (rule mem_read_take) (use start s that in simp_all)
    finally show ?thesis .
  qed
  have "NLPacket_typeInHeader q = NLPacket_typeInHeader p" "NLPacket_versionInHeader q = NLPacket_versionInHeader p"
    using r [of 0 1] r [of 1 1] nl_header_size(3) [of "nl_type p"]
    by (simp_all add: NLPacket_typeInHeader_def NLPacket_versionInHeader_def nl_offset_eq q(1))
  then show "NLPacket_typeInHeader q = Some (nl_type p)" "NLPacket_versionInHeader q = Some (nl_version p)"
    using f by simp_all
  show "NLPacket_sourceIDInHeader q = NLPacket_sourceIDInHeader p" if "nl_sourced (nl_type p)"
    using r [of 2 2] nl_header_size(1) [OF that]
    by (simp add: NLPacket_sourceIDInHeader_def nl_offset_eq q(1) NUM_BYTES_LOCALID_def)
  show "NLPacket_verificationHashInHeader q = NLPacket_verificationHashInHeader p"
    and "nl_hashed_from q \<le> nat (BasePacket_getDataSize q)" if "nl_signed (nl_type p)"
    using r [of "2 + NUM_BYTES_LOCALID" NUM_BYTES_MD5_HASH] nl_header_size(2) [OF that] start s(1)
    by (simp_all add: NLPacket_verificationHashInHeader_def nl_offset_eq q(1,4) nl_hashed_from_def)
  have "drop (nl_hashed_from p) (bp_packet q) = drop (nl_hashed_from p - pkt_header p) (drop (pkt_header p) (bp_packet q))"
    by (simp add: nl_hashed_from_def ac_simps)
  also have "\<dots> = drop (nl_hashed_from p) (take D (bp_packet p))"
    unfolding q(2) by (simp add: nl_hashed_from_def ac_simps)
  finally show "nl_hashed q = nl_hashed p"
    by (simp add: nl_hashed_def q D nl_hashed_from_def)
  show "nat (BasePacket_getDataSize q) \<le> length (bp_packet q)"
    using q by simp
qed

lemma pkt_inv_truncate [simp]: "pkt_inv (packet.truncate p) = pkt_inv (p :: 'addr nl_packet)"
  by (simp add: pkt_inv_def bp_inv_def pkt_wf_def Packet_header_in_def Packet_headerWord_def packet.defs cong: if_cong)

text \<open>The sequence number and the obfuscation a packet gets on its way do not matter.\<close>

lemma nl_wire:
  fixes p :: "'addr nl_packet"
  assumes p: "nl_inv p" and clear: "pkt_obfuscationLevel p = NoObfuscation" and n: "seq_wf n"
  shows "\<exists>p1 p2 wire q. Packet_writeSequenceNumber n (packet.truncate p) = Some p1
    \<and> Packet_obfuscate level p1 = Some p2 \<and> BasePacket_wire p2 = Some wire
    \<and> Packet_fromReceivedPacket wire (int (length wire)) a = Some q
    \<and> nl_arrived p q \<and> bp_senderSockAddr q = Some a \<and> pkt_sequenceNumber q = n
    \<and> pkt_isReliable q = pkt_isReliable p \<and> pkt_isPartOfMessage q = pkt_isPartOfMessage p"
proof -
  let ?p = "packet.truncate p"
  have "pkt_inv ?p" using p by (simp add: nl_inv_def)
  then obtain p1 where p1: "Packet_writeSequenceNumber n ?p = Some p1" "pkt_inv p1"
    using Packet_writeSequenceNumber_inv [OF _ n] by blast
  then obtain buf where buf: "p1 = ?p\<lparr>pkt_sequenceNumber := n, bp_packet := buf\<rparr>" "length buf = length (bp_packet p)"
      "drop (pkt_header p) buf = drop (pkt_header p) (bp_packet p)"
    by (auto simp: Packet_writeSequenceNumber_def packet.defs dest!: Packet_writeHeader_cases)
  have f: "pkt_header p1 = pkt_header p" "BasePacket_getDataSize p1 = BasePacket_getDataSize p"
      "pkt_obfuscationLevel p1 = NoObfuscation" "pkt_sequenceNumber p1 = n" "bp_packet p1 = buf"
      "pkt_isReliable p1 = pkt_isReliable p" "pkt_isPartOfMessage p1 = pkt_isPartOfMessage p"
    using clear by (simp_all add: buf(1) packet.defs BasePacket_sizes)
  obtain D where D: "nat (BasePacket_getDataSize p) = D" by blast
  obtain p2 wire q where 2: "Packet_obfuscate level p1 = Some p2" "BasePacket_wire p2 = Some wire"
      "Packet_fromReceivedPacket wire (int (length wire)) a = Some q" "pkt_isReliable q = pkt_isReliable p"
      "pkt_isPartOfMessage q = pkt_isPartOfMessage p" "pkt_sequenceNumber q = n" "bp_senderSockAddr q = Some a"
      "BasePacket_getDataSize q = BasePacket_getDataSize p" "length (bp_packet q) = D"
      "drop (pkt_header p) (bp_packet q) = drop (pkt_header p) (take D buf)" "bp_payloadStart q = pkt_header p"
    using Packet_obfuscate_parse [OF p1(2) f(3), of level a] unfolding f D by metis
  have "drop (pkt_header p) (take D buf) = drop (pkt_header p) (take D (bp_packet p))"
    using buf(3) by (simp add: drop_take)
  then have "nl_arrived p q"
    using 2 D by (simp add: nl_arrived_def)
  with 2 p1(1) show ?thesis by blast
qed

lemma nl_header_simps [simp]:
  "NLPacket_typeInHeader (packet.extend q z) = NLPacket_typeInHeader q"
  "NLPacket_versionInHeader (packet.extend q z) = NLPacket_versionInHeader q"
  "NLPacket_sourceIDInHeader (packet.extend q z) = NLPacket_sourceIDInHeader q"
  "NLPacket_typeInHeader (p\<lparr>nl_version := v\<rparr>) = NLPacket_typeInHeader p"
  "NLPacket_versionInHeader (p\<lparr>nl_type := t\<rparr>) = NLPacket_versionInHeader p"
  "NLPacket_sourceIDInHeader (p\<lparr>nl_type := t\<rparr>) = NLPacket_sourceIDInHeader p"
  "NLPacket_sourceIDInHeader (p\<lparr>nl_version := v\<rparr>) = NLPacket_sourceIDInHeader p"
  by (simp_all add: NLPacket_typeInHeader_def NLPacket_versionInHeader_def NLPacket_sourceIDInHeader_def nl_offset_eq
      packet.defs)

lemma nl_arrived_parsed:
  assumes p: "nl_inv p" and arr: "nl_arrived p q" and src: "nl_sourced (nl_type p) \<Longrightarrow> NLPacket_sourceIDInHeader p = Some i"
  shows "\<exists>r. NLPacket_fromBase q = Some r \<and> nl_type r = nl_type p \<and> nl_version r = nl_version p
    \<and> nl_sourceID r = Some (if nl_sourced (nl_type p) then i else 0) \<and> BasePacket_payload r = BasePacket_payload p"
proof -
  note f = nl_arrived_fields [OF p arr]
  obtain D where D: "nat (BasePacket_getDataSize p) = D" by blast
  obtain H where H: "NLPacket_localHeaderSize (nl_type p) = H" by blast
  note s = nl_inv_sizes [OF p, unfolded D]
  have st: "bp_payloadStart p = pkt_header p + H" and Hpos: "0 < H"
    using p nl_header_size(3) [of "nl_type p"] by (simp_all add: nl_inv_def H)
  have q: "drop (pkt_header p) (bp_packet q) = drop (pkt_header p) (take D (bp_packet p))"
    "bp_payloadStart q = pkt_header p" "length (bp_packet q) = D" "bp_payloadSize q = int D - int (pkt_header p)"
    using arr s(3) D by (auto simp: nl_arrived_def BasePacket_sizes)
  let ?x = "packet.extend q (nl_packet.fields (nl_type p) (nl_version p) (Some (if nl_sourced (nl_type p) then i else 0)))"
  let ?r = "BasePacket_adjust H True ?x"
  let ?y = "packet.extend q (nl_packet.fields 0 0 None)\<lparr>nl_type := nl_type p, nl_version := nl_version p,
      nl_sourceID := Some (if nl_sourced (nl_type p) then i else 0)\<rparr>"
  have y: "?y = ?x" by (simp add: packet.defs nl_packet.defs)
  have "0 < bp_payloadSize q" using q(4) s(1) st Hpos by simp
  then have pos: "0 < bp_payloadSize ?x" by (simp add: packet.defs)
  have t: "nl_type ?x = nl_type p" by (simp add: packet.defs nl_packet.defs)
  have "NLPacket_fromBase q = Some (BasePacket_adjust (NLPacket_localHeaderSize (nl_type ?y)) (bp_payloadSize ?y > 0) ?y)"
    using f(1-3) src
    by (simp add: NLPacket_fromBase_def NLPacket_of_packet_def NLPacket_readType_def NLPacket_readVersion_def
        NLPacket_readSourceID_def)
  then have "NLPacket_fromBase q = Some ?r"
    unfolding y t H using pos by simp
  moreover have "BasePacket_payload ?r = BasePacket_payload p"
  proof -
    have d: "drop (H + pkt_header p) (bp_packet q) = drop (H + pkt_header p) (take D (bp_packet p))"
      using q(1) by (metis drop_drop)
    have "BasePacket_payload ?r = take (nat (int D - int (pkt_header p) - int H)) (drop (H + pkt_header p) (bp_packet q))"
      by (simp add: BasePacket_payload_def BasePacket_adjust_def packet.defs q ac_simps)
    also have "\<dots> = BasePacket_payload p"
    proof -
      have "D - (H + pkt_header p) = nat (bp_payloadSize p)"
        using s(3) st by (simp add: BasePacket_sizes)
      then show ?thesis
        using s(3) st unfolding d by (simp add: BasePacket_payload_def BasePacket_sizes drop_take ac_simps)
    qed
    finally show ?thesis .
  qed
  ultimately show ?thesis
    by (intro exI [of _ ?r]) (simp add: BasePacket_adjust_def packet.defs nl_packet.defs)
qed

section \<open>Packets that are created and filled\<close>

lemma Packet_new_start: "Packet_new n r m = Some b \<Longrightarrow> bp_payloadStart b = pkt_header b"
  by (auto simp: Packet_new_def BasePacket_adjust_def Let_def Packet_default_fields_def BasePacket_new_def
      base_packet.defs packet.defs dest!: Packet_writeHeader_cases)

lemma nl_create_shape:
  assumes n: "n = -1 \<or> 0 \<le> n" and c: "c = (if n = -1 then MAX_PACKET_SIZE - 4 - int (NLPacket_localHeaderSize type) else n)"
  shows "\<exists>p. NLPacket_create type n r False v = Some p \<and> nl_inv p \<and> nl_type p = type
    \<and> nl_version p = (if v = 0 then versionForPacketType type else v) \<and> bp_payloadCapacity p = c
    \<and> bp_payloadSize p = 0 \<and> bp_pos p = 0 \<and> pkt_isReliable p = r \<and> \<not> pkt_isPartOfMessage p
    \<and> pkt_obfuscationLevel p = NoObfuscation \<and> QIODevice_isWritable p"
proof -
  let ?H = "NLPacket_localHeaderSize type" and ?v = "if v = 0 then versionForPacketType type else v"
  obtain N where N: "(if n = -1 then -1 else int ?H + n) = N" by blast
  have H: "2 \<le> ?H" "?H \<le> 20"
    using nl_header_size(3) [of type]
    by (auto simp: NLPacket_localHeaderSize_def Let_def NUM_BYTES_LOCALID_def NUM_BYTES_MD5_HASH_def)
  have h4: "Packet_localHeaderSize False = 4" by (simp add: Packet_localHeaderSize_def)
  have "N = -1 \<or> 0 \<le> N" and "int (Packet_localHeaderSize False) \<le> (if N = -1 then MAX_PACKET_SIZE else N + 4)"
    and C: "(if N = -1 then MAX_PACKET_SIZE else N + 4) = c + 4 + int ?H" and c0: "0 \<le> c"
    using n H c by (auto simp: h4 MAX_PACKET_SIZE_value split: if_splits simp flip: N)
  from Packet_new_shape [OF this(1) C [symmetric] , of False r] this(2)
  obtain p where p: "Packet_create N r False = Some (p :: 'a packet)" "pkt_inv p"
      "bp_payloadCapacity p = c + int ?H"
      "bp_payloadSize p = 0" "bp_pos p = 0" "pkt_isReliable p = r" "\<not> pkt_isPartOfMessage p"
      "pkt_obfuscationLevel p = NoObfuscation"
    by (auto simp: h4 C)
  obtain b where b: "Packet_new N r False = Some b" "p = QIODevice_open ReadWrite b"
    using p(1) by (auto simp: Packet_create_def)
  obtain x where x: "BasePacket_adjust ?H False (packet.extend b (nl_packet.fields type ?v None)) = x" by blast
  have xf: "bp_packetSize x = bp_packetSize p" "bp_packet x = bp_packet p"
    "bp_payloadStart x = pkt_header p + ?H" "bp_payloadCapacity x = c" "bp_payloadSize x = 0"
    "pkt_isReliable x = r" "pkt_isPartOfMessage x = pkt_isPartOfMessage p" "pkt_obfuscationLevel x = NoObfuscation"
    "pkt_sequenceNumber x = pkt_sequenceNumber p" "pkt_messageNumber x = pkt_messageNumber p"
    "pkt_packetPosition x = pkt_packetPosition p" "pkt_messagePartNumber x = pkt_messagePartNumber p"
    "nl_type x = type" "nl_version x = ?v"
    using p(3-8) Packet_new_start [OF b(1)]
    by (auto simp: b(2) QIODevice_open_def BasePacket_adjust_def packet.defs nl_packet.defs simp flip: x)
  have ps: "bp_payloadStart p = pkt_header p"
    using Packet_new_start [OF b(1)] by (simp add: b(2) QIODevice_open_def)
  have "Packet_header_in p (bp_packet p)" using p(2) by (simp add: pkt_inv_def)
  then have "Packet_header_in x (bp_packet x)"
    unfolding xf(2) by (rule Packet_header_in_cong) (use xf p in simp_all)
  then have "pkt_inv x"
    using p(2,3) c0 ps unfolding pkt_inv_def bp_inv_def pkt_wf_def by (simp add: xf)
  then obtain buf where buf: "NLPacket_writeTypeAndVersion x = Some (x\<lparr>bp_packet := buf\<rparr>)" "nl_inv (x\<lparr>bp_packet := buf\<rparr>)"
    using writeTypeAndVersion_laws [of x] xf by auto
  let ?p = "QIODevice_open ReadWrite (x\<lparr>bp_packet := buf\<rparr>)"
  have "NLPacket_new type n r False v = NLPacket_writeTypeAndVersion x"
    unfolding NLPacket_new_def N b(1) x [symmetric] by (simp only: Option.bind_lunit Let_def)
  then have "NLPacket_create type n r False v = Some ?p"
    using buf(1) by (simp add: NLPacket_create_def)
  moreover have "nl_inv ?p"
    using buf(2) pkt_inv_open [of "x\<lparr>bp_packet := buf\<rparr>" ReadWrite]
    by (simp add: nl_inv_def QIODevice_open_def NLPacket_typeInHeader_def NLPacket_versionInHeader_def nl_offset_eq)
  ultimately show ?thesis
    using xf p(7) by (intro exI [of _ ?p]) (simp add: QIODevice_open_def QIODevice_isWritable_def)
qed

lemma nl_filled:
  assumes p: "nl_inv p" and w: "QIODevice_isWritable p" and f: "int (length data) \<le> bp_payloadCapacity p"
    and e: "bp_payloadSize p = 0" "bp_pos p = 0"
  shows "\<exists>buf. QIODevice_write data p = Some (int (length data),
        p\<lparr>bp_packet := buf, bp_payloadSize := int (length data), bp_pos := length data\<rparr>)
    \<and> nl_inv (p\<lparr>bp_packet := buf, bp_payloadSize := int (length data), bp_pos := length data\<rparr>)
    \<and> BasePacket_payload (p\<lparr>bp_packet := buf, bp_payloadSize := int (length data), bp_pos := length data\<rparr>) = data"
proof -
  have b: "bp_inv p" using p by (simp add: nl_inv_def pkt_inv_def)
  have "int (length data) \<le> BasePacket_bytesAvailableForWrite p"
    using f e by (simp add: BasePacket_bytesAvailableForWrite_def)
  from QIODevice_write_fits [OF b w this] obtain buf p' where
    m: "mem_write (bp_packet p) (bp_payloadStart p) data = Some buf"
    and p': "p' = p\<lparr>bp_packet := buf, bp_payloadSize := int (length data), bp_pos := length data\<rparr>"
    and wr: "QIODevice_write data p = Some (int (length data), p')" and b': "bp_inv p'"
    by (auto simp: e)
  have o: "pkt_header p + 2 \<le> bp_payloadStart p" "bp_payloadStart p + length data \<le> length (bp_packet p)"
    using p nl_header_size(3) [of "nl_type p"] m by (auto simp: nl_inv_def mem_write_def split: if_splits)
  have "nl_inv (p\<lparr>bp_packet := buf\<rparr>)"
    using nl_inv_written [OF p o] m by auto
  then have "nl_inv p'"
    using b' by (simp add: p' nl_inv_def pkt_inv_def pkt_wf_def Packet_header_in_def Packet_headerWord_def
        NLPacket_typeInHeader_def NLPacket_versionInHeader_def nl_offset_eq cong: if_cong)
  moreover have "BasePacket_payload p' = data"
    using mem_read_write_same [OF m refl] by (simp add: p' BasePacket_payload_def mem_read_def split: if_splits)
  ultimately show ?thesis using wr unfolding p' by blast
qed

section \<open>Properties\<close>

text \<open>The payload does not change when the header is filled in.\<close>

lemma nl_payload_kept:
  assumes "drop (bp_payloadStart p) buf = drop (bp_payloadStart p) (bp_packet p)"
  shows "BasePacket_payload (p\<lparr>bp_packet := buf\<rparr>) = BasePacket_payload p"
  using assms by (simp add: BasePacket_payload_def)

text \<open>
  C26. A node list packet survives the wire: whatever its type and whatever is written into it, the receiver
  of its datagram reads the same type, version, source id and payload, for any sequence number and any
  level of obfuscation the transport gives it on its way.
\<close>

theorem NLPacket_survives_wire:
  fixes a :: 'addr
  assumes "0 \<le> n" and "int (length data) \<le> n" and "seq_wf s"
  shows "\<exists>(p :: 'addr nl_packet) p1 p2 p3 p4 wire q r. NLPacket_create type n reliable False v = Some p
    \<and> QIODevice_write data p = Some (int (length data), p1)
    \<and> (if type \<in> getNonSourcedPackets then Some p1 else NLPacket_writeSourceID i p1) = Some p2
    \<and> Packet_writeSequenceNumber s (packet.truncate p2) = Some p3 \<and> Packet_obfuscate level p3 = Some p4
    \<and> BasePacket_wire p4 = Some wire \<and> Packet_fromReceivedPacket wire (int (length wire)) a = Some q
    \<and> NLPacket_fromBase q = Some r \<and> nl_type r = type
    \<and> nl_version r = (if v = 0 then versionForPacketType type else v)
    \<and> nl_sourceID r = Some (if type \<in> getNonSourcedPackets then 0 else i) \<and> BasePacket_payload r = data"
proof -
  obtain p :: "'addr nl_packet" where p: "NLPacket_create type n reliable False v = Some p" "nl_inv p" "nl_type p = type"
    "nl_version p = (if v = 0 then versionForPacketType type else v)" "bp_payloadCapacity p = n"
    "bp_payloadSize p = 0" "bp_pos p = 0" "pkt_obfuscationLevel p = NoObfuscation" "QIODevice_isWritable p"
    using nl_create_shape [of n n type reliable v] assms(1) by auto
  obtain buf where b: "QIODevice_write data p = Some (int (length data),
        p\<lparr>bp_packet := buf, bp_payloadSize := int (length data), bp_pos := length data\<rparr>)"
    "nl_inv (p\<lparr>bp_packet := buf, bp_payloadSize := int (length data), bp_pos := length data\<rparr>)"
    "BasePacket_payload (p\<lparr>bp_packet := buf, bp_payloadSize := int (length data), bp_pos := length data\<rparr>) = data"
    using nl_filled [OF p(2,9), of data] p(5-7) assms(2) by auto
  let ?p1 = "p\<lparr>bp_packet := buf, bp_payloadSize := int (length data), bp_pos := length data\<rparr>"
  obtain p2 where p2: "(if type \<in> getNonSourcedPackets then Some ?p1 else NLPacket_writeSourceID i ?p1) = Some p2"
    "nl_inv p2" "nl_type p2 = type" "nl_version p2 = nl_version p" "pkt_obfuscationLevel p2 = NoObfuscation"
    "BasePacket_payload p2 = data" "nl_sourced type \<longrightarrow> NLPacket_sourceIDInHeader p2 = Some i"
  proof (cases "type \<in> getNonSourcedPackets")
    case True
    then show ?thesis using that [of ?p1] b p by simp
  next
    case False
    obtain buf2 where "NLPacket_writeSourceID i ?p1 = Some (?p1\<lparr>bp_packet := buf2, nl_sourceID := Some i\<rparr>)"
      "nl_inv (?p1\<lparr>bp_packet := buf2, nl_sourceID := Some i\<rparr>)"
      "NLPacket_sourceIDInHeader (?p1\<lparr>bp_packet := buf2\<rparr>) = Some i"
      "drop (bp_payloadStart ?p1) buf2 = drop (bp_payloadStart ?p1) (bp_packet ?p1)"
      using writeSourceID_laws [OF b(2), of i] False p(3) by auto
    moreover from this(4) have "BasePacket_payload (?p1\<lparr>bp_packet := buf2, nl_sourceID := Some i\<rparr>) = data"
      using nl_payload_kept [of ?p1 buf2] b(3) by (simp add: BasePacket_payload_def)
    moreover from calculation(3) have "NLPacket_sourceIDInHeader (?p1\<lparr>bp_packet := buf2, nl_sourceID := Some i\<rparr>) = Some i"
      by (simp add: NLPacket_sourceIDInHeader_def nl_offset_eq)
    ultimately show ?thesis
      using that [of "?p1\<lparr>bp_packet := buf2, nl_sourceID := Some i\<rparr>"] False p by simp
  qed
  obtain p3 p4 wire q where w: "Packet_writeSequenceNumber s (packet.truncate p2) = Some p3"
    "Packet_obfuscate level p3 = Some p4" "BasePacket_wire p4 = Some wire"
    "Packet_fromReceivedPacket wire (int (length wire)) a = Some q" "nl_arrived p2 q"
    using nl_wire [OF p2(2,5) assms(3), of level a] by blast
  obtain r where "NLPacket_fromBase q = Some r" "nl_type r = type" "nl_version r = nl_version p"
    "nl_sourceID r = Some (if type \<in> getNonSourcedPackets then 0 else i)" "BasePacket_payload r = data"
    using nl_arrived_parsed [OF p2(2) w(5), of i] p2 by auto
  then show ?thesis
    using p(1,4) b(1) p2(1) w by metis
qed

theorem NLPacket_survives_wire_witness:
  "\<exists>p :: nat nl_packet. NLPacket_create PT_Ping 9 False False 0 = Some p
    \<and> (\<exists>p1 p2 q (r :: nat nl_packet). QIODevice_write [1, 2, 3] p = Some (3, p1) \<and> NLPacket_writeSourceID 77 p1 = Some p2
        \<and> NLPacket_fromBase q = Some r \<and> nl_sourceID r = Some 77 \<and> BasePacket_payload r = [1, 2, 3])"
proof -
  have "PT_Ping \<notin> getNonSourcedPackets"
    by (simp add: getNonSourcedPackets_def)
  note t = this
  have h: "(0 :: int) \<le> 9" "int (length [1, 2, 3 :: byte]) \<le> 9" "seq_wf 5"
    by (simp_all add: seq_wf_def seq_consts)
  obtain p :: "nat nl_packet" and p1 p2 q and r :: "nat nl_packet" where w: "NLPacket_create PT_Ping 9 False False 0 = Some p"
    "QIODevice_write [1, 2, 3] p = Some (int (length [1, 2, 3 :: byte]), p1)"
    "(if PT_Ping \<in> getNonSourcedPackets then Some p1 else NLPacket_writeSourceID 77 p1) = Some p2"
    "NLPacket_fromBase q = Some r"
    "nl_sourceID r = Some (if PT_Ping \<in> getNonSourcedPackets then 0 else 77)" "BasePacket_payload r = [1, 2, 3]"
    using NLPacket_survives_wire [OF h, of PT_Ping False 0 77 ObfuscationL2 "3 :: nat"] by blast
  have "QIODevice_write [1, 2, 3] p = Some (3, p1)" "NLPacket_writeSourceID 77 p1 = Some p2" "nl_sourceID r = Some 77"
    using w(2,3,5) by (simp_all add: t)
  with w show ?thesis by blast
qed

end
