(* ===== verification/Node_Tables.thy ===== *)
theory Node_Tables
  imports Node_List Nl_Wire
begin

text \<open>
  What holds of the node list whatever happens to it: the two tables refer to nodes that exist, a node is
  filed under its own UUID, there is one node of each kind of which a domain has one, and the hash context
  of every node is keyed with the node's connection secret and idle.
\<close>

section \<open>What most operations leave alone\<close>

text \<open>The hash context of a node is keyed with its connection secret, and idle; without a secret there is none.\<close>

definition nd_clean :: "'addr node \<Rightarrow> bool" where
  "nd_clean n \<longleftrightarrow> (case nd_authenticateHash n of None \<Rightarrow> nd_connectionSecret n = 0
     | Some h \<Rightarrow> ha_ready (toRfc4122 (nd_connectionSecret n)) h)"

lemma nd_clean_simps [simp]:
  "nd_clean (n\<lparr>np_pingTimer := t\<rparr>) = nd_clean n" "nd_clean (n\<lparr>np_lastHeardMicrostamp := i\<rparr>) = nd_clean n"
  "nd_clean (n\<lparr>nd_permissions := m\<rparr>) = nd_clean n" "nd_clean (n\<lparr>nd_awaitsActivation := b\<rparr>) = nd_clean n"
  "nd_clean (n\<lparr>nd_isReplicated := b\<rparr>) = nd_clean n" "nd_clean (n\<lparr>nd_isUpstream := b\<rparr>) = nd_clean n"
  "nd_clean (n\<lparr>np_localID := k\<rparr>) = nd_clean n" "nd_clean (n\<lparr>np_publicSocket := a\<rparr>) = nd_clean n"
  "nd_clean (n\<lparr>np_localSocket := a\<rparr>) = nd_clean n" "nd_clean (n\<lparr>np_symmetricSocket := a\<rparr>) = nd_clean n"
  "nd_clean (n\<lparr>np_activeSocket := s\<rparr>) = nd_clean n" "nd_clean (n\<lparr>np_connectionAttempts := c\<rparr>) = nd_clean n"
  "nd_clean (n\<lparr>nd_ignoredNodeIDs := us\<rparr>) = nd_clean n" "nd_clean (n\<lparr>np_isForcedNeverSilent := b\<rparr>) = nd_clean n"
  by (simp_all add: nd_clean_def split: option.split)

lemma nd_clean_secret: "nd_clean n \<Longrightarrow> nd_clean (Node_setConnectionSecret u n)"
  by (simp add: nd_clean_def Node_setConnectionSecret_def)

lemma setConnectionSecret_simps [simp]:
  "np_uuid (Node_setConnectionSecret u n) = np_uuid n" "nd_type (Node_setConnectionSecret u n) = nd_type n"
  "np_localID (Node_setConnectionSecret u n) = np_localID n"
  by (simp_all add: Node_setConnectionSecret_def)

lemma hashForPacket_ready:
  assumes "NLPacket_hashForPacketAndHMAC mac p h = Some (x, h')" and "ha_ready key h"
  shows "ha_ready key h'"
proof -
  obtain data y where "HMACAuth_calculateHash mac data h = (y, h')"
    using assms(1) by (auto simp: NLPacket_hashForPacketAndHMAC_def Let_def split: bind_splits prod.splits if_splits)
  then show ?thesis
    using hmac.calculate_stays [OF assms(2), of mac data] by simp
qed

lemma writeVerificationHash_ready:
  "NLPacket_writeVerificationHash mac h p = Some (p', h') \<Longrightarrow> ha_ready key h \<Longrightarrow> ha_ready key h'"
  by (auto simp: NLPacket_writeVerificationHash_def split: bind_splits dest: hashForPacket_ready)

lemma nd_clean_rehashed:
  assumes "nd_clean n" and "nd_authenticateHash n = Some h" and "\<And>key. ha_ready key h \<Longrightarrow> ha_ready key h'"
  shows "nd_clean (n\<lparr>nd_authenticateHash := Some h'\<rparr>)"
  using assms by (simp add: nd_clean_def)

lemma nd_clean_new: "nd_clean (Node_new now u t a b)"
  by (simp add: nd_clean_def Node_new_def)

definition nl_clean :: "'addr node_list \<Rightarrow> bool" where
  "nl_clean l \<longleftrightarrow> (\<forall>n \<in> set (nl_heap l). nd_clean n)"

text \<open>The tables, the number of nodes that ever were, the identity and type of each, and clean contexts.\<close>

definition nl_same :: "'addr node_list \<Rightarrow> 'addr node_list \<Rightarrow> bool" where
  "nl_same l l' \<longleftrightarrow> nl_nodeHash l' = nl_nodeHash l \<and> nl_localIDMap l' = nl_localIDMap l
     \<and> nl_maxConnectionRate l' = nl_maxConnectionRate l
     \<and> nl_nodesAddedInCurrentTimeSlice l' = nl_nodesAddedInCurrentTimeSlice l
     \<and> nl_delayedNodeAdds l' = nl_delayedNodeAdds l
     \<and> map np_uuid (nl_heap l') = map np_uuid (nl_heap l) \<and> map nd_type (nl_heap l') = map nd_type (nl_heap l)
     \<and> (nl_clean l \<longrightarrow> nl_clean l')"

lemma nl_same_refl [simp]: "nl_same l l"
  by (simp add: nl_same_def)

lemma nl_same_trans [trans]: "nl_same l l1 \<Longrightarrow> nl_same l1 l' \<Longrightarrow> nl_same l l'"
  by (simp add: nl_same_def)

lemma nl_same_heap:
  assumes "nl_same l l'"
  shows "length (nl_heap l') = length (nl_heap l)"
    and "r < length (nl_heap l) \<Longrightarrow> np_uuid (nl_node l' r) = np_uuid (nl_node l r)"
    and "r < length (nl_heap l) \<Longrightarrow> nd_type (nl_node l' r) = nd_type (nl_node l r)"
proof -
  show len: "length (nl_heap l') = length (nl_heap l)"
    using assms by (auto simp: nl_same_def dest: map_eq_imp_length_eq)
  have "map np_uuid (nl_heap l') ! r = map np_uuid (nl_heap l) ! r"
    "map nd_type (nl_heap l') ! r = map nd_type (nl_heap l) ! r"
    using assms by (simp_all add: nl_same_def)
  then show "r < length (nl_heap l) \<Longrightarrow> np_uuid (nl_node l' r) = np_uuid (nl_node l r)"
    and "r < length (nl_heap l) \<Longrightarrow> nd_type (nl_node l' r) = nd_type (nl_node l r)"
    using len by simp_all
qed

lemma nl_same_setNode:
  assumes "nl_same l l1" and "np_uuid n = np_uuid (nl_node l1 r)" and "nd_type n = nd_type (nl_node l1 r)"
    and "nd_clean (nl_node l1 r) \<Longrightarrow> nd_clean n"
  shows "nl_same l (nl_setNode r n l1)"
proof (cases "r < length (nl_heap l1)")
  case True
  then have h: "(map np_uuid (nl_heap l1))[r := np_uuid (nl_node l1 r)] = map np_uuid (nl_heap l1)"
      "(map nd_type (nl_heap l1))[r := nd_type (nl_node l1 r)] = map nd_type (nl_heap l1)"
    by (simp_all add: list_update_same_conv)
  have c: "nl_clean (nl_setNode r n l1)" if "nl_clean l1"
    unfolding nl_clean_def nl_setNode_def
  proof
    fix m assume "m \<in> set (nl_heap (l1\<lparr>nl_heap := (nl_heap l1)[r := n]\<rparr>))"
    then have "m \<in> set ((nl_heap l1)[r := n])" by simp
    then have "m \<in> insert n (set (nl_heap l1))" by (rule subsetD [OF set_update_subset_insert])
    then show "nd_clean m" using that assms(4) True by (auto simp: nl_clean_def)
  qed
  show ?thesis
    using assms(1-3) h c unfolding nl_same_def by (simp add: nl_setNode_def map_update)
next
  case False
  then show ?thesis
    using assms(1) by (simp add: nl_setNode_def list_update_beyond)
qed

lemma nl_same_fields [simp]:
  "nl_same l (l'\<lparr>nl_nodeSocket := s\<rparr>) \<longleftrightarrow> nl_same l l'"
  "nl_same l (l'\<lparr>nl_connectionIDs := c\<rparr>) \<longleftrightarrow> nl_same l l'"
  "nl_same l (l'\<lparr>nl_nodeDisconnectTimestamp := t\<rparr>) \<longleftrightarrow> nl_same l l'"
  "nl_same l (l'\<lparr>nl_versionDebugSuppress := v\<rparr>) \<longleftrightarrow> nl_same l l'"
  "nl_same l (l'\<lparr>nl_sourcedVersionDebugSuppress := w\<rparr>) \<longleftrightarrow> nl_same l l'"
  by (simp_all add: nl_same_def nl_clean_def)

lemma nl_same_cleanup: "nl_cleanupConnection a l = (out, l') \<Longrightarrow> nl_same l l'"
  by (auto simp: nl_cleanupConnection_def Let_def split: prod.splits)

lemma nl_same_kill:
  assumes "LimitedNodeList_handleNodeKill now r i l = (out, l')"
  shows "nl_same l l'"
proof -
  obtain l1 where l1: "nl_setNode r ((nl_node l r)\<lparr>np_pingTimer := False\<rparr>) (l\<lparr>nl_nodeDisconnectTimestamp := now\<rparr>) = l1"
    by blast
  have 1: "nl_same l l1"
    unfolding l1 [symmetric]
    by (rule nl_same_setNode) simp_all
  obtain o2 l2 where l2: "(case NetworkPeer_getActiveSocket (nl_node l1 r) of None \<Rightarrow> ([], l1)
                       | Some a \<Rightarrow> nl_cleanupConnection a l1) = (o2, l2)" by (rule prod.exhaust)
  then have 2: "nl_same l1 l2"
    by (auto split: option.splits dest!: nl_same_cleanup)
  show ?thesis
    using assms nl_same_trans [OF 1 2] unfolding LimitedNodeList_handleNodeKill_def Let_def l1 l2
    by (auto split: option.splits)
qed

lemma nl_same_kills: "nl_handleKills now rs l = (out, l') \<Longrightarrow> nl_same l l'"
proof (induction rs arbitrary: l out)
  case (Cons r rs)
  then show ?case
    by (auto split: prod.splits dest: nl_same_kill intro: nl_same_trans)
qed simp

lemma nl_same_socketUpdated: "nl_socketUpdated r up l = (out, l') \<Longrightarrow> nl_same l l'"
  by (auto simp: nl_socketUpdated_def split: list.splits prod.splits)

lemma nl_same_update:
  assumes "LimitedNodeList_updateNode r info up l = (out, l')"
  shows "nl_same l l'"
proof -
  obtain n1 u1 where 1: "NetworkPeer_setPublicSocket (ni_publicSocket info) (nl_node l r) = (n1, u1)" by (rule prod.exhaust)
  obtain o1 l1 where 2: "nl_socketUpdated r u1 (nl_setNode r n1 l) = (o1, l1)" by (rule prod.exhaust)
  obtain n2 u2 where 3: "NetworkPeer_setLocalSocket (ni_localSocket info) (nl_node l1 r) = (n2, u2)" by (rule prod.exhaust)
  obtain o2 l2 where 4: "nl_socketUpdated r u2 (nl_setNode r n2 l1) = (o2, l2)" by (rule prod.exhaust)
  have a: "nl_same l (nl_setNode r n1 l)"
    by (rule nl_same_setNode [OF nl_same_refl]) (use 1 in \<open>auto simp: NetworkPeer_setPublicSocket_def split: if_splits\<close>)
  have b: "nl_same l1 (nl_setNode r n2 l1)"
    by (rule nl_same_setNode [OF nl_same_refl]) (use 3 in \<open>auto simp: NetworkPeer_setLocalSocket_def split: if_splits\<close>)
  have c: "nl_same l2 l'"
  proof -
    have "l' = nl_setNode r ((Node_setConnectionSecret (ni_connectionSecretUUID info)
          ((nl_node l2 r)\<lparr>nd_permissions := ni_permissions info\<rparr>))\<lparr>nd_isReplicated := ni_isReplicated info,
          nd_isUpstream := up \<or> NodeType_isUpstream (ni_type info), np_localID := ni_sessionLocalID info\<rparr>) l2"
      using assms by (simp add: LimitedNodeList_updateNode_def 1 2 3 4 Let_def)
    then show ?thesis
      by (simp add: nl_same_setNode nd_clean_secret)
  qed
  show ?thesis
    using nl_same_trans [OF nl_same_trans [OF a nl_same_socketUpdated [OF 2]]
        nl_same_trans [OF nl_same_trans [OF b nl_same_socketUpdated [OF 4]] c]] .
qed

lemma nl_same_activated:
  assumes "nl_activated r (n, b) l = (out, l')" and "np_uuid n = np_uuid (nl_node l r)" and "nd_type n = nd_type (nl_node l r)"
    and "nd_clean (nl_node l r) \<Longrightarrow> nd_clean n"
  shows "nl_same l l'"
  using assms by (auto simp: nl_activated_def intro!: nl_same_setNode split: if_splits)

lemma nl_same_version:
  "LimitedNodeList_packetVersionMatch p l = Some (ok, out, l') \<Longrightarrow> nl_same l l'"
  by (auto simp: LimitedNodeList_packetVersionMatch_def Let_def split: bind_splits if_splits option.splits)

lemma nl_same_hash:
  "nl_hashMatches mac p r l = Some (ok, l') \<Longrightarrow> nl_same l l'"
  by (auto simp: nl_hashMatches_def split: bind_splits option.splits
      intro!: nl_same_setNode nd_clean_rehashed elim!: hashForPacket_ready)

lemma nl_same_source:
  assumes "LimitedNodeList_packetSourceAndHashMatch mac now p hint l = Some (ok, l')"
  shows "nl_same l l'"
  using assms unfolding LimitedNodeList_packetSourceAndHashMatch_def Let_def
  by (auto split: bind_splits if_splits option.splits dest!: nl_same_hash intro!: nl_same_setNode)

lemma nl_same_verified:
  "LimitedNodeList_isPacketVerifiedWithSource mac now p hint l = Some (ok, out, l') \<Longrightarrow> nl_same l l'"
  by (auto simp: LimitedNodeList_isPacketVerifiedWithSource_def split: bind_splits if_splits
      dest!: nl_same_version nl_same_source intro: nl_same_trans)

lemma nl_same_read: "LimitedNodeList_readDatagram mac d l = Some (out, l') \<Longrightarrow> nl_same l l'"
  by (auto simp: LimitedNodeList_readDatagram_def LimitedNodeList_isPacketVerified_def
      split: bind_splits option.splits dest!: nl_same_verified)

lemma nl_same_fill:
  assumes "LimitedNodeList_fillPacketHeader mac p auth l = Some (p', l')"
  shows "nl_same l l'"
  using assms unfolding LimitedNodeList_fillPacketHeader_def
  by (auto split: bind_splits if_splits option.splits intro!: nl_same_setNode nd_clean_rehashed
      elim!: writeVerificationHash_ready)

lemma nl_same_sendUnreliable:
  "LimitedNodeList_sendUnreliablePacketTo mac random now p a auth l = Some (n, p', out, l') \<Longrightarrow> nl_same l l'"
  by (auto simp: LimitedNodeList_sendUnreliablePacketTo_def split: if_splits bind_splits dest!: nl_same_fill)

lemma nl_same_send:
  "LimitedNodeList_sendPacketTo mac random now p a auth l = Some (n, out, l') \<Longrightarrow> nl_same l l'"
  by (auto simp: LimitedNodeList_sendPacketTo_def split: if_splits bind_splits dest!: nl_same_fill nl_same_sendUnreliable)

section \<open>What removals leave\<close>

text \<open>A list that shrinks loses entries of its tables and nothing else.\<close>

definition nl_shrinks :: "'addr node_list \<Rightarrow> 'addr node_list \<Rightarrow> bool" where
  "nl_shrinks l l' \<longleftrightarrow> set (nl_nodeHash l') \<subseteq> set (nl_nodeHash l) \<and> set (nl_localIDMap l') \<subseteq> set (nl_localIDMap l)
     \<and> (distinct (map fst (nl_nodeHash l)) \<longrightarrow> distinct (map fst (nl_nodeHash l')))
     \<and> nl_maxConnectionRate l' = nl_maxConnectionRate l
     \<and> nl_nodesAddedInCurrentTimeSlice l' = nl_nodesAddedInCurrentTimeSlice l
     \<and> nl_delayedNodeAdds l' = nl_delayedNodeAdds l
     \<and> map np_uuid (nl_heap l') = map np_uuid (nl_heap l) \<and> map nd_type (nl_heap l') = map nd_type (nl_heap l)
     \<and> (nl_clean l \<longrightarrow> nl_clean l')"

lemma nl_shrinks_same: "nl_same l l' \<Longrightarrow> nl_shrinks l l'"
  by (simp add: nl_same_def nl_shrinks_def)

lemma nl_shrinks_trans [trans]: "nl_shrinks l l1 \<Longrightarrow> nl_shrinks l1 l' \<Longrightarrow> nl_shrinks l l'"
  unfolding nl_shrinks_def by (elim conjE, intro conjI) auto

lemma nl_shrinks_refl [simp]: "nl_shrinks l l"
  by (simp add: nl_shrinks_def)

lemma nl_shrinks_heap:
  assumes "nl_shrinks l l'"
  shows "length (nl_heap l') = length (nl_heap l)"
    and "r < length (nl_heap l) \<Longrightarrow> np_uuid (nl_node l' r) = np_uuid (nl_node l r)"
    and "r < length (nl_heap l) \<Longrightarrow> nd_type (nl_node l' r) = nd_type (nl_node l r)"
proof -
  show len: "length (nl_heap l') = length (nl_heap l)"
    using assms by (auto simp: nl_shrinks_def dest: map_eq_imp_length_eq)
  have "map np_uuid (nl_heap l') ! r = map np_uuid (nl_heap l) ! r"
    "map nd_type (nl_heap l') ! r = map nd_type (nl_heap l) ! r"
    using assms by (simp_all add: nl_shrinks_def)
  then show "r < length (nl_heap l) \<Longrightarrow> np_uuid (nl_node l' r) = np_uuid (nl_node l r)"
    and "r < length (nl_heap l) \<Longrightarrow> nd_type (nl_node l' r) = nd_type (nl_node l r)"
    using len by simp_all
qed

lemma set_delete_subset: "set (AList.delete k al) \<subseteq> set al"
  by (auto simp: AList.delete_eq)

lemma nl_shrinks_delete:
  "nl_shrinks l (l\<lparr>nl_localIDMap := AList.delete k (nl_localIDMap l), nl_nodeHash := AList.delete u (nl_nodeHash l)\<rparr>)"
  using set_delete_subset [of k "nl_localIDMap l"] set_delete_subset [of u "nl_nodeHash l"]
  by (simp add: nl_shrinks_def nl_clean_def AList.distinct_delete)

lemma nl_shrinks_erase: "nl_shrinks l (nl_eraseNode r l)"
  unfolding nl_eraseNode_def by (rule nl_shrinks_delete)

lemma nl_shrinks_removeOld:
  "nl_removeOldNode now node l = (out, l') \<Longrightarrow> nl_shrinks l l'"
  by (auto simp: nl_removeOldNode_def split: option.splits
      intro: nl_shrinks_trans [OF nl_shrinks_erase nl_shrinks_same] dest: nl_same_kill)

lemma nl_shrinks_killUUID:
  "LimitedNodeList_killNodeWithUUID now u c l = (b, out, l') \<Longrightarrow> nl_shrinks l l'"
  by (auto simp: LimitedNodeList_killNodeWithUUID_def split: option.splits
      intro: nl_shrinks_trans [OF nl_shrinks_erase nl_shrinks_same] dest: nl_same_kill)

lemma nl_shrinks_removeSilent: "nl_removeSilent now es l = (rs, l') \<Longrightarrow> nl_shrinks l l'"
proof (induction now es l arbitrary: rs l' rule: nl_removeSilent.induct)
  case (2 now u r es l)
  then show ?case
    by (auto simp: Let_def split: if_splits prod.splits intro: nl_shrinks_trans [OF nl_shrinks_delete])
qed simp

section \<open>The invariant of the tables\<close>

text \<open>
  Every entry of the table of UUIDs is a node that exists, filed under its own UUID; entries of the table of
  local ids are nodes that exist; two entries of the same solo type are the same node.
\<close>

definition nl_ok :: "'addr node_list \<Rightarrow> bool" where
  "nl_ok l \<longleftrightarrow> distinct (map fst (nl_nodeHash l))
     \<and> (\<forall>(u, r) \<in> set (nl_nodeHash l). r < length (nl_heap l) \<and> np_uuid (nl_node l r) = u)
     \<and> (\<forall>(k, r) \<in> set (nl_localIDMap l). r < length (nl_heap l))
     \<and> (\<forall>(u, r) \<in> set (nl_nodeHash l). \<forall>(v, q) \<in> set (nl_nodeHash l).
          nd_type (nl_node l r) \<in> SOLO_NODE_TYPES \<and> nd_type (nl_node l q) = nd_type (nl_node l r) \<longrightarrow> q = r)
     \<and> nl_clean l"

lemma nl_ok_entry:
  "nl_ok l \<Longrightarrow> (u, r) \<in> set (nl_nodeHash l) \<Longrightarrow> r < length (nl_heap l) \<and> np_uuid (nl_node l r) = u"
  "nl_ok l \<Longrightarrow> (k, r) \<in> set (nl_localIDMap l) \<Longrightarrow> r < length (nl_heap l)"
  by (auto simp: nl_ok_def)

lemma nl_ok_solo:
  assumes "nl_ok l" and "(u, r) \<in> set (nl_nodeHash l)" and "(v, q) \<in> set (nl_nodeHash l)"
    and "nd_type (nl_node l r) \<in> SOLO_NODE_TYPES" and "nd_type (nl_node l q) = nd_type (nl_node l r)"
  shows "q = r"
  using assms by (fastforce simp: nl_ok_def)

lemma nl_ok_shrinks:
  assumes "nl_ok l" and s: "nl_shrinks l l'"
  shows "nl_ok l'"
proof -
  have e: "set (nl_nodeHash l') \<subseteq> set (nl_nodeHash l)" "set (nl_localIDMap l') \<subseteq> set (nl_localIDMap l)"
    using s by (simp_all add: nl_shrinks_def)
  note h = nl_shrinks_heap [OF s]
  have 1: "r < length (nl_heap l) \<and> np_uuid (nl_node l' r) = u" if "(u, r) \<in> set (nl_nodeHash l')" for u r
    using nl_ok_entry(1) [OF assms(1)] e(1) that h(2) by auto
  have 2: "q = r" if "(u, r) \<in> set (nl_nodeHash l')" "(v, q) \<in> set (nl_nodeHash l')"
      "nd_type (nl_node l' r) \<in> SOLO_NODE_TYPES" "nd_type (nl_node l' q) = nd_type (nl_node l' r)" for u r v q
  proof -
    have "(u, r) \<in> set (nl_nodeHash l)" "(v, q) \<in> set (nl_nodeHash l)" using that e by auto
    moreover have "nd_type (nl_node l' r) = nd_type (nl_node l r)" "nd_type (nl_node l' q) = nd_type (nl_node l q)"
      using calculation nl_ok_entry(1) [OF assms(1)] h(3) by auto
    ultimately show ?thesis using assms(1) that(3,4) by (fastforce simp: nl_ok_def)
  qed
  have 3: "r < length (nl_heap l)" if "(k, r) \<in> set (nl_localIDMap l')" for k r
    using nl_ok_entry(2) [OF assms(1)] e(2) that by auto
  have "distinct (map fst (nl_nodeHash l'))" "nl_clean l'"
    using assms by (simp_all add: nl_ok_def nl_shrinks_def)
  then show ?thesis
    using 1 2 3 h(1) unfolding nl_ok_def by (intro conjI ballI) auto
qed

lemma nl_ok_fields [simp]:
  "nl_ok (l\<lparr>nl_nodeSocket := s\<rparr>) = nl_ok l" "nl_ok (l\<lparr>nl_connectionIDs := c\<rparr>) = nl_ok l"
  "nl_ok (l\<lparr>nl_delayedNodeAdds := d\<rparr>) = nl_ok l" "nl_ok (l\<lparr>nl_nodesAddedInCurrentTimeSlice := i\<rparr>) = nl_ok l"
  by (simp_all add: nl_ok_def nl_clean_def)

lemma nl_ok_eraseAll: "LimitedNodeList_eraseAllNodes now l = (out, l') \<Longrightarrow> nl_ok l \<Longrightarrow> nl_ok l'"
proof -
  assume e: "LimitedNodeList_eraseAllNodes now l = (out, l')" and "nl_ok l"
  then have "nl_ok (l\<lparr>nl_localIDMap := [], nl_nodeHash := []\<rparr>)"
    by (simp add: nl_ok_def nl_clean_def)
  then show ?thesis
    using e by (auto simp: LimitedNodeList_eraseAllNodes_def Let_def split: prod.splits
        intro: nl_ok_shrinks dest!: nl_same_kills nl_shrinks_same)
qed

lemma nl_ok_removeSilentNodes: "LimitedNodeList_removeSilentNodes now l = (out, l') \<Longrightarrow> nl_shrinks l l'"
  by (auto simp: LimitedNodeList_removeSilentNodes_def split: prod.splits
      intro: nl_shrinks_trans dest!: nl_shrinks_removeSilent nl_same_kills nl_shrinks_same)

section \<open>Nodes that join\<close>

lemma find_member:
  "LimitedNodeList_nodeMatchingPredicate P l = Some r \<Longrightarrow> \<exists>u. (u, r) \<in> set (nl_nodeHash l) \<and> P (nl_node l r)"
  by (auto simp: LimitedNodeList_nodeMatchingPredicate_def find_Some_iff in_set_conv_nth) (metis)

lemma find_no_member:
  "LimitedNodeList_nodeMatchingPredicate P l = None \<Longrightarrow> (u, r) \<in> set (nl_nodeHash l) \<Longrightarrow> \<not> P (nl_node l r)"
  by (auto simp: LimitedNodeList_nodeMatchingPredicate_def find_None_iff)

text \<open>The node a removal is about is no longer filed; every other entry is.\<close>

lemma removeOld_hash:
  assumes "nl_removeOldNode now node l = (out, l')"
  shows "nl_nodeHash l' = (case node of None \<Rightarrow> nl_nodeHash l
    | Some r \<Rightarrow> AList.delete (np_uuid (nl_node l r)) (nl_nodeHash l))"
  using assms by (auto simp: nl_removeOldNode_def nl_eraseNode_def nl_same_def split: option.splits dest!: nl_same_kill)

lemma no_solo_left:
  assumes ok: "nl_ok l" and t: "t \<in> SOLO_NODE_TYPES"
    and k: "nl_removeOldNode now (LimitedNodeList_soloNodeOfType t l) l = (out, l')"
    and m: "(u, q) \<in> set (nl_nodeHash l')"
  shows "nd_type (nl_node l' q) \<noteq> t"
proof -
  have s: "nl_shrinks l l'" using k by (rule nl_shrinks_removeOld)
  then have in_l: "(u, q) \<in> set (nl_nodeHash l)" using m by (auto simp: nl_shrinks_def)
  note h = removeOld_hash [OF k]
  have ty: "nd_type (nl_node l' q) = nd_type (nl_node l q)"
    using nl_shrinks_heap(3) [OF s] nl_ok_entry(1) [OF ok in_l] by simp
  show ?thesis
  proof (cases "LimitedNodeList_soloNodeOfType t l")
    case None
    then show ?thesis
      using find_no_member [OF _ in_l, of "\<lambda>n. nd_type n = t"] ty by (simp add: LimitedNodeList_soloNodeOfType_def)
  next
    case (Some r)
    then obtain v where v: "(v, r) \<in> set (nl_nodeHash l)" "nd_type (nl_node l r) = t"
      using find_member unfolding LimitedNodeList_soloNodeOfType_def by fastforce
    have "u \<noteq> np_uuid (nl_node l r)"
      using m h Some by (auto simp: AList.delete_eq)
    then have "q \<noteq> r"
      using nl_ok_entry(1) [OF ok in_l] by auto
    then show ?thesis
      using ok v in_l t ty by (fastforce simp: nl_ok_def)
  qed
qed

text \<open>The node that is added.\<close>

definition nl_newNode :: "int \<Rightarrow> 'addr new_node_info \<Rightarrow> bool \<Rightarrow> 'addr node" where
  "nl_newNode now info isUpstream =
     (Node_setConnectionSecret (ni_connectionSecretUUID info)
       ((Node_new now (ni_uuid info) (ni_type info) (ni_publicSocket info) (ni_localSocket info))
         \<lparr>nd_isReplicated := ni_isReplicated info, nd_isUpstream := isUpstream \<or> NodeType_isUpstream (ni_type info)\<rparr>))
     \<lparr>nd_permissions := ni_permissions info, np_localID := ni_sessionLocalID info, nd_awaitsActivation := True\<rparr>"

lemma nl_newNode_simps [simp]:
  "np_uuid (nl_newNode now info up) = ni_uuid info" "nd_type (nl_newNode now info up) = ni_type info"
  "np_localID (nl_newNode now info up) = ni_sessionLocalID info"
  by (simp_all add: nl_newNode_def Node_new_def)

lemma nl_newNode_clean [simp]: "nd_clean (nl_newNode now info up)"
  by (simp add: nl_newNode_def nd_clean_secret nd_clean_new)

lemma nl_insert_shape:
  assumes i: "LimitedNodeList_insertNode now info up l = (r, out, l')"
  obtains o1 l1 o2 l5 where
    "(if ni_type info \<in> SOLO_NODE_TYPES
      then nl_removeOldNode now (LimitedNodeList_soloNodeOfType (ni_type info) l) l else ([], l)) = (o1, l1)"
    and "nl_shrinks l l1" and "nl_shrinks l1 l5" and "r = length (nl_heap l)"
    and "out = o1 @ o2 @ [NlNodeAdded r]"
    and "l' = l5\<lparr>nl_connectionIDs := cmap_insert (ni_uuid info) 0 (nl_connectionIDs l5),
        nl_heap := nl_heap l5 @ [nl_newNode now info up], nl_nodeHash := cmap_insert (ni_uuid info) r (nl_nodeHash l5),
        nl_localIDMap := cmap_insert (ni_sessionLocalID info) r (nl_localIDMap l5)\<rparr>"
proof -
  obtain o1 l1 where 1: "(if ni_type info \<in> SOLO_NODE_TYPES
      then nl_removeOldNode now (LimitedNodeList_soloNodeOfType (ni_type info) l) l else ([], l)) = (o1, l1)"
    by (rule prod.exhaust)
  obtain o2 l2 where 2: "nl_removeOldNode now (LimitedNodeList_findNodeWithAddr (ni_publicSocket info) l1) l1 = (o2, l2)"
    by (rule prod.exhaust)
  obtain o3 l3 where 3: "nl_removeOldNode now (LimitedNodeList_findNodeWithAddr (ni_localSocket info) l2) l2 = (o3, l3)"
    by (rule prod.exhaust)
  obtain o4 l4 where 4: "nl_cleanupConnection (ni_publicSocket info) l3 = (o4, l4)" by (rule prod.exhaust)
  obtain o5 l5 where 5: "nl_cleanupConnection (ni_localSocket info) l4 = (o5, l5)" by (rule prod.exhaust)
  have s1: "nl_shrinks l l1"
    using 1 by (auto split: if_splits dest: nl_shrinks_removeOld)
  have s5: "nl_shrinks l1 l5"
    using nl_shrinks_trans [OF nl_shrinks_removeOld [OF 2] nl_shrinks_trans [OF nl_shrinks_removeOld [OF 3]
        nl_shrinks_trans [OF nl_shrinks_same [OF nl_same_cleanup [OF 4]] nl_shrinks_same [OF nl_same_cleanup [OF 5]]]]] .
  have len: "length (nl_heap l5) = length (nl_heap l)"
    using nl_shrinks_heap(1) [OF nl_shrinks_trans [OF s1 s5]] .
  have "r = length (nl_heap l)" "out = o1 @ (o2 @ o3 @ o4 @ o5) @ [NlNodeAdded r]"
    "l' = l5\<lparr>nl_connectionIDs := cmap_insert (ni_uuid info) 0 (nl_connectionIDs l5),
        nl_heap := nl_heap l5 @ [nl_newNode now info up], nl_nodeHash := cmap_insert (ni_uuid info) r (nl_nodeHash l5),
        nl_localIDMap := cmap_insert (ni_sessionLocalID info) r (nl_localIDMap l5)\<rparr>"
    using i unfolding LimitedNodeList_insertNode_def 1 2 3 4 5 Let_def prod.case
    by (auto simp: len nl_newNode_def)
  with that 1 s1 s5 show ?thesis by blast
qed

lemma set_cmap_insert:
  "set (cmap_insert k v m) \<subseteq> insert (k, v) (set m)" "distinct (map fst m) \<Longrightarrow> distinct (map fst (cmap_insert k v m))"
  "map_of m k = None \<Longrightarrow> cmap_insert k v m = m @ [(k, v)]"
  by (auto simp: cmap_insert_def map_of_eq_None_iff)

lemma nl_ok_insert:
  assumes ok: "nl_ok l" and i: "LimitedNodeList_insertNode now info up l = (r, out, l')"
  shows "nl_ok l'"
proof -
  obtain o1 l1 l5 where 1: "(if ni_type info \<in> SOLO_NODE_TYPES
      then nl_removeOldNode now (LimitedNodeList_soloNodeOfType (ni_type info) l) l else ([], l)) = (o1, l1)"
    and s: "nl_shrinks l l1" "nl_shrinks l1 l5" and r: "r = length (nl_heap l)"
    and l': "l' = l5\<lparr>nl_connectionIDs := cmap_insert (ni_uuid info) 0 (nl_connectionIDs l5),
        nl_heap := nl_heap l5 @ [nl_newNode now info up], nl_nodeHash := cmap_insert (ni_uuid info) r (nl_nodeHash l5),
        nl_localIDMap := cmap_insert (ni_sessionLocalID info) r (nl_localIDMap l5)\<rparr>"
    by (rule nl_insert_shape [OF i])
  have ok5: "nl_ok l5"
    using nl_ok_shrinks [OF ok nl_shrinks_trans [OF s]] .
  have len: "length (nl_heap l5) = r"
    using nl_shrinks_heap(1) [OF nl_shrinks_trans [OF s]] r by simp
  have free: "nd_type (nl_node l5 q) \<noteq> ni_type info" if "(u, q) \<in> set (nl_nodeHash l5)" "ni_type info \<in> SOLO_NODE_TYPES" for u q
  proof -
    have m: "(u, q) \<in> set (nl_nodeHash l1)" using that(1) s(2) by (auto simp: nl_shrinks_def)
    have "nl_removeOldNode now (LimitedNodeList_soloNodeOfType (ni_type info) l) l = (o1, l1)"
      using 1 that(2) by simp
    from no_solo_left [OF ok that(2) this m] have "nd_type (nl_node l1 q) \<noteq> ni_type info" .
    then show ?thesis
      using nl_shrinks_heap(3) [OF s(2)] nl_ok_entry(1) [OF nl_ok_shrinks [OF ok s(1)] m] by simp
  qed
  let ?h = "cmap_insert (ni_uuid info) r (nl_nodeHash l5)"
  have in_h: "(u = ni_uuid info \<and> q = r) \<or> ((u, q) \<in> set (nl_nodeHash l5) \<and> q < r)" if "(u, q) \<in> set ?h" for u q
    using that set_cmap_insert(1) [of "ni_uuid info" r "nl_nodeHash l5"] nl_ok_entry(1) [OF ok5] len by blast
  have nth: "nl_node l' q = (if q = r then nl_newNode now info up else nl_node l5 q)" if "q \<le> r" for q
    using that len by (auto simp: l' nth_append)
  have "distinct (map fst ?h)"
    by (rule set_cmap_insert(2)) (use ok5 in \<open>simp add: nl_ok_def\<close>)
  moreover have "q < length (nl_heap l') \<and> np_uuid (nl_node l' q) = u" if "(u, q) \<in> set ?h" for u q
    using in_h [OF that] nl_ok_entry(1) [OF ok5, of u q] nth [of q] len by (auto simp: l')
  moreover have "q < length (nl_heap l')" if "(k, q) \<in> set (cmap_insert (ni_sessionLocalID info) r (nl_localIDMap l5))" for k q
    using that set_cmap_insert(1) [of "ni_sessionLocalID info" r "nl_localIDMap l5"] nl_ok_entry(2) [OF ok5, of k q] len
    by (auto simp: l')
  moreover have "q = p" if "(u, p) \<in> set ?h" "(v, q) \<in> set ?h" "nd_type (nl_node l' p) \<in> SOLO_NODE_TYPES"
      "nd_type (nl_node l' q) = nd_type (nl_node l' p)" for u p v q
  proof -
    have "p \<le> r" "q \<le> r" using in_h [OF that(1)] in_h [OF that(2)] by auto
    note n = nth [OF this(1)] nth [OF this(2)]
    show ?thesis
      using in_h [OF that(1)] in_h [OF that(2)] that(3,4) n free [of u p] free [of v q] nl_ok_solo [OF ok5]
      by (auto split: if_splits)
  qed
  moreover have "nl_clean l'"
    using ok5 by (auto simp: l' nl_clean_def nl_ok_def)
  ultimately show ?thesis
    unfolding nl_ok_def by (intro conjI ballI) (auto simp: l')
qed

lemma nl_ok_addOrUpdate:
  assumes "nl_ok l" and "LimitedNodeList_addOrUpdateNode now info up l = (r, out, l')"
  shows "nl_ok l'"
  using assms nl_ok_insert nl_ok_shrinks [OF _ nl_shrinks_same]
  by (fastforce simp: LimitedNodeList_addOrUpdateNode_def split: option.splits dest: nl_same_update)

lemma nl_ok_addNewNode:
  "nl_ok l \<Longrightarrow> LimitedNodeList_addNewNode now info l = (out, l') \<Longrightarrow> nl_ok l'"
  by (auto simp: LimitedNodeList_addNewNode_def LimitedNodeList_delayNodeAdd_def split: if_splits prod.splits
      dest: nl_ok_addOrUpdate)

lemma nl_ok_addNewNodes:
  "nl_ok l \<Longrightarrow> nl_addNewNodes now is l = (out, l') \<Longrightarrow> nl_ok l'"
proof (induction "is" arbitrary: l out)
  case (Cons i "is")
  then show ?case by (auto split: prod.splits dest: nl_ok_addNewNode)
qed simp

lemma nl_ok_processDelayedAdds:
  "nl_ok l \<Longrightarrow> LimitedNodeList_processDelayedAdds now l = (out, l') \<Longrightarrow> nl_ok l'"
  by (auto simp: LimitedNodeList_processDelayedAdds_def Let_def split: prod.splits dest!: nl_ok_addNewNodes [rotated])

section \<open>Reachable lists\<close>

lemma nl_same_sendNode:
  "LimitedNodeList_sendPacket mac random now p r l = Some (n, out, l') \<Longrightarrow> nl_same l l'"
  "LimitedNodeList_sendUnreliablePacket mac random now p r l = Some (n, p', out, l') \<Longrightarrow> nl_same l l'"
  "LimitedNodeList_sendPacketOverride mac random now p r a l = Some (n, out, l') \<Longrightarrow> nl_same l l'"
  by (auto simp: LimitedNodeList_sendPacket_def LimitedNodeList_sendUnreliablePacket_def
      LimitedNodeList_sendPacketOverride_def split: option.splits if_splits dest: nl_same_send nl_same_sendUnreliable)

lemma nl_same_broadcast:
  "nl_broadcast mac random now p types es l = Some (n, out, l') \<Longrightarrow> nl_same l l'"
proof (induction es arbitrary: l p n out)
  case (Cons e es)
  show ?case
    using Cons.prems
    by (auto split: if_splits bind_splits dest!: nl_same_sendNode Cons.IH intro: nl_same_trans)
qed simp

text \<open>
  Whatever is called, in whatever order: nodes join, are updated, delayed, killed and found silent; packets are
  verified and sent; sockets are activated, ignore lists change; settings and the socket below change.
\<close>

inductive nl_reachable :: "'addr node_list \<Rightarrow> bool" where
  start: "nl_reachable (LimitedNodeList_new network)"
| configure: "nl_reachable l \<Longrightarrow> nl_reachable (l\<lparr>nl_nodeSocket := s, nl_connectionIDs := c, nl_useAuthentication := b,
    nl_sessionLocalID := i, nl_maxConnectionRate := m, nl_dropOutgoingNodeTraffic := d, nl_isDomainServer := ds,
    nl_domainLocalID := k, nl_domainSockAddr := a\<rparr>)"
| add: "nl_reachable l \<Longrightarrow> LimitedNodeList_addOrUpdateNode now info up l = (r, out, l') \<Longrightarrow> nl_reachable l'"
| add_new: "nl_reachable l \<Longrightarrow> LimitedNodeList_addNewNode now info l = (out, l') \<Longrightarrow> nl_reachable l'"
| delayed: "nl_reachable l \<Longrightarrow> LimitedNodeList_processDelayedAdds now l = (out, l') \<Longrightarrow> nl_reachable l'"
| undelay: "nl_reachable l \<Longrightarrow> nl_reachable (LimitedNodeList_removeDelayedAdd u l)"
| kill: "nl_reachable l \<Longrightarrow> LimitedNodeList_killNodeWithUUID now u cid l = (ok, out, l') \<Longrightarrow> nl_reachable l'"
| kill_request: "nl_reachable l \<Longrightarrow> LimitedNodeList_processKillNode now bytes l = (out, l') \<Longrightarrow> nl_reachable l'"
| erase_all: "nl_reachable l \<Longrightarrow> LimitedNodeList_eraseAllNodes now l = (out, l') \<Longrightarrow> nl_reachable l'"
| reset: "nl_reachable l \<Longrightarrow> LimitedNodeList_reset now l = (out, l') \<Longrightarrow> nl_reachable l'"
| silent: "nl_reachable l \<Longrightarrow> LimitedNodeList_removeSilentNodes now l = (out, l') \<Longrightarrow> nl_reachable l'"
| read: "nl_reachable l \<Longrightarrow> LimitedNodeList_readDatagram mac d l = Some (out, l') \<Longrightarrow> nl_reachable l'"
| verify: "nl_reachable l \<Longrightarrow> LimitedNodeList_isPacketVerifiedWithSource mac now (p :: 'addr option packet) hint l
    = Some (ok, out, l')
    \<Longrightarrow> nl_reachable l'"
| send: "nl_reachable l \<Longrightarrow> LimitedNodeList_sendPacket mac random now np r l = Some (n, out, l') \<Longrightarrow> nl_reachable l'"
| send_to: "nl_reachable l \<Longrightarrow> LimitedNodeList_sendPacketTo mac random now np a auth l = Some (n, out, l')
    \<Longrightarrow> nl_reachable l'"
| send_unreliable: "nl_reachable l \<Longrightarrow> LimitedNodeList_sendUnreliablePacket mac random now np r l = Some (n, np', out, l')
    \<Longrightarrow> nl_reachable l'"
| broadcast: "nl_reachable l \<Longrightarrow> LimitedNodeList_broadcastToNodes mac random now np types l = Some (n, out, l')
    \<Longrightarrow> nl_reachable l'"
| activate_public: "nl_reachable l \<Longrightarrow> nl_activated r (NetworkPeer_activatePublicSocket (nl_node l r)) l = (out, l')
    \<Longrightarrow> nl_reachable l'"
| activate_local: "nl_reachable l \<Longrightarrow> nl_activated r (NetworkPeer_activateLocalSocket (nl_node l r)) l = (out, l')
    \<Longrightarrow> nl_reachable l'"
| activate_symmetric: "nl_reachable l \<Longrightarrow> nl_activated r (NetworkPeer_activateSymmetricSocket (nl_node l r)) l = (out, l')
    \<Longrightarrow> nl_reachable l'"
| ignore: "nl_reachable l \<Longrightarrow> nl_reachable (nl_setNode r (Node_addIgnoredNode u (nl_node l r)) l)"
| unignore: "nl_reachable l \<Longrightarrow> nl_reachable (nl_setNode r (Node_removeIgnoredNode u (nl_node l r)) l)"

lemma nl_activate_same:
  assumes "nl_activated r (f (nl_node l r)) l = (out, l')"
    and "f \<in> {NetworkPeer_activatePublicSocket, NetworkPeer_activateLocalSocket, NetworkPeer_activateSymmetricSocket}"
  shows "nl_same l l'"
proof -
  obtain n b where n: "f (nl_node l r) = (n, b)" by (rule prod.exhaust)
  have "np_uuid n = np_uuid (nl_node l r)" "nd_type n = nd_type (nl_node l r)" "nd_clean (nl_node l r) \<Longrightarrow> nd_clean n"
    using assms(2) n
    by (auto simp: NetworkPeer_activatePublicSocket_def NetworkPeer_activateLocalSocket_def
        NetworkPeer_activateSymmetricSocket_def NetworkPeer_setActiveSocket_def split: if_splits)
  then show ?thesis
    using nl_same_activated assms(1) n by metis
qed

lemma nl_same_ignore:
  "nl_same l (nl_setNode r (Node_addIgnoredNode u (nl_node l r)) l)"
  "nl_same l (nl_setNode r (Node_removeIgnoredNode u (nl_node l r)) l)"
  by (rule nl_same_setNode; simp add: Node_addIgnoredNode_def Node_removeIgnoredNode_def Let_def)+

theorem nl_reachable_ok: "nl_reachable l \<Longrightarrow> nl_ok l"
proof (induction rule: nl_reachable.induct)
  case (start network)
  then show ?case by (simp add: nl_ok_def nl_clean_def LimitedNodeList_new_def)
next
  case (configure l s c b i m d ds k a)
  then show ?case by (simp add: nl_ok_def nl_clean_def)
next
  case (kill_request l now bytes out l')
  then show ?case
    by (metis LimitedNodeList_processKillNode_def nl_ok_shrinks nl_shrinks_killUUID prod.collapse)
next
  case (reset l now out l')
  then obtain o1 l1 where "LimitedNodeList_eraseAllNodes now l = (o1, l1)" "nl_ok l'  = nl_ok l1"
    by (auto simp: LimitedNodeList_reset_def Let_def split: prod.splits)
  then show ?case using reset.IH nl_ok_eraseAll by blast
next
  case (broadcast l mac random now np types n out l')
  then show ?case
    using nl_ok_shrinks nl_shrinks_same nl_same_broadcast unfolding LimitedNodeList_broadcastToNodes_def by blast
next
  case (activate_public l r out l')
  then show ?case using nl_ok_shrinks nl_shrinks_same nl_activate_same by blast
next
  case (activate_local l r out l')
  then show ?case using nl_ok_shrinks nl_shrinks_same nl_activate_same by blast
next
  case (activate_symmetric l r out l')
  then show ?case using nl_ok_shrinks nl_shrinks_same nl_activate_same by blast
qed (auto simp: LimitedNodeList_removeDelayedAdd_def intro: nl_ok_addOrUpdate nl_ok_addNewNode nl_ok_processDelayedAdds
    nl_ok_eraseAll nl_ok_shrinks nl_shrinks_same nl_same_ignore nl_shrinks_killUUID nl_ok_removeSilentNodes
    nl_same_verified nl_same_read nl_same_send nl_same_sendNode)

section \<open>The slice of new agents\<close>

definition nl_counters :: "'addr node_list \<Rightarrow> 'addr node_list \<Rightarrow> bool" where
  "nl_counters l l' \<longleftrightarrow> nl_maxConnectionRate l' = nl_maxConnectionRate l
     \<and> nl_nodesAddedInCurrentTimeSlice l' = nl_nodesAddedInCurrentTimeSlice l
     \<and> nl_delayedNodeAdds l' = nl_delayedNodeAdds l"

lemma addOrUpdate_counters:
  assumes "LimitedNodeList_addOrUpdateNode now info up l = (r, out, l')"
  shows "nl_counters l l'"
proof (cases "LimitedNodeList_nodeWithUUID (ni_uuid info) l")
  case None
  then have "LimitedNodeList_insertNode now info up l = (r, out, l')"
    using assms by (simp add: LimitedNodeList_addOrUpdateNode_def)
  then obtain l1 l5 where "nl_shrinks l l1" "nl_shrinks l1 l5"
    and "l' = l5\<lparr>nl_connectionIDs := cmap_insert (ni_uuid info) 0 (nl_connectionIDs l5),
        nl_heap := nl_heap l5 @ [nl_newNode now info up], nl_nodeHash := cmap_insert (ni_uuid info) r (nl_nodeHash l5),
        nl_localIDMap := cmap_insert (ni_sessionLocalID info) r (nl_localIDMap l5)\<rparr>"
    by (rule nl_insert_shape)
  then show ?thesis by (simp add: nl_counters_def nl_shrinks_def)
next
  case (Some q)
  then have "LimitedNodeList_updateNode q info up l = (out, l')"
    using assms by (auto simp: LimitedNodeList_addOrUpdateNode_def)
  then show ?thesis
    using nl_same_update [of q info up l out l'] by (auto simp: nl_counters_def nl_same_def)
qed

text \<open>Adding either delays an agent when the slice is full or counts the node.\<close>

lemma addNewNode_cases:
  assumes "LimitedNodeList_addNewNode now i l = (out, l')"
  shows "nl_maxConnectionRate l' = nl_maxConnectionRate l
    \<and> (if ni_type i = NodeType_Agent \<and> nl_nodesAddedInCurrentTimeSlice l \<ge> nl_maxConnectionRate l
       then nl_delayedNodeAdds l' = nl_delayedNodeAdds l @ [i]
         \<and> nl_nodesAddedInCurrentTimeSlice l' = nl_nodesAddedInCurrentTimeSlice l
       else nl_delayedNodeAdds l' = nl_delayedNodeAdds l
         \<and> nl_nodesAddedInCurrentTimeSlice l' = nl_nodesAddedInCurrentTimeSlice l + 1)"
proof (cases "ni_type i = NodeType_Agent \<and> nl_nodesAddedInCurrentTimeSlice l \<ge> nl_maxConnectionRate l")
  case True
  then show ?thesis
    using assms by (auto simp: LimitedNodeList_addNewNode_def LimitedNodeList_delayNodeAdd_def)
next
  case False
  obtain r o1 l1 where 1: "LimitedNodeList_addOrUpdateNode now i False l = (r, o1, l1)"
    using prod_cases3 by blast
  then have "l' = l1\<lparr>nl_nodesAddedInCurrentTimeSlice := nl_nodesAddedInCurrentTimeSlice l1 + 1\<rparr>"
    using assms False by (auto simp: LimitedNodeList_addNewNode_def)
  then show ?thesis
    using False addOrUpdate_counters [OF 1] by (auto simp: nl_counters_def)
qed

abbreviation nl_agents :: "'addr new_node_info list \<Rightarrow> 'addr new_node_info list" where
  "nl_agents is \<equiv> filter (\<lambda>i. ni_type i = NodeType_Agent) is"

lemma addNewNodes_slice:
  assumes "nl_addNewNodes now is l = (out, l')"
  shows "nl_maxConnectionRate l' = nl_maxConnectionRate l
    \<and> (\<exists>ds. nl_delayedNodeAdds l' = nl_delayedNodeAdds l @ ds \<and> subseq ds (nl_agents is)
         \<and> nl_nodesAddedInCurrentTimeSlice l' = nl_nodesAddedInCurrentTimeSlice l + length is - length ds
         \<and> length ds \<le> length is
         \<and> length (nl_agents is) - length ds \<le> nl_maxConnectionRate l - nl_nodesAddedInCurrentTimeSlice l
         \<and> (nl_nodesAddedInCurrentTimeSlice l + length is \<le> nl_maxConnectionRate l \<longrightarrow> ds = []))"
  using assms
proof (induction "is" arbitrary: l out)
  case (Cons i "is")
  obtain o1 l1 where 1: "LimitedNodeList_addNewNode now i l = (o1, l1)" by (rule prod.exhaust)
  obtain o2 where 2: "nl_addNewNodes now is l1 = (o2, l')"
    using Cons.prems 1 by (auto split: prod.splits)
  note a = addNewNode_cases [OF 1]
  obtain ds where ds: "nl_maxConnectionRate l' = nl_maxConnectionRate l1" "nl_delayedNodeAdds l' = nl_delayedNodeAdds l1 @ ds"
    "subseq ds (nl_agents is)" "length ds \<le> length is"
    "nl_nodesAddedInCurrentTimeSlice l' = nl_nodesAddedInCurrentTimeSlice l1 + length is - length ds"
    "length (nl_agents is) - length ds \<le> nl_maxConnectionRate l1 - nl_nodesAddedInCurrentTimeSlice l1"
    "nl_nodesAddedInCurrentTimeSlice l1 + length is \<le> nl_maxConnectionRate l1 \<longrightarrow> ds = []"
    using Cons.IH [OF 2] by blast
  show ?case
  proof (cases "ni_type i = NodeType_Agent \<and> nl_nodesAddedInCurrentTimeSlice l \<ge> nl_maxConnectionRate l")
    case True
    then show ?thesis
      using a ds by (intro conjI exI [of _ "i # ds"]) auto
  next
    case False
    then have n: "nl_delayedNodeAdds l1 = nl_delayedNodeAdds l" "nl_maxConnectionRate l1 = nl_maxConnectionRate l"
      "nl_nodesAddedInCurrentTimeSlice l1 = nl_nodesAddedInCurrentTimeSlice l + 1"
      using a by (simp_all split: if_splits)
    have "length ds \<le> length (nl_agents is)" using ds(3) by (rule list_emb_length)
    moreover have "subseq ds (nl_agents (i # is))" using ds(3) by auto
    ultimately show ?thesis
      using False ds(1,2,4-7) n by (intro conjI exI [of _ ds]) auto
  qed
qed simp

section \<open>Properties of the tables\<close>

text \<open>
  C11. Whatever happens to the node list, a UUID is looked up to a node that exists and has that UUID, and of each type of which a
  domain has one (the mixers and servers) there is at most one node in the table.
\<close>

theorem NodeList_one_node_per_role:
  assumes "nl_reachable l"
  shows "(\<forall>u r. LimitedNodeList_nodeWithUUID u l = Some r \<longrightarrow> r < length (nl_heap l) \<and> np_uuid (nl_node l r) = u)
    \<and> (\<forall>u v r q. LimitedNodeList_nodeWithUUID u l = Some r \<and> LimitedNodeList_nodeWithUUID v l = Some q
         \<and> nd_type (nl_node l r) \<in> SOLO_NODE_TYPES \<and> nd_type (nl_node l q) = nd_type (nl_node l r) \<longrightarrow> u = v)"
proof -
  note ok = nl_reachable_ok [OF assms]
  have "u = v" if "LimitedNodeList_nodeWithUUID u l = Some r" "LimitedNodeList_nodeWithUUID v l = Some q"
    "nd_type (nl_node l r) \<in> SOLO_NODE_TYPES" "nd_type (nl_node l q) = nd_type (nl_node l r)" for u v r q
  proof -
    have m: "(u, r) \<in> set (nl_nodeHash l)" "(v, q) \<in> set (nl_nodeHash l)"
      using that(1,2) by (auto simp: LimitedNodeList_nodeWithUUID_def dest: map_of_SomeD)
    then show ?thesis
      using nl_ok_solo [OF ok m that(3,4)] nl_ok_entry(1) [OF ok m(1)] nl_ok_entry(1) [OF ok m(2)] by simp
  qed
  then show ?thesis
    using nl_ok_entry [OF ok]
    by (auto simp: LimitedNodeList_nodeWithUUID_def LimitedNodeList_nodeWithLocalID_def dest!: map_of_SomeD)
qed

text \<open>
  New agents are throttled and none is forgotten. Of any nodes announced in a slice, at most as many agents
  are added as the rate leaves, the others are queued in the order they came; and when the slice ends, the first of
  the queue are added, up to the rate, none of them goes back to the queue, and the rest keeps its order.
\<close>

theorem NodeList_throttles_agents:
  "(\<forall>is out l'. nl_addNewNodes now is l = (out, l') \<longrightarrow>
      (\<exists>ds. nl_delayedNodeAdds l' = nl_delayedNodeAdds l @ ds \<and> subseq ds (nl_agents is)
        \<and> length (nl_agents is) - length ds \<le> nl_maxConnectionRate l - nl_nodesAddedInCurrentTimeSlice l))
    \<and> (\<forall>out l'. LimitedNodeList_processDelayedAdds now l = (out, l') \<longrightarrow>
      nl_delayedNodeAdds l' = drop (nl_maxConnectionRate l) (nl_delayedNodeAdds l)
      \<and> nl_nodesAddedInCurrentTimeSlice l' = min (length (nl_delayedNodeAdds l)) (nl_maxConnectionRate l))"
proof (intro conjI allI impI)
  fix "is" out l'
  assume "nl_addNewNodes now is l = (out, l')"
  then show "\<exists>ds. nl_delayedNodeAdds l' = nl_delayedNodeAdds l @ ds \<and> subseq ds (nl_agents is)
      \<and> length (nl_agents is) - length ds \<le> nl_maxConnectionRate l - nl_nodesAddedInCurrentTimeSlice l"
    using addNewNodes_slice [of now "is" l out l'] by blast
next
  fix out l'
  assume p: "LimitedNodeList_processDelayedAdds now l = (out, l')"
  obtain k where k: "min (length (nl_delayedNodeAdds l)) (nl_maxConnectionRate l) = k" by blast
  obtain o1 l1 where 1: "nl_addNewNodes now (take k (nl_delayedNodeAdds l)) (l\<lparr>nl_nodesAddedInCurrentTimeSlice := 0\<rparr>) = (o1, l1)"
    by (rule prod.exhaust)
  have "length (take k (nl_delayedNodeAdds l)) = k" "k \<le> nl_maxConnectionRate l" using k by auto
  then have "nl_delayedNodeAdds l1 = nl_delayedNodeAdds l" "nl_nodesAddedInCurrentTimeSlice l1 = k"
    using addNewNodes_slice [OF 1] by auto
  moreover have "drop k (nl_delayedNodeAdds l) = drop (nl_maxConnectionRate l) (nl_delayedNodeAdds l)"
    using k by (auto simp: min_def split: if_splits)
  moreover have "l' = l1\<lparr>nl_delayedNodeAdds := drop k (nl_delayedNodeAdds l1)\<rparr>"
    using p 1 k by (simp add: LimitedNodeList_processDelayedAdds_def Let_def)
  ultimately show "nl_delayedNodeAdds l' = drop (nl_maxConnectionRate l) (nl_delayedNodeAdds l)"
    and "nl_nodesAddedInCurrentTimeSlice l' = min (length (nl_delayedNodeAdds l)) (nl_maxConnectionRate l)"
    using k by simp_all
qed

theorem NodeList_throttles_agents_witness:
  "\<exists>out (l' :: nat node_list) i. ni_type i = NodeType_Agent
    \<and> nl_addNewNodes 0 [i, i, i] ((LimitedNodeList_new (\<lambda>_. None))\<lparr>nl_maxConnectionRate := 1\<rparr>) = (out, l')
    \<and> 2 \<le> length (nl_delayedNodeAdds l')"
proof -
  let ?i = "\<lparr>ni_type = NodeType_Agent, ni_uuid = 7, ni_publicSocket = Some (1 :: nat), ni_localSocket = Some 2,
    ni_permissions = 0, ni_isReplicated = False, ni_sessionLocalID = 3, ni_connectionSecretUUID = 4\<rparr>"
  let ?l = "(LimitedNodeList_new (\<lambda>_. None))\<lparr>nl_maxConnectionRate := 1\<rparr> :: nat node_list"
  obtain out and l' :: "nat node_list" where a: "nl_addNewNodes 0 [?i, ?i, ?i] ?l = (out, l')" by (rule prod.exhaust)
  then obtain ds where "nl_delayedNodeAdds l' = nl_delayedNodeAdds ?l @ ds"
    "length (nl_agents [?i, ?i, ?i]) - length ds \<le> nl_maxConnectionRate ?l - nl_nodesAddedInCurrentTimeSlice ?l"
    using conjunct1 [OF NodeList_throttles_agents [of 0 ?l], rule_format, OF a] by blast
  then have "2 \<le> length (nl_delayedNodeAdds l')"
    by (simp add: LimitedNodeList_new_def)
  with a show ?thesis
    by (intro exI [of _ out] exI [of _ l'] exI [of _ ?i]) simp
qed

theorem NodeList_one_node_per_role_witness:
  "\<exists>(i :: nat new_node_info) j o1 l1 o2 l2. ni_type i = NodeType_AudioMixer \<and> ni_type j = NodeType_AudioMixer
    \<and> LimitedNodeList_addNewNode 0 i (LimitedNodeList_new (\<lambda>_. None)) = (o1, l1)
    \<and> LimitedNodeList_addNewNode 1 j l1 = (o2, l2)
    \<and> \<not> (\<exists>r q. LimitedNodeList_nodeWithUUID 7 l2 = Some r \<and> LimitedNodeList_nodeWithUUID 8 l2 = Some q
        \<and> nd_type (nl_node l2 r) = NodeType_AudioMixer \<and> nd_type (nl_node l2 q) = NodeType_AudioMixer)"
proof -
  let ?i = "\<lparr>ni_type = NodeType_AudioMixer, ni_uuid = 7, ni_publicSocket = Some (1 :: nat), ni_localSocket = Some 2,
    ni_permissions = 0, ni_isReplicated = False, ni_sessionLocalID = 3, ni_connectionSecretUUID = 4\<rparr>"
  let ?j = "?i\<lparr>ni_uuid := 8, ni_publicSocket := Some 5, ni_localSocket := Some 6\<rparr>"
  obtain o1 and l1 :: "nat node_list" where 1: "LimitedNodeList_addNewNode 0 ?i (LimitedNodeList_new (\<lambda>_. None)) = (o1, l1)"
    by (rule prod.exhaust)
  obtain o2 l2 where 2: "LimitedNodeList_addNewNode 1 ?j l1 = (o2, l2)" by (rule prod.exhaust)
  have "nl_reachable l2"
    by (rule nl_reachable.add_new [OF nl_reachable.add_new [OF nl_reachable.start 1] 2])
  from NodeList_one_node_per_role [OF this]
  have "\<not> (\<exists>r q. LimitedNodeList_nodeWithUUID 7 l2 = Some r \<and> LimitedNodeList_nodeWithUUID 8 l2 = Some q
        \<and> nd_type (nl_node l2 r) = NodeType_AudioMixer \<and> nd_type (nl_node l2 q) = NodeType_AudioMixer)"
    by (auto simp: SOLO_NODE_TYPES_def) fastforce
  with 1 2 show ?thesis
    by (intro exI [of _ ?i] exI [of _ ?j] exI [of _ o1] exI [of _ l1] exI [of _ o2] exI [of _ l2]) simp
qed

section \<open>Silent nodes\<close>

abbreviation nl_connected :: "'addr node_list \<Rightarrow> 'addr option \<Rightarrow> bool" where
  "nl_connected l a \<equiv> map_of (sk_connectionsHash (nl_nodeSocket l)) a \<noteq> None"

lemma handleKill_effects:
  assumes "LimitedNodeList_handleNodeKill now r i l = (out, l')"
  shows "NlNodeKilled q \<in> set out \<longleftrightarrow> q = r"
    and "NetworkPeer_getActiveSocket (nl_node l' q) = NetworkPeer_getActiveSocket (nl_node l q)"
    and "nl_connected l' a \<longleftrightarrow> nl_connected l a \<and> NetworkPeer_getActiveSocket (nl_node l r) \<noteq> Some a"
proof -
  obtain l1 where l1: "nl_setNode r ((nl_node l r)\<lparr>np_pingTimer := False\<rparr>) (l\<lparr>nl_nodeDisconnectTimestamp := now\<rparr>) = l1"
    by blast
  have same: "NetworkPeer_getActiveSocket (nl_node l1 q) = NetworkPeer_getActiveSocket (nl_node l q)" for q
    by (cases "r < length (nl_heap l)"; cases "q = r")
      (simp_all add: nl_setNode_def NetworkPeer_getActiveSocket_def list_update_beyond
        split: active_socket.split flip: l1)
  obtain o2 l2 where l2: "(case NetworkPeer_getActiveSocket (nl_node l1 r) of None \<Rightarrow> ([], l1)
                       | Some a \<Rightarrow> nl_cleanupConnection a l1) = (o2, l2)" by (rule prod.exhaust)
  have h: "nl_heap l2 = nl_heap l1"
    using l2 by (auto simp: nl_cleanupConnection_def split: option.splits prod.splits)
  have c: "nl_connected l2 a \<longleftrightarrow> nl_connected l a \<and> NetworkPeer_getActiveSocket (nl_node l r) \<noteq> Some a"
  proof (cases "NetworkPeer_getActiveSocket (nl_node l r)")
    case None
    then have "l2 = l1" using l2 same [of r] by simp
    then show ?thesis using None by (simp add: nl_setNode_def flip: l1)
  next
    case (Some b)
    then have "map_of (sk_connectionsHash (nl_nodeSocket l2)) = (map_of (sk_connectionsHash (nl_nodeSocket l1)))(b := None)"
      using l2 same [of r] by (auto simp: nl_cleanupConnection_def Socket_cleanupConnection_def AList.delete_conv')
    moreover have "nl_nodeSocket l1 = nl_nodeSocket l" by (simp add: nl_setNode_def flip: l1)
    ultimately show ?thesis using Some by auto
  qed
  have o2: "NlNodeKilled q \<notin> set o2" for q
    using l2 by (auto simp: nl_cleanupConnection_def split: option.splits prod.splits)
  have "out = NlNodeKilled r # o2" "nl_heap l' = nl_heap l2" "nl_nodeSocket l' = nl_nodeSocket l2"
    using assms unfolding LimitedNodeList_handleNodeKill_def Let_def l1 l2 by (auto split: option.splits)
  then show "NlNodeKilled q \<in> set out \<longleftrightarrow> q = r"
    and "NetworkPeer_getActiveSocket (nl_node l' q) = NetworkPeer_getActiveSocket (nl_node l q)"
    and "nl_connected l' a \<longleftrightarrow> nl_connected l a \<and> NetworkPeer_getActiveSocket (nl_node l r) \<noteq> Some a"
    using o2 h c same by simp_all
qed

lemma handleKills_effects:
  assumes "nl_handleKills now rs l = (out, l')"
  shows "(NlNodeKilled q \<in> set out \<longleftrightarrow> q \<in> set rs)
    \<and> NetworkPeer_getActiveSocket (nl_node l' q) = NetworkPeer_getActiveSocket (nl_node l q)
    \<and> (nl_connected l' a \<longleftrightarrow> nl_connected l a \<and> (\<forall>r \<in> set rs. NetworkPeer_getActiveSocket (nl_node l r) \<noteq> Some a))"
  using assms
proof (induction rs arbitrary: l out)
  case (Cons r rs)
  obtain o1 l1 where 1: "LimitedNodeList_handleNodeKill now r NULL_CONNECTION_ID l = (o1, l1)" by (rule prod.exhaust)
  obtain o2 where 2: "nl_handleKills now rs l1 = (o2, l')" "out = o1 @ o2"
    using Cons.prems 1 by (auto split: prod.splits)
  show ?case
    using Cons.IH [OF 2(1)] handleKill_effects [OF 1] 2(2) by auto
qed simp

lemma removeSilent_hash:
  assumes "nl_removeSilent now es l = (rs, l')"
  shows "nl_heap l' = nl_heap l \<and> nl_nodeSocket l' = nl_nodeSocket l
    \<and> rs = map snd (filter (\<lambda>e. nl_isSilent now (nl_node l (snd e))) es)
    \<and> map_of (nl_nodeHash l') u = (if \<exists>r. (u, r) \<in> set es \<and> nl_isSilent now (nl_node l r) then None
        else map_of (nl_nodeHash l) u)"
  using assms
proof (induction now es l arbitrary: rs rule: nl_removeSilent.induct)
  case (2 now v r es l)
  show ?case
  proof (cases "nl_isSilent now (nl_node l r)")
    case True
    let ?l = "l\<lparr>nl_localIDMap := AList.delete (np_localID (nl_node l r)) (nl_localIDMap l),
       nl_nodeHash := AList.delete v (nl_nodeHash l)\<rparr>"
    obtain rs2 where "nl_removeSilent now es ?l = (rs2, l')" "rs = r # rs2"
      using "2.prems" True by (auto split: prod.splits)
    then show ?thesis
      using "2.IH"(1) [OF True, of rs2] True by (auto simp: AList.delete_conv')
  next
    case False
    then show ?thesis using "2.IH"(2) [OF False, of rs] "2.prems" by auto
  qed
qed simp

text \<open>
  C27. The silence timer removes exactly the silent nodes: those not exempt and not heard from for more than ten
  seconds are no longer found by their UUID and announced as killed, and the socket keeps no connection to the
  address a killed node used; every other node is still found, and every other connection is kept.
\<close>

theorem NodeList_removes_exactly_silent:
  assumes "nl_reachable l" and "LimitedNodeList_removeSilentNodes now l = (out, l')"
  shows "(\<forall>u. LimitedNodeList_nodeWithUUID u l' = (case LimitedNodeList_nodeWithUUID u l of None \<Rightarrow> None
        | Some r \<Rightarrow> if nl_isSilent now (nl_node l r) then None else Some r))
    \<and> (\<forall>r. NlNodeKilled r \<in> set out \<longleftrightarrow>
        (\<exists>u. LimitedNodeList_nodeWithUUID u l = Some r \<and> nl_isSilent now (nl_node l r)))
    \<and> (\<forall>a. nl_connected l' a \<longleftrightarrow> nl_connected l a
        \<and> \<not> (\<exists>r. NlNodeKilled r \<in> set out \<and> NetworkPeer_getActiveSocket (nl_node l r) = Some a))"
proof -
  have d: "distinct (map fst (nl_nodeHash l))"
    using nl_reachable_ok [OF assms(1)] by (simp add: nl_ok_def)
  have m: "LimitedNodeList_nodeWithUUID u l = Some r \<longleftrightarrow> (u, r) \<in> set (nl_nodeHash l)" for u r
    using d by (simp add: LimitedNodeList_nodeWithUUID_def map_of_eq_Some_iff)
  obtain rs l1 where 1: "nl_removeSilent now (nl_nodeHash l) l = (rs, l1)" by (rule prod.exhaust)
  then have 2: "nl_handleKills now rs l1 = (out, l')"
    using assms(2) by (simp add: LimitedNodeList_removeSilentNodes_def)
  note s = removeSilent_hash [OF 1] and k = handleKills_effects [OF 2]
  have "nl_nodeHash l' = nl_nodeHash l1"
    using nl_same_kills [OF 2] by (simp add: nl_same_def)
  then have u: "LimitedNodeList_nodeWithUUID u l' = (case LimitedNodeList_nodeWithUUID u l of None \<Rightarrow> None
        | Some r \<Rightarrow> if nl_isSilent now (nl_node l r) then None else Some r)" for u
  proof (cases "LimitedNodeList_nodeWithUUID u l")
    case None
    then have "(u, r) \<notin> set (nl_nodeHash l)" for r using m [of u r] by simp
    then show ?thesis
      using s [of u] None \<open>nl_nodeHash l' = nl_nodeHash l1\<close> by (simp add: LimitedNodeList_nodeWithUUID_def)
  next
    case (Some r0)
    then have "(u, r) \<in> set (nl_nodeHash l) \<longleftrightarrow> r = r0" for r using m [of u r] by auto
    then show ?thesis
      using s [of u] Some \<open>nl_nodeHash l' = nl_nodeHash l1\<close> by (simp add: LimitedNodeList_nodeWithUUID_def)
  qed
  have e: "NlNodeKilled r \<in> set out \<longleftrightarrow> (\<exists>u. (u, r) \<in> set (nl_nodeHash l) \<and> nl_isSilent now (nl_node l r))" for r
    using s k by (auto simp: image_iff)
  have "nl_connected l' a \<longleftrightarrow> nl_connected l a
        \<and> \<not> (\<exists>r. NlNodeKilled r \<in> set out \<and> NetworkPeer_getActiveSocket (nl_node l r) = Some a)" for a
    using s k by auto
  then show ?thesis using u e m by simp
qed

text \<open>The first node of a list.\<close>

lemma first_node:
  assumes "ni_publicSocket i = Some a" and "ni_localSocket i = Some b" and "0 < nl_maxConnectionRate l"
    and l: "nl_heap l = []" "nl_nodeHash l = []" "nl_localIDMap l = []" "nl_nodesAddedInCurrentTimeSlice l = 0"
    "sk_connectionsHash (nl_nodeSocket l) = []"
  shows "\<exists>out l'. LimitedNodeList_addNewNode now i l = (out, l') \<and> nl_heap l' = [nl_newNode now i False]
    \<and> nl_nodeHash l' = [(ni_uuid i, 0)] \<and> nl_localIDMap l' = [(ni_sessionLocalID i, 0)]
    \<and> nl_nodeSocket l' = (nl_nodeSocket l)\<lparr>sk_connectionsHash := []\<rparr> \<and> nl_useAuthentication l' = nl_useAuthentication l
    \<and> nl_dropOutgoingNodeTraffic l' = nl_dropOutgoingNodeTraffic l \<and> nl_sessionLocalID l' = nl_sessionLocalID l"
proof -
  have r: "nl_maxConnectionRate l \<noteq> 0" using assms(3) by simp
  have f: "LimitedNodeList_nodeMatchingPredicate P l = None" for P
    by (simp add: LimitedNodeList_nodeMatchingPredicate_def l)
  show ?thesis
    by (simp add: LimitedNodeList_addNewNode_def assms(1,2) l r LimitedNodeList_addOrUpdateNode_def LimitedNodeList_nodeWithUUID_def
        LimitedNodeList_insertNode_def LimitedNodeList_soloNodeOfType_def LimitedNodeList_findNodeWithAddr_def f
        nl_removeOldNode_def nl_cleanupConnection_def Socket_cleanupConnection_def cmap_insert_def nl_newNode_def Let_def)
qed

theorem NodeList_removes_exactly_silent_witness:
  "\<exists>(i :: nat new_node_info) o1 l1 o2 l2. LimitedNodeList_addNewNode 0 i (LimitedNodeList_new (\<lambda>_. None)) = (o1, l1)
    \<and> LimitedNodeList_removeSilentNodes 10000001 l1 = (o2, l2)
    \<and> LimitedNodeList_nodeWithUUID 7 l1 = Some 0 \<and> LimitedNodeList_nodeWithUUID 7 l2 = None \<and> NlNodeKilled 0 \<in> set o2"
proof -
  let ?i = "\<lparr>ni_type = NodeType_Agent, ni_uuid = 7, ni_publicSocket = Some (1 :: nat), ni_localSocket = Some 2,
    ni_permissions = 0, ni_isReplicated = False, ni_sessionLocalID = 3, ni_connectionSecretUUID = 4\<rparr>"
  obtain o1 and l1 :: "nat node_list" where 1: "LimitedNodeList_addNewNode 0 ?i (LimitedNodeList_new (\<lambda>_. None)) = (o1, l1)"
    "nl_heap l1 = [nl_newNode 0 ?i False]" "nl_nodeHash l1 = [(7, 0)]"
    using first_node [of ?i 1 2 "LimitedNodeList_new (\<lambda>_. None)" 0] by (auto simp: LimitedNodeList_new_def Socket_new_def)
  obtain o2 l2 where 2: "LimitedNodeList_removeSilentNodes 10000001 l1 = (o2, l2)" by (rule prod.exhaust)
  have n: "LimitedNodeList_nodeWithUUID 7 l1 = Some 0"
    by (simp add: LimitedNodeList_nodeWithUUID_def 1(3))
  have s: "nl_isSilent 10000001 (nl_node l1 0)"
    by (simp add: nl_isSilent_def 1(2) nl_newNode_def Node_new_def Node_setConnectionSecret_def NODE_SILENCE_THRESHOLD_MSECS_def)
  have "nl_reachable l1" by (rule nl_reachable.add_new [OF nl_reachable.start 1(1)])
  note t = NodeList_removes_exactly_silent [OF this 2]
  have "LimitedNodeList_nodeWithUUID 7 l2 = None" "NlNodeKilled 0 \<in> set o2"
    using t n s by auto
  with 1(1) 2 n show ?thesis by blast
qed

end
