(* ===== verification/Node_Verify.thy ===== *)
theory Node_Verify
  imports Node_Tables
begin

text \<open>
  The verification of the node list from end to end: what it accepts, that it accepts what another node list
  sent with the same connection secret, and that nothing else reaches the packet receiver.
\<close>

section \<open>What is accepted\<close>

text \<open>The verdict, for a packet whose type carries a source and a hash.\<close>

definition nl_authentic :: "mac \<Rightarrow> ('addr option, 'm) packet_scheme \<Rightarrow> packet_type \<Rightarrow> 16 word \<Rightarrow> 'addr node_list \<Rightarrow> bool" where
  "nl_authentic mac q type k l \<longleftrightarrow>
     (case LimitedNodeList_nodeWithLocalID k l of
        Some r \<Rightarrow> \<not> nl_useAuthentication l
          \<or> (nl_isDomainServer l \<and> type \<in> getDomainIgnoredVerificationPackets)
          \<or> (nd_authenticateHash (nl_node l r) \<noteq> None
             \<and> NLPacket_verificationHashInHeader q = Some (mac (toRfc4122 (nd_connectionSecret (nl_node l r))) (nl_hashed q)))
      | None \<Rightarrow> \<not> nl_isDomainServer l \<and> k = nl_domainLocalID l \<and> nl_sender q = nl_domainSockAddr l
          \<and> type \<in> getDomainSourcedPackets)"

lemma header_reads:
  assumes "nl_hashed_from q \<le> length (bp_packet q)"
  shows "\<exists>type. NLPacket_typeInHeader q = Some type" and "\<exists>v. NLPacket_versionInHeader q = Some v"
    and "\<exists>k. NLPacket_sourceIDInHeader q = Some k" and "\<exists>h. NLPacket_verificationHashInHeader q = Some h"
  using assms
  by (simp_all add: NLPacket_typeInHeader_def NLPacket_versionInHeader_def NLPacket_sourceIDInHeader_def
      NLPacket_verificationHashInHeader_def nl_offset_eq mem_read_def nl_hashed_from_def NUM_BYTES_LOCALID_def
      NUM_BYTES_MD5_HASH_def)

lemma hashMatches_verdict:
  assumes ok: "nl_ok l" and r: "r < length (nl_heap l)" and len: "nl_hashed_from q \<le> nat (BasePacket_getDataSize q)"
    "nat (BasePacket_getDataSize q) \<le> length (bp_packet q)"
  shows "\<exists>l1. nl_hashMatches mac q r l = Some (nd_authenticateHash (nl_node l r) \<noteq> None
      \<and> NLPacket_verificationHashInHeader q = Some (mac (toRfc4122 (nd_connectionSecret (nl_node l r))) (nl_hashed q)), l1)"
proof -
  obtain h where h: "NLPacket_verificationHashInHeader q = Some h"
    using header_reads(4) [of q] len by auto
  have clean: "nd_clean (nl_node l r)"
    using ok r by (simp add: nl_ok_def nl_clean_def)
  show ?thesis
  proof (cases "nd_authenticateHash (nl_node l r)")
    case None
    then show ?thesis by (simp add: nl_hashMatches_def h)
  next
    case (Some auth)
    then have "ha_ready (toRfc4122 (nd_connectionSecret (nl_node l r))) auth"
      using clean by (simp add: nd_clean_def)
    from nl_hash_is [OF this len, of mac] show ?thesis
      using Some by (auto simp: nl_hashMatches_def h)
  qed
qed

lemma version_verdict:
  assumes "NLPacket_typeInHeader q = Some type" and "NLPacket_versionInHeader q = Some v"
    and "NLPacket_sourceIDInHeader q = Some k"
  shows "\<exists>out l1. LimitedNodeList_packetVersionMatch q l = Some (v = versionForPacketType type, out, l1)
    \<and> (v = versionForPacketType type \<longrightarrow> out = [] \<and> l1 = l)"
  using assms by (auto simp: LimitedNodeList_packetVersionMatch_def Let_def split: option.split)

lemma verified_verdict:
  assumes ok: "nl_ok l" and len: "nl_hashed_from q \<le> nat (BasePacket_getDataSize q)"
    "nat (BasePacket_getDataSize q) \<le> length (bp_packet q)"
    and t: "NLPacket_typeInHeader q = Some type" "nl_signed type"
    and v: "NLPacket_versionInHeader q = Some v" and k: "NLPacket_sourceIDInHeader q = Some k"
  shows "\<exists>out l'. LimitedNodeList_isPacketVerified mac now q l
      = Some (v = versionForPacketType type \<and> nl_authentic mac q type k l, out, l')
    \<and> (v = versionForPacketType type \<longrightarrow> out = [])"
proof -
  obtain out l1 where vm: "LimitedNodeList_packetVersionMatch q l = Some (v = versionForPacketType type, out, l1)"
    and l1: "v = versionForPacketType type \<longrightarrow> out = [] \<and> l1 = l"
    using version_verdict [OF t(1) v k, of l] by blast
  have "\<exists>l'. LimitedNodeList_packetSourceAndHashMatch mac now q None l = Some (nl_authentic mac q type k l, l')"
  proof (cases "LimitedNodeList_nodeWithLocalID k l")
    case None
    then show ?thesis
      using t k by (simp add: LimitedNodeList_packetSourceAndHashMatch_def nl_authentic_def)
  next
    case (Some r)
    then have "r < length (nl_heap l)"
      using nl_ok_entry(2) [OF ok] by (auto simp: LimitedNodeList_nodeWithLocalID_def dest: map_of_SomeD)
    then obtain l2 where h: "nl_hashMatches mac q r l = Some (nd_authenticateHash (nl_node l r) \<noteq> None
      \<and> NLPacket_verificationHashInHeader q = Some (mac (toRfc4122 (nd_connectionSecret (nl_node l r))) (nl_hashed q)), l2)"
      using hashMatches_verdict [OF ok _ len] by blast
    show ?thesis
    proof (cases "(nl_isDomainServer l \<and> type \<in> getDomainIgnoredVerificationPackets) \<or> \<not> nl_useAuthentication l")
      case True
      then show ?thesis
        using t k Some by (auto simp: LimitedNodeList_packetSourceAndHashMatch_def nl_authentic_def Let_def)
    next
      case False
      then show ?thesis
        using t k Some h by (simp add: LimitedNodeList_packetSourceAndHashMatch_def nl_authentic_def Let_def)
    qed
  qed
  then show ?thesis
    using vm l1 by (auto simp: LimitedNodeList_isPacketVerified_def LimitedNodeList_isPacketVerifiedWithSource_def)
qed

text \<open>
  C9. The verdict of a reachable node list on a packet that has a full header and a type that is sourced and verified is exactly
  this: its version is ours, and either its source id is that of a node and (unless verification is off, or a domain server
  ignores it for this type) that node has a hash context and the packet's hash is the keyed hash, under the connection secret of
  the node, of everything after the hash; or no node has the id and it is one of the packets a domain server sources, from the
  domain server's id and address. So while verification applies, a node that was never given a connection secret is refused; where it does
  not apply, any packet with the id of a node is believed. Verification never reads outside the packet.
\<close>

theorem NodeList_accepts_exactly_authentic:
  assumes "nl_reachable l" and "nl_hashed_from q \<le> nat (BasePacket_getDataSize q)"
    and "nat (BasePacket_getDataSize q) \<le> length (bp_packet q)"
    and "NLPacket_typeInHeader q = Some type" and "type \<notin> getNonSourcedPackets" and "type \<notin> getNonVerifiedPackets"
  shows "\<exists>v k ok out l'. NLPacket_versionInHeader q = Some v \<and> NLPacket_sourceIDInHeader q = Some k
    \<and> LimitedNodeList_isPacketVerified mac now q l = Some (ok, out, l')
    \<and> (ok \<longleftrightarrow> v = versionForPacketType type \<and>
        (case LimitedNodeList_nodeWithLocalID k l of
          Some r \<Rightarrow> \<not> nl_useAuthentication l \<or> (nl_isDomainServer l \<and> type \<in> getDomainIgnoredVerificationPackets)
            \<or> (nd_authenticateHash (nl_node l r) \<noteq> None \<and> NLPacket_verificationHashInHeader q
                 = Some (mac (toRfc4122 (nd_connectionSecret (nl_node l r))) (nl_hashed q)))
        | None \<Rightarrow> \<not> nl_isDomainServer l \<and> k = nl_domainLocalID l \<and> nl_sender q = nl_domainSockAddr l
            \<and> type \<in> getDomainSourcedPackets))"
proof -
  have "nl_hashed_from q \<le> length (bp_packet q)" using assms(2,3) by simp
  then obtain v k where vk: "NLPacket_versionInHeader q = Some v" "NLPacket_sourceIDInHeader q = Some k"
    using header_reads(2,3) by blast
  obtain out l' where "LimitedNodeList_isPacketVerified mac now q l
      = Some (v = versionForPacketType type \<and> nl_authentic mac q type k l, out, l')"
    using verified_verdict [OF nl_reachable_ok [OF assms(1)] assms(2-4) _ vk] assms(5,6) by blast
  then show ?thesis
    using vk unfolding nl_authentic_def by blast
qed

section \<open>What is sent\<close>

lemma nl_inv_fields: "nl_inv p \<Longrightarrow> bp_payloadStart p = pkt_header p + NLPacket_localHeaderSize (nl_type p)"
  by (simp add: nl_inv_def)

lemma fill_signed:
  assumes p: "nl_inv p" and t: "nl_signed (nl_type p)" and a: "nl_useAuthentication l"
    and h: "nd_authenticateHash (nl_node l r) = Some h" "ha_ready key h" and m: "\<And>d. length (mac key d) = 16"
  shows "\<exists>p' l1. LimitedNodeList_fillPacketHeader mac p (Some r) l = Some (p', l1) \<and> nl_inv p'
    \<and> nl_type p' = nl_type p \<and> nl_version p' = nl_version p \<and> pkt_obfuscationLevel p' = pkt_obfuscationLevel p
    \<and> pkt_isReliable p' = pkt_isReliable p \<and> pkt_isPartOfMessage p' = pkt_isPartOfMessage p
    \<and> NLPacket_sourceIDInHeader p' = Some (nl_sessionLocalID l)
    \<and> NLPacket_verificationHashInHeader p' = Some (mac key (nl_hashed p'))
    \<and> BasePacket_payload p' = BasePacket_payload p \<and> nl_nodeSocket l1 = nl_nodeSocket l"
proof -
  obtain b1 where 1: "NLPacket_writeSourceID (nl_sessionLocalID l) p = Some (p\<lparr>bp_packet := b1, nl_sourceID := Some (nl_sessionLocalID l)\<rparr>)"
    "nl_inv (p\<lparr>bp_packet := b1, nl_sourceID := Some (nl_sessionLocalID l)\<rparr>)"
    "NLPacket_sourceIDInHeader (p\<lparr>bp_packet := b1\<rparr>) = Some (nl_sessionLocalID l)"
    "drop (bp_payloadStart p) b1 = drop (bp_payloadStart p) (bp_packet p)"
    using writeSourceID_laws [OF p, of "nl_sessionLocalID l"] t by blast
  let ?p1 = "p\<lparr>bp_packet := b1, nl_sourceID := Some (nl_sessionLocalID l)\<rparr>"
  have t1: "nl_signed (nl_type ?p1)" using t by simp
  obtain b2 h' where 2: "NLPacket_writeVerificationHash mac h ?p1 = Some (?p1\<lparr>bp_packet := b2\<rparr>, h')"
    "nl_inv (?p1\<lparr>bp_packet := b2\<rparr>)" "nl_hashed (?p1\<lparr>bp_packet := b2\<rparr>) = nl_hashed ?p1"
    "NLPacket_sourceIDInHeader (?p1\<lparr>bp_packet := b2\<rparr>) = NLPacket_sourceIDInHeader ?p1"
    "NLPacket_verificationHashInHeader (?p1\<lparr>bp_packet := b2\<rparr>) = Some (mac key (nl_hashed ?p1))"
    "drop (bp_payloadStart ?p1) b2 = drop (bp_payloadStart ?p1) (bp_packet ?p1)"
    using writeVerificationHash_laws [OF 1(2) t1 h(2), of mac] m by blast
  have s: "NLPacket_sourceIDInHeader ?p1 = Some (nl_sessionLocalID l)"
    using 1(3) by (simp add: NLPacket_sourceIDInHeader_def nl_offset_eq)
  have pay: "BasePacket_payload (?p1\<lparr>bp_packet := b2\<rparr>) = BasePacket_payload p"
    using 1(4) 2(6) by (simp add: BasePacket_payload_def)
  have "LimitedNodeList_fillPacketHeader mac p (Some r) l
      = Some (?p1\<lparr>bp_packet := b2\<rparr>, nl_setNode r ((nl_node l r)\<lparr>nd_authenticateHash := Some h'\<rparr>) l)"
    unfolding LimitedNodeList_fillPacketHeader_def using t a h(1) by (simp add: 1(1) 2(1))
  then show ?thesis
    using 2 s pay by (intro exI [of _ "?p1\<lparr>bp_packet := b2\<rparr>"]
        exI [of _ "nl_setNode r ((nl_node l r)\<lparr>nd_authenticateHash := Some h'\<rparr>) l"] conjI) (auto simp: nl_setNode_def)
qed

lemma headerWord_not_control:
  assumes "seq_wf (pkt_sequenceNumber p)"
  shows "Packet_headerWord p AND CONTROL_BIT_MASK = 0"
proof -
  have "SequenceNumber_to_uint (pkt_sequenceNumber p) AND CONTROL_BIT_MASK = 0"
    by (rule low_bits_disjoint [OF seq_word_masked [OF assms]]) (simp add: Constants_static_asserts)
  then show ?thesis
    by (cases "pkt_obfuscationLevel p")
      (simp_all add: Packet_headerWord_def Let_def Constants_static_asserts header_offsets word_ao_dist push_bit_eq_mult)
qed

lemma wire_is_data:
  assumes p: "pkt_inv p" and "BasePacket_wire p = Some wire"
  shows "\<exists>w. read32 wire 0 = Some w \<and> w AND CONTROL_BIT_MASK = 0" and "0 < length wire"
proof -
  note d = pkt_inv_data [OF p]
  have "Packet_header_in p (take (nat (BasePacket_getDataSize p)) (bp_packet p))"
    using Packet_header_in_take [OF _ d(1,2)] p by (simp add: pkt_inv_def)
  then have "mem_read wire 0 4 = Some (le32 (Packet_headerWord p))"
    using assms(2) d(3) by (simp add: Packet_header_in_def)
  moreover from this show "0 < length wire"
    by (auto simp: mem_read_def split: if_splits)
  ultimately show "\<exists>w. read32 wire 0 = Some w \<and> w AND CONTROL_BIT_MASK = 0"
    using p headerWord_not_control [of p] by (simp add: read32_def pkt_inv_def pkt_wf_def)
qed

lemma writePacket_sends:
  assumes p: "pkt_inv p" and n: "seq_wf (sk_number s a)" and b: "sk_network s a \<noteq> None"
  shows "\<exists>bytes p' wire s'. Socket_writePacket random now p a s = Some (bytes, [SkDatagram wire a], s')
    \<and> Packet_writeSequenceNumber (SequenceNumber_inc (sk_number s a)) p = Some p' \<and> BasePacket_wire p' = Some wire
    \<and> pkt_inv p'"
proof -
  obtain bytes wire s' where w: "Socket_writePacket random now p a s = Some (bytes, [SkDatagram wire a], s')"
    using writePacket_laws [OF assms] by blast
  obtain p' where p': "Packet_writeSequenceNumber (SequenceNumber_inc (sk_number s a)) p = Some p'" "pkt_inv p'"
    using Packet_writeSequenceNumber_inv [OF p seq_wf_inc [OF n]] by blast
  then obtain wire' where "BasePacket_wire p' = Some wire'" using pkt_inv_data(3) by blast
  moreover from this have "wire' = wire"
    using w p'(1) unfolding Socket_writePacket_def Let_def sk_number_def [symmetric]
    by (auto simp: Socket_writeDatagram_def split: bind_splits option.splits)
  ultimately show ?thesis using w p' by blast
qed

lemma sendUnreliable_signed:
  assumes p: "nl_inv p" and t: "nl_signed (nl_type p)" and a: "nl_useAuthentication l" "\<not> nl_dropOutgoingNodeTraffic l"
    and h: "nd_authenticateHash (nl_node l r) = Some h" "ha_ready key h" and m: "\<And>d. length (mac key d) = 16"
    and clear: "pkt_obfuscationLevel p = NoObfuscation" "\<not> pkt_isReliable p" "\<not> pkt_isPartOfMessage p"
    and act: "NetworkPeer_getActiveSocket (nl_node l r) = Some dest"
    and s: "seq_wf (sk_number (nl_nodeSocket l) dest)" "sk_network (nl_nodeSocket l) dest \<noteq> None"
  shows "\<exists>bytes p' wire l' q. LimitedNodeList_sendUnreliablePacket mac random now p r l
      = Some (bytes, p', [NlSocket (SkDatagram wire dest)], l')
    \<and> Packet_fromReceivedPacket wire (int (length wire)) src = Some q \<and> bp_senderSockAddr q = Some src
    \<and> nl_inv p' \<and> nl_arrived p' q \<and> nl_type p' = nl_type p \<and> nl_version p' = nl_version p
    \<and> NLPacket_sourceIDInHeader p' = Some (nl_sessionLocalID l)
    \<and> NLPacket_verificationHashInHeader p' = Some (mac key (nl_hashed p'))
    \<and> BasePacket_payload p' = BasePacket_payload p \<and> \<not> pkt_isReliable q \<and> \<not> pkt_isPartOfMessage q
    \<and> 0 < length wire \<and> (\<exists>w. read32 wire 0 = Some w \<and> w AND CONTROL_BIT_MASK = 0)"
proof -
  obtain p' l1 where f: "LimitedNodeList_fillPacketHeader mac p (Some r) l = Some (p', l1)" "nl_inv p'"
    "nl_type p' = nl_type p" "nl_version p' = nl_version p" "pkt_obfuscationLevel p' = NoObfuscation"
    "\<not> pkt_isReliable p'" "\<not> pkt_isPartOfMessage p'" "NLPacket_sourceIDInHeader p' = Some (nl_sessionLocalID l)"
    "NLPacket_verificationHashInHeader p' = Some (mac key (nl_hashed p'))" "BasePacket_payload p' = BasePacket_payload p"
    "nl_nodeSocket l1 = nl_nodeSocket l"
    using fill_signed [OF p t a(1) h, of mac] m clear by auto
  have inv: "pkt_inv (packet.truncate p')" using f(2) by (simp add: nl_inv_def)
  have n: "sk_number (nl_socket l1) dest = sk_number (nl_nodeSocket l) dest"
    "sk_network (nl_socket l1) = sk_network (nl_nodeSocket l)"
    by (simp_all add: nl_socket_def sk_number_def f(11))
  obtain bytes p2 wire s' where w: "Socket_writePacket random now (packet.truncate p') dest (nl_socket l1)
      = Some (bytes, [SkDatagram wire dest], s')"
    "Packet_writeSequenceNumber (SequenceNumber_inc (sk_number (nl_nodeSocket l) dest)) (packet.truncate p') = Some p2"
    "BasePacket_wire p2 = Some wire" "pkt_inv p2"
    using writePacket_sends [OF inv, of "nl_socket l1" dest random now] s unfolding n by blast
  obtain p1 p3 wire' q where x: "Packet_writeSequenceNumber (SequenceNumber_inc (sk_number (nl_nodeSocket l) dest)) (packet.truncate p') = Some p1"
    "Packet_obfuscate NoObfuscation p1 = Some p3" "BasePacket_wire p3 = Some wire'"
    "Packet_fromReceivedPacket wire' (int (length wire')) src = Some q" "nl_arrived p' q" "bp_senderSockAddr q = Some src"
    "pkt_isReliable q = pkt_isReliable p'" "pkt_isPartOfMessage q = pkt_isPartOfMessage p'"
    using nl_wire [OF f(2,5) seq_wf_inc [OF s(1)], of NoObfuscation src] by blast
  have "p1 = p2" using w(2) x(1) by simp
  moreover have "pkt_obfuscationLevel p2 = NoObfuscation"
    using w(2) f(5) by (auto simp: Packet_writeSequenceNumber_def packet.defs dest!: Packet_writeHeader_cases)
  ultimately have "p3 = p2" using x(2) by (simp add: Packet_obfuscate_def Let_def)
  then have "wire' = wire" using w(3) x(3) by simp
  moreover have "LimitedNodeList_sendUnreliablePacket mac random now p r l
      = Some (bytes, p', [NlSocket (SkDatagram wire dest)], l1\<lparr>nl_nodeSocket := s'\<rparr>)"
    using a(2) f(1) w(1)
    by (simp add: LimitedNodeList_sendUnreliablePacket_def act LimitedNodeList_sendUnreliablePacketTo_def)
  ultimately show ?thesis
    using x f wire_is_data [OF w(4,3)] by blast
qed

section \<open>What is handed up\<close>

lemma accept_unreliable:
  assumes "\<not> pkt_isReliable q"
  shows "\<exists>s'. Socket_acceptPacket d q s = Some (True, [], s') \<and> sk_packetHandler s' = sk_packetHandler s"
proof -
  obtain conn s1 where f: "Socket_findOrCreateConnection (ar_random d) (ar_now d) (ar_sender d) True s = Some (conn, s1)"
    using findOrCreate_total [of "ar_random d" "ar_now d" "ar_sender d" True s] by blast
  then have "sk_packetHandler s1 = sk_packetHandler s"
    using findOrCreate_laws(4) [OF f] by auto
  then show ?thesis
    using assms f by (cases conn) (auto simp: Socket_acceptPacket_def Socket_setConnection_def)
qed

lemma read_unreliable:
  assumes d: "0 < ar_sizeRead d" "map_of (sk_unfilteredHandlers s) (ar_sender d) = None" "read32 (ar_buffer d) 0 = Some w"
    "w AND CONTROL_BIT_MASK = 0" "Packet_fromReceivedPacket (ar_buffer d) (ar_size d) (ar_sender d) = Some q"
    and q: "\<not> pkt_isReliable q" "\<not> pkt_isPartOfMessage q" and f: "sk_packetFilterOperator s = Some (\<lambda>_. True)"
    and h: "sk_packetHandler s"
  shows "\<exists>s'. Socket_readDatagram d s = Some ([SkPacket (q\<lparr>bp_receiveTime := ar_receiveTime d\<rparr>)], s')"
proof -
  let ?q = "q\<lparr>bp_receiveTime := ar_receiveTime d\<rparr>"
  let ?s = "s\<lparr>sk_lastPacketSizeRead := ar_sizeRead d, sk_lastPacketSockAddr := Some (ar_sender d),
    sk_lastReceivedSequenceNumber := pkt_sequenceNumber ?q\<rparr>"
  obtain s' where "Socket_acceptPacket d ?q ?s = Some (True, [], s')" "sk_packetHandler s'"
    using accept_unreliable [of ?q d ?s] q h by auto
  then show ?thesis
    using d q f by (simp add: Socket_readDatagram_def Socket_readData_def Let_def)
qed

lemma nl_arrived_receiveTime [simp]: "nl_arrived p (q\<lparr>bp_receiveTime := t\<rparr>) = nl_arrived p q"
  by (simp add: nl_arrived_def BasePacket_sizes)

text \<open>
  C8. Two nodes that share a connection secret understand each other: an unreliable packet of a signed type
  that one node list sends to the active socket of a node leaves as one datagram, and the node list that reads
  this datagram (knowing a node under the sender's local id, with the same secret) believes it and hands up
  exactly that packet, with its type, version, source id and payload.
\<close>

theorem NodeList_delivers_signed:
  fixes p :: "'addr option nl_packet"
  assumes p: "nl_inv p" "pkt_obfuscationLevel p = NoObfuscation" "\<not> pkt_isReliable p" "\<not> pkt_isPartOfMessage p"
    and t: "nl_type p \<notin> getNonSourcedPackets" "nl_type p \<notin> getNonVerifiedPackets"
    and v: "nl_version p = versionForPacketType (nl_type p)"
    and mac: "\<And>data. length (mac (toRfc4122 secret) data) = 16"
    and l: "nl_reachable l" "nl_useAuthentication l" "\<not> nl_dropOutgoingNodeTraffic l" "r < length (nl_heap l)"
      "nd_connectionSecret (nl_node l r) = secret" "NetworkPeer_getActiveSocket (nl_node l r) = Some dest"
      "seq_wf (sk_number (nl_nodeSocket l) dest)" "sk_network (nl_nodeSocket l) dest \<noteq> None"
    and m: "nl_reachable m" "LimitedNodeList_nodeWithLocalID (nl_sessionLocalID l) m = Some r'"
      "nd_connectionSecret (nl_node m r') = secret" "secret \<noteq> 0"
      "sk_packetHandler (nl_nodeSocket m)" "map_of (sk_unfilteredHandlers (nl_nodeSocket m)) src = None"
  shows "\<exists>bytes p' wire l'. LimitedNodeList_sendUnreliablePacket mac random now p r l
      = Some (bytes, p', [NlSocket (SkDatagram wire dest)], l')
    \<and> (\<forall>d. ar_buffer d = wire \<and> ar_size d = int (length wire) \<and> ar_sizeRead d = int (length wire) \<and> ar_sender d = src
        \<longrightarrow> (\<exists>q m' u. LimitedNodeList_readDatagram mac d m = Some ([NlSocket (SkPacket q)], m')
              \<and> NLPacket_fromBase q = Some u \<and> nl_type u = nl_type p \<and> nl_version u = nl_version p
              \<and> nl_sourceID u = Some (nl_sessionLocalID l) \<and> BasePacket_payload u = BasePacket_payload p))"
proof -
  have "nd_clean (nl_node l r)" using nl_reachable_ok [OF l(1)] l(4) by (simp add: nl_ok_def nl_clean_def)
  then obtain h where h: "nd_authenticateHash (nl_node l r) = Some h" "ha_ready (toRfc4122 secret) h"
    using l(5) m(4) by (auto simp: nd_clean_def split: option.splits)
  have okm: "nl_ok m" using m(1) by (rule nl_reachable_ok)
  have "r' < length (nl_heap m)"
    using nl_ok_entry(2) [OF okm] m(2) by (auto simp: LimitedNodeList_nodeWithLocalID_def dest: map_of_SomeD)
  then have "nd_clean (nl_node m r')" using okm by (simp add: nl_ok_def nl_clean_def)
  then have authm: "nd_authenticateHash (nl_node m r') \<noteq> None"
    using m(3,4) by (auto simp: nd_clean_def split: option.splits)
  obtain bytes p' wire l' q where s: "LimitedNodeList_sendUnreliablePacket mac random now p r l
      = Some (bytes, p', [NlSocket (SkDatagram wire dest)], l')"
    "Packet_fromReceivedPacket wire (int (length wire)) src = Some q" "bp_senderSockAddr q = Some src"
    "nl_inv p'" "nl_arrived p' q" "nl_type p' = nl_type p" "nl_version p' = nl_version p"
    "NLPacket_sourceIDInHeader p' = Some (nl_sessionLocalID l)"
    "NLPacket_verificationHashInHeader p' = Some (mac (toRfc4122 secret) (nl_hashed p'))"
    "BasePacket_payload p' = BasePacket_payload p" "\<not> pkt_isReliable q" "\<not> pkt_isPartOfMessage q" "0 < length wire"
    "\<exists>w. read32 wire 0 = Some w \<and> w AND CONTROL_BIT_MASK = 0"
    using sendUnreliable_signed [OF p(1) _ l(2,3) h, of mac dest random now src] t mac p l(6-8) by blast
  have "\<exists>q m' u. LimitedNodeList_readDatagram mac d m = Some ([NlSocket (SkPacket q)], m')
      \<and> NLPacket_fromBase q = Some u \<and> nl_type u = nl_type p \<and> nl_version u = nl_version p
      \<and> nl_sourceID u = Some (nl_sessionLocalID l) \<and> BasePacket_payload u = BasePacket_payload p"
    if d: "ar_buffer d = wire" "ar_size d = int (length wire)" "ar_sizeRead d = int (length wire)" "ar_sender d = src" for d
  proof -
    let ?q = "q\<lparr>bp_receiveTime := ar_receiveTime d\<rparr>"
    have arr: "nl_arrived p' ?q" using s(5) by simp
    note f = nl_arrived_fields [OF s(4) arr]
    obtain w where w: "read32 wire 0 = Some w" "w AND CONTROL_BIT_MASK = 0" using s(14) by blast
    have asked: "nl_asked d m = Some ?q"
      using d s(2,13) w m(6) by (simp add: nl_asked_def)
    have sig: "nl_signed (nl_type p')" using t s(6) by simp
    have k: "NLPacket_sourceIDInHeader ?q = Some (nl_sessionLocalID l)" using f(3) sig s(8) by simp
    have "nl_authentic mac ?q (nl_type p') (nl_sessionLocalID l) m"
      using m(2,3) authm f(4,6) sig s(9) by (simp add: nl_authentic_def)
    then obtain m1 where ver: "LimitedNodeList_isPacketVerified mac (ar_now d) ?q m = Some (True, [], m1)"
      using verified_verdict [OF okm f(5) f(7) f(1) sig f(2) k, of mac "ar_now d"] sig v s(6,7) by auto
    let ?s = "(nl_socket m)\<lparr>sk_packetFilterOperator := Some (\<lambda>_. True)\<rparr>"
    obtain s' where "Socket_readDatagram d ?s = Some ([SkPacket ?q], s')"
      using read_unreliable [of d ?s w q] d s(2,11-13) w m(5,6) by (auto simp: nl_socket_def)
    then have "LimitedNodeList_readDatagram mac d m = Some ([NlSocket (SkPacket ?q)], m1\<lparr>nl_nodeSocket := s'\<rparr>)"
      by (simp add: LimitedNodeList_readDatagram_def asked ver)
    moreover obtain u where "NLPacket_fromBase ?q = Some u" "nl_type u = nl_type p" "nl_version u = nl_version p"
      "nl_sourceID u = Some (nl_sessionLocalID l)" "BasePacket_payload u = BasePacket_payload p"
      using nl_arrived_parsed [OF s(4) arr, of "nl_sessionLocalID l"] s(6-8,10) sig by auto
    ultimately show ?thesis by blast
  qed
  then show ?thesis using s(1) by blast
qed

text \<open>
  C10. What is not verified has no effect: when a data packet of a peer fails verification, the socket neither
  answers it, nor hands it up, nor changes any connection or table of the list; at most a version mismatch is
  announced. In particular every packet that is handed up was verified against the node list of that moment.
\<close>

theorem NodeList_refuses_unverified:
  assumes "LimitedNodeList_readDatagram mac d l = Some (out, l')" and "nl_asked d l = Some q"
  shows "\<exists>ok ev l1. LimitedNodeList_isPacketVerified mac (ar_now d) q l = Some (ok, ev, l1)
    \<and> (\<not> ok \<longrightarrow> out = ev \<and> (\<forall>e. NlSocket e \<notin> set out)
        \<and> sk_connectionsHash (nl_nodeSocket l') = sk_connectionsHash (nl_nodeSocket l)
        \<and> nl_nodeHash l' = nl_nodeHash l \<and> nl_localIDMap l' = nl_localIDMap l)
    \<and> (\<forall>u. NlSocket (SkPacket u) \<in> set out \<longrightarrow> ok)"
proof -
  obtain ok ev l1 where v: "LimitedNodeList_isPacketVerified mac (ar_now d) q l = Some (ok, ev, l1)"
    using assms by (auto simp: LimitedNodeList_readDatagram_def split: bind_splits)
  have ev: "NlSocket e \<notin> set ev" for e
    using v by (auto simp: LimitedNodeList_isPacketVerified_def LimitedNodeList_isPacketVerifiedWithSource_def
        LimitedNodeList_packetVersionMatch_def Let_def split: bind_splits if_splits option.splits)
  have same: "nl_same l l1"
    using v nl_same_verified unfolding LimitedNodeList_isPacketVerified_def by blast
  let ?s = "(nl_socket l)\<lparr>sk_packetFilterOperator := Some (\<lambda>_. ok)\<rparr>"
  obtain o2 s' where r: "Socket_readDatagram d ?s = Some (o2, s')" "out = ev @ map NlSocket o2" "l' = l1\<lparr>nl_nodeSocket := s'\<rparr>"
    using assms v by (auto simp: LimitedNodeList_readDatagram_def split: bind_splits)
  have refused: "o2 = [] \<and> sk_connectionsHash s' = sk_connectionsHash (nl_nodeSocket l)" if "\<not> ok"
    using r(1) assms(2) that
    by (auto simp: Socket_readDatagram_def Socket_readData_def nl_asked_def nl_socket_def Let_def
        split: if_splits option.splits bind_splits)
  have "\<not> ok \<longrightarrow> out = ev \<and> (\<forall>e. NlSocket e \<notin> set out)
        \<and> sk_connectionsHash (nl_nodeSocket l') = sk_connectionsHash (nl_nodeSocket l)
        \<and> nl_nodeHash l' = nl_nodeHash l \<and> nl_localIDMap l' = nl_localIDMap l"
    using refused r(2,3) ev same by (auto simp: nl_same_def)
  then show ?thesis using v by blast
qed

section \<open>Two lists that know each other\<close>

definition ex_info :: "nat new_node_info" where
  "ex_info = \<lparr>ni_type = NodeType_AudioMixer, ni_uuid = 7, ni_publicSocket = Some 1, ni_localSocket = Some 2,
    ni_permissions = 0, ni_isReplicated = False, ni_sessionLocalID = 0, ni_connectionSecretUUID = 4\<rparr>"

lemma ex_list:
  obtains l :: "nat node_list" where "nl_reachable l" "nl_useAuthentication l" "\<not> nl_dropOutgoingNodeTraffic l"
    "length (nl_heap l) = 1" "nd_connectionSecret (nl_node l 0) = 4" "nd_authenticateHash (nl_node l 0) \<noteq> None"
    "NetworkPeer_getActiveSocket (nl_node l 0) = Some (Some 1)" "LimitedNodeList_nodeWithLocalID 0 l = Some 0"
    "nl_sessionLocalID l = 0" "\<forall>a. sk_number (nl_nodeSocket l) a = 0" "\<forall>a. sk_network (nl_nodeSocket l) a = Some (\<lambda>_. 0)"
    "sk_packetHandler (nl_nodeSocket l)" "sk_unfilteredHandlers (nl_nodeSocket l) = []" "\<not> nl_isDomainServer l"
proof -
  let ?new = "LimitedNodeList_new (\<lambda>_. Some (\<lambda>_. 0)) :: nat node_list"
  obtain out l1 where 1: "LimitedNodeList_addNewNode 0 ex_info ?new = (out, l1)" "nl_heap l1 = [nl_newNode 0 ex_info False]"
    "nl_localIDMap l1 = [(0, 0)]" "nl_nodeSocket l1 = (nl_nodeSocket ?new)\<lparr>sk_connectionsHash := []\<rparr>"
    "nl_useAuthentication l1" "\<not> nl_dropOutgoingNodeTraffic l1" "nl_sessionLocalID l1 = 0"
    using first_node [of ex_info 1 2 ?new 0] by (auto simp: LimitedNodeList_new_def Socket_new_def ex_info_def)
  let ?l1 = "l1\<lparr>nl_nodeSocket := nl_nodeSocket l1, nl_connectionIDs := [], nl_useAuthentication := True, nl_sessionLocalID := 0,
    nl_maxConnectionRate := 1, nl_dropOutgoingNodeTraffic := False, nl_isDomainServer := False, nl_domainLocalID := 0,
    nl_domainSockAddr := None\<rparr>"
  obtain out2 l2 where 2: "nl_activated 0 (NetworkPeer_activatePublicSocket (nl_node ?l1 0)) ?l1 = (out2, l2)"
    by (rule prod.exhaust)
  have r: "nl_reachable l2"
    by (rule nl_reachable.activate_public [OF nl_reachable.configure [OF nl_reachable.add_new [OF nl_reachable.start 1(1)]] 2])
  have l2: "l2 = nl_setNode 0 ((nl_newNode 0 ex_info False)\<lparr>np_activeSocket := PublicSocket, np_pingTimer := False,
      np_connectionAttempts := 0, nd_awaitsActivation := False\<rparr>) ?l1"
    using 2 by (simp add: nl_activated_def NetworkPeer_activatePublicSocket_def NetworkPeer_setActiveSocket_def 1(2)
        nl_newNode_def Node_new_def Node_setConnectionSecret_def ex_info_def)
  show ?thesis
    by (rule that [of l2])
      (simp_all add: r, simp_all add: l2 nl_setNode_def 1 nl_newNode_def Node_new_def Node_setConnectionSecret_def ex_info_def
        NetworkPeer_getActiveSocket_def LimitedNodeList_nodeWithLocalID_def sk_number_def LimitedNodeList_new_def Socket_new_def
        SequenceNumber_default_def)
qed

lemma ex_packet:
  obtains p :: "nat option nl_packet" where "nl_inv p" "nl_type p = PT_Ping" "nl_version p = versionForPacketType PT_Ping"
    "pkt_obfuscationLevel p = NoObfuscation" "\<not> pkt_isReliable p" "\<not> pkt_isPartOfMessage p"
  using nl_create_shape [where 'a = "nat option", of 9 9 PT_Ping False 0] by auto

lemma Ping_signed: "PT_Ping \<notin> getNonSourcedPackets" "PT_Ping \<notin> getNonVerifiedPackets"
  by (simp_all add: getNonSourcedPackets_def getNonVerifiedPackets_def)

theorem NodeList_delivers_signed_witness:
  "\<exists>(l :: nat node_list) (m :: nat node_list) p bytes p' wire l' d q m'. LimitedNodeList_sendUnreliablePacket (\<lambda>k d. k) 0 5 p 0 l
      = Some (bytes, p', [NlSocket (SkDatagram wire (Some 1))], l')
    \<and> ar_buffer d = wire \<and> ar_sender d = Some 9
    \<and> LimitedNodeList_readDatagram (\<lambda>k d. k) d m = Some ([NlSocket (SkPacket q)], m')"
proof -
  obtain p :: "nat option nl_packet" where p: "nl_inv p" "nl_type p = PT_Ping" "nl_version p = versionForPacketType PT_Ping"
    "pkt_obfuscationLevel p = NoObfuscation" "\<not> pkt_isReliable p" "\<not> pkt_isPartOfMessage p"
    by (rule ex_packet)
  obtain l :: "nat node_list" where l: "nl_reachable l" "nl_useAuthentication l" "\<not> nl_dropOutgoingNodeTraffic l"
    "length (nl_heap l) = 1" "nd_connectionSecret (nl_node l 0) = 4" "nd_authenticateHash (nl_node l 0) \<noteq> None"
    "NetworkPeer_getActiveSocket (nl_node l 0) = Some (Some 1)" "LimitedNodeList_nodeWithLocalID 0 l = Some 0"
    "nl_sessionLocalID l = 0" "\<forall>a. sk_number (nl_nodeSocket l) a = 0" "\<forall>a. sk_network (nl_nodeSocket l) a = Some (\<lambda>_. 0)"
    "sk_packetHandler (nl_nodeSocket l)" "sk_unfilteredHandlers (nl_nodeSocket l) = []" "\<not> nl_isDomainServer l"
    by (rule ex_list)
  have h: "nl_type p \<notin> getNonSourcedPackets" "nl_type p \<notin> getNonVerifiedPackets"
    "nl_version p = versionForPacketType (nl_type p)" "0 < length (nl_heap l)"
    "seq_wf (sk_number (nl_nodeSocket l) (Some 1))" "sk_network (nl_nodeSocket l) (Some 1) \<noteq> None"
    "LimitedNodeList_nodeWithLocalID (nl_sessionLocalID l) l = Some 0" "(4 :: uuid) \<noteq> 0"
    "map_of (sk_unfilteredHandlers (nl_nodeSocket l)) (Some 9) = None"
    "length (toRfc4122 4) = 16"
    using l p(3) by (simp_all add: Ping_signed p(2) seq_wf_def seq_consts)
  note t = NodeList_delivers_signed [where mac = "\<lambda>k d. k" and secret = 4, OF p(1,4-6) h(1-3) h(10) l(1-3) h(4) l(5,7) h(5,6) l(1) h(7) l(5) h(8) l(12) h(9), of 0 5]
  obtain bytes p' wire l' where s: "LimitedNodeList_sendUnreliablePacket (\<lambda>k d. k) 0 5 p 0 l
      = Some (bytes, p', [NlSocket (SkDatagram wire (Some 1))], l')"
    and r: "\<And>d. ar_buffer d = wire \<and> ar_size d = int (length wire) \<and> ar_sizeRead d = int (length wire) \<and> ar_sender d = Some 9
        \<Longrightarrow> \<exists>q m'. LimitedNodeList_readDatagram (\<lambda>k d. k) d l = Some ([NlSocket (SkPacket q)], m')"
    using t by blast
  let ?d = "\<lparr>ar_size = int (length wire), ar_buffer = wire, ar_sizeRead = int (length wire), ar_sender = Some 9,
    ar_clock = 3, ar_receiveTime = 4, ar_now = 5, ar_random = 6\<rparr> :: nat option arrival"
  obtain q m' where "LimitedNodeList_readDatagram (\<lambda>k d. k) ?d l = Some ([NlSocket (SkPacket q)], m')"
    using r [of ?d] by auto
  moreover have "ar_buffer ?d = wire" "ar_sender ?d = Some 9" by simp_all
  ultimately show ?thesis using s by blast
qed

text \<open>A datagram of an audio mixer's ping with a wrong hash: type, version, source id and sixteen zeros.\<close>

definition ex_forged :: "byte list" where
  "ex_forged = [5, 0, 0, 0, PT_Ping, versionForPacketType PT_Ping, 0, 0] @ replicate 16 0"

lemma Ping_version: "versionForPacketType PT_Ping = 18"
  by (rule audio_version)

lemma ex_forged_parsed:
  "\<exists>q :: nat option packet. Packet_fromReceivedPacket ex_forged 24 (Some 9) = Some q
    \<and> NLPacket_typeInHeader q = Some PT_Ping \<and> NLPacket_versionInHeader q = Some 18 \<and> NLPacket_sourceIDInHeader q = Some 0
    \<and> NLPacket_verificationHashInHeader q = Some (replicate 16 0) \<and> nl_hashed q = []
    \<and> nl_hashed_from q = 24 \<and> BasePacket_getDataSize q = 24 \<and> length (bp_packet q) = 24"
proof -
  have w: "read32 ex_forged 0 = Some 5"
    by (simp add: ex_forged_def read32_def mem_read_def un_le32_def push_bit_eq_mult)
  show ?thesis
    by (simp add: Packet_fromReceivedPacket_def Packet_of_data_def Packet_readHeader_def Packet_default_fields_def
        BasePacket_of_data_def base_packet.defs packet.defs w Let_def Constants_static_asserts ObfuscationLevel_of_def
        BasePacket_adjust_def Packet_localHeaderSize_def header_offsets QIODevice_open_def,
        simp add: NLPacket_typeInHeader_def NLPacket_versionInHeader_def NLPacket_sourceIDInHeader_def
        NLPacket_verificationHashInHeader_def nl_hashed_def nl_hashed_from_def nl_offset_eq Packet_localHeaderSize_def
        ex_forged_def mem_read_def NUM_BYTES_LOCALID_def NUM_BYTES_MD5_HASH_def
        BasePacket_getDataSize_def Ping_version numeral_eq_Suc)
qed

lemma ex_forged_refused:
  fixes l :: "nat node_list"
  assumes "nl_reachable l" and "nl_useAuthentication l" and "\<not> nl_isDomainServer l" and "nd_connectionSecret (nl_node l 0) = 4"
    and "LimitedNodeList_nodeWithLocalID 0 l = Some 0" and "NLPacket_sourceIDInHeader q = Some 0"
    and "NLPacket_verificationHashInHeader q = Some (replicate 16 0)"
  shows "\<not> nl_authentic (\<lambda>k d. k) q PT_Ping 0 l"
proof -
  have "toRfc4122 4 ! 15 \<noteq> replicate 16 0 ! 15"
    by (simp add: toRfc4122_def)
  then have "toRfc4122 4 \<noteq> replicate 16 0" by metis
  then show ?thesis
    using assms by (simp add: nl_authentic_def)
qed

theorem NodeList_accepts_exactly_authentic_witness:
  "\<exists>(l :: nat node_list) (q :: nat option packet) out l'. Packet_fromReceivedPacket ex_forged 24 (Some 9) = Some q
    \<and> LimitedNodeList_nodeWithLocalID 0 l = Some 0 \<and> LimitedNodeList_isPacketVerified (\<lambda>k d. k) 5 q l = Some (False, out, l')"
proof -
  obtain q :: "nat option packet" where q: "Packet_fromReceivedPacket ex_forged 24 (Some 9) = Some q"
    "NLPacket_typeInHeader q = Some PT_Ping" "NLPacket_sourceIDInHeader q = Some 0"
    "NLPacket_verificationHashInHeader q = Some (replicate 16 0)"
    "nl_hashed_from q = 24" "BasePacket_getDataSize q = 24" "length (bp_packet q) = 24"
    using ex_forged_parsed by blast
  obtain l :: "nat node_list" where l: "nl_reachable l" "nl_useAuthentication l"
    "nd_connectionSecret (nl_node l 0) = 4" "LimitedNodeList_nodeWithLocalID 0 l = Some 0" "\<not> nl_isDomainServer l"
    by (rule ex_list) (rule that)
  note f = ex_forged_refused [OF l(1,2,5,3,4) q(3,4)]
  obtain v ok out l' where "LimitedNodeList_isPacketVerified (\<lambda>k d. k) 5 q l = Some (ok, out, l')"
    "ok \<longleftrightarrow> v = versionForPacketType PT_Ping \<and> nl_authentic (\<lambda>k d. k) q PT_Ping 0 l"
    using NodeList_accepts_exactly_authentic [OF l(1) _ _ q(2) Ping_signed, of "\<lambda>k d. k" 5] q(3,5-7)
    unfolding nl_authentic_def by auto
  with f q(1) l(4) show ?thesis by auto
qed

theorem NodeList_refuses_unverified_witness:
  "\<exists>(l :: nat node_list) d out l'. ar_buffer d = ex_forged \<and> nl_asked d l \<noteq> None
    \<and> LimitedNodeList_readDatagram (\<lambda>k d. k) d l = Some (out, l') \<and> (\<forall>e. NlSocket e \<notin> set out)"
proof -
  obtain q :: "nat option packet" where q: "Packet_fromReceivedPacket ex_forged 24 (Some 9) = Some q"
    "NLPacket_typeInHeader q = Some PT_Ping" "NLPacket_versionInHeader q = Some 18" "NLPacket_sourceIDInHeader q = Some 0"
    "NLPacket_verificationHashInHeader q = Some (replicate 16 0)"
    "nl_hashed_from q = 24" "BasePacket_getDataSize q = 24" "length (bp_packet q) = 24"
    using ex_forged_parsed by blast
  obtain l :: "nat node_list" where l: "nl_reachable l" "nl_useAuthentication l"
    "nd_connectionSecret (nl_node l 0) = 4" "LimitedNodeList_nodeWithLocalID 0 l = Some 0"
    "sk_unfilteredHandlers (nl_nodeSocket l) = []" "\<not> nl_isDomainServer l"
    by (rule ex_list)
  let ?d = "\<lparr>ar_size = 24, ar_buffer = ex_forged, ar_sizeRead = 24, ar_sender = Some 9,
    ar_clock = 3, ar_receiveTime = 4, ar_now = 5, ar_random = 6\<rparr> :: nat option arrival"
  let ?q = "q\<lparr>bp_receiveTime := 4\<rparr>"
  have w: "read32 ex_forged 0 = Some 5"
    by (simp add: ex_forged_def read32_def mem_read_def un_le32_def push_bit_eq_mult)
  have a: "nl_asked ?d l = Some ?q"
    using q(1) l(5) w by (simp add: nl_asked_def Constants_static_asserts)
  have h: "NLPacket_typeInHeader ?q = Some PT_Ping" "NLPacket_versionInHeader ?q = Some 18" "NLPacket_sourceIDInHeader ?q = Some 0"
    "NLPacket_verificationHashInHeader ?q = Some (replicate 16 0)"
    "nl_hashed_from ?q = 24" "BasePacket_getDataSize ?q = 24" "length (bp_packet ?q) = 24"
    using q by (simp_all add: NLPacket_typeInHeader_def NLPacket_versionInHeader_def NLPacket_sourceIDInHeader_def
        NLPacket_verificationHashInHeader_def nl_offset_eq nl_hashed_from_def BasePacket_getDataSize_def)
  obtain out1 l1 where v: "LimitedNodeList_isPacketVerified (\<lambda>k d. k) 5 ?q l = Some (False, out1, l1)"
    using verified_verdict [OF nl_reachable_ok [OF l(1)] _ _ h(1) _ h(2,3), of "\<lambda>k d. k" 5]
      ex_forged_refused [OF l(1,2,6,3,4) h(3,4)] Ping_signed h(5-7) by auto
  obtain out l' where r: "LimitedNodeList_readDatagram (\<lambda>k d. k) ?d l = Some (out, l')"
    using v a q(1) w l(5)
    by (simp add: LimitedNodeList_readDatagram_def Socket_readDatagram_def Socket_readData_def nl_socket_def
        Constants_static_asserts Let_def)
  have "\<forall>e. NlSocket e \<notin> set out"
    using NodeList_refuses_unverified [OF r a] v by auto
  with r a show ?thesis
    by (intro exI [of _ l] exI [of _ ?d] exI [of _ out] exI [of _ l']) simp
qed

end
