(* ===== verification/Node_Corners.thy ===== *)
theory Node_Corners
  imports Node_Verify
begin

text \<open>
  Two situations in which the tables of the node list do not follow the nodes: an update that changes a local
  id, and a replicated agent that shares the address of the mixer it comes from.
\<close>

section \<open>The nodes a removal leaves\<close>

lemma handleKill_heap:
  assumes "LimitedNodeList_handleNodeKill now r i l = (out, l')"
  shows "nl_heap l' = (nl_heap l)[r := (nl_node l r)\<lparr>np_pingTimer := False\<rparr>]"
proof -
  obtain l1 where l1: "nl_setNode r ((nl_node l r)\<lparr>np_pingTimer := False\<rparr>) (l\<lparr>nl_nodeDisconnectTimestamp := now\<rparr>) = l1"
    by blast
  obtain o2 l2 where l2: "(case NetworkPeer_getActiveSocket (nl_node l1 r) of None \<Rightarrow> ([], l1)
                       | Some a \<Rightarrow> nl_cleanupConnection a l1) = (o2, l2)" by (rule prod.exhaust)
  have "nl_heap l2 = nl_heap l1"
    using l2 by (auto simp: nl_cleanupConnection_def split: option.splits prod.splits)
  moreover have "nl_heap l' = nl_heap l2"
    using assms unfolding LimitedNodeList_handleNodeKill_def Let_def l1 l2 by (auto split: option.splits)
  ultimately show ?thesis by (simp add: nl_setNode_def flip: l1)
qed

lemma removeOld_effects:
  assumes "nl_removeOldNode now (Some r) l = (out, l')"
  shows "nl_nodeHash l' = AList.delete (np_uuid (nl_node l r)) (nl_nodeHash l)" and "NlNodeKilled r \<in> set out"
    and "nl_hasAddr a (nl_node l' q) = nl_hasAddr a (nl_node l q)"
    and "np_publicSocket (nl_node l' q) = np_publicSocket (nl_node l q)"
proof -
  have k: "LimitedNodeList_handleNodeKill now r NULL_CONNECTION_ID (nl_eraseNode r l) = (out, l')"
    using assms by (simp add: nl_removeOldNode_def)
  show "nl_nodeHash l' = AList.delete (np_uuid (nl_node l r)) (nl_nodeHash l)"
    using removeOld_hash [OF assms] by simp
  show "NlNodeKilled r \<in> set out" using handleKill_effects(1) [OF k] by simp
  have h: "nl_heap l' = (nl_heap l)[r := (nl_node l r)\<lparr>np_pingTimer := False\<rparr>]"
    using handleKill_heap [OF k] by (simp add: nl_eraseNode_def)
  show "nl_hasAddr a (nl_node l' q) = nl_hasAddr a (nl_node l q)"
    and "np_publicSocket (nl_node l' q) = np_publicSocket (nl_node l q)"
    by (cases "r < length (nl_heap l)"; cases "q = r"; simp add: h nl_hasAddr_def list_update_beyond)+
qed

lemma find_unique:
  assumes "(u, r) \<in> set (nl_nodeHash l)" and "P (nl_node l r)" and "\<And>v q. (v, q) \<in> set (nl_nodeHash l) \<Longrightarrow> P (nl_node l q) \<Longrightarrow> q = r"
  shows "LimitedNodeList_nodeMatchingPredicate P l = Some r"
proof -
  have "LimitedNodeList_nodeMatchingPredicate P l \<noteq> None"
    using find_no_member [OF _ assms(1), of P] assms(2) by blast
  then obtain q where q: "LimitedNodeList_nodeMatchingPredicate P l = Some q" by blast
  from find_member [OF q] have "q = r" using assms(3) by blast
  with q show ?thesis by simp
qed

section \<open>Properties\<close>

text \<open>
  A replicated agent drives out the mixer it comes from. The audio and avatar mixers add the agent of a
  replicated packet under the address the packet came from, which is the address of the upstream mixer: when that
  mixer is the only node with the address, adding the agent kills it, and from then on replicated packets from this
  address are refused.
\<close>

theorem NodeList_replicated_agent_evicts_upstream:
  fixes q :: "'addr option packet"
  assumes "nl_reachable l" and "LimitedNodeList_nodeWithUUID v l = Some r" and "np_publicSocket (nl_node l r) = Some a"
    and "\<forall>w p. LimitedNodeList_nodeWithUUID w l = Some p \<and> nl_hasAddr (Some a) (nl_node l p) \<longrightarrow> p = r"
    and "LimitedNodeList_nodeWithUUID (ni_uuid info) l = None" and "ni_type info = NodeType_Agent"
    and "ni_publicSocket info = Some a" and "ni_localSocket info = Some a"
    and "LimitedNodeList_addOrUpdateNode now info True l = (r', out, l')"
    and "NLPacket_typeInHeader q = Some type" and "type \<in> getNonSourcedPackets" and "replicatedKey type \<noteq> PT_Unknown"
    and "nl_sender q = Some a"
  shows "NlNodeKilled r \<in> set out \<and> LimitedNodeList_nodeWithUUID v l' = None
    \<and> LimitedNodeList_packetSourceAndHashMatch mac now q hint l' = Some (False, l')"
proof -
  have ok: "nl_ok l" using assms(1) by (rule nl_reachable_ok)
  have m: "LimitedNodeList_nodeWithUUID w l = Some p \<longleftrightarrow> (w, p) \<in> set (nl_nodeHash l)" for w p
    using ok by (simp add: LimitedNodeList_nodeWithUUID_def nl_ok_def)
  have vr: "(v, r) \<in> set (nl_nodeHash l)" using assms(2) m by simp
  have only: "p = r" if "(w, p) \<in> set (nl_nodeHash l)" "nl_hasAddr (Some a) (nl_node l p)" for w p
    using assms(4) m that by blast
  have f1: "LimitedNodeList_findNodeWithAddr (Some a) l = Some r"
    unfolding LimitedNodeList_findNodeWithAddr_def
    by (rule find_unique [OF vr]) (use assms(3) only in \<open>auto simp: nl_hasAddr_def\<close>)
  obtain o2 l2 where 2: "nl_removeOldNode now (Some r) l = (o2, l2)" by (rule prod.exhaust)
  note e = removeOld_effects [OF 2]
  have u: "np_uuid (nl_node l r) = v" using nl_ok_entry(1) [OF ok vr] by simp
  have gone: "\<not> nl_hasAddr (Some a) (nl_node l2 p) \<and> (w, p) \<in> set (nl_nodeHash l) \<and> w \<noteq> v" if "(w, p) \<in> set (nl_nodeHash l2)" for w p
  proof -
    have "(w, p) \<in> set (nl_nodeHash l)" "w \<noteq> v" using that e(1) u by (auto simp: AList.delete_eq)
    moreover from this have "p \<noteq> r" using nl_ok_entry(1) [OF ok] u by auto
    ultimately show ?thesis using only e(3) by auto
  qed
  have f2: "LimitedNodeList_findNodeWithAddr (Some a) l2 = None"
    using find_member gone unfolding LimitedNodeList_findNodeWithAddr_def by (metis not_Some_eq)
  obtain o4 l4 where 4: "nl_cleanupConnection (Some a) l2 = (o4, l4)" by (rule prod.exhaust)
  obtain o5 l5 where 5: "nl_cleanupConnection (Some a) l4 = (o5, l5)" by (rule prod.exhaust)
  have h5: "nl_heap l5 = nl_heap l2" "nl_nodeHash l5 = nl_nodeHash l2"
    using 4 5 by (auto simp: nl_cleanupConnection_def split: prod.splits)
  have solo: "NodeType_Agent \<notin> SOLO_NODE_TYPES" by (simp add: SOLO_NODE_TYPES_def NodeType_values)
  have n0: "nl_removeOldNode now None x = ([], x)" for x :: "'addr node_list" by (simp add: nl_removeOldNode_def)
  have "LimitedNodeList_insertNode now info True l = (r', out, l')"
    using assms(5,9) by (simp add: LimitedNodeList_addOrUpdateNode_def)
  then have i: "out = o2 @ o4 @ o5 @ [NlNodeAdded r']" "r' = length (nl_heap l2)"
    "nl_heap l' = nl_heap l2 @ [nl_newNode now info True]" "nl_nodeHash l' = cmap_insert (ni_uuid info) r' (nl_nodeHash l2)"
    by (auto simp: LimitedNodeList_insertNode_def assms(6-8) solo f1 2 f2 n0 4 5 Let_def h5 nl_newNode_def)
  have "map_of (nl_nodeHash l2) v = None" by (simp add: e(1) u AList.delete_conv')
  moreover have "ni_uuid info \<noteq> v" using assms(2,5) by auto
  ultimately have vnone: "LimitedNodeList_nodeWithUUID v l' = None"
    by (auto simp: LimitedNodeList_nodeWithUUID_def i(4) cmap_insert_def map_add_def)
  have "\<not> (NodeType_isUpstream (nd_type (nl_node l' p)) \<and> np_publicSocket (nl_node l' p) = Some a)"
    if p: "(w, p) \<in> set (nl_nodeHash l')" for w p
  proof (cases "p = r'")
    case True
    then show ?thesis using i(2,3) assms(6) by (simp add: nth_append NodeType_isUpstream_def NodeType_values)
  next
    case False
    then have "(w, p) \<in> set (nl_nodeHash l2)"
      using p i(4) set_cmap_insert(1) [of "ni_uuid info" r' "nl_nodeHash l2"] by auto
    moreover from this have "p < length (nl_heap l2)"
      using nl_ok_entry(1) [OF nl_ok_shrinks [OF ok nl_shrinks_removeOld [OF 2]]] by simp
    ultimately show ?thesis using gone i(3) by (auto simp: nth_append nl_hasAddr_def)
  qed
  then have "LimitedNodeList_packetSourceAndHashMatch mac now q hint l' = Some (False, l')"
    using assms(10-13) by (auto simp: LimitedNodeList_packetSourceAndHashMatch_def)
  then show ?thesis using e(2) i(1) vnone by simp
qed

text \<open>
  An update that gives a known node another local id leaves the table of local ids as it was: the new id
  finds no node, and when the node is killed its old id still finds the dead node, so that packets under it are
  still verified with the dead node's secret.
\<close>

theorem NodeList_update_strands_local_id:
  assumes "nl_reachable l" and "LimitedNodeList_nodeWithUUID u l = Some r" and "LimitedNodeList_nodeWithLocalID k l = Some r"
    and "ni_uuid info = u" and "ni_sessionLocalID info \<noteq> k" and "LimitedNodeList_nodeWithLocalID (ni_sessionLocalID info) l = None"
    and "LimitedNodeList_addOrUpdateNode now info up l = (r', out, l1)"
    and "LimitedNodeList_killNodeWithUUID now u NULL_CONNECTION_ID l1 = (killed, out2, l2)"
  shows "np_localID (nl_node l1 r) = ni_sessionLocalID info \<and> LimitedNodeList_nodeWithLocalID (ni_sessionLocalID info) l1 = None
    \<and> killed \<and> LimitedNodeList_nodeWithUUID u l2 = None \<and> LimitedNodeList_nodeWithLocalID k l2 = Some r"
proof -
  have up: "LimitedNodeList_updateNode r info up l = (out, l1)"
    using assms(2,4,7) by (auto simp: LimitedNodeList_addOrUpdateNode_def)
  have same: "nl_same l l1" using up by (rule nl_same_update)
  have ok: "nl_ok l" using assms(1) by (rule nl_reachable_ok)
  have r: "r < length (nl_heap l)" "np_uuid (nl_node l r) = u"
    using nl_ok_entry(1) [OF ok] assms(2) by (auto simp: LimitedNodeList_nodeWithUUID_def dest: map_of_SomeD)
  obtain l0 n where l0: "l1 = nl_setNode r n l0" "np_localID n = ni_sessionLocalID info"
    using up by (auto simp: LimitedNodeList_updateNode_def Let_def split: prod.splits)
  have "r < length (nl_heap l1)" using nl_same_heap(1) [OF same] r(1) by simp
  then have lid: "np_localID (nl_node l1 r) = ni_sessionLocalID info"
    using l0 by (simp add: nl_setNode_def)
  have uid: "np_uuid (nl_node l1 r) = u" using nl_same_heap(2) [OF same r(1)] r(2) by simp
  have tables: "nl_nodeHash l1 = nl_nodeHash l" "nl_localIDMap l1 = nl_localIDMap l"
    using same by (simp_all add: nl_same_def)
  then have "LimitedNodeList_nodeWithUUID u l1 = Some r" using assms(2) by (simp add: LimitedNodeList_nodeWithUUID_def)
  then have k: "killed" "LimitedNodeList_handleNodeKill now r NULL_CONNECTION_ID (nl_eraseNode r l1) = (out2, l2)"
    using assms(8) by (auto simp: LimitedNodeList_killNodeWithUUID_def)
  have "nl_nodeHash l2 = AList.delete u (nl_nodeHash l)" "nl_localIDMap l2 = AList.delete (ni_sessionLocalID info) (nl_localIDMap l)"
    using nl_same_kill [OF k(2)] by (simp_all add: nl_same_def nl_eraseNode_def lid uid tables)
  then show ?thesis
    using lid k(1) assms(3,5,6) tables by (simp add: LimitedNodeList_nodeWithUUID_def LimitedNodeList_nodeWithLocalID_def
        AList.delete_conv')
qed

section \<open>Concrete cases\<close>

lemma one_node:
  fixes i :: "nat new_node_info"
  assumes "ni_publicSocket i = Some a" and "ni_localSocket i = Some b"
  shows "\<exists>l. nl_reachable l \<and> nl_heap l = [nl_newNode 0 i False] \<and> nl_nodeHash l = [(ni_uuid i, 0)]
    \<and> nl_localIDMap l = [(ni_sessionLocalID i, 0)]"
proof -
  obtain out l where "LimitedNodeList_addNewNode 0 i (LimitedNodeList_new (\<lambda>_. None)) = (out, l)"
    "nl_heap l = [nl_newNode 0 i False]" "nl_nodeHash l = [(ni_uuid i, 0)]" "nl_localIDMap l = [(ni_sessionLocalID i, 0)]"
    using first_node [OF assms, of "LimitedNodeList_new (\<lambda>_. None)" 0] by (auto simp: LimitedNodeList_new_def Socket_new_def)
  then show ?thesis using nl_reachable.add_new [OF nl_reachable.start] by blast
qed

theorem NodeList_update_strands_local_id_witness:
  "\<exists>(l :: nat node_list) info r out l1 killed out2 l2. LimitedNodeList_addOrUpdateNode 5 info False l = (r, out, l1)
    \<and> LimitedNodeList_killNodeWithUUID 5 7 NULL_CONNECTION_ID l1 = (killed, out2, l2)
    \<and> LimitedNodeList_nodeWithUUID 7 l2 = None \<and> LimitedNodeList_nodeWithLocalID 0 l2 = Some 0"
proof -
  obtain l :: "nat node_list" where l: "nl_reachable l" "nl_nodeHash l = [(ni_uuid ex_info, 0)]" "nl_localIDMap l = [(ni_sessionLocalID ex_info, 0)]"
    using one_node [of ex_info 1 2] by (auto simp: ex_info_def)
  let ?info = "ex_info\<lparr>ni_sessionLocalID := 5\<rparr>"
  obtain r out l1 where 1: "LimitedNodeList_addOrUpdateNode 5 ?info False l = (r, out, l1)" by (rule prod_cases3)
  obtain killed out2 l2 where 2: "LimitedNodeList_killNodeWithUUID 5 7 NULL_CONNECTION_ID l1 = (killed, out2, l2)"
    by (rule prod_cases3)
  have h: "LimitedNodeList_nodeWithUUID 7 l = Some 0" "LimitedNodeList_nodeWithLocalID 0 l = Some 0"
    "ni_uuid ?info = 7" "ni_sessionLocalID ?info \<noteq> 0" "LimitedNodeList_nodeWithLocalID (ni_sessionLocalID ?info) l = None"
    by (simp_all add: LimitedNodeList_nodeWithUUID_def LimitedNodeList_nodeWithLocalID_def l(2,3) ex_info_def)
  from NodeList_update_strands_local_id [OF l(1) h 1 2] 1 2 show ?thesis by blast
qed

definition ex_replicated :: "byte list" where
  "ex_replicated = [5, 0, 0, 0, PT_ReplicatedSilentAudioFrame, 0]"

lemma ex_replicated_parsed:
  "\<exists>q :: nat option packet. Packet_fromReceivedPacket ex_replicated 6 (Some 1) = Some q
    \<and> NLPacket_typeInHeader q = Some PT_ReplicatedSilentAudioFrame \<and> nl_sender q = Some 1"
proof -
  have w: "read32 ex_replicated 0 = Some 5"
    by (simp add: ex_replicated_def read32_def mem_read_def un_le32_def push_bit_eq_mult)
  show ?thesis
    by (simp add: Packet_fromReceivedPacket_def Packet_of_data_def Packet_readHeader_def Packet_default_fields_def
        BasePacket_of_data_def base_packet.defs packet.defs w Let_def Constants_static_asserts ObfuscationLevel_of_def
        BasePacket_adjust_def Packet_localHeaderSize_def header_offsets QIODevice_open_def,
        simp add: NLPacket_typeInHeader_def nl_offset_eq Packet_localHeaderSize_def ex_replicated_def mem_read_def nl_sender_def)
qed

theorem NodeList_replicated_agent_evicts_upstream_witness:
  "\<exists>(l :: nat node_list) info r out l' (q :: nat option packet). LimitedNodeList_nodeWithUUID 7 l = Some 0
    \<and> NodeType_isUpstream (nd_type (nl_node l 0)) \<and> ni_type info = NodeType_Agent
    \<and> LimitedNodeList_addOrUpdateNode 5 info True l = (r, out, l') \<and> LimitedNodeList_nodeWithUUID 7 l' = None
    \<and> Packet_fromReceivedPacket ex_replicated 6 (Some 1) = Some q
    \<and> LimitedNodeList_packetSourceAndHashMatch (\<lambda>k d. k) 5 q None l' = Some (False, l')"
proof -
  let ?up = "ex_info\<lparr>ni_type := NodeType_UpstreamAudioMixer\<rparr>"
  obtain l :: "nat node_list" where l: "nl_reachable l" "nl_heap l = [nl_newNode 0 ?up False]" "nl_nodeHash l = [(ni_uuid ?up, 0)]"
    using one_node [of ?up 1 2] by (auto simp: ex_info_def)
  let ?info = "ex_info\<lparr>ni_uuid := 8, ni_type := NodeType_Agent, ni_publicSocket := Some 1, ni_localSocket := Some 1\<rparr>"
  obtain r out l' where 1: "LimitedNodeList_addOrUpdateNode 5 ?info True l = (r, out, l')" by (rule prod_cases3)
  obtain q :: "nat option packet" where q: "Packet_fromReceivedPacket ex_replicated 6 (Some 1) = Some q"
    "NLPacket_typeInHeader q = Some PT_ReplicatedSilentAudioFrame" "nl_sender q = Some 1"
    using ex_replicated_parsed by blast
  have h: "LimitedNodeList_nodeWithUUID 7 l = Some 0" "np_publicSocket (nl_node l 0) = Some 1"
    "\<forall>w p. LimitedNodeList_nodeWithUUID w l = Some p \<and> nl_hasAddr (Some 1) (nl_node l p) \<longrightarrow> p = 0"
    "LimitedNodeList_nodeWithUUID (ni_uuid ?info) l = None" "ni_type ?info = NodeType_Agent"
    "ni_publicSocket ?info = Some 1" "ni_localSocket ?info = Some 1"
    by (simp_all add: LimitedNodeList_nodeWithUUID_def l ex_info_def nl_newNode_def Node_new_def Node_setConnectionSecret_def)
  have t: "PT_ReplicatedSilentAudioFrame \<in> getNonSourcedPackets" "replicatedKey PT_ReplicatedSilentAudioFrame \<noteq> PT_Unknown"
    by (simp_all add: getNonSourcedPackets_def replicatedKey_def getReplicatedPacketMapping_def)
  have "NodeType_isUpstream (nd_type (nl_node l 0))"
    by (simp add: l(2) NodeType_isUpstream_def)
  with NodeList_replicated_agent_evicts_upstream [OF l(1) h 1 q(2) t q(3), where mac = "\<lambda>k d. k" and hint = None] h(1,5) 1 q(1)
  show ?thesis by blast
qed

end
