(* ===== verification/Bit_Coding.thy ===== *)
theory Bit_Coding
  imports Prelude
begin

text \<open>
  The self-delimiting bit code of the shared library: a header of ones closed by a zero, whose length
  is the number of bytes, then value bits, most significant bit of every byte first
  (\<open>libraries/shared/src/ByteCountCoding.h\<close>; \<open>PropertyFlags.h\<close> uses the same loops with another
  action on the value bits). The packing and scanning loops are defined here over an action, the
  reading law of the scan is proved once in the locale \<open>bit_action\<close>, and \<open>ByteCountCoded\<close> is its first
  provider. The plain bit vectors of \<open>BitVectorHelpers.h\<close> stand at the end.
\<close>

section \<open>Bits of a buffer\<close>

text \<open>The bits of a byte in the order in which \<open>maskBit\<close> visits them, from 0x80 to 0x01.\<close>

definition byte_bits :: "byte \<Rightarrow> bool list" where
  "byte_bits b = map (\<lambda>i. bit b (7 - i)) [0..<8]"

definition buffer_bits :: "byte list \<Rightarrow> bool list" where
  "buffer_bits bs = concat (map byte_bits bs)"

text \<open>
  \<open>output[i / 8] |= bitValue << (8 - (i % 8 + 1))\<close>, the body of both packing loops.
\<close>

(* @src libraries/shared/src/ByteCountCoding.h 95-101 ByteCountCoded::encode, one bit *)
definition put_bit :: "byte list \<Rightarrow> nat \<Rightarrow> bool \<Rightarrow> byte list" where
  "put_bit buf i bitValue =
     buf[i div 8 := (buf ! (i div 8)) OR push_bit (8 - (i mod 8 + 1)) (of_bool bitValue)]"

fun put_bits :: "byte list \<Rightarrow> nat \<Rightarrow> bool list \<Rightarrow> byte list" where
  "put_bits buf i [] = buf"
| "put_bits buf i (b # bs) = put_bits (put_bit buf i b) (Suc i) bs"

text \<open>The lead bits: all set but the last.\<close>

definition lead_bits :: "nat \<Rightarrow> bool list" where
  "lead_bits numberOfBytes = map (\<lambda>i. i < numberOfBytes - 1) [0..<numberOfBytes]"

lemma length_byte_bits [simp]: "length (byte_bits b) = 8"
  by (simp add: byte_bits_def)

lemma length_buffer_bits [simp]: "length (buffer_bits bs) = 8 * length bs"
  by (induction bs) (simp_all add: buffer_bits_def)

lemma buffer_bits_simps [simp]: "buffer_bits [] = []" "buffer_bits (b # bs) = byte_bits b @ buffer_bits bs"
  by (simp_all add: buffer_bits_def)

lemma nth_buffer_bits: "i < 8 * length bs \<Longrightarrow> buffer_bits bs ! i = bit (bs ! (i div 8)) (7 - i mod 8)"
proof (induction bs arbitrary: i)
  case (Cons b bs)
  show ?case
  proof (cases "i < 8")
    case True
    then show ?thesis by (simp add: nth_append byte_bits_def)
  next
    case False
    then have "i div 8 = Suc ((i - 8) div 8)" "i mod 8 = (i - 8) mod 8"
      by (simp_all add: le_div_geq le_mod_geq)
    then show ?thesis using Cons False by (simp add: nth_append)
  qed
qed simp

lemma length_put_bit [simp]: "length (put_bit buf i b) = length buf"
  by (simp add: put_bit_def)

lemma buffer_bits_put_bit:
  assumes "i < 8 * length buf"
  shows "buffer_bits (put_bit buf i b) = (buffer_bits buf)[i := buffer_bits buf ! i \<or> b]"
proof (rule nth_equalityI)
  fix j assume "j < length (buffer_bits (put_bit buf i b))"
  then have j: "j < 8 * length buf" by simp
  have m: "i mod 8 \<le> 7" "j mod 8 \<le> 7"
    using mod_less_divisor [of 8 i] mod_less_divisor [of 8 j] by simp_all
  have "i mod 8 = j mod 8" if "7 - i mod 8 \<le> 7 - j mod 8" "i mod 8 \<le> j mod 8"
    using that m by arith
  note m = m this
  show "buffer_bits (put_bit buf i b) ! j = (buffer_bits buf)[i := buffer_bits buf ! i \<or> b] ! j"
  proof (cases "i div 8 = j div 8")
    case True
    then have "i = j \<longleftrightarrow> i mod 8 = j mod 8" by (metis div_mult_mod_eq)
    then show ?thesis
      using True assms j m
      by (auto simp: nth_buffer_bits put_bit_def nth_list_update bit_simps)
  next
    case False
    then show ?thesis
      using assms j by (auto simp: nth_buffer_bits put_bit_def nth_list_update)
  qed
qed simp

lemma buffer_bits_replicate_0: "buffer_bits (replicate n 0) = replicate (8 * n) False"
  by (rule nth_equalityI) (simp_all add: nth_buffer_bits)

lemma put_bits_spec:
  assumes "i + length bs \<le> 8 * length buf" and "drop i (buffer_bits buf) = replicate (8 * length buf - i) False"
  shows "buffer_bits (put_bits buf i bs)
      = take i (buffer_bits buf) @ bs @ replicate (8 * length buf - i - length bs) False
    \<and> length (put_bits buf i bs) = length buf"
  using assms
proof (induction bs arbitrary: buf i)
  case Nil
  then show ?case by (simp flip: Nil.prems(2))
next
  case (Cons b bs)
  let ?o = "put_bit buf i b"
  have i: "i < 8 * length buf" using Cons.prems(1) by simp
  have nth: "buffer_bits buf ! i = False"
    using Cons.prems(2) i by (metis add.right_neutral diff_is_0_eq' linorder_not_le nth_drop nth_replicate
        length_buffer_bits less_imp_le zero_less_diff)
  have o: "buffer_bits ?o = (buffer_bits buf)[i := b]"
    using buffer_bits_put_bit [OF i, of b] nth by simp
  have "drop (Suc i) (buffer_bits buf) = replicate (8 * length buf - Suc i) False"
    using arg_cong [OF Cons.prems(2), of "drop 1"] by simp
  then have d: "drop (Suc i) (buffer_bits ?o) = replicate (8 * length ?o - Suc i) False"
    by (simp add: o)
  have t: "take (Suc i) (buffer_bits ?o) = take i (buffer_bits buf) @ [b]"
    using i by (simp add: o take_Suc_conv_app_nth)
  show ?case
    using Cons.IH [of "Suc i" ?o] Cons.prems(1) d t by simp
qed

lemma put_bits_append: "put_bits buf i (xs @ ys) = put_bits (put_bits buf i xs) (i + length xs) ys"
  by (induction xs arbitrary: buf i) simp_all

lemma length_lead_bits [simp]: "length (lead_bits n) = n"
  by (simp add: lead_bits_def)

lemma lead_bits_eq: "0 < n \<Longrightarrow> lead_bits n = replicate (n - 1) True @ [False]"
  by (rule nth_equalityI) (auto simp: lead_bits_def nth_append)

text \<open>Both \<open>encode\<close> functions: a zeroed array, the lead bits, then the value bits.\<close>

definition encode_bits :: "nat \<Rightarrow> bool list \<Rightarrow> byte list" where
  "encode_bits numberOfBytes bits =
     put_bits (put_bits (replicate numberOfBytes 0) 0 (lead_bits numberOfBytes)) numberOfBytes bits"

lemma encode_bits_spec:
  assumes "n + length bits \<le> 8 * n"
  shows "buffer_bits (encode_bits n bits) = lead_bits n @ bits @ replicate (7 * n - length bits) False"
    and "length (encode_bits n bits) = n"
proof -
  have e: "encode_bits n bits = put_bits (replicate n 0) 0 (lead_bits n @ bits)"
    by (simp add: encode_bits_def put_bits_append)
  have "buffer_bits (encode_bits n bits) = lead_bits n @ bits @ replicate (8 * n - length (lead_bits n @ bits)) False
      \<and> length (encode_bits n bits) = n"
    using put_bits_spec [of 0 "lead_bits n @ bits" "replicate n 0"] assms by (simp add: e buffer_bits_replicate_0)
  moreover have "8 * n - length (lead_bits n @ bits) = 7 * n - length bits"
    by simp
  ultimately show "buffer_bits (encode_bits n bits) = lead_bits n @ bits @ replicate (7 * n - length bits) False"
    and "length (encode_bits n bits) = n"
    by simp_all
qed

section \<open>The scanning loop\<close>

text \<open>
  The locals of \<open>decode\<close>, with \<open>bd_data\<close> for what the value bits are collected in. The action gets the
  number of lead bits, the position and the bit; \<open>None\<close> is an access that C++ leaves undefined.
\<close>

record 'd bit_decoder =
  bd_encodedByteCount :: int
  bd_leadBits :: int
  bd_inLeadBits :: bool
  bd_bitAt :: int
  bd_lastValueBit :: int
  bd_data :: 'd

definition decoder_start :: "'d \<Rightarrow> 'd bit_decoder" where
  "decoder_start d = \<lparr>bd_encodedByteCount = 1, bd_leadBits = 1, bd_inLeadBits = True, bd_bitAt = 0,
     bd_lastValueBit = 0, bd_data = d\<rparr>"

text \<open>The inner loop over the bits of one byte; the two \<open>break\<close>s return the state as it is.\<close>

(* @src libraries/shared/src/ByteCountCoding.h 139-169 ByteCountCoded::decode, bits of a byte *)
fun decode_bits ::
  "(int \<Rightarrow> int \<Rightarrow> bool \<Rightarrow> 'd \<Rightarrow> 'd option) \<Rightarrow> int \<Rightarrow> bool list \<Rightarrow> 'd bit_decoder \<Rightarrow> 'd bit_decoder option" where
  "decode_bits act bitCount [] s = Some s"
| "decode_bits act bitCount (bitIsSet # bits) s =
     (if bd_inLeadBits s then
        (if bitIsSet then
           decode_bits act bitCount bits
             (s\<lparr>bd_encodedByteCount := bd_encodedByteCount s + 1, bd_leadBits := bd_leadBits s + 1,
                bd_bitAt := bd_bitAt s + 1\<rparr>)
         else
           (let expectedBitCount = bd_encodedByteCount s * 8 - bd_leadBits s;
                s' = s\<lparr>bd_inLeadBits := False, bd_lastValueBit := expectedBitCount + bd_bitAt s\<rparr>
            in if expectedBitCount > bitCount - bd_leadBits s then Some s'
               else decode_bits act bitCount bits (s'\<lparr>bd_bitAt := bd_bitAt s' + 1\<rparr>)))
      else if bd_bitAt s > bd_lastValueBit s then Some s
      else do { d \<leftarrow> act (bd_leadBits s) (bd_bitAt s) bitIsSet (bd_data s);
                decode_bits act bitCount bits (s\<lparr>bd_data := d, bd_bitAt := bd_bitAt s + 1\<rparr>) })"

text \<open>The outer loop over the bytes, with \<open>bytesConsumed\<close>.\<close>

fun decode_bytes ::
  "(int \<Rightarrow> int \<Rightarrow> bool \<Rightarrow> 'd \<Rightarrow> 'd option) \<Rightarrow> int \<Rightarrow> byte list \<Rightarrow> 'd bit_decoder \<Rightarrow> (nat \<times> 'd bit_decoder) option" where
  "decode_bytes act bitCount [] s = Some (0, s)"
| "decode_bytes act bitCount (byte # bytes) s =
     do { s' \<leftarrow> decode_bits act bitCount (byte_bits byte) s;
          if \<not> bd_inLeadBits s' \<and> bd_bitAt s' > bd_lastValueBit s' then Some (1, s')
          else do { (n, s'') \<leftarrow> decode_bytes act bitCount bytes s'; Some (Suc n, s'') } }"

text \<open>What the value bits alone do, from position \<open>i\<close> on.\<close>

fun act_values :: "(int \<Rightarrow> int \<Rightarrow> bool \<Rightarrow> 'd \<Rightarrow> 'd option) \<Rightarrow> int \<Rightarrow> int \<Rightarrow> bool list \<Rightarrow> 'd \<Rightarrow> 'd option" where
  "act_values act n i [] d = Some d"
| "act_values act n i (b # bs) d = do { d' \<leftarrow> act n i b d; act_values act n (i + 1) bs d' }"

lemma act_values_Nil: "act_values act n i [] = Some"
  by (rule ext) simp

lemma act_values_append:
  "act_values act n i (xs @ ys) d = do { d' \<leftarrow> act_values act n i xs d; act_values act n (i + int (length xs)) ys d' }"
  by (induction xs arbitrary: i d) (simp_all add: add.assoc Option.bind_assoc split: Option.bind_split)

text \<open>
  The state after \<open>i\<close> of the \<open>8 n\<close> bits of a well-formed code with \<open>n\<close> lead bits, whose value bits
  are \<open>vs\<close>.
\<close>

definition decoder_at ::
  "(int \<Rightarrow> int \<Rightarrow> bool \<Rightarrow> 'd \<Rightarrow> 'd option) \<Rightarrow> nat \<Rightarrow> bool list \<Rightarrow> 'd \<Rightarrow> nat \<Rightarrow> 'd bit_decoder option" where
  "decoder_at act n vs d i =
     (if i < n then Some \<lparr>bd_encodedByteCount = int i + 1, bd_leadBits = int i + 1, bd_inLeadBits = True,
         bd_bitAt = int i, bd_lastValueBit = 0, bd_data = d\<rparr>
      else map_option (\<lambda>d'. \<lparr>bd_encodedByteCount = int n, bd_leadBits = int n, bd_inLeadBits = False,
         bd_bitAt = int i, bd_lastValueBit = 8 * int n - 1, bd_data = d'\<rparr>)
       (act_values act (int n) (int n) (take (i - n) vs) d))"

lemma decode_bits_step:
  assumes "0 < n" "i < 8 * n" "int (8 * n) \<le> bitCount" "length vs = 7 * n" "decoder_at act n vs d i = Some s"
  shows "decode_bits act bitCount ((lead_bits n @ vs) ! i # bits) s
    = do { s' \<leftarrow> decoder_at act n vs d (Suc i); decode_bits act bitCount bits s' }"
proof -
  consider "Suc i < n" | "Suc i = n" | "n \<le> i" by linarith
  then show ?thesis
  proof cases
    case 1
    then have "(lead_bits n @ vs) ! i" by (simp add: nth_append lead_bits_def)
    then show ?thesis using 1 assms(5) by (auto simp: decoder_at_def algebra_simps)
  next
    case 2
    then have "\<not> (lead_bits n @ vs) ! i" by (simp add: nth_append lead_bits_def)
    moreover have "int i + 1 = int n" using 2 by simp
    moreover have "\<not> int n * 8 - int n > bitCount - int n" using assms(3) by simp
    ultimately show ?thesis using 2 assms(5) by (auto simp: decoder_at_def Let_def algebra_simps)
  next
    case 3
    then obtain d' where d': "act_values act (int n) (int n) (take (i - n) vs) d = Some d'"
      and s: "s = \<lparr>bd_encodedByteCount = int n, bd_leadBits = int n, bd_inLeadBits = False,
         bd_bitAt = int i, bd_lastValueBit = 8 * int n - 1, bd_data = d'\<rparr>"
      using assms(5) by (auto simp: decoder_at_def)
    have k: "i - n < length vs" using assms(2,4) 3 by simp
    have b: "(lead_bits n @ vs) ! i = vs ! (i - n)" using 3 by (simp add: nth_append)
    have "take (Suc i - n) vs = take (i - n) vs @ [vs ! (i - n)]"
      using 3 k by (simp add: Suc_diff_le take_Suc_conv_app_nth)
    then have "decoder_at act n vs d (Suc i) = map_option (\<lambda>e. \<lparr>bd_encodedByteCount = int n, bd_leadBits = int n,
        bd_inLeadBits = False, bd_bitAt = int i + 1, bd_lastValueBit = 8 * int n - 1, bd_data = e\<rparr>)
        (act (int n) (int i) (vs ! (i - n)) d')"
      using 3 k d' by (simp add: decoder_at_def act_values_append min_def of_nat_diff algebra_simps act_values_Nil)
    moreover have "\<not> int i > 8 * int n - 1" using assms(2) by simp
    ultimately show ?thesis by (simp add: b s bind_map_option comp_def del: nth_append)
  qed
qed

lemma decode_bits_run:
  assumes "0 < n" "int (8 * n) \<le> bitCount" "length vs = 7 * n"
  shows "i + k \<le> 8 * n \<Longrightarrow> decoder_at act n vs d i = Some s
    \<Longrightarrow> decode_bits act bitCount (take k (drop i (lead_bits n @ vs))) s = decoder_at act n vs d (i + k)"
proof (induction k arbitrary: i s)
  case (Suc k)
  have l: "i < length (lead_bits n @ vs)" using Suc.prems(1) assms(3) by simp
  have "take (Suc k) (drop i (lead_bits n @ vs)) = (lead_bits n @ vs) ! i # take k (drop (Suc i) (lead_bits n @ vs))"
    using Cons_nth_drop_Suc [OF l] by (metis take_Suc_Cons)
  moreover have "decode_bits act bitCount ((lead_bits n @ vs) ! i # take k (drop (Suc i) (lead_bits n @ vs))) s
    = do { s' \<leftarrow> decoder_at act n vs d (Suc i); decode_bits act bitCount (take k (drop (Suc i) (lead_bits n @ vs))) s' }"
    using Suc.prems(1) by (intro decode_bits_step assms Suc.prems(2)) simp
  moreover have "decoder_at act n vs d (i + Suc k) = None" if "decoder_at act n vs d (Suc i) = None"
  proof -
    have n: "\<not> Suc i < n" and a: "act_values act (int n) (int n) (take (Suc i - n) vs) d = None"
      using that by (auto simp: decoder_at_def split: if_splits)
    have e: "i + Suc k - n = (Suc i - n) + k" using n by simp
    have "take (i + Suc k - n) vs = take (Suc i - n) vs @ take k (drop (Suc i - n) vs)"
      unfolding e by (rule take_add)
    then show ?thesis using n a by (simp add: decoder_at_def act_values_append)
  qed
  ultimately show ?case
    using Suc.IH [of "Suc i"] Suc.prems(1) by (cases "decoder_at act n vs d (Suc i)") simp_all
qed simp

lemma take_drop_byte:
  "k < length bytes \<Longrightarrow> take 8 (drop (8 * k) (buffer_bits bytes)) = byte_bits (bytes ! k)"
proof (induction bytes arbitrary: k)
  case (Cons b bs)
  show ?case
  proof (cases k)
    case (Suc j)
    have "drop (8 * k) (buffer_bits (b # bs)) = drop (8 * j) (buffer_bits bs)"
      by (simp add: Suc)
    then show ?thesis using Cons Suc by simp
  qed simp
qed simp

lemma decode_bytes_run:
  assumes n: "0 < n" "int (8 * n) \<le> bitCount" "length vs = 7 * n"
    and b: "take (8 * n) (buffer_bits bytes) = lead_bits n @ vs" "n \<le> length bytes"
  shows "n = k + Suc m \<Longrightarrow> decoder_at act n vs d (8 * k) = Some s \<Longrightarrow>
    decode_bytes act bitCount (drop k bytes) s = map_option (\<lambda>s'. (Suc m, s')) (decoder_at act n vs d (8 * n))"
proof (induction m arbitrary: k s)
  case (0 k s)
  have k: "k < length bytes" using 0 b(2) by simp
  have t: "take 8 (drop (8 * k) (lead_bits n @ vs)) = byte_bits (bytes ! k)"
    unfolding b(1) [symmetric] using take_drop_byte [OF k] 0(1) by (simp add: drop_take min_def)
  then have r: "decode_bits act bitCount (byte_bits (bytes ! k)) s = decoder_at act n vs d (8 * n)"
    using decode_bits_run [OF n, of "8 * k" 8 act d s] 0 unfolding t by (simp add: algebra_simps)
  have "drop k bytes = bytes ! k # drop (Suc k) bytes" using k by (simp add: Cons_nth_drop_Suc)
  then show ?case
    using 0(1) by (cases "decoder_at act n vs d (8 * n)") (auto simp: r decoder_at_def)
next
  case (Suc m k s)
  have k: "k < length bytes" using Suc.prems b(2) by simp
  have t: "take 8 (drop (8 * k) (lead_bits n @ vs)) = byte_bits (bytes ! k)"
    unfolding b(1) [symmetric] using take_drop_byte [OF k] Suc.prems(1) by (simp add: drop_take min_def)
  have r: "decode_bits act bitCount (byte_bits (bytes ! k)) s = decoder_at act n vs d (8 * Suc k)"
    using decode_bits_run [OF n, of "8 * k" 8 act d s] Suc.prems unfolding t by (simp add: algebra_simps)
  have l: "drop k bytes = bytes ! k # drop (Suc k) bytes" using k by (simp add: Cons_nth_drop_Suc)
  show ?case
  proof (cases "decoder_at act n vs d (8 * Suc k)")
    case None
    then have a: "\<not> 8 * Suc k < n" "act_values act (int n) (int n) (take (8 * Suc k - n) vs) d = None"
      by (auto simp: decoder_at_def split: if_splits)
    have e: "8 * n - n = (8 * Suc k - n) + (8 * n - 8 * Suc k)" using a(1) Suc.prems(1) by simp
    have "take (8 * n - n) vs = take (8 * Suc k - n) vs @ take (8 * n - 8 * Suc k) (drop (8 * Suc k - n) vs)"
      unfolding e by (rule take_add)
    then have "decoder_at act n vs d (8 * n) = None"
      using a(2) by (simp add: decoder_at_def act_values_append)
    then show ?thesis using None by (simp add: l r)
  next
    case (Some s')
    have "bd_inLeadBits s' \<or> \<not> bd_bitAt s' > bd_lastValueBit s'"
      using Some Suc.prems(1) by (auto simp: decoder_at_def split: if_splits)
    moreover have "decode_bits act bitCount (byte_bits (bytes ! k)) s = Some s'" by (simp only: r Some)
    ultimately have "decode_bytes act bitCount (drop k bytes) s
        = do { (j, s'') \<leftarrow> decode_bytes act bitCount (drop (Suc k) bytes) s'; Some (Suc j, s'') }"
      by (auto simp: l)
    also have "\<dots> = map_option (\<lambda>s'. (Suc (Suc m), s')) (decoder_at act n vs d (8 * n))"
      using Suc.IH [of "Suc k" s'] Suc.prems(1) Some by (cases "decoder_at act n vs d (8 * n)") simp_all
    finally show ?thesis .
  qed
qed

text \<open>
  What a scan does on a buffer that starts with a complete code: it reads \<open>n\<close> bytes and the value bits
  are what it has acted on.
\<close>

theorem decode_bytes_complete:
  assumes "0 < n" "n \<le> length bytes" "take (8 * n) (buffer_bits bytes) = lead_bits n @ vs"
  shows "map_option (\<lambda>(k, s). (k, bd_data s)) (decode_bytes act (8 * int (length bytes)) bytes (decoder_start d))
    = map_option (\<lambda>d'. (n, d')) (act_values act (int n) (int n) vs d)"
proof -
  have vs: "length vs = 7 * n" using arg_cong [OF assms(3), of length] assms(2) by simp
  obtain m where m: "n = 0 + Suc m" using assms(1) by (metis add_0 gr0_implies_Suc)
  have "decoder_at act n vs d (8 * 0) = Some (decoder_start d)"
    using assms(1) by (simp add: decoder_at_def decoder_start_def)
  from decode_bytes_run [OF assms(1) _ vs assms(3,2) m this]
  have "decode_bytes act (8 * int (length bytes)) bytes (decoder_start d)
      = map_option (\<lambda>s'. (n, s')) (decoder_at act n vs d (8 * n))"
    using assms(2) m by simp
  then show ?thesis
    using assms(1) vs by (simp add: decoder_at_def option.map_comp comp_def)
qed

section \<open>The interface of an action\<close>

text \<open>
  An action collects the value bits when every bit extends what the bits before it stand for.
\<close>

locale bit_action =
  fixes act :: "int \<Rightarrow> int \<Rightarrow> bool \<Rightarrow> 'd \<Rightarrow> 'd option" and stands :: "bool list \<Rightarrow> 'd"
  assumes act_stands: "act n (n + int (length xs)) b (stands xs) = Some (stands (xs @ [b]))"
begin

lemma act_values_stands: "act_values act n (n + int (length xs)) bs (stands xs) = Some (stands (xs @ bs))"
proof (induction bs arbitrary: xs)
  case (Cons b bs)
  have "act_values act n (n + int (length (xs @ [b]))) bs (stands (xs @ [b])) = Some (stands ((xs @ [b]) @ bs))"
    by (rule Cons)
  then show ?case by (simp add: act_stands algebra_simps)
qed simp

text \<open>Whatever follows a code in the buffer, the scan stops after its \<open>n\<close> bytes with its value bits.\<close>

lemma decode_encode_bits:
  assumes "0 < n" "length bits \<le> 7 * n"
  shows "map_option (\<lambda>(k, s). (k, bd_data s))
      (decode_bytes act (8 * int (length (encode_bits n bits @ rest))) (encode_bits n bits @ rest)
        (decoder_start (stands [])))
    = Some (n, stands (bits @ replicate (7 * n - length bits) False))"
proof -
  let ?vs = "bits @ replicate (7 * n - length bits) False"
  note e = encode_bits_spec [of n bits]
  have "take (8 * n) (buffer_bits (encode_bits n bits @ rest)) = lead_bits n @ ?vs"
    using e assms by (simp add: buffer_bits_def)
  moreover have "act_values act (int n) (int n) ?vs (stands []) = Some (stands ?vs)"
    using act_values_stands [of "int n" "[]" ?vs] by simp
  ultimately show ?thesis
    using decode_bytes_complete [of n "encode_bits n bits @ rest" ?vs act "stands []"] e(2) assms by simp
qed

end

section \<open>\<open>ByteCountCoded\<close>\<close>

text \<open>The loop that counts the bits a value takes: \<open>temp\<close> moves left under the highest bit of the type.\<close>

(* @src libraries/shared/src/ByteCountCoding.h 74-84 ByteCountCoded::encode, number of bits *)
fun bcc_valueBits :: "nat \<Rightarrow> 'a :: len word \<Rightarrow> nat \<Rightarrow> bool \<Rightarrow> nat" where
  "bcc_valueBits 0 temp valueBits firstValueFound = valueBits"
| "bcc_valueBits (Suc k) temp valueBits firstValueFound =
     (let lastBitMask = push_bit (LENGTH('a) - 1) 1;
          bitValue = ((temp AND lastBitMask) = lastBitMask)
      in if \<not> firstValueFound \<and> \<not> bitValue
         then bcc_valueBits k (push_bit 1 temp) (valueBits - 1) False
         else bcc_valueBits k (push_bit 1 temp) valueBits True)"

(* @src libraries/shared/src/ByteCountCoding.h 64-116 ByteCountCoded::encode *)
definition ByteCountCoded_encode :: "'a :: len word \<Rightarrow> byte list" where
  "ByteCountCoded_encode data =
     (let valueBits = bcc_valueBits LENGTH('a) data LENGTH('a) False;
          numberOfBytes = valueBits div (8 - 1) + 1
      in encode_bits numberOfBytes (map (\<lambda>i. (drop_bit i data) AND 1 \<noteq> 0) [0..<valueBits]))"

text \<open>The action on a value bit: \<open>data += bitValue\<close> when it is set, and \<open>bitValue *= 2\<close>.\<close>

(* @src libraries/shared/src/ByteCountCoding.h 160-166 ByteCountCoded::decode, value bit *)
definition bcc_act :: "int \<Rightarrow> int \<Rightarrow> bool \<Rightarrow> 'a :: len word \<times> 'a word \<Rightarrow> ('a word \<times> 'a word) option" where
  "bcc_act leadBits bitAt bitIsSet = (\<lambda>(data, bitValue). Some (if bitIsSet then data + bitValue else data, bitValue * 2))"

(* @src libraries/shared/src/ByteCountCoding.h 122-175 ByteCountCoded::decode *)
definition ByteCountCoded_decode :: "byte list \<Rightarrow> ('a :: len word \<times> nat) option" where
  "ByteCountCoded_decode encodedBuffer =
     map_option (\<lambda>(bytesConsumed, s). (fst (bd_data s), bytesConsumed))
       (decode_bytes bcc_act (8 * int (length encodedBuffer)) encodedBuffer (decoder_start (0, 1)))"

definition bcc_stands :: "bool list \<Rightarrow> 'a :: len word \<times> 'a word" where
  "bcc_stands xs = (horner_sum of_bool 2 xs, 2 ^ length xs)"

lemma horner_sum_snoc: "horner_sum of_bool 2 (xs @ [b]) = horner_sum of_bool 2 xs + of_bool b * (2 :: 'a :: len word) ^ length xs"
  by (simp add: horner_sum_append)

interpretation bcc: bit_action bcc_act bcc_stands
  by unfold_locales (simp add: bcc_act_def bcc_stands_def horner_sum_snoc)

lemma bit_top: "(temp AND push_bit (LENGTH('a) - 1) 1 = (push_bit (LENGTH('a) - 1) 1 :: 'a :: len word)) = bit temp (LENGTH('a) - 1)"
proof -
  have "(temp AND push_bit (LENGTH('a) - 1) 1 :: 'a word) = (if bit temp (LENGTH('a) - 1) then push_bit (LENGTH('a) - 1) 1 else 0)"
    by (rule bit_word_eqI) (auto simp: bit_simps)
  moreover have "push_bit (LENGTH('a) - 1) 1 \<noteq> (0 :: 'a word)"
    using bit_push_bit_iff [of "LENGTH('a) - 1" "1 :: 'a word" "LENGTH('a) - 1"] by (metis bit_0_eq bot_apply bot_bool_def
        bit_1_iff diff_self_eq_0 diff_less len_gt_0 less_numeral_extra(1) order_refl possible_bit_word)
  ultimately show ?thesis by auto
qed

lemma bcc_valueBits_found: "bcc_valueBits k temp v True = v"
  by (induction k arbitrary: temp) (simp_all add: Let_def)

lemma bcc_valueBits_Suc:
  "bcc_valueBits (Suc k) (temp :: 'a :: len word) v False =
    (if bit temp (LENGTH('a) - 1) then v else bcc_valueBits k (push_bit 1 temp) (v - 1) False)"
  by (simp only: bcc_valueBits.simps Let_def bit_top bcc_valueBits_found) simp

lemma bcc_valueBits_spec:
  assumes "k \<le> LENGTH('a)" "\<forall>i \<ge> k. \<not> bit (data :: 'a :: len word) i"
  shows "bcc_valueBits k (push_bit (LENGTH('a) - k) data) k False \<le> k
    \<and> (\<forall>i \<ge> bcc_valueBits k (push_bit (LENGTH('a) - k) data) k False. \<not> bit data i)"
  using assms
proof (induction k)
  case (Suc k)
  obtain t where t: "push_bit (LENGTH('a) - Suc k) data = t" by blast
  have top: "bit t (LENGTH('a) - 1) \<longleftrightarrow> bit data k"
    using Suc.prems(1) by (auto simp: bit_simps simp flip: t)
  have "LENGTH('a) - k = 1 + (LENGTH('a) - Suc k)" using Suc.prems(1) by simp
  then have p: "push_bit 1 t = push_bit (LENGTH('a) - k) data"
    by (metis push_bit_push_bit t)
  show ?case
  proof (cases "bit data k")
    case True
    then show ?thesis using Suc.prems top unfolding t bcc_valueBits_Suc by simp
  next
    case False
    then have "\<forall>i \<ge> k. \<not> bit data i" using Suc.prems(2) by (metis le_antisym not_less_eq_eq)
    then show ?thesis using Suc.IH Suc.prems(1) False top unfolding t bcc_valueBits_Suc p by simp
  qed
qed simp

lemma horner_sum_bits: "horner_sum of_bool 2 (map (bit w) [0..<n]) = take_bit n (w :: 'a :: len word)"
  by (rule horner_sum_bit_eq_take_bit)

lemma horner_sum_replicate_False: "horner_sum of_bool 2 (replicate n False) = (0 :: 'a :: len word)"
  by (induction n) simp_all

lemma horner_sum_False: "horner_sum of_bool 2 (xs @ replicate n False) = (horner_sum of_bool 2 xs :: 'a :: len word)"
  by (simp add: horner_sum_append horner_sum_replicate_False)

text \<open>
  A coded integer is read back, from the front of any buffer: decoding what \<open>encode\<close> wrote, whatever
  follows it, gives the value and consumes exactly the bytes written, of which there are at most one for
  every seven bits of the type and one more.
\<close>

theorem ByteCountCoded_roundtrip:
  "ByteCountCoded_decode (ByteCountCoded_encode (data :: 'a :: len word) @ rest)
      = Some (data, length (ByteCountCoded_encode data))
    \<and> length (ByteCountCoded_encode data) \<le> LENGTH('a) div 7 + 1"
proof -
  obtain v where v: "bcc_valueBits LENGTH('a) data LENGTH('a) False = v" by blast
  have "\<forall>i \<ge> LENGTH('a). \<not> bit data i" by (meson bit_imp_le_length linorder_not_less)
  then have le: "v \<le> LENGTH('a)" and hi: "\<forall>i \<ge> v. \<not> bit data i"
    using bcc_valueBits_spec [of "LENGTH('a)" data] v by simp_all
  obtain bits where bits: "bits = map (bit data) [0..<v]" by blast
  obtain n where n: "n = v div 7 + 1" by blast
  have fits: "0 < n" "length bits \<le> 7 * n" "n + length bits \<le> 8 * n"
    using mult_div_mod_eq [of 7 v] mod_less_divisor [of 7 v] by (simp_all add: bits n)
  have "(drop_bit i data AND 1 \<noteq> 0) = bit data i" for i
    by (simp add: and_one_eq bit_iff_odd_drop_bit odd_iff_mod_2_eq_one)
  then have enc: "ByteCountCoded_encode data = encode_bits n bits"
    by (simp add: ByteCountCoded_encode_def v Let_def bits n)
  have "i < v" if "bit data i" for i using hi that by (meson linorder_not_le)
  then have "fst (bcc_stands (bits @ replicate (7 * n - length bits) False)) = data"
    by (auto simp: bcc_stands_def horner_sum_False bits horner_sum_bits bit_take_bit_iff intro!: bit_word_eqI)
  then have "ByteCountCoded_decode (encode_bits n bits @ rest) = Some (data, n)"
    using bcc.decode_encode_bits [OF fits(1,2), of rest]
    by (auto simp: ByteCountCoded_decode_def bcc_stands_def map_option_case split: option.splits)
  moreover have "n \<le> LENGTH('a) div 7 + 1" using le by (simp add: n div_le_mono)
  ultimately show ?thesis using encode_bits_spec(2) [OF fits(3)] by (simp add: enc)
qed

section \<open>Bit vectors\<close>

(* @src libraries/shared/src/BitVectorHelpers.h 17-19 calcBitVectorSize *)
definition calcBitVectorSize :: "int \<Rightarrow> int" where
  "calcBitVectorSize numBits = drop_bit 3 (numBits - 1) + 1"

text \<open>
  The loop of \<open>writeBitVector\<close> over \<open>i\<close>, with its locals \<open>byte\<close> and \<open>bit\<close>; the result is what has been
  stored through \<open>cursor\<close>.
\<close>

fun writeBitVector_loop :: "bool list \<Rightarrow> byte \<Rightarrow> nat \<Rightarrow> byte list" where
  "writeBitVector_loop [] byte bitAt = (if bitAt \<noteq> 0 then [byte] else [])"
| "writeBitVector_loop (value # values) byte bitAt =
     (let byte' = (if value then byte OR push_bit bitAt 1 else byte)
      in if Suc bitAt = 8 then byte' # writeBitVector_loop values 0 0
         else writeBitVector_loop values byte' (Suc bitAt))"

(* @src libraries/shared/src/BitVectorHelpers.h 22-46 writeBitVector *)
definition writeBitVector :: "byte list \<Rightarrow> nat \<Rightarrow> (nat \<Rightarrow> bool) \<Rightarrow> (int \<times> byte list) option" where
  "writeBitVector destinationBuffer numBits func =
     do { buf \<leftarrow> mem_write destinationBuffer 0 (writeBitVector_loop (map func [0..<numBits]) 0 0);
          Some (calcBitVectorSize (int numBits), buf) }"

fun readBitVector_loop :: "byte list \<Rightarrow> nat \<Rightarrow> nat \<Rightarrow> nat \<Rightarrow> bool list option" where
  "readBitVector_loop sourceBuffer cursor bitAt 0 = Some []"
| "readBitVector_loop sourceBuffer cursor bitAt (Suc n) =
     do { b \<leftarrow> (if cursor < length sourceBuffer then Some (sourceBuffer ! cursor) else None);
          values \<leftarrow> (if Suc bitAt = 8 then readBitVector_loop sourceBuffer (Suc cursor) 0 n
                    else readBitVector_loop sourceBuffer cursor (Suc bitAt) n);
          Some ((b AND push_bit bitAt 1 \<noteq> 0) # values) }"

text \<open>\<open>func(i, value)\<close> is called for every bit in order; the model returns the values it is called with.\<close>

(* @src libraries/shared/src/BitVectorHelpers.h 50-64 readBitVector *)
definition readBitVector :: "byte list \<Rightarrow> nat \<Rightarrow> (int \<times> bool list) option" where
  "readBitVector sourceBuffer numBits =
     do { values \<leftarrow> readBitVector_loop sourceBuffer 0 0 numBits;
          Some (calcBitVectorSize (int numBits), values) }"

lemma writeBitVector_loop_byte:
  assumes "k < 8" "xs \<noteq> [] \<or> k \<noteq> 0"
  shows "\<exists>b bs. writeBitVector_loop xs byte k = b # bs \<and> (\<forall>i < k. bit b i = bit byte i)"
  using assms
proof (induction xs byte k rule: writeBitVector_loop.induct)
  case (2 v vs byte k)
  obtain byte' where b: "byte' = (if v then byte OR push_bit k 1 else byte)" by blast
  have same: "\<forall>i < k. bit byte' i = bit byte i" by (auto simp: b bit_simps)
  show ?case
  proof (cases "Suc k = 8")
    case True
    then have "writeBitVector_loop (v # vs) byte k = byte' # writeBitVector_loop vs 0 0"
      by (simp only: writeBitVector_loop.simps Let_def b refl if_True)
    then show ?thesis using same by blast
  next
    case False
    then show ?thesis using 2(2) [OF b False] 2(3) same b by (fastforce simp: Let_def)
  qed
qed auto

lemma readBitVector_write_loop:
  assumes "k < 8" "\<forall>i \<ge> k. \<not> bit byte i"
  shows "readBitVector_loop (pre @ writeBitVector_loop xs byte k @ rest) (length pre) k (length xs) = Some xs"
  using assms
proof (induction xs byte k arbitrary: pre rule: writeBitVector_loop.induct)
  case (2 v vs byte k)
  obtain byte' where b: "byte' = (if v then byte OR push_bit k 1 else byte)" by blast
  have k: "bit byte' k = v" and hi: "\<forall>i > k. \<not> bit byte' i"
    using 2(3,4) by (auto simp: b bit_simps)
  have test: "(c AND push_bit k 1 \<noteq> 0) = bit c k" for c :: byte
    by (simp only: bit_iff_and_push_bit_not_eq_0)
  show ?case
  proof (cases "Suc k = 8")
    case True
    have w: "writeBitVector_loop (v # vs) byte k = byte' # writeBitVector_loop vs 0 0"
      using True b by (simp add: Let_def)
    have "readBitVector_loop ((pre @ [byte']) @ writeBitVector_loop vs 0 0 @ rest) (length (pre @ [byte'])) 0 (length vs)
        = Some vs"
      using 2(1) [OF b True, of "pre @ [byte']"] by simp
    then show ?thesis unfolding w using True k test by simp
  next
    case False
    have w: "writeBitVector_loop (v # vs) byte k = writeBitVector_loop vs byte' (Suc k)"
      using False b by (simp add: Let_def)
    obtain c bs where c: "writeBitVector_loop vs byte' (Suc k) = c # bs" "bit c k = v"
      using writeBitVector_loop_byte [of "Suc k" vs byte'] False 2(3) k by auto
    have "readBitVector_loop (pre @ writeBitVector_loop vs byte' (Suc k) @ rest) (length pre) (Suc k) (length vs)
        = Some vs"
      using 2(2) [OF b False] 2(3) False hi by simp
    then show ?thesis unfolding w using False c test by simp
  qed
qed simp

lemma length_writeBitVector_loop: "k < 8 \<Longrightarrow> length (writeBitVector_loop xs byte k) = (k + length xs + 7) div 8"
proof (induction xs byte k rule: writeBitVector_loop.induct)
  case (1 byte k)
  then show ?case by (cases "k = 0") (simp_all add: le_div_geq)
next
  case (2 v vs byte k)
  then show ?case by (simp add: Let_def le_div_geq add.commute)
qed

lemma calcBitVectorSize_eq: "calcBitVectorSize (int n) = int ((n + 7) div 8)"
proof -
  have "(int n - 1) div 8 + 1 = (int n + 7) div 8"
    using div_add_self2 [of 8 "int n - 1"] by simp
  then show ?thesis by (simp add: calcBitVectorSize_def drop_bit_eq_div zdiv_int)
qed

text \<open>
  A bit vector is read back as it was written, from a buffer that holds \<open>calcBitVectorSize\<close> bytes, and
  neither function reaches past those bytes.
\<close>

theorem BitVector_roundtrip:
  assumes "calcBitVectorSize (int numBits) \<le> int (length destinationBuffer)"
  shows "\<exists>buf. writeBitVector destinationBuffer numBits func = Some (calcBitVectorSize (int numBits), buf)
    \<and> drop (nat (calcBitVectorSize (int numBits))) buf = drop (nat (calcBitVectorSize (int numBits))) destinationBuffer
    \<and> readBitVector (take (nat (calcBitVectorSize (int numBits))) buf) numBits
        = Some (calcBitVectorSize (int numBits), map func [0..<numBits])"
proof -
  obtain w where w: "writeBitVector_loop (map func [0..<numBits]) 0 0 = w" by blast
  have l: "length w = nat (calcBitVectorSize (int numBits))"
    using length_writeBitVector_loop [of 0 "map func [0..<numBits]" 0] by (simp add: w calcBitVectorSize_eq)
  have fits: "length w \<le> length destinationBuffer" using assms l by simp
  have "readBitVector_loop w 0 0 numBits = Some (map func [0..<numBits])"
    using readBitVector_write_loop [of 0 0 "[]" "map func [0..<numBits]" "[]"] by (simp add: w)
  then show ?thesis
    using fits by (simp add: writeBitVector_def mem_write_def w readBitVector_def flip: l)
qed

theorem BitVector_roundtrip_witness:
  "\<exists>buf. writeBitVector [9, 9, 9] 10 (\<lambda>i. i mod 3 = 0) = Some (2, buf) \<and> drop 2 buf = [9]
    \<and> readBitVector (take 2 buf) 10 = Some (2, [True, False, False, True, False, False, True, False, False, True])"
proof -
  have s: "calcBitVectorSize 10 = 2" by (simp add: calcBitVectorSize_def drop_bit_eq_div)
  show ?thesis
    using BitVector_roundtrip [of 10 "[9, 9, 9]" "\<lambda>i. i mod 3 = 0"] by (simp add: s upt_conv_Cons)
qed

end
