(* ===== verification/Property_Flags.thy ===== *)
theory Property_Flags
  imports Bit_Coding
begin

text \<open>
  \<open>PropertyFlags\<close> (\<open>libraries/shared/src/PropertyFlags.h\<close>): a set of enumeration values kept in a bit array
  with its bounds, the operators on it, and its self-delimiting encoding, which entity edits carry over the
  network. The enumeration is its underlying integer; \<open>QBitArray\<close> is Qt's, a bit outside the array is
  undefined (\<open>None\<close>). The first group of lemmas shows that the operators compute on finite sets, the second
  that the encoding is read back.
\<close>

section \<open>\<open>QBitArray\<close>\<close>

definition INT_MIN :: int where
  "INT_MIN = -2147483648"

definition QBitArray_resize :: "nat \<Rightarrow> bool list \<Rightarrow> bool list" where
  "QBitArray_resize n bits = take n bits @ replicate (n - length bits) False"

definition QBitArray_testBit :: "bool list \<Rightarrow> int \<Rightarrow> bool option" where
  "QBitArray_testBit bits i = (if 0 \<le> i \<and> i < int (length bits) then Some (bits ! nat i) else None)"

definition QBitArray_setBit :: "bool list \<Rightarrow> int \<Rightarrow> bool \<Rightarrow> bool list option" where
  "QBitArray_setBit bits i v = (if 0 \<le> i \<and> i < int (length bits) then Some (bits[nat i := v]) else None)"

text \<open>The bitwise operators give an array as long as the longer one, missing bits count as zero.\<close>

definition QBitArray_op :: "(bool \<Rightarrow> bool \<Rightarrow> bool) \<Rightarrow> bool list \<Rightarrow> bool list \<Rightarrow> bool list" where
  "QBitArray_op f xs ys =
     (let n = max (length xs) (length ys) in map2 f (QBitArray_resize n xs) (QBitArray_resize n ys))"

section \<open>State and operations\<close>

(* @src libraries/shared/src/PropertyFlags.h 109-118 PropertyFlags *)
record property_flags =
  pf_flags :: "bool list"
  pf_maxFlag :: int
  pf_minFlag :: int
  pf_trailingFlipped :: bool
  pf_encodedLength :: int

(* @src libraries/shared/src/PropertyFlags.h 34-35 PropertyFlags::PropertyFlags *)
definition PropertyFlags_new :: property_flags where
  "PropertyFlags_new = \<lparr>pf_flags = [], pf_maxFlag = INT_MIN, pf_minFlag = INT_MAX,
     pf_trailingFlipped = False, pf_encodedLength = 0\<rparr>"

(* @src libraries/shared/src/PropertyFlags.h 37-39 PropertyFlags::PropertyFlags(const PropertyFlags&) *)
definition PropertyFlags_copy :: "property_flags \<Rightarrow> property_flags" where
  "PropertyFlags_copy other = other\<lparr>pf_encodedLength := 0\<rparr>"

(* @src libraries/shared/src/PropertyFlags.h 47-47 PropertyFlags::clear *)
definition PropertyFlags_clear :: "property_flags \<Rightarrow> property_flags" where
  "PropertyFlags_clear p = p\<lparr>pf_flags := [], pf_maxFlag := INT_MIN, pf_minFlag := INT_MAX,
     pf_trailingFlipped := False, pf_encodedLength := 0\<rparr>"

(* @src libraries/shared/src/PropertyFlags.h 48-48 PropertyFlags::isEmpty *)
definition PropertyFlags_isEmpty :: "property_flags \<Rightarrow> bool" where
  "PropertyFlags_isEmpty p \<longleftrightarrow> pf_maxFlag p = INT_MIN \<and> pf_minFlag p = INT_MAX
     \<and> pf_trailingFlipped p = False \<and> pf_encodedLength p = 0"

(* @src libraries/shared/src/PropertyFlags.h 50-50 PropertyFlags::firstFlag *)
definition PropertyFlags_firstFlag :: "property_flags \<Rightarrow> int" where
  "PropertyFlags_firstFlag p = pf_minFlag p"

(* @src libraries/shared/src/PropertyFlags.h 51-51 PropertyFlags::lastFlag *)
definition PropertyFlags_lastFlag :: "property_flags \<Rightarrow> int" where
  "PropertyFlags_lastFlag p = pf_maxFlag p"

text \<open>The loop of \<open>shrinkIfNeeded\<close>: \<open>n\<close> is \<open>_maxFlag + 1\<close>.\<close>

fun pf_shrink :: "bool list \<Rightarrow> nat \<Rightarrow> nat option" where
  "pf_shrink flags 0 = Some 0"
| "pf_shrink flags (Suc m) =
     do { b \<leftarrow> QBitArray_testBit flags (int m); if b then Some (Suc m) else pf_shrink flags m }"

(* @src libraries/shared/src/PropertyFlags.h 441-452 PropertyFlags::shrinkIfNeeded *)
definition PropertyFlags_shrinkIfNeeded :: "property_flags \<Rightarrow> property_flags option" where
  "PropertyFlags_shrinkIfNeeded p =
     (let maxFlagWas = pf_maxFlag p in
      do { maxFlag \<leftarrow> (if pf_maxFlag p \<ge> 0
                     then map_option (\<lambda>n. int n - 1) (pf_shrink (pf_flags p) (nat (pf_maxFlag p + 1)))
                     else Some (pf_maxFlag p));
           Some (if maxFlagWas \<noteq> maxFlag
                 then p\<lparr>pf_maxFlag := maxFlag, pf_flags := QBitArray_resize (nat (maxFlag + 1)) (pf_flags p)\<rparr>
                 else p) })"

(* @src libraries/shared/src/PropertyFlags.h 130-150 PropertyFlags::setHasProperty *)
definition PropertyFlags_setHasProperty :: "int \<Rightarrow> bool \<Rightarrow> property_flags \<Rightarrow> property_flags option" where
  "PropertyFlags_setHasProperty flag v p =
     (let p1 = (if flag < pf_minFlag p \<and> v then p\<lparr>pf_minFlag := flag\<rparr> else p) in
      if flag > pf_maxFlag p1 \<and> \<not> v then Some p1
      else
        (let p2 = (if flag > pf_maxFlag p1
                   then p1\<lparr>pf_maxFlag := flag, pf_flags := QBitArray_resize (nat (flag + 1)) (pf_flags p1)\<rparr>
                   else p1) in
         do { flags \<leftarrow> QBitArray_setBit (pf_flags p2) flag v;
              if flag = pf_maxFlag p2 \<and> \<not> v
              then PropertyFlags_shrinkIfNeeded (p2\<lparr>pf_flags := flags\<rparr>)
              else Some (p2\<lparr>pf_flags := flags\<rparr>) }))"

(* @src libraries/shared/src/PropertyFlags.h 152-157 PropertyFlags::getHasProperty *)
definition PropertyFlags_getHasProperty :: "int \<Rightarrow> property_flags \<Rightarrow> bool option" where
  "PropertyFlags_getHasProperty flag p =
     (if flag > pf_maxFlag p then Some (pf_trailingFlipped p) else QBitArray_testBit (pf_flags p) flag)"

(* @src libraries/shared/src/PropertyFlags.h 41-42 PropertyFlags::PropertyFlags(Enum) *)
definition PropertyFlags_of_flag :: "int \<Rightarrow> property_flags option" where
  "PropertyFlags_of_flag flag = PropertyFlags_setHasProperty flag True PropertyFlags_new"

(* @src libraries/shared/src/PropertyFlags.h 161-197 PropertyFlags::encode *)
definition PropertyFlags_encode :: "property_flags \<Rightarrow> (byte list \<times> property_flags) option" where
  "PropertyFlags_encode p =
     (if pf_maxFlag p < pf_minFlag p then Some ([0], p)
      else
        (let lengthInBytes = nat (cdiv (pf_maxFlag p) (8 - 1) + 1);
             values = nat (pf_maxFlag p + 1)
         in if values \<le> length (pf_flags p)
            then Some (encode_bits lengthInBytes (take values (pf_flags p)), p\<lparr>pf_encodedLength := int lengthInBytes\<rparr>)
            else None))"

text \<open>The action of the scanning loop: a set value bit sets the flag \<open>bitAt - leadBits\<close>.\<close>

(* @src libraries/shared/src/PropertyFlags.h 237-239 PropertyFlags::decode, value bit *)
definition pf_act :: "int \<Rightarrow> int \<Rightarrow> bool \<Rightarrow> property_flags \<Rightarrow> property_flags option" where
  "pf_act leadBits bitAt bitIsSet p =
     (if bitIsSet then PropertyFlags_setHasProperty (bitAt - leadBits) True p else Some p)"

(* @src libraries/shared/src/PropertyFlags.h 199-251 PropertyFlags::decode *)
definition PropertyFlags_decode :: "byte list \<Rightarrow> property_flags \<Rightarrow> (nat \<times> property_flags) option" where
  "PropertyFlags_decode data p =
     map_option (\<lambda>(bytesConsumed, s). (bytesConsumed, bd_data s\<lparr>pf_encodedLength := int bytesConsumed\<rparr>))
       (decode_bytes pf_act (8 * int (length data)) data (decoder_start (PropertyFlags_clear p)))"

(* @src libraries/shared/src/PropertyFlags.h 44-45 PropertyFlags::PropertyFlags(const QByteArray&) *)
definition PropertyFlags_of_bytes :: "byte list \<Rightarrow> property_flags option" where
  "PropertyFlags_of_bytes fromEncoded = map_option snd (PropertyFlags_decode fromEncoded PropertyFlags_new)"

section \<open>Operators\<close>

(* @src libraries/shared/src/PropertyFlags.h 63-63 PropertyFlags::operator== *)
definition PropertyFlags_eq :: "property_flags \<Rightarrow> property_flags \<Rightarrow> bool" where
  "PropertyFlags_eq p other \<longleftrightarrow> pf_flags p = pf_flags other"

(* @src libraries/shared/src/PropertyFlags.h 64-64 PropertyFlags::operator!= *)
definition PropertyFlags_neq :: "property_flags \<Rightarrow> property_flags \<Rightarrow> bool" where
  "PropertyFlags_neq p other \<longleftrightarrow> pf_flags p \<noteq> pf_flags other"

(* @src libraries/shared/src/PropertyFlags.h 65-65 PropertyFlags::operator! *)
definition PropertyFlags_not :: "property_flags \<Rightarrow> bool" where
  "PropertyFlags_not p \<longleftrightarrow> length (pf_flags p) = 0"

(* @src libraries/shared/src/PropertyFlags.h 269-274 PropertyFlags::operator= *)
definition PropertyFlags_assign :: "property_flags \<Rightarrow> property_flags \<Rightarrow> property_flags" where
  "PropertyFlags_assign other p =
     p\<lparr>pf_flags := pf_flags other, pf_maxFlag := pf_maxFlag other, pf_minFlag := pf_minFlag other\<rparr>"

(* @src libraries/shared/src/PropertyFlags.h 276-281 PropertyFlags::operator|= *)
definition PropertyFlags_or_assign :: "property_flags \<Rightarrow> property_flags \<Rightarrow> property_flags" where
  "PropertyFlags_or_assign other p =
     p\<lparr>pf_flags := QBitArray_op (\<or>) (pf_flags p) (pf_flags other),
       pf_maxFlag := max (pf_maxFlag p) (pf_maxFlag other), pf_minFlag := min (pf_minFlag p) (pf_minFlag other)\<rparr>"

(* @src libraries/shared/src/PropertyFlags.h 283-289 PropertyFlags::operator|=(Enum) *)
definition PropertyFlags_or_assign_flag :: "int \<Rightarrow> property_flags \<Rightarrow> property_flags option" where
  "PropertyFlags_or_assign_flag flag p =
     do { other \<leftarrow> PropertyFlags_of_flag flag; Some (PropertyFlags_or_assign other p) }"

(* @src libraries/shared/src/PropertyFlags.h 291-295 PropertyFlags::operator&= *)
definition PropertyFlags_and_assign :: "property_flags \<Rightarrow> property_flags \<Rightarrow> property_flags option" where
  "PropertyFlags_and_assign other p =
     PropertyFlags_shrinkIfNeeded (p\<lparr>pf_flags := QBitArray_op (\<and>) (pf_flags p) (pf_flags other)\<rparr>)"

(* @src libraries/shared/src/PropertyFlags.h 297-302 PropertyFlags::operator&=(Enum) *)
definition PropertyFlags_and_assign_flag :: "int \<Rightarrow> property_flags \<Rightarrow> property_flags option" where
  "PropertyFlags_and_assign_flag flag p =
     do { other \<leftarrow> PropertyFlags_of_flag flag; PropertyFlags_and_assign other p }"

(* @src libraries/shared/src/PropertyFlags.h 304-308 PropertyFlags::operator^= *)
definition PropertyFlags_xor_assign :: "property_flags \<Rightarrow> property_flags \<Rightarrow> property_flags option" where
  "PropertyFlags_xor_assign other p =
     PropertyFlags_shrinkIfNeeded (p\<lparr>pf_flags := QBitArray_op (\<noteq>) (pf_flags p) (pf_flags other)\<rparr>)"

(* @src libraries/shared/src/PropertyFlags.h 310-315 PropertyFlags::operator^=(Enum) *)
definition PropertyFlags_xor_assign_flag :: "int \<Rightarrow> property_flags \<Rightarrow> property_flags option" where
  "PropertyFlags_xor_assign_flag flag p =
     do { other \<leftarrow> PropertyFlags_of_flag flag; PropertyFlags_xor_assign other p }"

text \<open>The loops of \<open>+=\<close>, \<open>-=\<close> and \<open><<=\<close> over the flags of the other set.\<close>

fun pf_each :: "property_flags \<Rightarrow> bool \<Rightarrow> int list \<Rightarrow> property_flags \<Rightarrow> property_flags option" where
  "pf_each other v [] p = Some p"
| "pf_each other v (flag # flags) p =
     do { has \<leftarrow> PropertyFlags_getHasProperty flag other;
          p' \<leftarrow> (if has then PropertyFlags_setHasProperty flag v p else Some p);
          pf_each other v flags p' }"

(* @src libraries/shared/src/PropertyFlags.h 317-324 PropertyFlags::operator+= *)
definition PropertyFlags_add_assign :: "property_flags \<Rightarrow> property_flags \<Rightarrow> property_flags option" where
  "PropertyFlags_add_assign other p =
     pf_each other True [PropertyFlags_firstFlag other..PropertyFlags_lastFlag other] p"

(* @src libraries/shared/src/PropertyFlags.h 331-338 PropertyFlags::operator-= *)
definition PropertyFlags_sub_assign :: "property_flags \<Rightarrow> property_flags \<Rightarrow> property_flags option" where
  "PropertyFlags_sub_assign other p =
     pf_each other False [PropertyFlags_firstFlag other..PropertyFlags_lastFlag other] p"

(* @src libraries/shared/src/PropertyFlags.h 345-352 PropertyFlags::operator<<= *)
definition PropertyFlags_shl_assign :: "property_flags \<Rightarrow> property_flags \<Rightarrow> property_flags option" where
  "PropertyFlags_shl_assign other p =
     pf_each other True [PropertyFlags_firstFlag other..PropertyFlags_lastFlag other] p"

(* @src libraries/shared/src/PropertyFlags.h 326-329 PropertyFlags::operator+=(Enum) *)
definition PropertyFlags_add_assign_flag :: "int \<Rightarrow> property_flags \<Rightarrow> property_flags option" where
  "PropertyFlags_add_assign_flag flag p = PropertyFlags_setHasProperty flag True p"

(* @src libraries/shared/src/PropertyFlags.h 340-343 PropertyFlags::operator-=(Enum) *)
definition PropertyFlags_sub_assign_flag :: "int \<Rightarrow> property_flags \<Rightarrow> property_flags option" where
  "PropertyFlags_sub_assign_flag flag p = PropertyFlags_setHasProperty flag False p"

(* @src libraries/shared/src/PropertyFlags.h 354-357 PropertyFlags::operator<<=(Enum) *)
definition PropertyFlags_shl_assign_flag :: "int \<Rightarrow> property_flags \<Rightarrow> property_flags option" where
  "PropertyFlags_shl_assign_flag flag p = PropertyFlags_setHasProperty flag True p"

text \<open>The binary operators copy the left operand and assign to the copy.\<close>

(* @src libraries/shared/src/PropertyFlags.h 359-363 PropertyFlags::operator| *)
definition PropertyFlags_or :: "property_flags \<Rightarrow> property_flags \<Rightarrow> property_flags" where
  "PropertyFlags_or p other = PropertyFlags_or_assign other (PropertyFlags_copy p)"

(* @src libraries/shared/src/PropertyFlags.h 365-370 PropertyFlags::operator|(Enum) *)
definition PropertyFlags_or_flag :: "property_flags \<Rightarrow> int \<Rightarrow> property_flags option" where
  "PropertyFlags_or_flag p flag =
     do { other \<leftarrow> PropertyFlags_of_flag flag; Some (PropertyFlags_or_assign other (PropertyFlags_copy p)) }"

(* @src libraries/shared/src/PropertyFlags.h 372-376 PropertyFlags::operator& *)
definition PropertyFlags_and :: "property_flags \<Rightarrow> property_flags \<Rightarrow> property_flags option" where
  "PropertyFlags_and p other = PropertyFlags_and_assign other (PropertyFlags_copy p)"

(* @src libraries/shared/src/PropertyFlags.h 378-383 PropertyFlags::operator&(Enum) *)
definition PropertyFlags_and_flag :: "property_flags \<Rightarrow> int \<Rightarrow> property_flags option" where
  "PropertyFlags_and_flag p flag =
     do { other \<leftarrow> PropertyFlags_of_flag flag; PropertyFlags_and_assign other (PropertyFlags_copy p) }"

(* @src libraries/shared/src/PropertyFlags.h 385-389 PropertyFlags::operator^ *)
definition PropertyFlags_xor :: "property_flags \<Rightarrow> property_flags \<Rightarrow> property_flags option" where
  "PropertyFlags_xor p other = PropertyFlags_xor_assign other (PropertyFlags_copy p)"

(* @src libraries/shared/src/PropertyFlags.h 391-396 PropertyFlags::operator^(Enum) *)
definition PropertyFlags_xor_flag :: "property_flags \<Rightarrow> int \<Rightarrow> property_flags option" where
  "PropertyFlags_xor_flag p flag =
     do { other \<leftarrow> PropertyFlags_of_flag flag; PropertyFlags_xor_assign other (PropertyFlags_copy p) }"

(* @src libraries/shared/src/PropertyFlags.h 398-402 PropertyFlags::operator+ *)
definition PropertyFlags_add :: "property_flags \<Rightarrow> property_flags \<Rightarrow> property_flags option" where
  "PropertyFlags_add p other = PropertyFlags_add_assign other (PropertyFlags_copy p)"

(* @src libraries/shared/src/PropertyFlags.h 404-408 PropertyFlags::operator+(Enum) *)
definition PropertyFlags_add_flag :: "property_flags \<Rightarrow> int \<Rightarrow> property_flags option" where
  "PropertyFlags_add_flag p flag = PropertyFlags_setHasProperty flag True (PropertyFlags_copy p)"

(* @src libraries/shared/src/PropertyFlags.h 410-414 PropertyFlags::operator- *)
definition PropertyFlags_sub :: "property_flags \<Rightarrow> property_flags \<Rightarrow> property_flags option" where
  "PropertyFlags_sub p other = PropertyFlags_sub_assign other (PropertyFlags_copy p)"

(* @src libraries/shared/src/PropertyFlags.h 416-420 PropertyFlags::operator-(Enum) *)
definition PropertyFlags_sub_flag :: "property_flags \<Rightarrow> int \<Rightarrow> property_flags option" where
  "PropertyFlags_sub_flag p flag = PropertyFlags_setHasProperty flag False (PropertyFlags_copy p)"

(* @src libraries/shared/src/PropertyFlags.h 422-426 PropertyFlags::operator<< *)
definition PropertyFlags_shl :: "property_flags \<Rightarrow> property_flags \<Rightarrow> property_flags option" where
  "PropertyFlags_shl p other = PropertyFlags_shl_assign other (PropertyFlags_copy p)"

(* @src libraries/shared/src/PropertyFlags.h 428-432 PropertyFlags::operator<<(Enum) *)
definition PropertyFlags_shl_flag :: "property_flags \<Rightarrow> int \<Rightarrow> property_flags option" where
  "PropertyFlags_shl_flag p flag = PropertyFlags_setHasProperty flag True (PropertyFlags_copy p)"

(* @src libraries/shared/src/PropertyFlags.h 434-439 PropertyFlags::operator~ *)
definition PropertyFlags_complement :: "property_flags \<Rightarrow> property_flags" where
  "PropertyFlags_complement p =
     (PropertyFlags_copy p)\<lparr>pf_flags := map Not (pf_flags p), pf_trailingFlipped := \<not> pf_trailingFlipped p\<rparr>"

section \<open>The set a value stands for\<close>

definition bit_set :: "bool list \<Rightarrow> int set" where
  "bit_set bits = {i. QBitArray_testBit bits i = Some True}"

definition pf_set :: "property_flags \<Rightarrow> int set" where
  "pf_set p = bit_set (pf_flags p)"

text \<open>
  No bit lies outside the bounds, the upper bound is a set flag (or there is none), and the trailing
  flags are not flipped. The array may be longer than the bound asks for and the lower bound may lag behind.
\<close>

definition pf_inv :: "property_flags \<Rightarrow> bool" where
  "pf_inv p \<longleftrightarrow> \<not> pf_trailingFlipped p \<and> 0 \<le> pf_minFlag p \<and> (\<forall>i \<in> pf_set p. pf_minFlag p \<le> i \<and> i \<le> pf_maxFlag p)
     \<and> (pf_maxFlag p \<in> pf_set p \<or> pf_maxFlag p = -1 \<or> pf_maxFlag p = INT_MIN)"

lemma bit_set_range: "i \<in> bit_set bits \<Longrightarrow> 0 \<le> i \<and> i < int (length bits)"
  by (auto simp: bit_set_def QBitArray_testBit_def split: if_splits)

lemma bit_set_nat: "int i \<in> bit_set bits \<longleftrightarrow> i < length bits \<and> bits ! i"
  by (auto simp: bit_set_def QBitArray_testBit_def)

lemma testBit_set: "0 \<le> i \<Longrightarrow> i < int (length bits) \<Longrightarrow> QBitArray_testBit bits i = Some (i \<in> bit_set bits)"
  by (simp add: bit_set_def QBitArray_testBit_def)

lemma bit_set_Nil [simp]: "bit_set [] = {}"
  by (auto simp add: bit_set_def QBitArray_testBit_def)

lemma bit_set_eqI: "(\<And>n. int n \<in> A \<longleftrightarrow> int n \<in> B) \<Longrightarrow> \<forall>i \<in> A \<union> B. 0 \<le> i \<Longrightarrow> A = B"
  by (metis UnCI nonneg_int_cases subsetI subset_antisym)

lemma bit_set_resize: "bit_set (QBitArray_resize n bits) = {i \<in> bit_set bits. i < int n}"
  by (rule bit_set_eqI)
    (auto simp: bit_set_nat QBitArray_resize_def nth_append bit_set_range dest: bit_set_range)

lemma length_resize [simp]: "length (QBitArray_resize n bits) = n"
  by (simp add: QBitArray_resize_def)

lemma setBit_set:
  assumes "0 \<le> i" "i < int (length bits)"
  shows "\<exists>bits'. QBitArray_setBit bits i v = Some bits' \<and> length bits' = length bits
    \<and> bit_set bits' = (if v then insert i (bit_set bits) else bit_set bits - {i})"
proof -
  obtain n where n: "i = int n" "n < length bits" using assms by (metis nonneg_int_cases of_nat_less_iff)
  have "bit_set (bits[n := v]) = (if v then insert i (bit_set bits) else bit_set bits - {i})"
    by (rule bit_set_eqI) (auto simp: bit_set_nat nth_list_update n dest: bit_set_range)
  then show ?thesis using n by (simp add: QBitArray_setBit_def)
qed

lemma length_QBitArray_op [simp]: "length (QBitArray_op f xs ys) = max (length xs) (length ys)"
  by (simp add: QBitArray_op_def Let_def)

lemma bit_set_op:
  assumes "\<not> f False False"
  shows "bit_set (QBitArray_op f xs ys) = {i. f (i \<in> bit_set xs) (i \<in> bit_set ys)}"
proof (rule bit_set_eqI)
  fix n
  have r: "(n < m \<and> QBitArray_resize m zs ! n) = (n < m \<and> int n \<in> bit_set zs)" for m zs
    by (auto simp: QBitArray_resize_def nth_append bit_set_nat)
  show "(int n \<in> bit_set (QBitArray_op f xs ys)) = (int n \<in> {i. f (i \<in> bit_set xs) (i \<in> bit_set ys)})"
  proof (cases "n < max (length xs) (length ys)")
    case True
    then have "QBitArray_resize (max (length xs) (length ys)) zs ! n = (int n \<in> bit_set zs)" for zs
      using r by blast
    then have "QBitArray_op f xs ys ! n = f (int n \<in> bit_set xs) (int n \<in> bit_set ys)"
      using True by (simp add: QBitArray_op_def Let_def)
    then show ?thesis using True by (simp add: bit_set_nat [of n "QBitArray_op f xs ys"])
  next
    case False
    then have "\<not> n < length xs" "\<not> n < length ys" by simp_all
    then show ?thesis using assms by (simp add: bit_set_nat less_max_iff_disj)
  qed
next
  show "\<forall>i \<in> bit_set (QBitArray_op f xs ys) \<union> {i. f (i \<in> bit_set xs) (i \<in> bit_set ys)}. 0 \<le> i"
    using assms by (auto dest: bit_set_range) (metis bit_set_range)
qed

section \<open>The operators compute on sets\<close>

lemma pf_shrink_spec:
  assumes "n \<le> length flags"
  shows "\<exists>m \<le> n. pf_shrink flags n = Some m \<and> (0 < m \<longrightarrow> int m - 1 \<in> bit_set flags)
    \<and> (\<forall>i \<in> bit_set flags. i < int n \<longrightarrow> i < int m)"
  using assms
proof (induction n)
  case 0
  then show ?case by simp
next
  case (Suc n)
  then show ?case
  proof (cases "int n \<in> bit_set flags")
    case True
    then have "QBitArray_testBit flags (int n) = Some True" by (simp add: bit_set_def)
    then show ?thesis using True by (intro exI [of _ "Suc n"]) simp
  next
    case False
    then have t: "QBitArray_testBit flags (int n) = Some False" using Suc.prems by (simp add: testBit_set)
    obtain m where m: "m \<le> n" "pf_shrink flags n = Some m" "0 < m \<longrightarrow> int m - 1 \<in> bit_set flags"
        "\<forall>i \<in> bit_set flags. i < int n \<longrightarrow> i < int m"
      using Suc by auto
    have "i < int m" if "i \<in> bit_set flags" "i < int (Suc n)" for i
      using m(4) that False by (cases "i = int n") auto
    then show ?thesis using m t by (intro exI [of _ m]) simp
  qed
qed

text \<open>Shrinking re-establishes the invariant and keeps the flags up to the bound.\<close>

lemma shrink_laws:
  assumes "\<not> pf_trailingFlipped p" "0 \<le> pf_minFlag p" "\<forall>i \<in> pf_set p. pf_minFlag p \<le> i"
    and "pf_maxFlag p < int (length (pf_flags p))" "pf_maxFlag p \<ge> -1 \<or> pf_maxFlag p = INT_MIN"
    and "\<forall>i \<in> pf_set p. i \<le> pf_maxFlag p"
  shows "\<exists>p'. PropertyFlags_shrinkIfNeeded p = Some p' \<and> pf_inv p' \<and> pf_set p' = pf_set p"
proof (cases "0 \<le> pf_maxFlag p")
  case True
  have "nat (pf_maxFlag p + 1) \<le> length (pf_flags p)" using True assms(4) by linarith
  then obtain m where m: "m \<le> nat (pf_maxFlag p + 1)" "pf_shrink (pf_flags p) (nat (pf_maxFlag p + 1)) = Some m"
      "0 < m \<longrightarrow> int m - 1 \<in> bit_set (pf_flags p)"
      "\<forall>i \<in> bit_set (pf_flags p). i < int (nat (pf_maxFlag p + 1)) \<longrightarrow> i < int m"
    using pf_shrink_spec [of "nat (pf_maxFlag p + 1)" "pf_flags p"] by blast
  have b: "\<forall>i \<in> pf_set p. i < int m" using m(4) assms(6) True by (auto simp: pf_set_def)
  obtain p' where p': "p' = (if pf_maxFlag p \<noteq> int m - 1
      then p\<lparr>pf_maxFlag := int m - 1, pf_flags := QBitArray_resize (nat (int m - 1 + 1)) (pf_flags p)\<rparr> else p)" by blast
  have s: "PropertyFlags_shrinkIfNeeded p = Some p'"
    using True m(2) by (simp add: PropertyFlags_shrinkIfNeeded_def p')
  have set: "pf_set p' = pf_set p" using b by (auto simp: p' pf_set_def bit_set_resize)
  have "pf_maxFlag p' = int m - 1" "pf_minFlag p' = pf_minFlag p" "pf_trailingFlipped p' = pf_trailingFlipped p"
    by (simp_all add: p')
  moreover have "int m - 1 \<in> pf_set p \<or> int m - 1 = -1" using m(3) by (cases m) (auto simp: pf_set_def)
  ultimately have "pf_inv p'"
    using b assms(1-3) unfolding pf_inv_def set by auto
  then show ?thesis using s set by blast
next
  case False
  then have e: "pf_set p = {}" using assms(6) bit_set_range [of _ "pf_flags p"] unfolding pf_set_def by fastforce
  have "PropertyFlags_shrinkIfNeeded p = Some p" using False by (simp add: PropertyFlags_shrinkIfNeeded_def)
  moreover have "pf_inv p" using assms(1,2,5) False e by (auto simp: pf_inv_def)
  ultimately show ?thesis by blast
qed

lemma pf_inv_max_length: "pf_inv p \<Longrightarrow> pf_maxFlag p < int (length (pf_flags p))"
  by (auto simp: pf_inv_def pf_set_def INT_MIN_def dest: bit_set_range)

lemma setHasProperty_laws:
  assumes "pf_inv p" "0 \<le> flag"
  shows "\<exists>p'. PropertyFlags_setHasProperty flag v p = Some p' \<and> pf_inv p'
    \<and> pf_set p' = (if v then insert flag (pf_set p) else pf_set p - {flag})"
proof -
  note inv = assms(1) [unfolded pf_inv_def] and len = pf_inv_max_length [OF assms(1)]
  obtain p1 where p1: "p1 = (if flag < pf_minFlag p \<and> v then p\<lparr>pf_minFlag := flag\<rparr> else p)" by blast
  show ?thesis
  proof (cases v)
    case True
    obtain p2 where p2: "p2 = (if flag > pf_maxFlag p1
        then p1\<lparr>pf_maxFlag := flag, pf_flags := QBitArray_resize (nat (flag + 1)) (pf_flags p1)\<rparr> else p1)" by blast
    have f: "flag < int (length (pf_flags p2))" using len assms(2) by (simp add: p2 p1)
    have s: "bit_set (pf_flags p2) = pf_set p"
      using inv by (auto simp: p2 p1 pf_set_def bit_set_resize)
    obtain fl where fl: "QBitArray_setBit (pf_flags p2) flag True = Some fl" "bit_set fl = insert flag (pf_set p)"
      using setBit_set [OF assms(2) f, of True] s by auto
    have "PropertyFlags_setHasProperty flag v p = do { flags \<leftarrow> QBitArray_setBit (pf_flags p2) flag v;
        if flag = pf_maxFlag p2 \<and> \<not> v then PropertyFlags_shrinkIfNeeded (p2\<lparr>pf_flags := flags\<rparr>)
        else Some (p2\<lparr>pf_flags := flags\<rparr>) }"
      unfolding PropertyFlags_setHasProperty_def Let_def p2 p1 using True by simp
    then have "PropertyFlags_setHasProperty flag v p = Some (p2\<lparr>pf_flags := fl\<rparr>)"
      using True fl(1) by simp
    moreover have "pf_inv (p2\<lparr>pf_flags := fl\<rparr>)"
      using inv assms(2) fl(2) True by (auto simp: pf_inv_def pf_set_def p2 p1 INT_MIN_def)
    ultimately show ?thesis using True fl(2) by (simp add: pf_set_def)
  next
    case False
    show ?thesis
    proof (cases "flag > pf_maxFlag p")
      case True
      then have "flag \<notin> pf_set p" using inv by auto
      then show ?thesis
        using True False assms(1) by (simp add: PropertyFlags_setHasProperty_def)
    next
      case in_range: False
      obtain fl where fl: "QBitArray_setBit (pf_flags p) flag False = Some fl" "length fl = length (pf_flags p)"
          "bit_set fl = pf_set p - {flag}"
        using setBit_set [OF assms(2), of "pf_flags p" False] in_range len by (auto simp: pf_set_def)
      have e: "PropertyFlags_setHasProperty flag v p = (if flag = pf_maxFlag p
          then PropertyFlags_shrinkIfNeeded (p\<lparr>pf_flags := fl\<rparr>) else Some (p\<lparr>pf_flags := fl\<rparr>))"
        using False in_range fl(1) by (simp add: PropertyFlags_setHasProperty_def Let_def)
      show ?thesis
      proof (cases "flag = pf_maxFlag p")
        case True
        obtain p' where "PropertyFlags_shrinkIfNeeded (p\<lparr>pf_flags := fl\<rparr>) = Some p'" "pf_inv p'"
            "pf_set p' = pf_set (p\<lparr>pf_flags := fl\<rparr>)"
          using shrink_laws [of "p\<lparr>pf_flags := fl\<rparr>"] inv len fl(2,3) True assms(2) by (auto simp: pf_set_def)
        then show ?thesis using e True False fl(3) by (simp add: pf_set_def)
      next
        case inner: False
        have "pf_inv (p\<lparr>pf_flags := fl\<rparr>)" using inv fl(3) inner by (auto simp: pf_inv_def pf_set_def)
        then show ?thesis using e inner False fl(3) by (simp add: pf_set_def)
      qed
    qed
  qed
qed

lemma getHasProperty_set:
  assumes "pf_inv p" "0 \<le> flag"
  shows "PropertyFlags_getHasProperty flag p = Some (flag \<in> pf_set p)"
proof (cases "flag > pf_maxFlag p")
  case True
  then show ?thesis using assms by (auto simp: PropertyFlags_getHasProperty_def pf_inv_def)
next
  case False
  then show ?thesis
    using testBit_set [OF assms(2), of "pf_flags p"] pf_inv_max_length [OF assms(1)]
    by (simp add: PropertyFlags_getHasProperty_def pf_set_def)
qed

lemma pf_new_laws: "pf_inv PropertyFlags_new \<and> pf_set PropertyFlags_new = {}"
  by (simp add: pf_inv_def pf_set_def PropertyFlags_new_def INT_MAX_def)

lemma pf_copy_laws [simp]: "pf_inv (PropertyFlags_copy p) = pf_inv p" "pf_set (PropertyFlags_copy p) = pf_set p"
  by (simp_all add: PropertyFlags_copy_def pf_inv_def pf_set_def)

lemma of_flag_laws:
  assumes "0 \<le> flag"
  shows "\<exists>p. PropertyFlags_of_flag flag = Some p \<and> pf_inv p \<and> pf_set p = {flag}"
  using setHasProperty_laws [of PropertyFlags_new flag True] pf_new_laws assms by (auto simp: PropertyFlags_of_flag_def)

lemma or_assign_laws:
  assumes "pf_inv p" "pf_inv q"
  shows "pf_inv (PropertyFlags_or_assign q p) \<and> pf_set (PropertyFlags_or_assign q p) = pf_set p \<union> pf_set q"
proof -
  have s: "pf_set (PropertyFlags_or_assign q p) = pf_set p \<union> pf_set q"
    using bit_set_op [of "(\<or>)"] by (auto simp: PropertyFlags_or_assign_def pf_set_def)
  have "pf_inv (PropertyFlags_or_assign q p)"
    using assms unfolding pf_inv_def s by (auto simp: PropertyFlags_or_assign_def max_def min_def INT_MIN_def)
  then show ?thesis using s by blast
qed

lemma and_assign_laws:
  assumes "pf_inv p" "pf_inv q"
  shows "\<exists>p'. PropertyFlags_and_assign q p = Some p' \<and> pf_inv p' \<and> pf_set p' = pf_set p \<inter> pf_set q"
proof -
  let ?r = "p\<lparr>pf_flags := QBitArray_op (\<and>) (pf_flags p) (pf_flags q)\<rparr>"
  have s: "pf_set ?r = pf_set p \<inter> pf_set q" using bit_set_op [of "(\<and>)"] by (auto simp: pf_set_def)
  have "\<exists>p'. PropertyFlags_shrinkIfNeeded ?r = Some p' \<and> pf_inv p' \<and> pf_set p' = pf_set ?r"
    using assms(1) pf_inv_max_length [OF assms(1)] s
    by (intro shrink_laws) (auto simp: pf_inv_def pf_set_def dest: bit_set_range)
  then show ?thesis using s by (simp add: PropertyFlags_and_assign_def)
qed

lemma pf_each_laws:
  assumes "pf_inv q"
  shows "pf_inv p \<Longrightarrow> \<forall>i \<in> set flags. 0 \<le> i \<Longrightarrow> \<exists>p'. pf_each q v flags p = Some p' \<and> pf_inv p'
    \<and> pf_set p' = (if v then pf_set p \<union> (pf_set q \<inter> set flags) else pf_set p - (pf_set q \<inter> set flags))"
proof (induction flags arbitrary: p)
  case Nil
  then show ?case by simp
next
  case (Cons flag flags)
  have g: "PropertyFlags_getHasProperty flag q = Some (flag \<in> pf_set q)"
    using getHasProperty_set [OF assms] Cons.prems(2) by simp
  obtain p1 where p1: "(if flag \<in> pf_set q then PropertyFlags_setHasProperty flag v p else Some p) = Some p1" "pf_inv p1"
      "pf_set p1 = (if v then pf_set p \<union> (pf_set q \<inter> {flag}) else pf_set p - (pf_set q \<inter> {flag}))"
    using setHasProperty_laws [OF Cons.prems(1), of flag v] Cons.prems by (cases "flag \<in> pf_set q") auto
  obtain p' where p': "pf_each q v flags p1 = Some p'" "pf_inv p'"
      "pf_set p' = (if v then pf_set p1 \<union> (pf_set q \<inter> set flags) else pf_set p1 - (pf_set q \<inter> set flags))"
    using Cons.IH [OF p1(2)] Cons.prems(2) by auto
  have "pf_each q v (flag # flags) p = Some p'"
    using p1(1) p'(1) by (simp add: g)
  then show ?case using p'(2,3) p1(3) by (auto split: if_splits)
qed

lemma pf_each_all:
  assumes "pf_inv p" "pf_inv q"
  shows "\<exists>p'. pf_each q v [PropertyFlags_firstFlag q..PropertyFlags_lastFlag q] p = Some p' \<and> pf_inv p'
    \<and> pf_set p' = (if v then pf_set p \<union> pf_set q else pf_set p - pf_set q)"
proof -
  have a: "pf_set q \<inter> set [PropertyFlags_firstFlag q..PropertyFlags_lastFlag q] = pf_set q"
    and b: "\<forall>i \<in> set [PropertyFlags_firstFlag q..PropertyFlags_lastFlag q]. 0 \<le> i"
    using assms(2) by (auto simp: pf_inv_def PropertyFlags_firstFlag_def PropertyFlags_lastFlag_def)
  from pf_each_laws [OF assms(2,1) b, of v] show ?thesis unfolding a .
qed

text \<open>\<open>^=\<close> sees no flag of the other operand above the left operand's bound.\<close>

lemma shrink_get:
  assumes "\<not> pf_trailingFlipped p" "pf_maxFlag p < int (length (pf_flags p))" "0 \<le> flag"
  shows "\<exists>p'. PropertyFlags_shrinkIfNeeded p = Some p'
    \<and> PropertyFlags_getHasProperty flag p' = Some (flag \<le> pf_maxFlag p \<and> flag \<in> pf_set p)"
proof (cases "0 \<le> pf_maxFlag p")
  case True
  have "nat (pf_maxFlag p + 1) \<le> length (pf_flags p)" using True assms(2) by linarith
  then obtain m where m: "m \<le> nat (pf_maxFlag p + 1)" "pf_shrink (pf_flags p) (nat (pf_maxFlag p + 1)) = Some m"
      "\<forall>i \<in> bit_set (pf_flags p). i < int (nat (pf_maxFlag p + 1)) \<longrightarrow> i < int m"
    using pf_shrink_spec [of "nat (pf_maxFlag p + 1)" "pf_flags p"] by blast
  obtain p' where p': "p' = (if pf_maxFlag p \<noteq> int m - 1
      then p\<lparr>pf_maxFlag := int m - 1, pf_flags := QBitArray_resize (nat (int m - 1 + 1)) (pf_flags p)\<rparr> else p)" by blast
  have f: "pf_maxFlag p' = int m - 1" "pf_trailingFlipped p' = False" "int m \<le> int (length (pf_flags p'))"
      "int m \<le> pf_maxFlag p + 1" "bit_set (pf_flags p') \<inter> {..<int m} = pf_set p \<inter> {..<int m}"
    using assms(1,2) m(1) True by (auto simp: p' bit_set_resize pf_set_def)
  have "PropertyFlags_getHasProperty flag p' = Some (flag < int m \<and> flag \<in> bit_set (pf_flags p'))"
    using f(1-3) assms(3) testBit_set [of flag "pf_flags p'"] by (auto simp: PropertyFlags_getHasProperty_def)
  moreover have "flag < int m \<and> flag \<in> bit_set (pf_flags p') \<longleftrightarrow> flag \<le> pf_maxFlag p \<and> flag \<in> pf_set p"
    using m(3) f(4,5) True by (auto simp: pf_set_def)
  moreover have "PropertyFlags_shrinkIfNeeded p = Some p'"
    using True m(2) by (simp add: PropertyFlags_shrinkIfNeeded_def p')
  ultimately show ?thesis by simp
next
  case False
  then show ?thesis
    using assms by (auto simp: PropertyFlags_shrinkIfNeeded_def PropertyFlags_getHasProperty_def)
qed

lemma xor_assign_laws:
  assumes "pf_inv p" "0 \<le> flag"
  shows "\<exists>p'. PropertyFlags_xor_assign q p = Some p' \<and> PropertyFlags_getHasProperty flag p'
    = Some (flag \<le> pf_maxFlag p \<and> (flag \<in> pf_set p) \<noteq> (flag \<in> pf_set q))"
proof -
  let ?r = "p\<lparr>pf_flags := QBitArray_op (\<noteq>) (pf_flags p) (pf_flags q)\<rparr>"
  have s: "flag \<in> pf_set ?r \<longleftrightarrow> (flag \<in> pf_set p) \<noteq> (flag \<in> pf_set q)"
    using bit_set_op [of "(\<noteq>)"] by (simp add: pf_set_def)
  have "\<not> pf_trailingFlipped ?r" "pf_maxFlag ?r < int (length (pf_flags ?r))"
    using assms(1) pf_inv_max_length [OF assms(1)] by (auto simp: pf_inv_def)
  from shrink_get [OF this assms(2)] show ?thesis
    unfolding PropertyFlags_xor_assign_def s by simp
qed

text \<open>
  C37. The operators of property flags are those of sets: setting, testing, union, intersection, and adding or
  removing all flags of another value act on the set of flags as their names say, keep the invariant, and
  never touch a bit outside the array; exclusive or does so up to the highest flag of its left operand.
\<close>

theorem PropertyFlags_operators_are_set_operations:
  assumes "pf_inv p" "pf_inv q" "0 \<le> flag"
  shows "PropertyFlags_getHasProperty flag p = Some (flag \<in> pf_set p)
    \<and> (\<exists>r. PropertyFlags_setHasProperty flag v p = Some r \<and> pf_inv r
        \<and> pf_set r = (if v then insert flag (pf_set p) else pf_set p - {flag}))
    \<and> pf_inv (PropertyFlags_or p q) \<and> pf_set (PropertyFlags_or p q) = pf_set p \<union> pf_set q
    \<and> (\<exists>r. PropertyFlags_and p q = Some r \<and> pf_inv r \<and> pf_set r = pf_set p \<inter> pf_set q)
    \<and> (\<exists>r. PropertyFlags_add p q = Some r \<and> pf_inv r \<and> pf_set r = pf_set p \<union> pf_set q)
    \<and> (\<exists>r. PropertyFlags_sub p q = Some r \<and> pf_inv r \<and> pf_set r = pf_set p - pf_set q)
    \<and> (\<exists>r. PropertyFlags_xor p q = Some r \<and> PropertyFlags_getHasProperty flag r
        = Some (flag \<le> PropertyFlags_lastFlag p \<and> (flag \<in> pf_set p) \<noteq> (flag \<in> pf_set q)))"
proof -
  have c: "pf_inv (PropertyFlags_copy p)" using assms(1) by simp
  have m: "pf_maxFlag (PropertyFlags_copy p) = PropertyFlags_lastFlag p"
    by (simp add: PropertyFlags_copy_def PropertyFlags_lastFlag_def)
  show ?thesis
    using getHasProperty_set [OF assms(1,3)] setHasProperty_laws [OF assms(1,3), of v] or_assign_laws [OF c assms(2)]
      and_assign_laws [OF c assms(2)] pf_each_all [OF c assms(2), of True] pf_each_all [OF c assms(2), of False]
      xor_assign_laws [OF c assms(3), of q]
    unfolding m PropertyFlags_or_def PropertyFlags_and_def PropertyFlags_add_def PropertyFlags_sub_def PropertyFlags_xor_def
      PropertyFlags_add_assign_def PropertyFlags_sub_assign_def
    by simp
qed

theorem PropertyFlags_operators_are_set_operations_witness:
  "\<exists>p q r. PropertyFlags_of_flag 3 = Some p \<and> PropertyFlags_of_flag 9 = Some q
    \<and> PropertyFlags_add p q = Some r \<and> pf_set r = {3, 9}"
proof -
  obtain p q where p: "PropertyFlags_of_flag 3 = Some p" "pf_inv p" "pf_set p = {3}"
    and q: "PropertyFlags_of_flag 9 = Some q" "pf_inv q" "pf_set q = {9}"
    using of_flag_laws [of 3] of_flag_laws [of 9] by auto
  then show ?thesis
    using PropertyFlags_operators_are_set_operations [OF p(2) q(2), of 0 True] by auto
qed

section \<open>The encoding\<close>

definition strip_false :: "bool list \<Rightarrow> bool list" where
  "strip_false xs = rev (dropWhile Not (rev xs))"

text \<open>What the scan has built after the value bits \<open>xs\<close>.\<close>

definition pf_stands :: "bool list \<Rightarrow> property_flags" where
  "pf_stands xs = (if True \<in> set xs
     then PropertyFlags_new\<lparr>pf_flags := strip_false xs, pf_maxFlag := int (length (strip_false xs)) - 1,
            pf_minFlag := min INT_MAX (int (length (takeWhile Not xs)))\<rparr>
     else PropertyFlags_new)"

lemma strip_false_snoc [simp]: "strip_false (xs @ [b]) = (if b then xs @ [b] else strip_false xs)"
  by (simp add: strip_false_def)

lemma strip_false_pad: "\<exists>k. xs = strip_false xs @ replicate k False"
proof (induction xs rule: rev_induct)
  case Nil
  then show ?case by (simp add: strip_false_def)
next
  case (snoc b xs)
  then obtain k where k: "xs = strip_false xs @ replicate k False" by blast
  show ?case
  proof (cases b)
    case False
    then have "xs @ [b] = strip_false (xs @ [b]) @ replicate (Suc k) False"
      using k by (simp add: replicate_append_same [symmetric] flip: append_assoc)
    then show ?thesis by blast
  qed simp
qed

lemma resize_strip_false: "QBitArray_resize (Suc (length xs)) (strip_false xs) = xs @ [False]"
proof -
  obtain k where k: "xs = strip_false xs @ replicate k False" using strip_false_pad by blast
  then have l: "length xs = length (strip_false xs) + k" by (metis length_append length_replicate)
  have "xs @ [False] = strip_false xs @ replicate (Suc k) False"
    by (subst k) (simp add: replicate_append_same [symmetric])
  then show ?thesis by (simp add: QBitArray_resize_def l Suc_diff_le)
qed

lemma takeWhile_no_True: "True \<notin> set xs \<Longrightarrow> takeWhile Not xs = xs"
  by (induction xs) auto

lemma bit_set_pad: "bit_set (xs @ replicate k False) = bit_set xs"
  by (rule bit_set_eqI) (auto simp: bit_set_nat nth_append dest: bit_set_range)

lemma bit_set_strip: "bit_set (strip_false xs) = bit_set xs"
  using strip_false_pad [of xs] bit_set_pad by metis

lemma length_strip_false: "length (strip_false xs) \<le> length xs"
  by (metis length_dropWhile_le length_rev strip_false_def)

lemma pf_act_stands: "pf_act n (n + int (length xs)) b (pf_stands xs) = Some (pf_stands (xs @ [b]))"
proof (cases b)
  case False
  then show ?thesis by (auto simp: pf_act_def pf_stands_def)
next
  case True
  let ?p = "pf_stands xs" and ?n = "int (length xs)"
  have max: "?n > pf_maxFlag ?p"
    using length_strip_false [of xs] by (auto simp: pf_stands_def PropertyFlags_new_def INT_MIN_def)
  have min: "(if ?n < pf_minFlag ?p \<and> True then ?p\<lparr>pf_minFlag := ?n\<rparr> else ?p)
      = ?p\<lparr>pf_minFlag := min INT_MAX (int (length (takeWhile Not (xs @ [True]))))\<rparr>"
  proof (cases "True \<in> set xs")
    case True
    then have "takeWhile Not (xs @ [True]) = takeWhile Not xs" by (simp add: takeWhile_append1)
    moreover have "int (length (takeWhile Not xs)) \<le> ?n" by (simp add: length_takeWhile_le)
    ultimately show ?thesis using True by (simp add: pf_stands_def PropertyFlags_new_def)
  next
    case False
    then have "takeWhile Not (xs @ [True]) = xs"
      by (subst takeWhile_append2) auto
    then show ?thesis using False by (simp add: pf_stands_def PropertyFlags_new_def min_def)
  qed
  have flags: "pf_flags ?p = (if True \<in> set xs then strip_false xs else [])"
    by (simp add: pf_stands_def PropertyFlags_new_def)
  have "True \<notin> set xs \<Longrightarrow> strip_false xs = []" by (auto simp: strip_false_def)
  then have resize: "QBitArray_resize (Suc (length xs)) (pf_flags ?p) = xs @ [False]"
    using resize_strip_false [of xs] flags by auto
  have "PropertyFlags_setHasProperty ?n True ?p
      = do { flags \<leftarrow> QBitArray_setBit (QBitArray_resize (nat (?n + 1)) (pf_flags ?p)) ?n True;
             Some (?p\<lparr>pf_minFlag := min INT_MAX (int (length (takeWhile Not (xs @ [True])))), pf_maxFlag := ?n,
               pf_flags := flags\<rparr>) }"
    unfolding PropertyFlags_setHasProperty_def Let_def min using max by simp
  also have "\<dots> = Some (pf_stands (xs @ [True]))"
    by (simp add: resize QBitArray_setBit_def nat_add_distrib) (simp add: pf_stands_def PropertyFlags_new_def)
  finally have "PropertyFlags_setHasProperty ?n True ?p = Some (pf_stands (xs @ [True]))" .
  then show ?thesis using True by (simp add: pf_act_def)
qed

interpretation pf: bit_action pf_act pf_stands
  by unfold_locales (rule pf_act_stands)

lemma pf_stands_laws: "pf_inv (pf_stands xs) \<and> pf_set (pf_stands xs) = bit_set xs"
proof (cases "True \<in> set xs")
  case True
  have s: "pf_set (pf_stands xs) = bit_set xs" using True by (simp add: pf_stands_def pf_set_def bit_set_strip)
  have first: "int (length (takeWhile Not xs)) \<le> i" if i: "i \<in> bit_set xs" for i
  proof (rule ccontr)
    assume "\<not> ?thesis"
    then obtain n where "i = int n" "n < length (takeWhile Not xs)" using bit_set_range [OF i]
      by (metis linorder_not_le nonneg_int_cases of_nat_less_iff)
    then show False using i by (metis bit_set_nat nth_mem set_takeWhileD takeWhile_nth)
  qed
  have ne: "strip_false xs \<noteq> []" using True by (auto simp: strip_false_def)
  have "last (strip_false xs)" using hd_dropWhile [of Not "rev xs"] ne by (auto simp: strip_false_def last_rev)
  then have "int (length (strip_false xs)) - 1 \<in> bit_set (strip_false xs)"
    using ne bit_set_nat [of "length (strip_false xs) - 1" "strip_false xs"]
    by (simp add: last_conv_nth of_nat_diff Suc_leI)
  then have "pf_maxFlag (pf_stands xs) \<in> bit_set xs" using True by (simp add: pf_stands_def bit_set_strip)
  moreover have "i < int (length (strip_false xs))" if "i \<in> bit_set xs" for i
    using bit_set_range [of i "strip_false xs"] that bit_set_strip by blast
  ultimately have "pf_inv (pf_stands xs)"
    using True first unfolding pf_inv_def s by (fastforce simp: pf_stands_def PropertyFlags_new_def INT_MAX_def)
  then show ?thesis using s by blast
next
  case False
  then have "bit_set xs = {}"
    by (auto simp: bit_set_def QBitArray_testBit_def split: if_splits) (metis nat_less_iff nth_mem)
  then show ?thesis using False pf_new_laws by (simp add: pf_stands_def)
qed

lemma clear_new: "PropertyFlags_clear p = pf_stands []"
  by (simp add: PropertyFlags_clear_def pf_stands_def PropertyFlags_new_def)

lemma encode_flags_laws:
  assumes "pf_inv p"
  shows "\<exists>bytes p'. PropertyFlags_encode p = Some (bytes, p') \<and> pf_inv p' \<and> pf_set p' = pf_set p
    \<and> length bytes = (if pf_set p = {} then 1 else nat (PropertyFlags_lastFlag p) div 7 + 1)
    \<and> (\<forall>rest q. \<exists>q'. PropertyFlags_decode (bytes @ rest) q = Some (length bytes, q') \<and> pf_inv q' \<and> pf_set q' = pf_set p
      \<and> pf_encodedLength q' = int (length bytes))"
proof -
  note inv = assms [unfolded pf_inv_def] and len = pf_inv_max_length [OF assms]
  obtain n bits p' where e: "PropertyFlags_encode p = Some (encode_bits n bits, p')"
      "0 < n" "length bits \<le> 7 * n" "bit_set bits = pf_set p"
      "n = (if pf_set p = {} then 1 else nat (PropertyFlags_lastFlag p) div 7 + 1)" "pf_inv p' \<and> pf_set p' = pf_set p"
  proof (cases "pf_maxFlag p < pf_minFlag p")
    case True
    then have "pf_set p = {}" using inv by force
    moreover have "encode_bits 1 [] = [0]" by (simp add: encode_bits_def lead_bits_def put_bit_def)
    ultimately show ?thesis using that [of 1 "[]" p] True assms by (simp add: PropertyFlags_encode_def)
  next
    case False
    then have mx: "pf_maxFlag p \<in> pf_set p" "0 \<le> pf_maxFlag p" using inv by (auto simp: INT_MIN_def)
    obtain m where m: "pf_maxFlag p = int m" using mx(2) nonneg_int_cases by blast
    have l: "Suc m \<le> length (pf_flags p)" using len m by simp
    have c: "nat (cdiv (int m) (8 - 1) + 1) = m div 7 + 1"
      by (simp add: cdiv_nonneg nat_add_distrib flip: zdiv_int)
    have "n \<le> m" if "n < length (pf_flags p)" "pf_flags p ! n" for n
      using inv that m bit_set_nat [of n "pf_flags p"] by (auto simp: pf_set_def)
    then have bs: "bit_set (take (Suc m) (pf_flags p)) = pf_set p"
      by (intro bit_set_eqI) (auto simp: bit_set_nat pf_set_def less_Suc_eq_le dest: bit_set_range)
    have enc: "PropertyFlags_encode p = Some (encode_bits (m div 7 + 1) (take (Suc m) (pf_flags p)),
        p\<lparr>pf_encodedLength := int (m div 7 + 1)\<rparr>)"
      using False l c by (simp add: PropertyFlags_encode_def m nat_add_distrib Let_def)
    have "Suc m \<le> 7 * (m div 7 + 1)"
      using mult_div_mod_eq [of 7 m] mod_less_divisor [of 7 m] by simp
    moreover have "m div 7 + 1 = (if pf_set p = {} then 1 else nat (PropertyFlags_lastFlag p) div 7 + 1)"
      using mx by (auto simp: m PropertyFlags_lastFlag_def)
    ultimately show ?thesis using that [OF enc] bs l assms by (simp add: pf_inv_def pf_set_def)
  qed
  let ?vs = "bits @ replicate (7 * n - length bits) False"
  have d: "PropertyFlags_decode (encode_bits n bits @ rest) q = Some (n, pf_stands ?vs\<lparr>pf_encodedLength := int n\<rparr>)" for rest q
  proof -
    obtain s where "decode_bytes pf_act (8 * int (length (encode_bits n bits @ rest))) (encode_bits n bits @ rest)
        (decoder_start (PropertyFlags_clear q)) = Some (n, s)" "bd_data s = pf_stands ?vs"
      using pf.decode_encode_bits [OF e(2,3), of rest] unfolding clear_new [of q] by fastforce
    then show ?thesis by (simp add: PropertyFlags_decode_def)
  qed
  have upd: "pf_inv (r\<lparr>pf_encodedLength := k\<rparr>) = pf_inv r" "pf_set (r\<lparr>pf_encodedLength := k\<rparr>) = pf_set r" for r k
    by (simp_all add: pf_inv_def pf_set_def)
  have "length (encode_bits n bits) = n" using encode_bits_spec(2) [of n bits] e(2,3) by simp
  then show ?thesis
    using e(1,4,5,6) d pf_stands_laws [of ?vs] by (auto simp: upd bit_set_pad)
qed

text \<open>
  C38. Property flags survive their encoding: what \<open>encode\<close> writes is read back by \<open>decode\<close>, whatever
  follows it in the buffer, into a value with the same flags, and the reader consumes exactly the bytes
  written, one for every seven flags up to the highest.
\<close>

theorem PropertyFlags_roundtrip:
  assumes "pf_inv p"
  shows "\<exists>bytes p' q'. PropertyFlags_encode p = Some (bytes, p')
    \<and> PropertyFlags_decode (bytes @ rest) q = Some (length bytes, q') \<and> pf_inv q' \<and> pf_set q' = pf_set p
    \<and> length bytes = (if pf_set p = {} then 1 else nat (PropertyFlags_lastFlag p) div 7 + 1)"
  using encode_flags_laws [OF assms] by blast

theorem PropertyFlags_roundtrip_witness:
  "\<exists>p bytes p' q'. PropertyFlags_of_flag 9 = Some p \<and> PropertyFlags_encode p = Some (bytes, p')
    \<and> PropertyFlags_decode (bytes @ [0xFF]) PropertyFlags_new = Some (2, q') \<and> pf_set q' = {9}"
proof -
  obtain p where p: "PropertyFlags_of_flag 9 = Some p" "pf_inv p" "pf_set p = {9}"
    using of_flag_laws [of 9] by auto
  have "9 \<le> pf_maxFlag p \<and> (pf_maxFlag p = 9 \<or> pf_maxFlag p = -1 \<or> pf_maxFlag p = INT_MIN)"
    using p(2) unfolding pf_inv_def p(3) by blast
  then have l: "PropertyFlags_lastFlag p = 9" by (auto simp: PropertyFlags_lastFlag_def INT_MIN_def)
  obtain bytes p' q' where r: "PropertyFlags_encode p = Some (bytes, p')"
    "PropertyFlags_decode (bytes @ [0xFF]) PropertyFlags_new = Some (length bytes, q')" "pf_set q' = {9}" "length bytes = 2"
    using PropertyFlags_roundtrip [OF p(2), of "[0xFF]" PropertyFlags_new] unfolding l p(3) by auto
  show ?thesis
    using p(1) r(1,3) r(2) [unfolded r(4)] by blast
qed

section \<open>Truncated buffers\<close>

text \<open>
  A truncated encoding makes the reader leave the bit array: when the lead bits announce more bytes than
  the buffer holds, only the inner loop is left, the next byte is scanned as values at a position before the
  first flag, and a set first bit of it sets the flag \<open>-1\<close>.
\<close>

theorem PropertyFlags_truncated_sets_flag_minus_one:
  assumes "0 < n" "n \<le> 8" "Suc (length bytes) < n" "take n (byte_bits b) = lead_bits n"
    and "bytes = c # bytes'" "bit c 7"
  shows "PropertyFlags_decode (b # bytes) p = None"
proof -
  let ?bc = "8 * int (length (b # bytes))" and ?p = "PropertyFlags_clear p"
  have lead: "decode_bits pf_act ?bc (replicate k True @ bits) (decoder_start ?p\<lparr>bd_encodedByteCount := j, bd_leadBits := j, bd_bitAt := i\<rparr>)
      = decode_bits pf_act ?bc bits (decoder_start ?p\<lparr>bd_encodedByteCount := j + int k, bd_leadBits := j + int k, bd_bitAt := i + int k\<rparr>)"
    for k i j bits
    by (induction k arbitrary: i j) (simp_all add: decoder_start_def algebra_simps)
  have "byte_bits b = replicate (n - 1) True @ False # drop n (byte_bits b)"
    using append_take_drop_id [of n "byte_bits b"] assms(1,4) by (simp add: lead_bits_eq)
  then have "decode_bits pf_act ?bc (byte_bits b) (decoder_start ?p)
      = decode_bits pf_act ?bc (False # drop n (byte_bits b))
          (decoder_start ?p\<lparr>bd_encodedByteCount := int n, bd_leadBits := int n, bd_bitAt := int n - 1\<rparr>)"
    using lead [where k = "n - 1" and bits = "False # drop n (byte_bits b)" and j = 1 and i = 0] assms(1)
    by (simp add: of_nat_diff decoder_start_def)
  also have "\<dots> = Some (decoder_start ?p\<lparr>bd_encodedByteCount := int n, bd_leadBits := int n, bd_bitAt := int n - 1,
      bd_inLeadBits := False, bd_lastValueBit := 8 * int n - 1\<rparr>)"
    using assms(1,3) by (simp add: decoder_start_def Let_def)
  finally obtain s where first: "decode_bits pf_act ?bc (byte_bits b) (decoder_start ?p) = Some s"
    and s: "\<not> bd_inLeadBits s" "bd_bitAt s = int n - 1" "bd_leadBits s = int n" "bd_lastValueBit s = 8 * int n - 1" "bd_data s = ?p"
    by (simp add: decoder_start_def)
  have "PropertyFlags_setHasProperty (-1) True ?p = None"
    by (simp add: PropertyFlags_setHasProperty_def PropertyFlags_clear_def QBitArray_setBit_def INT_MIN_def INT_MAX_def)
  moreover have "byte_bits c = True # map (\<lambda>i. bit c (7 - i)) [1..<8]"
    using assms(6) by (simp add: byte_bits_def upt_conv_Cons)
  ultimately have "decode_bits pf_act ?bc (byte_bits c) s = None"
    using assms(1) s by (simp add: pf_act_def)
  moreover obtain bc where bc: "?bc = bc" by blast
  ultimately have "decode_bytes pf_act bc (b # c # bytes') (decoder_start ?p) = None"
    using s assms(1) first unfolding bc by simp
  then have "decode_bytes pf_act ?bc (b # bytes) (decoder_start ?p) = None"
    by (simp only: assms(5) flip: bc)
  then show ?thesis by (simp only: PropertyFlags_decode_def option.map)
qed

theorem PropertyFlags_truncated_sets_flag_minus_one_witness:
  "PropertyFlags_decode [0xC0, 0x80] PropertyFlags_new = None"
proof (rule PropertyFlags_truncated_sets_flag_minus_one [where n = 3])
  show "take 3 (byte_bits 0xC0) = lead_bits 3"
    by (simp add: byte_bits_def lead_bits_def upt_conv_Cons numeral_eq_Suc)
  show "bit (0x80 :: byte) 7" by simp
qed simp_all

end
