(* ===== verification/Float_Round.thy ===== *)
theory Float_Round
  imports Complex_Main
begin

text \<open>
  The rounding of the C++ \<open>float\<close>: a result is the nearest number of 24 bits with an exponent of at least -149, ties to the
  even one, as IEEE 754 binary32 has it; overflow is not modelled, no number here reaches 2. A float is a real, and
  every operation of the code on floats rounds its result by \<open>fl\<close>. The lemmas say that numbers of the unit interval
  that are multiples of 2 to the power -24 are not changed by rounding.
\<close>

definition round_even :: "real \<Rightarrow> int" where
  "round_even y =
     (let f = \<lfloor>y\<rfloor>; d = y - of_int f
      in if d < 1 / 2 then f else if 1 / 2 < d then f + 1 else if even f then f else f + 1)"

definition fl :: "real \<Rightarrow> real" where
  "fl x =
     (if x = 0 then 0
      else let e = max \<lfloor>log 2 \<bar>x\<bar>\<rfloor> (- 126) - 23 in of_int (round_even (x / 2 powi e)) * 2 powi e)"

lemma round_even_int [simp]: "round_even (of_int k) = k"
  by (simp add: round_even_def Let_def)

lemma fl_zero [simp]: "fl 0 = 0"
  by (simp add: fl_def)

lemma fl_exact:
  assumes "\<bar>k\<bar> < 2 ^ 24" "n \<le> 149"
  shows "fl (of_int k / 2 ^ n) = of_int k / 2 ^ n"
proof (cases "k = 0")
  case False
  obtain x :: real where x: "of_int k / 2 ^ n = x" by blast
  have x0: "x \<noteq> 0" "\<bar>x\<bar> > 0" using False x by auto
  obtain l where l: "\<lfloor>log 2 \<bar>x\<bar>\<rfloor> = l" by blast
  have "\<bar>x\<bar> < 2 powr (24 - real n)"
  proof -
    have "\<bar>of_int k :: real\<bar> < 2 ^ 24" using assms(1) by (metis of_int_abs of_int_less_iff of_int_numeral of_int_power)
    then have "\<bar>x\<bar> < 2 ^ 24 / 2 ^ n" by (simp add: x [symmetric] divide_strict_right_mono)
    then show ?thesis by (simp add: powr_diff powr_realpow)
  qed
  then have "log 2 \<bar>x\<bar> < 24 - real n" using x0(2) by (simp add: log_less_iff)
  then have "l \<le> 23 - int n" using l by linarith
  then have e: "0 \<le> - int n - (max l (- 126) - 23)" using assms(2) by simp
  obtain e m where em: "max l (- 126) - 23 = e" "nat (- int n - e) = m" by blast
  have "int m = - int n - e" using e em by simp
  then have "(2 :: real) powi e = 2 powi (- int n) * 2 powi (- int m)" by (simp flip: power_int_add)
  then have p: "(2 :: real) powi e = 1 / 2 ^ n / 2 ^ m" by (simp add: power_int_minus divide_inverse)
  have q: "x / 2 powi e = of_int (k * 2 ^ m)" unfolding p by (simp add: x [symmetric])
  have "fl x = of_int (round_even (x / 2 powi e)) * 2 powi e" using x0(1) by (simp add: fl_def Let_def l em(1))
  also have "\<dots> = of_int (k * 2 ^ m) * 2 powi e" unfolding q round_even_int ..
  also have "\<dots> = x" unfolding q [symmetric] by simp
  finally show ?thesis unfolding x .
qed simp

text \<open>The multiples of 2 to the power -24.\<close>

definition on_grid :: "real \<Rightarrow> bool" where
  "on_grid x \<longleftrightarrow> (\<exists>k :: int. x = of_int k / 2 ^ 24)"

lemma fl_grid: "on_grid x \<Longrightarrow> \<bar>x\<bar> < 1 \<Longrightarrow> fl x = x"
proof -
  assume "on_grid x" "\<bar>x\<bar> < 1"
  then obtain k :: int where k: "x = of_int k / 2 ^ 24" "\<bar>of_int k / 2 ^ 24 :: real\<bar> < 1" by (auto simp: on_grid_def)
  then have "real_of_int \<bar>k\<bar> < of_int (2 ^ 24)" by simp
  then have "\<bar>k\<bar> < 2 ^ 24" by (rule of_int_less_iff [THEN iffD1])
  then show ?thesis unfolding k(1) by (rule fl_exact) simp
qed

lemma on_grid_0 [simp]: "on_grid 0"
  by (auto simp: on_grid_def intro: exI [of _ 0])

lemma on_grid_add: "on_grid x \<Longrightarrow> on_grid y \<Longrightarrow> on_grid (x + y)"
  by (auto simp: on_grid_def simp flip: add_divide_distrib of_int_add)

lemma on_grid_diff: "on_grid x \<Longrightarrow> on_grid y \<Longrightarrow> on_grid (x - y)"
  by (auto simp: on_grid_def simp flip: diff_divide_distrib of_int_diff)

lemma on_grid_power: "n \<le> 24 \<Longrightarrow> on_grid ((1 / 2) ^ n)"
proof -
  assume n: "n \<le> 24"
  then obtain m where "24 = n + m" using nat_le_iff_add by blast
  then have "(2 :: real) ^ 24 = 2 ^ n * 2 ^ m" by (simp only: power_add)
  moreover have "(1 / 2 :: real) ^ n = 2 ^ m / (2 ^ n * 2 ^ m)" by (simp add: power_divide)
  ultimately have "(1 / 2 :: real) ^ n = of_int (2 ^ m) / 2 ^ 24" by (simp only: of_int_power of_int_numeral)
  then show ?thesis unfolding on_grid_def by blast
qed

lemma fl_power: "n \<le> 24 \<Longrightarrow> 0 < n \<Longrightarrow> fl ((1 / 2) ^ n) = (1 / 2) ^ n"
  by (rule fl_grid [OF on_grid_power]) (simp_all add: power_less_one_iff)

text \<open>Below the grid rounding shows: the sum of one half and 2 to the power -25 is one half again.\<close>

lemma fl_rounds: "fl (1 / 2 + 1 / 2 ^ 25) = 1 / 2"
proof -
  obtain x :: real where x: "1 / 2 + 1 / 2 ^ 25 = x" by blast
  have "\<lfloor>log 2 \<bar>x\<bar>\<rfloor> = - 1"
  proof -
    have "2 powr (- 1) \<le> \<bar>x\<bar>" "\<bar>x\<bar> < 2 powr 0" unfolding x [symmetric] by (simp_all add: powr_minus)
    then show ?thesis using x [symmetric] by (intro floor_unique) (simp_all add: le_log_iff log_less_iff)
  qed
  then have "fl x = of_int (round_even (x / 2 powi (- 24))) * 2 powi (- 24)" using x by (auto simp: fl_def Let_def)
  moreover have y: "x / 2 powi (- 24) = 8388608 + 1 / 2" by (simp add: x [symmetric] power_int_minus)
  moreover have "round_even (8388608 + 1 / 2) = 8388608"
  proof -
    have "\<lfloor>8388608 + 1 / 2 :: real\<rfloor> = 8388608" by (intro floor_unique) simp_all
    then show ?thesis by (simp add: round_even_def Let_def)
  qed
  ultimately have "fl x = of_int 8388608 * 2 powi (- 24)" by (simp only:)
  then show ?thesis unfolding x by (simp add: power_int_minus)
qed

end
