(* ===== verification/Octal_Code.thy ===== *)
theory Octal_Code
  imports Bit_Coding Float_Round "HOL-Library.List_Lexorder"
begin

text \<open>
  Octal codes (\<open>libraries/shared/src/OctalCode.cpp\<close>): the address of an octree element, a length byte
  followed by one group of three bits for every step from the root. The functions work on byte buffers
  with the code's shifts; the lemmas relate them to the path itself, a list of child indices, for the codes
  whose length fits the length byte. A float is a real, and every operation on floats rounds by \<open>fl\<close>; up to a depth of 24 the
  positions of elements are numbers that rounding does not change.
\<close>

section \<open>Reading codes\<close>

definition OVERFLOWED_OCTCODE_BUFFER :: int where
  "OVERFLOWED_OCTCODE_BUFFER = -1"

definition UNKNOWN_OCTCODE_LENGTH :: int where
  "UNKNOWN_OCTCODE_LENGTH = -2"

definition CHECK_NODE_ONLY :: int where
  "CHECK_NODE_ONLY = -1"

(* @src libraries/shared/src/OctalCode.cpp 30-42 numberOfThreeBitSectionsInCode *)
fun numberOfThreeBitSectionsInCode :: "byte list \<Rightarrow> int \<Rightarrow> int option" where
  "numberOfThreeBitSectionsInCode octalCode maxBytes =
     (if maxBytes = OVERFLOWED_OCTCODE_BUFFER then Some OVERFLOWED_OCTCODE_BUFFER
      else case octalCode of
        [] \<Rightarrow> None
      | b # bs \<Rightarrow>
          if b = 255
          then (let newMaxBytes = (if maxBytes = UNKNOWN_OCTCODE_LENGTH then UNKNOWN_OCTCODE_LENGTH else maxBytes - 1)
                in map_option (\<lambda>n. uint b + n) (numberOfThreeBitSectionsInCode bs newMaxBytes))
          else Some (uint b))"

declare numberOfThreeBitSectionsInCode.simps [simp del]

text \<open>\<open>startByte\<close> is the rest of the code from that byte on; a read past its end is \<open>None\<close>.\<close>

(* @src libraries/shared/src/OctalCode.cpp 57-65 sectionValue *)
definition sectionValue :: "byte list \<Rightarrow> int \<Rightarrow> int option" where
  "sectionValue startByte startIndexInByte =
     (let rightShift = 8 - startIndexInByte - 3 in
      case startByte of
        [] \<Rightarrow> None
      | b0 # rest \<Rightarrow>
          if rightShift < 0 then
            (case rest of [] \<Rightarrow> None
             | b1 # _ \<Rightarrow> Some ((push_bit (nat (- rightShift)) (uint b0) AND 7) + drop_bit (nat (8 + rightShift)) (uint b1)))
          else Some (drop_bit (nat rightShift) (uint b0) AND 7))"

(* @src libraries/shared/src/OctalCode.cpp 67-73 bytesRequiredForCodeLength *)
definition bytesRequiredForCodeLength :: "byte \<Rightarrow> nat" where
  "bytesRequiredForCodeLength threeBitCodes =
     (if threeBitCodes = 0 then 1 else 1 + nat \<lceil>real (unat threeBitCodes * 3) / 8\<rceil>)"

(* @src libraries/shared/src/OctalCode.cpp 213-219 getOctalCodeSectionValue *)
definition getOctalCodeSectionValue :: "byte list \<Rightarrow> int \<Rightarrow> int option" where
  "getOctalCodeSectionValue octalCode section =
     sectionValue (drop (nat (1 + cdiv (3 * section) 8)) octalCode) (crem (3 * section) 8)"

(* @src libraries/shared/src/OctalCode.cpp 75-83 branchIndexWithDescendant *)
definition branchIndexWithDescendant :: "byte list \<Rightarrow> byte list \<Rightarrow> int option" where
  "branchIndexWithDescendant ancestorOctalCode descendantOctalCode =
     do { parentSections \<leftarrow> numberOfThreeBitSectionsInCode ancestorOctalCode UNKNOWN_OCTCODE_LENGTH;
          let branchStartBit = parentSections * 3;
          sectionValue (drop (nat (1 + cdiv branchStartBit 8)) descendantOctalCode) (crem branchStartBit 8) }"

section \<open>Building codes\<close>

text \<open>\<open>newCode[i] += v\<close>\<close>

definition add_at :: "byte list \<Rightarrow> int \<Rightarrow> int \<Rightarrow> byte list option" where
  "add_at buf i v = (if 0 \<le> i \<and> i < int (length buf) then Some (buf[nat i := buf ! nat i + word_of_int v]) else None)"

text \<open>\<open>fresh\<close> is what the new buffer holds before it is written.\<close>

(* @src libraries/shared/src/OctalCode.cpp 85-137 childOctalCode *)
definition childOctalCode :: "(nat \<Rightarrow> byte) \<Rightarrow> byte list option \<Rightarrow> int \<Rightarrow> byte list option" where
  "childOctalCode fresh parentOctalCode childNumber =
     do { parentCodeSections \<leftarrow> (case parentOctalCode of
              Some c \<Rightarrow> numberOfThreeBitSectionsInCode c UNKNOWN_OCTCODE_LENGTH | None \<Rightarrow> Some 0);
          let parentCodeBytes = bytesRequiredForCodeLength (word_of_int parentCodeSections);
          let childCodeBytes = bytesRequiredForCodeLength (word_of_int (parentCodeSections + 1));
          let newCode = map fresh [0..<childCodeBytes];
          newCode1 \<leftarrow> (case parentOctalCode of
              Some c \<Rightarrow> do { bytes \<leftarrow> mem_read c 0 parentCodeBytes; mem_write newCode 0 bytes }
            | None \<Rightarrow> Some newCode);
          let newCode2 = newCode1[0 := word_of_int (parentCodeSections + 1)];
          let newCode3 = (if childCodeBytes > parentCodeBytes then newCode2[childCodeBytes - 1 := 0] else newCode2);
          let startBit = parentCodeSections * 3;
          let leftShift = 8 - crem startBit 8 - 3;
          if leftShift < 0 then
            do { newCode4 \<leftarrow> add_at newCode3 (cdiv startBit 8 + 1) (drop_bit (nat (-1 * leftShift)) childNumber);
                 add_at newCode4 (cdiv startBit 8 + 2) (push_bit (nat (8 + leftShift)) childNumber) }
          else add_at newCode3 (cdiv startBit 8 + 1) (push_bit (nat leftShift) childNumber) }"

(* @src libraries/shared/src/OctalCode.cpp 221-258 setOctalCodeSectionValue *)
definition setOctalCodeSectionValue :: "byte list \<Rightarrow> nat \<Rightarrow> byte \<Rightarrow> byte list option" where
  "setOctalCodeSectionValue octalCode section newSection =
     (let byteForSection = 3 * section div 8;
          byteAt = 1 + byteForSection;
          bitInByte = 3 * section mod 8;
          shiftBy = 8 - int bitInByte - 3;
          UNSHIFTED_MASK = (7 :: byte);
          shift = (\<lambda>s v. if s \<ge> 0 then push_bit (nat s) v else drop_bit (nat (- s)) v :: byte)
      in if byteAt < length octalCode then
           (let oldValue = octalCode ! byteAt AND NOT (shift shiftBy UNSHIFTED_MASK);
                newValue = oldValue OR shift shiftBy newSection;
                octalCode1 = octalCode[byteAt := newValue];
                FIRST_PARTIAL_BIT = 6
            in if bitInByte \<ge> FIRST_PARTIAL_BIT then
                 (let bitsInFirstByte = 8 - bitInByte;
                      bitsInSecondByte = 3 - bitsInFirstByte;
                      shiftBy = 8 - bitsInSecondByte;
                      shiftedMask = push_bit shiftBy UNSHIFTED_MASK;
                      shiftedValue = push_bit shiftBy newSection
                  in if Suc byteAt < length octalCode1
                     then Some (octalCode1[Suc byteAt := (octalCode1 ! Suc byteAt AND NOT shiftedMask) OR shiftedValue])
                     else None)
               else Some octalCode1)
         else None)"

section \<open>Comparing codes\<close>

text \<open>The loop of \<open>isAncestorOf\<close> over the sections; its \<open>else\<close> branch is kept as the code has it.\<close>

fun isAncestorOf_loop :: "byte list \<Rightarrow> byte list \<Rightarrow> int \<Rightarrow> int \<Rightarrow> int \<Rightarrow> int list \<Rightarrow> bool option" where
  "isAncestorOf_loop a d ancestorCodeLength descendentCodeLength descendentsChild [] = Some True"
| "isAncestorOf_loop a d ancestorCodeLength descendentCodeLength descendentsChild (section # sections) =
     do { sectionValueAncestor \<leftarrow> getOctalCodeSectionValue a section;
          sectionValueDescendent \<leftarrow> (if ancestorCodeLength \<le> descendentCodeLength
             then getOctalCodeSectionValue d section else Some descendentsChild);
          if sectionValueAncestor \<noteq> sectionValueDescendent then Some False
          else isAncestorOf_loop a d ancestorCodeLength descendentCodeLength descendentsChild sections }"

(* @src libraries/shared/src/OctalCode.cpp 260-298 isAncestorOf *)
definition isAncestorOf :: "byte list option \<Rightarrow> byte list option \<Rightarrow> int \<Rightarrow> bool option" where
  "isAncestorOf possibleAncestor possibleDescendent descendentsChild =
     (case (possibleAncestor, possibleDescendent) of
        (Some a, Some d) \<Rightarrow>
          do { ancestorCodeLength \<leftarrow> numberOfThreeBitSectionsInCode a UNKNOWN_OCTCODE_LENGTH;
               if ancestorCodeLength = 0 then Some True
               else do {
                 length \<leftarrow> numberOfThreeBitSectionsInCode d UNKNOWN_OCTCODE_LENGTH;
                 let descendentCodeLength = (if descendentsChild \<noteq> CHECK_NODE_ONLY then length + 1 else length);
                 if ancestorCodeLength > descendentCodeLength then Some False
                 else isAncestorOf_loop a d ancestorCodeLength descendentCodeLength descendentsChild
                        [0..ancestorCodeLength - 1] } }
      | _ \<Rightarrow> Some False)"

(* @src libraries/shared/src/OctalCode.h 54-59 OctalCodeComparison *)
datatype OctalCodeComparison = ILLEGAL_CODE | LESS_THAN | EXACT_MATCH | GREATER_THAN

text \<open>\<open>memcmp\<close>: the sign of the first difference of two byte lists of one length.\<close>

fun memcmp :: "byte list \<Rightarrow> byte list \<Rightarrow> int" where
  "memcmp (x # xs) (y # ys) = (if x < y then -1 else if y < x then 1 else memcmp xs ys)"
| "memcmp _ _ = 0"

(* @src libraries/shared/src/OctalCode.cpp 177-210 compareOctalCodes *)
definition compareOctalCodes :: "byte list option \<Rightarrow> byte list option \<Rightarrow> OctalCodeComparison option" where
  "compareOctalCodes codeA codeB =
     (case (codeA, codeB) of
        (Some a, Some b) \<Rightarrow>
          do { a0 \<leftarrow> mem_read a 0 1;
               b0 \<leftarrow> mem_read b 0 1;
               let numberOfBytes = min (bytesRequiredForCodeLength (hd a0)) (bytesRequiredForCodeLength (hd b0));
               as \<leftarrow> mem_read a 0 numberOfBytes;
               bs \<leftarrow> mem_read b 0 numberOfBytes;
               let compare = memcmp as bs;
               if compare < 0 then Some LESS_THAN
               else if compare > 0 then Some GREATER_THAN
               else do {
                 codeLengthA \<leftarrow> numberOfThreeBitSectionsInCode a UNKNOWN_OCTCODE_LENGTH;
                 codeLengthB \<leftarrow> numberOfThreeBitSectionsInCode b UNKNOWN_OCTCODE_LENGTH;
                 Some (if codeLengthA = codeLengthB then EXACT_MATCH
                       else if codeLengthA < codeLengthB then LESS_THAN else GREATER_THAN) } }
      | _ \<Rightarrow> Some ILLEGAL_CODE)"

section \<open>Geometry\<close>

(* @src libraries/shared/src/SharedUtil.cpp 234-236 oneAtBit *)
definition oneAtBit :: "byte \<Rightarrow> nat \<Rightarrow> bool" where
  "oneAtBit byte bitIndex \<longleftrightarrow> drop_bit (7 - bitIndex) byte AND 1 \<noteq> 0"

(* @src libraries/shared/src/OctalCode.h 49-51 VoxelPositionSize *)
record voxel_position_size =
  vp_x :: real
  vp_y :: real
  vp_z :: real
  vp_s :: real

text \<open>One round of the loop of \<open>voxelDetailsForCode\<close>: the scale is halved, then each coordinate grows.\<close>

(* @src libraries/shared/src/OctalCode.cpp 146-152 voxelDetailsForCode, loop body *)
definition voxelDetails_step :: "byte list \<Rightarrow> int \<Rightarrow> voxel_position_size \<Rightarrow> voxel_position_size option" where
  "voxelDetails_step octalCode i v =
     (let currentScale = fl (vp_s v * (1 / 2)) in
      do { sectionIndex \<leftarrow> sectionValue (drop (nat (1 + cdiv (3 * i) 8)) octalCode) (crem (3 * i) 8);
           let add = (\<lambda>j output. fl (output + fl (currentScale * of_bool (oneAtBit (word_of_int sectionIndex) (8 - 3 + j)))));
           Some \<lparr>vp_x = add 0 (vp_x v), vp_y = add 1 (vp_y v), vp_z = add 2 (vp_z v), vp_s = currentScale\<rparr> })"

fun voxelDetails_loop :: "byte list \<Rightarrow> int list \<Rightarrow> voxel_position_size \<Rightarrow> voxel_position_size option" where
  "voxelDetails_loop octalCode [] v = Some v"
| "voxelDetails_loop octalCode (i # is) v =
     do { v' \<leftarrow> voxelDetails_step octalCode i v; voxelDetails_loop octalCode is v' }"

(* @src libraries/shared/src/OctalCode.cpp 139-159 voxelDetailsForCode *)
definition voxelDetailsForCode :: "byte list option \<Rightarrow> voxel_position_size option" where
  "voxelDetailsForCode octalCode =
     (let v = \<lparr>vp_x = 0, vp_y = 0, vp_z = 0, vp_s = 1\<rparr> in
      case octalCode of None \<Rightarrow> Some v
      | Some c \<Rightarrow> do { n \<leftarrow> numberOfThreeBitSectionsInCode c UNKNOWN_OCTCODE_LENGTH;
                      voxelDetails_loop c [0..n - 1] v })"

section \<open>Hexadecimal strings\<close>

text \<open>
  \<open>hexByte\<close> stands for \<open>QString("%1").arg(b, 2, 16, QChar('0')).toUpper()\<close> and \<open>toUInt\<close> for \<open>QString::toUInt\<close>
  with base 16.
\<close>

(* @src libraries/shared/src/OctalCode.cpp 333-345 octalCodeToHexString *)
definition octalCodeToHexString :: "(byte \<Rightarrow> string) \<Rightarrow> byte list option \<Rightarrow> string option" where
  "octalCodeToHexString hexByte octalCode =
     (case octalCode of None \<Rightarrow> Some ''00''
      | Some c \<Rightarrow> do { c0 \<leftarrow> mem_read c 0 1;
                      bytes \<leftarrow> mem_read c 0 (bytesRequiredForCodeLength (hd c0));
                      Some (concat (map hexByte bytes)) })"

text \<open>The loop of \<open>hexStringToOctalCode\<close>: the rest of the string, the buffer and \<open>byteArrayIndex\<close>; the result is
  the buffer with \<open>ok\<close>.\<close>

function hexString_loop :: "(string \<Rightarrow> nat option) \<Rightarrow> string \<Rightarrow> byte list \<Rightarrow> nat \<Rightarrow> bool \<Rightarrow> (byte list \<times> bool) option" where
  "hexString_loop toUInt input bytes byteArrayIndex ok =
     (if input = [] then Some (bytes, ok)
      else case toUInt (take 2 input) of
        None \<Rightarrow> Some (bytes, False)
      | Some v \<Rightarrow> do { bytes' \<leftarrow> mem_write bytes byteArrayIndex [word_of_nat v];
                     hexString_loop toUInt (drop 2 input) bytes' (Suc byteArrayIndex) True })"
  by pat_completeness auto
termination
  by (relation "measure (\<lambda>(t, input, bytes, i, ok). length input)") auto

declare hexString_loop.simps [simp del]

(* @src libraries/shared/src/OctalCode.cpp 304-331 hexStringToOctalCode *)
definition hexStringToOctalCode :: "(string \<Rightarrow> nat option) \<Rightarrow> byte list \<Rightarrow> string \<Rightarrow> byte list option option" where
  "hexStringToOctalCode toUInt fresh input =
     do { (bytes, ok) \<leftarrow> hexString_loop toUInt input (take (length input div 2) fresh) 0 False;
          Some (if ok then Some bytes else None) }"

section \<open>Codes and paths\<close>

definition bits3 :: "nat \<Rightarrow> bool list" where
  "bits3 k = [bit k 2, bit k 1, bit k 0]"

definition val3 :: "bool list \<Rightarrow> int" where
  "val3 xs = 4 * of_bool (xs ! 0) + 2 * of_bool (xs ! 1) + of_bool (xs ! 2)"

definition oc_bits :: "nat list \<Rightarrow> bool list" where
  "oc_bits path = concat (map bits3 path)"

definition oc_bytes :: "nat \<Rightarrow> nat" where
  "oc_bytes n = (3 * n + 7) div 8"

text \<open>The code of a path of child indices.\<close>

definition oc_body :: "nat list \<Rightarrow> byte list" where
  "oc_body path = put_bits (replicate (oc_bytes (length path)) 0) 0 (oc_bits path)"

definition oc_code :: "nat list \<Rightarrow> byte list" where
  "oc_code path = word_of_nat (length path) # oc_body path"

definition oc_ok :: "nat list \<Rightarrow> bool" where
  "oc_ok path \<longleftrightarrow> length path < 255 \<and> (\<forall>k \<in> set path. k < 8)"

lemma byte_bits_list:
  "byte_bits b = [bit b 7, bit b 6, bit b 5, bit b 4, bit b 3, bit b 2, bit b 1, bit b 0]"
  by (simp add: byte_bits_def upt_conv_Cons)

lemma and_7: "(x :: int) AND 7 = of_bool (bit x 0) + 2 * of_bool (bit x 1) + 4 * of_bool (bit x 2)"
proof -
  have "x AND 7 = take_bit 3 x" by (simp add: take_bit_eq_mask mask_eq_exp_minus_1)
  also have "\<dots> = horner_sum of_bool 2 (map (bit x) [0..<3])" by (simp add: horner_sum_bit_eq_take_bit)
  finally show ?thesis by (simp add: upt_conv_Cons numeral_3_eq_3 numeral_2_eq_2)
qed

lemma drop_bit_byte_small: "5 < k \<Longrightarrow> k \<le> 8 \<Longrightarrow> drop_bit k (uint (b :: byte)) = drop_bit k (uint b) AND 7"
proof -
  assume "5 < k" "k \<le> 8"
  then consider "k = 6" | "k = 7" | "k = 8" by linarith
  moreover have "uint b < 256" using uint_lt2p [of b] by simp
  then have "uint b div 64 < 8" "uint b div 128 < 8" "uint b div 256 < 8" by presburger+
  moreover have "x AND 7 = x mod 8" for x :: int
    using take_bit_eq_mask [of 3 x] take_bit_eq_mod [of 3 x] by (simp add: mask_eq_exp_minus_1)
  ultimately show ?thesis by cases (simp_all add: drop_bit_eq_div pos_imp_zdiv_nonneg_iff)
qed

lemma sectionValue_bits:
  assumes "i < 8" "i + 3 \<le> 8 * length bs"
  shows "sectionValue bs (int i) = Some (val3 (take 3 (drop i (buffer_bits bs))))"
proof -
  obtain b0 rest where b0: "bs = b0 # rest" using assms(2) by (cases bs) auto
  have i: "i = 0 \<or> i = 1 \<or> i = 2 \<or> i = 3 \<or> i = 4 \<or> i = 5 \<or> i = 6 \<or> i = 7" using assms(1) by auto
  show ?thesis
  proof (cases rest)
    case Nil
    then show ?thesis
      using i assms(2) b0
      by (auto simp: sectionValue_def val3_def byte_bits_list and_7 bit_simps numeral_eq_Suc)
  next
    case (Cons b1 rest')
    have "\<not> bit b1 8" "\<not> bit b1 9" by (auto dest: bit_imp_le_length)
    with Cons show ?thesis
      using i b0 drop_bit_byte_small [of 6 b1] drop_bit_byte_small [of 7 b1]
      by (auto simp: sectionValue_def val3_def byte_bits_list and_7 bit_simps numeral_eq_Suc)
  qed
qed

lemma length_oc_bits [simp]: "length (oc_bits path) = 3 * length path"
  by (induction path) (simp_all add: oc_bits_def bits3_def)

lemma oc_bits_simps [simp]: "oc_bits [] = []" "oc_bits (k # path) = bits3 k @ oc_bits path"
    "oc_bits (path @ qath) = oc_bits path @ oc_bits qath"
  by (simp_all add: oc_bits_def)

lemma length_bits3 [simp]: "length (bits3 k) = 3"
  by (simp add: bits3_def)

lemma oc_bytes_fits: "3 * n \<le> 8 * oc_bytes n"
  using mult_div_mod_eq [of 8 "3 * n + 7"] mod_less_divisor [of 8 "3 * n + 7"] unfolding oc_bytes_def by linarith

lemma oc_body_bits: "buffer_bits (oc_body path) = oc_bits path @ replicate (8 * oc_bytes (length path) - 3 * length path) False"
  and length_oc_body [simp]: "length (oc_body path) = oc_bytes (length path)"
  using put_bits_spec [of 0 "oc_bits path" "replicate (oc_bytes (length path)) 0"] oc_bytes_fits [of "length path"]
  by (simp_all add: oc_body_def buffer_bits_replicate_0)

lemma val3_bits3: "k < 8 \<Longrightarrow> val3 (bits3 k) = int k"
proof -
  assume "k < 8"
  then have "int k = int (take_bit 3 k)" by (simp add: take_bit_nat_eq_self)
  also have "take_bit 3 k = horner_sum of_bool 2 (map (bit k) [0..<3])" by (simp add: horner_sum_bit_eq_take_bit)
  finally show ?thesis by (simp add: val3_def bits3_def upt_conv_Cons numeral_3_eq_3 numeral_2_eq_2)
qed

lemma take3_oc_bits: "i < length path \<Longrightarrow> take 3 (drop (3 * i) (oc_bits path @ rest)) = bits3 (path ! i)"
proof (induction path arbitrary: i)
  case (Cons k path)
  show ?case
  proof (cases i)
    case (Suc j)
    then have "drop (3 * i) (oc_bits (k # path) @ rest) = drop (3 * j) (oc_bits path @ rest)"
      by simp
    then show ?thesis using Cons Suc by simp
  qed simp
qed simp

lemma oc_length: "oc_ok path \<Longrightarrow> numberOfThreeBitSectionsInCode (oc_code path) UNKNOWN_OCTCODE_LENGTH = Some (int (length path))"
proof -
  assume ok: "oc_ok path"
  then have "uint (word_of_nat (length path) :: byte) = int (length path)"
    by (simp add: oc_ok_def uint_word_of_int_eq take_bit_int_eq_self unsigned_of_nat take_bit_nat_eq_self)
  moreover have "word_of_nat (length path) \<noteq> (255 :: byte)"
  proof
    assume "word_of_nat (length path) = (255 :: byte)"
    with calculation have "int (length path) = uint (255 :: byte)" by simp
    then show False using ok by (simp add: oc_ok_def)
  qed
  ultimately show ?thesis
    by (simp add: numberOfThreeBitSectionsInCode.simps oc_code_def UNKNOWN_OCTCODE_LENGTH_def OVERFLOWED_OCTCODE_BUFFER_def)
qed

lemma oc_sectionValue:
  assumes "oc_ok path" "i < length path"
  shows "sectionValue (drop (Suc (3 * i div 8)) (oc_code path)) (int (3 * i mod 8)) = Some (int (path ! i))"
proof -
  let ?d = "drop (3 * i div 8) (oc_body path)"
  have fits: "3 * i + 3 \<le> 8 * length (oc_body path)"
    using oc_bytes_fits [of "length path"] assms(2) by simp
  have bits: "buffer_bits ?d = drop (8 * (3 * i div 8)) (buffer_bits (oc_body path))" for n
    by (rule nth_equalityI) (simp_all add: nth_buffer_bits algebra_simps)
  obtain q r where qr: "3 * i div 8 = q" "3 * i mod 8 = r" by blast
  have "3 * i = 8 * q + r" using mult_div_mod_eq [of 8 "3 * i"] unfolding qr by simp
  then have "r + 3 \<le> 8 * (length (oc_body path) - q)" using fits by linarith
  then have "3 * i mod 8 + 3 \<le> 8 * length ?d" by (simp only: qr length_drop)
  from sectionValue_bits [OF _ this]
  have "sectionValue ?d (int (3 * i mod 8)) = Some (val3 (take 3 (drop (3 * i mod 8) (buffer_bits ?d))))"
    by simp
  also have "drop (3 * i mod 8) (buffer_bits ?d) = drop (3 * i) (buffer_bits (oc_body path))"
    unfolding bits drop_drop by simp
  also have "take 3 (drop (3 * i) (buffer_bits (oc_body path))) = bits3 (path ! i)"
    unfolding oc_body_bits using assms(2) by (rule take3_oc_bits)
  also have "val3 (bits3 (path ! i)) = int (path ! i)"
    using assms by (intro val3_bits3) (simp add: oc_ok_def)
  finally show ?thesis by (simp add: oc_code_def)
qed

lemma section_index: "nat (1 + cdiv (3 * int i) 8) = Suc (3 * i div 8)" "crem (3 * int i) 8 = int (3 * i mod 8)"
proof -
  have "cdiv (3 * int i) 8 = int (3 * i div 8)" "crem (3 * int i) 8 = int (3 * i mod 8)"
    by (simp_all add: cdiv_nonneg crem_nonneg zdiv_int zmod_int)
  then show "nat (1 + cdiv (3 * int i) 8) = Suc (3 * i div 8)" "crem (3 * int i) 8 = int (3 * i mod 8)"
    by simp_all
qed

lemma oc_section: "oc_ok path \<Longrightarrow> i < length path \<Longrightarrow> getOctalCodeSectionValue (oc_code path) (int i) = Some (int (path ! i))"
  using oc_sectionValue by (simp add: getOctalCodeSectionValue_def section_index)

text \<open>
  The branch to follow: from an ancestor towards a descendant it is the descendant's step at the depth of
  the ancestor.
\<close>

theorem branchIndexWithDescendant_next_step:
  assumes "oc_ok a" "oc_ok d" "length a < length d"
  shows "branchIndexWithDescendant (oc_code a) (oc_code d) = Some (int (d ! length a))"
  using oc_sectionValue [OF assms(2,3)] section_index [of "length a"]
  by (simp add: branchIndexWithDescendant_def oc_length [OF assms(1)] mult.commute)

theorem branchIndexWithDescendant_next_step_witness:
  "branchIndexWithDescendant (oc_code [3, 1]) (oc_code [3, 1, 6, 2]) = Some 6"
  using branchIndexWithDescendant_next_step [of "[3, 1]" "[3, 1, 6, 2]"] by (simp add: oc_ok_def)

lemma isAncestorOf_loop_spec:
  assumes "oc_ok a" "oc_ok d" "length a \<le> length d" "length a = n + m"
  shows "isAncestorOf_loop (oc_code a) (oc_code d) (int (length a)) (int (length d)) child (map int [n..<length a])
    = Some (drop n a = take m (drop n d))"
  using assms
proof (induction m arbitrary: n)
  case (Suc m)
  have n: "n < length a" "n < length d" using Suc.prems by auto
  have u: "map int [n..<length a] = int n # map int [Suc n..<length a]" using n by (simp add: upt_conv_Cons)
  have "drop n a = a ! n # drop (Suc n) a" "take (Suc m) (drop n d) = d ! n # take m (drop (Suc n) d)"
    using n by (simp_all add: Cons_nth_drop_Suc flip: take_Suc_Cons)
  then show ?case
    using Suc.IH [of "Suc n"] Suc.prems n oc_section [of a n] oc_section [of d n] unfolding u by auto
qed simp

lemma upto_int: "[0..int n - 1] = map int [0..<n]"
  by (induction n) (simp_all add: upto_rec2)

text \<open>
  The ancestor test decides whether the one path is a prefix of the other, for every pair of codes; with
  a child given it is asked of a descendant one step longer but never looks at that child.
\<close>

theorem isAncestorOf_prefix:
  assumes "oc_ok a" "oc_ok d"
  shows "isAncestorOf (Some (oc_code a)) (Some (oc_code d)) CHECK_NODE_ONLY = Some (take (length a) d = a)"
proof (cases "length a = 0")
  case True
  then show ?thesis using assms by (simp add: isAncestorOf_def oc_length)
next
  case False
  show ?thesis
  proof (cases "length a \<le> length d")
    case True
    have "isAncestorOf (Some (oc_code a)) (Some (oc_code d)) CHECK_NODE_ONLY
        = isAncestorOf_loop (oc_code a) (oc_code d) (int (length a)) (int (length d)) CHECK_NODE_ONLY (map int [0..<length a])"
      using assms True False by (simp add: isAncestorOf_def oc_length upto_int)
    also have "\<dots> = Some (drop 0 a = take (length a) (drop 0 d))"
      by (rule isAncestorOf_loop_spec [OF assms True]) simp
    also have "(drop 0 a = take (length a) (drop 0 d)) = (take (length a) d = a)" by auto
    finally show ?thesis .
  next
    case shorter: False
    then have "take (length a) d \<noteq> a" by (metis length_take linorder_le_less_linear min.absorb2 min.cobounded1 order_refl)
    then show ?thesis using assms False shorter by (simp add: isAncestorOf_def oc_length)
  qed
qed

theorem isAncestorOf_prefix_witness:
  "isAncestorOf (Some (oc_code [3, 1])) (Some (oc_code [3, 1, 6])) CHECK_NODE_ONLY = Some True
    \<and> isAncestorOf (Some (oc_code [3, 2])) (Some (oc_code [3, 1, 6])) CHECK_NODE_ONLY = Some False"
proof -
  have ok: "oc_ok [3, 1]" "oc_ok [3, 2]" "oc_ok [3, 1, 6]" by (simp_all add: oc_ok_def)
  show ?thesis unfolding isAncestorOf_prefix [OF ok(1,3)] isAncestorOf_prefix [OF ok(2,3)] by simp
qed

section \<open>Child codes\<close>

lemma bytesRequired_eq: "n < 256 \<Longrightarrow> bytesRequiredForCodeLength (word_of_int (int n)) = 1 + oc_bytes n"
proof -
  assume n: "n < 256"
  have u: "unat (word_of_int (int n) :: byte) = n" using n by (simp add: unsigned_of_nat take_bit_nat_eq_self)
  have "\<lceil>real m / 8\<rceil> = int ((m + 7) div 8)" for m
  proof -
    have "\<lceil>real m / 8\<rceil> = - (- int m div 8)"
      using ceiling_divide_eq_div [of "int m" 8, where 'a = real] by simp
    also have "\<dots> = (int m + 7) div 8" by presburger
    finally show ?thesis by (simp add: zdiv_int)
  qed
  then have c: "nat \<lceil>real (n * 3) / 8\<rceil> = oc_bytes n"
    unfolding oc_bytes_def by (metis mult.commute nat_int)
  show ?thesis
  proof (cases "n = 0")
    case True
    then show ?thesis by (simp add: bytesRequiredForCodeLength_def oc_bytes_def)
  next
    case False
    then have "word_of_int (int n) \<noteq> (0 :: byte)" using u by (metis unat_0)
    then show ?thesis unfolding bytesRequiredForCodeLength_def u c by simp
  qed
qed

lemma plus_or: "\<forall>n. \<not> (bit b n \<and> bit v n) \<Longrightarrow> b + v = (b OR v :: byte)"
proof -
  assume "\<forall>n. \<not> (bit b n \<and> bit v n)"
  then have "b AND v = 0" by (intro bit_word_eqI) (simp add: bit_and_iff)
  then show ?thesis using word_plus_and_or [of b v] by simp
qed

lemma bit_small:
  assumes "k < 8" "bit (k :: nat) n"
  shows "n < 3"
proof -
  have "take_bit 3 k = k" using assms(1) by (simp add: take_bit_nat_eq_self)
  then have "bit (take_bit 3 k) n" using assms(2) by simp
  then show ?thesis by (simp add: bit_take_bit_iff)
qed

lemma plus_or_eq:
  assumes "\<forall>n. \<not> (bit b n \<and> bit v n)" "\<And>n. n < 8 \<Longrightarrow> (bit b n \<or> bit v n) = bit r n"
  shows "b + v = (r :: byte)"
  unfolding plus_or [OF assms(1)] using assms(2) by (intro bit_word_eqI) (simp add: bit_or_iff)

lemma bit_k_cases:
  assumes "k < 8"
  shows "bit (k :: nat) m \<longleftrightarrow> m = 0 \<and> bit k 0 \<or> m = 1 \<and> bit k 1 \<or> m = 2 \<and> bit k 2"
proof -
  have "m = 0 \<or> m = 1 \<or> m = 2" if "bit k m" using bit_small [OF assms that] by linarith
  then show ?thesis by blast
qed

lemma bit_word_of_k: "bit (word_of_int (push_bit l (int k)) :: byte) n \<longleftrightarrow> n < 8 \<and> l \<le> n \<and> bit k (n - l)"
    "bit (word_of_int (drop_bit l (int k)) :: byte) n \<longleftrightarrow> n < 8 \<and> bit k (l + n)"
  by (auto simp: bit_simps)

text \<open>Adding a step where the bits are still zero writes its three bits.\<close>

lemma add_step:
  assumes "pos + 3 \<le> 8 * length buf" "\<forall>j < 3. \<not> buffer_bits buf ! (pos + j)" "k < 8"
    and "i = pos div 8" "s = pos mod 8"
  shows "(if 5 < s then do { b \<leftarrow> add_at buf (int i) (drop_bit (s - 5) (int k)); add_at b (int i + 1) (push_bit (13 - s) (int k)) }
      else add_at buf (int i) (push_bit (5 - s) (int k))) = Some (put_bits buf pos (bits3 k))"
proof -
  have s: "s < 8" and pos: "pos = 8 * i + s" using assms(4,5) by simp_all
  have z: "\<not> bit (buf ! ((pos + j) div 8)) (7 - (pos + j) mod 8)" if "j < 3" for j
    using assms(1,2) that nth_buffer_bits [of "pos + j" buf] by auto
  have put: "put_bits buf pos (bits3 k) = put_bit (put_bit (put_bit buf pos (bit k 2)) (Suc pos) (bit k 1)) (Suc (Suc pos)) (bit k 0)"
    by (simp add: bits3_def)
  consider "s \<le> 5" | "s = 6" | "s = 7" using s by linarith
  then show ?thesis
  proof cases
    case 1
    have i: "i < length buf" using assms(1) 1 pos by linarith
    have d: "(pos + j) div 8 = i" "(pos + j) mod 8 = s + j" if "j < 3" for j
      using 1 that mod_mult_self4 [of 8 i "s + j"] div_mult_self4 [of 8 i "s + j"] by (simp_all add: pos add.assoc)
    have zz: "\<not> bit (buf ! i) (7 - s)" "\<not> bit (buf ! i) (6 - s)" "\<not> bit (buf ! i) (5 - s)"
      using z [of 0] z [of 1] z [of 2] d [of 0] d [of 1] d [of 2] by simp_all
    have v: "buf ! i + word_of_int (push_bit (5 - s) (int k))
        = ((buf ! i OR push_bit (7 - s) (of_bool (bit k 2))) OR push_bit (6 - s) (of_bool (bit k 1)))
            OR push_bit (5 - s) (of_bool (bit k 0))" (is "_ = ?r")
    proof -
      have n: "bit (word_of_int (push_bit (5 - s) (int k)) :: byte) n \<longleftrightarrow>
          n = 5 - s \<and> bit k 0 \<or> n = 6 - s \<and> bit k 1 \<or> n = 7 - s \<and> bit k 2" for n
      proof -
        have "5 - s \<le> n \<and> n - (5 - s) = 0 \<longleftrightarrow> n = 5 - s" "5 - s \<le> n \<and> n - (5 - s) = 1 \<longleftrightarrow> n = 6 - s"
          "5 - s \<le> n \<and> n - (5 - s) = 2 \<longleftrightarrow> n = 7 - s" "7 - s < 8" using 1 by linarith+
        then show ?thesis
          unfolding bit_word_of_k(1) bit_k_cases [OF assms(3), of "n - (5 - s)"] using 1 by auto
      qed
      then have "\<forall>n. \<not> (bit (buf ! i) n \<and> bit (word_of_int (push_bit (5 - s) (int k)) :: byte) n)"
        using zz by auto
      then have "buf ! i + word_of_int (push_bit (5 - s) (int k)) = (buf ! i OR word_of_int (push_bit (5 - s) (int k)))"
        by (rule plus_or)
      also have "\<dots> = ?r"
        using 1 by (intro bit_word_eqI) (auto simp: bit_or_iff n bit_push_bit_iff bit_of_bool_iff)
      finally show ?thesis .
    qed
    have "put_bits buf pos (bits3 k) = buf[i := ((buf ! i OR push_bit (7 - s) (of_bool (bit k 2))) OR push_bit (6 - s) (of_bool (bit k 1)))
            OR push_bit (5 - s) (of_bool (bit k 0))]"
      using i d [of 0] d [of 1] d [of 2] by (simp add: put put_bit_def)
    then show ?thesis using 1 i v by (simp add: add_at_def)
  next
    case 2
    have i: "Suc i < length buf" using assms(1) 2 pos by linarith
    have e: "pos div 8 = i" "pos mod 8 = 6" "Suc pos div 8 = i" "Suc pos mod 8 = 7"
        "Suc (Suc pos) div 8 = Suc i" "Suc (Suc pos) mod 8 = 0"
      using pos 2 by presburger+
    have zz: "\<not> bit (buf ! i) 1" "\<not> bit (buf ! i) 0" "\<not> bit (buf ! Suc i) 7"
      using z [of 0] z [of 1] z [of 2] e by simp_all
    have n: "bit (word_of_int (drop_bit 1 (int k)) :: byte) n \<longleftrightarrow> n = 0 \<and> bit k 1 \<or> n = 1 \<and> bit k 2"
        "bit (word_of_int (push_bit 7 (int k)) :: byte) n \<longleftrightarrow> n = 7 \<and> bit k 0" for n
      unfolding bit_word_of_k bit_k_cases [OF assms(3), of "1 + n"] bit_k_cases [OF assms(3), of "n - 7"] by auto
    have v: "buf ! i + word_of_int (drop_bit 1 (int k)) = (buf ! i OR push_bit 1 (of_bool (bit k 2))) OR of_bool (bit k 1)"
      by (rule plus_or_eq; unfold n; use zz in \<open>auto simp: bit_or_iff bit_push_bit_iff bit_of_bool_iff bit_2_iff\<close>)
    have w: "buf ! Suc i + word_of_int (push_bit 7 (int k)) = (buf ! Suc i OR push_bit 7 (of_bool (bit k 0)))"
      by (rule plus_or_eq; unfold n; use zz in \<open>auto simp: bit_or_iff bit_push_bit_iff bit_of_bool_iff bit_2_iff\<close>)
    have "put_bits buf pos (bits3 k) = buf[i := (buf ! i OR push_bit 1 (of_bool (bit k 2))) OR of_bool (bit k 1),
        Suc i := buf ! Suc i OR push_bit 7 (of_bool (bit k 0))]"
      using i e by (simp add: put put_bit_def)
    then show ?thesis using 2 i v w by (simp add: add_at_def nat_add_distrib flip: of_nat_Suc)
  next
    case 3
    have i: "Suc i < length buf" using assms(1) 3 pos by linarith
    have e: "pos div 8 = i" "pos mod 8 = 7" "Suc pos div 8 = Suc i" "Suc pos mod 8 = 0"
        "Suc (Suc pos) div 8 = Suc i" "Suc (Suc pos) mod 8 = 1"
      using pos 3 by presburger+
    have zz: "\<not> bit (buf ! i) 0" "\<not> bit (buf ! Suc i) 7" "\<not> bit (buf ! Suc i) 6"
      using z [of 0] z [of 1] z [of 2] e by simp_all
    have n: "bit (word_of_int (drop_bit 2 (int k)) :: byte) n \<longleftrightarrow> n = 0 \<and> bit k 2"
        "bit (word_of_int (push_bit 6 (int k)) :: byte) n \<longleftrightarrow> n = 6 \<and> bit k 0 \<or> n = 7 \<and> bit k 1" for n
      unfolding bit_word_of_k bit_k_cases [OF assms(3), of "2 + n"] bit_k_cases [OF assms(3), of "n - 6"] by auto
    have v: "buf ! i + word_of_int (drop_bit 2 (int k)) = (buf ! i OR of_bool (bit k 2))"
      by (rule plus_or_eq; unfold n; use zz in \<open>auto simp: bit_or_iff bit_push_bit_iff bit_of_bool_iff bit_2_iff\<close>)
    have w: "buf ! Suc i + word_of_int (push_bit 6 (int k))
        = ((buf ! Suc i OR push_bit 7 (of_bool (bit k 1))) OR push_bit 6 (of_bool (bit k 0)))"
      by (rule plus_or_eq; unfold n; use zz in \<open>auto simp: bit_or_iff bit_push_bit_iff bit_of_bool_iff bit_2_iff\<close>)
    have "put_bits buf pos (bits3 k) = buf[i := buf ! i OR of_bool (bit k 2),
        Suc i := (buf ! Suc i OR push_bit 7 (of_bool (bit k 1))) OR push_bit 6 (of_bool (bit k 0))]"
      using i e by (simp add: put put_bit_def)
    then show ?thesis using 3 i v w by (simp add: add_at_def nat_add_distrib flip: of_nat_Suc)
  qed
qed

lemma put_bits_append_buf: "i + length bs \<le> 8 * length xs \<Longrightarrow> put_bits (xs @ ys) i bs = put_bits xs i bs @ ys"
proof (induction bs arbitrary: xs i)
  case (Cons b bs)
  then have "i div 8 < length xs" by (simp add: div_less_iff_less_mult)
  then have "put_bit (xs @ ys) i b = put_bit xs i b @ ys"
    by (simp add: put_bit_def nth_append list_update_append)
  then show ?case using Cons by simp
qed simp

lemma add_at_Cons: "add_at (b # buf) (int j + 1) v = map_option ((#) b) (add_at buf (int j) v)"
proof -
  have "nat (int j + 1) = Suc j" by simp
  then show ?thesis by (simp add: add_at_def)
qed

lemma buffer_bits_append: "buffer_bits (xs @ ys) = buffer_bits xs @ buffer_bits ys"
  by (simp add: buffer_bits_def)

lemma oc_bytes_step: "oc_bytes n \<le> oc_bytes (Suc n)" "oc_bytes (Suc n) \<le> Suc (oc_bytes n)"
  unfolding oc_bytes_def by (rule div_le_mono; simp) presburger

lemma add_step_Cons:
  assumes "add_at buf (int i) x = Some b1"
  shows "add_at (c # buf) (int i + 1) x = Some (c # b1)"
  using assms by (simp add: add_at_Cons)

lemma oc_body_step:
  assumes "k < 8"
  shows "put_bits (oc_body p @ replicate (oc_bytes (Suc (length p)) - oc_bytes (length p)) 0) (3 * length p) (bits3 k)
    = oc_body (p @ [k])"
proof -
  let ?n = "length p"
  have "replicate (oc_bytes (Suc ?n)) (0 :: byte) = replicate (oc_bytes ?n) 0 @ replicate (oc_bytes (Suc ?n) - oc_bytes ?n) 0"
    using oc_bytes_step(1) [of ?n] by (simp flip: replicate_add)
  then have "put_bits (replicate (oc_bytes (Suc ?n)) 0) 0 (oc_bits p)
      = oc_body p @ replicate (oc_bytes (Suc ?n) - oc_bytes ?n) 0"
    using oc_bytes_fits [of ?n] by (simp add: put_bits_append_buf oc_body_def)
  then show ?thesis
    using put_bits_append [of "replicate (oc_bytes (Suc ?n)) 0" 0 "oc_bits p" "bits3 k"] by (simp add: oc_body_def)
qed

text \<open>The adding part of \<open>childOctalCode\<close> on a zero-padded code.\<close>

lemma child_add:
  assumes "k < 8"
  shows "(if 8 - crem (int (length p) * 3) 8 - 3 < 0 then
       do { newCode4 \<leftarrow> add_at (c # oc_body p @ replicate (oc_bytes (Suc (length p)) - oc_bytes (length p)) 0)
              (cdiv (int (length p) * 3) 8 + 1) (drop_bit (nat (-1 * (8 - crem (int (length p) * 3) 8 - 3))) (int k));
            add_at newCode4 (cdiv (int (length p) * 3) 8 + 2) (push_bit (nat (8 + (8 - crem (int (length p) * 3) 8 - 3))) (int k)) }
     else add_at (c # oc_body p @ replicate (oc_bytes (Suc (length p)) - oc_bytes (length p)) 0)
            (cdiv (int (length p) * 3) 8 + 1) (push_bit (nat (8 - crem (int (length p) * 3) 8 - 3)) (int k)))
    = Some (c # oc_body (p @ [k]))"
proof -
  let ?pos = "3 * length p"
  obtain buf where buf: "oc_body p @ replicate (oc_bytes (Suc (length p)) - oc_bytes (length p)) 0 = buf" by blast
  obtain i s where i: "?pos div 8 = i" and s: "?pos mod 8 = s" by blast
  have len: "length buf = oc_bytes (Suc (length p))"
    using oc_bytes_step(1) [of "length p"] by (simp flip: buf)
  have "\<not> buffer_bits buf ! (?pos + j)" if "j < 3" for j
  proof -
    have "buffer_bits buf = oc_bits p @ replicate (8 * oc_bytes (Suc (length p)) - 3 * length p) False"
      using oc_bytes_step(1) [of "length p"] oc_bytes_fits [of "length p"]
      by (simp add: buffer_bits_append oc_body_bits buffer_bits_replicate_0 flip: buf replicate_add)
    then show ?thesis using that oc_bytes_fits [of "Suc (length p)"] by (simp add: nth_append)
  qed
  then have step: "(if 5 < s then do { b \<leftarrow> add_at buf (int i) (drop_bit (s - 5) (int k)); add_at b (int i + 1) (push_bit (13 - s) (int k)) }
      else add_at buf (int i) (push_bit (5 - s) (int k))) = Some (oc_body (p @ [k]))"
    using add_step [of ?pos buf k i s] assms oc_bytes_fits [of "Suc (length p)"] len i s oc_body_step [OF assms, of p]
    by (simp add: buf)
  have c: "cdiv (int (length p) * 3) 8 = int i" "crem (int (length p) * 3) 8 = int s"
    by (simp_all add: cdiv_nonneg crem_nonneg zdiv_int zmod_int mult.commute flip: i s)
  have s8: "s < 8" by (simp flip: s)
  show ?thesis
  proof (cases "5 < s")
    case True
    have "nat (-1 * (8 - int s - 3)) = s - 5" "nat (8 + (8 - int s - 3)) = 13 - s" using True s8 by simp_all
    moreover have "add_at (c # y) (int i + 2) v = map_option ((#) c) (add_at y (int i + 1) v)" for y v
      using add_at_Cons [of c y "Suc i" v] by (simp add: algebra_simps)
    ultimately show ?thesis
      using True step unfolding buf c by (auto simp: add_at_Cons bind_eq_Some_conv)
  next
    case False
    have "nat (8 - int s - 3) = 5 - s" "\<not> 8 - int s - 3 < 0" using False by linarith+
    then show ?thesis using False step unfolding buf c by (simp add: add_at_Cons)
  qed
qed

text \<open>
  A child's code is its parent's code with one more step: for every path whose length fits the length
  byte, \<open>childOctalCode\<close> reads the whole parent code, stays inside the buffer it has sized, leaves none of
  its bytes as they were allocated, and yields the code of the path extended by the child.
\<close>

theorem childOctalCode_extends_path:
  assumes "oc_ok (path @ [k])"
  shows "childOctalCode fresh (Some (oc_code path)) (int k) = Some (oc_code (path @ [k]))
    \<and> childOctalCode fresh None (int k) = Some (oc_code [k])"
proof -
  have k: "k < 8" and ok: "oc_ok path" and n: "length path < 254" using assms by (auto simp: oc_ok_def)
  obtain a b where a: "oc_bytes (length path) = a" and b: "oc_bytes (Suc (length path)) = b" by blast
  have ab: "a \<le> b" "b \<le> Suc a" using oc_bytes_step [of "length path"] by (simp_all add: a b)
  have req: "bytesRequiredForCodeLength (word_of_int (int (length path))) = Suc a"
    "bytesRequiredForCodeLength (word_of_int (int (length path) + 1)) = Suc b"
    using bytesRequired_eq [of "length path"] bytesRequired_eq [of "Suc (length path)"] n
    by (simp_all add: a b algebra_simps)
  have len: "length (oc_code path) = Suc a" by (simp add: oc_code_def a)
  obtain m where m: "map fresh [0..<Suc b] = m" by blast
  have lm: "length m = Suc b" unfolding m [symmetric] by simp
  have w: "mem_write m 0 (oc_code path) = Some (oc_code path @ drop (Suc a) m)"
    using ab lm len by (simp add: mem_write_def)
  have r: "mem_read (oc_code path) 0 (Suc a) = Some (oc_code path)" by (simp add: mem_read_def len)
  have buf: "(if Suc b > Suc a then ((oc_code path @ drop (Suc a) m)[0 := word_of_int (int (length path) + 1)])[Suc b - 1 := 0]
      else (oc_code path @ drop (Suc a) m)[0 := word_of_int (int (length path) + 1)])
    = word_of_int (int (length path) + 1) # oc_body path @ replicate (b - a) 0"
  proof (cases "b = a")
    case True
    then show ?thesis using lm by (simp add: oc_code_def)
  next
    case False
    then have "b = Suc a" using ab by simp
    moreover have "length (oc_body path) = a" by (simp add: a)
    moreover have "length (drop (Suc a) m) = Suc 0" using lm \<open>b = Suc a\<close> by simp
    then obtain x where "drop (Suc a) m = [x]" by (metis length_0_conv length_Suc_conv)
    ultimately show ?thesis by (simp add: oc_code_def list_update_append)
  qed
  have "childOctalCode fresh (Some (oc_code path)) (int k) = Some (word_of_int (int (length path) + 1) # oc_body (path @ [k]))"
    unfolding childOctalCode_def option.case oc_length [OF ok] Option.bind.bind_lunit Let_def req m r w buf
    using child_add [OF k, of path "word_of_int (int (length path) + 1)"] unfolding a b .
  moreover have "childOctalCode fresh None (int k) = Some (oc_code [k])"
  proof -
    have "bytesRequiredForCodeLength (word_of_int 0) = 1" "bytesRequiredForCodeLength (word_of_int 1) = 2"
      using bytesRequired_eq [of 0] bytesRequired_eq [of 1] by (simp_all add: oc_bytes_def)
    then show ?thesis
      using child_add [OF k, of "[]" 1]
      by (simp add: childOctalCode_def upt_conv_Cons oc_body_def oc_bytes_def oc_code_def cdiv_def crem_def)
  qed
  ultimately show ?thesis by (simp add: oc_code_def add.commute)
qed

theorem childOctalCode_extends_path_witness:
  "childOctalCode (\<lambda>_. 0xAB) (Some (oc_code [3, 1])) 6 = Some (oc_code [3, 1, 6])"
  using childOctalCode_extends_path [of "[3, 1]" 6 "\<lambda>_. 0xAB"] by (simp add: oc_ok_def)

section \<open>The order of codes\<close>

text \<open>Paths by length first, then step by step: the order in which the code compares octal codes.\<close>

datatype octal_path = OctalPath (steps: "nat list")

instantiation octal_path :: linorder
begin

definition less_eq_octal_path :: "octal_path \<Rightarrow> octal_path \<Rightarrow> bool" where
  "less_eq_octal_path a b \<longleftrightarrow> length (steps a) < length (steps b) \<or> length (steps a) = length (steps b) \<and> steps a \<le> steps b"

definition less_octal_path :: "octal_path \<Rightarrow> octal_path \<Rightarrow> bool" where
  "less_octal_path a b \<longleftrightarrow> length (steps a) < length (steps b) \<or> length (steps a) = length (steps b) \<and> steps a < steps b"

instance
proof
  fix a b c :: octal_path
  show "(a < b) = (a \<le> b \<and> \<not> b \<le> a)" by (auto simp: less_eq_octal_path_def less_octal_path_def)
  show "a \<le> a" by (simp add: less_eq_octal_path_def)
  show "a \<le> b \<Longrightarrow> b \<le> c \<Longrightarrow> a \<le> c" by (auto simp: less_eq_octal_path_def)
  show "a \<le> b \<Longrightarrow> b \<le> a \<Longrightarrow> a = b" by (auto simp: less_eq_octal_path_def intro: octal_path.expand)
  show "a \<le> b \<or> b \<le> a" by (auto simp: less_eq_octal_path_def)
qed

end

text \<open>The value of a list of digits, most significant first.\<close>

fun posval :: "nat \<Rightarrow> nat list \<Rightarrow> nat" where
  "posval B [] = 0"
| "posval B (d # ds) = d * B ^ length ds + posval B ds"

lemma posval_bound: "\<forall>d \<in> set ds. d < B \<Longrightarrow> posval B ds < B ^ length ds"
proof (induction ds)
  case (Cons d ds)
  then have "d * B ^ length ds + posval B ds < (d + 1) * B ^ length ds" by simp
  also have "\<dots> \<le> B * B ^ length ds" using Cons.prems by (intro mult_right_mono) auto
  finally show ?case by simp
qed simp

lemma posval_less:
  assumes "length xs = length ys" "\<forall>d \<in> set xs \<union> set ys. d < B"
  shows "posval B xs < posval B ys \<longleftrightarrow> xs < ys"
  using assms
proof (induction xs ys rule: list_induct2)
  case (Cons x xs y ys)
  have b: "posval B xs < B ^ length ys" "posval B ys < B ^ length ys"
    using posval_bound [of xs B] posval_bound [of ys B] Cons by auto
  have lt: "x' * B ^ length ys + u < y' * B ^ length ys + v" if "x' < y'" "u < B ^ length ys" for x' y' u v
  proof -
    have "x' * B ^ length ys + u < (x' + 1) * B ^ length ys" using that(2) by simp
    also have "\<dots> \<le> y' * B ^ length ys" using that(1) by (intro mult_right_mono) auto
    finally show ?thesis by simp
  qed
  show ?case
    using Cons b lt [of x y "posval B xs" "posval B ys"] lt [of y x "posval B ys" "posval B xs"]
    by (cases x y rule: linorder_cases) auto
qed simp

lemma posval_append: "posval B (xs @ ys) = posval B xs * B ^ length ys + posval B ys"
  by (induction xs) (simp_all add: algebra_simps power_add)

lemma posval_horner: "posval 2 (map of_bool xs) = horner_sum of_bool 2 (rev xs)"
  by (induction xs) (simp_all add: horner_sum_append)

lemma posval_bits_byte: "posval 2 (map of_bool (byte_bits b)) = unat b"
proof -
  have "take_bit 8 b = b" by (rule take_bit_word_eq_self) simp
  then have "unat b = unat (take_bit 8 b)" by simp
  also have "take_bit 8 b = horner_sum of_bool 2 (map (bit b) [0..<8])" by (simp add: horner_sum_bit_eq_take_bit)
  also have "unat \<dots> = unat (of_nat (horner_sum of_bool 2 (map (bit b) [0..<8])) :: byte)"
    by (simp add: upt_conv_Cons)
  also have "\<dots> = horner_sum of_bool 2 (map (bit b) [0..<8])"
    using horner_sum_of_bool_2_less [of "map (bit b) [0..<8]", where 'a = nat] by (simp add: unsigned_of_nat take_bit_nat_eq_self)
  also have "map (bit b) [0..<8] = rev (byte_bits b)" by (simp add: byte_bits_list upt_conv_Cons numeral_eq_Suc)
  finally show ?thesis by (simp add: posval_horner)
qed

lemma posval_buffer: "posval 256 (map unat bs) = posval 2 (map of_bool (buffer_bits bs))"
  by (induction bs) (simp_all add: posval_append posval_bits_byte power_mult)

lemma posval_path: "\<forall>k \<in> set p. k < 8 \<Longrightarrow> posval 8 p = posval 2 (map of_bool (oc_bits p))"
proof (induction p)
  case (Cons k p)
  have "int k = int (posval 2 (map of_bool (bits3 k)))"
    using val3_bits3 [of k] Cons.prems by (simp add: val3_def bits3_def)
  then show ?case using Cons by (simp add: posval_append power_mult)
qed simp

lemma posval_False: "posval 2 (map of_bool (replicate n False)) = 0"
  by (induction n) simp_all

lemma memcmp_posval:
  "length xs = length ys \<Longrightarrow> memcmp xs ys = (if map unat xs < map unat ys then -1 else if map unat ys < map unat xs then 1 else 0)"
  by (induction xs ys rule: list_induct2) (auto simp: word_less_nat_alt)

lemma oc_body_less:
  assumes "oc_ok p" "oc_ok q" "length p = length q"
  shows "map unat (oc_body p) < map unat (oc_body q) \<longleftrightarrow> p < q"
proof -
  have v: "posval 256 (map unat (oc_body r)) = posval 8 r * 2 ^ (8 * oc_bytes (length r) - 3 * length r)" if "oc_ok r" for r
    using that posval_path [of r] posval_False by (simp add: posval_buffer oc_body_bits posval_append oc_ok_def)
  have "map unat (oc_body p) < map unat (oc_body q) \<longleftrightarrow> posval 256 (map unat (oc_body p)) < posval 256 (map unat (oc_body q))"
    using assms(3) by (intro posval_less [symmetric]) (auto simp: unsigned_less [of _, where 'b = 8, simplified])
  also have "\<dots> \<longleftrightarrow> posval 8 p < posval 8 q" using assms by (simp add: v)
  also have "\<dots> \<longleftrightarrow> p < q" using assms by (intro posval_less) (auto simp: oc_ok_def)
  finally show ?thesis .
qed

text \<open>
  C39. Comparing codes is the linear order of their paths, shallower elements first and elements of one depth
  step by step: two codes match exactly when their paths are equal.
\<close>

theorem compareOctalCodes_linear_order:
  assumes "oc_ok p" "oc_ok q"
  shows "compareOctalCodes (Some (oc_code p)) (Some (oc_code q))
    = Some (if OctalPath p < OctalPath q then LESS_THAN else if OctalPath p = OctalPath q then EXACT_MATCH else GREATER_THAN)"
proof -
  let ?m = "min (Suc (oc_bytes (length p))) (Suc (oc_bytes (length q)))"
  have first: "mem_read (oc_code r) 0 1 = Some [word_of_nat (length r)]" for r by (simp add: mem_read_def oc_code_def)
  have req: "bytesRequiredForCodeLength (word_of_nat (length r)) = Suc (oc_bytes (length r))" if "oc_ok r" for r
    using bytesRequired_eq [of "length r"] that by (simp add: oc_ok_def)
  have rd: "mem_read (oc_code r) 0 ?m = Some (take ?m (oc_code r))" if "r = p \<or> r = q" for r
    using that by (auto simp: mem_read_def oc_code_def)
  have u: "unat (word_of_nat (length r) :: byte) = length r" if "oc_ok r" for r
    using that by (simp add: unsigned_of_nat take_bit_nat_eq_self oc_ok_def)
  obtain c where c: "memcmp (take ?m (oc_code p)) (take ?m (oc_code q)) = c" by blast
  have cmp: "compareOctalCodes (Some (oc_code p)) (Some (oc_code q)) = Some (if c < 0 then LESS_THAN else if c > 0 then GREATER_THAN
      else if length p = length q then EXACT_MATCH else if length p < length q then LESS_THAN else GREATER_THAN)"
    unfolding compareOctalCodes_def prod.case option.case first list.sel Option.bind.bind_lunit Let_def req [OF assms(1)]
      req [OF assms(2)] rd [of p, OF disjI1, OF refl] rd [of q, OF disjI2, OF refl] c oc_length [OF assms(1)] oc_length [OF assms(2)]
    by simp
  show ?thesis
  proof (cases "length p = length q")
    case True
    have "c = memcmp (oc_body p) (oc_body q)"
      using True by (simp add: oc_code_def flip: c)
    also have "\<dots> = (if p < q then -1 else if q < p then 1 else 0)"
      using True oc_body_less [OF assms True] oc_body_less [OF assms(2,1)] by (simp add: memcmp_posval)
    finally show ?thesis unfolding cmp using True by (auto simp: less_octal_path_def)
  next
    case False
    then have "c = (if length p < length q then -1 else 1)"
      using u [OF assms(1)] u [OF assms(2)] by (auto simp: oc_code_def word_less_nat_alt simp flip: c)
    then show ?thesis unfolding cmp using False by (auto simp: less_octal_path_def)
  qed
qed

theorem compareOctalCodes_linear_order_witness:
  "compareOctalCodes (Some (oc_code [7])) (Some (oc_code [0, 1])) = Some LESS_THAN
    \<and> compareOctalCodes (Some (oc_code [3, 5])) (Some (oc_code [3, 4])) = Some GREATER_THAN"
proof -
  have ok: "oc_ok [7]" "oc_ok [0, 1]" "oc_ok [3, 5]" "oc_ok [3, 4]" by (simp_all add: oc_ok_def)
  show ?thesis
    unfolding compareOctalCodes_linear_order [OF ok(1,2)] compareOctalCodes_linear_order [OF ok(3,4)]
    by (simp add: less_octal_path_def)
qed

section \<open>Cubes\<close>

lemma oneAtBit_section: "k < 8 \<Longrightarrow> j < 3 \<Longrightarrow> oneAtBit (word_of_int (int k)) (8 - 3 + j) = bit k (2 - j)"
proof -
  assume k: "k < 8" "j < 3"
  have "oneAtBit (word_of_int (int k)) (8 - 3 + j) = bit (word_of_int (int k) :: byte) (2 - j)"
    using k(2) by (auto simp: oneAtBit_def bit_iff_odd_drop_bit and_one_eq odd_iff_mod_2_eq_one)
  moreover have "2 - j < 8" using k(2) by linarith
  ultimately show ?thesis by (simp add: bit_word_of_int_iff bit_simps)
qed

definition cube_step :: "nat \<Rightarrow> voxel_position_size \<Rightarrow> voxel_position_size" where
  "cube_step k v = \<lparr>vp_x = vp_x v + vp_s v / 2 * of_bool (bit k 2), vp_y = vp_y v + vp_s v / 2 * of_bool (bit k 1),
     vp_z = vp_z v + vp_s v / 2 * of_bool (bit k 0), vp_s = vp_s v / 2\<rparr>"

text \<open>A cube of depth \<open>n\<close> inside the unit cube, with corners that rounding leaves alone.\<close>

definition grid_cube :: "nat \<Rightarrow> voxel_position_size \<Rightarrow> bool" where
  "grid_cube n v \<longleftrightarrow> vp_s v = (1 / 2) ^ n \<and> on_grid (vp_x v) \<and> on_grid (vp_y v) \<and> on_grid (vp_z v)
     \<and> 0 \<le> vp_x v \<and> 0 \<le> vp_y v \<and> 0 \<le> vp_z v \<and> vp_x v + vp_s v \<le> 1 \<and> vp_y v + vp_s v \<le> 1 \<and> vp_z v + vp_s v \<le> 1"

lemma grid_root: "grid_cube 0 \<lparr>vp_x = 0, vp_y = 0, vp_z = 0, vp_s = 1\<rparr>"
  by (simp add: grid_cube_def)

lemma grid_step: "grid_cube n v \<Longrightarrow> n < 24 \<Longrightarrow> grid_cube (Suc n) (cube_step k v)"
proof -
  assume v: "grid_cube n v" and n: "n < 24"
  have h: "on_grid (vp_s v / 2 * of_bool b)" for b
    using on_grid_power [of "Suc n"] n v by (cases b) (simp_all add: grid_cube_def)
  have s: "0 < vp_s v" using v by (simp add: grid_cube_def)
  have c: "0 \<le> a + vp_s v / 2 * of_bool b \<and> a + vp_s v / 2 * of_bool b + vp_s v / 2 \<le> 1"
    if "0 \<le> a" "a + vp_s v \<le> 1" for a and b :: bool
    using that s by (cases b) simp_all
  show ?thesis using v on_grid_add [OF _ h] c unfolding grid_cube_def cube_step_def by simp
qed

lemma voxelDetails_step_eq:
  assumes p: "oc_ok p" "i < length p" and v: "grid_cube n v" "n < 24"
  shows "voxelDetails_step (oc_code p) (int i) v = Some (cube_step (p ! i) v)"
proof -
  have k: "p ! i < 8" using p by (simp add: oc_ok_def)
  have s: "sectionValue (drop (nat (1 + cdiv (3 * int i) 8)) (oc_code p)) (crem (3 * int i) 8) = Some (int (p ! i))"
    unfolding section_index by (rule oc_sectionValue [OF p])
  have half: "vp_s v * (1 / 2) = (1 / 2) ^ Suc n" using v(1) by (simp add: grid_cube_def)
  have f: "fl (vp_s v * (1 / 2)) = vp_s v / 2" unfolding half using fl_power [of "Suc n"] half v(2) by simp
  have g: "fl (vp_s v / 2 * of_bool b) = vp_s v / 2 * of_bool b" for b using f by (cases b) simp_all
  have pos: "0 < vp_s v" using v(1) by (simp add: grid_cube_def)
  have gs: "on_grid (vp_s v / 2 * of_bool b)" for b
    using on_grid_power [of "Suc n"] half v(2) by (cases b) simp_all
  have a: "fl (a + fl (vp_s v / 2 * of_bool b)) = a + vp_s v / 2 * of_bool b"
    if "on_grid a" "0 \<le> a" "a + vp_s v \<le> 1" for a b
  proof -
    have "\<bar>a + vp_s v / 2 * of_bool b\<bar> < 1" using that(2,3) pos by (cases b) simp_all
    then show ?thesis unfolding g by (intro fl_grid on_grid_add that(1) gs)
  qed
  have xyz: "fl (vp_x v + fl (vp_s v / 2 * of_bool b)) = vp_x v + vp_s v / 2 * of_bool b"
    "fl (vp_y v + fl (vp_s v / 2 * of_bool b)) = vp_y v + vp_s v / 2 * of_bool b"
    "fl (vp_z v + fl (vp_s v / 2 * of_bool b)) = vp_z v + vp_s v / 2 * of_bool b" for b
    by (intro a; use v(1) in \<open>simp add: grid_cube_def\<close>)+
  show ?thesis
    unfolding voxelDetails_step_def Let_def s Option.bind.bind_lunit cube_step_def f xyz
    using oneAtBit_section [OF k, of 0] oneAtBit_section [OF k, of 1] oneAtBit_section [OF k, of 2] by simp
qed

lemma voxelDetails_loop_eq:
  "oc_ok p \<Longrightarrow> length p = n + m \<Longrightarrow> length p \<le> 24 \<Longrightarrow> grid_cube n v
    \<Longrightarrow> voxelDetails_loop (oc_code p) (map int [n..<length p]) v = Some (foldl (\<lambda>v k. cube_step k v) v (drop n p))"
proof (induction m arbitrary: n v)
  case (Suc m)
  have n: "n < length p" "n < 24" using Suc.prems by simp_all
  have u: "map int [n..<length p] = int n # map int [Suc n..<length p]" "drop n p = p ! n # drop (Suc n) p"
    using n by (simp_all add: upt_conv_Cons Cons_nth_drop_Suc)
  have "voxelDetails_loop (oc_code p) (map int [Suc n..<length p]) (cube_step (p ! n) v)
      = Some (foldl (\<lambda>v k. cube_step k v) (cube_step (p ! n) v) (drop (Suc n) p))"
    using Suc.prems grid_step [OF Suc.prems(4) n(2)] by (intro Suc.IH) simp_all
  then show ?case using voxelDetails_step_eq [OF Suc.prems(1) n(1) Suc.prems(4) n(2)] unfolding u by simp
qed simp

lemma voxelDetails_eq:
  assumes "oc_ok p" "length p \<le> 24"
  shows "voxelDetailsForCode (Some (oc_code p))
    = Some (foldl (\<lambda>v k. cube_step k v) \<lparr>vp_x = 0, vp_y = 0, vp_z = 0, vp_s = 1\<rparr> p)"
  using voxelDetails_loop_eq [OF assms(1) _ assms(2) grid_root, of "length p"]
  by (simp add: voxelDetailsForCode_def oc_length [OF assms(1)] upto_int)

definition in_cube :: "real \<times> real \<times> real \<Rightarrow> voxel_position_size \<Rightarrow> bool" where
  "in_cube pt v \<longleftrightarrow> (case pt of (x, y, z) \<Rightarrow> vp_x v \<le> x \<and> x < vp_x v + vp_s v \<and> vp_y v \<le> y \<and> y < vp_y v + vp_s v
     \<and> vp_z v \<le> z \<and> z < vp_z v + vp_s v)"

text \<open>The octants of a cube partition it.\<close>

lemma octants_partition:
  assumes "0 < vp_s v"
  shows "in_cube pt v \<longleftrightarrow> (\<exists>k < 8. in_cube pt (cube_step k v))"
    and "in_cube pt (cube_step k v) \<Longrightarrow> in_cube pt (cube_step k' v) \<Longrightarrow> k < 8 \<Longrightarrow> k' < 8 \<Longrightarrow> k = k'"
proof -
  obtain x y z where pt: "pt = (x, y, z)" by (cases pt)
  have half: "(a \<le> u \<and> u < a + s) \<longleftrightarrow> (\<exists>b. a + s / 2 * of_bool b \<le> u \<and> u < a + s / 2 * of_bool b + s / 2)" if "0 < s" for a u s :: real
    using that by (auto simp: ex_bool_eq field_simps)
  have uniq: "b = b'" if "0 < s" "a + s / 2 * of_bool b \<le> u \<and> u < a + s / 2 * of_bool b + s / 2"
      "a + s / 2 * of_bool b' \<le> u \<and> u < a + s / 2 * of_bool b' + s / 2" for a u s :: real and b b'
    using that by (cases b; cases b') (auto simp: field_simps)
  have bits: "\<exists>k < (8 :: nat). bit k 2 = a \<and> bit k 1 = b \<and> bit k 0 = c" for a b c
    using horner_sum_of_bool_2_less [of "[c, b, a]", where 'a = nat]
    by (intro exI [of _ "horner_sum of_bool 2 [c, b, a]"]) (simp only: bit_horner_sum_bit_iff, simp)
  show "in_cube pt v \<longleftrightarrow> (\<exists>k < 8. in_cube pt (cube_step k v))"
  proof
    assume "in_cube pt v"
    then have c: "vp_x v \<le> x \<and> x < vp_x v + vp_s v" "vp_y v \<le> y \<and> y < vp_y v + vp_s v" "vp_z v \<le> z \<and> z < vp_z v + vp_s v"
      unfolding in_cube_def pt by simp_all
    obtain a where a: "vp_x v + vp_s v / 2 * of_bool a \<le> x \<and> x < vp_x v + vp_s v / 2 * of_bool a + vp_s v / 2"
      using iffD1 [OF half [OF assms] c(1)] by blast
    obtain b where b: "vp_y v + vp_s v / 2 * of_bool b \<le> y \<and> y < vp_y v + vp_s v / 2 * of_bool b + vp_s v / 2"
      using iffD1 [OF half [OF assms] c(2)] by blast
    obtain d where d: "vp_z v + vp_s v / 2 * of_bool d \<le> z \<and> z < vp_z v + vp_s v / 2 * of_bool d + vp_s v / 2"
      using iffD1 [OF half [OF assms] c(3)] by blast
    note abc = a b d
    obtain k :: nat where k: "k < 8" "bit k 2 = a" "bit k 1 = b" "bit k 0 = d" using bits [of a b d] by blast
    have "in_cube pt (cube_step k v)"
      using abc unfolding in_cube_def pt prod.case cube_step_def k(2-4) by simp
    then show "\<exists>k < 8. in_cube pt (cube_step k v)" using k(1) by blast
  next
    assume "\<exists>k < 8. in_cube pt (cube_step k v)"
    then obtain k where k: "in_cube pt (cube_step k v)" by blast
    then have c: "vp_x v + vp_s v / 2 * of_bool (bit k 2) \<le> x \<and> x < vp_x v + vp_s v / 2 * of_bool (bit k 2) + vp_s v / 2"
        "vp_y v + vp_s v / 2 * of_bool (bit k 1) \<le> y \<and> y < vp_y v + vp_s v / 2 * of_bool (bit k 1) + vp_s v / 2"
        "vp_z v + vp_s v / 2 * of_bool (bit k 0) \<le> z \<and> z < vp_z v + vp_s v / 2 * of_bool (bit k 0) + vp_s v / 2"
      unfolding in_cube_def pt cube_step_def by simp_all
    show "in_cube pt v"
      using iffD2 [OF half [OF assms] exI, OF c(1)] iffD2 [OF half [OF assms] exI, OF c(2)] iffD2 [OF half [OF assms] exI, OF c(3)]
      unfolding in_cube_def pt by simp
  qed
  assume c: "in_cube pt (cube_step k v)" "in_cube pt (cube_step k' v)" and k: "k < 8" "k' < 8"
  have d: "vp_x v + vp_s v / 2 * of_bool (bit j 2) \<le> x \<and> x < vp_x v + vp_s v / 2 * of_bool (bit j 2) + vp_s v / 2"
        "vp_y v + vp_s v / 2 * of_bool (bit j 1) \<le> y \<and> y < vp_y v + vp_s v / 2 * of_bool (bit j 1) + vp_s v / 2"
        "vp_z v + vp_s v / 2 * of_bool (bit j 0) \<le> z \<and> z < vp_z v + vp_s v / 2 * of_bool (bit j 0) + vp_s v / 2"
    if "in_cube pt (cube_step j v)" for j
    using that unfolding in_cube_def pt cube_step_def by simp_all
  have "bit k 2 = bit k' 2" "bit k 1 = bit k' 1" "bit k 0 = bit k' 0"
    by (rule uniq [OF assms d(1) [OF c(1)] d(1) [OF c(2)]], rule uniq [OF assms d(2) [OF c(1)] d(2) [OF c(2)]],
        rule uniq [OF assms d(3) [OF c(1)] d(3) [OF c(2)]])
  then have "bits3 k = bits3 k'" by (simp add: bits3_def)
  then have "int k = int k'" using val3_bits3 [OF k(1)] val3_bits3 [OF k(2)] by metis
  then show "k = k'" by (rule of_nat_eq_iff [THEN iffD1])
qed

text \<open>
  The cubes of the octree partition space: the root's cube is the unit cube, the cube of every element of a depth below
  24, as far as floats hold the corners of the children, is the disjoint union of the cubes of its eight children, and
  its side halves at every step.
\<close>

theorem voxelDetails_children_partition:
  assumes "oc_ok path" "length path < 24"
  shows "\<exists>v. voxelDetailsForCode (Some (oc_code path)) = Some v \<and> vp_s v = (1 / 2) ^ length path
    \<and> (\<forall>pt. in_cube pt v \<longleftrightarrow> (\<exists>!k. k < 8 \<and> (\<exists>w. voxelDetailsForCode (Some (oc_code (path @ [k]))) = Some w \<and> in_cube pt w)))
    \<and> voxelDetailsForCode None = Some \<lparr>vp_x = 0, vp_y = 0, vp_z = 0, vp_s = 1\<rparr>"
proof -
  obtain v where v: "foldl (\<lambda>v k. cube_step k v) \<lparr>vp_x = 0, vp_y = 0, vp_z = 0, vp_s = 1\<rparr> path = v" by blast
  have s: "vp_s (foldl (\<lambda>v k. cube_step k v) u p) = vp_s u * (1 / 2) ^ length p" for u p
    by (induction p arbitrary: u) (simp_all add: cube_step_def)
  have vs: "vp_s v = (1 / 2) ^ length path" using s [of "\<lparr>vp_x = 0, vp_y = 0, vp_z = 0, vp_s = 1\<rparr>" path] unfolding v by simp
  then have pos: "0 < vp_s v" by simp
  have child: "voxelDetailsForCode (Some (oc_code (path @ [k]))) = Some (cube_step k v)" if "k < 8" for k
    using assms that by (subst voxelDetails_eq) (auto simp: oc_ok_def v)
  have "in_cube pt v \<longleftrightarrow> (\<exists>!k. k < 8 \<and> (\<exists>w. voxelDetailsForCode (Some (oc_code (path @ [k]))) = Some w \<and> in_cube pt w))" for pt
    using octants_partition [OF pos, of pt] child by (metis option.inject)
  then show ?thesis using vs voxelDetails_eq [OF assms(1)] assms(2) v by (auto simp: voxelDetailsForCode_def)
qed

theorem voxelDetails_children_partition_witness:
  "\<exists>v. voxelDetailsForCode (Some (oc_code [3, 1])) = Some v \<and> vp_s v = 1 / 4"
  using voxelDetails_children_partition [of "[3, 1]"] by (auto simp: oc_ok_def power2_eq_square)

end
