(* ===== verification/Octree_Packet_Data.thy ===== *)
theory Octree_Packet_Data
  imports Octal_Code Udt_Constants
begin

text \<open>
  \<open>OctreePacketData\<close> (\<open>libraries/octree/src/OctreePacketData.cpp\<close>): the buffer into which octree servers and
  edit senders pack elements and properties, with its bounds, its reserved bytes, and the levels and subtrees
  that can be taken back. The state is the class's; \<open>qCompress\<close> and \<open>qUncompress\<close> of Qt are parameters, and so
  is what a resized byte array holds where it was not written. The lemmas show that the buffer refines a
  bounded byte list and that levels are transactions.
\<close>

section \<open>State\<close>

record octree_counts =
  cnt_octalCodes :: int
  cnt_bitMasks :: int
  cnt_color :: int
  cnt_values :: int
  cnt_positions :: int
  cnt_rawData :: int

text \<open>\<open>opd_totalBytesOf\<close> are the static counters of the class, as this packet's operations move them.\<close>

(* @src libraries/octree/src/OctreePacketData.h 325-362 OctreePacketData *)
record octree_packet_data =
  opd_targetSize :: nat
  opd_enableCompression :: bool
  opd_uncompressed :: "byte list"
  opd_bytesInUse :: int
  opd_bytesAvailable :: int
  opd_subTreeAt :: int
  opd_bytesReserved :: int
  opd_subTreeBytesReserved :: int
  opd_compressed :: "byte list"
  opd_compressedBytes :: int
  opd_bytesInUseLastCheck :: int
  opd_dirty :: bool
  opd_bytesOf :: octree_counts
  opd_bytesOfOctalCodesCurrentSubTree :: int
  opd_totalBytesOf :: octree_counts

(* @src libraries/octree/src/OctreePacketData.h 80-97 LevelDetails *)
record level_details =
  ld_startIndex :: int
  ld_bytesOfOctalCodes :: int
  ld_bytesOfBitmasks :: int
  ld_bytesOfColor :: int
  ld_bytesReservedAtStart :: int

section \<open>Operations\<close>

(* @src libraries/octree/src/OctreePacketData.cpp 55-68 OctreePacketData::reset *)
definition OctreePacketData_reset :: "octree_packet_data \<Rightarrow> octree_packet_data" where
  "OctreePacketData_reset p = p\<lparr>opd_bytesInUse := 0, opd_bytesAvailable := int (opd_targetSize p),
     opd_bytesReserved := 0, opd_subTreeAt := 0, opd_compressedBytes := 0, opd_bytesInUseLastCheck := 0,
     opd_dirty := False,
     opd_bytesOf := (opd_bytesOf p)\<lparr>cnt_octalCodes := 0, cnt_bitMasks := 0, cnt_color := 0\<rparr>,
     opd_bytesOfOctalCodesCurrentSubTree := 0\<rparr>"

text \<open>\<open>QByteArray::resize\<close> keeps the beginning; \<open>fresh\<close> is what the new bytes hold.\<close>

definition QByteArray_resize :: "(nat \<Rightarrow> byte) \<Rightarrow> nat \<Rightarrow> byte list \<Rightarrow> byte list" where
  "QByteArray_resize fresh n bs = take n bs @ map fresh [length bs..<n]"

(* @src libraries/octree/src/OctreePacketData.cpp 39-53 OctreePacketData::changeSettings *)
definition OctreePacketData_changeSettings :: "(nat \<Rightarrow> byte) \<Rightarrow> bool \<Rightarrow> nat \<Rightarrow> octree_packet_data \<Rightarrow> octree_packet_data" where
  "OctreePacketData_changeSettings fresh enableCompression targetSize p =
     OctreePacketData_reset (p\<lparr>opd_enableCompression := enableCompression, opd_targetSize := targetSize,
       opd_uncompressed := QByteArray_resize fresh targetSize (opd_uncompressed p),
       opd_compressed := QByteArray_resize fresh (if enableCompression then targetSize else 0) (opd_compressed p)\<rparr>)"

text \<open>
  \<open>append\<close> of a block: refused when it is longer than what is available, otherwise copied behind the bytes in
  use. A copy outside the array is undefined.
\<close>

(* @src libraries/octree/src/OctreePacketData.cpp 73-95 OctreePacketData::append *)
definition OctreePacketData_append :: "byte list \<Rightarrow> octree_packet_data \<Rightarrow> (bool \<times> octree_packet_data) option" where
  "OctreePacketData_append data p =
     (if int (length data) \<le> opd_bytesAvailable p
      then do { buf \<leftarrow> mem_write (opd_uncompressed p) (nat (opd_bytesInUse p)) data;
                Some (True, p\<lparr>opd_uncompressed := buf, opd_bytesInUse := opd_bytesInUse p + int (length data),
                  opd_bytesAvailable := opd_bytesAvailable p - int (length data), opd_dirty := True\<rparr>) }
      else Some (False, p))"

(* @src libraries/octree/src/OctreePacketData.cpp 97-107 OctreePacketData::append(unsigned char) *)
definition OctreePacketData_appendByte :: "byte \<Rightarrow> octree_packet_data \<Rightarrow> (bool \<times> octree_packet_data) option" where
  "OctreePacketData_appendByte byte p =
     (if opd_bytesAvailable p > 0
      then do { buf \<leftarrow> mem_write (opd_uncompressed p) (nat (opd_bytesInUse p)) [byte];
                Some (True, p\<lparr>opd_uncompressed := buf, opd_bytesInUse := opd_bytesInUse p + 1,
                  opd_bytesAvailable := opd_bytesAvailable p - 1, opd_dirty := True\<rparr>) }
      else Some (False, p))"

(* @src libraries/octree/src/OctreePacketData.cpp 113-123 OctreePacketData::reserveBytes *)
definition OctreePacketData_reserveBytes :: "int \<Rightarrow> octree_packet_data \<Rightarrow> bool \<times> octree_packet_data" where
  "OctreePacketData_reserveBytes numberOfBytes p =
     (if opd_bytesAvailable p \<ge> numberOfBytes
      then (True, p\<lparr>opd_bytesReserved := opd_bytesReserved p + numberOfBytes,
                    opd_bytesAvailable := opd_bytesAvailable p - numberOfBytes\<rparr>)
      else (False, p))"

(* @src libraries/octree/src/OctreePacketData.cpp 109-111 OctreePacketData::reserveBitMask *)
definition OctreePacketData_reserveBitMask :: "octree_packet_data \<Rightarrow> bool \<times> octree_packet_data" where
  "OctreePacketData_reserveBitMask p = OctreePacketData_reserveBytes 1 p"

(* @src libraries/octree/src/OctreePacketData.cpp 129-139 OctreePacketData::releaseReservedBytes *)
definition OctreePacketData_releaseReservedBytes :: "int \<Rightarrow> octree_packet_data \<Rightarrow> bool \<times> octree_packet_data" where
  "OctreePacketData_releaseReservedBytes numberOfBytes p =
     (if opd_bytesReserved p \<ge> numberOfBytes
      then (True, p\<lparr>opd_bytesReserved := opd_bytesReserved p - numberOfBytes,
                    opd_bytesAvailable := opd_bytesAvailable p + numberOfBytes\<rparr>)
      else (False, p))"

(* @src libraries/octree/src/OctreePacketData.cpp 125-127 OctreePacketData::releaseReservedBitMask *)
definition OctreePacketData_releaseReservedBitMask :: "octree_packet_data \<Rightarrow> bool \<times> octree_packet_data" where
  "OctreePacketData_releaseReservedBitMask p = OctreePacketData_releaseReservedBytes 1 p"

(* @src libraries/octree/src/OctreePacketData.cpp 142-150 OctreePacketData::updatePriorBitMask *)
definition OctreePacketData_updatePriorBitMask :: "int \<Rightarrow> byte \<Rightarrow> octree_packet_data \<Rightarrow> (bool \<times> octree_packet_data) option" where
  "OctreePacketData_updatePriorBitMask offset bitmask p =
     (if offset \<ge> 0 \<and> offset < opd_bytesInUse p
      then do { buf \<leftarrow> mem_write (opd_uncompressed p) (nat offset) [bitmask];
                Some (True, p\<lparr>opd_uncompressed := buf, opd_dirty := True\<rparr>) }
      else Some (False, p))"

text \<open>\<open>replacementBytes\<close> are the bytes as they are before the copy, which \<open>memmove\<close> guarantees when they
  overlap their destination from above; the callers pass nothing else.\<close>

(* @src libraries/octree/src/OctreePacketData.cpp 152-164 OctreePacketData::updatePriorBytes *)
definition OctreePacketData_updatePriorBytes :: "int \<Rightarrow> byte list \<Rightarrow> octree_packet_data \<Rightarrow> (bool \<times> octree_packet_data) option" where
  "OctreePacketData_updatePriorBytes offset replacementBytes p =
     (if offset \<ge> 0 \<and> offset + int (length replacementBytes) \<le> opd_bytesInUse p
      then do { buf \<leftarrow> mem_write (opd_uncompressed p) (nat offset) replacementBytes;
                Some (True, p\<lparr>opd_uncompressed := buf, opd_dirty := True\<rparr>) }
      else Some (False, p))"

(* @src libraries/octree/src/OctreePacketData.cpp 166-189 OctreePacketData::startSubTree *)
definition OctreePacketData_startSubTree :: "byte list option \<Rightarrow> octree_packet_data \<Rightarrow> (bool \<times> octree_packet_data) option" where
  "OctreePacketData_startSubTree octcode p =
     (let p0 = p\<lparr>opd_bytesOfOctalCodesCurrentSubTree := cnt_octalCodes (opd_bytesOf p)\<rparr>;
          possibleStartAt = opd_bytesInUse p0
      in do { (success, length, p1) \<leftarrow> (case octcode of
                Some c \<Rightarrow>
                  do { n \<leftarrow> numberOfThreeBitSectionsInCode c UNKNOWN_OCTCODE_LENGTH;
                       let len = bytesRequiredForCodeLength (word_of_int n);
                       bytes \<leftarrow> mem_read c 0 len;
                       (ok, p1) \<leftarrow> OctreePacketData_append bytes p0;
                       Some (ok, int len, p1) }
              | None \<Rightarrow> do { (ok, p1) \<leftarrow> OctreePacketData_appendByte 0 p0; Some (ok, 1, p1) });
              Some (success,
                if success
                then p1\<lparr>opd_subTreeAt := possibleStartAt, opd_subTreeBytesReserved := opd_bytesReserved p1,
                  opd_bytesOf := (opd_bytesOf p1)\<lparr>cnt_octalCodes := cnt_octalCodes (opd_bytesOf p1) + length\<rparr>,
                  opd_totalBytesOf := (opd_totalBytesOf p1)\<lparr>cnt_octalCodes := cnt_octalCodes (opd_totalBytesOf p1) + length\<rparr>\<rparr>
                else p1) })"

(* @src libraries/octree/src/OctreePacketData.cpp 221-223 OctreePacketData::endSubTree *)
definition OctreePacketData_endSubTree :: "octree_packet_data \<Rightarrow> octree_packet_data" where
  "OctreePacketData_endSubTree p = p\<lparr>opd_subTreeAt := opd_bytesInUse p\<rparr>"

(* @src libraries/octree/src/OctreePacketData.cpp 225-239 OctreePacketData::discardSubTree *)
definition OctreePacketData_discardSubTree :: "octree_packet_data \<Rightarrow> octree_packet_data" where
  "OctreePacketData_discardSubTree p =
     (let bytesInSubTree = opd_bytesInUse p - opd_subTreeAt p;
          inUse = opd_bytesInUse p - bytesInSubTree;
          reduceBytesOfOctalCodes = cnt_octalCodes (opd_bytesOf p) - opd_bytesOfOctalCodesCurrentSubTree p
      in p\<lparr>opd_bytesInUse := inUse, opd_bytesAvailable := opd_bytesAvailable p + bytesInSubTree,
           opd_subTreeAt := inUse, opd_dirty := True,
           opd_bytesOf := (opd_bytesOf p)\<lparr>cnt_octalCodes := opd_bytesOfOctalCodesCurrentSubTree p\<rparr>,
           opd_totalBytesOf := (opd_totalBytesOf p)
             \<lparr>cnt_octalCodes := cnt_octalCodes (opd_totalBytesOf p) - reduceBytesOfOctalCodes\<rparr>,
           opd_bytesReserved := opd_subTreeBytesReserved p\<rparr>)"

(* @src libraries/octree/src/OctreePacketData.cpp 241-244 OctreePacketData::startLevel *)
definition OctreePacketData_startLevel :: "octree_packet_data \<Rightarrow> level_details" where
  "OctreePacketData_startLevel p = \<lparr>ld_startIndex = opd_bytesInUse p,
     ld_bytesOfOctalCodes = cnt_octalCodes (opd_bytesOf p), ld_bytesOfBitmasks = cnt_bitMasks (opd_bytesOf p),
     ld_bytesOfColor = cnt_color (opd_bytesOf p), ld_bytesReservedAtStart = opd_bytesReserved p\<rparr>"

(* @src libraries/octree/src/OctreePacketData.cpp 246-278 OctreePacketData::discardLevel *)
definition OctreePacketData_discardLevel :: "level_details \<Rightarrow> octree_packet_data \<Rightarrow> octree_packet_data" where
  "OctreePacketData_discardLevel key p =
     (let bytesInLevel = opd_bytesInUse p - ld_startIndex key;
          b = opd_bytesOf p; t = opd_totalBytesOf p;
          reduceBytesOfOctalCodes = cnt_octalCodes b - ld_bytesOfOctalCodes key;
          reduceBytesOfBitMasks = cnt_bitMasks b - ld_bytesOfBitmasks key;
          reduceBytesOfColor = cnt_color b - ld_bytesOfColor key
      in p\<lparr>opd_bytesOf := b\<lparr>cnt_octalCodes := ld_bytesOfOctalCodes key, cnt_bitMasks := ld_bytesOfBitmasks key,
             cnt_color := ld_bytesOfColor key\<rparr>,
           opd_totalBytesOf := t\<lparr>cnt_octalCodes := cnt_octalCodes t - reduceBytesOfOctalCodes,
             cnt_bitMasks := cnt_bitMasks t - reduceBytesOfBitMasks, cnt_color := cnt_color t - reduceBytesOfColor\<rparr>,
           opd_bytesInUse := opd_bytesInUse p - bytesInLevel,
           opd_bytesAvailable := opd_bytesAvailable p + bytesInLevel,
           opd_dirty := True, opd_bytesReserved := ld_bytesReservedAtStart key\<rparr>)"

text \<open>\<open>endLevel\<close> only warns about unused reserved bytes.\<close>

(* @src libraries/octree/src/OctreePacketData.cpp 280-291 OctreePacketData::endLevel *)
definition OctreePacketData_endLevel :: "level_details \<Rightarrow> octree_packet_data \<Rightarrow> bool" where
  "OctreePacketData_endLevel key p = True"

(* @src libraries/octree/src/OctreePacketData.cpp 293-300 OctreePacketData::appendBitMask *)
definition OctreePacketData_appendBitMask :: "byte \<Rightarrow> octree_packet_data \<Rightarrow> (bool \<times> octree_packet_data) option" where
  "OctreePacketData_appendBitMask bitmask p =
     do { (success, p1) \<leftarrow> OctreePacketData_appendByte bitmask p;
          Some (success, if success
            then p1\<lparr>opd_bytesOf := (opd_bytesOf p1)\<lparr>cnt_bitMasks := cnt_bitMasks (opd_bytesOf p1) + 1\<rparr>,
              opd_totalBytesOf := (opd_totalBytesOf p1)\<lparr>cnt_bitMasks := cnt_bitMasks (opd_totalBytesOf p1) + 1\<rparr>\<rparr>
            else p1) }"

(* @src libraries/octree/src/OctreePacketData.cpp 306-325 OctreePacketData::appendColor *)
definition OctreePacketData_appendColor :: "byte \<Rightarrow> byte \<Rightarrow> byte \<Rightarrow> octree_packet_data \<Rightarrow> (bool \<times> octree_packet_data) option" where
  "OctreePacketData_appendColor red green blue p =
     do { (success, p1) \<leftarrow>
            (if opd_bytesAvailable p > 3
             then do { (a, p1) \<leftarrow> OctreePacketData_appendByte red p;
                       if a then do { (b, p2) \<leftarrow> OctreePacketData_appendByte green p1;
                                      if b then OctreePacketData_appendByte blue p2 else Some (False, p2) }
                       else Some (False, p1) }
             else Some (False, p));
          Some (success, if success
            then p1\<lparr>opd_bytesOf := (opd_bytesOf p1)\<lparr>cnt_color := cnt_color (opd_bytesOf p1) + 3\<rparr>,
              opd_totalBytesOf := (opd_totalBytesOf p1)\<lparr>cnt_color := cnt_color (opd_totalBytesOf p1) + 3\<rparr>\<rparr>
            else p1) }"

(* @src libraries/octree/src/OctreePacketData.cpp 626-633 OctreePacketData::appendRawData *)
definition OctreePacketData_appendRawData :: "byte list \<Rightarrow> octree_packet_data \<Rightarrow> (bool \<times> octree_packet_data) option" where
  "OctreePacketData_appendRawData data p =
     do { (success, p1) \<leftarrow> OctreePacketData_append data p;
          Some (success, if success
            then p1\<lparr>opd_bytesOf := (opd_bytesOf p1)\<lparr>cnt_rawData := cnt_rawData (opd_bytesOf p1) + int (length data)\<rparr>,
              opd_totalBytesOf := (opd_totalBytesOf p1)\<lparr>cnt_rawData := cnt_rawData (opd_totalBytesOf p1) + int (length data)\<rparr>\<rparr>
            else p1) }"

(* @src libraries/octree/src/OctreePacketData.cpp 615-624 OctreePacketData::appendPosition *)
definition OctreePacketData_appendPosition :: "32 word \<times> 32 word \<times> 32 word \<Rightarrow> octree_packet_data \<Rightarrow> (bool \<times> octree_packet_data) option" where
  "OctreePacketData_appendPosition v p =
     (case v of (x, y, z) \<Rightarrow>
      do { (success, p1) \<leftarrow> OctreePacketData_append (le32 x @ le32 y @ le32 z) p;
           Some (success, if success
             then p1\<lparr>opd_bytesOf := (opd_bytesOf p1)\<lparr>cnt_positions := cnt_positions (opd_bytesOf p1) + 12\<rparr>,
               opd_totalBytesOf := (opd_totalBytesOf p1)\<lparr>cnt_positions := cnt_positions (opd_totalBytesOf p1) + 12\<rparr>\<rparr>
             else p1) })"

(* @src libraries/octree/src/OctreePacketData.h 236-236 OctreePacketData::getUncompressedByteOffset *)
definition OctreePacketData_getUncompressedByteOffset :: "int \<Rightarrow> octree_packet_data \<Rightarrow> int" where
  "OctreePacketData_getUncompressedByteOffset offsetFromEnd p = opd_bytesInUse p - offsetFromEnd"

(* @src libraries/octree/src/OctreePacketData.h 250-250 OctreePacketData::setUncompressedSize *)
definition OctreePacketData_setUncompressedSize :: "int \<Rightarrow> octree_packet_data \<Rightarrow> octree_packet_data" where
  "OctreePacketData_setUncompressedSize newSize p = p\<lparr>opd_bytesInUse := newSize\<rparr>"

(* @src libraries/octree/src/OctreePacketData.h 253-253 OctreePacketData::hasContent *)
definition OctreePacketData_hasContent :: "octree_packet_data \<Rightarrow> bool" where
  "OctreePacketData_hasContent p \<longleftrightarrow> opd_bytesInUse p > 0"

section \<open>Finalized content\<close>

text \<open>The asserts are those of a release build: they do nothing.\<close>

(* @src libraries/octree/src/OctreePacketData.cpp 644-670 OctreePacketData::compressContent *)
definition OctreePacketData_compressContent ::
  "(byte list \<Rightarrow> byte list) \<Rightarrow> octree_packet_data \<Rightarrow> (bool \<times> octree_packet_data) option" where
  "OctreePacketData_compressContent qCompress p =
     (let p0 = p\<lparr>opd_bytesInUseLastCheck := opd_bytesInUse p\<rparr> in
      do { uncompressedData \<leftarrow> mem_read (opd_uncompressed p0) 0 (nat (opd_bytesInUse p0));
           let compressedData = qCompress uncompressedData;
           if length compressedData < length (opd_compressed p0)
           then do { buf \<leftarrow> mem_write (opd_compressed p0) 0 compressedData;
                     Some (True, p0\<lparr>opd_compressedBytes := int (length compressedData), opd_compressed := buf,
                       opd_dirty := False\<rparr>) }
           else Some (False, p0) })"

text \<open>The two getters share their preparation; the data is the buffer the returned pointer leads to.\<close>

(* @src libraries/octree/src/OctreePacketData.cpp 191-203 OctreePacketData::getFinalizedData *)
definition OctreePacketData_getFinalizedData ::
  "(byte list \<Rightarrow> byte list) \<Rightarrow> octree_packet_data \<Rightarrow> (byte list \<times> octree_packet_data) option" where
  "OctreePacketData_getFinalizedData qCompress p =
     (if \<not> opd_enableCompression p then Some (opd_uncompressed p, p)
      else do { p1 \<leftarrow> (if opd_dirty p then map_option snd (OctreePacketData_compressContent qCompress p) else Some p);
                Some (opd_compressed p1, p1) })"

(* @src libraries/octree/src/OctreePacketData.cpp 205-218 OctreePacketData::getFinalizedSize *)
definition OctreePacketData_getFinalizedSize ::
  "(byte list \<Rightarrow> byte list) \<Rightarrow> octree_packet_data \<Rightarrow> (int \<times> octree_packet_data) option" where
  "OctreePacketData_getFinalizedSize qCompress p =
     (if \<not> opd_enableCompression p then Some (opd_bytesInUse p, p)
      else do { p1 \<leftarrow> (if opd_dirty p then map_option snd (OctreePacketData_compressContent qCompress p) else Some p);
                Some (opd_compressedBytes p1, p1) })"

(* @src libraries/octree/src/OctreePacketData.cpp 673-706 OctreePacketData::loadFinalizedContent *)
definition OctreePacketData_loadFinalizedContent ::
  "(byte list \<Rightarrow> byte list) \<Rightarrow> (nat \<Rightarrow> byte) \<Rightarrow> byte list \<Rightarrow> octree_packet_data \<Rightarrow> octree_packet_data option" where
  "OctreePacketData_loadFinalizedContent qUncompress fresh data p =
     (let p0 = OctreePacketData_reset p in
      if data \<noteq> [] then
        if opd_enableCompression p0 then
          do { compressed \<leftarrow> mem_write (opd_compressed p0) 0 data;
               let p1 = p0\<lparr>opd_compressedBytes := int (length data), opd_compressed := compressed\<rparr>;
               let uncompressedData = qUncompress data;
               let p2 = (if int (length uncompressedData) > opd_bytesAvailable p1
                         then (let moreNeeded = length uncompressedData - nat (opd_bytesAvailable p1)
                               in p1\<lparr>opd_uncompressed := QByteArray_resize fresh (length (opd_uncompressed p1) + moreNeeded) (opd_uncompressed p1),
                                     opd_bytesAvailable := opd_bytesAvailable p1 + int moreNeeded\<rparr>)
                         else p1);
               buf \<leftarrow> mem_write (opd_uncompressed p2) 0 uncompressedData;
               Some (p2\<lparr>opd_bytesInUse := int (length uncompressedData),
                 opd_bytesAvailable := opd_bytesAvailable p2 - int (length uncompressedData), opd_uncompressed := buf\<rparr>) }
        else
          do { buf \<leftarrow> mem_write (opd_uncompressed p0) 0 data;
               Some (p0\<lparr>opd_uncompressed := buf, opd_bytesInUse := int (length data)\<rparr>) }
      else Some p0)"

section \<open>The bounded byte list\<close>

text \<open>What the buffer stands for: its content, the bytes that can still be appended, the bytes reserved.\<close>

record bounded =
  bd_bytes :: "byte list"
  bd_free :: int
  bd_held :: int

definition opd_content :: "octree_packet_data \<Rightarrow> byte list" where
  "opd_content p = take (nat (opd_bytesInUse p)) (opd_uncompressed p)"

definition opd_abs :: "octree_packet_data \<Rightarrow> bounded" where
  "opd_abs p = \<lparr>bd_bytes = opd_content p, bd_free = opd_bytesAvailable p, bd_held = opd_bytesReserved p\<rparr>"

definition opd_inv :: "octree_packet_data \<Rightarrow> bool" where
  "opd_inv p \<longleftrightarrow> 0 \<le> opd_bytesInUse p \<and> 0 \<le> opd_bytesAvailable p \<and> 0 \<le> opd_bytesReserved p
     \<and> opd_bytesInUse p + opd_bytesAvailable p + opd_bytesReserved p \<le> int (length (opd_uncompressed p))"

text \<open>The operations on the buffer, and the same on the bounded list.\<close>

datatype opd_op = OpAppend "byte list" | OpByte byte | OpBitMask byte | OpColor byte byte byte | OpRaw "byte list"
  | OpReserve nat | OpRelease nat | OpUpdateMask int byte | OpUpdate int "byte list"

fun opd_do :: "opd_op \<Rightarrow> octree_packet_data \<Rightarrow> (bool \<times> octree_packet_data) option" where
  "opd_do (OpAppend data) p = OctreePacketData_append data p"
| "opd_do (OpByte b) p = OctreePacketData_appendByte b p"
| "opd_do (OpBitMask b) p = OctreePacketData_appendBitMask b p"
| "opd_do (OpColor r g b) p = OctreePacketData_appendColor r g b p"
| "opd_do (OpRaw data) p = OctreePacketData_appendRawData data p"
| "opd_do (OpReserve n) p = Some (OctreePacketData_reserveBytes (int n) p)"
| "opd_do (OpRelease n) p = Some (OctreePacketData_releaseReservedBytes (int n) p)"
| "opd_do (OpUpdateMask offset b) p = OctreePacketData_updatePriorBitMask offset b p"
| "opd_do (OpUpdate offset data) p = OctreePacketData_updatePriorBytes offset data p"

definition bounded_append :: "int \<Rightarrow> byte list \<Rightarrow> bounded \<Rightarrow> bool \<times> bounded" where
  "bounded_append needed data a =
     (if needed \<le> bd_free a
      then (True, a\<lparr>bd_bytes := bd_bytes a @ data, bd_free := bd_free a - int (length data)\<rparr>) else (False, a))"

definition overwrite :: "nat \<Rightarrow> byte list \<Rightarrow> byte list \<Rightarrow> byte list" where
  "overwrite n data bs = take n bs @ data @ drop (n + length data) bs"

definition bounded_update :: "int \<Rightarrow> byte list \<Rightarrow> bounded \<Rightarrow> bool \<times> bounded" where
  "bounded_update offset data a =
     (if 0 \<le> offset \<and> offset + int (length data) \<le> int (length (bd_bytes a))
      then (True, a\<lparr>bd_bytes := overwrite (nat offset) data (bd_bytes a)\<rparr>) else (False, a))"

fun bounded_do :: "opd_op \<Rightarrow> bounded \<Rightarrow> bool \<times> bounded" where
  "bounded_do (OpAppend data) a = bounded_append (int (length data)) data a"
| "bounded_do (OpByte b) a = bounded_append 1 [b] a"
| "bounded_do (OpBitMask b) a = bounded_append 1 [b] a"
| "bounded_do (OpColor r g b) a = bounded_append 3 [r, g, b] a"
| "bounded_do (OpRaw data) a = bounded_append (int (length data)) data a"
| "bounded_do (OpReserve n) a =
     (if int n \<le> bd_free a then (True, a\<lparr>bd_free := bd_free a - int n, bd_held := bd_held a + int n\<rparr>) else (False, a))"
| "bounded_do (OpRelease n) a =
     (if int n \<le> bd_held a then (True, a\<lparr>bd_free := bd_free a + int n, bd_held := bd_held a - int n\<rparr>) else (False, a))"
| "bounded_do (OpUpdateMask offset b) a = bounded_update offset [b] a"
| "bounded_do (OpUpdate offset data) a = bounded_update offset data a"

lemma length_opd_content: "opd_inv p \<Longrightarrow> int (length (opd_content p)) = opd_bytesInUse p"
  by (auto simp: opd_inv_def opd_content_def min_def)

lemma append_laws:
  assumes "opd_inv p" and b: "bounded_append (int (length data)) data (opd_abs p) = (ok, a)"
  shows "\<exists>p'. OctreePacketData_append data p = Some (ok, p') \<and> opd_abs p' = a \<and> opd_inv p'"
proof (cases "int (length data) \<le> opd_bytesAvailable p")
  case True
  let ?n = "nat (opd_bytesInUse p)"
  have fits: "?n + length data \<le> length (opd_uncompressed p)"
    using assms True by (auto simp: opd_inv_def)
  obtain buf where buf: "mem_write (opd_uncompressed p) ?n data = Some buf"
    "buf = take ?n (opd_uncompressed p) @ data @ drop (?n + length data) (opd_uncompressed p)"
    using fits by (simp add: mem_write_def)
  have "take (?n + length data) buf = opd_content p @ data"
    using fits by (simp add: buf(2) opd_content_def)
  moreover have "nat (opd_bytesInUse p + int (length data)) = ?n + length data"
    using assms by (simp add: opd_inv_def nat_add_distrib)
  moreover have "length buf = length (opd_uncompressed p)" using buf(1) by (rule mem_write_length)
  ultimately show ?thesis
    using True assms buf(1)
    by (auto simp: OctreePacketData_append_def opd_abs_def bounded_append_def opd_inv_def opd_content_def)
next
  case False
  then show ?thesis using assms by (auto simp: OctreePacketData_append_def bounded_append_def opd_abs_def)
qed

lemma appendByte_eq: "OctreePacketData_appendByte b = OctreePacketData_append [b]"
  by (rule ext) (auto simp add: OctreePacketData_appendByte_def OctreePacketData_append_def)

lemma opd_abs_counts [simp]:
  "opd_abs (p\<lparr>opd_bytesOf := x, opd_totalBytesOf := y\<rparr>) = opd_abs p" "opd_inv (p\<lparr>opd_bytesOf := x, opd_totalBytesOf := y\<rparr>) = opd_inv p"
  by (simp_all add: opd_abs_def opd_inv_def opd_content_def)

lemma take_overwrite:
  assumes "m + length d \<le> n" "n \<le> length xs"
  shows "take n (take m xs @ d @ drop (m + length d) xs) = overwrite m d (take n xs)"
proof -
  obtain ys zs where xs: "xs = ys @ zs" "length ys = n"
    using assms(2) by (metis append_take_drop_id length_take min.absorb2)
  obtain w where w: "take m ys @ d @ drop (m + length d) ys = w" by blast
  have "take m xs @ d @ drop (m + length d) xs = w @ zs"
    using assms(1) xs by (simp flip: w)
  moreover have "length w = n" using assms(1) xs(2) by (simp flip: w)
  moreover have "take n xs = ys" using xs by simp
  ultimately show ?thesis by (simp add: overwrite_def w)
qed

lemma update_laws:
  assumes "opd_inv p" and b: "bounded_update offset data (opd_abs p) = (ok, a)"
  shows "\<exists>p'. OctreePacketData_updatePriorBytes offset data p = Some (ok, p') \<and> opd_abs p' = a \<and> opd_inv p'"
proof (cases "0 \<le> offset \<and> offset + int (length data) \<le> opd_bytesInUse p")
  case True
  have fits: "nat offset + length data \<le> nat (opd_bytesInUse p)" using True by linarith
  have len: "nat (opd_bytesInUse p) \<le> length (opd_uncompressed p)"
    using assms by (auto simp: opd_inv_def)
  obtain buf where buf: "mem_write (opd_uncompressed p) (nat offset) data = Some buf"
    "buf = take (nat offset) (opd_uncompressed p) @ data @ drop (nat offset + length data) (opd_uncompressed p)"
    using len fits by (simp add: mem_write_def)
  have "take (nat (opd_bytesInUse p)) buf = overwrite (nat offset) data (opd_content p)"
    unfolding buf(2) opd_content_def by (rule take_overwrite [OF fits len])
  moreover have "length buf = length (opd_uncompressed p)" using buf(1) by (rule mem_write_length)
  ultimately show ?thesis
    using True assms buf(1) length_opd_content [OF assms(1)]
    by (auto simp: OctreePacketData_updatePriorBytes_def opd_abs_def bounded_update_def opd_inv_def opd_content_def)
next
  case False
  then show ?thesis
    using assms length_opd_content [OF assms(1)]
    by (auto simp: OctreePacketData_updatePriorBytes_def bounded_update_def opd_abs_def)
qed

lemma updateMask_eq: "OctreePacketData_updatePriorBitMask offset b = OctreePacketData_updatePriorBytes offset [b]"
  by (rule ext) (auto simp add: OctreePacketData_updatePriorBitMask_def OctreePacketData_updatePriorBytes_def)

lemma reserve_laws:
  assumes "opd_inv p" "bounded_do (OpReserve n) (opd_abs p) = (ok, a)"
  shows "\<exists>p'. OctreePacketData_reserveBytes (int n) p = (ok, p') \<and> opd_abs p' = a \<and> opd_inv p'"
  using assms by (auto simp: OctreePacketData_reserveBytes_def opd_abs_def opd_inv_def opd_content_def split: if_splits)

lemma release_laws:
  assumes "opd_inv p" "bounded_do (OpRelease n) (opd_abs p) = (ok, a)"
  shows "\<exists>p'. OctreePacketData_releaseReservedBytes (int n) p = (ok, p') \<and> opd_abs p' = a \<and> opd_inv p'"
  using assms by (auto simp: OctreePacketData_releaseReservedBytes_def opd_abs_def opd_inv_def opd_content_def split: if_splits)

lemma appendColor_laws:
  assumes "opd_inv p" and b: "bounded_append 4 [r, g, b] (opd_abs p) = (ok, a)"
  shows "\<exists>p'. OctreePacketData_appendColor r g b p = Some (ok, p') \<and> opd_abs p' = a \<and> opd_inv p'"
proof (cases "opd_bytesAvailable p > 3")
  case True
  have one: "\<exists>p'. OctreePacketData_appendByte x q = Some (True, p')
      \<and> opd_abs p' = (opd_abs q)\<lparr>bd_bytes := bd_bytes (opd_abs q) @ [x], bd_free := bd_free (opd_abs q) - 1\<rparr> \<and> opd_inv p'"
    if "opd_inv q" "0 < bd_free (opd_abs q)" for x q
    using append_laws [OF that(1), of "[x]"] that(2) by (auto simp: appendByte_eq bounded_append_def)
  have f: "3 < bd_free (opd_abs p)" using True by (simp add: opd_abs_def)
  obtain p1 where p1: "OctreePacketData_appendByte r p = Some (True, p1)" "opd_inv p1"
      "opd_abs p1 = (opd_abs p)\<lparr>bd_bytes := bd_bytes (opd_abs p) @ [r], bd_free := bd_free (opd_abs p) - 1\<rparr>"
    using one [OF assms(1)] f by force
  obtain p2 where p2: "OctreePacketData_appendByte g p1 = Some (True, p2)" "opd_inv p2"
      "opd_abs p2 = (opd_abs p)\<lparr>bd_bytes := bd_bytes (opd_abs p) @ [r, g], bd_free := bd_free (opd_abs p) - 2\<rparr>"
    using one [OF p1(2), of g] p1(3) f by auto
  obtain p3 where p3: "OctreePacketData_appendByte b p2 = Some (True, p3)" "opd_inv p3"
      "opd_abs p3 = (opd_abs p)\<lparr>bd_bytes := bd_bytes (opd_abs p) @ [r, g, b], bd_free := bd_free (opd_abs p) - 3\<rparr>"
    using one [OF p2(2), of b] p2(3) f by auto
  have "a = opd_abs p3" "ok" using assms(2) f p3(3) by (auto simp: bounded_append_def)
  then show ?thesis
    using True p1(1) p2(1) p3(1,2) by (simp add: OctreePacketData_appendColor_def)
next
  case False
  then show ?thesis using assms by (auto simp: OctreePacketData_appendColor_def bounded_append_def opd_abs_def)
qed

text \<open>
  The one place where the buffer is not the list: \<open>appendColor\<close> asks for more than the three bytes it takes, so a
  colour that would exactly fill the buffer is refused.
\<close>

fun opd_tight :: "opd_op \<Rightarrow> octree_packet_data \<Rightarrow> bool" where
  "opd_tight (OpColor r g b) p \<longleftrightarrow> opd_bytesAvailable p = 3"
| "opd_tight _ p \<longleftrightarrow> False"

lemma tight_color: "opd_bytesAvailable p = 3 \<Longrightarrow> OctreePacketData_appendColor r g b p = Some (False, p)"
  by (simp add: OctreePacketData_appendColor_def)

lemma opd_tight_laws:
  "opd_tight x p \<Longrightarrow> opd_do x p = Some (False, p) \<and> fst (bounded_do x (opd_abs p))"
  by (cases x) (auto simp: tight_color bounded_append_def opd_abs_def)

lemma opd_do_laws:
  assumes "opd_inv p" "\<not> opd_tight x p" "bounded_do x (opd_abs p) = (ok, a)"
  shows "\<exists>p'. opd_do x p = Some (ok, p') \<and> opd_abs p' = a \<and> opd_inv p'"
proof (cases x)
  case (OpAppend data) then show ?thesis using append_laws [OF assms(1)] assms(3) by simp
next
  case (OpByte b) then show ?thesis using append_laws [OF assms(1), of "[b]"] assms(3) by (simp add: appendByte_eq)
next
  case (OpBitMask b)
  then obtain p' where "OctreePacketData_append [b] p = Some (ok, p')" "opd_abs p' = a" "opd_inv p'"
    using append_laws [OF assms(1), of "[b]"] assms(3) by auto
  then show ?thesis using OpBitMask by (simp add: OctreePacketData_appendBitMask_def appendByte_eq)
next
  case (OpColor r g b)
  then have "bounded_append 4 [r, g, b] (opd_abs p) = (ok, a)"
    using assms(2,3) by (auto simp: bounded_append_def opd_abs_def split: if_splits)
  then show ?thesis using OpColor appendColor_laws [OF assms(1)] by simp
next
  case (OpRaw data)
  then obtain p' where "OctreePacketData_append data p = Some (ok, p')" "opd_abs p' = a" "opd_inv p'"
    using append_laws [OF assms(1), of data] assms(3) by auto
  then show ?thesis using OpRaw by (simp add: OctreePacketData_appendRawData_def)
next
  case (OpReserve n) then show ?thesis using reserve_laws [OF assms(1)] assms(3) by simp
next
  case (OpRelease n) then show ?thesis using release_laws [OF assms(1)] assms(3) by simp
next
  case (OpUpdateMask offset b) then show ?thesis using update_laws [OF assms(1), of offset "[b]"] assms(3) by (simp add: updateMask_eq)
next
  case (OpUpdate offset data) then show ?thesis using update_laws [OF assms(1)] assms(3) by simp
qed

section \<open>Sequences of operations and levels\<close>

fun opd_run :: "opd_op list \<Rightarrow> octree_packet_data \<Rightarrow> (bool list \<times> octree_packet_data) option" where
  "opd_run [] p = Some ([], p)"
| "opd_run (x # xs) p = do { (ok, p1) \<leftarrow> opd_do x p; (oks, p2) \<leftarrow> opd_run xs p1; Some (ok # oks, p2) }"

fun bounded_run :: "opd_op list \<Rightarrow> bounded \<Rightarrow> bool list \<times> bounded" where
  "bounded_run [] a = ([], a)"
| "bounded_run (x # xs) a = (let (ok, a1) = bounded_do x a; (oks, a2) = bounded_run xs a1 in (ok # oks, a2))"

lemma opd_run_laws:
  "opd_inv p \<Longrightarrow> \<exists>oks q ys oks'. opd_run xs p = Some (oks, q) \<and> opd_inv q \<and> set ys \<subseteq> set xs
     \<and> bounded_run ys (opd_abs p) = (oks', opd_abs q)"
proof (induction xs arbitrary: p)
  case (Cons x xs)
  show ?case
  proof (cases "opd_tight x p")
    case True
    obtain oks q ys oks' where "opd_run xs p = Some (oks, q)" "opd_inv q" "set ys \<subseteq> set xs" "bounded_run ys (opd_abs p) = (oks', opd_abs q)"
      using Cons.IH [OF Cons.prems] by blast
    then show ?thesis
      using opd_tight_laws [OF True] by (intro exI [of _ "False # oks"] exI [of _ q] exI [of _ ys] exI [of _ oks']) auto
  next
    case False
    obtain ok a where 1: "bounded_do x (opd_abs p) = (ok, a)" by (rule prod.exhaust)
    obtain p1 where p1: "opd_do x p = Some (ok, p1)" "opd_abs p1 = a" "opd_inv p1"
      using opd_do_laws [OF Cons.prems False 1] by blast
    obtain oks q ys oks' where "opd_run xs p1 = Some (oks, q)" "opd_inv q" "set ys \<subseteq> set xs" "bounded_run ys (opd_abs p1) = (oks', opd_abs q)"
      using Cons.IH [OF p1(3)] by blast
    then show ?thesis
      using p1 1 by (intro exI [of _ "ok # oks"] exI [of _ q] exI [of _ "x # ys"] exI [of _ "ok # oks'"]) auto
  qed
qed (auto intro: exI [of _ "[]"])

lemma opd_run_plain:
  "opd_inv p \<Longrightarrow> \<forall>x \<in> set xs. \<forall>q. \<not> opd_tight x q \<Longrightarrow> bounded_run xs (opd_abs p) = (oks, a)
    \<Longrightarrow> \<exists>p'. opd_run xs p = Some (oks, p') \<and> opd_abs p' = a \<and> opd_inv p'"
proof (induction xs arbitrary: p oks a)
  case (Cons x xs)
  obtain ok a1 where 1: "bounded_do x (opd_abs p) = (ok, a1)" by (rule prod.exhaust)
  obtain oks' a2 where 2: "bounded_run xs a1 = (oks', a2)" by (rule prod.exhaust)
  obtain p1 where p1: "opd_do x p = Some (ok, p1)" "opd_abs p1 = a1" "opd_inv p1"
    using opd_do_laws [OF Cons.prems(1) _ 1] Cons.prems(2) by auto
  obtain p2 where "opd_run xs p1 = Some (oks', p2)" "opd_abs p2 = a2" "opd_inv p2"
    using Cons.IH [OF p1(3)] 2 p1(2) Cons.prems(2) by auto
  then show ?case using p1(1) Cons.prems(3) 1 2 by simp
qed simp

lemma opd_fresh_laws:
  "opd_inv (OctreePacketData_changeSettings fresh enableCompression targetSize p)
    \<and> opd_abs (OctreePacketData_changeSettings fresh enableCompression targetSize p)
      = \<lparr>bd_bytes = [], bd_free = int targetSize, bd_held = 0\<rparr>"
  by (simp add: OctreePacketData_changeSettings_def OctreePacketData_reset_def opd_inv_def opd_abs_def opd_content_def
      QByteArray_resize_def)

lemma bounded_do_sum:
  "bounded_do y b = (ok, c) \<Longrightarrow> int (length (bd_bytes c)) + bd_free c + bd_held c = int (length (bd_bytes b)) + bd_free b + bd_held b"
  by (cases y) (auto simp: bounded_append_def bounded_update_def overwrite_def split: if_splits)

lemma bounded_run_sum:
  "bounded_run ys b = (js, a) \<Longrightarrow> int (length (bd_bytes a)) + bd_free a + bd_held a = int (length (bd_bytes b)) + bd_free b + bd_held b"
  by (induction ys arbitrary: b js) (auto simp: bounded_do_sum split: prod.splits)

text \<open>
  C31. The packing buffer is a bounded list of bytes: it starts as the empty list with the size asked for, whatever
  is then appended, reserved, released or overwritten, in any order, no operation reaches outside the array or takes
  the content over that size, and after any such history the next operation, whatever it is, succeeds or is refused
  exactly as on the list and leaves what the list has, where the list takes an append as soon as its bytes fit. There is one
  exception: a colour, when exactly its three bytes are free, fits on the list, but the code refuses it and changes
  nothing (\<open>appendColor\<close> asks for more than three bytes).
\<close>

theorem OctreePacketData_refines_bounded_list:
  "opd_abs (OctreePacketData_changeSettings fresh enableCompression targetSize old) = \<lparr>bd_bytes = [], bd_free = int targetSize, bd_held = 0\<rparr>
    \<and> (\<exists>oks p. opd_run xs (OctreePacketData_changeSettings fresh enableCompression targetSize old) = Some (oks, p)
        \<and> length (opd_content p) \<le> targetSize
        \<and> (\<forall>x ok a. bounded_do x (opd_abs p) = (ok, a) \<longrightarrow>
             (if opd_tight x p then ok \<and> opd_do x p = Some (False, p)
              else \<exists>p'. opd_do x p = Some (ok, p') \<and> opd_abs p' = a)))"
proof -
  let ?p = "OctreePacketData_changeSettings fresh enableCompression targetSize old"
  have f: "opd_inv ?p" "opd_abs ?p = \<lparr>bd_bytes = [], bd_free = int targetSize, bd_held = 0\<rparr>" using opd_fresh_laws by blast+
  obtain oks p ys oks' where p: "opd_run xs ?p = Some (oks, p)" "opd_inv p" "bounded_run ys (opd_abs ?p) = (oks', opd_abs p)"
    using opd_run_laws [OF f(1), of xs] by blast
  have "length (opd_content p) \<le> targetSize"
    using bounded_run_sum [OF p(3)] p(2) by (simp add: f(2)) (simp add: opd_abs_def opd_inv_def)
  moreover have "if opd_tight x p then ok \<and> opd_do x p = Some (False, p) else \<exists>p'. opd_do x p = Some (ok, p') \<and> opd_abs p' = a"
    if b: "bounded_do x (opd_abs p) = (ok, a)" for x ok a
    using opd_tight_laws [of x p] opd_do_laws [OF p(2) _ b] b by auto
  ultimately show ?thesis using f(2) p(1) by blast
qed

theorem OctreePacketData_refines_bounded_list_witness:
  "\<exists>p p'. opd_run [OpAppend [1, 2, 3], OpReserve 2, OpAppend [4], OpUpdate 1 [9], OpRelease 2]
      (OctreePacketData_changeSettings (\<lambda>_. 0) False 5 undefined) = Some ([True, True, False, True, True], p)
    \<and> opd_do (OpByte 5) p = Some (True, p') \<and> opd_content p' = [1, 9, 3, 5]"
proof -
  let ?ops = "[OpAppend [1, 2, 3], OpReserve 2, OpAppend [4], OpUpdate 1 [9], OpRelease 2]"
  let ?s = "OctreePacketData_changeSettings (\<lambda>_. 0) False 5 undefined"
  obtain oks p where p: "opd_run ?ops ?s = Some (oks, p)" and
    n: "\<forall>x ok a. bounded_do x (opd_abs p) = (ok, a) \<longrightarrow>
             (if opd_tight x p then ok \<and> opd_do x p = Some (False, p)
              else \<exists>p'. opd_do x p = Some (ok, p') \<and> opd_abs p' = a)"
    using OctreePacketData_refines_bounded_list [of "\<lambda>_. 0" False 5 undefined ?ops] by blast
  have b: "bounded_run ?ops (opd_abs ?s) = ([True, True, False, True, True], \<lparr>bd_bytes = [1, 9, 3], bd_free = 2, bd_held = 0\<rparr>)"
    unfolding conjunct2 [OF opd_fresh_laws] by (simp add: bounded_append_def bounded_update_def overwrite_def)
  have plain: "\<forall>x \<in> set ?ops. \<forall>q. \<not> opd_tight x q" by simp
  obtain p0 where "opd_run ?ops ?s = Some ([True, True, False, True, True], p0)"
      "opd_abs p0 = \<lparr>bd_bytes = [1, 9, 3], bd_free = 2, bd_held = 0\<rparr>"
    using opd_run_plain [OF conjunct1 [OF opd_fresh_laws] plain b] by blast
  then have r: "oks = [True, True, False, True, True] \<and> opd_abs p = \<lparr>bd_bytes = [1, 9, 3], bd_free = 2, bd_held = 0\<rparr>"
    using p by (simp del: opd_run.simps)
  have "bounded_do (OpByte 5) (opd_abs p) = (True, \<lparr>bd_bytes = [1, 9, 3, 5], bd_free = 1, bd_held = 0\<rparr>)"
    using r by (simp add: bounded_append_def)
  note next_op = mp [OF spec [OF spec [OF spec [OF n]]] this]
  obtain p' where "opd_do (OpByte 5) p = Some (True, p')" "opd_abs p' = \<lparr>bd_bytes = [1, 9, 3, 5], bd_free = 1, bd_held = 0\<rparr>"
    using next_op [unfolded opd_tight.simps if_False] by blast
  then have "opd_do (OpByte 5) p = Some (True, p')" "opd_content p' = [1, 9, 3, 5]" by (simp_all add: opd_abs_def)
  then show ?thesis using p conjunct1 [OF r] by blast
qed

text \<open>An operation that overwrites nothing in front of \<open>n\<close>.\<close>

fun opd_behind :: "int \<Rightarrow> opd_op \<Rightarrow> bool" where
  "opd_behind n (OpUpdateMask offset b) \<longleftrightarrow> n \<le> offset"
| "opd_behind n (OpUpdate offset data) \<longleftrightarrow> n \<le> offset"
| "opd_behind n _ \<longleftrightarrow> True"

lemma bounded_do_keeps:
  assumes "bounded_do x a = (ok, b)" "opd_behind (int n) x" "n \<le> length (bd_bytes a)"
  shows "n \<le> length (bd_bytes b) \<and> take n (bd_bytes b) = take n (bd_bytes a)
    \<and> int (length (bd_bytes b)) + bd_free b + bd_held b = int (length (bd_bytes a)) + bd_free a + bd_held a"
  using assms by (cases x) (auto simp: bounded_append_def bounded_update_def overwrite_def min_def split: if_splits)

lemma bounded_run_keeps:
  "bounded_run xs a = (oks, b) \<Longrightarrow> \<forall>x \<in> set xs. opd_behind (int n) x \<Longrightarrow> n \<le> length (bd_bytes a)
    \<Longrightarrow> n \<le> length (bd_bytes b) \<and> take n (bd_bytes b) = take n (bd_bytes a)
      \<and> int (length (bd_bytes b)) + bd_free b + bd_held b = int (length (bd_bytes a)) + bd_free a + bd_held a"
proof (induction xs arbitrary: a oks)
  case (Cons x xs)
  obtain ok c where c: "bounded_do x a = (ok, c)" by (rule prod.exhaust)
  then obtain oks' where "bounded_run xs c = (oks', b)" using Cons.prems(1) by (auto split: prod.splits)
  then show ?case using Cons.IH [of c oks'] bounded_do_keeps [OF c, of n] Cons.prems(2,3) by simp
qed simp

text \<open>
  Discarding a level takes back everything done since its start: the content, the reserved bytes and the
  counts of octal codes, bit masks and colours are those of the start, whatever was appended, reserved, released
  or overwritten behind it. The space comes back except for bytes that were reserved in the level and not
  released before it was discarded: the code restores the reservation but not the space, which is lost.
\<close>

theorem OctreePacketData_discardLevel_takes_back:
  assumes "opd_inv p" "opd_run xs p = Some (oks, q)" "\<forall>x \<in> set xs. opd_behind (opd_bytesInUse p) x"
    and "r = OctreePacketData_discardLevel (OctreePacketData_startLevel p) q"
  shows "opd_content r = opd_content p \<and> opd_bytesInUse r = opd_bytesInUse p \<and> opd_bytesReserved r = opd_bytesReserved p
    \<and> cnt_octalCodes (opd_bytesOf r) = cnt_octalCodes (opd_bytesOf p) \<and> cnt_bitMasks (opd_bytesOf r) = cnt_bitMasks (opd_bytesOf p)
    \<and> cnt_color (opd_bytesOf r) = cnt_color (opd_bytesOf p)
    \<and> opd_bytesAvailable r = opd_bytesAvailable p - (opd_bytesReserved q - opd_bytesReserved p)
    \<and> (opd_bytesReserved p \<le> opd_bytesReserved q \<longrightarrow> 0 \<le> opd_bytesAvailable r \<longrightarrow> opd_inv r)"
proof -
  obtain ys js where a: "bounded_run ys (opd_abs p) = (js, opd_abs q)" "set ys \<subseteq> set xs" "opd_inv q"
    using opd_run_laws [OF assms(1), of xs] assms(2) by auto
  obtain n where n: "opd_bytesInUse p = int n" using assms(1) by (metis opd_inv_def nonneg_int_cases)
  have len: "length (opd_content p) = n" using length_opd_content [OF assms(1)] n by simp
  have k: "n \<le> length (opd_content q)" "take n (opd_content q) = opd_content p"
      "int (length (opd_content q)) + opd_bytesAvailable q + opd_bytesReserved q
        = int n + opd_bytesAvailable p + opd_bytesReserved p"
    using bounded_run_keeps [OF a(1), of n] assms(3) a(2) len by (auto simp: n opd_abs_def)
  have inq: "int (length (opd_content q)) = opd_bytesInUse q" by (rule length_opd_content [OF a(3)])
  have "n \<le> nat (opd_bytesInUse q)" using k(1) inq by linarith
  then have c: "take n (opd_uncompressed q) = take n (opd_content q)" by (simp add: opd_content_def min_def)
  have r: "opd_bytesInUse r = int n" "opd_bytesReserved r = opd_bytesReserved p" "opd_uncompressed r = opd_uncompressed q"
      "opd_bytesAvailable r = opd_bytesAvailable q + (opd_bytesInUse q - int n)"
      "cnt_octalCodes (opd_bytesOf r) = cnt_octalCodes (opd_bytesOf p)" "cnt_bitMasks (opd_bytesOf r) = cnt_bitMasks (opd_bytesOf p)"
      "cnt_color (opd_bytesOf r) = cnt_color (opd_bytesOf p)"
    by (simp_all add: assms(4) OctreePacketData_discardLevel_def OctreePacketData_startLevel_def Let_def n)
  have avail: "opd_bytesAvailable r = opd_bytesAvailable p - (opd_bytesReserved q - opd_bytesReserved p)"
    using k(3) inq r(4) by linarith
  have "opd_content r = opd_content p" using c k(2) by (simp add: opd_content_def [of r] r)
  moreover have "opd_inv r" if "opd_bytesReserved p \<le> opd_bytesReserved q" "0 \<le> opd_bytesAvailable r"
    using a(3) assms(1) that avail k(3) inq by (auto simp: opd_inv_def r(1-3))
  ultimately show ?thesis using r avail n by simp
qed

theorem OctreePacketData_discardLevel_takes_back_witness:
  "\<exists>p q. opd_bytesAvailable p = 5 \<and> opd_run [OpAppend [1, 2], OpReserve 2] p = Some ([True, True], q)
    \<and> opd_bytesAvailable (OctreePacketData_discardLevel (OctreePacketData_startLevel p) q) = 3"
proof -
  obtain p where p: "opd_inv p" "opd_abs p = \<lparr>bd_bytes = [], bd_free = int 5, bd_held = 0\<rparr>"
    using opd_fresh_laws [of "\<lambda>_. 0" False 5] by blast
  have b: "bounded_run [OpAppend [1, 2], OpReserve 2] (opd_abs p) = ([True, True], \<lparr>bd_bytes = [1, 2], bd_free = 1, bd_held = 2\<rparr>)"
    by (simp add: p(2) bounded_append_def)
  obtain q where q: "opd_run [OpAppend [1, 2], OpReserve 2] p = Some ([True, True], q)"
      "opd_abs q = \<lparr>bd_bytes = [1, 2], bd_free = 1, bd_held = 2\<rparr>"
    using opd_run_plain [OF p(1) _ b] by auto
  show ?thesis
    using OctreePacketData_discardLevel_takes_back [OF p(1) q(1) _ refl] q p(2) by (auto simp: opd_abs_def)
qed

section \<open>Finalized content round trip\<close>

lemma fresh_finalized:
  assumes "opd_enableCompression p" "opd_dirty p" "opd_inv p" "length (qCompress (opd_content p)) < length (opd_compressed p)"
  shows "\<exists>p'. OctreePacketData_compressContent qCompress p = Some (True, p')
    \<and> opd_compressedBytes p' = int (length (qCompress (opd_content p)))
    \<and> take (length (qCompress (opd_content p))) (opd_compressed p') = qCompress (opd_content p)
    \<and> \<not> opd_dirty p' \<and> opd_enableCompression p'"
proof -
  have r: "mem_read (opd_uncompressed p) 0 (nat (opd_bytesInUse p)) = Some (opd_content p)"
    using assms(3) by (auto simp: mem_read_def opd_content_def opd_inv_def)
  obtain buf where buf: "mem_write (opd_compressed p) 0 (qCompress (opd_content p)) = Some buf"
      "take (length (qCompress (opd_content p))) buf = qCompress (opd_content p)"
    using assms(4) by (simp add: mem_write_def)
  then show ?thesis
    using assms(1,4) r by (simp add: OctreePacketData_compressContent_def)
qed

text \<open>
  C40. What one end packs the other end unpacks. With compression, if the compressed content fits and Qt's
  decompression undoes its compression, loading the finalized data of one packet into another gives the same
  content and a buffer whose bounds are right again, even when the reader's array has to grow.
\<close>

theorem OctreePacketData_finalized_roundtrip:
  assumes "opd_inv p" "opd_enableCompression p" "opd_dirty p" "opd_content p \<noteq> []"
    and q: "opd_enableCompression q" "length (opd_uncompressed q) = opd_targetSize q"
    and z: "\<forall>bs. qUncompress (qCompress bs) = bs" "\<forall>bs. qCompress bs \<noteq> []"
      "length (qCompress (opd_content p)) < length (opd_compressed p)"
      "length (qCompress (opd_content p)) \<le> length (opd_compressed q)"
  shows "\<exists>size p1 data p2 q'. OctreePacketData_getFinalizedSize qCompress p = Some (size, p1)
    \<and> OctreePacketData_getFinalizedData qCompress p1 = Some (data, p2)
    \<and> OctreePacketData_loadFinalizedContent qUncompress fresh (take (nat size) data) q = Some q'
    \<and> opd_content q' = opd_content p \<and> opd_inv q'"
proof -
  let ?c = "qCompress (opd_content p)"
  obtain p1 where p1: "OctreePacketData_compressContent qCompress p = Some (True, p1)" "opd_compressedBytes p1 = int (length ?c)"
      "take (length ?c) (opd_compressed p1) = ?c" "\<not> opd_dirty p1" "opd_enableCompression p1"
    using fresh_finalized [where qCompress = qCompress, OF assms(2,3,1) z(3)] by blast
  have size: "OctreePacketData_getFinalizedSize qCompress p = Some (int (length ?c), p1)"
    using assms(2,3) p1(1,2) by (simp add: OctreePacketData_getFinalizedSize_def)
  have data: "OctreePacketData_getFinalizedData qCompress p1 = Some (opd_compressed p1, p1)"
    using p1(4,5) by (simp add: OctreePacketData_getFinalizedData_def)
  obtain u where u: "opd_content p = u" by blast
  obtain r where r: "OctreePacketData_reset q = r" by blast
  have rf: "opd_enableCompression r" "opd_compressed r = opd_compressed q" "opd_uncompressed r = opd_uncompressed q"
      "opd_bytesAvailable r = int (opd_targetSize q)" "opd_bytesReserved r = 0"
    using q(1) by (simp_all add: OctreePacketData_reset_def flip: r)
  obtain cb where cb: "mem_write (opd_compressed q) 0 ?c = Some cb" using z(4) by (simp add: mem_write_def)
  obtain r1 where r1: "r\<lparr>opd_compressedBytes := int (length ?c), opd_compressed := cb\<rparr> = r1" by blast
  have r1f: "opd_bytesAvailable r1 = int (opd_targetSize q)" "opd_uncompressed r1 = opd_uncompressed q" "opd_bytesReserved r1 = 0"
    using rf by (simp_all flip: r1)
  obtain r2 where r2: "(if int (length u) > opd_bytesAvailable r1
       then r1\<lparr>opd_uncompressed := QByteArray_resize fresh
                 (length (opd_uncompressed r1) + (length u - nat (opd_bytesAvailable r1))) (opd_uncompressed r1),
               opd_bytesAvailable := opd_bytesAvailable r1 + int (length u - nat (opd_bytesAvailable r1))\<rparr>
       else r1) = r2" by blast
  have r2f: "opd_bytesAvailable r2 = int (max (opd_targetSize q) (length u))" "length (opd_uncompressed r2) = max (opd_targetSize q) (length u)"
      "opd_bytesReserved r2 = 0"
    using r1f q(2) by (auto simp: QByteArray_resize_def Let_def simp flip: r2)
  obtain buf where buf: "mem_write (opd_uncompressed r2) 0 u = Some buf" "take (length u) buf = u" "length buf = length (opd_uncompressed r2)"
    using r2f(2) by (simp add: mem_write_def)
  have "OctreePacketData_loadFinalizedContent qUncompress fresh ?c q = Some (r2\<lparr>opd_bytesInUse := int (length u),
      opd_bytesAvailable := opd_bytesAvailable r2 - int (length u), opd_uncompressed := buf\<rparr>)" (is "_ = Some ?q'")
  proof -
    have ne: "?c \<noteq> []" and un: "qUncompress ?c = u" using z(1,2) u by simp_all
    show ?thesis
      unfolding OctreePacketData_loadFinalizedContent_def Let_def r if_P [OF ne] if_P [OF rf(1)] rf(2) cb
        Option.bind.bind_lunit r1 un r2 buf(1) ..
  qed
  moreover have "opd_content ?q' = u" using buf(2) by (simp add: opd_content_def)
  moreover have "opd_inv ?q'" using r2f buf(3) by (simp add: opd_inv_def)
  ultimately show ?thesis using size data p1(3) u by fastforce
qed

theorem OctreePacketData_finalized_roundtrip_witness:
  "\<exists>p q size p1 data p2 q'. OctreePacketData_getFinalizedSize (\<lambda>bs. 0 # bs) p = Some (size, p1)
    \<and> OctreePacketData_getFinalizedData (\<lambda>bs. 0 # bs) p1 = Some (data, p2)
    \<and> OctreePacketData_loadFinalizedContent tl (\<lambda>_. 0) (take (nat size) data) q = Some q'
    \<and> opd_content p = [1, 2, 3] \<and> opd_targetSize q = 5 \<and> opd_content q' = [1, 2, 3]"
proof -
  let ?c = "\<lparr>cnt_octalCodes = 0, cnt_bitMasks = 0, cnt_color = 0, cnt_values = 0, cnt_positions = 0, cnt_rawData = 0\<rparr>"
  obtain p where p: "p = \<lparr>opd_targetSize = 5, opd_enableCompression = True, opd_uncompressed = [1, 2, 3, 0, 0],
      opd_bytesInUse = 3, opd_bytesAvailable = 2, opd_subTreeAt = 0, opd_bytesReserved = 0, opd_subTreeBytesReserved = 0,
      opd_compressed = [0, 0, 0, 0, 0], opd_compressedBytes = 0, opd_bytesInUseLastCheck = 0, opd_dirty = True,
      opd_bytesOf = ?c, opd_bytesOfOctalCodesCurrentSubTree = 0, opd_totalBytesOf = ?c\<rparr>" by blast
  have f: "opd_inv p" "opd_enableCompression p" "opd_dirty p" "length (opd_uncompressed p) = opd_targetSize p"
    "opd_targetSize p = 5" "opd_content p = [1, 2, 3]" "length (opd_compressed p) = 5"
    by (simp_all add: p opd_inv_def opd_content_def)
  have "opd_content p \<noteq> []" "\<forall>bs. tl ((0 :: byte) # bs) = bs" "\<forall>bs. (0 :: byte) # bs \<noteq> []"
    "length ((0 :: byte) # opd_content p) < length (opd_compressed p)" "length ((0 :: byte) # opd_content p) \<le> length (opd_compressed p)"
    by (simp_all add: f)
  from OctreePacketData_finalized_roundtrip [where qCompress = "\<lambda>bs. 0 # bs" and qUncompress = tl and fresh = "\<lambda>_. 0",
      OF f(1-3) this(1) f(2,4) this(2-5)]
  obtain size p1 data p2 q' where "OctreePacketData_getFinalizedSize (\<lambda>bs. 0 # bs) p = Some (size, p1)"
    "OctreePacketData_getFinalizedData (\<lambda>bs. 0 # bs) p1 = Some (data, p2)"
    "OctreePacketData_loadFinalizedContent tl (\<lambda>_. 0) (take (nat size) data) p = Some q'" "opd_content q' = opd_content p"
    by blast
  then show ?thesis using f(5,6) by metis
qed

text \<open>
  Without compression, loading content leaves the space it takes counted as available: the packet reports
  its whole target size as free, and an append that it accepts writes outside the array.
\<close>

theorem OctreePacketData_uncompressed_load_overruns:
  assumes "\<not> opd_enableCompression q" "length (opd_uncompressed q) = opd_targetSize q"
    and "data \<noteq> []" "length data \<le> opd_targetSize q" "length extra = opd_targetSize q"
  shows "\<exists>q'. OctreePacketData_loadFinalizedContent qUncompress fresh data q = Some q' \<and> opd_content q' = data
    \<and> opd_bytesAvailable q' = int (opd_targetSize q) \<and> OctreePacketData_append extra q' = None"
proof -
  obtain buf where buf: "mem_write (opd_uncompressed q) 0 data = Some buf" "take (length data) buf = data"
      "length buf = opd_targetSize q"
    using assms by (simp add: mem_write_def)
  have "extra \<noteq> []" using assms(3-5) by auto
  then have None: "mem_write buf (length data) extra = None"
    using assms(3,5) buf(3) by (simp add: mem_write_def)
  show ?thesis
    using assms buf by (simp add: OctreePacketData_loadFinalizedContent_def OctreePacketData_reset_def opd_content_def
        OctreePacketData_append_def None)
qed

theorem OctreePacketData_uncompressed_load_overruns_witness:
  "\<exists>q q'. OctreePacketData_loadFinalizedContent id (\<lambda>_. 0) [7] q = Some q' \<and> opd_bytesAvailable q' = 2
    \<and> OctreePacketData_append [8, 9] q' = None"
proof -
  obtain q where q: "q = OctreePacketData_changeSettings (\<lambda>_. 0) False 2 undefined" by blast
  have "\<not> opd_enableCompression q" "length (opd_uncompressed q) = opd_targetSize q" "opd_targetSize q = 2"
    by (simp_all add: q OctreePacketData_changeSettings_def OctreePacketData_reset_def QByteArray_resize_def)
  then show ?thesis
    using OctreePacketData_uncompressed_load_overruns [of q "[7]" "[8, 9]" id "\<lambda>_. 0"] by auto
qed

end
