(* ===== verification/Byte_Stream.thy ===== *)
theory Byte_Stream
  imports Prelude
begin

text \<open>
  The interface between what writes values into a buffer and what reads them back, stated once: a sink appends
  the encoding of a value as long as there is room, a source reads one value off the bytes that remain, and a
  channel is a source that starts at what a sink has collected. \<open>canon\<close> is what a value becomes on the way,
  where the encoding is not exact. The serializer and the octree packet are the channels of this development.
\<close>

fun put_all :: "('v \<Rightarrow> 's \<Rightarrow> 's option) \<Rightarrow> 'v list \<Rightarrow> 's \<Rightarrow> 's option" where
  "put_all put [] s = Some s"
| "put_all put (v # vs) s = do { s1 \<leftarrow> put v s; put_all put vs s1 }"

fun get_all :: "('k \<Rightarrow> 'd \<Rightarrow> ('v \<times> 'd) option) \<Rightarrow> 'k list \<Rightarrow> 'd \<Rightarrow> ('v list \<times> 'd) option" where
  "get_all get [] d = Some ([], d)"
| "get_all get (k # ks) d = do { (v, d1) \<leftarrow> get k d; (vs, d2) \<leftarrow> get_all get ks d1; Some (v # vs, d2) }"

locale byte_sink =
  fixes put :: "'v \<Rightarrow> 's \<Rightarrow> 's option"
    and good :: "'s \<Rightarrow> bool"
    and content :: "'s \<Rightarrow> byte list"
    and room :: "'s \<Rightarrow> nat \<Rightarrow> bool"
    and need :: "'v \<Rightarrow> nat"
    and valid :: "'v \<Rightarrow> bool"
    and enc :: "'v \<Rightarrow> byte list"
  assumes put_appends: "good s \<Longrightarrow> valid v \<Longrightarrow> room s (need v + n) \<Longrightarrow>
      \<exists>s'. put v s = Some s' \<and> good s' \<and> content s' = content s @ enc v \<and> room s' n"
begin

lemma put_all_appends:
  "good s \<Longrightarrow> list_all valid vs \<Longrightarrow> room s (sum_list (map need vs) + n) \<Longrightarrow>
     \<exists>s'. put_all put vs s = Some s' \<and> good s' \<and> content s' = content s @ concat (map enc vs) \<and> room s' n"
proof (induction vs arbitrary: s)
  case (Cons v vs)
  have "room s (need v + (sum_list (map need vs) + n))" using Cons.prems(3) by (simp add: add.assoc)
  with put_appends [OF Cons.prems(1), of v] Cons.prems(2)
  obtain s1 where s1: "put v s = Some s1" "good s1" "content s1 = content s @ enc v"
    "room s1 (sum_list (map need vs) + n)"
    by auto
  obtain s' where "put_all put vs s1 = Some s'" "good s'" "content s' = content s1 @ concat (map enc vs)" "room s' n"
    using Cons.IH [OF s1(2) _ s1(4)] Cons.prems(2) by auto
  then show ?case using s1(1,3) by simp
qed simp

end

locale byte_source =
  fixes get :: "'k \<Rightarrow> 'd \<Rightarrow> ('v \<times> 'd) option"
    and sound :: "'d \<Rightarrow> bool"
    and remaining :: "'d \<Rightarrow> byte list"
    and matches :: "'k \<Rightarrow> 'v \<Rightarrow> bool"
    and canon :: "'v \<Rightarrow> 'v"
    and enc :: "'v \<Rightarrow> byte list"
  assumes get_reads: "sound d \<Longrightarrow> matches k v \<Longrightarrow> remaining d = enc v @ rest \<Longrightarrow>
      \<exists>d'. get k d = Some (canon v, d') \<and> sound d' \<and> remaining d' = rest"
begin

lemma get_all_reads:
  "list_all2 matches ks vs \<Longrightarrow> sound d \<Longrightarrow> remaining d = concat (map enc vs) @ rest \<Longrightarrow>
     \<exists>d'. get_all get ks d = Some (map canon vs, d') \<and> sound d' \<and> remaining d' = rest"
proof (induction ks vs arbitrary: d rule: list_all2_induct)
  case (Cons k ks v vs)
  obtain d1 where d1: "get k d = Some (canon v, d1)" "sound d1" "remaining d1 = concat (map enc vs) @ rest"
    using get_reads [OF Cons.prems(1) Cons.hyps(1)] Cons.prems(2) by force
  obtain d' where "get_all get ks d1 = Some (map canon vs, d')" "sound d'" "remaining d' = rest"
    using Cons.IH [OF d1(2,3)] by blast
  then show ?case using d1(1) by simp
qed simp

text \<open>Two values of one kind with encodings that begin alike are the same to the reader.\<close>

lemma prefix_free:
  assumes "sound d" "matches k v" "matches k w" "remaining d = enc v @ r" "remaining d = enc w @ s"
  shows "canon v = canon w \<and> r = s"
  using get_reads [OF assms(1,2,4)] get_reads [OF assms(1,3,5)] by auto

end

locale byte_channel = byte_sink put good content room need valid enc + byte_source get sound remaining matches canon enc
  for put :: "'v \<Rightarrow> 's \<Rightarrow> 's option" and good content room need valid enc
    and get :: "'k \<Rightarrow> 'd \<Rightarrow> ('v \<times> 'd) option" and sound remaining matches canon +
  fixes opened :: "'s \<Rightarrow> 'd"
  assumes opened_sound: "good s \<Longrightarrow> sound (opened s)"
    and opened_remaining: "good s \<Longrightarrow> remaining (opened s) = content s"
begin

lemma channel_roundtrip:
  assumes "good s" "content s = []" "list_all valid vs" "room s (sum_list (map need vs))" "list_all2 matches ks vs"
  shows "\<exists>s' d. put_all put vs s = Some s' \<and> good s' \<and> content s' = concat (map enc vs)
    \<and> get_all get ks (opened s') = Some (map canon vs, d) \<and> sound d \<and> remaining d = []"
proof -
  obtain s' where s': "put_all put vs s = Some s'" "good s'" "content s' = concat (map enc vs)"
    using put_all_appends [OF assms(1,3), of 0] assms(2,4) by auto
  then have "remaining (opened s') = concat (map enc vs) @ []" by (simp add: opened_remaining)
  with get_all_reads [OF assms(5) opened_sound [OF s'(2)]] s' show ?thesis by blast
qed

end

end
