(* ===== verification/Data_Serdes.thy ===== *)
theory Data_Serdes
  imports Byte_Stream
begin

text \<open>
  \<open>DataSerializer\<close> and \<open>DataDeserializer\<close> (\<open>libraries/shared/src/SerDes.h\<close> and \<open>SerDes.cpp\<close>): a byte buffer
  that grows, or a fixed one that refuses what does not fit, and the reader of such a buffer. Floats are their
  32 bits; sizes do not reach the limit of \<open>size_t\<close>. What freshly allocated memory holds is the parameter
  \<open>fresh\<close>; an access outside an allocation, and a growing loop that does not end, are \<open>None\<close>. The assertion on
  the first byte of new memory in \<open>changeAllocation\<close> is absent from release builds and from the model.
\<close>

section \<open>The serializer\<close>

(* @src libraries/shared/src/SerDes.h 527-533 DataSerializer *)
record data_serializer =
  ds_store :: "byte list"
  ds_storeIsExternal :: bool
  ds_overflow :: bool
  ds_capacity :: nat
  ds_length :: nat
  ds_pos :: nat
  ds_lastAdvance :: nat

(* @src libraries/shared/src/SerDes.h 108-108 DataSerializer::DEFAULT_SIZE *)
definition DataSerializer_DEFAULT_SIZE :: nat where
  "DataSerializer_DEFAULT_SIZE = 1500"

(* @src libraries/shared/src/SerDes.h 116-116 DataSerializer::PADDING_CHAR *)
definition DataSerializer_PADDING_CHAR :: byte where
  "DataSerializer_PADDING_CHAR = 0xAA"

(* @src libraries/shared/src/SerDes.h 125-130 DataSerializer::DataSerializer *)
definition DataSerializer_new :: "(nat \<Rightarrow> byte) \<Rightarrow> data_serializer" where
  "DataSerializer_new fresh = \<lparr>ds_store = map fresh [0..<DataSerializer_DEFAULT_SIZE], ds_storeIsExternal = False,
     ds_overflow = False, ds_capacity = DataSerializer_DEFAULT_SIZE, ds_length = 0, ds_pos = 0, ds_lastAdvance = 0\<rparr>"

text \<open>\<open>externalStore\<close> is the caller's buffer of \<open>storeLength\<close> bytes.\<close>

(* @src libraries/shared/src/SerDes.h 144-150 DataSerializer::DataSerializer(externalStore, storeLength) *)
definition DataSerializer_external :: "byte list \<Rightarrow> data_serializer" where
  "DataSerializer_external externalStore = \<lparr>ds_store = externalStore, ds_storeIsExternal = True, ds_overflow = False,
     ds_capacity = length externalStore, ds_length = 0, ds_pos = 0, ds_lastAdvance = 0\<rparr>"

text \<open>The loop that doubles the capacity; from a capacity of zero it does not end.\<close>

(* @src libraries/shared/src/SerDes.cpp 73-75 DataSerializer::changeAllocation *)
partial_function (option) ds_grow :: "nat \<Rightarrow> nat \<Rightarrow> nat option" where
  "ds_grow capacity new_size = (if capacity < new_size then ds_grow (2 * capacity) new_size else Some capacity)"

(* @src libraries/shared/src/SerDes.cpp 72-85 DataSerializer::changeAllocation *)
definition DataSerializer_changeAllocation :: "(nat \<Rightarrow> byte) \<Rightarrow> nat \<Rightarrow> data_serializer \<Rightarrow> data_serializer option" where
  "DataSerializer_changeAllocation fresh new_size s =
     do { capacity \<leftarrow> ds_grow (ds_capacity s) new_size;
          old \<leftarrow> mem_read (ds_store s) 0 (ds_length s);
          new_buf \<leftarrow> mem_write (map fresh [0..<capacity]) 0 old;
          Some (s\<lparr>ds_capacity := capacity, ds_store := new_buf\<rparr>) }"

(* @src libraries/shared/src/SerDes.h 506-522 DataSerializer::extendBy *)
definition DataSerializer_extendBy :: "(nat \<Rightarrow> byte) \<Rightarrow> nat \<Rightarrow> data_serializer \<Rightarrow> (bool \<times> data_serializer) option" where
  "DataSerializer_extendBy fresh bytes s =
     (if ds_capacity s < ds_length s + bytes \<and> ds_storeIsExternal s then Some (False, s\<lparr>ds_overflow := True\<rparr>)
      else do { s1 \<leftarrow> (if ds_capacity s < ds_length s + bytes
                        then DataSerializer_changeAllocation fresh (ds_length s + bytes) s else Some s);
                Some (True, s1\<lparr>ds_length := ds_length s1 + bytes, ds_lastAdvance := bytes\<rparr>) })"

text \<open>What every operator does with the bytes of its value: they are copied to the position, when there is room.\<close>

definition ds_put :: "(nat \<Rightarrow> byte) \<Rightarrow> byte list \<Rightarrow> data_serializer \<Rightarrow> data_serializer option" where
  "ds_put fresh bytes s =
     do { (ok, s1) \<leftarrow> DataSerializer_extendBy fresh (length bytes) s;
          if ok then do { store \<leftarrow> mem_write (ds_store s1) (ds_pos s1) bytes;
                          Some (s1\<lparr>ds_store := store, ds_pos := ds_pos s1 + length bytes\<rparr>) }
          else Some s1 }"

(* @src libraries/shared/src/SerDes.h 187-195 DataSerializer::addPadding *)
definition DataSerializer_addPadding :: "(nat \<Rightarrow> byte) \<Rightarrow> nat \<Rightarrow> data_serializer \<Rightarrow> data_serializer option" where
  "DataSerializer_addPadding fresh bytes s = ds_put fresh (replicate bytes DataSerializer_PADDING_CHAR) s"

text \<open>The unsigned and the signed operator of a width write the same bytes: the first casts and calls the second.\<close>

(* @src libraries/shared/src/SerDes.h 203-220 DataSerializer::operator<<(int8_t) *)
definition DataSerializer_put8 :: "(nat \<Rightarrow> byte) \<Rightarrow> 8 word \<Rightarrow> data_serializer \<Rightarrow> data_serializer option" where
  "DataSerializer_put8 fresh c s = ds_put fresh [c] s"

(* @src libraries/shared/src/SerDes.h 231-249 DataSerializer::operator<<(int16_t) *)
definition DataSerializer_put16 :: "(nat \<Rightarrow> byte) \<Rightarrow> 16 word \<Rightarrow> data_serializer \<Rightarrow> data_serializer option" where
  "DataSerializer_put16 fresh val s = ds_put fresh (le16 val) s"

(* @src libraries/shared/src/SerDes.h 261-279 DataSerializer::operator<<(int32_t) *)
definition DataSerializer_put32 :: "(nat \<Rightarrow> byte) \<Rightarrow> 32 word \<Rightarrow> data_serializer \<Rightarrow> data_serializer option" where
  "DataSerializer_put32 fresh val s = ds_put fresh (le32 val) s"

(* @src libraries/shared/src/SerDes.h 289-307 DataSerializer::operator<<(int64_t) *)
definition DataSerializer_put64 :: "(nat \<Rightarrow> byte) \<Rightarrow> 64 word \<Rightarrow> data_serializer \<Rightarrow> data_serializer option" where
  "DataSerializer_put64 fresh val s = ds_put fresh (le64 val) s"

(* @src libraries/shared/src/SerDes.h 317-323 DataSerializer::operator<<(float) *)
definition DataSerializer_putFloat :: "(nat \<Rightarrow> byte) \<Rightarrow> 32 word \<Rightarrow> data_serializer \<Rightarrow> data_serializer option" where
  "DataSerializer_putFloat fresh val s = ds_put fresh (le32 val) s"

type_synonym vec3 = "32 word \<times> 32 word \<times> 32 word"
type_synonym vec4 = "32 word \<times> 32 word \<times> 32 word \<times> 32 word"

(* @src libraries/shared/src/SerDes.h 335-345 DataSerializer::operator<<(glm::vec3) *)
fun DataSerializer_putVec3 :: "(nat \<Rightarrow> byte) \<Rightarrow> vec3 \<Rightarrow> data_serializer \<Rightarrow> data_serializer option" where
  "DataSerializer_putVec3 fresh (x, y, z) s =
     do { (ok, s1) \<leftarrow> DataSerializer_extendBy fresh 12 s;
          if ok then do { a \<leftarrow> mem_write (ds_store s1) (ds_pos s1) (le32 x);
                          b \<leftarrow> mem_write a (ds_pos s1 + 4) (le32 y);
                          c \<leftarrow> mem_write b (ds_pos s1 + 8) (le32 z);
                          Some (s1\<lparr>ds_store := c, ds_pos := ds_pos s1 + 12\<rparr>) }
          else Some s1 }"

(* @src libraries/shared/src/SerDes.h 355-366 DataSerializer::operator<<(glm::vec4) *)
fun DataSerializer_putVec4 :: "(nat \<Rightarrow> byte) \<Rightarrow> vec4 \<Rightarrow> data_serializer \<Rightarrow> data_serializer option" where
  "DataSerializer_putVec4 fresh (x, y, z, w) s =
     do { (ok, s1) \<leftarrow> DataSerializer_extendBy fresh 16 s;
          if ok then do { a \<leftarrow> mem_write (ds_store s1) (ds_pos s1) (le32 x);
                          b \<leftarrow> mem_write a (ds_pos s1 + 4) (le32 y);
                          c \<leftarrow> mem_write b (ds_pos s1 + 8) (le32 z);
                          d \<leftarrow> mem_write c (ds_pos s1 + 12) (le32 w);
                          Some (s1\<lparr>ds_store := d, ds_pos := ds_pos s1 + 16\<rparr>) }
          else Some s1 }"

(* @src libraries/shared/src/SerDes.h 376-385 DataSerializer::operator<<(glm::ivec2) *)
fun DataSerializer_putIVec2 :: "(nat \<Rightarrow> byte) \<Rightarrow> 32 word \<times> 32 word \<Rightarrow> data_serializer \<Rightarrow> data_serializer option" where
  "DataSerializer_putIVec2 fresh (x, y) s =
     do { (ok, s1) \<leftarrow> DataSerializer_extendBy fresh 8 s;
          if ok then do { a \<leftarrow> mem_write (ds_store s1) (ds_pos s1) (le32 x);
                          b \<leftarrow> mem_write a (ds_pos s1 + 4) (le32 y);
                          Some (s1\<lparr>ds_store := b, ds_pos := ds_pos s1 + 8\<rparr>) }
          else Some s1 }"

text \<open>A C string is the bytes up to its terminating zero, which is written with them; a \<open>QString\<close> is its UTF-8
  bytes, which go through a C string.\<close>

(* @src libraries/shared/src/SerDes.h 398-405 DataSerializer::operator<<(C string) *)
definition DataSerializer_putCString :: "(nat \<Rightarrow> byte) \<Rightarrow> byte list \<Rightarrow> data_serializer \<Rightarrow> data_serializer option" where
  "DataSerializer_putCString fresh val s = ds_put fresh (takeWhile (\<lambda>c. c \<noteq> 0) val @ [0]) s"

(* @src libraries/shared/src/SerDes.h 415-417 DataSerializer::operator<<(QString) *)
definition DataSerializer_putQString :: "(nat \<Rightarrow> byte) \<Rightarrow> byte list \<Rightarrow> data_serializer \<Rightarrow> data_serializer option" where
  "DataSerializer_putQString fresh utf8 s = DataSerializer_putCString fresh utf8 s"

(* @src libraries/shared/src/SerDes.h 480-480 DataSerializer::rewind *)
definition DataSerializer_rewind :: "data_serializer \<Rightarrow> data_serializer" where
  "DataSerializer_rewind s = s\<lparr>ds_pos := 0, ds_overflow := False, ds_lastAdvance := 0\<rparr>"

(* @src libraries/shared/src/SerDes.h 464-464 DataSerializer::isEmpty *)
definition DataSerializer_isEmpty :: "data_serializer \<Rightarrow> bool" where
  "DataSerializer_isEmpty s \<longleftrightarrow> ds_length s = 0"

text \<open>The tracker of a compound operator sets the advance when it goes out of scope; \<open>body\<close> is what it spans.\<close>

(* @src libraries/shared/src/SerDes.h 82-101 DataSerializer::SizeTracker *)
definition DataSerializer_tracked :: "(data_serializer \<Rightarrow> data_serializer option) \<Rightarrow> data_serializer \<Rightarrow> data_serializer option" where
  "DataSerializer_tracked body s =
     do { s1 \<leftarrow> body s;
          Some (s1\<lparr>ds_lastAdvance := (if ds_pos s1 \<ge> ds_pos s then ds_pos s1 - ds_pos s else 0)\<rparr>) }"

section \<open>The deserializer\<close>

(* @src libraries/shared/src/SerDes.h 948-952 DataDeserializer *)
record data_deserializer =
  dd_store :: "byte list"
  dd_overflow :: bool
  dd_length :: nat
  dd_pos :: nat
  dd_lastAdvance :: nat

(* @src libraries/shared/src/SerDes.h 621-626 DataDeserializer::DataDeserializer *)
definition DataDeserializer_new :: "byte list \<Rightarrow> nat \<Rightarrow> data_deserializer" where
  "DataDeserializer_new externalStore storeLength = \<lparr>dd_store = externalStore, dd_overflow = False,
     dd_length = storeLength, dd_pos = 0, dd_lastAdvance = 0\<rparr>"

(* @src libraries/shared/src/SerDes.h 645-647 DataDeserializer::DataDeserializer(serializer) *)
definition DataDeserializer_of :: "data_serializer \<Rightarrow> data_deserializer" where
  "DataDeserializer_of serializer = DataDeserializer_new (ds_store serializer) (ds_length serializer)"

(* @src libraries/shared/src/SerDes.h 936-946 DataDeserializer::canAdvanceBy *)
definition DataDeserializer_canAdvanceBy :: "nat \<Rightarrow> data_deserializer \<Rightarrow> bool \<times> data_deserializer" where
  "DataDeserializer_canAdvanceBy bytes d =
     (if dd_length d < dd_pos d + bytes then (False, d\<lparr>dd_overflow := True\<rparr>) else (True, d))"

text \<open>A read yields the bytes of the value, or none when it fails and the variable keeps what it held.\<close>

definition dd_get :: "nat \<Rightarrow> data_deserializer \<Rightarrow> (byte list option \<times> data_deserializer) option" where
  "dd_get n d =
     (let (ok, d1) = DataDeserializer_canAdvanceBy n d in
      if ok then do { bytes \<leftarrow> mem_read (dd_store d1) (dd_pos d1) n;
                      Some (Some bytes, d1\<lparr>dd_pos := dd_pos d1 + n, dd_lastAdvance := n\<rparr>) }
      else Some (None, d1))"

(* @src libraries/shared/src/SerDes.h 654-661 DataDeserializer::skipPadding *)
definition DataDeserializer_skipPadding :: "nat \<Rightarrow> data_deserializer \<Rightarrow> data_deserializer" where
  "DataDeserializer_skipPadding bytes d =
     (let (ok, d1) = DataDeserializer_canAdvanceBy bytes d in
      if ok then d1\<lparr>dd_pos := dd_pos d1 + bytes, dd_lastAdvance := bytes\<rparr> else d1)"

(* @src libraries/shared/src/SerDes.h 670-687 DataDeserializer::operator>>(int8_t) *)
definition DataDeserializer_get8 :: "8 word \<Rightarrow> data_deserializer \<Rightarrow> (8 word \<times> data_deserializer) option" where
  "DataDeserializer_get8 c d = do { (bytes, d1) \<leftarrow> dd_get 1 d; Some (case_option c hd bytes, d1) }"

(* @src libraries/shared/src/SerDes.h 697-715 DataDeserializer::operator>>(int16_t) *)
definition DataDeserializer_get16 :: "16 word \<Rightarrow> data_deserializer \<Rightarrow> (16 word \<times> data_deserializer) option" where
  "DataDeserializer_get16 val d = do { (bytes, d1) \<leftarrow> dd_get 2 d; Some (case_option val un_le16 bytes, d1) }"

(* @src libraries/shared/src/SerDes.h 725-742 DataDeserializer::operator>>(int32_t) *)
definition DataDeserializer_get32 :: "32 word \<Rightarrow> data_deserializer \<Rightarrow> (32 word \<times> data_deserializer) option" where
  "DataDeserializer_get32 val d = do { (bytes, d1) \<leftarrow> dd_get 4 d; Some (case_option val un_le32 bytes, d1) }"

(* @src libraries/shared/src/SerDes.h 752-769 DataDeserializer::operator>>(int64_t) *)
definition DataDeserializer_get64 :: "64 word \<Rightarrow> data_deserializer \<Rightarrow> (64 word \<times> data_deserializer) option" where
  "DataDeserializer_get64 val d = do { (bytes, d1) \<leftarrow> dd_get 8 d; Some (case_option val un_le64 bytes, d1) }"

(* @src libraries/shared/src/SerDes.h 780-787 DataDeserializer::operator>>(float) *)
definition DataDeserializer_getFloat :: "32 word \<Rightarrow> data_deserializer \<Rightarrow> (32 word \<times> data_deserializer) option" where
  "DataDeserializer_getFloat val d = do { (bytes, d1) \<leftarrow> dd_get 4 d; Some (case_option val un_le32 bytes, d1) }"

text \<open>The operators on vectors copy component after component.\<close>

(* @src libraries/shared/src/SerDes.h 800-813 DataDeserializer::operator>>(glm::vec3) *)
definition DataDeserializer_getVec3 :: "vec3 \<Rightarrow> data_deserializer \<Rightarrow> (vec3 \<times> data_deserializer) option" where
  "DataDeserializer_getVec3 val d =
     (let (ok, d1) = DataDeserializer_canAdvanceBy 12 d in
      if ok then do { x \<leftarrow> read32 (dd_store d1) (dd_pos d1); y \<leftarrow> read32 (dd_store d1) (dd_pos d1 + 4);
                      z \<leftarrow> read32 (dd_store d1) (dd_pos d1 + 8);
                      Some ((x, y, z), d1\<lparr>dd_pos := dd_pos d1 + 12, dd_lastAdvance := 12\<rparr>) }
      else Some (val, d1))"

(* @src libraries/shared/src/SerDes.h 824-837 DataDeserializer::operator>>(glm::vec4) *)
definition DataDeserializer_getVec4 :: "vec4 \<Rightarrow> data_deserializer \<Rightarrow> (vec4 \<times> data_deserializer) option" where
  "DataDeserializer_getVec4 val d =
     (let (ok, d1) = DataDeserializer_canAdvanceBy 16 d in
      if ok then do { x \<leftarrow> read32 (dd_store d1) (dd_pos d1); y \<leftarrow> read32 (dd_store d1) (dd_pos d1 + 4);
                      z \<leftarrow> read32 (dd_store d1) (dd_pos d1 + 8); w \<leftarrow> read32 (dd_store d1) (dd_pos d1 + 12);
                      Some ((x, y, z, w), d1\<lparr>dd_pos := dd_pos d1 + 16, dd_lastAdvance := 16\<rparr>) }
      else Some (val, d1))"

(* @src libraries/shared/src/SerDes.h 848-860 DataDeserializer::operator>>(glm::ivec2) *)
definition DataDeserializer_getIVec2 :: "32 word \<times> 32 word \<Rightarrow> data_deserializer \<Rightarrow> ((32 word \<times> 32 word) \<times> data_deserializer) option" where
  "DataDeserializer_getIVec2 val d =
     (let (ok, d1) = DataDeserializer_canAdvanceBy 8 d in
      if ok then do { x \<leftarrow> read32 (dd_store d1) (dd_pos d1); y \<leftarrow> read32 (dd_store d1) (dd_pos d1 + 4);
                      Some ((x, y), d1\<lparr>dd_pos := dd_pos d1 + 8, dd_lastAdvance := 8\<rparr>) }
      else Some (val, d1))"

(* @src libraries/shared/src/SerDes.h 911-911 DataDeserializer::rewind *)
definition DataDeserializer_rewind :: "data_deserializer \<Rightarrow> data_deserializer" where
  "DataDeserializer_rewind d = d\<lparr>dd_pos := 0, dd_overflow := False, dd_lastAdvance := 0\<rparr>"

(* @src libraries/shared/src/SerDes.h 594-614 DataDeserializer::SizeTracker *)
definition DataDeserializer_tracked ::
  "(data_deserializer \<Rightarrow> ('a \<times> data_deserializer) option) \<Rightarrow> data_deserializer \<Rightarrow> ('a \<times> data_deserializer) option" where
  "DataDeserializer_tracked body d =
     do { (v, d1) \<leftarrow> body d;
          Some (v, d1\<lparr>dd_lastAdvance := (if dd_pos d1 \<ge> dd_pos d then dd_pos d1 - dd_pos d else 0)\<rparr>) }"

section \<open>Values\<close>

text \<open>What is written and read, and the bytes of it. The reader of a value is called with the variable to read
  into, whose type selects the operator; strings have no reader.\<close>

datatype ser_value = S8 "8 word" | S16 "16 word" | S32 "32 word" | S64 "64 word" | SFloat "32 word" | SVec3 vec3
  | SVec4 vec4 | SIVec2 "32 word \<times> 32 word" | SString "byte list" | SPadding nat

fun ser_put :: "(nat \<Rightarrow> byte) \<Rightarrow> ser_value \<Rightarrow> data_serializer \<Rightarrow> data_serializer option" where
  "ser_put fresh (S8 c) s = DataSerializer_put8 fresh c s"
| "ser_put fresh (S16 v) s = DataSerializer_put16 fresh v s"
| "ser_put fresh (S32 v) s = DataSerializer_put32 fresh v s"
| "ser_put fresh (S64 v) s = DataSerializer_put64 fresh v s"
| "ser_put fresh (SFloat v) s = DataSerializer_putFloat fresh v s"
| "ser_put fresh (SVec3 v) s = DataSerializer_putVec3 fresh v s"
| "ser_put fresh (SVec4 v) s = DataSerializer_putVec4 fresh v s"
| "ser_put fresh (SIVec2 v) s = DataSerializer_putIVec2 fresh v s"
| "ser_put fresh (SString v) s = DataSerializer_putQString fresh v s"
| "ser_put fresh (SPadding n) s = DataSerializer_addPadding fresh n s"

fun ser_get :: "ser_value \<Rightarrow> data_deserializer \<Rightarrow> (ser_value \<times> data_deserializer) option" where
  "ser_get (S8 c) d = map_option (apfst S8) (DataDeserializer_get8 c d)"
| "ser_get (S16 v) d = map_option (apfst S16) (DataDeserializer_get16 v d)"
| "ser_get (S32 v) d = map_option (apfst S32) (DataDeserializer_get32 v d)"
| "ser_get (S64 v) d = map_option (apfst S64) (DataDeserializer_get64 v d)"
| "ser_get (SFloat v) d = map_option (apfst SFloat) (DataDeserializer_getFloat v d)"
| "ser_get (SVec3 v) d = map_option (apfst SVec3) (DataDeserializer_getVec3 v d)"
| "ser_get (SVec4 v) d = map_option (apfst SVec4) (DataDeserializer_getVec4 v d)"
| "ser_get (SIVec2 v) d = map_option (apfst SIVec2) (DataDeserializer_getIVec2 v d)"
| "ser_get (SString v) d = None"
| "ser_get (SPadding n) d = Some (SPadding n, DataDeserializer_skipPadding n d)"

fun ser_bytes :: "ser_value \<Rightarrow> byte list" where
  "ser_bytes (S8 c) = [c]"
| "ser_bytes (S16 v) = le16 v"
| "ser_bytes (S32 v) = le32 v"
| "ser_bytes (S64 v) = le64 v"
| "ser_bytes (SFloat v) = le32 v"
| "ser_bytes (SVec3 (x, y, z)) = le32 x @ le32 y @ le32 z"
| "ser_bytes (SVec4 (x, y, z, w)) = le32 x @ le32 y @ le32 z @ le32 w"
| "ser_bytes (SIVec2 (x, y)) = le32 x @ le32 y"
| "ser_bytes (SString v) = takeWhile (\<lambda>c. c \<noteq> 0) v @ [0]"
| "ser_bytes (SPadding n) = replicate n DataSerializer_PADDING_CHAR"

text \<open>The type of a value, as the value of this type with all bits zero; padding has its size as type.\<close>

fun ser_type :: "ser_value \<Rightarrow> ser_value" where
  "ser_type (S8 _) = S8 0"
| "ser_type (S16 _) = S16 0"
| "ser_type (S32 _) = S32 0"
| "ser_type (S64 _) = S64 0"
| "ser_type (SFloat _) = SFloat 0"
| "ser_type (SVec3 _) = SVec3 (0, 0, 0)"
| "ser_type (SVec4 _) = SVec4 (0, 0, 0, 0)"
| "ser_type (SIVec2 _) = SIVec2 (0, 0)"
| "ser_type (SString _) = SString []"
| "ser_type (SPadding n) = SPadding n"

definition ser_matches :: "ser_value \<Rightarrow> ser_value \<Rightarrow> bool" where
  "ser_matches old v \<longleftrightarrow> ser_type old = ser_type v \<and> ser_type v \<noteq> SString []"

section \<open>The serializer appends\<close>

lemma mem_write_append:
  "mem_write buf off (a @ c) = do { b \<leftarrow> mem_write buf off a; mem_write b (off + length a) c }"
  by (auto simp: mem_write_def add.assoc add.commute [of "length c"])

lemma take_over:
  assumes "m + length d \<le> n" "n \<le> length xs"
  shows "take n (take m xs @ d @ drop (m + length d) xs) = take m (take n xs) @ d @ drop (m + length d) (take n xs)"
proof -
  obtain ys zs where xs: "xs = ys @ zs" "length ys = n"
    using assms(2) by (metis append_take_drop_id length_take min.absorb2)
  then show ?thesis using assms(1) by simp
qed

lemma putVec3_eq: "DataSerializer_putVec3 fresh (x, y, z) s = ds_put fresh (le32 x @ le32 y @ le32 z) s"
  by (cases "DataSerializer_extendBy fresh 12 s") (auto simp: ds_put_def mem_write_append add.assoc Option.bind_assoc)

lemma putVec4_eq: "DataSerializer_putVec4 fresh (x, y, z, w) s = ds_put fresh (le32 x @ le32 y @ le32 z @ le32 w) s"
  by (cases "DataSerializer_extendBy fresh 16 s") (auto simp: ds_put_def mem_write_append add.assoc Option.bind_assoc)

lemma putIVec2_eq: "DataSerializer_putIVec2 fresh (x, y) s = ds_put fresh (le32 x @ le32 y) s"
  by (cases "DataSerializer_extendBy fresh 8 s") (auto simp: ds_put_def mem_write_append add.assoc Option.bind_assoc)

lemma ser_put_eq: "ser_put fresh v s = ds_put fresh (ser_bytes v) s"
  by (cases "(fresh, v, s)" rule: ser_put.cases)
    (auto simp: putVec3_eq putVec4_eq putIVec2_eq DataSerializer_put8_def DataSerializer_put16_def DataSerializer_put32_def
      DataSerializer_put64_def DataSerializer_putFloat_def DataSerializer_putQString_def DataSerializer_putCString_def
      DataSerializer_addPadding_def simp del: DataSerializer_putVec3.simps DataSerializer_putVec4.simps DataSerializer_putIVec2.simps)

lemma ds_grow_returns:
  "0 < c \<Longrightarrow> \<exists>k. ds_grow c n = Some (c * 2 ^ k) \<and> n \<le> c * 2 ^ k \<and> (0 < k \<longrightarrow> c * 2 ^ (k - 1) < n)"
proof (induction "n - c" arbitrary: c rule: less_induct)
  case less
  show ?case
  proof (cases "c < n")
    case True
    have "n - 2 * c < n - c" "0 < 2 * c" using True less.prems by simp_all
    from less.hyps [OF this] obtain k where k: "ds_grow (2 * c) n = Some (2 * c * 2 ^ k)" "n \<le> 2 * c * 2 ^ k"
      "0 < k \<longrightarrow> 2 * c * 2 ^ (k - 1) < n" by blast
    have "ds_grow c n = Some (c * 2 ^ Suc k)" using True k(1) by (simp add: ds_grow.simps [of c])
    moreover have "c * 2 ^ (Suc k - 1) < n" using k(3) True by (cases k) simp_all
    ultimately show ?thesis using k(2) by (intro exI [of _ "Suc k"]) simp
  next
    case False
    then show ?thesis by (intro exI [of _ 0]) (simp add: ds_grow.simps [of c])
  qed
qed

definition ds_content :: "data_serializer \<Rightarrow> byte list" where
  "ds_content s = take (ds_length s) (ds_store s)"

definition ds_inv :: "data_serializer \<Rightarrow> bool" where
  "ds_inv s \<longleftrightarrow> length (ds_store s) = ds_capacity s \<and> ds_length s \<le> ds_capacity s \<and> ds_pos s \<le> ds_length s
     \<and> (\<not> ds_storeIsExternal s \<longrightarrow> 0 < ds_capacity s)"

definition ds_room :: "data_serializer \<Rightarrow> nat \<Rightarrow> bool" where
  "ds_room s n \<longleftrightarrow> \<not> ds_storeIsExternal s \<or> ds_length s + n \<le> ds_capacity s"

lemma length_ds_content: "ds_inv s \<Longrightarrow> length (ds_content s) = ds_length s"
  by (simp add: ds_inv_def ds_content_def)

lemma changeAllocation_law:
  assumes "ds_inv s" "\<not> ds_storeIsExternal s"
  shows "\<exists>s1. DataSerializer_changeAllocation fresh n s = Some s1 \<and> length (ds_store s1) = ds_capacity s1
    \<and> n \<le> ds_capacity s1 \<and> ds_capacity s \<le> ds_capacity s1 \<and> take (ds_length s) (ds_store s1) = ds_content s
    \<and> s1 = s\<lparr>ds_capacity := ds_capacity s1, ds_store := ds_store s1\<rparr>"
proof -
  have "0 < ds_capacity s" using assms by (simp add: ds_inv_def)
  from ds_grow_returns [OF this, of n] obtain k where k: "ds_grow (ds_capacity s) n = Some (ds_capacity s * 2 ^ k)"
      "n \<le> ds_capacity s * 2 ^ k" by blast
  obtain c where c: "ds_capacity s * 2 ^ k = c" by blast
  have le: "ds_capacity s \<le> c" by (simp flip: c)
  have old: "mem_read (ds_store s) 0 (ds_length s) = Some (ds_content s)"
    using assms by (simp add: mem_read_def ds_inv_def ds_content_def)
  have fits: "length (ds_content s) \<le> c" using le assms by (simp add: length_ds_content) (simp add: ds_inv_def)
  then have new: "mem_write (map fresh [0..<c]) 0 (ds_content s)
      = Some (ds_content s @ drop (length (ds_content s)) (map fresh [0..<c]))"
    by (simp add: mem_write_def)
  show ?thesis
    using k le fits assms unfolding DataSerializer_changeAllocation_def c
    by (simp add: old new length_ds_content)
qed

lemma extendBy_law:
  assumes inv: "ds_inv s" and room: "ds_room s n"
  shows "\<exists>s1 junk. DataSerializer_extendBy fresh n s = Some (True, s1) \<and> ds_inv s1 \<and> length junk = n
    \<and> ds_content s1 = ds_content s @ junk \<and> ds_length s1 = ds_length s + n \<and> ds_pos s1 = ds_pos s
    \<and> ds_storeIsExternal s1 = ds_storeIsExternal s \<and> ds_overflow s1 = ds_overflow s \<and> ds_lastAdvance s1 = n
    \<and> (ds_storeIsExternal s \<longrightarrow> ds_capacity s1 = ds_capacity s \<and> ds_store s1 = ds_store s)"
proof (cases "ds_capacity s < ds_length s + n")
  case True
  then have ext: "\<not> ds_storeIsExternal s" using room by (auto simp: ds_room_def)
  obtain s1 where s1: "DataSerializer_changeAllocation fresh (ds_length s + n) s = Some s1" "length (ds_store s1) = ds_capacity s1"
      "ds_length s + n \<le> ds_capacity s1" "ds_capacity s \<le> ds_capacity s1" "take (ds_length s) (ds_store s1) = ds_content s"
    and eq: "s1 = s\<lparr>ds_capacity := ds_capacity s1, ds_store := ds_store s1\<rparr>"
    using changeAllocation_law [OF inv ext, of fresh "ds_length s + n"] by blast
  have f: "ds_length s1 = ds_length s" "ds_pos s1 = ds_pos s" "ds_storeIsExternal s1 = ds_storeIsExternal s"
    "ds_overflow s1 = ds_overflow s"
    by (subst eq, simp)+
  have "take (ds_length s + n) (ds_store s1) = ds_content s @ take n (drop (ds_length s) (ds_store s1))"
    by (simp add: take_add s1(5))
  then show ?thesis
    using True ext s1(1-4) f inv
    by (intro exI [of _ "s1\<lparr>ds_length := ds_length s1 + n, ds_lastAdvance := n\<rparr>"]
        exI [of _ "take n (drop (ds_length s) (ds_store s1))"])
      (simp add: DataSerializer_extendBy_def ds_inv_def ds_content_def)
next
  case False
  then show ?thesis
    using inv
    by (intro exI [of _ "s\<lparr>ds_length := ds_length s + n, ds_lastAdvance := n\<rparr>"]
        exI [of _ "take n (drop (ds_length s) (ds_store s))"])
      (simp add: DataSerializer_extendBy_def ds_inv_def ds_content_def take_add)
qed

text \<open>A write with room, wherever the position is: it overwrites from the position on, and the length grows by
  the whole value.\<close>

lemma ds_put_law:
  assumes inv: "ds_inv s" and room: "ds_room s (length b)"
  shows "\<exists>s1 junk. ds_put fresh b s = Some s1 \<and> ds_inv s1 \<and> length junk = length b
    \<and> ds_content s1 = take (ds_pos s) (ds_content s) @ b @ drop (ds_pos s + length b) (ds_content s @ junk)
    \<and> ds_length s1 = ds_length s + length b \<and> ds_pos s1 = ds_pos s + length b
    \<and> ds_storeIsExternal s1 = ds_storeIsExternal s \<and> ds_overflow s1 = ds_overflow s \<and> ds_lastAdvance s1 = length b
    \<and> (ds_storeIsExternal s \<longrightarrow> ds_capacity s1 = ds_capacity s
        \<and> drop (ds_pos s + length b) (ds_store s1) = drop (ds_pos s + length b) (ds_store s))"
proof -
  obtain s1 junk where e: "DataSerializer_extendBy fresh (length b) s = Some (True, s1)" "ds_inv s1" "length junk = length b"
      "ds_content s1 = ds_content s @ junk" "ds_length s1 = ds_length s + length b" "ds_pos s1 = ds_pos s"
      "ds_storeIsExternal s1 = ds_storeIsExternal s" "ds_overflow s1 = ds_overflow s" "ds_lastAdvance s1 = length b"
      "ds_storeIsExternal s \<longrightarrow> ds_capacity s1 = ds_capacity s \<and> ds_store s1 = ds_store s"
    using extendBy_law [OF assms, of fresh] by blast
  have p: "ds_pos s \<le> ds_length s" using inv by (simp add: ds_inv_def)
  have fits: "ds_pos s + length b \<le> ds_length s1" "ds_length s1 \<le> length (ds_store s1)"
    using p e(2,5) by (simp_all add: ds_inv_def)
  obtain buf where buf: "mem_write (ds_store s1) (ds_pos s1) b = Some buf"
      "buf = take (ds_pos s) (ds_store s1) @ b @ drop (ds_pos s + length b) (ds_store s1)"
    using fits e(6) by (simp add: mem_write_def)
  have "take (ds_length s1) buf = take (ds_pos s) (ds_content s1) @ b @ drop (ds_pos s + length b) (ds_content s1)"
    unfolding buf(2) ds_content_def by (rule take_over [OF fits])
  also have "\<dots> = take (ds_pos s) (ds_content s) @ b @ drop (ds_pos s + length b) (ds_content s @ junk)"
    using p inv by (simp add: e(4) length_ds_content)
  finally have c: "take (ds_length s1) buf = \<dots>" .
  have d: "drop (ds_pos s + length b) buf = drop (ds_pos s + length b) (ds_store s1)"
    using mem_write_drop [OF buf(1)] e(6) by simp
  have "length buf = length (ds_store s1)" using buf(1) by (rule mem_write_length)
  then show ?thesis
    using e fits buf(1) p c d
    by (intro exI [of _ "s1\<lparr>ds_store := buf, ds_pos := ds_pos s1 + length b\<rparr>"] exI [of _ junk])
      (simp add: ds_put_def ds_inv_def ds_content_def)
qed

lemma ds_put_refused:
  "\<not> ds_room s (length b) \<Longrightarrow> ds_put fresh b s = Some (s\<lparr>ds_overflow := True\<rparr>)"
  by (simp add: ds_put_def DataSerializer_extendBy_def ds_room_def)

definition ds_good :: "data_serializer \<Rightarrow> bool" where
  "ds_good s \<longleftrightarrow> ds_inv s \<and> ds_pos s = ds_length s \<and> \<not> ds_overflow s"

lemma ser_put_appends:
  assumes "ds_good s" "ds_room s (length (ser_bytes v) + n)"
  shows "\<exists>s'. ser_put fresh v s = Some s' \<and> ds_good s' \<and> ds_content s' = ds_content s @ ser_bytes v \<and> ds_room s' n"
proof -
  have r: "ds_inv s" "ds_room s (length (ser_bytes v))" using assms by (auto simp: ds_good_def ds_room_def)
  have p: "ds_pos s = length (ds_content s)" using assms(1) by (simp add: ds_good_def length_ds_content)
  from ds_put_law [OF r, of fresh] show ?thesis
    using assms p by (auto simp: ser_put_eq ds_good_def ds_room_def)
qed

section \<open>The deserializer reads\<close>

definition dd_remaining :: "data_deserializer \<Rightarrow> byte list" where
  "dd_remaining d = drop (dd_pos d) (take (dd_length d) (dd_store d))"

definition dd_sound :: "data_deserializer \<Rightarrow> bool" where
  "dd_sound d \<longleftrightarrow> dd_pos d \<le> dd_length d \<and> dd_length d \<le> length (dd_store d) \<and> \<not> dd_overflow d"

lemma dd_read:
  assumes "dd_sound d" "dd_remaining d = a @ b @ rest"
  shows "mem_read (dd_store d) (dd_pos d + length a) (length b) = Some b"
proof -
  have l: "length (dd_remaining d) = dd_length d - dd_pos d" using assms(1) by (simp add: dd_remaining_def dd_sound_def)
  then have n: "dd_pos d + length a + length b \<le> dd_length d" using assms by (auto simp: dd_sound_def)
  have "drop (dd_pos d) (dd_store d) = dd_remaining d @ drop (dd_length d) (dd_store d)"
    using assms(1) by (metis append_take_drop_id dd_remaining_def dd_sound_def drop_append length_take min.absorb2 diff_is_0_eq drop_0)
  then have "drop (length a) (drop (dd_pos d) (dd_store d)) = b @ rest @ drop (dd_length d) (dd_store d)"
    by (simp add: assms(2))
  then have "drop (dd_pos d + length a) (dd_store d) = b @ rest @ drop (dd_length d) (dd_store d)"
    by (simp add: add.commute)
  then show ?thesis using n assms(1) by (simp add: mem_read_def dd_sound_def)
qed

lemma dd_read32:
  "dd_sound d \<Longrightarrow> dd_remaining d = a @ le32 x @ rest \<Longrightarrow> k = dd_pos d + length a \<Longrightarrow> read32 (dd_store d) k = Some x"
  using dd_read [of d a "le32 x" rest] by (simp add: read32_def)

lemma dd_advance:
  assumes "dd_sound d" "dd_remaining d = b @ rest"
  shows "DataDeserializer_canAdvanceBy (length b) d = (True, d)"
    and "dd_sound (d\<lparr>dd_pos := dd_pos d + length b, dd_lastAdvance := k\<rparr>)"
    and "dd_remaining (d\<lparr>dd_pos := dd_pos d + length b, dd_lastAdvance := k\<rparr>) = rest"
proof -
  have "length (dd_remaining d) = dd_length d - dd_pos d" using assms(1) by (simp add: dd_remaining_def dd_sound_def)
  then have n: "dd_pos d + length b \<le> dd_length d" using assms by (auto simp: dd_sound_def)
  then show "DataDeserializer_canAdvanceBy (length b) d = (True, d)"
    and "dd_sound (d\<lparr>dd_pos := dd_pos d + length b, dd_lastAdvance := k\<rparr>)"
    using assms(1) by (auto simp: DataDeserializer_canAdvanceBy_def dd_sound_def)
  have "dd_remaining (d\<lparr>dd_pos := dd_pos d + length b, dd_lastAdvance := k\<rparr>) = drop (length b) (dd_remaining d)"
    by (simp add: dd_remaining_def add.commute)
  then show "dd_remaining (d\<lparr>dd_pos := dd_pos d + length b, dd_lastAdvance := k\<rparr>) = rest" by (simp add: assms(2))
qed

lemma dd_get_law:
  assumes "dd_sound d" "dd_remaining d = b @ rest"
  shows "dd_get (length b) d = Some (Some b, d\<lparr>dd_pos := dd_pos d + length b, dd_lastAdvance := length b\<rparr>)"
  using dd_advance(1) [OF assms] dd_read [of d "[]", OF assms(1)] assms(2) by (simp add: dd_get_def)

lemma ser_get_law:
  assumes s: "dd_sound d" and m: "ser_matches old v" and r: "dd_remaining d = ser_bytes v @ rest"
  shows "ser_get old d = Some (v, d\<lparr>dd_pos := dd_pos d + length (ser_bytes v), dd_lastAdvance := length (ser_bytes v)\<rparr>)"
proof -
  note g = dd_get_law [OF s r] and a = dd_advance(1) [OF s r]
  show ?thesis
  proof (cases v)
    case (S8 c)
    then show ?thesis
      using m g by (cases old) (simp_all add: ser_matches_def DataDeserializer_get8_def)
  next
    case (S16 c)
    then show ?thesis using m g by (cases old) (simp_all add: ser_matches_def DataDeserializer_get16_def)
  next
    case (S32 c)
    then show ?thesis using m g by (cases old) (simp_all add: ser_matches_def DataDeserializer_get32_def)
  next
    case (S64 c)
    then show ?thesis using m g by (cases old) (simp_all add: ser_matches_def DataDeserializer_get64_def)
  next
    case (SFloat c)
    then show ?thesis using m g by (cases old) (simp_all add: ser_matches_def DataDeserializer_getFloat_def)
  next
    case (SVec3 t)
    obtain x y z where v: "v = SVec3 (x, y, z)" by (metis SVec3 prod_cases3)
    have "read32 (dd_store d) (dd_pos d) = Some x" "read32 (dd_store d) (dd_pos d + 4) = Some y"
      "read32 (dd_store d) (dd_pos d + 8) = Some z"
      using r v by (auto intro: dd_read32 [OF s, of "[]"] dd_read32 [OF s, of "le32 x"] dd_read32 [OF s, of "le32 x @ le32 y"])
    then show ?thesis
      using m a v by (cases old) (simp_all add: ser_matches_def DataDeserializer_getVec3_def)
  next
    case (SVec4 t)
    obtain x y z w where v: "v = SVec4 (x, y, z, w)" by (metis SVec4 prod_cases4)
    have "read32 (dd_store d) (dd_pos d) = Some x" "read32 (dd_store d) (dd_pos d + 4) = Some y"
      "read32 (dd_store d) (dd_pos d + 8) = Some z" "read32 (dd_store d) (dd_pos d + 12) = Some w"
      using r v by (auto intro: dd_read32 [OF s, of "[]"] dd_read32 [OF s, of "le32 x"] dd_read32 [OF s, of "le32 x @ le32 y"]
          dd_read32 [OF s, of "le32 x @ le32 y @ le32 z"])
    then show ?thesis
      using m a v by (cases old) (simp_all add: ser_matches_def DataDeserializer_getVec4_def)
  next
    case (SIVec2 t)
    obtain x y where v: "v = SIVec2 (x, y)" by (metis SIVec2 prod.exhaust)
    have "read32 (dd_store d) (dd_pos d) = Some x" "read32 (dd_store d) (dd_pos d + 4) = Some y"
      using r v by (auto intro: dd_read32 [OF s, of "[]"] dd_read32 [OF s, of "le32 x"])
    then show ?thesis
      using m a v by (cases old) (simp_all add: ser_matches_def DataDeserializer_getIVec2_def)
  next
    case (SString t)
    then show ?thesis using m by (simp add: ser_matches_def)
  next
    case (SPadding n)
    then show ?thesis using m a by (cases old) (simp_all add: ser_matches_def DataDeserializer_skipPadding_def)
  qed
qed

text \<open>The growing serializer and the deserializer over its buffer are a channel.\<close>

interpretation serdes: byte_channel "ser_put fresh" ds_good ds_content ds_room "\<lambda>v. length (ser_bytes v)" "\<lambda>_. True" ser_bytes
    ser_get dd_sound dd_remaining ser_matches id DataDeserializer_of
  for fresh
proof unfold_locales
  show "\<exists>s'. ser_put fresh v s = Some s' \<and> ds_good s' \<and> ds_content s' = ds_content s @ ser_bytes v \<and> ds_room s' n"
    if "ds_good s" "ds_room s (length (ser_bytes v) + n)" for fresh s v n using that by (rule ser_put_appends)
  show "\<exists>d'. ser_get k d = Some (id v, d') \<and> dd_sound d' \<and> dd_remaining d' = rest"
    if "dd_sound d" "ser_matches k v" "dd_remaining d = ser_bytes v @ rest" for d k v rest
    using ser_get_law [OF that] dd_advance(2,3) [OF that(1,3)] by simp
  show "dd_sound (DataDeserializer_of s)" if "ds_good s" for s
    using that by (simp add: ds_good_def ds_inv_def dd_sound_def DataDeserializer_of_def DataDeserializer_new_def)
  show "dd_remaining (DataDeserializer_of s) = ds_content s" if "ds_good s" for s
    by (simp add: dd_remaining_def DataDeserializer_of_def DataDeserializer_new_def ds_content_def)
qed

lemma new_good: "ds_good (DataSerializer_new fresh)" "ds_content (DataSerializer_new fresh) = []" "ds_room (DataSerializer_new fresh) n"
  by (simp_all add: ds_good_def ds_inv_def ds_content_def ds_room_def DataSerializer_new_def DataSerializer_DEFAULT_SIZE_def)

text \<open>
  C33. Whatever values, scalars, vectors and padding, are written into a growing serializer, no write fails and
  the buffer holds exactly their bytes; a deserializer over it, reading variables of the same types in the same
  order, yields the same values, overflows nowhere and ends at the end of the data.
\<close>

theorem Serdes_roundtrip:
  assumes "list_all2 ser_matches olds vs"
  shows "\<exists>s d. put_all (ser_put fresh) vs (DataSerializer_new fresh) = Some s
    \<and> ds_length s = sum_list (map (\<lambda>v. length (ser_bytes v)) vs) \<and> \<not> ds_overflow s
    \<and> get_all ser_get olds (DataDeserializer_of s) = Some (vs, d) \<and> \<not> dd_overflow d \<and> dd_pos d = dd_length d"
proof -
  have "list_all (\<lambda>_. True) vs" by (simp add: list_all_iff)
  from serdes.channel_roundtrip [where fresh = fresh and s = "DataSerializer_new fresh", OF new_good(1,2) this new_good(3) assms]
  obtain s d where s: "put_all (ser_put fresh) vs (DataSerializer_new fresh) = Some s" "ds_good s"
      "ds_content s = concat (map ser_bytes vs)"
    and d: "get_all ser_get olds (DataDeserializer_of s) = Some (vs, d)" "dd_sound d" "dd_remaining d = []"
    by auto
  have "ds_length s = length (concat (map ser_bytes vs))"
    using s(2) by (simp add: length_ds_content ds_good_def flip: s(3))
  then have "ds_length s = sum_list (map (\<lambda>v. length (ser_bytes v)) vs)" by (simp add: length_concat o_def)
  moreover have "dd_pos d = dd_length d" using d(2,3) by (simp add: dd_sound_def dd_remaining_def)
  ultimately show ?thesis using s(1,2) d by (auto simp: ds_good_def dd_sound_def)
qed

theorem Serdes_roundtrip_witness:
  "\<exists>s d. put_all (ser_put (\<lambda>_. 0)) [S8 1, SVec3 (2, 3, 4), SPadding 5, S64 6] (DataSerializer_new (\<lambda>_. 0)) = Some s
    \<and> ds_length s = 26
    \<and> get_all ser_get [S8 0, SVec3 (0, 0, 0), SPadding 5, S64 0] (DataDeserializer_of s)
      = Some ([S8 1, SVec3 (2, 3, 4), SPadding 5, S64 6], d)"
  using Serdes_roundtrip [of "[S8 0, SVec3 (0, 0, 0), SPadding 5, S64 0]" "[S8 1, SVec3 (2, 3, 4), SPadding 5, S64 6]" "\<lambda>_. 0"]
  by (auto simp: ser_matches_def)

section \<open>A fixed buffer\<close>

text \<open>What a buffer of a given capacity does with the bytes of a value: it takes all of them or none, and remembers
  that something was refused.\<close>

definition bounded_put :: "nat \<Rightarrow> byte list \<Rightarrow> byte list \<times> bool \<Rightarrow> byte list \<times> bool" where
  "bounded_put capacity bytes = (\<lambda>(content, overflow).
     if length content + length bytes \<le> capacity then (content @ bytes, overflow) else (content, True))"

lemma ser_put_bounded:
  assumes "ds_inv s" "ds_pos s = ds_length s" "ds_storeIsExternal s"
  shows "\<exists>s'. ser_put fresh v s = Some s' \<and> ds_inv s' \<and> ds_pos s' = ds_length s' \<and> ds_storeIsExternal s'
    \<and> ds_capacity s' = ds_capacity s
    \<and> (ds_content s', ds_overflow s') = bounded_put (ds_capacity s) (ser_bytes v) (ds_content s, ds_overflow s)
    \<and> drop (ds_length s') (ds_store s') = drop (ds_length s') (ds_store s) \<and> ds_length s \<le> ds_length s'"
proof (cases "ds_room s (length (ser_bytes v))")
  case True
  then have "ds_length s + length (ser_bytes v) \<le> ds_capacity s" using assms(3) by (simp add: ds_room_def)
  with ds_put_law [OF assms(1) True, of fresh] assms show ?thesis
    by (auto simp: ser_put_eq bounded_put_def length_ds_content)
next
  case False
  then have "\<not> ds_length s + length (ser_bytes v) \<le> ds_capacity s" by (simp add: ds_room_def)
  with ds_put_refused [OF False, of fresh] assms show ?thesis
    by (auto simp: ser_put_eq bounded_put_def length_ds_content) (auto simp: ds_inv_def ds_content_def)
qed

text \<open>
  C32. A serializer over a fixed buffer never writes outside it, whatever it is given: each value is taken whole
  or refused whole, as by a bounded list, the overflow flag tells whether one was refused, and the bytes behind the
  length are the caller's, unchanged.
\<close>

theorem Serdes_external_refines_bounded:
  "\<exists>s. put_all (ser_put fresh) vs (DataSerializer_external store) = Some s
    \<and> (ds_content s, ds_overflow s) = fold (\<lambda>v. bounded_put (length store) (ser_bytes v)) vs ([], False)
    \<and> length (ds_store s) = length store \<and> drop (ds_length s) (ds_store s) = drop (ds_length s) store"
proof -
  have "ds_inv s \<Longrightarrow> ds_pos s = ds_length s \<Longrightarrow> ds_storeIsExternal s \<Longrightarrow>
    \<exists>s'. put_all (ser_put fresh) vs s = Some s' \<and> ds_inv s' \<and> ds_capacity s' = ds_capacity s
      \<and> (ds_content s', ds_overflow s')
        = fold (\<lambda>v. bounded_put (ds_capacity s) (ser_bytes v)) vs (ds_content s, ds_overflow s)
      \<and> drop (ds_length s') (ds_store s') = drop (ds_length s') (ds_store s) \<and> ds_length s \<le> ds_length s'" for s
  proof (induction vs arbitrary: s)
    case (Cons v vs)
    obtain s1 where s1: "ser_put fresh v s = Some s1" "ds_inv s1" "ds_pos s1 = ds_length s1" "ds_storeIsExternal s1"
      "ds_capacity s1 = ds_capacity s" "drop (ds_length s1) (ds_store s1) = drop (ds_length s1) (ds_store s)"
      "ds_length s \<le> ds_length s1"
      and c: "bounded_put (ds_capacity s) (ser_bytes v) (ds_content s, ds_overflow s) = (ds_content s1, ds_overflow s1)"
      using ser_put_bounded [OF Cons.prems, of fresh v] by metis
    obtain s' where s': "put_all (ser_put fresh) vs s1 = Some s'" "ds_inv s'" "ds_capacity s' = ds_capacity s"
      "drop (ds_length s') (ds_store s') = drop (ds_length s') (ds_store s1)" "ds_length s1 \<le> ds_length s'"
      and f: "(ds_content s', ds_overflow s')
        = fold (\<lambda>v. bounded_put (ds_capacity s) (ser_bytes v)) vs (ds_content s1, ds_overflow s1)"
      using Cons.IH [OF s1(2-4)] s1(5) by auto
    have "drop (ds_length s') (ds_store s1) = drop (ds_length s') (ds_store s)"
      using s1(6) s'(5) by (metis drop_drop le_add_diff_inverse2)
    then show ?case using s1(1,7) s' f by (simp add: c)
  qed simp
  from this [of "DataSerializer_external store"] show ?thesis
    by (auto simp: DataSerializer_external_def ds_inv_def ds_content_def)
qed

section \<open>The limits of rewinding and of reading\<close>

text \<open>
  Rewinding does not empty a serializer, as its description says: a fixed buffer that was filled refuses
  everything afterwards although its position is at the start, and a growing one reports, and hands to a deserializer,
  the new bytes followed by old ones.
\<close>

theorem Serdes_rewind_keeps_length:
  assumes "ds_good s" and "ser_bytes v \<noteq> []"
  shows "(ds_storeIsExternal s \<and> ds_length s = ds_capacity s
        \<longrightarrow> ser_put fresh v (DataSerializer_rewind s) = Some ((DataSerializer_rewind s)\<lparr>ds_overflow := True\<rparr>))
    \<and> (\<not> ds_storeIsExternal s \<longrightarrow> (\<exists>s' junk. ser_put fresh v (DataSerializer_rewind s) = Some s'
        \<and> ds_pos s' = length (ser_bytes v) \<and> length junk = length (ser_bytes v)
        \<and> dd_remaining (DataDeserializer_of s')
          = ser_bytes v @ drop (length (ser_bytes v)) (ds_content s @ junk)))"
proof -
  have r: "ds_inv (DataSerializer_rewind s)" "ds_content (DataSerializer_rewind s) = ds_content s"
    using assms(1) by (auto simp: ds_good_def ds_inv_def ds_content_def DataSerializer_rewind_def)
  have "ser_put fresh v (DataSerializer_rewind s) = Some ((DataSerializer_rewind s)\<lparr>ds_overflow := True\<rparr>)"
    if "ds_storeIsExternal s" "ds_length s = ds_capacity s"
    using that assms(2) unfolding ser_put_eq
    by (intro ds_put_refused) (simp add: ds_room_def DataSerializer_rewind_def)
  moreover have "\<exists>s' junk. ser_put fresh v (DataSerializer_rewind s) = Some s' \<and> ds_pos s' = length (ser_bytes v)
      \<and> length junk = length (ser_bytes v)
      \<and> dd_remaining (DataDeserializer_of s') = ser_bytes v @ drop (length (ser_bytes v)) (ds_content s @ junk)"
    if "\<not> ds_storeIsExternal s"
  proof -
    have "ds_room (DataSerializer_rewind s) (length (ser_bytes v))" using that by (simp add: ds_room_def DataSerializer_rewind_def)
    moreover have "ds_pos (DataSerializer_rewind s) = 0" by (simp add: DataSerializer_rewind_def)
    ultimately obtain s' junk where "ser_put fresh v (DataSerializer_rewind s) = Some s'"
        "length junk = length (ser_bytes v)" "ds_pos s' = length (ser_bytes v)"
        "ds_content s' = ser_bytes v @ drop (length (ser_bytes v)) (ds_content s @ junk)"
      using ds_put_law [OF r(1), of "ser_bytes v" fresh] by (auto simp: ser_put_eq r(2))
    then show ?thesis
      by (auto simp: dd_remaining_def DataDeserializer_of_def DataDeserializer_new_def ds_content_def)
  qed
  ultimately show ?thesis by blast
qed

theorem Serdes_rewind_keeps_length_witness:
  "\<exists>s. DataSerializer_put8 (\<lambda>_. 0) 7 (DataSerializer_external [0]) = Some s \<and> \<not> ds_overflow s
    \<and> DataSerializer_put8 (\<lambda>_. 0) 9 (DataSerializer_rewind s) = Some ((DataSerializer_rewind s)\<lparr>ds_overflow := True\<rparr>)"
proof -
  obtain s where s: "s = \<lparr>ds_store = [7], ds_storeIsExternal = True, ds_overflow = False, ds_capacity = 1, ds_length = 1,
      ds_pos = 1, ds_lastAdvance = 1\<rparr>" by blast
  have "DataSerializer_put8 (\<lambda>_. 0) 7 (DataSerializer_external [0]) = Some s"
    by (simp add: s DataSerializer_put8_def ds_put_def DataSerializer_extendBy_def DataSerializer_external_def mem_write_def)
  moreover have "ds_good s" "ser_bytes (S8 9) \<noteq> []" "ds_storeIsExternal s \<and> ds_length s = ds_capacity s"
    by (simp_all add: s ds_good_def ds_inv_def)
  ultimately show ?thesis
    using Serdes_rewind_keeps_length [of s "S8 9" "\<lambda>_. 0"] by (auto simp: s)
qed

text \<open>
  C34. A deserializer never reads past the length it was given: every read is defined; one that does not fit leaves the
  variable and the position alone and sets the overflow flag, any other advances by the size of the value.
\<close>

theorem DataDeserializer_never_reads_past:
  assumes "dd_length d \<le> length (dd_store d)" and "ser_type old \<noteq> SString []"
  shows "if dd_length d < dd_pos d + length (ser_bytes old)
    then ser_get old d = Some (old, d\<lparr>dd_overflow := True\<rparr>)
    else \<exists>v. ser_matches old v \<and> ser_get old d
      = Some (v, d\<lparr>dd_pos := dd_pos d + length (ser_bytes old), dd_lastAdvance := length (ser_bytes old)\<rparr>)"
proof -
  have read: "\<exists>x. read32 (dd_store d) k = Some x" if "k + 4 \<le> dd_length d" for k
    using that assms(1) by (simp add: read32_def mem_read_def)
  have get: "\<exists>b. dd_get n d = Some (Some b, d\<lparr>dd_pos := dd_pos d + n, dd_lastAdvance := n\<rparr>)" if "dd_pos d + n \<le> dd_length d" for n
    using that assms(1) by (simp add: dd_get_def DataDeserializer_canAdvanceBy_def mem_read_def)
  show ?thesis
  proof (cases "dd_length d < dd_pos d + length (ser_bytes old)")
    case True
    then show ?thesis
      using assms(2)
      by (cases "(old, d)" rule: ser_get.cases)
        (auto simp: DataDeserializer_get8_def DataDeserializer_get16_def DataDeserializer_get32_def DataDeserializer_get64_def
          DataDeserializer_getFloat_def DataDeserializer_getVec3_def DataDeserializer_getVec4_def DataDeserializer_getIVec2_def
          DataDeserializer_skipPadding_def dd_get_def DataDeserializer_canAdvanceBy_def)
  next
    case False
    then have f: "DataDeserializer_canAdvanceBy (length (ser_bytes old)) d = (True, d)"
        "dd_pos d + length (ser_bytes old) \<le> dd_length d"
      by (simp_all add: DataDeserializer_canAdvanceBy_def)
    have "\<exists>v. ser_matches old v \<and> ser_get old d
      = Some (v, d\<lparr>dd_pos := dd_pos d + length (ser_bytes old), dd_lastAdvance := length (ser_bytes old)\<rparr>)"
    proof (cases "(old, d)" rule: ser_get.cases)
      case (6 t)
      obtain x y z where "read32 (dd_store d) (dd_pos d) = Some x" "read32 (dd_store d) (dd_pos d + 4) = Some y"
          "read32 (dd_store d) (dd_pos d + 8) = Some z"
        using read [of "dd_pos d"] read [of "dd_pos d + 4"] read [of "dd_pos d + 8"] f(2) 6 by (cases t) auto
      then show ?thesis using f 6
        by (cases t) (auto simp: DataDeserializer_getVec3_def ser_matches_def intro: exI [of _ "SVec3 (x, y, z)"])
    next
      case (7 t)
      obtain x y z w where "read32 (dd_store d) (dd_pos d) = Some x" "read32 (dd_store d) (dd_pos d + 4) = Some y"
          "read32 (dd_store d) (dd_pos d + 8) = Some z" "read32 (dd_store d) (dd_pos d + 12) = Some w"
        using read [of "dd_pos d"] read [of "dd_pos d + 4"] read [of "dd_pos d + 8"] read [of "dd_pos d + 12"] f(2) 7
        by (cases t) auto
      then show ?thesis using f 7
        by (cases t) (auto simp: DataDeserializer_getVec4_def ser_matches_def intro: exI [of _ "SVec4 (x, y, z, w)"])
    next
      case (8 t)
      obtain x y where "read32 (dd_store d) (dd_pos d) = Some x" "read32 (dd_store d) (dd_pos d + 4) = Some y"
        using read [of "dd_pos d"] read [of "dd_pos d + 4"] f(2) 8 by (cases t) auto
      then show ?thesis using f 8
        by (cases t) (auto simp: DataDeserializer_getIVec2_def ser_matches_def intro: exI [of _ "SIVec2 (x, y)"])
    next
      case 9
      then show ?thesis using assms(2) by simp
    next
      case (10 n)
      then show ?thesis using f by (auto simp: DataDeserializer_skipPadding_def ser_matches_def)
    qed (use get [OF f(2)] assms(2) in \<open>auto simp: ser_matches_def DataDeserializer_get8_def DataDeserializer_get16_def
        DataDeserializer_get32_def DataDeserializer_get64_def DataDeserializer_getFloat_def\<close>)
    with False show ?thesis by simp
  qed
qed

theorem DataDeserializer_never_reads_past_witness:
  "ser_get (S32 7) (DataDeserializer_new [1, 2, 3] 3)
    = Some (S32 7, (DataDeserializer_new [1, 2, 3] 3)\<lparr>dd_overflow := True\<rparr>)"
  using DataDeserializer_never_reads_past [of "DataDeserializer_new [1, 2, 3] 3" "S32 7"]
  by (simp add: DataDeserializer_new_def)

end
