(* ===== verification/Octree_Values.thy ===== *)
theory Octree_Values
  imports Octree_Packet_Data Data_Serdes
begin

text \<open>
  The values of an octree packet: the overloads of \<open>OctreePacketData::appendValue\<close> and of \<open>unpackDataFromBytes\<close>
  (\<open>libraries/octree/src/OctreePacketData.cpp\<close>), and the packed quaternions of \<open>GLMHelpers.cpp\<close>. A float is its
  32 bits, except in a quaternion, whose components are reals because the packing computes with them; rounding of
  floats is not modelled, and \<open>glm_normalize\<close>, glm's normalization, is a parameter. A string is its UTF-8 bytes. A pointer into a
  buffer is the rest of the buffer; a read or write outside an allocation is \<open>None\<close>.
\<close>

section \<open>Quaternions\<close>

type_synonym quat = "real \<times> real \<times> real \<times> real"

text \<open>One component: \<open>floorf\<close>, then the conversion to 16 bits, which is undefined out of range.\<close>

definition quat_part :: "real \<Rightarrow> 16 word option" where
  "quat_part x = (let f = \<lfloor>(x + 1) * (65535 / 2)\<rfloor> in if 0 \<le> f \<and> f < 65536 then Some (word_of_int f) else None)"

(* @src libraries/shared/src/GLMHelpers.cpp 140-151 packOrientationQuatToBytes *)
definition packOrientationQuatToBytes :: "(quat \<Rightarrow> quat) \<Rightarrow> quat \<Rightarrow> byte list option" where
  "packOrientationQuatToBytes glm_normalize quatInput =
     (case glm_normalize quatInput of (x, y, z, w) \<Rightarrow>
      do { a \<leftarrow> quat_part x; b \<leftarrow> quat_part y; c \<leftarrow> quat_part z; d \<leftarrow> quat_part w;
           Some (le16 a @ le16 b @ le16 c @ le16 d) })"

definition quat_value :: "16 word \<Rightarrow> real" where
  "quat_value p = real (unat p) / 65535 * 2 - 1"

(* @src libraries/shared/src/GLMHelpers.cpp 153-163 unpackOrientationQuatFromBytes *)
definition unpackOrientationQuatFromBytes :: "byte list \<Rightarrow> (quat \<times> nat) option" where
  "unpackOrientationQuatFromBytes buffer =
     do { parts \<leftarrow> mem_read buffer 0 8;
          Some ((quat_value (un_le16 (take 2 parts)), quat_value (un_le16 (take 2 (drop 2 parts))),
                 quat_value (un_le16 (take 2 (drop 4 parts))), quat_value (un_le16 (drop 6 parts))), 8) }"

section \<open>Appending values\<close>

definition opd_countValues :: "int \<Rightarrow> octree_packet_data \<Rightarrow> octree_packet_data" where
  "opd_countValues n p = p\<lparr>opd_bytesOf := (opd_bytesOf p)\<lparr>cnt_values := cnt_values (opd_bytesOf p) + n\<rparr>,
     opd_totalBytesOf := (opd_totalBytesOf p)\<lparr>cnt_values := cnt_values (opd_totalBytesOf p) + n\<rparr>\<rparr>"

text \<open>The common body of the overloads: append the memory of the value, and count it when it fits.\<close>

definition opd_appendCounted :: "byte list \<Rightarrow> octree_packet_data \<Rightarrow> (bool \<times> octree_packet_data) option" where
  "opd_appendCounted data p =
     do { (success, p1) \<leftarrow> OctreePacketData_append data p;
          Some (success, if success then opd_countValues (int (length data)) p1 else p1) }"

type_synonym vec2 = "32 word \<times> 32 word"
type_synonym u8vec3 = "8 word \<times> 8 word \<times> 8 word"

fun vec2_bytes :: "vec2 \<Rightarrow> byte list" where
  "vec2_bytes (x, y) = le32 x @ le32 y"

fun vec3_bytes :: "vec3 \<Rightarrow> byte list" where
  "vec3_bytes (x, y, z) = le32 x @ le32 y @ le32 z"

(* @src libraries/octree/src/OctreePacketData.cpp 327-334 OctreePacketData::appendValue(uint8_t) *)
definition appendValue_u8 :: "8 word \<Rightarrow> octree_packet_data \<Rightarrow> (bool \<times> octree_packet_data) option" where
  "appendValue_u8 value p =
     do { (success, p1) \<leftarrow> OctreePacketData_appendByte value p;
          Some (success, if success then opd_countValues 1 p1 else p1) }"

(* @src libraries/octree/src/OctreePacketData.cpp 336-346 OctreePacketData::appendValue(uint16_t) *)
definition appendValue_u16 :: "16 word \<Rightarrow> octree_packet_data \<Rightarrow> (bool \<times> octree_packet_data) option" where
  "appendValue_u16 value p = opd_appendCounted (le16 value) p"

(* @src libraries/octree/src/OctreePacketData.cpp 348-357 OctreePacketData::appendValue(uint32_t) *)
definition appendValue_u32 :: "32 word \<Rightarrow> octree_packet_data \<Rightarrow> (bool \<times> octree_packet_data) option" where
  "appendValue_u32 value p = opd_appendCounted (le32 value) p"

(* @src libraries/octree/src/OctreePacketData.cpp 359-369 OctreePacketData::appendValue(quint64) *)
definition appendValue_u64 :: "64 word \<Rightarrow> octree_packet_data \<Rightarrow> (bool \<times> octree_packet_data) option" where
  "appendValue_u64 value p = opd_appendCounted (le64 value) p"

(* @src libraries/octree/src/OctreePacketData.cpp 371-380 OctreePacketData::appendValue(float) *)
definition appendValue_float :: "32 word \<Rightarrow> octree_packet_data \<Rightarrow> (bool \<times> octree_packet_data) option" where
  "appendValue_float value p = opd_appendCounted (le32 value) p"

(* @src libraries/octree/src/OctreePacketData.cpp 382-391 OctreePacketData::appendValue(glm::vec2) *)
definition appendValue_vec2 :: "vec2 \<Rightarrow> octree_packet_data \<Rightarrow> (bool \<times> octree_packet_data) option" where
  "appendValue_vec2 value p = opd_appendCounted (vec2_bytes value) p"

(* @src libraries/octree/src/OctreePacketData.cpp 393-402 OctreePacketData::appendValue(glm::vec3) *)
definition appendValue_vec3 :: "vec3 \<Rightarrow> octree_packet_data \<Rightarrow> (bool \<times> octree_packet_data) option" where
  "appendValue_vec3 value p = opd_appendCounted (vec3_bytes value) p"

(* @src libraries/octree/src/OctreePacketData.cpp 404-406 OctreePacketData::appendValue(glm::u8vec3) *)
fun appendValue_color :: "u8vec3 \<Rightarrow> octree_packet_data \<Rightarrow> (bool \<times> octree_packet_data) option" where
  "appendValue_color (x, y, z) p = OctreePacketData_appendColor x y z p"

text \<open>A vector goes as its size, cut to 16 bits, and the memory of that many elements.\<close>

definition opd_appendVector :: "('a \<Rightarrow> byte list) \<Rightarrow> 'a list \<Rightarrow> octree_packet_data \<Rightarrow> (bool \<times> octree_packet_data) option" where
  "opd_appendVector memory value p =
     (let qVecSize = word_of_nat (length value) :: 16 word in
      do { (success, p1) \<leftarrow> appendValue_u16 qVecSize p;
           if success then opd_appendCounted (concat (map memory (take (unat qVecSize) value))) p1 else Some (False, p1) })"

(* @src libraries/octree/src/OctreePacketData.cpp 408-419 OctreePacketData::appendValue(QVector<glm::vec3>) *)
definition appendValue_vec3s :: "vec3 list \<Rightarrow> octree_packet_data \<Rightarrow> (bool \<times> octree_packet_data) option" where
  "appendValue_vec3s value p = opd_appendVector vec3_bytes value p"

(* @src libraries/octree/src/OctreePacketData.cpp 443-454 OctreePacketData::appendValue(QVector<float>) *)
definition appendValue_floats :: "32 word list \<Rightarrow> octree_packet_data \<Rightarrow> (bool \<times> octree_packet_data) option" where
  "appendValue_floats value p = opd_appendVector le32 value p"

text \<open>The memory of a \<open>QUuid\<close>: a 32 bit and two 16 bit members, then eight bytes.\<close>

definition QUuid_memory :: "uuid \<Rightarrow> byte list" where
  "QUuid_memory u = (let b = toRfc4122 u in
     rev (take 4 b) @ rev (take 2 (drop 4 b)) @ rev (take 2 (drop 6 b)) @ drop 8 b)"

definition QUuid_of_memory :: "byte list \<Rightarrow> uuid" where
  "QUuid_of_memory b = fromRfc4122 (rev (take 4 b) @ rev (take 2 (drop 4 b)) @ rev (take 2 (drop 6 b)) @ drop 8 b)"

(* @src libraries/octree/src/OctreePacketData.cpp 487-498 OctreePacketData::appendValue(QVector<QUuid>) *)
definition appendValue_uuids :: "uuid list \<Rightarrow> octree_packet_data \<Rightarrow> (bool \<times> octree_packet_data) option" where
  "appendValue_uuids value p = opd_appendVector QUuid_memory value p"

text \<open>Quaternions and flags are first packed into a buffer of fixed size; \<open>append\<close> then reads from it.\<close>

definition opd_appendFrom :: "byte list \<Rightarrow> nat \<Rightarrow> octree_packet_data \<Rightarrow> (bool \<times> octree_packet_data) option" where
  "opd_appendFrom start n p =
     (if int n \<le> opd_bytesAvailable p then do { data \<leftarrow> mem_read start 0 n; opd_appendCounted data p }
      else Some (False, p))"

fun quats_pack :: "(quat \<Rightarrow> quat) \<Rightarrow> byte list \<Rightarrow> nat \<Rightarrow> quat list \<Rightarrow> byte list option" where
  "quats_pack glm_normalize buffer off [] = Some buffer"
| "quats_pack glm_normalize buffer off (q # qs) =
     do { bytes \<leftarrow> packOrientationQuatToBytes glm_normalize q;
          buffer1 \<leftarrow> mem_write buffer off bytes;
          quats_pack glm_normalize buffer1 (off + 8) qs }"

(* @src libraries/octree/src/OctreePacketData.cpp 421-441 OctreePacketData::appendValue(QVector<glm::quat>) *)
definition appendValue_quats :: "(quat \<Rightarrow> quat) \<Rightarrow> quat list \<Rightarrow> octree_packet_data \<Rightarrow> (bool \<times> octree_packet_data) option" where
  "appendValue_quats glm_normalize value p =
     do { (success, p1) \<leftarrow> appendValue_u16 (word_of_nat (length value)) p;
          if success then do { start \<leftarrow> quats_pack glm_normalize (replicate (nat MAX_PACKET_SIZE) 0) 0 value;
                               opd_appendFrom start (8 * length value) p1 }
          else Some (False, p1) }"

fun bools_pack :: "byte list \<Rightarrow> nat \<Rightarrow> bool list \<Rightarrow> byte list option" where
  "bools_pack buffer index [] = Some buffer"
| "bools_pack buffer index (v # vs) =
     (if v then (if index div 8 < length buffer
                 then bools_pack (buffer[index div 8 := (buffer ! (index div 8)) OR push_bit (index mod 8) 1]) (Suc index) vs
                 else None)
      else bools_pack buffer (Suc index) vs)"

(* @src libraries/octree/src/OctreePacketData.cpp 456-485 OctreePacketData::appendValue(QVector<bool>) *)
definition appendValue_bools :: "bool list \<Rightarrow> octree_packet_data \<Rightarrow> (bool \<times> octree_packet_data) option" where
  "appendValue_bools value p =
     do { (success, p1) \<leftarrow> appendValue_u16 (word_of_nat (length value)) p;
          if success then do { start \<leftarrow> bools_pack (replicate (nat MAX_PACKET_SIZE) 0) 0 value;
                               opd_appendFrom start (length value div 8 + (if length value mod 8 \<noteq> 0 then 1 else 0)) p1 }
          else Some (False, p1) }"

text \<open>A string, cut to a length that fits 16 bits, follows its length; the bytes are counted as raw data.\<close>

(* @src libraries/octree/src/OctreePacketData.cpp 546-555 OctreePacketData::appendValue(QString) *)
definition appendValue_string :: "byte list \<Rightarrow> octree_packet_data \<Rightarrow> (bool \<times> octree_packet_data) option" where
  "appendValue_string utf8 p =
     (let length = word_of_nat (length utf8) :: 16 word in
      do { (success, p1) \<leftarrow> appendValue_u16 length p;
           if success then OctreePacketData_appendRawData (take (unat length) utf8) p1 else Some (False, p1) })"

text \<open>A set is its strings in the order in which the iteration meets them.\<close>

fun strings_append :: "byte list list \<Rightarrow> octree_packet_data \<Rightarrow> (bool \<times> octree_packet_data) option" where
  "strings_append [] p = Some (True, p)"
| "strings_append (s # ss) p =
     do { (success, p1) \<leftarrow> appendValue_string s p;
          if success then strings_append ss p1 else Some (False, p1) }"

(* @src libraries/octree/src/OctreePacketData.cpp 500-522 OctreePacketData::appendValue(QSet<QString>) *)
definition appendValue_strings :: "byte list list \<Rightarrow> octree_packet_data \<Rightarrow> (bool \<times> octree_packet_data) option" where
  "appendValue_strings value p =
     do { (success, p1) \<leftarrow> appendValue_u16 (word_of_nat (length value)) p;
          if success then strings_append value p1 else Some (False, p1) }"

(* @src libraries/octree/src/OctreePacketData.cpp 524-535 OctreePacketData::appendValue(glm::quat) *)
definition appendValue_quat :: "(quat \<Rightarrow> quat) \<Rightarrow> quat \<Rightarrow> octree_packet_data \<Rightarrow> (bool \<times> octree_packet_data) option" where
  "appendValue_quat glm_normalize value p =
     do { data \<leftarrow> packOrientationQuatToBytes glm_normalize value; opd_appendCounted data p }"

(* @src libraries/octree/src/OctreePacketData.cpp 537-544 OctreePacketData::appendValue(bool) *)
definition appendValue_bool :: "bool \<Rightarrow> octree_packet_data \<Rightarrow> (bool \<times> octree_packet_data) option" where
  "appendValue_bool value p =
     do { (success, p1) \<leftarrow> OctreePacketData_appendByte (if value then 1 else 0) p;
          Some (success, if success then opd_countValues 1 p1 else p1) }"

(* @src libraries/octree/src/OctreePacketData.cpp 557-569 OctreePacketData::appendValue(QUuid) *)
definition appendValue_uuid :: "uuid \<Rightarrow> octree_packet_data \<Rightarrow> (bool \<times> octree_packet_data) option" where
  "appendValue_uuid u p =
     (let bytes = toRfc4122 u in
      if u = 0 then appendValue_u16 0 p
      else do { (success, p1) \<leftarrow> appendValue_u16 (word_of_nat (length bytes)) p;
                if success then OctreePacketData_appendRawData bytes p1 else Some (False, p1) })"

(* @src libraries/octree/src/OctreePacketData.cpp 571-579 OctreePacketData::appendValue(QByteArray) *)
definition appendValue_bytes :: "byte list \<Rightarrow> octree_packet_data \<Rightarrow> (bool \<times> octree_packet_data) option" where
  "appendValue_bytes bytes p =
     do { (success, p1) \<leftarrow> appendValue_u16 (word_of_nat (length bytes)) p;
          if success then OctreePacketData_appendRawData bytes p1 else Some (False, p1) }"

(* @src libraries/shared/src/AACube.h 82-83 AACube *)
record aa_cube =
  cube_corner :: vec3
  cube_scale :: "32 word"

(* @src libraries/octree/src/OctreePacketData.cpp 581-591 OctreePacketData::appendValue(AACube) *)
definition appendValue_cube :: "aa_cube \<Rightarrow> octree_packet_data \<Rightarrow> (bool \<times> octree_packet_data) option" where
  "appendValue_cube aaCube p = opd_appendCounted (vec3_bytes (cube_corner aaCube) @ le32 (cube_scale aaCube)) p"

text \<open>The memory of a \<open>QRect\<close> is its four coordinates.\<close>

type_synonym qrect = "32 word \<times> 32 word \<times> 32 word \<times> 32 word"

fun qrect_bytes :: "qrect \<Rightarrow> byte list" where
  "qrect_bytes (x1, y1, x2, y2) = le32 x1 @ le32 y1 @ le32 x2 @ le32 y2"

(* @src libraries/octree/src/OctreePacketData.cpp 593-602 OctreePacketData::appendValue(QRect) *)
definition appendValue_rect :: "qrect \<Rightarrow> octree_packet_data \<Rightarrow> (bool \<times> octree_packet_data) option" where
  "appendValue_rect value p = opd_appendCounted (qrect_bytes value) p"

text \<open>A \<open>Sampler\<close> is its descriptor, 28 bytes without padding (the source asserts the size).\<close>

(* @src libraries/shared/src/Sampler.h 69-81 Sampler::Desc *)
record sampler_desc =
  smp_borderColor :: vec4
  smp_maxAnisotropy :: "32 word"
  smp_filter :: byte
  smp_comparisonFunc :: byte
  smp_wrapModeU :: byte
  smp_wrapModeV :: byte
  smp_wrapModeW :: byte
  smp_mipOffset :: byte
  smp_minMip :: byte
  smp_maxMip :: byte

fun vec4_bytes :: "vec4 \<Rightarrow> byte list" where
  "vec4_bytes (x, y, z, w) = le32 x @ le32 y @ le32 z @ le32 w"

definition sampler_memory :: "sampler_desc \<Rightarrow> byte list" where
  "sampler_memory d = vec4_bytes (smp_borderColor d) @ le32 (smp_maxAnisotropy d) @ [smp_filter d, smp_comparisonFunc d,
     smp_wrapModeU d, smp_wrapModeV d, smp_wrapModeW d, smp_mipOffset d, smp_minMip d, smp_maxMip d]"

(* @src libraries/octree/src/OctreePacketData.cpp 604-613 OctreePacketData::appendValue(Sampler) *)
definition appendValue_sampler :: "sampler_desc \<Rightarrow> octree_packet_data \<Rightarrow> (bool \<times> octree_packet_data) option" where
  "appendValue_sampler value p = opd_appendCounted (sampler_memory value) p"

(* @src libraries/shared/src/Sampler.h 152-165 operator>>(DataDeserializer, Sampler::Desc) *)
definition Sampler_Desc_deserialize :: "sampler_desc \<Rightarrow> data_deserializer \<Rightarrow> (sampler_desc \<times> data_deserializer) option" where
  "Sampler_Desc_deserialize d dsr = DataDeserializer_tracked (\<lambda>dsr.
     do { (a, r) \<leftarrow> DataDeserializer_getVec4 (smp_borderColor d) dsr;
          (b, r) \<leftarrow> DataDeserializer_get32 (smp_maxAnisotropy d) r;
          (c, r) \<leftarrow> DataDeserializer_get8 (smp_filter d) r;
          (e, r) \<leftarrow> DataDeserializer_get8 (smp_comparisonFunc d) r;
          (f, r) \<leftarrow> DataDeserializer_get8 (smp_wrapModeU d) r;
          (g, r) \<leftarrow> DataDeserializer_get8 (smp_wrapModeV d) r;
          (h, r) \<leftarrow> DataDeserializer_get8 (smp_wrapModeW d) r;
          (i, r) \<leftarrow> DataDeserializer_get8 (smp_mipOffset d) r;
          (j, r) \<leftarrow> DataDeserializer_get8 (smp_minMip d) r;
          (k, r) \<leftarrow> DataDeserializer_get8 (smp_maxMip d) r;
          Some (\<lparr>smp_borderColor = a, smp_maxAnisotropy = b, smp_filter = c, smp_comparisonFunc = e, smp_wrapModeU = f,
                 smp_wrapModeV = g, smp_wrapModeW = h, smp_mipOffset = i, smp_minMip = j, smp_maxMip = k\<rparr>, r) }) dsr"

(* @src libraries/shared/src/Sampler.h 69-83 Sampler::Desc::Desc *)
definition Sampler_Desc_default :: sampler_desc where
  "Sampler_Desc_default = \<lparr>smp_borderColor = (0x3F800000, 0x3F800000, 0x3F800000, 0x3F800000), smp_maxAnisotropy = 16,
     smp_filter = 11, smp_comparisonFunc = 7, smp_wrapModeU = 0, smp_wrapModeV = 0, smp_wrapModeW = 0, smp_mipOffset = 0,
     smp_minMip = 0, smp_maxMip = 0xFF\<rparr>"

(* @src libraries/shared/src/AACube.h 113-117 operator>>(DataDeserializer, AACube) *)
definition AACube_deserialize :: "aa_cube \<Rightarrow> data_deserializer \<Rightarrow> (aa_cube \<times> data_deserializer) option" where
  "AACube_deserialize cube des =
     do { (c, des1) \<leftarrow> DataDeserializer_getVec3 (cube_corner cube) des;
          (s, des2) \<leftarrow> DataDeserializer_getFloat (cube_scale cube) des1;
          Some (\<lparr>cube_corner = c, cube_scale = s\<rparr>, des2) }"

section \<open>Reading values\<close>

(* @src libraries/octree/src/OctreePacketData.h 284-284 OctreePacketData::unpackDataFromBytes(uint8_t) *)
definition unpack_u8 :: "byte list \<Rightarrow> (8 word \<times> nat) option" where
  "unpack_u8 dataBytes = do { b \<leftarrow> mem_read dataBytes 0 1; Some (hd b, 1) }"

(* @src libraries/octree/src/OctreePacketData.h 283-283 OctreePacketData::unpackDataFromBytes(uint16_t) *)
definition unpack_u16 :: "byte list \<Rightarrow> (16 word \<times> nat) option" where
  "unpack_u16 dataBytes = do { b \<leftarrow> mem_read dataBytes 0 2; Some (un_le16 b, 2) }"

(* @src libraries/octree/src/OctreePacketData.h 282-282 OctreePacketData::unpackDataFromBytes(uint32_t) *)
definition unpack_u32 :: "byte list \<Rightarrow> (32 word \<times> nat) option" where
  "unpack_u32 dataBytes = do { b \<leftarrow> mem_read dataBytes 0 4; Some (un_le32 b, 4) }"

(* @src libraries/octree/src/OctreePacketData.h 281-281 OctreePacketData::unpackDataFromBytes(quint64) *)
definition unpack_u64 :: "byte list \<Rightarrow> (64 word \<times> nat) option" where
  "unpack_u64 dataBytes = do { b \<leftarrow> mem_read dataBytes 0 8; Some (un_le64 b, 8) }"

(* @src libraries/octree/src/OctreePacketData.h 279-279 OctreePacketData::unpackDataFromBytes(float) *)
definition unpack_float :: "byte list \<Rightarrow> (32 word \<times> nat) option" where
  "unpack_float dataBytes = do { b \<leftarrow> mem_read dataBytes 0 4; Some (un_le32 b, 4) }"

text \<open>A \<open>bool\<close> whose memory is neither 0 nor 1 is undefined.\<close>

(* @src libraries/octree/src/OctreePacketData.h 280-280 OctreePacketData::unpackDataFromBytes(bool) *)
definition unpack_bool :: "byte list \<Rightarrow> (bool \<times> nat) option" where
  "unpack_bool dataBytes = do { b \<leftarrow> mem_read dataBytes 0 1; if hd b = 0 \<or> hd b = 1 then Some (hd b = 1, 1) else None }"

(* @src libraries/octree/src/OctreePacketData.h 285-285 OctreePacketData::unpackDataFromBytes(glm::quat) *)
definition unpack_quat :: "byte list \<Rightarrow> (quat \<times> nat) option" where
  "unpack_quat dataBytes = unpackOrientationQuatFromBytes dataBytes"

(* @src libraries/octree/src/OctreePacketData.cpp 741-744 OctreePacketData::unpackDataFromBytes(glm::vec2) *)
definition unpack_vec2 :: "byte list \<Rightarrow> (vec2 \<times> nat) option" where
  "unpack_vec2 dataBytes = do { b \<leftarrow> mem_read dataBytes 0 8; Some ((un_le32 (take 4 b), un_le32 (drop 4 b)), 8) }"

definition vec3_of_memory :: "byte list \<Rightarrow> vec3" where
  "vec3_of_memory b = (un_le32 (take 4 b), un_le32 (take 4 (drop 4 b)), un_le32 (drop 8 b))"

(* @src libraries/octree/src/OctreePacketData.cpp 746-749 OctreePacketData::unpackDataFromBytes(glm::vec3) *)
definition unpack_vec3 :: "byte list \<Rightarrow> (vec3 \<times> nat) option" where
  "unpack_vec3 dataBytes = do { b \<leftarrow> mem_read dataBytes 0 12; Some (vec3_of_memory b, 12) }"

(* @src libraries/octree/src/OctreePacketData.cpp 751-754 OctreePacketData::unpackDataFromBytes(glm::u8vec3) *)
definition unpack_color :: "byte list \<Rightarrow> (u8vec3 \<times> nat) option" where
  "unpack_color dataBytes = do { b \<leftarrow> mem_read dataBytes 0 3; Some ((b ! 0, b ! 1, b ! 2), 3) }"

(* @src libraries/octree/src/OctreePacketData.cpp 756-763 OctreePacketData::unpackDataFromBytes(QString) *)
definition unpack_string :: "byte list \<Rightarrow> (byte list \<times> nat) option" where
  "unpack_string dataBytes =
     do { l \<leftarrow> mem_read dataBytes 0 2;
          let length = unat (un_le16 l);
          value \<leftarrow> mem_read dataBytes 2 length;
          Some (value, 2 + length) }"

(* @src libraries/octree/src/OctreePacketData.cpp 765-776 OctreePacketData::unpackDataFromBytes(QUuid) *)
definition unpack_uuid :: "byte list \<Rightarrow> (uuid \<times> nat) option" where
  "unpack_uuid dataBytes =
     do { l \<leftarrow> mem_read dataBytes 0 2;
          let length = unat (un_le16 l);
          if length = 0 then Some (0, 2)
          else do { ba \<leftarrow> mem_read dataBytes 2 length; Some (fromRfc4122 ba, 2 + length) } }"

text \<open>A loop of reads: each takes what the pointer has reached, and advances it.\<close>

fun unpack_loop :: "(byte list \<Rightarrow> ('a \<times> nat) option) \<Rightarrow> nat \<Rightarrow> byte list \<Rightarrow> ('a list \<times> nat) option" where
  "unpack_loop read 0 dataAt = Some ([], 0)"
| "unpack_loop read (Suc n) dataAt =
     do { (v, k) \<leftarrow> read dataAt; (vs, ks) \<leftarrow> unpack_loop read n (drop k dataAt); Some (v # vs, k + ks) }"

(* @src libraries/octree/src/OctreePacketData.cpp 778-790 OctreePacketData::unpackDataFromBytes(QVector<glm::vec3>) *)
definition unpack_vec3s :: "byte list \<Rightarrow> (vec3 list \<times> nat) option" where
  "unpack_vec3s dataBytes =
     do { l \<leftarrow> mem_read dataBytes 0 2;
          let length = unat (un_le16 l);
          (result, _) \<leftarrow> unpack_loop unpack_vec3 length (drop 2 dataBytes);
          Some (result, 2 + length * 12) }"

(* @src libraries/octree/src/OctreePacketData.cpp 792-803 OctreePacketData::unpackDataFromBytes(QVector<glm::quat>) *)
definition unpack_quats :: "byte list \<Rightarrow> (quat list \<times> nat) option" where
  "unpack_quats dataBytes =
     do { l \<leftarrow> mem_read dataBytes 0 2;
          let length = unat (un_le16 l);
          (result, k) \<leftarrow> unpack_loop unpackOrientationQuatFromBytes length (drop 2 dataBytes);
          Some (result, k + 2) }"

text \<open>The bytes of \<open>count\<close> elements of \<open>k\<close> bytes each.\<close>

definition elements :: "(byte list \<Rightarrow> 'a) \<Rightarrow> nat \<Rightarrow> nat \<Rightarrow> byte list \<Rightarrow> 'a list" where
  "elements of_memory k count bs = map (\<lambda>i. of_memory (take k (drop (i * k) bs))) [0..<count]"

(* @src libraries/octree/src/OctreePacketData.cpp 805-812 OctreePacketData::unpackDataFromBytes(QVector<float>) *)
definition unpack_floats :: "byte list \<Rightarrow> (32 word list \<times> nat) option" where
  "unpack_floats dataBytes =
     do { l \<leftarrow> mem_read dataBytes 0 2;
          let length = unat (un_le16 l);
          b \<leftarrow> mem_read dataBytes 2 (length * 4);
          Some (elements un_le32 4 length b, 2 + length * 4) }"

fun bools_unpack :: "byte list \<Rightarrow> nat \<Rightarrow> nat \<Rightarrow> byte \<Rightarrow> (bool list \<times> byte list) option" where
  "bools_unpack dataAt bitAt 0 current = Some ([], dataAt)"
| "bools_unpack dataAt bitAt (Suc n) current =
     (if bitAt = 0
      then (case dataAt of [] \<Rightarrow> None
            | c # rest \<Rightarrow> do { (vs, d) \<leftarrow> bools_unpack rest (Suc 0 mod 8) n c; Some ((c AND push_bit 0 1 \<noteq> 0) # vs, d) })
      else do { (vs, d) \<leftarrow> bools_unpack dataAt (Suc bitAt mod 8) n current; Some ((current AND push_bit bitAt 1 \<noteq> 0) # vs, d) })"

(* @src libraries/octree/src/OctreePacketData.cpp 814-830 OctreePacketData::unpackDataFromBytes(QVector<bool>) *)
definition unpack_bools :: "byte list \<Rightarrow> (bool list \<times> nat) option" where
  "unpack_bools dataBytes =
     do { l \<leftarrow> mem_read dataBytes 0 2;
          let start = drop 2 dataBytes;
          (result, dataAt) \<leftarrow> bools_unpack start 0 (unat (un_le16 l)) 0;
          Some (result, length start - length dataAt + 2) }"

(* @src libraries/octree/src/OctreePacketData.cpp 832-839 OctreePacketData::unpackDataFromBytes(QVector<QUuid>) *)
definition unpack_uuids :: "byte list \<Rightarrow> (uuid list \<times> nat) option" where
  "unpack_uuids dataBytes =
     do { l \<leftarrow> mem_read dataBytes 0 2;
          let length = unat (un_le16 l);
          b \<leftarrow> mem_read dataBytes 2 (length * 16);
          Some (elements QUuid_of_memory 16 length b, 2 + length * 16) }"

text \<open>The set grows by one string at a time; the sum of the lengths is kept in 16 bits.\<close>

fun strings_unpack :: "nat \<Rightarrow> byte list \<Rightarrow> byte list list \<Rightarrow> 16 word \<Rightarrow> (byte list list \<times> 16 word) option" where
  "strings_unpack 0 dataAt result dataLength = Some (result, dataLength)"
| "strings_unpack (Suc n) dataAt result dataLength =
     do { l \<leftarrow> mem_read dataAt 0 2;
          value \<leftarrow> mem_read dataAt 2 (unat (un_le16 l));
          strings_unpack n (drop (2 + unat (un_le16 l)) dataAt)
            (if value \<in> set result then result else result @ [value]) (dataLength + un_le16 l) }"

(* @src libraries/octree/src/OctreePacketData.cpp 841-857 OctreePacketData::unpackDataFromBytes(QSet<QString>) *)
definition unpack_strings :: "byte list \<Rightarrow> (byte list list \<times> nat) option" where
  "unpack_strings dataBytes =
     do { l \<leftarrow> mem_read dataBytes 0 2;
          let numValues = unat (un_le16 l);
          (result, dataLength) \<leftarrow> strings_unpack numValues (drop 2 dataBytes) [] 0;
          Some (result, 2 + numValues * 2 + unat dataLength) }"

(* @src libraries/octree/src/OctreePacketData.cpp 859-866 OctreePacketData::unpackDataFromBytes(QByteArray) *)
definition unpack_bytes :: "byte list \<Rightarrow> (byte list \<times> nat) option" where
  "unpack_bytes dataBytes =
     do { l \<leftarrow> mem_read dataBytes 0 2;
          let length = unat (un_le16 l);
          value \<leftarrow> mem_read dataBytes 2 length;
          Some (value, 2 + length) }"

(* @src libraries/octree/src/OctreePacketData.cpp 868-873 OctreePacketData::unpackDataFromBytes(AACube) *)
definition unpack_cube :: "aa_cube \<Rightarrow> byte list \<Rightarrow> (aa_cube \<times> nat) option" where
  "unpack_cube result dataBytes =
     do { (cube, des) \<leftarrow> AACube_deserialize result (DataDeserializer_new dataBytes 16); Some (cube, dd_length des) }"

(* @src libraries/octree/src/OctreePacketData.cpp 875-878 OctreePacketData::unpackDataFromBytes(QRect) *)
definition unpack_rect :: "byte list \<Rightarrow> (qrect \<times> nat) option" where
  "unpack_rect dataBytes =
     do { b \<leftarrow> mem_read dataBytes 0 16;
          Some ((un_le32 (take 4 b), un_le32 (take 4 (drop 4 b)), un_le32 (take 4 (drop 8 b)), un_le32 (drop 12 b)), 16) }"

(* @src libraries/octree/src/OctreePacketData.cpp 880-887 OctreePacketData::unpackDataFromBytes(Sampler) *)
definition unpack_sampler :: "byte list \<Rightarrow> (sampler_desc \<times> nat) option" where
  "unpack_sampler dataBytes =
     do { (desc, des) \<leftarrow> Sampler_Desc_deserialize Sampler_Desc_default (DataDeserializer_new dataBytes 28);
          Some (desc, dd_length des) }"

section \<open>All values\<close>

text \<open>The overloads as one type of values, with the type that selects the overload of \<open>unpackDataFromBytes\<close>.\<close>

datatype octree_value = VU8 "8 word" | VU16 "16 word" | VU32 "32 word" | VU64 "64 word" | VFloat "32 word" | VBool bool
  | VVec2 vec2 | VVec3 vec3 | VColor u8vec3 | VQuat quat | VString "byte list" | VUuid uuid | VBytes "byte list"
  | VVec3s "vec3 list" | VQuats "quat list" | VFloats "32 word list" | VBools "bool list" | VUuids "uuid list"
  | VStrings "byte list list" | VCube aa_cube | VRect qrect | VSampler sampler_desc

datatype octree_type = TU8 | TU16 | TU32 | TU64 | TFloat | TBool | TVec2 | TVec3 | TColor | TQuat | TString | TUuid | TBytes
  | TVec3s | TQuats | TFloats | TBools | TUuids | TStrings | TCube | TRect | TSampler

fun octree_type_of :: "octree_value \<Rightarrow> octree_type" where
  "octree_type_of (VU8 _) = TU8" | "octree_type_of (VU16 _) = TU16" | "octree_type_of (VU32 _) = TU32"
| "octree_type_of (VU64 _) = TU64" | "octree_type_of (VFloat _) = TFloat" | "octree_type_of (VBool _) = TBool"
| "octree_type_of (VVec2 _) = TVec2" | "octree_type_of (VVec3 _) = TVec3" | "octree_type_of (VColor _) = TColor"
| "octree_type_of (VQuat _) = TQuat" | "octree_type_of (VString _) = TString" | "octree_type_of (VUuid _) = TUuid"
| "octree_type_of (VBytes _) = TBytes" | "octree_type_of (VVec3s _) = TVec3s" | "octree_type_of (VQuats _) = TQuats"
| "octree_type_of (VFloats _) = TFloats" | "octree_type_of (VBools _) = TBools" | "octree_type_of (VUuids _) = TUuids"
| "octree_type_of (VStrings _) = TStrings" | "octree_type_of (VCube _) = TCube" | "octree_type_of (VRect _) = TRect"
| "octree_type_of (VSampler _) = TSampler"

fun appendValue :: "(quat \<Rightarrow> quat) \<Rightarrow> octree_value \<Rightarrow> octree_packet_data \<Rightarrow> (bool \<times> octree_packet_data) option" where
  "appendValue nz (VU8 v) = appendValue_u8 v" | "appendValue nz (VU16 v) = appendValue_u16 v"
| "appendValue nz (VU32 v) = appendValue_u32 v" | "appendValue nz (VU64 v) = appendValue_u64 v"
| "appendValue nz (VFloat v) = appendValue_float v" | "appendValue nz (VBool v) = appendValue_bool v"
| "appendValue nz (VVec2 v) = appendValue_vec2 v" | "appendValue nz (VVec3 v) = appendValue_vec3 v"
| "appendValue nz (VColor v) = appendValue_color v" | "appendValue nz (VQuat v) = appendValue_quat nz v"
| "appendValue nz (VString v) = appendValue_string v" | "appendValue nz (VUuid v) = appendValue_uuid v"
| "appendValue nz (VBytes v) = appendValue_bytes v" | "appendValue nz (VVec3s v) = appendValue_vec3s v"
| "appendValue nz (VQuats v) = appendValue_quats nz v" | "appendValue nz (VFloats v) = appendValue_floats v"
| "appendValue nz (VBools v) = appendValue_bools v" | "appendValue nz (VUuids v) = appendValue_uuids v"
| "appendValue nz (VStrings v) = appendValue_strings v" | "appendValue nz (VCube v) = appendValue_cube v"
| "appendValue nz (VRect v) = appendValue_rect v" | "appendValue nz (VSampler v) = appendValue_sampler v"

text \<open>The variable an \<open>AACube\<close> is read into starts as the empty cube.\<close>

definition AACube_default :: aa_cube where
  "AACube_default = \<lparr>cube_corner = (0, 0, 0), cube_scale = 0\<rparr>"

fun unpackValue :: "octree_type \<Rightarrow> byte list \<Rightarrow> (octree_value \<times> nat) option" where
  "unpackValue TU8 bs = map_option (apfst VU8) (unpack_u8 bs)" | "unpackValue TU16 bs = map_option (apfst VU16) (unpack_u16 bs)"
| "unpackValue TU32 bs = map_option (apfst VU32) (unpack_u32 bs)" | "unpackValue TU64 bs = map_option (apfst VU64) (unpack_u64 bs)"
| "unpackValue TFloat bs = map_option (apfst VFloat) (unpack_float bs)" | "unpackValue TBool bs = map_option (apfst VBool) (unpack_bool bs)"
| "unpackValue TVec2 bs = map_option (apfst VVec2) (unpack_vec2 bs)" | "unpackValue TVec3 bs = map_option (apfst VVec3) (unpack_vec3 bs)"
| "unpackValue TColor bs = map_option (apfst VColor) (unpack_color bs)" | "unpackValue TQuat bs = map_option (apfst VQuat) (unpack_quat bs)"
| "unpackValue TString bs = map_option (apfst VString) (unpack_string bs)" | "unpackValue TUuid bs = map_option (apfst VUuid) (unpack_uuid bs)"
| "unpackValue TBytes bs = map_option (apfst VBytes) (unpack_bytes bs)" | "unpackValue TVec3s bs = map_option (apfst VVec3s) (unpack_vec3s bs)"
| "unpackValue TQuats bs = map_option (apfst VQuats) (unpack_quats bs)" | "unpackValue TFloats bs = map_option (apfst VFloats) (unpack_floats bs)"
| "unpackValue TBools bs = map_option (apfst VBools) (unpack_bools bs)" | "unpackValue TUuids bs = map_option (apfst VUuids) (unpack_uuids bs)"
| "unpackValue TStrings bs = map_option (apfst VStrings) (unpack_strings bs)"
| "unpackValue TCube bs = map_option (apfst VCube) (unpack_cube AACube_default bs)"
| "unpackValue TRect bs = map_option (apfst VRect) (unpack_rect bs)" | "unpackValue TSampler bs = map_option (apfst VSampler) (unpack_sampler bs)"

text \<open>The bytes of a value on the wire. Components of quaternions are rounded down to multiples of 2 / 65535.\<close>

definition quat_bits :: "real \<Rightarrow> 16 word" where
  "quat_bits x = word_of_int \<lfloor>(x + 1) * (65535 / 2)\<rfloor>"

fun quat_bytes :: "quat \<Rightarrow> byte list" where
  "quat_bytes (x, y, z, w) = le16 (quat_bits x) @ le16 (quat_bits y) @ le16 (quat_bits z) @ le16 (quat_bits w)"

fun quat_round :: "quat \<Rightarrow> quat" where
  "quat_round (x, y, z, w) =
     (quat_value (quat_bits x), quat_value (quat_bits y), quat_value (quat_bits z), quat_value (quat_bits w))"

fun quat_unit :: "quat \<Rightarrow> bool" where
  "quat_unit (x, y, z, w) \<longleftrightarrow> \<bar>x\<bar> \<le> 1 \<and> \<bar>y\<bar> \<le> 1 \<and> \<bar>z\<bar> \<le> 1 \<and> \<bar>w\<bar> \<le> 1"

definition bools_bytes :: "bool list \<Rightarrow> byte list" where
  "bools_bytes vs = map (\<lambda>j. horner_sum of_bool 2 (map (\<lambda>k. 8 * j + k < length vs \<and> vs ! (8 * j + k)) [0..<8]))
     [0..<(length vs + 7) div 8]"

definition string_bytes :: "byte list \<Rightarrow> byte list" where
  "string_bytes s = le16 (word_of_nat (length s)) @ s"

definition vector_bytes :: "('a \<Rightarrow> byte list) \<Rightarrow> 'a list \<Rightarrow> byte list" where
  "vector_bytes memory vs = le16 (word_of_nat (length vs)) @ concat (map memory vs)"

fun value_bytes :: "(quat \<Rightarrow> quat) \<Rightarrow> octree_value \<Rightarrow> byte list" where
  "value_bytes nz (VU8 v) = [v]" | "value_bytes nz (VU16 v) = le16 v" | "value_bytes nz (VU32 v) = le32 v"
| "value_bytes nz (VU64 v) = le64 v" | "value_bytes nz (VFloat v) = le32 v" | "value_bytes nz (VBool v) = [if v then 1 else 0]"
| "value_bytes nz (VVec2 v) = vec2_bytes v" | "value_bytes nz (VVec3 v) = vec3_bytes v"
| "value_bytes nz (VColor (x, y, z)) = [x, y, z]" | "value_bytes nz (VQuat v) = quat_bytes (nz v)"
| "value_bytes nz (VString v) = string_bytes v"
| "value_bytes nz (VUuid v) = (if v = 0 then le16 0 else string_bytes (toRfc4122 v))"
| "value_bytes nz (VBytes v) = string_bytes v" | "value_bytes nz (VVec3s v) = vector_bytes vec3_bytes v"
| "value_bytes nz (VQuats v) = vector_bytes (\<lambda>q. quat_bytes (nz q)) v" | "value_bytes nz (VFloats v) = vector_bytes le32 v"
| "value_bytes nz (VBools v) = le16 (word_of_nat (length v)) @ bools_bytes v"
| "value_bytes nz (VUuids v) = vector_bytes QUuid_memory v" | "value_bytes nz (VStrings v) = vector_bytes string_bytes v"
| "value_bytes nz (VCube v) = vec3_bytes (cube_corner v) @ le32 (cube_scale v)" | "value_bytes nz (VRect v) = qrect_bytes v"
| "value_bytes nz (VSampler v) = sampler_memory v"

text \<open>
  The values that are sent faithfully: sizes fit their 16 bits, packed vectors fit their fixed buffer, and
  normalized quaternions have components between -1 and 1. A colour asks for one byte more than it takes.
\<close>

fun value_ok :: "(quat \<Rightarrow> quat) \<Rightarrow> octree_value \<Rightarrow> bool" where
  "value_ok nz (VQuat v) \<longleftrightarrow> quat_unit (nz v)"
| "value_ok nz (VString v) \<longleftrightarrow> length v < 65536"
| "value_ok nz (VBytes v) \<longleftrightarrow> length v < 65536"
| "value_ok nz (VVec3s v) \<longleftrightarrow> length v < 65536"
| "value_ok nz (VQuats v) \<longleftrightarrow> 8 * length v \<le> nat MAX_PACKET_SIZE \<and> (\<forall>q \<in> set v. quat_unit (nz q))"
| "value_ok nz (VFloats v) \<longleftrightarrow> length v < 65536"
| "value_ok nz (VBools v) \<longleftrightarrow> length v \<le> 8 * nat MAX_PACKET_SIZE"
| "value_ok nz (VUuids v) \<longleftrightarrow> length v < 65536"
| "value_ok nz (VStrings v) \<longleftrightarrow> length v < 65536 \<and> distinct v \<and> sum_list (map length v) < 65536"
| "value_ok nz _ \<longleftrightarrow> True"

fun value_need :: "(quat \<Rightarrow> quat) \<Rightarrow> octree_value \<Rightarrow> nat" where
  "value_need nz (VColor _) = 4"
| "value_need nz v = length (value_bytes nz v)"

fun value_canon :: "(quat \<Rightarrow> quat) \<Rightarrow> octree_value \<Rightarrow> octree_value" where
  "value_canon nz (VQuat v) = VQuat (quat_round (nz v))"
| "value_canon nz (VQuats v) = VQuats (map (\<lambda>q. quat_round (nz q)) v)"
| "value_canon nz v = v"

section \<open>Appending is all or nothing, and bounded\<close>

text \<open>\<open>p'\<close> is \<open>p\<close> with bytes appended, and nothing else changed but the counts.\<close>

definition opd_frame :: "octree_packet_data \<Rightarrow> nat \<times> bool \<times> nat \<times> int \<times> int \<times> int \<times> int" where
  "opd_frame p = (opd_targetSize p, opd_enableCompression p, length (opd_uncompressed p), opd_subTreeAt p,
     opd_subTreeBytesReserved p, opd_compressedBytes p, opd_bytesInUseLastCheck p)"

definition opd_appended :: "octree_packet_data \<Rightarrow> byte list \<Rightarrow> octree_packet_data \<Rightarrow> bool" where
  "opd_appended p bs p' \<longleftrightarrow> opd_inv p' \<and> opd_frame p' = opd_frame p
     \<and> opd_content p' = opd_content p @ bs \<and> opd_bytesAvailable p' = opd_bytesAvailable p - int (length bs)
     \<and> opd_bytesReserved p' = opd_bytesReserved p"

text \<open>
  An operation appends \<open>bs\<close> when \<open>n\<close> bytes are available. Otherwise it fails, and a part may stay behind:
  the callers take it back by discarding a level.
\<close>

definition opd_appends :: "(octree_packet_data \<Rightarrow> (bool \<times> octree_packet_data) option) \<Rightarrow> nat \<Rightarrow> byte list \<Rightarrow> bool" where
  "opd_appends f n bs \<longleftrightarrow> length bs \<le> n \<and> (\<forall>p. opd_inv p \<longrightarrow> (\<exists>p' cs. f p = Some (int n \<le> opd_bytesAvailable p, p')
     \<and> opd_appended p cs p' \<and> (int n \<le> opd_bytesAvailable p \<longrightarrow> cs = bs)))"

named_theorems appends_intros \<open>what the append operations append\<close>

lemma appended_refl: "opd_inv p \<Longrightarrow> opd_appended p [] p"
  by (simp add: opd_appended_def)

lemma appended_trans: "opd_appended p as q \<Longrightarrow> opd_appended q bs r \<Longrightarrow> opd_appended p (as @ bs) r"
  by (simp add: opd_appended_def)

lemma appended_counts [simp]:
  "opd_appended p bs (q\<lparr>opd_bytesOf := x, opd_totalBytesOf := y\<rparr>) = opd_appended p bs q"
  by (simp add: opd_appended_def opd_inv_def opd_content_def opd_frame_def)

lemma appended_countValues [simp]: "opd_appended p bs (opd_countValues n q) = opd_appended p bs q"
  by (simp add: opd_countValues_def)

lemma appends_append [appends_intros]: "opd_appends (OctreePacketData_append data) (length data) data"
  unfolding opd_appends_def
proof (intro conjI allI impI order_refl)
  fix p
  assume inv: "opd_inv p"
  obtain ok a where b: "bounded_append (int (length data)) data (opd_abs p) = (ok, a)" by (rule prod.exhaust)
  obtain p' where p': "OctreePacketData_append data p = Some (ok, p')" "opd_abs p' = a" "opd_inv p'"
    using append_laws [OF inv b] by blast
  have f: "opd_frame p' = opd_frame p"
    using p'(1) by (auto simp: OctreePacketData_append_def opd_frame_def split: if_splits Option.bind_splits dest: mem_write_length)
  show "\<exists>p' cs. OctreePacketData_append data p = Some (int (length data) \<le> opd_bytesAvailable p, p')
      \<and> opd_appended p cs p' \<and> (int (length data) \<le> opd_bytesAvailable p \<longrightarrow> cs = data)"
    using b p' f
    by (intro exI [of _ p'] exI [of _ "if ok then data else []"])
      (auto simp: bounded_append_def opd_abs_def opd_appended_def split: if_splits)
qed

lemma appends_byte [appends_intros]: "opd_appends (OctreePacketData_appendByte b) 1 [b]"
  using appends_append [of "[b]"] by (simp add: appendByte_eq)

lemma appends_count:
  assumes "opd_appends f n bs" "\<And>p q cs. opd_appended p cs q \<Longrightarrow> opd_appended p cs (c q)"
  shows "opd_appends (\<lambda>p. do { (success, p1) \<leftarrow> f p; Some (success, if success then c p1 else p1) }) n bs"
  unfolding opd_appends_def
proof (intro conjI allI impI)
  show "length bs \<le> n" using assms(1) by (simp add: opd_appends_def)
  fix p
  assume "opd_inv p"
  then obtain p' cs where p': "f p = Some (int n \<le> opd_bytesAvailable p, p')" "opd_appended p cs p'"
      "int n \<le> opd_bytesAvailable p \<longrightarrow> cs = bs"
    using assms(1) unfolding opd_appends_def by blast
  then show "\<exists>p' cs. do { (success, p1) \<leftarrow> f p; Some (success, if success then c p1 else p1) }
      = Some (int n \<le> opd_bytesAvailable p, p') \<and> opd_appended p cs p' \<and> (int n \<le> opd_bytesAvailable p \<longrightarrow> cs = bs)"
    using assms(2) [OF p'(2)] by auto
qed

lemma appends_seq:
  assumes "opd_appends f (length as) as" "opd_appends g m bs"
  shows "opd_appends (\<lambda>p. do { (success, p1) \<leftarrow> f p; if success then g p1 else Some (False, p1) }) (length as + m) (as @ bs)"
  unfolding opd_appends_def
proof (intro conjI allI impI)
  show "length (as @ bs) \<le> length as + m" using assms(2) by (simp add: opd_appends_def)
  fix p
  assume "opd_inv p"
  then obtain p1 cs where p1: "f p = Some (int (length as) \<le> opd_bytesAvailable p, p1)" "opd_appended p cs p1"
      "int (length as) \<le> opd_bytesAvailable p \<longrightarrow> cs = as"
    using assms(1) unfolding opd_appends_def by blast
  show "\<exists>p' cs. do { (success, p1) \<leftarrow> f p; if success then g p1 else Some (False, p1) }
      = Some (int (length as + m) \<le> opd_bytesAvailable p, p') \<and> opd_appended p cs p'
      \<and> (int (length as + m) \<le> opd_bytesAvailable p \<longrightarrow> cs = as @ bs)"
  proof (cases "int (length as) \<le> opd_bytesAvailable p")
    case True
    have "opd_inv p1" "opd_bytesAvailable p1 = opd_bytesAvailable p - int (length as)"
      using p1(2,3) True by (simp_all add: opd_appended_def)
    then obtain p2 ds where "g p1 = Some (int m \<le> opd_bytesAvailable p - int (length as), p2)" "opd_appended p1 ds p2"
        "int m \<le> opd_bytesAvailable p - int (length as) \<longrightarrow> ds = bs"
      using assms(2) unfolding opd_appends_def by metis
    moreover have "int m \<le> opd_bytesAvailable p - int (length as) \<longleftrightarrow> int (length as + m) \<le> opd_bytesAvailable p" by auto
    ultimately show ?thesis using p1 True appended_trans [OF p1(2)] by auto
  next
    case False
    then show ?thesis using p1 by auto
  qed
qed

lemma appends_nothing [appends_intros]: "opd_appends (\<lambda>p. Some (True, p)) 0 []"
  by (auto simp: opd_appends_def opd_inv_def intro: appended_refl)

lemma appends_counted [appends_intros]: "opd_appends (opd_appendCounted data) (length data) data"
  using appends_count [OF appends_append [of data], of "opd_countValues (int (length data))"]
  by (simp add: opd_appendCounted_def [abs_def])

lemma appends_raw [appends_intros]: "opd_appends (OctreePacketData_appendRawData data) (length data) data"
  unfolding OctreePacketData_appendRawData_def [abs_def] by (rule appends_count [OF appends_append]) simp

lemma appends_color: "opd_appends (OctreePacketData_appendColor r g b) 4 [r, g, b]"
  unfolding opd_appends_def
proof (intro conjI allI impI)
  fix p
  assume inv: "opd_inv p"
  obtain ok a where b: "bounded_append 4 [r, g, b] (opd_abs p) = (ok, a)" by (rule prod.exhaust)
  obtain p' where p': "OctreePacketData_appendColor r g b p = Some (ok, p')" "opd_abs p' = a" "opd_inv p'"
    using appendColor_laws [OF inv b] by blast
  have byte: "opd_frame q' = opd_frame q" if "OctreePacketData_appendByte x q = Some (k, q')" for x q k q'
    using that by (auto simp: OctreePacketData_appendByte_def opd_frame_def split: if_splits Option.bind_splits dest: mem_write_length)
  have "opd_frame (q\<lparr>opd_bytesOf := x, opd_totalBytesOf := y\<rparr>) = opd_frame q" for q x y by (simp add: opd_frame_def)
  then have f: "opd_frame p' = opd_frame p"
    using p'(1) by (auto simp: OctreePacketData_appendColor_def split: if_splits Option.bind_splits prod.splits dest!: byte)
  show "\<exists>p' cs. OctreePacketData_appendColor r g b p = Some (int 4 \<le> opd_bytesAvailable p, p')
      \<and> opd_appended p cs p' \<and> (int 4 \<le> opd_bytesAvailable p \<longrightarrow> cs = [r, g, b])"
    using b p' f
    by (intro exI [of _ p'] exI [of _ "if ok then [r, g, b] else []"])
      (auto simp: bounded_append_def opd_abs_def opd_appended_def split: if_splits)
qed simp

lemma appends_scalars:
  "opd_appends (appendValue_u8 a) 1 [a]" "opd_appends (appendValue_u16 b) 2 (le16 b)" "opd_appends (appendValue_u32 c) 4 (le32 c)"
  "opd_appends (appendValue_u64 d) 8 (le64 d)" "opd_appends (appendValue_float e) 4 (le32 e)"
  "opd_appends (appendValue_bool f) 1 [if f then 1 else 0]"
proof -
  show "opd_appends (appendValue_u8 a) 1 [a]"
    unfolding appendValue_u8_def [abs_def] by (rule appends_count [OF appends_byte]) simp
  show "opd_appends (appendValue_bool f) 1 [if f then 1 else 0]"
    unfolding appendValue_bool_def [abs_def] by (rule appends_count [OF appends_byte]) simp
qed (use appends_counted [of "le16 b"] appends_counted [of "le32 c"] appends_counted [of "le64 d"] appends_counted [of "le32 e"]
  in \<open>simp_all add: appendValue_u16_def [abs_def] appendValue_u32_def [abs_def] appendValue_u64_def [abs_def] appendValue_float_def [abs_def]\<close>)

lemma u16_size: "n < 65536 \<Longrightarrow> unat (word_of_nat n :: 16 word) = n"
  by (simp add: unsigned_of_nat take_bit_eq_mod)

lemma appends_vector:
  assumes "length v < 65536"
  shows "opd_appends (opd_appendVector memory v) (length (vector_bytes memory v)) (vector_bytes memory v)"
  using appends_seq [OF appends_scalars(2) [of "word_of_nat (length v)", folded length_le16 [of "word_of_nat (length v)"]]
      appends_counted [of "concat (map memory v)"]] assms
  by (simp add: opd_appendVector_def [abs_def] vector_bytes_def u16_size Let_def cong: if_cong)

lemma appends_string:
  assumes "length v < 65536"
  shows "opd_appends (appendValue_string v) (length (string_bytes v)) (string_bytes v)"
  using appends_seq [OF appends_scalars(2) [of "word_of_nat (length v)", folded length_le16 [of "word_of_nat (length v)"]]
      appends_raw [of v]] assms
  by (simp add: appendValue_string_def [abs_def] string_bytes_def u16_size Let_def cong: if_cong)

lemma appends_bytes: "opd_appends (appendValue_bytes v) (length (string_bytes v)) (string_bytes v)"
  using appends_seq [OF appends_scalars(2) [of "word_of_nat (length v)", folded length_le16 [of "word_of_nat (length v)"]]
      appends_raw [of v]]
  by (simp add: appendValue_bytes_def [abs_def] string_bytes_def)

lemma appends_uuid:
  "opd_appends (appendValue_uuid u) (length (value_bytes nz (VUuid u))) (value_bytes nz (VUuid u))"
proof (cases "u = 0")
  case True
  then show ?thesis using appends_scalars(2) [of 0] by (simp add: appendValue_uuid_def [abs_def])
next
  case False
  then show ?thesis using appends_bytes [of "toRfc4122 u"] by (simp add: appendValue_uuid_def [abs_def] appendValue_bytes_def [abs_def])
qed

lemma appends_strings_loop:
  "\<forall>s \<in> set ss. length s < 65536 \<Longrightarrow> opd_appends (strings_append ss) (length (concat (map string_bytes ss))) (concat (map string_bytes ss))"
proof (induction ss)
  case Nil
  then show ?case using appends_nothing by (simp add: strings_append.simps [abs_def])
next
  case (Cons s ss)
  then have "opd_appends (appendValue_string s) (length (string_bytes s)) (string_bytes s)" by (simp add: appends_string)
  from appends_seq [OF this Cons.IH] Cons.prems show ?case by (simp add: strings_append.simps [abs_def])
qed

lemma appends_strings:
  assumes "\<forall>s \<in> set ss. length s < 65536"
  shows "opd_appends (appendValue_strings ss) (length (vector_bytes string_bytes ss)) (vector_bytes string_bytes ss)"
  using appends_seq [OF appends_scalars(2) [of "word_of_nat (length ss)", folded length_le16 [of "word_of_nat (length ss)"]]
      appends_strings_loop [OF assms]]
  by (simp add: appendValue_strings_def [abs_def] vector_bytes_def)

lemma appends_from: "n \<le> length start \<Longrightarrow> opd_appends (opd_appendFrom start n) n (take n start)"
  using appends_counted [of "take n start"]
  by (auto simp: opd_appends_def opd_appendFrom_def mem_read_def intro: appended_refl)

section \<open>Packed quaternions and flags\<close>

lemma quat_part_unit: "\<bar>x\<bar> \<le> 1 \<Longrightarrow> quat_part x = Some (quat_bits x)"
proof -
  assume x: "\<bar>x\<bar> \<le> 1"
  then have "0 \<le> (x + 1) * (65535 / 2)" "(x + 1) * (65535 / 2) \<le> 65535" by auto
  then have "0 \<le> \<lfloor>(x + 1) * (65535 / 2)\<rfloor>" "\<lfloor>(x + 1) * (65535 / 2)\<rfloor> < 65536" by linarith+
  then show ?thesis by (simp add: quat_part_def quat_bits_def Let_def)
qed

lemma pack_quat: "quat_unit (nz q) \<Longrightarrow> packOrientationQuatToBytes nz q = Some (quat_bytes (nz q))"
  by (cases "nz q") (simp add: packOrientationQuatToBytes_def quat_part_unit)

lemma length_quat_bytes [simp]: "length (quat_bytes q) = 8"
  by (cases q) simp

lemma concat_quats_length: "length (concat (map (\<lambda>q. quat_bytes (nz q)) qs)) = 8 * length qs"
  by (induction qs) simp_all

lemma quats_pack_law:
  "off + 8 * length qs \<le> length buf \<Longrightarrow> \<forall>q \<in> set qs. quat_unit (nz q) \<Longrightarrow>
     quats_pack nz buf off qs = Some (take off buf @ concat (map (\<lambda>q. quat_bytes (nz q)) qs) @ drop (off + 8 * length qs) buf)"
proof (induction qs arbitrary: buf off)
  case (Cons q qs)
  obtain b1 where b1: "mem_write buf off (quat_bytes (nz q)) = Some b1"
      "b1 = take off buf @ quat_bytes (nz q) @ drop (off + 8) buf"
    using Cons.prems(1) by (simp add: mem_write_def)
  have l: "length b1 = length buf" using b1(1) by (rule mem_write_length)
  have t: "take (off + 8) b1 = take off buf @ quat_bytes (nz q)" "drop (off + 8 + 8 * length qs) b1 = drop (off + 8 + 8 * length qs) buf"
    using Cons.prems(1) by (simp_all add: b1(2) add.commute add.left_commute)
  show ?case
    using Cons.IH [of "off + 8" b1] Cons.prems b1(1) t by (simp add: l pack_quat ac_simps)
qed simp

lemma appends_quats:
  assumes "8 * length v \<le> nat MAX_PACKET_SIZE" "\<forall>q \<in> set v. quat_unit (nz q)"
  shows "opd_appends (appendValue_quats nz v) (length (value_bytes nz (VQuats v))) (value_bytes nz (VQuats v))"
proof -
  obtain start where start: "quats_pack nz (replicate (nat MAX_PACKET_SIZE) 0) 0 v = Some start"
      "take (8 * length v) start = concat (map (\<lambda>q. quat_bytes (nz q)) v)" "8 * length v \<le> length start"
    using quats_pack_law [of 0 v "replicate (nat MAX_PACKET_SIZE) 0" nz] assms by (simp add: concat_quats_length)
  show ?thesis
    using appends_seq [OF appends_scalars(2) [of "word_of_nat (length v)", folded length_le16 [of "word_of_nat (length v)"]]
        appends_from [OF start(3)]] start(1,2)
    by (simp add: appendValue_quats_def [abs_def] vector_bytes_def concat_quats_length cong: if_cong)
qed

lemma bit_push_one: "m < 8 \<Longrightarrow> bit (push_bit m (1 :: byte)) k \<longleftrightarrow> k = m"
  by (auto simp: bit_push_bit_iff bit_1_iff simp del: push_bit_of_1)

lemma bools_pack_law:
  "i + length vs \<le> 8 * length buf \<Longrightarrow> \<exists>buf'. bools_pack buf i vs = Some buf' \<and> length buf' = length buf
     \<and> (\<forall>j < length buf. \<forall>k < 8. bit (buf' ! j) k
         = (bit (buf ! j) k \<or> (i \<le> 8 * j + k \<and> 8 * j + k < i + length vs \<and> vs ! (8 * j + k - i))))"
proof (induction vs arbitrary: buf i)
  case (Cons v vs)
  let ?buf = "if v then buf[i div 8 := (buf ! (i div 8)) OR push_bit (i mod 8) 1] else buf"
  have d: "i div 8 < length buf" using Cons.prems by simp
  obtain buf' where b: "bools_pack ?buf (Suc i) vs = Some buf'" "length buf' = length buf"
    and s: "\<forall>j < length buf. \<forall>k < 8. bit (buf' ! j) k
      = (bit (?buf ! j) k \<or> (Suc i \<le> 8 * j + k \<and> 8 * j + k < Suc i + length vs \<and> vs ! (8 * j + k - Suc i)))"
    using Cons.IH [of "Suc i" ?buf] Cons.prems by (cases v) auto
  have bits: "bit (?buf ! j) k = (bit (buf ! j) k \<or> (v \<and> 8 * j + k = i))" if "j < length buf" "k < 8" for j k
  proof (cases "j = i div 8")
    case True
    have "8 * j + k = i \<longleftrightarrow> k = i mod 8" unfolding True using that(2) by presburger
    moreover have "bit (push_bit (i mod 8) (1 :: byte)) k \<longleftrightarrow> k = i mod 8" by (rule bit_push_one) simp
    ultimately show ?thesis using True d by (simp add: bit_or_iff del: push_bit_of_1)
  next
    case False
    have "i div 8 = j" if "8 * j + k = i" using \<open>k < 8\<close> that by (simp flip: that)
    then show ?thesis using False by (cases v) auto
  qed
  have "bit (buf' ! j) k = (bit (buf ! j) k \<or> (i \<le> 8 * j + k \<and> 8 * j + k < i + length (v # vs) \<and> (v # vs) ! (8 * j + k - i)))"
    if "j < length buf" "k < 8" for j k
  proof (cases "8 * j + k = i")
    case True
    then show ?thesis using s bits [OF that] that by auto
  next
    case False
    have "(v # vs) ! (8 * j + k - i) = vs ! (8 * j + k - Suc i)" if "Suc i \<le> 8 * j + k"
      using that by (simp add: nth_Cons' Suc_diff_le)
    then show ?thesis using s bits [OF that] that False by (auto simp: Suc_le_eq)
  qed
  then show ?case using b d by auto
qed auto

lemma bit_bools_byte: "bit (horner_sum of_bool 2 (map P [0..<8]) :: byte) k \<longleftrightarrow> k < 8 \<and> P k"
  by (auto simp: bit_horner_sum_bit_word_iff)

lemma length_bools_bytes: "length (bools_bytes v) = (length v + 7) div 8"
  by (simp add: bools_bytes_def)

lemma bools_size: "n div 8 + (if n mod 8 \<noteq> 0 then 1 else 0) = (n + 7) div (8 :: nat)"
proof -
  obtain q r where n: "n = 8 * q + r" "r < 8"
  proof (rule that)
    show "n = 8 * (n div 8) + n mod 8" by simp
  qed simp
  have "(n + 7) div 8 = q + (r + 7) div 8" by (simp add: n(1) add.assoc)
  moreover have "(r + 7) div 8 = (if r \<noteq> 0 then 1 else 0)" using n(2) by (auto intro!: div_nat_eqI)
  ultimately show ?thesis using n by simp
qed

lemma appends_bools:
  assumes "length v \<le> 8 * nat MAX_PACKET_SIZE"
  shows "opd_appends (appendValue_bools v) (length (value_bytes nz (VBools v))) (value_bytes nz (VBools v))"
proof -
  let ?n = "(length v + 7) div 8" and ?M = "nat MAX_PACKET_SIZE"
  have n: "?n \<le> ?M" using assms by linarith
  obtain start where start: "bools_pack (replicate ?M 0) 0 v = Some start" "length start = ?M"
    and bits: "\<forall>j < ?M. \<forall>k < 8. bit (start ! j) k = (8 * j + k < length v \<and> v ! (8 * j + k))"
    using bools_pack_law [of 0 v "replicate ?M 0"] assms by auto
  have "take ?n start = bools_bytes v"
  proof (rule nth_equalityI)
    show "length (take ?n start) = length (bools_bytes v)" using start(2) n by (simp add: length_bools_bytes)
    fix j
    assume "j < length (take ?n start)"
    then have j: "j < ?n" "j < ?M" using start(2) by simp_all
    have "start ! j = horner_sum of_bool 2 (map (\<lambda>k. 8 * j + k < length v \<and> v ! (8 * j + k)) [0..<8])"
      by (rule bit_word_eqI) (use bits j(2) in \<open>simp add: bit_bools_byte\<close>)
    then show "take ?n start ! j = bools_bytes v ! j" using j by (simp add: bools_bytes_def)
  qed
  with appends_seq [OF appends_scalars(2) [of "word_of_nat (length v)", folded length_le16 [of "word_of_nat (length v)"]]
      appends_from [of ?n start]] start n
  show ?thesis
    unfolding appendValue_bools_def [abs_def] bools_size by (simp add: length_bools_bytes cong: if_cong)
qed

text \<open>Every overload appends the bytes of its value, all of them or the call fails.\<close>

lemma appends_value:
  assumes "value_ok nz v"
  shows "opd_appends (appendValue nz v) (value_need nz v) (value_bytes nz v)"
proof (cases v)
  case (VColor c)
  then show ?thesis using appends_color by (cases c) (simp add: appendValue_color.simps [abs_def])
next
  case (VQuat q)
  then show ?thesis using assms appends_counted [of "quat_bytes (nz q)"] by (simp add: appendValue_quat_def [abs_def] pack_quat)
next
  case (VCube c)
  then show ?thesis using appends_counted [of "vec3_bytes (cube_corner c) @ le32 (cube_scale c)"]
    by (simp add: appendValue_cube_def [abs_def])
next
  case (VStrings ss)
  have "\<forall>s \<in> set ss. length s < 65536"
    using assms VStrings member_le_sum_list [of _ "map length ss"] by fastforce
  then show ?thesis using VStrings appends_strings by simp
next
  case (VUuid u)
  then show ?thesis using appends_uuid [of u nz] by simp
next
  case (VQuats qs)
  then show ?thesis using appends_quats [of qs nz] assms by simp
next
  case (VBools bs)
  then show ?thesis using appends_bools [of bs nz] assms by simp
qed (use assms in \<open>simp_all add: appends_scalars [simplified] appends_counted appends_string appends_bytes appends_vector
    appendValue_vec2_def [abs_def] appendValue_vec3_def [abs_def] appendValue_vec3s_def [abs_def]
    appendValue_floats_def [abs_def] appendValue_uuids_def [abs_def] appendValue_rect_def [abs_def]
    appendValue_sampler_def [abs_def]\<close>)

section \<open>Reading back\<close>

lemma read_prefix: "n = length bs \<Longrightarrow> mem_read (bs @ rest) 0 n = Some bs"
  by (simp add: mem_read_def)

lemma read_behind: "k = length as \<Longrightarrow> n = length bs \<Longrightarrow> mem_read (as @ bs @ rest) k n = Some bs"
  by (simp add: mem_read_def)

lemmas read_laws = read_prefix read_behind read_prefix [where rest = "[]", simplified] read_behind [where rest = "[]", simplified]

lemma un_le32_parts [bytes_simps]:
  "take 4 (le32 x @ ys) = le32 x" "drop 4 (le32 x @ ys) = ys" "drop 8 (le32 x @ le32 y @ zs) = zs"
  "drop 12 (le32 x @ le32 y @ le32 z @ zs) = zs" "take 4 (le32 x) = le32 x"
  by simp_all

lemma read_le32: "read32 (le32 x @ rest) 0 = Some x" "read32 (le32 w @ le32 x @ rest) 4 = Some x"
  "read32 (le32 v @ le32 w @ le32 x @ rest) 8 = Some x" "read32 (le32 u @ le32 v @ le32 w @ le32 x @ rest) 12 = Some x"
  by (simp_all add: read32_def mem_read_def)

lemma unpack_vec3_law: "unpack_vec3 (vec3_bytes v @ rest) = Some (v, 12)"
  by (cases v) (simp add: unpack_vec3_def mem_read_def vec3_of_memory_def)

lemma length_vec3_bytes [simp]: "length (vec3_bytes v) = 12"
  by (cases v) simp

lemma un_le16_parts: "take 2 (le16 a @ zs) = le16 a" "drop 2 (le16 a @ zs) = zs" "drop 4 (le16 a @ le16 b @ zs) = zs"
  "drop 6 (le16 a @ le16 b @ le16 c @ zs) = zs" "take 2 (le16 a) = le16 a"
  by simp_all

lemma unpack_quat_law: "unpackOrientationQuatFromBytes (quat_bytes q @ rest) = Some (quat_round q, 8)"
  by (cases q) (simp add: unpackOrientationQuatFromBytes_def mem_read_def un_le16_parts)

lemma unpack_loop_law:
  "(\<And>v rest. v \<in> set vs \<Longrightarrow> read (enc v @ rest) = Some (canon v, length (enc v))) \<Longrightarrow>
     unpack_loop read (length vs) (concat (map enc vs) @ rest) = Some (map canon vs, length (concat (map enc vs)))"
  by (induction vs) simp_all

lemma elements_law:
  assumes "\<And>v. v \<in> set vs \<Longrightarrow> length (memory v) = k \<and> of_memory (memory v) = v"
  shows "elements of_memory k (length vs) (concat (map memory vs) @ rest) = vs"
  using assms
proof (induction vs)
  case (Cons v vs)
  have "elements of_memory k (length (v # vs)) (concat (map memory (v # vs)) @ rest)
      = of_memory (memory v) # elements of_memory k (length vs) (concat (map memory vs) @ rest)"
    using Cons.prems [of v]
    by (simp add: elements_def upt_conv_Cons map_Suc_upt [symmetric] o_def del: upt_Suc map_Suc_upt)
  then show ?case using Cons by simp
qed (simp add: elements_def)

lemma concat_length: "(\<And>v. v \<in> set vs \<Longrightarrow> length (memory v) = k) \<Longrightarrow> length (concat (map memory vs)) = length vs * k"
  by (induction vs) simp_all

lemma QUuid_memory_laws: "length (QUuid_memory u) = 16" "QUuid_of_memory (QUuid_memory u) = u"
proof -
  obtain b where b: "toRfc4122 u = b" by blast
  then have l: "length b = 16" using length_toRfc4122 [of u] by simp
  have d: "b = take 4 b @ drop 4 b" "drop 4 b = take 2 (drop 4 b) @ drop 6 b" "drop 6 b = take 2 (drop 6 b) @ drop 8 b"
    using append_take_drop_id [of 4 b] append_take_drop_id [of 2 "drop 4 b"] append_take_drop_id [of 2 "drop 6 b"] by simp_all
  obtain p q r s where s: "b = p @ q @ r @ s" "length p = 4" "length q = 2" "length r = 2" "length s = 8"
  proof (rule that)
    show "b = take 4 b @ take 2 (drop 4 b) @ take 2 (drop 6 b) @ drop 8 b" using d by metis
  qed (simp_all add: l)
  have m: "QUuid_memory u = rev p @ rev q @ rev r @ s" by (simp add: QUuid_memory_def Let_def b s)
  then show "length (QUuid_memory u) = 16" by (simp add: s)
  show "QUuid_of_memory (QUuid_memory u) = u"
    using fromRfc4122_toRfc4122 [of u] unfolding b s(1) m by (simp add: QUuid_of_memory_def s(2-5))
qed

text \<open>Flags: the reader has taken \<open>i\<close> of them and holds the byte the next one is in.\<close>

lemma bools_unpack_law:
  "i + n = length v \<Longrightarrow> (i mod 8 \<noteq> 0 \<Longrightarrow> current = bools_bytes v ! (i div 8)) \<Longrightarrow>
     bools_unpack (drop ((i + 7) div 8) (bools_bytes v) @ rest) (i mod 8) n current = Some (drop i v, rest)"
proof (induction n arbitrary: i current)
  case 0
  then show ?case by (simp add: length_bools_bytes)
next
  case (Suc n)
  have i: "i < length v" "i div 8 < length (bools_bytes v)" using Suc.prems(1) by (simp_all add: length_bools_bytes)
  have byte: "bools_bytes v ! (i div 8) AND push_bit (i mod 8) 1 \<noteq> 0 \<longleftrightarrow> v ! i"
  proof -
    have "bit (bools_bytes v ! (i div 8)) (i mod 8) \<longleftrightarrow> v ! i"
      using i by (simp add: bools_bytes_def bit_bools_byte del: horner_sum_of_bool_2_less)
    then show ?thesis by (simp add: bit_iff_and_push_bit_not_eq_0 flip: push_bit_of_1)
  qed
  have d: "drop i v = v ! i # drop (Suc i) v" using i(1) by (rule Cons_nth_drop_Suc [symmetric])
  have s: "Suc (i mod 8) mod 8 = Suc i mod 8" by (simp add: mod_Suc_eq)
  show ?case
  proof (cases "i mod 8 = 0")
    case True
    obtain q where q: "i = 8 * q" by (rule that [of "i div 8"]) (use True mult_div_mod_eq [of 8 i] in simp)
    have dr: "drop q (bools_bytes v) = bools_bytes v ! q # drop (Suc q) (bools_bytes v)"
      using i(2) by (simp add: q Cons_nth_drop_Suc)
    have "bools_unpack (drop ((Suc i + 7) div 8) (bools_bytes v) @ rest) (Suc i mod 8) n (bools_bytes v ! q)
        = Some (drop (Suc i) v, rest)"
      by (rule Suc.IH) (use Suc.prems(1) in \<open>simp_all add: q div_Suc\<close>)
    then show ?thesis using True s byte by (simp add: q dr d [unfolded q])
  next
    case False
    have e: "(i + 7) div 8 = Suc (i div 8)" using bools_size [of i] False by simp
    have "bools_unpack (drop ((Suc i + 7) div 8) (bools_bytes v) @ rest) (Suc i mod 8) n current = Some (drop (Suc i) v, rest)"
    proof (rule Suc.IH)
      assume "Suc i mod 8 \<noteq> 0"
      then have "Suc i div 8 = i div 8" by (simp add: div_Suc)
      then show "current = bools_bytes v ! (Suc i div 8)" using Suc.prems(2) False by simp
    qed (use Suc.prems(1) in simp)
    then show ?thesis using False s byte Suc.prems(2) by (simp add: e d)
  qed
qed

lemma strings_unpack_law:
  "(\<forall>s \<in> set ss. length s < 65536) \<Longrightarrow> distinct (result @ ss) \<Longrightarrow>
     strings_unpack (length ss) (concat (map string_bytes ss) @ rest) result dataLength
       = Some (result @ ss, dataLength + word_of_nat (sum_list (map length ss)))"
proof (induction ss arbitrary: result dataLength)
  case (Cons s ss)
  obtain more_bytes where m: "concat (map string_bytes ss) @ rest = more_bytes" by blast
  have l: "unat (word_of_nat (length s) :: 16 word) = length s" using Cons.prems(1) by (simp add: u16_size)
  have "strings_unpack (length (s # ss)) (concat (map string_bytes (s # ss)) @ rest) result dataLength
      = strings_unpack (length ss) more_bytes (result @ [s]) (dataLength + word_of_nat (length s))"
    using Cons.prems(2) by (simp add: string_bytes_def mem_read_def l m)
  also have "\<dots> = Some ((result @ [s]) @ ss, dataLength + word_of_nat (length s) + word_of_nat (sum_list (map length ss)))"
    using Cons.IH [of "result @ [s]"] Cons.prems by (simp flip: m)
  finally show ?case by (simp add: add.assoc)
qed simp

lemma read_law:
  assumes "dd_sound d" "ser_matches old x" "dd_remaining d = ser_bytes x @ rest"
  shows "\<exists>d'. ser_get old d = Some (x, d') \<and> dd_sound d' \<and> dd_remaining d' = rest \<and> dd_length d' = dd_length d"
  using ser_get_law [OF assms] dd_advance(2,3) [OF assms(1,3)] by auto

lemma getVec3_law:
  assumes "dd_sound d" "dd_remaining d = vec3_bytes v @ rest"
  shows "\<exists>d'. DataDeserializer_getVec3 old d = Some (v, d') \<and> dd_sound d' \<and> dd_remaining d' = rest \<and> dd_length d' = dd_length d"
proof -
  have "ser_bytes (SVec3 v) = vec3_bytes v" by (cases v) simp
  then show ?thesis using read_law [OF assms(1), of "SVec3 old" "SVec3 v" rest] assms(2) by (auto simp: ser_matches_def apfst_def)
qed

lemma getVec4_law:
  assumes "dd_sound d" "dd_remaining d = vec4_bytes v @ rest"
  shows "\<exists>d'. DataDeserializer_getVec4 old d = Some (v, d') \<and> dd_sound d' \<and> dd_remaining d' = rest \<and> dd_length d' = dd_length d"
proof -
  have "ser_bytes (SVec4 v) = vec4_bytes v" by (cases v) simp
  then show ?thesis using read_law [OF assms(1), of "SVec4 old" "SVec4 v" rest] assms(2) by (auto simp: ser_matches_def apfst_def)
qed

lemma getFloat_law:
  "dd_sound d \<Longrightarrow> dd_remaining d = le32 v @ rest \<Longrightarrow>
     \<exists>d'. DataDeserializer_getFloat old d = Some (v, d') \<and> dd_sound d' \<and> dd_remaining d' = rest \<and> dd_length d' = dd_length d"
  using read_law [of d "SFloat old" "SFloat v" rest] by (auto simp: ser_matches_def apfst_def)

lemma get32_law:
  "dd_sound d \<Longrightarrow> dd_remaining d = le32 v @ rest \<Longrightarrow>
     \<exists>d'. DataDeserializer_get32 old d = Some (v, d') \<and> dd_sound d' \<and> dd_remaining d' = rest \<and> dd_length d' = dd_length d"
  using read_law [of d "S32 old" "S32 v" rest] by (auto simp: ser_matches_def apfst_def)

lemma get8_law:
  "dd_sound d \<Longrightarrow> dd_remaining d = v # rest \<Longrightarrow>
     \<exists>d'. DataDeserializer_get8 old d = Some (v, d') \<and> dd_sound d' \<and> dd_remaining d' = rest \<and> dd_length d' = dd_length d"
  using read_law [of d "S8 old" "S8 v" rest] by (auto simp: ser_matches_def apfst_def)

lemma unpack_cube_law: "unpack_cube old (vec3_bytes (cube_corner c) @ le32 (cube_scale c) @ rest) = Some (c, 16)"
proof -
  let ?d = "DataDeserializer_new (vec3_bytes (cube_corner c) @ le32 (cube_scale c) @ rest) 16"
  have d: "dd_sound ?d" "dd_remaining ?d = vec3_bytes (cube_corner c) @ le32 (cube_scale c) @ []" "dd_length ?d = 16"
    by (simp_all add: dd_sound_def dd_remaining_def DataDeserializer_new_def)
  obtain d1 where d1: "DataDeserializer_getVec3 (cube_corner old) ?d = Some (cube_corner c, d1)" "dd_sound d1"
      "dd_remaining d1 = le32 (cube_scale c) @ []" "dd_length d1 = 16"
    using getVec3_law [OF d(1,2)] d(3) by metis
  obtain d2 where "DataDeserializer_getFloat (cube_scale old) d1 = Some (cube_scale c, d2)" "dd_length d2 = 16"
    using getFloat_law [OF d1(2,3)] d1(4) by metis
  then show ?thesis using d1(1) by (simp add: unpack_cube_def AACube_deserialize_def)
qed

lemma unpack_sampler_law: "unpack_sampler (sampler_memory s @ rest) = Some (s, 28)"
proof -
  let ?d = "DataDeserializer_new (sampler_memory s @ rest) 28"
  have len: "length (sampler_memory s) = 28" by (cases "smp_borderColor s") (simp add: sampler_memory_def)
  then have d: "dd_sound ?d" "dd_length ?d = 28"
    "dd_remaining ?d = vec4_bytes (smp_borderColor s) @ le32 (smp_maxAnisotropy s) @ [smp_filter s, smp_comparisonFunc s,
       smp_wrapModeU s, smp_wrapModeV s, smp_wrapModeW s, smp_mipOffset s, smp_minMip s, smp_maxMip s]"
    by (simp_all add: dd_sound_def dd_remaining_def DataDeserializer_new_def) (simp add: sampler_memory_def)
  let ?o = Sampler_Desc_default
  obtain a where a: "DataDeserializer_getVec4 (smp_borderColor ?o) ?d = Some (smp_borderColor s, a)" "dd_sound a"
      "dd_remaining a = le32 (smp_maxAnisotropy s) @ [smp_filter s, smp_comparisonFunc s,
       smp_wrapModeU s, smp_wrapModeV s, smp_wrapModeW s, smp_mipOffset s, smp_minMip s, smp_maxMip s]" "dd_length a = 28"
    using getVec4_law [OF d(1,3)] d(2) by metis
  obtain b where b: "DataDeserializer_get32 (smp_maxAnisotropy ?o) a = Some (smp_maxAnisotropy s, b)" "dd_sound b"
      "dd_remaining b = [smp_filter s, smp_comparisonFunc s, smp_wrapModeU s, smp_wrapModeV s, smp_wrapModeW s,
       smp_mipOffset s, smp_minMip s, smp_maxMip s]" "dd_length b = 28"
    using get32_law [OF a(2,3)] a(4) by metis
  obtain c where c: "DataDeserializer_get8 (smp_filter ?o) b = Some (smp_filter s, c)" "dd_sound c"
      "dd_remaining c = [smp_comparisonFunc s, smp_wrapModeU s, smp_wrapModeV s, smp_wrapModeW s,
       smp_mipOffset s, smp_minMip s, smp_maxMip s]" "dd_length c = 28"
    using get8_law [OF b(2,3)] b(4) by metis
  obtain e where e: "DataDeserializer_get8 (smp_comparisonFunc ?o) c = Some (smp_comparisonFunc s, e)" "dd_sound e"
      "dd_remaining e = [smp_wrapModeU s, smp_wrapModeV s, smp_wrapModeW s, smp_mipOffset s, smp_minMip s, smp_maxMip s]"
      "dd_length e = 28"
    using get8_law [OF c(2,3)] c(4) by metis
  obtain f where f: "DataDeserializer_get8 (smp_wrapModeU ?o) e = Some (smp_wrapModeU s, f)" "dd_sound f"
      "dd_remaining f = [smp_wrapModeV s, smp_wrapModeW s, smp_mipOffset s, smp_minMip s, smp_maxMip s]" "dd_length f = 28"
    using get8_law [OF e(2,3)] e(4) by metis
  obtain g where g: "DataDeserializer_get8 (smp_wrapModeV ?o) f = Some (smp_wrapModeV s, g)" "dd_sound g"
      "dd_remaining g = [smp_wrapModeW s, smp_mipOffset s, smp_minMip s, smp_maxMip s]" "dd_length g = 28"
    using get8_law [OF f(2,3)] f(4) by metis
  obtain h where h: "DataDeserializer_get8 (smp_wrapModeW ?o) g = Some (smp_wrapModeW s, h)" "dd_sound h"
      "dd_remaining h = [smp_mipOffset s, smp_minMip s, smp_maxMip s]" "dd_length h = 28"
    using get8_law [OF g(2,3)] g(4) by metis
  obtain i where i: "DataDeserializer_get8 (smp_mipOffset ?o) h = Some (smp_mipOffset s, i)" "dd_sound i"
      "dd_remaining i = [smp_minMip s, smp_maxMip s]" "dd_length i = 28"
    using get8_law [OF h(2,3)] h(4) by metis
  obtain j where j: "DataDeserializer_get8 (smp_minMip ?o) i = Some (smp_minMip s, j)" "dd_sound j"
      "dd_remaining j = [smp_maxMip s]" "dd_length j = 28"
    using get8_law [OF i(2,3)] i(4) by metis
  obtain k where k: "DataDeserializer_get8 (smp_maxMip ?o) j = Some (smp_maxMip s, k)" "dd_length k = 28"
    using get8_law [OF j(2,3)] j(4) by metis
  show ?thesis
    using a(1) b(1) c(1) e(1) f(1) g(1) h(1) i(1) j(1) k
    by (simp add: unpack_sampler_def Sampler_Desc_deserialize_def DataDeserializer_tracked_def)
qed

lemma unpack_string_law:
  "length v < 65536 \<Longrightarrow> unpack_string (string_bytes v @ rest) = Some (v, length (string_bytes v))"
  "length v < 65536 \<Longrightarrow> unpack_bytes (string_bytes v @ rest) = Some (v, length (string_bytes v))"
  by (simp_all add: unpack_string_def unpack_bytes_def string_bytes_def mem_read_def u16_size)

lemma unpack_uuid_law: "unpack_uuid (value_bytes nz (VUuid u) @ rest) = Some (u, length (value_bytes nz (VUuid u)))"
  by (simp add: unpack_uuid_def string_bytes_def mem_read_def u16_size)

lemma unpack_strings_law:
  assumes "length ss < 65536" "distinct ss" "sum_list (map length ss) < 65536"
  shows "unpack_strings (vector_bytes string_bytes ss @ rest) = Some (ss, length (vector_bytes string_bytes ss))"
proof -
  have s: "\<forall>s \<in> set ss. length s < 65536"
    using assms(3) member_le_sum_list [of _ "map length ss"] by fastforce
  have l: "length (concat (map string_bytes ss)) = length ss * 2 + sum_list (map length ss)"
    by (induction ss) (simp_all add: string_bytes_def)
  show ?thesis
    using strings_unpack_law [OF s, of "[]" rest 0] assms
    by (simp add: unpack_strings_def vector_bytes_def mem_read_def u16_size l)
qed

lemma unpack_bools_law:
  assumes "length v < 65536"
  shows "unpack_bools (le16 (word_of_nat (length v)) @ bools_bytes v @ rest) = Some (v, 2 + length (bools_bytes v))"
  using bools_unpack_law [of 0 "length v" v 0 rest] assms by (simp add: unpack_bools_def mem_read_def u16_size)

text \<open>Every overload of \<open>unpackDataFromBytes\<close> reads what its overload of \<open>appendValue\<close> wrote, whatever follows.\<close>

lemma unpackValue_law:
  assumes "value_ok nz v"
  shows "unpackValue (octree_type_of v) (value_bytes nz v @ rest) = Some (value_canon nz v, length (value_bytes nz v))"
proof (cases v)
  case (VVec2 a)
  then show ?thesis by (cases a) (simp add: unpack_vec2_def mem_read_def)
next
  case (VColor a)
  then show ?thesis by (cases a) (simp add: unpack_color_def mem_read_def)
next
  case (VRect a)
  then show ?thesis by (cases a) (simp add: unpack_rect_def mem_read_def)
next
  case (VVec3s a)
  then show ?thesis
    using assms unpack_loop_law [of a unpack_vec3 vec3_bytes id rest] concat_length [of a vec3_bytes 12]
    by (simp add: unpack_vec3s_def vector_bytes_def mem_read_def u16_size unpack_vec3_law)
next
  case (VQuats a)
  then have "length a < 65536" using assms by (simp add: MAX_PACKET_SIZE_value)
  then show ?thesis
    using VQuats unpack_loop_law [of a unpackOrientationQuatFromBytes "\<lambda>q. quat_bytes (nz q)" "\<lambda>q. quat_round (nz q)" rest]
    by (simp add: unpack_quats_def vector_bytes_def mem_read_def u16_size unpack_quat_law)
next
  case (VFloats a)
  have "length (concat (map le32 a)) = length a * 4" by (rule concat_length) simp
  then show ?thesis
    using VFloats assms elements_law [of a le32 4 un_le32 "[]"]
    by (simp add: unpack_floats_def vector_bytes_def mem_read_def u16_size)
next
  case (VUuids a)
  have "length (concat (map QUuid_memory a)) = length a * 16" by (rule concat_length) (simp add: QUuid_memory_laws)
  then show ?thesis
    using VUuids assms elements_law [of a QUuid_memory 16 QUuid_of_memory "[]"]
    by (simp add: unpack_uuids_def vector_bytes_def mem_read_def u16_size QUuid_memory_laws)
next
  case (VBools a)
  then show ?thesis using unpack_bools_law [of a rest] assms by (simp add: MAX_PACKET_SIZE_value)
next
  case (VStrings a)
  then show ?thesis using unpack_strings_law [of a rest] assms by simp
next
  case (VUuid a)
  then show ?thesis using unpack_uuid_law [of nz a rest] by simp
next
  case (VSampler a)
  moreover have "length (sampler_memory a) = 28" by (cases "smp_borderColor a") (simp add: sampler_memory_def)
  ultimately show ?thesis using unpack_sampler_law [of a rest] by simp
next
  case (VQuat a)
  then show ?thesis using unpack_quat_law [of "nz a" rest] by (simp add: unpack_quat_def)
qed (use assms in \<open>simp_all add: unpack_u8_def unpack_u16_def unpack_u32_def unpack_u64_def unpack_float_def unpack_bool_def
    mem_read_def unpack_vec3_law unpack_string_law unpack_cube_law\<close>)

section \<open>The packet as a channel of values\<close>

definition opd_put :: "(quat \<Rightarrow> quat) \<Rightarrow> octree_value \<Rightarrow> octree_packet_data \<Rightarrow> octree_packet_data option" where
  "opd_put nz v p = do { (success, p1) \<leftarrow> appendValue nz v p; if success then Some p1 else None }"

definition opd_get :: "octree_type \<Rightarrow> byte list \<Rightarrow> (octree_value \<times> byte list) option" where
  "opd_get t dataAt = do { (v, n) \<leftarrow> unpackValue t dataAt; Some (v, drop n dataAt) }"

lemma appendsE:
  assumes "opd_appends f n bs" "opd_inv p"
  obtains p' cs where "f p = Some (int n \<le> opd_bytesAvailable p, p')" "opd_appended p cs p'"
    "int n \<le> opd_bytesAvailable p \<longrightarrow> cs = bs"
  using assms unfolding opd_appends_def by blast

interpretation octree_values: byte_channel "opd_put nz" opd_inv opd_content "\<lambda>p n. int n \<le> opd_bytesAvailable p"
    "value_need nz" "value_ok nz" "value_bytes nz" opd_get "\<lambda>_. True" "\<lambda>bs. bs"
    "\<lambda>t v. t = octree_type_of v \<and> value_ok nz v" "value_canon nz" opd_content
  for nz
proof unfold_locales
  show "\<exists>p'. opd_put nz v p = Some p' \<and> opd_inv p' \<and> opd_content p' = opd_content p @ value_bytes nz v
      \<and> int n \<le> opd_bytesAvailable p'"
    if "opd_inv p" "value_ok nz v" "int (value_need nz v + n) \<le> opd_bytesAvailable p" for nz p v n
  proof -
    have a: "opd_appends (appendValue nz v) (value_need nz v) (value_bytes nz v)" by (rule appends_value [OF that(2)])
    then have "length (value_bytes nz v) \<le> value_need nz v" by (simp add: opd_appends_def)
    then show ?thesis using that by (cases rule: appendsE [OF a that(1)]) (auto simp: opd_put_def opd_appended_def)
  qed
  show "\<exists>d'. opd_get k d = Some (value_canon nz v, d') \<and> True \<and> d' = rest"
    if "k = octree_type_of v \<and> value_ok nz v" "d = value_bytes nz v @ rest" for nz k v d rest
    using that unpackValue_law [of nz v rest] by (simp add: opd_get_def)
qed simp_all

text \<open>
  C18. Values of all 22 kinds that are within the sizes their encodings can count are read back in order: when the packet
  has the room the code asks for, every append succeeds, the content is exactly their encodings one after the other,
  and reading with the same types yields the same values, quaternions in normalized and rounded form, and consumes the
  content to its end.
  The sizes (\<open>value_ok\<close>) are a condition the code does not check: strings, byte arrays and vectors have fewer
  than 65536 elements; a set of strings has distinct members of fewer than 65536 bytes in all; a vector of quaternions
  takes at most \<open>MAX_PACKET_SIZE\<close> bytes at 8 each, a vector of booleans at 8 to a byte; the components of a quaternion
  lie in [-1, 1] once normalized. Longer strings do not come back (\<open>oversized_strings_wrap\<close>). The room asked for is the
  length of the encoding, except for a colour, which asks for 4 bytes and takes 3.
\<close>

theorem OctreeValues_roundtrip:
  assumes "opd_inv p" "opd_content p = []" "list_all (value_ok nz) vs"
    and "int (sum_list (map (value_need nz) vs)) \<le> opd_bytesAvailable p"
  shows "\<exists>p'. put_all (opd_put nz) vs p = Some p' \<and> opd_inv p' \<and> opd_content p' = concat (map (value_bytes nz) vs)
    \<and> get_all opd_get (map octree_type_of vs) (opd_content p') = Some (map (value_canon nz) vs, [])"
proof -
  have "list_all2 (\<lambda>t v. t = octree_type_of v \<and> value_ok nz v) (map octree_type_of vs) vs"
    using assms(3) by (simp add: list_all2_conv_all_nth list_all_length)
  from octree_values.channel_roundtrip [OF assms this] show ?thesis by auto
qed

theorem OctreeValues_roundtrip_witness:
  "\<exists>p p'. opd_bytesAvailable p = 40 \<and> put_all (opd_put id) [VU16 7, VString [72, 105], VBools [True, False], VColor (1, 2, 3)] p = Some p'
    \<and> get_all opd_get [TU16, TString, TBools, TColor] (opd_content p')
      = Some ([VU16 7, VString [72, 105], VBools [True, False], VColor (1, 2, 3)], [])"
proof -
  obtain p where p: "opd_inv p" "opd_abs p = \<lparr>bd_bytes = [], bd_free = int 40, bd_held = 0\<rparr>"
    using opd_fresh_laws [of "\<lambda>_. 0" False 40] by blast
  then have "opd_content p = []" "opd_bytesAvailable p = 40" by (simp_all add: opd_abs_def)
  then show ?thesis
    using OctreeValues_roundtrip [OF p(1), of id "[VU16 7, VString [72, 105], VBools [True, False], VColor (1, 2, 3)]"]
    by (auto simp: string_bytes_def bools_bytes_def MAX_PACKET_SIZE_value)
qed

text \<open>
  A quaternion that is packed and unpacked comes back normalized, every component rounded down by less than
  2 / 65535 and never out of the range from -1 to 1.
\<close>

theorem packed_quaternion_error:
  assumes "quat_unit (nz q)"
  shows "\<exists>bytes x y z w x' y' z' w'. packOrientationQuatToBytes nz q = Some bytes \<and> length bytes = 8
    \<and> nz q = (x, y, z, w) \<and> unpackOrientationQuatFromBytes bytes = Some ((x', y', z', w'), 8)
    \<and> (\<forall>(a, b) \<in> {(x, x'), (y, y'), (z, z'), (w, w')}. -1 \<le> b \<and> b \<le> a \<and> a - b < 2 / 65535)"
proof -
  have part: "-1 \<le> quat_value (quat_bits a) \<and> quat_value (quat_bits a) \<le> a \<and> a - quat_value (quat_bits a) < 2 / 65535"
    if "\<bar>a\<bar> \<le> 1" for a
  proof -
    obtain f where f: "\<lfloor>(a + 1) * (65535 / 2)\<rfloor> = f" by blast
    have b: "0 \<le> (a + 1) * (65535 / 2)" "(a + 1) * (65535 / 2) \<le> 65535" using that by auto
    then have "0 \<le> f" "f < 65536" using f by linarith+
    moreover have "quat_bits a = word_of_int f" by (simp only: quat_bits_def f)
    ultimately have "real (unat (quat_bits a)) = of_int f"
      by (simp add: unat_eq_nat_uint uint_word_of_int_eq take_bit_eq_mod)
    moreover have "of_int f \<le> (a + 1) * (65535 / 2)" "(a + 1) * (65535 / 2) < of_int f + 1" using f by linarith+
    ultimately show ?thesis using \<open>0 \<le> f\<close> by (simp add: quat_value_def field_simps)
  qed
  obtain x y z w where q: "nz q = (x, y, z, w)" by (rule prod_cases4)
  have "unpackOrientationQuatFromBytes (quat_bytes (nz q)) = Some (quat_round (nz q), 8)"
    using unpack_quat_law [of "nz q" "[]"] by simp
  then show ?thesis
    using assms part [of x] part [of y] part [of z] part [of w] pack_quat [of nz q] by (simp add: q)
qed

theorem packed_quaternion_error_witness:
  "\<exists>bytes x' y' z' w'. packOrientationQuatToBytes id (0, 0, 0, 1) = Some bytes
    \<and> unpackOrientationQuatFromBytes bytes = Some ((x', y', z', w'), 8) \<and> 1 - w' < 2 / 65535"
  using packed_quaternion_error [of id "(0, 0, 0, 1)"] by auto

text \<open>
  A string or byte array whose size does not fit 16 bits is not refused: of a string only the first bytes are sent, as many as
  its size modulo 65536, as if it were that shorter string, and a byte array is announced with that
  length but appended whole, so its reader stops early, in the middle of it.
\<close>

theorem oversized_strings_wrap:
  assumes "opd_inv p" "65536 \<le> length v" "int (length v) + 2 \<le> opd_bytesAvailable p"
  shows "appendValue_string v p = appendValue_string (take (length v mod 65536) v) p
    \<and> (\<exists>p'. appendValue_bytes v p = Some (True, p') \<and> opd_content p' = opd_content p @ string_bytes v
        \<and> unpack_bytes (string_bytes v) = Some (take (length v mod 65536) v, 2 + length v mod 65536)
        \<and> 2 + length v mod 65536 < length (string_bytes v))"
proof -
  have w: "(word_of_nat (length v) :: 16 word) = word_of_nat (length v mod 65536)"
    by (rule word_unat_eq_iff [THEN iffD2]) (simp add: unsigned_of_nat take_bit_eq_mod)
  have u: "unat (word_of_nat (length v mod 65536) :: 16 word) = length v mod 65536" by (rule u16_size) simp
  have m: "length v mod 65536 < length v" using assms(2) by (meson less_le_trans mod_less_divisor zero_less_numeral)
  have "appendValue_string v p = appendValue_string (take (length v mod 65536) v) p"
    using m by (simp add: appendValue_string_def w u Let_def min_def cong: if_cong)
  moreover have "unpack_bytes (string_bytes v) = Some (take (length v mod 65536) v, 2 + length v mod 65536)"
    using m by (simp add: unpack_bytes_def string_bytes_def mem_read_def w u Let_def)
  moreover have "2 + length v mod 65536 < length (string_bytes v)" using m by (simp add: string_bytes_def)
  moreover obtain p' cs where "appendValue_bytes v p = Some (int (length (string_bytes v)) \<le> opd_bytesAvailable p, p')"
      "opd_appended p cs p'" "int (length (string_bytes v)) \<le> opd_bytesAvailable p \<longrightarrow> cs = string_bytes v"
    by (rule appendsE [OF appends_bytes assms(1)])
  ultimately show ?thesis using assms(3) by (auto simp: opd_appended_def) (auto simp: string_bytes_def)
qed

theorem oversized_strings_wrap_witness:
  "\<exists>p. opd_bytesAvailable p = 65540
    \<and> appendValue_string (replicate 65537 65) p = appendValue_string [65] p"
proof -
  obtain p where p: "opd_inv p" "opd_abs p = \<lparr>bd_bytes = [], bd_free = int 65540, bd_held = 0\<rparr>"
    using opd_fresh_laws [of "\<lambda>_. 0" False 65540] by blast
  then have a: "opd_bytesAvailable p = 65540" by (simp add: opd_abs_def)
  have "65536 \<le> length (replicate 65537 (65 :: byte))" "int (length (replicate 65537 (65 :: byte))) + 2 \<le> opd_bytesAvailable p"
    unfolding length_replicate by (simp_all add: a)
  from conjunct1 [OF oversized_strings_wrap [OF p(1) this]] show ?thesis
    using a unfolding length_replicate take_replicate by auto
qed

section \<open>What a read takes\<close>

text \<open>
  A read is exact when what it reports is what it looks at: the bytes it reports are there, they alone determine the
  value, whatever follows them, and no shorter beginning of the data is enough for it.
\<close>

definition exact_read :: "(byte list \<Rightarrow> ('a \<times> nat) option) \<Rightarrow> bool" where
  "exact_read f \<longleftrightarrow> (\<forall>bs v n. f bs = Some (v, n) \<longrightarrow> n \<le> length bs \<and> (\<forall>rest. f (take n bs @ rest) = Some (v, n)))"

lemma exact_readI:
  "(\<And>bs v n. f bs = Some (v, n) \<Longrightarrow> n \<le> length bs \<and> (\<forall>rest. f (take n bs @ rest) = Some (v, n))) \<Longrightarrow> exact_read f"
  by (simp add: exact_read_def)

lemma exact_readD: "exact_read f \<Longrightarrow> f bs = Some (v, n) \<Longrightarrow> n \<le> length bs \<and> f (take n bs @ rest) = Some (v, n)"
  by (simp add: exact_read_def)

lemma exact_shorter:
  assumes "exact_read f" "f bs = Some (v, n)" "m < n"
  shows "f (take m bs) = None"
proof (rule ccontr)
  assume "f (take m bs) \<noteq> None"
  then obtain v' n' where f: "f (take m bs) = Some (v', n')" by (cases "f (take m bs)") auto
  have n': "n' \<le> length (take m bs)" using exact_readD [OF assms(1) f] by blast
  have "n' \<le> m" using n' by simp
  then have "take n' (take m bs) @ drop n' bs = bs" by (simp add: min_def)
  then have "f bs = Some (v', n')" using exact_readD [OF assms(1) f, of "drop n' bs"] by simp
  then show False using assms(2,3) n' by simp
qed

lemma mem_read_frame:
  "mem_read bs k n = Some b \<Longrightarrow> k + n \<le> m \<Longrightarrow> m \<le> length bs \<Longrightarrow> mem_read (take m bs @ rest) k n = Some b"
  by (auto simp: mem_read_def drop_take min_def split: if_splits)

lemma exact_mem: "exact_read (\<lambda>bs. do { b \<leftarrow> mem_read bs 0 k; Some (g b, k) })"
  by (rule exact_readI) (auto simp: mem_read_def split: Option.bind_splits if_splits)

lemma exact_then:
  assumes f: "exact_read f" and g: "\<And>v. exact_read (g v)"
  shows "exact_read (\<lambda>bs. do { (v, k) \<leftarrow> f bs; (w, j) \<leftarrow> g v (drop k bs); Some (h v w, k + j) })"
proof (rule exact_readI)
  fix bs x n
  assume "do { (v, k) \<leftarrow> f bs; (w, j) \<leftarrow> g v (drop k bs); Some (h v w, k + j) } = Some (x, n)"
  then obtain v k w j where r: "f bs = Some (v, k)" "g v (drop k bs) = Some (w, j)" "x = h v w" "n = k + j"
    by (auto split: Option.bind_splits)
  have k: "k \<le> length bs" using exact_readD [OF f r(1)] by blast
  have j: "j \<le> length (drop k bs)" using exact_readD [OF g r(2)] by blast
  have t: "take n bs @ rest = take k bs @ (take j (drop k bs) @ rest)" for rest by (simp add: r(4) take_add)
  have d: "drop k (take n bs @ rest) = take j (drop k bs) @ rest" for rest
    unfolding t using k by simp
  have "f (take n bs @ rest) = Some (v, k)" for rest unfolding t using exact_readD [OF f r(1)] by blast
  moreover have "g v (drop k (take n bs @ rest)) = Some (w, j)" for rest unfolding d using exact_readD [OF g r(2)] by blast
  ultimately show "n \<le> length bs \<and> (\<forall>rest. (do { (v, k) \<leftarrow> f (take n bs @ rest);
      (w, j) \<leftarrow> g v (drop k (take n bs @ rest)); Some (h v w, k + j) }) = Some (x, n))"
    using k j by (simp add: r(3,4))
qed

lemma exact_map: "exact_read f \<Longrightarrow> exact_read (\<lambda>bs. map_option (apfst c) (f bs))"
  by (fastforce simp: exact_read_def)

text \<open>A length of two bytes, then what it counts.\<close>

lemma exact_counted:
  assumes "\<And>n. exact_read (g n)"
  shows "exact_read (\<lambda>bs. do { l \<leftarrow> mem_read bs 0 2; (w, j) \<leftarrow> g (unat (un_le16 l)) (drop 2 bs); Some (w, 2 + j) })"
proof -
  have "(\<lambda>bs. do { l \<leftarrow> mem_read bs 0 2; (w, j) \<leftarrow> g (unat (un_le16 l)) (drop 2 bs); Some (w, 2 + j) })
      = (\<lambda>bs. do { (v, k) \<leftarrow> (do { b \<leftarrow> mem_read bs 0 2; Some (unat (un_le16 b), 2) });
          (w, j) \<leftarrow> g v (drop k bs); Some ((\<lambda>_ w. w) v w, k + j) })"
    by (simp add: Option.bind_assoc)
  then show ?thesis using exact_then [where h = "\<lambda>_ w. w", OF exact_mem [of 2 "\<lambda>b. unat (un_le16 b)"] assms] by simp
qed

lemma exact_counted_mem:
  "exact_read (\<lambda>bs. do { l \<leftarrow> mem_read bs 0 2; b \<leftarrow> mem_read bs 2 (k (unat (un_le16 l)));
     Some (g (unat (un_le16 l)) b, 2 + k (unat (un_le16 l))) })"
proof -
  have "(\<lambda>bs. do { l \<leftarrow> mem_read bs 0 2; b \<leftarrow> mem_read bs 2 (k (unat (un_le16 l)));
           Some (g (unat (un_le16 l)) b, 2 + k (unat (un_le16 l))) })
      = (\<lambda>bs. do { l \<leftarrow> mem_read bs 0 2; (w, j) \<leftarrow> (\<lambda>n bs. do { b \<leftarrow> mem_read bs 0 (k n); Some (g n b, k n) })
           (unat (un_le16 l)) (drop 2 bs); Some (w, 2 + j) })"
    by (rule ext) (auto simp: mem_read_def split: Option.bind_splits if_splits)
  then show ?thesis using exact_counted [of "\<lambda>n bs. do { b \<leftarrow> mem_read bs 0 (k n); Some (g n b, k n) }", OF exact_mem] by simp
qed

lemma exact_loop: "exact_read f \<Longrightarrow> exact_read (unpack_loop f n)"
proof (induction n)
  case (Suc n)
  have "unpack_loop f (Suc n) = (\<lambda>bs. do { (v, k) \<leftarrow> f bs; (w, j) \<leftarrow> (\<lambda>_. unpack_loop f n) v (drop k bs); Some (v # w, k + j) })"
    by (rule ext) simp
  then show ?case using exact_then [where h = "\<lambda>v w. v # w" and g = "\<lambda>_. unpack_loop f n", OF Suc.prems Suc.IH [OF Suc.prems]] by simp
qed (simp add: exact_read_def)

lemma loop_takes:
  "(\<And>bs v k. f bs = Some (v, k) \<Longrightarrow> k = m) \<Longrightarrow> unpack_loop f n bs = Some (vs, k) \<Longrightarrow> k = n * m"
  by (induction n arbitrary: bs vs k) (auto split: Option.bind_splits)

lemma exact_vec3: "exact_read unpack_vec3"
  using exact_mem [of 12 vec3_of_memory] by (simp add: unpack_vec3_def [abs_def])

lemma exact_quat: "exact_read unpackOrientationQuatFromBytes"
  unfolding unpackOrientationQuatFromBytes_def [abs_def] by (rule exact_mem)

lemma exact_vec3s: "exact_read unpack_vec3s"
proof -
  have "unpack_vec3s = (\<lambda>bs. do { l \<leftarrow> mem_read bs 0 2; (w, j) \<leftarrow> unpack_loop unpack_vec3 (unat (un_le16 l)) (drop 2 bs);
          Some (w, 2 + j) })"
  proof (rule ext)
    fix bs
    have k: "unpack_loop unpack_vec3 n bs = Some (vs, k) \<Longrightarrow> k = n * 12" for n bs vs k
      by (rule loop_takes [of unpack_vec3 12]) (auto simp: unpack_vec3_def split: Option.bind_splits)
    show "unpack_vec3s bs = do { l \<leftarrow> mem_read bs 0 2; (w, j) \<leftarrow> unpack_loop unpack_vec3 (unat (un_le16 l)) (drop 2 bs);
          Some (w, 2 + j) }"
      by (auto simp: unpack_vec3s_def Let_def dest: k split: Option.bind_splits)
  qed
  then show ?thesis using exact_counted [of "unpack_loop unpack_vec3", OF exact_loop [OF exact_vec3]] by simp
qed

lemma exact_quats: "exact_read unpack_quats"
  using exact_counted [of "unpack_loop unpackOrientationQuatFromBytes", OF exact_loop [OF exact_quat]]
  by (simp add: unpack_quats_def [abs_def] Let_def add.commute)

lemma bools_take:
  "bools_unpack bs i n c = Some (vs, d) \<Longrightarrow> \<exists>a. bs = a @ d \<and> (\<forall>rest. bools_unpack (a @ rest) i n c = Some (vs, rest))"
proof (induction n arbitrary: bs i c vs)
  case (Suc n)
  show ?case
  proof (cases "i = 0")
    case True
    then obtain c' r vs' where r: "bs = c' # r" "bools_unpack r (Suc 0 mod 8) n c' = Some (vs', d)"
        "vs = (c' AND push_bit 0 1 \<noteq> 0) # vs'"
      using Suc.prems by (auto split: list.splits Option.bind_splits)
    obtain a where "r = a @ d" "\<And>rest. bools_unpack (a @ rest) (Suc 0 mod 8) n c' = Some (vs', rest)"
      using Suc.IH [OF r(2)] by blast
    then show ?thesis using True r by (intro exI [of _ "c' # a"]) simp
  next
    case False
    then obtain vs' where r: "bools_unpack bs (Suc i mod 8) n c = Some (vs', d)" "vs = (c AND push_bit i 1 \<noteq> 0) # vs'"
      using Suc.prems by (auto split: Option.bind_splits)
    show ?thesis using Suc.IH [OF r(1)] False r(2) by auto
  qed
qed simp

lemma exact_bools: "exact_read unpack_bools"
proof -
  have "exact_read (\<lambda>bs. do { (vs, d) \<leftarrow> bools_unpack bs 0 n 0; Some (vs, length bs - length d) })" for n
  proof (rule exact_readI)
    fix bs vs k
    assume "do { (vs, d) \<leftarrow> bools_unpack bs 0 n 0; Some (vs, length bs - length d) } = Some (vs, k)"
    then obtain d where d: "bools_unpack bs 0 n 0 = Some (vs, d)" "k = length bs - length d" by (auto split: Option.bind_splits)
    obtain a where "bs = a @ d" "\<And>rest. bools_unpack (a @ rest) 0 n 0 = Some (vs, rest)" using bools_take [OF d(1)] by blast
    then show "k \<le> length bs \<and> (\<forall>rest. do { (vs, d) \<leftarrow> bools_unpack (take k bs @ rest) 0 n 0;
        Some (vs, length (take k bs @ rest) - length d) } = Some (vs, k))"
      using d(2) by simp
  qed
  from exact_counted [of "\<lambda>n bs. do { (vs, d) \<leftarrow> bools_unpack bs 0 n 0; Some (vs, length bs - length d) }", OF this]
  show ?thesis by (simp add: unpack_bools_def [abs_def] Let_def Option.bind_assoc case_prod_beta' add.commute)
qed

lemma strings_take:
  "strings_unpack n bs r d = Some (r', d') \<Longrightarrow> \<exists>t. d' = d + word_of_nat t \<and> 2 * n + t \<le> length bs
     \<and> (\<forall>rest. strings_unpack n (take (2 * n + t) bs @ rest) r d = Some (r', d'))"
proof (induction n arbitrary: bs r d)
  case (Suc n)
  obtain l v where l: "mem_read bs 0 2 = Some l" "mem_read bs 2 (unat (un_le16 l)) = Some v"
    using Suc.prems by (auto split: Option.bind_splits)
  let ?k = "2 + unat (un_le16 l)" and ?r = "if v \<in> set r then r else r @ [v]"
  have k: "?k \<le> length bs" using l(2) by (simp add: mem_read_def split: if_splits)
  have "strings_unpack n (drop ?k bs) ?r (d + un_le16 l) = Some (r', d')" using Suc.prems l by simp
  from Suc.IH [OF this] obtain t where t: "d' = d + un_le16 l + word_of_nat t" "2 * n + t \<le> length (drop ?k bs)"
      "\<And>rest. strings_unpack n (take (2 * n + t) (drop ?k bs) @ rest) ?r (d + un_le16 l) = Some (r', d')"
    by blast
  let ?t = "unat (un_le16 l) + t"
  have s: "2 * Suc n + ?t = ?k + (2 * n + t)" by simp
  have len: "?k + (2 * n + t) \<le> length bs" using t(2) k by simp
  have "strings_unpack (Suc n) (take (2 * Suc n + ?t) bs @ rest) r d = Some (r', d')" for rest
  proof -
    have "mem_read (take (?k + (2 * n + t)) bs @ rest) 0 2 = Some l" by (rule mem_read_frame [OF l(1)]) (use len in simp_all)
    moreover have "mem_read (take (?k + (2 * n + t)) bs @ rest) 2 (unat (un_le16 l)) = Some v"
      by (rule mem_read_frame [OF l(2)]) (use len in simp_all)
    moreover have "drop ?k (take (?k + (2 * n + t)) bs @ rest) = take (2 * n + t) (drop ?k bs) @ rest"
      using len by (simp add: drop_take)
    ultimately show ?thesis unfolding s using t(3) [of rest] by simp
  qed
  then show ?case using t(1) len s by (intro exI [of _ ?t]) (simp add: add.assoc)
qed (auto intro: exI [of _ 0])

lemma strings_exact:
  assumes "unpack_strings bs = Some (vs, n)" "length bs < 65536"
  shows "n \<le> length bs \<and> unpack_strings (take n bs @ rest) = Some (vs, n)"
proof -
  obtain l d where s: "mem_read bs 0 2 = Some l" "strings_unpack (unat (un_le16 l)) (drop 2 bs) [] 0 = Some (vs, d)"
      "n = 2 + unat (un_le16 l) * 2 + unat d"
    using assms(1) by (auto simp: unpack_strings_def Let_def split: Option.bind_splits)
  have two: "2 \<le> length bs" using s(1) by (simp add: mem_read_def split: if_splits)
  obtain t where t: "d = word_of_nat t" "2 * unat (un_le16 l) + t \<le> length (drop 2 bs)"
      "\<And>rest. strings_unpack (unat (un_le16 l)) (take (2 * unat (un_le16 l) + t) (drop 2 bs) @ rest) [] 0 = Some (vs, d)"
    using strings_take [OF s(2)] by auto
  have "unat d = t" using t(1,2) assms(2) by (simp add: unat_of_nat)
  then have n: "n = 2 + (2 * unat (un_le16 l) + t)" using s(3) by simp
  have len: "n \<le> length bs" using n t(2) two by simp
  have "mem_read (take n bs @ rest) 0 2 = Some l" by (rule mem_read_frame [OF s(1)]) (use n len in simp_all)
  moreover have "drop 2 (take n bs @ rest) = take (2 * unat (un_le16 l) + t) (drop 2 bs) @ rest"
    using len n by (simp add: drop_take)
  ultimately show ?thesis using t(3) [of rest] len s(3) by (simp add: unpack_strings_def)
qed

lemma le32_un_le32: "le32 (un_le32 [a, b, c, d]) = [a, b, c, d]"
proof -
  have "ucast (un_le32 [a, b, c, d]) = un_le16 [a, b]" "ucast (drop_bit 16 (un_le32 [a, b, c, d])) = un_le16 [c, d]"
    by (rule bit_word_eqI, auto simp: un_le32_def bit_simps)+
  moreover have "\<not> bit c (8 + n)" for c :: byte and n using bit_imp_le_length [of c "8 + n"] by auto
  then have "le16 (un_le16 [a, b]) = [a, b]" for a b :: byte
    by (auto simp: le16_def intro!: bit_word_eqI simp: bit_simps)
  ultimately show ?thesis by (simp add: le32_def)
qed

lemma list12E:
  assumes "length xs = 12"
  obtains a b c d e f g h i j k l where "xs = [a, b, c, d, e, f, g, h, i, j, k, l]"
  using assms that by (auto simp: length_Suc_conv numeral_eq_Suc)

lemma list16E:
  assumes "length xs = 16"
  obtains a b c d e f g h i j k l m n p q where "xs = [a, b, c, d, e, f, g, h, i, j, k, l, m, n, p, q]"
  using assms that by (auto simp: length_Suc_conv numeral_eq_Suc)

lemma exact_cube: "exact_read (unpack_cube old)"
proof (rule exact_readI)
  fix bs c n
  assume u: "unpack_cube old bs = Some (c, n)"
  then have "n = 16" "16 \<le> length bs"
    by (auto simp: unpack_cube_def AACube_deserialize_def DataDeserializer_getVec3_def DataDeserializer_getFloat_def dd_get_def
        DataDeserializer_canAdvanceBy_def DataDeserializer_new_def mem_read_def split: Option.bind_splits if_splits)
  moreover obtain c' :: aa_cube where c': "take 16 bs = vec3_bytes (cube_corner c') @ le32 (cube_scale c')"
  proof -
    have "length (take 16 bs) = 16" using \<open>16 \<le> length bs\<close> by simp
    then obtain a b c d e f g h i j k l m n p q
      where "take 16 bs = [a, b, c, d, e, f, g, h, i, j, k, l, m, n, p, q]" by (rule list16E)
    then show ?thesis
      by (intro that [of "\<lparr>cube_corner = (un_le32 [a, b, c, d], un_le32 [e, f, g, h], un_le32 [i, j, k, l]),
        cube_scale = un_le32 [m, n, p, q]\<rparr>"]) (simp add: le32_un_le32)
  qed
  moreover have "unpack_cube old (take 16 bs @ rest) = Some (c', 16)" for rest unfolding c' append_assoc by (rule unpack_cube_law)
  moreover from this [of "drop 16 bs"] have "c = c'" using u by simp
  ultimately show "n \<le> length bs \<and> (\<forall>rest. unpack_cube old (take n bs @ rest) = Some (c, n))" by simp
qed

lemma read_bound: "mem_read bs k n = Some b \<Longrightarrow> k + n \<le> length bs"
  by (simp add: mem_read_def split: if_splits)

lemma get8_bound:
  "DataDeserializer_get8 old d = Some (c, d') \<Longrightarrow> dd_length d' = dd_length d \<and> dd_store d' = dd_store d
     \<and> (dd_pos d < dd_length d \<longrightarrow> dd_pos d' = dd_pos d + 1 \<and> dd_pos d < length (dd_store d))"
  by (auto simp: DataDeserializer_get8_def dd_get_def DataDeserializer_canAdvanceBy_def split: Option.bind_splits if_splits dest: read_bound)

lemma sampler_takes:
  assumes "unpack_sampler bs = Some (c, n)"
  shows "n = 28 \<and> 28 \<le> length bs"
proof -
  let ?o = Sampler_Desc_default
  obtain c' r where d: "Sampler_Desc_deserialize ?o (DataDeserializer_new bs 28) = Some (c', r)" "n = dd_length r"
    using assms by (auto simp: unpack_sampler_def split: Option.bind_splits)
  obtain a r0 where a: "DataDeserializer_getVec4 (smp_borderColor ?o) (DataDeserializer_new bs 28) = Some (a, r0)"
    using d(1) by (auto simp: Sampler_Desc_deserialize_def DataDeserializer_tracked_def split: Option.bind_splits)
  have r0: "dd_length r0 = 28" "dd_store r0 = bs" "dd_pos r0 = 16"
    using a by (auto simp: DataDeserializer_getVec4_def DataDeserializer_canAdvanceBy_def DataDeserializer_new_def split: Option.bind_splits)
  obtain b r1 where b: "DataDeserializer_get32 (smp_maxAnisotropy ?o) r0 = Some (b, r1)"
    using d(1) a by (auto simp: Sampler_Desc_deserialize_def DataDeserializer_tracked_def split: Option.bind_splits)
  have r1: "dd_length r1 = 28" "dd_store r1 = bs" "dd_pos r1 = 20"
    using b r0 by (auto simp: DataDeserializer_get32_def dd_get_def DataDeserializer_canAdvanceBy_def split: Option.bind_splits)
  obtain c1 r2 c2 r3 c3 r4 c4 r5 c5 r6 c6 r7 c7 r8 c8 r9 where g:
      "DataDeserializer_get8 (smp_filter ?o) r1 = Some (c1, r2)" "DataDeserializer_get8 (smp_comparisonFunc ?o) r2 = Some (c2, r3)"
      "DataDeserializer_get8 (smp_wrapModeU ?o) r3 = Some (c3, r4)" "DataDeserializer_get8 (smp_wrapModeV ?o) r4 = Some (c4, r5)"
      "DataDeserializer_get8 (smp_wrapModeW ?o) r5 = Some (c5, r6)" "DataDeserializer_get8 (smp_mipOffset ?o) r6 = Some (c6, r7)"
      "DataDeserializer_get8 (smp_minMip ?o) r7 = Some (c7, r8)" "DataDeserializer_get8 (smp_maxMip ?o) r8 = Some (c8, r9)"
      "dd_length r = dd_length r9"
    using d(1) a b by (auto simp: Sampler_Desc_deserialize_def DataDeserializer_tracked_def split: Option.bind_splits)
  show ?thesis
    using get8_bound [OF g(1)] get8_bound [OF g(2)] get8_bound [OF g(3)] get8_bound [OF g(4)] get8_bound [OF g(5)]
      get8_bound [OF g(6)] get8_bound [OF g(7)] get8_bound [OF g(8)] g(9) r1 d(2) by auto
qed

lemma exact_sampler: "exact_read unpack_sampler"
proof (rule exact_readI)
  fix bs s sz
  assume u: "unpack_sampler bs = Some (s, sz)"
  have k: "sz = 28" "28 \<le> length bs" using sampler_takes [OF u] by simp_all
  obtain a b c d e f g h i j k l m n p q where m1: "take 16 bs = [a, b, c, d, e, f, g, h, i, j, k, l, m, n, p, q]"
    by (rule list16E [of "take 16 bs"]) (use k(2) in simp_all)
  obtain a' b' c' d' e' f' g' h' i' j' k' l' where
      m2: "take 12 (drop 16 bs) = [a', b', c', d', e', f', g', h', i', j', k', l']"
    by (rule list12E [of "take 12 (drop 16 bs)"]) (use k(2) in simp_all)
  have "take 28 bs = take 16 bs @ take 12 (drop 16 bs)" using take_add [of 16 12 bs] by simp
  then have m: "take 28 bs = [a, b, c, d, e, f, g, h, i, j, k, l, m, n, p, q, a', b', c', d', e', f', g', h', i', j', k', l']"
    unfolding m1 m2 by simp
  let ?s = "\<lparr>smp_borderColor = (un_le32 [a, b, c, d], un_le32 [e, f, g, h], un_le32 [i, j, k, l], un_le32 [m, n, p, q]),
    smp_maxAnisotropy = un_le32 [a', b', c', d'], smp_filter = e', smp_comparisonFunc = f', smp_wrapModeU = g',
    smp_wrapModeV = h', smp_wrapModeW = i', smp_mipOffset = j', smp_minMip = k', smp_maxMip = l'\<rparr>"
  have "take 28 bs = sampler_memory ?s" unfolding m by (simp add: sampler_memory_def le32_un_le32)
  then have r: "unpack_sampler (take 28 bs @ rest) = Some (?s, 28)" for rest using unpack_sampler_law [of ?s rest] by simp
  from this [of "drop 28 bs"] have "s = ?s" using u by simp
  then show "sz \<le> length bs \<and> (\<forall>rest. unpack_sampler (take sz bs @ rest) = Some (s, sz))" using k r by simp
qed

lemma exact_uuid: "exact_read unpack_uuid"
proof -
  have "unpack_uuid = (\<lambda>bs. do { l \<leftarrow> mem_read bs 0 2; b \<leftarrow> mem_read bs 2 (unat (un_le16 l));
      Some (if unat (un_le16 l) = 0 then 0 else fromRfc4122 b, 2 + unat (un_le16 l)) })"
    by (rule ext) (auto simp: unpack_uuid_def Let_def mem_read_def split: Option.bind_splits if_splits)
  then show ?thesis using exact_counted_mem [of "\<lambda>n. n" "\<lambda>n b. if n = 0 then 0 else fromRfc4122 b"] by simp
qed

lemma exact_bool: "exact_read unpack_bool"
  by (rule exact_readI) (auto simp: unpack_bool_def mem_read_def split: Option.bind_splits if_splits)

lemma unpackValue_fun:
  "unpackValue TU8 = (\<lambda>bs. map_option (apfst VU8) (unpack_u8 bs))"
  "unpackValue TU16 = (\<lambda>bs. map_option (apfst VU16) (unpack_u16 bs))"
  "unpackValue TU32 = (\<lambda>bs. map_option (apfst VU32) (unpack_u32 bs))"
  "unpackValue TU64 = (\<lambda>bs. map_option (apfst VU64) (unpack_u64 bs))"
  "unpackValue TFloat = (\<lambda>bs. map_option (apfst VFloat) (unpack_float bs))"
  "unpackValue TBool = (\<lambda>bs. map_option (apfst VBool) (unpack_bool bs))"
  "unpackValue TVec2 = (\<lambda>bs. map_option (apfst VVec2) (unpack_vec2 bs))"
  "unpackValue TVec3 = (\<lambda>bs. map_option (apfst VVec3) (unpack_vec3 bs))"
  "unpackValue TColor = (\<lambda>bs. map_option (apfst VColor) (unpack_color bs))"
  "unpackValue TQuat = (\<lambda>bs. map_option (apfst VQuat) (unpack_quat bs))"
  "unpackValue TString = (\<lambda>bs. map_option (apfst VString) (unpack_string bs))"
  "unpackValue TUuid = (\<lambda>bs. map_option (apfst VUuid) (unpack_uuid bs))"
  "unpackValue TBytes = (\<lambda>bs. map_option (apfst VBytes) (unpack_bytes bs))"
  "unpackValue TVec3s = (\<lambda>bs. map_option (apfst VVec3s) (unpack_vec3s bs))"
  "unpackValue TQuats = (\<lambda>bs. map_option (apfst VQuats) (unpack_quats bs))"
  "unpackValue TFloats = (\<lambda>bs. map_option (apfst VFloats) (unpack_floats bs))"
  "unpackValue TBools = (\<lambda>bs. map_option (apfst VBools) (unpack_bools bs))"
  "unpackValue TUuids = (\<lambda>bs. map_option (apfst VUuids) (unpack_uuids bs))"
  "unpackValue TRect = (\<lambda>bs. map_option (apfst VRect) (unpack_rect bs))"
  "unpackValue TSampler = (\<lambda>bs. map_option (apfst VSampler) (unpack_sampler bs))"
  "unpackValue TCube = (\<lambda>bs. map_option (apfst VCube) (unpack_cube AACube_default bs))"
  by (rule ext, simp)+

lemma unpackValue_exact:
  assumes "t \<noteq> TStrings"
  shows "exact_read (unpackValue t)"
proof (cases t)
  case TStrings
  then show ?thesis using assms by simp
next
  case TUuids
  then show ?thesis using exact_map [OF exact_counted_mem [of "\<lambda>n. n * 16" "elements QUuid_of_memory 16"], of VUuids]
    by (simp add: unpackValue_fun unpack_uuids_def [abs_def] Let_def)
next
  case TFloats
  then show ?thesis using exact_map [OF exact_counted_mem [of "\<lambda>n. n * 4" "elements un_le32 4"], of VFloats]
    by (simp add: unpackValue_fun unpack_floats_def [abs_def] Let_def)
next
  case TString
  then show ?thesis using exact_map [OF exact_counted_mem [of "\<lambda>n. n" "\<lambda>_ b. b"], of VString]
    by (simp add: unpackValue_fun unpack_string_def [abs_def] Let_def)
next
  case TBytes
  then show ?thesis using exact_map [OF exact_counted_mem [of "\<lambda>n. n" "\<lambda>_ b. b"], of VBytes]
    by (simp add: unpackValue_fun unpack_bytes_def [abs_def] Let_def)
next
  case TRect
  then show ?thesis
    using exact_map [OF exact_mem [of 16 "\<lambda>b. (un_le32 (take 4 b), un_le32 (take 4 (drop 4 b)), un_le32 (take 4 (drop 8 b)),
      un_le32 (drop 12 b))"], of VRect]
    by (simp add: unpackValue_fun unpack_rect_def [abs_def])
next
  case TColor
  then show ?thesis using exact_map [OF exact_mem [of 3 "\<lambda>b. (b ! 0, b ! 1, b ! 2)"], of VColor]
    by (simp add: unpackValue_fun unpack_color_def [abs_def])
next
  case TVec2
  then show ?thesis using exact_map [OF exact_mem [of 8 "\<lambda>b. (un_le32 (take 4 b), un_le32 (drop 4 b))"], of VVec2]
    by (simp add: unpackValue_fun unpack_vec2_def [abs_def])
qed (use exact_map [OF exact_vec3] exact_map [OF exact_vec3s] exact_map [OF exact_quats] exact_map [OF exact_bools]
    exact_map [OF exact_cube] exact_map [OF exact_sampler] exact_map [OF exact_uuid] exact_map [OF exact_bool]
    exact_map [OF exact_quat] exact_map [OF exact_mem]
   in \<open>simp_all add: unpackValue_fun unpack_quat_def [abs_def] unpack_u8_def [abs_def] unpack_u16_def [abs_def] unpack_u32_def [abs_def]
     unpack_u64_def [abs_def] unpack_float_def [abs_def]\<close>)

lemma unpackValue_type: "unpackValue t bs = Some (v, n) \<Longrightarrow> octree_type_of v = t"
  by (cases t) auto

text \<open>
  C35. A read reports exactly the bytes it looks at, and yields a value of the type asked for. When a read of a type
  has a result, the bytes it reports, by which the decoder advances, are there; those bytes alone determine value and
  count, whatever is behind them; and any shorter beginning of the data is too short for the read, so nothing is
  reported that was not looked at. The code checks no bound: where a read would go past the data its behaviour is
  undefined and the model has no result, so that the data is long enough is what the theorem takes for granted, as
  the code does. A set of strings counts what it takes in 16 bits, so for that type the data is shorter than 65536
  bytes, which any octree packet is.
\<close>

theorem unpackValue_typed:
  assumes "unpackValue t bs = Some (v, n)" "t = TStrings \<longrightarrow> length bs < 65536"
  shows "octree_type_of v = t \<and> n \<le> length bs \<and> (\<forall>rest. unpackValue t (take n bs @ rest) = Some (v, n))
    \<and> (\<forall>m < n. unpackValue t (take m bs) = None)"
proof (cases "t = TStrings")
  case False
  note e = unpackValue_exact [OF this]
  show ?thesis
    using exact_readD [of "unpackValue t", OF e assms(1)] exact_shorter [of "unpackValue t", OF e assms(1)]
      unpackValue_type [OF assms(1)] by simp
next
  case True
  obtain vs where vs: "unpack_strings bs = Some (vs, n)" "v = VStrings vs" using assms(1) True by auto
  have e: "n \<le> length bs" "\<And>rest. unpack_strings (take n bs @ rest) = Some (vs, n)"
    using strings_exact [OF vs(1)] assms(2) True by auto
  have "unpack_strings (take m bs) = None" if m: "m < n" for m
  proof (rule ccontr)
    assume "unpack_strings (take m bs) \<noteq> None"
    then obtain vs' n' where f: "unpack_strings (take m bs) = Some (vs', n')" by (cases "unpack_strings (take m bs)") auto
    have "length (take m bs) < 65536" using assms(2) True by simp
    note r = strings_exact [OF f this, of "drop n' bs"]
    have n': "n' \<le> m" using r by simp
    have "take n' (take m bs) @ drop n' bs = bs" using n' by (simp add: min_def)
    then have "unpack_strings bs = Some (vs', n')" using conjunct2 [OF r] by metis
    then show False using vs(1) n' m by simp
  qed
  then show ?thesis using True e vs(2) by simp
qed

theorem unpackValue_typed_witness:
  "unpackValue TU16 [1, 2, 3] = Some (VU16 0x201, 2) \<and> unpackValue TU16 [1, 2] = Some (VU16 0x201, 2)
    \<and> unpackValue TU16 [1] = None"
proof -
  have u: "unpackValue TU16 [1, 2, 3] = Some (VU16 0x201, 2)" by (simp add: unpackValue_fun unpack_u16_def mem_read_def)
  have a: "\<forall>rest. unpackValue TU16 (take 2 [1, 2, 3] @ rest) = Some (VU16 0x201, 2)"
    and b: "\<forall>m < 2. unpackValue TU16 (take m [1, 2, 3]) = None"
    using unpackValue_typed [OF u] by simp_all
  have "unpackValue TU16 (take 2 [1, 2, 3] @ []) = Some (VU16 0x201, 2)" using a by (rule spec)
  moreover have "unpackValue TU16 (take 1 [1, 2, 3]) = None" using b [THEN spec, of 1] by linarith
  ultimately show ?thesis using u by simp
qed

end
