(* ===== verification/Voxel_Point.thy ===== *)
theory Voxel_Point
  imports Octal_Code
begin

text \<open>
  From a point to an octal code: \<open>pointToVoxel\<close> and \<open>pointToOctalCode\<close>
  (\<open>libraries/shared/src/SharedUtil.cpp\<close>), which servers and edit senders use to address the element at a point.
  A float is a real and every operation on floats rounds its result (\<open>fl\<close>). The lemmas relate the bits the function
  writes to a path, and the path to the cube \<open>voxelDetailsForCode\<close> computes, for sizes down to 2 to the power -23, where
  all midpoints are multiples of 2 to the power -24 in the unit interval and rounding does not change them; for smaller
  sizes the midpoints round and a code may address an element beside the point.
\<close>

section \<open>The code of a point\<close>

text \<open>How often the unit cube is halved; a negative size halves for ever, size 0 until the test is 0 by underflow.\<close>

(* @src libraries/shared/src/SharedUtil.cpp 357-361 pointToVoxel, size loop *)
partial_function (option) voxel_size :: "real \<Rightarrow> real \<Rightarrow> nat \<Rightarrow> nat option" where
  "voxel_size sTest s voxelSizeInOctets =
     (if sTest > s then voxel_size (fl (sTest / 2)) s (Suc voxelSizeInOctets) else Some voxelSizeInOctets)"

text \<open>The bytes written so far behind the length byte, the byte being filled and the bits in it.\<close>

record voxel_writer =
  vw_out :: "byte list"
  vw_byte :: byte
  vw_bits :: nat

(* @src libraries/shared/src/SharedUtil.cpp 379-398 pointToVoxel, one bit *)
definition voxel_bit :: "bool \<Rightarrow> voxel_writer \<Rightarrow> voxel_writer" where
  "voxel_bit b w =
     (let byte = push_bit 1 (vw_byte w) OR of_bool b; n = vw_bits w + 1
      in if n = 8 then \<lparr>vw_out = vw_out w @ [byte], vw_byte = 0, vw_bits = 0\<rparr>
         else \<lparr>vw_out = vw_out w, vw_byte = byte, vw_bits = n\<rparr>)"

text \<open>The update of one coordinate's midpoint, the same for the three.\<close>

(* @src libraries/shared/src/SharedUtil.cpp 379-387 pointToVoxel, midpoint *)
definition next_test :: "real \<Rightarrow> real \<Rightarrow> real \<Rightarrow> real" where
  "next_test c test sTest = (if c \<ge> test then fl (test + fl (sTest / 2)) else fl (test - fl (sTest / 2)))"

(* @src libraries/shared/src/SharedUtil.cpp 378-440 pointToVoxel, octet loop *)
fun voxel_octets :: "nat \<Rightarrow> real \<times> real \<times> real \<Rightarrow> real \<times> real \<times> real \<Rightarrow> real \<Rightarrow> voxel_writer \<Rightarrow> voxel_writer" where
  "voxel_octets 0 c test sTest w = w"
| "voxel_octets (Suc n) (x, y, z) (xTest, yTest, zTest) sTest w =
     voxel_octets n (x, y, z) (next_test x xTest sTest, next_test y yTest sTest, next_test z zTest sTest) (fl (sTest / 2))
       (voxel_bit (z \<ge> zTest) (voxel_bit (y \<ge> yTest) (voxel_bit (x \<ge> xTest) w)))"

text \<open>A write behind the allocated buffer is \<open>None\<close>; \<open>bytesRequiredForCodeLength\<close> takes the number of octets as a byte.\<close>

(* @src libraries/shared/src/SharedUtil.cpp 344-462 pointToVoxel *)
definition pointToVoxel :: "real \<Rightarrow> real \<Rightarrow> real \<Rightarrow> real \<Rightarrow> byte \<Rightarrow> byte \<Rightarrow> byte \<Rightarrow> byte list option" where
  "pointToVoxel x y z s r g b =
     (if s \<ge> 1 then Some [0]
      else do { voxelSizeInOctets \<leftarrow> voxel_size (1 / 2) s 1;
                let voxelBufferSize = bytesRequiredForCodeLength (word_of_nat voxelSizeInOctets) + 3;
                let w = voxel_octets voxelSizeInOctets (x, y, z) (1 / 2, 1 / 2, 1 / 2) (1 / 2)
                          \<lparr>vw_out = [], vw_byte = 0, vw_bits = 0\<rparr>;
                let out = vw_out w @ (if vw_bits w > 0 then [push_bit (8 - vw_bits w) (vw_byte w)] else []);
                if 1 + length out + 3 \<le> voxelBufferSize
                then Some (word_of_nat voxelSizeInOctets # out @ [r, g, b]) else None })"

(* @src libraries/shared/src/SharedUtil.cpp 334-336 pointToOctalCode *)
definition pointToOctalCode :: "real \<Rightarrow> real \<Rightarrow> real \<Rightarrow> real \<Rightarrow> byte list option" where
  "pointToOctalCode x y z s = pointToVoxel x y z s 0 0 0"

section \<open>The bits written\<close>

definition vw_written :: "voxel_writer \<Rightarrow> bool list" where
  "vw_written w = buffer_bits (vw_out w) @ drop (8 - vw_bits w) (byte_bits (vw_byte w))"

lemma byte_bits_shift: "byte_bits (push_bit 1 x OR of_bool b) = tl (byte_bits x) @ [b]"
proof -
  have "bit (push_bit 1 x) n = (0 < n \<and> n < 8 \<and> bit x (n - 1))" for n
    by (auto simp add: bit_push_bit_iff simp del: push_bit_of_1 push_bit_Suc)
  then show ?thesis by (simp add: byte_bits_list bit_or_iff bit_of_bool_iff del: push_bit_Suc push_bit_numeral)
qed

lemma byte_bits_push: "k \<le> 8 \<Longrightarrow> byte_bits (push_bit k x) = drop k (byte_bits x) @ replicate k False"
  by (rule nth_equalityI) (auto simp: byte_bits_def nth_append bit_push_bit_iff add.commute)

lemma voxel_bit_law:
  assumes "vw_bits w < 8"
  shows "vw_written (voxel_bit b w) = vw_written w @ [b] \<and> vw_bits (voxel_bit b w) < 8"
proof -
  have d: "drop (8 - Suc (vw_bits w)) (tl (byte_bits (vw_byte w)) @ [b]) = drop (8 - vw_bits w) (byte_bits (vw_byte w)) @ [b]"
    using assms by (simp add: drop_Suc [symmetric] Suc_diff_le [symmetric])
  show ?thesis
    using d assms byte_bits_shift [of "vw_byte w" b]
    by (auto simp: vw_written_def voxel_bit_def Let_def buffer_bits_append)
qed

text \<open>The steps the loop takes from a cube, and the tests as its midpoints.\<close>

fun point_path :: "nat \<Rightarrow> real \<times> real \<times> real \<Rightarrow> voxel_position_size \<Rightarrow> nat list" where
  "point_path 0 c v = []"
| "point_path (Suc n) (x, y, z) v =
     (let k = (if x \<ge> vp_x v + vp_s v / 2 then 4 else 0) + (if y \<ge> vp_y v + vp_s v / 2 then 2 else 0)
            + (if z \<ge> vp_z v + vp_s v / 2 then 1 else 0)
      in k # point_path n (x, y, z) (cube_step k v))"

lemma octant_bits:
  "bit ((if a then 4 else 0) + (if b then 2 else 0) + (if c then 1 else 0) :: nat) 2 = a"
  "bit ((if a then 4 else 0) + (if b then 2 else 0) + (if c then 1 else 0) :: nat) 1 = b"
  "bit ((if a then 4 else 0) + (if b then 2 else 0) + (if c then 1 else 0) :: nat) 0 = c"
  by (auto simp: bit_iff_odd)

lemma next_test_eq:
  assumes a: "on_grid a" "0 \<le> a" "a + s \<le> 1" and s: "s = (1 / 2) ^ i" "i < 23"
  shows "next_test c (a + s / 2) (s / 2) = (if c \<ge> a + s / 2 then a + s / 2 + s / 4 else a + s / 4)"
proof -
  have g: "on_grid (s / 2)" "on_grid (s / 4)"
    using on_grid_power [of "i + 1"] on_grid_power [of "i + 2"] s by (simp_all add: power_add power2_eq_square)
  have pos: "0 < s" using s(1) by simp
  have q: "fl (s / 2 / 2) = s / 4" using fl_grid [OF g(2)] a(2,3) pos by simp
  have "fl (a + s / 2 + s / 4) = a + s / 2 + s / 4"
    by (rule fl_grid [OF on_grid_add [OF on_grid_add [OF a(1) g(1)] g(2)]]) (use a(2,3) pos in simp)
  moreover have "fl (a + s / 2 - s / 4) = a + s / 2 - s / 4"
    by (rule fl_grid [OF on_grid_diff [OF on_grid_add [OF a(1) g(1)] g(2)]]) (use a(2,3) pos in simp)
  ultimately show ?thesis by (simp only: next_test_def q) simp
qed

lemma voxel_octets_law:
  "vw_bits w < 8 \<Longrightarrow> grid_cube i v \<Longrightarrow> i + n \<le> 23 \<Longrightarrow> test = (vp_x v + vp_s v / 2, vp_y v + vp_s v / 2, vp_z v + vp_s v / 2) \<Longrightarrow> sTest = vp_s v / 2 \<Longrightarrow>
     vw_written (voxel_octets n c test sTest w) = vw_written w @ oc_bits (point_path n c v)
     \<and> vw_bits (voxel_octets n c test sTest w) < 8"
proof (induction n arbitrary: i v test sTest w)
  case (Suc n)
  obtain x y z where c: "c = (x, y, z)" by (cases c)
  obtain X Y Z where b: "x \<ge> vp_x v + vp_s v / 2 \<longleftrightarrow> X" "y \<ge> vp_y v + vp_s v / 2 \<longleftrightarrow> Y" "z \<ge> vp_z v + vp_s v / 2 \<longleftrightarrow> Z" by blast
  obtain k :: nat where k: "(if X then 4 else 0) + (if Y then 2 else 0) + (if Z then 1 else 0) = k" by blast
  have kb: "bit k 2 = X" "bit k 1 = Y" "bit k 0 = Z" unfolding k [symmetric] by (rule octant_bits)+
  obtain w' where w': "voxel_bit Z (voxel_bit Y (voxel_bit X w)) = w'" by blast
  have l: "vw_written w' = vw_written w @ bits3 k" "vw_bits w' < 8"
    using voxel_bit_law [OF Suc.prems(1), of X] voxel_bit_law [of "voxel_bit X w" Y]
      voxel_bit_law [of "voxel_bit Y (voxel_bit X w)" Z] by (auto simp: bits3_def kb kb(2) [unfolded One_nat_def] simp flip: w')
  obtain u where u: "cube_step k v = u" by blast
  have i: "vp_s v = (1 / 2) ^ i" "i < 23" "i < 24" using Suc.prems(2,3) by (simp_all add: grid_cube_def)
  have gu: "grid_cube (Suc i) u" using grid_step [OF Suc.prems(2) i(3)] u by blast
  have nt: "next_test x (vp_x v + vp_s v / 2) (vp_s v / 2) = vp_x u + vp_s u / 2"
    "next_test y (vp_y v + vp_s v / 2) (vp_s v / 2) = vp_y u + vp_s u / 2"
    "next_test z (vp_z v + vp_s v / 2) (vp_s v / 2) = vp_z u + vp_s u / 2"
    using next_test_eq [OF _ _ _ i(1,2)] Suc.prems(2) b
    unfolding u [symmetric] cube_step_def kb grid_cube_def by (auto simp: of_bool_def)
  have half: "fl (vp_s v / 2) = vp_s v / 2"
    using fl_power [of "Suc i"] i by simp
  have t: "(next_test x (vp_x v + vp_s v / 2) (vp_s v / 2), next_test y (vp_y v + vp_s v / 2) (vp_s v / 2),
      next_test z (vp_z v + vp_s v / 2) (vp_s v / 2)) = (vp_x u + vp_s u / 2, vp_y u + vp_s u / 2, vp_z u + vp_s u / 2)"
    "fl (vp_s v / 2 / 2) = vp_s u / 2"
    unfolding nt using fl_power [of "Suc (Suc i)"] i u by (auto simp: cube_step_def)
  have "vw_written (voxel_octets n c (vp_x u + vp_s u / 2, vp_y u + vp_s u / 2, vp_z u + vp_s u / 2) (vp_s u / 2) w')
      = vw_written w' @ oc_bits (point_path n c u)
      \<and> vw_bits (voxel_octets n c (vp_x u + vp_s u / 2, vp_y u + vp_s u / 2, vp_z u + vp_s u / 2) (vp_s u / 2) w') < 8"
    by (rule Suc.IH [OF l(2) gu _ refl refl]) (use Suc.prems(3) in simp)
  moreover have "voxel_octets (Suc n) c test sTest w
      = voxel_octets n c (vp_x u + vp_s u / 2, vp_y u + vp_s u / 2, vp_z u + vp_s u / 2) (vp_s u / 2) w'"
    unfolding Suc.prems(4,5) c voxel_octets.simps b w' t ..
  moreover have "point_path (Suc n) c v = k # point_path n c u"
    by (simp add: c b k u Let_def)
  ultimately show ?case using l(1) by simp
qed simp

lemma length_point_path [simp]: "length (point_path n c v) = n"
proof (induction n arbitrary: v)
  case (Suc n)
  then show ?case by (cases c) (simp add: Let_def)
qed simp

lemma point_path_ok: "\<forall>k \<in> set (point_path n c v). k < 8"
proof (induction n arbitrary: v)
  case (Suc n)
  obtain x y z where "c = (x, y, z)" by (cases c)
  then show ?case using Suc.IH by (simp add: Let_def)
qed simp

lemma point_path_cube:
  "in_cube c v \<Longrightarrow> in_cube c (foldl (\<lambda>v k. cube_step k v) v (point_path n c v))"
proof (induction n arbitrary: v)
  case (Suc n)
  obtain x y z where c: "c = (x, y, z)" by (cases c)
  obtain X Y Z where b: "x \<ge> vp_x v + vp_s v / 2 \<longleftrightarrow> X" "y \<ge> vp_y v + vp_s v / 2 \<longleftrightarrow> Y" "z \<ge> vp_z v + vp_s v / 2 \<longleftrightarrow> Z" by blast
  obtain k :: nat where k: "(if X then 4 else 0) + (if Y then 2 else 0) + (if Z then 1 else 0) = k" by blast
  have kb: "bit k 2 = X" "bit k 1 = Y" "bit k 0 = Z" unfolding k [symmetric] by (rule octant_bits)+
  have "in_cube c (cube_step k v)"
    using Suc.prems b unfolding c in_cube_def prod.case cube_step_def kb
    by (cases X; cases Y; cases Z) (auto simp: not_le)
  moreover have "point_path (Suc n) c v = k # point_path n c (cube_step k v)" by (simp add: c b k Let_def)
  ultimately show ?case using Suc.IH by simp
qed simp

lemma buffer_bits_inject: "buffer_bits xs = buffer_bits ys \<Longrightarrow> xs = ys"
proof -
  assume eq: "buffer_bits xs = buffer_bits ys"
  then have l: "length xs = length ys" using length_buffer_bits by (metis mult_left_cancel zero_neq_numeral)
  show ?thesis
  proof (rule nth_equalityI [OF l])
    fix j
    assume j: "j < length xs"
    show "xs ! j = ys ! j"
    proof (rule bit_word_eqI)
      fix n
      assume n: "n < LENGTH(8)"
      obtain m where m: "7 - n = m" by blast
      have m8: "m < 8" "7 - m = n" using m n by simp_all
      have "8 * j + m < 8 * length xs" "(8 * j + m) div 8 = j" "(8 * j + m) mod 8 = m"
        using j m8(1) by simp_all
      then have "buffer_bits xs ! (8 * j + m) = bit (xs ! j) n" "buffer_bits ys ! (8 * j + m) = bit (ys ! j) n"
        using l m8(2) by (simp_all add: nth_buffer_bits)
      then show "bit (xs ! j) n = bit (ys ! j) n" using eq by simp
    qed
  qed
qed

text \<open>The bytes with the last one padded are the body of the path's code.\<close>

lemma written_body:
  assumes "vw_written w = oc_bits p" "vw_bits w < 8"
  shows "vw_out w @ (if vw_bits w > 0 then [push_bit (8 - vw_bits w) (vw_byte w)] else []) = oc_body p"
proof (rule buffer_bits_inject)
  have "length (vw_written w) = 8 * length (vw_out w) + vw_bits w" using assms(2) by (simp add: vw_written_def)
  then have n: "3 * length p = 8 * length (vw_out w) + vw_bits w" using assms(1) by simp
  then have "oc_bytes (length p) = (8 * length (vw_out w) + (vw_bits w + 7)) div 8" by (simp add: oc_bytes_def add.assoc)
  also have "\<dots> = length (vw_out w) + (vw_bits w + 7) div 8" by simp
  also have "(vw_bits w + 7) div 8 = (if vw_bits w > 0 then 1 else 0)" using assms(2) by (auto intro!: div_nat_eqI)
  finally have l: "8 * oc_bytes (length p) - 3 * length p = (if vw_bits w > 0 then 8 - vw_bits w else 0)"
    using n by simp
  show "buffer_bits (vw_out w @ (if vw_bits w > 0 then [push_bit (8 - vw_bits w) (vw_byte w)] else [])) = buffer_bits (oc_body p)"
    unfolding oc_body_bits l assms(1) [symmetric]
    using byte_bits_push [of "8 - vw_bits w" "vw_byte w"] by (simp add: buffer_bits_append vw_written_def)
qed

section \<open>The cube of a point\<close>

lemma voxel_size_law:
  assumes "(1 / 2) ^ 23 \<le> s"
  shows "0 < n \<Longrightarrow> n + j = 23 \<Longrightarrow>
    \<exists>m. voxel_size ((1 / 2) ^ n) s n = Some (n + m) \<and> n + m \<le> 23 \<and> (1 / 2) ^ (n + m) \<le> s \<and> (0 < m \<longrightarrow> s < (1 / 2) ^ (n + m - 1))"
proof (induction j arbitrary: n)
  case 0
  then have n: "n = 23" by simp
  have "voxel_size ((1 / 2) ^ n) s n = Some n" using assms unfolding n by (subst voxel_size.simps) (simp only: not_less [symmetric] if_False)
  then show ?case using assms n by (intro exI [of _ 0]) simp
next
  case (Suc j)
  show ?case
  proof (cases "(1 / 2) ^ n > s")
    case True
    have h: "fl ((1 / 2) ^ n / 2) = (1 / 2) ^ Suc n" using fl_power [of "Suc n"] Suc.prems by simp
    from Suc.IH [of "Suc n"] Suc.prems obtain m where m: "voxel_size ((1 / 2) ^ Suc n) s (Suc n) = Some (Suc n + m)"
        "Suc n + m \<le> 23" "(1 / 2) ^ (Suc n + m) \<le> s" "0 < m \<longrightarrow> s < (1 / 2) ^ (Suc n + m - 1)" by auto
    have "voxel_size ((1 / 2) ^ n) s n = Some (n + Suc m)"
      using True m(1) by (subst voxel_size.simps) (simp only: h if_True add_Suc_right add_Suc)
    moreover have "s < (1 / 2) ^ (n + Suc m - 1)" using m(4) True by (cases m) simp_all
    ultimately show ?thesis using m(2,3) by (intro exI [of _ "Suc m"]) simp
  next
    case False
    then show ?thesis using Suc.prems by (intro exI [of _ 0]) (simp add: voxel_size.simps [of "(1 / 2) ^ n"])
  qed
qed

text \<open>
  C36. The code made for a point addresses the element that contains it: for a point of the unit cube and a size
  from 2 to the power -23 up to 1 (exclusive), \<open>pointToVoxel\<close> stays inside its buffer and, with every float operation
  rounded, returns the octal code, followed by the colour, of an element
  whose cube, as \<open>voxelDetailsForCode\<close> computes it, contains the point. Its side is the largest power of one half
  that is at most the size and at most one half: not, as the description says, a cube that encloses one of that size.
  For smaller sizes the midpoints of the loop no longer fit a float and nothing is claimed.
\<close>

theorem pointToVoxel_contains_point:
  assumes "0 \<le> x" "x < 1" "0 \<le> y" "y < 1" "0 \<le> z" "z < 1" "s < 1" "(1 / 2) ^ 23 \<le> s"
  shows "\<exists>p v. pointToVoxel x y z s r g b = Some (oc_code p @ [r, g, b]) \<and> oc_ok p \<and> p \<noteq> []
    \<and> voxelDetailsForCode (Some (oc_code p)) = Some v \<and> in_cube (x, y, z) v
    \<and> vp_s v = (1 / 2) ^ length p \<and> vp_s v \<le> s \<and> (1 < length p \<longrightarrow> s < 2 * vp_s v)"
proof -
  let ?u = "\<lparr>vp_x = 0, vp_y = 0, vp_z = 0, vp_s = 1\<rparr>" and ?w = "\<lparr>vw_out = [], vw_byte = 0, vw_bits = 0\<rparr>"
  obtain m where m: "voxel_size (1 / 2) s 1 = Some (1 + m)" "1 + m \<le> 23" "(1 / 2) ^ (1 + m) \<le> s" "0 < m \<longrightarrow> s < (1 / 2) ^ (1 + m - 1)"
    using voxel_size_law [OF assms(8), of 1 22] by auto
  have m254: "1 + m \<le> 254" using m(2) by simp
  obtain p where p: "point_path (1 + m) (x, y, z) ?u = p" by blast
  have ok: "oc_ok p" "length p = 1 + m" using point_path_ok [of "1 + m" "(x, y, z)" ?u] m254 p by (auto simp: oc_ok_def)
  obtain w where w: "voxel_octets (1 + m) (x, y, z) (1 / 2, 1 / 2, 1 / 2) (1 / 2) ?w = w" by blast
  have vw: "vw_written w = oc_bits p" "vw_bits w < 8"
  proof -
    have e: "vw_written ?w = []" "vw_bits ?w < 8" by (simp_all add: vw_written_def buffer_bits_def)
    have t: "(1 / 2, 1 / 2, 1 / 2) = (vp_x ?u + vp_s ?u / 2, vp_y ?u + vp_s ?u / 2, vp_z ?u + vp_s ?u / 2)" "1 / 2 = vp_s ?u / 2"
      by simp_all
    show "vw_written w = oc_bits p" "vw_bits w < 8"
      using voxel_octets_law [OF e(2) grid_root _ t, of "1 + m" "(x, y, z)"] m(2) unfolding w p e(1) by simp_all
  qed
  note body = written_body [OF vw]
  have size: "bytesRequiredForCodeLength (word_of_nat (1 + m)) = 1 + oc_bytes (1 + m)"
    using bytesRequired_eq [of "1 + m"] m254 by simp
  have s1: "\<not> 1 \<le> s" using assms(7) by simp
  have fits: "1 + length (oc_body p) + 3 \<le> bytesRequiredForCodeLength (word_of_nat (1 + m)) + 3"
    unfolding size by (simp add: ok(2))
  have code: "pointToVoxel x y z s r g b = Some (oc_code p @ [r, g, b])"
    unfolding pointToVoxel_def if_not_P [OF s1] m(1) Option.bind.bind_lunit Let_def w body if_P [OF fits]
    by (simp add: oc_code_def ok(2))
  obtain v where v: "foldl (\<lambda>v k. cube_step k v) ?u p = v" by blast
  have d: "voxelDetailsForCode (Some (oc_code p)) = Some v" using voxelDetails_eq [OF ok(1)] ok(2) m(2) v by simp
  have "in_cube (x, y, z) v"
    using point_path_cube [of "(x, y, z)" ?u "1 + m"] assms(1-6) unfolding p v by (simp add: in_cube_def)
  moreover have side: "vp_s (foldl (\<lambda>v k. cube_step k v) u q) = vp_s u * (1 / 2) ^ length q" for u q
    by (induction q arbitrary: u) (simp_all add: cube_step_def)
  have vs: "vp_s v = (1 / 2) ^ length p" using side [of ?u p] unfolding v by simp
  moreover have "vp_s v \<le> s" using m(3) by (simp only: vs ok(2))
  moreover have "s < 2 * vp_s v" if "1 < length p" using m(4) that by (simp add: vs ok(2))
  moreover have "p \<noteq> []" using ok(2) by auto
  ultimately show ?thesis using code ok(1) d by blast
qed

theorem pointToVoxel_contains_point_witness:
  "\<exists>p v. pointToVoxel (1 / 3) 0 (3 / 4) (3 / 4) 1 2 3 = Some (oc_code p @ [1, 2, 3])
    \<and> voxelDetailsForCode (Some (oc_code p)) = Some v \<and> in_cube (1 / 3, 0, 3 / 4) v \<and> vp_s v \<le> 3 / 4"
proof -
  have "(1 / 2 :: real) ^ 23 \<le> 3 / 4" using power_decreasing [of 1 23 "1 / 2 :: real"] by simp
  then show ?thesis using pointToVoxel_contains_point [of "1 / 3" 0 "3 / 4" "3 / 4" 1 2 3] by auto
qed

text \<open>The buffer made for the origin with size 0.5: the code and three bytes of colour.\<close>

lemma edit_octcode: "pointToOctalCode 0 0 0 (1 / 2) = Some [1, 0, 0, 0, 0]"
proof -
  have "voxel_octets 1 (0, 0, 0) (1 / 2, 1 / 2, 1 / 2) (1 / 2) \<lparr>vw_out = [], vw_byte = 0, vw_bits = 0\<rparr>
      = \<lparr>vw_out = [], vw_byte = 0, vw_bits = 3\<rparr>"
    by (simp add: One_nat_def voxel_bit_def Let_def)
  moreover have "voxel_size (1 / 2) (1 / 2) 1 = Some 1" by (subst voxel_size.simps) simp
  ultimately show ?thesis
    by (simp add: pointToOctalCode_def pointToVoxel_def Let_def bytesRequiredForCodeLength_def del: voxel_octets.simps One_nat_def)
qed

text \<open>
  The code that entity edits begin with, made for the origin with size 0.5, is that of the first child of the
  root: not the root's, whose code is the single byte 0.
\<close>

theorem edit_octcode_is_first_child:
  "\<exists>rest. pointToOctalCode 0 0 0 (1 / 2) = Some (oc_code [0] @ rest) \<and> oc_code [0] = [1, 0] \<and> oc_code [] = [0]
    \<and> pointToOctalCode 0 0 0 1 = Some [0]"
proof -
  have "oc_code [0] = [1, 0]" "oc_code [] = [0]"
    by (simp_all add: oc_code_def oc_body_def oc_bytes_def bits3_def put_bit_def)
  then show ?thesis using edit_octcode by (simp add: pointToOctalCode_def pointToVoxel_def)
qed

end
