(* ===== verification/Entity_Edit.thy ===== *)
theory Entity_Edit
  imports Octree_Values Property_Flags Voxel_Point Nl_Packet
begin

text \<open>
  Entity edit messages: \<open>encodeEntityEditPacket\<close> and \<open>decodeEntityEditPacket\<close>, the clone and erase messages
  (\<open>libraries/entities/src/EntityItemProperties.cpp.in\<close>, \<open>EntityItemPropertiesMacros.h\<close>, \<open>EntityTree.cpp\<close>) and the sender's loop,
  which spreads the properties of an entity over packets (\<open>EntityEditPacketSender.cpp\<close>).

  The build generates one append and one read per property; which properties there are, in which order, is
  a parameter here: the appends are a list of flags with the value the getter returns, the reads a list of flags with
  the type that is read, and \<open>PROP_LAST_ITEM\<close>, the highest flag, is the argument \<open>lastItem\<close>.
\<close>

section \<open>Properties\<close>

(* @src libraries/octree/src/OctreeElement.h 85-85 OctreeElement::AppendState *)
datatype append_state = COMPLETED | PARTIAL | NONE

text \<open>
  The fields of \<open>EntityItemProperties\<close> that the messages use. \<open>ep_items\<close> holds the properties: for the sender what
  the generated code appends, in its order; for the reader the setters it has called, in order.
\<close>

record entity_properties =
  ep_created :: "64 word"
  ep_lastEdited :: "64 word"
  ep_type :: "32 word"
  ep_items :: "(int \<times> octree_value) list"

(* @src libraries/entities/src/EntityItemProperties.cpp.in 81-83 EntityItemProperties::setLastEdited *)
definition EntityItemProperties_setLastEdited :: "64 word \<Rightarrow> entity_properties \<Rightarrow> entity_properties" where
  "EntityItemProperties_setLastEdited usecTime props =
     props\<lparr>ep_lastEdited := if usecTime > ep_created props then usecTime else ep_created props\<rparr>"

section \<open>Encoding an edit\<close>

text \<open>The locals the append macro works on.\<close>

record edit_append =
  ea_packet :: octree_packet_data
  ea_flags :: property_flags
  ea_didntFit :: property_flags
  ea_count :: nat
  ea_state :: append_state

(* @src libraries/entities/src/EntityItemPropertiesMacros.h 52-67 APPEND_ENTITY_PROPERTY *)
definition APPEND_ENTITY_PROPERTY ::
  "(quat \<Rightarrow> quat) \<Rightarrow> property_flags \<Rightarrow> int \<times> octree_value \<Rightarrow> edit_append \<Rightarrow> edit_append option" where
  "APPEND_ENTITY_PROPERTY glm_normalize requestedProperties item st =
     (case item of (P, V) \<Rightarrow>
      do { requested \<leftarrow> PropertyFlags_getHasProperty P requestedProperties;
           if requested
           then do { let propertyLevel = OctreePacketData_startLevel (ea_packet st);
                     (successPropertyFits, p) \<leftarrow> appendValue glm_normalize V (ea_packet st);
                     if successPropertyFits
                     then do { propertyFlags \<leftarrow> PropertyFlags_or_assign_flag P (ea_flags st);
                               propertiesDidntFit \<leftarrow> PropertyFlags_sub_assign_flag P (ea_didntFit st);
                               Some (st\<lparr>ea_packet := p, ea_flags := propertyFlags, ea_didntFit := propertiesDidntFit,
                                 ea_count := ea_count st + 1\<rparr>) }
                     else Some (st\<lparr>ea_packet := OctreePacketData_discardLevel propertyLevel p, ea_state := PARTIAL\<rparr>) }
           else do { propertiesDidntFit \<leftarrow> PropertyFlags_sub_assign_flag P (ea_didntFit st);
                     Some (st\<lparr>ea_didntFit := propertiesDidntFit\<rparr>) } })"

fun append_properties ::
  "(quat \<Rightarrow> quat) \<Rightarrow> property_flags \<Rightarrow> (int \<times> octree_value) list \<Rightarrow> edit_append \<Rightarrow> edit_append option" where
  "append_properties glm_normalize requestedProperties [] st = Some st"
| "append_properties glm_normalize requestedProperties (item # items) st =
     do { st1 \<leftarrow> APPEND_ENTITY_PROPERTY glm_normalize requestedProperties item st;
          append_properties glm_normalize requestedProperties items st1 }"

text \<open>
  The header: every part is attempted even when an earlier one did not fit, only the (empty) token depends on
  the id. The result says whether all fit, where the flags are, and their encoding.
\<close>

(* @src libraries/entities/src/EntityItemProperties.cpp.in 896-942 EntityItemProperties::encodeEntityEditPacket, header *)
definition append_edit_header ::
  "int \<Rightarrow> uuid \<Rightarrow> entity_properties \<Rightarrow> octree_packet_data
    \<Rightarrow> (bool \<times> int \<times> byte list \<times> property_flags \<times> octree_packet_data) option" where
  "append_edit_header lastItem entityID props p =
     do { let encodedID = toRfc4122 entityID;
          let encodedType = ByteCountCoded_encode (ep_type props);
          let encodedUpdateDelta = ByteCountCoded_encode (0 :: 64 word);
          propertyFlags \<leftarrow> PropertyFlags_of_flag lastItem;
          (successLastEditedFits, p) \<leftarrow> appendValue_u64 (ep_lastEdited props) p;
          (successIDFits, p) \<leftarrow> OctreePacketData_appendRawData encodedID p;
          (successIDFits, p) \<leftarrow> (if successIDFits then OctreePacketData_appendRawData [] p else Some (False, p));
          (successTypeFits, p) \<leftarrow> OctreePacketData_appendRawData encodedType p;
          (successLastUpdatedFits, p) \<leftarrow> OctreePacketData_appendRawData encodedUpdateDelta p;
          let propertyFlagsOffset = OctreePacketData_getUncompressedByteOffset 0 p;
          (encodedPropertyFlags, propertyFlags) \<leftarrow> PropertyFlags_encode propertyFlags;
          (successPropertyFlagsFits, p) \<leftarrow> OctreePacketData_appendRawData encodedPropertyFlags p;
          Some (successIDFits \<and> successTypeFits \<and> successLastEditedFits \<and> successLastUpdatedFits \<and> successPropertyFlagsFits,
                propertyFlagsOffset, encodedPropertyFlags, propertyFlags, p) }"

text \<open>
  The flags that were really appended replace the full ones in the header, and the values move down when the
  encoding has become shorter.
\<close>

(* @src libraries/entities/src/EntityItemProperties.cpp.in 959-980 EntityItemProperties::encodeEntityEditPacket, flags *)
definition rewrite_edit_flags ::
  "int \<Rightarrow> nat \<Rightarrow> int \<Rightarrow> property_flags \<Rightarrow> octree_packet_data \<Rightarrow> octree_packet_data option" where
  "rewrite_edit_flags propertyFlagsOffset oldPropertyFlagsLength startOfEntityItemData propertyFlags p =
     do { let endOfEntityItemData = OctreePacketData_getUncompressedByteOffset 0 p;
          (encodedPropertyFlags, propertyFlags) \<leftarrow> PropertyFlags_encode propertyFlags;
          let newPropertyFlagsLength = length encodedPropertyFlags;
          (_, p) \<leftarrow> OctreePacketData_updatePriorBytes propertyFlagsOffset encodedPropertyFlags p;
          if newPropertyFlagsLength < oldPropertyFlagsLength
          then do { let oldSize = opd_bytesInUse p;
                    let modelItemDataLength = endOfEntityItemData - startOfEntityItemData;
                    modelItemData \<leftarrow> mem_read (opd_uncompressed p) (nat (propertyFlagsOffset + int oldPropertyFlagsLength))
                      (nat modelItemDataLength);
                    let newEntityItemDataStart = propertyFlagsOffset + int newPropertyFlagsLength;
                    (_, p) \<leftarrow> OctreePacketData_updatePriorBytes newEntityItemDataStart modelItemData p;
                    let newSize = oldSize - (int oldPropertyFlagsLength - int newPropertyFlagsLength);
                    Some (OctreePacketData_setUncompressedSize newSize p) }
          else Some p }"

text \<open>
  The buffer is filled through a packet without compression (so the compressor is never called); \<open>p0\<close> is that
  packet's memory before its constructor and \<open>fresh\<close> what new bytes hold. When the octal code does not fit, the code
  returns as if all had been written.
\<close>

(* @src libraries/entities/src/EntityItemProperties.cpp.in 869-1011 EntityItemProperties::encodeEntityEditPacket *)
definition encodeEntityEditPacket ::
  "(quat \<Rightarrow> quat) \<Rightarrow> (nat \<Rightarrow> byte) \<Rightarrow> octree_packet_data \<Rightarrow> int \<Rightarrow> uuid \<Rightarrow> entity_properties \<Rightarrow> byte list
    \<Rightarrow> property_flags \<Rightarrow> property_flags \<Rightarrow> (append_state \<times> byte list \<times> property_flags) option" where
  "encodeEntityEditPacket glm_normalize fresh p0 lastItem entityID props buffer requestedProperties didntFitProperties =
     do { let packetData = OctreePacketData_changeSettings fresh False (length buffer) p0;
          octcode \<leftarrow> pointToOctalCode 0 0 0 (1 / 2);
          (success, p) \<leftarrow> OctreePacketData_startSubTree (Some octcode) packetData;
          if \<not> success then Some (COMPLETED, buffer, didntFitProperties)
          else do {
            let propertiesDidntFit = PropertyFlags_copy requestedProperties;
            let entityLevel = OctreePacketData_startLevel p;
            (headerFits, propertyFlagsOffset, encodedPropertyFlags, propertyFlags, p) \<leftarrow> append_edit_header lastItem entityID props p;
            let oldPropertyFlagsLength = length encodedPropertyFlags;
            let startOfEntityItemData = OctreePacketData_getUncompressedByteOffset 0 p;
            st \<leftarrow> (if headerFits
                   then do { propertyFlags \<leftarrow> PropertyFlags_sub_assign_flag lastItem propertyFlags;
                             append_properties glm_normalize requestedProperties (ep_items props)
                               \<lparr>ea_packet = p, ea_flags = propertyFlags, ea_didntFit = propertiesDidntFit, ea_count = 0,
                                 ea_state = COMPLETED\<rparr> }
                   else Some \<lparr>ea_packet = p, ea_flags = propertyFlags, ea_didntFit = propertiesDidntFit, ea_count = 0,
                               ea_state = COMPLETED\<rparr>);
            (appendState, p) \<leftarrow>
              (if ea_count st > 0
               then do { p \<leftarrow> rewrite_edit_flags propertyFlagsOffset oldPropertyFlagsLength startOfEntityItemData
                                (ea_flags st) (ea_packet st);
                         Some (ea_state st, p) }
               else Some (NONE, OctreePacketData_discardLevel entityLevel (ea_packet st)));
            let didntFit = (if appendState \<noteq> COMPLETED then PropertyFlags_assign (ea_didntFit st) didntFitProperties
                            else didntFitProperties);
            let p = OctreePacketData_endSubTree p;
            (finalizedData, p) \<leftarrow> OctreePacketData_getFinalizedData (\<lambda>bs. bs) p;
            (finalizedSize, p) \<leftarrow> OctreePacketData_getFinalizedSize (\<lambda>bs. bs) p;
            if finalizedSize \<le> int (length buffer)
            then do { content \<leftarrow> mem_read finalizedData 0 (nat finalizedSize);
                      Some (appendState, content, didntFit) }
            else Some (NONE, buffer, didntFit) } }"

section \<open>Decoding an edit\<close>

text \<open>\<open>data\<close> is the memory from the pointer on. The result has what follows, the bytes processed and the properties.\<close>

(* @src libraries/entities/src/EntityItemPropertiesMacros.h 95-102 READ_ENTITY_PROPERTY_TO_PROPERTIES *)
definition READ_ENTITY_PROPERTY_TO_PROPERTIES ::
  "property_flags \<Rightarrow> int \<times> octree_type \<Rightarrow> byte list \<times> int \<times> entity_properties
    \<Rightarrow> (byte list \<times> int \<times> entity_properties) option" where
  "READ_ENTITY_PROPERTY_TO_PROPERTIES propertyFlags item s =
     (case item of (P, T) \<Rightarrow> case s of (dataAt, processedBytes, props) \<Rightarrow>
      do { has \<leftarrow> PropertyFlags_getHasProperty P propertyFlags;
           if has
           then do { (fromBuffer, bytes) \<leftarrow> unpackValue T dataAt;
                     Some (drop bytes dataAt, processedBytes + int bytes, props\<lparr>ep_items := ep_items props @ [(P, fromBuffer)]\<rparr>) }
           else Some s })"

fun read_properties ::
  "property_flags \<Rightarrow> (int \<times> octree_type) list \<Rightarrow> byte list \<times> int \<times> entity_properties
    \<Rightarrow> (byte list \<times> int \<times> entity_properties) option" where
  "read_properties propertyFlags [] s = Some s"
| "read_properties propertyFlags (item # items) s =
     do { s1 \<leftarrow> READ_ENTITY_PROPERTY_TO_PROPERTIES propertyFlags item s; read_properties propertyFlags items s1 }"

text \<open>
  A coded integer at the pointer: the rest of the message is copied, decoded, and encoded again to learn how many bytes it
  took. A rest of negative length, for which Qt would search a zero byte, is \<open>None\<close>.
\<close>

(* @src libraries/entities/src/EntityItemProperties.cpp.in 1101-1107 EntityItemProperties::decodeEntityEditPacket, coded integer *)
definition read_coded :: "byte list \<Rightarrow> int \<Rightarrow> ('a :: len word \<times> nat) option" where
  "read_coded dataAt bytesLeft =
     (if bytesLeft < 0 then None
      else do { encoded \<leftarrow> mem_read dataAt 0 (nat bytesLeft);
                (v, _) \<leftarrow> ByteCountCoded_decode encoded;
                Some (v, length (ByteCountCoded_encode v)) })"

(* @src libraries/entities/src/EntityItemProperties.cpp.in 1067-1133 EntityItemProperties::decodeEntityEditPacket *)
definition decodeEntityEditPacket ::
  "(int \<times> octree_type) list \<Rightarrow> byte list \<Rightarrow> int \<Rightarrow> entity_properties \<Rightarrow> (bool \<times> int \<times> uuid \<times> entity_properties) option" where
  "decodeEntityEditPacket types data bytesToRead props =
     do { octets \<leftarrow> numberOfThreeBitSectionsInCode data UNKNOWN_OCTCODE_LENGTH;
          let bytesToReadOfOctcode = bytesRequiredForCodeLength (word_of_int octets);
          let dataAt = drop bytesToReadOfOctcode data;
          let processedBytes = int bytesToReadOfOctcode;
          lastEdited \<leftarrow> mem_read dataAt 0 8;
          let dataAt = drop 8 dataAt;
          let processedBytes = processedBytes + 8;
          let props = EntityItemProperties_setLastEdited (un_le64 lastEdited) props;
          encodedID \<leftarrow> mem_read dataAt 0 16;
          let editID = fromRfc4122 encodedID;
          let dataAt = drop 16 dataAt;
          let processedBytes = processedBytes + 16;
          (entityTypeCode, n) \<leftarrow> read_coded dataAt (bytesToRead - processedBytes);
          let props = props\<lparr>ep_type := entityTypeCode\<rparr>;
          let dataAt = drop n dataAt;
          let processedBytes = processedBytes + int n;
          (updateDelta :: 64 word, n) \<leftarrow> read_coded dataAt (bytesToRead - processedBytes);
          let dataAt = drop n dataAt;
          let processedBytes = processedBytes + int n;
          (if bytesToRead < processedBytes then None else Some ());
          encodedPropertyFlags \<leftarrow> mem_read dataAt 0 (nat (bytesToRead - processedBytes));
          propertyFlags \<leftarrow> PropertyFlags_of_bytes encodedPropertyFlags;
          let n = nat (pf_encodedLength propertyFlags);
          let dataAt = drop n dataAt;
          let processedBytes = processedBytes + int n;
          (_, processedBytes, props) \<leftarrow> read_properties propertyFlags types (dataAt, processedBytes, props);
          Some (True, processedBytes, editID, props) }"

section \<open>What the appends leave in the packet\<close>

lemma appended_content: "opd_appended p bs q \<Longrightarrow> opd_content q = opd_content p @ bs"
  "opd_appended p bs q \<Longrightarrow> opd_inv q"
  "opd_appended p bs q \<Longrightarrow> opd_bytesAvailable q = opd_bytesAvailable p - int (length bs)"
  by (simp_all add: opd_appended_def)

lemma appended_inUse: "opd_inv p \<Longrightarrow> opd_appended p bs q \<Longrightarrow> opd_bytesInUse q = opd_bytesInUse p + int (length bs)"
  using length_opd_content [of p] length_opd_content [of q] by (simp add: opd_appended_def)

lemma discard_appended:
  assumes "opd_inv p" "opd_appended p bs q"
  shows "opd_appended p [] (OctreePacketData_discardLevel (OctreePacketData_startLevel p) q)"
proof -
  obtain r where r: "OctreePacketData_discardLevel (OctreePacketData_startLevel p) q = r" by blast
  have i: "opd_bytesInUse q = opd_bytesInUse p + int (length bs)" by (rule appended_inUse [OF assms])
  have f: "opd_bytesInUse r = opd_bytesInUse p" "opd_bytesAvailable r = opd_bytesAvailable q + int (length bs)"
      "opd_uncompressed r = opd_uncompressed q" "opd_bytesReserved r = opd_bytesReserved p" "opd_frame r = opd_frame q"
    using i by (simp_all add: OctreePacketData_discardLevel_def OctreePacketData_startLevel_def Let_def opd_frame_def flip: r)
  have "length (opd_content p) = nat (opd_bytesInUse p)" using length_opd_content [OF assms(1)] by simp
  moreover have "nat (opd_bytesInUse q) = nat (opd_bytesInUse p) + length bs"
    using i assms(1) by (simp add: opd_inv_def nat_add_distrib)
  moreover have "take (nat (opd_bytesInUse q)) (opd_uncompressed q) = opd_content p @ bs"
    using appended_content(1) [OF assms(2)] by (simp add: opd_content_def)
  ultimately have "take (nat (opd_bytesInUse p)) (opd_uncompressed q) = opd_content p"
    by (metis append_eq_conv_conj le_add1 min.absorb1 take_take)
  then have "opd_content r = opd_content p" using f by (simp add: opd_content_def)
  moreover have "opd_inv r" using assms f i by (auto simp: opd_inv_def opd_appended_def opd_frame_def)
  ultimately show ?thesis using assms(2) f unfolding r by (simp add: opd_appended_def)
qed

text \<open>The values that are sent when so much room is left: each is sent when it fits behind those before it.\<close>

fun edit_sent :: "(quat \<Rightarrow> quat) \<Rightarrow> int \<Rightarrow> (int \<times> octree_value) list \<Rightarrow> (int \<times> octree_value) list" where
  "edit_sent nz room [] = []"
| "edit_sent nz room ((f, v) # items) =
     (if int (value_need nz v) \<le> room then (f, v) # edit_sent nz (room - int (length (value_bytes nz v))) items
      else edit_sent nz room items)"

definition edit_bytes :: "(quat \<Rightarrow> quat) \<Rightarrow> (int \<times> octree_value) list \<Rightarrow> byte list" where
  "edit_bytes nz items = concat (map (\<lambda>x. value_bytes nz (snd x)) items)"

abbreviation edit_requested :: "property_flags \<Rightarrow> (int \<times> octree_value) list \<Rightarrow> (int \<times> octree_value) list" where
  "edit_requested R items \<equiv> filter (\<lambda>x. fst x \<in> pf_set R) items"

definition edit_items_ok :: "(quat \<Rightarrow> quat) \<Rightarrow> int \<Rightarrow> (int \<times> octree_value) list \<Rightarrow> bool" where
  "edit_items_ok nz lastItem items \<longleftrightarrow>
     list_all (\<lambda>x. 0 \<le> fst x \<and> fst x \<le> lastItem \<and> value_ok nz (snd x)) items \<and> distinct (map fst items)"

lemma or_flag_laws:
  assumes "pf_inv p" "0 \<le> f"
  shows "\<exists>p'. PropertyFlags_or_assign_flag f p = Some p' \<and> pf_inv p' \<and> pf_set p' = insert f (pf_set p)"
  using of_flag_laws [OF assms(2)] or_assign_laws [OF assms(1)] by (fastforce simp: PropertyFlags_or_assign_flag_def)

lemma sub_flag_laws:
  assumes "pf_inv p" "0 \<le> f"
  shows "\<exists>p'. PropertyFlags_sub_assign_flag f p = Some p' \<and> pf_inv p' \<and> pf_set p' = pf_set p - {f}"
  using setHasProperty_laws [OF assms, of False] by (simp add: PropertyFlags_sub_assign_flag_def)

text \<open>What the macro keeps for one property, and the sequence of properties for all.\<close>

definition edit_step ::
  "(quat \<Rightarrow> quat) \<Rightarrow> property_flags \<Rightarrow> (int \<times> octree_value) list \<Rightarrow> (int \<times> octree_value) list \<Rightarrow> edit_append \<Rightarrow> edit_append \<Rightarrow> bool" where
  "edit_step nz R items sent st st' \<longleftrightarrow>
     opd_appended (ea_packet st) (edit_bytes nz sent) (ea_packet st') \<and> pf_inv (ea_flags st') \<and> pf_inv (ea_didntFit st')
     \<and> pf_set (ea_flags st') = pf_set (ea_flags st) \<union> fst ` set sent
     \<and> pf_set (ea_didntFit st') = pf_set (ea_didntFit st) - fst ` set sent
     \<and> ea_count st' = ea_count st + length sent
     \<and> ea_state st' = (if sent = edit_requested R items then ea_state st else PARTIAL)"

lemma append_property_law:
  assumes "pf_inv R" "opd_inv (ea_packet st)" "pf_inv (ea_flags st)" "pf_inv (ea_didntFit st)"
    and "pf_set (ea_didntFit st) \<subseteq> pf_set R" "0 \<le> f" "value_ok nz v"
  shows "\<exists>st'. APPEND_ENTITY_PROPERTY nz R (f, v) st = Some st'
    \<and> edit_step nz R [(f, v)] (edit_sent nz (opd_bytesAvailable (ea_packet st)) (edit_requested R [(f, v)])) st st'"
proof -
  have g: "PropertyFlags_getHasProperty f R = Some (f \<in> pf_set R)" by (rule getHasProperty_set [OF assms(1,6)])
  obtain fl where fl: "PropertyFlags_or_assign_flag f (ea_flags st) = Some fl" "pf_inv fl" "pf_set fl = insert f (pf_set (ea_flags st))"
    using or_flag_laws [OF assms(3,6)] by blast
  obtain df where df: "PropertyFlags_sub_assign_flag f (ea_didntFit st) = Some df" "pf_inv df" "pf_set df = pf_set (ea_didntFit st) - {f}"
    using sub_flag_laws [OF assms(4,6)] by blast
  show ?thesis
  proof (cases "f \<in> pf_set R")
    case False
    then have "pf_set df = pf_set (ea_didntFit st)" using df(3) assms(5) by auto
    then show ?thesis
      using False g df(1,2) assms(2,3) appended_refl
      by (simp add: APPEND_ENTITY_PROPERTY_def edit_step_def edit_bytes_def)
  next
    case True
    obtain p' cs where a: "appendValue nz v (ea_packet st) = Some (int (value_need nz v) \<le> opd_bytesAvailable (ea_packet st), p')"
        "opd_appended (ea_packet st) cs p'" "int (value_need nz v) \<le> opd_bytesAvailable (ea_packet st) \<longrightarrow> cs = value_bytes nz v"
      by (rule appendsE [OF appends_value [OF assms(7)] assms(2)])
    show ?thesis
    proof (cases "int (value_need nz v) \<le> opd_bytesAvailable (ea_packet st)")
      case fits: True
      then show ?thesis
        using True g a fl df by (simp add: APPEND_ENTITY_PROPERTY_def edit_step_def edit_bytes_def)
    next
      case False
      then show ?thesis
        using True g a assms(2-4) discard_appended [OF assms(2) a(2)]
        by (simp add: APPEND_ENTITY_PROPERTY_def edit_step_def edit_bytes_def Let_def)
    qed
  qed
qed

lemma edit_sent_sub: "set (edit_sent nz room items) \<subseteq> set items" "length (edit_sent nz room items) \<le> length items"
proof (induction nz room items rule: edit_sent.induct)
  case 2
  { case 1 then show ?case using "2.IH" by auto next case 2 then show ?case using "2.IH" by auto }
qed simp_all

lemma append_properties_law:
  assumes "pf_inv R"
  shows "opd_inv (ea_packet st) \<Longrightarrow> pf_inv (ea_flags st) \<Longrightarrow> pf_inv (ea_didntFit st) \<Longrightarrow> pf_set (ea_didntFit st) \<subseteq> pf_set R
    \<Longrightarrow> list_all (\<lambda>x. 0 \<le> fst x \<and> value_ok nz (snd x)) items
    \<Longrightarrow> \<exists>st'. append_properties nz R items st = Some st'
      \<and> edit_step nz R items (edit_sent nz (opd_bytesAvailable (ea_packet st)) (edit_requested R items)) st st'"
proof (induction items arbitrary: st)
  case Nil
  then show ?case by (simp add: edit_step_def edit_bytes_def appended_refl)
next
  case (Cons x items)
  obtain f v where x: "x = (f, v)" by (cases x)
  obtain s1 where s1: "edit_sent nz (opd_bytesAvailable (ea_packet st)) (edit_requested R [(f, v)]) = s1" by blast
  obtain st1 where st1: "APPEND_ENTITY_PROPERTY nz R x st = Some st1" "edit_step nz R [(f, v)] s1 st st1"
    using append_property_law [OF assms Cons.prems(1-4), of f nz v] Cons.prems(5) unfolding x s1 by auto
  note k1 = st1(2) [unfolded edit_step_def]
  have "pf_set (ea_didntFit st1) \<subseteq> pf_set R" using k1 Cons.prems(4) by blast
  then obtain st2 where st2: "append_properties nz R items st1 = Some st2"
      "edit_step nz R items (edit_sent nz (opd_bytesAvailable (ea_packet st1)) (edit_requested R items)) st1 st2"
    using Cons.IH [of st1] k1 Cons.prems(5) appended_content(2) by fastforce
  obtain s2 where s2: "edit_sent nz (opd_bytesAvailable (ea_packet st1)) (edit_requested R items) = s2" by blast
  note k2 = st2(2) [unfolded edit_step_def s2]
  have all: "edit_sent nz (opd_bytesAvailable (ea_packet st)) (edit_requested R (x # items)) = s1 @ s2"
    using appended_content(3) [of "ea_packet st" "edit_bytes nz s1" "ea_packet st1"] k1 s1 s2
    by (auto simp: x edit_bytes_def split: if_splits)
  have e: "s1 @ s2 = edit_requested R (x # items) \<longleftrightarrow> s1 = edit_requested R [(f, v)] \<and> s2 = edit_requested R items"
    using edit_sent_sub(2) [of nz "opd_bytesAvailable (ea_packet st1)" "edit_requested R items"] s1 s2
    by (auto simp: x split: if_splits)
  have "edit_step nz R (x # items) (s1 @ s2) st st2"
    using k1 k2 appended_trans [of "ea_packet st" "edit_bytes nz s1" "ea_packet st1" "edit_bytes nz s2" "ea_packet st2"]
    unfolding edit_step_def e by (auto simp: edit_bytes_def)
  then show ?case using st1(1) st2(1) all by simp
qed

section \<open>The encoded message\<close>

definition edit_header :: "uuid \<Rightarrow> entity_properties \<Rightarrow> byte list" where
  "edit_header entityID props = le64 (ep_lastEdited props) @ toRfc4122 entityID @ ByteCountCoded_encode (ep_type props)
     @ ByteCountCoded_encode (0 :: 64 word)"

lemma pf_last_mem:
  assumes "pf_inv p" "f \<in> pf_set p"
  shows "PropertyFlags_lastFlag p \<in> pf_set p"
proof -
  have "0 \<le> pf_maxFlag p" using assms by (force simp: pf_inv_def)
  then show ?thesis using assms(1) by (simp add: pf_inv_def PropertyFlags_lastFlag_def INT_MIN_def)
qed

lemma pf_single_last: "pf_inv p \<Longrightarrow> pf_set p = {f} \<Longrightarrow> PropertyFlags_lastFlag p = f"
  using pf_last_mem by blast

lemma pf_last_le: "pf_inv p \<Longrightarrow> pf_set p \<noteq> {} \<Longrightarrow> \<forall>f \<in> pf_set p. f \<le> b \<Longrightarrow> PropertyFlags_lastFlag p \<le> b"
  using pf_last_mem by blast

lemma appends_step:
  assumes "opd_appends f n bs" "opd_inv p"
  shows "\<exists>q cs. f p = Some (int n \<le> opd_bytesAvailable p, q) \<and> opd_appended p cs q \<and> opd_inv q
    \<and> opd_bytesAvailable q = opd_bytesAvailable p - int (length cs) \<and> (int n \<le> opd_bytesAvailable p \<longrightarrow> cs = bs)"
  by (rule appendsE [OF assms]) (auto simp: opd_appended_def)

lemma append_edit_header_law:
  assumes p: "opd_inv p" and l: "0 \<le> lastItem"
  shows "\<exists>off F flags q cs. append_edit_header lastItem entityID props p
      = Some (length (edit_header entityID props) + length F \<le> opd_bytesAvailable p, off, F, flags, q)
    \<and> opd_appended p cs q \<and> pf_inv flags \<and> pf_set flags = {lastItem} \<and> length F = nat lastItem div 7 + 1
    \<and> (length (edit_header entityID props) + length F \<le> opd_bytesAvailable p
        \<longrightarrow> cs = edit_header entityID props @ F \<and> off = opd_bytesInUse p + int (length (edit_header entityID props)))"
proof -
  obtain f0 where f0: "PropertyFlags_of_flag lastItem = Some f0" "pf_inv f0" "pf_set f0 = {lastItem}"
    using of_flag_laws [OF l] by blast
  obtain F f1 where F: "PropertyFlags_encode f0 = Some (F, f1)" "pf_inv f1" "pf_set f1 = {lastItem}" "length F = nat lastItem div 7 + 1"
    using encode_flags_laws [OF f0(2)] f0(3) pf_single_last [OF f0(2,3)] by auto
  obtain p1 c1 where s1: "appendValue_u64 (ep_lastEdited props) p = Some (8 \<le> opd_bytesAvailable p, p1)" "opd_appended p c1 p1" "opd_inv p1"
      "opd_bytesAvailable p1 = opd_bytesAvailable p - int (length c1)" "8 \<le> opd_bytesAvailable p \<longrightarrow> c1 = le64 (ep_lastEdited props)"
    using appends_step [OF appends_scalars(4) [of "ep_lastEdited props"] p] by auto
  obtain p2 c2 where s2: "OctreePacketData_appendRawData (toRfc4122 entityID) p1 = Some (16 \<le> opd_bytesAvailable p1, p2)"
      "opd_appended p1 c2 p2" "opd_inv p2" "opd_bytesAvailable p2 = opd_bytesAvailable p1 - int (length c2)"
      "16 \<le> opd_bytesAvailable p1 \<longrightarrow> c2 = toRfc4122 entityID"
    using appends_step [OF appends_raw [of "toRfc4122 entityID"] s1(3)] by auto
  obtain p3 where s3: "(if 16 \<le> opd_bytesAvailable p1 then OctreePacketData_appendRawData [] p2 else Some (False, p2))
      = Some (16 \<le> opd_bytesAvailable p1, p3)" "opd_appended p2 [] p3" "opd_inv p3" "opd_bytesAvailable p3 = opd_bytesAvailable p2"
  proof (cases "16 \<le> opd_bytesAvailable p1")
    case True
    obtain q cs where q: "OctreePacketData_appendRawData [] p2 = Some (0 \<le> opd_bytesAvailable p2, q)" "opd_appended p2 cs q" "opd_inv q"
        "opd_bytesAvailable q = opd_bytesAvailable p2 - int (length cs)" "0 \<le> opd_bytesAvailable p2 \<longrightarrow> cs = []"
      using appends_step [OF appends_raw [of "[]"] s2(3)] by auto
    have "0 \<le> opd_bytesAvailable p2" using s2(3) by (simp add: opd_inv_def)
    then show ?thesis using that [of q] q True by simp
  next
    case False
    then show ?thesis using that [of p2] s2(3) appended_refl [OF s2(3)] by simp
  qed
  obtain T where T: "ByteCountCoded_encode (ep_type props) = T" by blast
  obtain U where U: "ByteCountCoded_encode (0 :: 64 word) = U" by blast
  obtain p4 c4 where s4: "OctreePacketData_appendRawData T p3 = Some (int (length T) \<le> opd_bytesAvailable p3, p4)"
      "opd_appended p3 c4 p4" "opd_inv p4" "opd_bytesAvailable p4 = opd_bytesAvailable p3 - int (length c4)"
      "int (length T) \<le> opd_bytesAvailable p3 \<longrightarrow> c4 = T"
    using appends_step [OF appends_raw [of T] s3(3)] by blast
  obtain p5 c5 where s5: "OctreePacketData_appendRawData U p4 = Some (int (length U) \<le> opd_bytesAvailable p4, p5)"
      "opd_appended p4 c5 p5" "opd_inv p5" "opd_bytesAvailable p5 = opd_bytesAvailable p4 - int (length c5)"
      "int (length U) \<le> opd_bytesAvailable p4 \<longrightarrow> c5 = U"
    using appends_step [OF appends_raw [of U] s4(3)] by blast
  obtain p6 c6 where s6: "OctreePacketData_appendRawData F p5 = Some (int (length F) \<le> opd_bytesAvailable p5, p6)"
      "opd_appended p5 c6 p6" "opd_inv p6" "int (length F) \<le> opd_bytesAvailable p5 \<longrightarrow> c6 = F"
    using appends_step [OF appends_raw [of F] s5(3)] by blast
  have hl: "length (edit_header entityID props) = 24 + length T + length U" by (simp add: edit_header_def T U)
  have app5: "opd_appended p (c1 @ c2 @ c4 @ c5) p5"
    using appended_trans [OF s1(2) appended_trans [OF s2(2) appended_trans [OF s3(2) appended_trans [OF s4(2) s5(2)]]]] by simp
  then have app: "opd_appended p ((c1 @ c2 @ c4 @ c5) @ c6) p6" by (rule appended_trans [OF _ s6(2)])
  have fits: "16 \<le> opd_bytesAvailable p1 \<and> int (length T) \<le> opd_bytesAvailable p3 \<and> 8 \<le> opd_bytesAvailable p
      \<and> int (length U) \<le> opd_bytesAvailable p4 \<and> int (length F) \<le> opd_bytesAvailable p5
    \<longleftrightarrow> length (edit_header entityID props) + length F \<le> opd_bytesAvailable p" (is "?A = ?B")
  proof
    assume ?A
    then have "c1 = le64 (ep_lastEdited props)" "c2 = toRfc4122 entityID" "c4 = T" "c5 = U" using s1(5) s2(5) s4(5) s5(5) by auto
    then show ?B using \<open>?A\<close> s1(4) s2(4) s3(4) s4(4) s5(4) unfolding hl by simp
  next
    assume b: ?B
    then have 1: "8 \<le> opd_bytesAvailable p" unfolding hl by simp
    then have a1: "opd_bytesAvailable p1 = opd_bytesAvailable p - 8" using s1(4,5) by simp
    then have 2: "16 \<le> opd_bytesAvailable p1" using b unfolding hl by simp
    then have a3: "opd_bytesAvailable p3 = opd_bytesAvailable p - 24" using a1 s2(4,5) s3(4) by simp
    then have 3: "int (length T) \<le> opd_bytesAvailable p3" using b unfolding hl by simp
    then have a4: "opd_bytesAvailable p4 = opd_bytesAvailable p - 24 - int (length T)" using a3 s4(4,5) by simp
    then have 4: "int (length U) \<le> opd_bytesAvailable p4" using b unfolding hl by simp
    then have "opd_bytesAvailable p5 = opd_bytesAvailable p - 24 - int (length T) - int (length U)" using a4 s5(4,5) by simp
    then show ?A using 1 2 3 4 b unfolding hl by simp
  qed
  have "append_edit_header lastItem entityID props p
      = Some (16 \<le> opd_bytesAvailable p1 \<and> int (length T) \<le> opd_bytesAvailable p3 \<and> 8 \<le> opd_bytesAvailable p
          \<and> int (length U) \<le> opd_bytesAvailable p4 \<and> int (length F) \<le> opd_bytesAvailable p5,
        opd_bytesInUse p5, F, f1, p6)"
    unfolding append_edit_header_def Let_def f0(1) Option.bind.bind_lunit s1(1) s2(1) prod.case s3(1) T s4(1) U s5(1) F(1) s6(1)
      OctreePacketData_getUncompressedByteOffset_def by simp
  moreover have "(c1 @ c2 @ c4 @ c5) @ c6 = edit_header entityID props @ F
      \<and> opd_bytesInUse p5 = opd_bytesInUse p + int (length (edit_header entityID props))"
    if "length (edit_header entityID props) + length F \<le> opd_bytesAvailable p"
  proof -
    have "c1 = le64 (ep_lastEdited props)" "c2 = toRfc4122 entityID" "c4 = T" "c5 = U" "c6 = F"
      using that fits s1(5) s2(5) s4(5) s5(5) s6(4) by blast+
    then show ?thesis using appended_inUse [OF p app5] by (simp add: edit_header_def T U)
  qed
  ultimately show ?thesis using app F(2-4) unfolding fits by blast
qed

lemma mem_read_content:
  assumes "opd_inv p" "opd_content p = xs @ ys"
  shows "mem_read (opd_uncompressed p) (length xs) (length ys) = Some ys"
proof -
  have "length xs + length ys = nat (opd_bytesInUse p)" using length_opd_content [OF assms(1)] assms(2) by simp
  moreover have "nat (opd_bytesInUse p) \<le> length (opd_uncompressed p)" using assms(1) by (auto simp: opd_inv_def)
  moreover have "take (nat (opd_bytesInUse p)) (opd_uncompressed p) = xs @ ys" using assms(2) by (simp add: opd_content_def)
  ultimately show ?thesis unfolding mem_read_def by (simp add: take_drop add.commute)
qed

lemma update_frame: "OctreePacketData_updatePriorBytes off d p = Some (ok, q) \<Longrightarrow> opd_frame q = opd_frame p"
  by (auto simp: OctreePacketData_updatePriorBytes_def opd_frame_def mem_write_length split: if_splits Option.bind_splits)

lemma update_content:
  assumes "opd_inv p" "opd_content p = A @ B @ C" "length D = length B"
  shows "\<exists>q. OctreePacketData_updatePriorBytes (int (length A)) D p = Some (True, q) \<and> opd_inv q \<and> opd_content q = A @ D @ C
    \<and> opd_bytesAvailable q = opd_bytesAvailable p \<and> opd_bytesReserved q = opd_bytesReserved p \<and> opd_frame q = opd_frame p"
proof -
  have "bounded_update (int (length A)) D (opd_abs p) = (True, (opd_abs p)\<lparr>bd_bytes := A @ D @ C\<rparr>)"
    using assms(2,3) by (simp add: bounded_update_def opd_abs_def overwrite_def)
  from update_laws [OF assms(1) this] obtain q where
    "OctreePacketData_updatePriorBytes (int (length A)) D p = Some (True, q)" "opd_inv q" "opd_abs q = (opd_abs p)\<lparr>bd_bytes := A @ D @ C\<rparr>"
    by blast
  then show ?thesis using update_frame by (auto simp: opd_abs_def)
qed

lemma setSize_content:
  assumes "opd_inv p" "opd_content p = A @ B"
  shows "opd_inv (OctreePacketData_setUncompressedSize (int (length A)) p)
    \<and> opd_content (OctreePacketData_setUncompressedSize (int (length A)) p) = A"
proof -
  have l: "int (length A) + int (length B) = opd_bytesInUse p" using length_opd_content [OF assms(1)] assms(2) by simp
  then have "opd_inv (OctreePacketData_setUncompressedSize (int (length A)) p)"
    using assms(1) by (auto simp: opd_inv_def OctreePacketData_setUncompressedSize_def)
  moreover have "length A \<le> nat (opd_bytesInUse p)" using l by linarith
  then have "take (length A) (opd_uncompressed p) = take (length A) (opd_content p)"
    by (simp add: opd_content_def min_def)
  moreover have "opd_content (OctreePacketData_setUncompressedSize (int (length A)) p) = take (length A) (opd_uncompressed p)"
    by (simp add: opd_content_def OctreePacketData_setUncompressedSize_def)
  ultimately show ?thesis using assms(2) by simp
qed

lemma rewrite_edit_flags_law:
  assumes p: "opd_inv p" "opd_content p = A @ F @ B" and enc: "PropertyFlags_encode flags = Some (F', flags')" and l: "length F' \<le> length F"
  shows "\<exists>q. rewrite_edit_flags (int (length A)) (length F) (int (length A) + int (length F)) flags p = Some q
    \<and> opd_inv q \<and> opd_content q = A @ F' @ B \<and> opd_frame q = opd_frame p \<and> opd_bytesAvailable q = opd_bytesAvailable p"
proof -
  obtain F1 F2 where F: "F = F1 @ F2" "length F1 = length F'" using l by (metis append_take_drop_id length_take min.absorb2)
  obtain p1 where p1: "OctreePacketData_updatePriorBytes (int (length A)) F' p = Some (True, p1)" "opd_inv p1"
      "opd_content p1 = A @ F' @ (F2 @ B)" "opd_bytesAvailable p1 = opd_bytesAvailable p" "opd_frame p1 = opd_frame p"
    using update_content [OF p(1), of A F1 "F2 @ B" F'] p(2) F by auto
  have use: "opd_bytesInUse p = int (length A + length F + length B)" "opd_bytesInUse p1 = int (length A + length F + length B)"
    using length_opd_content [OF p(1)] p(2) length_opd_content [OF p1(2)] p1(3) F by simp_all
  show ?thesis
  proof (cases "length F' < length F")
    case False
    then have "F2 = []" using F l by simp
    then show ?thesis
      using p1 False enc by (simp add: rewrite_edit_flags_def Let_def)
  next
    case True
    have r: "mem_read (opd_uncompressed p1) (nat (int (length A) + int (length F)))
        (nat (opd_bytesInUse p - (int (length A) + int (length F)))) = Some B"
      using mem_read_content [OF p1(2), of "A @ F' @ F2" B] p1(3) F use(1) by (simp add: nat_add_distrib add.assoc)
    obtain X Y where XY: "F2 @ B = X @ Y" "length X = length B"
    proof (rule that)
      show "F2 @ B = take (length B) (F2 @ B) @ drop (length B) (F2 @ B)" by (rule append_take_drop_id [symmetric])
    qed simp
    obtain p2 where p2: "OctreePacketData_updatePriorBytes (int (length A) + int (length F')) B p1 = Some (True, p2)" "opd_inv p2"
        "opd_content p2 = (A @ F' @ B) @ Y" "opd_bytesAvailable p2 = opd_bytesAvailable p1" "opd_frame p2 = opd_frame p1"
      using update_content [OF p1(2), of "A @ F'" X Y B] p1(3) XY by auto
    have n: "opd_bytesInUse p1 - (int (length F) - int (length F')) = int (length (A @ F' @ B))" using use(2) by simp
    have "rewrite_edit_flags (int (length A)) (length F) (int (length A) + int (length F)) flags p
        = Some (OctreePacketData_setUncompressedSize (int (length (A @ F' @ B))) p2)"
      unfolding rewrite_edit_flags_def Let_def enc Option.bind.bind_lunit prod.case p1(1) if_P [OF True]
        OctreePacketData_getUncompressedByteOffset_def diff_zero r p2(1) n by (rule refl)
    then show ?thesis
      using setSize_content [OF p2(2,3)] p1(4,5) p2(4,5) by (simp add: OctreePacketData_setUncompressedSize_def opd_frame_def)
  qed
qed

text \<open>The packet once the octal code is in it.\<close>

lemma edit_packet_start:
  assumes "2 \<le> n"
  shows "\<exists>p. OctreePacketData_startSubTree (Some [1, 0, 0, 0, 0]) (OctreePacketData_changeSettings fresh False n p0) = Some (True, p)
    \<and> opd_inv p \<and> opd_content p = [1, 0] \<and> opd_bytesAvailable p = int n - 2 \<and> \<not> opd_enableCompression p
    \<and> length (opd_uncompressed p) = n"
proof -
  obtain p1 where p1: "OctreePacketData_changeSettings fresh False n p0 = p1" by blast
  have l1: "opd_inv p1" "opd_abs p1 = \<lparr>bd_bytes = [], bd_free = int n, bd_held = 0\<rparr>"
    using opd_fresh_laws [of fresh False n p0] unfolding p1 by simp_all
  have f1: "\<not> opd_enableCompression p1" "length (opd_uncompressed p1) = n"
    by (auto simp: OctreePacketData_changeSettings_def OctreePacketData_reset_def QByteArray_resize_def simp flip: p1)
  obtain p2 where p2: "p1\<lparr>opd_bytesOfOctalCodesCurrentSubTree := cnt_octalCodes (opd_bytesOf p1)\<rparr> = p2" by blast
  have l2: "opd_inv p2" "opd_content p2 = []" "opd_bytesAvailable p2 = int n" "opd_frame p2 = opd_frame p1"
    using l1 by (simp_all add: opd_abs_def opd_inv_def opd_content_def opd_frame_def flip: p2)
  obtain p3 cs where p3: "OctreePacketData_append [1, 0] p2 = Some (True, p3)" "opd_appended p2 [1, 0] p3"
    by (rule appendsE [OF appends_append [of "[1, 0]"] l2(1)]) (use assms l2(3) in auto)
  have c: "numberOfThreeBitSectionsInCode [1, 0, 0, 0, 0] UNKNOWN_OCTCODE_LENGTH = Some 1" "bytesRequiredForCodeLength (word_of_int 1) = 2"
    "mem_read [1, 0, 0, 0, 0 :: byte] 0 2 = Some [1, 0]"
    by (simp_all add: numberOfThreeBitSectionsInCode.simps UNKNOWN_OCTCODE_LENGTH_def OVERFLOWED_OCTCODE_BUFFER_def
        bytesRequiredForCodeLength_def mem_read_def)
  obtain p where p: "p = p3\<lparr>opd_subTreeAt := opd_bytesInUse p2, opd_subTreeBytesReserved := opd_bytesReserved p3,
      opd_bytesOf := (opd_bytesOf p3)\<lparr>cnt_octalCodes := cnt_octalCodes (opd_bytesOf p3) + 2\<rparr>,
      opd_totalBytesOf := (opd_totalBytesOf p3)\<lparr>cnt_octalCodes := cnt_octalCodes (opd_totalBytesOf p3) + 2\<rparr>\<rparr>" by blast
  have "OctreePacketData_startSubTree (Some [1, 0, 0, 0, 0]) p1 = Some (True, p)"
    unfolding OctreePacketData_startSubTree_def Let_def option.case c Option.bind.bind_lunit p2 p3(1) prod.case by (simp add: p)
  moreover have "opd_inv p" "opd_content p = [1, 0]" "opd_bytesAvailable p = int n - 2" "\<not> opd_enableCompression p"
      "length (opd_uncompressed p) = n"
    using p3(2) l2 f1 by (simp_all add: p opd_appended_def opd_inv_def opd_content_def opd_frame_def)
  ultimately show ?thesis unfolding p1 by blast
qed

definition edit_room :: "int \<Rightarrow> uuid \<Rightarrow> entity_properties \<Rightarrow> nat \<Rightarrow> int" where
  "edit_room lastItem entityID props n =
     int n - 2 - int (length (edit_header entityID props) + (nat lastItem div 7 + 1))"

definition edit_chosen ::
  "(quat \<Rightarrow> quat) \<Rightarrow> int \<Rightarrow> uuid \<Rightarrow> entity_properties \<Rightarrow> nat \<Rightarrow> property_flags \<Rightarrow> (int \<times> octree_value) list" where
  "edit_chosen nz lastItem entityID props n R =
     (if edit_room lastItem entityID props n < 0 then []
      else edit_sent nz (edit_room lastItem entityID props n) (edit_requested R (ep_items props)))"

lemma assign_flags_laws:
  "pf_inv p \<Longrightarrow> pf_inv q \<Longrightarrow> pf_inv (PropertyFlags_assign p q) \<and> pf_set (PropertyFlags_assign p q) = pf_set p"
  by (simp add: pf_inv_def PropertyFlags_assign_def pf_set_def)

text \<open>The finalized buffer of a packet without compression.\<close>

lemma edit_finalize:
  assumes "opd_inv p" "\<not> opd_enableCompression p"
  shows "OctreePacketData_getFinalizedData qc (OctreePacketData_endSubTree p) = Some (opd_uncompressed p, OctreePacketData_endSubTree p)
    \<and> OctreePacketData_getFinalizedSize qc (OctreePacketData_endSubTree p) = Some (opd_bytesInUse p, OctreePacketData_endSubTree p)
    \<and> mem_read (opd_uncompressed p) 0 (nat (opd_bytesInUse p)) = Some (opd_content p)
    \<and> opd_bytesInUse p \<le> int (length (opd_uncompressed p))"
  using assms by (auto simp: OctreePacketData_getFinalizedData_def OctreePacketData_getFinalizedSize_def OctreePacketData_endSubTree_def
      mem_read_def opd_content_def opd_inv_def)

text \<open>The whole function: which properties it chooses, what the buffer holds then, and what it reports.\<close>

lemma encode_law:
  assumes R: "pf_inv R" and D: "pf_inv D" and l: "0 \<le> lastItem" and items: "edit_items_ok nz lastItem (ep_items props)"
    and n: "2 \<le> length buffer" and chosen: "edit_chosen nz lastItem entityID props (length buffer) R = sent"
  shows "\<exists>F didnt. encodeEntityEditPacket nz fresh p0 lastItem entityID props buffer R D
      = Some (if sent = [] then NONE else if sent = edit_requested R (ep_items props) then COMPLETED else PARTIAL,
          [1, 0] @ (if sent = [] then [] else edit_header entityID props @ F @ edit_bytes nz sent), didnt)
    \<and> (sent \<noteq> [] \<longrightarrow> (\<forall>rest q. \<exists>q'. PropertyFlags_decode (F @ rest) q = Some (length F, q') \<and> pf_inv q' \<and> pf_set q' = fst ` set sent
          \<and> pf_encodedLength q' = int (length F)))
    \<and> length ([1, 0] @ (if sent = [] then [] else edit_header entityID props @ F @ edit_bytes nz sent)) \<le> length buffer
    \<and> pf_inv didnt \<and> (sent = [] \<or> sent \<noteq> edit_requested R (ep_items props) \<longrightarrow> pf_set didnt = pf_set R - fst ` set sent)"
proof -
  let ?n = "length buffer" and ?H = "edit_header entityID props" and ?items = "ep_items props"
  obtain p where p: "OctreePacketData_startSubTree (Some [1, 0, 0, 0, 0]) (OctreePacketData_changeSettings fresh False ?n p0) = Some (True, p)"
      "opd_inv p" "opd_content p = [1, 0]" "opd_bytesAvailable p = int ?n - 2" "\<not> opd_enableCompression p" "length (opd_uncompressed p) = ?n"
    using edit_packet_start [OF n] by blast
  obtain off F0 f0 q cs where h: "append_edit_header lastItem entityID props p
        = Some (length ?H + length F0 \<le> opd_bytesAvailable p, off, F0, f0, q)"
      "opd_appended p cs q" "pf_inv f0" "pf_set f0 = {lastItem}" "length F0 = nat lastItem div 7 + 1"
      "length ?H + length F0 \<le> opd_bytesAvailable p \<longrightarrow> cs = ?H @ F0 \<and> off = opd_bytesInUse p + int (length ?H)"
    using append_edit_header_law [OF p(2) l] by blast
  have use: "opd_bytesInUse p = 2" using length_opd_content [OF p(2)] p(3) by simp
  obtain fits where fits: "length ?H + length F0 \<le> opd_bytesAvailable p \<longleftrightarrow> fits" by blast
  have room: "fits \<longleftrightarrow> 0 \<le> edit_room lastItem entityID props ?n" using fits h(5) p(4) by (auto simp: edit_room_def)
  obtain f1 where f1: "PropertyFlags_sub_assign_flag lastItem f0 = Some f1" "pf_inv f1" "pf_set f1 = {}"
    using sub_flag_laws [OF h(3) l] h(4) by auto
  let ?st = "\<lambda>f. \<lparr>ea_packet = q, ea_flags = f, ea_didntFit = PropertyFlags_copy R, ea_count = 0, ea_state = COMPLETED\<rparr>"
  have "list_all (\<lambda>x. 0 \<le> fst x \<and> value_ok nz (snd x)) ?items" using items by (auto simp: edit_items_ok_def list_all_iff)
  then obtain st' where st': "append_properties nz R ?items (?st f1) = Some st'"
      "edit_step nz R ?items (edit_sent nz (opd_bytesAvailable q) (edit_requested R ?items)) (?st f1) st'"
    using append_properties_law [OF R, of "?st f1" nz ?items] appended_content(2) [OF h(2)] f1(2) R by auto
  have roomq: "opd_bytesAvailable q = edit_room lastItem entityID props ?n" if fits
    using that h(5,6) fits appended_content(3) [OF h(2)] p(4) by (simp add: edit_room_def)
  have sent: "sent = (if fits then edit_sent nz (opd_bytesAvailable q) (edit_requested R ?items) else [])"
    using chosen room roomq by (auto simp: edit_chosen_def)
  obtain st where st: "(if fits then append_properties nz R ?items (?st f1) else Some (?st f0)) = Some st"
      "opd_appended q (edit_bytes nz sent) (ea_packet st)" "ea_count st = length sent" "pf_inv (ea_flags st)"
      "sent \<noteq> [] \<longrightarrow> pf_set (ea_flags st) = fst ` set sent" "pf_inv (ea_didntFit st)"
      "pf_set (ea_didntFit st) = pf_set R - fst ` set sent"
      "sent \<noteq> [] \<longrightarrow> ea_state st = (if sent = edit_requested R ?items then COMPLETED else PARTIAL)"
  proof (cases fits)
    case True
    then show ?thesis using that [of st'] st'(1) st'(2) [unfolded edit_step_def] sent f1(3) by simp
  next
    case False
    then show ?thesis
      using that [of "?st f0"] sent h(3) R appended_refl [OF appended_content(2) [OF h(2)]] by (simp add: edit_bytes_def)
  qed
  have app: "opd_appended p (cs @ edit_bytes nz sent) (ea_packet st)" by (rule appended_trans [OF h(2) st(2)])
  have start: "opd_bytesInUse q = opd_bytesInUse p + int (length cs)" by (rule appended_inUse [OF p(2) h(2)])
  obtain r where r: "(if ea_count st > 0
        then do { p \<leftarrow> rewrite_edit_flags off (length F0) (opd_bytesInUse q) (ea_flags st) (ea_packet st); Some (ea_state st, p) }
        else Some (NONE, OctreePacketData_discardLevel (OctreePacketData_startLevel p) (ea_packet st)))
      = Some (if sent = [] then NONE else if sent = edit_requested R ?items then COMPLETED else PARTIAL, r)"
      "opd_inv r" "opd_frame r = opd_frame p"
    and r': "\<exists>F. opd_content r = [1, 0] @ (if sent = [] then [] else ?H @ F @ edit_bytes nz sent)
      \<and> (sent \<noteq> [] \<longrightarrow> (\<forall>rest q. \<exists>q'. PropertyFlags_decode (F @ rest) q = Some (length F, q') \<and> pf_inv q' \<and> pf_set q' = fst ` set sent
          \<and> pf_encodedLength q' = int (length F)))"
  proof (cases "sent = []")
    case True
    have "opd_appended p [] (OctreePacketData_discardLevel (OctreePacketData_startLevel p) (ea_packet st))"
      by (rule discard_appended [OF p(2) app])
    then show ?thesis using that True st(3) p(3) by (simp add: opd_appended_def)
  next
    case False
    then have hf: "cs = ?H @ F0" "off = int (length ([1, 0 :: byte] @ ?H))" using sent h(6) fits use by (auto split: if_splits)
    have fl: "pf_set (ea_flags st) = fst ` set sent" "pf_set (ea_flags st) \<noteq> {}" using st(5) False by auto
    obtain F f2 where F: "PropertyFlags_encode (ea_flags st) = Some (F, f2)"
        "length F = nat (PropertyFlags_lastFlag (ea_flags st)) div 7 + 1"
        "\<forall>rest q. \<exists>q'. PropertyFlags_decode (F @ rest) q = Some (length F, q') \<and> pf_inv q' \<and> pf_set q' = fst ` set sent
          \<and> pf_encodedLength q' = int (length F)"
      using encode_flags_laws [OF st(4)] fl by auto
    have "set sent \<subseteq> set ?items"
      using edit_sent_sub(1) [of nz "opd_bytesAvailable q" "edit_requested R ?items"] sent by (auto split: if_splits)
    then have "\<forall>f \<in> pf_set (ea_flags st). f \<le> lastItem" using items fl(1) by (auto simp: edit_items_ok_def list_all_iff)
    then have "PropertyFlags_lastFlag (ea_flags st) \<le> lastItem" by (rule pf_last_le [OF st(4) fl(2)])
    then have "length F \<le> length F0" unfolding F(2) h(5) by (simp add: div_le_mono nat_mono)
    moreover have "opd_content (ea_packet st) = ([1, 0] @ ?H) @ F0 @ edit_bytes nz sent"
      using appended_content(1) [OF app] p(3) hf(1) by simp
    moreover have "opd_bytesInUse q = int (length ([1, 0 :: byte] @ ?H)) + int (length F0)" using start use hf(1) by simp
    ultimately obtain r where r: "rewrite_edit_flags off (length F0) (opd_bytesInUse q) (ea_flags st) (ea_packet st) = Some r"
        "opd_inv r" "opd_content r = ([1, 0] @ ?H) @ F @ edit_bytes nz sent" "opd_frame r = opd_frame (ea_packet st)"
      using rewrite_edit_flags_law [OF appended_content(2) [OF app] _ F(1)] unfolding hf(2) by metis
    have "opd_frame r = opd_frame p" using r(4) app by (simp add: opd_appended_def)
    moreover have "\<exists>F. opd_content r = [1, 0] @ (if sent = [] then [] else ?H @ F @ edit_bytes nz sent)
      \<and> (sent \<noteq> [] \<longrightarrow> (\<forall>rest q. \<exists>q'. PropertyFlags_decode (F @ rest) q = Some (length F, q') \<and> pf_inv q' \<and> pf_set q' = fst ` set sent
          \<and> pf_encodedLength q' = int (length F)))"
      using r(3) F(3) False by (intro exI [of _ F]) simp
    ultimately show ?thesis using that [of r] r(1,2) st(3,8) False by simp
  qed
  have e: "\<not> opd_enableCompression r" "length (opd_uncompressed r) = ?n" using r(3) p(5,6) by (simp_all add: opd_frame_def)
  note z = edit_finalize [OF r(2) e(1), of "\<lambda>bs. bs"]
  obtain S where S: "(if sent = [] then NONE else if sent = edit_requested R ?items then COMPLETED else PARTIAL) = S" by blast
  let ?didnt = "if S \<noteq> COMPLETED then PropertyFlags_assign (ea_didntFit st) D else D"
  have enc: "encodeEntityEditPacket nz fresh p0 lastItem entityID props buffer R D = Some (S, opd_content r, ?didnt)"
    unfolding encodeEntityEditPacket_def Let_def edit_octcode Option.bind.bind_lunit p(1) prod.case not_True_eq_False if_False
      h(1) fits f1(1) OctreePacketData_getUncompressedByteOffset_def diff_zero st(1) r(1) S
    using z e(2) by simp
  have complete: "S \<noteq> COMPLETED \<longleftrightarrow> sent = [] \<or> sent \<noteq> edit_requested R ?items" using S by (auto split: if_splits)
  obtain F where F: "[1, 0] @ (if sent = [] then [] else ?H @ F @ edit_bytes nz sent) = opd_content r"
      "sent \<noteq> [] \<longrightarrow> (\<forall>rest q. \<exists>q'. PropertyFlags_decode (F @ rest) q = Some (length F, q') \<and> pf_inv q' \<and> pf_set q' = fst ` set sent
          \<and> pf_encodedLength q' = int (length F))"
    using r' by metis
  have "length (opd_content r) \<le> ?n" using z length_opd_content [OF r(2)] e(2) by simp
  moreover have "pf_inv ?didnt \<and> (S \<noteq> COMPLETED \<longrightarrow> pf_set ?didnt = pf_set R - fst ` set sent)"
    using assign_flags_laws [OF st(6) D] st(7) D by simp
  moreover obtain didnt where "?didnt = didnt" by blast
  ultimately have "encodeEntityEditPacket nz fresh p0 lastItem entityID props buffer R D = Some (S, opd_content r, didnt)"
      "length (opd_content r) \<le> ?n" "pf_inv didnt" "S \<noteq> COMPLETED \<longrightarrow> pf_set didnt = pf_set R - fst ` set sent"
    using enc by auto
  with F(2) show ?thesis
    unfolding S complete [symmetric] by (intro exI [of _ F] exI [of _ didnt], unfold F(1)) blast
qed

section \<open>Reading an edit back\<close>

lemma read_coded_law:
  assumes "bytesLeft = int (length (ByteCountCoded_encode v @ rest))"
  shows "read_coded (ByteCountCoded_encode (v :: 'a :: len word) @ rest @ behind) bytesLeft = Some (v, length (ByteCountCoded_encode v))"
proof -
  have "mem_read (ByteCountCoded_encode v @ rest @ behind) 0 (nat bytesLeft) = Some (ByteCountCoded_encode v @ rest)"
    using assms by (simp add: mem_read_def)
  then show ?thesis using assms ByteCountCoded_roundtrip [of v rest] by (simp add: read_coded_def)
qed

lemma edit_bytes_simps [simp]: "edit_bytes nz [] = []" "edit_bytes nz ((f, v) # items) = value_bytes nz v @ edit_bytes nz items"
  by (simp_all add: edit_bytes_def)

lemma read_properties_law:
  assumes "pf_inv flags"
  shows "list_all (\<lambda>x. 0 \<le> fst x) types \<Longrightarrow> filter (\<lambda>x. fst x \<in> pf_set flags) types = map (apsnd octree_type_of) sent
    \<Longrightarrow> list_all (\<lambda>x. value_ok nz (snd x)) sent
    \<Longrightarrow> read_properties flags types (edit_bytes nz sent @ behind, n, props)
      = Some (behind, n + int (length (edit_bytes nz sent)),
          props\<lparr>ep_items := ep_items props @ map (apsnd (value_canon nz)) sent\<rparr>)"
proof (induction types arbitrary: sent n props)
  case (Cons x types)
  obtain f t where x: "x = (f, t)" by (cases x)
  have g: "PropertyFlags_getHasProperty f flags = Some (f \<in> pf_set flags)"
    using getHasProperty_set [OF assms] Cons.prems(1) by (simp add: x)
  show ?case
  proof (cases "f \<in> pf_set flags")
    case False
    then show ?thesis using Cons.IH Cons.prems g by (simp add: x READ_ENTITY_PROPERTY_TO_PROPERTIES_def)
  next
    case True
    then obtain v sent' where s: "sent = (f, v) # sent'" "t = octree_type_of v"
        "filter (\<lambda>x. fst x \<in> pf_set flags) types = map (apsnd octree_type_of) sent'"
      using Cons.prems(2) by (cases sent) (auto simp: x)
    have u: "unpackValue t (value_bytes nz v @ edit_bytes nz sent' @ behind) = Some (value_canon nz v, length (value_bytes nz v))"
      using unpackValue_law [of nz v] Cons.prems(3) by (simp add: s)
    show ?thesis
      using Cons.IH [of sent' "n + int (length (value_bytes nz v))" "props\<lparr>ep_items := ep_items props @ [(f, value_canon nz v)]\<rparr>"]
        True g u Cons.prems(1,3) s(3) by (simp add: x s(1) READ_ENTITY_PROPERTY_TO_PROPERTIES_def)
  qed
qed (simp add: edit_bytes_def)

text \<open>The flags of the chosen properties pick them out of all.\<close>

lemma edit_sent_filter:
  "distinct (map fst items) \<Longrightarrow>
     filter (\<lambda>x. fst x \<in> fst ` set (edit_sent nz room items)) items = edit_sent nz room items"
proof (induction nz room items rule: edit_sent.induct)
  case (2 nz room f v items)
  have n: "f \<notin> fst ` set items" using "2.prems" by simp
  show ?case
  proof (cases "int (value_need nz v) \<le> room")
    case True
    obtain s where s: "edit_sent nz (room - int (length (value_bytes nz v))) items = s" by blast
    have "filter (\<lambda>x. fst x \<in> fst ` set ((f, v) # s)) items = filter (\<lambda>x. fst x \<in> fst ` set s) items"
      using n by (intro filter_cong) auto
    then show ?thesis using "2.IH"(1) [OF True] "2.prems" True s by simp
  next
    case False
    have "f \<notin> fst ` set (edit_sent nz room items)" using n edit_sent_sub(1) [of nz room items] by blast
    then show ?thesis using "2.IH"(2) [OF False] "2.prems" False by simp
  qed
qed simp

lemma edit_chosen_sub: "set (edit_chosen nz lastItem entityID props n R) \<subseteq> set (edit_requested R (ep_items props))"
  using edit_sent_sub(1) [of nz "edit_room lastItem entityID props n" "edit_requested R (ep_items props)"]
  by (simp add: edit_chosen_def)

lemma edit_chosen_filter:
  assumes "distinct (map fst (ep_items props))"
  shows "filter (\<lambda>x. fst x \<in> fst ` set (edit_chosen nz lastItem entityID props n R)) (ep_items props)
    = edit_chosen nz lastItem entityID props n R"
proof -
  let ?s = "edit_chosen nz lastItem entityID props n R" and ?q = "edit_requested R (ep_items props)"
  have "filter (\<lambda>x. fst x \<in> fst ` set ?s) (ep_items props) = filter (\<lambda>x. fst x \<in> fst ` set ?s) ?q"
    unfolding filter_filter by (rule filter_cong) (use edit_chosen_sub [of nz lastItem entityID props n R] in auto)
  also have "\<dots> = ?s"
  proof (cases "edit_room lastItem entityID props n < 0")
    case False
    have "distinct (map fst ?q)" using assms by (rule distinct_map_filter)
    then show ?thesis using edit_sent_filter [of ?q nz] False by (simp add: edit_chosen_def)
  qed (simp add: edit_chosen_def)
  finally show ?thesis .
qed

lemma decode_law:
  assumes F: "\<forall>rest q. \<exists>q'. PropertyFlags_decode (F @ rest) q = Some (length F, q') \<and> pf_inv q' \<and> pf_set q' = fst ` set sent
          \<and> pf_encodedLength q' = int (length F)"
    and t: "list_all (\<lambda>x. 0 \<le> fst x) types" "filter (\<lambda>x. fst x \<in> fst ` set sent) types = map (apsnd octree_type_of) sent"
    and v: "list_all (\<lambda>x. value_ok nz (snd x)) sent" and c: "ep_created target \<le> ep_lastEdited props"
    and out: "out = [1, 0] @ edit_header entityID props @ F @ edit_bytes nz sent"
  shows "decodeEntityEditPacket types (out @ behind) (int (length out)) target
    = Some (True, int (length out), entityID, target\<lparr>ep_lastEdited := ep_lastEdited props, ep_type := ep_type props,
        ep_items := ep_items target @ map (apsnd (value_canon nz)) sent\<rparr>)"
proof -
  obtain T where T: "ByteCountCoded_encode (ep_type props) = T" by blast
  obtain U where U: "ByteCountCoded_encode (0 :: 64 word) = U" by blast
  obtain B where B: "edit_bytes nz sent = B" by blast
  have len: "int (length out) = 26 + int (length T) + int (length U) + int (length F) + int (length B)"
    by (simp add: out edit_header_def T U B)
  have o: "numberOfThreeBitSectionsInCode (out @ behind) UNKNOWN_OCTCODE_LENGTH = Some 1" "bytesRequiredForCodeLength (word_of_int 1) = 2"
    "drop 2 (out @ behind) = le64 (ep_lastEdited props) @ toRfc4122 entityID @ T @ U @ F @ B @ behind"
    by (simp_all add: out numberOfThreeBitSectionsInCode.simps UNKNOWN_OCTCODE_LENGTH_def OVERFLOWED_OCTCODE_BUFFER_def
        bytesRequiredForCodeLength_def edit_header_def T U B)
  have led: "EntityItemProperties_setLastEdited (ep_lastEdited props) target = target\<lparr>ep_lastEdited := ep_lastEdited props\<rparr>"
    using c by (auto simp: EntityItemProperties_setLastEdited_def)
  have m: "mem_read (le64 x @ zs) 0 8 = Some (le64 x)" "drop 8 (le64 x @ zs) = zs"
      "mem_read (toRfc4122 u @ zs) 0 16 = Some (toRfc4122 u)" "drop 16 (toRfc4122 u @ zs) = zs" "un_le64 (le64 x) = x"
    for x zs u by (simp_all add: mem_read_def)
  have r1: "read_coded (T @ U @ F @ B @ behind) (int (length out) - 26) = Some (ep_type props, length T)"
    using read_coded_law [of "int (length out) - 26" "ep_type props" "U @ F @ B" behind] by (simp add: T len)
  have r2: "read_coded (U @ F @ B @ behind) (int (length out) - (26 + int (length T))) = Some (0 :: 64 word, length U)"
    using read_coded_law [of "int (length out) - (26 + int (length T))" "0 :: 64 word" "F @ B" behind] by (simp add: U len)
  have le: "\<not> int (length out) < 26 + int (length T) + int (length U)" using len by simp
  have r3: "mem_read (F @ B @ behind) 0 (nat (int (length out) - (26 + int (length T) + int (length U)))) = Some (F @ B)"
    by (simp add: len mem_read_def nat_add_distrib)
  obtain q where q: "PropertyFlags_of_bytes (F @ B) = Some q" "pf_inv q" "pf_set q = fst ` set sent" "nat (pf_encodedLength q) = length F"
    using F [rule_format, of B PropertyFlags_new] by (auto simp: PropertyFlags_of_bytes_def)
  obtain props1 where props1: "target\<lparr>ep_lastEdited := ep_lastEdited props\<rparr>\<lparr>ep_type := ep_type props\<rparr> = props1" by blast
  have r4: "read_properties q types (B @ behind, int (length out) - int (length B), props1)
      = Some (behind, int (length out), props1\<lparr>ep_items := ep_items props1 @ map (apsnd (value_canon nz)) sent\<rparr>)"
    using read_properties_law [OF q(2) t(1) _ v, of behind "int (length out) - int (length B)" props1] t(2) by (simp add: q(3) B)
  have drop_code: "drop (length xs) (xs @ ys) = ys" for xs ys :: "byte list" by simp
  have n: "int 2 + 8 + 16 = 26" "26 + int (length T) + int (length U) + int (length F) = int (length out) - int (length B)"
    using len by simp_all
  show ?thesis
    unfolding decodeEntityEditPacket_def Let_def o m Option.bind.bind_lunit led fromRfc4122_toRfc4122 n(1) r1 prod.case
      drop_code r2 if_not_P [OF le] r3 q(1,4) n(2) props1 r4
    by (simp flip: props1)
qed

lemma edit_law:
  assumes R: "pf_inv R" and D: "pf_inv D" and l: "0 \<le> lastItem" and items: "edit_items_ok nz lastItem (ep_items props)"
    and n: "2 \<le> length buffer" and c: "ep_created target \<le> ep_lastEdited props"
  shows "\<exists>out didnt sent. encodeEntityEditPacket nz fresh p0 lastItem entityID props buffer R D
      = Some (if sent = [] then NONE else if sent = edit_requested R (ep_items props) then COMPLETED else PARTIAL, out, didnt)
    \<and> sent = edit_chosen nz lastItem entityID props (length buffer) R \<and> length out \<le> length buffer \<and> pf_inv didnt
    \<and> (sent = [] \<or> sent \<noteq> edit_requested R (ep_items props) \<longrightarrow> pf_set didnt = pf_set R - fst ` set sent)
    \<and> (sent = [] \<longrightarrow> out = [1, 0])
    \<and> (sent \<noteq> [] \<longrightarrow> decodeEntityEditPacket (map (apsnd octree_type_of) (ep_items props)) (out @ behind) (int (length out)) target
        = Some (True, int (length out), entityID, target\<lparr>ep_lastEdited := ep_lastEdited props, ep_type := ep_type props,
            ep_items := ep_items target @ map (apsnd (value_canon nz)) sent\<rparr>))"
proof -
  let ?items = "ep_items props" and ?types = "map (apsnd octree_type_of) (ep_items props)"
  obtain sent where s: "edit_chosen nz lastItem entityID props (length buffer) R = sent" by blast
  obtain F didnt where e: "encodeEntityEditPacket nz fresh p0 lastItem entityID props buffer R D
      = Some (if sent = [] then NONE else if sent = edit_requested R ?items then COMPLETED else PARTIAL,
          [1, 0] @ (if sent = [] then [] else edit_header entityID props @ F @ edit_bytes nz sent), didnt)"
    "sent \<noteq> [] \<longrightarrow> (\<forall>rest q. \<exists>q'. PropertyFlags_decode (F @ rest) q = Some (length F, q') \<and> pf_inv q' \<and> pf_set q' = fst ` set sent
          \<and> pf_encodedLength q' = int (length F))"
    "length ([1, 0] @ (if sent = [] then [] else edit_header entityID props @ F @ edit_bytes nz sent)) \<le> length buffer"
    "pf_inv didnt" "sent = [] \<or> sent \<noteq> edit_requested R ?items \<longrightarrow> pf_set didnt = pf_set R - fst ` set sent"
    using encode_law [OF R D l items n s, of fresh p0] by blast
  have ok: "list_all (\<lambda>x. 0 \<le> fst x \<and> fst x \<le> lastItem \<and> value_ok nz (snd x)) ?items" "distinct (map fst ?items)"
    using items by (simp_all add: edit_items_ok_def)
  have sub: "set sent \<subseteq> set ?items" using edit_chosen_sub [of nz lastItem entityID props "length buffer" R] s by auto
  have t: "list_all (\<lambda>x. 0 \<le> fst x) ?types" "list_all (\<lambda>x. value_ok nz (snd x)) sent"
    using ok(1) sub by (auto simp: list_all_iff)
  have "filter (\<lambda>x. fst x \<in> fst ` set sent) ?items = sent" using edit_chosen_filter [OF ok(2)] s by blast
  then have f: "filter (\<lambda>x. fst x \<in> fst ` set sent) ?types = map (apsnd octree_type_of) sent"
    unfolding filter_map comp_def fst_apsnd by simp
  obtain out where out: "[1, 0] @ (if sent = [] then [] else edit_header entityID props @ F @ edit_bytes nz sent) = out" by blast
  have "decodeEntityEditPacket ?types (out @ behind) (int (length out)) target
        = Some (True, int (length out), entityID, target\<lparr>ep_lastEdited := ep_lastEdited props, ep_type := ep_type props,
            ep_items := ep_items target @ map (apsnd (value_canon nz)) sent\<rparr>)" if "sent \<noteq> []"
    using decode_law [OF mp [OF e(2) that] t(1) f t(2) c, where out = out and behind = behind] out that by auto
  then show ?thesis
    using e(1,3,4,5) s out by (intro exI [of _ out] exI [of _ didnt] exI [of _ sent]) auto
qed

text \<open>
  C16. An edit whose values are within the sizes the encoding can count (\<open>edit_items_ok\<close>) survives its packet. From any
  buffer that holds the octal code, \<open>encodeEntityEditPacket\<close> sends the requested properties in order, each one that still
  fits behind those before it, stays inside the buffer, and reports \<open>COMPLETED\<close> when all were sent, \<open>PARTIAL\<close> when some
  were, and \<open>NONE\<close>, leaving only the octal code, when none was. What did not fit is what was requested and not sent. A
  receiver that reads the same properties into an entity that was not created after the edit time then decodes the
  identifier, the edit time, the type and exactly the properties sent (quaternions normalized and rounded), and processes
  the message to its end, whatever memory lies behind it.
  The sizes are a condition, which the code does not check: strings, byte arrays and vectors have fewer than 65536
  elements; a set of strings has distinct members of fewer than 65536 bytes in all; a vector of quaternions takes at
  most \<open>MAX_PACKET_SIZE\<close> bytes at 8 each, a vector of booleans at 8 to a byte; the components of a quaternion lie in
  [-1, 1] once normalized. Outside it the code is wrong: longer strings are sent truncated
  (\<open>oversized_strings_wrap\<close>), and more quaternions overrun the packing array. Every property has its own flag in the
  range of flags. "Fits" is by the code's own test, which for a colour asks for 4 bytes of room.
\<close>

theorem EntityEdit_roundtrip:
  assumes "pf_inv R" "pf_inv D" "0 \<le> lastItem" "edit_items_ok nz lastItem (ep_items props)" "2 \<le> length buffer"
    and "ep_created target \<le> ep_lastEdited props"
  shows "\<exists>out didnt sent. encodeEntityEditPacket nz fresh p0 lastItem entityID props buffer R D
      = Some (if sent = [] then NONE else if sent = edit_requested R (ep_items props) then COMPLETED else PARTIAL, out, didnt)
    \<and> sent = edit_chosen nz lastItem entityID props (length buffer) R \<and> length out \<le> length buffer
    \<and> (sent = [] \<or> sent \<noteq> edit_requested R (ep_items props) \<longrightarrow> pf_set didnt = pf_set R - fst ` set sent)
    \<and> (sent = [] \<longrightarrow> out = [1, 0])
    \<and> (sent \<noteq> [] \<longrightarrow> decodeEntityEditPacket (map (apsnd octree_type_of) (ep_items props)) (out @ behind) (int (length out)) target
        = Some (True, int (length out), entityID, target\<lparr>ep_lastEdited := ep_lastEdited props, ep_type := ep_type props,
            ep_items := ep_items target @ map (apsnd (value_canon nz)) sent\<rparr>))"
  using edit_law [OF assms] by blast

theorem EntityEdit_roundtrip_witness:
  "\<forall>p0. \<exists>R out didnt. pf_set R = {2, 5}
    \<and> encodeEntityEditPacket id (\<lambda>_. 0) p0 9 77 \<lparr>ep_created = 0, ep_lastEdited = 1000, ep_type = 4,
         ep_items = [(2, VU16 7), (3, VBool True), (5, VString [72, 105])]\<rparr> (replicate 100 0) R PropertyFlags_new = Some (COMPLETED, out, didnt)
    \<and> decodeEntityEditPacket [(2, TU16), (3, TBool), (5, TString)] out (int (length out))
        \<lparr>ep_created = 0, ep_lastEdited = 0, ep_type = 0, ep_items = []\<rparr>
      = Some (True, int (length out), 77, \<lparr>ep_created = 0, ep_lastEdited = 1000, ep_type = 4,
          ep_items = [(2, VU16 7), (5, VString [72, 105])]\<rparr>)"
proof
  fix p0
  let ?props = "\<lparr>ep_created = 0, ep_lastEdited = 1000, ep_type = 4, ep_items = [(2, VU16 7), (3, VBool True), (5, VString [72, 105])]\<rparr>"
  obtain a where a: "pf_inv a" "pf_set a = {2}" using of_flag_laws [of 2] by auto
  obtain R where R: "pf_inv R" "pf_set R = {2, 5}" using or_flag_laws [OF a(1), of 5] a(2) by auto
  have "length (ByteCountCoded_encode (4 :: 32 word)) \<le> 32 div 7 + 1" "length (ByteCountCoded_encode (0 :: 64 word)) \<le> 64 div 7 + 1"
    using ByteCountCoded_roundtrip [of "4 :: 32 word" "[]"] ByteCountCoded_roundtrip [of "0 :: 64 word" "[]"] by simp_all
  then have "20 \<le> edit_room 9 77 ?props 100" by (simp add: edit_room_def edit_header_def)
  then have "edit_chosen id 9 77 ?props (length (replicate 100 (0 :: byte))) R = [(2, VU16 7), (5, VString [72, 105])]"
    by (simp add: edit_chosen_def R(2) string_bytes_def)
  then show "\<exists>R out didnt. pf_set R = {2, 5} \<and> encodeEntityEditPacket id (\<lambda>_. 0) p0 9 77 ?props (replicate 100 0) R PropertyFlags_new
        = Some (COMPLETED, out, didnt)
      \<and> decodeEntityEditPacket [(2, TU16), (3, TBool), (5, TString)] out (int (length out))
        \<lparr>ep_created = 0, ep_lastEdited = 0, ep_type = 0, ep_items = []\<rparr>
      = Some (True, int (length out), 77, \<lparr>ep_created = 0, ep_lastEdited = 1000, ep_type = 4,
          ep_items = [(2, VU16 7), (5, VString [72, 105])]\<rparr>)"
    using EntityEdit_roundtrip [OF R(1), of PropertyFlags_new 9 id ?props "replicate 100 0"
        "\<lparr>ep_created = 0, ep_lastEdited = 0, ep_type = 0, ep_items = []\<rparr>" "\<lambda>_. 0" p0 77 "[]"] pf_new_laws R(2)
    by (intro exI [of _ R]) (fastforce simp: edit_items_ok_def)
qed

section \<open>Spreading an edit over packets\<close>

text \<open>
  The loop of the sender: as long as the result is \<open>PARTIAL\<close>, what did not fit is requested again, as an edit, for a
  packet of its own. The result is the list of messages queued; \<open>None\<close> would be undefined behaviour or a
  loop that does not end.
\<close>

(* @src libraries/entities/src/EntityEditPacketSender.cpp 122-148 EntityEditPacketSender::queueEditEntityMessage, loop *)
partial_function (option) queue_edit_loop ::
  "(quat \<Rightarrow> quat) \<Rightarrow> (nat \<Rightarrow> byte) \<Rightarrow> octree_packet_data \<Rightarrow> int \<Rightarrow> uuid \<Rightarrow> entity_properties \<Rightarrow> packet_type \<Rightarrow> byte list
    \<Rightarrow> property_flags \<Rightarrow> property_flags \<Rightarrow> (packet_type \<times> byte list) list \<Rightarrow> (packet_type \<times> byte list) list option" where
  "queue_edit_loop glm_normalize fresh p0 lastItem entityID props type bufferOut requestedProperties didntFitProperties queued =
     do { (encodeResult, bufferOut, didntFitProperties) \<leftarrow>
            encodeEntityEditPacket glm_normalize fresh p0 lastItem entityID props bufferOut requestedProperties didntFitProperties;
          let queued = (if encodeResult = NONE then queued else queued @ [(type, bufferOut)]);
          let (type, requestedProperties) =
            (if encodeResult \<noteq> COMPLETED then (PT_EntityEdit, PropertyFlags_assign didntFitProperties requestedProperties)
             else (type, requestedProperties));
          let bufferOut = QByteArray_resize fresh (nat (NLPacket_maxPayloadSize type False)) bufferOut;
          if encodeResult = PARTIAL
          then queue_edit_loop glm_normalize fresh p0 lastItem entityID props type bufferOut requestedProperties didntFitProperties queued
          else Some queued }"

(* @src libraries/entities/src/EntityItem.h.in 75-79 entity::HostType *)
datatype host_type = DOMAIN_HOST | AVATAR_HOST | LOCAL_HOST

text \<open>
  The whole sender: entities of avatars are stored with the avatar, which is not modelled, and queue no message;
  \<open>changed\<close> is what \<open>getChangedProperties\<close> (generated) returns, and \<open>props\<close> has the parent already replaced.
\<close>

(* @src libraries/entities/src/EntityEditPacketSender.cpp 70-149 EntityEditPacketSender::queueEditEntityMessage *)
definition queueEditEntityMessage ::
  "(quat \<Rightarrow> quat) \<Rightarrow> (nat \<Rightarrow> byte) \<Rightarrow> octree_packet_data \<Rightarrow> int \<Rightarrow> int \<Rightarrow> host_type \<Rightarrow> bool \<Rightarrow> bool \<Rightarrow> packet_type \<Rightarrow> uuid
    \<Rightarrow> entity_properties \<Rightarrow> property_flags \<Rightarrow> (packet_type \<times> byte list) list option" where
  "queueEditEntityMessage glm_normalize fresh p0 lastItem PROP_PRIVATE_USER_DATA hostType isServerlessMode
      canGetAndSetPrivateUserData type entityID props changed =
     (if hostType = AVATAR_HOST \<or> hostType = LOCAL_HOST \<or> isServerlessMode then Some []
      else do { let bufferOut = replicate (nat (NLPacket_maxPayloadSize type False)) 0;
                let bufferOut = (if type = PT_EntityAdd
                  then QByteArray_resize fresh (nat (NLPacket_maxPayloadSize type False * 10)) bufferOut else bufferOut);
                private \<leftarrow> PropertyFlags_getHasProperty PROP_PRIVATE_USER_DATA changed;
                requestedProperties \<leftarrow> (if \<not> canGetAndSetPrivateUserData \<and> private
                  then PropertyFlags_sub_assign_flag PROP_PRIVATE_USER_DATA changed else Some changed);
                queue_edit_loop glm_normalize fresh p0 lastItem entityID props type bufferOut requestedProperties
                  PropertyFlags_new [] })"

text \<open>The decoded form of one message, and what a sequence of messages delivers.\<close>

definition edit_delivers ::
  "(quat \<Rightarrow> quat) \<Rightarrow> uuid \<Rightarrow> entity_properties \<Rightarrow> entity_properties \<Rightarrow> packet_type \<times> byte list \<Rightarrow> (int \<times> octree_value) list \<Rightarrow> bool" where
  "edit_delivers nz entityID props target m sent \<longleftrightarrow>
     decodeEntityEditPacket (map (apsnd octree_type_of) (ep_items props)) (snd m) (int (length (snd m))) target
       = Some (True, int (length (snd m)), entityID, target\<lparr>ep_lastEdited := ep_lastEdited props, ep_type := ep_type props,
            ep_items := ep_items target @ map (apsnd (value_canon nz)) sent\<rparr>)"

definition edit_payload :: nat where
  "edit_payload = nat (NLPacket_maxPayloadSize PT_EntityEdit False)"

lemma edit_payload_laws:
  "1000 \<le> edit_payload"
  "t \<in> {PT_EntityAdd, PT_EntityEdit, PT_EntityPhysics} \<Longrightarrow> NLPacket_maxPayloadSize t False = int edit_payload"
proof -
  have "NLPacket_localHeaderSize PT_EntityAdd = 20" "NLPacket_localHeaderSize PT_EntityEdit = 20" "NLPacket_localHeaderSize PT_EntityPhysics = 20"
    by (simp_all add: NLPacket_localHeaderSize_def getNonSourcedPackets_def getNonVerifiedPackets_def Let_def
      NUM_BYTES_LOCALID_def NUM_BYTES_MD5_HASH_def)
  moreover have "1020 \<le> Packet_maxPayloadSize False"
    by (simp add: Packet_maxPayloadSize_def BasePacket_maxPayloadSize_def Packet_localHeaderSize_def MAX_PACKET_SIZE_value base_packet.defs)
  ultimately show "1000 \<le> edit_payload"
    "t \<in> {PT_EntityAdd, PT_EntityEdit, PT_EntityPhysics} \<Longrightarrow> NLPacket_maxPayloadSize t False = int edit_payload"
    by (auto simp: edit_payload_def NLPacket_maxPayloadSize_def)
qed

lemma edit_sent_none: "edit_sent nz room items = [] \<Longrightarrow> x \<in> set items \<Longrightarrow> room < int (value_need nz (snd x))"
  by (induction nz room items rule: edit_sent.induct) (auto split: if_splits)

lemma edit_chosen_none:
  assumes "edit_chosen nz lastItem entityID props n R = []" "m \<le> n" "x \<in> set (edit_requested R (ep_items props))"
  shows "edit_room lastItem entityID props m < int (value_need nz (snd x))"
proof -
  have "edit_room lastItem entityID props m \<le> edit_room lastItem entityID props n" using assms(2) by (simp add: edit_room_def)
  also have "\<dots> < int (value_need nz (snd x))"
  proof (cases "edit_room lastItem entityID props n < 0")
    case False
    then show ?thesis using assms(1,3) edit_sent_none [of nz "edit_room lastItem entityID props n"] by (simp add: edit_chosen_def)
  qed simp
  finally show ?thesis .
qed

lemma edit_chosen_distinct:
  assumes "distinct (map fst (ep_items props))"
  shows "distinct (map fst (edit_chosen nz lastItem entityID props n R))"
  using distinct_map_filter [OF assms] by (subst edit_chosen_filter [OF assms, symmetric]) blast

lemma length_resize_bytes [simp]: "length (QByteArray_resize fresh n bs) = n"
  by (simp add: QByteArray_resize_def)

lemma queue_edit_loop_law:
  assumes l: "0 \<le> lastItem" and items: "edit_items_ok nz lastItem (ep_items props)" and c: "ep_created target \<le> ep_lastEdited props"
  shows "length (edit_requested R (ep_items props)) \<le> k \<Longrightarrow> pf_inv R \<Longrightarrow> pf_inv D \<Longrightarrow> edit_payload \<le> length buffer
    \<Longrightarrow> \<exists>msgs sents. queue_edit_loop nz fresh p0 lastItem entityID props type buffer R D queued = Some (queued @ msgs)
      \<and> list_all2 (edit_delivers nz entityID props target) msgs sents \<and> [] \<notin> set sents
      \<and> (\<forall>m \<in> set (tl msgs). fst m = PT_EntityEdit) \<and> (\<forall>m ms. msgs = m # ms \<longrightarrow> fst m = type)
      \<and> distinct (map fst (concat sents)) \<and> set (concat sents) \<subseteq> set (edit_requested R (ep_items props))
      \<and> (\<forall>x \<in> set (edit_requested R (ep_items props)) - set (concat sents).
           edit_room lastItem entityID props edit_payload < int (value_need nz (snd x)))"
proof (induction k arbitrary: R D buffer type queued rule: less_induct)
  case (less k)
  let ?items = "ep_items props" and ?req = "\<lambda>R. edit_requested R (ep_items props)"
  have n: "2 \<le> length buffer" using less.prems(4) edit_payload_laws(1) by linarith
  obtain sent where s: "edit_chosen nz lastItem entityID props (length buffer) R = sent" by blast
  obtain out didnt where e: "encodeEntityEditPacket nz fresh p0 lastItem entityID props buffer R D
      = Some (if sent = [] then NONE else if sent = ?req R then COMPLETED else PARTIAL, out, didnt)" "pf_inv didnt"
    "sent = [] \<or> sent \<noteq> ?req R \<longrightarrow> pf_set didnt = pf_set R - fst ` set sent"
    "sent \<noteq> [] \<longrightarrow> edit_delivers nz entityID props target (type, out) sent"
    using edit_law [OF less.prems(2,3) l items n c, of fresh p0 entityID "[]"] s by (auto simp: edit_delivers_def)
  have dis: "distinct (map fst ?items)" using items by (simp add: edit_items_ok_def)
  have sub: "set sent \<subseteq> set (?req R)" using edit_chosen_sub s by metis
  have ds: "distinct (map fst sent)" using edit_chosen_distinct [OF dis] s by metis
  consider (none) "sent = []" | (all) "sent \<noteq> []" "sent = ?req R" | (some) "sent \<noteq> []" "sent \<noteq> ?req R" by blast
  then show ?case
  proof cases
    case none
    have "queue_edit_loop nz fresh p0 lastItem entityID props type buffer R D queued = Some queued"
      by (subst queue_edit_loop.simps) (simp add: e(1) none Let_def)
    moreover have "\<forall>x \<in> set (?req R). edit_room lastItem entityID props edit_payload < int (value_need nz (snd x))"
      using edit_chosen_none [OF _ less.prems(4)] s none by blast
    ultimately show ?thesis by (intro exI [of _ "[]"]) simp
  next
    case all
    have "queue_edit_loop nz fresh p0 lastItem entityID props type buffer R D queued = Some (queued @ [(type, out)])"
      by (subst queue_edit_loop.simps) (simp add: e(1) all(1) Let_def flip: all(2))
    then show ?thesis using e(4) all ds by (intro exI [of _ "[(type, out)]"] exI [of _ "[sent]"]) auto
  next
    case some
    obtain R' where R': "PropertyFlags_assign didnt R = R'" by blast
    have r: "pf_inv R'" "pf_set R' = pf_set R - fst ` set sent"
      using assign_flags_laws [OF e(2) less.prems(2)] e(3) some unfolding R' by simp_all
    have q: "?req R' = filter (\<lambda>x. fst x \<notin> fst ` set sent) (?req R)" by (simp add: r(2) conj_commute cong: conj_cong)
    obtain x where "x \<in> set sent" using some(1) by (meson hd_in_set)
    then have "length (?req R') < length (?req R)" unfolding q using sub by (intro length_filter_less [of x]) auto
    then have k: "length (?req R') < k" using less.prems(1) by linarith
    obtain buffer' where b: "QByteArray_resize fresh (nat (NLPacket_maxPayloadSize PT_EntityEdit False)) out = buffer'" by blast
    have bl: "edit_payload \<le> length buffer'" by (simp add: edit_payload_def flip: b)
    obtain msgs sents where i: "queue_edit_loop nz fresh p0 lastItem entityID props PT_EntityEdit buffer' R' didnt (queued @ [(type, out)])
        = Some ((queued @ [(type, out)]) @ msgs)" "list_all2 (edit_delivers nz entityID props target) msgs sents" "[] \<notin> set sents"
        "\<forall>m \<in> set (tl msgs). fst m = PT_EntityEdit" "\<forall>m ms. msgs = m # ms \<longrightarrow> fst m = PT_EntityEdit"
        "distinct (map fst (concat sents))" "set (concat sents) \<subseteq> set (?req R')"
        "\<forall>x \<in> set (?req R') - set (concat sents). edit_room lastItem entityID props edit_payload < int (value_need nz (snd x))"
      using less.IH [OF k le_refl r(1) e(2) bl, of PT_EntityEdit "queued @ [(type, out)]"] by blast
    have "queue_edit_loop nz fresh p0 lastItem entityID props type buffer R D queued = Some (queued @ ((type, out) # msgs))"
      by (subst queue_edit_loop.simps) (simp add: e(1) some Let_def R' b i(1))
    moreover have "\<forall>m \<in> set msgs. fst m = PT_EntityEdit" using i(4,5) by (cases msgs) auto
    moreover have "distinct (map fst (concat (sent # sents)))"
    proof -
      have "fst y \<notin> fst ` set sent" if "y \<in> set (concat sents)" for y
        using subsetD [OF i(7) [unfolded q] that] by simp
      then have "set (map fst sent) \<inter> set (map fst (concat sents)) = {}"
        unfolding disjoint_iff set_map by (metis imageE)
      then show ?thesis using ds i(6) by (simp only: concat.simps map_append distinct_append simp_thms)
    qed
    moreover have "set (concat (sent # sents)) \<subseteq> set (?req R)" using sub i(7) unfolding q by auto
    moreover have "x \<in> set (?req R')" if "x \<in> set (?req R)" "x \<notin> set sent" for x
    proof -
      have "fst x \<notin> fst ` set sent"
      proof
        assume "fst x \<in> fst ` set sent"
        then obtain y where "y \<in> set sent" "fst y = fst x" by auto
        then have "y = x" using dis that(1) sub by (metis (no_types, lifting) eq_key_imp_eq_value filter_is_subset prod.collapse subsetD)
        then show False using that(2) \<open>y \<in> set sent\<close> by simp
      qed
      then show ?thesis using that(1) unfolding q by simp
    qed
    ultimately show ?thesis
      using i(2,3,8) e(4) some(1) by (intro exI [of _ "(type, out) # msgs"] exI [of _ "sent # sents"]) auto
  qed
qed

text \<open>
  C17. An edit whose values are within the sizes the encoding can count (\<open>edit_items_ok\<close>, the condition listed with
  \<open>EntityEdit_roundtrip\<close>: under 65536 elements or bytes, quaternions and booleans that fit the packing array) is spread over
  as many packets as it takes, and the sender's loop ends: the messages queued for an entity of the domain decode, one
  by one, to its identifier, edit time and type and to properties that were changed (and, without the permission, not
  the private user data), every property in at most one message and no message empty; under that condition a property
  is left out only when it needs more room than an edit packet of its own has (a colour counts as 4 bytes). The first
  message has the given type, the others are edits. Values beyond the condition are not covered: the code sends a
  string of 65536 bytes or more truncated, and overruns its packing array on larger vectors of quaternions.
\<close>

theorem queueEditEntityMessage_sends_what_fits:
  assumes "pf_inv changed" "0 \<le> lastItem" "0 \<le> PROP_PRIVATE_USER_DATA" "edit_items_ok nz lastItem (ep_items props)"
    and "ep_created target \<le> ep_lastEdited props" "type \<in> {PT_EntityAdd, PT_EntityEdit, PT_EntityPhysics}"
    and "wanted = filter (\<lambda>x. fst x \<in> pf_set changed \<and> (canGetAndSetPrivateUserData \<or> fst x \<noteq> PROP_PRIVATE_USER_DATA)) (ep_items props)"
  shows "\<exists>msgs sents. queueEditEntityMessage nz fresh p0 lastItem PROP_PRIVATE_USER_DATA DOMAIN_HOST False canGetAndSetPrivateUserData
        type entityID props changed = Some msgs
    \<and> list_all2 (edit_delivers nz entityID props target) msgs sents \<and> [] \<notin> set sents
    \<and> (\<forall>m \<in> set (tl msgs). fst m = PT_EntityEdit) \<and> (\<forall>m ms. msgs = m # ms \<longrightarrow> fst m = type)
    \<and> distinct (map fst (concat sents)) \<and> set (concat sents) \<subseteq> set wanted
    \<and> (\<forall>x \<in> set wanted - set (concat sents). edit_room lastItem entityID props edit_payload < int (value_need nz (snd x)))"
proof -
  obtain R where R: "(if \<not> canGetAndSetPrivateUserData \<and> PROP_PRIVATE_USER_DATA \<in> pf_set changed
        then PropertyFlags_sub_assign_flag PROP_PRIVATE_USER_DATA changed else Some changed) = Some R" "pf_inv R"
      "pf_set R = {f \<in> pf_set changed. canGetAndSetPrivateUserData \<or> f \<noteq> PROP_PRIVATE_USER_DATA}"
    using sub_flag_laws [OF assms(1,3)] assms(1)
    by (cases "\<not> canGetAndSetPrivateUserData \<and> PROP_PRIVATE_USER_DATA \<in> pf_set changed") auto
  have w: "edit_requested R (ep_items props) = wanted" unfolding assms(7) R(3) by simp
  obtain buffer where b: "(if type = PT_EntityAdd
      then QByteArray_resize fresh (nat (NLPacket_maxPayloadSize type False * 10)) (replicate (nat (NLPacket_maxPayloadSize type False)) 0)
      else replicate (nat (NLPacket_maxPayloadSize type False)) 0) = buffer" by blast
  have "edit_payload \<le> length buffer"
    using edit_payload_laws(2) [OF assms(6)] by (cases "type = PT_EntityAdd") (auto simp: nat_mult_distrib simp flip: b)
  from queue_edit_loop_law [OF assms(2,4,5) le_refl R(2) _ this, of PropertyFlags_new fresh p0 entityID type "[]"]
  show ?thesis
    using pf_new_laws getHasProperty_set [OF assms(1,3)] R(1) unfolding w
    by (simp add: queueEditEntityMessage_def b)
qed

theorem queueEditEntityMessage_sends_what_fits_witness:
  "\<forall>p0. \<exists>R msgs sents. pf_set R = {2, 5}
    \<and> queueEditEntityMessage id (\<lambda>_. 0) p0 9 5 DOMAIN_HOST False False PT_EntityAdd 77 \<lparr>ep_created = 0, ep_lastEdited = 1000, ep_type = 4,
         ep_items = [(2, VU16 7), (3, VBool True), (5, VString [72, 105])]\<rparr> R = Some msgs
    \<and> list_all2 (edit_delivers id 77 \<lparr>ep_created = 0, ep_lastEdited = 1000, ep_type = 4,
         ep_items = [(2, VU16 7), (3, VBool True), (5, VString [72, 105])]\<rparr>
         \<lparr>ep_created = 0, ep_lastEdited = 0, ep_type = 0, ep_items = []\<rparr>) msgs sents
    \<and> set (concat sents) = {(2, VU16 7)}"
proof
  fix p0
  let ?props = "\<lparr>ep_created = 0, ep_lastEdited = 1000, ep_type = 4, ep_items = [(2, VU16 7), (3, VBool True), (5, VString [72, 105])]\<rparr>"
    and ?target = "\<lparr>ep_created = 0, ep_lastEdited = 0, ep_type = 0, ep_items = []\<rparr>"
  obtain a where a: "pf_inv a" "pf_set a = {2}" using of_flag_laws [of 2] by auto
  obtain R where R: "pf_inv R" "pf_set R = {2, 5}" using or_flag_laws [OF a(1), of 5] a(2) by auto
  have "length (ByteCountCoded_encode (4 :: 32 word)) \<le> 32 div 7 + 1" "length (ByteCountCoded_encode (0 :: 64 word)) \<le> 64 div 7 + 1"
    using ByteCountCoded_roundtrip [of "4 :: 32 word" "[]"] ByteCountCoded_roundtrip [of "0 :: 64 word" "[]"] by simp_all
  then have room: "20 \<le> edit_room 9 77 ?props edit_payload"
    using edit_payload_laws(1) by (simp add: edit_room_def edit_header_def)
  have ok: "edit_items_ok id 9 (ep_items ?props)" by (simp add: edit_items_ok_def)
  obtain msgs sents where m: "queueEditEntityMessage id (\<lambda>_. 0) p0 9 5 DOMAIN_HOST False False PT_EntityAdd 77 ?props R = Some msgs"
      "list_all2 (edit_delivers id 77 ?props ?target) msgs sents" "set (concat sents) \<subseteq> {(2, VU16 7)}"
      "\<forall>x \<in> {(2, VU16 7)} - set (concat sents). edit_room 9 77 ?props edit_payload < int (value_need id (snd x))"
    using queueEditEntityMessage_sends_what_fits [OF R(1) _ _ ok, of 5 ?target PT_EntityAdd "[(2, VU16 7)]" False "\<lambda>_. 0" p0 77] R(2)
    by auto
  have "(2, VU16 7) \<in> set (concat sents)"
  proof (rule ccontr)
    assume "\<not> ?thesis"
    then show False using m(4) room by simp
  qed
  then have "set (concat sents) = {(2, VU16 7)}" using m(3) by blast
  then show "\<exists>R msgs sents. pf_set R = {2, 5}
    \<and> queueEditEntityMessage id (\<lambda>_. 0) p0 9 5 DOMAIN_HOST False False PT_EntityAdd 77 ?props R = Some msgs
    \<and> list_all2 (edit_delivers id 77 ?props ?target) msgs sents \<and> set (concat sents) = {(2, VU16 7)}"
    using R(2) m(1,2) by blast
qed

section \<open>Clone and erase messages\<close>

(* @src libraries/entities/src/EntityItemProperties.cpp.in 1186-1200 EntityItemProperties::encodeEraseEntityMessage *)
definition encodeEraseEntityMessage :: "uuid \<Rightarrow> byte list \<Rightarrow> bool \<times> byte list" where
  "encodeEraseEntityMessage entityItemID buffer =
     (if length buffer < 2 + 16 then (False, buffer) else (True, le16 1 @ toRfc4122 entityItemID))"

(* @src libraries/entities/src/EntityItemProperties.cpp.in 1202-1213 EntityItemProperties::encodeCloneEntityMessage *)
definition encodeCloneEntityMessage :: "uuid \<Rightarrow> uuid \<Rightarrow> byte list \<Rightarrow> bool \<times> byte list" where
  "encodeCloneEntityMessage entityIDToClone newEntityID buffer =
     (if length buffer < 16 * 2 then (False, buffer) else (True, toRfc4122 entityIDToClone @ toRfc4122 newEntityID))"

(* @src libraries/entities/src/EntityItemProperties.cpp.in 1215-1233 EntityItemProperties::decodeCloneEntityMessage *)
definition decodeCloneEntityMessage :: "byte list \<Rightarrow> uuid \<times> uuid \<Rightarrow> bool \<times> nat \<times> uuid \<times> uuid" where
  "decodeCloneEntityMessage buffer ids =
     (if 16 * 2 > length buffer then (False, 0, ids)
      else (True, 32, fromRfc4122 (take 16 buffer), fromRfc4122 (take 16 (drop 16 buffer))))"

text \<open>The loop over the identifiers of an erase message, which stops where a whole one no longer follows.\<close>

(* @src libraries/entities/src/EntityTree.cpp 2178-2194 EntityTree::processEraseMessageDetails, loop *)
fun erase_ids :: "nat \<Rightarrow> byte list \<Rightarrow> nat \<Rightarrow> uuid list \<Rightarrow> uuid list \<times> nat" where
  "erase_ids 0 data processedBytes ids = (ids, processedBytes)"
| "erase_ids (Suc n) data processedBytes ids =
     (if processedBytes + 16 > length data then (ids, processedBytes)
      else erase_ids n data (processedBytes + 16) (ids @ [fromRfc4122 (take 16 (drop processedBytes data))]))"

text \<open>The identifiers to delete (the deletion itself is not modelled) and the bytes processed.\<close>

(* @src libraries/entities/src/EntityTree.cpp 2159-2201 EntityTree::processEraseMessageDetails *)
definition processEraseMessageDetails :: "byte list \<Rightarrow> (uuid list \<times> nat) option" where
  "processEraseMessageDetails data =
     do { numberOfIds \<leftarrow> mem_read data 0 2;
          Some (if un_le16 numberOfIds > 0 then erase_ids (unat (un_le16 numberOfIds)) data 2 [] else ([], 2)) }"

lemma erase_ids_law:
  "length data = k + 16 * m + r \<Longrightarrow> r < 16 \<Longrightarrow> erase_ids n data k ids
    = (ids @ map (\<lambda>i. fromRfc4122 (take 16 (drop (k + 16 * i) data))) [0..<min n m], k + 16 * min n m)"
proof (induction n arbitrary: k m ids)
  case (Suc n)
  show ?case
  proof (cases m)
    case 0
    then show ?thesis using Suc.prems by simp
  next
    case (Suc m')
    have e: "erase_ids n data (k + 16) (ids @ [fromRfc4122 (take 16 (drop k data))])
        = ((ids @ [fromRfc4122 (take 16 (drop k data))]) @ map (\<lambda>i. fromRfc4122 (take 16 (drop (k + 16 + 16 * i) data))) [0..<min n m'],
           k + 16 + 16 * min n m')"
      by (rule Suc.IH) (use Suc.prems Suc in simp_all)
    have "[0..<Suc (min n m')] = 0 # map Suc [0..<min n m']" by (simp add: map_Suc_upt upt_conv_Cons del: upt_Suc)
    then show ?thesis using e Suc.prems Suc by (simp add: comp_def add.assoc del: upt_Suc)
  qed
qed simp

text \<open>
  The server takes from an erase message exactly the whole identifiers it contains, at most as many as it
  announces: a truncated message is not read past its end, and what the sender's encoding holds is the one identifier.
  Clone messages round trip in the same way, and one that is too short is refused without being read.
\<close>

theorem erase_and_clone_messages:
  "processEraseMessageDetails (le16 n @ ids)
      = Some (map (\<lambda>i. fromRfc4122 (take 16 (drop (16 * i) ids))) [0..<min (unat n) (length ids div 16)],
          2 + 16 * min (unat n) (length ids div 16))
    \<and> processEraseMessageDetails (snd (encodeEraseEntityMessage a (replicate (18 + k) 0))) = Some ([a], 18)
    \<and> decodeCloneEntityMessage (snd (encodeCloneEntityMessage a b (replicate (32 + k) 0))) old = (True, 32, a, b)
    \<and> (decodeCloneEntityMessage bs old = (False, 0, old)) = (length bs < 32)"
proof -
  have e: "processEraseMessageDetails (le16 n @ ids)
      = Some (map (\<lambda>i. fromRfc4122 (take 16 (drop (16 * i) ids))) [0..<min (unat n) (length ids div 16)],
          2 + 16 * min (unat n) (length ids div 16))" for n ids
  proof -
    have "erase_ids (unat n) (le16 n @ ids) 2 [] = ([] @ map (\<lambda>i. fromRfc4122 (take 16 (drop (2 + 16 * i) (le16 n @ ids))))
        [0..<min (unat n) (length ids div 16)], 2 + 16 * min (unat n) (length ids div 16))"
      by (rule erase_ids_law [where r = "length ids mod 16"]) simp_all
    then show ?thesis
      by (cases "n = 0") (auto simp: processEraseMessageDetails_def mem_read_def word_greater_zero_iff)
  qed
  have "processEraseMessageDetails (le16 1 @ toRfc4122 a) = Some ([a], 18)"
    using e [of 1 "toRfc4122 a"] by simp
  then show ?thesis using e
    by (simp add: encodeEraseEntityMessage_def encodeCloneEntityMessage_def decodeCloneEntityMessage_def)
qed
end
