(* ===== verification/Sim_Ownership.thy ===== *)
theory Sim_Ownership
  imports Prelude
begin

text \<open>
  Ownership of the physics simulation: \<open>SimulationOwner\<close>, the arbitration of bids in \<open>EntityTree::updateEntity\<close>, and the lists
  of \<open>SimpleEntitySimulation\<close> by which the entity server expires and clears ownership (\<open>libraries/entities/src\<close>).

  Times are microseconds as natural numbers (the 64 bits of the code last half a million years), and an operation reads the
  clock once. The null identifier is 0. Of an entity and of an edit only what ownership depends on is kept; a set of
  entities is a list of identifiers in the order it is visited.
\<close>

section \<open>The owner\<close>

(* @src libraries/entities/src/SimulationOwner.h 152-155 SimulationOwner *)
record simulation_owner =
  so_id :: uuid
  so_expiry :: nat
  so_priority :: byte

(* @src libraries/shared/src/SimulationFlags.h 16-16 VOLUNTEER_SIMULATION_PRIORITY *)
definition VOLUNTEER_SIMULATION_PRIORITY :: byte where
  "VOLUNTEER_SIMULATION_PRIORITY = 2"

(* @src libraries/shared/src/SimulationFlags.h 17-17 RECRUIT_SIMULATION_PRIORITY *)
definition RECRUIT_SIMULATION_PRIORITY :: byte where
  "RECRUIT_SIMULATION_PRIORITY = VOLUNTEER_SIMULATION_PRIORITY + 1"

(* @src libraries/entities/src/SimulationOwner.cpp 22-27 SimulationOwner::SimulationOwner *)
definition SimulationOwner_new :: simulation_owner where
  "SimulationOwner_new = \<lparr>so_id = 0, so_expiry = 0, so_priority = 0\<rparr>"

(* @src libraries/entities/src/SimulationOwner.cpp 29-34 SimulationOwner::SimulationOwner(const QUuid&, uint8_t) *)
definition SimulationOwner_of :: "uuid \<Rightarrow> byte \<Rightarrow> simulation_owner" where
  "SimulationOwner_of ownerID priority = \<lparr>so_id = ownerID, so_expiry = 0, so_priority = priority\<rparr>"

(* @src libraries/entities/src/SimulationOwner.cpp 36-40 SimulationOwner::toByteArray *)
definition SimulationOwner_toByteArray :: "simulation_owner \<Rightarrow> byte list" where
  "SimulationOwner_toByteArray s = toRfc4122 (so_id s) @ [so_priority s]"

(* @src libraries/entities/src/SimulationOwner.cpp 42-50 SimulationOwner::fromByteArray *)
definition SimulationOwner_fromByteArray :: "byte list \<Rightarrow> simulation_owner \<Rightarrow> bool \<times> simulation_owner" where
  "SimulationOwner_fromByteArray data s =
     (if length data = 16 + 1 then (True, s\<lparr>so_id := fromRfc4122 (take 16 data), so_priority := data ! 16\<rparr>) else (False, s))"

(* @src libraries/entities/src/SimulationOwner.cpp 52-56 SimulationOwner::clear *)
definition SimulationOwner_clear :: "simulation_owner \<Rightarrow> simulation_owner" where
  "SimulationOwner_clear s = s\<lparr>so_id := 0, so_expiry := 0, so_priority := 0\<rparr>"

(* @src libraries/entities/src/SimulationOwner.cpp 58-60 SimulationOwner::setPriority *)
definition SimulationOwner_setPriority :: "byte \<Rightarrow> simulation_owner \<Rightarrow> simulation_owner" where
  "SimulationOwner_setPriority priority s = s\<lparr>so_priority := priority\<rparr>"

(* @src libraries/entities/src/SimulationOwner.cpp 86-89 SimulationOwner::updateExpiry *)
definition SimulationOwner_updateExpiry :: "nat \<Rightarrow> simulation_owner \<Rightarrow> simulation_owner" where
  "SimulationOwner_updateExpiry now s = s\<lparr>so_expiry := now + 200 * 1000\<rparr>"

(* @src libraries/entities/src/SimulationOwner.cpp 62-72 SimulationOwner::setID *)
definition SimulationOwner_setID :: "nat \<Rightarrow> uuid \<Rightarrow> simulation_owner \<Rightarrow> bool \<times> simulation_owner" where
  "SimulationOwner_setID now ownerID s =
     (if so_id s \<noteq> ownerID
      then (let s1 = SimulationOwner_updateExpiry now (s\<lparr>so_id := ownerID\<rparr>)
            in (True, if ownerID = 0 then s1\<lparr>so_priority := 0\<rparr> else s1))
      else (False, s))"

(* @src libraries/entities/src/SimulationOwner.cpp 74-78 SimulationOwner::set(const QUuid&, uint8_t) *)
definition SimulationOwner_set :: "nat \<Rightarrow> uuid \<Rightarrow> byte \<Rightarrow> simulation_owner \<Rightarrow> bool \<times> simulation_owner" where
  "SimulationOwner_set now ownerID priority s =
     (let (changed, s1) = SimulationOwner_setID now ownerID (SimulationOwner_setPriority priority s)
      in (changed \<or> so_priority s \<noteq> so_priority s1, s1))"

(* @src libraries/entities/src/SimulationOwner.cpp 80-84 SimulationOwner::set(const SimulationOwner&) *)
definition SimulationOwner_setOwner :: "nat \<Rightarrow> simulation_owner \<Rightarrow> simulation_owner \<Rightarrow> bool \<times> simulation_owner" where
  "SimulationOwner_setOwner now owner s = SimulationOwner_set now (so_id owner) (so_priority owner) s"

(* @src libraries/entities/src/SimulationOwner.h 133-133 SimulationOwner::isNull *)
definition SimulationOwner_isNull :: "simulation_owner \<Rightarrow> bool" where
  "SimulationOwner_isNull s \<longleftrightarrow> so_id s = 0"

(* @src libraries/entities/src/SimulationOwner.h 134-134 SimulationOwner::matchesValidID *)
definition SimulationOwner_matchesValidID :: "uuid \<Rightarrow> simulation_owner \<Rightarrow> bool" where
  "SimulationOwner_matchesValidID ownerID s \<longleftrightarrow> so_id s = ownerID \<and> so_id s \<noteq> 0"

(* @src libraries/entities/src/SimulationOwner.h 137-137 SimulationOwner::hasExpired *)
definition SimulationOwner_hasExpired :: "nat \<Rightarrow> simulation_owner \<Rightarrow> bool" where
  "SimulationOwner_hasExpired now s \<longleftrightarrow> now > so_expiry s"

(* @src libraries/entities/src/SimulationOwner.cpp 164-166 SimulationOwner::operator!= *)
definition SimulationOwner_neq :: "simulation_owner \<Rightarrow> simulation_owner \<Rightarrow> bool" where
  "SimulationOwner_neq s other \<longleftrightarrow> so_id s \<noteq> so_id other \<or> so_priority s \<noteq> so_priority other"

(* @src libraries/entities/src/SimulationOwner.cpp 168-180 SimulationOwner::operator= *)
definition SimulationOwner_assign :: "nat \<Rightarrow> simulation_owner \<Rightarrow> simulation_owner \<Rightarrow> simulation_owner" where
  "SimulationOwner_assign now other s =
     (let s1 = s\<lparr>so_priority := so_priority other\<rparr> in
      if so_priority s1 = 0 then s1\<lparr>so_id := 0, so_expiry := 0\<rparr>
      else (if so_id s1 \<noteq> so_id other then SimulationOwner_updateExpiry now s1 else s1)\<lparr>so_id := so_id other\<rparr>)"

section \<open>Bids\<close>

text \<open>What an edit carries that ownership depends on: the lock, the owner and the physical changes.\<close>

record ownership_edit =
  oe_locked :: bool
  oe_lockedChanged :: bool
  oe_owner :: simulation_owner
  oe_ownerChanged :: bool
  oe_positionChanged :: bool
  oe_rotationChanged :: bool
  oe_velocityChanged :: bool
  oe_angularVelocityChanged :: bool
  oe_accelerationChanged :: bool
  oe_parentIDChanged :: bool
  oe_parentJointIndexChanged :: bool

(* @src libraries/entities/src/EntityItemProperties.cpp.in 1333-1336 EntityItemProperties::clearSimulationOwner *)
definition EntityItemProperties_clearSimulationOwner :: "ownership_edit \<Rightarrow> ownership_edit" where
  "EntityItemProperties_clearSimulationOwner edit = edit\<lparr>oe_owner := SimulationOwner_clear (oe_owner edit), oe_ownerChanged := True\<rparr>"

(* @src libraries/entities/src/EntityItemProperties.cpp.in 1338-1343 EntityItemProperties::setSimulationOwner(const QUuid&, uint8_t) *)
definition EntityItemProperties_setSimulationOwner :: "nat \<Rightarrow> uuid \<Rightarrow> byte \<Rightarrow> ownership_edit \<Rightarrow> ownership_edit" where
  "EntityItemProperties_setSimulationOwner now ownerID priority edit =
     (if \<not> SimulationOwner_matchesValidID ownerID (oe_owner edit) \<or> so_priority (oe_owner edit) \<noteq> priority
      then edit\<lparr>oe_owner := snd (SimulationOwner_set now ownerID priority (oe_owner edit)), oe_ownerChanged := True\<rparr> else edit)"

(* @src libraries/entities/src/EntityItemProperties.cpp.in 1345-1349 EntityItemProperties::setSimulationOwner(const QByteArray&) *)
definition EntityItemProperties_setSimulationOwner_bytes :: "byte list \<Rightarrow> ownership_edit \<Rightarrow> ownership_edit" where
  "EntityItemProperties_setSimulationOwner_bytes data edit =
     (case SimulationOwner_fromByteArray data (oe_owner edit) of
        (True, s) \<Rightarrow> edit\<lparr>oe_owner := s, oe_ownerChanged := True\<rparr>
      | (False, s) \<Rightarrow> edit\<lparr>oe_owner := s\<rparr>)"

text \<open>
  The entity on the server: its lock, its owner, when that ownership goes stale, the dirty flags of the owner and of the
  velocities, whether it is dynamic and moving, when it last changed, and whether it is in the simulation.
\<close>

(* @src libraries/entities/src/EntityItem.h.in 533-538 EntityItem *)
record server_entity =
  se_locked :: bool
  se_owner :: simulation_owner
  se_ownershipExpiry :: nat
  se_dirtySimulatorID :: bool
  se_dirtyVelocities :: bool
  se_dynamic :: bool
  se_hasLocalVelocity :: bool
  se_changedOnServer :: nat
  se_simulated :: bool

(* @src libraries/entities/src/EntityItem.h.in 65-66 MAX_INCOMING_SIMULATION_UPDATE_PERIOD *)
definition MAX_INCOMING_SIMULATION_UPDATE_PERIOD :: nat where
  "MAX_INCOMING_SIMULATION_UPDATE_PERIOD = 9 * 1000000 + 1000000"

(* @src libraries/entities/src/EntityItem.cpp.in 1802-1811 EntityItem::setSimulationOwner(const SimulationOwner&) *)
definition EntityItem_setSimulationOwner :: "nat \<Rightarrow> simulation_owner \<Rightarrow> server_entity \<Rightarrow> server_entity" where
  "EntityItem_setSimulationOwner now owner e =
     (case SimulationOwner_setOwner now owner (se_owner e) of
        (changed, s) \<Rightarrow> e\<lparr>se_owner := s, se_dirtySimulatorID := se_dirtySimulatorID e \<or> changed\<rparr>)"

(* @src libraries/entities/src/EntityItem.cpp.in 1813-1824 EntityItem::clearSimulationOwnership *)
definition EntityItem_clearSimulationOwnership :: "server_entity \<Rightarrow> server_entity" where
  "EntityItem_clearSimulationOwnership e = e\<lparr>se_owner := SimulationOwner_clear (se_owner e)\<rparr>"

text \<open>The entity server always promotes a volunteer.\<close>

(* @src libraries/entities/src/EntityTree.cpp 404-408 EntityTree::updateEntity, promotion *)
definition promote_volunteer :: "ownership_edit \<Rightarrow> ownership_edit" where
  "promote_volunteer edit =
     (if so_priority (oe_owner edit) = VOLUNTEER_SIMULATION_PRIORITY
      then edit\<lparr>oe_owner := SimulationOwner_setPriority RECRUIT_SIMULATION_PRIORITY (oe_owner edit)\<rparr> else edit)"

text \<open>
  The arbitration: whether the physical changes are blocked, the edit as it goes on, and the entity; \<open>None\<close> when the whole
  edit is suspect. The bid's own expiry is asked, not that of the current owner.
\<close>

(* @src libraries/entities/src/EntityTree.cpp 389-446 EntityTree::updateEntity, arbitration *)
definition arbitrate_ownership ::
  "nat \<Rightarrow> uuid \<Rightarrow> ownership_edit \<Rightarrow> server_entity \<Rightarrow> (bool \<times> ownership_edit \<times> server_entity) option" where
  "arbitrate_ownership now senderID edit e =
     (let simulatorID = so_id (se_owner e);
          simulationBlocked = (simulatorID \<noteq> 0);
          renewed = e\<lparr>se_ownershipExpiry := now + MAX_INCOMING_SIMULATION_UPDATE_PERIOD\<rparr>
      in if oe_ownerChanged edit
         then (let submittedID = so_id (oe_owner edit) in
               if submittedID = 0
               then (if simulatorID = senderID then Some (False, EntityItemProperties_clearSimulationOwner edit, e)
                     else Some (simulationBlocked, edit, e))
               else if submittedID = senderID
               then (if simulatorID = 0 then Some (False, promote_volunteer edit, renewed)
                     else if simulatorID = senderID then Some (False, promote_volunteer edit, renewed)
                     else (let oldPriority = so_priority (se_owner e); newPriority = so_priority (oe_owner edit)
                           in if newPriority > oldPriority
                                \<or> (newPriority = oldPriority \<and> SimulationOwner_hasExpired now (oe_owner edit))
                              then Some (False, promote_volunteer edit, renewed)
                              else Some (simulationBlocked, edit, e)))
               else None)
         else if simulationBlocked
         then (if senderID \<noteq> simulatorID then Some (True, edit, e) else Some (False, edit, renewed))
         else Some (False, edit, e))"

(* @src libraries/entities/src/EntityTree.cpp 447-457 EntityTree::updateEntity, squashing *)
definition squash_physics :: "ownership_edit \<Rightarrow> ownership_edit" where
  "squash_physics edit = edit\<lparr>oe_ownerChanged := False, oe_positionChanged := False, oe_rotationChanged := False,
     oe_velocityChanged := False, oe_angularVelocityChanged := False, oe_accelerationChanged := False,
     oe_parentIDChanged := False, oe_parentJointIndexChanged := False\<rparr>"

text \<open>Of \<open>setProperties\<close> (generated), the lock and the owner; the other setters do not touch them.\<close>

(* @src libraries/entities/src/EntityItemPropertiesMacros.h 104-108 SET_ENTITY_PROPERTY_FROM_PROPERTIES *)
definition EntityItem_setProperties :: "nat \<Rightarrow> ownership_edit \<Rightarrow> server_entity \<Rightarrow> server_entity" where
  "EntityItem_setProperties now edit e =
     (let e1 = (if oe_lockedChanged edit then e\<lparr>se_locked := oe_locked edit\<rparr> else e)
      in if oe_ownerChanged edit then EntityItem_setSimulationOwner now (oe_owner edit) e1 else e1)"

text \<open>
  \<open>updateEntity\<close> on the server: whether it accepts, what it hands to \<open>setProperties\<close>, and the entity. Unlocking applies the lock only.
\<close>

(* @src libraries/entities/src/EntityTree.cpp 339-480 EntityTree::updateEntity *)
definition EntityTree_updateEntity ::
  "nat \<Rightarrow> bool \<Rightarrow> uuid \<Rightarrow> ownership_edit \<Rightarrow> server_entity \<Rightarrow> bool \<times> ownership_edit option \<times> server_entity" where
  "EntityTree_updateEntity now allowLockChange senderID edit e =
     (if \<not> allowLockChange \<and> se_locked e \<noteq> oe_locked edit then (False, None, e)
      else if se_locked e
      then (if oe_lockedChanged edit \<and> \<not> oe_locked edit then (True, None, e\<lparr>se_locked := False\<rparr>) else (True, None, e))
      else (case arbitrate_ownership now senderID edit e of
              None \<Rightarrow> (False, None, e)
            | Some (simulationBlocked, edit1, e1) \<Rightarrow>
                (let edit2 = (if simulationBlocked then squash_physics edit1 else edit1)
                 in (True, Some edit2, EntityItem_setProperties now edit2 e1))))"

section \<open>The lists of the simulation\<close>

text \<open>
  The sets of \<open>SimpleEntitySimulation\<close> that concern ownership (those for simple kinematic motion are left out) and the
  entities; an identifier without an entity is undefined. \<open>os_now\<close> is the latest time an operation has read.
\<close>

(* @src libraries/entities/src/SimpleEntitySimulation.h 42-45 SimpleEntitySimulation *)
record ownership_server =
  os_now :: nat
  os_entities :: "uuid \<Rightarrow> server_entity option"
  os_changed :: "uuid list"
  os_withOwner :: "uuid list"
  os_needOwner :: "uuid list"
  os_nextStale :: nat
  os_nextOwnerless :: nat

definition UINT64_MAX :: nat where
  "UINT64_MAX = 2 ^ 64 - 1"

(* @src libraries/entities/src/SimpleEntitySimulation.h 42-45 SimpleEntitySimulation *)
definition ownership_server_new :: ownership_server where
  "ownership_server_new = \<lparr>os_now = 0, os_entities = Map.empty, os_changed = [], os_withOwner = [], os_needOwner = [],
     os_nextStale = UINT64_MAX, os_nextOwnerless = 0\<rparr>"

definition server_clearDirtyFlags :: "server_entity \<Rightarrow> server_entity" where
  "server_clearDirtyFlags e = e\<lparr>se_dirtySimulatorID := False, se_dirtyVelocities := False\<rparr>"

text \<open>An edit of an entity of the tree: a newly dirty owner puts the entity on the list of changes.\<close>

(* @src libraries/entities/src/EntityTree.cpp 521-532 EntityTree::updateEntity, dirty flags *)
definition EntityTree_editEntity ::
  "nat \<Rightarrow> bool \<Rightarrow> uuid \<Rightarrow> ownership_edit \<Rightarrow> uuid \<Rightarrow> ownership_server \<Rightarrow> (bool \<times> ownership_server) option" where
  "EntityTree_editEntity now allowLockChange senderID edit entityID w =
     do { e \<leftarrow> os_entities w entityID;
          (case EntityTree_updateEntity now allowLockChange senderID edit e of (ok, _, e1) \<Rightarrow>
             (let newFlags = (se_dirtySimulatorID e1 \<and> \<not> se_dirtySimulatorID e);
                  e2 = (if newFlags \<and> \<not> se_simulated e1 then server_clearDirtyFlags e1 else e1)
              in Some (ok, w\<lparr>os_now := now, os_entities := (os_entities w)(entityID \<mapsto> e2),
                   os_changed := if newFlags \<and> se_simulated e1 then List.insert entityID (os_changed w) else os_changed w\<rparr>))) }"

(* @src libraries/entities/src/SimpleEntitySimulation.cpp 90-138 SimpleEntitySimulation::processChangedEntity *)
definition processChangedEntity :: "uuid \<Rightarrow> ownership_server \<Rightarrow> ownership_server option" where
  "processChangedEntity entityID w =
     do { e \<leftarrow> os_entities w entityID;
          let w1 = (if se_dirtySimulatorID e \<or> se_dirtyVelocities e
             then (if so_id (se_owner e) = 0 then w\<lparr>os_withOwner := removeAll entityID (os_withOwner w)\<rparr>
                   else w\<lparr>os_withOwner := List.insert entityID (os_withOwner w),
                          os_nextStale := min (os_nextStale w) (se_ownershipExpiry e),
                          os_needOwner := removeAll entityID (os_needOwner w)\<rparr>)
             else w);
          Some (w1\<lparr>os_entities := (os_entities w1)(entityID \<mapsto> server_clearDirtyFlags e)\<rparr>) }"

fun processChanged_loop :: "uuid list \<Rightarrow> ownership_server \<Rightarrow> ownership_server option" where
  "processChanged_loop [] w = Some w"
| "processChanged_loop (entityID # changed) w =
     do { e \<leftarrow> os_entities w entityID;
          w1 \<leftarrow> (if se_simulated e then processChangedEntity entityID w else Some w);
          processChanged_loop changed w1 }"

(* @src libraries/entities/src/EntitySimulation.cpp 179-188 EntitySimulation::processChangedEntities *)
definition processChangedEntities :: "ownership_server \<Rightarrow> ownership_server option" where
  "processChangedEntities w = map_option (os_changed_update (\<lambda>_. [])) (processChanged_loop (os_changed w) w)"

text \<open>The loop over the owned entities: the entities, those that stay in the set, and the next time one goes stale.\<close>

(* @src libraries/entities/src/SimpleEntitySimulation.cpp 160-182 SimpleEntitySimulation::expireStaleOwnerships, loop *)
fun expireStale_loop ::
  "nat \<Rightarrow> uuid list \<Rightarrow> (uuid \<Rightarrow> server_entity option) \<Rightarrow> uuid list \<Rightarrow> nat
    \<Rightarrow> ((uuid \<Rightarrow> server_entity option) \<times> uuid list \<times> nat) option" where
  "expireStale_loop now [] entities kept next = Some (entities, kept, next)"
| "expireStale_loop now (entityID # owned) entities kept next =
     do { e \<leftarrow> entities entityID;
          let expiry = se_ownershipExpiry e;
          if now > expiry
          then expireStale_loop now owned
                 (entities(entityID \<mapsto> EntityItem_clearSimulationOwnership e\<lparr>se_changedOnServer := now\<rparr>)) kept next
          else expireStale_loop now owned entities (kept @ [entityID]) (min next expiry) }"

(* @src libraries/entities/src/SimpleEntitySimulation.cpp 157-184 SimpleEntitySimulation::expireStaleOwnerships *)
definition expireStaleOwnerships :: "nat \<Rightarrow> ownership_server \<Rightarrow> ownership_server option" where
  "expireStaleOwnerships now w =
     (if now > os_nextStale w
      then do { (entities, kept, next) \<leftarrow> expireStale_loop now (os_withOwner w) (os_entities w) [] UINT64_MAX;
                Some (w\<lparr>os_entities := entities, os_withOwner := kept, os_nextStale := next\<rparr>) }
      else Some w)"

(* @src libraries/entities/src/SimpleEntitySimulation.cpp 19-19 MAX_OWNERLESS_PERIOD *)
definition MAX_OWNERLESS_PERIOD :: nat where
  "MAX_OWNERLESS_PERIOD = 2 * 1000000"

text \<open>A dynamic entity that nobody has volunteered for is stopped.\<close>

(* @src libraries/entities/src/SimpleEntitySimulation.cpp 191-214 SimpleEntitySimulation::stopOwnerlessEntities, loop *)
fun stopOwnerless_loop ::
  "nat \<Rightarrow> uuid list \<Rightarrow> (uuid \<Rightarrow> server_entity option) \<Rightarrow> uuid list \<Rightarrow> nat
    \<Rightarrow> ((uuid \<Rightarrow> server_entity option) \<times> uuid list \<times> nat) option" where
  "stopOwnerless_loop now [] entities kept next = Some (entities, kept, next)"
| "stopOwnerless_loop now (entityID # ids) entities kept next =
     do { e \<leftarrow> entities entityID;
          let expiry = se_changedOnServer e + MAX_OWNERLESS_PERIOD;
          if expiry < now
          then stopOwnerless_loop now ids
                 (if so_id (se_owner e) = 0 \<and> se_dynamic e \<and> se_hasLocalVelocity e
                  then entities(entityID \<mapsto> e\<lparr>se_hasLocalVelocity := False, se_dirtyVelocities := True, se_changedOnServer := now\<rparr>)
                  else entities) kept next
          else stopOwnerless_loop now ids entities (kept @ [entityID]) (min next expiry) }"

(* @src libraries/entities/src/SimpleEntitySimulation.cpp 186-216 SimpleEntitySimulation::stopOwnerlessEntities *)
definition stopOwnerlessEntities :: "nat \<Rightarrow> ownership_server \<Rightarrow> ownership_server option" where
  "stopOwnerlessEntities now w =
     (if now > os_nextOwnerless w
      then do { (entities, kept, next) \<leftarrow> stopOwnerless_loop now (os_needOwner w) (os_entities w) [] UINT64_MAX;
                Some (w\<lparr>os_entities := entities, os_needOwner := kept, os_nextOwnerless := next\<rparr>) }
      else Some w)"

(* @src libraries/entities/src/SimpleEntitySimulation.cpp 50-56 SimpleEntitySimulation::updateEntities *)
definition simulation_updateEntities :: "nat \<Rightarrow> ownership_server \<Rightarrow> ownership_server option" where
  "simulation_updateEntities now w =
     do { w1 \<leftarrow> expireStaleOwnerships now (w\<lparr>os_now := now\<rparr>); stopOwnerlessEntities now w1 }"

text \<open>A participant that leaves gives up all it owns; what still moves is put on the list of orphans.\<close>

(* @src libraries/entities/src/SimpleEntitySimulation.cpp 23-47 SimpleEntitySimulation::clearOwnership, loop *)
fun clearOwnership_loop :: "nat \<Rightarrow> uuid \<Rightarrow> uuid list \<Rightarrow> uuid list \<Rightarrow> ownership_server \<Rightarrow> ownership_server option" where
  "clearOwnership_loop now ownerID [] kept w = Some (w\<lparr>os_withOwner := kept\<rparr>)"
| "clearOwnership_loop now ownerID (entityID # ids) kept w =
     do { e \<leftarrow> os_entities w entityID;
          if so_id (se_owner e) = ownerID
          then (let w1 = (if se_dynamic e \<and> se_hasLocalVelocity e
                  then w\<lparr>os_needOwner := List.insert entityID (os_needOwner w),
                         os_nextOwnerless := min (os_nextOwnerless w) (se_changedOnServer e + MAX_OWNERLESS_PERIOD)\<rparr>
                  else w)
                in clearOwnership_loop now ownerID ids kept
                     (w1\<lparr>os_entities := (os_entities w1)(entityID \<mapsto>
                        EntityItem_clearSimulationOwnership e\<lparr>se_changedOnServer := now\<rparr>)\<rparr>))
          else clearOwnership_loop now ownerID ids (kept @ [entityID]) w }"

(* @src libraries/entities/src/SimpleEntitySimulation.cpp 21-48 SimpleEntitySimulation::clearOwnership *)
definition simulation_clearOwnership :: "nat \<Rightarrow> uuid \<Rightarrow> ownership_server \<Rightarrow> ownership_server option" where
  "simulation_clearOwnership now ownerID w = clearOwnership_loop now ownerID (os_withOwner w) [] (w\<lparr>os_now := now\<rparr>)"

text \<open>An entity that is added is in the simulation from then on, and not dirty.\<close>

(* @src libraries/entities/src/SimpleEntitySimulation.cpp 58-82 SimpleEntitySimulation::addEntityToInternalLists *)
definition addEntityToInternalLists :: "uuid \<Rightarrow> server_entity \<Rightarrow> ownership_server \<Rightarrow> ownership_server" where
  "addEntityToInternalLists entityID e w =
     (let w1 = w\<lparr>os_entities := (os_entities w)(entityID \<mapsto> e\<lparr>se_simulated := True\<rparr>)\<rparr>
      in if so_id (se_owner e) = 0 then w1
         else w1\<lparr>os_withOwner := List.insert entityID (os_withOwner w1),
                 os_nextStale := min (os_nextStale w1) (se_ownershipExpiry e)\<rparr>)"

(* @src libraries/entities/src/EntitySimulation.cpp 163-171 EntitySimulation::addEntity *)
definition simulation_addEntity :: "uuid \<Rightarrow> server_entity \<Rightarrow> ownership_server \<Rightarrow> ownership_server" where
  "simulation_addEntity entityID e w =
     (let w1 = addEntityToInternalLists entityID e w
      in w1\<lparr>os_entities := (os_entities w1)(entityID \<mapsto> server_clearDirtyFlags (e\<lparr>se_simulated := True\<rparr>))\<rparr>)"

(* @src libraries/entities/src/SimpleEntitySimulation.cpp 84-88 SimpleEntitySimulation::removeEntityFromInternalLists *)
definition simulation_removeEntity :: "uuid \<Rightarrow> ownership_server \<Rightarrow> ownership_server option" where
  "simulation_removeEntity entityID w =
     do { e \<leftarrow> os_entities w entityID;
          Some (w\<lparr>os_entities := (os_entities w)(entityID \<mapsto> e\<lparr>se_simulated := False\<rparr>),
                  os_withOwner := removeAll entityID (os_withOwner w), os_needOwner := removeAll entityID (os_needOwner w)\<rparr>) }"

section \<open>The server as a state machine\<close>

text \<open>
  What can happen, in any order: edits from any sender, the processing of changes, updates, participants leaving,
  entities added (their ownership expiry is 0, the value of a new entity) and removed, and changes of motion.
\<close>

datatype own_event = Edit nat bool uuid ownership_edit uuid | Process | Update nat | Leave nat uuid
  | Add uuid server_entity | Remove uuid | Motion uuid bool bool bool

inductive own_step :: "own_event \<Rightarrow> ownership_server \<Rightarrow> ownership_server \<Rightarrow> bool" where
  edit: "os_now w \<le> now \<Longrightarrow> EntityTree_editEntity now allow senderID edit entityID w = Some (ok, w')
    \<Longrightarrow> own_step (Edit now allow senderID edit entityID) w w'"
| process: "processChangedEntities w = Some w' \<Longrightarrow> own_step Process w w'"
| update: "os_now w \<le> now \<Longrightarrow> simulation_updateEntities now w = Some w' \<Longrightarrow> own_step (Update now) w w'"
| leave: "os_now w \<le> now \<Longrightarrow> simulation_clearOwnership now ownerID w = Some w' \<Longrightarrow> own_step (Leave now ownerID) w w'"
| add: "os_entities w entityID = None \<Longrightarrow> se_ownershipExpiry e = 0 \<Longrightarrow> own_step (Add entityID e) w (simulation_addEntity entityID e w)"
| remove: "simulation_removeEntity entityID w = Some w' \<Longrightarrow> own_step (Remove entityID) w w'"
| motion: "os_entities w entityID = Some e
    \<Longrightarrow> own_step (Motion entityID dynamic moving dirty) w
          (w\<lparr>os_entities := (os_entities w)(entityID \<mapsto> e\<lparr>se_dynamic := dynamic, se_hasLocalVelocity := moving, se_dirtyVelocities := dirty\<rparr>),
             os_changed := List.insert entityID (os_changed w)\<rparr>)"

inductive_cases own_step_cases: "own_step ev w w'"

inductive own_reachable :: "ownership_server \<Rightarrow> bool" where
  start: "own_reachable ownership_server_new"
| step: "own_reachable w \<Longrightarrow> own_step ev w w' \<Longrightarrow> own_reachable w'"

section \<open>The invariant of the server\<close>

text \<open>
  Every listed identifier has an entity. An entity in the simulation that has an owner is in the set that is searched for stale
  ownership, or is still marked dirty and waits on the list of changes; no expiry lies in the future by more than the
  period; and the next search is due no later than the first expiry in the set.
\<close>

definition own_entity_inv :: "ownership_server \<Rightarrow> uuid \<Rightarrow> server_entity \<Rightarrow> bool" where
  "own_entity_inv w i e \<longleftrightarrow> se_ownershipExpiry e \<le> os_now w + MAX_INCOMING_SIMULATION_UPDATE_PERIOD
     \<and> (se_simulated e \<and> so_id (se_owner e) \<noteq> 0 \<longrightarrow> i \<in> set (os_withOwner w) \<or> se_dirtySimulatorID e)
     \<and> (se_simulated e \<and> se_dirtySimulatorID e \<longrightarrow> i \<in> set (os_changed w))
     \<and> (i \<in> set (os_withOwner w) \<longrightarrow> se_simulated e \<and> os_nextStale w \<le> se_ownershipExpiry e)"

definition own_inv :: "ownership_server \<Rightarrow> bool" where
  "own_inv w \<longleftrightarrow> set (os_changed w) \<union> set (os_withOwner w) \<union> set (os_needOwner w) \<subseteq> dom (os_entities w)
     \<and> (\<forall>i e. os_entities w i = Some e \<longrightarrow> own_entity_inv w i e)"

lemma simulation_addEntity_eq:
  "simulation_addEntity entityID e w =
     (let w1 = w\<lparr>os_entities := (os_entities w)(entityID \<mapsto> server_clearDirtyFlags (e\<lparr>se_simulated := True\<rparr>))\<rparr>
      in if so_id (se_owner e) = 0 then w1
         else w1\<lparr>os_withOwner := List.insert entityID (os_withOwner w1),
                 os_nextStale := min (os_nextStale w1) (se_ownershipExpiry e)\<rparr>)"
  by (simp add: simulation_addEntity_def addEntityToInternalLists_def Let_def)

lemma own_invD: "own_inv w \<Longrightarrow> os_entities w i = Some e \<Longrightarrow> own_entity_inv w i e"
  by (simp add: own_inv_def)

lemma own_inv_start: "own_inv ownership_server_new"
  by (simp add: own_inv_def ownership_server_new_def)

text \<open>An entity changes, and the lists for it alone.\<close>

lemma own_inv_upd:
  assumes "own_inv w" "os_now w \<le> os_now w'" "os_entities w' = (os_entities w)(i \<mapsto> e)" "own_entity_inv w' i e"
    and "\<And>j. j \<noteq> i \<Longrightarrow> j \<in> set (os_changed w') \<longleftrightarrow> j \<in> set (os_changed w)"
    and "\<And>j. j \<noteq> i \<Longrightarrow> j \<in> set (os_withOwner w') \<longleftrightarrow> j \<in> set (os_withOwner w)"
    and "\<And>j. j \<noteq> i \<Longrightarrow> j \<in> set (os_needOwner w') \<Longrightarrow> j \<in> set (os_needOwner w)" "os_nextStale w' \<le> os_nextStale w"
  shows "own_inv w'"
  unfolding own_inv_def
proof (intro conjI allI impI)
  show "set (os_changed w') \<union> set (os_withOwner w') \<union> set (os_needOwner w') \<subseteq> dom (os_entities w')"
    using assms(1,3,5-7) unfolding own_inv_def by (fastforce split: if_splits)
  show "own_entity_inv w' j f" if "os_entities w' j = Some f" for j f
  proof (cases "j = i")
    case False
    then have "own_entity_inv w j f" using assms(1,3) that by (simp add: own_invD)
    then show ?thesis using assms(2,5,6,8) False by (auto simp: own_entity_inv_def)
  qed (use that assms(3,4) in simp)
qed

lemma set_owner_laws:
  assumes "EntityItem_setProperties now edit e = e'"
  shows "se_ownershipExpiry e' = se_ownershipExpiry e" "se_simulated e' = se_simulated e"
    "se_dirtySimulatorID e \<Longrightarrow> se_dirtySimulatorID e'" "so_id (se_owner e') \<noteq> so_id (se_owner e) \<Longrightarrow> se_dirtySimulatorID e'"
    "oe_ownerChanged edit \<Longrightarrow> so_id (se_owner e') = so_id (oe_owner edit)"
    "\<not> oe_ownerChanged edit \<Longrightarrow> se_owner e' = se_owner e \<and> se_dirtySimulatorID e' = se_dirtySimulatorID e"
  by (auto simp: EntityItem_setProperties_def EntityItem_setSimulationOwner_def SimulationOwner_setOwner_def SimulationOwner_set_def
      SimulationOwner_setID_def SimulationOwner_setPriority_def SimulationOwner_updateExpiry_def Let_def
      simp flip: assms split: if_splits prod.splits)

lemma arbitrate_laws:
  assumes "arbitrate_ownership now senderID edit e = Some (blocked, edit1, e1)"
  shows "e1 = e \<or> e1 = e\<lparr>se_ownershipExpiry := now + MAX_INCOMING_SIMULATION_UPDATE_PERIOD\<rparr>"
  using assms by (auto simp: arbitrate_ownership_def Let_def split: if_splits)

text \<open>What an edit keeps of the entity, whoever sends it.\<close>

lemma updateEntity_laws:
  assumes "EntityTree_updateEntity now allow senderID edit e = (ok, applied, e')"
  shows "se_simulated e' = se_simulated e" "se_dirtySimulatorID e \<Longrightarrow> se_dirtySimulatorID e'"
    "so_id (se_owner e') \<noteq> so_id (se_owner e) \<Longrightarrow> se_dirtySimulatorID e'"
    "se_ownershipExpiry e' = se_ownershipExpiry e \<or> se_ownershipExpiry e' = now + MAX_INCOMING_SIMULATION_UPDATE_PERIOD"
proof -
  have "se_simulated e' = se_simulated e \<and> (se_dirtySimulatorID e \<longrightarrow> se_dirtySimulatorID e')
    \<and> (so_id (se_owner e') \<noteq> so_id (se_owner e) \<longrightarrow> se_dirtySimulatorID e')
    \<and> (se_ownershipExpiry e' = se_ownershipExpiry e \<or> se_ownershipExpiry e' = now + MAX_INCOMING_SIMULATION_UPDATE_PERIOD)"
  proof (cases "arbitrate_ownership now senderID edit e")
    case None
    then show ?thesis using assms by (auto simp: EntityTree_updateEntity_def split: if_splits)
  next
    case (Some r)
    obtain blocked edit1 e1 where r: "r = (blocked, edit1, e1)" by (cases r)
    obtain edit2 where e2: "(if blocked then squash_physics edit1 else edit1) = edit2" by blast
    have a: "e1 = e \<or> e1 = e\<lparr>se_ownershipExpiry := now + MAX_INCOMING_SIMULATION_UPDATE_PERIOD\<rparr>"
      using arbitrate_laws Some r by blast
    obtain e3 where e3: "EntityItem_setProperties now edit2 e1 = e3" by blast
    note s = set_owner_laws [OF e3]
    have "se_simulated e3 = se_simulated e \<and> (se_dirtySimulatorID e \<longrightarrow> se_dirtySimulatorID e3)
      \<and> (so_id (se_owner e3) \<noteq> so_id (se_owner e) \<longrightarrow> se_dirtySimulatorID e3)
      \<and> (se_ownershipExpiry e3 = se_ownershipExpiry e \<or> se_ownershipExpiry e3 = now + MAX_INCOMING_SIMULATION_UPDATE_PERIOD)"
      using a s(1-4) by auto
    then show ?thesis
      using assms Some r e2 e3 by (auto simp: EntityTree_updateEntity_def Let_def split: if_splits)
  qed
  then show "se_simulated e' = se_simulated e" "se_dirtySimulatorID e \<Longrightarrow> se_dirtySimulatorID e'"
    "so_id (se_owner e') \<noteq> so_id (se_owner e) \<Longrightarrow> se_dirtySimulatorID e'"
    "se_ownershipExpiry e' = se_ownershipExpiry e \<or> se_ownershipExpiry e' = now + MAX_INCOMING_SIMULATION_UPDATE_PERIOD"
    by blast+
qed

lemma own_inv_edit:
  assumes i: "own_inv w" and n: "os_now w \<le> now" and st: "EntityTree_editEntity now allow senderID edit j w = Some (ok, w')"
  shows "own_inv w'"
proof -
  obtain e where e: "os_entities w j = Some e" using st by (auto simp: EntityTree_editEntity_def split: Option.bind_splits)
  obtain ok1 ap e1 where u: "EntityTree_updateEntity now allow senderID edit e = (ok1, ap, e1)" by (rule prod_cases3)
  note ul = updateEntity_laws [OF u]
  obtain new where new: "(se_dirtySimulatorID e1 \<and> \<not> se_dirtySimulatorID e) = new" by blast
  obtain e2 where e2: "(if new \<and> \<not> se_simulated e1 then server_clearDirtyFlags e1 else e1) = e2" by blast
  have w': "w' = w\<lparr>os_now := now, os_entities := (os_entities w)(j \<mapsto> e2),
      os_changed := if new \<and> se_simulated e1 then List.insert j (os_changed w) else os_changed w\<rparr>"
    using st unfolding EntityTree_editEntity_def e Option.bind.bind_lunit u prod.case Let_def new e2 by simp
  have ei: "own_entity_inv w j e" by (rule own_invD [OF i e])
  have "own_entity_inv w' j e2"
  proof (cases "se_simulated e")
    case True
    then have "e2 = e1" using ul(1) e2 by auto
    then show ?thesis
      using ei ul(1-4) n new True unfolding own_entity_inv_def w' by (cases "se_dirtySimulatorID e") auto
  next
    case False
    then have "\<not> se_simulated e2" "se_ownershipExpiry e2 = se_ownershipExpiry e1" "j \<notin> set (os_withOwner w)"
      using ul(1) ei by (auto simp: server_clearDirtyFlags_def own_entity_inv_def simp flip: e2)
    then show ?thesis using ei ul(4) n unfolding own_entity_inv_def w' by auto
  qed
  then show ?thesis
    by (intro own_inv_upd [OF i, of w' j e2]) (auto simp: w' n)
qed

text \<open>Processing one change.\<close>

lemma processChangedEntity_laws:
  assumes i: "own_inv w" and e: "os_entities w j = Some e" "se_simulated e" and st: "processChangedEntity j w = Some w'"
  shows "own_inv w' \<and> os_now w' = os_now w \<and> os_changed w' = os_changed w
    \<and> os_entities w' = (os_entities w)(j \<mapsto> server_clearDirtyFlags e)"
proof -
  have ei: "own_entity_inv w j e" by (rule own_invD [OF i e(1)])
  obtain dirty where d: "(se_dirtySimulatorID e \<or> se_dirtyVelocities e) = dirty" by blast
  obtain owned where o: "(so_id (se_owner e) \<noteq> 0) = owned" by blast
  obtain w1 where w1: "(if dirty
             then (if so_id (se_owner e) = 0 then w\<lparr>os_withOwner := removeAll j (os_withOwner w)\<rparr>
                   else w\<lparr>os_withOwner := List.insert j (os_withOwner w),
                          os_nextStale := min (os_nextStale w) (se_ownershipExpiry e),
                          os_needOwner := removeAll j (os_needOwner w)\<rparr>)
             else w) = w1" by blast
  have w': "w' = w1\<lparr>os_entities := (os_entities w1)(j \<mapsto> server_clearDirtyFlags e)\<rparr>"
    using st unfolding processChangedEntity_def e(1) Option.bind.bind_lunit Let_def d w1 by simp
  have k: "os_now w1 = os_now w" "os_changed w1 = os_changed w" "os_entities w1 = os_entities w" "os_nextStale w1 \<le> os_nextStale w"
      "k \<noteq> j \<Longrightarrow> k \<in> set (os_withOwner w1) \<longleftrightarrow> k \<in> set (os_withOwner w)"
      "k \<noteq> j \<Longrightarrow> k \<in> set (os_needOwner w1) \<Longrightarrow> k \<in> set (os_needOwner w)"
      "j \<in> set (os_withOwner w1) \<longleftrightarrow> (if dirty then owned else j \<in> set (os_withOwner w))"
      "j \<in> set (os_withOwner w1) \<Longrightarrow> dirty \<Longrightarrow> os_nextStale w1 \<le> se_ownershipExpiry e" for k
    unfolding w1 [symmetric] o [symmetric] by (cases dirty; cases "so_id (se_owner e) = 0"; simp)+
  have "own_entity_inv w1 j (server_clearDirtyFlags e)"
    using ei e(2) k(1,2,4,7,8) d o by (cases dirty) (auto simp: own_entity_inv_def server_clearDirtyFlags_def)
  then have "own_entity_inv w' j (server_clearDirtyFlags e)" by (simp add: w' own_entity_inv_def)
  then have "own_inv w'" using k by (intro own_inv_upd [OF i, of w' j]) (auto simp: w')
  then show ?thesis using k(1-3) by (simp add: w')
qed

lemma processChanged_loop_laws:
  "own_inv w \<Longrightarrow> set ids \<subseteq> set (os_changed w) \<Longrightarrow> \<exists>w'. processChanged_loop ids w = Some w' \<and> own_inv w' \<and> os_now w' = os_now w
    \<and> os_changed w' = os_changed w
    \<and> (\<forall>j. os_entities w' j = map_option (\<lambda>e. if j \<in> set ids \<and> se_simulated e then server_clearDirtyFlags e else e) (os_entities w j))"
proof (induction ids arbitrary: w)
  case Nil
  then show ?case by (simp add: map_option.id [unfolded id_def])
next
  case (Cons i ids)
  have "i \<in> dom (os_entities w)" using Cons.prems by (auto simp: own_inv_def)
  then obtain e where e: "os_entities w i = Some e" by blast
  obtain w1 where w1: "(if se_simulated e then processChangedEntity i w else Some w) = Some w1"
    by (cases "se_simulated e") (simp_all add: processChangedEntity_def e Let_def)
  have l1: "own_inv w1 \<and> os_now w1 = os_now w \<and> os_changed w1 = os_changed w
      \<and> os_entities w1 = (os_entities w)(i \<mapsto> if se_simulated e then server_clearDirtyFlags e else e)"
  proof (cases "se_simulated e")
    case True
    then show ?thesis using processChangedEntity_laws [OF Cons.prems(1) e True] w1 by simp
  next
    case False
    then show ?thesis using w1 Cons.prems(1) e by auto
  qed
  then obtain w' where w': "processChanged_loop ids w1 = Some w'" "own_inv w'" "os_now w' = os_now w1" "os_changed w' = os_changed w1"
      "\<forall>j. os_entities w' j = map_option (\<lambda>e. if j \<in> set ids \<and> se_simulated e then server_clearDirtyFlags e else e) (os_entities w1 j)"
    using Cons.IH [of w1] Cons.prems(2) by auto
  have "processChanged_loop (i # ids) w = Some w'" using e w1 w'(1) by simp
  moreover have "os_entities w' j = map_option (\<lambda>e. if j \<in> set (i # ids) \<and> se_simulated e then server_clearDirtyFlags e else e) (os_entities w j)" for j
    using w'(5) l1 e by (cases "j = i") (auto simp: server_clearDirtyFlags_def)
  ultimately show ?case using w'(2-4) l1 by metis
qed

lemma processChangedEntities_laws:
  assumes "own_inv w"
  shows "\<exists>w'. processChangedEntities w = Some w' \<and> own_inv w' \<and> os_now w' = os_now w
    \<and> (\<forall>j. os_entities w' j = map_option (\<lambda>e. if j \<in> set (os_changed w) \<and> se_simulated e then server_clearDirtyFlags e else e) (os_entities w j))
    \<and> (\<forall>j e. os_entities w' j = Some e \<longrightarrow> se_simulated e \<longrightarrow> \<not> se_dirtySimulatorID e)"
proof -
  obtain w1 where w1: "processChanged_loop (os_changed w) w = Some w1" "own_inv w1" "os_now w1 = os_now w"
      "\<forall>j. os_entities w1 j = map_option (\<lambda>e. if j \<in> set (os_changed w) \<and> se_simulated e then server_clearDirtyFlags e else e) (os_entities w j)"
    using processChanged_loop_laws [OF assms subset_refl] by blast
  have clean: "\<not> se_dirtySimulatorID e" if es: "os_entities w1 j = Some e" and sim: "se_simulated e" for j e
  proof -
    obtain e0 where e0: "os_entities w j = Some e0" "e = (if j \<in> set (os_changed w) \<and> se_simulated e0 then server_clearDirtyFlags e0 else e0)"
      using es unfolding w1(4) [rule_format, of j] by (cases "os_entities w j") simp_all
    show ?thesis
    proof (cases "j \<in> set (os_changed w) \<and> se_simulated e0")
      case True
      then show ?thesis using e0 by (simp add: server_clearDirtyFlags_def)
    next
      case False
      then show ?thesis using e0 sim own_invD [OF assms e0(1)] by (auto simp: own_entity_inv_def)
    qed
  qed
  have "own_inv (w1\<lparr>os_changed := []\<rparr>)"
  proof -
    have "own_entity_inv (w1\<lparr>os_changed := []\<rparr>) j e" if "os_entities w1 j = Some e" for j e
      using own_invD [OF w1(2) that] clean [OF that] by (simp add: own_entity_inv_def)
    then show ?thesis using w1(2) by (simp add: own_inv_def)
  qed
  then show ?thesis
    using w1 clean by (intro exI [of _ "w1\<lparr>os_changed := []\<rparr>"]) (simp add: processChangedEntities_def)
qed

text \<open>The search for stale ownership: exactly the stale entities of the set lose their owner and leave it.\<close>

definition expire_one :: "nat \<Rightarrow> server_entity \<Rightarrow> server_entity" where
  "expire_one now e = (if se_ownershipExpiry e < now then EntityItem_clearSimulationOwnership e\<lparr>se_changedOnServer := now\<rparr> else e)"

lemma expire_one_laws [simp]:
  "se_ownershipExpiry (expire_one now e) = se_ownershipExpiry e" "se_simulated (expire_one now e) = se_simulated e"
  "se_dirtySimulatorID (expire_one now e) = se_dirtySimulatorID e"
  "so_id (se_owner (expire_one now e)) = (if se_ownershipExpiry e < now then 0 else so_id (se_owner e))"
  by (simp_all add: expire_one_def EntityItem_clearSimulationOwnership_def SimulationOwner_clear_def)

lemma expire_one_twice: "expire_one now (expire_one now e) = expire_one now e"
  by (simp add: expire_one_def EntityItem_clearSimulationOwnership_def SimulationOwner_clear_def)

lemma expireStale_loop_laws:
  "set ids \<subseteq> dom es \<Longrightarrow> \<exists>es' kept' next'. expireStale_loop now ids es kept next = Some (es', kept', next')
    \<and> (\<forall>j. es' j = map_option (\<lambda>e. if j \<in> set ids then expire_one now e else e) (es j))
    \<and> set kept' = set kept \<union> {j \<in> set ids. \<exists>e. es j = Some e \<and> now \<le> se_ownershipExpiry e}
    \<and> next' \<le> next \<and> (\<forall>j \<in> set ids. \<forall>e. es j = Some e \<longrightarrow> now \<le> se_ownershipExpiry e \<longrightarrow> next' \<le> se_ownershipExpiry e)"
proof (induction ids arbitrary: es kept "next")
  case Nil
  then show ?case by (simp add: map_option.id [unfolded id_def])
next
  case (Cons i ids)
  obtain e where e: "es i = Some e" using Cons.prems by auto
  obtain es1 kept1 next1 where s: "es(i \<mapsto> expire_one now e) = es1"
      "(if now > se_ownershipExpiry e then kept else kept @ [i]) = kept1"
      "(if now > se_ownershipExpiry e then next else min next (se_ownershipExpiry e)) = next1" by blast
  have step: "expireStale_loop now (i # ids) es kept next = expireStale_loop now ids es1 kept1 next1"
  proof (cases "now > se_ownershipExpiry e")
    case True
    then show ?thesis using s e by (simp add: Let_def expire_one_def)
  next
    case False
    then have "es1 = es" using s e by (auto simp: expire_one_def)
    then show ?thesis using s e False by (simp add: Let_def)
  qed
  have d: "set ids \<subseteq> dom es1" using Cons.prems s(1) by auto
  have x: "(\<exists>f. es1 j = Some f \<and> now \<le> se_ownershipExpiry f) \<longleftrightarrow> (\<exists>f. es j = Some f \<and> now \<le> se_ownershipExpiry f)" for j
    using e by (auto simp flip: s(1))
  obtain es' kept' next' where r: "expireStale_loop now ids es1 kept1 next1 = Some (es', kept', next')"
    "\<forall>j. es' j = map_option (\<lambda>e. if j \<in> set ids then expire_one now e else e) (es1 j)"
    "set kept' = set kept1 \<union> {j \<in> set ids. \<exists>e. es1 j = Some e \<and> now \<le> se_ownershipExpiry e}"
    "next' \<le> next1" "\<forall>j \<in> set ids. \<forall>e. es1 j = Some e \<longrightarrow> now \<le> se_ownershipExpiry e \<longrightarrow> next' \<le> se_ownershipExpiry e"
    using Cons.IH [OF d] by blast
  have "es' j = map_option (\<lambda>e. if j \<in> set (i # ids) then expire_one now e else e) (es j)" for j
    using r(2) e by (cases "j = i") (auto simp: expire_one_twice simp flip: s(1))
  moreover have "set kept' = set kept \<union> {j \<in> set (i # ids). \<exists>e. es j = Some e \<and> now \<le> se_ownershipExpiry e}"
    unfolding r(3) x using e by (auto simp flip: s(2))
  moreover have "next' \<le> next" using r(4) s(3) by (auto split: if_splits)
  moreover have "next' \<le> se_ownershipExpiry f" if "j \<in> set (i # ids)" "es j = Some f" "now \<le> se_ownershipExpiry f" for j f
  proof (cases "j = i")
    case True
    then show ?thesis using that(2,3) r(4) s(3) e by (auto split: if_splits)
  next
    case False
    then show ?thesis using that r(5) s(1) by auto
  qed
  ultimately show ?case
    unfolding step r(1) by (intro exI [of _ es'] exI [of _ kept'] exI [of _ next']) blast
qed

text \<open>An update: the stale entities lose their owner, the orphans of too long a standing are stopped.\<close>

lemma expireStale_laws:
  assumes i: "own_inv w"
  shows "\<exists>w'. expireStaleOwnerships now w = Some w' \<and> own_inv w' \<and> os_now w' = os_now w
    \<and> (\<forall>j. os_entities w' j = map_option (\<lambda>e. if j \<in> set (os_withOwner w) then expire_one now e else e) (os_entities w j))
    \<and> (\<forall>j \<in> set (os_withOwner w'). \<forall>e. os_entities w' j = Some e \<longrightarrow> now \<le> se_ownershipExpiry e)
    \<and> set (os_withOwner w') = {j \<in> set (os_withOwner w). \<exists>e. os_entities w j = Some e \<and> now \<le> se_ownershipExpiry e}"
proof (cases "now > os_nextStale w")
  case True
  have d: "set (os_withOwner w) \<subseteq> dom (os_entities w)" using i by (simp add: own_inv_def)
  obtain es' kept' next' where r: "expireStale_loop now (os_withOwner w) (os_entities w) [] UINT64_MAX = Some (es', kept', next')"
    "\<forall>j. es' j = map_option (\<lambda>e. if j \<in> set (os_withOwner w) then expire_one now e else e) (os_entities w j)"
    "set kept' = {j \<in> set (os_withOwner w). \<exists>e. os_entities w j = Some e \<and> now \<le> se_ownershipExpiry e}"
    "\<forall>j \<in> set (os_withOwner w). \<forall>e. os_entities w j = Some e \<longrightarrow> now \<le> se_ownershipExpiry e \<longrightarrow> next' \<le> se_ownershipExpiry e"
    using expireStale_loop_laws [OF d, of now "[]" UINT64_MAX] by auto
  obtain w' where w': "w\<lparr>os_entities := es', os_withOwner := kept', os_nextStale := next'\<rparr> = w'" by blast
  have f: "os_now w' = os_now w" "os_changed w' = os_changed w" "os_needOwner w' = os_needOwner w" "os_entities w' = es'"
      "os_withOwner w' = kept'" "os_nextStale w' = next'"
    by (simp_all flip: w')
  have old: "\<exists>e0. os_entities w j = Some e0 \<and> e = (if j \<in> set (os_withOwner w) then expire_one now e0 else e0)" if "es' j = Some e" for j e
    using that unfolding r(2) [rule_format, of j] by (cases "os_entities w j") simp_all
  have ei: "own_entity_inv w' j e" if es: "es' j = Some e" for j e
  proof -
    obtain e0 where e0: "os_entities w j = Some e0" "e = (if j \<in> set (os_withOwner w) then expire_one now e0 else e0)"
      using old [OF es] by blast
    note k = own_invD [OF i e0(1), unfolded own_entity_inv_def]
    show ?thesis
      using k e0 r(4) unfolding own_entity_inv_def f r(3)
      by (cases "j \<in> set (os_withOwner w)"; cases "se_ownershipExpiry e0 < now") auto
  qed
  have "dom es' = dom (os_entities w)" using r(2) by (auto simp: dom_def)
  then have "own_inv w'"
    using i ei r(3) unfolding own_inv_def f by auto
  moreover have "now \<le> se_ownershipExpiry e" if "j \<in> set kept'" "es' j = Some e" for j e
    using old [OF that(2)] that(1) r(3) by auto
  moreover have "expireStaleOwnerships now w = Some w'" using True r(1) w' by (simp add: expireStaleOwnerships_def)
  ultimately show ?thesis using f r(2,3) by (intro exI [of _ w']) simp
next
  case False
  have k: "now \<le> se_ownershipExpiry e" if "os_entities w j = Some e" "j \<in> set (os_withOwner w)" for j e
    using own_invD [OF i that(1)] that(2) False by (auto simp: own_entity_inv_def)
  then have m: "os_entities w j = map_option (\<lambda>e. if j \<in> set (os_withOwner w) then expire_one now e else e) (os_entities w j)" for j
    by (cases "os_entities w j") (auto simp: expire_one_def dest: leD)
  have x: "\<exists>e. os_entities w j = Some e \<and> now \<le> se_ownershipExpiry e" if "j \<in> set (os_withOwner w)" for j
    using i that k by (auto simp: own_inv_def)
  have "set (os_withOwner w) = {j \<in> set (os_withOwner w). \<exists>e. os_entities w j = Some e \<and> now \<le> se_ownershipExpiry e}"
    using x by blast
  moreover have "expireStaleOwnerships now w = Some w" using False by (simp add: expireStaleOwnerships_def)
  ultimately show ?thesis using i k m by blast
qed

text \<open>Stopping orphans changes neither owners nor expiries.\<close>

definition same_ownership :: "server_entity \<Rightarrow> server_entity \<Rightarrow> bool" where
  "same_ownership e e' \<longleftrightarrow> se_owner e' = se_owner e \<and> se_ownershipExpiry e' = se_ownershipExpiry e
     \<and> se_simulated e' = se_simulated e \<and> se_dirtySimulatorID e' = se_dirtySimulatorID e"

lemma same_ownership_refl [simp]: "same_ownership e e"
  by (simp add: same_ownership_def)

lemma same_ownership_trans: "same_ownership a b \<Longrightarrow> same_ownership b c \<Longrightarrow> same_ownership a c"
  by (simp add: same_ownership_def)

lemma own_entity_inv_same: "own_entity_inv w i e \<Longrightarrow> same_ownership e e' \<Longrightarrow> own_entity_inv w i e'"
  by (simp add: own_entity_inv_def same_ownership_def)

lemma stopOwnerless_loop_laws:
  "set ids \<subseteq> dom es \<Longrightarrow> \<exists>es' kept' next'. stopOwnerless_loop now ids es kept next = Some (es', kept', next')
    \<and> dom es' = dom es \<and> (\<forall>j e e'. es j = Some e \<longrightarrow> es' j = Some e' \<longrightarrow> same_ownership e e') \<and> set kept' \<subseteq> set kept \<union> set ids"
proof (induction ids arbitrary: es kept "next")
  case (Cons i ids)
  obtain e where e: "es i = Some e" using Cons.prems by auto
  obtain es1 kept1 next1 where s: "stopOwnerless_loop now (i # ids) es kept next = stopOwnerless_loop now ids es1 kept1 next1"
      "dom es1 = dom es" "\<forall>j e e'. es j = Some e \<longrightarrow> es1 j = Some e' \<longrightarrow> same_ownership e e'" "set kept1 \<subseteq> set kept \<union> {i}"
  proof (cases "se_changedOnServer e + MAX_OWNERLESS_PERIOD < now")
    case True
    show ?thesis
    proof (rule that)
      show "stopOwnerless_loop now (i # ids) es kept next = stopOwnerless_loop now ids
          (if so_id (se_owner e) = 0 \<and> se_dynamic e \<and> se_hasLocalVelocity e
           then es(i \<mapsto> e\<lparr>se_hasLocalVelocity := False, se_dirtyVelocities := True, se_changedOnServer := now\<rparr>) else es) kept next"
        using True e by (simp add: Let_def)
    qed (use e in \<open>auto simp: same_ownership_def\<close>)
  next
    case False
    show ?thesis
    proof (rule that)
      show "stopOwnerless_loop now (i # ids) es kept next
          = stopOwnerless_loop now ids es (kept @ [i]) (min next (se_changedOnServer e + MAX_OWNERLESS_PERIOD))"
        using False e by (simp add: Let_def)
    qed auto
  qed
  have "set ids \<subseteq> dom es1" using Cons.prems s(2) by auto
  from Cons.IH [OF this, of kept1 next1] obtain es' kept' next' where r:
    "stopOwnerless_loop now ids es1 kept1 next1 = Some (es', kept', next')" "dom es' = dom es1"
    "\<forall>j e e'. es1 j = Some e \<longrightarrow> es' j = Some e' \<longrightarrow> same_ownership e e'" "set kept' \<subseteq> set kept1 \<union> set ids" by blast
  have "same_ownership e e'" if a: "es j = Some e" and b: "es' j = Some e'" for j e e'
  proof -
    have "j \<in> dom es1" using a unfolding s(2) by blast
    then obtain f where "es1 j = Some f" by blast
    then show ?thesis using a b s(3) r(3) same_ownership_trans by blast
  qed
  moreover have "dom es' = dom es" using r(2) s(2) by simp
  moreover have "set kept' \<subseteq> set kept \<union> set (i # ids)" using r(4) s(4) by auto
  ultimately show ?case using s(1) r(1) by (intro exI [of _ es'] exI [of _ kept'] exI [of _ next']) simp
qed auto

lemma stopOwnerless_laws:
  assumes i: "own_inv w"
  shows "\<exists>w'. stopOwnerlessEntities now w = Some w' \<and> own_inv w' \<and> os_now w' = os_now w \<and> os_withOwner w' = os_withOwner w
    \<and> dom (os_entities w') = dom (os_entities w)
    \<and> (\<forall>j e e'. os_entities w j = Some e \<longrightarrow> os_entities w' j = Some e' \<longrightarrow> same_ownership e e')"
proof (cases "now > os_nextOwnerless w")
  case True
  have d: "set (os_needOwner w) \<subseteq> dom (os_entities w)" using i by (simp add: own_inv_def)
  obtain es' kept' next' where r: "stopOwnerless_loop now (os_needOwner w) (os_entities w) [] UINT64_MAX = Some (es', kept', next')"
    "dom es' = dom (os_entities w)" "\<forall>j e e'. os_entities w j = Some e \<longrightarrow> es' j = Some e' \<longrightarrow> same_ownership e e'"
    "set kept' \<subseteq> set (os_needOwner w)"
    using stopOwnerless_loop_laws [OF d, of now "[]" UINT64_MAX] by auto
  obtain w' where w': "w\<lparr>os_entities := es', os_needOwner := kept', os_nextOwnerless := next'\<rparr> = w'" by blast
  have "own_entity_inv w' j e'" if a: "es' j = Some e'" for j e'
  proof -
    have "j \<in> dom (os_entities w)" using a unfolding r(2) [symmetric] by blast
    then obtain e where e: "os_entities w j = Some e" by blast
    have "own_entity_inv w j e'"
      by (rule own_entity_inv_same [OF own_invD [OF i e] r(3) [rule_format, OF e a]])
    then show ?thesis by (simp add: own_entity_inv_def flip: w')
  qed
  moreover have f: "os_now w' = os_now w" "os_changed w' = os_changed w" "os_needOwner w' = kept'" "os_entities w' = es'"
      "os_withOwner w' = os_withOwner w"
    by (simp_all flip: w')
  moreover have "set (os_changed w) \<union> set (os_withOwner w) \<union> set kept' \<subseteq> dom es'"
    using i r(4) unfolding own_inv_def r(2) by blast
  ultimately have "own_inv w'" unfolding own_inv_def f by blast
  moreover have "stopOwnerlessEntities now w = Some w'" using True r(1) w' by (simp add: stopOwnerlessEntities_def)
  ultimately show ?thesis using f r(2,3) by metis
qed (use i in \<open>auto simp: stopOwnerlessEntities_def\<close>)

lemma own_inv_later:
  assumes i: "own_inv w" and n: "os_now w \<le> now"
  shows "own_inv (w\<lparr>os_now := now\<rparr>)"
proof -
  have "own_entity_inv (w\<lparr>os_now := now\<rparr>) j e" if "os_entities w j = Some e" for j e
    using own_invD [OF i that] n by (auto simp: own_entity_inv_def)
  then show ?thesis using i by (simp add: own_inv_def)
qed

lemma update_step_laws:
  assumes "own_inv w" "os_now w \<le> now"
  shows "\<exists>w'. simulation_updateEntities now w = Some w' \<and> own_inv w' \<and> dom (os_entities w') = dom (os_entities w)
    \<and> (\<forall>j e e'. os_entities w j = Some e \<longrightarrow> os_entities w' j = Some e'
        \<longrightarrow> same_ownership (if j \<in> set (os_withOwner w) then expire_one now e else e) e')
    \<and> set (os_withOwner w') = {j \<in> set (os_withOwner w). \<exists>e. os_entities w j = Some e \<and> now \<le> se_ownershipExpiry e}
    \<and> (\<forall>j \<in> set (os_withOwner w'). \<forall>e. os_entities w' j = Some e \<longrightarrow> now \<le> se_ownershipExpiry e)"
proof -
  obtain w0 where w0: "w\<lparr>os_now := now\<rparr> = w0" by blast
  have f0: "os_entities w0 = os_entities w" "os_withOwner w0 = os_withOwner w" by (simp_all flip: w0)
  have i0: "own_inv w0" using own_inv_later [OF assms] w0 by simp
  obtain w1 where w1: "expireStaleOwnerships now w0 = Some w1" "own_inv w1"
    "\<forall>j. os_entities w1 j = map_option (\<lambda>e. if j \<in> set (os_withOwner w) then expire_one now e else e) (os_entities w j)"
    "\<forall>j \<in> set (os_withOwner w1). \<forall>e. os_entities w1 j = Some e \<longrightarrow> now \<le> se_ownershipExpiry e"
    "set (os_withOwner w1) = {j \<in> set (os_withOwner w). \<exists>e. os_entities w j = Some e \<and> now \<le> se_ownershipExpiry e}"
    using expireStale_laws [OF i0, of now] unfolding f0 by blast
  obtain w2 where w2: "stopOwnerlessEntities now w1 = Some w2" "own_inv w2" "os_withOwner w2 = os_withOwner w1"
    "dom (os_entities w2) = dom (os_entities w1)"
    "\<forall>j e e'. os_entities w1 j = Some e \<longrightarrow> os_entities w2 j = Some e' \<longrightarrow> same_ownership e e'"
    using stopOwnerless_laws [OF w1(2), of now] by blast
  have d: "dom (os_entities w1) = dom (os_entities w)" using w1(3) by (auto simp: dom_def)
  have "now \<le> se_ownershipExpiry e" if a: "j \<in> set (os_withOwner w2)" and b: "os_entities w2 j = Some e" for j e
  proof -
    have "j \<in> dom (os_entities w1)" using b unfolding w2(4) [symmetric] by blast
    then obtain f where f: "os_entities w1 j = Some f" by blast
    have "same_ownership f e" by (rule w2(5) [rule_format, OF f b])
    moreover have "now \<le> se_ownershipExpiry f" using w1(4) f a w2(3) by simp
    ultimately show ?thesis by (simp add: same_ownership_def)
  qed
  moreover have "simulation_updateEntities now w = Some w2"
    using w1(1) w2(1) w0 by (simp add: simulation_updateEntities_def)
  moreover have "same_ownership (if j \<in> set (os_withOwner w) then expire_one now e else e) e'"
    if "os_entities w j = Some e" "os_entities w2 j = Some e'" for j e e'
  proof (rule w2(5) [rule_format, OF _ that(2)])
    show "os_entities w1 j = Some (if j \<in> set (os_withOwner w) then expire_one now e else e)" using w1(3) that(1) by simp
  qed
  moreover have "set (os_withOwner w2) = {j \<in> set (os_withOwner w). \<exists>e. os_entities w j = Some e \<and> now \<le> se_ownershipExpiry e}"
    using w1(5) w2(3) by simp
  moreover have "dom (os_entities w2) = dom (os_entities w)" using w2(4) d by simp
  ultimately show ?thesis using w2(2) by blast
qed

section \<open>Every step keeps the invariant\<close>

text \<open>A participant leaves: what it owns is cleared and leaves the set.\<close>

definition give_up :: "nat \<Rightarrow> server_entity \<Rightarrow> server_entity" where
  "give_up now e = EntityItem_clearSimulationOwnership e\<lparr>se_changedOnServer := now\<rparr>"

lemma give_up_laws [simp]:
  "se_ownershipExpiry (give_up now e) = se_ownershipExpiry e" "se_simulated (give_up now e) = se_simulated e"
  "se_dirtySimulatorID (give_up now e) = se_dirtySimulatorID e" "so_id (se_owner (give_up now e)) = 0" "give_up now (give_up now e) = give_up now e"
  by (simp_all add: give_up_def EntityItem_clearSimulationOwnership_def SimulationOwner_clear_def)

lemma clearOwnership_loop_laws:
  "set ids \<subseteq> dom (os_entities w) \<Longrightarrow> \<exists>w'. clearOwnership_loop now ownerID ids kept w = Some w'
    \<and> (\<forall>j. os_entities w' j
         = map_option (\<lambda>e. if j \<in> set ids \<and> so_id (se_owner e) = ownerID then give_up now e else e) (os_entities w j))
    \<and> os_now w' = os_now w \<and> os_changed w' = os_changed w \<and> os_nextStale w' = os_nextStale w
    \<and> set (os_needOwner w') \<subseteq> set (os_needOwner w) \<union> set ids \<and> set (os_withOwner w') \<subseteq> set kept \<union> set ids
    \<and> set kept \<subseteq> set (os_withOwner w')
    \<and> (\<forall>j \<in> set ids. \<forall>e. os_entities w j = Some e \<longrightarrow> so_id (se_owner e) \<noteq> ownerID \<longrightarrow> j \<in> set (os_withOwner w'))"
proof (induction ids arbitrary: w kept)
  case Nil
  then show ?case by (simp add: map_option.id [unfolded id_def])
next
  case (Cons i ids)
  obtain e where e: "os_entities w i = Some e" using Cons.prems by auto
  obtain w1 kept1 where s: "clearOwnership_loop now ownerID (i # ids) kept w = clearOwnership_loop now ownerID ids kept1 w1"
      "os_entities w1 = (os_entities w)(i \<mapsto> if so_id (se_owner e) = ownerID then give_up now e else e)"
      "os_now w1 = os_now w" "os_changed w1 = os_changed w" "os_nextStale w1 = os_nextStale w"
      "set (os_needOwner w1) \<subseteq> insert i (set (os_needOwner w))" "set kept \<subseteq> set kept1" "set kept1 \<subseteq> insert i (set kept)"
      "so_id (se_owner e) \<noteq> ownerID \<Longrightarrow> i \<in> set kept1"
  proof (cases "so_id (se_owner e) = ownerID")
    case True
    obtain w0 where w0: "(if se_dynamic e \<and> se_hasLocalVelocity e
                  then w\<lparr>os_needOwner := List.insert i (os_needOwner w),
                         os_nextOwnerless := min (os_nextOwnerless w) (se_changedOnServer e + MAX_OWNERLESS_PERIOD)\<rparr>
                  else w) = w0" by blast
    have f: "os_entities w0 = os_entities w" "os_now w0 = os_now w" "os_changed w0 = os_changed w" "os_nextStale w0 = os_nextStale w"
        "set (os_needOwner w0) \<subseteq> insert i (set (os_needOwner w))"
      unfolding w0 [symmetric] by auto
    show ?thesis
    proof (rule that)
      show "clearOwnership_loop now ownerID (i # ids) kept w
          = clearOwnership_loop now ownerID ids kept (w0\<lparr>os_entities := (os_entities w0)(i \<mapsto> give_up now e)\<rparr>)"
        using True w0 by (simp add: e Let_def give_up_def)
    qed (use f True in auto)
  next
    case False
    show ?thesis
    proof (rule that)
      show "clearOwnership_loop now ownerID (i # ids) kept w = clearOwnership_loop now ownerID ids (kept @ [i]) w"
        using False by (simp add: e)
    qed (use False e in auto)
  qed
  have "set ids \<subseteq> dom (os_entities w1)" using Cons.prems s(2) by auto
  from Cons.IH [OF this, of kept1] obtain w' where r: "clearOwnership_loop now ownerID ids kept1 w1 = Some w'"
    "\<forall>j. os_entities w' j
         = map_option (\<lambda>e. if j \<in> set ids \<and> so_id (se_owner e) = ownerID then give_up now e else e) (os_entities w1 j)"
    "os_now w' = os_now w1" "os_changed w' = os_changed w1" "os_nextStale w' = os_nextStale w1"
    "set (os_needOwner w') \<subseteq> set (os_needOwner w1) \<union> set ids" "set (os_withOwner w') \<subseteq> set kept1 \<union> set ids"
    "set kept1 \<subseteq> set (os_withOwner w')"
    "\<forall>j \<in> set ids. \<forall>e. os_entities w1 j = Some e \<longrightarrow> so_id (se_owner e) \<noteq> ownerID \<longrightarrow> j \<in> set (os_withOwner w')"
    by blast
  have "os_entities w' j
      = map_option (\<lambda>e. if j \<in> set (i # ids) \<and> so_id (se_owner e) = ownerID then give_up now e else e) (os_entities w j)" for j
    unfolding r(2) [rule_format, of j] s(2) using e by (cases "j = i") simp_all
  moreover have "j \<in> set (os_withOwner w')" if "j \<in> set (i # ids)" "os_entities w j = Some f" "so_id (se_owner f) \<noteq> ownerID" for j f
  proof (cases "j = i")
    case True
    then show ?thesis using that e s(9) r(8) by auto
  next
    case False
    then show ?thesis using that r(9) s(2) by auto
  qed
  moreover have "set (os_needOwner w') \<subseteq> set (os_needOwner w) \<union> set (i # ids)" using r(6) s(6) by auto
  moreover have "set (os_withOwner w') \<subseteq> set kept \<union> set (i # ids)" "set kept \<subseteq> set (os_withOwner w')"
    using r(7,8) s(7,8) by auto
  moreover have "os_now w' = os_now w" "os_changed w' = os_changed w" "os_nextStale w' = os_nextStale w"
    using r(3-5) s(3-5) by simp_all
  ultimately show ?case unfolding s(1) using r(1) by blast
qed

lemma leave_step_laws:
  assumes i: "own_inv w" and n: "os_now w \<le> now"
  shows "\<exists>w'. simulation_clearOwnership now ownerID w = Some w' \<and> own_inv w'
    \<and> (\<forall>j. os_entities w' j = map_option
         (\<lambda>e. if j \<in> set (os_withOwner w) \<and> so_id (se_owner e) = ownerID then give_up now e else e) (os_entities w j))"
proof -
  obtain w0 where w0: "w\<lparr>os_now := now\<rparr> = w0" by blast
  have f0: "os_entities w0 = os_entities w" "os_withOwner w0 = os_withOwner w" by (simp_all flip: w0)
  have i0: "own_inv w0" using own_inv_later [OF assms] w0 by simp
  have d: "set (os_withOwner w0) \<subseteq> dom (os_entities w0)" using i0 by (simp add: own_inv_def)
  from clearOwnership_loop_laws [OF d, of now ownerID "[]"]
  obtain w' where r: "clearOwnership_loop now ownerID (os_withOwner w0) [] w0 = Some w'"
    "\<forall>j. os_entities w' j = map_option
         (\<lambda>e. if j \<in> set (os_withOwner w0) \<and> so_id (se_owner e) = ownerID then give_up now e else e) (os_entities w0 j)"
    "os_now w' = os_now w0" "os_changed w' = os_changed w0" "os_nextStale w' = os_nextStale w0"
    "set (os_needOwner w') \<subseteq> set (os_needOwner w0) \<union> set (os_withOwner w0)" "set (os_withOwner w') \<subseteq> set [] \<union> set (os_withOwner w0)"
    "\<forall>j \<in> set (os_withOwner w0). \<forall>e. os_entities w0 j = Some e \<longrightarrow> so_id (se_owner e) \<noteq> ownerID \<longrightarrow> j \<in> set (os_withOwner w')"
    by blast
  have ei: "own_entity_inv w' j e" if es: "os_entities w' j = Some e" for j e
  proof -
    obtain e0 where e0: "os_entities w0 j = Some e0"
        "e = (if j \<in> set (os_withOwner w0) \<and> so_id (se_owner e0) = ownerID then give_up now e0 else e0)"
      using es unfolding r(2) [rule_format, of j] by (cases "os_entities w0 j") simp_all
    note k = own_invD [OF i0 e0(1), unfolded own_entity_inv_def]
    show ?thesis
    proof (cases "j \<in> set (os_withOwner w0) \<and> so_id (se_owner e0) = ownerID")
      case True
      then show ?thesis using k e0(2) r(3-5) by (simp add: own_entity_inv_def)
    next
      case False
      have "e = e0" using e0(2) unfolding if_not_P [OF False] .
      then show ?thesis
        using k e0(1) r(3-5,7) r(8) False unfolding own_entity_inv_def by (cases "j \<in> set (os_withOwner w0)") auto
    qed
  qed
  have "dom (os_entities w') = dom (os_entities w0)" using r(2) by (auto simp: dom_def)
  moreover have "set (os_changed w0) \<union> set (os_withOwner w0) \<union> set (os_needOwner w0) \<subseteq> dom (os_entities w0)"
    using i0 by (simp add: own_inv_def)
  ultimately have "set (os_changed w') \<union> set (os_withOwner w') \<union> set (os_needOwner w') \<subseteq> dom (os_entities w')"
    using r(4,6,7) by auto
  then have "own_inv w'" unfolding own_inv_def using ei by blast
  moreover have "simulation_clearOwnership now ownerID w = Some w'"
    using r(1) w0 f0 by (simp add: simulation_clearOwnership_def)
  ultimately show ?thesis using r(2) unfolding f0 by blast
qed

lemma own_inv_add:
  assumes i: "own_inv w" and e: "os_entities w j = None" "se_ownershipExpiry e = 0"
  shows "own_inv (simulation_addEntity j e w)"
proof -
  have "j \<notin> set (os_withOwner w)" "j \<notin> set (os_changed w)" using i e(1) by (auto simp: own_inv_def)
  then show ?thesis
    using e(2) by (intro own_inv_upd [OF i, of _ j "server_clearDirtyFlags (e\<lparr>se_simulated := True\<rparr>)"])
      (cases "so_id (se_owner e) = 0"; auto simp: simulation_addEntity_eq own_entity_inv_def server_clearDirtyFlags_def Let_def)+
qed

lemma own_inv_remove:
  assumes i: "own_inv w" and st: "simulation_removeEntity j w = Some w'"
  shows "own_inv w'"
proof -
  obtain e where e: "os_entities w j = Some e" using st by (auto simp: simulation_removeEntity_def split: Option.bind_splits)
  have w': "w' = w\<lparr>os_entities := (os_entities w)(j \<mapsto> e\<lparr>se_simulated := False\<rparr>),
      os_withOwner := removeAll j (os_withOwner w), os_needOwner := removeAll j (os_needOwner w)\<rparr>"
    using st by (simp add: simulation_removeEntity_def e)
  show ?thesis
    using own_invD [OF i e]
    by (intro own_inv_upd [OF i, of w' j "e\<lparr>se_simulated := False\<rparr>"]) (auto simp: w' own_entity_inv_def)
qed

lemma own_inv_motion:
  assumes i: "own_inv w" and e: "os_entities w j = Some e"
  shows "own_inv (w\<lparr>os_entities := (os_entities w)(j \<mapsto> e\<lparr>se_dynamic := dynamic, se_hasLocalVelocity := moving, se_dirtyVelocities := dirty\<rparr>),
             os_changed := List.insert j (os_changed w)\<rparr>)" (is "own_inv ?w")
  using own_invD [OF i e]
  by (intro own_inv_upd [OF i, of ?w j "e\<lparr>se_dynamic := dynamic, se_hasLocalVelocity := moving, se_dirtyVelocities := dirty\<rparr>"])
    (auto simp: own_entity_inv_def)

lemma own_inv_step:
  assumes "own_step ev w w'" "own_inv w"
  shows "own_inv w'"
  using assms
proof (cases rule: own_step.cases)
  case process
  then show ?thesis using processChangedEntities_laws [OF assms(2)] by auto
next
  case (update now)
  then show ?thesis using update_step_laws [OF assms(2) update(2)] by auto
next
  case (leave now ownerID)
  then show ?thesis using leave_step_laws [OF assms(2) leave(2), of ownerID] by auto
qed (use assms(2) own_inv_edit own_inv_add own_inv_remove own_inv_motion in blast)+

lemma own_reachable_inv: "own_reachable w \<Longrightarrow> own_inv w"
  by (induction rule: own_reachable.induct) (auto intro: own_inv_start own_inv_step)

section \<open>Who owns what\<close>

text \<open>An edit changes the owner only to clear the sender's own ownership, or to make the sender the owner.\<close>

lemma updateEntity_owner:
  assumes u: "EntityTree_updateEntity now allow senderID edit e = (ok, applied, e')"
    and c: "so_id (se_owner e') \<noteq> so_id (se_owner e)"
  shows "oe_ownerChanged edit \<and>
    ((so_id (se_owner e) = senderID \<and> so_id (oe_owner edit) = 0 \<and> so_id (se_owner e') = 0)
     \<or> (so_id (se_owner e) \<noteq> senderID \<and> senderID \<noteq> 0 \<and> so_id (oe_owner edit) = senderID \<and> so_id (se_owner e') = senderID
        \<and> (so_id (se_owner e) = 0 \<or> so_priority (se_owner e) \<le> so_priority (oe_owner edit))))"
proof -
  have nl: "\<not> se_locked e" "\<not> (\<not> allow \<and> se_locked e \<noteq> oe_locked edit)"
    using u c by (auto simp: EntityTree_updateEntity_def split: if_splits)
  obtain blocked edit1 e1 where a: "arbitrate_ownership now senderID edit e = Some (blocked, edit1, e1)"
    using u c nl by (auto simp: EntityTree_updateEntity_def split: option.splits)
  have e1: "se_owner e1 = se_owner e" using arbitrate_laws [OF a] by auto
  obtain edit2 where e2: "(if blocked then squash_physics edit1 else edit1) = edit2" by blast
  have p: "EntityItem_setProperties now edit2 e1 = e'"
    using u unfolding EntityTree_updateEntity_def if_not_P [OF nl(2)] if_not_P [OF nl(1)] a option.case prod.case Let_def e2 by simp
  note s = set_owner_laws [OF p]
  have ch: "oe_ownerChanged edit2"
  proof (rule ccontr)
    assume "\<not> oe_ownerChanged edit2"
    then show False using s(6) c e1 by simp
  qed
  have id': "so_id (se_owner e') = so_id (oe_owner edit2)" by (rule s(5) [OF ch])
  have nb: "\<not> blocked" using ch e2 by (auto simp: squash_physics_def)
  then have "edit2 = edit1" using e2 by simp
  moreover have "edit1 = EntityItemProperties_clearSimulationOwner edit \<and> so_id (oe_owner edit) = 0 \<and> so_id (se_owner e) = senderID
        \<and> oe_ownerChanged edit
      \<or> edit1 = promote_volunteer edit \<and> so_id (oe_owner edit) = senderID \<and> senderID \<noteq> 0 \<and> oe_ownerChanged edit
        \<and> (so_id (se_owner e) = 0 \<or> so_id (se_owner e) = senderID \<or> so_priority (se_owner e) \<le> so_priority (oe_owner edit))
      \<or> edit1 = edit \<and> \<not> oe_ownerChanged edit \<or> edit1 = edit \<and> so_id (oe_owner edit) = so_id (se_owner e)"
    using a nb by (auto simp: arbitrate_ownership_def Let_def split: if_splits)
  moreover have "so_id (oe_owner (promote_volunteer edit)) = so_id (oe_owner edit)"
      "so_id (oe_owner (EntityItemProperties_clearSimulationOwner edit)) = 0"
    by (simp_all add: promote_volunteer_def SimulationOwner_setPriority_def EntityItemProperties_clearSimulationOwner_def SimulationOwner_clear_def)
  ultimately show ?thesis using id' c ch by auto
qed

lemma editEntity_law:
  assumes e: "os_entities w i = Some e" and u: "EntityTree_updateEntity now allow senderID edit e = (ok, applied, e1)"
  shows "\<exists>w' e2. EntityTree_editEntity now allow senderID edit i w = Some (ok, w') \<and> os_now w' = now
    \<and> os_entities w' = (os_entities w)(i \<mapsto> e2) \<and> se_owner e2 = se_owner e1 \<and> se_locked e2 = se_locked e1
    \<and> se_simulated e2 = se_simulated e1 \<and> se_ownershipExpiry e2 = se_ownershipExpiry e1"
proof -
  obtain new where new: "(se_dirtySimulatorID e1 \<and> \<not> se_dirtySimulatorID e) = new" by blast
  obtain e2 where e2: "(if new \<and> \<not> se_simulated e1 then server_clearDirtyFlags e1 else e1) = e2" by blast
  have "se_owner e2 = se_owner e1" "se_locked e2 = se_locked e1" "se_simulated e2 = se_simulated e1"
      "se_ownershipExpiry e2 = se_ownershipExpiry e1" by (simp_all add: server_clearDirtyFlags_def flip: e2)
  then show ?thesis
    unfolding EntityTree_editEntity_def e Option.bind.bind_lunit u prod.case Let_def new e2
    by (intro exI [of _ "w\<lparr>os_now := now, os_entities := (os_entities w)(i \<mapsto> e2),
      os_changed := if new \<and> se_simulated e1 then List.insert i (os_changed w) else os_changed w\<rparr>"] exI [of _ e2]) simp
qed

text \<open>A step of the server and one entity: as it was, and as it is after.\<close>

lemma step_owner:
  assumes i: "own_inv w" and st: "own_step ev w w'" and e: "os_entities w j = Some e" and e': "os_entities w' j = Some e'"
    and c: "so_id (se_owner e') \<noteq> so_id (se_owner e)"
  shows "(\<exists>now allow edit. ev = Edit now allow (so_id (se_owner e)) edit j \<and> oe_ownerChanged edit \<and> so_id (oe_owner edit) = 0
            \<and> so_id (se_owner e') = 0)
       \<or> (\<exists>now allow edit. ev = Edit now allow (so_id (se_owner e')) edit j \<and> oe_ownerChanged edit
            \<and> so_id (oe_owner edit) = so_id (se_owner e')
            \<and> (so_id (se_owner e) = 0 \<or> so_priority (se_owner e) \<le> so_priority (oe_owner edit)))
       \<or> (\<exists>now. ev = Update now \<and> se_ownershipExpiry e < now \<and> so_id (se_owner e') = 0)
       \<or> (\<exists>now. ev = Leave now (so_id (se_owner e)) \<and> so_id (se_owner e') = 0)"
  using st
proof (cases rule: own_step.cases)
  case (edit now allow senderID edit k ok)
  obtain e0 where e0: "os_entities w k = Some e0" using edit(3) by (auto simp: EntityTree_editEntity_def split: Option.bind_splits)
  obtain ok1 ap e1 where u: "EntityTree_updateEntity now allow senderID edit e0 = (ok1, ap, e1)" by (rule prod_cases3)
  obtain e2 where es: "os_entities w' = (os_entities w)(k \<mapsto> e2)" "se_owner e2 = se_owner e1"
    using editEntity_law [OF e0 u] edit(3) by auto
  have k: "k = j" using es e e' c by (auto split: if_splits)
  then have "e0 = e" "so_id (se_owner e') = so_id (se_owner e1)"
    using es e' e e0 by auto
  then show ?thesis using updateEntity_owner [OF u] c edit(1) k by auto
next
  case process
  then show ?thesis
    using processChangedEntities_laws [OF i] e e' c by (auto simp: server_clearDirtyFlags_def split: if_splits)
next
  case (update now)
  obtain w2 where w2: "simulation_updateEntities now w = Some w2"
    "\<forall>j e e'. os_entities w j = Some e \<longrightarrow> os_entities w2 j = Some e'
        \<longrightarrow> same_ownership (if j \<in> set (os_withOwner w) then expire_one now e else e) e'"
    using update_step_laws [OF i update(2)] by blast
  have "w2 = w'" using w2(1) update(3) by simp
  then have "same_ownership (if j \<in> set (os_withOwner w) then expire_one now e else e) e'" using w2(2) e e' by blast
  then show ?thesis using c update(1) by (auto simp: same_ownership_def split: if_splits)
next
  case (leave now ownerID)
  then show ?thesis using leave_step_laws [OF i leave(2), of ownerID] e e' c by (auto split: if_splits)
next
  case (add k f)
  then show ?thesis using e e' c
    by (cases "k = j"; cases "so_id (se_owner f) = 0") (simp_all add: simulation_addEntity_eq Let_def)
next
  case (remove k)
  then show ?thesis using e e' c
    by (auto simp: simulation_removeEntity_def split: Option.bind_splits if_splits)
next
  case motion
  then show ?thesis using e e' c by (auto split: if_splits)
qed

section \<open>Properties\<close>

text \<open>A bid of a participant for itself.\<close>

lemma bid_law:
  assumes "\<not> se_locked e" "\<not> oe_locked edit" "oe_ownerChanged edit" "\<not> oe_lockedChanged edit" "senderID \<noteq> 0" "so_id (oe_owner edit) = senderID"
  shows "\<exists>applied e'. EntityTree_updateEntity now allow senderID edit e = (True, Some applied, e') \<and> \<not> se_locked e'
    \<and> (if so_id (se_owner e) = 0 \<or> so_id (se_owner e) = senderID \<or> so_priority (se_owner e) < so_priority (oe_owner edit)
          \<or> (so_priority (se_owner e) = so_priority (oe_owner edit) \<and> so_expiry (oe_owner edit) < now)
       then so_id (se_owner e') = senderID
         \<and> so_priority (se_owner e') = (if so_priority (oe_owner edit) = 2 then 3 else so_priority (oe_owner edit))
         \<and> se_ownershipExpiry e' = now + 10000000 \<and> applied = edit\<lparr>oe_owner := oe_owner applied\<rparr>
       else e' = e \<and> applied = edit\<lparr>oe_ownerChanged := False, oe_positionChanged := False, oe_rotationChanged := False,
         oe_velocityChanged := False, oe_angularVelocityChanged := False, oe_accelerationChanged := False,
         oe_parentIDChanged := False, oe_parentJointIndexChanged := False\<rparr>)"
proof -
  obtain wins where w: "(so_id (se_owner e) = 0 \<or> so_id (se_owner e) = senderID \<or> so_priority (se_owner e) < so_priority (oe_owner edit)
          \<or> (so_priority (se_owner e) = so_priority (oe_owner edit) \<and> so_expiry (oe_owner edit) < now)) = wins" by blast
  have a: "arbitrate_ownership now senderID edit e = (if wins
      then Some (False, promote_volunteer edit, e\<lparr>se_ownershipExpiry := now + MAX_INCOMING_SIMULATION_UPDATE_PERIOD\<rparr>)
      else Some (True, edit, e))"
    using assms(3,5,6) by (auto simp: arbitrate_ownership_def SimulationOwner_hasExpired_def Let_def simp flip: w)
  show ?thesis
    unfolding w using assms(1-6)
    by (cases wins) (auto simp: Let_def EntityTree_updateEntity_def a squash_physics_def promote_volunteer_def EntityItem_setProperties_def
        EntityItem_setSimulationOwner_def SimulationOwner_setOwner_def SimulationOwner_set_def SimulationOwner_setID_def
        SimulationOwner_setPriority_def SimulationOwner_updateExpiry_def VOLUNTEER_SIMULATION_PRIORITY_def
        RECRUIT_SIMULATION_PRIORITY_def MAX_INCOMING_SIMULATION_UPDATE_PERIOD_def)
qed

text \<open>
  C13. Whatever the order of edits, processing, updates, leaving, adding and removing, the owner of an entity changes only by
  the rules: its owner gives it up by an edit of its own; another participant becomes the owner by its own edit, naming itself, at a
  priority at least as high; the ownership has gone stale, its expiry being before the time of the update; or the
  owner leaves. In the last two and the first nobody owns it then.
\<close>

theorem Ownership_changes_only_by_rule:
  assumes "own_reachable w" "own_step ev w w'" "os_entities w i = Some e" "os_entities w' i = Some e'"
    and "so_id (se_owner e') \<noteq> so_id (se_owner e)"
  shows "(\<exists>now allow edit. ev = Edit now allow (so_id (se_owner e)) edit i \<and> oe_ownerChanged edit \<and> so_id (oe_owner edit) = 0
            \<and> so_id (se_owner e') = 0)
       \<or> (\<exists>now allow edit. ev = Edit now allow (so_id (se_owner e')) edit i \<and> oe_ownerChanged edit
            \<and> so_id (oe_owner edit) = so_id (se_owner e')
            \<and> (so_id (se_owner e) = 0 \<or> so_priority (se_owner e) \<le> so_priority (oe_owner edit)))
       \<or> (\<exists>now. ev = Update now \<and> se_ownershipExpiry e < now \<and> so_id (se_owner e') = 0)
       \<or> (\<exists>now. ev = Leave now (so_id (se_owner e)) \<and> so_id (se_owner e') = 0)"
  by (rule step_owner [OF own_reachable_inv [OF assms(1)] assms(2-5)])

definition plain_entity :: server_entity where
  "plain_entity = \<lparr>se_locked = False, se_owner = SimulationOwner_new, se_ownershipExpiry = 0, se_dirtySimulatorID = False,
     se_dirtyVelocities = False, se_dynamic = True, se_hasLocalVelocity = True, se_changedOnServer = 0, se_simulated = True\<rparr>"

definition bid :: "uuid \<Rightarrow> byte \<Rightarrow> ownership_edit" where
  "bid participant priority = \<lparr>oe_locked = False, oe_lockedChanged = False, oe_owner = SimulationOwner_of participant priority,
     oe_ownerChanged = True, oe_positionChanged = True, oe_rotationChanged = False, oe_velocityChanged = True,
     oe_angularVelocityChanged = False, oe_accelerationChanged = False, oe_parentIDChanged = False, oe_parentJointIndexChanged = False\<rparr>"

lemma bids_reachable:
  "\<exists>w w' e e'. own_reachable w \<and> own_step (Edit 20 True 9 (bid 9 127) 5) w w' \<and> os_entities w 5 = Some e \<and> os_entities w' 5 = Some e'
     \<and> so_id (se_owner e) = 7 \<and> so_priority (se_owner e) = 3 \<and> so_id (se_owner e') = 9
     \<and> os_now w = 10 \<and> se_simulated e \<and> se_ownershipExpiry e = 10000010"
proof -
  obtain w0 where w0: "simulation_addEntity 5 plain_entity ownership_server_new = w0" by blast
  have r0: "own_reachable w0"
    unfolding w0 [symmetric]
    by (rule own_reachable.step [OF own_reachable.start own_step.add]) (simp_all add: ownership_server_new_def plain_entity_def)
  have n0: "os_now w0 = 0" "os_entities w0 5 = Some plain_entity"
    by (simp_all add: simulation_addEntity_eq ownership_server_new_def plain_entity_def SimulationOwner_new_def
        server_clearDirtyFlags_def Let_def flip: w0)
  obtain applied1 e1 where u1: "EntityTree_updateEntity 10 True 7 (bid 7 2) plain_entity = (True, Some applied1, e1)"
    "so_id (se_owner e1) = 7" "so_priority (se_owner e1) = 3" "\<not> se_locked e1" "se_ownershipExpiry e1 = 10000010"
    using bid_law [of plain_entity "bid 7 2" 7 10 True]
    by (auto simp: plain_entity_def bid_def SimulationOwner_of_def SimulationOwner_new_def)
  obtain w1 f1 where w1: "EntityTree_editEntity 10 True 7 (bid 7 2) 5 w0 = Some (True, w1)" "os_now w1 = 10" "os_entities w1 5 = Some f1"
      "so_id (se_owner f1) = 7" "so_priority (se_owner f1) = 3" "\<not> se_locked f1" "se_simulated f1"
      "se_ownershipExpiry f1 = 10000010"
    using editEntity_law [OF n0(2) u1(1)] updateEntity_laws(1) [OF u1(1)] u1(2-5) by (auto simp: plain_entity_def)
  have r1: "own_reachable w1" by (rule own_reachable.step [OF r0 own_step.edit]) (use n0 w1 in simp_all)
  obtain applied2 e2 where u2: "EntityTree_updateEntity 20 True 9 (bid 9 127) f1 = (True, Some applied2, e2)" "so_id (se_owner e2) = 9"
    using bid_law [OF w1(6), of "bid 9 127" 9 20 True] w1(5) by (auto simp: bid_def SimulationOwner_of_def)
  obtain w2 f2 where w2: "EntityTree_editEntity 20 True 9 (bid 9 127) 5 w1 = Some (True, w2)" "os_entities w2 5 = Some f2"
      "so_id (se_owner f2) = 9"
    using editEntity_law [OF w1(3) u2(1)] u2(2) by auto
  have "own_step (Edit 20 True 9 (bid 9 127) 5) w1 w2" by (rule own_step.edit [OF _ w2(1)]) (simp add: w1(2))
  then show ?thesis using r1 w1(2-5,7,8) w2(2,3) by blast
qed

lemma Ownership_changes_only_by_rule_witness:
  "\<exists>w w' e e'. own_step (Edit 20 True 9 (bid 9 127) 5) w w' \<and> os_entities w 5 = Some e \<and> os_entities w' 5 = Some e'
     \<and> so_id (se_owner e) = 7 \<and> so_id (se_owner e') = 9 \<and> so_priority (se_owner e) \<le> 127"
proof -
  obtain w w' e e' where s: "own_reachable w" "own_step (Edit 20 True 9 (bid 9 127) 5) w w'" "os_entities w 5 = Some e"
    "os_entities w' 5 = Some e'" "so_id (se_owner e) = 7" "so_priority (se_owner e) = 3" "so_id (se_owner e') = 9"
    using bids_reachable by blast
  have "so_id (se_owner e') \<noteq> so_id (se_owner e)" using s(5,7) by simp
  from Ownership_changes_only_by_rule [OF s(1-4) this]
  have "so_priority (se_owner e) \<le> so_priority (oe_owner (bid 9 127))" using s(5,7) by auto
  then have "so_priority (se_owner e) \<le> 127" by (simp add: bid_def SimulationOwner_of_def)
  then show ?thesis using s by blast
qed

text \<open>
  C14. In any state the server can reach, once the pending changes have been processed an update at time \<open>now\<close> goes through, and of the
  entities in the simulation it clears the owner of exactly those whose ownership expired before \<open>now\<close>: no owner that fell
  silent is overlooked, though the search runs only when the earliest expiry has passed, and none that renewed is cleared.
\<close>

theorem Stale_ownership_is_cleared:
  assumes "own_reachable w" "os_now w \<le> now"
  shows "\<exists>w1 w2. processChangedEntities w = Some w1 \<and> simulation_updateEntities now w1 = Some w2
    \<and> (\<forall>i e. os_entities w i = Some e \<longrightarrow> se_simulated e \<longrightarrow> (\<exists>e2. os_entities w2 i = Some e2
         \<and> so_id (se_owner e2) = (if se_ownershipExpiry e < now then 0 else so_id (se_owner e))))"
proof -
  obtain w1 where w1: "processChangedEntities w = Some w1" "own_inv w1" "os_now w1 = os_now w"
    "\<forall>j. os_entities w1 j = map_option (\<lambda>e. if j \<in> set (os_changed w) \<and> se_simulated e then server_clearDirtyFlags e else e) (os_entities w j)"
    "\<forall>j e. os_entities w1 j = Some e \<longrightarrow> se_simulated e \<longrightarrow> \<not> se_dirtySimulatorID e"
    using processChangedEntities_laws [OF own_reachable_inv [OF assms(1)]] by blast
  obtain w2 where w2: "simulation_updateEntities now w1 = Some w2" "dom (os_entities w2) = dom (os_entities w1)"
    "\<forall>j e e'. os_entities w1 j = Some e \<longrightarrow> os_entities w2 j = Some e'
        \<longrightarrow> same_ownership (if j \<in> set (os_withOwner w1) then expire_one now e else e) e'"
    using update_step_laws [OF w1(2), of now] w1(3) assms(2) by auto
  have "\<exists>e2. os_entities w2 i = Some e2 \<and> so_id (se_owner e2) = (if se_ownershipExpiry e < now then 0 else so_id (se_owner e))"
    if e: "os_entities w i = Some e" "se_simulated e" for i e
  proof -
    obtain f where f: "os_entities w1 i = Some f" "se_owner f = se_owner e" "se_ownershipExpiry f = se_ownershipExpiry e" "se_simulated f"
      using w1(4) [rule_format, of i] e by (simp add: server_clearDirtyFlags_def split: if_splits)
    have "i \<in> dom (os_entities w2)" using f(1) unfolding w2(2) by blast
    then obtain e2 where e2: "os_entities w2 i = Some e2" by blast
    have s: "same_ownership (if i \<in> set (os_withOwner w1) then expire_one now f else f) e2" using w2(3) f(1) e2 by blast
    have "so_id (se_owner f) = 0" if "i \<notin> set (os_withOwner w1)"
      using own_invD [OF w1(2) f(1)] w1(5) f(1,4) that unfolding own_entity_inv_def by blast
    then show ?thesis using s f(2,3) e2 by (auto simp: same_ownership_def split: if_splits)
  qed
  then show ?thesis using w1(1) w2(1) by blast
qed

lemma Stale_ownership_is_cleared_witness:
  "\<exists>w w1 w2 e e2. os_entities w 5 = Some e \<and> so_id (se_owner e) = 7 \<and> processChangedEntities w = Some w1
     \<and> simulation_updateEntities 20000000 w1 = Some w2 \<and> os_entities w2 5 = Some e2 \<and> so_id (se_owner e2) = 0"
proof -
  obtain w e where s: "own_reachable w" "os_now w = 10" "os_entities w 5 = Some e" "so_id (se_owner e) = 7" "se_simulated e"
    "se_ownershipExpiry e = 10000010"
    using bids_reachable by blast
  have "os_now w \<le> 20000000" using s(2) by simp
  from Stale_ownership_is_cleared [OF s(1) this] obtain w1 w2 where r: "processChangedEntities w = Some w1"
    "simulation_updateEntities 20000000 w1 = Some w2" "\<exists>e2. os_entities w2 5 = Some e2
         \<and> so_id (se_owner e2) = (if se_ownershipExpiry e < 20000000 then 0 else so_id (se_owner e))"
    using s(3,5) by blast
  have "\<exists>e2. os_entities w2 5 = Some e2 \<and> so_id (se_owner e2) = 0" using r(3) s(6) by simp
  then show ?thesis using s(3,4) r(1,2) by blast
qed

text \<open>
  C15. A bid of a participant for itself, on an unlocked entity, by an edit that neither locks nor changes the lock: it wins when
  nobody owns the entity, when the participant already does, when its priority is higher, or at equal priority when the owner it
  submits has expired (the code asks the submitted owner, not the current one as rule (3) of \<open>SimulationOwner.h\<close> has it). The
  winner becomes the owner at its priority, a volunteer promoted; the ownership is stale after ten seconds unless renewed (rule (5) says
  five); and everything else of the edit goes through as it was sent. The loser changes neither owner nor expiry, and of
  its edit exactly the owner, the five physical properties and the two of the parent are taken out.
\<close>

theorem Bid_wins_or_is_squashed:
  assumes "\<not> se_locked e" "\<not> oe_locked edit" "oe_ownerChanged edit" "\<not> oe_lockedChanged edit" "senderID \<noteq> 0" "so_id (oe_owner edit) = senderID"
  shows "\<exists>applied e'. EntityTree_updateEntity now allow senderID edit e = (True, Some applied, e')
    \<and> (if so_id (se_owner e) = 0 \<or> so_id (se_owner e) = senderID \<or> so_priority (se_owner e) < so_priority (oe_owner edit)
          \<or> (so_priority (se_owner e) = so_priority (oe_owner edit) \<and> so_expiry (oe_owner edit) < now)
       then so_id (se_owner e') = senderID
         \<and> so_priority (se_owner e') = (if so_priority (oe_owner edit) = 2 then 3 else so_priority (oe_owner edit))
         \<and> se_ownershipExpiry e' = now + 10000000 \<and> applied = edit\<lparr>oe_owner := oe_owner applied\<rparr>
       else e' = e \<and> applied = edit\<lparr>oe_ownerChanged := False, oe_positionChanged := False, oe_rotationChanged := False,
         oe_velocityChanged := False, oe_angularVelocityChanged := False, oe_accelerationChanged := False,
         oe_parentIDChanged := False, oe_parentJointIndexChanged := False\<rparr>)"
  using bid_law [OF assms, of now allow] by blast

lemma Bid_wins_or_is_squashed_witness:
  "\<exists>applied e'. EntityTree_updateEntity 10 True 7 (bid 7 2) plain_entity = (True, Some applied, e')
     \<and> so_id (se_owner e') = 7 \<and> so_priority (se_owner e') = 3 \<and> se_ownershipExpiry e' = 10000010"
  using Bid_wins_or_is_squashed [of plain_entity "bid 7 2" 7 10 True]
  by (auto simp: plain_entity_def bid_def SimulationOwner_of_def SimulationOwner_new_def)

text \<open>
  C29. The lockout of equal bids never applies. The arbitration asks the submitted owner whether it has expired, and a submitted owner
  read from the wire has expiry 0: so a bid at the priority of the current owner takes the entity, even when that owner's own
  200 milliseconds are not over.
\<close>

theorem Equal_bid_ignores_the_lockout:
  assumes "\<not> se_locked e" "\<not> oe_locked edit" "\<not> oe_lockedChanged edit" "oe_owner edit = SimulationOwner_new"
    and "SimulationOwner_toByteArray (SimulationOwner_of senderID (so_priority (se_owner e))) = data"
    and "senderID \<noteq> 0" "so_id (se_owner e) \<noteq> senderID" "0 < now" "now \<le> so_expiry (se_owner e)"
  shows "\<exists>applied e'. EntityTree_updateEntity now allow senderID (EntityItemProperties_setSimulationOwner_bytes data edit) e
      = (True, Some applied, e') \<and> so_id (se_owner e') = senderID"
proof -
  obtain edit1 where e1: "EntityItemProperties_setSimulationOwner_bytes data edit = edit1" by blast
  have "length data = 17" "take 16 data = toRfc4122 senderID" "data ! 16 = so_priority (se_owner e)"
    using assms(5) by (auto simp: SimulationOwner_toByteArray_def SimulationOwner_of_def nth_append)
  then have o: "oe_ownerChanged edit1" "so_id (oe_owner edit1) = senderID" "so_priority (oe_owner edit1) = so_priority (se_owner e)"
      "so_expiry (oe_owner edit1) = 0" "oe_locked edit1 = oe_locked edit" "oe_lockedChanged edit1 = oe_lockedChanged edit"
    using assms(4) by (auto simp: EntityItemProperties_setSimulationOwner_bytes_def SimulationOwner_fromByteArray_def
        SimulationOwner_new_def simp flip: e1)
  have a: "arbitrate_ownership now senderID edit1 e
      = Some (False, promote_volunteer edit1, e\<lparr>se_ownershipExpiry := now + MAX_INCOMING_SIMULATION_UPDATE_PERIOD\<rparr>)"
    using o assms(6,8) by (simp add: arbitrate_ownership_def SimulationOwner_hasExpired_def Let_def)
  show ?thesis
    unfolding e1 using o assms(1-3)
    by (auto simp: EntityTree_updateEntity_def a promote_volunteer_def EntityItem_setProperties_def
        EntityItem_setSimulationOwner_def SimulationOwner_setOwner_def SimulationOwner_set_def SimulationOwner_setID_def
        SimulationOwner_setPriority_def SimulationOwner_updateExpiry_def Let_def)
qed

lemma Equal_bid_ignores_the_lockout_witness:
  "\<exists>applied e'. EntityTree_updateEntity 50 True 9
       (EntityItemProperties_setSimulationOwner_bytes (SimulationOwner_toByteArray (SimulationOwner_of 9 3))
          (bid 7 3\<lparr>oe_owner := SimulationOwner_new\<rparr>))
       (plain_entity\<lparr>se_owner := snd (SimulationOwner_set 40 7 3 SimulationOwner_new)\<rparr>) = (True, Some applied, e')
     \<and> so_id (se_owner e') = 9"
proof -
  obtain e where e: "plain_entity\<lparr>se_owner := snd (SimulationOwner_set 40 7 3 SimulationOwner_new)\<rparr> = e" by blast
  have f: "\<not> se_locked e" "so_priority (se_owner e) = 3" "so_id (se_owner e) = 7" "so_expiry (se_owner e) = 200040"
    by (simp_all add: plain_entity_def SimulationOwner_set_def SimulationOwner_setID_def SimulationOwner_setPriority_def
        SimulationOwner_updateExpiry_def SimulationOwner_new_def flip: e)
  show ?thesis
    unfolding e using Equal_bid_ignores_the_lockout [of e "bid 7 3\<lparr>oe_owner := SimulationOwner_new\<rparr>" 9 _ 50 True, OF f(1)] f
    by (simp add: bid_def)
qed

text \<open>
  C30. A participant that creates a moving entity it owns does not keep it: the entity is added with the ownership expiry 0 of a new
  entity, so the next update takes the ownership for stale and clears it, however young it is.
\<close>

theorem Created_ownership_is_lost:
  assumes "own_reachable w" "os_entities w i = None" "se_ownershipExpiry e = 0" "so_id (se_owner e) \<noteq> 0" "os_now w \<le> now" "0 < now"
  shows "\<exists>w2 e2. simulation_updateEntities now (simulation_addEntity i e w) = Some w2 \<and> os_entities w2 i = Some e2
    \<and> so_id (se_owner e2) = 0 \<and> i \<notin> set (os_withOwner w2)"
proof -
  obtain w1 where w1: "simulation_addEntity i e w = w1" by blast
  obtain f where f: "os_entities w1 i = Some f" "se_ownershipExpiry f = 0" "i \<in> set (os_withOwner w1)" "os_now w1 = os_now w"
    using assms(3,4) w1 by (auto simp: simulation_addEntity_eq server_clearDirtyFlags_def Let_def)
  have i1: "own_inv w1" unfolding w1 [symmetric] by (rule own_inv_add [OF own_reachable_inv [OF assms(1)] assms(2,3)])
  have n: "os_now w1 \<le> now" using f(4) assms(5) by simp
  obtain w2 where w2: "simulation_updateEntities now w1 = Some w2" "dom (os_entities w2) = dom (os_entities w1)"
    "\<forall>j e e'. os_entities w1 j = Some e \<longrightarrow> os_entities w2 j = Some e'
        \<longrightarrow> same_ownership (if j \<in> set (os_withOwner w1) then expire_one now e else e) e'"
    "set (os_withOwner w2) = {j \<in> set (os_withOwner w1). \<exists>e. os_entities w1 j = Some e \<and> now \<le> se_ownershipExpiry e}"
    using update_step_laws [OF i1 n] by blast
  have "i \<in> dom (os_entities w2)" using f(1) unfolding w2(2) by blast
  then obtain e2 where e2: "os_entities w2 i = Some e2" by blast
  have "same_ownership (if i \<in> set (os_withOwner w1) then expire_one now f else f) e2" using w2(3) f(1) e2 by blast
  then have "same_ownership (expire_one now f) e2" using f(3) by simp
  then have "so_id (se_owner e2) = 0" using f(2) assms(6) by (simp add: same_ownership_def)
  moreover have "i \<notin> set (os_withOwner w2)" using w2(4) f(1,2) assms(6) by simp
  ultimately show ?thesis unfolding w1 using w2(1) e2 by blast
qed

lemma Created_ownership_is_lost_witness:
  "\<exists>w2 e2. simulation_updateEntities 100 (simulation_addEntity 5 (plain_entity\<lparr>se_owner := SimulationOwner_of 7 3\<rparr>) ownership_server_new)
      = Some w2 \<and> os_entities w2 5 = Some e2 \<and> so_id (se_owner e2) = 0 \<and> 5 \<notin> set (os_withOwner w2)"
  by (rule Created_ownership_is_lost [OF own_reachable.start])
    (simp_all add: ownership_server_new_def plain_entity_def SimulationOwner_of_def)
end
