(* ===== verification/Spec2Isabelle.thy ===== *)
theory Spec2Isabelle
  imports Udt_Transfer Udt_Socket Packet_Headers Node_List Nl_Wire Node_Tables Node_Verify Node_Corners
    Property_Flags Octree_Packet_Data Data_Serdes Octree_Values Voxel_Point Entity_Edit Sim_Ownership
begin

text \<open>
  A model of the networking and wire-format core of Overte, with the theorems that make it correct: the reliable
  datagram transport, the node list that authenticates packets above it, the formats in which octree servers and clients
  exchange entities, and the ownership of simulation that the entity server arbitrates.

  The program's parts and how they interact.

  A \<open>udt::Socket\<close> (\<open>libraries/networking/src/udt\<close>) sends and receives datagrams. Unreliable packets carry a sequence number per
  destination; reliable ones go through a \<open>udt::Connection\<close> per peer, which owns a \<open>SendQueue\<close>. The queue numbers packets,
  performs the handshake, keeps what is not acknowledged and sends it again when the peer reports a loss or when time runs out,
  within the window that \<open>TCPVegasCC\<close> computes. The receiving connection keeps a \<open>LossList\<close> of the numbers it misses, accepts every
  number once, acknowledges the prefix it has, and puts messages of several packets together. Above it
  \<open>LimitedNodeList\<close> keeps the nodes of the domain in two tables, and installs in the socket the filters that decide which
  datagrams are let in: a packet is accepted when its source is a known node and its verification hash, keyed with the connection
  secret, is right. The payloads are written by \<open>PacketList\<close>, \<open>OctreePacketData\<close> and \<open>DataSerializer\<close>. An entity edit is an
  octal code, an identifier and the values of the properties named by encoded \<open>PropertyFlags\<close>; what does not fit goes
  into a next packet. The server that receives an edit decides whether its sender may take the ownership of the simulation.

  Which theory models what.

  \<^item> \<open>Prelude\<close>: C++ integers (\<open>wrap32\<close>, \<open>fits32\<close>, words), byte buffers with checked access, little-endian encodings.
    \<open>Byte_Stream\<close>: the locales \<open>byte_sink\<close>, \<open>byte_source\<close> and \<open>byte_channel\<close>, the contract between a writer and a reader of values.
  \<^item> \<open>Udt_Sequence\<close>, \<open>Udt_Loss\<close>, \<open>Udt_Constants\<close>: \<open>SequenceNumber.h\<close>, \<open>LossList.h/.cpp\<close>, \<open>Constants.h\<close>. The loss list is shown
    to refine a finite set (locale \<open>loss_set\<close>).
  \<^item> \<open>Udt_Base_Packet\<close>, \<open>Udt_Packet\<close>, \<open>Udt_Control\<close>: \<open>BasePacket\<close>, \<open>Packet\<close>, \<open>ControlPacket\<close>. A packet is a record that extends
    the record of its base class, as the classes do; headers, obfuscation, copies, parsing of received data.
  \<^item> \<open>Udt_Packet_Queue\<close>, \<open>Udt_Packet_List\<close>: \<open>PacketQueue\<close> (channels and round robin, locale \<open>packet_source\<close>) and \<open>PacketList\<close>.
  \<^item> \<open>Udt_Send_Queue\<close>, \<open>Udt_Stats\<close>, \<open>Udt_Vegas\<close>, \<open>Udt_Connection\<close>: the classes of those names. \<open>Udt_Transfer\<close>
    composes a send queue with a receiving connection over a network that loses, repeats and reorders datagrams.
  \<^item> \<open>Udt_Socket\<close>: \<open>Socket.h/.cpp\<close>, its tables, dispatch and writes (locale \<open>peer_handler\<close>).
  \<^item> \<open>Packet_Headers\<close>, \<open>Nl_Packet\<close>, \<open>Nl_Wire\<close>: \<open>PacketHeaders.h/.cpp\<close>, \<open>NLPacket\<close>, \<open>HMACAuth\<close> (locale \<open>keyed_hash\<close>).
  \<^item> \<open>Node_List\<close>: the state and operations of \<open>NetworkPeer\<close>, \<open>Node\<close> and \<open>LimitedNodeList\<close>; \<open>Node_Tables\<close>: the invariant of the
    tables; \<open>Node_Verify\<close>: authentication from sender to receiver; \<open>Node_Corners\<close>: two situations in which the tables go wrong.
  \<^item> \<open>Bit_Coding\<close>, \<open>Property_Flags\<close>: \<open>ByteCountCoding.h\<close>, \<open>BitVectorHelpers.h\<close>, \<open>PropertyFlags.h\<close> (locale \<open>bit_action\<close> for
    the loops the two codes share). \<open>Octal_Code\<close>, \<open>Voxel_Point\<close>: \<open>OctalCode.cpp\<close> and \<open>pointToVoxel\<close> of \<open>SharedUtil.cpp\<close>, over
    the rounding of \<open>Float_Round\<close>.
  \<^item> \<open>Octree_Packet_Data\<close>, \<open>Octree_Values\<close>, \<open>Data_Serdes\<close>: \<open>OctreePacketData\<close> (the buffer, then the overloads of
    \<open>appendValue\<close> and \<open>unpackDataFromBytes\<close>) and \<open>SerDes.h/.cpp\<close>; both interpret \<open>byte_channel\<close>.
  \<^item> \<open>Entity_Edit\<close>: \<open>encodeEntityEditPacket\<close>, \<open>decodeEntityEditPacket\<close>, the clone and erase messages and
    \<open>EntityEditPacketSender::queueEditEntityMessage\<close>.
  \<^item> \<open>Sim_Ownership\<close>: \<open>SimulationOwner\<close>, the arbitration in \<open>EntityTree::updateEntity\<close> and \<open>SimpleEntitySimulation\<close>, as a state machine.

  How state and operations correspond to the code.

  A class is a record with one field per member, a method a definition \<open>Class_method\<close> that takes the arguments and the
  object and returns the new object; a member that is a pointer to a shared object is a reference into a heap that the state carries
  (\<open>nl_heap\<close>). Above each definition a comment names the file, the lines and the symbol it translates. Signals and datagrams that
  leave an object are events in the result, in the order the code causes them. Locks make an operation one atomic step;
  where the code waits, what comes before and after the wait are two steps. The time, random numbers and what the network delivers
  are arguments. Undefined behaviour of C++ (an access outside an allocation, a null pointer) is \<open>None\<close>, and a
  loop that might not end is a \<open>partial_function\<close> whose end is proved where a theorem needs it; no recursion uses fuel. Bytes that were
  allocated and not written are a parameter (\<open>fresh\<close>). Unsigned and bitwise integers are words; an \<open>int\<close> that can overflow goes
  through \<open>wrap32\<close>. Floats that are only stored and sent are their 32 bits; where the octal codes compute with floats, a float is a
  real and every operation rounds as binary32 does (\<open>fl\<close>); \<open>double\<close> and the components of quaternions are reals without rounding. Counters
  of TCP Vegas and the bit count of \<open>PropertyFlags::decode\<close> (which would wrap from 2 to the power 28 bytes on) are unbounded.

  What the lemmas show.

  \<^item> Transport. Within a window of numbers that does not cross zero, and however the network loses, repeats and reorders: what the
    receiver has not accepted stays in the send queue or on its way, and each number is accepted once. Across zero this is false of the
    code, and \<open>Connection_refuses_new_number_after_wrap\<close> computes how. An acknowledgement that is stale or beyond what was
    sent leaves the send queue as it is; messages are put together from parts in any order; the handshake
    establishes a connection whose initial number is not zero; the main channel of a queue is served.
  \<^item> Node list. What is accepted is exactly what is authentic for the hash object a node has; what one node signs the other accepts;
    what fails verification reaches no handler; the node table keeps one node per identifier, and of each role that a domain has once.
    The table of local identifiers can keep a node that is gone (\<open>NodeList_update_strands_local_id\<close>).
  \<^item> Formats. Every encoder has its round trip with the decoder, for values within the sizes the encoding can count (\<open>value_ok\<close>; what
    happens to larger strings is \<open>oversized_strings_wrap\<close>); buffers refine bounded lists, except that a colour is refused when exactly its three
    bytes are free; a read reports exactly the bytes it looks at; \<open>PropertyFlags\<close> is a set; octal codes are paths in
    an ordered tree, and the code of a point addresses the element around it down to a size of 2 to the power -23.
  \<^item> Entities. An edit that is decoded gives back the properties that were encoded; a large edit is spread over packets that together
    hold every property that fits one, and the loop ends (for values within those sizes). The owner of an entity changes only by the rules the code
    has, which differ from those \<open>SimulationOwner.h\<close> writes down in the lockout of equal bids and in the time after which ownership goes
    stale; stale ownership is cleared by the next update.
  \<^item> Where the code does not do what it means to, a theorem or a lemma states what it does: \<open>operator-=\<close> of sequence numbers, a
    connection that starts at number zero, \<open>OctreePacketData\<close> levels that lose space, sizes cut to 16 bits, the lockout of equal bids, ownership
    lost at creation, and others beside the operations they concern.

  Bounds and hypotheses. The 27-bit numbers are compared circularly; theorems about streams of packets speak of a window \<open>W\<close> of less
  than half the number space that does not cross zero (\<open>win_ok W\<close>), within which comparisons are those of the integers;
  a stream that reaches the largest number leaves the window, and the theorems say nothing of what follows. Parameters stand for code outside the repository: OpenSSL's keyed hash
  (nothing is assumed of it but that it is a function), MD5, Qt's compression (only that it is undone), glm's normalization,
  and the list of entity properties that the build generates.

  Not modelled, and why: the sockets of the operating system and WebRTC, the domain handshake, STUN and ICE (Qt objects, timers and
  name lookups around the packets modelled here); assets and HTTP; the tree of octree elements, the spatial operators and the entity
  types, audio, avatars and physics (object graphs and signal processing over floating point and libraries outside the repository);
  rendering, scripting and the user interface; the processes of the servers. Log output, statistics for display and linked data are left out
  of the classes that are modelled.
\<close>

end
